(* ===== verification/Prelude.thy ===== *)
theory Prelude
  imports Main "HOL-Library.Word"
begin

text \<open>
  Types, conventions and generic lemmas the component theories share: the machine integers of
  the library (bytes, \<open>size_t\<close>, \<open>uintmax_t\<close>), memory blocks as byte lists, the patching of a
  block (\<open>memcpy\<close>, \<open>memset\<close>), and the arithmetic of the range checks, which the code writes so
  that no sum of an offset and a length overflows.
\<close>

unbundle bit_operations_syntax

section \<open>Machine integers\<close>

type_synonym byte = "8 word"
type_synonym size_t = "64 word"
type_synonym uintmax_t = "64 word"

abbreviation SIZE_MAX :: size_t where
  "SIZE_MAX \<equiv> - 1"

abbreviation UINT8_MAX :: size_t where
  "UINT8_MAX \<equiv> 255"

text \<open>Facts that turn a check on \<open>size_t\<close> values into one on natural numbers.\<close>

named_theorems range_simps

lemma unat_size_max [simp]: "unat SIZE_MAX = 18446744073709551615"
  by (simp add: unsigned_minus_1_eq_mask mask_eq_exp_minus_1)

lemma unat_size_less: "unat (a :: size_t) < 18446744073709551616"
proof -
  have "unat a < 2 ^ LENGTH(64)" by (rule unsigned_less)
  then show ?thesis by simp
qed

lemma unat_le_size_max: "unat (a :: size_t) \<le> 18446744073709551615"
  using unat_size_less [of a] by simp

lemma unat_add_small: "unat (a :: size_t) + unat b < 18446744073709551616 \<Longrightarrow> unat (a + b) = unat a + unat b"
  by (simp add: unat_word_ariths)

lemma unat_diff_le: "b \<le> (a :: 'a :: len word) \<Longrightarrow> unat (a - b) = unat a - unat b"
  by (rule unat_sub)

lemma fits_iff [range_simps]:
  fixes len off lim :: size_t
  shows "(len > lim \<or> off > lim - len) \<longleftrightarrow> unat lim < unat off + unat len"
proof (cases "len \<le> lim")
  case True
  then show ?thesis by (auto simp: word_less_nat_alt unat_sub word_le_nat_alt)
next
  case False
  then show ?thesis by (auto simp: word_less_nat_alt word_le_nat_alt not_le)
qed

lemma fits_iff' [range_simps]:
  fixes len off lim :: size_t
  shows "(len \<le> lim \<and> off \<le> lim - len) \<longleftrightarrow> unat off + unat len \<le> unat lim"
  using fits_iff [where len = len and lim = lim and off = off]
  by (simp only: not_less [symmetric] de_Morgan_disj [symmetric])

lemma offset_fits_iff [range_simps]:
  fixes len off lim :: size_t
  shows "(off > lim \<or> len > lim - off) \<longleftrightarrow> unat lim < unat off + unat len"
  using fits_iff [where len = off and lim = lim and off = len] by (simp add: add.commute)

lemma unat_of_nat_size: "n < 18446744073709551616 \<Longrightarrow> unat (word_of_nat n :: size_t) = n"
  by (simp add: unat_of_nat)

lemma unat_byte_less [simp]: "unat (b :: byte) < 256"
  using unsigned_less [of b] by simp

section \<open>Memory blocks\<close>

text \<open>
  Storing a run of bytes into a block, as \<open>memcpy\<close> and \<open>memset\<close> do: the bytes before the
  offset and after the run are kept.
\<close>

definition patch :: "'a list \<Rightarrow> nat \<Rightarrow> 'a list \<Rightarrow> 'a list" where
  "patch block off run = take off block @ run @ drop (off + length run) block"

lemma length_patch: "off + length run \<le> length block \<Longrightarrow> length (patch block off run) = length block"
  by (simp add: patch_def)

lemma patch_Nil [simp]: "off \<le> length block \<Longrightarrow> patch block off [] = block"
  by (simp add: patch_def)

lemma take_patch_before: "n \<le> off \<Longrightarrow> off \<le> length block \<Longrightarrow> take n (patch block off run) = take n block"
  by (simp add: patch_def min_def)

lemma nth_patch:
  "off + length run \<le> length block \<Longrightarrow> i < length block \<Longrightarrow>
    patch block off run ! i = (if i < off then block ! i
      else if i < off + length run then run ! (i - off) else block ! i)"
  by (auto simp: patch_def nth_append)

lemma take_patch_upto:
  "off \<le> length block \<Longrightarrow> take (off + length run) (patch block off run) = take off block @ run"
  by (simp add: patch_def)

lemma take_patch_within:
  "off + length run \<le> n \<Longrightarrow> n \<le> length block \<Longrightarrow>
    take n (patch block off run) = patch (take n block) off run"
  by (rule nth_equalityI) (auto simp: length_patch nth_patch)

lemma take_drop_patch: "off \<le> length block \<Longrightarrow> take (length run) (drop off (patch block off run)) = run"
  by (simp add: patch_def)

text \<open>
  Memory the allocator gives out holds whatever it held before. A heap says, for a size,
  whether the memory is there, and if it is, what its bytes hold; \<open>realloc\<close> keeps the bytes
  the block has and takes the rest from the heap.
\<close>

type_synonym heap = "size_t \<Rightarrow> (nat \<Rightarrow> byte) option"

definition realloc :: "heap \<Rightarrow> byte list option \<Rightarrow> size_t \<Rightarrow> byte list option" where
  "realloc h old n = (case h n of
     None \<Rightarrow> None
   | Some junk \<Rightarrow>
       let kept = take (unat n) (case old of None \<Rightarrow> [] | Some d \<Rightarrow> d)
       in Some (kept @ map junk [length kept..<unat n]))"

lemma realloc_length: "realloc h old n = Some d \<Longrightarrow> length d = unat n"
  by (auto simp: realloc_def Let_def split: option.splits)

lemma realloc_take:
  "realloc h (Some old) n = Some d \<Longrightarrow> length old \<le> unat n \<Longrightarrow> take (length old) d = old"
  by (auto simp: realloc_def Let_def split: option.splits)

text \<open>A heap which never refuses a request.\<close>

definition generous :: "heap \<Rightarrow> bool" where
  "generous h \<longleftrightarrow> (\<forall>n. h n \<noteq> None)"

lemma generous_realloc: "generous h \<Longrightarrow> \<exists>d. realloc h old n = Some d"
  by (auto simp: generous_def realloc_def Let_def split: option.splits)

section \<open>Lists\<close>

lemma take_drop_append_split:
  "m + n \<le> length xs \<Longrightarrow> take m xs @ take n (drop m xs) = take (m + n) xs"
  by (metis take_add)

end
