(* ===== verification/Errors.thy ===== *)
theory Errors
  imports Prelude
begin

text \<open>
  Error codes (\<^verbatim>\<open>include/opendmi/error.h\<close>) and the ring queue the errors of a context are
  kept in (\<^verbatim>\<open>src/error.c\<close>). The functions of the library return \<open>false\<close> or a null pointer on
  failure, after raising an error or without raising any; the model returns the left value of
  a sum, which says whether an error was raised and which.
\<close>

datatype dmi_error_code =
    DMI_ERROR_NONE
  | DMI_ERROR_INTERNAL
  | DMI_ERROR_SYSTEM
  | DMI_ERROR_OUT_OF_MEMORY
  | DMI_ERROR_ARGUMENT_NULL
  | DMI_ERROR_ARGUMENT_INVALID
  | DMI_ERROR_STATE_INVALID
  | DMI_ERROR_FILE_OPEN_FAILED
  | DMI_ERROR_FILE_STAT_FAILED
  | DMI_ERROR_FILE_READ_FAILED
  | DMI_ERROR_FILE_WRITE_FAILED
  | DMI_ERROR_FILE_DUP_FAILED
  | DMI_ERROR_FILE_MAP_FAILED
  | DMI_ERROR_ENTRY_NOT_FOUND
  | DMI_ERROR_ENTRY_ANCHOR_UNKNOWN
  | DMI_ERROR_ENTRY_LENGTH_INVALID
  | DMI_ERROR_ENTRY_CHECKSUM_INVALID
  | DMI_ERROR_ENTITY_LENGTH_INVALID
  | DMI_ERROR_ENTITY_TYPE_INVALID
  | DMI_ERROR_ENTITY_TRUNCATED
  | DMI_ERROR_ENTITY_DECODE_FAILED
  | DMI_ERROR_ENTITY_REGISTER_FAILED
  | DMI_ERROR_ENTITY_LINK_FAILED
  | DMI_ERROR_ENTITY_NOT_FOUND
  | DMI_ERROR_STRING_NOT_FOUND
  | DMI_ERROR_ENTITY_DUPLICATE
  | DMI_ERROR_HANDLE_DUPLICATE
  | DMI_ERROR_FIRMWARE_INFO_NOT_FOUND
  | DMI_ERROR_MODULE_CONFLICT
  | DMI_ERROR_SERVICE_UNAVAILABLE
  | DMI_ERROR_BACKEND_OPEN_FAILED
  | DMI_ERROR_CONTEXT_OPEN_FAILED
  | DMI_ERROR_DUMP_INVALID
  | DMI_ERROR_OVERLAY_INVALID

text \<open>How a call fails: having raised no error, or having raised one.\<close>

datatype dmi_fault = Quiet | Raised dmi_error_code

type_synonym 'a result = "dmi_fault + 'a"

definition bind_result :: "'a result \<Rightarrow> ('a \<Rightarrow> 'b result) \<Rightarrow> 'b result" where
  "bind_result m f = (case m of Inl e \<Rightarrow> Inl e | Inr x \<Rightarrow> f x)"

lemma bind_result_simps [simp]:
  "bind_result (Inl e) f = Inl e" "bind_result (Inr x) f = f x"
  by (simp_all add: bind_result_def)

lemma bind_result_Inr_iff: "bind_result m f = Inr y \<longleftrightarrow> (\<exists>x. m = Inr x \<and> f x = Inr y)"
  by (auto simp: bind_result_def split: sum.splits)

section \<open>The error queue\<close>

definition DMI_ERROR_MAX_DEPTH :: nat where
  "DMI_ERROR_MAX_DEPTH = 64"

record dmi_error =
  err_reason :: dmi_error_code
  err_message :: "string option"

definition no_error :: dmi_error where
  "no_error = \<lparr>err_reason = DMI_ERROR_NONE, err_message = None\<rparr>"

record dmi_error_queue =
  eq_errors :: "dmi_error list"
  eq_first :: nat
  eq_count :: nat

definition dmi_error_queue_last_slot :: "dmi_error_queue \<Rightarrow> nat" where
  "dmi_error_queue_last_slot q = (eq_first q + eq_count q - 1) mod DMI_ERROR_MAX_DEPTH"

definition dmi_error_slot_clear :: "dmi_error_queue \<Rightarrow> nat \<Rightarrow> dmi_error_queue" where
  "dmi_error_slot_clear q idx = q\<lparr>eq_errors := (eq_errors q)[idx := no_error]\<rparr>"

definition dmi_error_slot_get :: "dmi_error_queue \<Rightarrow> dmi_error_queue \<times> nat" where
  "dmi_error_slot_get q =
    (let (q', slot) =
       (if eq_count q = DMI_ERROR_MAX_DEPTH
        then (q\<lparr>eq_first := (eq_first q + 1) mod DMI_ERROR_MAX_DEPTH\<rparr>, eq_first q)
        else let q1 = q\<lparr>eq_count := eq_count q + 1\<rparr> in (q1, dmi_error_queue_last_slot q1))
     in (dmi_error_slot_clear q' slot, slot))"

text \<open>
  \<open>__dmi_error_vraise\<close>: the message is formatted first; \<open>text\<close> is what came of it, \<open>None\<close> when
  there was none to format or when formatting it failed, and the result says which.
\<close>

definition dmi_error_raise ::
    "dmi_error_queue \<Rightarrow> dmi_error_code \<Rightarrow> bool \<Rightarrow> string option \<Rightarrow> bool \<times> dmi_error_queue" where
  "dmi_error_raise q reason has_message text =
    (let (q', slot) = dmi_error_slot_get q;
         e = \<lparr>err_reason = reason, err_message = text\<rparr>
     in (\<not> has_message \<or> text \<noteq> None, q'\<lparr>eq_errors := (eq_errors q')[slot := e]\<rparr>))"

definition dmi_error_peek_first :: "dmi_error_queue \<Rightarrow> dmi_error option" where
  "dmi_error_peek_first q =
    (if eq_count q = 0 then None else Some (eq_errors q ! eq_first q))"

definition dmi_error_peek_last :: "dmi_error_queue \<Rightarrow> dmi_error option" where
  "dmi_error_peek_last q =
    (if eq_count q = 0 then None else Some (eq_errors q ! dmi_error_queue_last_slot q))"

definition dmi_error_get_first :: "dmi_error_queue \<Rightarrow> (dmi_error \<times> dmi_error_queue) option" where
  "dmi_error_get_first q =
    (if eq_count q = 0 then None
     else Some (eq_errors q ! eq_first q,
       q\<lparr>eq_first := (eq_first q + 1) mod DMI_ERROR_MAX_DEPTH, eq_count := eq_count q - 1\<rparr>))"

definition dmi_error_get_last :: "dmi_error_queue \<Rightarrow> (dmi_error \<times> dmi_error_queue) option" where
  "dmi_error_get_last q =
    (if eq_count q = 0 then None
     else Some (eq_errors q ! dmi_error_queue_last_slot q, q\<lparr>eq_count := eq_count q - 1\<rparr>))"

definition dmi_error_clear :: "dmi_error_queue \<Rightarrow> dmi_error_queue" where
  "dmi_error_clear q =
    (fold (\<lambda>i q. dmi_error_slot_clear q i) [0..<DMI_ERROR_MAX_DEPTH] q)
      \<lparr>eq_first := 0, eq_count := 0\<rparr>"

section \<open>What the queue holds\<close>

text \<open>
  The abstract queue: a list of at most \<open>DMI_ERROR_MAX_DEPTH\<close> errors, oldest first; raising
  appends and drops the oldest error of a full queue.
\<close>

definition queue_wf :: "dmi_error_queue \<Rightarrow> bool" where
  "queue_wf q \<longleftrightarrow> length (eq_errors q) = DMI_ERROR_MAX_DEPTH \<and>
     eq_first q < DMI_ERROR_MAX_DEPTH \<and> eq_count q \<le> DMI_ERROR_MAX_DEPTH"

definition queue_list :: "dmi_error_queue \<Rightarrow> dmi_error list" where
  "queue_list q = map (\<lambda>i. eq_errors q ! ((eq_first q + i) mod DMI_ERROR_MAX_DEPTH)) [0..<eq_count q]"

definition push_bounded :: "nat \<Rightarrow> 'a list \<Rightarrow> 'a \<Rightarrow> 'a list" where
  "push_bounded n xs x = (if length xs = n then tl xs else xs) @ [x]"

lemma push_bounded_drop:
  assumes "0 < n"
  shows "push_bounded n (drop (length xs - n) xs) x = drop (Suc (length xs) - n) (xs @ [x])"
proof (cases "n \<le> length xs")
  case True
  then have "tl (drop (length xs - n) xs) = drop (Suc (length xs) - n) xs"
    by (simp add: Suc_diff_le drop_Suc drop_tl)
  then show ?thesis using True assms by (simp add: push_bounded_def)
next
  case False
  then show ?thesis by (simp add: push_bounded_def)
qed

lemma depth_pos [simp]: "0 < DMI_ERROR_MAX_DEPTH"
  by (simp add: DMI_ERROR_MAX_DEPTH_def)

lemma length_queue_list [simp]: "length (queue_list q) = eq_count q"
  by (simp add: queue_list_def)

lemma nth_queue_list:
  "i < eq_count q \<Longrightarrow> queue_list q ! i = eq_errors q ! ((eq_first q + i) mod DMI_ERROR_MAX_DEPTH)"
  by (simp add: queue_list_def)

text \<open>Positions of a window no longer than the ring are different.\<close>

lemma ring_inj:
  fixes a i j n :: nat
  assumes "i < n" and "j < n" and "(a + i) mod n = (a + j) mod n"
  shows "i = j"
proof -
  have le: "i' = j'" if "i' \<le> j'" "j' < n" "(a + i') mod n = (a + j') mod n" for i' j'
  proof -
    have "n dvd (a + j') - (a + i')"
      using that by (subst mod_eq_dvd_iff_nat [symmetric]) simp_all
    with that show ?thesis by (auto dest: dvd_imp_le)
  qed
  show ?thesis
    using le [of i j] le [of j i] assms by (cases "i \<le> j") auto
qed

lemma ring_inj_iff:
  fixes a i j n :: nat
  shows "i < n \<Longrightarrow> j < n \<Longrightarrow> (a + i) mod n = (a + j) mod n \<longleftrightarrow> i = j"
  using ring_inj by blast

lemma queue_wf_slot_get:
  "queue_wf q \<Longrightarrow> dmi_error_slot_get q = (q', slot) \<Longrightarrow> queue_wf q' \<and> slot < DMI_ERROR_MAX_DEPTH"
  by (auto simp: queue_wf_def dmi_error_slot_get_def dmi_error_slot_clear_def
      dmi_error_queue_last_slot_def Let_def split: if_splits)

lemma queue_wf_raise: "queue_wf q \<Longrightarrow> queue_wf (snd (dmi_error_raise q reason has_message text))"
  using queue_wf_slot_get [of q]
  by (cases "dmi_error_slot_get q") (auto simp: dmi_error_raise_def queue_wf_def)

lemma queue_list_raise_room:
  assumes wf: "queue_wf q" and room: "eq_count q < DMI_ERROR_MAX_DEPTH"
  shows "queue_list (snd (dmi_error_raise q reason has_message text)) =
    queue_list q @ [\<lparr>err_reason = reason, err_message = text\<rparr>]" (is "_ = ?rhs")
proof (rule nth_equalityI)
  show "length (queue_list (snd (dmi_error_raise q reason has_message text))) = length ?rhs"
    using room by (simp add: dmi_error_raise_def dmi_error_slot_get_def dmi_error_slot_clear_def Let_def)
next
  fix i
  assume "i < length (queue_list (snd (dmi_error_raise q reason has_message text)))"
  then have i: "i < Suc (eq_count q)"
    using room by (simp add: dmi_error_raise_def dmi_error_slot_get_def dmi_error_slot_clear_def Let_def)
  then show "queue_list (snd (dmi_error_raise q reason has_message text)) ! i = ?rhs ! i"
    using wf room
    by (auto simp: dmi_error_raise_def dmi_error_slot_get_def dmi_error_slot_clear_def Let_def
        queue_list_def dmi_error_queue_last_slot_def nth_append less_Suc_eq queue_wf_def
        nth_list_update ring_inj_iff)
qed

lemma queue_list_raise_full:
  assumes wf: "queue_wf q" and full: "eq_count q = DMI_ERROR_MAX_DEPTH"
  shows "queue_list (snd (dmi_error_raise q reason has_message text)) =
    tl (queue_list q) @ [\<lparr>err_reason = reason, err_message = text\<rparr>]" (is "_ = ?rhs")
proof (rule nth_equalityI)
  show "length (queue_list (snd (dmi_error_raise q reason has_message text))) = length ?rhs"
    using full by (simp add: dmi_error_raise_def dmi_error_slot_get_def dmi_error_slot_clear_def Let_def)
next
  fix i
  assume "i < length (queue_list (snd (dmi_error_raise q reason has_message text)))"
  then have i: "i < DMI_ERROR_MAX_DEPTH"
    using full by (simp add: dmi_error_raise_def dmi_error_slot_get_def dmi_error_slot_clear_def Let_def)
  let ?N = DMI_ERROR_MAX_DEPTH
  have slot: "((eq_first q + 1) mod ?N + i) mod ?N = (eq_first q + Suc i) mod ?N" by (simp add: mod_simps)
  have first: "eq_first q = (eq_first q + ?N) mod ?N" using wf by (simp add: queue_wf_def)
  have last_iff: "(eq_first q + Suc i) mod ?N = eq_first q \<longleftrightarrow> Suc i = ?N"
  proof
    assume "(eq_first q + Suc i) mod ?N = eq_first q"
    then have eq: "(eq_first q + Suc i) mod ?N = (eq_first q + 0) mod ?N"
      using wf by (simp add: queue_wf_def)
    show "Suc i = ?N"
      using i ring_inj [OF _ _ eq] by (cases "Suc i < ?N") auto
  next
    assume "Suc i = ?N"
    then show "(eq_first q + Suc i) mod ?N = eq_first q" using first by simp
  qed
  show "queue_list (snd (dmi_error_raise q reason has_message text)) ! i = ?rhs ! i"
    using i wf full slot last_iff
    by (auto simp: dmi_error_raise_def dmi_error_slot_get_def dmi_error_slot_clear_def Let_def
        queue_list_def nth_append queue_wf_def nth_tl)
qed

lemma queue_list_raise:
  "queue_wf q \<Longrightarrow> queue_list (snd (dmi_error_raise q reason has_message text)) =
    push_bounded DMI_ERROR_MAX_DEPTH (queue_list q) \<lparr>err_reason = reason, err_message = text\<rparr>"
  using queue_list_raise_room [of q] queue_list_raise_full [of q]
  by (auto simp: push_bounded_def queue_wf_def le_neq_implies_less)

lemma peek_last_list:
  "queue_wf q \<Longrightarrow> dmi_error_peek_last q = (if queue_list q = [] then None else Some (last (queue_list q)))"
  by (auto simp: dmi_error_peek_last_def queue_list_def last_conv_nth dmi_error_queue_last_slot_def)

lemma peek_first_list:
  "queue_wf q \<Longrightarrow> dmi_error_peek_first q = (if queue_list q = [] then None else Some (hd (queue_list q)))"
  by (auto simp: dmi_error_peek_first_def queue_list_def hd_map queue_wf_def)

lemma get_last_list:
  "queue_wf q \<Longrightarrow> dmi_error_get_last q = Some (e, q') \<Longrightarrow>
    queue_wf q' \<and> queue_list q = queue_list q' @ [e]"
  by (auto simp: dmi_error_get_last_def queue_list_def queue_wf_def dmi_error_queue_last_slot_def
      split: if_splits)
    (metis (no_types, lifting) Suc_pred add_diff_assoc list.simps(8,9) map_append upt_Suc_append
      less_eq_Suc_le less_eq_nat.simps(1))

lemma get_first_list:
  assumes "queue_wf q" and "dmi_error_get_first q = Some (e, q')"
  shows "queue_wf q' \<and> queue_list q = e # queue_list q'"
proof -
  from assms have pos: "0 < eq_count q" and e: "e = eq_errors q ! eq_first q"
    and q': "q' = q\<lparr>eq_first := (eq_first q + 1) mod DMI_ERROR_MAX_DEPTH, eq_count := eq_count q - 1\<rparr>"
    by (auto simp: dmi_error_get_first_def split: if_splits)
  have "queue_list q = e # queue_list q'"
    using assms(1) pos
    by (intro nth_equalityI) (auto simp: e q' queue_list_def nth_Cons queue_wf_def mod_simps split: nat.splits)
  then show ?thesis using assms(1) pos by (auto simp: q' queue_wf_def)
qed

lemma fold_slot_clear:
  "fold (\<lambda>i q. dmi_error_slot_clear q i) is q =
    q\<lparr>eq_errors := fold (\<lambda>i es. es[i := no_error]) is (eq_errors q)\<rparr>"
  by (induction "is" arbitrary: q) (simp_all add: dmi_error_slot_clear_def)

lemma length_fold_clear [simp]:
  "length (fold (\<lambda>i es. es[i := no_error]) is es) = length es"
  by (induction "is" arbitrary: es) simp_all

lemma clear_list: "queue_wf q \<Longrightarrow> queue_wf (dmi_error_clear q) \<and> queue_list (dmi_error_clear q) = []"
  by (simp add: dmi_error_clear_def fold_slot_clear queue_wf_def queue_list_def)

text \<open>The queue of a new context, which is zeroed memory.\<close>

definition empty_queue :: dmi_error_queue where
  "empty_queue = \<lparr>eq_errors = replicate DMI_ERROR_MAX_DEPTH no_error, eq_first = 0, eq_count = 0\<rparr>"

lemma queue_wf_empty [simp]: "queue_wf empty_queue"
  by (simp add: queue_wf_def empty_queue_def)

lemma queue_list_empty [simp]: "queue_list empty_queue = []"
  by (simp add: queue_list_def empty_queue_def)

section \<open>The error log its clients use\<close>

text \<open>
  The decoding and the encoding of structures raise an error and read back the one which has
  been raised last, to tell why a step has failed. What they need of the log is stated as an
  interface, which the ring provides.
\<close>

locale error_log =
  fixes wf :: "'q \<Rightarrow> bool"
    and raise :: "'q \<Rightarrow> dmi_error_code \<Rightarrow> bool \<Rightarrow> string option \<Rightarrow> bool \<times> 'q"
    and peek :: "'q \<Rightarrow> dmi_error option"
    and errors :: "'q \<Rightarrow> dmi_error list"
    and limit :: nat
  assumes raise_wf: "wf q \<Longrightarrow> wf (snd (raise q reason has_message text))"
    and raise_errors: "wf q \<Longrightarrow> errors (snd (raise q reason has_message text)) =
          push_bounded limit (errors q) \<lparr>err_reason = reason, err_message = text\<rparr>"
    and peek_errors: "wf q \<Longrightarrow> peek q = (if errors q = [] then None else Some (last (errors q)))"
    and errors_limit: "wf q \<Longrightarrow> length (errors q) \<le> limit"
    and limit_pos: "0 < limit"
begin

abbreviation raise_all :: "'q \<Rightarrow> (dmi_error_code \<times> bool \<times> string option) list \<Rightarrow> 'q" where
  "raise_all \<equiv> foldl (\<lambda>q (reason, has_message, text). snd (raise q reason has_message text))"

lemma raise_peek: "wf q \<Longrightarrow> peek (snd (raise q reason has_message text)) = Some \<lparr>err_reason = reason, err_message = text\<rparr>"
  by (simp add: peek_errors raise_wf raise_errors push_bounded_def)

lemma raise_all_wf: "wf q \<Longrightarrow> wf (raise_all q rs)"
  by (induction rs arbitrary: q) (auto simp: raise_wf)

lemma raise_all_errors:
  "wf q \<Longrightarrow> errors (raise_all q rs) =
    (let all = errors q @ map (\<lambda>(reason, has_message, text). \<lparr>err_reason = reason, err_message = text\<rparr>) rs
     in drop (length all - limit) all)"
proof (induction rs rule: rev_induct)
  case Nil
  then show ?case using errors_limit [of q] by simp
next
  case (snoc r rs)
  obtain reason hm msg where r: "r = (reason, hm, msg)" by (cases r)
  let ?all = "errors q @ map (\<lambda>(reason, has_message, text). \<lparr>err_reason = reason, err_message = text\<rparr>) rs"
  let ?e = "\<lparr>err_reason = reason, err_message = msg\<rparr>"
  have "errors (raise_all q (rs @ [r])) = push_bounded limit (drop (length ?all - limit) ?all) ?e"
    using snoc raise_all_wf [OF snoc.prems, of rs] by (simp add: r raise_errors Let_def)
  also have "\<dots> = drop (Suc (length ?all) - limit) (?all @ [?e])"
    using limit_pos by (rule push_bounded_drop)
  finally show ?case by (simp add: r Let_def)
qed

lemma raise_all_peek:
  "wf q \<Longrightarrow> rs \<noteq> [] \<Longrightarrow> peek (raise_all q rs) =
    Some (case last rs of (reason, has_message, text) \<Rightarrow> \<lparr>err_reason = reason, err_message = text\<rparr>)"
  by (induction rs rule: rev_induct) (auto simp: raise_peek raise_all_wf)

end

interpretation elog: error_log queue_wf dmi_error_raise dmi_error_peek_last queue_list DMI_ERROR_MAX_DEPTH
  by unfold_locales (simp_all add: queue_wf_raise queue_list_raise peek_last_list, simp add: queue_wf_def)

section \<open>Properties\<close>

text \<open>
  C26. Whatever errors have been raised since the context was created, the queue holds the last
  \<open>DMI_ERROR_MAX_DEPTH\<close> of them, oldest first, and \<open>dmi_error_peek_last\<close> and
  \<open>dmi_error_peek_first\<close> give its two ends: an error which finds the queue full replaces the
  oldest one and never another.
\<close>

theorem error_queue_keeps_last:
  "\<exists>q. q = foldl (\<lambda>q (reason, has_message, text). snd (dmi_error_raise q reason has_message text)) empty_queue rs \<and>
    queue_list q = drop (length rs - DMI_ERROR_MAX_DEPTH)
      (map (\<lambda>(reason, has_message, text). \<lparr>err_reason = reason, err_message = text\<rparr>) rs) \<and>
    dmi_error_peek_last q = (if queue_list q = [] then None else Some (last (queue_list q))) \<and>
    dmi_error_peek_first q = (if queue_list q = [] then None else Some (hd (queue_list q)))"
  using elog.raise_all_errors [of empty_queue rs] elog.raise_all_wf [of empty_queue rs]
  by (simp add: Let_def peek_last_list peek_first_list)

end
