(* ===== verification/Buffer.thy ===== *)
theory Buffer
  imports Errors
begin

text \<open>
  The byte buffer (\<^verbatim>\<open>src/buffer.c\<close>): memory which grows by whole steps, of which the first
  \<open>length\<close> bytes are the data. The model keeps the memory as the allocator gives it, with
  whatever it held before in the bytes past the data, and the sizes as 64-bit words, so that
  the checks the code makes against overflow are the ones proved sufficient here. A buffer is
  named by \<open>buf_id\<close>, which stands for the address the marks of readers and writers compare.
  Null arguments, which every function of the file rejects first, are not values of the model.
\<close>

definition DMI_BUFFER_CAPACITY_STEP :: size_t where
  "DMI_BUFFER_CAPACITY_STEP = 128"

record dmi_buffer =
  buf_id :: nat
  buf_data :: "byte list option"
  buf_length :: size_t
  buf_capacity :: size_t

definition dmi_buffer_create :: "nat \<Rightarrow> dmi_buffer" where
  "dmi_buffer_create addr = \<lparr>buf_id = addr, buf_data = None, buf_length = 0, buf_capacity = 0\<rparr>"

definition dmi_buffer_is_empty :: "dmi_buffer \<Rightarrow> bool" where
  "dmi_buffer_is_empty b \<longleftrightarrow> buf_length b = 0"

definition dmi_buffer_reserve :: "heap \<Rightarrow> dmi_buffer \<Rightarrow> size_t \<Rightarrow> dmi_buffer result" where
  "dmi_buffer_reserve h b capacity =
    (if capacity \<le> buf_capacity b then Inr b
     else
       let steps = capacity div DMI_BUFFER_CAPACITY_STEP;
           steps = (if capacity mod DMI_BUFFER_CAPACITY_STEP \<noteq> 0 then steps + 1 else steps)
       in if steps > SIZE_MAX div DMI_BUFFER_CAPACITY_STEP then Inl (Raised DMI_ERROR_OUT_OF_MEMORY)
          else
            let reserved = steps * DMI_BUFFER_CAPACITY_STEP
            in (case realloc h (buf_data b) reserved of
                  None \<Rightarrow> Inl (Raised DMI_ERROR_OUT_OF_MEMORY)
                | Some data \<Rightarrow> Inr (b\<lparr>buf_data := Some data, buf_capacity := reserved\<rparr>)))"

text \<open>Stores into the memory of a buffer, which is only done where there is memory.\<close>

definition buf_store :: "dmi_buffer \<Rightarrow> size_t \<Rightarrow> byte list \<Rightarrow> dmi_buffer" where
  "buf_store b offset run = b\<lparr>buf_data := map_option (\<lambda>d. patch d (unat offset) run) (buf_data b)\<rparr>"

definition dmi_buffer_resize :: "heap \<Rightarrow> dmi_buffer \<Rightarrow> size_t \<Rightarrow> dmi_buffer result" where
  "dmi_buffer_resize h b length' =
    (if length' > buf_length b then
       (case dmi_buffer_reserve h b length' of
          Inl e \<Rightarrow> Inl e
        | Inr b' \<Rightarrow>
            Inr ((buf_store b' (buf_length b') (replicate (unat (length' - buf_length b')) 0))
                  \<lparr>buf_length := length'\<rparr>))
     else Inr (b\<lparr>buf_length := length'\<rparr>))"

text \<open>
  Data the caller passes as a pointer and a length is a list here, and the length the code
  sees is the length of the list as a \<open>size_t\<close>.
\<close>

definition size_of :: "'a list \<Rightarrow> size_t" where
  "size_of xs = word_of_nat (length xs)"

definition dmi_buffer_assign :: "heap \<Rightarrow> dmi_buffer \<Rightarrow> byte list \<Rightarrow> dmi_buffer result" where
  "dmi_buffer_assign h b ptr =
    (case dmi_buffer_reserve h b (size_of ptr) of
       Inl e \<Rightarrow> Inl e
     | Inr b' \<Rightarrow>
         Inr ((if size_of ptr > 0 then buf_store b' 0 ptr else b')\<lparr>buf_length := size_of ptr\<rparr>))"

text \<open>The memory of a buffer, none of which is there before the first allocation.\<close>

definition buf_memory :: "dmi_buffer \<Rightarrow> byte list" where
  "buf_memory b = (case buf_data b of None \<Rightarrow> [] | Some d \<Rightarrow> d)"

definition buf_load :: "dmi_buffer \<Rightarrow> size_t \<Rightarrow> size_t \<Rightarrow> byte list" where
  "buf_load b offset length' =
    take (unat length') (drop (unat offset) (buf_memory b))"

definition dmi_buffer_read :: "dmi_buffer \<Rightarrow> size_t \<Rightarrow> size_t \<Rightarrow> byte list result" where
  "dmi_buffer_read b offset length' =
    (if offset > buf_length b \<or> length' > buf_length b - offset then Inl Quiet
     else Inr (buf_load b offset length'))"

definition dmi_buffer_write :: "heap \<Rightarrow> dmi_buffer \<Rightarrow> byte list \<Rightarrow> size_t \<Rightarrow> dmi_buffer result" where
  "dmi_buffer_write h b ptr offset =
    (if size_of ptr = 0 then Inr b
     else if size_of ptr > SIZE_MAX - offset then Inl (Raised DMI_ERROR_ARGUMENT_INVALID)
     else
       (case (if offset + size_of ptr > buf_length b
              then dmi_buffer_resize h b (offset + size_of ptr) else Inr b) of
          Inl e \<Rightarrow> Inl e
        | Inr b' \<Rightarrow> Inr (buf_store b' offset ptr)))"

text \<open>The pointer \<open>dmi_buffer_at\<close> returns is given by the bytes it is good for.\<close>

definition dmi_buffer_at :: "dmi_buffer \<Rightarrow> size_t \<Rightarrow> size_t \<Rightarrow> byte list option" where
  "dmi_buffer_at b offset length' =
    (if buf_data b = None then None
     else if offset > buf_length b \<or> length' > buf_length b - offset then None
     else Some (buf_load b offset length'))"

definition dmi_buffer_clear :: "dmi_buffer \<Rightarrow> dmi_buffer" where
  "dmi_buffer_clear b = b\<lparr>buf_length := 0\<rparr>"

section \<open>Invariant and contents\<close>

text \<open>
  The memory is as long as the capacity says, and holds the data. The contents of a buffer
  are its first \<open>length\<close> bytes.
\<close>

definition buffer_wf :: "dmi_buffer \<Rightarrow> bool" where
  "buffer_wf b \<longleftrightarrow> buf_length b \<le> buf_capacity b \<and> length (buf_memory b) = unat (buf_capacity b)"

definition buffer_bytes :: "dmi_buffer \<Rightarrow> byte list" where
  "buffer_bytes b = take (unat (buf_length b)) (buf_memory b)"

lemma buf_memory_update [simp]:
  "buf_memory (b\<lparr>buf_length := n\<rparr>) = buf_memory b"
  "buf_memory (b\<lparr>buf_capacity := n\<rparr>) = buf_memory b"
  "buf_memory (b\<lparr>buf_data := Some d\<rparr>) = d"
  by (simp_all add: buf_memory_def)

lemma buffer_length_bytes: "buffer_wf b \<Longrightarrow> length (buffer_bytes b) = unat (buf_length b)"
  by (simp add: buffer_wf_def buffer_bytes_def word_le_nat_alt)

lemma buffer_bytes_bound: "buffer_wf b \<Longrightarrow> length (buffer_bytes b) < 18446744073709551616"
  using unat_size_less [of "buf_length b"] by (simp add: buffer_length_bytes)

lemma buffer_wf_create [simp]: "buffer_wf (dmi_buffer_create addr)"
  by (simp add: buffer_wf_def dmi_buffer_create_def buf_memory_def)

lemma buffer_bytes_create [simp]: "buffer_bytes (dmi_buffer_create addr) = []"
  by (simp add: buffer_bytes_def dmi_buffer_create_def)

lemma buf_load_within:
  assumes "unat offset + unat n \<le> unat (buf_length b)"
  shows "buf_load b offset n = take (unat n) (drop (unat offset) (buffer_bytes b))"
  using assms by (simp add: buf_load_def buffer_bytes_def drop_take min_def)

text \<open>Whole steps that hold a number of bytes.\<close>

lemma steps_cover:
  fixes c :: size_t
  defines "s \<equiv> (if c mod DMI_BUFFER_CAPACITY_STEP \<noteq> 0
     then c div DMI_BUFFER_CAPACITY_STEP + 1 else c div DMI_BUFFER_CAPACITY_STEP)"
  assumes "\<not> s > SIZE_MAX div DMI_BUFFER_CAPACITY_STEP"
  shows "unat (s * DMI_BUFFER_CAPACITY_STEP) = unat s * 128" and "c \<le> s * DMI_BUFFER_CAPACITY_STEP"
proof -
  have "unat s \<le> 144115188075855871"
    using assms(2) by (simp add: word_le_nat_alt unat_div not_less DMI_BUFFER_CAPACITY_STEP_def)
  then show mult: "unat (s * DMI_BUFFER_CAPACITY_STEP) = unat s * 128"
    by (simp add: unat_word_ariths DMI_BUFFER_CAPACITY_STEP_def)
  have "unat c div 128 < 144115188075855872"
    using unat_size_less [of c] by (simp add: div_less_iff_less_mult)
  moreover have "c mod DMI_BUFFER_CAPACITY_STEP = 0 \<longleftrightarrow> unat c mod 128 = 0"
    by (simp add: DMI_BUFFER_CAPACITY_STEP_def unat_mod flip: unat_eq_zero)
  ultimately have "unat c \<le> unat s * 128"
    by (auto simp: s_def unat_word_ariths unat_div DMI_BUFFER_CAPACITY_STEP_def)
  then show "c \<le> s * DMI_BUFFER_CAPACITY_STEP"
    by (simp add: word_le_nat_alt mult)
qed

lemma reserve_correct:
  assumes wf: "buffer_wf b" and ok: "dmi_buffer_reserve h b capacity = Inr b'"
  shows "buffer_wf b'" and "buffer_bytes b' = buffer_bytes b" and "buf_length b' = buf_length b"
    and "capacity \<le> buf_capacity b'" and "buf_id b' = buf_id b"
proof -
  have "buffer_wf b' \<and> buffer_bytes b' = buffer_bytes b \<and> buf_length b' = buf_length b \<and>
      capacity \<le> buf_capacity b' \<and> buf_id b' = buf_id b"
  proof (cases "capacity \<le> buf_capacity b")
    case True
    with ok wf show ?thesis by (simp add: dmi_buffer_reserve_def)
  next
    case False
    define s where "s = (if capacity mod DMI_BUFFER_CAPACITY_STEP \<noteq> 0
      then capacity div DMI_BUFFER_CAPACITY_STEP + 1 else capacity div DMI_BUFFER_CAPACITY_STEP)"
    define r where "r = s * DMI_BUFFER_CAPACITY_STEP"
    from ok False obtain data where s: "\<not> s > SIZE_MAX div DMI_BUFFER_CAPACITY_STEP"
      and data: "realloc h (buf_data b) r = Some data"
      and b': "b' = b\<lparr>buf_data := Some data, buf_capacity := r\<rparr>"
      by (auto simp: dmi_buffer_reserve_def Let_def s_def r_def split: if_splits option.splits)
    have cap: "capacity \<le> r" unfolding r_def s_def by (rule steps_cover) (use s in \<open>simp add: s_def\<close>)
    then have more: "buf_capacity b \<le> r" using False by simp
    have len: "length data = unat r" using data by (rule realloc_length)
    have mem: "take (length (buf_memory b)) data = buf_memory b"
      using data more wf
      by (cases "buf_data b") (auto simp: buf_memory_def buffer_wf_def word_le_nat_alt dest: realloc_take)
    have "unat (buf_length b) \<le> length (buf_memory b)"
      using wf by (simp add: buffer_wf_def word_le_nat_alt)
    then have "buffer_bytes b' = buffer_bytes b"
      by (simp add: b' buffer_bytes_def) (metis mem min.absorb1 take_take)
    moreover have "buf_length b \<le> r" using wf more by (auto simp: buffer_wf_def)
    ultimately show ?thesis using len cap by (simp add: b' buffer_wf_def)
  qed
  then show "buffer_wf b'" and "buffer_bytes b' = buffer_bytes b" and "buf_length b' = buf_length b"
    and "capacity \<le> buf_capacity b'" and "buf_id b' = buf_id b" by simp_all
qed

lemma reserve_succeeds:
  assumes "generous h" and "unat capacity \<le> 18446744073709551488"
  shows "\<exists>b'. dmi_buffer_reserve h b capacity = Inr b'"
proof -
  define s where "s = (if capacity mod DMI_BUFFER_CAPACITY_STEP \<noteq> 0
    then capacity div DMI_BUFFER_CAPACITY_STEP + 1 else capacity div DMI_BUFFER_CAPACITY_STEP)"
  let ?q = "unat capacity div 128" and ?m = "unat capacity mod 128"
  have zero_iff: "capacity mod DMI_BUFFER_CAPACITY_STEP = 0 \<longleftrightarrow> ?m = 0"
    by (simp add: DMI_BUFFER_CAPACITY_STEP_def unat_mod flip: unat_eq_zero)
  have split: "?q * 128 + ?m = unat capacity" by simp
  have small: "?q + 1 < 18446744073709551616" using split assms(2) by linarith
  have s: "unat s = (if ?m \<noteq> 0 then ?q + 1 else ?q)"
    using small zero_iff by (simp add: s_def unat_word_ariths unat_div DMI_BUFFER_CAPACITY_STEP_def)
  have "unat s \<le> 144115188075855871"
  proof (cases "?m = 0")
    case True
    then show ?thesis using split assms(2) unfolding s by simp
  next
    case False
    then have "?q * 128 + 1 \<le> 18446744073709551488" using split assms(2) by linarith
    then have "?q + 1 \<le> 144115188075855871" by linarith
    with False show ?thesis unfolding s by simp
  qed
  then have "\<not> s > SIZE_MAX div DMI_BUFFER_CAPACITY_STEP"
    by (simp add: word_less_nat_alt unat_div not_less DMI_BUFFER_CAPACITY_STEP_def)
  moreover obtain d where "realloc h (buf_data b) (s * DMI_BUFFER_CAPACITY_STEP) = Some d"
    using generous_realloc [OF assms(1)] by blast
  ultimately show ?thesis by (simp add: dmi_buffer_reserve_def Let_def flip: s_def)
qed

lemma reserve_faults: "dmi_buffer_reserve h b capacity = Inl e \<Longrightarrow> e = Raised DMI_ERROR_OUT_OF_MEMORY"
  by (auto simp: dmi_buffer_reserve_def Let_def split: if_splits option.splits)

section \<open>The operations over the contents\<close>

lemma buf_store_fields [simp]:
  "buf_length (buf_store b off run) = buf_length b" "buf_capacity (buf_store b off run) = buf_capacity b"
  "buf_id (buf_store b off run) = buf_id b"
  by (simp_all add: buf_store_def)

lemma buf_store_memory:
  assumes "buffer_wf b" and "unat off + length run \<le> unat (buf_capacity b)"
  shows "buf_memory (buf_store b off run) = patch (buf_memory b) (unat off) run"
  using assms by (cases "buf_data b") (auto simp: buf_store_def buffer_wf_def buf_memory_def)

lemma buf_store_wf:
  "buffer_wf b \<Longrightarrow> unat off + length run \<le> unat (buf_capacity b) \<Longrightarrow> buffer_wf (buf_store b off run)"
  by (simp add: buffer_wf_def buf_store_memory length_patch)

lemma buffer_wf_set_length:
  "buffer_wf b \<Longrightarrow> n \<le> buf_capacity b \<Longrightarrow> buffer_wf (b\<lparr>buf_length := n\<rparr>)"
  by (simp add: buffer_wf_def)

text \<open>The data after a store, when the data is then taken to be \<open>n\<close> bytes long.\<close>

lemma buf_store_bytes:
  assumes "buffer_wf b" and "unat off + length run \<le> unat n" and "n \<le> buf_capacity b"
  shows "buffer_bytes ((buf_store b off run)\<lparr>buf_length := n\<rparr>) =
    patch (take (unat n) (buf_memory b)) (unat off) run"
  using assms
  by (simp add: buffer_bytes_def buf_store_memory take_patch_within word_le_nat_alt buffer_wf_def)

lemma resize_correct:
  assumes wf: "buffer_wf b" and ok: "dmi_buffer_resize h b n = Inr b'"
  shows "buffer_wf b'"
    and "buffer_bytes b' = take (unat n) (buffer_bytes b) @ replicate (unat n - unat (buf_length b)) 0"
    and "buf_length b' = n" and "buf_id b' = buf_id b"
proof -
  have "buffer_wf b' \<and> buffer_bytes b' = take (unat n) (buffer_bytes b) @ replicate (unat n - unat (buf_length b)) 0
     \<and> buf_length b' = n \<and> buf_id b' = buf_id b"
  proof (cases "n > buf_length b")
    case False
    then have "unat n \<le> unat (buf_length b)" by (simp add: word_le_nat_alt not_less)
    with False ok wf show ?thesis
      by (auto simp: dmi_buffer_resize_def buffer_wf_def buffer_bytes_def min_def)
  next
    case True
    let ?z = "replicate (unat (n - buf_length b)) (0 :: byte)"
    from ok True obtain b1 where b1: "dmi_buffer_reserve h b n = Inr b1"
      and b': "b' = (buf_store b1 (buf_length b1) ?z)\<lparr>buf_length := n\<rparr>"
      using reserve_correct(3) [OF wf] by (auto simp: dmi_buffer_resize_def split: sum.splits)
    note r = reserve_correct [OF wf b1]
    have sub: "unat (n - buf_length b) = unat n - unat (buf_length b)"
      using True by (simp add: unat_sub less_imp_le)
    have lt: "unat (buf_length b) < unat n" using True by (simp add: word_less_nat_alt)
    have cap: "unat n \<le> unat (buf_capacity b1)" using r(4) by (simp add: word_le_nat_alt)
    have st: "buffer_wf (buf_store b1 (buf_length b1) ?z)"
      using r lt cap by (intro buf_store_wf) (simp_all add: sub)
    have len1: "unat n \<le> length (buf_memory b1)"
      using r(1) cap by (simp add: buffer_wf_def)
    have "buffer_bytes b' = patch (take (unat n) (buf_memory b1)) (unat (buf_length b1)) ?z"
      unfolding b' using r lt by (intro buf_store_bytes) (simp_all add: sub)
    also have "\<dots> = buffer_bytes b1 @ ?z"
      using lt r(3) len1 by (simp add: patch_def sub buffer_bytes_def min_def)
    finally have "buffer_bytes b' = buffer_bytes b @ ?z"
      using r(2) by simp
    moreover have "buffer_wf b'" unfolding b' using st r(4) by (intro buffer_wf_set_length) simp_all
    moreover have "take (unat n) (buffer_bytes b) = buffer_bytes b"
      using lt buffer_length_bytes [OF wf] by simp
    ultimately show ?thesis using r(5) by (simp add: b' sub)
  qed
  then show "buffer_wf b'"
    and "buffer_bytes b' = take (unat n) (buffer_bytes b) @ replicate (unat n - unat (buf_length b)) 0"
    and "buf_length b' = n" and "buf_id b' = buf_id b" by simp_all
qed

lemma resize_succeeds:
  assumes "generous h" and "unat n \<le> 18446744073709551488"
  shows "\<exists>b'. dmi_buffer_resize h b n = Inr b'"
  using reserve_succeeds [OF assms, of b] by (auto simp: dmi_buffer_resize_def)

lemma resize_faults: "dmi_buffer_resize h b n = Inl e \<Longrightarrow> e = Raised DMI_ERROR_OUT_OF_MEMORY"
  by (auto simp: dmi_buffer_resize_def dest: reserve_faults split: if_splits sum.splits)

lemma size_of_Nil [simp]: "size_of [] = 0"
  by (simp add: size_of_def)

lemma unat_size_of: "length xs < 18446744073709551616 \<Longrightarrow> unat (size_of xs) = length xs"
  by (simp add: size_of_def unat_of_nat_size)

lemma read_correct:
  assumes "buffer_wf b"
  shows "dmi_buffer_read b off n =
    (if unat off + unat n \<le> length (buffer_bytes b)
     then Inr (take (unat n) (drop (unat off) (buffer_bytes b))) else Inl Quiet)"
  using assms
  by (auto simp: dmi_buffer_read_def offset_fits_iff buffer_length_bytes buf_load_within not_less)

lemma at_correct:
  assumes "buffer_wf b"
  shows "dmi_buffer_at b off n =
    (if buf_data b \<noteq> None \<and> unat off + unat n \<le> length (buffer_bytes b)
     then Some (take (unat n) (drop (unat off) (buffer_bytes b))) else None)"
  using assms
  by (auto simp: dmi_buffer_at_def offset_fits_iff buffer_length_bytes buf_load_within not_less)

lemma assign_correct:
  assumes wf: "buffer_wf b" and len: "length ptr < 18446744073709551616"
    and ok: "dmi_buffer_assign h b ptr = Inr b'"
  shows "buffer_wf b'" and "buffer_bytes b' = ptr" and "buf_id b' = buf_id b"
proof -
  have n: "unat (size_of ptr) = length ptr" using len by (rule unat_size_of)
  from ok obtain b1 where b1: "dmi_buffer_reserve h b (size_of ptr) = Inr b1"
    and b': "b' = (if size_of ptr > 0 then buf_store b1 0 ptr else b1)\<lparr>buf_length := size_of ptr\<rparr>"
    by (auto simp: dmi_buffer_assign_def split: sum.splits)
  note r = reserve_correct [OF wf b1]
  have cap: "length ptr \<le> unat (buf_capacity b1)" using r(4) by (simp add: word_le_nat_alt n)
  have "buffer_wf b' \<and> buffer_bytes b' = ptr \<and> buf_id b' = buf_id b"
  proof (cases "ptr = []")
    case True
    then show ?thesis using r by (simp add: b' buffer_wf_def buffer_bytes_def)
  next
    case False
    then have pos: "size_of ptr > 0" using n by (simp add: word_less_nat_alt)
    have le: "size_of ptr \<le> buf_capacity b1" using cap by (simp add: word_le_nat_alt n)
    have "buffer_bytes b' = patch (take (length ptr) (buf_memory b1)) 0 ptr"
      using pos buf_store_bytes [OF r(1) _ le, of 0 ptr] by (simp add: b' n)
    then have "buffer_bytes b' = ptr" by (simp add: patch_def)
    moreover have "buffer_wf b'"
      using pos le cap r(1) by (simp add: b' buffer_wf_set_length buf_store_wf)
    ultimately show ?thesis using r(5) pos by (simp add: b')
  qed
  then show "buffer_wf b'" and "buffer_bytes b' = ptr" and "buf_id b' = buf_id b" by simp_all
qed

text \<open>
  What writing does to the contents: the data is grown with zeros up to the offset if it is
  shorter, the run is stored over the bytes which are there, and whatever follows is kept.
\<close>

definition write_bytes :: "byte list \<Rightarrow> nat \<Rightarrow> byte list \<Rightarrow> byte list" where
  "write_bytes bs off run =
    (if run = [] then bs else patch (bs @ replicate (off + length run - length bs) 0) off run)"

lemma length_write_bytes:
  "length (write_bytes bs off run) = (if run = [] then length bs else max (length bs) (off + length run))"
  by (auto simp: write_bytes_def length_patch max_def)

lemma write_bytes_end: "write_bytes bs (length bs) run = bs @ run"
  by (simp add: write_bytes_def patch_def)

lemma drop_write_bytes:
  assumes "b + off \<le> length bs"
  shows "drop b (write_bytes bs (b + off) run) = write_bytes (drop b bs) off run"
proof -
  have "drop b (take (b + off) bs) = take off (drop b bs)" by (simp add: drop_take)
  moreover have "b + off + n = b + (off + n)" for n by simp
  ultimately show ?thesis using assms
    by (simp only: write_bytes_def patch_def drop_append drop_drop add.commute) auto
qed

lemma take_write_bytes_before:
  "b + off \<le> length bs \<Longrightarrow> take b (write_bytes bs (b + off) run) = take b bs"
  by (simp add: write_bytes_def patch_def min_def)

lemma take_write_bytes:
  "off \<le> length bs \<Longrightarrow> take (off + length run) (write_bytes bs off run) = take off bs @ run"
  by (simp add: write_bytes_def take_patch_upto)

lemma write_correct:
  assumes wf: "buffer_wf b" and len: "length ptr < 18446744073709551616"
    and ok: "dmi_buffer_write h b ptr off = Inr b'"
  shows "buffer_wf b'" and "buffer_bytes b' = write_bytes (buffer_bytes b) (unat off) ptr"
    and "buf_id b' = buf_id b"
proof -
  have n: "unat (size_of ptr) = length ptr" using len by (rule unat_size_of)
  have "buffer_wf b' \<and> buffer_bytes b' = write_bytes (buffer_bytes b) (unat off) ptr \<and> buf_id b' = buf_id b"
  proof (cases "size_of ptr = 0")
    case True
    then have "ptr = []" using n by simp
    then show ?thesis using ok wf True by (simp add: dmi_buffer_write_def write_bytes_def)
  next
    case False
    then have ne: "ptr \<noteq> []" using n by auto
    let ?stop = "off + size_of ptr"
    from ok False have noov: "\<not> size_of ptr > SIZE_MAX - off" by (auto simp: dmi_buffer_write_def split: if_splits)
    then have "unat off + length ptr < 18446744073709551616"
      using unat_le_size_max [of off] by (simp add: word_less_nat_alt unat_sub n not_less)
    then have e: "unat ?stop = unat off + length ptr" by (simp add: unat_add_small n)
    obtain b1 where b1: "(if ?stop > buf_length b then dmi_buffer_resize h b ?stop else Inr b) = Inr b1"
      and b': "b' = buf_store b1 off ptr"
      using ok False noov by (auto simp: dmi_buffer_write_def split: sum.splits)
    have r: "buffer_wf b1 \<and> buf_id b1 = buf_id b \<and> ?stop \<le> buf_length b1 \<and>
        buffer_bytes b1 = buffer_bytes b @ replicate (unat off + length ptr - length (buffer_bytes b)) 0"
      using b1 wf resize_correct [OF wf, of h ?stop b1] e
      by (auto simp: buffer_length_bytes word_less_nat_alt word_le_nat_alt split: if_splits)
    then have cap: "unat off + length ptr \<le> unat (buf_length b1)" "unat (buf_length b1) \<le> unat (buf_capacity b1)"
      by (auto simp: word_le_nat_alt e buffer_wf_def)
    have "buffer_bytes b' = patch (buffer_bytes b1) (unat off) ptr"
      using buf_store_memory [of b1 off ptr] r cap
      by (simp add: b' buffer_bytes_def buffer_wf_def take_patch_within)
    moreover have "buffer_wf b'" using r cap by (simp add: b' buf_store_wf)
    ultimately show ?thesis using r ne by (simp add: b' write_bytes_def)
  qed
  then show "buffer_wf b'" and "buffer_bytes b' = write_bytes (buffer_bytes b) (unat off) ptr"
    and "buf_id b' = buf_id b" by simp_all
qed

lemma write_succeeds:
  assumes "generous h" and "unat off + length ptr \<le> 18446744073709551488"
  shows "\<exists>b'. dmi_buffer_write h b ptr off = Inr b'"
proof -
  have n: "unat (size_of ptr) = length ptr" using assms(2) by (intro unat_size_of) simp
  then have "\<not> size_of ptr > SIZE_MAX - off"
    using assms(2) by (simp add: word_less_nat_alt unat_sub not_less)
  moreover have "unat (off + size_of ptr) \<le> 18446744073709551488"
    using assms(2) by (simp add: unat_add_small n)
  ultimately show ?thesis
    using resize_succeeds [OF assms(1), of "off + size_of ptr" b] by (auto simp: dmi_buffer_write_def)
qed

lemma clear_correct: "buffer_wf b \<Longrightarrow> buffer_wf (dmi_buffer_clear b) \<and> buffer_bytes (dmi_buffer_clear b) = []"
  by (simp add: buffer_wf_def dmi_buffer_clear_def buffer_bytes_def)

lemmas buffer_ops_wf = buffer_wf_create reserve_correct(1) resize_correct(1) assign_correct(1) write_correct(1)

section \<open>Sequences of operations\<close>

text \<open>
  What a buffer promises: a list of bytes, and what every operation makes of it. A sequence of
  operations stops at the first one which fails.
\<close>

datatype buffer_op =
    Reserve size_t
  | Resize size_t
  | Assign "byte list"
  | Write "byte list" size_t
  | Clear

fun buffer_step :: "heap \<Rightarrow> dmi_buffer \<Rightarrow> buffer_op \<Rightarrow> dmi_buffer result" where
  "buffer_step h b (Reserve n) = dmi_buffer_reserve h b n"
| "buffer_step h b (Resize n) = dmi_buffer_resize h b n"
| "buffer_step h b (Assign bs) = dmi_buffer_assign h b bs"
| "buffer_step h b (Write bs off) = dmi_buffer_write h b bs off"
| "buffer_step h b Clear = Inr (dmi_buffer_clear b)"

primrec buffer_run :: "heap \<Rightarrow> dmi_buffer \<Rightarrow> buffer_op list \<Rightarrow> dmi_buffer result" where
  "buffer_run h b [] = Inr b"
| "buffer_run h b (oper # opers) =
    (case buffer_step h b oper of Inl e \<Rightarrow> Inl e | Inr b' \<Rightarrow> buffer_run h b' opers)"

fun bytes_step :: "byte list \<Rightarrow> buffer_op \<Rightarrow> byte list" where
  "bytes_step bs (Reserve n) = bs"
| "bytes_step bs (Resize n) = take (unat n) bs @ replicate (unat n - length bs) 0"
| "bytes_step bs (Assign run) = run"
| "bytes_step bs (Write run off) = write_bytes bs (unat off) run"
| "bytes_step bs Clear = []"

text \<open>The end of what an operation asks for, which leaves room for rounding to whole steps.\<close>

fun buffer_op_end :: "buffer_op \<Rightarrow> nat" where
  "buffer_op_end (Reserve n) = unat n"
| "buffer_op_end (Resize n) = unat n"
| "buffer_op_end (Assign run) = length run"
| "buffer_op_end (Write run off) = unat off + length run"
| "buffer_op_end Clear = 0"

lemma assign_succeeds:
  assumes "generous h" and "length ptr \<le> 18446744073709551488"
  shows "\<exists>b'. dmi_buffer_assign h b ptr = Inr b'"
  using reserve_succeeds [OF assms(1), of "size_of ptr" b] assms(2)
  by (auto simp: dmi_buffer_assign_def unat_size_of)

lemma buffer_step_succeeds:
  "generous h \<Longrightarrow> buffer_op_end oper \<le> 18446744073709551488 \<Longrightarrow> \<exists>b'. buffer_step h b oper = Inr b'"
  by (cases oper) (simp_all add: reserve_succeeds resize_succeeds assign_succeeds write_succeeds)

lemma buffer_step_correct:
  assumes "buffer_wf b" and "buffer_op_end oper \<le> 18446744073709551488"
    and "buffer_step h b oper = Inr b'"
  shows "buffer_wf b' \<and> buffer_bytes b' = bytes_step (buffer_bytes b) oper \<and> buf_id b' = buf_id b"
proof (cases oper)
  case (Reserve n)
  then show ?thesis using assms(1,3) reserve_correct(1,2,5) [of b h n b'] by simp
next
  case (Resize n)
  then show ?thesis using assms(1,3) resize_correct [of b h n b'] by (simp add: buffer_length_bytes)
next
  case (Assign run)
  then show ?thesis using assms assign_correct [of b run h b'] by simp
next
  case (Write run off)
  then show ?thesis using assms write_correct [of b run h off b'] by simp
next
  case Clear
  then have "b' = dmi_buffer_clear b" using assms(3) by simp
  moreover have "buf_id (dmi_buffer_clear b) = buf_id b" by (simp add: dmi_buffer_clear_def)
  ultimately show ?thesis using Clear clear_correct [OF assms(1)] by simp
qed

lemma buffer_run_correct:
  "buffer_wf b \<Longrightarrow> \<forall>oper\<in>set opers. buffer_op_end oper \<le> 18446744073709551488 \<Longrightarrow>
    buffer_run h b opers = Inr b' \<Longrightarrow>
    buffer_wf b' \<and> buffer_bytes b' = foldl bytes_step (buffer_bytes b) opers \<and> buf_id b' = buf_id b"
  by (induction opers arbitrary: b) (fastforce split: sum.splits dest: buffer_step_correct)+

lemma buffer_run_succeeds:
  assumes "generous h" and "\<forall>oper\<in>set opers. buffer_op_end oper \<le> 18446744073709551488"
  shows "\<exists>b'. buffer_run h b opers = Inr b'"
  using assms(2)
proof (induction opers arbitrary: b)
  case (Cons oper opers)
  then show ?case using buffer_step_succeeds [OF assms(1), of oper b] by auto
qed simp

section \<open>Properties\<close>

text \<open>
  C4. Any sequence of reservations, resizes, assignments, writes and clears, run on a new buffer
  with memory to be had, succeeds and leaves a buffer whose contents are those the operations
  make of a list of bytes: what the data grows over reads as zeros whatever the memory held,
  bytes outside a written run are kept, and the recorded capacity is the size of the memory.
\<close>

theorem buffer_refines_bytes:
  assumes "generous h" and "\<forall>oper\<in>set opers. buffer_op_end oper \<le> 18446744073709551488"
  shows "\<exists>b. buffer_run h (dmi_buffer_create addr) opers = Inr b \<and> buffer_wf b \<and>
    buffer_bytes b = foldl bytes_step [] opers \<and>
    unat (buf_length b) = length (foldl bytes_step [] opers)"
  using buffer_run_succeeds [OF assms, of "dmi_buffer_create addr"]
    buffer_run_correct [of "dmi_buffer_create addr" opers h] assms(2)
  by (metis buffer_bytes_create buffer_length_bytes buffer_wf_create)

theorem buffer_refines_bytes_witness:
  "\<exists>b. buffer_run (\<lambda>n. Some (\<lambda>i. 170)) (dmi_buffer_create 7)
      [Write [1, 2, 3] 2, Resize 4, Resize 6, Write [9] 1, Reserve 300] = Inr b \<and>
    buffer_bytes b = [0, 9, 1, 2, 0, 0]"
  using buffer_refines_bytes [of "\<lambda>n. Some (\<lambda>i. 170)"
      "[Write [1, 2, 3] 2, Resize 4, Resize 6, Write [9] 1, Reserve 300]" 7]
  by (simp add: generous_def write_bytes_def patch_def) (elim exE conjE, intro exI conjI, assumption, simp add: numeral_2_eq_2)

lemma reserve_fails_beyond: "dmi_buffer_reserve h b n = Inl e \<Longrightarrow> buf_capacity b < n"
  by (auto simp: dmi_buffer_reserve_def split: if_splits)

lemma buffer_step_faults:
  assumes "buffer_wf b" and "buffer_op_end oper \<le> 18446744073709551488" and "buffer_step h b oper = Inl e"
  shows "e = Raised DMI_ERROR_OUT_OF_MEMORY \<and> unat (buf_capacity b) < buffer_op_end oper"
proof -
  have resize: "e = Raised DMI_ERROR_OUT_OF_MEMORY \<and> unat (buf_capacity b) < unat n"
    if "dmi_buffer_resize h b n = Inl e" for n
    using that reserve_fails_beyond [of h b n] resize_faults [OF that]
    by (auto simp: dmi_buffer_resize_def word_less_nat_alt split: if_splits sum.splits)
  show ?thesis
  proof (cases oper)
    case (Reserve n)
    then show ?thesis
      using assms(3) reserve_fails_beyond [of h b n e] reserve_faults [of h b n e] by (simp add: word_less_nat_alt)
  next
    case (Resize n)
    then show ?thesis using assms(3) resize [of n] by simp
  next
    case (Assign run)
    then have "dmi_buffer_reserve h b (size_of run) = Inl e"
      using assms(3) by (simp add: dmi_buffer_assign_def split: sum.splits)
    then show ?thesis
      using Assign assms(2) reserve_fails_beyond [of h b "size_of run" e] reserve_faults [of h b "size_of run" e]
      by (simp add: word_less_nat_alt unat_size_of)
  next
    case (Write run off)
    have n: "unat (size_of run) = length run" using Write assms(2) by (simp add: unat_size_of)
    have "\<not> size_of run > SIZE_MAX - off"
      using Write assms(2) by (simp add: word_less_nat_alt unat_sub not_less n)
    then have "dmi_buffer_resize h b (off + size_of run) = Inl e"
      using Write assms(3) by (auto simp: dmi_buffer_write_def split: if_splits sum.splits)
    then show ?thesis
      using Write assms(2) resize [of "off + size_of run"] by (simp add: unat_add_small n)
  next
    case Clear
    then show ?thesis using assms(3) by simp
  qed
qed

text \<open>
  Whatever the state of the memory allocator, an operation on a buffer either leaves a
  well-formed buffer with the contents it promises, or fails for lack of memory, and then only if it asks for more than the
  buffer has reserved.
\<close>

theorem buffer_step_outcomes:
  assumes "buffer_wf b" and "buffer_op_end oper \<le> 18446744073709551488"
  shows "case buffer_step h b oper of
      Inr b' \<Rightarrow> buffer_wf b' \<and> buffer_bytes b' = bytes_step (buffer_bytes b) oper
    | Inl e \<Rightarrow> e = Raised DMI_ERROR_OUT_OF_MEMORY \<and> unat (buf_capacity b) < buffer_op_end oper"
  using buffer_step_correct [OF assms] buffer_step_faults [OF assms] by (simp split: sum.splits)

theorem buffer_step_outcomes_witness:
  "case buffer_step (\<lambda>n. None) (dmi_buffer_create 7) (Write [1, 2] 5) of
      Inr b' \<Rightarrow> False | Inl e \<Rightarrow> e = Raised DMI_ERROR_OUT_OF_MEMORY"
  using buffer_step_outcomes [of "dmi_buffer_create 7" "Write [1, 2] 5" "\<lambda>n. None"]
  by (simp add: dmi_buffer_write_def dmi_buffer_create_def dmi_buffer_resize_def dmi_buffer_reserve_def
      realloc_def size_of_def DMI_BUFFER_CAPACITY_STEP_def Let_def split: sum.splits)

end
