(* ===== verification/Streams.thy ===== *)
theory Streams
  imports Buffer
begin

text \<open>
  The two interfaces the decoding and the encoding of structures are written against: a source
  the bytes are taken from one run after another, which the reader and the decoder provide,
  and a sink the bytes are put into, which the writer and the encoder provide. What the clients
  need of them is proved here once.
\<close>

primrec get_all :: "('r \<Rightarrow> size_t \<Rightarrow> (byte list \<times> 'r) result) \<Rightarrow> 'r \<Rightarrow> size_t list \<Rightarrow> (byte list list \<times> 'r) result" where
  "get_all get r [] = Inr ([], r)"
| "get_all get r (n # ns) =
    (case get r n of
       Inl e \<Rightarrow> Inl e
     | Inr (run, r') \<Rightarrow> (case get_all get r' ns of Inl e \<Rightarrow> Inl e | Inr (runs, r'') \<Rightarrow> Inr (run # runs, r'')))"

primrec put_all :: "(heap \<Rightarrow> 'w \<Rightarrow> byte list \<Rightarrow> 'w result) \<Rightarrow> heap \<Rightarrow> 'w \<Rightarrow> byte list list \<Rightarrow> 'w result" where
  "put_all put h w [] = Inr w"
| "put_all put h w (run # runs) = (case put h w run of Inl e \<Rightarrow> Inl e | Inr w' \<Rightarrow> put_all put h w' runs)"

locale byte_source =
  fixes wf :: "'r \<Rightarrow> bool"
    and rest :: "'r \<Rightarrow> byte list"
    and get :: "'r \<Rightarrow> size_t \<Rightarrow> (byte list \<times> 'r) result"
  assumes get_enough: "wf r \<Longrightarrow> unat n \<le> length (rest r) \<Longrightarrow>
      \<exists>r'. get r n = Inr (take (unat n) (rest r), r') \<and> wf r' \<and> rest r' = drop (unat n) (rest r)"
    and get_short: "wf r \<Longrightarrow> length (rest r) < unat n \<Longrightarrow> get r n = Inl Quiet"
begin

lemma get_cases:
  assumes "wf r"
  obtains (short) "length (rest r) < unat n" "get r n = Inl Quiet"
  | (enough) r' where "unat n \<le> length (rest r)" "get r n = Inr (take (unat n) (rest r), r')"
      "wf r'" "rest r' = drop (unat n) (rest r)"
  using assms get_enough [of r n] get_short [of r n] by (cases "unat n \<le> length (rest r)") auto

lemma get_success:
  assumes "wf r" and "get r n = Inr (bs, r')"
  shows "unat n \<le> length (rest r)" and "bs = take (unat n) (rest r)"
    and "wf r'" and "rest r' = drop (unat n) (rest r)"
  using assms by (auto elim!: get_cases [of r n])

lemma get_split: "wf r \<Longrightarrow> get r n = Inr (bs, r') \<Longrightarrow> rest r = bs @ rest r'"
  using get_success [of r n bs r'] by simp

lemma get_length: "wf r \<Longrightarrow> get r n = Inr (bs, r') \<Longrightarrow> length bs = unat n"
  using get_success [of r n bs r'] by simp

lemma get_prefix:
  "wf r \<Longrightarrow> rest r = bs @ tail_bs \<Longrightarrow> length bs = unat n \<Longrightarrow>
    \<exists>r'. get r n = Inr (bs, r') \<and> wf r' \<and> rest r' = tail_bs"
  using get_enough [of r n] by auto

text \<open>Two runs taken one after another are the run of their joint length.\<close>

lemma get_get:
  assumes "wf r" and "get r m = Inr (xs, r1)" and "get r1 n = Inr (ys, r2)"
    and "unat m + unat n < 18446744073709551616"
  shows "\<exists>r'. get r (m + n) = Inr (xs @ ys, r') \<and> wf r' \<and> rest r' = rest r2"
proof -
  have w1: "wf r1" using get_success(3) [OF assms(1,2)] .
  have "rest r = (xs @ ys) @ rest r2"
    using get_split [OF assms(1,2)] get_split [OF w1 assms(3)] by simp
  moreover have "length (xs @ ys) = unat (m + n)"
    using get_length [OF assms(1,2)] get_length [OF w1 assms(3)] assms(4) by (simp add: unat_add_small)
  ultimately show ?thesis using get_prefix [OF assms(1)] by blast
qed

lemma get_all_correct:
  "wf r \<Longrightarrow> get_all get r ns = Inr (runs, r') \<Longrightarrow>
    wf r' \<and> rest r = concat runs @ rest r' \<and> map length runs = map unat ns"
proof (induction ns arbitrary: r runs)
  case (Cons n ns)
  from Cons.prems(2) obtain run r1 runs1 where g: "get r n = Inr (run, r1)"
    and ga: "get_all get r1 ns = Inr (runs1, r')" and runs: "runs = run # runs1"
    by (auto split: sum.splits prod.splits)
  have wf1: "wf r1" using get_success(3) [OF Cons.prems(1) g] .
  show ?case
    using Cons.IH [OF wf1 ga] get_split [OF Cons.prems(1) g] get_length [OF Cons.prems(1) g]
    by (simp add: runs)
qed simp

lemma get_all_prefix:
  "wf r \<Longrightarrow> rest r = concat runs @ more_bs \<Longrightarrow> map length runs = map unat ns \<Longrightarrow>
    \<exists>r'. get_all get r ns = Inr (runs, r') \<and> wf r' \<and> rest r' = more_bs"
proof (induction ns arbitrary: r runs)
  case (Cons n ns)
  from Cons.prems(3) obtain run runs1 where runs: "runs = run # runs1" "length run = unat n"
    "map length runs1 = map unat ns" by auto
  have "rest r = run @ (concat runs1 @ more_bs)" using Cons.prems(2) runs by simp
  from get_prefix [OF Cons.prems(1) this runs(2)]
  obtain r1 where "get r n = Inr (run, r1)" "wf r1" "rest r1 = concat runs1 @ more_bs" by blast
  with Cons.IH [OF this(2,3) runs(3)] show ?case by (auto simp: runs(1))
qed simp

lemma get_all_succeeds_iff:
  "wf r \<Longrightarrow> (\<exists>runs r'. get_all get r ns = Inr (runs, r')) \<longleftrightarrow> sum_list (map unat ns) \<le> length (rest r)"
proof (induction ns arbitrary: r)
  case (Cons n ns)
  show ?case
  proof (cases rule: get_cases [OF Cons.prems, of n])
    case 1
    then show ?thesis by simp
  next
    case (2 r')
    then show ?thesis using Cons.IH [OF 2(3)] by (auto split: sum.splits)
  qed
qed simp

end

locale byte_sink =
  fixes wf :: "'w \<Rightarrow> bool"
    and written :: "'w \<Rightarrow> byte list"
    and put :: "heap \<Rightarrow> 'w \<Rightarrow> byte list \<Rightarrow> 'w result"
  assumes put_appends: "wf w \<Longrightarrow> length bs < 18446744073709551616 \<Longrightarrow> put h w bs = Inr w' \<Longrightarrow>
      wf w' \<and> written w' = written w @ bs"
begin

lemma put_put:
  assumes "wf w" and "length xs < 18446744073709551616" and "length ys < 18446744073709551616"
    and "put h w xs = Inr w1" and "put h w1 ys = Inr w2"
  shows "wf w2 \<and> written w2 = written w @ xs @ ys"
  using put_appends [of w xs h w1] put_appends [of w1 ys h w2] assms by simp

lemma put_all_appends:
  "wf w \<Longrightarrow> \<forall>run\<in>set runs. length run < 18446744073709551616 \<Longrightarrow> put_all put h w runs = Inr w' \<Longrightarrow>
    wf w' \<and> written w' = written w @ concat runs"
proof (induction runs arbitrary: w)
  case (Cons run runs)
  from Cons.prems(3) obtain w1 where p: "put h w run = Inr w1" "put_all put h w1 runs = Inr w'"
    by (auto split: sum.splits)
  show ?case using put_appends [OF Cons.prems(1) _ p(1)] Cons.IH [OF _ _ p(2)] Cons.prems(2) by auto
qed simp

lemma put_keeps_prefix:
  assumes "wf w" and "length bs < 18446744073709551616" and "put h w bs = Inr w'"
  shows "take (length (written w)) (written w') = written w"
  using put_appends [OF assms] by simp

end

text \<open>
  A source fed with what a sink has written gives the runs back in the order they have been
  put in, whatever their widths are.
\<close>

locale byte_channel = byte_source wf_r rest get + byte_sink wf_w written put
  for wf_r :: "'r \<Rightarrow> bool" and rest get
    and wf_w :: "'w \<Rightarrow> bool" and written put
begin

lemma put_all_get_all:
  assumes w: "wf_w w" "put_all put h w runs = Inr w'" "\<forall>run\<in>set runs. length run < 18446744073709551616"
    and r: "wf_r r" "written w @ rest r = written w' @ more_bs"
  shows "\<exists>r'. get_all get r (map size_of runs) = Inr (runs, r') \<and> wf_r r' \<and> rest r' = more_bs"
proof -
  have "written w' = written w @ concat runs" using put_all_appends [OF w(1,3,2)] by simp
  with r(2) have "rest r = concat runs @ more_bs" by simp
  moreover have "map length runs = map unat (map size_of runs)" using w(3) by (simp add: unat_size_of)
  ultimately show ?thesis using get_all_prefix [OF r(1)] by blast
qed

end

end
