(* ===== verification/Reader.thy ===== *)
theory Reader
  imports Streams
begin

text \<open>
  The reader (\<^verbatim>\<open>src/reader.c\<close>): a cursor over a range of the data of a buffer. The buffer a
  reader refers to is constant while it is read, so the model holds it by value; marks tell
  buffers apart by \<open>buf_id\<close>, the way the code compares their addresses.
\<close>

record dmi_reader =
  rd_buffer :: dmi_buffer
  rd_base :: size_t
  rd_length :: size_t
  rd_position :: size_t

record dmi_reader_mark_t =
  rm_buffer :: nat
  rm_base :: size_t
  rm_position :: size_t

definition dmi_reader_initialize :: "dmi_buffer \<Rightarrow> size_t \<Rightarrow> size_t \<Rightarrow> dmi_reader result" where
  "dmi_reader_initialize buffer offset length' =
    (if dmi_buffer_at buffer offset length' = None then Inl Quiet
     else Inr \<lparr>rd_buffer = buffer, rd_base = offset, rd_length = length', rd_position = 0\<rparr>)"

definition dmi_reader_seek :: "dmi_reader \<Rightarrow> size_t \<Rightarrow> dmi_reader result" where
  "dmi_reader_seek r position =
    (if position > rd_length r then Inl Quiet else Inr (r\<lparr>rd_position := position\<rparr>))"

definition dmi_reader_mark :: "dmi_reader \<Rightarrow> dmi_reader_mark_t" where
  "dmi_reader_mark r =
    \<lparr>rm_buffer = buf_id (rd_buffer r), rm_base = rd_base r, rm_position = rd_position r\<rparr>"

definition dmi_reader_advance :: "dmi_reader \<Rightarrow> size_t \<Rightarrow> size_t \<Rightarrow> dmi_reader result" where
  "dmi_reader_advance r position length' =
    (if length' > rd_length r \<or> position > rd_length r - length' then Inl Quiet
     else Inr (r\<lparr>rd_position := position + length'\<rparr>))"

definition dmi_reader_skip :: "dmi_reader \<Rightarrow> size_t \<Rightarrow> dmi_reader result" where
  "dmi_reader_skip r length' = dmi_reader_advance r (rd_position r) length'"

definition dmi_reader_skip_ex :: "dmi_reader \<Rightarrow> dmi_reader_mark_t \<Rightarrow> size_t \<Rightarrow> dmi_reader result" where
  "dmi_reader_skip_ex r from length' =
    (if rm_buffer from \<noteq> buf_id (rd_buffer r) \<or> rm_base from \<noteq> rd_base r then Inl Quiet
     else dmi_reader_advance r (rm_position from) length')"

definition dmi_reader_rewind :: "dmi_reader \<Rightarrow> dmi_reader_mark_t \<Rightarrow> dmi_reader result" where
  "dmi_reader_rewind r m = dmi_reader_skip_ex r m 0"

definition dmi_reader_get_bytes_at :: "dmi_reader \<Rightarrow> size_t \<Rightarrow> size_t \<Rightarrow> byte list result" where
  "dmi_reader_get_bytes_at r offset length' =
    (if length' > rd_length r \<or> offset > rd_length r - length' then Inl Quiet
     else dmi_buffer_read (rd_buffer r) (rd_base r + offset) length')"

definition dmi_reader_get_bytes :: "dmi_reader \<Rightarrow> size_t \<Rightarrow> (byte list \<times> dmi_reader) result" where
  "dmi_reader_get_bytes r length' =
    (case dmi_reader_get_bytes_at r (rd_position r) length' of
       Inl e \<Rightarrow> Inl e
     | Inr bs \<Rightarrow> Inr (bs, r\<lparr>rd_position := rd_position r + length'\<rparr>))"

text \<open>The pointer \<open>dmi_reader_ref_bytes\<close> stores is null for a run of no bytes.\<close>

definition dmi_reader_ref_bytes :: "dmi_reader \<Rightarrow> size_t \<Rightarrow> (byte list option \<times> dmi_reader) result" where
  "dmi_reader_ref_bytes r length' =
    (let position = rd_position r
     in case dmi_reader_skip r length' of
          Inl e \<Rightarrow> Inl e
        | Inr r' \<Rightarrow>
            Inr (if length' > 0 then dmi_buffer_at (rd_buffer r') (rd_base r' + position) length' else None, r'))"

definition dmi_reader_tell :: "dmi_reader \<Rightarrow> size_t" where
  "dmi_reader_tell r = rd_position r"

definition dmi_reader_remaining :: "dmi_reader \<Rightarrow> size_t" where
  "dmi_reader_remaining r = rd_length r - rd_position r"

definition dmi_reader_is_done :: "dmi_reader \<Rightarrow> bool" where
  "dmi_reader_is_done r \<longleftrightarrow> rd_position r \<ge> rd_length r"

definition dmi_reader_has :: "dmi_reader \<Rightarrow> size_t \<Rightarrow> bool" where
  "dmi_reader_has r length' \<longleftrightarrow> dmi_reader_remaining r \<ge> length'"

definition dmi_reader_reset :: "dmi_reader \<Rightarrow> dmi_reader" where
  "dmi_reader_reset r = r\<lparr>rd_position := 0\<rparr>"

section \<open>Invariant, and what is left to read\<close>

definition reader_wf :: "dmi_reader \<Rightarrow> bool" where
  "reader_wf r \<longleftrightarrow> buffer_wf (rd_buffer r) \<and> buf_data (rd_buffer r) \<noteq> None \<and>
     unat (rd_base r) + unat (rd_length r) \<le> unat (buf_length (rd_buffer r)) \<and>
     rd_position r \<le> rd_length r"

definition reader_window :: "dmi_reader \<Rightarrow> byte list" where
  "reader_window r = take (unat (rd_length r)) (drop (unat (rd_base r)) (buffer_bytes (rd_buffer r)))"

definition reader_rest :: "dmi_reader \<Rightarrow> byte list" where
  "reader_rest r = drop (unat (rd_position r)) (reader_window r)"

lemma length_reader_window: "reader_wf r \<Longrightarrow> length (reader_window r) = unat (rd_length r)"
  by (auto simp: reader_wf_def reader_window_def buffer_length_bytes)

lemma length_reader_rest: "reader_wf r \<Longrightarrow> length (reader_rest r) = unat (rd_length r) - unat (rd_position r)"
  by (simp add: reader_rest_def length_reader_window)

lemma reader_window_position [simp]: "reader_window (r\<lparr>rd_position := p\<rparr>) = reader_window r"
  by (simp add: reader_window_def)

lemma reader_wf_position: "reader_wf r \<Longrightarrow> p \<le> rd_length r \<Longrightarrow> reader_wf (r\<lparr>rd_position := p\<rparr>)"
  by (simp add: reader_wf_def)

lemma reader_window_bound: "length (reader_window r) < 18446744073709551616"
  using unat_size_less [of "rd_length r"] by (simp add: reader_window_def)

lemma reader_rest_bound: "length (reader_rest r) < 18446744073709551616"
  using reader_window_bound [of r] by (simp add: reader_rest_def)

lemma reader_initialize_correct:
  assumes "buffer_wf b"
  shows "dmi_reader_initialize b off n = Inr r \<longleftrightarrow>
    (buf_data b \<noteq> None \<and> unat off + unat n \<le> length (buffer_bytes b) \<and>
     r = \<lparr>rd_buffer = b, rd_base = off, rd_length = n, rd_position = 0\<rparr>)"
  using assms by (auto simp: dmi_reader_initialize_def at_correct)

lemma reader_initialize_wf:
  assumes "buffer_wf b" and "dmi_reader_initialize b off n = Inr r"
  shows "reader_wf r" and "reader_rest r = take (unat n) (drop (unat off) (buffer_bytes b))"
  using assms
  by (auto simp: reader_initialize_correct reader_wf_def reader_rest_def reader_window_def
      buffer_length_bytes)

lemma get_bytes_at_correct:
  assumes "reader_wf r"
  shows "dmi_reader_get_bytes_at r off n =
    (if unat off + unat n \<le> length (reader_window r)
     then Inr (take (unat n) (drop (unat off) (reader_window r))) else Inl Quiet)"
proof (cases "unat off + unat n \<le> unat (rd_length r)")
  case False
  then show ?thesis
    using assms by (simp add: dmi_reader_get_bytes_at_def fits_iff length_reader_window)
next
  case True
  have len: "length (buffer_bytes (rd_buffer r)) = unat (buf_length (rd_buffer r))"
    and wf: "buffer_wf (rd_buffer r)"
    and fits: "unat (rd_base r) + unat (rd_length r) \<le> unat (buf_length (rd_buffer r))"
    using assms by (auto simp: reader_wf_def buffer_length_bytes)
  have "unat (rd_base r + off) = unat (rd_base r) + unat off"
    using True fits unat_size_less [of "buf_length (rd_buffer r)"] by (intro unat_add_small) linarith
  then show ?thesis
    using True fits len wf assms
    by (simp add: dmi_reader_get_bytes_at_def fits_iff read_correct length_reader_window)
      (simp add: reader_window_def drop_take min_def add.commute)
qed

lemma advance_correct:
  assumes "reader_wf r"
  shows "dmi_reader_advance r p n =
    (if unat p + unat n \<le> length (reader_window r) then Inr (r\<lparr>rd_position := p + n\<rparr>) else Inl Quiet)"
  using assms by (simp add: dmi_reader_advance_def fits_iff length_reader_window)

lemma reader_position_sum:
  assumes "reader_wf r" and "unat p + unat n \<le> length (reader_window r)"
  shows "unat (p + n) = unat p + unat n" and "p + n \<le> rd_length r"
proof -
  show eq: "unat (p + n) = unat p + unat n"
    using assms reader_window_bound [of r] by (intro unat_add_small) simp
  show "p + n \<le> rd_length r"
    using assms by (simp add: word_le_nat_alt eq length_reader_window)
qed

lemma advance_wf:
  assumes "reader_wf r" and "dmi_reader_advance r p n = Inr r'"
  shows "reader_wf r'" and "reader_window r' = reader_window r"
    and "reader_rest r' = drop (unat p + unat n) (reader_window r)"
proof -
  from assms have fits: "unat p + unat n \<le> length (reader_window r)"
    and r': "r' = r\<lparr>rd_position := p + n\<rparr>"
    by (auto simp: advance_correct split: if_splits)
  note sum = reader_position_sum [OF assms(1) fits]
  show "reader_wf r'" unfolding r' using assms(1) sum(2) by (rule reader_wf_position)
  show "reader_window r' = reader_window r" by (simp add: r')
  show "reader_rest r' = drop (unat p + unat n) (reader_window r)"
    by (simp add: r' reader_rest_def sum(1))
qed

lemma get_bytes_enough:
  assumes wf: "reader_wf r" and n: "unat n \<le> length (reader_rest r)"
  shows "\<exists>r'. dmi_reader_get_bytes r n = Inr (take (unat n) (reader_rest r), r') \<and>
    reader_wf r' \<and> reader_rest r' = drop (unat n) (reader_rest r)"
proof -
  have le: "unat (rd_position r) \<le> unat (rd_length r)"
    using wf by (simp add: reader_wf_def word_le_nat_alt)
  have fits: "unat (rd_position r) + unat n \<le> length (reader_window r)"
    using n le wf by (simp add: length_reader_rest length_reader_window)
  note sum = reader_position_sum [OF wf fits]
  show ?thesis
    using wf fits sum
    by (simp add: dmi_reader_get_bytes_def get_bytes_at_correct reader_rest_def reader_wf_position
        drop_drop add.commute)
qed

lemma get_bytes_short:
  assumes wf: "reader_wf r" and n: "length (reader_rest r) < unat n"
  shows "dmi_reader_get_bytes r n = Inl Quiet"
  using assms
  by (simp add: dmi_reader_get_bytes_def get_bytes_at_correct length_reader_rest length_reader_window)

interpretation rd: byte_source reader_wf reader_rest dmi_reader_get_bytes
  by unfold_locales (simp_all add: get_bytes_enough get_bytes_short)

lemma get_all_fields:
  "reader_wf r \<Longrightarrow> get_all dmi_reader_get_bytes r ns = Inr (runs, r') \<Longrightarrow>
    rd_buffer r' = rd_buffer r \<and> rd_base r' = rd_base r \<and> rd_length r' = rd_length r"
proof (induction ns arbitrary: r runs)
  case (Cons n ns)
  from Cons.prems(2) obtain run r1 runs1 where g: "dmi_reader_get_bytes r n = Inr (run, r1)"
    and ga: "get_all dmi_reader_get_bytes r1 ns = Inr (runs1, r')"
    by (auto split: sum.splits prod.splits)
  have "r1 = r\<lparr>rd_position := rd_position r + n\<rparr>" using g by (auto simp: dmi_reader_get_bytes_def split: sum.splits)
  then show ?case using Cons.IH [OF _ ga] rd.get_success(3) [OF Cons.prems(1) g] by simp
qed simp

lemma remaining_correct:
  assumes "reader_wf r"
  shows "unat (dmi_reader_remaining r) = length (reader_rest r)"
  using assms by (simp add: dmi_reader_remaining_def length_reader_rest reader_wf_def unat_sub)

lemma has_correct: "reader_wf r \<Longrightarrow> dmi_reader_has r n \<longleftrightarrow> unat n \<le> length (reader_rest r)"
  by (simp add: dmi_reader_has_def word_le_nat_alt remaining_correct)

lemma is_done_correct: "reader_wf r \<Longrightarrow> dmi_reader_is_done r \<longleftrightarrow> reader_rest r = []"
  by (auto simp: dmi_reader_is_done_def reader_rest_def length_reader_window word_le_nat_alt)

lemma skip_correct:
  assumes wf: "reader_wf r"
  shows "(\<exists>r'. dmi_reader_skip r n = Inr r') \<longleftrightarrow> unat n \<le> length (reader_rest r)"
    and "dmi_reader_skip r n = Inr r' \<Longrightarrow> reader_wf r' \<and> reader_rest r' = drop (unat n) (reader_rest r)"
proof -
  have "unat (rd_position r) \<le> unat (rd_length r)"
    using wf by (simp add: reader_wf_def word_le_nat_alt)
  then show "(\<exists>r'. dmi_reader_skip r n = Inr r') \<longleftrightarrow> unat n \<le> length (reader_rest r)"
    using wf by (auto simp: dmi_reader_skip_def advance_correct length_reader_rest length_reader_window)
  show "dmi_reader_skip r n = Inr r' \<Longrightarrow> reader_wf r' \<and> reader_rest r' = drop (unat n) (reader_rest r)"
    using advance_wf [OF wf, of "rd_position r" n r'] by (simp add: dmi_reader_skip_def reader_rest_def add.commute)
qed

lemma seek_correct:
  assumes "reader_wf r" and "dmi_reader_seek r p = Inr r'"
  shows "reader_wf r' \<and> reader_rest r' = drop (unat p) (reader_window r)"
  using assms by (auto simp: dmi_reader_seek_def reader_wf_position reader_rest_def split: if_splits)

lemma ref_bytes_correct:
  assumes wf: "reader_wf r" and ok: "dmi_reader_ref_bytes r n = Inr (p, r')"
  shows "reader_wf r'" and "reader_rest r' = drop (unat n) (reader_rest r)"
    and "p = (if n = 0 then None else Some (take (unat n) (reader_rest r)))"
proof -
  from ok obtain r1 where r1: "dmi_reader_skip r n = Inr r1" "r' = r1"
    and p: "p = (if n > 0 then dmi_buffer_at (rd_buffer r1) (rd_base r1 + rd_position r) n else None)"
    by (auto simp: dmi_reader_ref_bytes_def Let_def split: sum.splits)
  have n: "unat n \<le> length (reader_rest r)" using skip_correct(1) [OF wf] r1 by blast
  then have fits: "unat (rd_position r) + unat n \<le> length (reader_window r)"
    using wf by (auto simp: length_reader_rest length_reader_window reader_wf_def word_le_nat_alt)
  then have same: "rd_buffer r1 = rd_buffer r" "rd_base r1 = rd_base r"
    using r1 wf by (auto simp: dmi_reader_skip_def advance_correct)
  show "reader_wf r'" and "reader_rest r' = drop (unat n) (reader_rest r)"
    using skip_correct(2) [OF wf r1(1)] r1(2) by simp_all
  have bwf: "buffer_wf (rd_buffer r)" "buf_data (rd_buffer r) \<noteq> None"
    and in_buf: "unat (rd_base r) + unat (rd_length r) \<le> unat (buf_length (rd_buffer r))"
    using wf by (auto simp: reader_wf_def)
  have at: "unat (rd_base r + rd_position r) = unat (rd_base r) + unat (rd_position r)"
    using in_buf fits wf unat_size_less [of "buf_length (rd_buffer r)"]
    by (intro unat_add_small) (simp add: length_reader_window)
  have "dmi_buffer_at (rd_buffer r) (rd_base r + rd_position r) n = Some (take (unat n) (reader_rest r))"
    using bwf in_buf fits wf
    by (simp add: at_correct at buffer_length_bytes length_reader_window)
      (simp add: reader_rest_def reader_window_def drop_take min_def add.commute length_reader_window)
  then show "p = (if n = 0 then None else Some (take (unat n) (reader_rest r)))"
    by (simp add: p same word_neq_0_conv)
qed

lemma rewind_mark:
  assumes "reader_wf r" and "reader_wf r'" and "rd_buffer r' = rd_buffer r"
    and "rd_base r' = rd_base r" and "rd_length r' = rd_length r"
  shows "dmi_reader_rewind r' (dmi_reader_mark r) = Inr r"
proof -
  have "unat (rd_position r) \<le> unat (rd_length r)"
    using assms(1) by (simp add: reader_wf_def word_le_nat_alt)
  then show ?thesis
    using assms by (simp add: dmi_reader_rewind_def dmi_reader_skip_ex_def dmi_reader_mark_def
        advance_correct length_reader_window)
qed

section \<open>Properties\<close>

text \<open>
  C27. Runs of any widths are read one after another exactly when they fit in what is left
  of the range together; the bytes then read are the bytes left, in order and none twice, and
  what is left after them is left to read. No read is ever outside the range of the reader.
\<close>

theorem reader_reads_range:
  assumes "reader_wf r"
  shows "(case get_all dmi_reader_get_bytes r ns of
      Inr (runs, r') \<Rightarrow> reader_wf r' \<and> reader_rest r = concat runs @ reader_rest r' \<and> map length runs = map unat ns
    | Inl e \<Rightarrow> unat (dmi_reader_remaining r) < sum_list (map unat ns))"
proof (cases "get_all dmi_reader_get_bytes r ns")
  case (Inl e)
  then have "\<not> sum_list (map unat ns) \<le> length (reader_rest r)"
    using rd.get_all_succeeds_iff [OF assms, of ns] by simp
  then show ?thesis using Inl remaining_correct [OF assms] by simp
next
  case (Inr x)
  then show ?thesis using rd.get_all_correct [OF assms, of ns] by (cases x) simp
qed

theorem reader_reads_range_witness:
  "let r = \<lparr>rd_buffer = \<lparr>buf_id = 0, buf_data = Some [1, 2, 3, 4], buf_length = 4, buf_capacity = 4\<rparr>,
      rd_base = 1, rd_length = 2, rd_position = 0\<rparr>
   in unat (dmi_reader_remaining r) = 2 \<and> reader_wf r \<and>
     (case get_all dmi_reader_get_bytes r [1, 1] of Inr (runs, r') \<Rightarrow> concat runs @ reader_rest r' = [2, 3] | Inl e \<Rightarrow> False)"
proof -
  let ?r = "\<lparr>rd_buffer = \<lparr>buf_id = 0, buf_data = Some [1, 2, 3, 4], buf_length = 4, buf_capacity = 4\<rparr>,
      rd_base = 1, rd_length = 2, rd_position = 0\<rparr>"
  have wf: "reader_wf ?r"
    by (simp add: reader_wf_def buffer_wf_def buf_memory_def)
  have left: "unat (dmi_reader_remaining ?r) = 2" "reader_rest ?r = [2, 3]"
    by (simp_all add: dmi_reader_remaining_def reader_rest_def reader_window_def buffer_bytes_def buf_memory_def)
  show ?thesis
    using reader_reads_range [OF wf, of "[1, 1]"] wf left
    by (cases "get_all dmi_reader_get_bytes ?r [1, 1]") (auto simp: Let_def simp del: get_all.simps)
qed

text \<open>
  A mark taken of a reader and gone back to gives the reader as it was, whatever has been
  read or skipped in between: the runs read again are the same.
\<close>

theorem reader_rewind_restores:
  assumes "reader_wf r" and "get_all dmi_reader_get_bytes r ns = Inr (runs, r')"
  shows "dmi_reader_rewind r' (dmi_reader_mark r) = Inr r"
  using get_all_fields [OF assms] rd.get_all_correct [OF assms] by (intro rewind_mark assms) simp_all

theorem reader_rewind_restores_witness:
  "let r = \<lparr>rd_buffer = \<lparr>buf_id = 0, buf_data = Some [1, 2, 3, 4], buf_length = 4, buf_capacity = 4\<rparr>,
      rd_base = 1, rd_length = 3, rd_position = 1\<rparr>
   in dmi_reader_rewind (r\<lparr>rd_position := 3\<rparr>) (dmi_reader_mark r) = Inr r"
proof -
  let ?r = "\<lparr>rd_buffer = \<lparr>buf_id = 0, buf_data = Some [1, 2, 3, 4], buf_length = 4, buf_capacity = 4\<rparr>,
      rd_base = 1, rd_length = 3, rd_position = 1\<rparr>"
  have wf: "reader_wf ?r"
    by (simp add: reader_wf_def buffer_wf_def buf_memory_def)
  have "get_all dmi_reader_get_bytes ?r [2] = Inr ([[3, 4]], ?r\<lparr>rd_position := 3\<rparr>)"
    by (simp add: dmi_reader_get_bytes_def dmi_reader_get_bytes_at_def dmi_buffer_read_def buf_load_def buf_memory_def)
  from reader_rewind_restores [OF wf this] show ?thesis by (simp add: Let_def)
qed

end
