(* ===== verification/Writer.thy ===== *)
theory Writer
  imports Reader
begin

text \<open>
  The writer (\<^verbatim>\<open>src/writer.c\<close>): a cursor over a range of a buffer which is written over or
  grows as it is written. The writer owns the buffer it writes in the model: an operation which
  changes the data returns the writer with the changed buffer. The length of a range is a
  \<open>ssize_t\<close>, negative for a range of no length of its own, so it is compared as a signed word.
\<close>

record dmi_writer =
  wr_buffer :: dmi_buffer
  wr_base :: size_t
  wr_length :: size_t
  wr_position :: size_t

record dmi_writer_mark_t =
  wm_buffer :: nat
  wm_base :: size_t
  wm_position :: size_t

definition wr_bounded :: "dmi_writer \<Rightarrow> bool" where
  "wr_bounded w \<longleftrightarrow> 0 \<le> sint (wr_length w)"

definition dmi_writer_initialize :: "dmi_buffer \<Rightarrow> size_t \<Rightarrow> size_t \<Rightarrow> dmi_writer result" where
  "dmi_writer_initialize buffer offset length' =
    (if offset > buf_length buffer then Inl Quiet
     else Inr \<lparr>wr_buffer = buffer, wr_base = offset, wr_length = length', wr_position = 0\<rparr>)"

definition dmi_writer_length :: "dmi_writer \<Rightarrow> size_t" where
  "dmi_writer_length w =
    (let len = buf_length (wr_buffer w);
         len = (if len > wr_base w then len - wr_base w else 0)
     in if wr_bounded w \<and> len > wr_length w then wr_length w else len)"

definition dmi_writer_fits :: "dmi_writer \<Rightarrow> size_t \<Rightarrow> size_t \<Rightarrow> bool" where
  "dmi_writer_fits w offset length' \<longleftrightarrow>
    (if \<not> wr_bounded w
     then offset \<le> SIZE_MAX - wr_base w \<and> length' \<le> SIZE_MAX - wr_base w - offset
     else length' \<le> wr_length w \<and> offset \<le> wr_length w - length')"

definition dmi_writer_seek :: "dmi_writer \<Rightarrow> size_t \<Rightarrow> dmi_writer result" where
  "dmi_writer_seek w position =
    (if position > dmi_writer_length w then Inl Quiet else Inr (w\<lparr>wr_position := position\<rparr>))"

definition dmi_writer_mark :: "dmi_writer \<Rightarrow> dmi_writer_mark_t" where
  "dmi_writer_mark w =
    \<lparr>wm_buffer = buf_id (wr_buffer w), wm_base = wr_base w, wm_position = wr_position w\<rparr>"

definition dmi_writer_rewind :: "dmi_writer \<Rightarrow> dmi_writer_mark_t \<Rightarrow> dmi_writer result" where
  "dmi_writer_rewind w m =
    (if wm_buffer m \<noteq> buf_id (wr_buffer w) \<or> wm_base m \<noteq> wr_base w then Inl Quiet
     else dmi_writer_seek w (wm_position m))"

definition dmi_writer_put_bytes_at :: "heap \<Rightarrow> dmi_writer \<Rightarrow> byte list \<Rightarrow> size_t \<Rightarrow> dmi_writer result" where
  "dmi_writer_put_bytes_at h w ptr offset =
    (if \<not> dmi_writer_fits w offset (size_of ptr) then Inl Quiet
     else (case dmi_buffer_write h (wr_buffer w) ptr (wr_base w + offset) of
             Inl e \<Rightarrow> Inl e
           | Inr b \<Rightarrow> Inr (w\<lparr>wr_buffer := b\<rparr>)))"

definition dmi_writer_put_bytes :: "heap \<Rightarrow> dmi_writer \<Rightarrow> byte list \<Rightarrow> dmi_writer result" where
  "dmi_writer_put_bytes h w ptr =
    (case dmi_writer_put_bytes_at h w ptr (wr_position w) of
       Inl e \<Rightarrow> Inl e
     | Inr w' \<Rightarrow> Inr (w'\<lparr>wr_position := wr_position w' + size_of ptr\<rparr>))"

definition dmi_writer_skip :: "heap \<Rightarrow> dmi_writer \<Rightarrow> size_t \<Rightarrow> dmi_writer result" where
  "dmi_writer_skip h w length' =
    (if \<not> dmi_writer_fits w (wr_position w) length' then Inl Quiet
     else
       let end' = wr_position w + length'
       in (case (if end' > dmi_writer_length w then dmi_buffer_resize h (wr_buffer w) (wr_base w + end')
                 else Inr (wr_buffer w)) of
             Inl e \<Rightarrow> Inl e
           | Inr b \<Rightarrow> Inr (w\<lparr>wr_buffer := b, wr_position := end'\<rparr>)))"

definition dmi_writer_skip_ex :: "heap \<Rightarrow> dmi_writer \<Rightarrow> dmi_writer_mark_t \<Rightarrow> size_t \<Rightarrow> dmi_writer result" where
  "dmi_writer_skip_ex h w from length' =
    (if wm_buffer from \<noteq> buf_id (wr_buffer w) \<or> wm_base from \<noteq> wr_base w then Inl Quiet
     else if length' > SIZE_MAX - wm_position from then Inl Quiet
     else
       let end' = wm_position from + length'
       in if end' < wr_position w then Inl Quiet else dmi_writer_skip h w (end' - wr_position w))"

definition dmi_writer_tell :: "dmi_writer \<Rightarrow> size_t" where
  "dmi_writer_tell w = wr_position w"

definition dmi_writer_reset :: "dmi_writer \<Rightarrow> dmi_writer" where
  "dmi_writer_reset w = w\<lparr>wr_position := 0\<rparr>"

section \<open>Invariant, and what has been written\<close>

text \<open>
  A range begins within the data, its end is an offset a \<open>size_t\<close> holds, and the cursor stands
  within what has been written of it.
\<close>

definition writer_wf :: "dmi_writer \<Rightarrow> bool" where
  "writer_wf w \<longleftrightarrow> buffer_wf (wr_buffer w) \<and> wr_base w \<le> buf_length (wr_buffer w) \<and>
     (wr_bounded w \<longrightarrow> unat (wr_base w) + unat (wr_length w) < 18446744073709551616) \<and>
     wr_position w \<le> dmi_writer_length w"

definition writer_range :: "dmi_writer \<Rightarrow> byte list" where
  "writer_range w = drop (unat (wr_base w)) (buffer_bytes (wr_buffer w))"

definition writer_written :: "dmi_writer \<Rightarrow> byte list" where
  "writer_written w = take (unat (wr_position w)) (writer_range w)"

lemma wr_bounded_update [simp]:
  "wr_bounded (w\<lparr>wr_buffer := b\<rparr>) = wr_bounded w" "wr_bounded (w\<lparr>wr_position := p\<rparr>) = wr_bounded w"
  by (simp_all add: wr_bounded_def)

lemma dmi_writer_length_position [simp]: "dmi_writer_length (w\<lparr>wr_position := p\<rparr>) = dmi_writer_length w"
  by (simp add: dmi_writer_length_def Let_def)

lemma writer_range_position [simp]: "writer_range (w\<lparr>wr_position := p\<rparr>) = writer_range w"
  by (simp add: writer_range_def)

lemma writer_length_correct:
  assumes "buffer_wf (wr_buffer w)" and "wr_base w \<le> buf_length (wr_buffer w)"
  shows "unat (dmi_writer_length w) =
    (if wr_bounded w then min (length (writer_range w)) (unat (wr_length w)) else length (writer_range w))"
  using assms
  by (auto simp: dmi_writer_length_def Let_def writer_range_def buffer_length_bytes unat_sub
      word_less_nat_alt word_le_nat_alt min_def)

lemma writer_length_le: "writer_wf w \<Longrightarrow> unat (dmi_writer_length w) \<le> length (writer_range w)"
  by (simp add: writer_wf_def writer_length_correct)

lemma length_writer_written: "writer_wf w \<Longrightarrow> length (writer_written w) = unat (wr_position w)"
  using writer_length_le [of w] by (auto simp: writer_written_def writer_wf_def word_le_nat_alt)

lemma writer_fits_correct:
  assumes "writer_wf w"
  shows "dmi_writer_fits w off n \<longleftrightarrow>
    (if wr_bounded w then unat off + unat n \<le> unat (wr_length w)
     else unat (wr_base w) + unat off + unat n < 18446744073709551616)"
proof (cases "wr_bounded w")
  case True
  then show ?thesis by (simp add: dmi_writer_fits_def fits_iff')
next
  case False
  have "unat (SIZE_MAX - wr_base w) = 18446744073709551615 - unat (wr_base w)" by (simp add: unat_sub)
  then show ?thesis
    using False unat_le_size_max [of "wr_base w"]
    by (auto simp: dmi_writer_fits_def word_le_nat_alt unat_sub)
qed

lemma writer_fits_sum:
  assumes "writer_wf w" and "dmi_writer_fits w off n"
  shows "unat (wr_base w) + unat off + unat n < 18446744073709551616"
  using assms writer_fits_correct [OF assms(1), of off n] by (auto simp: writer_wf_def split: if_splits)

lemma writer_initialize_wf:
  assumes "buffer_wf b" and "dmi_writer_initialize b off len = Inr w"
    and "0 \<le> sint len \<Longrightarrow> unat off + unat len < 18446744073709551616"
  shows "writer_wf w" and "writer_written w = []" and "writer_range w = drop (unat off) (buffer_bytes b)"
  using assms
  by (auto simp: dmi_writer_initialize_def writer_wf_def wr_bounded_def writer_written_def
      writer_range_def split: if_splits)

lemma put_bytes_at_correct:
  assumes wf: "writer_wf w" and len: "length ptr < 18446744073709551616"
    and ok: "dmi_writer_put_bytes_at h w ptr off = Inr w'"
    and inside: "unat off \<le> length (writer_range w)"
  shows "writer_wf w'" and "writer_range w' = write_bytes (writer_range w) (unat off) ptr"
    and "wr_position w' = wr_position w" and "wr_base w' = wr_base w" and "wr_length w' = wr_length w"
    and "take (unat (wr_base w)) (buffer_bytes (wr_buffer w')) = take (unat (wr_base w)) (buffer_bytes (wr_buffer w))"
    and "buf_id (wr_buffer w') = buf_id (wr_buffer w)"
proof -
  have n: "unat (size_of ptr) = length ptr" using len by (rule unat_size_of)
  from ok obtain b where fits: "dmi_writer_fits w off (size_of ptr)"
    and b: "dmi_buffer_write h (wr_buffer w) ptr (wr_base w + off) = Inr b"
    and w': "w' = w\<lparr>wr_buffer := b\<rparr>"
    by (auto simp: dmi_writer_put_bytes_at_def split: if_splits sum.splits)
  have bwf: "buffer_wf (wr_buffer w)" and base: "unat (wr_base w) \<le> length (buffer_bytes (wr_buffer w))"
    using wf by (auto simp: writer_wf_def buffer_length_bytes word_le_nat_alt)
  have sum: "unat (wr_base w + off) = unat (wr_base w) + unat off"
    using writer_fits_sum [OF wf fits] by (intro unat_add_small) simp
  note wr = write_correct [OF bwf len b]
  let ?B = "buffer_bytes (wr_buffer w)"
  have off_in: "unat (wr_base w) + unat off \<le> length ?B" using inside base by (simp add: writer_range_def)
  show range: "writer_range w' = write_bytes (writer_range w) (unat off) ptr"
    using drop_write_bytes [OF off_in] wr(2) by (simp add: w' writer_range_def sum)
  show keep: "take (unat (wr_base w)) (buffer_bytes (wr_buffer w')) = take (unat (wr_base w)) ?B"
    using take_write_bytes_before [OF off_in] wr(2) by (simp add: w' sum)
  have long: "length ?B \<le> length (buffer_bytes b)"
    by (simp add: wr(2) length_write_bytes)
  then have "wr_base w \<le> buf_length b"
    using base wr(1) by (simp add: word_le_nat_alt buffer_length_bytes)
  moreover from this have "dmi_writer_length w \<le> dmi_writer_length w'"
    using wf long bwf wr(1)
    by (simp add: word_le_nat_alt writer_length_correct w' writer_wf_def)
      (auto simp: writer_range_def min_def)
  ultimately show "writer_wf w'" using wf wr(1) by (auto simp: writer_wf_def w')
  show "wr_position w' = wr_position w" "wr_base w' = wr_base w" "wr_length w' = wr_length w"
    by (simp_all add: w')
  show "buf_id (wr_buffer w') = buf_id (wr_buffer w)" by (simp add: w' wr(3))
qed

lemma put_bytes_correct:
  assumes wf: "writer_wf w" and len: "length ptr < 18446744073709551616"
    and ok: "dmi_writer_put_bytes h w ptr = Inr w'"
  shows "writer_wf w'" and "writer_written w' = writer_written w @ ptr"
    and "writer_range w' = write_bytes (writer_range w) (unat (wr_position w)) ptr"
    and "wr_base w' = wr_base w" and "wr_length w' = wr_length w"
    and "take (unat (wr_base w)) (buffer_bytes (wr_buffer w')) = take (unat (wr_base w)) (buffer_bytes (wr_buffer w))"
    and "buf_id (wr_buffer w') = buf_id (wr_buffer w)"
proof -
  have n: "unat (size_of ptr) = length ptr" using len by (rule unat_size_of)
  from ok obtain w1 where w1: "dmi_writer_put_bytes_at h w ptr (wr_position w) = Inr w1"
    and w': "w' = w1\<lparr>wr_position := wr_position w1 + size_of ptr\<rparr>"
    by (auto simp: dmi_writer_put_bytes_def split: sum.splits)
  have inside: "unat (wr_position w) \<le> length (writer_range w)"
    using wf writer_length_le [OF wf] by (auto simp: writer_wf_def word_le_nat_alt)
  note p = put_bytes_at_correct [OF wf len w1 inside]
  have fits: "dmi_writer_fits w (wr_position w) (size_of ptr)"
    using w1 by (auto simp: dmi_writer_put_bytes_at_def split: if_splits)
  have pos: "unat (wr_position w + size_of ptr) = unat (wr_position w) + length ptr"
    using writer_fits_sum [OF wf fits] by (simp add: unat_add_small n)
  show range: "writer_range w' = write_bytes (writer_range w) (unat (wr_position w)) ptr"
    using p(2) by (simp add: w')
  show "writer_written w' = writer_written w @ ptr"
    using take_write_bytes [OF inside, of ptr] range by (simp add: writer_written_def w' p(3) pos)
  have "wr_position w + size_of ptr \<le> dmi_writer_length w1"
    using fits p(1,2,4,5) wf inside
    by (auto simp: word_le_nat_alt pos writer_length_correct writer_wf_def length_write_bytes
        writer_fits_correct n wr_bounded_def split: if_splits)
  then show "writer_wf w'" using p(1,3) by (simp add: w' writer_wf_def)
  show "wr_base w' = wr_base w" "wr_length w' = wr_length w" using p(4,5) by (simp_all add: w')
  show "take (unat (wr_base w)) (buffer_bytes (wr_buffer w')) = take (unat (wr_base w)) (buffer_bytes (wr_buffer w))"
    using p(6) by (simp add: w')
  show "buf_id (wr_buffer w') = buf_id (wr_buffer w)" using p(7) by (simp add: w')
qed

lemma put_all_fields:
  "writer_wf w \<Longrightarrow> \<forall>run\<in>set runs. length run < 18446744073709551616 \<Longrightarrow>
    put_all dmi_writer_put_bytes h w runs = Inr w' \<Longrightarrow>
    wr_base w' = wr_base w \<and> wr_length w' = wr_length w \<and> buf_id (wr_buffer w') = buf_id (wr_buffer w) \<and>
    take (unat (wr_base w)) (buffer_bytes (wr_buffer w')) = take (unat (wr_base w)) (buffer_bytes (wr_buffer w))"
proof (induction runs arbitrary: w)
  case (Cons run runs)
  from Cons.prems(3) obtain w1 where p: "dmi_writer_put_bytes h w run = Inr w1"
      "put_all dmi_writer_put_bytes h w1 runs = Inr w'"
    by (auto split: sum.splits)
  have len: "length run < 18446744073709551616" using Cons.prems(2) by simp
  note q = put_bytes_correct [OF Cons.prems(1) len p(1)]
  show ?case using Cons.IH [OF q(1) _ p(2)] Cons.prems(2) q(4-7) by simp
qed simp

interpretation wr: byte_sink writer_wf writer_written dmi_writer_put_bytes
  by unfold_locales (simp add: put_bytes_correct(1,2))

interpretation rw: byte_channel reader_wf reader_rest dmi_reader_get_bytes
    writer_wf writer_written dmi_writer_put_bytes
  by unfold_locales

section \<open>Properties\<close>

lemma put_bytes_succeeds:
  assumes "generous h" and "writer_wf w" and "\<not> wr_bounded w"
    and "unat (wr_base w) + unat (wr_position w) + length ptr \<le> 18446744073709551488"
  shows "\<exists>w'. dmi_writer_put_bytes h w ptr = Inr w'"
proof -
  have n: "unat (size_of ptr) = length ptr" using assms(4) by (simp add: unat_size_of)
  have "dmi_writer_fits w (wr_position w) (size_of ptr)"
    using assms by (simp add: writer_fits_correct n)
  moreover have "unat (wr_base w + wr_position w) + length ptr \<le> 18446744073709551488"
    using assms(4) by (simp add: unat_add_small)
  ultimately show ?thesis
    using write_succeeds [OF assms(1), of "wr_base w + wr_position w" ptr "wr_buffer w"]
    by (auto simp: dmi_writer_put_bytes_def dmi_writer_put_bytes_at_def)
qed

lemma put_bytes_at_faults:
  assumes "writer_wf w" and "length ptr < 18446744073709551616"
    and "dmi_writer_put_bytes_at h w ptr off = Inl e" and "dmi_writer_fits w off (size_of ptr)"
  shows "e = Raised DMI_ERROR_OUT_OF_MEMORY"
proof -
  have n: "unat (size_of ptr) = length ptr" using assms(2) by (rule unat_size_of)
  have sum: "unat (wr_base w) + unat off + length ptr < 18446744073709551616"
    using writer_fits_sum [OF assms(1,4)] by (simp add: n)
  then have "\<not> size_of ptr > SIZE_MAX - (wr_base w + off)"
    by (simp add: word_less_nat_alt unat_sub not_less n unat_add_small)
  with assms(3,4) show ?thesis
    by (auto simp: dmi_writer_put_bytes_at_def dmi_buffer_write_def dest: resize_faults
        split: if_splits sum.splits)
qed

lemma put_bytes_refused:
  assumes wf: "writer_wf w" and "wr_bounded w" and len: "length ptr < 18446744073709551616"
    and bad: "dmi_writer_put_bytes h w ptr = Inl e"
  shows "unat (wr_length w) < unat (wr_position w) + length ptr \<or> e = Raised DMI_ERROR_OUT_OF_MEMORY"
proof -
  have "dmi_writer_put_bytes_at h w ptr (wr_position w) = Inl e"
    using bad by (simp add: dmi_writer_put_bytes_def split: sum.splits)
  with put_bytes_at_faults [OF wf len this] show ?thesis
    using assms(2) by (auto simp: writer_fits_correct [OF wf] unat_size_of [OF len] not_less [symmetric])
qed

lemma nth_write_bytes:
  "off \<le> length bs \<Longrightarrow> i < length bs \<Longrightarrow>
    write_bytes bs off run ! i = (if off \<le> i \<and> i < off + length run then run ! (i - off) else bs ! i)"
  by (auto simp: write_bytes_def patch_def nth_append)

lemma put_bytes_within:
  assumes wf: "writer_wf w" and bound: "wr_bounded w" and len: "length ptr < 18446744073709551616"
    and ok: "dmi_writer_put_bytes h w ptr = Inr w'"
  shows "writer_wf w' \<and> unat (wr_position w') = unat (wr_position w) + length ptr \<and>
        unat (wr_position w') \<le> unat (wr_length w) \<and>
        (\<forall>i. i < unat (wr_base w) + unat (wr_position w) \<or> unat (wr_base w) + unat (wr_length w) \<le> i \<longrightarrow>
          i < length (buffer_bytes (wr_buffer w)) \<longrightarrow>
          buffer_bytes (wr_buffer w') ! i = buffer_bytes (wr_buffer w) ! i)"
proof -
  let ?b = "unat (wr_base w)" and ?p = "unat (wr_position w)" and ?B = "buffer_bytes (wr_buffer w)"
  have fits: "dmi_writer_fits w (wr_position w) (size_of ptr)"
    using ok by (auto simp: dmi_writer_put_bytes_def dmi_writer_put_bytes_at_def split: if_splits)
  then have in_range: "?p + length ptr \<le> unat (wr_length w)"
    using bound by (simp add: writer_fits_correct [OF wf] unat_size_of [OF len])
  have pos: "unat (wr_position w') = ?p + length ptr"
    using length_writer_written [OF put_bytes_correct(1) [OF wf len ok]] length_writer_written [OF wf]
      put_bytes_correct(2) [OF wf len ok] by simp
  have inside: "?b + ?p \<le> length ?B"
    using wf writer_length_le [OF wf]
    by (auto simp: writer_wf_def word_le_nat_alt writer_range_def buffer_length_bytes)
  have at: "unat (wr_base w + wr_position w) = ?b + ?p"
    using writer_fits_sum [OF wf fits] by (intro unat_add_small) simp
  have "dmi_buffer_write h (wr_buffer w) ptr (wr_base w + wr_position w) = Inr (wr_buffer w')"
    using ok by (auto simp: dmi_writer_put_bytes_def dmi_writer_put_bytes_at_def split: if_splits sum.splits)
  then have B: "buffer_bytes (wr_buffer w') = write_bytes ?B (?b + ?p) ptr"
    using write_correct(2) [OF _ len, of "wr_buffer w" h] wf by (simp add: writer_wf_def at)
  have "buffer_bytes (wr_buffer w') ! i = ?B ! i"
    if "i < ?b + ?p \<or> ?b + unat (wr_length w) \<le> i" "i < length ?B" for i
    using nth_write_bytes [OF inside that(2), of ptr] that(1) in_range by (auto simp: B)
  then show ?thesis using pos in_range put_bytes_correct(1) [OF wf len ok] by simp
qed

text \<open>
  C28. Runs put one after another by a writer into a range with or without a length of its own
  are what a reader placed over the same range of the buffer then reads: the widths and the
  bytes come back in order, and nothing before the range has changed.
\<close>

theorem writer_then_reader:
  assumes "writer_wf w" and "wr_position w = 0"
    and "\<forall>run\<in>set runs. length run < 18446744073709551616"
    and "put_all dmi_writer_put_bytes h w runs = Inr w'"
    and "dmi_reader_initialize (wr_buffer w') (wr_base w') (wr_position w') = Inr r"
  shows "\<exists>r'. get_all dmi_reader_get_bytes r (map size_of runs) = Inr (runs, r') \<and>
      dmi_reader_is_done r' \<and>
    take (unat (wr_base w)) (buffer_bytes (wr_buffer w')) = take (unat (wr_base w)) (buffer_bytes (wr_buffer w))"
proof -
  have w': "writer_wf w'" "writer_written w' = concat runs"
    using wr.put_all_appends [OF assms(1,3,4)] assms(2) by (simp_all add: writer_written_def)
  have r: "reader_wf r" "reader_rest r = concat runs"
    using reader_initialize_wf [OF _ assms(5)] w'
    by (simp_all add: writer_wf_def writer_written_def writer_range_def)
  have "writer_written w @ reader_rest r = writer_written w' @ []"
    using assms(2) r(2) w'(2) by (simp add: writer_written_def)
  from rw.put_all_get_all [OF assms(1,4,3) r(1) this]
  obtain r' where "get_all dmi_reader_get_bytes r (map size_of runs) = Inr (runs, r')"
    and "reader_wf r'" "reader_rest r' = []" by blast
  then show ?thesis using is_done_correct put_all_fields [OF assms(1,3,4)] by blast
qed

theorem writer_then_reader_witness:
  "\<exists>r'. get_all dmi_reader_get_bytes
      \<lparr>rd_buffer = \<lparr>buf_id = 0, buf_data = Some [7, 8, 9, 3], buf_length = 3, buf_capacity = 4\<rparr>,
       rd_base = 1, rd_length = 2, rd_position = 0\<rparr> [1, 1] = Inr ([[8], [9]], r') \<and> dmi_reader_is_done r'"
proof -
  let ?b = "\<lparr>buf_id = 0, buf_data = Some [7, 1, 2, 3], buf_length = 2, buf_capacity = 4\<rparr>"
  let ?c = "\<lparr>buf_id = 0, buf_data = Some [7, 8, 9, 3], buf_length = 3, buf_capacity = 4\<rparr>"
  let ?w = "\<lparr>wr_buffer = ?b, wr_base = 1, wr_length = 2, wr_position = 0\<rparr>"
  let ?w' = "\<lparr>wr_buffer = ?c, wr_base = 1, wr_length = 2, wr_position = 2\<rparr>"
  let ?r = "\<lparr>rd_buffer = ?c, rd_base = 1, rd_length = 2, rd_position = 0\<rparr>"
  have wf: "writer_wf ?w"
    by (simp add: writer_wf_def buffer_wf_def buf_memory_def wr_bounded_def)
  have put: "put_all dmi_writer_put_bytes (\<lambda>n. None) ?w [[8], [9]] = Inr ?w'"
    by (simp add: dmi_writer_put_bytes_def dmi_writer_put_bytes_at_def dmi_writer_fits_def wr_bounded_def
        dmi_buffer_write_def size_of_def dmi_buffer_resize_def dmi_buffer_reserve_def buf_store_def patch_def)
  have init: "dmi_reader_initialize ?c 1 2 = Inr ?r"
    by (simp add: dmi_reader_initialize_def dmi_buffer_at_def buf_load_def)
  show ?thesis
    using writer_then_reader [OF wf _ _ put, of ?r] init by (auto simp: size_of_def simp del: get_all.simps)
qed

text \<open>
  A bounded writer never writes behind the end of its range: a run which does not fit is
  refused, and of the bytes around the range none is changed by a run which is put.
\<close>

theorem writer_stays_in_range:
  assumes "writer_wf w" and "wr_bounded w" and "length ptr < 18446744073709551616"
  shows "case dmi_writer_put_bytes h w ptr of
      Inr w' \<Rightarrow> writer_wf w' \<and> unat (wr_position w') = unat (wr_position w) + length ptr \<and>
        unat (wr_position w') \<le> unat (wr_length w) \<and>
        (\<forall>i. i < unat (wr_base w) + unat (wr_position w) \<or> unat (wr_base w) + unat (wr_length w) \<le> i \<longrightarrow>
          i < length (buffer_bytes (wr_buffer w)) \<longrightarrow>
          buffer_bytes (wr_buffer w') ! i = buffer_bytes (wr_buffer w) ! i)
    | Inl e \<Rightarrow> unat (wr_length w) < unat (wr_position w) + length ptr \<or> e = Raised DMI_ERROR_OUT_OF_MEMORY"
proof (cases "dmi_writer_put_bytes h w ptr")
  case (Inl e)
  then show ?thesis using put_bytes_refused [OF assms Inl] by simp
next
  case (Inr w')
  then show ?thesis using put_bytes_within [OF assms Inr] by simp
qed

theorem writer_stays_in_range_witness:
  "let w = \<lparr>wr_buffer = \<lparr>buf_id = 0, buf_data = Some [7, 1, 2, 3], buf_length = 4, buf_capacity = 4\<rparr>,
      wr_base = 1, wr_length = 2, wr_position = 0\<rparr>
   in (case dmi_writer_put_bytes (\<lambda>n. None) w [5, 6] of Inr w' \<Rightarrow> buffer_bytes (wr_buffer w') ! 3 = 3 | Inl e \<Rightarrow> False)"
proof -
  let ?w = "\<lparr>wr_buffer = \<lparr>buf_id = 0, buf_data = Some [7, 1, 2, 3], buf_length = 4, buf_capacity = 4\<rparr>,
      wr_base = 1, wr_length = 2, wr_position = 0\<rparr>"
  have wf: "writer_wf ?w" "wr_bounded ?w"
    by (simp_all add: writer_wf_def buffer_wf_def buf_memory_def wr_bounded_def)
  have "\<exists>w'. dmi_writer_put_bytes (\<lambda>n. None) ?w [5, 6] = Inr w'"
    by (simp add: dmi_writer_put_bytes_def dmi_writer_put_bytes_at_def dmi_writer_fits_def wr_bounded_def
        dmi_buffer_write_def size_of_def)
  then show ?thesis
    using writer_stays_in_range [OF wf, of "[5, 6]" "\<lambda>n. None"]
    by (auto simp: Let_def buffer_bytes_def buf_memory_def dest!: spec [of _ 3])
qed

end
