(* ===== verification/Codec.thy ===== *)
theory Codec
  imports Prelude
begin

unbundle bit_operations_syntax

text \<open>
  How values are laid out in memory (\<^verbatim>\<open>include/opendmi/utils/codec.h\<close>,
  \<^verbatim>\<open>src/utils/endian.c\<close>, \<^verbatim>\<open>src/utils/codec.c\<close>, \<^verbatim>\<open>src/utils/uuid.c\<close>), and
  the arithmetic helpers of \<^verbatim>\<open>src/utils.c\<close>. The host is little endian, so the words
  of a structure are decoded and encoded as they are, and an integer in memory is the little
  endian value of its bytes.
\<close>

type_synonym uint16_t = "16 word"
type_synonym uint32_t = "32 word"
type_synonym uint64_t = "64 word"

section \<open>Little endian values\<close>

primrec le_nat :: "byte list \<Rightarrow> nat" where
  "le_nat [] = 0"
| "le_nat (b # bs) = unat b + 256 * le_nat bs"

primrec le_bytes :: "nat \<Rightarrow> nat \<Rightarrow> byte list" where
  "le_bytes 0 v = []"
| "le_bytes (Suc n) v = word_of_nat v # le_bytes n (v div 256)"

lemma length_le_bytes [simp]: "length (le_bytes n v) = n"
  by (induction n arbitrary: v) simp_all

lemma le_bytes_le_nat [simp]: "le_bytes (length bs) (le_nat bs) = bs"
proof (induction bs)
  case (Cons b bs)
  have "(word_of_nat (256 * le_nat bs) :: byte) = 0" by (simp only: word_of_nat_eq_0_iff) simp
  then have "word_of_nat (unat b + 256 * le_nat bs) = b" by (simp only: of_nat_add) simp
  moreover have "(unat b + 256 * le_nat bs) div 256 = le_nat bs" by simp
  ultimately show ?case using Cons by simp
qed simp

lemma le_nat_le_bytes: "le_nat (le_bytes n v) = v mod 256 ^ n"
proof (induction n arbitrary: v)
  case (Suc n)
  have "unat (word_of_nat v :: byte) = v mod 256" by (simp add: unat_of_nat)
  then show ?case by (simp add: Suc mod_mult2_eq)
qed simp

lemma le_nat_bound: "le_nat bs < 256 ^ length bs"
proof (induction bs)
  case (Cons b bs)
  then have "le_nat bs + 1 \<le> 256 ^ length bs" by simp
  then have "unat b + 256 * le_nat bs < 256 * 256 ^ length bs" using unat_byte_less [of b] by linarith
  then show ?case by simp
qed simp

lemma le_nat_append: "le_nat (xs @ ys) = le_nat xs + 256 ^ length xs * le_nat ys"
  by (induction xs) (simp_all add: algebra_simps)

lemma le_bytes_inject: "length xs = length ys \<Longrightarrow> le_nat xs = le_nat ys \<longleftrightarrow> xs = ys"
  by (metis le_bytes_le_nat)

text \<open>A word of memory: the little endian value of its bytes, and its bytes.\<close>

definition load_word :: "byte list \<Rightarrow> 'a::len word" where
  "load_word bs = word_of_nat (le_nat bs)"

definition store_word :: "nat \<Rightarrow> 'a::len word \<Rightarrow> byte list" where
  "store_word n w = le_bytes n (unat w)"

lemma length_store_word [simp]: "length (store_word n w) = n"
  by (simp add: store_word_def)

lemma load_store_word: "LENGTH('a) \<le> 8 * n \<Longrightarrow> load_word (store_word n (w :: 'a::len word)) = w"
proof -
  assume len: "LENGTH('a) \<le> 8 * n"
  have "unat w < 2 ^ LENGTH('a)" by (rule unsigned_less)
  also have "(2::nat) ^ LENGTH('a) \<le> 2 ^ (8 * n)" using len by (intro power_increasing) auto
  also have "(2::nat) ^ (8 * n) = 256 ^ n" by (simp add: power_mult)
  finally show ?thesis by (simp add: load_word_def store_word_def le_nat_le_bytes)
qed

lemma store_load_word: "8 * length bs \<le> LENGTH('a) \<Longrightarrow> store_word (length bs) (load_word bs :: 'a::len word) = bs"
proof -
  assume len: "8 * length bs \<le> LENGTH('a)"
  have "le_nat bs < 256 ^ length bs" by (rule le_nat_bound)
  also have "(256::nat) ^ length bs = 2 ^ (8 * length bs)" by (simp add: power_mult)
  also have "\<dots> \<le> 2 ^ LENGTH('a)" using len by (intro power_increasing) auto
  finally have "unat (word_of_nat (le_nat bs) :: 'a word) = le_nat bs" by (simp add: unat_of_nat)
  then show ?thesis by (simp add: load_word_def store_word_def)
qed

lemma store_word_eqD: "store_word n v = store_word n (w :: 'a::len word) \<Longrightarrow> LENGTH('a) \<le> 8 * n \<Longrightarrow> v = w"
  by (metis load_store_word)

section \<open>Swapping bytes\<close>

definition bswap16_compat :: "uint16_t \<Rightarrow> uint16_t" where
  "bswap16_compat value =
    (push_bit 8 (value AND 0x00FF) OR drop_bit 8 (value AND 0xFF00))"

definition bswap32_compat :: "uint32_t \<Rightarrow> uint32_t" where
  "bswap32_compat value =
    (let value = push_bit 8 (value AND 0x00FF00FF) OR drop_bit 8 (value AND 0xFF00FF00)
     in push_bit 16 (value AND 0x0000FFFF) OR drop_bit 16 (value AND 0xFFFF0000))"

definition bswap64_compat :: "uint64_t \<Rightarrow> uint64_t" where
  "bswap64_compat value =
    (let value = push_bit 8 (value AND 0x00FF00FF00FF00FF) OR drop_bit 8 (value AND 0xFF00FF00FF00FF00);
         value = push_bit 16 (value AND 0x0000FFFF0000FFFF) OR drop_bit 16 (value AND 0xFFFF0000FFFF0000)
     in push_bit 32 (value AND 0x00000000FFFFFFFF) OR drop_bit 32 (value AND 0xFFFFFFFF00000000))"

lemma all_less_numeral: "(\<forall>i < numeral n. P i) \<longleftrightarrow> (\<forall>i < pred_numeral n. P i) \<and> P (pred_numeral n)"
  by (auto simp: numeral_eq_Suc less_Suc_eq)

lemma bit_bswap16: "\<forall>n < 16. bit (bswap16_compat v) n \<longleftrightarrow> bit v (8 * (1 - n div 8) + n mod 8)"
  by (simp add: all_less_numeral bswap16_compat_def bit_simps flip: numeral_2_eq_2)

lemma bit_bswap32: "\<forall>n < 32. bit (bswap32_compat v) n \<longleftrightarrow> bit v (8 * (3 - n div 8) + n mod 8)"
  by (simp add: all_less_numeral bswap32_compat_def bit_simps Let_def flip: numeral_2_eq_2)

lemma bit_bswap64: "\<forall>n < 64. bit (bswap64_compat v) n \<longleftrightarrow> bit v (8 * (7 - n div 8) + n mod 8)"
  by (simp add: all_less_numeral bswap64_compat_def bit_simps Let_def flip: numeral_2_eq_2)

lemma nth_le_bytes: "i < n \<Longrightarrow> le_bytes n v ! i = word_of_nat (v div 256 ^ i)"
proof (induction n arbitrary: i v)
  case (Suc n)
  then show ?case by (cases i) (simp_all add: div_mult2_eq)
qed simp

lemma bit_nth_store_word:
  assumes "i < n" and "j < 8"
  shows "bit (store_word n (w :: 'a::len word) ! i) j \<longleftrightarrow> bit w (8 * i + j)"
proof -
  have "(256 :: nat) ^ i = 2 ^ (8 * i)" by (simp add: power_mult)
  then have "store_word n w ! i = word_of_nat (drop_bit (8 * i) (unat w))"
    using assms(1) by (simp add: store_word_def nth_le_bytes drop_bit_eq_div)
  then show ?thesis
    using assms(2) by (simp add: bit_simps) 
qed

text \<open>A word whose bits are those of another one byte by byte from the end is the word of the bytes reversed.\<close>

lemma store_word_rev:
  fixes v w :: "'a::len word"
  assumes "\<forall>k < 8 * n. bit w k \<longleftrightarrow> bit v (8 * (n - 1 - k div 8) + k mod 8)"
  shows "store_word n w = rev (store_word n v)"
proof (rule nth_equalityI)
  fix i assume "i < length (store_word n w)"
  then have i: "i < n" by simp
  show "store_word n w ! i = rev (store_word n v) ! i"
  proof (rule bit_word_eqI)
    fix j assume "j < LENGTH(8)"
    then have j: "j < 8" by simp
    have "8 * i + j < 8 * n" using i j by linarith
    with assms have "bit w (8 * i + j) \<longleftrightarrow> bit v (8 * (n - 1 - (8 * i + j) div 8) + (8 * i + j) mod 8)" by blast
    then show "bit (store_word n w ! i) j \<longleftrightarrow> bit (rev (store_word n v) ! i) j"
      using i j by (simp add: bit_nth_store_word rev_nth)
  qed
qed simp

lemma bswap16_bytes: "store_word 2 (bswap16_compat v) = rev (store_word 2 v)"
  using bit_bswap16 [of v] by (intro store_word_rev) simp

lemma bswap32_bytes: "store_word 4 (bswap32_compat v) = rev (store_word 4 v)"
  using bit_bswap32 [of v] by (intro store_word_rev) simp

lemma bswap64_bytes: "store_word 8 (bswap64_compat v) = rev (store_word 8 v)"
  using bit_bswap64 [of v] by (intro store_word_rev) simp

section \<open>UUIDs\<close>

text \<open>
  A \<open>dmi_uuid_t\<close> is a union of 16 bytes and of the fields laid over them, so it is the list of
  the bytes; a field is the word at its place.
\<close>

type_synonym dmi_uuid = "byte list"

definition uuid_time_low :: "dmi_uuid \<Rightarrow> uint32_t" where
  "uuid_time_low u = load_word (take 4 u)"

definition uuid_time_mid :: "dmi_uuid \<Rightarrow> uint16_t" where
  "uuid_time_mid u = load_word (take 2 (drop 4 u))"

definition uuid_time_hi_and_version :: "dmi_uuid \<Rightarrow> uint16_t" where
  "uuid_time_hi_and_version u = load_word (take 2 (drop 6 u))"

definition dmi_uuid_decode :: "byte list \<Rightarrow> dmi_uuid" where
  "dmi_uuid_decode value =
    (let uuid = value;
         uuid = patch uuid 0 (store_word 4 (bswap32_compat (uuid_time_low uuid)));
         uuid = patch uuid 4 (store_word 2 (bswap16_compat (uuid_time_mid uuid)));
         uuid = patch uuid 6 (store_word 2 (bswap16_compat (uuid_time_hi_and_version uuid)))
     in uuid)"

definition dmi_uuid_encode :: "dmi_uuid \<Rightarrow> byte list" where
  "dmi_uuid_encode value =
    (let value = patch value 0 (store_word 4 (bswap32_compat (uuid_time_low value)));
         value = patch value 4 (store_word 2 (bswap16_compat (uuid_time_mid value)));
         value = patch value 6 (store_word 2 (bswap16_compat (uuid_time_hi_and_version value)))
     in value)"

lemma bswap32_load: "length bs = 4 \<Longrightarrow> store_word 4 (bswap32_compat (load_word bs)) = rev bs"
  using store_load_word [of bs, where 'a = 32] by (simp add: bswap32_bytes)

lemma bswap16_load: "length bs = 2 \<Longrightarrow> store_word 2 (bswap16_compat (load_word bs)) = rev bs"
  using store_load_word [of bs, where 'a = 16] by (simp add: bswap16_bytes)

text \<open>Of the 16 bytes the first four, and the two pairs after them, are reversed.\<close>

lemma uuid_decode_bytes:
  assumes "length u = 16"
  shows "dmi_uuid_decode u = rev (take 4 u) @ rev (take 2 (drop 4 u)) @ rev (take 2 (drop 6 u)) @ drop 8 u"
proof -
  have p0: "patch u 0 (rev (take 4 u)) = rev (take 4 u) @ drop 4 u"
    using assms by (simp add: patch_def)
  have p1: "patch (rev (take 4 u) @ drop 4 u) 4 (rev (take 2 (drop 4 u))) = rev (take 4 u) @ rev (take 2 (drop 4 u)) @ drop 6 u"
    using assms by (simp add: patch_def)
  have p2: "patch (rev (take 4 u) @ rev (take 2 (drop 4 u)) @ drop 6 u) 6 (rev (take 2 (drop 6 u))) =
      rev (take 4 u) @ rev (take 2 (drop 4 u)) @ rev (take 2 (drop 6 u)) @ drop 8 u"
    using assms by (simp add: patch_def)
  show ?thesis
    using assms p0 p1 p2
    by (simp add: dmi_uuid_decode_def Let_def uuid_time_low_def uuid_time_mid_def
        uuid_time_hi_and_version_def bswap32_load bswap16_load)
qed

lemma uuid_encode_decode_eq: "dmi_uuid_encode = dmi_uuid_decode"
  by (rule ext) (simp add: dmi_uuid_encode_def dmi_uuid_decode_def)

lemma length_uuid_decode: "length u = 16 \<Longrightarrow> length (dmi_uuid_decode u) = 16"
  by (simp add: uuid_decode_bytes)

section \<open>Binary coded decimal\<close>

text \<open>
  The loops of \<open>__dmi_decode_bcd\<close> and \<open>__dmi_encode_bcd\<close>; the result is a \<open>uintmax_t\<close>
  and wraps around like one.
\<close>

fun decode_bcd_loop :: "uintmax_t \<Rightarrow> uintmax_t \<Rightarrow> byte list \<Rightarrow> uintmax_t" where
  "decode_bcd_loop result factor [] = result"
| "decode_bcd_loop result factor (v # vs) =
    decode_bcd_loop
      (result + ucast (v AND 0x0F) * factor + ucast (drop_bit 4 (v AND 0xF0)) * factor * 10)
      (factor * 100) vs"

definition dmi_decode_bcd :: "byte list \<Rightarrow> uintmax_t" where
  "dmi_decode_bcd value = decode_bcd_loop 0 1 value"

primrec dmi_encode_bcd :: "uintmax_t \<Rightarrow> nat \<Rightarrow> byte list" where
  "dmi_encode_bcd value 0 = []"
| "dmi_encode_bcd value (Suc length') =
    ucast ((value mod 10) OR push_bit 4 ((value div 10) mod 10)) # dmi_encode_bcd (value div 100) length'"

definition bcd_digits :: "byte \<Rightarrow> nat" where
  "bcd_digits b = unat b mod 16 + 10 * (unat b div 16)"

primrec bcd_nat :: "byte list \<Rightarrow> nat" where
  "bcd_nat [] = 0"
| "bcd_nat (b # bs) = bcd_digits b + 100 * bcd_nat bs"

lemma low_nibble: "unat ((b :: byte) AND 0x0F) = unat b mod 16"
proof -
  have "b AND 0x0F = take_bit 4 b" by (simp add: take_bit_eq_mask mask_eq_exp_minus_1)
  then show ?thesis by (simp add: unat_mod take_bit_eq_mod)
qed

lemma high_nibble: "unat (drop_bit 4 ((b :: byte) AND 0xF0)) = unat b div 16"
proof -
  have "\<forall>n < 8. bit (drop_bit 4 (b AND 0xF0)) n = bit (drop_bit 4 b) n"
    by (simp add: all_less_numeral bit_simps) (auto dest: bit_imp_le_length)
  then have "drop_bit 4 (b AND 0xF0) = drop_bit 4 b" by (intro bit_word_eqI) simp
  then show ?thesis by (simp add: drop_bit_eq_div unat_div)
qed

lemma decode_bcd_loop_value: "decode_bcd_loop r f vs = r + f * word_of_nat (bcd_nat vs)"
proof (induction r f vs rule: decode_bcd_loop.induct)
  case (2 r f v vs)
  have nib: "(ucast (v AND 0x0F) :: uintmax_t) = word_of_nat (unat v mod 16)"
    "(ucast (drop_bit 4 (v AND 0xF0)) :: uintmax_t) = word_of_nat (unat v div 16)"
    by (simp_all only: low_nibble [symmetric] high_nibble [symmetric] of_nat_unat)
  have "decode_bcd_loop r f (v # vs) =
      r + word_of_nat (unat v mod 16) * f + word_of_nat (unat v div 16) * f * 10 + f * 100 * word_of_nat (bcd_nat vs)"
    by (simp only: decode_bcd_loop.simps 2) (simp only: nib)
  then show ?case by (simp add: bcd_digits_def algebra_simps)
qed simp

lemma decode_bcd_value: "dmi_decode_bcd vs = word_of_nat (bcd_nat vs)"
  by (simp add: dmi_decode_bcd_def decode_bcd_loop_value)

lemma bcd_digits_bound: "bcd_digits b \<le> 165"
proof -
  have "unat b div 16 \<le> 15" using unat_byte_less [of b] by linarith
  then show ?thesis by (simp add: bcd_digits_def)
qed

text \<open>Bytes of two decimal digits.\<close>

definition is_bcd :: "byte \<Rightarrow> bool" where
  "is_bcd b \<longleftrightarrow> unat b mod 16 < 10 \<and> unat b div 16 < 10"

text \<open>The byte a pair of digits is encoded as.\<close>

lemma unat_nibbles:
  fixes a b :: uintmax_t
  shows "unat a < 16 \<Longrightarrow> unat b < 16 \<Longrightarrow> unat (ucast (a + 16 * b) :: byte) = unat a + 16 * unat b"
  by (simp add: unsigned_ucast_eq take_bit_eq_mod unat_word_ariths)

lemma unat_encode_bcd_byte:
  fixes v :: uintmax_t
  shows "unat (ucast ((v mod 10) OR push_bit 4 ((v div 10) mod 10)) :: byte) =
    unat v mod 10 + 16 * (unat v div 10 mod 10)"
proof -
  let ?a = "v mod 10" and ?b = "(v div 10) mod 10"
  have a: "unat ?a = unat v mod 10" and b: "unat ?b = unat v div 10 mod 10"
    by (simp_all add: unat_mod unat_div)
  have small: "unat ?a < 16" "unat ?b < 16"
    unfolding a b by (simp_all add: order_less_trans [of _ 10])
  then have lo: "take_bit 4 ?a = ?a"
    by (simp add: take_bit_eq_mod word_unat_eq_iff unat_mod)
  have "\<not> bit ?a n \<or> \<not> bit (push_bit 4 ?b) n" for n
    using arg_cong [OF lo, of "\<lambda>w. bit w n"] by (auto simp: bit_simps)
  then have "?a OR push_bit 4 ?b = ?a + push_bit 4 ?b" by (simp add: disjunctive_add)
  also have "\<dots> = ?a + 16 * ?b" by (simp add: push_bit_eq_mult)
  finally show ?thesis using unat_nibbles [OF small] by (simp only: a b)
qed

lemma encode_bcd_byte:
  fixes v :: uintmax_t
  defines "b \<equiv> ucast ((v mod 10) OR push_bit 4 ((v div 10) mod 10)) :: byte"
  shows "bcd_digits b = unat v mod 100" and "is_bcd b"
proof -
  have u: "unat b = unat v mod 10 + 16 * (unat v div 10 mod 10)"
    unfolding b_def by (rule unat_encode_bcd_byte)
  have small: "unat v mod 10 < 10" "unat v div 10 mod 10 < 10" by simp_all
  then have "unat b mod 16 = unat v mod 10" "unat b div 16 = unat v div 10 mod 10"
    by (simp_all add: u)
  then show "bcd_digits b = unat v mod 100" "is_bcd b"
    using mod_mult2_eq [of "unat v" 10 10] small by (simp_all add: bcd_digits_def is_bcd_def)
qed

lemma bcd_nat_encode: "bcd_nat (dmi_encode_bcd v n) = unat v mod 100 ^ n"
proof (induction n arbitrary: v)
  case (Suc n)
  have "unat v mod 100 ^ Suc n = unat v mod 100 + 100 * (unat v div 100 mod 100 ^ n)"
    by (simp add: mod_mult2_eq)
  then show ?case by (simp add: encode_bcd_byte Suc unat_div)
qed simp

lemma length_encode_bcd [simp]: "length (dmi_encode_bcd v n) = n"
  by (induction n arbitrary: v) simp_all

lemma digits_unique:
  fixes q1 q2 r1 r2 :: nat
  shows "r1 < 10 \<Longrightarrow> r2 < 10 \<Longrightarrow> r1 + 10 * q1 = r2 + 10 * q2 \<Longrightarrow> q1 = q2 \<and> r1 = r2"
    and "r1 < 100 \<Longrightarrow> r2 < 100 \<Longrightarrow> r1 + 100 * q1 = r2 + 100 * q2 \<Longrightarrow> q1 = q2 \<and> r1 = r2"
proof -
  show "q1 = q2 \<and> r1 = r2" if "r1 < 10" "r2 < 10" "r1 + 10 * q1 = r2 + 10 * q2"
  proof -
    have "q1 = q2" using arg_cong [OF that(3), of "\<lambda>n. n div 10"] that(1,2) by simp
    then show ?thesis using that(3) by simp
  qed
  show "q1 = q2 \<and> r1 = r2" if "r1 < 100" "r2 < 100" "r1 + 100 * q1 = r2 + 100 * q2"
  proof -
    have "q1 = q2" using arg_cong [OF that(3), of "\<lambda>n. n div 100"] that(1,2) by simp
    then show ?thesis using that(3) by simp
  qed
qed

lemma bcd_digits_inj:
  assumes "unat a mod 16 < 10" and "unat b mod 16 < 10" and "bcd_digits a = bcd_digits b"
  shows "a = b"
proof -
  have "unat a = 16 * (unat a div 16) + unat a mod 16" "unat b = 16 * (unat b div 16) + unat b mod 16" by simp_all
  moreover have "unat a div 16 = unat b div 16 \<and> unat a mod 16 = unat b mod 16"
    using assms unfolding bcd_digits_def by (rule digits_unique(1))
  ultimately have "unat a = unat b" by metis
  then show ?thesis by (simp add: word_unat_eq_iff)
qed

lemma is_bcd_digits: "is_bcd b \<Longrightarrow> bcd_digits b < 100"
  by (simp add: is_bcd_def bcd_digits_def)

lemma bcd_nat_bound: "list_all is_bcd bs \<Longrightarrow> bcd_nat bs < 100 ^ length bs"
proof (induction bs)
  case (Cons b bs)
  then have "bcd_nat bs + 1 \<le> 100 ^ length bs" by simp
  moreover have "bcd_digits b < 100" using Cons.prems by (simp add: is_bcd_digits)
  ultimately have "bcd_digits b + 100 * bcd_nat bs < 100 * 100 ^ length bs" by linarith
  then show ?case by simp
qed simp

lemma encode_is_bcd: "list_all is_bcd (dmi_encode_bcd v n)"
  by (induction n arbitrary: v) (simp_all add: encode_bcd_byte)

lemma bcd_nat_inj:
  "list_all is_bcd xs \<Longrightarrow> list_all is_bcd ys \<Longrightarrow> length xs = length ys \<Longrightarrow> bcd_nat xs = bcd_nat ys \<Longrightarrow> xs = ys"
proof (induction xs arbitrary: ys)
  case (Cons x xs)
  then obtain y ys' where ys: "ys = y # ys'" by (cases ys) auto
  have "bcd_digits x < 100" "bcd_digits y < 100" using Cons.prems ys by (auto simp: is_bcd_digits)
  then have "bcd_nat xs = bcd_nat ys' \<and> bcd_digits x = bcd_digits y"
    using Cons.prems(4) unfolding ys bcd_nat.simps by (rule digits_unique(2))
  then show ?case using Cons ys by (auto simp: is_bcd_def intro: bcd_digits_inj)
qed simp

section \<open>Properties\<close>

text \<open>
  Binary coded decimal: decoding what \<open>__dmi_encode_bcd\<close> makes of a value gives the value
  back, modulo what the digits there is room for hold, whatever the length; and encoding what
  has been decoded from up to nine bytes of decimal digits gives the bytes back. Decoding is
  the reading of the digits from the lowest byte, modulo the width of \<open>uintmax_t\<close>.
\<close>

theorem bcd_roundtrip:
  "dmi_decode_bcd (dmi_encode_bcd v n) = word_of_nat (unat v mod 100 ^ n) \<and>
   dmi_decode_bcd bs = word_of_nat (bcd_nat bs) \<and>
   (list_all is_bcd bs \<and> length bs \<le> 9 \<longrightarrow> dmi_encode_bcd (dmi_decode_bcd bs) (length bs) = bs)"
proof -
  have "dmi_encode_bcd (dmi_decode_bcd bs) (length bs) = bs" if bcd: "list_all is_bcd bs" and short: "length bs \<le> 9"
  proof -
    have bound: "bcd_nat bs < 100 ^ length bs" using bcd by (rule bcd_nat_bound)
    also have "(100::nat) ^ length bs \<le> 100 ^ 9" using short by (intro power_increasing) auto
    finally have "unat (dmi_decode_bcd bs) = bcd_nat bs" by (simp add: decode_bcd_value unat_of_nat_size)
    then have "bcd_nat (dmi_encode_bcd (dmi_decode_bcd bs) (length bs)) = bcd_nat bs"
      using bound by (simp add: bcd_nat_encode)
    then show ?thesis by (intro bcd_nat_inj) (simp_all add: encode_is_bcd bcd)
  qed
  then show ?thesis by (simp add: decode_bcd_value bcd_nat_encode)
qed

theorem bcd_roundtrip_witness:
  "list_all is_bcd [0x34, 0x12] \<and> dmi_encode_bcd (dmi_decode_bcd [0x34, 0x12]) 2 = [0x34, 0x12]"
proof -
  have bcd: "list_all is_bcd [0x34, 0x12]" and len: "length [0x34, 0x12 :: byte] = 2"
    by (simp_all add: is_bcd_def)
  have "dmi_encode_bcd (dmi_decode_bcd [0x34, 0x12]) (length [0x34, 0x12 :: byte]) = [0x34, 0x12]"
    using bcd_roundtrip [of 0 0 "[0x34, 0x12]"] bcd len by linarith
  with bcd show ?thesis by (simp only: len)
qed

text \<open>
  A UUID of 16 bytes is decoded by reversing its first three fields and keeping the others,
  and encoding gives the bytes of the structure back.
\<close>

theorem uuid_roundtrip:
  assumes "length u = 16"
  shows "dmi_uuid_encode (dmi_uuid_decode u) = u \<and> dmi_uuid_decode (dmi_uuid_encode u) = u \<and>
    dmi_uuid_decode u = rev (take 4 u) @ rev (take 2 (drop 4 u)) @ rev (take 2 (drop 6 u)) @ drop 8 u"
proof -
  let ?a = "rev (take 4 u)" and ?b = "rev (take 2 (drop 4 u))" and ?c = "rev (take 2 (drop 6 u))"
  have d: "dmi_uuid_decode u = ?a @ ?b @ ?c @ drop 8 u" by (rule uuid_decode_bytes [OF assms])
  have "drop 4 u = take 2 (drop 4 u) @ drop 6 u" "drop 6 u = take 2 (drop 6 u) @ drop 8 u"
    using append_take_drop_id [of 2 "drop 4 u"] append_take_drop_id [of 2 "drop 6 u"] by simp_all
  then have "take 4 u @ take 2 (drop 4 u) @ take 2 (drop 6 u) @ drop 8 u = u"
    by (metis append_take_drop_id)
  moreover have "dmi_uuid_decode (?a @ ?b @ ?c @ drop 8 u) =
      rev ?a @ rev ?b @ rev ?c @ drop 8 u"
    using assms by (subst uuid_decode_bytes) simp_all
  ultimately have "dmi_uuid_decode (dmi_uuid_decode u) = u" by (simp add: d)
  then show ?thesis by (simp add: uuid_encode_decode_eq d)
qed

theorem uuid_roundtrip_witness:
  "dmi_uuid_decode [0,1,2,3,4,5,6,7,8,9,10,11,12,13,14,15] = [3,2,1,0,5,4,7,6,8,9,10,11,12,13,14,15]"
  using uuid_roundtrip [of "[0,1,2,3,4,5,6,7,8,9,10,11,12,13,14,15]"] by simp

text \<open>
  The portable byte swaps of 16, 32 and 64 bits reverse the bytes of a word in memory, and
  swapping twice gives the word back.
\<close>

theorem bswap_reverses:
  "store_word 2 (bswap16_compat u) = rev (store_word 2 u) \<and> bswap16_compat (bswap16_compat u) = u \<and>
   store_word 4 (bswap32_compat v) = rev (store_word 4 v) \<and> bswap32_compat (bswap32_compat v) = v \<and>
   store_word 8 (bswap64_compat w) = rev (store_word 8 w) \<and> bswap64_compat (bswap64_compat w) = w"
  by (auto simp: bswap16_bytes bswap32_bytes bswap64_bytes intro: store_word_eqD [of 2] store_word_eqD [of 4] store_word_eqD [of 8])

end
