(* ===== verification/Texts.thy ===== *)
theory Texts
  imports Codec
begin

text \<open>
  Texts (\<^verbatim>\<open>src/utils/string.c\<close>), dates (\<^verbatim>\<open>src/utils/datetime.c\<close>) and versions
  (\<^verbatim>\<open>include/opendmi/utils/version.h\<close>, \<^verbatim>\<open>src/utils/version.c\<close>). A C string is the list of
  its characters up to the terminating zero. The classes of characters are those of the C locale.
\<close>

section \<open>Characters\<close>

definition isprint :: "byte \<Rightarrow> bool" where
  "isprint c \<longleftrightarrow> 0x20 \<le> c \<and> c \<le> 0x7E"

definition char_of_byte :: "byte \<Rightarrow> char" where
  "char_of_byte b = char_of (unat b)"

definition isdigit :: "char \<Rightarrow> bool" where
  "isdigit c \<longleftrightarrow> 48 \<le> (of_char c :: nat) \<and> (of_char c :: nat) \<le> 57"

definition tolower :: "char \<Rightarrow> char" where
  "tolower c = (let n = (of_char c :: nat) in if 65 \<le> n \<and> n \<le> 90 then char_of (n + 32) else c)"

definition toupper :: "char \<Rightarrow> char" where
  "toupper c = (let n = (of_char c :: nat) in if 97 \<le> n \<and> n \<le> 122 then char_of (n - 32) else c)"

definition dmi_string_tolower :: "string \<Rightarrow> string" where
  "dmi_string_tolower str = map tolower str"

definition dmi_string_toupper :: "string \<Rightarrow> string" where
  "dmi_string_toupper str = map toupper str"

definition strcasecmp_eq :: "string \<Rightarrow> string \<Rightarrow> bool" where
  "strcasecmp_eq s t \<longleftrightarrow> map tolower s = map tolower t"

section \<open>Texts of data\<close>

definition dmi_string_placeholders :: "string list" where
  "dmi_string_placeholders =
    [''To Be Filled By O.E.M.'', ''Filled By OEM'', ''Default string'', ''Default'',
     ''System manufacturer'', ''System Product Name'', ''System Version'', ''System Serial Number'',
     ''System SKU Number'', ''Chassis Manufacture'', ''Chassis Version'', ''Chassis Serial Number'',
     ''Not Specified'', ''Not Applicable'', ''Not Available'', ''None'', ''Unknown'', ''N/A'', ''NA'',
     ''TBD'', ''OEM'', ''0123456789'', ''123456789'', ''XXXXXXXX'', ''Fill By OEM'', ''No Asset Tag'',
     ''Empty'', ''[Empty]'', ''NULL'', ''INVALID'', ''NO DIMM'']"

definition dmi_string_is_placeholder :: "string \<Rightarrow> bool" where
  "dmi_string_is_placeholder text' \<longleftrightarrow> list_ex (strcasecmp_eq text') dmi_string_placeholders"

text \<open>The loop of \<open>dmi_string_from_bytes\<close>, with what it has put into the buffer so far.\<close>

fun from_bytes_loop :: "bool \<Rightarrow> byte list \<Rightarrow> string \<Rightarrow> string option" where
  "from_bytes_loop trim [] buffer = (if buffer \<noteq> [] then Some buffer else None)"
| "from_bytes_loop trim (c # cs) buffer =
    (if \<not> isprint c then None
     else if trim \<and> c = 0x20 then from_bytes_loop trim cs buffer
     else from_bytes_loop trim cs (buffer @ [char_of_byte c]))"

definition dmi_string_from_bytes :: "byte list \<Rightarrow> bool \<Rightarrow> string option" where
  "dmi_string_from_bytes data trim = from_bytes_loop trim data []"

section \<open>Numbers in texts\<close>

text \<open>The value \<open>strtoul\<close> reads in base ten from a text beginning with a digit, and what is left of it.\<close>

definition digit_value :: "char \<Rightarrow> nat" where
  "digit_value c = of_char c - 48"

definition decimal :: "string \<Rightarrow> nat" where
  "decimal s = foldl (\<lambda>v c. 10 * v + digit_value c) 0 s"

definition strtoul :: "string \<Rightarrow> nat \<times> string" where
  "strtoul s = (decimal (takeWhile isdigit s), dropWhile isdigit s)"

text \<open>\<open>%u\<close> and \<open>%0nu\<close> of \<open>printf\<close>.\<close>

fun format_u :: "nat \<Rightarrow> string" where
  "format_u n = (if n < 10 then [char_of (48 + n)] else format_u (n div 10) @ [char_of (48 + n mod 10)])"

declare format_u.simps [simp del]

definition format_0u :: "nat \<Rightarrow> nat \<Rightarrow> string" where
  "format_0u width n = replicate (width - length (format_u n)) CHR ''0'' @ format_u n"

section \<open>Dates\<close>

type_synonym dmi_date_t = uint32_t

definition dmi_date :: "uint32_t \<Rightarrow> uint32_t \<Rightarrow> uint32_t \<Rightarrow> dmi_date_t" where
  "dmi_date year month day =
    (push_bit 16 (year AND 0xFFFF) OR push_bit 8 (month AND 0xFF) OR (day AND 0xFF))"

definition DMI_DATE_NONE :: dmi_date_t where
  "DMI_DATE_NONE = dmi_date 0 0 0"

definition dmi_date_year :: "dmi_date_t \<Rightarrow> uint32_t" where
  "dmi_date_year date = drop_bit 16 (date AND 0xFFFF0000)"

definition dmi_date_month :: "dmi_date_t \<Rightarrow> uint32_t" where
  "dmi_date_month date = drop_bit 8 (date AND 0x00FF00)"

definition dmi_date_day :: "dmi_date_t \<Rightarrow> uint32_t" where
  "dmi_date_day date = date AND 0x0000FF"

text \<open>The tokens of a text, as cutting it at every slash gives them; there is always one.\<close>

fun slash_tokens :: "string \<Rightarrow> string list" where
  "slash_tokens [] = [[]]"
| "slash_tokens (c # cs) =
    (if c = CHR ''/'' then [] # slash_tokens cs
     else case slash_tokens cs of [] \<Rightarrow> [[c]] | token # tokens \<Rightarrow> (c # token) # tokens)"

text \<open>
  The loop of \<open>dmi_date_parse\<close> over the tokens, with the number of tokens seen and the values
  read of them. None of the values is used before it has been set, and none overflows an
  \<open>unsigned long\<close>, since the whole text is at most ten characters long.
\<close>

fun date_loop :: "string list \<Rightarrow> nat \<Rightarrow> nat \<Rightarrow> nat \<Rightarrow> nat \<Rightarrow> dmi_date_t" where
  "date_loop [] i month day year =
    (if i < 3 then DMI_DATE_NONE else dmi_date (of_nat year) (of_nat month) (of_nat day))"
| "date_loop (token # tokens) i month day year =
    (if token = [] \<or> \<not> isdigit (hd token) then DMI_DATE_NONE
     else if i + 1 > 3 then DMI_DATE_NONE
     else
       let i = i + 1;
           (value, ep) = strtoul token
       in if ep \<noteq> [] then DMI_DATE_NONE
          else if i = 1 then
            (if value < 1 \<or> value > 12 then DMI_DATE_NONE else date_loop tokens i value day year)
          else if i = 2 then
            (if value < 1 \<or> value > 31 then DMI_DATE_NONE else date_loop tokens i month value year)
          else if length token = 2 then date_loop tokens i month day (value + 1900)
          else if length token = 4 then date_loop tokens i month day value
          else DMI_DATE_NONE)"

definition dmi_date_parse :: "string \<Rightarrow> dmi_date_t" where
  "dmi_date_parse str =
    (if length str \<ge> 11 then DMI_DATE_NONE else date_loop (slash_tokens str) 0 0 0 0)"

definition dmi_date_format :: "dmi_date_t \<Rightarrow> string" where
  "dmi_date_format date =
    format_0u 4 (unat (dmi_date_year date)) @ ''-'' @ format_0u 2 (unat (dmi_date_month date)) @ ''-'' @
    format_0u 2 (unat (dmi_date_day date))"

section \<open>Versions\<close>

type_synonym dmi_version_t = uint32_t

datatype dmi_version_level =
    DMI_VERSION_LEVEL_MAJOR
  | DMI_VERSION_LEVEL_MINOR
  | DMI_VERSION_LEVEL_REVISION

definition dmi_version :: "uint32_t \<Rightarrow> uint32_t \<Rightarrow> uint32_t \<Rightarrow> dmi_version_t" where
  "dmi_version major minor revision =
    (push_bit 16 (major AND 0xFF) OR push_bit 8 (minor AND 0xFF) OR (revision AND 0xFF))"

definition dmi_version_major :: "dmi_version_t \<Rightarrow> uint32_t" where
  "dmi_version_major version = drop_bit 16 (version AND 0xFF0000)"

definition dmi_version_minor :: "dmi_version_t \<Rightarrow> uint32_t" where
  "dmi_version_minor version = drop_bit 8 (version AND 0x00FF00)"

definition dmi_version_revision :: "dmi_version_t \<Rightarrow> uint32_t" where
  "dmi_version_revision version = version AND 0x0000FF"

definition dmi_version_format_ex :: "dmi_version_t \<Rightarrow> dmi_version_level \<Rightarrow> string" where
  "dmi_version_format_ex version level =
    (let major = format_u (unat (dmi_version_major version));
         minor = format_u (unat (dmi_version_minor version));
         revision = format_u (unat (dmi_version_revision version))
     in case level of
          DMI_VERSION_LEVEL_MAJOR \<Rightarrow> major
        | DMI_VERSION_LEVEL_MINOR \<Rightarrow> major @ ''.'' @ minor
        | DMI_VERSION_LEVEL_REVISION \<Rightarrow> major @ ''.'' @ minor @ ''.'' @ revision)"

definition dmi_version_format :: "dmi_version_t \<Rightarrow> string" where
  "dmi_version_format version =
    (if dmi_version_revision version = 0 then dmi_version_format_ex version DMI_VERSION_LEVEL_MINOR
     else dmi_version_format_ex version DMI_VERSION_LEVEL_REVISION)"

section \<open>Packed fields\<close>

lemma small_bits:
  fixes w :: "'a::len word"
  assumes "unat w < 2 ^ k" and "k \<le> n"
  shows "\<not> bit w n"
proof
  assume "bit w n"
  then have "bit (unat w) n" by (simp add: bit_simps)
  moreover have "take_bit k (unat w) = unat w" using assms(1) by (rule take_bit_nat_eq_self)
  ultimately have "bit (take_bit k (unat w)) n" by simp
  then show False using assms(2) by (simp add: bit_simps)
qed

lemma dmi_date_fields:
  assumes "unat y < 65536" and "unat m < 256" and "unat d < 256"
  shows "dmi_date_year (dmi_date y m d) = y" and "dmi_date_month (dmi_date y m d) = m"
    and "dmi_date_day (dmi_date y m d) = d"
proof -
  have bits: "\<not> bit y n" if "16 \<le> n" for n using small_bits [of y 16 n] assms that by simp
  have bits8: "\<not> bit m n" "\<not> bit d n" if "8 \<le> n" for n
    using small_bits [of m 8 n] small_bits [of d 8 n] assms that by simp_all
  have "\<forall>n < 32. bit (dmi_date_year (dmi_date y m d)) n = bit y n"
    "\<forall>n < 32. bit (dmi_date_month (dmi_date y m d)) n = bit m n"
    "\<forall>n < 32. bit (dmi_date_day (dmi_date y m d)) n = bit d n"
    using bits bits8
    by (simp_all add: all_less_numeral bit_simps dmi_date_def dmi_date_year_def dmi_date_month_def
        dmi_date_day_def flip: numeral_2_eq_2)
  then show "dmi_date_year (dmi_date y m d) = y" "dmi_date_month (dmi_date y m d) = m"
    "dmi_date_day (dmi_date y m d) = d"
    by (auto intro!: bit_word_eqI)
qed

lemma dmi_version_fields:
  assumes "unat a < 256" and "unat b < 256" and "unat c < 256"
  shows "dmi_version_major (dmi_version a b c) = a" and "dmi_version_minor (dmi_version a b c) = b"
    and "dmi_version_revision (dmi_version a b c) = c"
proof -
  have bits: "\<not> bit a n" "\<not> bit b n" "\<not> bit c n" if "8 \<le> n" for n
    using small_bits [of a 8 n] small_bits [of b 8 n] small_bits [of c 8 n] assms that by simp_all
  have "\<forall>n < 32. bit (dmi_version_major (dmi_version a b c)) n = bit a n"
    "\<forall>n < 32. bit (dmi_version_minor (dmi_version a b c)) n = bit b n"
    "\<forall>n < 32. bit (dmi_version_revision (dmi_version a b c)) n = bit c n"
    using bits
    by (simp_all add: all_less_numeral bit_simps dmi_version_def dmi_version_major_def dmi_version_minor_def
        dmi_version_revision_def flip: numeral_2_eq_2)
  then show "dmi_version_major (dmi_version a b c) = a" "dmi_version_minor (dmi_version a b c) = b"
    "dmi_version_revision (dmi_version a b c) = c"
    by (auto intro!: bit_word_eqI)
qed

lemma dmi_version_unat:
  assumes "unat a < 256" and "unat b < 256" and "unat c < 256"
  shows "unat (dmi_version a b c) = 65536 * unat a + 256 * unat b + unat c"
proof -
  have bits: "\<not> bit a n" "\<not> bit b n" "\<not> bit c n" if "8 \<le> n" for n
    using small_bits [of a 8 n] small_bits [of b 8 n] small_bits [of c 8 n] assms that by simp_all
  have mask: "w AND 0xFF = w" if "unat w < 256" for w :: uint32_t
  proof -
    have "w AND 0xFF = take_bit 8 w" by (simp add: take_bit_eq_mask mask_eq_exp_minus_1)
    then show ?thesis using that by (simp add: take_bit_eq_mod word_unat_eq_iff unat_mod)
  qed
  have "push_bit 16 a OR push_bit 8 b = push_bit 16 a + push_bit 8 b"
    by (rule disjunctive_add [symmetric]) (use bits in \<open>auto simp: bit_simps not_le\<close>)
  moreover have "(push_bit 16 a OR push_bit 8 b) OR c = (push_bit 16 a OR push_bit 8 b) + c"
    by (rule disjunctive_add [symmetric]) (use bits in \<open>auto simp: bit_simps not_le\<close>)
  ultimately have "dmi_version a b c = push_bit 16 a + push_bit 8 b + c"
    by (simp only: dmi_version_def mask assms or.assoc [symmetric])
  also have "\<dots> = 65536 * a + 256 * b + c" by (simp add: push_bit_eq_mult)
  finally show ?thesis using assms by (simp add: unat_word_ariths)
qed

section \<open>Parsing dates\<close>

lemma slash_tokens_join:
  "CHR ''/'' \<notin> set a \<Longrightarrow> slash_tokens (a @ CHR ''/'' # s) = a # slash_tokens s"
proof (induction a)
  case (Cons c a)
  then show ?case by (cases "c = CHR ''/''") auto
qed simp

lemma slash_tokens_last: "CHR ''/'' \<notin> set a \<Longrightarrow> slash_tokens a = [a]"
proof (induction a)
  case (Cons c a)
  then show ?case by (cases "c = CHR ''/''") auto
qed simp

text \<open>A text is its tokens with slashes between them.\<close>

primrec join_tokens :: "string list \<Rightarrow> string" where
  "join_tokens [] = []"
| "join_tokens (t # ts) = (if ts = [] then t else t @ CHR ''/'' # join_tokens ts)"

lemma slash_tokens_nonempty: "slash_tokens s \<noteq> []"
  by (induction s) (auto split: list.splits)

lemma join_slash_tokens: "join_tokens (slash_tokens s) = s"
proof (induction s)
  case (Cons c cs)
  then show ?case using slash_tokens_nonempty [of cs] by (auto split: list.splits if_splits)
qed simp

definition all_digits :: "string \<Rightarrow> bool" where
  "all_digits s \<longleftrightarrow> s \<noteq> [] \<and> list_all isdigit s"

lemma strtoul_all: "list_all isdigit s \<Longrightarrow> strtoul s = (decimal s, [])"
  by (simp add: strtoul_def list_all_iff takeWhile_eq_all_conv [THEN iffD2] dropWhile_eq_Nil_conv [THEN iffD2])

lemma strtoul_ep: "snd (strtoul s) = [] \<longleftrightarrow> list_all isdigit s"
  by (simp add: strtoul_def list_all_iff dropWhile_eq_Nil_conv)

text \<open>The dates the parser accepts.\<close>

definition date_tokens :: "string list \<Rightarrow> bool" where
  "date_tokens ts \<longleftrightarrow> length ts = 3 \<and> list_all all_digits ts \<and>
     1 \<le> decimal (ts ! 0) \<and> decimal (ts ! 0) \<le> 12 \<and> 1 \<le> decimal (ts ! 1) \<and> decimal (ts ! 1) \<le> 31 \<and>
     (length (ts ! 2) = 2 \<or> length (ts ! 2) = 4)"

definition date_of_tokens :: "string list \<Rightarrow> dmi_date_t" where
  "date_of_tokens ts =
    dmi_date (of_nat (if length (ts ! 2) = 2 then decimal (ts ! 2) + 1900 else decimal (ts ! 2)))
      (of_nat (decimal (ts ! 0))) (of_nat (decimal (ts ! 1)))"

lemma date_token_step:
  "date_loop (token # tokens) 0 m d y =
    (if all_digits token \<and> 1 \<le> decimal token \<and> decimal token \<le> 12
     then date_loop tokens (Suc 0) (decimal token) d y else DMI_DATE_NONE)"
  "date_loop (token # tokens) (Suc 0) m d y =
    (if all_digits token \<and> 1 \<le> decimal token \<and> decimal token \<le> 31
     then date_loop tokens (Suc (Suc 0)) m (decimal token) y else DMI_DATE_NONE)"
  "date_loop (token # tokens) (Suc (Suc 0)) m d y =
    (if all_digits token \<and> length token = 2 then date_loop tokens (Suc (Suc (Suc 0))) m d (decimal token + 1900)
     else if all_digits token \<and> length token = 4 then date_loop tokens (Suc (Suc (Suc 0))) m d (decimal token)
     else DMI_DATE_NONE)"
  "date_loop (token # tokens) (Suc (Suc (Suc 0))) m d y = DMI_DATE_NONE"
proof -
  have no: "date_loop (token # tokens) i m d y = DMI_DATE_NONE" if "\<not> all_digits token" for i
    using that strtoul_ep [of token] by (cases "strtoul token") (auto simp: all_digits_def)
  have yes: "token \<noteq> []" "isdigit (hd token)" "strtoul token = (decimal token, [])" if "all_digits token"
    using that by (auto simp: all_digits_def strtoul_all list_all_iff)
  show "date_loop (token # tokens) 0 m d y =
    (if all_digits token \<and> 1 \<le> decimal token \<and> decimal token \<le> 12
     then date_loop tokens (Suc 0) (decimal token) d y else DMI_DATE_NONE)"
    using no yes by (cases "all_digits token") auto
  show "date_loop (token # tokens) (Suc 0) m d y =
    (if all_digits token \<and> 1 \<le> decimal token \<and> decimal token \<le> 31
     then date_loop tokens (Suc (Suc 0)) m (decimal token) y else DMI_DATE_NONE)"
    using no yes by (cases "all_digits token") auto
  show "date_loop (token # tokens) (Suc (Suc 0)) m d y =
    (if all_digits token \<and> length token = 2 then date_loop tokens (Suc (Suc (Suc 0))) m d (decimal token + 1900)
     else if all_digits token \<and> length token = 4 then date_loop tokens (Suc (Suc (Suc 0))) m d (decimal token)
     else DMI_DATE_NONE)"
    using no yes by (cases "all_digits token") (auto split: if_splits)
  show "date_loop (token # tokens) (Suc (Suc (Suc 0))) m d y = DMI_DATE_NONE" by simp
qed

lemma date_loop_tokens:
  "date_loop ts 0 0 0 0 = (if date_tokens ts then date_of_tokens ts else DMI_DATE_NONE)"
proof -
  consider "ts = []" | a where "ts = [a]" | a b where "ts = [a, b]" | a b c where "ts = [a, b, c]"
    | a b c d r where "ts = a # b # c # d # r"
    by (metis neq_Nil_conv)
  then show ?thesis
    by cases (simp_all add: date_tokens_def date_of_tokens_def date_token_step numeral_2_eq_2 del: date_loop.simps(2))
qed

lemma digit_value_less: "isdigit c \<Longrightarrow> digit_value c < 10 \<and> char_of (48 + digit_value c) = c"
  by (auto simp: isdigit_def digit_value_def)

lemma zero_char: "char_of (48 :: nat) = CHR ''0''"
proof -
  have "(of_char (char_of (48 :: nat)) :: nat) = of_char (CHR ''0'')" by simp
  then show ?thesis by (simp only: of_char_eq_iff)
qed

lemma decimal_snoc: "decimal (s @ [c]) = 10 * decimal s + digit_value c"
  by (simp add: decimal_def)

lemma decimal_bound: "list_all isdigit s \<Longrightarrow> decimal s < 10 ^ length s"
proof (induction s rule: rev_induct)
  case (snoc c s)
  then have "decimal s + 1 \<le> 10 ^ length s" "digit_value c < 10" by (simp_all add: digit_value_less)
  then have "10 * decimal s + digit_value c < 10 * 10 ^ length s" by linarith
  then show ?case by (simp add: decimal_snoc)
qed (simp add: decimal_def)

text \<open>Digits are what formatting their value to their width gives.\<close>

lemma format_digits:
  "list_all isdigit s \<Longrightarrow> s \<noteq> [] \<Longrightarrow>
    length (format_u (decimal s)) \<le> length s \<and> format_0u (length s) (decimal s) = s"
proof (induction s rule: rev_induct)
  case (snoc c s)
  have c: "digit_value c < 10" "char_of (48 + digit_value c) = c"
    using snoc.prems(1) digit_value_less [of c] by simp_all
  have zero: "format_u 0 = ''0''" by (simp add: format_u.simps zero_char)
  show ?case
  proof (cases "decimal s = 0")
    case True
    then have f: "format_u (decimal (s @ [c])) = [c]" using c by (simp add: decimal_snoc format_u.simps)
    have "s = replicate (length s) CHR ''0''"
    proof (cases "s = []")
      case False
      then have "replicate (length s - 1) CHR ''0'' @ ''0'' = s"
        using snoc True zero by (simp add: format_0u_def)
      then show ?thesis using False
        by (metis One_nat_def Suc_pred length_greater_0_conv replicate_Suc replicate_append_same)
    qed simp
    then show ?thesis by (simp add: format_0u_def f)
  next
    case False
    then have ne: "s \<noteq> []" by (auto simp: decimal_def)
    have "format_u (decimal (s @ [c])) = format_u (decimal s) @ [c]"
      using False c by (subst format_u.simps) (simp add: decimal_snoc)
    then show ?thesis using snoc ne by (simp add: format_0u_def)
  qed
qed simp

lemma unat_of_nat_32: "n < 4294967296 \<Longrightarrow> unat (word_of_nat n :: uint32_t) = n"
  by (simp add: unat_of_nat)

lemma date_of_tokens_fields:
  assumes "date_tokens ts"
  shows "unat (dmi_date_month (date_of_tokens ts)) = decimal (ts ! 0)"
    and "unat (dmi_date_day (date_of_tokens ts)) = decimal (ts ! 1)"
    and "unat (dmi_date_year (date_of_tokens ts)) =
      (if length (ts ! 2) = 2 then decimal (ts ! 2) + 1900 else decimal (ts ! 2))"
proof -
  let ?y = "if length (ts ! 2) = 2 then decimal (ts ! 2) + 1900 else decimal (ts ! 2)"
  have "list_all isdigit (ts ! 2)" "length (ts ! 2) = 2 \<or> length (ts ! 2) = 4"
    using assms by (auto simp: date_tokens_def all_digits_def list_all_length)
  then have y: "?y < 65536" using decimal_bound [of "ts ! 2"] by auto
  have "unat (of_nat ?y :: uint32_t) < 65536" "unat (of_nat (decimal (ts ! 0)) :: uint32_t) < 256"
    "unat (of_nat (decimal (ts ! 1)) :: uint32_t) < 256"
    using assms y by (auto simp: date_tokens_def unat_of_nat_32)
  note f = dmi_date_fields [OF this]
  show "unat (dmi_date_month (date_of_tokens ts)) = decimal (ts ! 0)"
    using assms f(2) by (simp add: date_of_tokens_def date_tokens_def unat_of_nat_32)
  show "unat (dmi_date_day (date_of_tokens ts)) = decimal (ts ! 1)"
    using assms f(3) by (simp add: date_of_tokens_def date_tokens_def unat_of_nat_32)
  have "dmi_date_year (date_of_tokens ts) = of_nat ?y" using f(1) by (simp only: date_of_tokens_def)
  then show "unat (dmi_date_year (date_of_tokens ts)) = ?y" using y by (simp only: unat_of_nat_32)
qed

section \<open>Properties\<close>

lemma date_parse_value:
  "dmi_date_parse s = (if length s \<le> 10 \<and> date_tokens (slash_tokens s) then date_of_tokens (slash_tokens s) else DMI_DATE_NONE)"
  by (simp add: dmi_date_parse_def date_loop_tokens not_less_eq_eq numeral_eq_Suc del: date_loop.simps)

lemma date_of_tokens_some:
  assumes "date_tokens ts"
  shows "date_of_tokens ts \<noteq> DMI_DATE_NONE"
proof
  assume "date_of_tokens ts = DMI_DATE_NONE"
  then have "unat (dmi_date_month DMI_DATE_NONE) = decimal (ts ! 0)"
    using date_of_tokens_fields(1) [OF assms] by simp
  moreover have "dmi_date_month DMI_DATE_NONE = 0" by (simp add: dmi_date_month_def DMI_DATE_NONE_def dmi_date_def)
  ultimately show False using assms by (simp add: date_tokens_def)
qed

text \<open>
  \<open>dmi_date_parse\<close> accepts exactly the texts of at most ten characters which are a month
  from 1 to 12, a day from 1 to 31 and a year of two or four digits with slashes between them,
  without signs, spaces or empty parts; the date it gives holds the month, the day, and the
  year, which is one of the twentieth century if it has two digits. Everything else is
  \<open>DMI_DATE_NONE\<close>, which no accepted text gives.
\<close>

theorem date_parse_exact:
  "let ts = slash_tokens s; date = dmi_date_parse s in
    join_tokens ts = s \<and>
    (if length s \<le> 10 \<and> date_tokens ts
     then date \<noteq> DMI_DATE_NONE \<and>
       unat (dmi_date_month date) = decimal (ts ! 0) \<and> unat (dmi_date_day date) = decimal (ts ! 1) \<and>
       unat (dmi_date_year date) = (if length (ts ! 2) = 2 then decimal (ts ! 2) + 1900 else decimal (ts ! 2))
     else date = DMI_DATE_NONE)"
  using date_of_tokens_fields [of "slash_tokens s"] date_of_tokens_some [of "slash_tokens s"]
  by (simp add: Let_def join_slash_tokens date_parse_value)

text \<open>
  A date of the form \<open>MM/DD/YYYY\<close> which is accepted is printed as \<open>YYYY-MM-DD\<close>, with the
  digits it was given with.
\<close>

theorem date_format_iso:
  assumes "length m = 2" and "length d = 2" and "length y = 4"
    and "date_tokens [m, d, y]"
  shows "dmi_date_format (dmi_date_parse (m @ ''/'' @ d @ ''/'' @ y)) = y @ ''-'' @ m @ ''-'' @ d"
proof -
  have digits: "list_all isdigit m" "list_all isdigit d" "list_all isdigit y"
    using assms(4) by (simp_all add: date_tokens_def all_digits_def)
  have no_slash: "CHR ''/'' \<notin> set a" if "list_all isdigit a" for a
    using that by (auto simp: list_all_iff isdigit_def)
  have "slash_tokens (m @ ''/'' @ d @ ''/'' @ y) = [m, d, y]"
    by (simp add: slash_tokens_join slash_tokens_last no_slash digits)
  then have "dmi_date_parse (m @ ''/'' @ d @ ''/'' @ y) = date_of_tokens [m, d, y]"
    using assms by (simp add: date_parse_value)
  moreover have "format_0u 2 (decimal m) = m" "format_0u 2 (decimal d) = d" "format_0u 4 (decimal y) = y"
    using format_digits [of m] format_digits [of d] format_digits [of y] digits assms(1-3) by force+
  ultimately show ?thesis
    using date_of_tokens_fields [OF assms(4)] assms(3) by (simp add: dmi_date_format_def)
qed

theorem date_format_iso_witness:
  "dmi_date_format (dmi_date_parse ''03/07/2025'') = ''2025-03-07''"
  using date_format_iso [of "''03''" "''07''" "''2025''"]
  by (simp add: date_tokens_def all_digits_def isdigit_def decimal_def digit_value_def)

text \<open>
  The parts of a version which is packed from parts of a byte each are read back from it,
  and versions packed so are compared, as the code compares them, part by part.
\<close>

theorem version_packing:
  assumes "unat a < 256" and "unat b < 256" and "unat c < 256"
    and "unat a' < 256" and "unat b' < 256" and "unat c' < 256"
  shows "dmi_version_major (dmi_version a b c) = a \<and> dmi_version_minor (dmi_version a b c) = b \<and>
    dmi_version_revision (dmi_version a b c) = c \<and>
    (dmi_version a b c < dmi_version a' b' c' \<longleftrightarrow> a < a' \<or> a = a' \<and> (b < b' \<or> b = b' \<and> c < c'))"
  using assms dmi_version_fields [OF assms(1-3)]
  by (auto simp: word_less_nat_alt dmi_version_unat word_unat_eq_iff)

theorem version_packing_witness:
  "dmi_version_major (dmi_version 3 2 1) = 3 \<and> dmi_version 2 8 0 < dmi_version 3 0 0"
  using version_packing [of 3 2 1 0 0 0] version_packing [of 2 8 0 3 0 0] by simp

end
