(* ===== verification/Names.thy ===== *)
theory Names
  imports Prelude
begin

text \<open>
  Dictionaries of names (\<^verbatim>\<open>src/utils/name.c\<close>), which give the code and the printable
  name of the value of an enumeration. A table the code ends by an entry without a code is the
  list of the entries before it; names and ranges are optional. Looking a translation up in the
  catalogue of the locale (\<^verbatim>\<open>src/locale.c\<close>) is a parameter of the definitions.
\<close>

datatype dmi_name_type =
    DMI_NAME_TYPE_NONE
  | DMI_NAME_TYPE_EXACT
  | DMI_NAME_TYPE_RANGE

record dmi_name =
  nm_id :: int
  nm_code :: string
  nm_name :: string

record dmi_name_range =
  nr_start_id :: int
  nr_end_id :: int
  nr_code :: string
  nr_name :: string

record dmi_name_set =
  ns_code :: "string option"
  ns_names :: "dmi_name list option"
  ns_ranges :: "dmi_name_range list option"

type_synonym locale_string = "string \<Rightarrow> string \<Rightarrow> string option"

text \<open>The two loops of \<open>dmi_name_find\<close>; both stop at the first entry which matches.\<close>

primrec name_search :: "int \<Rightarrow> dmi_name list \<Rightarrow> (string \<times> string) option" where
  "name_search ident [] = None"
| "name_search ident (entry # entries) =
    (if ident \<noteq> nm_id entry then name_search ident entries else Some (nm_code entry, nm_name entry))"

primrec range_search :: "int \<Rightarrow> dmi_name_range list \<Rightarrow> (string \<times> string) option" where
  "range_search ident [] = None"
| "range_search ident (entry # entries) =
    (if ident < nr_start_id entry \<or> ident > nr_end_id entry then range_search ident entries
     else Some (nr_code entry, nr_name entry))"

definition name_entry :: "dmi_name_set option \<Rightarrow> int \<Rightarrow> (string \<times> string) option \<times> dmi_name_type" where
  "name_entry dict ident =
    (case dict of
       None \<Rightarrow> (None, DMI_NAME_TYPE_NONE)
     | Some dict \<Rightarrow>
         if ident < 0 then (None, DMI_NAME_TYPE_NONE)
         else
           (case (case ns_names dict of None \<Rightarrow> None | Some names \<Rightarrow> name_search ident names) of
              Some entry \<Rightarrow> (Some entry, DMI_NAME_TYPE_EXACT)
            | None \<Rightarrow>
                (case (case ns_ranges dict of None \<Rightarrow> None | Some ranges \<Rightarrow> range_search ident ranges) of
                   Some entry \<Rightarrow> (Some entry, DMI_NAME_TYPE_RANGE)
                 | None \<Rightarrow> (None, DMI_NAME_TYPE_NONE))))"

text \<open>\<open>dmi_name_find\<close> gives the code, the name, which may be translated, and the type of the entry.\<close>

definition dmi_name_find ::
    "locale_string \<Rightarrow> dmi_name_set option \<Rightarrow> int \<Rightarrow> string option \<times> string option \<times> dmi_name_type" where
  "dmi_name_find tr dict ident =
    (case name_entry dict ident of
       (None, type) \<Rightarrow> (None, None, type)
     | (Some (code, name), type) \<Rightarrow>
         let name = (case (case dict of None \<Rightarrow> None | Some d \<Rightarrow> ns_code d) of
                       None \<Rightarrow> name
                     | Some dict_code \<Rightarrow>
                         (case tr dict_code code of None \<Rightarrow> name | Some translated \<Rightarrow> translated))
         in (Some code, Some name, type))"

definition dmi_code_lookup_ex :: "locale_string \<Rightarrow> dmi_name_set option \<Rightarrow> int \<Rightarrow> string option \<times> dmi_name_type" where
  "dmi_code_lookup_ex tr dict ident = (let (code, _, type) = dmi_name_find tr dict ident in (code, type))"

definition dmi_code_lookup :: "locale_string \<Rightarrow> dmi_name_set option \<Rightarrow> int \<Rightarrow> string option" where
  "dmi_code_lookup tr dict ident = fst (dmi_code_lookup_ex tr dict ident)"

definition dmi_name_lookup_ex :: "locale_string \<Rightarrow> dmi_name_set option \<Rightarrow> int \<Rightarrow> string option \<times> dmi_name_type" where
  "dmi_name_lookup_ex tr dict ident = (let (_, name, type) = dmi_name_find tr dict ident in (name, type))"

definition dmi_name_lookup :: "locale_string \<Rightarrow> dmi_name_set option \<Rightarrow> int \<Rightarrow> string option" where
  "dmi_name_lookup tr dict ident = fst (dmi_name_lookup_ex tr dict ident)"

primrec code_search :: "string \<Rightarrow> dmi_name list \<Rightarrow> int" where
  "code_search code [] = -1"
| "code_search code (entry # entries) = (if code = nm_code entry then nm_id entry else code_search code entries)"

definition dmi_code_lookup_rev :: "dmi_name_set option \<Rightarrow> string option \<Rightarrow> int" where
  "dmi_code_lookup_rev dict code =
    (case dict of
       None \<Rightarrow> -1
     | Some d \<Rightarrow>
         (case ns_names d of
            None \<Rightarrow> -1
          | Some names \<Rightarrow> (case code of None \<Rightarrow> -1 | Some code \<Rightarrow> code_search code names)))"

section \<open>What the searches find\<close>

lemma name_search_find:
  "name_search ident entries = map_option (\<lambda>e. (nm_code e, nm_name e)) (find (\<lambda>e. nm_id e = ident) entries)"
  by (induction entries) auto

lemma range_search_find:
  "range_search ident entries =
    map_option (\<lambda>e. (nr_code e, nr_name e)) (find (\<lambda>e. nr_start_id e \<le> ident \<and> ident \<le> nr_end_id e) entries)"
  by (induction entries) auto

lemma code_search_find:
  "code_search code entries = (case find (\<lambda>e. nm_code e = code) entries of None \<Rightarrow> -1 | Some e \<Rightarrow> nm_id e)"
  by (induction entries) auto

lemma code_lookup_entry: "dmi_code_lookup tr dict ident = map_option fst (fst (name_entry dict ident))"
  by (auto simp: dmi_code_lookup_def dmi_code_lookup_ex_def dmi_name_find_def Let_def split: prod.splits option.splits)

lemma find_unique:
  assumes "distinct (map f xs)" and "x \<in> set xs"
  shows "find (\<lambda>y. f y = f x) xs = Some x"
  using assms by (induction xs) (auto simp: image_iff)

text \<open>
  The entry for an identifier itself is found before any range the identifier is in, and
  the first of the ranges is taken when there is no such entry; identifiers below zero and
  identifiers nothing is listed for have neither a code nor a name. The code never depends on
  the translations.
\<close>

theorem name_lookup_precedence:
  assumes "0 \<le> ident" and "ns_names d = Some names" and "ns_ranges d = Some ranges"
  shows "dmi_code_lookup_ex tr (Some d) ident =
    (case find (\<lambda>e. nm_id e = ident) names of
       Some e \<Rightarrow> (Some (nm_code e), DMI_NAME_TYPE_EXACT)
     | None \<Rightarrow>
         (case find (\<lambda>e. nr_start_id e \<le> ident \<and> ident \<le> nr_end_id e) ranges of
            Some e \<Rightarrow> (Some (nr_code e), DMI_NAME_TYPE_RANGE)
          | None \<Rightarrow> (None, DMI_NAME_TYPE_NONE))) \<and>
    (dmi_name_lookup tr (Some d) ident = None \<longleftrightarrow> dmi_code_lookup tr (Some d) ident = None)"
  using assms
  by (auto simp: dmi_code_lookup_ex_def dmi_code_lookup_def dmi_name_lookup_def dmi_name_lookup_ex_def
      dmi_name_find_def name_entry_def Let_def name_search_find range_search_find
      split: option.splits)

theorem name_lookup_precedence_witness:
  "dmi_code_lookup_ex (\<lambda>d c. None)
      (Some \<lparr>ns_code = None, ns_names = Some [\<lparr>nm_id = 2, nm_code = ''two'', nm_name = ''Two''\<rparr>],
             ns_ranges = Some [\<lparr>nr_start_id = 0, nr_end_id = 9, nr_code = ''low'', nr_name = ''Low''\<rparr>]\<rparr>) 2 =
    (Some ''two'', DMI_NAME_TYPE_EXACT)"
  using name_lookup_precedence [of 2
      "\<lparr>ns_code = None, ns_names = Some [\<lparr>nm_id = 2, nm_code = ''two'', nm_name = ''Two''\<rparr>],
        ns_ranges = Some [\<lparr>nr_start_id = 0, nr_end_id = 9, nr_code = ''low'', nr_name = ''Low''\<rparr>]\<rparr>"
      "[\<lparr>nm_id = 2, nm_code = ''two'', nm_name = ''Two''\<rparr>]"
      "[\<lparr>nr_start_id = 0, nr_end_id = 9, nr_code = ''low'', nr_name = ''Low''\<rparr>]" "\<lambda>d c. None"]
  by simp

text \<open>
  In a dictionary whose identifiers and codes are each listed once and whose identifiers
  are not negative, looking the code of a listed identifier up and looking the code up in
  reverse gives the identifier back.
\<close>

theorem code_lookup_reverses:
  assumes "ns_names d = Some names" and "distinct (map nm_id names)" and "distinct (map nm_code names)"
    and "entry \<in> set names" and "0 \<le> nm_id entry"
  shows "dmi_code_lookup tr (Some d) (nm_id entry) = Some (nm_code entry) \<and>
    dmi_code_lookup_rev (Some d) (dmi_code_lookup tr (Some d) (nm_id entry)) = nm_id entry"
  using assms find_unique [OF assms(2,4)] find_unique [OF assms(3,4)]
  by (simp add: code_lookup_entry name_entry_def name_search_find dmi_code_lookup_rev_def code_search_find)

theorem code_lookup_reverses_witness:
  "\<exists>d. ns_names d = Some [\<lparr>nm_id = 2, nm_code = ''two'', nm_name = ''Two''\<rparr>,
      \<lparr>nm_id = 5, nm_code = ''five'', nm_name = ''Five''\<rparr>] \<and>
    dmi_code_lookup_rev (Some d) (dmi_code_lookup (\<lambda>d c. None) (Some d) 5) = 5"
proof (intro exI conjI)
  let ?names = "[\<lparr>nm_id = 2, nm_code = ''two'', nm_name = ''Two''\<rparr>, \<lparr>nm_id = 5, nm_code = ''five'', nm_name = ''Five''\<rparr>]"
  let ?d = "\<lparr>ns_code = None, ns_names = Some ?names, ns_ranges = None\<rparr>"
  show "ns_names ?d = Some ?names" by simp
  show "dmi_code_lookup_rev (Some ?d) (dmi_code_lookup (\<lambda>d c. None) (Some ?d) 5) = 5"
    using code_lookup_reverses [of ?d ?names "\<lparr>nm_id = 5, nm_code = ''five'', nm_name = ''Five''\<rparr>" "\<lambda>d c. None"] by auto
qed

end
