(* ===== verification/Entity.thy ===== *)
theory Entity
  imports Reader Texts Names
begin

text \<open>
  Structures (\<^verbatim>\<open>src/entity.c\<close>, \<^verbatim>\<open>include/opendmi/entity.h\<close>): finding the end of
  one and its strings, choosing the specification it is decoded by, and the additional
  information laid over its data. Lengths and offsets of a structure are natural numbers: all
  of them are bounded by the length of the table, which is a \<open>size_t\<close>. What a handler makes of
  a structure, its \<open>info\<close>, is a type variable. A specification is data here; the handlers it
  names are parameters of the definitions which call them. Errors are raised without their
  message.
\<close>

type_synonym dmi_handle_t = "16 word"
type_synonym dmi_type_id_t = int

definition DMI_TYPE_ID_INVALID :: dmi_type_id_t where "DMI_TYPE_ID_INVALID = -1"
definition DMI_TYPE_ID_MAX :: dmi_type_id_t where "DMI_TYPE_ID_MAX = 255"
definition DMI_TYPE_ID_END_OF_TABLE :: dmi_type_id_t where "DMI_TYPE_ID_END_OF_TABLE = 127"
definition DMI_TYPE_ID_ADDITIONAL_INFO :: dmi_type_id_t where "DMI_TYPE_ID_ADDITIONAL_INFO = 40"
definition DMI_TYPE_CANDIDATES :: nat where "DMI_TYPE_CANDIDATES = 4"

text \<open>States of a structure, which are bits of one word.\<close>

definition DMI_ENTITY_STATE_DECODED :: "32 word" where "DMI_ENTITY_STATE_DECODED = 1"
definition DMI_ENTITY_STATE_LINKED :: "32 word" where "DMI_ENTITY_STATE_LINKED = 2"
definition DMI_ENTITY_STATE_INCOMPLETE :: "32 word" where "DMI_ENTITY_STATE_INCOMPLETE = 8"
definition DMI_ENTITY_STATE_PARTIAL :: "32 word" where "DMI_ENTITY_STATE_PARTIAL = 16"

record dmi_signature =
  sg_length :: nat
  sg_offset :: nat
  sg_bytes :: "byte list option"
  sg_string :: nat
  sg_text :: "byte list option"
  sg_no_strings :: bool

record dmi_generations =
  gn_minimum :: nat
  gn_maximum :: nat

record dmi_entity_params =
  ep_minimum_version :: dmi_version_t
  ep_required_from :: dmi_version_t
  ep_required_till :: dmi_version_t
  ep_recommended_from :: dmi_version_t
  ep_generations :: dmi_generations
  ep_signature :: "dmi_signature option"
  ep_unique :: bool
  ep_minimum_length :: nat
  ep_decoded_length :: nat

text \<open>
  The type of a specification is the number which tells it from the other types, and
  \<open>sp_type_id\<close> is the type number that type gives the structures.
\<close>

record dmi_entity_spec =
  sp_code :: string
  sp_name :: string
  sp_type :: nat
  sp_type_id :: dmi_type_id_t
  sp_params :: dmi_entity_params
  sp_has_fields :: bool
  sp_has_decode :: bool
  sp_has_derive :: bool

record dmi_string_entry =
  se_raw :: "byte list"
  se_pretty :: "byte list"
  se_used :: bool

text \<open>An additional information entry attached to a structure.\<close>

record dmi_entity_overlay =
  ov_source :: dmi_handle_t
  ov_index :: nat
  ov_referenced_offset :: nat
  ov_value :: "byte list"

record 'i dmi_entity =
  en_type_id :: dmi_type_id_t
  en_spec :: "dmi_entity_spec option"
  en_handle :: dmi_handle_t
  en_buffer :: dmi_buffer
  en_offset :: nat
  en_total_length :: nat
  en_body_length :: nat
  en_extra_length :: nat
  en_strings :: "dmi_string_entry list"
  en_string_count :: nat
  en_info :: "'i option"
  en_level :: dmi_version_t
  en_state :: "32 word"
  en_properties :: "(nat \<times> byte list) list"
  en_overlays :: "dmi_entity_overlay list"
  en_overlay :: "dmi_buffer option"

definition dmi_entity_is_decoded :: "'i dmi_entity \<Rightarrow> bool" where
  "dmi_entity_is_decoded e \<longleftrightarrow> en_state e AND DMI_ENTITY_STATE_DECODED \<noteq> 0"

text \<open>Raising an error of a structure, into the queue of its context.\<close>

definition raise_error :: "dmi_error_queue \<Rightarrow> dmi_error_code \<Rightarrow> dmi_error_queue" where
  "raise_error q reason = snd (dmi_error_raise q reason False None)"

section \<open>The end of a structure and its strings\<close>

text \<open>
  The loop of \<open>dmi_entity_decode_length\<close>. The list holds the bytes from \<open>pos\<close> to the limit, so
  there are at least two of them when the bytes at \<open>pos\<close> and \<open>pos + 1\<close> are looked at, and one
  fewer than two is what the loop gives up at.
\<close>

fun decode_length_loop :: "bool \<Rightarrow> byte list \<Rightarrow> nat \<Rightarrow> nat \<Rightarrow> (nat \<times> nat) option" where
  "decode_length_loop has_strings (c0 # c1 # rest) pos count =
    (if c0 \<noteq> 0 \<or> c1 \<noteq> 0 then
       let count = (if c0 = 0 \<and> has_strings then count + 1 else count);
           pos = pos + 1
       in if rest = [] then None else decode_length_loop has_strings (c1 # rest) pos count
     else Some (pos, count))"
| "decode_length_loop has_strings _ pos count = None"

text \<open>The length of the string set and the number of strings, for the data up to the limit.\<close>

definition dmi_entity_decode_length :: "nat \<Rightarrow> byte list \<Rightarrow> (nat \<times> nat) option" where
  "dmi_entity_decode_length body_length data =
    (let start = body_length
     in if start > length data \<or> length data - start < 2 then None
        else
          let has_strings = (data ! start \<noteq> 0)
          in (case decode_length_loop has_strings (drop start data) start 0 of
                None \<Rightarrow> None
              | Some (pos, count) \<Rightarrow>
                  let count = (if has_strings then count + 1 else count);
                      pos = pos + 2
                  in Some (pos - start, count)))"

definition is_space :: "byte \<Rightarrow> bool" where
  "is_space c \<longleftrightarrow> c \<in> {0x09, 0x0A, 0x0B, 0x0C, 0x0D, 0x20}"

definition dmi_entity_string_trim :: "byte list \<Rightarrow> byte list" where
  "dmi_entity_string_trim ptr = rev (dropWhile is_space (rev (dropWhile is_space ptr)))"

text \<open>
  The loop of \<open>dmi_entity_decode_strings\<close>; \<open>mem i\<close> tells whether there is memory for the trimmed
  copy of the string \<open>i\<close>.
\<close>

fun decode_strings_loop :: "(nat \<Rightarrow> bool) \<Rightarrow> nat \<Rightarrow> nat \<Rightarrow> byte list \<Rightarrow> dmi_string_entry list option" where
  "decode_strings_loop mem i 0 ptr = Some []"
| "decode_strings_loop mem i (Suc n) ptr =
    (let raw = takeWhile (\<lambda>c. c \<noteq> 0) ptr
     in if \<not> mem i then None
        else (case decode_strings_loop mem (i + 1) n (drop (length raw + 1) ptr) of
                None \<Rightarrow> None
              | Some entries \<Rightarrow>
                  Some (\<lparr>se_raw = raw, se_pretty = dmi_entity_string_trim raw, se_used = False\<rparr> # entries)))"

section \<open>Creating a structure\<close>

text \<open>
  \<open>mem 0\<close> tells whether there is memory for the descriptor, \<open>mem 1\<close> for the index of the strings
  and the others for the strings.
\<close>

definition dmi_entity_create ::
    "(nat \<Rightarrow> bool) \<Rightarrow> dmi_error_queue \<Rightarrow> dmi_buffer \<Rightarrow> nat \<Rightarrow> 'i dmi_entity option \<times> dmi_error_queue" where
  "dmi_entity_create mem q buffer offset =
    (let max_length = (if offset < unat (buf_length buffer) then unat (buf_length buffer) - offset else 0)
     in if max_length < 4 + 2 then (None, raise_error q DMI_ERROR_ENTITY_TRUNCATED)
        else
          let data = the (dmi_buffer_at buffer (of_nat offset) (of_nat max_length));
              type = int (unat (data ! 0));
              length' = unat (data ! 1);
              handle = load_word (take 2 (drop 2 data));
              (type, body_length) = (if length' = 0 then (DMI_TYPE_ID_END_OF_TABLE, 4) else (type, length'))
          in if length' \<noteq> 0 \<and> length' < 4 then (None, raise_error q DMI_ERROR_ENTITY_LENGTH_INVALID)
             else if length' \<noteq> 0 \<and> length' > max_length then (None, raise_error q DMI_ERROR_ENTITY_TRUNCATED)
             else if \<not> mem 0 then (None, raise_error q DMI_ERROR_OUT_OF_MEMORY)
             else
               (case dmi_entity_decode_length body_length data of
                  None \<Rightarrow> (None, raise_error q DMI_ERROR_ENTITY_TRUNCATED)
                | Some (extra_length, count) \<Rightarrow>
                    if \<not> mem 1 then (None, raise_error q DMI_ERROR_OUT_OF_MEMORY)
                    else
                      (case decode_strings_loop mem 2 count
                              (the (dmi_buffer_at buffer (of_nat (offset + body_length)) (of_nat extra_length))) of
                         None \<Rightarrow> (None, raise_error (raise_error q DMI_ERROR_OUT_OF_MEMORY) DMI_ERROR_OUT_OF_MEMORY)
                       | Some strings \<Rightarrow>
                           (Some \<lparr>en_type_id = type, en_spec = None, en_handle = handle, en_buffer = buffer,
                                  en_offset = offset, en_total_length = body_length + extra_length,
                                  en_body_length = body_length, en_extra_length = extra_length,
                                  en_strings = strings, en_string_count = count, en_info = None,
                                  en_level = 0, en_state = 0, en_properties = [], en_overlays = [],
                                  en_overlay = None\<rparr>, q))))"

section \<open>Reading a structure\<close>

definition dmi_entity_buffer :: "'i dmi_entity \<Rightarrow> dmi_buffer" where
  "dmi_entity_buffer e = (case en_overlay e of Some overlay \<Rightarrow> overlay | None \<Rightarrow> en_buffer e)"

definition dmi_entity_offset :: "'i dmi_entity \<Rightarrow> nat" where
  "dmi_entity_offset e = (if en_overlay e \<noteq> None then 0 else en_offset e)"

text \<open>Reading a string marks it as used, and a number there is no string for raises an error.\<close>

definition dmi_entity_string_ex ::
    "dmi_error_queue \<Rightarrow> 'i dmi_entity \<Rightarrow> nat \<Rightarrow> bool \<Rightarrow> byte list option \<times> 'i dmi_entity \<times> dmi_error_queue" where
  "dmi_entity_string_ex q e num raw =
    (if num = 0 then (None, e, q)
     else if num > en_string_count e then (None, e, raise_error q DMI_ERROR_STRING_NOT_FOUND)
     else
       let entry = en_strings e ! (num - 1)
       in (Some (if raw then se_raw entry else se_pretty entry),
           e\<lparr>en_strings := (en_strings e)[num - 1 := entry\<lparr>se_used := True\<rparr>]\<rparr>, q))"

primrec find_property :: "nat \<Rightarrow> (nat \<times> byte list) list \<Rightarrow> byte list option" where
  "find_property property [] = None"
| "find_property property (info # infos) = (if fst info = property then Some (snd info) else find_property property infos)"

definition dmi_entity_property :: "'i dmi_entity \<Rightarrow> nat \<Rightarrow> byte list option" where
  "dmi_entity_property e property = find_property property (en_properties e)"

definition dmi_entity_add_property :: "'i dmi_entity \<Rightarrow> nat \<times> byte list \<Rightarrow> 'i dmi_entity" where
  "dmi_entity_add_property e property = e\<lparr>en_properties := en_properties e @ [property]\<rparr>"

section \<open>Choosing the specification\<close>

definition dmi_entity_signature_match ::
    "dmi_error_queue \<Rightarrow> 'i dmi_entity \<Rightarrow> dmi_signature option \<Rightarrow> bool \<times> 'i dmi_entity \<times> dmi_error_queue" where
  "dmi_entity_signature_match q e signature =
    (case signature of
       None \<Rightarrow> (False, e, q)
     | Some sg \<Rightarrow>
         if sg_length sg \<noteq> 0 \<and> en_body_length e \<noteq> sg_length sg then (False, e, q)
         else if (case sg_bytes sg of
                    None \<Rightarrow> False
                  | Some bytes \<Rightarrow>
                      sg_offset sg + length bytes > en_body_length e \<or>
                      dmi_buffer_at (dmi_entity_buffer e) (of_nat (dmi_entity_offset e + sg_offset sg)) (size_of bytes)
                        \<noteq> Some bytes)
         then (False, e, q)
         else
           let (text_ok, e, q) =
             (if sg_string sg = 0 then (True, e, q)
              else
                (case dmi_entity_string_ex q e (sg_string sg) True of
                   (text', e, q) \<Rightarrow> (text' \<noteq> None \<and> sg_text sg \<noteq> None \<and> text' = sg_text sg, e, q)))
           in if \<not> text_ok then (False, e, q)
              else if sg_no_strings sg \<and> en_string_count e \<noteq> 0 then (False, e, q)
              else (True, e, q))"

text \<open>
  The loop over the candidates from the second one on, which ends at the first one there is none
  of. A match gives its specification; otherwise the first candidate is taken.
\<close>

fun spec_select_loop ::
    "dmi_error_queue \<Rightarrow> 'i dmi_entity \<Rightarrow> dmi_entity_spec option list
      \<Rightarrow> dmi_entity_spec option \<times> 'i dmi_entity \<times> dmi_error_queue" where
  "spec_select_loop q e [] = (None, e, q)"
| "spec_select_loop q e (None # candidates) = (None, e, q)"
| "spec_select_loop q e (Some spec # candidates) =
    (case dmi_entity_signature_match q e (ep_signature (sp_params spec)) of
       (True, e, q) \<Rightarrow> (Some spec, e, q)
     | (False, e, q) \<Rightarrow> spec_select_loop q e candidates)"

type_synonym dmi_type_map = "dmi_type_id_t \<Rightarrow> dmi_entity_spec option list"

definition dmi_entity_spec_select ::
    "dmi_type_map \<Rightarrow> dmi_error_queue \<Rightarrow> 'i dmi_entity \<Rightarrow> dmi_entity_spec option \<times> 'i dmi_entity \<times> dmi_error_queue" where
  "dmi_entity_spec_select type_map q e =
    (let type = en_type_id e
     in if type \<le> DMI_TYPE_ID_INVALID \<or> type > DMI_TYPE_ID_MAX then (None, e, q)
        else
          let candidates = type_map type
          in (case spec_select_loop q e (take (DMI_TYPE_CANDIDATES - 1) (drop 1 candidates)) of
                (Some spec, e, q) \<Rightarrow> (Some spec, e, q)
              | (None, e, q) \<Rightarrow> (candidates ! 0, e, q)))"

definition dmi_entity_spec_type ::
    "dmi_type_map \<Rightarrow> dmi_error_queue \<Rightarrow> 'i dmi_entity \<Rightarrow> nat option \<times> 'i dmi_entity \<times> dmi_error_queue" where
  "dmi_entity_spec_type type_map q e =
    (let (spec, e, q) = (case en_spec e of Some spec \<Rightarrow> (Some spec, e, q) | None \<Rightarrow> dmi_entity_spec_select type_map q e)
     in (map_option sp_type spec, e, q))"

text \<open>The type asked for is \<open>None\<close> for any type.\<close>

definition dmi_entity_data ::
    "dmi_type_map \<Rightarrow> dmi_error_queue \<Rightarrow> 'i dmi_entity \<Rightarrow> nat option \<Rightarrow> byte list option \<times> 'i dmi_entity \<times> dmi_error_queue" where
  "dmi_entity_data type_map q e type =
    (let (bad, e, q) = (case type of
        None \<Rightarrow> (False, e, q)
      | Some _ \<Rightarrow> (case dmi_entity_spec_type type_map q e of (own, e, q) \<Rightarrow> (own \<noteq> type, e, q)))
     in if bad then (None, e, raise_error q DMI_ERROR_ENTITY_TYPE_INVALID)
        else (dmi_buffer_at (en_buffer e) (of_nat (en_offset e)) (of_nat (en_total_length e)), e, q))"

definition dmi_entity_info ::
    "dmi_type_map \<Rightarrow> dmi_error_queue \<Rightarrow> 'i dmi_entity \<Rightarrow> nat option \<Rightarrow> 'i option \<times> 'i dmi_entity \<times> dmi_error_queue" where
  "dmi_entity_info type_map q e type =
    (let (bad, e, q) = (case type of
        None \<Rightarrow> (False, e, q)
      | Some _ \<Rightarrow> (case dmi_entity_spec_type type_map q e of (own, e, q) \<Rightarrow> (own \<noteq> type, e, q)))
     in if bad then (None, e, raise_error q DMI_ERROR_ENTITY_TYPE_INVALID) else (en_info e, e, q))"

section \<open>Additional information\<close>

text \<open>
  \<open>dmi_entity_add_overlay\<close> from the entry on: the entry of the additional information is given,
  with the structure it belongs to and its index, and \<open>mem\<close> tells whether there is memory for
  the node.
\<close>

definition dmi_entity_add_overlay ::
    "bool \<Rightarrow> dmi_error_queue \<Rightarrow> 'i dmi_entity \<Rightarrow> dmi_entity_overlay \<Rightarrow> bool \<times> 'i dmi_entity \<times> dmi_error_queue" where
  "dmi_entity_add_overlay mem q e entry =
    (if dmi_entity_is_decoded e then (False, e, raise_error q DMI_ERROR_STATE_INVALID)
     else if en_type_id e = DMI_TYPE_ID_ADDITIONAL_INFO then (False, e, raise_error q DMI_ERROR_OVERLAY_INVALID)
     else if ov_referenced_offset entry < 4 \<or>
             ov_referenced_offset entry + length (ov_value entry) > en_body_length e
     then (False, e, raise_error q DMI_ERROR_OVERLAY_INVALID)
     else if \<not> mem then (False, e, raise_error q DMI_ERROR_OUT_OF_MEMORY)
     else (True, e\<lparr>en_overlays := en_overlays e @ [entry]\<rparr>, q))"

text \<open>The loop of \<open>dmi_entity_apply_overlays\<close> over the entries.\<close>

primrec apply_overlays_loop :: "heap \<Rightarrow> dmi_buffer \<Rightarrow> dmi_entity_overlay list \<Rightarrow> dmi_buffer result" where
  "apply_overlays_loop h b [] = Inr b"
| "apply_overlays_loop h b (entry # entries) =
    (case dmi_buffer_write h b (ov_value entry) (of_nat (ov_referenced_offset entry)) of
       Inl e \<Rightarrow> Inl e
     | Inr b' \<Rightarrow> apply_overlays_loop h b' entries)"

text \<open>
  \<open>addr\<close> is the address of the copy and \<open>mem\<close> tells whether there is memory for its
  descriptor. A buffer operation which fails has raised an error of its own.
\<close>

definition dmi_entity_apply_overlays ::
    "bool \<Rightarrow> heap \<Rightarrow> nat \<Rightarrow> dmi_error_queue \<Rightarrow> 'i dmi_entity \<Rightarrow> bool \<times> 'i dmi_entity \<times> dmi_error_queue" where
  "dmi_entity_apply_overlays mem h addr q e =
    (if \<not> mem then (False, e, raise_error q DMI_ERROR_OUT_OF_MEMORY)
     else
       let body = the (dmi_buffer_at (en_buffer e) (of_nat (en_offset e)) (of_nat (en_body_length e)))
       in (case (case dmi_buffer_assign h (dmi_buffer_create addr) body of
                   Inl f \<Rightarrow> Inl f
                 | Inr b \<Rightarrow> apply_overlays_loop h b (en_overlays e)) of
             Inr overlay \<Rightarrow> (True, e\<lparr>en_overlay := Some overlay\<rparr>, q)
           | Inl f \<Rightarrow> (False, e\<lparr>en_overlay := None\<rparr>,
               (case f of Quiet \<Rightarrow> q | Raised reason \<Rightarrow> raise_error q reason))))"

section \<open>What the string set is\<close>

text \<open>
  A string set as it is printed: every string followed by a zero, and a zero after the last one.
\<close>

definition print_strings :: "byte list list \<Rightarrow> byte list" where
  "print_strings ss = concat (map (\<lambda>s. s @ [0]) ss) @ [0]"

definition is_text :: "byte list \<Rightarrow> bool" where
  "is_text s \<longleftrightarrow> s \<noteq> [] \<and> 0 \<notin> set s"

text \<open>The position of the first pair of zeros.\<close>

definition double_zero :: "byte list \<Rightarrow> nat \<Rightarrow> bool" where
  "double_zero bs p \<longleftrightarrow> p + 1 < length bs \<and> bs ! p = 0 \<and> bs ! (p + 1) = 0"

lemma decode_length_loop_some:
  "decode_length_loop has bs pos count = Some (pos', count') \<Longrightarrow>
    \<exists>p. pos' = pos + p \<and> double_zero bs p \<and> (\<forall>k < p. \<not> double_zero bs k) \<and>
      count' = count + (if has then length (filter (\<lambda>c. c = 0) (take p bs)) else 0)"
proof (induction has bs pos count rule: decode_length_loop.induct)
  case (1 has c0 c1 rest pos count)
  show ?case
  proof (cases "c0 \<noteq> 0 \<or> c1 \<noteq> 0")
    case True
    let ?count = "if c0 = 0 \<and> has then count + 1 else count"
    from True 1(2) have rest: "rest \<noteq> []" and rec: "decode_length_loop has (c1 # rest) (pos + 1) ?count = Some (pos', count')"
      by (auto simp: Let_def split: if_splits)
    from 1(1) [OF True refl refl rest rec] obtain p where p: "pos' = pos + 1 + p" "double_zero (c1 # rest) p"
      "\<forall>k < p. \<not> double_zero (c1 # rest) k"
      "count' = ?count + (if has then length (filter (\<lambda>c. c = 0) (take p (c1 # rest))) else 0)" by blast
    have shift: "double_zero (c0 # c1 # rest) (Suc k) = double_zero (c1 # rest) k" for k
      by (simp add: double_zero_def)
    have zero: "\<not> double_zero (c0 # c1 # rest) 0" using True by (auto simp: double_zero_def)
    have "\<forall>k < Suc p. \<not> double_zero (c0 # c1 # rest) k"
      using p(3) shift zero by (metis less_Suc_eq_0_disj)
    then show ?thesis
      using p shift by (intro exI [of _ "Suc p"]) auto
  next
    case False
    then show ?thesis using 1(2) by (intro exI [of _ 0]) (auto simp: double_zero_def)
  qed
qed simp_all

lemma decode_length_loop_none:
  "decode_length_loop has bs pos count = None \<Longrightarrow> \<not> double_zero bs p"
proof (induction has bs pos count arbitrary: p rule: decode_length_loop.induct)
  case (1 has c0 c1 rest pos count)
  let ?count = "if c0 = 0 \<and> has then count + 1 else count"
  from 1(2) have nz: "c0 \<noteq> 0 \<or> c1 \<noteq> 0" by (auto split: if_splits)
  have rest: "\<not> double_zero (c1 # rest) k" for k
  proof (cases "rest = []")
    case True
    then show ?thesis by (simp add: double_zero_def)
  next
    case False
    with 1(2) nz have "decode_length_loop has (c1 # rest) (pos + 1) ?count = None" by (auto simp: Let_def)
    from 1(1) [OF nz refl refl False this] show ?thesis .
  qed
  show ?case
  proof (cases p)
    case 0
    then show ?thesis using nz by (auto simp: double_zero_def)
  next
    case (Suc k)
    then show ?thesis using rest [of k] by (simp add: double_zero_def)
  qed
qed (simp_all add: double_zero_def)

text \<open>The pieces of a run of bytes between its zeros.\<close>

fun string_pieces :: "nat \<Rightarrow> byte list \<Rightarrow> byte list list" where
  "string_pieces 0 bs = []"
| "string_pieces (Suc n) bs =
    takeWhile (\<lambda>c. c \<noteq> 0) bs # string_pieces n (drop (length (takeWhile (\<lambda>c. c \<noteq> 0) bs) + 1) bs)"

definition string_entry :: "byte list \<Rightarrow> dmi_string_entry" where
  "string_entry raw = \<lparr>se_raw = raw, se_pretty = dmi_entity_string_trim raw, se_used = False\<rparr>"

lemma decode_strings_pieces:
  "decode_strings_loop mem i n bs =
    (if \<forall>k < n. mem (i + k) then Some (map string_entry (string_pieces n bs)) else None)"
proof (induction mem i n bs rule: decode_strings_loop.induct)
  case (2 mem i n bs)
  have "(\<forall>k < Suc n. mem (i + k)) \<longleftrightarrow> mem i \<and> (\<forall>k < n. mem (i + 1 + k))"
    by (auto simp: less_Suc_eq_0_disj)
  then show ?case using 2 [OF refl] by (auto simp: Let_def string_entry_def)
qed simp

lemma length_string_pieces [simp]: "length (string_pieces n bs) = n"
  by (induction n bs rule: string_pieces.induct) simp_all

lemma take_drop_zero:
  assumes "j < length bs" and "bs ! j = 0" and "\<forall>k < j. bs ! k \<noteq> 0"
  shows "takeWhile (\<lambda>c. c \<noteq> (0 :: byte)) bs = take j bs"
  using assms by (intro takeWhile_eq_take_P_nth) auto

text \<open>
  A run which begins with a text and in which the first pair of zeros stands at its very end is
  printed again from its pieces, all of which are texts.
\<close>

lemma print_string_pieces:
  "double_zero bs p \<Longrightarrow> length bs = p + 2 \<Longrightarrow> \<forall>k < p. \<not> double_zero bs k \<Longrightarrow> bs ! 0 \<noteq> 0 \<Longrightarrow>
    n = Suc (length (filter (\<lambda>c. c = 0) (take p bs))) \<Longrightarrow>
    print_strings (string_pieces n bs) = bs \<and> list_all is_text (string_pieces n bs)"
proof (induction p arbitrary: bs n rule: less_induct)
  case (less p)
  define j where "j = (LEAST j. j < length bs \<and> bs ! j = 0)"
  have ex: "p < length bs \<and> bs ! p = 0" using less.prems by (simp add: double_zero_def)
  then have j: "j < length bs" "bs ! j = 0" "j \<le> p" unfolding j_def
    by (metis (mono_tags, lifting) LeastI Least_le)+
  have before: "\<forall>k < j. bs ! k \<noteq> 0"
    using j(1) not_less_Least [of _ "\<lambda>j. j < length bs \<and> bs ! j = 0"] unfolding j_def by (meson order.strict_trans)
  have j0: "0 < j" using j(2) less.prems(4) by (metis gr0I)
  let ?raw = "take j bs" and ?rest = "drop (j + 1) bs"
  have raw_eq: "takeWhile (\<lambda>c. c \<noteq> 0) bs = ?raw" using take_drop_zero [OF j(1,2) before] .
  have raw_text: "is_text ?raw"
    using before j0 j(1) by (auto simp: is_text_def in_set_conv_nth)
  have split: "bs = ?raw @ [0] @ ?rest" using j(1,2) by (metis append_Cons append_Nil id_take_nth_drop Suc_eq_plus1)
  have pieces: "string_pieces n bs = ?raw # string_pieces (n - 1) ?rest"
    using less.prems(5) raw_eq j(1) by simp
  show ?case
  proof (cases "j = p")
    case True
    have "filter (\<lambda>c. c = 0) (take p bs) = []"
      using before True by (auto simp: filter_empty_conv in_set_conv_nth)
    then have "n = 1" using less.prems(5) by simp
    moreover have "?rest = [0]"
      using True less.prems(1,2) by (intro nth_equalityI) (auto simp: double_zero_def)
    ultimately show ?thesis
      using pieces split raw_text by (simp add: print_strings_def)
  next
    case False
    then have jp: "j < p" using j(3) by simp
    let ?q = "p - (j + 1)"
    have nth: "?rest ! k = bs ! (j + 1 + k)" if "j + 1 + k \<le> length bs" for k using that by simp
    have dz: "double_zero ?rest k \<longleftrightarrow> double_zero bs (j + 1 + k)" for k
      by (auto simp: double_zero_def)
    have "bs ! (j + 1) \<noteq> 0"
      using less.prems(2,3) jp j(2) by (auto simp: double_zero_def)
    then have first: "?rest ! 0 \<noteq> 0" using nth [of 0] jp less.prems(2) by simp
    have "take p bs = ?raw @ [0] @ take ?q ?rest"
      using jp j(1,2) by (metis (no_types, lifting) split append.assoc append_take_drop_id drop_take
          take_add add_diff_inverse_nat Suc_eq_plus1 not_less_eq take_Suc_conv_app_nth)
    moreover have "filter (\<lambda>c. c = 0) ?raw = []" using raw_text by (auto simp: is_text_def filter_empty_conv)
    ultimately have zeros: "n - 1 = Suc (length (filter (\<lambda>c. c = 0) (take ?q ?rest)))"
      using less.prems(5) by simp
    have "double_zero ?rest ?q" "length ?rest = ?q + 2" "\<forall>k < ?q. \<not> double_zero ?rest k" "?q < p"
      using dz less.prems(1,2,3) jp by auto
    from less.IH [OF this(4,1,2,3) first zeros]
    have "print_strings (string_pieces (n - 1) ?rest) = ?rest" "list_all is_text (string_pieces (n - 1) ?rest)" by auto
    then show ?thesis
      using pieces split raw_text by (simp add: print_strings_def)
  qed
qed

section \<open>Created structures\<close>

lemma buffer_at_bytes:
  assumes "buffer_wf b" and "off + n \<le> length (buffer_bytes b)" and "0 < length (buffer_bytes b)"
  shows "dmi_buffer_at b (of_nat off) (of_nat n) = Some (take n (drop off (buffer_bytes b)))"
proof -
  have "unat (of_nat off :: size_t) = off" "unat (of_nat n :: size_t) = n"
    using assms(2) buffer_bytes_bound [OF assms(1)] by (auto intro!: unat_of_nat_size)
  moreover have "buf_data b \<noteq> None" using assms(3) by (auto simp: buffer_bytes_def buf_memory_def split: option.splits)
  ultimately show ?thesis using assms by (simp add: at_correct)
qed

lemma decode_length_correct:
  assumes "dmi_entity_decode_length body data = Some (extra, count)"
  defines "area \<equiv> take extra (drop body data)"
  shows "body + extra \<le> length data" and "2 \<le> extra" and "length area = extra"
    and "double_zero area (extra - 2)" and "\<forall>k < extra - 2. \<not> double_zero area k"
    and "count = (if area ! 0 \<noteq> 0 then Suc (length (filter (\<lambda>c. c = 0) (take (extra - 2) area))) else 0)"
proof -
  from assms(1) obtain pos c where long: "body + 2 \<le> length data"
    and loop: "decode_length_loop (data ! body \<noteq> 0) (drop body data) body 0 = Some (pos, c)"
    and extra: "extra = pos + 2 - body" and count: "count = (if data ! body \<noteq> 0 then c + 1 else c)"
    by (auto simp: dmi_entity_decode_length_def Let_def split: if_splits option.splits prod.splits)
  from decode_length_loop_some [OF loop] obtain p where p: "pos = body + p" "double_zero (drop body data) p"
    "\<forall>k < p. \<not> double_zero (drop body data) k"
    "c = (if data ! body \<noteq> 0 then length (filter (\<lambda>c. c = 0) (take p (drop body data))) else 0)" by auto
  have e: "extra = p + 2" using extra p(1) by simp
  have in_data: "p + 1 < length data - body" using p(2) by (simp add: double_zero_def)
  then show fits: "body + extra \<le> length data" and "2 \<le> extra" by (simp_all add: e)
  then show "length area = extra" by (simp add: area_def)
  have nth: "area ! k = drop body data ! k" if "k < extra" for k using that by (simp add: area_def)
  have dz: "double_zero area k \<longleftrightarrow> double_zero (drop body data) k" if "k \<le> p" for k
    using that in_data by (simp add: double_zero_def area_def e)
  show "double_zero area (extra - 2)" using dz [of p] p(2) e by simp
  show "\<forall>k < extra - 2. \<not> double_zero area k" using dz p(3) e by simp
  have first: "area ! 0 = data ! body" using nth [of 0] long e by simp
  have "take (extra - 2) area = take p (drop body data)" by (simp add: area_def e)
  then show "count = (if area ! 0 \<noteq> 0 then Suc (length (filter (\<lambda>c. c = 0) (take (extra - 2) area))) else 0)"
    using count p(4) first by simp
qed

lemma decode_length_none:
  assumes "dmi_entity_decode_length body data = None"
  shows "\<not> double_zero (drop body data) p"
  using assms decode_length_loop_none [of "data ! body \<noteq> 0" "drop body data" body 0 p]
  by (auto simp: dmi_entity_decode_length_def Let_def double_zero_def split: if_splits option.splits)

text \<open>
  What a created structure is in the bytes of its buffer: a header of at least four bytes, whose
  length is the length of the formatted area, and the string set behind it, up to the first pair
  of zeros, which is printed again from the strings unless it begins with a zero, and then there
  are no strings.
\<close>

definition entity_strings_set :: "'i dmi_entity \<Rightarrow> byte list" where
  "entity_strings_set e =
    take (en_extra_length e) (drop (en_offset e + en_body_length e) (buffer_bytes (en_buffer e)))"

definition entity_in_buffer :: "'i dmi_entity \<Rightarrow> bool" where
  "entity_in_buffer e \<longleftrightarrow> buffer_wf (en_buffer e) \<and>
     en_offset e + en_total_length e \<le> length (buffer_bytes (en_buffer e)) \<and>
     en_total_length e = en_body_length e + en_extra_length e \<and>
     4 \<le> en_body_length e \<and> en_body_length e < 256 \<and> 2 \<le> en_extra_length e \<and>
     en_handle e = load_word (take 2 (drop (en_offset e + 2) (buffer_bytes (en_buffer e)))) \<and>
     en_string_count e = length (en_strings e) \<and>
     double_zero (entity_strings_set e) (en_extra_length e - 2) \<and>
     (\<forall>k < en_extra_length e - 2. \<not> double_zero (entity_strings_set e) k) \<and>
     list_all is_text (map se_raw (en_strings e)) \<and>
     (if entity_strings_set e ! 0 \<noteq> 0 then print_strings (map se_raw (en_strings e)) = entity_strings_set e
      else en_strings e = [])"

lemma map_se_raw_entry [simp]: "map se_raw (map string_entry xs) = xs"
  by (simp add: string_entry_def comp_def)

lemma entity_create_some:
  assumes wf: "buffer_wf b" and ok: "dmi_entity_create mem q b off = (Some e, q')"
  shows "q' = q" and "entity_in_buffer e" and "en_buffer e = b" and "en_offset e = off"
    and "en_spec e = None" and "en_state e = 0" and "en_overlays e = []" and "en_overlay e = None"
    and "en_type_id e = (if buffer_bytes b ! (off + 1) = 0 then DMI_TYPE_ID_END_OF_TABLE
       else int (unat (buffer_bytes b ! off)))"
    and "en_body_length e = (if buffer_bytes b ! (off + 1) = 0 then 4 else unat (buffer_bytes b ! (off + 1)))"
    and "\<forall>entry\<in>set (en_strings e). se_pretty entry = dmi_entity_string_trim (se_raw entry) \<and> \<not> se_used entry"
proof -
  let ?B = "buffer_bytes b" and ?len = "unat (buf_length b)"
  have B: "length ?B = ?len" using wf by (rule buffer_length_bytes)
  define maxl where "maxl = (if off < ?len then ?len - off else 0)"
  define data where "data = the (dmi_buffer_at b (of_nat off) (of_nat maxl))"
  have long: "6 \<le> maxl" using ok by (auto simp: dmi_entity_create_def maxl_def Let_def split: if_splits)
  then have data: "data = drop off ?B" and off: "off + maxl = ?len" "off < ?len"
    using buffer_at_bytes [OF wf, of off maxl] B by (auto simp: data_def maxl_def split: if_splits)
  have len_data: "length data = maxl" using data off B by simp
  have nth: "data ! k = ?B ! (off + k)" if "k < maxl" for k using that data off B by simp
  define l where "l = unat (data ! 1)"
  define body where "body = (if l = 0 then 4 else l)"
  define type where "type = (if l = 0 then DMI_TYPE_ID_END_OF_TABLE else int (unat (data ! 0)))"
  have guards: "\<not> (l \<noteq> 0 \<and> l < 4)" "\<not> (l \<noteq> 0 \<and> l > maxl)" "mem 0"
    using ok unfolding dmi_entity_create_def Let_def maxl_def [symmetric] data_def [symmetric] l_def [symmetric]
    by (auto split: if_splits)
  obtain extra count where dl: "dmi_entity_decode_length body data = Some (extra, count)"
    using ok guards long
    unfolding dmi_entity_create_def Let_def maxl_def [symmetric] data_def [symmetric] l_def [symmetric] body_def
    by (cases "l = 0") (auto split: if_splits option.splits)
  note d = decode_length_correct [OF dl]
  let ?area = "take extra (drop body data)"
  have area: "the (dmi_buffer_at b (of_nat (off + body)) (of_nat extra)) = ?area"
    using buffer_at_bytes [OF wf, of "off + body" extra] d(1) off B by (simp add: data len_data add.commute)
  obtain strings where str: "decode_strings_loop mem 2 count ?area = Some strings"
    and e: "e = \<lparr>en_type_id = type, en_spec = None, en_handle = load_word (take 2 (drop 2 data)), en_buffer = b,
        en_offset = off, en_total_length = body + extra, en_body_length = body, en_extra_length = extra,
        en_strings = strings, en_string_count = count, en_info = None, en_level = 0, en_state = 0,
        en_properties = [], en_overlays = [], en_overlay = None\<rparr>" and q: "q' = q"
    using ok guards long dl area
    unfolding dmi_entity_create_def Let_def maxl_def [symmetric] data_def [symmetric] l_def [symmetric] body_def type_def
    by (cases "l = 0") (auto split: if_splits option.splits)
  show "q' = q" by (rule q)
  have strings: "strings = map string_entry (string_pieces count ?area)"
    using str by (simp add: decode_strings_pieces split: if_splits)
  have set_e: "entity_strings_set e = ?area" by (simp add: entity_strings_set_def e data add.commute)
  have raws: "map se_raw strings = string_pieces count ?area" by (simp only: strings map_se_raw_entry)
  have printed: "(if ?area ! 0 \<noteq> 0 then print_strings (map se_raw strings) = ?area else strings = []) \<and>
      list_all is_text (map se_raw strings)"
  proof (cases "?area ! 0 = 0")
    case True
    then have "count = 0" using d(6) by simp
    then show ?thesis using True raws by simp
  next
    case False
    have len: "length ?area = extra - 2 + 2" using d(2,3) by linarith
    have "count = Suc (length (filter (\<lambda>c. c = 0) (take (extra - 2) ?area)))" using d(6) False by (simp only: if_True not_False_eq_True)
    from print_string_pieces [OF d(4) len d(5) False this] show ?thesis using False by (simp only: raws if_True not_False_eq_True)
  qed
  have body: "4 \<le> body" "body < 256" using guards(1) by (auto simp: body_def l_def)
  have handle: "load_word (take 2 (drop 2 data)) = (load_word (take 2 (drop (off + 2) ?B)) :: dmi_handle_t)"
    by (simp add: data add.commute)
  have f: "en_buffer e = b" "en_offset e = off" "en_total_length e = body + extra" "en_body_length e = body"
    "en_extra_length e = extra" "en_handle e = load_word (take 2 (drop 2 data))" "en_string_count e = count"
    "en_strings e = strings"
    by (simp_all add: e)
  have "off + (body + extra) \<le> length ?B" "count = length strings"
    using d(1) len_data off B by (simp_all add: strings)
  then show "entity_in_buffer e"
    unfolding entity_in_buffer_def set_e f
    using wf d(2,4,5) body printed handle by (elim conjE, intro conjI) (assumption | rule refl)+
  show "en_buffer e = b" "en_offset e = off" "en_spec e = None" "en_state e = 0" "en_overlays e = []" "en_overlay e = None"
    by (simp_all add: e)
  show "en_type_id e = (if ?B ! (off + 1) = 0 then DMI_TYPE_ID_END_OF_TABLE else int (unat (?B ! off)))"
    using nth [of 0] nth [of 1] long by (simp add: e type_def l_def unat_eq_0)
  show "en_body_length e = (if ?B ! (off + 1) = 0 then 4 else unat (?B ! (off + 1)))"
    using nth [of 1] long by (simp add: e body_def l_def unat_eq_0)
  show "\<forall>entry\<in>set (en_strings e). se_pretty entry = dmi_entity_string_trim (se_raw entry) \<and> \<not> se_used entry"
    by (auto simp: e strings string_entry_def)
qed

text \<open>Why the bytes at an offset are no structure, if they are not.\<close>

definition entity_fault :: "byte list \<Rightarrow> dmi_error_code option" where
  "entity_fault bs =
    (if length bs < 6 then Some DMI_ERROR_ENTITY_TRUNCATED
     else
       let l = unat (bs ! 1)
       in if 1 \<le> l \<and> l < 4 then Some DMI_ERROR_ENTITY_LENGTH_INVALID
          else if l > length bs then Some DMI_ERROR_ENTITY_TRUNCATED
          else if \<exists>p < length bs. double_zero (drop (if l = 0 then 4 else l) bs) p then None
          else Some DMI_ERROR_ENTITY_TRUNCATED)"

lemma decode_length_exists:
  assumes "body \<le> length data"
  shows "(\<exists>r. dmi_entity_decode_length body data = Some r) \<longleftrightarrow> (\<exists>p < length data. double_zero (drop body data) p)"
proof
  assume "\<exists>r. dmi_entity_decode_length body data = Some r"
  then obtain extra count where r: "dmi_entity_decode_length body data = Some (extra, count)" by auto
  note d = decode_length_correct [OF r]
  have "double_zero (drop body data) (extra - 2)"
    using d(1,2,3,4) by (auto simp: double_zero_def)
  then show "\<exists>p < length data. double_zero (drop body data) p"
    by (intro exI [of _ "extra - 2"]) (auto simp: double_zero_def)
next
  assume "\<exists>p < length data. double_zero (drop body data) p"
  then show "\<exists>r. dmi_entity_decode_length body data = Some r"
    using decode_length_none [of body data] by (cases "dmi_entity_decode_length body data") auto
qed

lemma entity_create_outcome:
  assumes wf: "buffer_wf b" and mem: "\<forall>i. mem i"
  shows "case entity_fault (drop off (buffer_bytes b)) of
      Some reason \<Rightarrow> dmi_entity_create mem q b off = (None, raise_error q reason)
    | None \<Rightarrow> (\<exists>e. dmi_entity_create mem q b off = (Some e, q))"
proof -
  let ?B = "buffer_bytes b" and ?len = "unat (buf_length b)"
  let ?bs = "drop off ?B"
  have B: "length ?B = ?len" using wf by (rule buffer_length_bytes)
  define maxl where "maxl = (if off < ?len then ?len - off else 0)"
  have max_bs: "maxl = length ?bs" using B by (simp add: maxl_def)
  show ?thesis
  proof (cases "length ?bs < 6")
    case True
    then show ?thesis using max_bs
      by (simp add: entity_fault_def dmi_entity_create_def Let_def maxl_def split: if_splits)
  next
    case False
    define data where "data = the (dmi_buffer_at b (of_nat off) (of_nat maxl))"
    have data: "data = ?bs"
      using buffer_at_bytes [OF wf, of off maxl] False B by (simp add: data_def max_bs)
    define l where "l = unat (?bs ! 1)"
    define body where "body = (if l = 0 then 4 else l)"
    note unfold = dmi_entity_create_def Let_def maxl_def [symmetric] data_def [symmetric] data l_def [symmetric] body_def
    have bad: "1 \<le> l \<and> l < 4 \<Longrightarrow> dmi_entity_create mem q b off = (None, raise_error q DMI_ERROR_ENTITY_LENGTH_INVALID)"
      "\<not> (1 \<le> l \<and> l < 4) \<Longrightarrow> l > length ?bs \<Longrightarrow>
        dmi_entity_create mem q b off = (None, raise_error q DMI_ERROR_ENTITY_TRUNCATED)"
      "\<not> (1 \<le> l \<and> l < 4) \<Longrightarrow> \<not> l > length ?bs \<Longrightarrow> dmi_entity_decode_length body ?bs = None \<Longrightarrow>
        dmi_entity_create mem q b off = (None, raise_error q DMI_ERROR_ENTITY_TRUNCATED)"
      using False mem max_bs unfolding unfold by (cases "l = 0"; auto split: if_splits)+
    have some: "\<exists>e. dmi_entity_create mem q b off = (Some e, q)"
      if "\<not> (1 \<le> l \<and> l < 4)" "\<not> l > length ?bs" "dmi_entity_decode_length body ?bs = Some r" for r
      using that False mem max_bs unfolding unfold
      by (cases "l = 0") (auto simp: decode_strings_pieces split: if_splits option.splits prod.splits)
    have body_le: "\<not> l > length ?bs \<Longrightarrow> body \<le> length ?bs" using False by (auto simp: body_def)
    show ?thesis
      using False bad some decode_length_exists [OF body_le]
      unfolding entity_fault_def Let_def l_def [symmetric] body_def [symmetric]
      by (cases "dmi_entity_decode_length body ?bs") (auto split: if_splits)
  qed
qed

section \<open>Additional information over the data\<close>

definition overlay_fits :: "nat \<Rightarrow> dmi_entity_overlay \<Rightarrow> bool" where
  "overlay_fits body_length entry \<longleftrightarrow> 4 \<le> ov_referenced_offset entry \<and>
     ov_referenced_offset entry + length (ov_value entry) \<le> body_length"

definition overlaid :: "byte list \<Rightarrow> dmi_entity_overlay list \<Rightarrow> byte list" where
  "overlaid body entries = foldl (\<lambda>bs entry. patch bs (ov_referenced_offset entry) (ov_value entry)) body entries"

lemma write_within:
  assumes wf: "buffer_wf b" and fits: "off + length run \<le> length (buffer_bytes b)"
  shows "\<exists>b'. dmi_buffer_write h b run (of_nat off) = Inr b' \<and> buffer_wf b' \<and> buffer_bytes b' = patch (buffer_bytes b) off run"
proof -
  have bound: "length (buffer_bytes b) < 18446744073709551616" using wf by (rule buffer_bytes_bound)
  have n: "unat (size_of run) = length run" and o: "unat (of_nat off :: size_t) = off"
    using fits bound by (auto intro!: unat_size_of unat_of_nat_size)
  have "\<not> size_of run > SIZE_MAX - of_nat off"
    using fits bound n o by (simp add: word_less_nat_alt unat_sub not_less)
  moreover have "\<not> of_nat off + size_of run > buf_length b"
    using fits bound n o wf by (simp add: word_less_nat_alt unat_add_small buffer_length_bytes not_less)
  ultimately obtain b' where b': "dmi_buffer_write h b run (of_nat off) = Inr b'"
    by (cases "size_of run = 0") (simp_all add: dmi_buffer_write_def)
  have "length run < 18446744073709551616" using fits bound by linarith
  note w = write_correct [OF wf this b']
  have "write_bytes (buffer_bytes b) off run = patch (buffer_bytes b) off run"
    using fits by (simp add: write_bytes_def)
  then show ?thesis using b' w(1,2) o by auto
qed

lemma length_overlaid:
  "list_all (overlay_fits (length body)) entries \<Longrightarrow> length (overlaid body entries) = length body"
  unfolding overlaid_def
  by (induction entries arbitrary: body) (simp_all add: overlay_fits_def length_patch)

lemma take_overlaid:
  "list_all (overlay_fits (length body)) entries \<Longrightarrow> take 4 (overlaid body entries) = take 4 body"
  unfolding overlaid_def
  by (induction entries arbitrary: body) (simp_all add: overlay_fits_def length_patch take_patch_before)

lemma apply_loop_overlaid:
  "buffer_wf b \<Longrightarrow> list_all (overlay_fits (length (buffer_bytes b))) entries \<Longrightarrow>
    \<exists>b'. apply_overlays_loop h b entries = Inr b' \<and> buffer_wf b' \<and> buffer_bytes b' = overlaid (buffer_bytes b) entries"
proof (induction entries arbitrary: b)
  case (Cons entry entries)
  then have "ov_referenced_offset entry + length (ov_value entry) \<le> length (buffer_bytes b)"
    by (simp add: overlay_fits_def)
  from write_within [OF Cons.prems(1) this, of h] obtain b1 where
    b1: "dmi_buffer_write h b (ov_value entry) (of_nat (ov_referenced_offset entry)) = Inr b1" "buffer_wf b1"
      "buffer_bytes b1 = patch (buffer_bytes b) (ov_referenced_offset entry) (ov_value entry)" by blast
  have "length (buffer_bytes b1) = length (buffer_bytes b)"
    using Cons.prems(2) b1(3) by (simp add: overlay_fits_def length_patch)
  then show ?case using Cons.IH [OF b1(2)] Cons.prems(2) b1 by (auto simp: overlaid_def)
qed (simp add: overlaid_def)

definition entity_body :: "'i dmi_entity \<Rightarrow> byte list" where
  "entity_body e = take (en_body_length e) (drop (en_offset e) (buffer_bytes (en_buffer e)))"

lemma entity_body_at:
  assumes "entity_in_buffer e"
  shows "dmi_buffer_at (en_buffer e) (of_nat (en_offset e)) (of_nat (en_body_length e)) = Some (entity_body e)"
    and "length (entity_body e) = en_body_length e"
proof -
  have fits: "en_offset e + en_body_length e \<le> length (buffer_bytes (en_buffer e))" "0 < length (buffer_bytes (en_buffer e))"
    "buffer_wf (en_buffer e)"
    using assms by (auto simp: entity_in_buffer_def)
  show "dmi_buffer_at (en_buffer e) (of_nat (en_offset e)) (of_nat (en_body_length e)) = Some (entity_body e)"
    using buffer_at_bytes [OF fits(3,1,2)] by (simp add: entity_body_def)
  show "length (entity_body e) = en_body_length e" using fits by (simp add: entity_body_def)
qed

lemma apply_overlays_correct:
  assumes e: "entity_in_buffer e" and fits: "list_all (overlay_fits (en_body_length e)) (en_overlays e)"
    and mem: "generous h"
  shows "\<exists>overlay. dmi_entity_apply_overlays True h addr q e = (True, e\<lparr>en_overlay := Some overlay\<rparr>, q) \<and>
    buffer_wf overlay \<and> buffer_bytes overlay = overlaid (entity_body e) (en_overlays e)"
proof -
  note body = entity_body_at [OF e]
  have "en_body_length e < 256" using e by (simp add: entity_in_buffer_def)
  then have small: "length (entity_body e) \<le> 18446744073709551488" "length (entity_body e) < 18446744073709551616"
    using body(2) by simp_all
  obtain b where b: "dmi_buffer_assign h (dmi_buffer_create addr) (entity_body e) = Inr b"
    using assign_succeeds [OF mem small(1)] by blast
  note a = assign_correct [OF buffer_wf_create small(2) b]
  have "list_all (overlay_fits (length (buffer_bytes b))) (en_overlays e)" using fits a(2) body(2) by simp
  from apply_loop_overlaid [OF a(1) this, of h] show ?thesis
    using a(2) by (auto simp: dmi_entity_apply_overlays_def Let_def body(1) b)
qed

text \<open>Attaching entries one after another; an entry which is refused leaves the structure as it is.\<close>

definition attach_all :: "dmi_error_queue \<Rightarrow> 'i dmi_entity \<Rightarrow> dmi_entity_overlay list \<Rightarrow> 'i dmi_entity" where
  "attach_all q e entries = foldl (\<lambda>e entry. fst (snd (dmi_entity_add_overlay True q e entry))) e entries"

lemma attach_all_fits:
  "\<not> dmi_entity_is_decoded e \<Longrightarrow> en_type_id e \<noteq> DMI_TYPE_ID_ADDITIONAL_INFO \<Longrightarrow>
    attach_all q e entries = e\<lparr>en_overlays := en_overlays e @ filter (overlay_fits (en_body_length e)) entries\<rparr>"
proof (induction entries arbitrary: e)
  case (Cons entry entries)
  let ?e = "fst (snd (dmi_entity_add_overlay True q e entry))"
  have step: "?e = (if overlay_fits (en_body_length e) entry then e\<lparr>en_overlays := en_overlays e @ [entry]\<rparr> else e)"
    using Cons.prems by (auto simp: dmi_entity_add_overlay_def overlay_fits_def)
  have "\<not> dmi_entity_is_decoded ?e" "en_type_id ?e \<noteq> DMI_TYPE_ID_ADDITIONAL_INFO"
    using Cons.prems by (simp_all add: step dmi_entity_is_decoded_def)
  from Cons.IH [OF this] show ?case by (simp add: attach_all_def step)
qed (simp add: attach_all_def)

section \<open>Choosing a specification\<close>

text \<open>
  What a signature asks of a structure, without the marks and errors the matching leaves.
\<close>

definition signature_holds :: "'i dmi_entity \<Rightarrow> dmi_signature \<Rightarrow> bool" where
  "signature_holds e sg \<longleftrightarrow>
     (sg_length sg \<noteq> 0 \<longrightarrow> en_body_length e = sg_length sg) \<and>
     (\<forall>bytes. sg_bytes sg = Some bytes \<longrightarrow>
        sg_offset sg + length bytes \<le> en_body_length e \<and>
        dmi_buffer_at (dmi_entity_buffer e) (of_nat (dmi_entity_offset e + sg_offset sg)) (size_of bytes) = Some bytes) \<and>
     (sg_string sg \<noteq> 0 \<longrightarrow> sg_string sg \<le> en_string_count e \<and>
        sg_text sg = Some (se_raw (en_strings e ! (sg_string sg - 1)))) \<and>
     (sg_no_strings sg \<longrightarrow> en_string_count e = 0)"

text \<open>Structures which differ only in which of their strings have been used.\<close>

definition same_but_used :: "'i dmi_entity \<Rightarrow> 'i dmi_entity \<Rightarrow> bool" where
  "same_but_used e e' \<longleftrightarrow> e' = e\<lparr>en_strings := en_strings e'\<rparr> \<and> map se_raw (en_strings e') = map se_raw (en_strings e) \<and>
     map se_pretty (en_strings e') = map se_pretty (en_strings e)"

lemma string_ex_cases:
  assumes "en_string_count e = length (en_strings e)"
  shows "fst (dmi_entity_string_ex q e num raw) =
      (if num = 0 \<or> num > en_string_count e then None
       else Some ((if raw then se_raw else se_pretty) (en_strings e ! (num - 1))))"
    and "same_but_used e (fst (snd (dmi_entity_string_ex q e num raw)))"
proof -
  show "fst (dmi_entity_string_ex q e num raw) =
      (if num = 0 \<or> num > en_string_count e then None
       else Some ((if raw then se_raw else se_pretty) (en_strings e ! (num - 1))))"
    by (simp add: dmi_entity_string_ex_def Let_def)
  show "same_but_used e (fst (snd (dmi_entity_string_ex q e num raw)))"
    using assms
    by (auto simp: dmi_entity_string_ex_def Let_def same_but_used_def map_update list_update_same_conv)
qed

lemma same_but_used_refl [simp]: "same_but_used e e"
  by (simp add: same_but_used_def)

lemma same_but_used_trans: "same_but_used a b \<Longrightarrow> same_but_used b c \<Longrightarrow> same_but_used a c"
  by (simp add: same_but_used_def) (metis dmi_entity.update_convs(9) dmi_entity.surjective dmi_entity.select_convs(9))

lemma same_but_used_fields:
  assumes "same_but_used e e'"
  shows "en_type_id e' = en_type_id e" and "en_body_length e' = en_body_length e"
    and "en_string_count e' = en_string_count e" and "dmi_entity_buffer e' = dmi_entity_buffer e"
    and "dmi_entity_offset e' = dmi_entity_offset e" and "length (en_strings e') = length (en_strings e)"
    and "map se_raw (en_strings e') = map se_raw (en_strings e)"
proof -
  have e': "e' = e\<lparr>en_strings := en_strings e'\<rparr>" and raw: "map se_raw (en_strings e') = map se_raw (en_strings e)"
    using assms by (simp_all add: same_but_used_def)
  show "map se_raw (en_strings e') = map se_raw (en_strings e)" by (rule raw)
  then show "length (en_strings e') = length (en_strings e)" by (metis length_map)
  show "en_type_id e' = en_type_id e" "en_body_length e' = en_body_length e" "en_string_count e' = en_string_count e"
    "dmi_entity_buffer e' = dmi_entity_buffer e" "dmi_entity_offset e' = dmi_entity_offset e"
    by (subst e'; simp add: dmi_entity_buffer_def dmi_entity_offset_def split: option.split)+
qed

lemma same_raw_nth:
  "same_but_used e e' \<Longrightarrow> i < length (en_strings e) \<Longrightarrow> se_raw (en_strings e' ! i) = se_raw (en_strings e ! i)"
  using same_but_used_fields(6,7) [of e e'] by (metis nth_map)

lemma signature_holds_same:
  assumes "same_but_used e e'" and "en_string_count e = length (en_strings e)"
  shows "signature_holds e' sg = signature_holds e sg"
proof -
  have "sg_string sg \<noteq> 0 \<and> sg_string sg \<le> en_string_count e \<Longrightarrow>
      se_raw (en_strings e' ! (sg_string sg - 1)) = se_raw (en_strings e ! (sg_string sg - 1))"
    using same_raw_nth [OF assms(1), of "sg_string sg - 1"] assms(2) by auto
  then show ?thesis
    by (auto simp: signature_holds_def same_but_used_fields [OF assms(1)])
qed

lemma signature_match_correct:
  assumes "en_string_count e = length (en_strings e)"
  shows "fst (dmi_entity_signature_match q e signature) = (case signature of None \<Rightarrow> False | Some sg \<Rightarrow> signature_holds e sg)"
    and "same_but_used e (fst (snd (dmi_entity_signature_match q e signature)))"
proof -
  have text_part: "fst (dmi_entity_string_ex q e (sg_string sg) True) \<noteq> None \<and> sg_text sg \<noteq> None \<and>
      fst (dmi_entity_string_ex q e (sg_string sg) True) = sg_text sg \<longleftrightarrow>
      sg_string sg \<le> en_string_count e \<and> sg_text sg = Some (se_raw (en_strings e ! (sg_string sg - 1)))"
    if "sg_string sg \<noteq> 0" for sg
    using that string_ex_cases(1) [OF assms, of q "sg_string sg" True] by auto
  define t e1 q1 where "t n = fst (dmi_entity_string_ex q e n True)"
    and "e1 n = fst (snd (dmi_entity_string_ex q e n True))"
    and "q1 n = snd (snd (dmi_entity_string_ex q e n True))" for n
  then have s: "dmi_entity_string_ex q e n True = (t n, e1 n, q1 n)" for n by simp
  have same: "same_but_used e (e1 n)" for n
    using string_ex_cases(2) [OF assms, of q n True] s [of n] by simp
  have count: "en_string_count (e1 n) = en_string_count e" for n by (rule same_but_used_fields(3) [OF same])
  show "fst (dmi_entity_signature_match q e signature) = (case signature of None \<Rightarrow> False | Some sg \<Rightarrow> signature_holds e sg)"
  proof (cases signature)
    case (Some sg)
    show ?thesis
      using text_part [of sg]
      by (cases "sg_string sg = 0"; cases "sg_bytes sg")
        (auto simp: Some dmi_entity_signature_match_def signature_holds_def s count not_le)
  qed (simp add: dmi_entity_signature_match_def)
  show "same_but_used e (fst (snd (dmi_entity_signature_match q e signature)))"
  proof (cases signature)
    case (Some sg)
    show ?thesis using same [of "sg_string sg"] by (auto simp: Some dmi_entity_signature_match_def s Let_def)
  qed (simp add: dmi_entity_signature_match_def)
qed

text \<open>The specifications listed before the first gap.\<close>

fun listed :: "'a option list \<Rightarrow> 'a list" where
  "listed [] = []"
| "listed (None # xs) = []"
| "listed (Some x # xs) = x # listed xs"

definition spec_matches :: "'i dmi_entity \<Rightarrow> dmi_entity_spec \<Rightarrow> bool" where
  "spec_matches e spec \<longleftrightarrow> (case ep_signature (sp_params spec) of None \<Rightarrow> False | Some sg \<Rightarrow> signature_holds e sg)"

lemma spec_select_loop_find:
  "en_string_count e = length (en_strings e) \<Longrightarrow>
    fst (spec_select_loop q e candidates) = find (spec_matches e) (listed candidates) \<and>
    same_but_used e (fst (snd (spec_select_loop q e candidates)))"
proof (induction q e candidates rule: spec_select_loop.induct)
  case (3 q e spec candidates)
  obtain m e1 q1 where s: "dmi_entity_signature_match q e (ep_signature (sp_params spec)) = (m, e1, q1)"
    by (metis prod_cases3)
  have m: "m = spec_matches e spec" and same: "same_but_used e e1"
    using signature_match_correct [OF 3(2), of q "ep_signature (sp_params spec)"] by (simp_all add: s spec_matches_def)
  have count: "en_string_count e1 = length (en_strings e1)"
    using 3(2) same_but_used_fields(3,6) [OF same] by simp
  have matches: "spec_matches e1 = spec_matches e"
    using signature_holds_same [OF same 3(2)] by (auto simp: fun_eq_iff spec_matches_def split: option.splits)
  show ?case
  proof (cases m)
    case True
    then show ?thesis using m same by (simp add: s)
  next
    case False
    from 3(1) [OF s [symmetric]] False count
    have "fst (spec_select_loop q1 e1 candidates) = find (spec_matches e1) (listed candidates) \<and>
        same_but_used e1 (fst (snd (spec_select_loop q1 e1 candidates)))" by simp
    then show ?thesis using False m same_but_used_trans [OF same] by (simp add: s matches)
  qed
qed simp_all

section \<open>Properties\<close>

text \<open>
  C3. A structure which has been created lies within its buffer as a whole: a formatted area of
  the length the header declares, and behind it the string set, which ends at the first pair of
  zeros. Its strings, each with its terminator, and the zero after the last one are that set byte
  for byte, unless the set begins with a zero, and then there are none; the trimmed text of each
  is the raw one without white space at its ends.
\<close>

theorem entity_create_sound:
  assumes "buffer_wf b" and "dmi_entity_create mem q b off = (Some e, q')"
  shows "entity_in_buffer e \<and> en_buffer e = b \<and> en_offset e = off \<and> q' = q \<and>
    en_offset e + en_body_length e + en_extra_length e \<le> length (buffer_bytes b) \<and>
    en_body_length e = (if buffer_bytes b ! (off + 1) = 0 then 4 else unat (buffer_bytes b ! (off + 1))) \<and>
    (entity_strings_set e ! 0 \<noteq> 0 \<longrightarrow> print_strings (map se_raw (en_strings e)) = entity_strings_set e) \<and>
    (\<forall>entry\<in>set (en_strings e). is_text (se_raw entry) \<and> se_pretty entry = dmi_entity_string_trim (se_raw entry))"
proof -
  note c = entity_create_some [OF assms]
  show ?thesis
    using c(1-4,10,11) by (auto simp: entity_in_buffer_def list_all_iff split: if_splits)
qed

definition example_table :: dmi_buffer where
  "example_table =
    \<lparr>buf_id = 0, buf_data = Some [1, 6, 0x34, 0x12, 1, 2, 65, 66, 0, 67, 0, 0, 127, 4, 0, 0, 0, 0],
     buf_length = 18, buf_capacity = 18\<rparr>"

lemma example_table_wf: "buffer_wf example_table"
  by (simp add: buffer_wf_def example_table_def buf_memory_def)

lemma example_table_bytes:
  "buffer_bytes example_table = [1, 6, 0x34, 0x12, 1, 2, 65, 66, 0, 67, 0, 0, 127, 4, 0, 0, 0, 0]"
  by (simp add: buffer_bytes_def example_table_def buf_memory_def)

lemma example_table_created: "\<exists>e. dmi_entity_create (\<lambda>i. True) q example_table 0 = (Some e, q)"
proof -
  have "\<exists>p < length (buffer_bytes example_table). double_zero (drop 6 (buffer_bytes example_table)) p"
    by (intro exI [of _ 4]) (simp add: double_zero_def example_table_bytes)
  then have "entity_fault (drop 0 (buffer_bytes example_table)) = None"
    unfolding entity_fault_def by (simp add: Let_def example_table_bytes)
  then show ?thesis
    using entity_create_outcome [OF example_table_wf, of "\<lambda>i. True" q 0] by simp
qed

lemma example_table_entity:
  assumes "dmi_entity_create (\<lambda>i. True) q example_table 0 = (Some e, q)"
  shows "en_body_length e = 6" and "en_type_id e = 1" and "\<not> dmi_entity_is_decoded e"
    and "entity_body e = [1, 6, 0x34, 0x12, 1, 2]"
  using entity_create_some(3,4,6,9,10) [OF example_table_wf assms]
  by (simp_all add: entity_body_def dmi_entity_is_decoded_def example_table_bytes)

theorem entity_create_sound_witness:
  "\<exists>e. dmi_entity_create (\<lambda>i. True) empty_queue example_table 0 = (Some (e :: nat dmi_entity), empty_queue) \<and>
    en_body_length e = 6"
proof -
  obtain e :: "nat dmi_entity" where e: "dmi_entity_create (\<lambda>i. True) empty_queue example_table 0 = (Some e, empty_queue)"
    using example_table_created by blast
  then show ?thesis using entity_create_sound [OF example_table_wf e] by (auto simp: example_table_bytes)
qed

text \<open>
  C25. With memory to be had, whether the bytes at an offset are a structure depends on them
  alone, and so does the error which is raised when they are not: they are truncated if there
  are fewer than six of them, if the header declares more than there are or if no pair of zeros
  ends the strings, and of invalid length if the header declares a length of one to three.
\<close>

theorem entity_create_decides:
  assumes "buffer_wf b" and "\<forall>i. mem i"
  shows "case entity_fault (drop off (buffer_bytes b)) of
      Some reason \<Rightarrow> dmi_entity_create mem q b off = (None, raise_error q reason)
    | None \<Rightarrow> (\<exists>e. dmi_entity_create mem q b off = (Some e, q))"
  by (rule entity_create_outcome [OF assms])

theorem entity_create_decides_witness:
  "dmi_entity_create (\<lambda>i. True) empty_queue example_table 13 =
    (None, raise_error empty_queue DMI_ERROR_ENTITY_TRUNCATED)"
  using entity_create_decides [OF example_table_wf, of "\<lambda>i. True" empty_queue 13]
  by (simp add: entity_fault_def example_table_bytes)

text \<open>
  Additional information attached to a structure which has not been decoded and decoded
  with it: of the entries the ones are kept which lie in the formatted area behind the header,
  and the data which is decoded is the formatted area with these laid over it in order, so that
  a later one takes precedence; its length and the header stay as they are.
\<close>

theorem overlays_applied:
  assumes "entity_in_buffer e" and "\<not> dmi_entity_is_decoded e" and "en_type_id e \<noteq> DMI_TYPE_ID_ADDITIONAL_INFO"
    and "en_overlays e = []" and "generous h"
  shows "\<exists>overlay. dmi_entity_apply_overlays True h addr q (attach_all q e entries) =
      (True, (attach_all q e entries)\<lparr>en_overlay := Some overlay\<rparr>, q) \<and>
    buffer_bytes overlay = overlaid (entity_body e) (filter (overlay_fits (en_body_length e)) entries) \<and>
    length (buffer_bytes overlay) = en_body_length e \<and> take 4 (buffer_bytes overlay) = take 4 (entity_body e)"
proof -
  let ?kept = "filter (overlay_fits (en_body_length e)) entries"
  have a: "attach_all q e entries = e\<lparr>en_overlays := ?kept\<rparr>"
    using attach_all_fits [OF assms(2,3), of q entries] assms(4) by simp
  have in_buf: "entity_in_buffer (e\<lparr>en_overlays := ?kept\<rparr>)"
    using assms(1) by (simp add: entity_in_buffer_def entity_strings_set_def)
  have fits: "list_all (overlay_fits (en_body_length e)) ?kept" by (simp add: list_all_iff)
  have body: "entity_body (e\<lparr>en_overlays := ?kept\<rparr>) = entity_body e" by (simp add: entity_body_def)
  have len: "length (entity_body e) = en_body_length e" by (rule entity_body_at(2) [OF assms(1)])
  from apply_overlays_correct [OF in_buf _ assms(5), of addr q] fits obtain overlay where
    o': "dmi_entity_apply_overlays True h addr q (e\<lparr>en_overlays := ?kept\<rparr>) =
        (True, e\<lparr>en_overlays := ?kept, en_overlay := Some overlay\<rparr>, q)"
      "buffer_bytes overlay = overlaid (entity_body e) ?kept" by (auto simp: body)
  then show ?thesis using length_overlaid [of "entity_body e" ?kept] take_overlaid [of "entity_body e" ?kept] fits len
    by (auto simp: a)
qed

theorem overlays_applied_witness:
  "\<exists>e e' overlay. dmi_entity_create (\<lambda>i. True) empty_queue example_table 0 = (Some (e :: nat dmi_entity), empty_queue) \<and>
    dmi_entity_apply_overlays True (\<lambda>n. Some (\<lambda>i. 0)) 9 empty_queue
      (attach_all empty_queue e [\<lparr>ov_source = 5, ov_index = 0, ov_referenced_offset = 4, ov_value = [7]\<rparr>,
        \<lparr>ov_source = 5, ov_index = 1, ov_referenced_offset = 2, ov_value = [9]\<rparr>]) = (True, e', empty_queue) \<and>
    en_overlay e' = Some overlay \<and> buffer_bytes overlay = [1, 6, 0x34, 0x12, 7, 2]"
proof -
  let ?entries = "[\<lparr>ov_source = 5, ov_index = 0, ov_referenced_offset = 4, ov_value = [7]\<rparr>,
        \<lparr>ov_source = 5, ov_index = 1, ov_referenced_offset = 2, ov_value = [9]\<rparr>]"
  obtain e :: "nat dmi_entity" where e: "dmi_entity_create (\<lambda>i. True) empty_queue example_table 0 = (Some e, empty_queue)"
    using example_table_created by blast
  note c = entity_create_some [OF example_table_wf e] and x = example_table_entity [OF e]
  have "en_type_id e \<noteq> DMI_TYPE_ID_ADDITIONAL_INFO" using x(2) by (simp add: DMI_TYPE_ID_ADDITIONAL_INFO_def)
  moreover have "generous (\<lambda>n. Some (\<lambda>i. 0))" by (simp add: generous_def)
  ultimately obtain overlay where o': "dmi_entity_apply_overlays True (\<lambda>n. Some (\<lambda>i. 0)) 9 empty_queue (attach_all empty_queue e ?entries) =
      (True, (attach_all empty_queue e ?entries)\<lparr>en_overlay := Some overlay\<rparr>, empty_queue)"
    "buffer_bytes overlay = overlaid (entity_body e) (filter (overlay_fits (en_body_length e)) ?entries)"
    using overlays_applied [OF c(2) x(3) _ c(7), of "\<lambda>n. Some (\<lambda>i. 0)" 9 empty_queue ?entries] by blast
  have "overlaid (entity_body e) (filter (overlay_fits (en_body_length e)) ?entries) = [1, 6, 0x34, 0x12, 7, 2]"
    by (simp add: x overlay_fits_def overlaid_def patch_def)
  with o'(2) have bytes: "buffer_bytes overlay = [1, 6, 0x34, 0x12, 7, 2]" by (simp only:)
  have "en_overlay ((attach_all empty_queue e ?entries)\<lparr>en_overlay := Some overlay\<rparr>) = Some overlay" by simp
  with e o'(1) bytes show ?thesis by blast
qed

text \<open>
  A structure is decoded by the first specification listed for its type whose signature it
  matches, and by the one listed without a signature if it matches none; types out of range have
  none. Choosing changes nothing of the structure but which of its strings count as used.
\<close>

theorem spec_select_first_match:
  assumes "en_string_count e = length (en_strings e)"
  shows "fst (dmi_entity_spec_select type_map q e) =
      (if en_type_id e \<le> -1 \<or> en_type_id e > 255 then None
       else (case find (spec_matches e) (listed (take 3 (drop 1 (type_map (en_type_id e))))) of
               Some spec \<Rightarrow> Some spec | None \<Rightarrow> type_map (en_type_id e) ! 0)) \<and>
    same_but_used e (fst (snd (dmi_entity_spec_select type_map q e)))"
  using spec_select_loop_find [OF assms, of q "take 3 (drop 1 (type_map (en_type_id e)))"]
  by (auto simp: dmi_entity_spec_select_def DMI_TYPE_ID_INVALID_def DMI_TYPE_ID_MAX_def DMI_TYPE_CANDIDATES_def
      Let_def split: prod.splits option.splits)

theorem spec_select_first_match_witness:
  "\<exists>e. dmi_entity_create (\<lambda>i. True) empty_queue example_table 0 = (Some (e :: nat dmi_entity), empty_queue) \<and>
    fst (dmi_entity_spec_select (\<lambda>t. [None, None, None, None]) empty_queue e) = None"
proof -
  obtain e :: "nat dmi_entity" where e: "dmi_entity_create (\<lambda>i. True) empty_queue example_table 0 = (Some e, empty_queue)"
    using example_table_created by blast
  then have "entity_in_buffer e" by (rule entity_create_some(2) [OF example_table_wf])
  then have "en_string_count e = length (en_strings e)" by (simp add: entity_in_buffer_def)
  from spec_select_first_match [OF this, of "\<lambda>t. [None, None, None, None]" empty_queue] e show ?thesis by auto
qed

end
