(* ===== verification/Decoder.thy ===== *)
theory Decoder
  imports Entity
begin

text \<open>
  The decoder (\<^verbatim>\<open>src/decoder.c\<close>), which reads one structure through a reader of its own and knows
  what the bytes refer to, and the decoding of a structure (\<open>dmi_entity_decode\<close> of
  \<^verbatim>\<open>src/entity.c\<close>). A decoder holds the structure it decodes by value: the structure as the
  decoding leaves it is the one the decoder holds at the end. The handlers of a specification
  are parameters; \<open>decoder_step\<close> is what the interface of the decoder lets them do.
\<close>

record 'i dmi_decoder =
  dc_entity :: "'i dmi_entity"
  dc_reader :: dmi_reader

definition dmi_decoder_initialize :: "'i dmi_entity \<Rightarrow> 'i dmi_decoder result" where
  "dmi_decoder_initialize e =
    (case dmi_reader_initialize (dmi_entity_buffer e) (of_nat (dmi_entity_offset e)) (of_nat (en_body_length e)) of
       Inl f \<Rightarrow> Inl f
     | Inr r \<Rightarrow>
         (case dmi_reader_seek r 4 of
            Inl f \<Rightarrow> Inl f
          | Inr r \<Rightarrow> Inr \<lparr>dc_entity = e, dc_reader = r\<rparr>))"

definition dmi_decoder_get_bytes :: "'i dmi_decoder \<Rightarrow> size_t \<Rightarrow> (byte list \<times> 'i dmi_decoder) result" where
  "dmi_decoder_get_bytes d length' =
    (case dmi_reader_get_bytes (dc_reader d) length' of
       Inl f \<Rightarrow> Inl f
     | Inr (bs, r) \<Rightarrow> Inr (bs, d\<lparr>dc_reader := r\<rparr>))"

definition dmi_decoder_get_bytes_at :: "'i dmi_decoder \<Rightarrow> size_t \<Rightarrow> size_t \<Rightarrow> byte list result" where
  "dmi_decoder_get_bytes_at d offset length' = dmi_reader_get_bytes_at (dc_reader d) offset length'"

text \<open>
  \<open>dmi_decoder_get\<close> and the macros like it, for a type of \<open>width\<close> bytes and the conversion of
  its bytes.
\<close>

definition dmi_decoder_get :: "(byte list \<Rightarrow> 'v) \<Rightarrow> 'i dmi_decoder \<Rightarrow> size_t \<Rightarrow> ('v \<times> 'i dmi_decoder) result" where
  "dmi_decoder_get convert d width =
    (case dmi_decoder_get_bytes d width of
       Inl f \<Rightarrow> Inl f
     | Inr (bs, d) \<Rightarrow> Inr (convert bs, d))"

definition dmi_decoder_get_string ::
    "dmi_error_queue \<Rightarrow> 'i dmi_decoder \<Rightarrow> byte list option result \<times> 'i dmi_decoder \<times> dmi_error_queue" where
  "dmi_decoder_get_string q d =
    (case dmi_decoder_get (\<lambda>bs. unat (load_word bs :: byte)) d 1 of
       Inl f \<Rightarrow> (Inl f, d, q)
     | Inr (number, d) \<Rightarrow>
         (case dmi_entity_string_ex q (dc_entity d) number False of
            (value, e, q) \<Rightarrow> (Inr value, d\<lparr>dc_entity := e\<rparr>, q)))"

definition dmi_decoder_get_binary :: "'i dmi_decoder \<Rightarrow> size_t \<Rightarrow> ((byte list option \<times> size_t) \<times> 'i dmi_decoder) result" where
  "dmi_decoder_get_binary d length' =
    (case dmi_reader_ref_bytes (dc_reader d) length' of
       Inl f \<Rightarrow> Inl f
     | Inr (data, r) \<Rightarrow> Inr ((data, length'), d\<lparr>dc_reader := r\<rparr>))"

definition dmi_decoder_skip :: "'i dmi_decoder \<Rightarrow> size_t \<Rightarrow> 'i dmi_decoder result" where
  "dmi_decoder_skip d length' =
    (case dmi_reader_skip (dc_reader d) length' of
       Inl f \<Rightarrow> Inl f
     | Inr r \<Rightarrow> Inr (d\<lparr>dc_reader := r\<rparr>))"

definition dmi_decoder_remaining :: "'i dmi_decoder \<Rightarrow> size_t" where
  "dmi_decoder_remaining d = dmi_reader_remaining (dc_reader d)"

text \<open>The log message of an incomplete structure is left out.\<close>

definition dmi_decoder_incomplete :: "'i dmi_decoder \<Rightarrow> 'i dmi_decoder" where
  "dmi_decoder_incomplete d =
    d\<lparr>dc_entity := (dc_entity d)\<lparr>en_state := en_state (dc_entity d) OR DMI_ENTITY_STATE_INCOMPLETE\<rparr>\<rparr>"

definition dmi_decoder_stop :: "'i dmi_decoder \<Rightarrow> 'i dmi_decoder" where
  "dmi_decoder_stop d =
    (if \<not> dmi_reader_is_done (dc_reader d) then dmi_decoder_incomplete d
     else d\<lparr>dc_entity := (dc_entity d)\<lparr>en_state := en_state (dc_entity d) OR DMI_ENTITY_STATE_PARTIAL\<rparr>\<rparr>)"

section \<open>Decoding a structure\<close>

type_synonym 'i dmi_entity_decode_fn = "dmi_error_queue \<Rightarrow> 'i dmi_decoder \<Rightarrow> bool \<times> 'i dmi_decoder \<times> dmi_error_queue"

text \<open>
  The handlers of the specifications, \<open>dmi_fields_decode\<close> for the ones which list their fields,
  and the descriptor as it is allocated, filled with zeros.
\<close>

record 'i dmi_entity_ops =
  eo_decode :: "dmi_entity_spec \<Rightarrow> 'i dmi_entity_decode_fn"
  eo_derive :: "dmi_entity_spec \<Rightarrow> dmi_error_queue \<Rightarrow> 'i dmi_entity \<Rightarrow> bool \<times> 'i dmi_entity \<times> dmi_error_queue"
  eo_fields_decode :: "'i dmi_entity_decode_fn"
  eo_blank :: "dmi_entity_spec \<Rightarrow> 'i"

text \<open>
  \<open>mem 0\<close> tells whether there is memory for the descriptor of the copy, \<open>mem 1\<close> for the
  descriptor of the information. What releasing the information frees is left out.
\<close>

definition dmi_entity_decode ::
    "'i dmi_entity_ops \<Rightarrow> (nat \<Rightarrow> bool) \<Rightarrow> heap \<Rightarrow> nat \<Rightarrow> dmi_type_map \<Rightarrow> dmi_error_queue \<Rightarrow> 'i dmi_entity
      \<Rightarrow> bool \<times> 'i dmi_entity \<times> dmi_error_queue" where
  "dmi_entity_decode ops mem h addr type_map q e =
    (if dmi_entity_is_decoded e then (True, e, q)
     else
       (case dmi_entity_spec_select type_map q e of
          (None, e, q) \<Rightarrow> (True, e, q)
        | (Some spec, e, q) \<Rightarrow>
            let e = e\<lparr>en_spec := Some spec\<rparr> in
            if ep_minimum_length (sp_params spec) \<noteq> 0 \<and> en_body_length e < ep_minimum_length (sp_params spec)
            then (False, e, raise_error q DMI_ERROR_ENTITY_LENGTH_INVALID)
            else
              let e = e\<lparr>en_level := ep_minimum_version (sp_params spec)\<rparr> in
              if \<not> sp_has_decode spec \<and> \<not> sp_has_fields spec then (True, e, q)
              else
                let decode = (if sp_has_decode spec then eo_decode ops spec else eo_fields_decode ops);
                    (ready, e, q) =
                      (if en_overlays e \<noteq> [] \<and> en_overlay e = None
                       then dmi_entity_apply_overlays (mem 0) h addr q e else (True, e, q))
                in if \<not> ready then (False, e, q)
                   else if \<not> mem 1 then (False, e\<lparr>en_info := None\<rparr>, raise_error q DMI_ERROR_OUT_OF_MEMORY)
                   else
                     let e = e\<lparr>en_info := Some (eo_blank ops spec)\<rparr>;
                         (status, e, q) =
                           (case dmi_decoder_initialize e of
                              Inl f \<Rightarrow> (False, e, q)
                            | Inr d \<Rightarrow> (case decode q d of (status, d, q) \<Rightarrow> (status, dc_entity d, q)));
                         (status, e, q) =
                           (if status \<and> sp_has_derive spec then eo_derive ops spec q e else (status, e, q))
                     in if status then (True, e\<lparr>en_state := en_state e OR DMI_ENTITY_STATE_DECODED\<rparr>, q)
                        else
                          let last_error = dmi_error_peek_last q;
                              q = (if last_error = None \<or> err_reason (the last_error) \<noteq> DMI_ERROR_OUT_OF_MEMORY
                                   then raise_error q DMI_ERROR_ENTITY_DECODE_FAILED else q)
                          in (False, e\<lparr>en_info := None, en_level := 0\<rparr>, q)))"

section \<open>What a handler can do with a decoder\<close>

text \<open>
  The steps of the interface, with the queue of the context: reading, whether it succeeds or
  not, moving within the data, ending early, filling the information in, telling its version and raising errors.
\<close>

inductive decoder_step :: "dmi_error_queue \<times> 'i dmi_decoder \<Rightarrow> dmi_error_queue \<times> 'i dmi_decoder \<Rightarrow> bool" where
  step_bytes: "dmi_decoder_get_bytes d n = Inr (bs, d') \<Longrightarrow> decoder_step (q, d) (q, d')"
| step_string: "dmi_decoder_get_string q d = (value, d', q') \<Longrightarrow> decoder_step (q, d) (q', d')"
| step_binary: "dmi_decoder_get_binary d n = Inr (value, d') \<Longrightarrow> decoder_step (q, d) (q, d')"
| step_skip: "dmi_decoder_skip d n = Inr d' \<Longrightarrow> decoder_step (q, d) (q, d')"
| step_skip_ex: "dmi_reader_skip_ex (dc_reader d) m n = Inr r \<Longrightarrow> decoder_step (q, d) (q, d\<lparr>dc_reader := r\<rparr>)"
| step_incomplete: "decoder_step (q, d) (q, dmi_decoder_incomplete d)"
| step_stop: "decoder_step (q, d) (q, dmi_decoder_stop d)"
| step_info: "decoder_step (q, d) (q, d\<lparr>dc_entity := (dc_entity d)\<lparr>en_info := Some i\<rparr>\<rparr>)"
| step_level: "decoder_step (q, d) (q, d\<lparr>dc_entity := (dc_entity d)\<lparr>en_level := v\<rparr>\<rparr>)"
| step_error: "decoder_step (q, d) (raise_error q reason, d)"

inductive_cases decoder_stepE: "decoder_step (q, d) (q', d')"

abbreviation decoder_reach :: "dmi_error_queue \<times> 'i dmi_decoder \<Rightarrow> dmi_error_queue \<times> 'i dmi_decoder \<Rightarrow> bool" where
  "decoder_reach \<equiv> decoder_step\<^sup>*\<^sup>*"

text \<open>
  What the decoding leaves of a structure: everything but the marks of its strings, the
  information, the version of the specification it is of, and the two states which say that the data ended early.
\<close>

definition kept_states :: "32 word" where
  "kept_states = NOT (DMI_ENTITY_STATE_INCOMPLETE OR DMI_ENTITY_STATE_PARTIAL)"

definition decoding_frame :: "'i dmi_entity \<Rightarrow> 'i dmi_entity \<Rightarrow> bool" where
  "decoding_frame e e' \<longleftrightarrow>
     e' = e\<lparr>en_strings := en_strings e', en_info := en_info e', en_level := en_level e', en_state := en_state e'\<rparr> \<and>
     map se_raw (en_strings e') = map se_raw (en_strings e) \<and>
     map se_pretty (en_strings e') = map se_pretty (en_strings e) \<and>
     (en_info e \<noteq> None \<longrightarrow> en_info e' \<noteq> None) \<and>
     en_state e' AND kept_states = en_state e AND kept_states"

lemma decoding_frame_refl [simp]: "decoding_frame e e"
  by (simp add: decoding_frame_def)

lemma decoding_frame_trans: "decoding_frame a b \<Longrightarrow> decoding_frame b c \<Longrightarrow> decoding_frame a c"
  unfolding decoding_frame_def by (cases a; cases b; cases c) auto

lemma decoding_frame_same_but_used: "same_but_used e e' \<Longrightarrow> decoding_frame e e'"
  unfolding decoding_frame_def same_but_used_def by (cases e; cases e') auto

lemma decoding_frame_decoded:
  assumes "decoding_frame e e'"
  shows "dmi_entity_is_decoded e' = dmi_entity_is_decoded e"
proof -
  have mask: "(x AND kept_states) AND DMI_ENTITY_STATE_DECODED = x AND DMI_ENTITY_STATE_DECODED" for x
    by (simp add: and.assoc kept_states_def DMI_ENTITY_STATE_INCOMPLETE_def DMI_ENTITY_STATE_PARTIAL_def DMI_ENTITY_STATE_DECODED_def)
  show ?thesis
    using assms mask [of "en_state e"] mask [of "en_state e'"]
    by (metis decoding_frame_def dmi_entity_is_decoded_def)
qed

lemma decoding_frame_fields:
  assumes "decoding_frame e e'"
  shows "en_string_count e' = en_string_count e" and "length (en_strings e') = length (en_strings e)"
    and "en_body_length e' = en_body_length e" and "dmi_entity_buffer e' = dmi_entity_buffer e"
    and "dmi_entity_offset e' = dmi_entity_offset e" and "en_spec e' = en_spec e"
proof -
  have e': "e' = e\<lparr>en_strings := en_strings e', en_info := en_info e', en_level := en_level e', en_state := en_state e'\<rparr>"
    and raw: "map se_raw (en_strings e') = map se_raw (en_strings e)"
    using assms by (simp_all add: decoding_frame_def)
  show "length (en_strings e') = length (en_strings e)" using raw by (metis length_map)
  show "en_string_count e' = en_string_count e" "en_body_length e' = en_body_length e"
    "dmi_entity_buffer e' = dmi_entity_buffer e" "dmi_entity_offset e' = dmi_entity_offset e"
    "en_spec e' = en_spec e"
    by (subst e'; simp add: dmi_entity_buffer_def dmi_entity_offset_def split: option.split)+
qed

lemma or_kept:
  "(s OR DMI_ENTITY_STATE_INCOMPLETE) AND kept_states = s AND kept_states"
  "(s OR DMI_ENTITY_STATE_PARTIAL) AND kept_states = s AND kept_states"
  by (auto simp: bit_eq_iff bit_simps kept_states_def)

text \<open>One step keeps the frame, the range of the reader and the ring of errors.\<close>

definition decoder_keeps :: "'i dmi_decoder \<Rightarrow> 'i dmi_decoder \<Rightarrow> bool" where
  "decoder_keeps d d' \<longleftrightarrow> decoding_frame (dc_entity d) (dc_entity d') \<and>
     rd_buffer (dc_reader d') = rd_buffer (dc_reader d) \<and> rd_base (dc_reader d') = rd_base (dc_reader d) \<and>
     rd_length (dc_reader d') = rd_length (dc_reader d) \<and> (reader_wf (dc_reader d) \<longrightarrow> reader_wf (dc_reader d'))"

lemma decoder_keeps_refl [simp]: "decoder_keeps d d"
  by (simp add: decoder_keeps_def)

lemma decoder_keeps_trans: "decoder_keeps a b \<Longrightarrow> decoder_keeps b c \<Longrightarrow> decoder_keeps a c"
  by (auto simp: decoder_keeps_def intro: decoding_frame_trans)

lemma decoder_keeps_reader:
  assumes "reader_wf (dc_reader d) \<Longrightarrow> reader_wf r"
    and "rd_buffer r = rd_buffer (dc_reader d)" "rd_base r = rd_base (dc_reader d)" "rd_length r = rd_length (dc_reader d)"
  shows "decoder_keeps d (d\<lparr>dc_reader := r\<rparr>)"
  using assms by (simp add: decoder_keeps_def)

lemma reader_move_fields:
  "dmi_reader_get_bytes r n = Inr (bs, r') \<Longrightarrow> r' = r\<lparr>rd_position := rd_position r'\<rparr>"
  "dmi_reader_ref_bytes r n = Inr (p, r') \<Longrightarrow> r' = r\<lparr>rd_position := rd_position r'\<rparr>"
  "dmi_reader_skip r n = Inr r' \<Longrightarrow> r' = r\<lparr>rd_position := rd_position r'\<rparr>"
  "dmi_reader_skip_ex r m n = Inr r' \<Longrightarrow> r' = r\<lparr>rd_position := rd_position r'\<rparr>"
  by (auto simp: dmi_reader_get_bytes_def dmi_reader_ref_bytes_def dmi_reader_skip_def dmi_reader_advance_def
      dmi_reader_skip_ex_def Let_def split: sum.splits if_splits)

lemma reader_move_range:
  assumes "r' = r\<lparr>rd_position := rd_position r'\<rparr>"
  shows "rd_buffer r' = rd_buffer r" and "rd_base r' = rd_base r" and "rd_length r' = rd_length r"
  by (subst assms; simp)+

lemma early_end_keeps: "decoder_keeps d (dmi_decoder_incomplete d)" "decoder_keeps d (dmi_decoder_stop d)"
  by (simp_all add: dmi_decoder_stop_def dmi_decoder_incomplete_def decoder_keeps_def decoding_frame_def or_kept)

lemma get_bytes_keeps:
  assumes "dmi_decoder_get_bytes d n = Inr (bs, d')"
  shows "decoder_keeps d d'"
proof -
  from assms obtain r where r: "dmi_reader_get_bytes (dc_reader d) n = Inr (bs, r)" and d': "d' = d\<lparr>dc_reader := r\<rparr>"
    by (auto simp: dmi_decoder_get_bytes_def split: sum.splits)
  show ?thesis unfolding d'
    using rd.get_success(3) [OF _ r] reader_move_range [OF reader_move_fields(1) [OF r]]
    by (intro decoder_keeps_reader)
qed

lemma get_string_keeps:
  assumes "dmi_decoder_get_string q d = (value, d', q')"
    and "en_string_count (dc_entity d) = length (en_strings (dc_entity d))"
  shows "decoder_keeps d d'"
proof (cases "dmi_decoder_get_bytes d 1")
  case (Inl f)
  then show ?thesis using assms by (simp add: dmi_decoder_get_string_def dmi_decoder_get_def)
next
  case (Inr p)
  obtain bs d1 where p: "p = (bs, d1)" by (cases p)
  let ?n = "unat (load_word bs :: byte)"
  note keeps = get_bytes_keeps [OF Inr [unfolded p]]
  have same: "dc_entity d1 = dc_entity d"
    using Inr p by (auto simp: dmi_decoder_get_bytes_def split: sum.splits)
  have "d' = d1\<lparr>dc_entity := fst (snd (dmi_entity_string_ex q (dc_entity d1) ?n False))\<rparr>"
    using assms(1) by (auto simp: dmi_decoder_get_string_def dmi_decoder_get_def Inr p split: prod.splits)
  then have "decoder_keeps d1 d'"
    using decoding_frame_same_but_used [OF string_ex_cases(2) [OF assms(2), of q ?n False]] same
    by (simp add: decoder_keeps_def)
  with keeps show ?thesis by (rule decoder_keeps_trans)
qed

lemma step_keeps:
  assumes "decoder_step (q, d) (q', d')" and "en_string_count (dc_entity d) = length (en_strings (dc_entity d))"
  shows "decoder_keeps d d'"
  using assms(1)
proof (cases rule: decoder_stepE [consumes 1])
  case (1 n bs)
  from get_bytes_keeps [OF 1(2)] show ?thesis .
next
  case (2 v)
  from get_string_keeps [OF 2 assms(2)] show ?thesis .
next
  case (3 n v)
  then obtain p r where r: "dmi_reader_ref_bytes (dc_reader d) n = Inr (p, r)" and d': "d' = d\<lparr>dc_reader := r\<rparr>"
    by (auto simp: dmi_decoder_get_binary_def split: sum.splits)
  show ?thesis unfolding d'
    using ref_bytes_correct(1) [OF _ r] reader_move_range [OF reader_move_fields(2) [OF r]]
    by (intro decoder_keeps_reader)
next
  case (4 n)
  then obtain r where r: "dmi_reader_skip (dc_reader d) n = Inr r" and d': "d' = d\<lparr>dc_reader := r\<rparr>"
    by (auto simp: dmi_decoder_skip_def split: sum.splits)
  show ?thesis unfolding d'
    using skip_correct(2) [OF _ r] reader_move_range [OF reader_move_fields(3) [OF r]]
    by (intro decoder_keeps_reader) simp_all
next
  case (5 m n r)
  have "dmi_reader_advance (dc_reader d) (rm_position m) n = Inr r"
    using 5 by (simp add: dmi_reader_skip_ex_def split: if_splits)
  from advance_wf(1) [OF _ this] show ?thesis
    unfolding 5(3) using reader_move_range [OF reader_move_fields(4) [OF 5(1)]]
    by (intro decoder_keeps_reader)
next
  case (8 i)
  then show ?thesis by (simp add: decoder_keeps_def decoding_frame_def)
next
  case (9 v)
  then show ?thesis by (simp add: decoder_keeps_def decoding_frame_def)
qed (simp_all add: early_end_keeps)

lemma reach_keeps:
  assumes "decoder_reach (q, d) (q', d')" and "en_string_count (dc_entity d) = length (en_strings (dc_entity d))"
  shows "decoder_keeps d d'"
  using assms(1)
proof (induction rule: rtranclp_induct2)
  case (step q1 d1 q2 d2)
  have frame: "decoding_frame (dc_entity d) (dc_entity d1)" using step.IH by (simp add: decoder_keeps_def)
  have "en_string_count (dc_entity d1) = length (en_strings (dc_entity d1))"
    using decoding_frame_fields(1,2) [OF frame] assms(2) by simp
  from step_keeps [OF step.hyps(2) this] step.IH show ?case by (blast intro: decoder_keeps_trans)
qed simp

section \<open>Errors of a decoding\<close>

definition last_reason :: "dmi_error_queue \<Rightarrow> dmi_error_code option" where
  "last_reason q = map_option err_reason (dmi_error_peek_last q)"

lemma raise_error_wf [simp]: "queue_wf q \<Longrightarrow> queue_wf (raise_error q reason)"
  by (simp add: raise_error_def elog.raise_wf)

lemma last_reason_raise [simp]: "queue_wf q \<Longrightarrow> last_reason (raise_error q reason) = Some reason"
  by (simp add: last_reason_def raise_error_def elog.raise_peek)

lemma string_ex_queue: "dmi_entity_string_ex q e num raw = (v, e', q') \<Longrightarrow> queue_wf q \<Longrightarrow> queue_wf q'"
  by (auto simp: dmi_entity_string_ex_def Let_def split: if_splits)

lemma get_string_queue: "dmi_decoder_get_string q d = (v, d', q') \<Longrightarrow> queue_wf q \<Longrightarrow> queue_wf q'"
  by (auto simp: dmi_decoder_get_string_def split: sum.splits prod.splits dest: string_ex_queue)

lemma step_queue: "decoder_step (q, d) (q', d') \<Longrightarrow> queue_wf q \<Longrightarrow> queue_wf q'"
  by (erule decoder_stepE) (auto dest: get_string_queue)

lemma reach_queue: "decoder_reach (q, d) (q', d') \<Longrightarrow> queue_wf q \<Longrightarrow> queue_wf q'"
  by (induction rule: rtranclp_induct2) (auto dest: step_queue)

lemma signature_match_queue: "queue_wf q \<Longrightarrow> queue_wf (snd (snd (dmi_entity_signature_match q e signature)))"
  by (auto simp: dmi_entity_signature_match_def Let_def split: option.split prod.split dest: string_ex_queue)

lemma spec_select_loop_queue: "queue_wf q \<Longrightarrow> queue_wf (snd (snd (spec_select_loop q e candidates)))"
proof (induction q e candidates rule: spec_select_loop.induct)
  case (3 q e spec candidates)
  then show ?case
    using signature_match_queue [of q e "ep_signature (sp_params spec)"]
    by (auto split: prod.split bool.split)
qed simp_all

lemma spec_select_queue: "queue_wf q \<Longrightarrow> queue_wf (snd (snd (dmi_entity_spec_select type_map q e)))"
  using spec_select_loop_queue [of q e "take (DMI_TYPE_CANDIDATES - 1) (drop 1 (type_map (en_type_id e)))"]
  by (auto simp: dmi_entity_spec_select_def Let_def split: prod.split option.split)

lemma spec_select_used:
  assumes "en_string_count e = length (en_strings e)"
  shows "same_but_used e (fst (snd (dmi_entity_spec_select type_map q e)))"
  using spec_select_loop_find [OF assms, of q "take (DMI_TYPE_CANDIDATES - 1) (drop 1 (type_map (en_type_id e)))"]
  by (auto simp: dmi_entity_spec_select_def Let_def split: prod.split option.split)

lemma apply_overlays_outcome:
  assumes e: "entity_in_buffer e" and fits: "list_all (overlay_fits (en_body_length e)) (en_overlays e)"
    and ran: "dmi_entity_apply_overlays mem h addr q e = (ok, e', q')" and q: "queue_wf q" and none: "en_overlay e = None"
  shows "if ok then q' = q \<and> (\<exists>overlay. e' = e\<lparr>en_overlay := Some overlay\<rparr> \<and> buffer_wf overlay \<and>
             buffer_bytes overlay = overlaid (entity_body e) (en_overlays e))
         else e' = e \<and> q' = raise_error q DMI_ERROR_OUT_OF_MEMORY"
proof -
  note body = entity_body_at [OF e]
  have "en_body_length e < 256" using e by (simp add: entity_in_buffer_def)
  then have small: "length (entity_body e) < 18446744073709551616" using body(2) by simp
  have e_same: "e\<lparr>en_overlay := None\<rparr> = e" using none by simp
  show ?thesis
  proof (cases "dmi_buffer_assign h (dmi_buffer_create addr) (entity_body e)")
    case (Inl f)
    then have "f = Raised DMI_ERROR_OUT_OF_MEMORY"
      using reserve_faults by (auto simp: dmi_buffer_assign_def split: sum.splits)
    then show ?thesis
      using ran e_same by (auto simp: dmi_entity_apply_overlays_def Let_def body(1) Inl split: if_splits)
  next
    case (Inr b)
    note a = assign_correct [OF buffer_wf_create small Inr]
    have "list_all (overlay_fits (length (buffer_bytes b))) (en_overlays e)" using fits a(2) body(2) by simp
    from apply_loop_overlaid [OF a(1) this, of h] show ?thesis
      using ran e_same a(2) by (auto simp: dmi_entity_apply_overlays_def Let_def body(1) Inr split: if_splits)
  qed
qed

section \<open>The data a decoder reads\<close>

definition decoder_body :: "'i dmi_entity \<Rightarrow> byte list" where
  "decoder_body e = take (en_body_length e) (drop (dmi_entity_offset e) (buffer_bytes (dmi_entity_buffer e)))"

definition entity_readable :: "'i dmi_entity \<Rightarrow> bool" where
  "entity_readable e \<longleftrightarrow> buffer_wf (dmi_entity_buffer e) \<and> 4 \<le> en_body_length e \<and>
     dmi_entity_offset e + en_body_length e \<le> length (buffer_bytes (dmi_entity_buffer e)) \<and>
     en_string_count e = length (en_strings e)"

lemma entity_data_update [simp]:
  "dmi_entity_buffer (e\<lparr>en_info := i\<rparr>) = dmi_entity_buffer e" "dmi_entity_offset (e\<lparr>en_info := i\<rparr>) = dmi_entity_offset e"
  "dmi_entity_buffer (e\<lparr>en_spec := s\<rparr>) = dmi_entity_buffer e" "dmi_entity_offset (e\<lparr>en_spec := s\<rparr>) = dmi_entity_offset e"
  "dmi_entity_buffer (e\<lparr>en_level := l\<rparr>) = dmi_entity_buffer e" "dmi_entity_offset (e\<lparr>en_level := l\<rparr>) = dmi_entity_offset e"
  "dmi_entity_buffer (e\<lparr>en_state := t\<rparr>) = dmi_entity_buffer e" "dmi_entity_offset (e\<lparr>en_state := t\<rparr>) = dmi_entity_offset e"
  by (simp_all add: dmi_entity_buffer_def dmi_entity_offset_def split: option.split)

lemma entity_in_buffer_readable: "entity_in_buffer e \<Longrightarrow> en_overlay e = None \<Longrightarrow> entity_readable e"
  by (simp add: entity_in_buffer_def entity_readable_def dmi_entity_buffer_def dmi_entity_offset_def)

lemma overlay_readable:
  assumes "entity_in_buffer e" and "buffer_wf overlay" and "length (buffer_bytes overlay) = en_body_length e"
  shows "entity_readable (e\<lparr>en_overlay := Some overlay\<rparr>)"
  using assms by (simp add: entity_in_buffer_def entity_readable_def dmi_entity_buffer_def dmi_entity_offset_def)

lemma decoder_initialize_reads:
  assumes "entity_readable e"
  shows "\<exists>d. dmi_decoder_initialize e = Inr d \<and> dc_entity d = e \<and> reader_wf (dc_reader d) \<and>
    reader_window (dc_reader d) = decoder_body e \<and> unat (rd_position (dc_reader d)) = 4"
proof -
  let ?b = "dmi_entity_buffer e" and ?off = "dmi_entity_offset e" and ?len = "en_body_length e"
  have wf: "buffer_wf ?b" and fits: "?off + ?len \<le> length (buffer_bytes ?b)" "4 \<le> ?len"
    using assms by (simp_all add: entity_readable_def)
  have bound: "length (buffer_bytes ?b) < 18446744073709551616" using wf by (rule buffer_bytes_bound)
  have off: "unat (of_nat ?off :: size_t) = ?off" and len: "unat (of_nat ?len :: size_t) = ?len"
    using fits bound by (simp_all add: unat_of_nat_size)
  have data: "buf_data ?b \<noteq> None" using fits by (auto simp: buffer_bytes_def buf_memory_def split: option.splits)
  let ?r = "\<lparr>rd_buffer = ?b, rd_base = of_nat ?off, rd_length = of_nat ?len, rd_position = 0\<rparr>"
  have r: "dmi_reader_initialize ?b (of_nat ?off) (of_nat ?len) = Inr ?r"
    using reader_initialize_correct [OF wf, of "of_nat ?off" "of_nat ?len" ?r] data fits off len by simp
  have rwf: "reader_wf ?r" using reader_initialize_wf(1) [OF wf r] .
  have four: "unat (4 :: size_t) = 4" by simp
  have seek: "dmi_reader_seek ?r 4 = Inr (?r\<lparr>rd_position := 4\<rparr>)"
    using fits len four by (simp add: dmi_reader_seek_def word_less_nat_alt del: unat_numeral)
  have "reader_wf (?r\<lparr>rd_position := 4\<rparr>)" using seek_correct [OF rwf seek] by simp
  then show ?thesis
    using r seek by (auto simp: dmi_decoder_initialize_def decoder_body_def reader_window_def off len)
qed

interpretation dc: byte_source
  "\<lambda>d. reader_wf (dc_reader d)" "\<lambda>d. reader_rest (dc_reader d)" dmi_decoder_get_bytes
proof unfold_locales
  fix d :: "'a dmi_decoder" and n :: size_t
  assume wf: "reader_wf (dc_reader d)"
  { assume "unat n \<le> length (reader_rest (dc_reader d))"
    from rd.get_enough [OF wf this] show "\<exists>r'. dmi_decoder_get_bytes d n = Inr (take (unat n) (reader_rest (dc_reader d)), r') \<and>
        reader_wf (dc_reader r') \<and> reader_rest (dc_reader r') = drop (unat n) (reader_rest (dc_reader d))"
      by (auto simp: dmi_decoder_get_bytes_def) }
  { assume "length (reader_rest (dc_reader d)) < unat n"
    from rd.get_short [OF wf this] show "dmi_decoder_get_bytes d n = Inl Quiet"
      by (simp add: dmi_decoder_get_bytes_def) }
qed

lemma reach_window:
  assumes "decoder_keeps d d'" and "reader_wf (dc_reader d)"
  shows "reader_wf (dc_reader d')" and "reader_window (dc_reader d') = reader_window (dc_reader d)"
  using assms by (simp_all add: decoder_keeps_def reader_window_def)

section \<open>What the handlers promise\<close>

definition decode_contract :: "'i dmi_entity_decode_fn \<Rightarrow> bool" where
  "decode_contract f \<longleftrightarrow> (\<forall>q d ok d' q'. f q d = (ok, d', q') \<longrightarrow> decoder_reach (q, d) (q', d'))"

definition handlers_contract :: "'i dmi_entity_ops \<Rightarrow> bool" where
  "handlers_contract ops \<longleftrightarrow> decode_contract (eo_fields_decode ops) \<and>
     (\<forall>spec. decode_contract (eo_decode ops spec)) \<and>
     (\<forall>spec q e ok e' q'. eo_derive ops spec q e = (ok, e', q') \<longrightarrow>
        decoding_frame e e' \<and> (queue_wf q \<longrightarrow> queue_wf q'))"

definition same_structure :: "'i dmi_entity \<Rightarrow> 'i dmi_entity \<Rightarrow> bool" where
  "same_structure e e' \<longleftrightarrow>
     e' = e\<lparr>en_spec := en_spec e', en_strings := en_strings e', en_info := en_info e', en_level := en_level e',
            en_state := en_state e', en_overlay := en_overlay e'\<rparr> \<and>
     map se_raw (en_strings e') = map se_raw (en_strings e) \<and> map se_pretty (en_strings e') = map se_pretty (en_strings e)"

lemma same_structure_trans: "same_structure a b \<Longrightarrow> same_structure b c \<Longrightarrow> same_structure a c"
  unfolding same_structure_def by (cases a; cases b; cases c) auto

lemma decoding_frame_structure: "decoding_frame e e' \<Longrightarrow> same_structure e e'"
  unfolding decoding_frame_def same_structure_def by (cases e; cases e') auto

lemma same_structure_update [simp]:
  "same_structure e (e\<lparr>en_spec := s\<rparr>)" "same_structure e (e\<lparr>en_level := l\<rparr>)" "same_structure e (e\<lparr>en_info := i\<rparr>)"
  "same_structure e (e\<lparr>en_state := t\<rparr>)" "same_structure e (e\<lparr>en_overlay := b\<rparr>)" "same_structure e e"
  by (simp_all add: same_structure_def)

text \<open>The handlers run on a structure whose descriptor has been allocated.\<close>

lemma decode_handler_outcome:
  assumes f: "decode_contract f" and e: "entity_readable e" and q: "queue_wf q" and info: "en_info e \<noteq> None"
    and ran: "(case dmi_decoder_initialize e of
                 Inl f \<Rightarrow> (False, e, q)
               | Inr d \<Rightarrow> (case f q d of (status, d, q) \<Rightarrow> (status, dc_entity d, q))) = (status, e', q')"
  shows "decoding_frame e e' \<and> queue_wf q'"
proof -
  obtain d where d: "dmi_decoder_initialize e = Inr d" "dc_entity d = e"
    using decoder_initialize_reads [OF e] by blast
  obtain d' where d': "f q d = (status, d', q')" "e' = dc_entity d'"
    using ran by (auto simp: d split: prod.splits)
  then have reach: "decoder_reach (q, d) (q', d')" using f by (auto simp: decode_contract_def)
  have "decoder_keeps d d'" using reach_keeps [OF reach] e by (simp add: d entity_readable_def)
  then show ?thesis using reach_queue [OF reach q] d'(2) d(2) by (simp add: decoder_keeps_def)
qed

lemma entity_decode_parts:
  assumes contract: "handlers_contract ops" and e: "entity_readable e" and q: "queue_wf q"
    and fresh: "en_info e = None" "\<not> dmi_entity_is_decoded e"
    and decode: "decode_contract decode"
    and e1_def: "e1 = e\<lparr>en_info := Some i\<rparr>"
    and ran: "(case dmi_decoder_initialize e1 of
                 Inl f \<Rightarrow> (False, e1, q)
               | Inr d \<Rightarrow> (case decode q d of (status, d, q) \<Rightarrow> (status, dc_entity d, q))) = (s1, e2, q2)"
    and derive: "(if s1 \<and> sp_has_derive spec then eo_derive ops spec q2 e2 else (s1, e2, q2)) = (s2, e3, q3)"
  shows "same_structure e e3 \<and> en_info e3 \<noteq> None \<and> \<not> dmi_entity_is_decoded e3 \<and> queue_wf q3 \<and>
    en_spec e3 = en_spec e \<and> en_overlay e3 = en_overlay e"
proof -
  have e1: "entity_readable e1" using e by (simp add: e1_def entity_readable_def)
  have info: "en_info e1 \<noteq> None" by (simp add: e1_def)
  note one = decode_handler_outcome [OF decode e1 q info ran]
  have "decoding_frame e2 e3 \<and> queue_wf q3"
    using contract derive one by (auto simp: handlers_contract_def split: if_splits)
  then have frame: "decoding_frame e1 e3" and q3: "queue_wf q3" using one by (auto intro: decoding_frame_trans)
  have "same_structure e e3"
    using same_structure_trans [OF same_structure_update(3) decoding_frame_structure [OF frame [unfolded e1_def]]] .
  moreover have "\<not> dmi_entity_is_decoded e3"
    using decoding_frame_decoded [OF frame] fresh(2) by (simp add: e1_def dmi_entity_is_decoded_def)
  moreover have "en_info e3 \<noteq> None" using frame by (simp add: decoding_frame_def e1_def)
  moreover have "en_overlay e3 = en_overlay e" using frame unfolding decoding_frame_def e1_def by (cases e3) auto
  ultimately show ?thesis using q3 decoding_frame_fields(6) [OF frame] by (simp add: e1_def)
qed

definition decode_outcome ::
    "'i dmi_entity \<Rightarrow> dmi_entity_spec option \<Rightarrow> bool \<times> 'i dmi_entity \<times> dmi_error_queue \<Rightarrow> bool" where
  "decode_outcome e spec = (\<lambda>(ok, e', q').
     same_structure e e' \<and> queue_wf q' \<and> dmi_entity_is_decoded e' = (en_info e' \<noteq> None) \<and>
     (en_overlays e = [] \<longrightarrow> en_overlay e' = None) \<and>
     (if \<not> ok then en_info e' = None \<and>
        last_reason q' \<in> {Some DMI_ERROR_ENTITY_LENGTH_INVALID, Some DMI_ERROR_OUT_OF_MEMORY, Some DMI_ERROR_ENTITY_DECODE_FAILED}
      else if en_info e' = None then (case spec of None \<Rightarrow> True | Some sp \<Rightarrow> \<not> sp_has_decode sp \<and> \<not> sp_has_fields sp)
      else en_spec e' = spec \<and> spec \<noteq> None \<and> decoder_body e' = overlaid (entity_body e) (en_overlays e)))"

lemma decoder_body_overlaid:
  assumes "same_structure e e'" and "entity_in_buffer e" and "list_all (overlay_fits (en_body_length e)) (en_overlays e)"
    and "en_overlays e = [] \<and> en_overlay e' = None \<or>
      en_overlay e' = Some overlay \<and> buffer_bytes overlay = overlaid (entity_body e) (en_overlays e)"
  shows "decoder_body e' = overlaid (entity_body e) (en_overlays e)"
proof -
  have e': "en_buffer e' = en_buffer e" "en_offset e' = en_offset e" "en_body_length e' = en_body_length e"
    using assms(1) unfolding same_structure_def by (cases e'; simp)+
  have "length (overlaid (entity_body e) (en_overlays e)) = en_body_length e"
    using length_overlaid [of "entity_body e" "en_overlays e"] assms(2,3) by (simp add: entity_body_at(2))
  then show ?thesis
    using assms(4) e'
    by (auto simp: decoder_body_def dmi_entity_buffer_def dmi_entity_offset_def entity_body_def overlaid_def)
qed

lemma is_decoded_or: "dmi_entity_is_decoded (e\<lparr>en_state := en_state e OR DMI_ENTITY_STATE_DECODED\<rparr>)"
proof -
  have "bit ((en_state e OR DMI_ENTITY_STATE_DECODED) AND DMI_ENTITY_STATE_DECODED) 0"
    by (simp add: bit_simps DMI_ENTITY_STATE_DECODED_def)
  then show ?thesis unfolding dmi_entity_is_decoded_def by (metis bit_0_eq bot_fun_def bot_bool_def dmi_entity.select_convs(13) dmi_entity.surjective dmi_entity.update_convs(13))
qed

lemma is_decoded_update [simp]:
  "dmi_entity_is_decoded (e\<lparr>en_spec := s\<rparr>) = dmi_entity_is_decoded e"
  "dmi_entity_is_decoded (e\<lparr>en_level := l\<rparr>) = dmi_entity_is_decoded e"
  "dmi_entity_is_decoded (e\<lparr>en_info := i\<rparr>) = dmi_entity_is_decoded e"
  "dmi_entity_is_decoded (e\<lparr>en_overlay := b\<rparr>) = dmi_entity_is_decoded e"
  "dmi_entity_is_decoded (e\<lparr>en_strings := ss\<rparr>) = dmi_entity_is_decoded e"
  by (simp_all add: dmi_entity_is_decoded_def)

text \<open>The part of \<open>dmi_entity_decode\<close> behind the allocation of the descriptor.\<close>

definition entity_decode_finish ::
    "'i dmi_entity_ops \<Rightarrow> 'i dmi_entity_decode_fn \<Rightarrow> dmi_entity_spec \<Rightarrow> dmi_error_queue \<Rightarrow> 'i dmi_entity
      \<Rightarrow> bool \<times> 'i dmi_entity \<times> dmi_error_queue" where
  "entity_decode_finish ops decode spec q e =
    (let (status, e, q) =
       (case dmi_decoder_initialize e of
          Inl f \<Rightarrow> (False, e, q)
        | Inr d \<Rightarrow> (case decode q d of (status, d, q) \<Rightarrow> (status, dc_entity d, q)));
         (status, e, q) = (if status \<and> sp_has_derive spec then eo_derive ops spec q e else (status, e, q))
     in if status then (True, e\<lparr>en_state := en_state e OR DMI_ENTITY_STATE_DECODED\<rparr>, q)
        else
          let last_error = dmi_error_peek_last q;
              q = (if last_error = None \<or> err_reason (the last_error) \<noteq> DMI_ERROR_OUT_OF_MEMORY
                   then raise_error q DMI_ERROR_ENTITY_DECODE_FAILED else q)
          in (False, e\<lparr>en_info := None, en_level := 0\<rparr>, q))"

text \<open>The part of \<open>dmi_entity_decode\<close> behind the checks of the specification.\<close>

lemma entity_decode_run:
  assumes contract: "handlers_contract ops" and e: "entity_in_buffer e" and q: "queue_wf q"
    and fits: "list_all (overlay_fits (en_body_length e)) (en_overlays e)"
    and fresh: "en_info e = None" "\<not> dmi_entity_is_decoded e" "en_overlay e = None" "en_spec e = Some spec"
    and decode: "decode_contract decode"
    and ready: "(if en_overlays e \<noteq> [] \<and> en_overlay e = None then dmi_entity_apply_overlays m h addr q e else (True, e, q)) =
      (True, e1, q1)"
    and ran: "(case dmi_decoder_initialize (e1\<lparr>en_info := Some i\<rparr>) of
                 Inl f \<Rightarrow> (False, e1\<lparr>en_info := Some i\<rparr>, q1)
               | Inr d \<Rightarrow> (case decode q1 d of (status, d, q) \<Rightarrow> (status, dc_entity d, q))) = (s1, e2, q2)"
    and derive: "(if s1 \<and> sp_has_derive spec then eo_derive ops spec q2 e2 else (s1, e2, q2)) = (s2, e3, q3)"
  shows "same_structure e e3 \<and> en_info e3 \<noteq> None \<and> \<not> dmi_entity_is_decoded e3 \<and> queue_wf q3 \<and>
    en_spec e3 = Some spec \<and> decoder_body e3 = overlaid (entity_body e) (en_overlays e) \<and>
    (en_overlays e = [] \<longrightarrow> en_overlay e3 = None)"
proof -
  have e1: "entity_readable e1 \<and> q1 = q \<and> en_info e1 = None \<and> \<not> dmi_entity_is_decoded e1 \<and> en_spec e1 = Some spec \<and>
      same_structure e e1 \<and> (en_overlays e = [] \<and> en_overlay e1 = None \<or>
        en_overlays e \<noteq> [] \<and> (\<exists>overlay. en_overlay e1 = Some overlay \<and> buffer_bytes overlay = overlaid (entity_body e) (en_overlays e)))"
  proof (cases "en_overlays e = []")
    case True
    then show ?thesis using ready fresh entity_in_buffer_readable [OF e fresh(3)] by simp
  next
    case False
    then have ran': "dmi_entity_apply_overlays m h addr q e = (True, e1, q1)" using ready fresh by simp
    from apply_overlays_outcome [OF e fits ran' q fresh(3)] obtain overlay where
      o: "q1 = q" "e1 = e\<lparr>en_overlay := Some overlay\<rparr>" "buffer_wf overlay"
        "buffer_bytes overlay = overlaid (entity_body e) (en_overlays e)" by auto
    have "length (buffer_bytes overlay) = en_body_length e"
      using length_overlaid [of "entity_body e" "en_overlays e"] fits entity_body_at(2) [OF e] o(4) by simp
    from overlay_readable [OF e o(3) this] show ?thesis using o fresh False by simp
  qed
  note parts = entity_decode_parts [OF contract conjunct1 [OF e1] _ _ _ decode refl ran derive]
  have p: "same_structure e1 e3 \<and> en_info e3 \<noteq> None \<and> \<not> dmi_entity_is_decoded e3 \<and> queue_wf q3 \<and>
    en_spec e3 = en_spec e1 \<and> en_overlay e3 = en_overlay e1"
    using parts e1 q by simp
  then have same: "same_structure e e3" using e1 same_structure_trans by blast
  have "decoder_body e3 = overlaid (entity_body e) (en_overlays e)"
    using decoder_body_overlaid [OF same e fits] e1 p by auto
  then show ?thesis using p same e1 by auto
qed

lemma decode_failed_reason:
  assumes "queue_wf q"
  defines "q' \<equiv> if dmi_error_peek_last q = None \<or> err_reason (the (dmi_error_peek_last q)) \<noteq> DMI_ERROR_OUT_OF_MEMORY
      then raise_error q DMI_ERROR_ENTITY_DECODE_FAILED else q"
  shows "queue_wf q'" and "last_reason q' \<in> {Some DMI_ERROR_OUT_OF_MEMORY, Some DMI_ERROR_ENTITY_DECODE_FAILED}"
  using assms by (auto simp: last_reason_def [of q] split: if_splits)

lemma entity_decode_finish_outcome:
  assumes contract: "handlers_contract ops" and e: "entity_in_buffer e" and q: "queue_wf q"
    and fits: "list_all (overlay_fits (en_body_length e)) (en_overlays e)"
    and fresh: "en_info e = None" "\<not> dmi_entity_is_decoded e" "en_overlay e = None" "en_spec e = Some spec"
    and decode: "decode_contract decode"
    and ready: "(if en_overlays e \<noteq> [] \<and> en_overlay e = None then dmi_entity_apply_overlays m h addr q e else (True, e, q)) =
      (True, e1, q1)"
  shows "decode_outcome e (Some spec) (entity_decode_finish ops decode spec q1 (e1\<lparr>en_info := Some i\<rparr>))"
proof -
  let ?e = "e1\<lparr>en_info := Some i\<rparr>"
  obtain s1 e2 q2 where ran: "(case dmi_decoder_initialize ?e of
                 Inl f \<Rightarrow> (False, ?e, q1)
               | Inr d \<Rightarrow> (case decode q1 d of (status, d, q) \<Rightarrow> (status, dc_entity d, q))) = (s1, e2, q2)"
    by (metis prod_cases3)
  obtain s2 e3 q3 where derive: "(if s1 \<and> sp_has_derive spec then eo_derive ops spec q2 e2 else (s1, e2, q2)) = (s2, e3, q3)"
    by (metis prod_cases3)
  note p = entity_decode_run [OF contract e q fits fresh decode ready ran derive]
  show ?thesis
  proof (cases s2)
    case True
    have "entity_decode_finish ops decode spec q1 ?e = (True, e3\<lparr>en_state := en_state e3 OR DMI_ENTITY_STATE_DECODED\<rparr>, q3)"
      using True by (simp add: entity_decode_finish_def ran derive)
    moreover have "decoder_body (e3\<lparr>en_state := en_state e3 OR DMI_ENTITY_STATE_DECODED\<rparr>) = decoder_body e3"
      by (simp add: decoder_body_def)
    moreover have "same_structure e (e3\<lparr>en_state := en_state e3 OR DMI_ENTITY_STATE_DECODED\<rparr>)"
      using p same_structure_trans by fastforce
    ultimately show ?thesis using p by (auto simp: decode_outcome_def is_decoded_or)
  next
    case False
    let ?q = "if dmi_error_peek_last q3 = None \<or> err_reason (the (dmi_error_peek_last q3)) \<noteq> DMI_ERROR_OUT_OF_MEMORY
      then raise_error q3 DMI_ERROR_ENTITY_DECODE_FAILED else q3"
    have fin: "entity_decode_finish ops decode spec q1 ?e = (False, e3\<lparr>en_info := None, en_level := 0\<rparr>, ?q)"
      using False by (simp add: entity_decode_finish_def ran derive Let_def)
    have "same_structure e (e3\<lparr>en_info := None, en_level := 0\<rparr>)"
      using p same_structure_trans [OF _ same_structure_update(3)] same_structure_trans [OF _ same_structure_update(2)] by blast
    moreover have "\<not> dmi_entity_is_decoded (e3\<lparr>en_info := None, en_level := 0\<rparr>)" using p by simp
    ultimately show ?thesis
      using decode_failed_reason [of q3] p unfolding fin decode_outcome_def by auto
  qed
qed

lemma entity_in_buffer_used:
  assumes "same_but_used e e'" and "entity_in_buffer e"
  shows "entity_in_buffer e'" and "entity_body e' = entity_body e" and "en_overlays e' = en_overlays e"
    and "en_overlay e' = en_overlay e" and "en_info e' = en_info e" and "en_state e' = en_state e"
proof -
  have e': "e' = e\<lparr>en_strings := en_strings e'\<rparr>" using assms(1) by (simp add: same_but_used_def)
  have fields: "en_buffer e' = en_buffer e" "en_offset e' = en_offset e" "en_total_length e' = en_total_length e"
    "en_body_length e' = en_body_length e" "en_extra_length e' = en_extra_length e" "en_handle e' = en_handle e"
    "en_string_count e' = en_string_count e" by (subst e'; simp)+
  have len: "length (en_strings e') = length (en_strings e)" "map se_raw (en_strings e') = map se_raw (en_strings e)"
    using same_but_used_fields(6,7) [OF assms(1)] by simp_all
  then have "en_strings e' = [] \<longleftrightarrow> en_strings e = []" by auto
  then show "entity_in_buffer e'"
    using assms(2) fields len by (simp add: entity_in_buffer_def entity_strings_set_def)
  show "entity_body e' = entity_body e" by (simp add: entity_body_def fields)
  show "en_overlays e' = en_overlays e" "en_overlay e' = en_overlay e" "en_info e' = en_info e" "en_state e' = en_state e"
    by (subst e'; simp)+
qed

lemma entity_decode_outcome_proved:
  assumes contract: "handlers_contract ops" and e: "entity_in_buffer e" and q: "queue_wf q"
    and fits: "list_all (overlay_fits (en_body_length e)) (en_overlays e)"
    and fresh: "en_info e = None" "\<not> dmi_entity_is_decoded e" "en_overlay e = None"
  shows "decode_outcome e (fst (dmi_entity_spec_select type_map q e)) (dmi_entity_decode ops mem h addr type_map q e)"
proof -
  obtain sel e0 q0 where sel: "dmi_entity_spec_select type_map q e = (sel, e0, q0)" by (metis prod_cases3)
  have used: "same_but_used e e0" and q0: "queue_wf q0"
    using spec_select_used [of e type_map q] spec_select_queue [OF q, of type_map e] e
    by (simp_all add: sel entity_in_buffer_def)
  have same0: "same_structure e e0"
    using decoding_frame_structure [OF decoding_frame_same_but_used [OF used]] .
  note keep = entity_in_buffer_used [OF used e]
  have body: "en_body_length e0 = en_body_length e" by (rule same_but_used_fields(2) [OF used])
  have undecoded: "\<not> dmi_entity_is_decoded e0" using fresh(2) keep(6) by (simp add: dmi_entity_is_decoded_def)
  show ?thesis
  proof (cases sel)
    case None
    then show ?thesis
      using same0 q0 fresh keep undecoded by (simp add: decode_outcome_def dmi_entity_decode_def sel)
  next
    case (Some spec)
    define e1 where "e1 = e0\<lparr>en_spec := Some spec, en_level := ep_minimum_version (sp_params spec)\<rparr>"
    define decode where "decode = (if sp_has_decode spec then eo_decode ops spec else eo_fields_decode ops)"
    have c: "decode_contract decode" using contract by (simp add: decode_def handlers_contract_def)
    have e1: "entity_in_buffer e1" "en_overlays e1 = en_overlays e" "entity_body e1 = entity_body e"
      "en_info e1 = None" "\<not> dmi_entity_is_decoded e1" "en_overlay e1 = None" "en_spec e1 = Some spec"
      "en_body_length e1 = en_body_length e"
      using keep fresh undecoded body by (simp_all add: e1_def entity_in_buffer_def entity_strings_set_def entity_body_def)
    have same1: "same_structure e e1"
      unfolding e1_def by (rule same_structure_trans [OF same0 same_structure_trans [OF same_structure_update(1) same_structure_update(2)]])
    obtain ok1 e2 q2 where r: "(if en_overlays e1 \<noteq> [] \<and> en_overlay e1 = None
        then dmi_entity_apply_overlays (mem 0) h addr q0 e1 else (True, e1, q0)) = (ok1, e2, q2)"
      by (metis prod_cases3)
    have fits1: "list_all (overlay_fits (en_body_length e1)) (en_overlays e1)" using fits e1 by simp
    have R: "queue_wf q2 \<and> same_structure e1 e2 \<and> en_info e2 = None \<and> \<not> dmi_entity_is_decoded e2 \<and>
        (\<not> ok1 \<longrightarrow> last_reason q2 = Some DMI_ERROR_OUT_OF_MEMORY) \<and> (en_overlays e = [] \<longrightarrow> en_overlay e2 = None)"
    proof (cases "en_overlays e1 = []")
      case True
      then show ?thesis using r q0 e1 by auto
    next
      case False
      then have "dmi_entity_apply_overlays (mem 0) h addr q0 e1 = (ok1, e2, q2)" using r e1(6) by simp
      from apply_overlays_outcome [OF e1(1) fits1 this q0 e1(6)] show ?thesis using q0 e1(2,4,5) False by (auto split: if_splits)
    qed
    then have same2: "same_structure e e2" using same1 same_structure_trans by blast
    note def = dmi_entity_decode_def [of ops mem h addr type_map q e] sel Some
    consider (short) "ep_minimum_length (sp_params spec) \<noteq> 0 \<and> en_body_length e < ep_minimum_length (sp_params spec)"
      | (bare) "\<not> (ep_minimum_length (sp_params spec) \<noteq> 0 \<and> en_body_length e < ep_minimum_length (sp_params spec))"
          "\<not> sp_has_decode spec \<and> \<not> sp_has_fields spec"
      | (full) "\<not> (ep_minimum_length (sp_params spec) \<noteq> 0 \<and> en_body_length e < ep_minimum_length (sp_params spec))"
          "sp_has_decode spec \<or> sp_has_fields spec" by blast
    then show ?thesis
    proof cases
      case short
      have "same_structure e (e0\<lparr>en_spec := Some spec\<rparr>)" using same0 same_structure_trans by fastforce
      then show ?thesis
        using short fresh q0 body keep(4,5) undecoded by (simp add: def decode_outcome_def)
    next
      case bare
      have "dmi_entity_decode ops mem h addr type_map q e = (True, e1, q0)"
        using bare fresh(2) body by (auto simp: def e1_def Let_def)
      then show ?thesis using same1 q0 e1 bare by (simp add: decode_outcome_def sel Some)
    next
      case full
      have eq: "dmi_entity_decode ops mem h addr type_map q e =
          (if \<not> ok1 then (False, e2, q2)
           else if \<not> mem 1 then (False, e2\<lparr>en_info := None\<rparr>, raise_error q2 DMI_ERROR_OUT_OF_MEMORY)
           else entity_decode_finish ops decode spec q2 (e2\<lparr>en_info := Some (eo_blank ops spec)\<rparr>))"
        using full fresh(2) body r by (auto simp: def e1_def decode_def Let_def entity_decode_finish_def)
      show ?thesis
      proof (cases "ok1 \<and> mem 1")
        case False
        then show ?thesis using R same2 same_structure_trans [OF same2 same_structure_update(3)]
          by (auto simp: eq decode_outcome_def)
      next
        case True
        have r': "(if en_overlays e1 \<noteq> [] \<and> en_overlay e1 = None
            then dmi_entity_apply_overlays (mem 0) h addr q0 e1 else (True, e1, q0)) = (True, e2, q2)"
          using r True by simp
        have "decode_outcome e1 (Some spec) (entity_decode_finish ops decode spec q2 (e2\<lparr>en_info := Some (eo_blank ops spec)\<rparr>))"
          by (rule entity_decode_finish_outcome [OF contract e1(1) q0 fits1 e1(4-7) c r'])
        then show ?thesis
          using True same_structure_trans [OF same1] e1(2,3)
          by (auto simp: eq decode_outcome_def sel Some split: prod.splits)
      qed
    qed
  qed
qed

section \<open>Properties\<close>

text \<open>
  Whatever a handler does with the decoder of a structure, in whatever order, the data it is given
  comes from the formatted area of the structure, with the additional information laid over it,
  and never from behind it: what is left to read is always the rest of that area. The structure
  stays as it is but for the marks of its strings, the information, the version of the specification it is of, and the two states which say
  that the data ended early, and the error queue stays a queue.
\<close>

theorem decoder_stays_in_structure:
  assumes "entity_readable e" and "dmi_decoder_initialize e = Inr d" and "decoder_reach (q, d) (q', d')"
  shows "decoding_frame e (dc_entity d') \<and> (queue_wf q \<longrightarrow> queue_wf q') \<and>
    unat (rd_position (dc_reader d')) \<le> en_body_length e \<and>
    reader_rest (dc_reader d') = drop (unat (rd_position (dc_reader d'))) (decoder_body e) \<and>
    unat (dmi_decoder_remaining d') = en_body_length e - unat (rd_position (dc_reader d'))"
proof -
  have d: "dc_entity d = e" "reader_wf (dc_reader d)" "reader_window (dc_reader d) = decoder_body e"
    using decoder_initialize_reads [OF assms(1)] assms(2) by auto
  have keeps: "decoder_keeps d d'" using reach_keeps [OF assms(3)] assms(1) by (simp add: d entity_readable_def)
  note w = reach_window [OF keeps d(2)]
  have len: "length (reader_window (dc_reader d')) = en_body_length e"
    using assms(1) by (auto simp: w d(3) decoder_body_def entity_readable_def min_def)
  then have "unat (rd_position (dc_reader d')) \<le> en_body_length e"
    using w(1) length_reader_window [OF w(1)] by (simp add: reader_wf_def word_le_nat_alt)
  then show ?thesis
    using keeps reach_queue [OF assms(3)] w d len remaining_correct [OF w(1)]
    by (auto simp: decoder_keeps_def reader_rest_def dmi_decoder_remaining_def)
qed

definition example_handler :: "nat dmi_entity_decode_fn" where
  "example_handler q d =
    (case dmi_decoder_get_string q d of
       (Inl f, d, q) \<Rightarrow> (False, d, q)
     | (Inr s, d, q) \<Rightarrow> (True, d\<lparr>dc_entity := (dc_entity d)\<lparr>en_info := Some 7\<rparr>\<rparr>, q))"

lemma example_handler_contract: "decode_contract example_handler"
proof -
  have "decoder_reach (q, d) (q', d')" if "example_handler q d = (ok, d', q')" for q d ok d' q'
  proof -
    obtain r d1 q1 where r: "dmi_decoder_get_string q d = (r, d1, q1)" by (metis prod_cases3)
    have one: "decoder_step (q, d) (q1, d1)" using step_string [OF r] .
    show ?thesis
    proof (cases r)
      case (Inl f)
      then show ?thesis using that one by (auto simp: example_handler_def r)
    next
      case (Inr s)
      have "decoder_step (q1, d1) (q1, d1\<lparr>dc_entity := (dc_entity d1)\<lparr>en_info := Some 7\<rparr>\<rparr>)" by (rule step_info)
      with one show ?thesis
        using that Inr by (auto simp: example_handler_def r intro: rtranclp.rtrancl_into_rtrancl)
    qed
  qed
  then show ?thesis by (auto simp: decode_contract_def)
qed

definition example_ops :: "nat dmi_entity_ops" where
  "example_ops = \<lparr>eo_decode = (\<lambda>spec. example_handler), eo_derive = (\<lambda>spec q e. (True, e, q)),
     eo_fields_decode = example_handler, eo_blank = (\<lambda>spec. 0)\<rparr>"

lemma example_ops_contract: "handlers_contract example_ops"
  by (simp add: handlers_contract_def example_ops_def example_handler_contract)

definition example_spec :: dmi_entity_spec where
  "example_spec = \<lparr>sp_code = ''system'', sp_name = ''System'', sp_type = 1, sp_type_id = 1,
     sp_params = \<lparr>ep_minimum_version = 0x020000, ep_required_from = 0, ep_required_till = 0, ep_recommended_from = 0, ep_generations = \<lparr>gn_minimum = 0, gn_maximum = 0\<rparr>,
       ep_signature = None, ep_unique = False, ep_minimum_length = 5, ep_decoded_length = 8\<rparr>,
     sp_has_fields = False, sp_has_decode = True, sp_has_derive = False\<rparr>"

lemma entity_create_no_info: "dmi_entity_create mem q b off = (Some e, q') \<Longrightarrow> en_info e = None"
  by (auto simp: dmi_entity_create_def Let_def split: if_splits option.splits prod.splits)

theorem decoder_stays_in_structure_witness:
  "\<exists>e d. dmi_entity_create (\<lambda>i. True) empty_queue example_table 0 = (Some (e :: nat dmi_entity), empty_queue) \<and>
    dmi_decoder_initialize e = Inr d \<and> unat (dmi_decoder_remaining (dmi_decoder_stop d)) \<le> 6"
proof -
  obtain e :: "nat dmi_entity" where e: "dmi_entity_create (\<lambda>i. True) empty_queue example_table 0 = (Some e, empty_queue)"
    using example_table_created by blast
  have "entity_readable e"
    using entity_create_some [OF example_table_wf e] entity_in_buffer_readable by blast
  moreover from decoder_initialize_reads [OF this] obtain d where d: "dmi_decoder_initialize e = Inr d" by blast
  moreover have "decoder_reach (empty_queue, d) (empty_queue, dmi_decoder_stop d)"
    by (rule r_into_rtranclp) (rule step_stop)
  ultimately have "unat (dmi_decoder_remaining (dmi_decoder_stop d)) \<le> en_body_length e"
    using decoder_stays_in_structure [of e d empty_queue empty_queue "dmi_decoder_stop d"] by simp
  then show ?thesis using e d example_table_entity(1) [OF e] by auto
qed

text \<open>
  C5. Decoding a structure which has not been decoded yet ends in one of three ways, whatever
  its data, the handlers and the allocator do, so long as the handlers keep to the interface of
  the decoder: it is decoded, by the specification chosen for it, from its formatted area with the additional
  information laid over it, and carries information; or there is nothing to decode it by, and it carries none; or
  it fails, carries no information, and the last error says that it is too short, that it cannot be decoded
  or that there is no memory. Its bytes, strings, handle and place in the table stay as they are.
\<close>

theorem entity_decode_outcome:
  assumes "handlers_contract ops" and "entity_in_buffer e" and "queue_wf q"
    and "list_all (overlay_fits (en_body_length e)) (en_overlays e)"
    and "en_info e = None" and "\<not> dmi_entity_is_decoded e" and "en_overlay e = None"
  shows "decode_outcome e (fst (dmi_entity_spec_select type_map q e)) (dmi_entity_decode ops mem h addr type_map q e)"
  by (rule entity_decode_outcome_proved [OF assms])

theorem entity_decode_outcome_witness:
  "\<exists>e. dmi_entity_create (\<lambda>i. True) empty_queue example_table 0 = (Some (e :: nat dmi_entity), empty_queue) \<and>
    decode_outcome e (Some example_spec)
      (dmi_entity_decode example_ops (\<lambda>i. True) (\<lambda>n. None) 9 (\<lambda>t. [Some example_spec, None, None, None]) empty_queue e)"
proof -
  obtain e :: "nat dmi_entity" where e: "dmi_entity_create (\<lambda>i. True) empty_queue example_table 0 = (Some e, empty_queue)"
    using example_table_created by blast
  note c = entity_create_some [OF example_table_wf e] and x = example_table_entity [OF e]
  have "fst (dmi_entity_spec_select (\<lambda>t. [Some example_spec, None, None, None]) empty_queue e) = Some example_spec"
    by (simp add: dmi_entity_spec_select_def x DMI_TYPE_ID_INVALID_def DMI_TYPE_ID_MAX_def DMI_TYPE_CANDIDATES_def)
  then show ?thesis
    using entity_decode_outcome [OF example_ops_contract, of e empty_queue "\<lambda>t. [Some example_spec, None, None, None]" "\<lambda>i. True" "\<lambda>n. None" 9]
      c(2,7,8) x e entity_create_no_info [OF e] by auto
qed

end
