(* ===== verification/Encoder.thy ===== *)
theory Encoder
  imports Writer Decoder
begin

text \<open>
  The encoder of one structure (\<^verbatim>\<open>src/encoder.c\<close>, \<open>dmi_entity_encode\<close> of \<^verbatim>\<open>src/entity.c\<close>): a writer at the
  end of a buffer and, in the preserve mode, a reader of the data the structure has been decoded from,
  kept in step with it. The strings the encoder owns are the texts of its array, with a gap for a string
  there is no text of. A string value is a pointer, and the code tells the strings of the structure by
  their addresses, so a value is one of them or a text of its own. \<open>mem\<close> says what memory there is
  for the array and for the copies of strings, and \<open>h\<close> what there is for the buffer.
\<close>

datatype dmi_encode_mode_t = DMI_ENCODE_MODE_PRESERVE | DMI_ENCODE_MODE_CANONICAL

datatype dmi_string_ref = String_text "byte list" | String_raw nat | String_pretty nat

record 'i dmi_encoder =
  ec_entity :: "'i dmi_entity"
  ec_mode :: dmi_encode_mode_t
  ec_version :: dmi_version_t
  ec_writer :: dmi_writer
  ec_source :: "dmi_reader option"
  ec_strings :: "byte list option list"
  ec_capacity :: nat

definition raise_fault :: "dmi_error_queue \<Rightarrow> dmi_fault \<Rightarrow> dmi_error_queue" where
  "raise_fault q f = (case f of Quiet \<Rightarrow> q | Raised reason \<Rightarrow> raise_error q reason)"

text \<open>\<open>mem (2 * n)\<close> is for an array with room behind the string \<open>n\<close>, \<open>mem (2 * n + 1)\<close> for its copy.\<close>

fun find_string :: "byte list \<Rightarrow> nat \<Rightarrow> byte list option list \<Rightarrow> nat option" where
  "find_string value n [] = None"
| "find_string value n (s # ss) = (if s = Some value then Some (n + 1) else find_string value (n + 1) ss)"

definition dmi_encoder_add_string ::
    "(nat \<Rightarrow> bool) \<Rightarrow> dmi_error_queue \<Rightarrow> 'i dmi_encoder \<Rightarrow> byte list option \<Rightarrow> nat option \<times> 'i dmi_encoder \<times> dmi_error_queue" where
  "dmi_encoder_add_string mem q ec value' =
    (case (if ec_mode ec = DMI_ENCODE_MODE_CANONICAL then (case value' of Some v \<Rightarrow> find_string v 0 (ec_strings ec) | None \<Rightarrow> None) else None) of
       Some index \<Rightarrow> (Some index, ec, q)
     | None \<Rightarrow>
         let count = length (ec_strings ec)
         in if count = ec_capacity ec \<and> \<not> mem (2 * count) then (None, ec, raise_error q DMI_ERROR_OUT_OF_MEMORY)
            else
              let ec = (if count = ec_capacity ec
                        then ec\<lparr>ec_capacity := (if ec_capacity ec \<noteq> 0 then ec_capacity ec * 2 else 8)\<rparr> else ec)
              in if value' \<noteq> None \<and> \<not> mem (2 * count + 1) then (None, ec, raise_error q DMI_ERROR_OUT_OF_MEMORY)
                 else (Some (count + 1), ec\<lparr>ec_strings := ec_strings ec @ [value']\<rparr>, q))"

definition dmi_encoder_has_string :: "'i dmi_encoder \<Rightarrow> nat \<Rightarrow> bool" where
  "dmi_encoder_has_string ec index \<longleftrightarrow> 0 < index \<and> index \<le> length (ec_strings ec) \<and> ec_strings ec ! (index - 1) \<noteq> None"

definition dmi_encoder_peek :: "'i dmi_encoder \<Rightarrow> size_t \<Rightarrow> byte list result" where
  "dmi_encoder_peek ec length' =
    (case ec_source ec of
       None \<Rightarrow> Inl Quiet
     | Some r \<Rightarrow> dmi_reader_get_bytes_at r (rd_position r) length')"

definition dmi_encoder_remaining :: "'i dmi_encoder \<Rightarrow> size_t" where
  "dmi_encoder_remaining ec = (case ec_source ec of None \<Rightarrow> 0 | Some r \<Rightarrow> dmi_reader_remaining r)"

definition dmi_encoder_tell :: "'i dmi_encoder \<Rightarrow> size_t" where
  "dmi_encoder_tell ec = dmi_writer_tell (ec_writer ec)"

definition dmi_encoder_put_bytes ::
    "heap \<Rightarrow> dmi_error_queue \<Rightarrow> 'i dmi_encoder \<Rightarrow> byte list \<Rightarrow> bool \<times> 'i dmi_encoder \<times> dmi_error_queue" where
  "dmi_encoder_put_bytes h q ec ptr =
    (if ptr = [] then (True, ec, q)
     else
       (case dmi_writer_put_bytes h (ec_writer ec) ptr of
          Inl f \<Rightarrow> (False, ec, raise_fault q f)
        | Inr w \<Rightarrow>
            let ec = ec\<lparr>ec_writer := w\<rparr>;
                remaining = dmi_encoder_remaining ec;
                ec = (if remaining > 0
                      then (case ec_source ec of
                              None \<Rightarrow> ec
                            | Some r \<Rightarrow>
                                (case dmi_reader_skip r (if size_of ptr < remaining then size_of ptr else remaining) of
                                   Inl f \<Rightarrow> ec
                                 | Inr r \<Rightarrow> ec\<lparr>ec_source := Some r\<rparr>))
                      else ec)
            in (True, ec, q)))"

definition dmi_encoder_put_bytes_at ::
    "heap \<Rightarrow> dmi_error_queue \<Rightarrow> 'i dmi_encoder \<Rightarrow> byte list \<Rightarrow> size_t \<Rightarrow> bool \<times> 'i dmi_encoder \<times> dmi_error_queue" where
  "dmi_encoder_put_bytes_at h q ec ptr offset =
    (case dmi_writer_put_bytes_at h (ec_writer ec) ptr offset of
       Inl f \<Rightarrow> (False, ec, raise_fault q f)
     | Inr w \<Rightarrow> (True, ec\<lparr>ec_writer := w\<rparr>, q))"

primrec dmi_encoder_copy ::
    "heap \<Rightarrow> dmi_error_queue \<Rightarrow> 'i dmi_encoder \<Rightarrow> nat \<Rightarrow> bool \<times> 'i dmi_encoder \<times> dmi_error_queue" where
  "dmi_encoder_copy h q ec 0 = (True, ec, q)"
| "dmi_encoder_copy h q ec (Suc n) =
    (let data = (if ec_mode ec = DMI_ENCODE_MODE_PRESERVE
                 then (case dmi_encoder_peek ec 1 of Inr bs \<Rightarrow> bs | Inl f \<Rightarrow> [0]) else [0])
     in (case dmi_encoder_put_bytes h q ec data of
           (False, ec, q) \<Rightarrow> (False, ec, q)
         | (True, ec, q) \<Rightarrow> dmi_encoder_copy h q ec n))"

definition string_of_ref :: "'i dmi_entity \<Rightarrow> dmi_string_ref \<Rightarrow> byte list" where
  "string_of_ref e s =
    (case s of String_text t \<Rightarrow> t | String_raw i \<Rightarrow> se_raw (en_strings e ! i) | String_pretty i \<Rightarrow> se_pretty (en_strings e ! i))"

definition dmi_encoder_put_string ::
    "heap \<Rightarrow> (nat \<Rightarrow> bool) \<Rightarrow> dmi_error_queue \<Rightarrow> 'i dmi_encoder \<Rightarrow> dmi_string_ref option
      \<Rightarrow> bool \<times> 'i dmi_encoder \<times> dmi_error_queue" where
  "dmi_encoder_put_string h mem q ec value' =
    (case value' of
       None \<Rightarrow>
         let number = (case dmi_encoder_peek ec 1 of
               Inl f \<Rightarrow> 0
             | Inr original \<Rightarrow>
                 if original ! 0 \<noteq> 0 \<and> \<not> dmi_encoder_has_string ec (unat (original ! 0)) then original ! 0 else 0)
         in dmi_encoder_put_bytes h q ec [number]
     | Some v \<Rightarrow>
         let (index, text') =
               (case find (\<lambda>i. v = String_raw i \<or> v = String_pretty i) [0..<en_string_count (ec_entity ec)] of
                  None \<Rightarrow> (0, string_of_ref (ec_entity ec) v)
                | Some i \<Rightarrow>
                    if ec_mode ec = DMI_ENCODE_MODE_PRESERVE then (i + 1, string_of_ref (ec_entity ec) v)
                    else (0, se_raw (en_strings (ec_entity ec) ! i)));
             (added, ec, q) = (if index = 0 then dmi_encoder_add_string mem q ec (Some text') else (Some index, ec, q))
         in (case added of
               None \<Rightarrow> (False, ec, q)
             | Some index \<Rightarrow>
                 if index > 255 then (False, ec, raise_error q DMI_ERROR_ARGUMENT_INVALID)
                 else dmi_encoder_put_bytes h q ec [of_nat index]))"

text \<open>The header of a structure, as its bytes.\<close>

definition header_bytes :: "'i dmi_entity \<Rightarrow> byte \<Rightarrow> byte list" where
  "header_bytes e length' = [word_of_int (en_type_id e), length'] @ store_word 2 (en_handle e)"

primrec add_strings ::
    "(nat \<Rightarrow> bool) \<Rightarrow> dmi_error_queue \<Rightarrow> 'i dmi_encoder \<Rightarrow> dmi_string_entry list \<Rightarrow> bool \<times> 'i dmi_encoder \<times> dmi_error_queue" where
  "add_strings mem q ec [] = (True, ec, q)"
| "add_strings mem q ec (entry # entries) =
    (case dmi_encoder_add_string mem q ec (Some (se_raw entry)) of
       (None, ec, q) \<Rightarrow> (False, ec, q)
     | (Some index, ec, q) \<Rightarrow> add_strings mem q ec entries)"

text \<open>A range which is not bounded has the length \<open>-1\<close>.\<close>

definition dmi_encoder_initialize ::
    "heap \<Rightarrow> (nat \<Rightarrow> bool) \<Rightarrow> dmi_error_queue \<Rightarrow> dmi_buffer \<Rightarrow> 'i dmi_entity \<Rightarrow> dmi_encode_mode_t \<Rightarrow> dmi_version_t
      \<Rightarrow> 'i dmi_encoder option \<times> dmi_error_queue" where
  "dmi_encoder_initialize h mem q buffer e mode version =
    (case dmi_writer_initialize buffer (buf_length buffer) (-1) of
       Inl f \<Rightarrow> (None, raise_fault q f)
     | Inr w \<Rightarrow>
         let ec = \<lparr>ec_entity = e, ec_mode = mode, ec_version = version, ec_writer = w, ec_source = None,
                   ec_strings = [], ec_capacity = 0\<rparr>;
             (ok, ec, q) =
               (if mode = DMI_ENCODE_MODE_PRESERVE
                then
                  let source = (case dmi_reader_initialize (dmi_entity_buffer e) (of_nat (dmi_entity_offset e)) (of_nat (en_body_length e)) of
                                  Inl f \<Rightarrow> None | Inr r \<Rightarrow> Some r)
                  in add_strings mem q (ec\<lparr>ec_source := source\<rparr>) (en_strings e)
                else (True, ec, q))
         in if \<not> ok then (None, q)
            else
              (case dmi_encoder_put_bytes h q ec (header_bytes e 0) of
                 (False, ec, q) \<Rightarrow> (None, q)
               | (True, ec, q) \<Rightarrow> (Some ec, q)))"

definition dmi_encoder_finish ::
    "heap \<Rightarrow> dmi_error_queue \<Rightarrow> 'i dmi_encoder \<Rightarrow> bool \<times> 'i dmi_encoder \<times> dmi_error_queue" where
  "dmi_encoder_finish h q ec =
    (let length' = unat (dmi_encoder_tell ec); e = ec_entity ec
     in if length' < 4 then (False, ec, raise_error q DMI_ERROR_STATE_INVALID)
        else if length' > 255 then (False, ec, raise_error q DMI_ERROR_ENTITY_LENGTH_INVALID)
        else
          let header = header_bytes e (of_nat length');
              header =
                (if ec_mode ec = DMI_ENCODE_MODE_PRESERVE
                 then
                   (case (case ec_source ec of None \<Rightarrow> Inl Quiet | Some r \<Rightarrow> dmi_reader_get_bytes_at r 0 4) of
                      Inl f \<Rightarrow> header
                    | Inr original \<Rightarrow>
                        let same_handle = (drop 2 original = drop 2 header);
                            same_type =
                              (if original ! 1 = 0
                               then int (unat (header ! 0)) = DMI_TYPE_ID_END_OF_TABLE \<and> unat (header ! 1) = 4
                               else original ! 0 = header ! 0 \<and> original ! 1 = header ! 1)
                        in if same_handle \<and> same_type then original else header)
                 else header)
          in (case dmi_writer_put_bytes_at h (ec_writer ec) header 0 of
                Inl f \<Rightarrow> (False, ec, raise_fault q f)
              | Inr w \<Rightarrow> (True, ec\<lparr>ec_writer := w\<rparr>, q)))"

section \<open>Encoding a structure\<close>

text \<open>How the structures of a specification are written: by their fields, or by a handler.\<close>

type_synonym 'i dmi_entity_encode_fn =
  "heap \<Rightarrow> (nat \<Rightarrow> bool) \<Rightarrow> dmi_error_queue \<Rightarrow> 'i dmi_encoder \<Rightarrow> bool \<times> 'i dmi_encoder \<times> dmi_error_queue"

record 'i dmi_encode_ops =
  eo_fields_encode :: "'i dmi_entity_encode_fn"
  eo_encode :: "dmi_entity_spec \<Rightarrow> 'i dmi_entity_encode_fn option"

definition encode_rest ::
    "heap \<Rightarrow> dmi_error_queue \<Rightarrow> 'i dmi_encoder \<Rightarrow> bool \<times> 'i dmi_encoder \<times> dmi_error_queue" where
  "encode_rest h q ec =
    (case dmi_encoder_copy h q ec (unat (dmi_encoder_remaining ec)) of
       (False, ec, q) \<Rightarrow> (False, ec, q)
     | (True, ec, q) \<Rightarrow> dmi_encoder_finish h q ec)"

definition dmi_entity_encode ::
    "'i dmi_encode_ops \<Rightarrow> heap \<Rightarrow> (nat \<Rightarrow> bool) \<Rightarrow> dmi_error_queue \<Rightarrow> 'i dmi_encoder \<Rightarrow> bool \<times> 'i dmi_encoder \<times> dmi_error_queue" where
  "dmi_entity_encode ops h mem q ec =
    (case en_spec (ec_entity ec) of
       Some spec \<Rightarrow>
         if \<not> sp_has_decode spec \<and> sp_has_fields spec then eo_fields_encode ops h mem q ec
         else
           (case eo_encode ops spec of
              Some encode \<Rightarrow>
                (case encode h mem q ec of
                   (False, ec, q) \<Rightarrow> (False, ec, q)
                 | (True, ec, q) \<Rightarrow> encode_rest h q ec)
            | None \<Rightarrow>
                if sp_has_decode spec then (False, ec, raise_error q DMI_ERROR_STATE_INVALID) else encode_rest h q ec)
     | None \<Rightarrow>
         if ec_mode ec = DMI_ENCODE_MODE_CANONICAL then (False, ec, raise_error q DMI_ERROR_STATE_INVALID)
         else encode_rest h q ec)"

section \<open>What is written\<close>

definition encoder_wf :: "'i dmi_encoder \<Rightarrow> bool" where
  "encoder_wf ec \<longleftrightarrow> writer_wf (ec_writer ec) \<and> \<not> wr_bounded (ec_writer ec) \<and>
     writer_range (ec_writer ec) = writer_written (ec_writer ec) \<and>
     (case ec_source ec of None \<Rightarrow> True | Some r \<Rightarrow> reader_wf r)"

definition source_rest :: "'i dmi_encoder \<Rightarrow> byte list" where
  "source_rest ec = (case ec_source ec of None \<Rightarrow> [] | Some r \<Rightarrow> reader_rest r)"

definition source_window :: "'i dmi_encoder \<Rightarrow> byte list" where
  "source_window ec = (case ec_source ec of None \<Rightarrow> [] | Some r \<Rightarrow> reader_window r)"

definition encoder_frame :: "'i dmi_encoder \<Rightarrow> 'i dmi_encoder \<Rightarrow> bool" where
  "encoder_frame ec ec' \<longleftrightarrow> ec_entity ec' = ec_entity ec \<and> ec_mode ec' = ec_mode ec \<and> ec_strings ec' = ec_strings ec \<and>
     (ec_source ec' = None \<longleftrightarrow> ec_source ec = None) \<and> source_window ec' = source_window ec \<and>
     wr_base (ec_writer ec') = wr_base (ec_writer ec) \<and>
     take (unat (wr_base (ec_writer ec))) (buffer_bytes (wr_buffer (ec_writer ec'))) =
       take (unat (wr_base (ec_writer ec))) (buffer_bytes (wr_buffer (ec_writer ec)))"

lemma encoder_frame_refl [simp]: "encoder_frame ec ec"
  by (simp add: encoder_frame_def)

lemma encoder_frame_trans: "encoder_frame a b \<Longrightarrow> encoder_frame b c \<Longrightarrow> encoder_frame a c"
  by (simp add: encoder_frame_def)

lemma encoder_remaining_correct: "encoder_wf ec \<Longrightarrow> unat (dmi_encoder_remaining ec) = length (source_rest ec)"
  by (auto simp: dmi_encoder_remaining_def source_rest_def encoder_wf_def remaining_correct split: option.splits)

lemma encoder_tell_correct: "encoder_wf ec \<Longrightarrow> unat (dmi_encoder_tell ec) = length (writer_written (ec_writer ec))"
  by (simp add: dmi_encoder_tell_def dmi_writer_tell_def encoder_wf_def length_writer_written)

lemma encoder_peek_correct:
  assumes "encoder_wf ec" and "unat n \<le> length (source_rest ec)" and "0 < unat n"
  shows "dmi_encoder_peek ec n = Inr (take (unat n) (source_rest ec))"
proof -
  obtain r where r: "ec_source ec = Some r" using assms(2,3) by (cases "ec_source ec") (simp_all add: source_rest_def)
  then have "reader_wf r" using assms(1) by (simp add: encoder_wf_def)
  moreover from this have "unat (rd_position r) + unat n \<le> length (reader_window r)"
    using assms(2,3) by (simp add: r source_rest_def reader_rest_def reader_wf_def length_reader_window word_le_nat_alt)
  ultimately show ?thesis
    by (simp add: dmi_encoder_peek_def r get_bytes_at_correct source_rest_def reader_rest_def)
qed

lemma skip_window: "dmi_reader_skip r n = Inr r' \<Longrightarrow> reader_window r' = reader_window r"
  by (auto simp: dmi_reader_skip_def dmi_reader_advance_def split: if_splits)

lemma encoder_put_correct:
  assumes wf: "encoder_wf ec" and len: "length ptr < 18446744073709551616"
    and run: "dmi_encoder_put_bytes h q ec ptr = (True, ec', q')"
  shows "q' = q" and "encoder_wf ec'" and "encoder_frame ec ec'"
    and "writer_written (ec_writer ec') = writer_written (ec_writer ec) @ ptr"
    and "source_rest ec' = drop (length ptr) (source_rest ec)" and "ec_capacity ec' = ec_capacity ec"
proof -
  have all: "q' = q \<and> encoder_wf ec' \<and> encoder_frame ec ec' \<and> ec_capacity ec' = ec_capacity ec \<and>
      writer_written (ec_writer ec') = writer_written (ec_writer ec) @ ptr \<and> source_rest ec' = drop (length ptr) (source_rest ec)"
  proof (cases "ptr = []")
    case True
    then show ?thesis using run wf by (auto simp: dmi_encoder_put_bytes_def)
  next
    case False
    then obtain w where w: "dmi_writer_put_bytes h (ec_writer ec) ptr = Inr w"
      using run by (auto simp: dmi_encoder_put_bytes_def split: sum.splits)
    have wwf: "writer_wf (ec_writer ec)" using wf by (simp add: encoder_wf_def)
    note p = put_bytes_correct [OF wwf len w]
    have pos: "unat (wr_position (ec_writer ec)) = length (writer_range (ec_writer ec))"
      using wf length_writer_written [OF wwf] by (simp add: encoder_wf_def)
    have range: "writer_range w = writer_written w"
      using p(2,3) pos wf by (simp add: encoder_wf_def write_bytes_end)
    have bounded: "wr_bounded w = wr_bounded (ec_writer ec)" by (simp add: wr_bounded_def p(5))
    let ?ec = "ec\<lparr>ec_writer := w\<rparr>"
    have wf1: "encoder_wf ?ec" using wf p(1) range bounded by (simp add: encoder_wf_def)
    note rem = encoder_remaining_correct [OF wf1]
    have keep: "encoder_frame ec ?ec" using p(4,6) by (simp add: encoder_frame_def source_window_def)
    have rest: "source_rest ?ec = source_rest ec" by (simp add: source_rest_def)
    let ?n = "if size_of ptr < dmi_encoder_remaining ?ec then size_of ptr else dmi_encoder_remaining ?ec"
    have n: "unat ?n = min (length ptr) (length (source_rest ec))"
      using rem rest unat_size_of [OF len] by (auto simp: word_less_nat_alt)
    show ?thesis
    proof (cases "dmi_encoder_remaining ?ec > 0")
      case False
      then have "source_rest ec = []" using rem rest by (simp add: word_less_nat_alt)
      then show ?thesis using run False \<open>ptr \<noteq> []\<close> wf1 keep p(2) rest by (auto simp: dmi_encoder_put_bytes_def w Let_def)
    next
      case True
      then obtain r where r: "ec_source ec = Some r" by (cases "ec_source ec") (simp_all add: dmi_encoder_remaining_def)
      then have rwf: "reader_wf r" using wf by (simp add: encoder_wf_def)
      have "unat ?n \<le> length (reader_rest r)" using n r by (simp add: source_rest_def)
      then obtain r' where r': "dmi_reader_skip r ?n = Inr r'" using skip_correct(1) [OF rwf] by blast
      note sk = skip_correct(2) [OF rwf r'] and win = skip_window [OF r']
      have ec': "ec' = ec\<lparr>ec_writer := w, ec_source := Some r'\<rparr>" "q' = q"
        using run True \<open>ptr \<noteq> []\<close> r r' by (auto simp: dmi_encoder_put_bytes_def w Let_def)
      have "reader_rest r' = drop (length ptr) (reader_rest r)"
        using sk n r by (auto simp: source_rest_def min_def)
      then show ?thesis using ec' wf1 keep sk win r p(2)
        by (simp add: encoder_wf_def encoder_frame_def source_window_def source_rest_def)
    qed
  qed
  then show "q' = q" and "encoder_wf ec'" and "encoder_frame ec ec'"
    and "writer_written (ec_writer ec') = writer_written (ec_writer ec) @ ptr"
    and "source_rest ec' = drop (length ptr) (source_rest ec)" and "ec_capacity ec' = ec_capacity ec" by blast+
qed

lemma encoder_put_succeeds:
  assumes "encoder_wf ec" and "generous h"
    and "unat (wr_base (ec_writer ec)) + length (writer_written (ec_writer ec)) + length ptr \<le> 18446744073709551488"
  shows "\<exists>ec'. dmi_encoder_put_bytes h q ec ptr = (True, ec', q)"
proof (cases "ptr = []")
  case True
  then show ?thesis by (simp add: dmi_encoder_put_bytes_def)
next
  case False
  have "\<exists>w. dmi_writer_put_bytes h (ec_writer ec) ptr = Inr w"
    using assms by (intro put_bytes_succeeds) (simp_all add: encoder_wf_def length_writer_written)
  then show ?thesis using False by (auto simp: dmi_encoder_put_bytes_def Let_def)
qed

lemma encoder_copy_correct:
  assumes "generous h"
  shows "encoder_wf ec \<Longrightarrow> ec_mode ec = DMI_ENCODE_MODE_PRESERVE \<Longrightarrow> n \<le> length (source_rest ec) \<Longrightarrow>
    unat (wr_base (ec_writer ec)) + length (writer_written (ec_writer ec)) + n \<le> 18446744073709551488 \<Longrightarrow>
    \<exists>ec'. dmi_encoder_copy h q ec n = (True, ec', q) \<and> encoder_wf ec' \<and> encoder_frame ec ec' \<and>
      writer_written (ec_writer ec') = writer_written (ec_writer ec) @ take n (source_rest ec)"
proof (induction n arbitrary: ec)
  case (Suc n)
  have peek: "dmi_encoder_peek ec 1 = Inr (take 1 (source_rest ec))"
    using encoder_peek_correct [OF Suc.prems(1), of 1] Suc.prems(3) by simp
  have one: "length (take 1 (source_rest ec)) = 1" using Suc.prems(3) by simp
  from encoder_put_succeeds [OF Suc.prems(1) assms, of "take 1 (source_rest ec)" q] one Suc.prems(4)
  obtain ec1 where put: "dmi_encoder_put_bytes h q ec (take 1 (source_rest ec)) = (True, ec1, q)" by auto
  have len1: "length (take 1 (source_rest ec)) < 18446744073709551616" using one by simp
  note p = encoder_put_correct [OF Suc.prems(1) len1 put]
  have ec1: "ec_mode ec1 = DMI_ENCODE_MODE_PRESERVE" "wr_base (ec_writer ec1) = wr_base (ec_writer ec)"
    using p(3) Suc.prems(2) by (simp_all add: encoder_frame_def)
  have rest: "source_rest ec1 = drop 1 (source_rest ec)" using p(5) one by simp
  have left: "n \<le> length (source_rest ec1)" using rest Suc.prems(3) by simp
  have room: "unat (wr_base (ec_writer ec1)) + length (writer_written (ec_writer ec1)) + n \<le> 18446744073709551488"
    using p(4) one ec1(2) Suc.prems(4) by simp
  from Suc.IH [OF p(2) ec1(1) left room] obtain ec' where ih: "dmi_encoder_copy h q ec1 n = (True, ec', q)" "encoder_wf ec'" "encoder_frame ec1 ec'"
      "writer_written (ec_writer ec') = writer_written (ec_writer ec1) @ take n (source_rest ec1)"
    by blast
  have "take (Suc n) (source_rest ec) = take 1 (source_rest ec) @ take n (drop 1 (source_rest ec))"
    by (cases "source_rest ec") simp_all
  then show ?case using ih p(4) rest Suc.prems(2) peek put encoder_frame_trans [OF p(3) ih(3)] by simp
qed simp

lemma add_strings_preserve:
  assumes "\<forall>i. mem i"
  shows "ec_mode ec = DMI_ENCODE_MODE_PRESERVE \<Longrightarrow>
    \<exists>c. add_strings mem q ec entries = (True, ec\<lparr>ec_strings := ec_strings ec @ map (Some \<circ> se_raw) entries, ec_capacity := c\<rparr>, q)"
proof (induction entries arbitrary: ec)
  case Nil
  show ?case by (intro exI [of _ "ec_capacity ec"]) simp
next
  case (Cons entry entries)
  let ?c = "if length (ec_strings ec) = ec_capacity ec then (if ec_capacity ec \<noteq> 0 then ec_capacity ec * 2 else 8) else ec_capacity ec"
  have "dmi_encoder_add_string mem q ec (Some (se_raw entry)) =
      (Some (length (ec_strings ec) + 1), ec\<lparr>ec_strings := ec_strings ec @ [Some (se_raw entry)], ec_capacity := ?c\<rparr>, q)"
    using assms Cons.prems by (cases "length (ec_strings ec) = ec_capacity ec") (simp_all add: dmi_encoder_add_string_def Let_def)
  then obtain c where c: "dmi_encoder_add_string mem q ec (Some (se_raw entry)) =
      (Some (length (ec_strings ec) + 1), ec\<lparr>ec_strings := ec_strings ec @ [Some (se_raw entry)], ec_capacity := c\<rparr>, q)" by blast
  have "ec_mode (ec\<lparr>ec_strings := ec_strings ec @ [Some (se_raw entry)], ec_capacity := c\<rparr>) = DMI_ENCODE_MODE_PRESERVE"
    using Cons.prems by simp
  from Cons.IH [OF this] show ?case by (auto simp: c)
qed

lemma encoder_start:
  assumes wf: "buffer_wf b" and w: "dmi_writer_initialize b (buf_length b) (-1) = Inr w"
  shows "writer_wf w" and "\<not> wr_bounded w" and "writer_range w = []" and "writer_written w = []"
    and "wr_base w = buf_length b" and "wr_buffer w = b"
proof -
  note i = writer_initialize_wf [OF wf w]
  show "writer_wf w" "writer_written w = []" using i by simp_all
  show "writer_range w = []" using i buffer_length_bytes [OF wf] by simp
  show "\<not> wr_bounded w" "wr_base w = buf_length b" "wr_buffer w = b"
    using w by (auto simp: dmi_writer_initialize_def wr_bounded_def split: if_splits)
qed

lemma entity_source:
  assumes "entity_readable e"
  shows "\<exists>r. dmi_reader_initialize (dmi_entity_buffer e) (of_nat (dmi_entity_offset e)) (of_nat (en_body_length e)) = Inr r \<and>
    reader_wf r \<and> reader_rest r = decoder_body e \<and> reader_window r = decoder_body e"
proof -
  let ?b = "dmi_entity_buffer e" and ?off = "of_nat (dmi_entity_offset e) :: size_t" and ?n = "of_nat (en_body_length e) :: size_t"
  have wf: "buffer_wf ?b" and fits: "dmi_entity_offset e + en_body_length e \<le> length (buffer_bytes ?b)" "4 \<le> en_body_length e"
    using assms by (simp_all add: entity_readable_def)
  have u: "unat ?off = dmi_entity_offset e" "unat ?n = en_body_length e"
    using fits buffer_bytes_bound [OF wf] by (auto intro!: unat_of_nat_size)
  have "buf_data ?b \<noteq> None" using fits by (auto simp: buffer_bytes_def buf_memory_def split: option.splits)
  then obtain r where r: "dmi_reader_initialize ?b ?off ?n = Inr r"
    using fits u by (auto simp: reader_initialize_correct [OF wf])
  note i = reader_initialize_wf [OF wf r]
  have "rd_position r = 0" using r by (auto simp: dmi_reader_initialize_def split: if_splits)
  then have "reader_window r = reader_rest r" by (simp add: reader_rest_def)
  then show ?thesis using r i u by (auto simp: decoder_body_def)
qed

lemma encoder_initialize_preserve:
  assumes e: "entity_readable e" and b: "buffer_wf b" and h: "generous h" and mem: "\<forall>i. mem i"
    and room: "length (buffer_bytes b) + 255 \<le> 18446744073709551488"
  shows "\<exists>ec. dmi_encoder_initialize h mem q b e DMI_ENCODE_MODE_PRESERVE version = (Some ec, q) \<and> encoder_wf ec \<and>
    ec_entity ec = e \<and> ec_mode ec = DMI_ENCODE_MODE_PRESERVE \<and> ec_strings ec = map (Some \<circ> se_raw) (en_strings e) \<and>
    writer_written (ec_writer ec) = header_bytes e 0 \<and> source_rest ec = drop 4 (decoder_body e) \<and>
    source_window ec = decoder_body e \<and> ec_source ec \<noteq> None \<and> unat (wr_base (ec_writer ec)) = length (buffer_bytes b) \<and>
    take (length (buffer_bytes b)) (buffer_bytes (wr_buffer (ec_writer ec))) = buffer_bytes b"
proof -
  obtain w where w: "dmi_writer_initialize b (buf_length b) (-1) = Inr w" by (simp add: dmi_writer_initialize_def)
  note s = encoder_start [OF b w]
  obtain r where r: "dmi_reader_initialize (dmi_entity_buffer e) (of_nat (dmi_entity_offset e)) (of_nat (en_body_length e)) = Inr r"
    "reader_wf r" "reader_rest r = decoder_body e" "reader_window r = decoder_body e" using entity_source [OF e] by blast
  let ?ec0 = "\<lparr>ec_entity = e, ec_mode = DMI_ENCODE_MODE_PRESERVE, ec_version = version, ec_writer = w, ec_source = Some r,
      ec_strings = [], ec_capacity = 0\<rparr>"
  obtain c where c: "add_strings mem q ?ec0 (en_strings e) =
      (True, ?ec0\<lparr>ec_strings := map (Some \<circ> se_raw) (en_strings e), ec_capacity := c\<rparr>, q)"
    using add_strings_preserve [OF mem, of ?ec0 q "en_strings e"] by auto
  let ?ec1 = "?ec0\<lparr>ec_strings := map (Some \<circ> se_raw) (en_strings e), ec_capacity := c\<rparr>"
  have wf1: "encoder_wf ?ec1" using s r(2) by (simp add: encoder_wf_def)
  have base: "unat (buf_length b) = length (buffer_bytes b)" using buffer_length_bytes [OF b] by simp
  have len: "length (header_bytes e 0) = 4" by (simp add: header_bytes_def)
  then have len': "length (header_bytes e 0) < 18446744073709551616" by simp
  obtain ec where put: "dmi_encoder_put_bytes h q ?ec1 (header_bytes e 0) = (True, ec, q)"
    using encoder_put_succeeds [OF wf1 h, of "header_bytes e 0" q] room len s base by auto
  note p = encoder_put_correct [OF wf1 len' put]
  have run: "dmi_encoder_initialize h mem q b e DMI_ENCODE_MODE_PRESERVE version = (Some ec, q)"
    using c put by (simp add: dmi_encoder_initialize_def w r(1))
  show ?thesis
    by (intro exI [of _ ec])
      (use run p s r len base in \<open>simp add: encoder_frame_def source_rest_def source_window_def\<close>)
qed

text \<open>The header of the data is kept if it reads as the one written.\<close>

definition header_reads_as :: "'i dmi_entity \<Rightarrow> byte list \<Rightarrow> bool" where
  "header_reads_as e body \<longleftrightarrow> 4 \<le> length body \<and> take 2 (drop 2 body) = store_word 2 (en_handle e) \<and>
     (if body ! 1 = 0 then en_type_id e = DMI_TYPE_ID_END_OF_TABLE \<and> length body = 4
      else en_type_id e = int (unat (body ! 0)) \<and> length body = unat (body ! 1))"

lemma encoder_finish_preserve:
  assumes wf: "encoder_wf ec" and h: "generous h" and mode: "ec_mode ec = DMI_ENCODE_MODE_PRESERVE"
    and written: "writer_written (ec_writer ec) = header @ drop 4 (source_window ec)" "length header = 4"
    and short: "length (source_window ec) \<le> 255" and reads: "header_reads_as (ec_entity ec) (source_window ec)"
    and room: "unat (wr_base (ec_writer ec)) + 255 \<le> 18446744073709551488"
  shows "\<exists>ec'. dmi_encoder_finish h q ec = (True, ec', q) \<and> wr_base (ec_writer ec') = wr_base (ec_writer ec) \<and>
    writer_range (ec_writer ec') = source_window ec \<and> buffer_wf (wr_buffer (ec_writer ec')) \<and> ec_strings ec' = ec_strings ec \<and>
    take (unat (wr_base (ec_writer ec))) (buffer_bytes (wr_buffer (ec_writer ec'))) =
      take (unat (wr_base (ec_writer ec))) (buffer_bytes (wr_buffer (ec_writer ec)))"
proof -
  let ?body = "source_window ec" and ?e = "ec_entity ec" and ?w = "ec_writer ec"
  have four: "4 \<le> length ?body" using reads by (simp add: header_reads_as_def)
  have tell: "unat (dmi_encoder_tell ec) = length ?body"
    using encoder_tell_correct [OF wf] written four by simp
  obtain r where r: "ec_source ec = Some r" "reader_wf r" "reader_window r = ?body"
    using four wf by (cases "ec_source ec") (simp_all add: source_window_def encoder_wf_def)
  have four_word: "unat (4 :: size_t) = 4" by simp
  have original: "dmi_reader_get_bytes_at r 0 4 = Inr (take 4 ?body)"
    using get_bytes_at_correct [OF r(2), of 0 4] r(3) four by (simp del: unat_numeral add: four_word)
  let ?header = "header_bytes ?e (of_nat (length ?body))"
  have nth: "take 4 ?body ! 0 = ?body ! 0" "take 4 ?body ! 1 = ?body ! 1" using four by simp_all
  have drops: "drop 2 (take 4 ?body) = drop 2 ?header"
    using reads by (simp add: header_reads_as_def header_bytes_def drop_take)
  have type: "if take 4 ?body ! 1 = 0 then int (unat (?header ! 0)) = DMI_TYPE_ID_END_OF_TABLE \<and> unat (?header ! 1) = 4
      else take 4 ?body ! 0 = ?header ! 0 \<and> take 4 ?body ! 1 = ?header ! 1"
    using reads four by (auto simp: header_reads_as_def header_bytes_def nth DMI_TYPE_ID_END_OF_TABLE_def)
  have w: "writer_wf ?w" "\<not> wr_bounded ?w" and range: "writer_range ?w = header @ drop 4 ?body"
    using wf written by (simp_all add: encoder_wf_def)
  have fits: "dmi_writer_fits ?w 0 (size_of (take 4 ?body))"
    using room four by (simp add: writer_fits_correct [OF w(1)] w(2) unat_size_of)
  obtain w' where w': "dmi_writer_put_bytes_at h ?w (take 4 ?body) 0 = Inr w'"
    using write_succeeds [OF h, of "wr_base ?w" "take 4 ?body" "wr_buffer ?w"] room four fits
    by (auto simp: dmi_writer_put_bytes_at_def)
  have len4: "length (take 4 ?body) < 18446744073709551616" by simp
  note p = put_bytes_at_correct [OF w(1) len4 w']
  have "writer_range w' = ?body"
    using p(2) range written(2) four by (auto simp: write_bytes_def patch_def)
  moreover have "dmi_encoder_finish h q ec = (True, ec\<lparr>ec_writer := w'\<rparr>, q)"
    using four short tell drops type mode r original w'
    by (cases "?body ! 1 = 0") (simp_all add: dmi_encoder_finish_def Let_def)
  ultimately show ?thesis using p(1,4,6) by (simp add: writer_wf_def)
qed

lemma created_header_reads:
  assumes "buffer_wf b" and "dmi_entity_create m q0 b off = (Some e, q1)"
  shows "header_reads_as e (entity_body e)" and "entity_readable e" and "decoder_body e = entity_body e" and "en_body_length e \<le> 255"
proof -
  note c = entity_create_some [OF assms]
  have in_buf: "4 \<le> en_body_length e" "en_body_length e < 256" "en_offset e + en_body_length e \<le> length (buffer_bytes b)"
    "en_handle e = load_word (take 2 (drop (off + 2) (buffer_bytes b)))"
    using c(2-4) by (auto simp: entity_in_buffer_def)
  have body: "entity_body e = take (en_body_length e) (drop off (buffer_bytes b))" using c(3,4) by (simp add: entity_body_def)
  have len: "length (entity_body e) = en_body_length e" using in_buf(3) c(4) by (simp add: body)
  have nth: "entity_body e ! k = buffer_bytes b ! (off + k)" if "k < 4" for k
    using that in_buf c(4) by (simp add: body)
  let ?h = "take 2 (drop (off + 2) (buffer_bytes b))"
  have "length ?h = 2" using in_buf c(4) by simp
  then have "store_word 2 (load_word ?h :: dmi_handle_t) = ?h" using store_load_word [of ?h, where ?'a = 16] by simp
  moreover have "take 2 (drop 2 (entity_body e)) = ?h"
    using in_buf(1) by (simp add: body drop_take add.commute min_def)
  ultimately have handle: "take 2 (drop 2 (entity_body e)) = store_word 2 (en_handle e)" using in_buf(4) by simp
  show "header_reads_as e (entity_body e)"
    using c(9,10) nth [of 0] nth [of 1] len in_buf(1) handle
    by (cases "buffer_bytes b ! (off + 1) = 0") (simp_all add: header_reads_as_def)
  show "entity_readable e" by (rule entity_in_buffer_readable [OF c(2) c(8)])
  show "decoder_body e = entity_body e"
    using c(8) by (simp add: decoder_body_def entity_body_def dmi_entity_buffer_def dmi_entity_offset_def)
  show "en_body_length e \<le> 255" using in_buf(2) by simp
qed

section \<open>Properties\<close>

text \<open>
  C7. A structure of a table which nothing is known of is encoded back, in the preserve mode, into
  the very bytes of its formatted area, whatever they are, the header of a structure without a length
  included; they are written behind what the buffer held before, which stays, and the strings keep
  their numbers.
\<close>

theorem encode_preserves_bytes:
  assumes "buffer_wf b" and "dmi_entity_create m q0 b off = (Some e, q1)"
    and "buffer_wf out" and "generous h" and "\<forall>i. mem i" and "length (buffer_bytes out) + 255 \<le> 18446744073709551488"
  shows "\<exists>ec ec'. dmi_encoder_initialize h mem q out e DMI_ENCODE_MODE_PRESERVE version = (Some ec, q) \<and>
    dmi_entity_encode ops h mem q ec = (True, ec', q) \<and>
    buffer_bytes (wr_buffer (ec_writer ec')) = buffer_bytes out @ entity_body e \<and>
    ec_strings ec' = map (Some \<circ> se_raw) (en_strings e)"
proof -
  note c = created_header_reads [OF assms(1,2)] and spec = entity_create_some(5) [OF assms(1,2)]
  from encoder_initialize_preserve [OF c(2) assms(3-6), of q version] obtain ec where
    init: "dmi_encoder_initialize h mem q out e DMI_ENCODE_MODE_PRESERVE version = (Some ec, q)" "encoder_wf ec"
      "ec_entity ec = e" "ec_mode ec = DMI_ENCODE_MODE_PRESERVE" "ec_strings ec = map (Some \<circ> se_raw) (en_strings e)"
      "writer_written (ec_writer ec) = header_bytes e 0" "source_rest ec = drop 4 (entity_body e)"
      "source_window ec = entity_body e" "unat (wr_base (ec_writer ec)) = length (buffer_bytes out)"
      "take (length (buffer_bytes out)) (buffer_bytes (wr_buffer (ec_writer ec))) = buffer_bytes out"
    by (auto simp: c(3))
  have len: "length (entity_body e) = en_body_length e"
    using c(1,2) by (auto simp: c(3) [symmetric] decoder_body_def entity_readable_def min_def)
  have header: "length (header_bytes e 0) = 4" by (simp add: header_bytes_def)
  have room: "unat (wr_base (ec_writer ec)) + length (writer_written (ec_writer ec)) + length (source_rest ec) \<le> 18446744073709551488"
    using assms(6) init(6,7,9) len c(4) header by simp
  from encoder_copy_correct [OF assms(4) init(2,4), of "length (source_rest ec)" q] obtain ec1 where
    copy: "dmi_encoder_copy h q ec (length (source_rest ec)) = (True, ec1, q)" "encoder_wf ec1" "encoder_frame ec ec1"
      "writer_written (ec_writer ec1) = header_bytes e 0 @ drop 4 (entity_body e)"
    using room init(6,7) by auto
  have ec1: "ec_entity ec1 = e" "ec_mode ec1 = DMI_ENCODE_MODE_PRESERVE" "source_window ec1 = entity_body e"
    "wr_base (ec_writer ec1) = wr_base (ec_writer ec)" "ec_strings ec1 = ec_strings ec"
    "take (length (buffer_bytes out)) (buffer_bytes (wr_buffer (ec_writer ec1))) = buffer_bytes out"
    using copy(3) init by (simp_all add: encoder_frame_def)
  from encoder_finish_preserve [OF copy(2) assms(4) ec1(2), of "header_bytes e 0" q] obtain ec' where
    fin: "dmi_encoder_finish h q ec1 = (True, ec', q)" "wr_base (ec_writer ec') = wr_base (ec_writer ec1)"
      "writer_range (ec_writer ec') = entity_body e" "ec_strings ec' = ec_strings ec1"
      "take (unat (wr_base (ec_writer ec1))) (buffer_bytes (wr_buffer (ec_writer ec'))) = buffer_bytes out"
    using copy(4) header ec1 len c(1,4) init(9) assms(6) by auto
  have "buffer_bytes (wr_buffer (ec_writer ec')) = buffer_bytes out @ entity_body e"
    using fin(2,3,5) append_take_drop_id [of "unat (wr_base (ec_writer ec1))" "buffer_bytes (wr_buffer (ec_writer ec'))"]
    by (simp add: writer_range_def)
  moreover have "dmi_entity_encode ops h mem q ec = (True, ec', q)"
    using spec init(3,4) copy(1) fin(1)
    by (simp add: dmi_entity_encode_def encode_rest_def encoder_remaining_correct [OF init(2)])
  ultimately show ?thesis using init fin(4) ec1(5) by auto
qed

theorem encode_preserves_bytes_witness:
  "\<exists>e. \<exists>ec ec' :: nat dmi_encoder. dmi_entity_create (\<lambda>i. True) empty_queue example_table 12 = (Some (e :: nat dmi_entity), empty_queue) \<and>
    dmi_entity_encode \<lparr>eo_fields_encode = (\<lambda>h mem q ec. (False, ec, q)), eo_encode = (\<lambda>spec. None)\<rparr>
      (\<lambda>n. Some (\<lambda>i. 0)) (\<lambda>i. True) empty_queue ec = (True, ec', empty_queue) \<and>
    buffer_bytes (wr_buffer (ec_writer ec')) = buffer_bytes (dmi_buffer_create 7) @ entity_body e"
proof -
  have "entity_fault (drop 12 (buffer_bytes example_table)) = None"
    unfolding entity_fault_def by (simp add: Let_def example_table_bytes double_zero_def)
  then obtain e :: "nat dmi_entity" where e: "dmi_entity_create (\<lambda>i. True) empty_queue example_table 12 = (Some e, empty_queue)"
    using entity_create_outcome [OF example_table_wf, of "\<lambda>i. True" empty_queue 12, where ?'a = nat and ?'b = nat] by auto
  have "generous (\<lambda>n. Some (\<lambda>i. 0))" by (simp add: generous_def)
  from encode_preserves_bytes [OF example_table_wf e buffer_wf_create [of 7] this, of "\<lambda>i. True" empty_queue 0
      "\<lparr>eo_fields_encode = (\<lambda>h mem q ec. (False, ec, q)), eo_encode = (\<lambda>spec. None)\<rparr>"]
  have "\<exists>ec ec' :: nat dmi_encoder. dmi_entity_encode \<lparr>eo_fields_encode = (\<lambda>h mem q ec. (False, ec, q)), eo_encode = (\<lambda>spec. None)\<rparr>
      (\<lambda>n. Some (\<lambda>i. 0)) (\<lambda>i. True) empty_queue ec = (True, ec', empty_queue) \<and>
    buffer_bytes (wr_buffer (ec_writer ec')) = buffer_bytes (dmi_buffer_create 7) @ entity_body e"
    by simp (elim exE conjE, intro exI conjI, assumption+)
  with e show ?thesis by blast
qed

lemma find_string_some: "find_string v n ss = Some k \<Longrightarrow> n < k \<and> k \<le> n + length ss \<and> ss ! (k - n - 1) = Some v"
proof (induction v n ss rule: find_string.induct)
  case (2 v n s ss)
  show ?case
  proof (cases "s = Some v")
    case True
    then show ?thesis using 2(2) by auto
  next
    case False
    then have "n + 1 < k" "k \<le> n + 1 + length ss" "ss ! (k - (n + 1) - 1) = Some v" using 2 by auto
    moreover from this(1) have "k - n - 1 = Suc (k - (n + 1) - 1)" by simp
    ultimately show ?thesis by simp
  qed
qed simp

lemma find_string_none: "find_string v n ss = None \<Longrightarrow> Some v \<notin> set ss"
  by (induction v n ss rule: find_string.induct) (auto split: if_splits)

lemma add_string_correct:
  assumes "dmi_encoder_add_string mem q ec (Some t) = (Some n, ec', q')"
  shows "0 < n" and "n \<le> length (ec_strings ec')" and "ec_strings ec' ! (n - 1) = Some t"
    and "take (length (ec_strings ec)) (ec_strings ec') = ec_strings ec"
    and "ec_mode ec = DMI_ENCODE_MODE_CANONICAL \<Longrightarrow> distinct (ec_strings ec) \<Longrightarrow> distinct (ec_strings ec')"
    and "\<exists>c. ec' = ec\<lparr>ec_strings := ec_strings ec', ec_capacity := c\<rparr>" and "q' = q"
proof -
  define found where "found = (if ec_mode ec = DMI_ENCODE_MODE_CANONICAL then find_string t 0 (ec_strings ec) else None)"
  have "0 < n \<and> n \<le> length (ec_strings ec') \<and> ec_strings ec' ! (n - 1) = Some t \<and>
      take (length (ec_strings ec)) (ec_strings ec') = ec_strings ec \<and> q' = q \<and>
      (\<exists>c. ec' = ec\<lparr>ec_strings := ec_strings ec', ec_capacity := c\<rparr>) \<and>
      (ec_mode ec = DMI_ENCODE_MODE_CANONICAL \<longrightarrow> distinct (ec_strings ec) \<longrightarrow> distinct (ec_strings ec'))"
  proof (cases found)
    case (Some k)
    then have "n = k" "ec' = ec" "q' = q"
      using assms by (simp_all add: dmi_encoder_add_string_def found_def split: if_splits)
    moreover have "find_string t 0 (ec_strings ec) = Some k" using Some by (simp add: found_def split: if_splits)
    moreover have "\<exists>c. ec = ec\<lparr>ec_strings := ec_strings ec, ec_capacity := c\<rparr>"
      by (intro exI [of _ "ec_capacity ec"]) simp
    ultimately show ?thesis using find_string_some [of t 0 "ec_strings ec" k] by simp
  next
    case None
    let ?c = "if length (ec_strings ec) = ec_capacity ec then (if ec_capacity ec \<noteq> 0 then ec_capacity ec * 2 else 8) else ec_capacity ec"
    have nf: "ec_mode ec = DMI_ENCODE_MODE_CANONICAL \<Longrightarrow> find_string t 0 (ec_strings ec) = None" using None by (simp add: found_def)
    have "n = length (ec_strings ec) + 1 \<and> q' = q \<and> ec' = ec\<lparr>ec_strings := ec_strings ec @ [Some t], ec_capacity := ?c\<rparr>"
      using assms nf
      by (cases "ec_mode ec"; cases "length (ec_strings ec) = ec_capacity ec")
        (auto simp: dmi_encoder_add_string_def Let_def split: if_splits)
    moreover from this have "\<exists>c. ec' = ec\<lparr>ec_strings := ec_strings ec', ec_capacity := c\<rparr>" by (intro exI [of _ ?c]) simp
    moreover have "ec_mode ec = DMI_ENCODE_MODE_CANONICAL \<Longrightarrow> Some t \<notin> set (ec_strings ec)"
      using None find_string_none [of t 0] by (simp add: found_def)
    ultimately show ?thesis by simp
  qed
  then show "0 < n" and "n \<le> length (ec_strings ec')" and "ec_strings ec' ! (n - 1) = Some t"
    and "take (length (ec_strings ec)) (ec_strings ec') = ec_strings ec"
    and "ec_mode ec = DMI_ENCODE_MODE_CANONICAL \<Longrightarrow> distinct (ec_strings ec) \<Longrightarrow> distinct (ec_strings ec')"
    and "\<exists>c. ec' = ec\<lparr>ec_strings := ec_strings ec', ec_capacity := c\<rparr>" and "q' = q" by blast+
qed

text \<open>The text a string value stands for in the structure: strings are written as they were stored.\<close>

definition stored_text :: "'i dmi_entity \<Rightarrow> dmi_string_ref \<Rightarrow> byte list" where
  "stored_text e v = (case v of String_text t \<Rightarrow> t | String_raw i \<Rightarrow> se_raw (en_strings e ! i) | String_pretty i \<Rightarrow> se_raw (en_strings e ! i))"

definition ref_in_range :: "'i dmi_entity \<Rightarrow> dmi_string_ref \<Rightarrow> bool" where
  "ref_in_range e v = (case v of String_text t \<Rightarrow> True | String_raw i \<Rightarrow> i < en_string_count e | String_pretty i \<Rightarrow> i < en_string_count e)"

lemma find_upt_eq: "i < n \<Longrightarrow> find (\<lambda>k. i = k) [0..<n] = Some i"
  unfolding find_Some_iff by (intro exI [of _ i]) simp

lemma find_ref:
  "ref_in_range e v \<Longrightarrow> find (\<lambda>i. v = String_raw i \<or> v = String_pretty i) [0..<en_string_count e] =
    (case v of String_text t \<Rightarrow> None | String_raw i \<Rightarrow> Some i | String_pretty i \<Rightarrow> Some i)"
  by (cases v) (simp_all add: ref_in_range_def find_None_iff find_upt_eq)

text \<open>
  C23. The number a string is written by refers to that text as the structure stores it: in the canonical mode the
  encoder gives every text one number, the same one each time, and in the preserve mode a
  string of the structure keeps the number it was read by and nothing is added; the texts already numbered
  keep their numbers, and a number is never more than a byte.
\<close>

theorem encoder_numbers_strings:
  assumes "encoder_wf ec" and "ref_in_range (ec_entity ec) v" and "en_string_count (ec_entity ec) = length (en_strings (ec_entity ec))"
    and "ec_mode ec = DMI_ENCODE_MODE_PRESERVE \<longrightarrow>
      take (en_string_count (ec_entity ec)) (ec_strings ec) = map (Some \<circ> se_raw) (en_strings (ec_entity ec))"
    and "dmi_encoder_put_string h mem q ec (Some v) = (True, ec', q')"
  shows "\<exists>n. 0 < n \<and> n \<le> 255 \<and> n \<le> length (ec_strings ec') \<and> encoder_wf ec' \<and>
    writer_written (ec_writer ec') = writer_written (ec_writer ec) @ [of_nat n] \<and>
    ec_strings ec' ! (n - 1) = Some (stored_text (ec_entity ec) v) \<and>
    take (length (ec_strings ec)) (ec_strings ec') = ec_strings ec \<and>
    (ec_mode ec = DMI_ENCODE_MODE_CANONICAL \<longrightarrow> distinct (ec_strings ec) \<longrightarrow> distinct (ec_strings ec')) \<and>
    (ec_mode ec = DMI_ENCODE_MODE_PRESERVE \<longrightarrow> (\<forall>i. v = String_raw i \<or> v = String_pretty i \<longrightarrow> n = i + 1 \<and> ec_strings ec' = ec_strings ec))"
proof -
  let ?e = "ec_entity ec"
  define known where "known = (case v of String_text t \<Rightarrow> None | String_raw i \<Rightarrow> Some i | String_pretty i \<Rightarrow> Some i)"
  note find_ref [OF assms(2), folded known_def]
  note fnd = this
  have range: "known = Some i \<Longrightarrow> i < en_string_count ?e" for i
    using assms(2) by (auto simp: known_def ref_in_range_def split: dmi_string_ref.splits)
  obtain n ec1 q1 where n: "n \<le> 255" "dmi_encoder_put_bytes h q1 ec1 [of_nat n] = (True, ec', q')"
    and how: "if ec_mode ec = DMI_ENCODE_MODE_PRESERVE \<and> known \<noteq> None then n = the known + 1 \<and> ec1 = ec \<and> q1 = q
      else dmi_encoder_add_string mem q ec (Some (stored_text ?e v)) = (Some n, ec1, q1)"
    using assms(5) unfolding dmi_encoder_put_string_def option.case fnd
    by (cases v) (auto simp: known_def stored_text_def string_of_ref_def Let_def split: if_splits option.splits prod.splits)
  have ec1: "0 < n \<and> n \<le> length (ec_strings ec1) \<and> ec_strings ec1 ! (n - 1) = Some (stored_text ?e v) \<and>
    take (length (ec_strings ec)) (ec_strings ec1) = ec_strings ec \<and> encoder_wf ec1 \<and>
    writer_written (ec_writer ec1) = writer_written (ec_writer ec) \<and>
    (ec_mode ec = DMI_ENCODE_MODE_CANONICAL \<longrightarrow> distinct (ec_strings ec) \<longrightarrow> distinct (ec_strings ec1))"
  proof (cases "ec_mode ec = DMI_ENCODE_MODE_PRESERVE \<and> known \<noteq> None")
    case True
    then obtain i where i: "known = Some i" "n = i + 1" "ec1 = ec" using how by auto
    have taken: "take (en_string_count ?e) (ec_strings ec) = map (Some \<circ> se_raw) (en_strings ?e)" using assms(4) True by blast
    have len: "en_string_count ?e \<le> length (ec_strings ec)" using arg_cong [OF taken, of length] assms(3) by (simp add: min_def split: if_splits)
    have "ec_strings ec ! i = (map (Some \<circ> se_raw) (en_strings ?e)) ! i" using range [OF i(1)] taken by (metis nth_take)
    then have "ec_strings ec ! i = Some (stored_text ?e v)"
      using range [OF i(1)] assms(3) i(1) by (cases v) (auto simp: known_def stored_text_def)
    then show ?thesis using i range [OF i(1)] len assms(1) True by auto
  next
    case False
    then have "dmi_encoder_add_string mem q ec (Some (stored_text ?e v)) = (Some n, ec1, q1)" using how by auto
    note a = add_string_correct [OF this]
    obtain c where "ec1 = ec\<lparr>ec_strings := ec_strings ec1, ec_capacity := c\<rparr>" using a(6) by blast
    then have "ec_writer ec1 = ec_writer ec" "ec_source ec1 = ec_source ec"
      by (metis dmi_encoder.select_convs dmi_encoder.surjective dmi_encoder.update_convs(6,7))+
    then show ?thesis using a assms(1) by (simp add: encoder_wf_def)
  qed
  have wf1: "encoder_wf ec1" using ec1 by blast
  have "length [of_nat n :: byte] < 18446744073709551616" by simp
  note p = encoder_put_correct [OF wf1 this n(2)]
  have strings: "ec_strings ec' = ec_strings ec1" using p(3) by (simp add: encoder_frame_def)
  have keeps: "ec_mode ec = DMI_ENCODE_MODE_PRESERVE \<longrightarrow> (\<forall>i. v = String_raw i \<or> v = String_pretty i \<longrightarrow> n = i + 1 \<and> ec_strings ec' = ec_strings ec)"
    using how strings by (auto simp: known_def)
  show ?thesis using ec1 n(1) p(2,4) strings keeps by (intro exI [of _ n]) simp
qed

theorem encoder_numbers_strings_witness:
  "\<exists>e ec ec' q. dmi_entity_create (\<lambda>i. True) empty_queue example_table 0 = (Some (e :: nat dmi_entity), empty_queue) \<and>
    ec_strings ec = [] \<and> ec_mode ec = DMI_ENCODE_MODE_CANONICAL \<and>
    dmi_encoder_put_string (\<lambda>n. Some (\<lambda>i. 0)) (\<lambda>i. True) empty_queue ec (Some (String_text [66, 67])) = (True, ec', q) \<and>
    ec_entity ec = e \<and> Some [66, 67] \<in> set (ec_strings ec')"
proof -
  let ?h = "\<lambda>n. Some (\<lambda>i. 0)"
  obtain e :: "nat dmi_entity" where e: "dmi_entity_create (\<lambda>i. True) empty_queue example_table 0 = (Some e, empty_queue)"
    using example_table_created by blast
  then have count: "en_string_count e = length (en_strings e)"
    using entity_create_some(2) [OF example_table_wf e] by (simp add: entity_in_buffer_def)
  obtain w where w: "dmi_writer_initialize (dmi_buffer_create 7) (buf_length (dmi_buffer_create 7)) (-1) = Inr w"
    by (simp add: dmi_writer_initialize_def)
  note s = encoder_start [OF buffer_wf_create w]
  let ?ec = "\<lparr>ec_entity = e, ec_mode = DMI_ENCODE_MODE_CANONICAL, ec_version = 0, ec_writer = w, ec_source = None,
      ec_strings = [], ec_capacity = 8\<rparr>"
  have wf: "encoder_wf ?ec" using s by (simp add: encoder_wf_def)
  have base: "unat (wr_base w) = 0" using s(5) by (simp add: dmi_buffer_create_def)
  let ?ec1 = "?ec\<lparr>ec_strings := [Some [66, 67]]\<rparr>"
  have wf1: "encoder_wf ?ec1" using wf by (simp add: encoder_wf_def)
  have "generous ?h" by (simp add: generous_def)
  from encoder_put_succeeds [OF wf1 this, of "[1]" empty_queue] s base obtain ec' where
    put: "dmi_encoder_put_bytes ?h empty_queue ?ec1 [1] = (True, ec', empty_queue)" by auto
  have none: "find (\<lambda>i. False) xs = None" for xs :: "nat list" by (simp add: find_None_iff)
  have run: "dmi_encoder_put_string ?h (\<lambda>i. True) empty_queue ?ec (Some (String_text [66, 67])) = (True, ec', empty_queue)"
    using put none by (simp add: dmi_encoder_put_string_def dmi_encoder_add_string_def string_of_ref_def)
  obtain n where "0 < n" "n \<le> length (ec_strings ec')" "ec_strings ec' ! (n - 1) = Some [66, 67]"
    using encoder_numbers_strings [OF wf _ _ _ run] count by (auto simp: ref_in_range_def stored_text_def)
  then have "Some [66, 67] \<in> set (ec_strings ec')" using nth_mem [of "n - 1" "ec_strings ec'"] by simp
  with e run show ?thesis by (intro exI [of _ e] exI [of _ ?ec] exI [of _ ec'] exI [of _ empty_queue]) simp
qed

end
