(* ===== verification/Utils.thy ===== *)
theory Utils
  imports Codec
begin

text \<open>
  The arithmetic helpers of \<^verbatim>\<open>src/utils.c\<close>: checksums of structures and integer powers.
\<close>

section \<open>Checksums\<close>

text \<open>The loop of \<open>dmi_checksum_calc\<close> over the bytes; the sum is an 8 bit integer and wraps.\<close>

definition dmi_checksum_calc :: "byte list \<Rightarrow> byte" where
  "dmi_checksum_calc data = - fold (\<lambda>b sum. sum + b) data 0"

definition dmi_checksum_test :: "byte list \<Rightarrow> bool" where
  "dmi_checksum_test data \<longleftrightarrow> dmi_checksum_calc data = 0"

lemma fold_sum: "fold (\<lambda>b sum. sum + b) data s = s + sum_list (data :: byte list)"
  by (induction data arbitrary: s) simp_all

lemma checksum_sum: "dmi_checksum_calc data = - sum_list data"
  by (simp add: dmi_checksum_calc_def fold_sum)

lemma checksum_test_sum: "dmi_checksum_test data \<longleftrightarrow> sum_list data = 0"
  by (simp add: dmi_checksum_test_def checksum_sum)

lemma sum_list_byte: "sum_list (data :: byte list) = word_of_nat (sum_list (map unat data))"
  by (induction data) simp_all

section \<open>Integer powers\<close>

text \<open>
  The loop of \<open>dmi_ipow32\<close> and \<open>dmi_ipow64\<close>, of the variables \<open>value\<close>, \<open>factor\<close> and
  \<open>result\<close>, at the width of the word.
\<close>

function ipow_loop :: "'a::len word \<Rightarrow> nat \<Rightarrow> 'a word \<Rightarrow> 'a word" where
  "ipow_loop value factor result =
    (if factor > 1 then
       (let (result, factor) = (if factor mod 2 \<noteq> 0 then (result * value, factor - 1) else (result, factor))
        in ipow_loop (value * value) (factor div 2) result)
     else value * result)"
  by pat_completeness auto
termination by (relation "measure (\<lambda>(value, factor, result). factor)") (auto split: if_splits)

declare ipow_loop.simps [simp del]

definition dmi_ipow32 :: "uint32_t \<Rightarrow> nat \<Rightarrow> uint32_t" where
  "dmi_ipow32 value factor = (if factor = 0 then 1 else ipow_loop value factor 1)"

definition dmi_ipow64 :: "uint64_t \<Rightarrow> nat \<Rightarrow> uint64_t" where
  "dmi_ipow64 value factor = (if factor = 0 then 1 else ipow_loop value factor 1)"

lemma ipow_loop_power: "0 < factor \<Longrightarrow> ipow_loop value factor result = value ^ factor * result"
proof (induction "value" factor result rule: ipow_loop.induct)
  case (1 "value" factor result)
  consider "factor = 1" | (even) "factor > 1" "factor mod 2 = 0" | (odd) "factor > 1" "factor mod 2 = 1"
    using 1(2) by fastforce
  then show ?case
  proof cases
    case even
    then have "ipow_loop value factor result = (value * value) ^ (factor div 2) * result"
      using 1(1) [of "(result, factor)" result factor] by (simp add: ipow_loop.simps [of "value" factor])
    also have "(value * value) ^ (factor div 2) = value ^ factor"
      using even by (metis mult.commute mult_2 nonzero_mult_div_cancel_left power_add power_mult mod_0_imp_dvd dvd_mult_div_cancel power2_eq_square)
    finally show ?thesis .
  next
    case odd
    then have odd_pos: "0 < (factor - 1) div 2" by presburger
    from odd have "ipow_loop value factor result = (value * value) ^ ((factor - 1) div 2) * (result * value)"
      using 1(1) [of "(result * value, factor - 1)" "result * value" "factor - 1"]
      using odd_pos by (simp add: ipow_loop.simps [of "value" factor])
    also have "\<dots> = value ^ Suc (2 * ((factor - 1) div 2)) * result"
      by (simp add: power_mult power2_eq_square algebra_simps)
    also have "Suc (2 * ((factor - 1) div 2)) = factor" using odd by presburger
    finally show ?thesis .
  qed (simp add: ipow_loop.simps)
qed

section \<open>Properties\<close>

text \<open>
  A checksum test accepts exactly the data whose bytes sum up to a multiple of 256, and
  data followed by the checksum calculated of it passes the test wherever the checksum is
  stored.
\<close>

theorem checksum_completes:
  "(dmi_checksum_test data \<longleftrightarrow> sum_list (map unat data) mod 256 = 0) \<and>
   dmi_checksum_test (xs @ dmi_checksum_calc (xs @ ys) # ys)"
proof
  have "(word_of_nat (sum_list (map unat data)) :: byte) = 0 \<longleftrightarrow> 256 dvd sum_list (map unat data)"
    by (simp add: word_of_nat_eq_0_iff)
  then show "dmi_checksum_test data \<longleftrightarrow> sum_list (map unat data) mod 256 = 0"
    by (simp add: checksum_test_sum sum_list_byte mod_eq_0_iff_dvd)
  show "dmi_checksum_test (xs @ dmi_checksum_calc (xs @ ys) # ys)"
    by (simp add: checksum_test_sum checksum_sum)
qed

text \<open>
  The integer powers end and are the powers of words, modulo the width of the word, for
  every exponent.
\<close>

theorem ipow_is_power:
  "dmi_ipow32 u n = u ^ n \<and> dmi_ipow64 v n = v ^ n"
  by (simp add: dmi_ipow32_def dmi_ipow64_def ipow_loop_power)

end
