(* ===== verification/Base64.thy ===== *)
theory Base64
  imports Codec
begin

text \<open>
  Base64 (\<^verbatim>\<open>src/utils/base64.c\<close>), which the formatting and the anonymizing of raw data use.
  Data and text are lists, no longer than an object in memory can be (\<open>PTRDIFF_MAX\<close>), so
  that the computation of the output length does not wrap around; memory comes from the heap.
\<close>

definition base64_encode_table :: string where
  "base64_encode_table = ''ABCDEFGHIJKLMNOPQRSTUVWXYZabcdefghijklmnopqrstuvwxyz0123456789+/''"

definition base64_mod_table :: "nat list" where
  "base64_mod_table = [0, 2, 1]"

text \<open>The four characters of a group of three octets.\<close>

definition base64_group :: "byte \<Rightarrow> byte \<Rightarrow> byte \<Rightarrow> string" where
  "base64_group a b c =
    (let octet_a = (ucast a :: uint32_t); octet_b = ucast b; octet_c = ucast c;
         triple = push_bit 0x10 octet_a + push_bit 0x08 octet_b + octet_c
     in map (\<lambda>k. base64_encode_table ! unat (drop_bit (k * 6) triple AND 0x3F)) [3, 2, 1, 0])"

fun base64_encode_loop :: "byte list \<Rightarrow> string" where
  "base64_encode_loop [] = []"
| "base64_encode_loop [a] = base64_group a 0 0"
| "base64_encode_loop [a, b] = base64_group a b 0"
| "base64_encode_loop (a # b # c # rest) = base64_group a b c @ base64_encode_loop rest"

definition dmi_base64_encode :: "heap \<Rightarrow> byte list \<Rightarrow> string option" where
  "dmi_base64_encode h data =
    (if data = [] then None
     else
       let output_length = 4 * ((length data + 2) div 3)
       in (case h (word_of_nat (output_length + 1)) of
             None \<Rightarrow> None
           | Some _ \<Rightarrow>
               Some (fold (\<lambda>i out. out[output_length - 1 - i := CHR ''=''])
                 [0..<base64_mod_table ! (length data mod 3)] (base64_encode_loop data))))"

definition dmi_base64_sextet :: "char \<Rightarrow> int" where
  "dmi_base64_sextet c =
    (let v = int (of_char c) in
     if v \<ge> 65 \<and> v \<le> 90 then v - 65
     else if v \<ge> 97 \<and> v \<le> 122 then v - 97 + 26
     else if v \<ge> 48 \<and> v \<le> 57 then v - 48 + 52
     else if c = CHR ''+'' then 62
     else if c = CHR ''/'' then 63
     else -1)"

text \<open>
  The inner loop over the four characters at \<open>i\<close>; \<open>limit\<close> is \<open>data_length - padding\<close>, from
  which on the padding stands. No value is given when a character is not of the alphabet.
\<close>

fun base64_triple :: "nat \<Rightarrow> nat \<Rightarrow> string \<Rightarrow> uint32_t \<Rightarrow> uint32_t option" where
  "base64_triple limit i [] triple = Some triple"
| "base64_triple limit i (c # cs) triple =
    (let sextet = (if i < limit then dmi_base64_sextet c else 0)
     in if sextet < 0 then None
        else base64_triple limit (i + 1) cs (push_bit 6 triple OR word_of_int sextet))"

text \<open>The outer loop; \<open>room\<close> is what is left of the output, \<open>output_length - j\<close>.\<close>

fun base64_decode_loop :: "nat \<Rightarrow> nat \<Rightarrow> nat \<Rightarrow> string \<Rightarrow> byte list option" where
  "base64_decode_loop limit room i (c0 # c1 # c2 # c3 # rest) =
    (case base64_triple limit i [c0, c1, c2, c3] 0 of
       None \<Rightarrow> None
     | Some triple \<Rightarrow>
         let bytes = take room (map (\<lambda>shift. ucast (drop_bit shift triple AND 0xFF)) [16, 8, 0])
         in (case base64_decode_loop limit (room - length bytes) (i + 4) rest of
               None \<Rightarrow> None
             | Some out \<Rightarrow> Some (bytes @ out)))"
| "base64_decode_loop limit room i _ = Some []"

definition dmi_base64_decode :: "heap \<Rightarrow> string \<Rightarrow> byte list option" where
  "dmi_base64_decode h data =
    (if length data = 0 \<or> length data mod 4 \<noteq> 0 then None
     else
       let padding = (if data ! (length data - 1) = CHR ''='' then 1 else 0);
           padding = (if padding > 0 \<and> data ! (length data - 2) = CHR ''='' then padding + 1 else padding);
           output_length = length data div 4 * 3 - padding
       in (case h (word_of_nat output_length) of
             None \<Rightarrow> None
           | Some _ \<Rightarrow> base64_decode_loop (length data - padding) output_length 0 data))"

section \<open>The alphabet\<close>

lemma sextet_table: "n < 64 \<Longrightarrow> dmi_base64_sextet (base64_encode_table ! n) = int n"
proof -
  have "\<forall>n < 64. dmi_base64_sextet (base64_encode_table ! n) = int n"
    by (simp add: all_less_numeral base64_encode_table_def dmi_base64_sextet_def)
  then show "n < 64 \<Longrightarrow> ?thesis" by blast
qed

lemma table_not_pad: "n < 64 \<Longrightarrow> base64_encode_table ! n \<noteq> CHR ''=''"
  using sextet_table [of n] by (auto simp: dmi_base64_sextet_def)

text \<open>The bits of a group.\<close>

definition base64_word :: "byte \<Rightarrow> byte \<Rightarrow> byte \<Rightarrow> uint32_t" where
  "base64_word a b c = push_bit 16 (ucast a) OR push_bit 8 (ucast b) OR ucast c"

lemma base64_word_sum:
  "push_bit 16 (ucast (a :: byte) :: uint32_t) + push_bit 8 (ucast (b :: byte)) + ucast (c :: byte) = base64_word a b c"
proof -
  have "push_bit 16 (ucast a :: uint32_t) + push_bit 8 (ucast b) = push_bit 16 (ucast a) OR push_bit 8 (ucast b)"
    by (rule disjunctive_add) (auto simp: bit_simps dest!: bit_imp_le_length)
  moreover have "(push_bit 16 (ucast a :: uint32_t) OR push_bit 8 (ucast b)) + ucast c =
      (push_bit 16 (ucast a) OR push_bit 8 (ucast b)) OR ucast c"
    by (rule disjunctive_add) (auto simp: bit_simps dest!: bit_imp_le_length)
  ultimately show ?thesis by (simp add: base64_word_def or.assoc)
qed

lemma base64_word_bytes:
  "ucast (drop_bit 16 (base64_word a b c) AND 0xFF) = a"
  "ucast (drop_bit 8 (base64_word a b c) AND 0xFF) = b"
  "ucast (base64_word a b c AND 0xFF) = c"
proof -
  have "\<forall>n < 8. bit (ucast (drop_bit 16 (base64_word a b c) AND 0xFF) :: byte) n = bit a n"
    by (simp add: all_less_numeral bit_simps base64_word_def) (auto dest: bit_imp_le_length)
  then show "ucast (drop_bit 16 (base64_word a b c) AND 0xFF) = a" by (intro bit_word_eqI) simp
  have "\<forall>n < 8. bit (ucast (drop_bit 8 (base64_word a b c) AND 0xFF) :: byte) n = bit b n"
    by (simp add: all_less_numeral bit_simps base64_word_def) (auto dest: bit_imp_le_length)
  then show "ucast (drop_bit 8 (base64_word a b c) AND 0xFF) = b" by (intro bit_word_eqI) simp
  have "\<forall>n < 8. bit (ucast (base64_word a b c AND 0xFF) :: byte) n = bit c n"
    by (simp add: all_less_numeral bit_simps base64_word_def)
  then show "ucast (base64_word a b c AND 0xFF) = c" by (intro bit_word_eqI) simp
qed

lemma base64_word_sextets:
  fixes w :: uint32_t
  assumes "\<forall>n. 24 \<le> n \<longrightarrow> \<not> bit w n"
  shows "push_bit 6 (push_bit 6 (push_bit 6 (drop_bit 18 w AND 0x3F) OR (drop_bit 12 w AND 0x3F))
    OR (drop_bit 6 w AND 0x3F)) OR (w AND 0x3F) = w" (is "?l = w")
proof -
  have "\<forall>n < 32. bit ?l n = bit w n"
    using assms by (simp add: all_less_numeral bit_simps)
  then show ?thesis by (intro bit_word_eqI) simp
qed

section \<open>Round trip\<close>

lemma sextet_less: "unat ((w :: uint32_t) AND 0x3F) < 64"
proof -
  have "w AND 0x3F = take_bit 6 w" by (simp add: take_bit_eq_mask mask_eq_exp_minus_1)
  then show ?thesis by (simp add: take_bit_eq_mod unat_mod)
qed

lemma base64_word_high: "24 \<le> n \<Longrightarrow> \<not> bit (base64_word a b c) n"
  by (auto simp: base64_word_def bit_simps dest!: bit_imp_le_length)

lemma base64_group_word:
  "base64_group a b c = map (\<lambda>k. base64_encode_table ! unat (drop_bit (k * 6) (base64_word a b c) AND 0x3F)) [3, 2, 1, 0]"
  by (simp add: base64_group_def Let_def base64_word_sum)

lemma length_base64_group [simp]: "length (base64_group a b c) = 4"
  by (simp add: base64_group_word)

lemma length_base64_encode_loop [simp]: "length (base64_encode_loop data) = 4 * ((length data + 2) div 3)"
  by (induction data rule: base64_encode_loop.induct) (simp_all, presburger)

text \<open>What stands in place of the last characters is padding.\<close>

definition base64_padding :: "nat \<Rightarrow> nat" where
  "base64_padding n = base64_mod_table ! (n mod 3)"

definition base64_text :: "byte list \<Rightarrow> string" where
  "base64_text data =
    (let out = base64_encode_loop data; p = base64_padding (length data)
     in take (length out - p) out @ replicate p CHR ''='')"

lemma fold_pad:
  "n \<le> length out \<Longrightarrow> fold (\<lambda>i out'. out'[length out - 1 - i := c]) [0..<n] out = take (length out - n) out @ replicate n c"
proof (induction n)
  case (Suc n)
  then have "length out - 1 - n < length out" and e: "length out - n = Suc (length out - 1 - n)" by simp_all
  then have "(take (length out - n) out @ replicate n c)[length out - 1 - n := c] =
      take (length out - 1 - n) out @ c # replicate n c"
    by (simp add: list_update_append take_Suc_conv_app_nth del: take_Suc)
  then show ?case using Suc by simp
qed simp

lemma base64_padding_le: "base64_padding n \<le> 2" "n \<noteq> 0 \<Longrightarrow> base64_padding n \<le> 4 * ((n + 2) div 3)"
proof -
  have "n mod 3 = 0 \<or> n mod 3 = 1 \<or> n mod 3 = 2" by presburger
  then show p: "base64_padding n \<le> 2" by (auto simp: base64_padding_def base64_mod_table_def)
  show "n \<noteq> 0 \<Longrightarrow> base64_padding n \<le> 4 * ((n + 2) div 3)" using p by presburger
qed

lemma base64_encode_text:
  assumes "data \<noteq> []" and "h (word_of_nat (4 * ((length data + 2) div 3) + 1)) \<noteq> None"
  shows "dmi_base64_encode h data = Some (base64_text data)"
proof -
  have "base64_padding (length data) \<le> length (base64_encode_loop data)"
    using assms(1) base64_padding_le(2) [of "length data"] by simp
  from fold_pad [OF this, of "CHR ''=''"] show ?thesis
    using assms by (auto simp: dmi_base64_encode_def base64_text_def Let_def base64_padding_def)
qed

lemma base64_padding_simps [simp]:
  "base64_padding 0 = 0" "base64_padding (Suc 0) = 2" "base64_padding (Suc (Suc 0)) = 1"
  "base64_padding (Suc (Suc (Suc n))) = base64_padding n"
proof -
  have "Suc (Suc (Suc n)) mod 3 = n mod 3" by presburger
  then show "base64_padding (Suc (Suc (Suc n))) = base64_padding n" by (simp only: base64_padding_def)
qed (simp_all add: base64_padding_def base64_mod_table_def)

lemma base64_padding_fits: "base64_padding (length data) \<le> length (base64_encode_loop data)"
  using base64_padding_le(2) [of "length data"] by (cases data) auto

lemma base64_text_simps:
  "base64_text [] = []"
  "base64_text [a] = take 2 (base64_group a 0 0) @ ''==''"
  "base64_text [a, b] = take 3 (base64_group a b 0) @ ''=''"
  "base64_text (a # b # c # rest) = base64_group a b c @ base64_text rest"
proof -
  show "base64_text [] = []" "base64_text [a] = take 2 (base64_group a 0 0) @ ''==''"
    "base64_text [a, b] = take 3 (base64_group a b 0) @ ''=''"
    by (simp_all add: base64_text_def Let_def numeral_2_eq_2)
  have "length (base64_group a b c @ base64_encode_loop rest) - base64_padding (length rest) =
      4 + (length (base64_encode_loop rest) - base64_padding (length rest))"
    using base64_padding_fits [of rest] by (simp del: length_base64_encode_loop)
  then show "base64_text (a # b # c # rest) = base64_group a b c @ base64_text rest"
    by (simp add: base64_text_def Let_def del: length_append length_base64_encode_loop)
qed

lemma length_base64_text: "length (base64_text data) = 4 * ((length data + 2) div 3)"
  using base64_padding_fits [of data] by (simp add: base64_text_def Let_def)

lemma base64_triple_step:
  assumes "(if i < limit then dmi_base64_sextet c else 0) = int (unat x)"
  shows "base64_triple limit i (c # cs) t = base64_triple limit (Suc i) cs (push_bit 6 t OR x)"
proof -
  have "word_of_int (int (unat x)) = x" by simp
  then show ?thesis using assms by (simp only: base64_triple.simps Let_def) simp
qed

lemma base64_triple_word:
  fixes a b c :: byte
  defines "w \<equiv> base64_word a b c"
  assumes "(if i < limit then dmi_base64_sextet c0 else 0) = int (unat (drop_bit 18 w AND 0x3F))"
    and "(if Suc i < limit then dmi_base64_sextet c1 else 0) = int (unat (drop_bit 12 w AND 0x3F))"
    and "(if Suc (Suc i) < limit then dmi_base64_sextet c2 else 0) = int (unat (drop_bit 6 w AND 0x3F))"
    and "(if Suc (Suc (Suc i)) < limit then dmi_base64_sextet c3 else 0) = int (unat (w AND 0x3F))"
  shows "base64_triple limit i [c0, c1, c2, c3] 0 = Some w"
  unfolding base64_triple_step [OF assms(2)] base64_triple_step [OF assms(3)]
    base64_triple_step [OF assms(4)] base64_triple_step [OF assms(5)]
  using base64_word_sextets [of w] base64_word_high [of _ a b c] by (simp add: w_def)

text \<open>A group is decoded into the octets it holds, as far as there is room for them.\<close>

lemma base64_decode_group:
  fixes a b c :: byte
  defines "w \<equiv> base64_word a b c"
  assumes "base64_triple limit i [c0, c1, c2, c3] 0 = Some w"
    and "base64_decode_loop limit (room - length (take room [a, b, c])) (i + 4) rest = Some out"
  shows "base64_decode_loop limit room i (c0 # c1 # c2 # c3 # rest) = Some (take room [a, b, c] @ out)"
  using assms(2,3) base64_word_bytes [of a b c] by (simp add: w_def Let_def)

lemma base64_zero_tail:
  "base64_word a 0 0 AND 0x3F = 0" "drop_bit 6 (base64_word a 0 0) AND 0x3F = 0" "base64_word a b 0 AND 0x3F = 0"
proof -
  have "\<forall>n < 32. bit (base64_word a 0 0 AND 0x3F) n = bit (0 :: uint32_t) n"
    "\<forall>n < 32. bit (drop_bit 6 (base64_word a 0 0) AND 0x3F) n = bit (0 :: uint32_t) n"
    "\<forall>n < 32. bit (base64_word a b 0 AND 0x3F) n = bit (0 :: uint32_t) n"
    by (simp_all add: all_less_numeral bit_simps base64_word_def)
  then show "base64_word a 0 0 AND 0x3F = 0" "drop_bit 6 (base64_word a 0 0) AND 0x3F = 0"
    "base64_word a b 0 AND 0x3F = 0"
    by (auto intro!: bit_word_eqI)
qed

lemma base64_sextet_eq:
  "dmi_base64_sextet (base64_encode_table ! unat ((w :: uint32_t) AND 0x3F)) = int (unat (w AND 0x3F))"
  using sextet_less [of w] by (rule sextet_table)

lemma base64_decode_text:
  "base64_decode_loop (i + length (base64_text data) - base64_padding (length data)) (length data) i (base64_text data)
    = Some data"
proof (induction data arbitrary: i rule: base64_encode_loop.induct)
  case 1
  then show ?case by (simp add: base64_text_simps)
next
  case (2 a)
  have "base64_triple (i + 2) i [base64_encode_table ! unat (drop_bit 18 (base64_word a 0 0) AND 0x3F),
      base64_encode_table ! unat (drop_bit 12 (base64_word a 0 0) AND 0x3F), CHR ''='', CHR ''=''] 0 =
      Some (base64_word a 0 0)"
    by (rule base64_triple_word) (simp_all only: base64_sextet_eq base64_zero_tail, simp_all)
  from base64_decode_group [OF this, of 1 "[]" "[]"] show ?case
    by (simp add: base64_text_simps base64_group_word numeral_2_eq_2)
next
  case (3 a b)
  have "base64_triple (i + 3) i [base64_encode_table ! unat (drop_bit 18 (base64_word a b 0) AND 0x3F),
      base64_encode_table ! unat (drop_bit 12 (base64_word a b 0) AND 0x3F),
      base64_encode_table ! unat (drop_bit 6 (base64_word a b 0) AND 0x3F), CHR ''=''] 0 =
      Some (base64_word a b 0)"
    by (rule base64_triple_word) (simp_all only: base64_sextet_eq base64_zero_tail, simp_all)
  from base64_decode_group [OF this, of "Suc (Suc 0)" "[]" "[]"] show ?case
    by (simp add: base64_text_simps base64_group_word numeral_3_eq_3)
next
  case (4 a b c rest)
  let ?limit = "i + length (base64_text (a # b # c # rest)) - base64_padding (length (a # b # c # rest))"
  have len: "length (base64_text (a # b # c # rest)) = 4 + length (base64_text rest)"
    by (simp add: base64_text_simps)
  have limit: "?limit = i + 4 + length (base64_text rest) - base64_padding (length rest)"
    by (simp add: len)
  have "i + 4 \<le> ?limit"
    unfolding limit using base64_padding_fits [of rest]
    unfolding length_base64_text length_base64_encode_loop by linarith
  then have "base64_triple ?limit i [base64_encode_table ! unat (drop_bit 18 (base64_word a b c) AND 0x3F),
      base64_encode_table ! unat (drop_bit 12 (base64_word a b c) AND 0x3F),
      base64_encode_table ! unat (drop_bit 6 (base64_word a b c) AND 0x3F),
      base64_encode_table ! unat (base64_word a b c AND 0x3F)] 0 = Some (base64_word a b c)"
    by (intro base64_triple_word) (simp_all only: base64_sextet_eq, simp_all)
  from base64_decode_group [OF this, of "length (a # b # c # rest)" "base64_text rest" rest]
  show ?case using "4.IH" [of "i + 4"] limit
    by (simp add: base64_text_simps base64_group_word del: base64_decode_loop.simps)
qed

lemma base64_encode_loop_chars: "CHR ''='' \<notin> set (base64_encode_loop data)"
proof -
  have group: "CHR ''='' \<notin> set (base64_group a b c)" for a b c
    using not_sym [OF table_not_pad [OF sextet_less]] by (simp add: base64_group_word)
  show ?thesis by (induction data rule: base64_encode_loop.induct) (simp_all add: group)
qed

lemma base64_padding_value: "base64_padding n = 3 * ((n + 2) div 3) - n"
proof -
  have "n mod 3 = 0 \<or> n mod 3 = 1 \<or> n mod 3 = 2" by presburger
  moreover have "n = 3 * (n div 3) + n mod 3" by simp
  ultimately show ?thesis
    unfolding base64_padding_def base64_mod_table_def by (elim disjE; simp; presburger)
qed

text \<open>The padding is found again at the end of the text.\<close>

lemma base64_text_end:
  assumes "data \<noteq> []"
  shows "base64_text data ! (length (base64_text data) - 1) = CHR ''='' \<longleftrightarrow> base64_padding (length data) \<ge> 1"
    and "base64_padding (length data) \<ge> 1 \<Longrightarrow>
      base64_text data ! (length (base64_text data) - 2) = CHR ''='' \<longleftrightarrow> base64_padding (length data) = 2"
proof -
  let ?p = "base64_padding (length data)" and ?out = "base64_encode_loop data"
  let ?kept = "take (length ?out - ?p) ?out"
  have p: "?p \<le> 2" and fits: "?p \<le> length ?out" by (rule base64_padding_le base64_padding_fits)+
  have long: "4 \<le> length ?out" using assms by (cases data) simp_all
  have split: "base64_text data = ?kept @ replicate ?p CHR ''=''" by (simp add: base64_text_def Let_def)
  have char: "\<And>i. i < length ?out \<Longrightarrow> ?out ! i \<noteq> CHR ''=''"
    using base64_encode_loop_chars [of data] by (auto simp: in_set_conv_nth)
  have final: "base64_text data ! (length (base64_text data) - k) = CHR ''='' \<longleftrightarrow> k \<le> ?p"
    if k: "1 \<le> k" "k \<le> 2" for k
    using k p fits long char [of "length ?out - k"] by (auto simp: split nth_append)
  show "base64_text data ! (length (base64_text data) - 1) = CHR ''='' \<longleftrightarrow> ?p \<ge> 1"
    using final [of 1] by simp
  show "base64_text data ! (length (base64_text data) - 2) = CHR ''='' \<longleftrightarrow> ?p = 2"
    using final [of 2] p by auto
qed

lemma base64_decode_correct:
  assumes "data \<noteq> []" and "h (word_of_nat (length data)) \<noteq> None"
  shows "dmi_base64_decode h (base64_text data) = Some data"
proof -
  let ?p = "base64_padding (length data)" and ?t = "base64_text data"
  have len: "length ?t \<noteq> 0" "length ?t mod 4 = 0" "length ?t div 4 * 3 - ?p = length data"
    using assms(1) base64_padding_value [of "length data"] by (cases data; simp add: length_base64_text)+
  have p: "?p = 0 \<or> ?p = 1 \<or> ?p = 2" using base64_padding_le(1) [of "length data"] by linarith
  have pad: "(let padding = (if ?t ! (length ?t - 1) = CHR ''='' then 1 else 0)
      in if padding > 0 \<and> ?t ! (length ?t - 2) = CHR ''='' then padding + 1 else padding) = ?p"
    using p base64_text_end [OF assms(1)] by (auto simp: Let_def)
  have "dmi_base64_decode h ?t = base64_decode_loop (length ?t - ?p) (length data) 0 ?t"
    using len pad assms(2) by (auto simp: dmi_base64_decode_def Let_def)
  then show ?thesis using base64_decode_text [of 0 data] by simp
qed

section \<open>Properties\<close>

text \<open>
  With memory to be had, every run of data is encoded as four characters for every three
  octets begun, and decoding the text gives the data back, whatever its length leaves over of a
  group of three.
\<close>

theorem base64_roundtrip:
  assumes "data \<noteq> []" and "generous h"
  shows "\<exists>text'. dmi_base64_encode h data = Some text' \<and> length text' = 4 * ((length data + 2) div 3) \<and>
    dmi_base64_decode h text' = Some data"
proof (intro exI conjI)
  show "dmi_base64_encode h data = Some (base64_text data)"
    using assms by (intro base64_encode_text) (auto simp: generous_def)
  show "dmi_base64_decode h (base64_text data) = Some data"
    using assms by (intro base64_decode_correct) (auto simp: generous_def)
qed (rule length_base64_text)

theorem base64_roundtrip_witness:
  "\<exists>text'. dmi_base64_encode (\<lambda>n. Some (\<lambda>i. 0)) [77, 97, 110, 33] = Some text' \<and> length text' = 8 \<and>
    dmi_base64_decode (\<lambda>n. Some (\<lambda>i. 0)) text' = Some [77, 97, 110, 33]"
  using base64_roundtrip [of "[77, 97, 110, 33]" "\<lambda>n. Some (\<lambda>i. 0)"] by (simp add: generous_def)

end
