(* ===== verification/Vectors.thy ===== *)
theory Vectors
  imports Errors Codec
begin

text \<open>
  Vectors of pointer sized items (\<^verbatim>\<open>src/utils/vector.c\<close>): an array which grows by sixteen
  items at a time. An item is a \<open>uintptr_t\<close>; memory which has been grown over holds what the
  heap says. A vector the caller has cleared or emptied has no storage.
\<close>

type_synonym uintptr_t = "64 word"

record dmi_vector =
  vec_data :: "uintptr_t list option"
  vec_capacity :: size_t
  vec_length :: size_t
  vec_matcher :: "(uintptr_t \<Rightarrow> uintptr_t \<Rightarrow> bool) option"

definition dmi_vector_delta_capacity :: size_t where
  "dmi_vector_delta_capacity = 16"

definition dmi_vector_initialize :: "(uintptr_t \<Rightarrow> uintptr_t \<Rightarrow> bool) option \<Rightarrow> dmi_vector" where
  "dmi_vector_initialize matcher =
    \<lparr>vec_data = None, vec_capacity = 0, vec_length = 0, vec_matcher = matcher\<rparr>"

definition vec_items :: "dmi_vector \<Rightarrow> uintptr_t list" where
  "vec_items v = (case vec_data v of None \<Rightarrow> [] | Some d \<Rightarrow> d)"

definition dmi_vector_get :: "dmi_vector \<Rightarrow> size_t \<Rightarrow> uintptr_t result" where
  "dmi_vector_get v index =
    (if index \<ge> vec_length v then Inl (Raised DMI_ERROR_ARGUMENT_INVALID)
     else Inr (vec_items v ! unat index))"

text \<open>The loop of \<open>dmi_vector_find\<close>: the first of the items at \<open>indices\<close> the matcher accepts.\<close>

primrec vec_search :: "(uintptr_t \<Rightarrow> bool) \<Rightarrow> uintptr_t list \<Rightarrow> nat list \<Rightarrow> uintptr_t option" where
  "vec_search accept items [] = None"
| "vec_search accept items (index # indices) =
    (if accept (items ! index) then Some (items ! index) else vec_search accept items indices)"

definition dmi_vector_find :: "dmi_vector \<Rightarrow> uintptr_t \<Rightarrow> uintptr_t result" where
  "dmi_vector_find v key =
    (case vec_matcher v of
       None \<Rightarrow> Inl (Raised DMI_ERROR_STATE_INVALID)
     | Some matcher \<Rightarrow>
         (case vec_search (\<lambda>item. matcher item key) (vec_items v) [0..<unat (vec_length v)] of
            None \<Rightarrow> Inl Quiet
          | Some item \<Rightarrow> Inr item))"

definition dmi_vector_exists :: "dmi_vector \<Rightarrow> uintptr_t \<Rightarrow> bool" where
  "dmi_vector_exists v key \<longleftrightarrow> (case dmi_vector_find v key of Inl _ \<Rightarrow> False | Inr _ \<Rightarrow> True)"

text \<open>The items a block of memory of a heap holds when they have not been stored to.\<close>

definition heap_item :: "(nat \<Rightarrow> byte) \<Rightarrow> nat \<Rightarrow> uintptr_t" where
  "heap_item junk i = load_word (map junk [8 * i..<8 * i + 8])"

definition dmi_vector_resize :: "heap \<Rightarrow> dmi_vector \<Rightarrow> size_t \<Rightarrow> dmi_vector result" where
  "dmi_vector_resize h v capacity =
    (if capacity > SIZE_MAX div 8 then Inl (Raised DMI_ERROR_OUT_OF_MEMORY)
     else
       (case h (8 * capacity) of
          None \<Rightarrow> Inl (Raised DMI_ERROR_OUT_OF_MEMORY)
        | Some junk \<Rightarrow>
            let kept = take (unat capacity) (vec_items v)
            in Inr (v\<lparr>vec_data := Some (kept @ map (heap_item junk) [length kept..<unat capacity]),
                      vec_capacity := capacity\<rparr>)))"

definition dmi_vector_push :: "heap \<Rightarrow> dmi_vector \<Rightarrow> uintptr_t \<Rightarrow> dmi_vector result" where
  "dmi_vector_push h v item =
    (case (if vec_length v \<ge> vec_capacity v
           then dmi_vector_resize h v (vec_capacity v + dmi_vector_delta_capacity) else Inr v) of
       Inl e \<Rightarrow> Inl e
     | Inr v' \<Rightarrow>
         Inr (v'\<lparr>vec_data := map_option (\<lambda>d. d[unat (vec_length v') := item]) (vec_data v'),
                 vec_length := vec_length v' + 1\<rparr>))"

definition dmi_vector_clear :: "dmi_vector \<Rightarrow> dmi_vector" where
  "dmi_vector_clear v = v\<lparr>vec_data := None, vec_capacity := 0, vec_length := 0\<rparr>"

definition dmi_vector_pop :: "dmi_vector \<Rightarrow> (uintptr_t \<times> dmi_vector) result" where
  "dmi_vector_pop v =
    (if vec_length v = 0 then Inl Quiet
     else
       let v = v\<lparr>vec_length := vec_length v - 1\<rparr>;
           item = vec_items v ! unat (vec_length v)
       in Inr (item, if vec_length v = 0 then dmi_vector_clear v else v))"

section \<open>Invariant and contents\<close>

definition vector_wf :: "dmi_vector \<Rightarrow> bool" where
  "vector_wf v \<longleftrightarrow> length (vec_items v) = unat (vec_capacity v) \<and> vec_length v \<le> vec_capacity v \<and>
     vec_capacity v \<le> SIZE_MAX div 8"

definition vector_list :: "dmi_vector \<Rightarrow> uintptr_t list" where
  "vector_list v = take (unat (vec_length v)) (vec_items v)"

lemma vec_items_update [simp]:
  "vec_items (v\<lparr>vec_length := n\<rparr>) = vec_items v" "vec_items (v\<lparr>vec_capacity := n\<rparr>) = vec_items v"
  "vec_items (v\<lparr>vec_data := d\<rparr>) = (case d of None \<Rightarrow> [] | Some d \<Rightarrow> d)"
  by (simp_all add: vec_items_def)

lemma length_vector_list: "vector_wf v \<Longrightarrow> length (vector_list v) = unat (vec_length v)"
  by (simp add: vector_wf_def vector_list_def word_le_nat_alt)

lemma vector_initialize_wf [simp]:
  "vector_wf (dmi_vector_initialize m)" "vector_list (dmi_vector_initialize m) = []"
  by (simp_all add: vector_wf_def vector_list_def dmi_vector_initialize_def vec_items_def)

lemma vector_clear_wf [simp]:
  "vector_wf (dmi_vector_clear v)" "vector_list (dmi_vector_clear v) = []"
  by (simp_all add: vector_wf_def vector_list_def dmi_vector_clear_def vec_items_def)

lemma get_vector_list: "vector_wf v \<Longrightarrow> dmi_vector_get v index =
    (if unat index < length (vector_list v) then Inr (vector_list v ! unat index) else Inl (Raised DMI_ERROR_ARGUMENT_INVALID))"
  by (auto simp: dmi_vector_get_def length_vector_list word_le_nat_alt) (simp add: vector_list_def)

lemma vec_search_find: "vec_search accept items is = find accept (map (\<lambda>i. items ! i) is)"
  by (induction "is") simp_all

lemma find_vector_list:
  assumes "vector_wf v"
  shows "dmi_vector_find v key = (case vec_matcher v of
       None \<Rightarrow> Inl (Raised DMI_ERROR_STATE_INVALID)
     | Some matcher \<Rightarrow> (case find (\<lambda>item. matcher item key) (vector_list v) of None \<Rightarrow> Inl Quiet | Some item \<Rightarrow> Inr item))"
proof -
  have "unat (vec_length v) \<le> length (vec_items v)" using assms by (simp add: vector_wf_def word_le_nat_alt)
  then have "map (\<lambda>i. vec_items v ! i) [0..<unat (vec_length v)] = vector_list v"
    by (intro nth_equalityI) (simp_all add: vector_list_def)
  then show ?thesis by (simp add: dmi_vector_find_def vec_search_find split: option.split)
qed

lemma resize_vector:
  assumes wf: "vector_wf v" and ok: "dmi_vector_resize h v c = Inr v'" and le: "vec_capacity v \<le> c"
  shows "vector_wf v'" and "vector_list v' = vector_list v" and "vec_length v' = vec_length v"
    and "vec_capacity v' = c" and "vec_matcher v' = vec_matcher v"
proof -
  from ok obtain junk where c: "\<not> c > SIZE_MAX div 8"
    and v': "v' = v\<lparr>vec_data := Some (take (unat c) (vec_items v) @
        map (heap_item junk) [length (take (unat c) (vec_items v))..<unat c]), vec_capacity := c\<rparr>"
    by (auto simp: dmi_vector_resize_def Let_def split: if_splits option.splits)
  have len: "length (vec_items v) \<le> unat c" "unat (vec_length v) \<le> length (vec_items v)"
    using wf le by (auto simp: vector_wf_def word_le_nat_alt)
  then show "vector_wf v'" using wf c le by (auto simp: v' vector_wf_def not_less)
  show "vector_list v' = vector_list v" using len by (simp add: v' vector_list_def)
qed (use ok in \<open>auto simp: dmi_vector_resize_def Let_def split: if_splits option.splits\<close>)

lemma push_vector_list:
  assumes wf: "vector_wf v" and ok: "dmi_vector_push h v item = Inr v'"
  shows "vector_wf v'" and "vector_list v' = vector_list v @ [item]" and "vec_matcher v' = vec_matcher v"
proof -
  from ok obtain v1 where v1: "(if vec_length v \<ge> vec_capacity v
        then dmi_vector_resize h v (vec_capacity v + dmi_vector_delta_capacity) else Inr v) = Inr v1"
    and v': "v' = v1\<lparr>vec_data := map_option (\<lambda>d. d[unat (vec_length v1) := item]) (vec_data v1),
                 vec_length := vec_length v1 + 1\<rparr>"
    by (auto simp: dmi_vector_push_def split: sum.splits)
  have cap: "unat (vec_capacity v) \<le> 2305843009213693951"
    using wf by (simp add: vector_wf_def word_le_nat_alt unat_div)
  then have grow: "unat (vec_capacity v + dmi_vector_delta_capacity) = unat (vec_capacity v) + 16"
    by (simp add: dmi_vector_delta_capacity_def unat_add_small)
  have v1_ok: "vector_wf v1 \<and> vector_list v1 = vector_list v \<and> vec_length v1 < vec_capacity v1 \<and> vec_matcher v1 = vec_matcher v"
  proof (cases "vec_length v \<ge> vec_capacity v")
    case True
    then have r: "dmi_vector_resize h v (vec_capacity v + dmi_vector_delta_capacity) = Inr v1" using v1 by simp
    have "vec_capacity v \<le> vec_capacity v + dmi_vector_delta_capacity" by (simp add: word_le_nat_alt grow)
    note q = resize_vector [OF wf r this]
    have "vec_length v1 < vec_capacity v1"
      using q(3,4) wf grow by (simp add: vector_wf_def word_less_nat_alt word_le_nat_alt)
    then show ?thesis using q by simp
  next
    case False
    then show ?thesis using v1 wf by simp
  qed
  then have small: "unat (vec_length v1) < length (vec_items v1)"
    by (simp add: vector_wf_def word_less_nat_alt)
  then have next_len: "unat (vec_length v1 + 1) = Suc (unat (vec_length v1))"
    using v1_ok unat_size_less [of "vec_capacity v1"] by (simp add: unat_add_small vector_wf_def)
  from small obtain d where d: "vec_data v1 = Some d" "vec_items v1 = d"
    by (cases "vec_data v1") (auto simp: vec_items_def)
  show "vector_wf v'"
    using v1_ok next_len small by (auto simp: v' vector_wf_def d word_le_nat_alt)
  show "vector_list v' = vector_list v @ [item]"
    using v1_ok next_len small by (auto simp: v' vector_list_def d take_Suc_conv_app_nth)
  show "vec_matcher v' = vec_matcher v" using v1_ok by (simp add: v')
qed

lemma pop_vector_list:
  assumes wf: "vector_wf v" and ok: "dmi_vector_pop v = Inr (item, v')"
  shows "vector_wf v'" and "vector_list v = vector_list v' @ [item]" and "vec_matcher v' = vec_matcher v"
proof -
  let ?u = "v\<lparr>vec_length := vec_length v - 1\<rparr>"
  from ok have pos: "vec_length v \<noteq> 0" and item: "item = vec_items v ! unat (vec_length v - 1)"
    and v': "v' = (if vec_length v - 1 = 0 then dmi_vector_clear ?u else ?u)"
    by (auto simp: dmi_vector_pop_def Let_def split: if_splits)
  have dec: "unat (vec_length v) = Suc (unat (vec_length v - 1))" using pos by (simp add: unat_minus_one unat_gt_0)
  have len: "unat (vec_length v) \<le> length (vec_items v)" using wf by (simp add: vector_wf_def word_le_nat_alt)
  have u: "vector_wf ?u" "vector_list v = vector_list ?u @ [item]"
    using wf len dec by (simp_all add: vector_wf_def vector_list_def item word_le_nat_alt take_Suc_conv_app_nth)
  then show "vector_wf v'" by (simp add: v')
  have "vector_list ?u = vector_list v'" if "vec_length v - 1 = 0"
    using that by (simp add: v') (simp add: vector_list_def)
  then show "vector_list v = vector_list v' @ [item]" using u(2) by (cases "vec_length v - 1 = 0") (simp_all add: v')
  show "vec_matcher v' = vec_matcher v" by (simp add: v' dmi_vector_clear_def)
qed

lemma pop_vector_iff: "vector_wf v \<Longrightarrow> (\<exists>r. dmi_vector_pop v = Inr r) \<longleftrightarrow> vector_list v \<noteq> []"
  using length_vector_list [of v] unat_eq_0 [of "vec_length v"] by (auto simp: dmi_vector_pop_def Let_def)

lemma push_vector_succeeds:
  assumes "vector_wf v" and "generous h" and "length (vector_list v) < 2305843009213693935"
  shows "\<exists>v'. dmi_vector_push h v item = Inr v'"
proof -
  have "unat (vec_length v) < 2305843009213693935" using assms(1,3) by (simp add: length_vector_list)
  then have "\<not> vec_capacity v + dmi_vector_delta_capacity > SIZE_MAX div 8" if "vec_length v \<ge> vec_capacity v"
    using that by (simp add: word_less_nat_alt word_le_nat_alt unat_div dmi_vector_delta_capacity_def unat_add_small)
  moreover obtain junk where "h (8 * (vec_capacity v + dmi_vector_delta_capacity)) = Some junk"
    using assms(2) by (auto simp: generous_def)
  ultimately show ?thesis
    by (simp add: dmi_vector_push_def dmi_vector_resize_def Let_def del: distrib_left_numeral)
qed

section \<open>Sequences of operations\<close>

datatype vector_op = Push uintptr_t | Pop | Clear_all

fun vector_step :: "heap \<Rightarrow> dmi_vector \<Rightarrow> vector_op \<Rightarrow> dmi_vector" where
  "vector_step h v (Push item) = (case dmi_vector_push h v item of Inl e \<Rightarrow> v | Inr v' \<Rightarrow> v')"
| "vector_step h v Pop = (case dmi_vector_pop v of Inl e \<Rightarrow> v | Inr (item, v') \<Rightarrow> v')"
| "vector_step h v Clear_all = dmi_vector_clear v"

fun list_step :: "uintptr_t list \<Rightarrow> vector_op \<Rightarrow> uintptr_t list" where
  "list_step xs (Push item) = xs @ [item]"
| "list_step xs Pop = butlast xs"
| "list_step xs Clear_all = []"

lemma vector_step_list:
  assumes "vector_wf v" and "generous h" and "length (vector_list v) < 2305843009213693935"
  shows "vector_wf (vector_step h v oper) \<and> vector_list (vector_step h v oper) = list_step (vector_list v) oper
    \<and> vec_matcher (vector_step h v oper) = vec_matcher v"
proof (cases oper)
  case (Push item)
  obtain v' where "dmi_vector_push h v item = Inr v'" using push_vector_succeeds [OF assms] by blast
  then show ?thesis using push_vector_list [OF assms(1)] Push by simp
next
  case Pop
  show ?thesis
  proof (cases "dmi_vector_pop v")
    case (Inl e)
    then have "vector_list v = []" using pop_vector_iff [OF assms(1)] by fastforce
    then show ?thesis using Inl Pop assms(1) by simp
  next
    case (Inr r)
    obtain item v' where r: "r = (item, v')" by (cases r)
    show ?thesis using pop_vector_list [OF assms(1) Inr [unfolded r]] Inr r Pop by simp
  qed
qed (simp_all add: dmi_vector_clear_def [of v, THEN arg_cong [of _ _ vec_matcher]])

lemma length_list_step: "length (list_step xs oper) \<le> Suc (length xs)"
  by (cases oper) simp_all

lemma vector_run_list:
  "vector_wf v \<Longrightarrow> generous h \<Longrightarrow> length (vector_list v) + length opers < 2305843009213693935 \<Longrightarrow>
    vector_wf (foldl (vector_step h) v opers) \<and>
    vector_list (foldl (vector_step h) v opers) = foldl list_step (vector_list v) opers \<and>
    vec_matcher (foldl (vector_step h) v opers) = vec_matcher v"
proof (induction opers arbitrary: v)
  case (Cons oper opers)
  then show ?case
    using vector_step_list [of v h oper] length_list_step [of "vector_list v" oper] Cons.IH [of "vector_step h v oper"]
    by simp
qed simp

section \<open>Properties\<close>

text \<open>
  A vector is a list: whatever has been pushed, popped and cleared, looking an item up by
  its index gives the item of the list and refuses an index behind the end, and finding one
  gives the first item of the list the matcher accepts, of the items which are in the vector
  and not of what its storage holds behind them.
\<close>

theorem vector_is_list:
  assumes "generous h" and "length opers < 2305843009213693935"
  shows "\<exists>v. v = foldl (vector_step h) (dmi_vector_initialize (Some matcher)) opers \<and>
    unat (vec_length v) = length (foldl list_step [] opers) \<and>
    dmi_vector_get v index =
      (if unat index < length (foldl list_step [] opers) then Inr (foldl list_step [] opers ! unat index)
       else Inl (Raised DMI_ERROR_ARGUMENT_INVALID)) \<and>
    dmi_vector_find v key =
      (case find (\<lambda>item. matcher item key) (foldl list_step [] opers) of
         None \<Rightarrow> Inl Quiet | Some item \<Rightarrow> Inr item)"
  using vector_run_list [of "dmi_vector_initialize (Some matcher)" h opers] assms
    length_vector_list [of "foldl (vector_step h) (dmi_vector_initialize (Some matcher)) opers"]
  by (simp add: get_vector_list find_vector_list) (simp add: dmi_vector_initialize_def)

theorem vector_is_list_witness:
  "\<exists>v. v = foldl (vector_step (\<lambda>n. Some (\<lambda>i. 7))) (dmi_vector_initialize (Some (\<lambda>item key. item > key)))
      [Push 5, Push 9, Push 2, Pop] \<and> unat (vec_length v) = 2 \<and>
    dmi_vector_get v 1 = Inr 9 \<and> dmi_vector_find v 5 = Inr 9"
  using vector_is_list [of "\<lambda>n. Some (\<lambda>i. 7)" "[Push 5, Push 9, Push 2, Pop]" "\<lambda>item key. item > key" 1 5]
  by (simp add: generous_def)

end
