(* ===== verification/Entry.thy ===== *)
theory Entry
  imports Errors Utils Texts
begin

text \<open>
  Entry points (\<^verbatim>\<open>src/entry.c\<close>, \<^verbatim>\<open>include/opendmi/entry.h\<close>): the structure which says where
  the table is and how long, in its three formats. A decoder changes the state of the context
  step by step and may fail after some of the steps, so it gives the outcome and the state. A
  field of a packed structure is the little endian value of its bytes.
\<close>

record dmi_context_state =
  entry_version :: dmi_version_t
  entry_revision :: nat
  smbios_version :: dmi_version_t
  address_size :: nat
  entry_length :: nat
  entity_count :: nat
  entity_max_size :: nat
  table_area_address :: uint64_t
  table_area_size :: nat
  table_area_max_size :: nat

definition DMI_ANCHOR_LEGACY :: "byte list" where
  "DMI_ANCHOR_LEGACY = [0x5F, 0x44, 0x4D, 0x49, 0x5F]"

definition DMI_ANCHOR_V21 :: "byte list" where
  "DMI_ANCHOR_V21 = [0x5F, 0x53, 0x4D, 0x5F]"

definition DMI_ANCHOR_V30 :: "byte list" where
  "DMI_ANCHOR_V30 = [0x5F, 0x53, 0x4D, 0x33, 0x5F]"

text \<open>The bytes of a field at an offset, as a number.\<close>

definition field_at :: "byte list \<Rightarrow> nat \<Rightarrow> nat \<Rightarrow> nat" where
  "field_at data off n = le_nat (take n (drop off data))"

text \<open>
  The legacy entry point is 15 bytes long: anchor (5), checksum, table size (2), table address
  (4), number of structures (2) and the version in binary coded decimal.
\<close>

definition dmi_entry_decode_legacy :: "dmi_context_state \<Rightarrow> byte list \<Rightarrow> unit result \<times> dmi_context_state" where
  "dmi_entry_decode_legacy st data =
    (let complete = length data \<ge> 15
     in if complete \<and> \<not> dmi_checksum_test (take 15 data) then (Inl (Raised DMI_ERROR_ENTRY_CHECKSUM_INVALID), st)
        else
          let version = (if complete then data ! 14 else 0);
              st = (if version \<noteq> 0 \<and> smbios_version st = 0
                    then st\<lparr>smbios_version := dmi_version (ucast (drop_bit 4 (version AND 0xF0))) (ucast (version AND 0x0F)) 0\<rparr>
                    else st);
              st = (if address_size st = 0 then st\<lparr>address_size := 4\<rparr> else st)
          in (Inr (), st\<lparr>entry_length := 15, entity_count := field_at data 12 2,
                table_area_address := of_nat (field_at data 8 4),
                table_area_max_size := field_at data 6 2, table_area_size := field_at data 6 2\<rparr>))"

text \<open>
  The entry point of version 2.1 is 31 bytes long: anchor (4), checksum, length, major and minor
  version, maximum structure size (2), revision, formatted area (5) and a legacy entry point.
\<close>

definition dmi_entry_decode_v21 :: "dmi_context_state \<Rightarrow> byte list \<Rightarrow> unit result \<times> dmi_context_state" where
  "dmi_entry_decode_v21 st data =
    (let length' = field_at data 5 1
     in if length' > length data then (Inl (Raised DMI_ERROR_ENTRY_LENGTH_INVALID), st)
        else if length' < 31 - 1 then (Inl (Raised DMI_ERROR_ENTRY_LENGTH_INVALID), st)
        else if \<not> dmi_checksum_test (take length' data) then (Inl (Raised DMI_ERROR_ENTRY_CHECKSUM_INVALID), st)
        else
          let st = st\<lparr>entry_revision := field_at data 10 1,
                smbios_version := dmi_version (ucast (data ! 6)) (ucast (data ! 7)) 0,
                address_size := 4, entity_max_size := field_at data 8 2\<rparr>;
              ieps_length = length data - 16;
              ieps_length = (if ieps_length > 15 then 15 else ieps_length)
          in (case dmi_entry_decode_legacy st (take ieps_length (drop 16 data)) of
                (Inl e, st) \<Rightarrow> (Inl e, st)
              | (Inr (), st) \<Rightarrow> (Inr (), st\<lparr>entry_length := length'\<rparr>)))"

text \<open>
  The entry point of version 3.0 is 24 bytes long: anchor (5), checksum, length, major and minor
  version and revision, entry point revision, a reserved byte, maximum size of the table (4)
  and its address (8).
\<close>

definition dmi_entry_decode_v30 :: "dmi_context_state \<Rightarrow> byte list \<Rightarrow> unit result \<times> dmi_context_state" where
  "dmi_entry_decode_v30 st data =
    (let length' = field_at data 6 1
     in if length' > length data then (Inl (Raised DMI_ERROR_ENTRY_LENGTH_INVALID), st)
        else if length' < 24 then (Inl (Raised DMI_ERROR_ENTRY_LENGTH_INVALID), st)
        else if \<not> dmi_checksum_test (take length' data) then (Inl (Raised DMI_ERROR_ENTRY_CHECKSUM_INVALID), st)
        else
          (Inr (), st\<lparr>entry_revision := field_at data 10 1,
             smbios_version := dmi_version (ucast (data ! 7)) (ucast (data ! 8)) (ucast (data ! 9)),
             address_size := 8, entry_length := length',
             table_area_address := of_nat (field_at data 16 8),
             table_area_max_size := field_at data 12 4\<rparr>))"

text \<open>The table of the formats, with the attributes which describe them left out.\<close>

record dmi_entry_spec =
  es_name :: string
  es_anchor :: "byte list"
  es_version :: dmi_version_t
  es_min_length :: nat
  es_handler :: "dmi_context_state \<Rightarrow> byte list \<Rightarrow> unit result \<times> dmi_context_state"

definition dmi_entry_specs :: "dmi_entry_spec list" where
  "dmi_entry_specs =
    [\<lparr>es_name = ''SMBIOS 3.0+ (64-bit)'', es_anchor = DMI_ANCHOR_V30, es_version = dmi_version 3 0 0,
      es_min_length = 24, es_handler = dmi_entry_decode_v30\<rparr>,
     \<lparr>es_name = ''SMBIOS 2.1+ (32-bit)'', es_anchor = DMI_ANCHOR_V21, es_version = dmi_version 2 1 0,
      es_min_length = 31 - 1, es_handler = dmi_entry_decode_v21\<rparr>,
     \<lparr>es_name = ''Legacy (32-bit)'', es_anchor = DMI_ANCHOR_LEGACY, es_version = dmi_version 2 0 0,
      es_min_length = 15, es_handler = dmi_entry_decode_legacy\<rparr>]"

primrec find_entry_spec :: "byte list \<Rightarrow> dmi_entry_spec list \<Rightarrow> dmi_entry_spec option" where
  "find_entry_spec data [] = None"
| "find_entry_spec data (spec # specs) =
    (if length data < es_min_length spec then find_entry_spec data specs
     else if take (length (es_anchor spec)) data = es_anchor spec then Some spec
     else find_entry_spec data specs)"

definition dmi_entry_decode :: "dmi_context_state \<Rightarrow> byte list \<Rightarrow> unit result \<times> dmi_context_state" where
  "dmi_entry_decode st data =
    (if data = [] then (Inl (Raised DMI_ERROR_ARGUMENT_INVALID), st)
     else
       (case find_entry_spec data dmi_entry_specs of
          None \<Rightarrow> (Inl (Raised DMI_ERROR_ENTRY_ANCHOR_UNKNOWN), st)
        | Some spec \<Rightarrow> es_handler spec (st\<lparr>entry_version := es_version spec\<rparr>) data))"

section \<open>Which entry points are accepted\<close>

text \<open>What a valid entry point of each format is, said of the bytes alone.\<close>

definition valid_legacy :: "byte list \<Rightarrow> bool" where
  "valid_legacy data \<longleftrightarrow> 15 \<le> length data \<and> take 5 data = DMI_ANCHOR_LEGACY \<and> sum_list (take 15 data) = 0"

definition valid_v21 :: "byte list \<Rightarrow> bool" where
  "valid_v21 data \<longleftrightarrow> 30 \<le> length data \<and> take 4 data = DMI_ANCHOR_V21 \<and>
     30 \<le> unat (data ! 5) \<and> unat (data ! 5) \<le> length data \<and> sum_list (take (unat (data ! 5)) data) = 0 \<and>
     (31 \<le> length data \<longrightarrow> sum_list (take 15 (drop 16 data)) = 0)"

definition valid_v30 :: "byte list \<Rightarrow> bool" where
  "valid_v30 data \<longleftrightarrow> 24 \<le> length data \<and> take 5 data = DMI_ANCHOR_V30 \<and>
     24 \<le> unat (data ! 6) \<and> unat (data ! 6) \<le> length data \<and> sum_list (take (unat (data ! 6)) data) = 0"

lemma field_at_byte: "off < length data \<Longrightarrow> field_at data off (Suc 0) = unat (data ! off)"
  by (simp add: field_at_def take_Suc_conv_app_nth)

lemma legacy_outcome:
  "fst (dmi_entry_decode_legacy st data) =
    (if 15 \<le> length data \<and> sum_list (take 15 data) \<noteq> 0 then Inl (Raised DMI_ERROR_ENTRY_CHECKSUM_INVALID) else Inr ())"
  by (simp add: dmi_entry_decode_legacy_def checksum_test_sum Let_def)

lemma legacy_state:
  assumes "fst (dmi_entry_decode_legacy st data) = Inr ()"
  defines "st' \<equiv> snd (dmi_entry_decode_legacy st data)"
  shows "entity_count st' = field_at data 12 2" and "table_area_address st' = of_nat (field_at data 8 4)"
    and "table_area_size st' = field_at data 6 2" and "entry_version st' = entry_version st"
    and "address_size st' = (if address_size st = 0 then 4 else address_size st)"
    and "entity_max_size st' = entity_max_size st"
    and "smbios_version st \<noteq> 0 \<Longrightarrow> smbios_version st' = smbios_version st"
  using assms(1) by (auto simp: st'_def dmi_entry_decode_legacy_def Let_def split: if_splits)

lemma dmi_version_nonzero:
  fixes a b :: byte
  assumes "a \<noteq> 0"
  shows "dmi_version (ucast a) (ucast b) 0 \<noteq> 0"
proof
  have small: "unat (ucast x :: uint32_t) = unat x" for x :: byte
  proof -
    have "unat x < 2 ^ 32" by (rule order_less_trans [OF unat_byte_less]) simp
    then show ?thesis by (simp add: unsigned_ucast_eq take_bit_nat_eq_self)
  qed
  assume "dmi_version (ucast a) (ucast b) 0 = 0"
  then have "dmi_version_major 0 = ucast a"
    using dmi_version_fields(1) [of "ucast a" "ucast b" 0] by (simp add: small)
  then have "unat (ucast a :: uint32_t) = 0" by (simp add: dmi_version_major_def)
  then show False using assms by (simp add: small unat_eq_0)
qed

lemma entry_finish:
  fixes p :: "unit result \<times> dmi_context_state"
  shows "fst (case p of (Inl e, st) \<Rightarrow> (Inl e, st) | (Inr (), st) \<Rightarrow> (Inr (), f st)) = fst p"
    and "fst p = Inr () \<Longrightarrow> snd (case p of (Inl e, st) \<Rightarrow> (Inl e, st) | (Inr (), st) \<Rightarrow> (Inr (), f st)) = f (snd p)"
proof -
  obtain r s where p: "p = (r, s)" by (rule prod.exhaust)
  show "fst (case p of (Inl e, st) \<Rightarrow> (Inl e, st) | (Inr (), st) \<Rightarrow> (Inr (), f st)) = fst p"
    unfolding p by (cases r) (simp_all split: unit.split)
  show "fst p = Inr () \<Longrightarrow> snd (case p of (Inl e, st) \<Rightarrow> (Inl e, st) | (Inr (), st) \<Rightarrow> (Inr (), f st)) = f (snd p)"
    unfolding p by (cases r) (simp_all split: unit.split)
qed

lemma v21_outcome:
  assumes "30 \<le> length data"
  shows "fst (dmi_entry_decode_v21 st data) = Inr () \<longleftrightarrow>
    30 \<le> unat (data ! 5) \<and> unat (data ! 5) \<le> length data \<and> sum_list (take (unat (data ! 5)) data) = 0 \<and>
    (31 \<le> length data \<longrightarrow> sum_list (take 15 (drop 16 data)) = 0)"
proof -
  let ?n = "unat (data ! 5)" and ?ieps = "take (if length data - 16 > 15 then 15 else length data - 16) (drop 16 data)"
  have n: "field_at data 5 (Suc 0) = ?n" using assms by (simp add: field_at_byte)
  have ieps: "length ?ieps \<ge> 15 \<longleftrightarrow> 31 \<le> length data" "31 \<le> length data \<Longrightarrow> take 15 ?ieps = take 15 (drop 16 data)"
    using assms by auto
  then show ?thesis
    by (simp add: dmi_entry_decode_v21_def n checksum_test_sum Let_def entry_finish legacy_outcome not_less)
qed

lemma v30_outcome:
  assumes "24 \<le> length data"
  shows "fst (dmi_entry_decode_v30 st data) = Inr () \<longleftrightarrow>
    24 \<le> unat (data ! 6) \<and> unat (data ! 6) \<le> length data \<and> sum_list (take (unat (data ! 6)) data) = 0"
  using assms by (auto simp: dmi_entry_decode_v30_def field_at_byte checksum_test_sum Let_def)

lemma entry_decode_cases:
  assumes "data \<noteq> []"
  shows "dmi_entry_decode st data =
    (if 24 \<le> length data \<and> take 5 data = DMI_ANCHOR_V30
     then dmi_entry_decode_v30 (st\<lparr>entry_version := dmi_version 3 0 0\<rparr>) data
     else if 30 \<le> length data \<and> take 4 data = DMI_ANCHOR_V21
     then dmi_entry_decode_v21 (st\<lparr>entry_version := dmi_version 2 1 0\<rparr>) data
     else if 15 \<le> length data \<and> take 5 data = DMI_ANCHOR_LEGACY
     then dmi_entry_decode_legacy (st\<lparr>entry_version := dmi_version 2 0 0\<rparr>) data
     else (Inl (Raised DMI_ERROR_ENTRY_ANCHOR_UNKNOWN), st))"
proof -
  have len: "length DMI_ANCHOR_V30 = 5" "length DMI_ANCHOR_V21 = 4" "length DMI_ANCHOR_LEGACY = 5"
    by (simp_all add: DMI_ANCHOR_V30_def DMI_ANCHOR_V21_def DMI_ANCHOR_LEGACY_def)
  show ?thesis using assms by (auto simp: dmi_entry_decode_def dmi_entry_specs_def len)
qed

text \<open>An anchor of one format is not the beginning of another one.\<close>

lemma anchors_differ:
  "take 5 data = DMI_ANCHOR_V30 \<Longrightarrow> take 4 data \<noteq> DMI_ANCHOR_V21"
  "take 5 data = DMI_ANCHOR_V30 \<Longrightarrow> take 5 data \<noteq> DMI_ANCHOR_LEGACY"
  "take 5 data = DMI_ANCHOR_LEGACY \<Longrightarrow> take 4 data \<noteq> DMI_ANCHOR_V21"
proof -
  have four: "take 4 data = take 4 (take 5 data)" by simp
  show "take 5 data = DMI_ANCHOR_V30 \<Longrightarrow> take 4 data \<noteq> DMI_ANCHOR_V21"
    by (subst four) (simp add: DMI_ANCHOR_V30_def DMI_ANCHOR_V21_def)
  show "take 5 data = DMI_ANCHOR_V30 \<Longrightarrow> take 5 data \<noteq> DMI_ANCHOR_LEGACY"
    by (simp add: DMI_ANCHOR_V30_def DMI_ANCHOR_LEGACY_def)
  show "take 5 data = DMI_ANCHOR_LEGACY \<Longrightarrow> take 4 data \<noteq> DMI_ANCHOR_V21"
    by (subst four) (simp add: DMI_ANCHOR_LEGACY_def DMI_ANCHOR_V21_def)
qed

section \<open>Properties\<close>

text \<open>
  C21. An entry point is accepted exactly when it is a valid one of one of the three formats:
  long enough, with the anchor of the format, a length of its own which is neither shorter than
  the format nor longer than the data, and checksums which hold over that length and, where the
  bytes of it are there, over the intermediate entry point. What is accepted does not depend on
  the state of the context.
\<close>

theorem entry_accepts:
  "fst (dmi_entry_decode st data) = Inr () \<longleftrightarrow> valid_v30 data \<or> valid_v21 data \<or> valid_legacy data"
proof (cases "data = []")
  case True
  then show ?thesis by (simp add: dmi_entry_decode_def valid_v30_def valid_v21_def valid_legacy_def)
next
  case False
  consider (v30) "24 \<le> length data" "take 5 data = DMI_ANCHOR_V30"
    | (v21) "30 \<le> length data" "take 4 data = DMI_ANCHOR_V21" "take 5 data \<noteq> DMI_ANCHOR_V30"
    | (legacy) "15 \<le> length data" "take 5 data = DMI_ANCHOR_LEGACY" "take 5 data \<noteq> DMI_ANCHOR_V30" "take 4 data \<noteq> DMI_ANCHOR_V21"
    | (none) "\<not> (24 \<le> length data \<and> take 5 data = DMI_ANCHOR_V30)"
        "\<not> (30 \<le> length data \<and> take 4 data = DMI_ANCHOR_V21)"
        "\<not> (15 \<le> length data \<and> take 5 data = DMI_ANCHOR_LEGACY)"
    using anchors_differ [of data] by blast
  then show ?thesis
  proof cases
    case v30
    then show ?thesis
      using anchors_differ [of data]
      by (simp add: entry_decode_cases [OF False] v30_outcome valid_v30_def valid_v21_def valid_legacy_def)
  next
    case v21
    then show ?thesis
      using anchors_differ [of data]
      by (auto simp: entry_decode_cases [OF False] v21_outcome valid_v30_def valid_v21_def valid_legacy_def)
  next
    case legacy
    then show ?thesis
      by (simp add: entry_decode_cases [OF False] legacy_outcome valid_v30_def valid_v21_def valid_legacy_def)
  next
    case none
    then have "dmi_entry_decode st data = (Inl (Raised DMI_ERROR_ENTRY_ANCHOR_UNKNOWN), st)"
      by (simp only: entry_decode_cases [OF False] if_False)
    then show ?thesis using none by (auto simp: valid_v30_def valid_v21_def valid_legacy_def)
  qed
qed

text \<open>
  What an accepted entry point says is what the context then knows: the length, the
  address and the size limit of the table are the little endian fields of its format, the
  version is the one of the entry point, which the binary coded decimal byte of the intermediate
  entry point replaces only if it is zero, and the entry point length is the one of the enclosing format.
\<close>

theorem entry_decoded_state:
  "(valid_v30 data \<longrightarrow> snd (dmi_entry_decode st data) =
      st\<lparr>entry_version := dmi_version 3 0 0, entry_revision := unat (data ! 10),
         smbios_version := dmi_version (ucast (data ! 7)) (ucast (data ! 8)) (ucast (data ! 9)),
         address_size := 8, entry_length := unat (data ! 6),
         table_area_address := of_nat (field_at data 16 8), table_area_max_size := field_at data 12 4\<rparr>) \<and>
   (valid_v21 data \<longrightarrow>
      (let st' = snd (dmi_entry_decode st data) in
        entry_version st' = dmi_version 2 1 0 \<and> entry_length st' = unat (data ! 5) \<and> address_size st' = 4 \<and>
        entity_max_size st' = field_at data 8 2 \<and> entity_count st' = field_at data 28 2 \<and>
        table_area_address st' = of_nat (field_at data 24 4) \<and> table_area_size st' = field_at data 22 2 \<and>
        (data ! 6 \<noteq> 0 \<longrightarrow> smbios_version st' = dmi_version (ucast (data ! 6)) (ucast (data ! 7)) 0)))"
proof (intro conjI impI)
  assume v: "valid_v30 data"
  then have ne: "data \<noteq> []" by (auto simp: valid_v30_def)
  show "snd (dmi_entry_decode st data) =
      st\<lparr>entry_version := dmi_version 3 0 0, entry_revision := unat (data ! 10),
         smbios_version := dmi_version (ucast (data ! 7)) (ucast (data ! 8)) (ucast (data ! 9)),
         address_size := 8, entry_length := unat (data ! 6),
         table_area_address := of_nat (field_at data 16 8), table_area_max_size := field_at data 12 4\<rparr>"
    using v by (simp add: entry_decode_cases [OF ne] valid_v30_def dmi_entry_decode_v30_def field_at_byte
        checksum_test_sum Let_def)
next
  assume v: "valid_v21 data"
  then have ne: "data \<noteq> []" and len: "30 \<le> length data" and no: "\<not> (24 \<le> length data \<and> take 5 data = DMI_ANCHOR_V30)"
    using anchors_differ(1) [of data] by (auto simp: valid_v21_def)
  let ?ieps = "take (if length data - 16 > 15 then 15 else length data - 16) (drop 16 data)"
  have at: "field_at ?ieps off n = field_at data (16 + off) n" if "off + n \<le> 14" for off n
  proof -
    have "take n (drop off ?ieps) = take n (drop (16 + off) data)"
      using that len by (auto simp: drop_take add.commute min_def)
    then show ?thesis by (simp add: field_at_def)
  qed
  have legacy: "fst (dmi_entry_decode_legacy st' ?ieps) = Inr ()" for st'
    using v len by (auto simp: legacy_outcome valid_v21_def)
  define st1 where "st1 = (st\<lparr>entry_version := dmi_version 2 1 0\<rparr>)\<lparr>entry_revision := unat (data ! 10),
      smbios_version := dmi_version (ucast (data ! 6)) (ucast (data ! 7)) 0,
      address_size := 4, entity_max_size := field_at data 8 2\<rparr>"
  have "snd (dmi_entry_decode st data) = snd (case dmi_entry_decode_legacy st1 ?ieps of
      (Inl e, st) \<Rightarrow> (Inl e, st) | (Inr (), st) \<Rightarrow> (Inr (), st\<lparr>entry_length := unat (data ! 5)\<rparr>))"
    using v len no
    by (simp only: entry_decode_cases [OF ne] if_False if_True)
      (simp add: dmi_entry_decode_v21_def field_at_byte checksum_test_sum Let_def st1_def valid_v21_def)
  also have "\<dots> = (snd (dmi_entry_decode_legacy st1 ?ieps))\<lparr>entry_length := unat (data ! 5)\<rparr>"
    using legacy by (rule entry_finish(2))
  finally have result: "snd (dmi_entry_decode st data) =
      (snd (dmi_entry_decode_legacy st1 ?ieps))\<lparr>entry_length := unat (data ! 5)\<rparr>" .
  have st1: "entry_version st1 = dmi_version 2 1 0" "address_size st1 = 4" "entity_max_size st1 = field_at data 8 2"
    "smbios_version st1 = dmi_version (ucast (data ! 6)) (ucast (data ! 7)) 0"
    by (simp_all add: st1_def)
  show "let st' = snd (dmi_entry_decode st data) in
        entry_version st' = dmi_version 2 1 0 \<and> entry_length st' = unat (data ! 5) \<and> address_size st' = 4 \<and>
        entity_max_size st' = field_at data 8 2 \<and> entity_count st' = field_at data 28 2 \<and>
        table_area_address st' = of_nat (field_at data 24 4) \<and> table_area_size st' = field_at data 22 2 \<and>
        (data ! 6 \<noteq> 0 \<longrightarrow> smbios_version st' = dmi_version (ucast (data ! 6)) (ucast (data ! 7)) 0)"
    using at [of 12 2] at [of 8 4] at [of 6 2] dmi_version_nonzero [of "data ! 6" "data ! 7"]
    by (simp add: result Let_def legacy_state [OF legacy] st1)
qed

definition example_v30 :: "byte list" where
  "example_v30 = [0x5F, 0x53, 0x4D, 0x33, 0x5F, 0xF0, 24, 3, 2, 1, 1, 0, 0x40, 0, 0, 0, 0x20, 0, 0, 0, 0, 0, 0, 0]"

theorem entry_decoded_state_witness:
  "valid_v30 example_v30 \<and> (\<forall>st. table_area_address (snd (dmi_entry_decode st example_v30)) = 0x20)"
proof (intro conjI allI)
  show v: "valid_v30 example_v30" by (simp add: valid_v30_def example_v30_def DMI_ANCHOR_V30_def)
  show "table_area_address (snd (dmi_entry_decode st example_v30)) = 0x20" for st
    using entry_decoded_state [of example_v30 st] v by (simp add: field_at_def example_v30_def)
qed

end
