(* ===== verification/Modules.thy ===== *)
theory Modules
  imports Entity
begin

text \<open>
  What tells how the structures of a platform are decoded: vendors and platforms
  (\<^verbatim>\<open>src/vendor.c\<close>, \<^verbatim>\<open>src/platform.c\<close>), extension modules (\<^verbatim>\<open>src/module.c\<close>) and the map from type
  numbers to specifications they build (\<^verbatim>\<open>src/context-types.c\<close>). A module has an address, which
  pointers to modules are compared by; specifications, which are constant data, are compared by
  what they are. The table of the predefined specifications and the list of the built-in modules
  are parameters.
\<close>

section \<open>Vendors\<close>

datatype dmi_vendor =
    DMI_VENDOR_INVALID
  | DMI_VENDOR_ANY
  | DMI_VENDOR_OTHER
  | DMI_VENDOR_ACER
  | DMI_VENDOR_AMD
  | DMI_VENDOR_AMI
  | DMI_VENDOR_APPLE
  | DMI_VENDOR_CISCO
  | DMI_VENDOR_DELL
  | DMI_VENDOR_HONOR
  | DMI_VENDOR_HP
  | DMI_VENDOR_HPE
  | DMI_VENDOR_HUAWEI
  | DMI_VENDOR_IBM
  | DMI_VENDOR_INTEL
  | DMI_VENDOR_LENOVO
  | DMI_VENDOR_UNISYS

record dmi_vendor_spec =
  vs_id :: dmi_vendor
  vs_code :: string
  vs_names :: "string list"
  vs_detects :: bool

text \<open>Whether the vendor has a function of its own which tells the families.\<close>

definition dmi_vendor_specs :: "dmi_vendor_spec list" where
  "dmi_vendor_specs =
    [\<lparr>vs_id = DMI_VENDOR_ACER, vs_code = ''acer'', vs_names = [''Acer''], vs_detects = False\<rparr>,
     \<lparr>vs_id = DMI_VENDOR_AMD, vs_code = ''amd'',
      vs_names = [''AMD'', ''AMD processor'', ''Advanced Micro Devices, Inc.'', ''AuthenticAMD''], vs_detects = False\<rparr>,
     \<lparr>vs_id = DMI_VENDOR_AMI, vs_code = ''ami'',
      vs_names = [''American Megatrends Inc.'', ''American Megatrends International, LLC.''], vs_detects = False\<rparr>,
     \<lparr>vs_id = DMI_VENDOR_APPLE, vs_code = ''apple'', vs_names = [''Apple'', ''Apple Inc.''], vs_detects = False\<rparr>,
     \<lparr>vs_id = DMI_VENDOR_CISCO, vs_code = ''cisco'',
      vs_names = [''Cisco Systems'', ''Cisco Systems Inc'', ''Cisco Systems, Inc.''], vs_detects = False\<rparr>,
     \<lparr>vs_id = DMI_VENDOR_DELL, vs_code = ''dell'',
      vs_names = [''Dell Inc.'', ''Dell Computer Corporation'', ''Dell Computer Corp.''], vs_detects = False\<rparr>,
     \<lparr>vs_id = DMI_VENDOR_HONOR, vs_code = ''honor'', vs_names = [''HONOR''], vs_detects = False\<rparr>,
     \<lparr>vs_id = DMI_VENDOR_HP, vs_code = ''hp'', vs_names = [''HP'', ''Hewlett-Packard''], vs_detects = True\<rparr>,
     \<lparr>vs_id = DMI_VENDOR_HPE, vs_code = ''hpe'',
      vs_names = [''HPE'', ''Hewlett-Packard Enterprise'', ''Hewlett Packard Enterprise''], vs_detects = True\<rparr>,
     \<lparr>vs_id = DMI_VENDOR_HUAWEI, vs_code = ''huawei'', vs_names = [''HUAWEI''], vs_detects = False\<rparr>,
     \<lparr>vs_id = DMI_VENDOR_IBM, vs_code = ''ibm'', vs_names = [''IBM''], vs_detects = False\<rparr>,
     \<lparr>vs_id = DMI_VENDOR_INTEL, vs_code = ''intel'',
      vs_names = [''Intel'', ''Intel Corp.'', ''Intel Corporation'', ''Intel(R) Corporation'', ''GenuineIntel''], vs_detects = False\<rparr>,
     \<lparr>vs_id = DMI_VENDOR_LENOVO, vs_code = ''lenovo'', vs_names = [''LENOVO''], vs_detects = False\<rparr>,
     \<lparr>vs_id = DMI_VENDOR_UNISYS, vs_code = ''unisys'', vs_names = [''UNISYS Corp.'', ''Unisys System''], vs_detects = False\<rparr>]"

definition is_space_char :: "char \<Rightarrow> bool" where
  "is_space_char c \<longleftrightarrow> c \<in> {CHR 0x09, CHR 0x0A, CHR 0x0B, CHR 0x0C, CHR 0x0D, CHR '' ''}"

definition trim_text :: "string \<Rightarrow> string" where
  "trim_text name = rev (dropWhile is_space_char (rev (dropWhile is_space_char name)))"

text \<open>The name is \<open>None\<close> for the null pointer, which is no vendor and no error.\<close>

primrec vendor_search :: "string \<Rightarrow> dmi_vendor_spec list \<Rightarrow> dmi_vendor_spec option" where
  "vendor_search name [] = None"
| "vendor_search name (vendor # vendors) =
    (if list_ex (\<lambda>vendor_name. length vendor_name = length name \<and> strcasecmp_eq name vendor_name) (vs_names vendor)
     then Some vendor else vendor_search name vendors)"

definition dmi_vendor_detect :: "string option \<Rightarrow> dmi_vendor_spec option" where
  "dmi_vendor_detect name =
    (case name of None \<Rightarrow> None | Some name \<Rightarrow> vendor_search (trim_text name) dmi_vendor_specs)"

definition dmi_platform_vendor :: "string option \<Rightarrow> dmi_vendor" where
  "dmi_platform_vendor name =
    (case dmi_vendor_detect name of Some vendor \<Rightarrow> vs_id vendor | None \<Rightarrow> DMI_VENDOR_OTHER)"

section \<open>Platforms\<close>

record dmi_platform =
  pf_firmware_vendor :: dmi_vendor
  pf_system_vendor :: dmi_vendor
  pf_baseboard_vendor :: dmi_vendor
  pf_processor_vendor :: dmi_vendor
  pf_product :: "string option"
  pf_family :: "string option"
  pf_generation :: nat

record dmi_platform_match_t =
  pm_firmware_vendor :: dmi_vendor
  pm_system_vendor :: dmi_vendor
  pm_baseboard_vendor :: dmi_vendor
  pm_processor_vendor :: dmi_vendor
  pm_family :: "string option"

definition dmi_platform_create :: "bool \<Rightarrow> dmi_platform option" where
  "dmi_platform_create mem =
    (if \<not> mem then None
     else Some \<lparr>pf_firmware_vendor = DMI_VENDOR_OTHER, pf_system_vendor = DMI_VENDOR_OTHER,
       pf_baseboard_vendor = DMI_VENDOR_OTHER, pf_processor_vendor = DMI_VENDOR_OTHER,
       pf_product = None, pf_family = None, pf_generation = 0\<rparr>)"

text \<open>\<open>dmi_string_set\<close>: clearing a text needs no memory, and a text is left as it was without it.\<close>

definition dmi_string_set :: "bool \<Rightarrow> 'a option \<Rightarrow> 'a option \<Rightarrow> bool \<times> 'a option" where
  "dmi_string_set mem old new = (if new \<noteq> None \<and> \<not> mem then (False, old) else (True, new))"

definition dmi_platform_set_product :: "bool \<Rightarrow> dmi_platform \<Rightarrow> string option \<Rightarrow> bool \<times> dmi_platform" where
  "dmi_platform_set_product mem p product =
    (case dmi_string_set mem (pf_product p) product of (ok, v) \<Rightarrow> (ok, p\<lparr>pf_product := v\<rparr>))"

definition dmi_platform_set_family :: "bool \<Rightarrow> dmi_platform \<Rightarrow> string option \<Rightarrow> bool \<times> dmi_platform" where
  "dmi_platform_set_family mem p family =
    (case dmi_string_set mem (pf_family p) family of (ok, v) \<Rightarrow> (ok, p\<lparr>pf_family := v\<rparr>))"

definition dmi_platform_clone :: "(nat \<Rightarrow> bool) \<Rightarrow> dmi_platform \<Rightarrow> dmi_platform option" where
  "dmi_platform_clone mem p =
    (case dmi_platform_create (mem 0) of
       None \<Rightarrow> None
     | Some copy \<Rightarrow>
         let copy = copy\<lparr>pf_firmware_vendor := pf_firmware_vendor p, pf_system_vendor := pf_system_vendor p,
               pf_baseboard_vendor := pf_baseboard_vendor p, pf_processor_vendor := pf_processor_vendor p,
               pf_generation := pf_generation p\<rparr>
         in (case dmi_platform_set_product (mem 1) copy (pf_product p) of
               (False, copy) \<Rightarrow> None
             | (True, copy) \<Rightarrow>
                 (case dmi_platform_set_family (mem 2) copy (pf_family p) of
                    (False, copy) \<Rightarrow> None
                  | (True, copy) \<Rightarrow> Some copy)))"

definition dmi_vendor_match :: "dmi_vendor \<Rightarrow> dmi_vendor \<Rightarrow> bool" where
  "dmi_vendor_match cond vendor \<longleftrightarrow> cond = DMI_VENDOR_ANY \<or> cond = vendor"

definition dmi_platform_match :: "dmi_platform \<Rightarrow> dmi_platform_match_t \<Rightarrow> bool" where
  "dmi_platform_match p pm =
    (if \<not> dmi_vendor_match (pm_firmware_vendor pm) (pf_firmware_vendor p) \<or>
        \<not> dmi_vendor_match (pm_system_vendor pm) (pf_system_vendor p) \<or>
        \<not> dmi_vendor_match (pm_baseboard_vendor pm) (pf_baseboard_vendor p) \<or>
        \<not> dmi_vendor_match (pm_processor_vendor pm) (pf_processor_vendor p)
     then False
     else if pm_family pm = None then True
     else pf_family p \<noteq> None \<and> pf_family p = pm_family pm)"

definition dmi_platform_in_generations :: "dmi_platform option \<Rightarrow> dmi_generations \<Rightarrow> bool" where
  "dmi_platform_in_generations p g =
    (if gn_minimum g = 0 \<and> gn_maximum g = 0 then True
     else (case p of
         None \<Rightarrow> False
       | Some p \<Rightarrow>
           if pf_generation p = 0 then False
           else if gn_minimum g \<noteq> 0 \<and> pf_generation p < gn_minimum g then False
           else if gn_maximum g \<noteq> 0 \<and> pf_generation p > gn_maximum g then False
           else True))"

section \<open>Modules\<close>

record dmi_relocation =
  rl_spec :: dmi_entity_spec
  rl_type :: dmi_type_id_t

text \<open>\<open>md_yield\<close> is the flag \<open>DMI_MODULE_FLAG_YIELD\<close>; lists which may be null are options.\<close>

record dmi_module =
  md_addr :: nat
  md_code :: string
  md_name :: string
  md_entities :: "dmi_entity_spec list option"
  md_yield :: bool
  md_platforms :: "dmi_platform_match_t list option"
  md_relocations :: "dmi_relocation list option"

text \<open>The module behind a module in a list, which the code finds by its address.\<close>

fun module_behind :: "nat \<Rightarrow> dmi_module list \<Rightarrow> dmi_module option option" where
  "module_behind addr [] = None"
| "module_behind addr [m] = (if md_addr m = addr then Some None else None)"
| "module_behind addr (m # m' # ms) = (if md_addr m = addr then Some (Some m') else module_behind addr (m' # ms))"

text \<open>
  \<open>dmi_module_next\<close>: built-in modules are not linked with each other, so the one behind a module
  is looked for in their list; registered modules are linked.
\<close>

definition first_module :: "dmi_module list \<Rightarrow> dmi_module option" where
  "first_module ms = (case ms of [] \<Rightarrow> None | m # _ \<Rightarrow> Some m)"

definition dmi_module_next :: "dmi_module list \<Rightarrow> dmi_module list \<Rightarrow> dmi_module option \<Rightarrow> dmi_module option" where
  "dmi_module_next builtin registered module =
    (case module of
       None \<Rightarrow> (if builtin \<noteq> [] then first_module builtin else first_module registered)
     | Some m \<Rightarrow>
         (case module_behind (md_addr m) builtin of
            Some (Some m') \<Rightarrow> Some m'
          | Some None \<Rightarrow> first_module registered
          | None \<Rightarrow> (case module_behind (md_addr m) registered of Some next \<Rightarrow> next | None \<Rightarrow> None)))"

text \<open>
  The loop of \<open>dmi_module_find\<close> follows the links, so it would not end in a list which is
  linked to itself: \<open>None\<close> is not returning.
\<close>

partial_function (option) module_find_loop ::
    "dmi_module list \<Rightarrow> dmi_module list \<Rightarrow> string \<Rightarrow> dmi_module option \<Rightarrow> dmi_module option option" where
  "module_find_loop builtin registered code module =
    (if module = None then Some None
     else if md_code (the module) = code then Some module
     else module_find_loop builtin registered code (dmi_module_next builtin registered module))"

definition dmi_module_find :: "dmi_module list \<Rightarrow> dmi_module list \<Rightarrow> string \<Rightarrow> dmi_module option option" where
  "dmi_module_find builtin registered code =
    module_find_loop builtin registered code (dmi_module_next builtin registered None)"

text \<open>\<open>dmi_module_register\<close>, with the list of the registered modules it makes.\<close>

definition dmi_module_register ::
    "dmi_module list \<Rightarrow> dmi_module list \<Rightarrow> dmi_module \<Rightarrow> (bool \<times> dmi_module list) option" where
  "dmi_module_register builtin registered module =
    (case dmi_module_find builtin registered (md_code module) of
       None \<Rightarrow> None
     | Some (Some _) \<Rightarrow> Some (False, registered)
     | Some None \<Rightarrow> Some (True, registered @ [module]))"

section \<open>The map of types\<close>

type_synonym dmi_type_candidates = "dmi_entity_spec option list"

text \<open>
  The vectors of the context hold the modules enabled explicitly and the ones enabled for the
  platform; \<open>extra\<close> is the one which is being enabled.
\<close>

definition dmi_module_at :: "dmi_module list \<Rightarrow> dmi_module list \<Rightarrow> dmi_module option \<Rightarrow> nat \<Rightarrow> dmi_module option" where
  "dmi_module_at enabled auto extra index =
    (if index < length enabled then Some (enabled ! index)
     else
       let index = index - length enabled in
       if index < length auto then Some (auto ! index)
       else
         let index = index - length auto in if index = 0 then extra else None)"

text \<open>The modules a loop over \<open>dmi_module_at\<close> meets before the null pointer.\<close>

definition modules_of :: "dmi_module list \<Rightarrow> dmi_module list \<Rightarrow> dmi_module option \<Rightarrow> dmi_module list" where
  "modules_of enabled auto extra = enabled @ auto @ (case extra of None \<Rightarrow> [] | Some m \<Rightarrow> [m])"

lemma module_at_modules_of:
  "dmi_module_at enabled auto extra i =
    (if i < length (modules_of enabled auto extra) then Some (modules_of enabled auto extra ! i) else None)"
  by (auto simp: dmi_module_at_def modules_of_def nth_append Let_def split: option.split)

definition relocations_of :: "dmi_module list \<Rightarrow> dmi_relocation list" where
  "relocations_of modules = concat (map (\<lambda>m. case md_relocations m of None \<Rightarrow> [] | Some rs \<Rightarrow> rs) modules)"

text \<open>The two loops of \<open>dmi_spec_relocate\<close>, over the relocations of all the modules.\<close>

fun relocate_loop :: "dmi_entity_spec \<Rightarrow> bool \<Rightarrow> nat \<Rightarrow> dmi_relocation list \<Rightarrow> dmi_type_id_t" where
  "relocate_loop spec relocated index [] =
    (if relocated \<or> index \<noteq> 0 then DMI_TYPE_ID_INVALID else sp_type_id spec)"
| "relocate_loop spec relocated index (r # rs) =
    (if rl_spec r \<noteq> spec then relocate_loop spec relocated index rs
     else if rl_type r = DMI_TYPE_ID_INVALID then relocate_loop spec True index rs
     else if index = 0 then rl_type r
     else relocate_loop spec True (index - 1) rs)"

definition dmi_spec_relocate :: "dmi_module list \<Rightarrow> dmi_entity_spec \<Rightarrow> nat \<Rightarrow> dmi_type_id_t" where
  "dmi_spec_relocate modules spec index = relocate_loop spec False index (relocations_of modules)"

definition dmi_types_map_one :: "dmi_type_candidates \<Rightarrow> dmi_entity_spec \<Rightarrow> bool \<Rightarrow> bool \<times> dmi_type_candidates" where
  "dmi_types_map_one candidates spec yield =
    (if list_ex (\<lambda>i. candidates ! i = Some spec) [0..<DMI_TYPE_CANDIDATES] then (True, candidates)
     else if ep_signature (sp_params spec) = None then
       (if candidates ! 0 \<noteq> None then (yield, candidates) else (True, candidates[0 := Some spec]))
     else
       (case find (\<lambda>i. candidates ! i = None) [1..<DMI_TYPE_CANDIDATES] of
          Some i \<Rightarrow> (True, candidates[i := Some spec])
        | None \<Rightarrow> (yield, candidates)))"

lemma relocate_loop_ends: "length rs < index \<Longrightarrow> relocate_loop spec relocated index rs = DMI_TYPE_ID_INVALID"
  by (induction spec relocated index rs rule: relocate_loop.induct) auto

text \<open>
  The loop over the type numbers of a specification, from the index \<open>k\<close> on. It ends since there are
  no more type numbers than relocations, but for the one of the specification itself.
\<close>

function map_spec_loop ::
    "dmi_module list \<Rightarrow> dmi_entity_spec \<Rightarrow> bool \<Rightarrow> nat \<Rightarrow> dmi_type_map \<Rightarrow> bool \<times> dmi_type_map" where
  "map_spec_loop modules spec yield k type_map =
    (let type = dmi_spec_relocate modules spec k
     in if type = DMI_TYPE_ID_INVALID then (True, type_map)
        else
          (case dmi_types_map_one (type_map type) spec yield of
             (ok, candidates) \<Rightarrow>
               let type_map = type_map(type := candidates)
               in if ok then map_spec_loop modules spec yield (k + 1) type_map else (False, type_map)))"
  by pat_completeness auto
termination
proof (relation "measure (\<lambda>(modules, spec, yield, k, type_map). Suc (length (relocations_of modules)) - k)")
  fix modules spec yield k type_map x xa y z
  assume "(x :: dmi_type_id_t) = dmi_spec_relocate modules spec k" and "x \<noteq> DMI_TYPE_ID_INVALID"
  then have "\<not> length (relocations_of modules) < k"
    using relocate_loop_ends by (auto simp: dmi_spec_relocate_def)
  then show "((modules, spec, yield, k + 1, z), modules, spec, yield, k, type_map) \<in>
      measure (\<lambda>(modules, spec, yield, k, type_map). Suc (length (relocations_of modules)) - k)"
    by simp
qed simp

fun map_specs_loop ::
    "dmi_platform option \<Rightarrow> dmi_module list \<Rightarrow> bool \<Rightarrow> dmi_entity_spec list \<Rightarrow> dmi_type_map \<Rightarrow> bool \<times> dmi_type_map" where
  "map_specs_loop platform modules yield [] type_map = (True, type_map)"
| "map_specs_loop platform modules yield (spec # specs) type_map =
    (if \<not> dmi_platform_in_generations platform (ep_generations (sp_params spec))
     then map_specs_loop platform modules yield specs type_map
     else
       (case map_spec_loop modules spec yield 0 type_map of
          (False, type_map) \<Rightarrow> (False, type_map)
        | (True, type_map) \<Rightarrow> map_specs_loop platform modules yield specs type_map))"

fun map_modules_loop ::
    "dmi_platform option \<Rightarrow> dmi_module list \<Rightarrow> bool \<Rightarrow> dmi_module list \<Rightarrow> dmi_type_map \<Rightarrow> bool \<times> dmi_type_map" where
  "map_modules_loop platform modules yield [] type_map = (True, type_map)"
| "map_modules_loop platform modules yield (m # ms) type_map =
    (if md_entities m = None \<or> md_yield m \<noteq> yield then map_modules_loop platform modules yield ms type_map
     else
       (case map_specs_loop platform modules yield (the (md_entities m)) type_map of
          (False, type_map) \<Rightarrow> (False, type_map)
        | (True, type_map) \<Rightarrow> map_modules_loop platform modules yield ms type_map))"

text \<open>
  \<open>dmi_types_map\<close>; \<open>dmi_entity_specs\<close> lists the predefined specifications at the type numbers of
  their types, and gives the first candidate of each.
\<close>

primrec map_predefined :: "dmi_entity_spec option list \<Rightarrow> dmi_type_map \<Rightarrow> dmi_type_map" where
  "map_predefined [] type_map = type_map"
| "map_predefined (spec # specs) type_map =
    map_predefined specs
      (case spec of
         None \<Rightarrow> type_map
       | Some sp \<Rightarrow> type_map(sp_type_id sp := (type_map (sp_type_id sp))[0 := Some sp]))"

definition dmi_types_map ::
    "dmi_entity_spec option list \<Rightarrow> dmi_platform option \<Rightarrow> dmi_module list \<Rightarrow> bool \<Rightarrow> dmi_error_queue
      \<Rightarrow> bool \<times> dmi_type_map \<times> dmi_error_queue" where
  "dmi_types_map dmi_entity_specs platform modules report q =
    (let type_map = map_predefined dmi_entity_specs (\<lambda>type. replicate DMI_TYPE_CANDIDATES None)
     in (case (case map_modules_loop platform modules False modules type_map of
                 (False, type_map) \<Rightarrow> (False, type_map)
               | (True, type_map) \<Rightarrow> map_modules_loop platform modules True modules type_map) of
           (True, type_map) \<Rightarrow> (True, type_map, q)
         | (False, type_map) \<Rightarrow> (False, type_map, if report then raise_error q DMI_ERROR_MODULE_CONFLICT else q)))"

section \<open>Finding modules\<close>

lemma module_behind_split:
  "distinct (map md_addr (xs @ m # ys)) \<Longrightarrow> module_behind (md_addr m) (xs @ m # ys) = Some (first_module ys)"
proof (induction xs)
  case Nil
  then show ?case by (cases ys) (simp_all add: first_module_def)
next
  case (Cons x xs)
  then show ?case by (cases xs) auto
qed

lemma module_behind_none: "addr \<notin> md_addr ` set ms \<Longrightarrow> module_behind addr ms = None"
  by (induction addr ms rule: module_behind.induct) auto

lemma module_next_split:
  assumes "distinct (map md_addr (builtin @ registered))" and "builtin @ registered = xs @ m # ys"
  shows "dmi_module_next builtin registered (Some m) = first_module ys"
proof (cases "length xs < length builtin")
  case True
  then obtain vs where v: "builtin = xs @ vs" "vs @ registered = m # ys" "vs \<noteq> []"
    using assms(2) by (auto simp: append_eq_append_conv2)
  then obtain us where b: "builtin = xs @ m # us" "ys = us @ registered" by (cases vs) auto
  then have "module_behind (md_addr m) builtin = Some (first_module us)"
    using assms(1) unfolding b(1) by (intro module_behind_split) auto
  then show ?thesis by (cases us) (simp_all add: dmi_module_next_def first_module_def b(2))
next
  case False
  then obtain us where r: "registered = us @ m # ys" "xs = builtin @ us"
    using assms(2) by (auto simp: append_eq_append_conv2)
  have "module_behind (md_addr m) registered = Some (first_module ys)"
    using assms(1) unfolding r(1) by (intro module_behind_split) auto
  moreover have "md_addr m \<notin> md_addr ` set builtin" using assms(1) r(1) by auto
  ultimately show ?thesis by (simp add: dmi_module_next_def module_behind_none)
qed

lemma module_find_loop_from:
  "distinct (map md_addr (builtin @ registered)) \<Longrightarrow> builtin @ registered = xs @ ys \<Longrightarrow>
    module_find_loop builtin registered code (first_module ys) = Some (find (\<lambda>m. md_code m = code) ys)"
proof (induction ys arbitrary: xs)
  case Nil
  then show ?case by (simp add: first_module_def module_find_loop.simps)
next
  case (Cons m ys)
  have "module_find_loop builtin registered code (first_module ys) = Some (find (\<lambda>m. md_code m = code) ys)"
    using Cons.IH [of "xs @ [m]"] Cons.prems by simp
  then show ?case
    using module_next_split [OF Cons.prems]
    by (simp add: first_module_def [of "m # ys"] module_find_loop.simps [of _ _ _ "Some m"])
qed

lemma module_find_list:
  "distinct (map md_addr (builtin @ registered)) \<Longrightarrow>
    dmi_module_find builtin registered code = Some (find (\<lambda>m. md_code m = code) (builtin @ registered))"
  using module_find_loop_from [of builtin registered "[]" "builtin @ registered" code]
  by (cases builtin) (simp_all add: dmi_module_find_def dmi_module_next_def first_module_def)

section \<open>What a map of types is\<close>

text \<open>
  The first candidate has no signature and the others have one, without gaps before the last:
  what \<open>dmi_entity_spec_select\<close> goes by.
\<close>

definition candidates_ok :: "dmi_type_candidates \<Rightarrow> bool" where
  "candidates_ok c \<longleftrightarrow> length c = DMI_TYPE_CANDIDATES \<and>
     (\<forall>sp. c ! 0 = Some sp \<longrightarrow> ep_signature (sp_params sp) = None) \<and>
     (\<forall>i sp. 0 < i \<and> i < DMI_TYPE_CANDIDATES \<and> c ! i = Some sp \<longrightarrow> ep_signature (sp_params sp) \<noteq> None) \<and>
     (\<forall>i. 0 < i \<and> i + 1 < DMI_TYPE_CANDIDATES \<and> c ! i = None \<longrightarrow> c ! (i + 1) = None)"

definition candidates_grow :: "dmi_type_candidates \<Rightarrow> dmi_type_candidates \<Rightarrow> bool" where
  "candidates_grow c c' \<longleftrightarrow> length c' = length c \<and> (\<forall>i < length c. c ! i \<noteq> None \<longrightarrow> c' ! i = c ! i)"

lemma candidates_grow_refl [simp]: "candidates_grow c c"
  by (simp add: candidates_grow_def)

lemma candidates_grow_trans: "candidates_grow a b \<Longrightarrow> candidates_grow b c \<Longrightarrow> candidates_grow a c"
  by (auto simp: candidates_grow_def)

lemma candidates_grow_member: "candidates_grow c c' \<Longrightarrow> Some sp \<in> set c \<Longrightarrow> Some sp \<in> set c'"
  by (auto simp: candidates_grow_def in_set_conv_nth)

lemma find_upt:
  assumes "find P [a..<b] = Some i"
  shows "a \<le> i" and "i < b" and "P i" and "\<forall>j. a \<le> j \<and> j < i \<longrightarrow> \<not> P j"
proof -
  from assms obtain n where n: "n < b - a" "P (a + n)" "i = a + n" "\<forall>j<n. \<not> P (a + j)"
    by (auto simp: find_Some_iff)
  then show "a \<le> i" "i < b" "P i" by auto
  show "\<forall>j. a \<le> j \<and> j < i \<longrightarrow> \<not> P j"
  proof (intro allI impI)
    fix j assume "a \<le> j \<and> j < i"
    then have "j - a < n" "a + (j - a) = j" using n(3) by auto
    then show "\<not> P j" using n(4) by metis
  qed
qed

lemma map_one_keeps:
  assumes c: "candidates_ok c" and ran: "dmi_types_map_one c spec yield = (ok, c')"
  shows "candidates_ok c'" and "candidates_grow c c'" and "yield \<Longrightarrow> ok"
    and "ok \<Longrightarrow> \<not> yield \<Longrightarrow> Some spec \<in> set c'"
proof -
  have len: "length c = DMI_TYPE_CANDIDATES" using c by (simp add: candidates_ok_def)
  consider (known) "Some spec \<in> set c" "c' = c" "ok"
    | (plain) "ep_signature (sp_params spec) = None" "c ! 0 = None" "c' = c[0 := Some spec]" "ok"
    | (slot) i where "ep_signature (sp_params spec) \<noteq> None" "0 < i" "i < DMI_TYPE_CANDIDATES" "c ! i = None"
        "\<forall>j. 0 < j \<and> j < i \<longrightarrow> c ! j \<noteq> None" "c' = c[i := Some spec]" "ok"
    | (full) "c' = c" "ok = yield"
  proof (cases "list_ex (\<lambda>i. c ! i = Some spec) [0..<DMI_TYPE_CANDIDATES]")
    case True
    then have "Some spec \<in> set c" using len by (auto simp: list_ex_iff in_set_conv_nth)
    moreover have "c' = c" "ok" using ran True by (simp_all add: dmi_types_map_one_def)
    ultimately show ?thesis by (rule that(1))
  next
    case new: False
    show ?thesis
    proof (cases "ep_signature (sp_params spec) = None")
      case True
      show ?thesis
      proof (cases "c ! 0 = None")
        case free: True
        then have "c' = c[0 := Some spec]" "ok" using ran new True by (simp_all add: dmi_types_map_one_def)
        then show ?thesis by (rule that(2) [OF True free])
      next
        case False
        then have "c' = c" "ok = yield" using ran new True by (auto simp: dmi_types_map_one_def)
        then show ?thesis by (rule that(4))
      qed
    next
      case sig: False
      show ?thesis
      proof (cases "find (\<lambda>i. c ! i = None) [1..<DMI_TYPE_CANDIDATES]")
        case None
        then have "c' = c" "ok = yield" using ran new sig by (auto simp: dmi_types_map_one_def)
        then show ?thesis by (rule that(4))
      next
        case (Some i)
        note f = find_upt [OF Some]
        have "c' = c[i := Some spec]" "ok" using ran new sig Some by (simp_all add: dmi_types_map_one_def)
        then show ?thesis using f by (intro that(3) [OF sig]) auto
      qed
    qed
  qed
  then have "candidates_ok c' \<and> candidates_grow c c' \<and> (yield \<longrightarrow> ok) \<and> (ok \<and> \<not> yield \<longrightarrow> Some spec \<in> set c')"
  proof cases
    case plain
    then show ?thesis
      using c len by (auto simp: candidates_ok_def candidates_grow_def nth_list_update set_update_memI DMI_TYPE_CANDIDATES_def)
  next
    case (slot i)
    then show ?thesis
      using c len by (auto simp: candidates_ok_def candidates_grow_def nth_list_update set_update_memI DMI_TYPE_CANDIDATES_def)
  qed (use c in auto)
  then show "candidates_ok c'" "candidates_grow c c'" "yield \<Longrightarrow> ok" "ok \<Longrightarrow> \<not> yield \<Longrightarrow> Some spec \<in> set c'" by auto
qed

definition map_ok :: "dmi_type_map \<Rightarrow> bool" where
  "map_ok type_map \<longleftrightarrow> (\<forall>type. candidates_ok (type_map type))"

definition map_grows :: "dmi_type_map \<Rightarrow> dmi_type_map \<Rightarrow> bool" where
  "map_grows type_map type_map' \<longleftrightarrow> (\<forall>type. candidates_grow (type_map type) (type_map' type))"

lemma map_grows_refl [simp]: "map_grows m m"
  by (simp add: map_grows_def)

lemma map_grows_trans: "map_grows a b \<Longrightarrow> map_grows b c \<Longrightarrow> map_grows a c"
  by (auto simp: map_grows_def intro: candidates_grow_trans)

lemma map_one_update:
  assumes "map_ok m" and "dmi_types_map_one (m type) spec yield = (ok, c)"
  shows "map_ok (m(type := c))" and "map_grows m (m(type := c))"
  using map_one_keeps(1,2) [OF _ assms(2)] assms(1) by (simp_all add: map_ok_def map_grows_def)

text \<open>The type numbers a specification is given, up to the first index there is none at.\<close>

definition mapped_at :: "dmi_module list \<Rightarrow> dmi_entity_spec \<Rightarrow> nat \<Rightarrow> dmi_type_id_t \<Rightarrow> bool" where
  "mapped_at modules spec k type \<longleftrightarrow>
     (\<exists>j\<ge>k. dmi_spec_relocate modules spec j = type \<and>
       (\<forall>i. k \<le> i \<and> i \<le> j \<longrightarrow> dmi_spec_relocate modules spec i \<noteq> DMI_TYPE_ID_INVALID))"

lemma mapped_at_step:
  "mapped_at modules spec k type \<Longrightarrow> dmi_spec_relocate modules spec k \<noteq> DMI_TYPE_ID_INVALID \<and>
    (type = dmi_spec_relocate modules spec k \<or> mapped_at modules spec (k + 1) type)"
  by (auto simp: mapped_at_def) (metis Suc_le_eq Suc_leD le_neq_implies_less)

lemma map_spec_loop_keeps:
  "map_ok m \<Longrightarrow> map_spec_loop modules spec yield k m = (ok, m') \<Longrightarrow>
    map_ok m' \<and> map_grows m m' \<and> (yield \<longrightarrow> ok) \<and>
    (ok \<and> \<not> yield \<longrightarrow> (\<forall>type. mapped_at modules spec k type \<longrightarrow> Some spec \<in> set (m' type)))"
proof (induction modules spec yield k m arbitrary: m' rule: map_spec_loop.induct)
  case (1 modules spec yield k m)
  let ?type = "dmi_spec_relocate modules spec k"
  show ?case
  proof (cases "?type = DMI_TYPE_ID_INVALID")
    case True
    then show ?thesis using 1(2,3) by (auto simp: map_spec_loop.simps [of modules] dest: mapped_at_step)
  next
    case False
    obtain ok1 c where one: "dmi_types_map_one (m ?type) spec yield = (ok1, c)" by (metis surj_pair)
    note up = map_one_update [OF 1(2) one]
    have k: "candidates_ok (m ?type)" using 1(2) by (simp add: map_ok_def)
    note keeps = map_one_keeps [OF k one]
    show ?thesis
    proof (cases ok1)
      case ok1: True
      then have rest: "map_spec_loop modules spec yield (k + 1) (m(?type := c)) = (ok, m')"
        using 1(3) False one by (simp add: map_spec_loop.simps [of modules spec yield k] Let_def)
      note ih = 1(1) [OF refl False one [symmetric] refl ok1 up(1) rest]
      then have "ok \<and> \<not> yield \<longrightarrow> Some spec \<in> set (m' ?type)"
        using keeps(4) ok1 by (auto simp: map_grows_def intro: candidates_grow_member)
      then show ?thesis using ih up(2) mapped_at_step map_grows_trans by metis
    next
      case ok1: False
      then have "ok = False" "m' = m(?type := c)"
        using 1(3) False one by (simp_all add: map_spec_loop.simps [of modules spec yield k] Let_def)
      then show ?thesis using up keeps(3) ok1 by blast
    qed
  qed
qed

lemma map_specs_loop_keeps:
  "map_ok m \<Longrightarrow> map_specs_loop platform modules yield specs m = (ok, m') \<Longrightarrow>
    map_ok m' \<and> map_grows m m' \<and> (yield \<longrightarrow> ok) \<and>
    (ok \<and> \<not> yield \<longrightarrow> (\<forall>spec\<in>set specs. dmi_platform_in_generations platform (ep_generations (sp_params spec)) \<longrightarrow>
       (\<forall>type. mapped_at modules spec 0 type \<longrightarrow> Some spec \<in> set (m' type))))"
proof (induction specs arbitrary: m)
  case (Cons spec specs)
  show ?case
  proof (cases "dmi_platform_in_generations platform (ep_generations (sp_params spec))")
    case False
    then have "map_specs_loop platform modules yield specs m = (ok, m')" using Cons.prems(2) by simp
    from Cons.IH [OF Cons.prems(1) this] False show ?thesis by auto
  next
    case True
    obtain ok1 m1 where one: "map_spec_loop modules spec yield 0 m = (ok1, m1)" by (metis surj_pair)
    note keeps = map_spec_loop_keeps [OF Cons.prems(1) one]
    show ?thesis
    proof (cases ok1)
      case ok1: True
      then have rest: "map_specs_loop platform modules yield specs m1 = (ok, m')"
        using Cons.prems(2) True one by simp
      have ih: "map_ok m' \<and> map_grows m1 m' \<and> (yield \<longrightarrow> ok) \<and>
          (ok \<and> \<not> yield \<longrightarrow> (\<forall>spec\<in>set specs. dmi_platform_in_generations platform (ep_generations (sp_params spec)) \<longrightarrow>
            (\<forall>type. mapped_at modules spec 0 type \<longrightarrow> Some spec \<in> set (m' type))))"
        using Cons.IH [OF _ rest] keeps by blast
      have "ok \<and> \<not> yield \<longrightarrow> (\<forall>type. mapped_at modules spec 0 type \<longrightarrow> Some spec \<in> set (m' type))"
        using keeps ih ok1 candidates_grow_member unfolding map_grows_def by blast
      then show ?thesis using ih keeps map_grows_trans by auto
    next
      case ok1: False
      then have "ok = False" "m' = m1" using Cons.prems(2) True one by simp_all
      then show ?thesis using keeps ok1 by blast
    qed
  qed
qed simp

lemma map_modules_loop_keeps:
  "map_ok m \<Longrightarrow> map_modules_loop platform modules yield ms m = (ok, m') \<Longrightarrow>
    map_ok m' \<and> map_grows m m' \<and> (yield \<longrightarrow> ok) \<and>
    (ok \<and> \<not> yield \<longrightarrow> (\<forall>md\<in>set ms. \<forall>specs. md_entities md = Some specs \<and> \<not> md_yield md \<longrightarrow>
       (\<forall>spec\<in>set specs. dmi_platform_in_generations platform (ep_generations (sp_params spec)) \<longrightarrow>
         (\<forall>type. mapped_at modules spec 0 type \<longrightarrow> Some spec \<in> set (m' type)))))"
proof (induction ms arbitrary: m)
  case (Cons md ms)
  show ?case
  proof (cases "md_entities md = None \<or> md_yield md \<noteq> yield")
    case True
    then have "map_modules_loop platform modules yield ms m = (ok, m')" using Cons.prems(2) by simp
    then show ?thesis using Cons.IH [OF Cons.prems(1)] True by auto
  next
    case False
    then obtain specs where specs: "md_entities md = Some specs" by auto
    obtain ok1 m1 where one: "map_specs_loop platform modules yield specs m = (ok1, m1)" by (metis surj_pair)
    note keeps = map_specs_loop_keeps [OF Cons.prems(1) one]
    show ?thesis
    proof (cases ok1)
      case ok1: True
      then have rest: "map_modules_loop platform modules yield ms m1 = (ok, m')"
        using Cons.prems(2) False one specs by simp
      note ih = Cons.IH [OF conjunct1 [OF keeps] rest]
      have "ok \<and> \<not> yield \<longrightarrow> (\<forall>spec\<in>set specs. dmi_platform_in_generations platform (ep_generations (sp_params spec)) \<longrightarrow>
          (\<forall>type. mapped_at modules spec 0 type \<longrightarrow> Some spec \<in> set (m' type)))"
        using keeps ih ok1 candidates_grow_member unfolding map_grows_def by blast
      then show ?thesis using ih keeps map_grows_trans specs by auto
    next
      case ok1: False
      then have "ok = False" "m' = m1" using Cons.prems(2) False one specs by simp_all
      then show ?thesis using keeps ok1 by blast
    qed
  qed
qed simp

lemma map_predefined_keeps:
  "list_all (\<lambda>s. s = None \<or> ep_signature (sp_params (the s)) = None) specs \<Longrightarrow> map_ok m \<Longrightarrow> map_ok (map_predefined specs m)"
proof (induction specs arbitrary: m)
  case (Cons spec specs)
  have "map_ok (case spec of None \<Rightarrow> m | Some sp \<Rightarrow> m(sp_type_id sp := (m (sp_type_id sp))[0 := Some sp]))"
    using Cons.prems by (cases spec) (auto simp: map_ok_def candidates_ok_def nth_list_update DMI_TYPE_CANDIDATES_def)
  then show ?case using Cons by simp
qed simp

lemma map_empty_ok: "map_ok (\<lambda>type. replicate DMI_TYPE_CANDIDATES None)"
  by (auto simp: map_ok_def candidates_ok_def DMI_TYPE_CANDIDATES_def)

lemma types_map_keeps:
  assumes specs: "list_all (\<lambda>s. s = None \<or> ep_signature (sp_params (the s)) = None) specs"
    and ran: "dmi_types_map specs platform modules report q = (ok, m, q')"
  defines "m0 \<equiv> map_predefined specs (\<lambda>type. replicate DMI_TYPE_CANDIDATES None)"
  shows "map_ok m \<and> map_grows m0 m \<and> ((\<forall>md\<in>set modules. md_yield md) \<longrightarrow> ok) \<and> (ok \<longrightarrow> q' = q) \<and>
    (ok \<longrightarrow> (\<forall>md\<in>set modules. \<forall>specs. md_entities md = Some specs \<and> \<not> md_yield md \<longrightarrow>
       (\<forall>spec\<in>set specs. dmi_platform_in_generations platform (ep_generations (sp_params spec)) \<longrightarrow>
         (\<forall>type. mapped_at modules spec 0 type \<longrightarrow> Some spec \<in> set (m type)))))"
proof -
  have m0: "map_ok m0" unfolding m0_def by (rule map_predefined_keeps [OF specs map_empty_ok])
  obtain ok1 m1 where one: "map_modules_loop platform modules False modules m0 = (ok1, m1)" by (metis surj_pair)
  note k1 = map_modules_loop_keeps [OF m0 one]
  obtain ok2 m2 where two: "map_modules_loop platform modules True modules m1 = (ok2, m2)" by (metis surj_pair)
  note k2 = map_modules_loop_keeps [OF conjunct1 [OF k1] two]
  have yield: "ok1" if "\<forall>md\<in>set modules. md_yield md"
  proof -
    have "map_modules_loop platform modules False ms m0 = (True, m0)" if "\<forall>md\<in>set ms. md_yield md" for ms
      using that by (induction ms) auto
    then show ?thesis using that one by simp
  qed
  show ?thesis
  proof (cases ok1)
    case True
    then have r: "ok = ok2" "m = m2" "ok2 = True" "q' = q"
      using ran one two k2 by (auto simp: dmi_types_map_def Let_def m0_def split: bool.splits)
    have "map_grows m0 m" using k1 k2 r map_grows_trans by blast
    then show ?thesis using k1 k2 r True candidates_grow_member unfolding map_grows_def by blast
  next
    case False
    then have "ok = False" "m = m1" using ran one by (auto simp: dmi_types_map_def Let_def m0_def)
    then show ?thesis using k1 yield False by blast
  qed
qed

section \<open>Extensions of a context\<close>

text \<open>
  The part of a context the extensions are kept in; \<open>cx_state_platform\<close> is the platform told from
  the data, which the one set explicitly overrides.
\<close>

record dmi_context =
  cx_modules :: "dmi_module list"
  cx_state_modules :: "dmi_module list"
  cx_platform :: "dmi_platform option"
  cx_state_platform :: "dmi_platform option"
  cx_type_map :: dmi_type_map
  cx_queue :: dmi_error_queue

definition dmi_context_platform :: "dmi_context \<Rightarrow> dmi_platform option" where
  "dmi_context_platform c = (if cx_platform c \<noteq> None then cx_platform c else cx_state_platform c)"

definition dmi_has_extension :: "dmi_context \<Rightarrow> dmi_module \<Rightarrow> bool" where
  "dmi_has_extension c module \<longleftrightarrow>
     list_ex (\<lambda>m. md_addr m = md_addr module) (cx_modules c) \<or> list_ex (\<lambda>m. md_addr m = md_addr module) (cx_state_modules c)"

text \<open>\<open>mem 0\<close> tells whether there is memory for the map, \<open>mem 1\<close> for the item of the vector.\<close>

definition dmi_add_extension ::
    "dmi_entity_spec option list \<Rightarrow> (nat \<Rightarrow> bool) \<Rightarrow> dmi_context \<Rightarrow> dmi_module \<Rightarrow> bool \<times> dmi_context" where
  "dmi_add_extension dmi_entity_specs mem c module =
    (if dmi_has_extension c module then (False, c\<lparr>cx_queue := raise_error (cx_queue c) DMI_ERROR_MODULE_CONFLICT\<rparr>)
     else if \<not> mem 0 then (False, c\<lparr>cx_queue := raise_error (cx_queue c) DMI_ERROR_OUT_OF_MEMORY\<rparr>)
     else
       (case dmi_types_map dmi_entity_specs (dmi_context_platform c)
               (modules_of (cx_modules c) (cx_state_modules c) (Some module)) True (cx_queue c) of
          (False, type_map, q) \<Rightarrow> (False, c\<lparr>cx_queue := q\<rparr>)
        | (True, type_map, q) \<Rightarrow>
            if \<not> mem 1 then (False, c\<lparr>cx_queue := raise_error q DMI_ERROR_OUT_OF_MEMORY\<rparr>)
            else (True, c\<lparr>cx_modules := cx_modules c @ [module], cx_type_map := type_map, cx_queue := q\<rparr>)))"

definition dmi_types_rebuild ::
    "dmi_entity_spec option list \<Rightarrow> bool \<Rightarrow> dmi_context \<Rightarrow> dmi_module option \<Rightarrow> bool \<times> dmi_context" where
  "dmi_types_rebuild dmi_entity_specs mem c extra =
    (if \<not> mem then (False, c\<lparr>cx_queue := raise_error (cx_queue c) DMI_ERROR_OUT_OF_MEMORY\<rparr>)
     else
       (case dmi_types_map dmi_entity_specs (dmi_context_platform c)
               (modules_of (cx_modules c) (cx_state_modules c) extra) True (cx_queue c) of
          (False, type_map, q) \<Rightarrow> (False, c\<lparr>cx_queue := q\<rparr>)
        | (True, type_map, q) \<Rightarrow> (True, c\<lparr>cx_type_map := type_map, cx_queue := q\<rparr>)))"

text \<open>
  \<open>mem 0\<close>, \<open>mem 1\<close> and \<open>mem 2\<close> are the allocations of the copy, \<open>mem 3\<close> the one of the map. The
  platform to set belongs to the context, so its errors are raised there too.
\<close>

definition dmi_set_platform ::
    "dmi_entity_spec option list \<Rightarrow> (nat \<Rightarrow> bool) \<Rightarrow> dmi_context \<Rightarrow> dmi_platform option \<Rightarrow> bool \<times> dmi_context" where
  "dmi_set_platform dmi_entity_specs mem c platform =
    (let copy = (case platform of None \<Rightarrow> None | Some p \<Rightarrow> dmi_platform_clone mem p)
     in if platform \<noteq> None \<and> copy = None
        then (False, c\<lparr>cx_queue := raise_error (raise_error (cx_queue c) DMI_ERROR_OUT_OF_MEMORY) DMI_ERROR_OUT_OF_MEMORY\<rparr>)
        else
          let previous = cx_platform c in
          (case dmi_types_rebuild dmi_entity_specs (mem 3) (c\<lparr>cx_platform := copy\<rparr>) None of
             (False, c) \<Rightarrow> (False, c\<lparr>cx_platform := previous\<rparr>)
           | (True, c) \<Rightarrow> (True, c)))"

definition dmi_type_spec :: "dmi_context \<Rightarrow> dmi_type_id_t \<Rightarrow> dmi_entity_spec option \<times> dmi_error_queue" where
  "dmi_type_spec c type =
    (if type \<le> DMI_TYPE_ID_INVALID \<or> type > DMI_TYPE_ID_MAX then (None, raise_error (cx_queue c) DMI_ERROR_ARGUMENT_INVALID)
     else
       let candidates = cx_type_map c type
       in (if candidates ! 0 \<noteq> None then candidates ! 0 else candidates ! 1, cx_queue c))"

definition dmi_type_find :: "dmi_context \<Rightarrow> string \<Rightarrow> dmi_type_id_t" where
  "dmi_type_find c code =
    (case find (\<lambda>i. list_ex (\<lambda>j. case cx_type_map c i ! j of None \<Rightarrow> False | Some spec \<Rightarrow> sp_code spec = code)
                  [0..<DMI_TYPE_CANDIDATES])
            [0..DMI_TYPE_ID_MAX] of
       Some i \<Rightarrow> i
     | None \<Rightarrow> DMI_TYPE_ID_INVALID)"

section \<open>Properties\<close>

lemma find_by_key: "distinct (map f xs) \<Longrightarrow> x \<in> set xs \<Longrightarrow> find (\<lambda>y. f y = f x) xs = Some x"
  by (induction xs) auto

text \<open>
  C29. Following the links from module to module ends, and finds every available module by its
  code, the built-in ones before the registered ones: a module is registered, behind all the others,
  exactly if no available module has its code, so that codes stay distinct.
\<close>

theorem module_register_finds:
  assumes "distinct (map md_addr (builtin @ registered @ [m]))" and "distinct (map md_code (builtin @ registered))"
  shows "\<exists>ok registered'. dmi_module_register builtin registered m = Some (ok, registered') \<and>
    (ok \<longleftrightarrow> md_code m \<notin> md_code ` set (builtin @ registered)) \<and>
    registered' = (if ok then registered @ [m] else registered) \<and>
    distinct (map md_code (builtin @ registered')) \<and>
    (\<forall>n\<in>set (builtin @ registered'). dmi_module_find builtin registered' (md_code n) = Some (Some n))"
proof -
  let ?ok = "md_code m \<notin> md_code ` set (builtin @ registered)"
  let ?r = "if ?ok then registered @ [m] else registered"
  have d: "distinct (map md_addr (builtin @ registered))" "distinct (map md_addr (builtin @ ?r))"
    using assms(1) by auto
  have c: "distinct (map md_code (builtin @ ?r))" using assms(2) by auto
  have "find (\<lambda>n. md_code n = md_code m) (builtin @ registered) = None \<longleftrightarrow> ?ok"
    unfolding find_None_iff image_iff by metis
  then have "dmi_module_register builtin registered m = Some (?ok, ?r)"
    using module_find_list [OF d(1), of "md_code m"]
    by (cases "find (\<lambda>n. md_code n = md_code m) (builtin @ registered)") (auto simp: dmi_module_register_def)
  moreover have "dmi_module_find builtin ?r (md_code n) = Some (Some n)" if "n \<in> set (builtin @ ?r)" for n
    using module_find_list [OF d(2), of "md_code n"] find_by_key [OF c that] by simp
  ultimately show ?thesis using c by blast
qed

definition example_module :: "nat \<Rightarrow> string \<Rightarrow> dmi_entity_spec list \<Rightarrow> dmi_module" where
  "example_module addr code specs =
    \<lparr>md_addr = addr, md_code = code, md_name = code, md_entities = Some specs, md_yield = False,
     md_platforms = None, md_relocations = None\<rparr>"

theorem module_register_finds_witness:
  "let a = example_module 1 ''acer'' []; b = example_module 2 ''dell'' []; c = example_module 3 ''dell'' []
   in dmi_module_register [a] [b] c = Some (False, [b]) \<and> dmi_module_find [a] [b] ''dell'' = Some (Some b)"
  using module_register_finds [of "[example_module 1 ''acer'' []]" "[example_module 2 ''dell'' []]" "example_module 3 ''dell'' []"]
  by (auto simp: example_module_def Let_def)

lemma map_predefined_other:
  "(\<And>sp. Some sp \<in> set specs \<Longrightarrow> sp_type_id sp \<noteq> t) \<Longrightarrow> map_predefined specs m t = m t"
  by (induction specs arbitrary: m) (auto split: option.split)

lemma map_predefined_first:
  "distinct (map sp_type_id (map the (filter (\<lambda>s. s \<noteq> None) specs))) \<Longrightarrow> Some sp \<in> set specs \<Longrightarrow>
    (\<forall>t. m t \<noteq> []) \<Longrightarrow> map_predefined specs m (sp_type_id sp) ! 0 = Some sp"
proof (induction specs arbitrary: m)
  case (Cons spec specs)
  show ?case
  proof (cases "spec = Some sp")
    case True
    then have "\<And>sp'. Some sp' \<in> set specs \<Longrightarrow> sp_type_id sp' \<noteq> sp_type_id sp" using Cons.prems(1) by force
    then show ?thesis using True Cons.prems(3) by (simp add: map_predefined_other)
  next
    case False
    then show ?thesis using Cons by (cases spec) auto
  qed
qed simp

text \<open>
  C19. The map of types is built so that a structure of a type can be told: the first candidate of a
  type has no signature and the others have one and leave no gap, every predefined
  specification stays the first candidate of its type, and every specification of a module
  which does not yield, of the generation of the platform, is a candidate at each of the type numbers it
  is relocated to. Modules which yield never make it fail, and an error is raised only if it
  fails.
\<close>

theorem types_map_sound:
  assumes "list_all (\<lambda>s. s = None \<or> ep_signature (sp_params (the s)) = None) specs"
    and "distinct (map sp_type_id (map the (filter (\<lambda>s. s \<noteq> None) specs)))"
    and "dmi_types_map specs platform modules report q = (ok, m, q')"
  shows "(\<forall>type. candidates_ok (m type)) \<and> (\<forall>sp. Some sp \<in> set specs \<longrightarrow> m (sp_type_id sp) ! 0 = Some sp) \<and>
    ((\<forall>md\<in>set modules. md_yield md) \<longrightarrow> ok) \<and> (ok \<longrightarrow> q' = q) \<and>
    (ok \<longrightarrow> (\<forall>md\<in>set modules. \<forall>ss. md_entities md = Some ss \<and> \<not> md_yield md \<longrightarrow>
       (\<forall>spec\<in>set ss. dmi_platform_in_generations platform (ep_generations (sp_params spec)) \<longrightarrow>
         (\<forall>type. mapped_at modules spec 0 type \<longrightarrow> Some spec \<in> set (m type)))))"
proof -
  let ?m0 = "map_predefined specs (\<lambda>type. replicate DMI_TYPE_CANDIDATES None)"
  note k = types_map_keeps [OF assms(1,3)]
  have m0: "map_ok ?m0" by (rule map_predefined_keeps [OF assms(1) map_empty_ok])
  have "m (sp_type_id sp) ! 0 = Some sp" if "Some sp \<in> set specs" for sp
  proof -
    have "?m0 (sp_type_id sp) ! 0 = Some sp"
      using map_predefined_first [OF assms(2) that] by (simp add: DMI_TYPE_CANDIDATES_def)
    moreover have "candidates_grow (?m0 (sp_type_id sp)) (m (sp_type_id sp))" using k by (simp add: map_grows_def)
    moreover have "0 < length (?m0 (sp_type_id sp))" using m0 by (simp add: map_ok_def candidates_ok_def DMI_TYPE_CANDIDATES_def)
    ultimately show ?thesis by (auto simp: candidates_grow_def)
  qed
  then show ?thesis using k by (simp add: map_ok_def)
qed

definition plain_spec :: "string \<Rightarrow> dmi_type_id_t \<Rightarrow> dmi_entity_spec" where
  "plain_spec code type = \<lparr>sp_code = code, sp_name = code, sp_type = nat type, sp_type_id = type,
     sp_params = \<lparr>ep_minimum_version = 0, ep_required_from = 0, ep_required_till = 0, ep_recommended_from = 0, ep_generations = \<lparr>gn_minimum = 0, gn_maximum = 0\<rparr>,
       ep_signature = None, ep_unique = False, ep_minimum_length = 0, ep_decoded_length = 8\<rparr>,
     sp_has_fields = True, sp_has_decode = False, sp_has_derive = False\<rparr>"

theorem types_map_sound_witness:
  "\<exists>ok m q'. dmi_types_map [Some (plain_spec ''firmware'' 0), None] None [example_module 1 ''acer'' [plain_spec ''acer-x'' 170]] True empty_queue =
      (ok, m, q') \<and> m 0 ! 0 = Some (plain_spec ''firmware'' 0)"
proof -
  obtain ok m q' where r: "dmi_types_map [Some (plain_spec ''firmware'' 0), None] None
      [example_module 1 ''acer'' [plain_spec ''acer-x'' 170]] True empty_queue = (ok, m, q')" by (metis prod_cases3)
  have "m (sp_type_id (plain_spec ''firmware'' 0)) ! 0 = Some (plain_spec ''firmware'' 0)"
    using types_map_sound [OF _ _ r] by (simp add: plain_spec_def)
  then show ?thesis using r by (simp add: plain_spec_def)
qed

lemma platform_clone_same: "dmi_platform_clone mem p = Some p' \<Longrightarrow> p' = p"
  by (cases p) (auto simp: dmi_platform_clone_def dmi_platform_create_def dmi_platform_set_product_def
      dmi_platform_set_family_def dmi_string_set_def Let_def split: if_splits)

text \<open>
  C30. Enabling a module and setting the platform either succeed, and then the types are mapped for
  them, or leave the context as it was but for the errors raised: a module is enabled once, behind
  the others, and the platform set is the one given.
\<close>

theorem extension_changes_atomic:
  assumes "list_all (\<lambda>s. s = None \<or> ep_signature (sp_params (the s)) = None) specs"
    and "dmi_add_extension specs mem c module = (ok, c')" and "dmi_set_platform specs mem' c platform = (ok2, c2)"
  shows "(if ok then \<not> dmi_has_extension c module \<and> dmi_has_extension c' module \<and>
            (\<forall>type. candidates_ok (cx_type_map c' type)) \<and>
            c' = c\<lparr>cx_modules := cx_modules c @ [module], cx_type_map := cx_type_map c'\<rparr>
          else c' = c\<lparr>cx_queue := cx_queue c'\<rparr>) \<and>
    (if ok2 then (\<forall>type. candidates_ok (cx_type_map c2 type)) \<and>
            c2 = c\<lparr>cx_platform := platform, cx_type_map := cx_type_map c2\<rparr>
          else c2 = c\<lparr>cx_queue := cx_queue c2\<rparr>)"
proof
  obtain s1 m1 q1 where t1: "dmi_types_map specs (dmi_context_platform c)
      (modules_of (cx_modules c) (cx_state_modules c) (Some module)) True (cx_queue c) = (s1, m1, q1)" by (metis prod_cases3)
  note k1 = types_map_keeps [OF assms(1) t1]
  show "if ok then \<not> dmi_has_extension c module \<and> dmi_has_extension c' module \<and>
            (\<forall>type. candidates_ok (cx_type_map c' type)) \<and>
            c' = c\<lparr>cx_modules := cx_modules c @ [module], cx_type_map := cx_type_map c'\<rparr>
          else c' = c\<lparr>cx_queue := cx_queue c'\<rparr>"
    using assms(2) k1 by (auto simp: dmi_add_extension_def t1 map_ok_def dmi_has_extension_def split: if_splits bool.splits)
next
  define copy where "copy = (case platform of None \<Rightarrow> None | Some p \<Rightarrow> dmi_platform_clone mem' p)"
  show "if ok2 then (\<forall>type. candidates_ok (cx_type_map c2 type)) \<and>
            c2 = c\<lparr>cx_platform := platform, cx_type_map := cx_type_map c2\<rparr>
          else c2 = c\<lparr>cx_queue := cx_queue c2\<rparr>"
  proof (cases "platform \<noteq> None \<and> copy = None")
    case True
    then show ?thesis using assms(3) by (auto simp: dmi_set_platform_def copy_def [symmetric] Let_def)
  next
    case False
    then have same: "copy = platform" by (auto simp: copy_def dest: platform_clone_same split: option.splits)
    let ?c = "c\<lparr>cx_platform := platform\<rparr>"
    obtain s1 m1 q1 where t1: "dmi_types_map specs (dmi_context_platform ?c)
        (modules_of (cx_modules c) (cx_state_modules c) None) True (cx_queue c) = (s1, m1, q1)" by (metis prod_cases3)
    note k1 = types_map_keeps [OF assms(1) t1]
    show ?thesis
      using assms(3) False k1 t1
      by (auto simp: dmi_set_platform_def copy_def [symmetric] same Let_def dmi_types_rebuild_def map_ok_def
          split: if_splits bool.splits)
  qed
qed

definition example_context :: dmi_context where
  "example_context = \<lparr>cx_modules = [], cx_state_modules = [], cx_platform = None, cx_state_platform = None,
     cx_type_map = (\<lambda>type. replicate DMI_TYPE_CANDIDATES None), cx_queue = empty_queue\<rparr>"

theorem extension_changes_atomic_witness:
  "\<exists>c'. dmi_set_platform [] (\<lambda>i. i \<noteq> 1) example_context
      (Some \<lparr>pf_firmware_vendor = DMI_VENDOR_HPE, pf_system_vendor = DMI_VENDOR_HPE, pf_baseboard_vendor = DMI_VENDOR_HPE,
        pf_processor_vendor = DMI_VENDOR_INTEL, pf_product = Some ''ProLiant'', pf_family = None, pf_generation = 10\<rparr>) = (False, c') \<and>
    cx_platform c' = None"
proof -
  let ?p = "\<lparr>pf_firmware_vendor = DMI_VENDOR_HPE, pf_system_vendor = DMI_VENDOR_HPE, pf_baseboard_vendor = DMI_VENDOR_HPE,
      pf_processor_vendor = DMI_VENDOR_INTEL, pf_product = Some ''ProLiant'', pf_family = None, pf_generation = 10\<rparr>"
  obtain ok c' where a: "dmi_add_extension [] (\<lambda>i. i \<noteq> 1) example_context (example_module 1 ''hpe'' []) = (ok, c')"
    by (metis surj_pair)
  obtain ok2 c2 where r: "dmi_set_platform [] (\<lambda>i. i \<noteq> 1) example_context (Some ?p) = (ok2, c2)" by (metis surj_pair)
  have "ok2 = False"
    using r by (auto simp: dmi_set_platform_def dmi_platform_clone_def dmi_platform_create_def dmi_platform_set_product_def
        dmi_string_set_def Let_def)
  then have same: "c2 = example_context\<lparr>cx_queue := cx_queue c2\<rparr>"
    using extension_changes_atomic [OF _ a r] by simp
  have "cx_platform c2 = None" by (subst same) (simp add: example_context_def)
  then show ?thesis using r \<open>ok2 = False\<close> by blast
qed

lemma is_space_nat: "is_space_char c \<longleftrightarrow> (of_char c :: nat) \<in> {9, 10, 11, 12, 13, 32}"
proof -
  have eq: "c = d \<longleftrightarrow> (of_char c :: nat) = of_char d" for d by simp
  show ?thesis by (simp only: is_space_char_def insert_iff empty_iff eq) simp
qed

lemma space_tolower: "is_space_char (tolower c) = is_space_char c"
  by (auto simp: is_space_nat tolower_def Let_def)

lemma trim_text_core:
  assumes "list_all is_space_char pre" and "list_all is_space_char post"
    and "n \<noteq> []" and "\<not> is_space_char (hd n)" and "\<not> is_space_char (last n)"
  shows "trim_text (pre @ n @ post) = n"
proof -
  obtain c cs where n: "n = c # cs" using assms(3) by (cases n) auto
  obtain ds d where n': "n = ds @ [d]" using assms(3) by (cases n rule: rev_cases) auto
  have one: "dropWhile is_space_char (pre @ n @ post) = n @ post"
    using assms(1,4) by (simp add: n dropWhile_append2 list_all_iff)
  have "dropWhile is_space_char (rev (n @ post)) = rev n"
    using assms(2,5) dropWhile_append2 [of "rev post" is_space_char "rev n"] by (simp add: n' list_all_iff)
  then show ?thesis by (simp add: trim_text_def one)
qed

definition vendor_name_plain :: "string \<Rightarrow> bool" where
  "vendor_name_plain n \<longleftrightarrow> n \<noteq> [] \<and> \<not> is_space_char (hd n) \<and> \<not> is_space_char (last n)"

lemma vendor_table_checked:
  "list_all (\<lambda>v. list_all (\<lambda>n. vendor_name_plain n \<and> vendor_search n dmi_vendor_specs = Some v) (vs_names v)) dmi_vendor_specs"
  by code_simp

lemma vendor_search_tolower:
  "map tolower n = map tolower n' \<Longrightarrow> vendor_search n vs = vendor_search n' vs"
proof (induction vs)
  case (Cons v vs)
  then have "length n = length n'" by (metis length_map)
  then show ?case using Cons by (simp add: strcasecmp_eq_def)
qed simp

text \<open>
  The name of a vendor is recognised in any case and with any white space around it, and as
  the vendor the table lists it for: no vendor hides a name of another one.
\<close>

theorem vendor_detect_names:
  assumes "v \<in> set dmi_vendor_specs" and "n \<in> set (vs_names v)" and "map tolower n' = map tolower n"
    and "list_all is_space_char pre" and "list_all is_space_char post"
  shows "dmi_vendor_detect (Some (pre @ n' @ post)) = Some v"
proof -
  have n: "vendor_name_plain n" "vendor_search n dmi_vendor_specs = Some v"
    using vendor_table_checked assms(1,2) by (auto simp: list_all_iff)
  have ne: "n' \<noteq> []" using n(1) assms(3) by (auto simp: vendor_name_plain_def)
  have ends: "tolower (hd n') = tolower (hd n)" "tolower (last n') = tolower (last n)"
    using assms(3) ne n(1) by (auto simp: vendor_name_plain_def) (metis hd_map, metis last_map)
  have "\<not> is_space_char (hd n')" "\<not> is_space_char (last n')"
    using n(1) ends space_tolower unfolding vendor_name_plain_def by metis+
  then have "trim_text (pre @ n' @ post) = n'" using trim_text_core [OF assms(4,5) ne] by simp
  then show ?thesis
    using vendor_search_tolower [OF assms(3), of dmi_vendor_specs] n(2) by (simp add: dmi_vendor_detect_def)
qed

theorem vendor_detect_names_witness:
  "map_option vs_id (dmi_vendor_detect (Some (''  '' @ ''dell INC.'' @ '' ''))) = Some DMI_VENDOR_DELL"
proof -
  let ?v = "\<lparr>vs_id = DMI_VENDOR_DELL, vs_code = ''dell'',
      vs_names = [''Dell Inc.'', ''Dell Computer Corporation'', ''Dell Computer Corp.''], vs_detects = False\<rparr>"
  have "?v \<in> set dmi_vendor_specs" by (simp add: dmi_vendor_specs_def)
  moreover have "map tolower ''dell INC.'' = map tolower ''Dell Inc.''" by code_simp
  ultimately have "dmi_vendor_detect (Some (''  '' @ ''dell INC.'' @ '' '')) = Some ?v"
    by (intro vendor_detect_names [of _ "''Dell Inc.''"]) (simp_all add: is_space_char_def)
  then show ?thesis by simp
qed

end
