(* ===== verification/Filters.thy ===== *)
theory Filters
  imports Vectors Modules
begin

text \<open>
  Filters of structures (\<^verbatim>\<open>src/filter.c\<close>): a mask of categories, and the handles, type numbers and
  modules a structure may be matched by, each kept in a vector. A vector of modules holds their
  addresses, which \<open>module_at\<close> resolves.
\<close>

definition DMI_FILTER_MASK_COMMON :: "32 word" where "DMI_FILTER_MASK_COMMON = 1"
definition DMI_FILTER_MASK_OEM :: "32 word" where "DMI_FILTER_MASK_OEM = 2"
definition DMI_FILTER_MASK_INACTIVE :: "32 word" where "DMI_FILTER_MASK_INACTIVE = 4"
definition DMI_FILTER_MASK_UNKNOWN :: "32 word" where "DMI_FILTER_MASK_UNKNOWN = 8"
definition DMI_FILTER_MASK_ALL :: "32 word" where "DMI_FILTER_MASK_ALL = 15"

definition DMI_TYPE_ID_INACTIVE :: dmi_type_id_t where "DMI_TYPE_ID_INACTIVE = 126"
definition DMI_TYPE_ID_OEM_START :: dmi_type_id_t where "DMI_TYPE_ID_OEM_START = 128"

record dmi_filter =
  fl_mask :: "32 word"
  fl_handles :: dmi_vector
  fl_types :: dmi_vector
  fl_modules :: dmi_vector

definition dmi_filter_create :: "bool \<Rightarrow> dmi_filter option" where
  "dmi_filter_create mem =
    (if \<not> mem then None
     else Some \<lparr>fl_mask = DMI_FILTER_MASK_ALL, fl_handles = dmi_vector_initialize None,
       fl_types = dmi_vector_initialize None, fl_modules = dmi_vector_initialize None\<rparr>)"

definition dmi_filter_add_handle :: "heap \<Rightarrow> dmi_filter \<Rightarrow> dmi_handle_t \<Rightarrow> dmi_filter result" where
  "dmi_filter_add_handle h f handle =
    (case dmi_vector_push h (fl_handles f) (ucast handle) of Inl e \<Rightarrow> Inl e | Inr v \<Rightarrow> Inr (f\<lparr>fl_handles := v\<rparr>))"

text \<open>A type number is an \<open>int\<close> of 32 bits, which is stored as an item of pointer size.\<close>

definition dmi_filter_add_type :: "heap \<Rightarrow> dmi_filter \<Rightarrow> dmi_type_id_t \<Rightarrow> dmi_filter result" where
  "dmi_filter_add_type h f type =
    (case dmi_vector_push h (fl_types f) (word_of_int type) of Inl e \<Rightarrow> Inl e | Inr v \<Rightarrow> Inr (f\<lparr>fl_types := v\<rparr>))"

definition dmi_filter_add_module :: "heap \<Rightarrow> dmi_filter \<Rightarrow> dmi_module \<Rightarrow> dmi_filter result" where
  "dmi_filter_add_module h f module =
    (case dmi_vector_push h (fl_modules f) (word_of_nat (md_addr module)) of Inl e \<Rightarrow> Inl e | Inr v \<Rightarrow> Inr (f\<lparr>fl_modules := v\<rparr>))"

definition dmi_filter_is_empty :: "dmi_filter \<Rightarrow> bool" where
  "dmi_filter_is_empty f \<longleftrightarrow> vec_length (fl_handles f) = 0 \<and> vec_length (fl_types f) = 0 \<and> vec_length (fl_modules f) = 0"

definition dmi_filter_match_mask :: "dmi_filter \<Rightarrow> 'i dmi_entity \<Rightarrow> bool" where
  "dmi_filter_match_mask f e =
    (let mask = fl_mask f
     in if en_type_id e < DMI_TYPE_ID_OEM_START \<and> mask AND DMI_FILTER_MASK_COMMON = 0 then False
        else if \<not> en_type_id e < DMI_TYPE_ID_OEM_START \<and> mask AND DMI_FILTER_MASK_OEM = 0 then False
        else if en_type_id e = DMI_TYPE_ID_INACTIVE \<and> mask AND DMI_FILTER_MASK_INACTIVE = 0 then False
        else if en_spec e = None \<and> mask AND DMI_FILTER_MASK_UNKNOWN = 0 then False
        else True)"

definition dmi_filter_match_handle :: "dmi_filter \<Rightarrow> 'i dmi_entity \<Rightarrow> bool" where
  "dmi_filter_match_handle f e \<longleftrightarrow>
    list_ex (\<lambda>i. en_handle e = ucast (vec_items (fl_handles f) ! i)) [0..<unat (vec_length (fl_handles f))]"

definition dmi_filter_match_type :: "dmi_filter \<Rightarrow> 'i dmi_entity \<Rightarrow> bool" where
  "dmi_filter_match_type f e \<longleftrightarrow>
    list_ex (\<lambda>i. en_type_id e = sint (ucast (vec_items (fl_types f) ! i) :: 32 word)) [0..<unat (vec_length (fl_types f))]"

definition dmi_filter_match_module :: "(uintptr_t \<Rightarrow> dmi_module) \<Rightarrow> dmi_filter \<Rightarrow> 'i dmi_entity \<Rightarrow> bool" where
  "dmi_filter_match_module module_at f e =
    (if en_spec e = None then False
     else list_ex (\<lambda>i.
       case md_entities (module_at (vec_items (fl_modules f) ! i)) of
         None \<Rightarrow> False
       | Some specs \<Rightarrow> list_ex (\<lambda>spec. Some spec = en_spec e) specs) [0..<unat (vec_length (fl_modules f))])"

definition dmi_filter_match :: "(uintptr_t \<Rightarrow> dmi_module) \<Rightarrow> dmi_filter \<Rightarrow> 'i dmi_entity \<Rightarrow> bool" where
  "dmi_filter_match module_at f e =
    (if \<not> dmi_filter_match_mask f e then False
     else if dmi_filter_is_empty f then True
     else dmi_filter_match_handle f e \<or> dmi_filter_match_type f e \<or> dmi_filter_match_module module_at f e)"

section \<open>A filter is three sets\<close>

definition filter_wf :: "dmi_filter \<Rightarrow> bool" where
  "filter_wf f \<longleftrightarrow> vector_wf (fl_handles f) \<and> vector_wf (fl_types f) \<and> vector_wf (fl_modules f)"

lemma list_ex_items:
  assumes "vector_wf v"
  shows "list_ex (\<lambda>i. P (vec_items v ! i)) [0..<unat (vec_length v)] = list_ex P (vector_list v)"
proof -
  have "unat (vec_length v) \<le> length (vec_items v)" using assms by (simp add: vector_wf_def word_le_nat_alt)
  then have "vector_list v = map (\<lambda>i. vec_items v ! i) [0..<unat (vec_length v)]"
    by (intro nth_equalityI) (simp_all add: vector_list_def)
  then show ?thesis by (simp add: list_ex_iff)
qed

lemma vec_length_zero: "vector_wf v \<Longrightarrow> vec_length v = 0 \<longleftrightarrow> vector_list v = []"
  using length_vector_list [of v] by (metis length_0_conv unat_eq_zero)

datatype filter_item = By_handle dmi_handle_t | By_type dmi_type_id_t | By_module dmi_module

fun filter_add :: "heap \<Rightarrow> dmi_filter \<Rightarrow> filter_item \<Rightarrow> dmi_filter result" where
  "filter_add h f (By_handle handle) = dmi_filter_add_handle h f handle"
| "filter_add h f (By_type type) = dmi_filter_add_type h f type"
| "filter_add h f (By_module module) = dmi_filter_add_module h f module"

primrec filter_build :: "heap \<Rightarrow> dmi_filter \<Rightarrow> filter_item list \<Rightarrow> dmi_filter result" where
  "filter_build h f [] = Inr f"
| "filter_build h f (x # xs) = bind_result (filter_add h f x) (\<lambda>f. filter_build h f xs)"

text \<open>What an item asks of a structure, and the items the vectors hold for a list of them.\<close>

fun item_accepts :: "filter_item \<Rightarrow> 'i dmi_entity \<Rightarrow> bool" where
  "item_accepts (By_handle handle) e \<longleftrightarrow> en_handle e = handle"
| "item_accepts (By_type type) e \<longleftrightarrow> en_type_id e = type"
| "item_accepts (By_module module) e \<longleftrightarrow>
    (\<exists>spec specs. en_spec e = Some spec \<and> md_entities module = Some specs \<and> spec \<in> set specs)"

definition stored_handles :: "filter_item list \<Rightarrow> uintptr_t list" where
  "stored_handles items = concat (map (\<lambda>x. case x of By_handle handle \<Rightarrow> [ucast handle] | _ \<Rightarrow> []) items)"

definition stored_types :: "filter_item list \<Rightarrow> uintptr_t list" where
  "stored_types items = concat (map (\<lambda>x. case x of By_type type \<Rightarrow> [word_of_int type] | _ \<Rightarrow> []) items)"

definition stored_modules :: "filter_item list \<Rightarrow> uintptr_t list" where
  "stored_modules items = concat (map (\<lambda>x. case x of By_module module \<Rightarrow> [word_of_nat (md_addr module)] | _ \<Rightarrow> []) items)"

lemmas stored_defs = stored_handles_def stored_types_def stored_modules_def

text \<open>Items which can be told apart in the vectors: type numbers of an \<open>int\<close>, and addresses.\<close>

fun item_ok :: "(uintptr_t \<Rightarrow> dmi_module) \<Rightarrow> filter_item \<Rightarrow> bool" where
  "item_ok module_at (By_handle handle) \<longleftrightarrow> True"
| "item_ok module_at (By_type type) \<longleftrightarrow> - 2147483648 \<le> type \<and> type < 2147483648"
| "item_ok module_at (By_module module) \<longleftrightarrow> module_at (word_of_nat (md_addr module)) = module"

definition filter_holds :: "filter_item list \<Rightarrow> dmi_filter \<Rightarrow> bool" where
  "filter_holds items f \<longleftrightarrow> filter_wf f \<and> vector_list (fl_handles f) = stored_handles items \<and>
     vector_list (fl_types f) = stored_types items \<and> vector_list (fl_modules f) = stored_modules items"

lemma length_stored: "length (stored_handles items) \<le> length items" "length (stored_types items) \<le> length items"
  "length (stored_modules items) \<le> length items"
  by (induction items) (auto simp: stored_defs split: filter_item.split)

lemma filter_add_holds:
  assumes f: "filter_holds items f" and mem: "generous h" and small: "length items < 2305843009213693935"
  shows "\<exists>f'. filter_add h f x = Inr f' \<and> filter_holds (items @ [x]) f' \<and> fl_mask f' = fl_mask f"
proof -
  have wf: "vector_wf (fl_handles f)" "vector_wf (fl_types f)" "vector_wf (fl_modules f)"
    using f by (simp_all add: filter_holds_def filter_wf_def)
  have push: "\<exists>v'. dmi_vector_push h v item = Inr v' \<and> vector_wf v' \<and> vector_list v' = vector_list v @ [item]"
    if "vector_wf v" "length (vector_list v) \<le> length items" for v item
    using push_vector_succeeds [OF that(1) mem, of item] push_vector_list [OF that(1), of h item] that(2) small by fastforce
  show ?thesis
  proof (cases x)
    case (By_handle handle)
    then show ?thesis
      using push [OF wf(1), of "ucast handle"] f length_stored(1) [of items]
      by (auto simp: filter_holds_def filter_wf_def dmi_filter_add_handle_def stored_defs)
  next
    case (By_type type)
    then show ?thesis
      using push [OF wf(2), of "word_of_int type"] f length_stored(2) [of items]
      by (auto simp: filter_holds_def filter_wf_def dmi_filter_add_type_def stored_defs)
  next
    case (By_module module)
    then show ?thesis
      using push [OF wf(3), of "word_of_nat (md_addr module)"] f length_stored(3) [of items]
      by (auto simp: filter_holds_def filter_wf_def dmi_filter_add_module_def stored_defs)
  qed
qed

lemma filter_build_holds:
  "filter_holds items f \<Longrightarrow> generous h \<Longrightarrow> length items + length xs < 2305843009213693935 \<Longrightarrow>
    \<exists>f'. filter_build h f xs = Inr f' \<and> filter_holds (items @ xs) f' \<and> fl_mask f' = fl_mask f"
proof (induction xs arbitrary: items f)
  case (Cons x xs)
  from filter_add_holds [OF Cons.prems(1,2), of x] Cons.prems(3) obtain f1 where
    f1: "filter_add h f x = Inr f1" "filter_holds (items @ [x]) f1" "fl_mask f1 = fl_mask f" by auto
  from Cons.IH [OF f1(2) Cons.prems(2)] Cons.prems(3) show ?case by (auto simp: f1(1,3))
qed simp

lemma sint_stored: "- 2147483648 \<le> t \<Longrightarrow> t < 2147483648 \<Longrightarrow> sint (ucast (word_of_int t :: uintptr_t) :: 32 word) = t"
  by (simp add: ucast_down_wi is_down signed_of_int signed_take_bit_int_eq_self)

lemma handle_stored: "ucast (ucast (handle :: dmi_handle_t) :: uintptr_t) = handle"
  by (simp add: ucast_up_ucast_id is_up)

lemma set_stored:
  "w \<in> set (stored_handles items) \<longleftrightarrow> (\<exists>handle. By_handle handle \<in> set items \<and> w = ucast handle)"
  "w \<in> set (stored_types items) \<longleftrightarrow> (\<exists>type. By_type type \<in> set items \<and> w = word_of_int type)"
  "w \<in> set (stored_modules items) \<longleftrightarrow> (\<exists>module. By_module module \<in> set items \<and> w = word_of_nat (md_addr module))"
  by (induction items) (auto simp: stored_defs split: filter_item.splits)

lemma stored_empty: "stored_handles items = [] \<and> stored_types items = [] \<and> stored_modules items = [] \<longleftrightarrow> items = []"
  by (cases items) (auto simp: stored_defs split: filter_item.splits)

lemma filter_match_items:
  assumes f: "filter_holds items f" and ok: "list_all (item_ok module_at) items"
  shows "dmi_filter_match module_at f e \<longleftrightarrow>
    dmi_filter_match_mask f e \<and> (items = [] \<or> (\<exists>x\<in>set items. item_accepts x e))"
proof -
  have wf: "vector_wf (fl_handles f)" "vector_wf (fl_types f)" "vector_wf (fl_modules f)"
    using f by (simp_all add: filter_holds_def filter_wf_def)
  have empty: "dmi_filter_is_empty f \<longleftrightarrow> items = []"
    using f stored_empty [of items] by (simp add: dmi_filter_is_empty_def vec_length_zero wf filter_holds_def)
  have "dmi_filter_match_handle f e \<longleftrightarrow> list_ex (\<lambda>w. en_handle e = ucast w) (stored_handles items)"
    using f list_ex_items [OF wf(1), of "\<lambda>w. en_handle e = ucast w"] by (simp add: dmi_filter_match_handle_def filter_holds_def)
  then have handle: "dmi_filter_match_handle f e \<longleftrightarrow> (\<exists>handle. By_handle handle \<in> set items \<and> en_handle e = handle)"
    by (auto simp: list_ex_iff Bex_def set_stored handle_stored)
  have "dmi_filter_match_type f e \<longleftrightarrow> list_ex (\<lambda>w. en_type_id e = sint (ucast w :: 32 word)) (stored_types items)"
    using f list_ex_items [OF wf(2), of "\<lambda>w. en_type_id e = sint (ucast w :: 32 word)"]
    by (simp add: dmi_filter_match_type_def filter_holds_def)
  moreover have "sint (ucast (word_of_int type :: uintptr_t) :: 32 word) = type" if "By_type type \<in> set items" for type
    using ok that by (intro sint_stored) (auto simp: list_all_iff)
  ultimately have type: "dmi_filter_match_type f e \<longleftrightarrow> (\<exists>type. By_type type \<in> set items \<and> en_type_id e = type)"
    by (auto simp: list_ex_iff Bex_def set_stored)
  define brings where "brings w \<longleftrightarrow> (case md_entities (module_at w) of None \<Rightarrow> False
      | Some specs \<Rightarrow> list_ex (\<lambda>spec. Some spec = en_spec e) specs)" for w
  have "dmi_filter_match_module module_at f e \<longleftrightarrow> en_spec e \<noteq> None \<and> list_ex brings (stored_modules items)"
    using f list_ex_items [OF wf(3), of brings] by (simp add: dmi_filter_match_module_def filter_holds_def brings_def)
  moreover have "brings (word_of_nat (md_addr module)) \<and> en_spec e \<noteq> None \<longleftrightarrow> item_accepts (By_module module) e"
    if "By_module module \<in> set items" for module
  proof -
    have "module_at (word_of_nat (md_addr module)) = module" using ok that by (auto simp: list_all_iff)
    then show ?thesis by (auto simp: brings_def list_ex_iff split: option.split)
  qed
  ultimately have module: "dmi_filter_match_module module_at f e \<longleftrightarrow>
      (\<exists>module. By_module module \<in> set items \<and> item_accepts (By_module module) e)"
    by (auto simp: list_ex_iff Bex_def set_stored simp del: item_accepts.simps)
  have "(\<exists>x\<in>set items. item_accepts x e) \<longleftrightarrow>
      (\<exists>handle. By_handle handle \<in> set items \<and> en_handle e = handle) \<or>
      (\<exists>type. By_type type \<in> set items \<and> en_type_id e = type) \<or>
      (\<exists>module. By_module module \<in> set items \<and> item_accepts (By_module module) e)"
    by (metis filter_item.exhaust item_accepts.simps(1,2))
  then show ?thesis using handle type module empty by (auto simp: dmi_filter_match_def)
qed

section \<open>Properties\<close>

text \<open>
  C20. A filter a list of handles, types and modules has been added to, with memory to be had,
  matches exactly the structures the mask lets through which one of the items accepts, or all
  of them if none has been added: handles and types are compared as they were given, and a
  module accepts what is decoded by one of its specifications.
\<close>

theorem filter_matches_items:
  assumes "generous h" and "length items < 2305843009213693935" and "list_all (item_ok module_at) items"
  shows "\<exists>f f'. dmi_filter_create True = Some f \<and> filter_build h f items = Inr f' \<and>
    (\<forall>mask. dmi_filter_match module_at (f'\<lparr>fl_mask := mask\<rparr>) e \<longleftrightarrow>
      dmi_filter_match_mask (f'\<lparr>fl_mask := mask\<rparr>) e \<and> (items = [] \<or> (\<exists>x\<in>set items. item_accepts x e)))"
proof -
  obtain f where f: "dmi_filter_create True = Some f" by (simp add: dmi_filter_create_def)
  then have "filter_holds [] f"
    by (auto simp: dmi_filter_create_def filter_holds_def filter_wf_def stored_defs)
  from filter_build_holds [OF this assms(1), of items] assms(2) obtain f' where
    f': "filter_build h f items = Inr f'" "filter_holds items f'" by auto
  have "filter_holds items (f'\<lparr>fl_mask := mask\<rparr>)" for mask
    using f'(2) by (simp add: filter_holds_def filter_wf_def)
  then show ?thesis using filter_match_items [OF _ assms(3)] f f'(1) by blast
qed

theorem filter_matches_items_witness:
  "\<exists>e f. dmi_entity_create (\<lambda>i. True) empty_queue example_table 0 = (Some (e :: nat dmi_entity), empty_queue) \<and>
    filter_build (\<lambda>n. Some (\<lambda>i. 7)) (the (dmi_filter_create True)) [By_handle 5, By_type 1] = Inr f \<and>
    dmi_filter_match (\<lambda>w. example_module 1 ''acer'' []) (f\<lparr>fl_mask := DMI_FILTER_MASK_COMMON OR DMI_FILTER_MASK_UNKNOWN\<rparr>) e"
proof -
  obtain e :: "nat dmi_entity" where e: "dmi_entity_create (\<lambda>i. True) empty_queue example_table 0 = (Some e, empty_queue)"
    using example_table_created by blast
  have type: "en_type_id e = 1" by (rule example_table_entity(2) [OF e])
  have "dmi_filter_match_mask (f\<lparr>fl_mask := DMI_FILTER_MASK_COMMON OR DMI_FILTER_MASK_UNKNOWN\<rparr>) e" for f :: dmi_filter
    by (simp add: dmi_filter_match_mask_def type DMI_FILTER_MASK_COMMON_def DMI_FILTER_MASK_UNKNOWN_def
        DMI_TYPE_ID_OEM_START_def DMI_TYPE_ID_INACTIVE_def)
  then show ?thesis
    using filter_matches_items [of "\<lambda>n. Some (\<lambda>i. 7)" "[By_handle 5, By_type 1]" "\<lambda>w. example_module 1 ''acer'' []" e] e type
    by (auto simp: generous_def)
qed

end
