(* ===== verification/Registry.thy ===== *)
theory Registry
  imports Filters Decoder
begin

text \<open>
  The registry of the structures of a table (\<^verbatim>\<open>src/registry.c\<close>). An entry is named by its
  position in the order the structures were registered in, which is what the links
  \<open>seq_next\<close> and \<open>seq_prev\<close> of the code go by; a cell of the hash table is the list of the
  entries chained in it. \<open>strict\<close> is the flag \<open>DMI_CONTEXT_FLAG_STRICT\<close> of the context.
  Looking at the type of a structure which is not decoded may mark its strings as used, so lookups by
  type give the registry back too.
\<close>

definition DMI_REGISTRY_CAPACITY :: nat where "DMI_REGISTRY_CAPACITY = 64"

definition DMI_REGISTRY_STATUS_SCANNED :: "32 word" where "DMI_REGISTRY_STATUS_SCANNED = 1"
definition DMI_REGISTRY_STATUS_TRUNCATED :: "32 word" where "DMI_REGISTRY_STATUS_TRUNCATED = 2"
definition DMI_REGISTRY_STATUS_DECODED :: "32 word" where "DMI_REGISTRY_STATUS_DECODED = 4"
definition DMI_REGISTRY_STATUS_LINKED :: "32 word" where "DMI_REGISTRY_STATUS_LINKED = 8"
definition DMI_REGISTRY_STATUS_OVERLAID :: "32 word" where "DMI_REGISTRY_STATUS_OVERLAID = 16"

definition DMI_HANDLE_INVALID :: dmi_handle_t where "DMI_HANDLE_INVALID = 0xFFFF"
definition DMI_HANDLE_UNSUPPORTED :: dmi_handle_t where "DMI_HANDLE_UNSUPPORTED = 0xFFFE"

record 'i dmi_registry =
  rg_capacity :: nat
  rg_count :: nat
  rg_index :: "nat list list"
  rg_entries :: "'i dmi_entity list"
  rg_status :: "32 word"

definition dmi_registry_create :: "(nat \<Rightarrow> bool) \<Rightarrow> dmi_error_queue \<Rightarrow> nat \<Rightarrow> 'i dmi_registry option \<times> dmi_error_queue" where
  "dmi_registry_create mem q capacity =
    (let capacity = (if capacity = 0 then DMI_REGISTRY_CAPACITY else capacity)
     in if \<not> mem 0 \<or> \<not> mem 1 then (None, raise_error q DMI_ERROR_OUT_OF_MEMORY)
        else (Some \<lparr>rg_capacity = capacity, rg_count = 0, rg_index = replicate capacity [],
                    rg_entries = [], rg_status = 0\<rparr>, q))"

section \<open>Registering structures\<close>

text \<open>The walk along a chain of \<open>dmi_registry_put\<close>: only the entry itself being there already ends it.\<close>

fun put_walk :: "dmi_error_queue \<Rightarrow> 'i dmi_entity list \<Rightarrow> 'i dmi_entity \<Rightarrow> nat list \<Rightarrow> bool \<times> dmi_error_queue" where
  "put_walk q entries e [] = (True, q)"
| "put_walk q entries e (n # chain) =
    (if buf_id (en_buffer (entries ! n)) = buf_id (en_buffer e) \<and> en_offset (entries ! n) = en_offset e
     then (False, raise_error q DMI_ERROR_ENTITY_DUPLICATE)
     else
       let q = (if en_handle (entries ! n) = en_handle e then raise_error q DMI_ERROR_HANDLE_DUPLICATE else q)
       in put_walk q entries e chain)"

definition dmi_registry_put ::
    "bool \<Rightarrow> dmi_error_queue \<Rightarrow> 'i dmi_registry \<Rightarrow> 'i dmi_entity \<Rightarrow> bool \<times> 'i dmi_registry \<times> dmi_error_queue" where
  "dmi_registry_put mem q reg e =
    (if \<not> mem then (False, reg, raise_error q DMI_ERROR_OUT_OF_MEMORY)
     else
       let hash = unat (en_handle e) mod rg_capacity reg;
           chain = rg_index reg ! hash
       in (case put_walk q (rg_entries reg) e chain of
             (False, q) \<Rightarrow> (False, reg, q)
           | (True, q) \<Rightarrow>
               (True, reg\<lparr>rg_index := (rg_index reg)[hash := chain @ [length (rg_entries reg)]],
                          rg_entries := rg_entries reg @ [e]\<rparr>, q)))"

section \<open>Looking structures up\<close>

text \<open>\<open>dmi_entity_type\<close> of an entry.\<close>

definition entry_type ::
    "dmi_type_map \<Rightarrow> dmi_error_queue \<Rightarrow> 'i dmi_registry \<Rightarrow> nat \<Rightarrow> nat option \<times> 'i dmi_registry \<times> dmi_error_queue" where
  "entry_type type_map q reg n =
    (case dmi_entity_spec_type type_map q (rg_entries reg ! n) of
       (type, e, q) \<Rightarrow> (type, reg\<lparr>rg_entries := (rg_entries reg)[n := e]\<rparr>, q))"

text \<open>The type is \<open>None\<close> for \<open>DMI_TYPE_ANY\<close>.\<close>

definition dmi_registry_lookup ::
    "bool \<Rightarrow> dmi_type_map \<Rightarrow> dmi_error_queue \<Rightarrow> 'i dmi_registry \<Rightarrow> dmi_handle_t \<Rightarrow> nat option \<Rightarrow> bool
      \<Rightarrow> nat option \<times> 'i dmi_registry \<times> dmi_error_queue" where
  "dmi_registry_lookup strict type_map q reg handle type optional =
    (if handle = DMI_HANDLE_INVALID \<or> handle = DMI_HANDLE_UNSUPPORTED then (None, reg, q)
     else
       (case find (\<lambda>n. en_handle (rg_entries reg ! n) = handle) (rg_index reg ! (unat handle mod rg_capacity reg)) of
          None \<Rightarrow> (None, reg, if \<not> optional then raise_error q DMI_ERROR_ENTITY_NOT_FOUND else q)
        | Some n \<Rightarrow>
            (case type of
               None \<Rightarrow> (Some n, reg, q)
             | Some _ \<Rightarrow>
                 (case entry_type type_map q reg n of
                    (own, reg, q) \<Rightarrow>
                      if own = type then (Some n, reg, q)
                      else if handle = 0 \<and> \<not> strict then (None, reg, q)
                      else (None, reg, raise_error q DMI_ERROR_ENTITY_TYPE_INVALID)))))"

text \<open>The loop over the types of a list, each of which the type of the entry is told anew for.\<close>

primrec any_type ::
    "dmi_type_map \<Rightarrow> dmi_error_queue \<Rightarrow> 'i dmi_registry \<Rightarrow> nat \<Rightarrow> nat list \<Rightarrow> bool \<times> 'i dmi_registry \<times> dmi_error_queue" where
  "any_type type_map q reg n [] = (False, reg, q)"
| "any_type type_map q reg n (type # types) =
    (case entry_type type_map q reg n of
       (own, reg, q) \<Rightarrow> if own = Some type then (True, reg, q) else any_type type_map q reg n types)"

definition dmi_registry_lookup_any ::
    "bool \<Rightarrow> dmi_type_map \<Rightarrow> dmi_error_queue \<Rightarrow> 'i dmi_registry \<Rightarrow> dmi_handle_t \<Rightarrow> nat list option \<Rightarrow> bool
      \<Rightarrow> nat option \<times> 'i dmi_registry \<times> dmi_error_queue" where
  "dmi_registry_lookup_any strict type_map q reg handle types optional =
    (case dmi_registry_lookup strict type_map q reg handle None optional of
       (None, reg, q) \<Rightarrow> (None, reg, q)
     | (Some n, reg, q) \<Rightarrow>
         (case types of
            None \<Rightarrow> (Some n, reg, q)
          | Some types \<Rightarrow>
              (case any_type type_map q reg n types of
                 (True, reg, q) \<Rightarrow> (Some n, reg, q)
               | (False, reg, q) \<Rightarrow>
                   if handle = 0 \<and> \<not> strict then (None, reg, q)
                   else (None, reg, raise_error q DMI_ERROR_ENTITY_TYPE_INVALID))))"

text \<open>
  Resolving a reference gives whether it could be resolved, and what to, which is nothing for a
  reference which is not set. The message of the error names the structure, which may tell its
  specification once more.
\<close>

definition name_entry_spec ::
    "dmi_type_map \<Rightarrow> dmi_error_queue \<Rightarrow> 'i dmi_registry \<Rightarrow> nat \<Rightarrow> 'i dmi_registry \<times> dmi_error_queue" where
  "name_entry_spec type_map q reg n = (case entry_type type_map q reg n of (_, reg, q) \<Rightarrow> (reg, q))"

definition dmi_registry_resolve_any ::
    "bool \<Rightarrow> dmi_type_map \<Rightarrow> dmi_error_queue \<Rightarrow> 'i dmi_registry \<Rightarrow> dmi_handle_t \<Rightarrow> nat list option
      \<Rightarrow> (bool \<times> nat option) \<times> 'i dmi_registry \<times> dmi_error_queue" where
  "dmi_registry_resolve_any strict type_map q reg handle types =
    (if handle = DMI_HANDLE_INVALID \<or> handle = DMI_HANDLE_UNSUPPORTED then ((True, None), reg, q)
     else if types = Some [] then ((False, None), reg, raise_error q DMI_ERROR_ARGUMENT_INVALID)
     else
       (case dmi_registry_lookup strict type_map q reg handle None False of
          (None, reg, q) \<Rightarrow> ((False, None), reg, q)
        | (Some n, reg, q) \<Rightarrow>
            (case types of
               None \<Rightarrow> ((True, Some n), reg, q)
             | Some types \<Rightarrow>
                 (case any_type type_map q reg n types of
                    (True, reg, q) \<Rightarrow> ((True, Some n), reg, q)
                  | (False, reg, q) \<Rightarrow>
                      if handle = 0 \<and> \<not> strict then ((True, None), reg, q)
                      else
                        let (reg, q) = (if length types = 1 then name_entry_spec type_map q reg n else (reg, q))
                        in ((False, None), reg, raise_error q DMI_ERROR_ENTITY_TYPE_INVALID)))))"

definition dmi_registry_resolve ::
    "bool \<Rightarrow> dmi_type_map \<Rightarrow> dmi_error_queue \<Rightarrow> 'i dmi_registry \<Rightarrow> dmi_handle_t \<Rightarrow> nat option
      \<Rightarrow> (bool \<times> nat option) \<times> 'i dmi_registry \<times> dmi_error_queue" where
  "dmi_registry_resolve strict type_map q reg handle type =
    dmi_registry_resolve_any strict type_map q reg handle (case type of None \<Rightarrow> None | Some type \<Rightarrow> Some [type])"

definition dmi_registry_resolve_id ::
    "bool \<Rightarrow> dmi_type_map \<Rightarrow> dmi_error_queue \<Rightarrow> 'i dmi_registry \<Rightarrow> dmi_handle_t \<Rightarrow> dmi_type_id_t
      \<Rightarrow> (bool \<times> nat option) \<times> 'i dmi_registry \<times> dmi_error_queue" where
  "dmi_registry_resolve_id strict type_map q reg handle type_id =
    (case dmi_registry_resolve_any strict type_map q reg handle None of
       ((False, entity), reg, q) \<Rightarrow> ((False, entity), reg, q)
     | ((True, None), reg, q) \<Rightarrow> ((True, None), reg, q)
     | ((True, Some n), reg, q) \<Rightarrow>
         if type_id = DMI_TYPE_ID_INVALID \<or> en_type_id (rg_entries reg ! n) = type_id then ((True, Some n), reg, q)
         else if handle = 0 \<and> \<not> strict then ((True, None), reg, q)
         else ((False, None), reg, raise_error q DMI_ERROR_ENTITY_TYPE_INVALID))"

text \<open>The loop of \<open>dmi_registry_lookup_first\<close>, over the entries from \<open>n\<close> on.\<close>

fun first_of_type ::
    "dmi_type_map \<Rightarrow> dmi_error_queue \<Rightarrow> 'i dmi_registry \<Rightarrow> nat \<Rightarrow> nat list \<Rightarrow> nat option \<times> 'i dmi_registry \<times> dmi_error_queue" where
  "first_of_type type_map q reg type [] = (None, reg, q)"
| "first_of_type type_map q reg type (n # ns) =
    (case entry_type type_map q reg n of
       (own, reg, q) \<Rightarrow> if own = Some type then (Some n, reg, q) else first_of_type type_map q reg type ns)"

definition dmi_registry_lookup_first ::
    "dmi_type_map \<Rightarrow> dmi_error_queue \<Rightarrow> 'i dmi_registry \<Rightarrow> nat \<Rightarrow> bool \<Rightarrow> nat option \<times> 'i dmi_registry \<times> dmi_error_queue" where
  "dmi_registry_lookup_first type_map q reg type optional =
    (case first_of_type type_map q reg type [0..<length (rg_entries reg)] of
       (Some n, reg, q) \<Rightarrow> (Some n, reg, q)
     | (None, reg, q) \<Rightarrow> (None, reg, if \<not> optional then raise_error q DMI_ERROR_ENTITY_NOT_FOUND else q))"

definition dmi_registry_lookup_first_id ::
    "dmi_error_queue \<Rightarrow> 'i dmi_registry \<Rightarrow> dmi_type_id_t \<Rightarrow> bool \<Rightarrow> nat option \<times> dmi_error_queue" where
  "dmi_registry_lookup_first_id q reg type_id optional =
    (if type_id = DMI_TYPE_ID_INVALID then (None, raise_error q DMI_ERROR_ARGUMENT_INVALID)
     else
       (case find (\<lambda>n. en_type_id (rg_entries reg ! n) = type_id) [0..<length (rg_entries reg)] of
          Some n \<Rightarrow> (Some n, q)
        | None \<Rightarrow> (None, if \<not> optional then raise_error q DMI_ERROR_ENTITY_NOT_FOUND else q)))"

section \<open>Scanning a table\<close>

text \<open>
  The loop of \<open>dmi_registry_scan\<close>: \<open>limit\<close> is the number of structures the entry point tells, or
  zero, and \<open>mem index\<close> and \<open>put_mem index\<close> say what memory there is for a structure and for its
  entry. An offset never passes the end of the table, so the bytes left are a natural number.
\<close>

lemma entity_create_progress:
  assumes "dmi_entity_create mem q b off = (Some e, q')"
  shows "off < unat (buf_length b)" and "4 \<le> en_total_length e"
proof -
  show "off < unat (buf_length b)"
    using assms by (auto simp: dmi_entity_create_def Let_def split: if_splits)
  show "4 \<le> en_total_length e"
    using assms by (auto simp: dmi_entity_create_def Let_def split: if_splits option.splits prod.splits)
qed

function scan_loop ::
    "bool \<Rightarrow> nat \<Rightarrow> (nat \<Rightarrow> nat \<Rightarrow> bool) \<Rightarrow> (nat \<Rightarrow> bool) \<Rightarrow> dmi_buffer \<Rightarrow> dmi_error_queue \<Rightarrow> 'i dmi_registry
      \<Rightarrow> nat \<Rightarrow> nat \<Rightarrow> nat \<Rightarrow> bool \<times> 'i dmi_registry \<times> nat \<times> dmi_error_queue" where
  "scan_loop strict limit mem put_mem table q reg offset index count =
    (if \<not> (limit = 0 \<or> index < limit) then (True, reg, count, q)
     else if unat (buf_length table) - offset < 4 + 2
     then (True, reg\<lparr>rg_status := rg_status reg OR DMI_REGISTRY_STATUS_TRUNCATED\<rparr>, count, q)
     else
       (case dmi_entity_create (mem index) q table offset of
          (None, q) \<Rightarrow>
            let error = dmi_error_peek_last q
            in if error \<noteq> None \<and> err_reason (the error) = DMI_ERROR_ENTITY_TRUNCATED
               then (True, reg\<lparr>rg_status := rg_status reg OR DMI_REGISTRY_STATUS_TRUNCATED\<rparr>, count, q)
               else if error \<noteq> None \<and> err_reason (the error) = DMI_ERROR_ENTITY_LENGTH_INVALID \<and> \<not> strict
               then (True, reg\<lparr>rg_status := rg_status reg OR DMI_REGISTRY_STATUS_TRUNCATED\<rparr>, count, q)
               else (False, reg, count, raise_error q DMI_ERROR_ENTITY_DECODE_FAILED)
        | (Some e, q) \<Rightarrow>
            (case dmi_registry_put (put_mem index) q reg e of
               (False, reg, q) \<Rightarrow> (False, reg, count, raise_error q DMI_ERROR_ENTITY_REGISTER_FAILED)
             | (True, reg, q) \<Rightarrow>
                 let count = count + 1
                 in if en_type_id e = DMI_TYPE_ID_END_OF_TABLE then (True, reg, count, q)
                    else scan_loop strict limit mem put_mem table q reg (offset + en_total_length e) (index + 1) count)))"
  by pat_completeness auto
termination
  by (relation "measure (\<lambda>(strict, limit, mem, put_mem, table, q, reg, offset, index, count). unat (buf_length table) - offset)")
    (auto dest!: entity_create_progress [OF sym])

declare scan_loop.simps [simp del]

definition dmi_registry_scan ::
    "bool \<Rightarrow> nat \<Rightarrow> (nat \<Rightarrow> nat \<Rightarrow> bool) \<Rightarrow> (nat \<Rightarrow> bool) \<Rightarrow> dmi_buffer \<Rightarrow> dmi_error_queue \<Rightarrow> 'i dmi_registry
      \<Rightarrow> bool \<times> 'i dmi_registry \<times> dmi_error_queue" where
  "dmi_registry_scan strict limit mem put_mem table q reg =
    (if rg_status reg AND DMI_REGISTRY_STATUS_SCANNED \<noteq> 0 then (True, reg, q)
     else
       (case scan_loop strict limit mem put_mem table q reg 0 0 0 of
          (False, reg, count, q) \<Rightarrow> (False, reg, q)
        | (True, reg, count, q) \<Rightarrow>
            (True, reg\<lparr>rg_count := count, rg_status := rg_status reg OR DMI_REGISTRY_STATUS_SCANNED\<rparr>, q)))"

section \<open>Visiting structures\<close>

record dmi_registry_iter =
  it_position :: "nat option"
  it_filter :: "dmi_filter option"
  it_is_done :: bool

definition dmi_registry_iter_initialize :: "dmi_filter option \<Rightarrow> dmi_registry_iter" where
  "dmi_registry_iter_initialize f = \<lparr>it_position = None, it_filter = f, it_is_done = False\<rparr>"

text \<open>The entry after the position, and past the ones the filter does not match.\<close>

definition iter_matches :: "(uintptr_t \<Rightarrow> dmi_module) \<Rightarrow> 'i dmi_registry \<Rightarrow> dmi_filter option \<Rightarrow> nat \<Rightarrow> bool" where
  "iter_matches module_at reg f n =
    (case f of None \<Rightarrow> True | Some f \<Rightarrow> dmi_filter_match module_at f (rg_entries reg ! n))"

definition iter_advance :: "(uintptr_t \<Rightarrow> dmi_module) \<Rightarrow> 'i dmi_registry \<Rightarrow> dmi_registry_iter \<Rightarrow> nat option" where
  "iter_advance module_at reg it =
    (let first = (case it_position it of None \<Rightarrow> 0 | Some n \<Rightarrow> n + 1)
     in find (iter_matches module_at reg (it_filter it)) [first..<length (rg_entries reg)])"

definition dmi_registry_iter_has_next :: "(uintptr_t \<Rightarrow> dmi_module) \<Rightarrow> 'i dmi_registry \<Rightarrow> dmi_registry_iter \<Rightarrow> bool" where
  "dmi_registry_iter_has_next module_at reg it = (if it_is_done it then False else iter_advance module_at reg it \<noteq> None)"

definition dmi_registry_iter_next ::
    "(uintptr_t \<Rightarrow> dmi_module) \<Rightarrow> 'i dmi_registry \<Rightarrow> dmi_registry_iter \<Rightarrow> nat option \<times> dmi_registry_iter" where
  "dmi_registry_iter_next module_at reg it =
    (if it_is_done it then (None, it)
     else
       let position = iter_advance module_at reg it
       in (position, it\<lparr>it_position := position, it_is_done := position = None\<rparr>))"

text \<open>
  The structures an iterator comes to, one call after the other, until it is done. The loops below
  change structures but not which ones there are, so they are written over this list.
\<close>

lemma iter_advance_bounds:
  assumes "iter_advance module_at reg it = Some n"
  shows "n < length (rg_entries reg)" and "(case it_position it of None \<Rightarrow> 0 | Some m \<Rightarrow> m + 1) \<le> n"
proof -
  from assms have "n \<in> set [case it_position it of None \<Rightarrow> 0 | Some m \<Rightarrow> m + 1..<length (rg_entries reg)]"
    unfolding iter_advance_def Let_def by (auto simp: find_Some_iff in_set_conv_nth)
  then show "n < length (rg_entries reg)" and "(case it_position it of None \<Rightarrow> 0 | Some m \<Rightarrow> m + 1) \<le> n" by simp_all
qed

lemma iter_next_some:
  assumes "dmi_registry_iter_next module_at reg it = (Some n, it')"
  shows "n < length (rg_entries reg)" and "(case it_position it of None \<Rightarrow> 0 | Some m \<Rightarrow> m + 1) \<le> n"
    and "it_position it' = Some n" and "it_filter it' = it_filter it" and "\<not> it_is_done it'"
  using assms iter_advance_bounds [of module_at reg it n]
  by (auto simp: dmi_registry_iter_next_def Let_def split: if_splits)

function iter_visits :: "(uintptr_t \<Rightarrow> dmi_module) \<Rightarrow> 'i dmi_registry \<Rightarrow> dmi_registry_iter \<Rightarrow> nat list" where
  "iter_visits module_at reg it =
    (case dmi_registry_iter_next module_at reg it of
       (None, it) \<Rightarrow> []
     | (Some n, it) \<Rightarrow> n # iter_visits module_at reg it)"
  by pat_completeness auto
termination
proof (relation "measure (\<lambda>(module_at, reg, it). length (rg_entries reg) - (case it_position it of None \<Rightarrow> 0 | Some m \<Rightarrow> m + 1))", goal_cases)
  case (2 module_at reg it p it' n)
  then have "dmi_registry_iter_next module_at reg it = (Some n, it')" by simp
  from iter_next_some(1,2,3) [OF this] show ?case by simp
qed simp

declare iter_visits.simps [simp del]

abbreviation visit_all :: "(uintptr_t \<Rightarrow> dmi_module) \<Rightarrow> 'i dmi_registry \<Rightarrow> nat list" where
  "visit_all module_at reg \<equiv> iter_visits module_at reg (dmi_registry_iter_initialize None)"

section \<open>Additional information\<close>

definition out_of_memory :: "dmi_error_queue \<Rightarrow> bool" where
  "out_of_memory q \<longleftrightarrow> dmi_error_peek_last q \<noteq> None \<and> err_reason (the (dmi_error_peek_last q)) = DMI_ERROR_OUT_OF_MEMORY"

text \<open>
  The loop over the entries of the additional information of the structure \<open>n\<close>, from the entry \<open>i\<close>
  on: an entry is the handle it refers to, the offset and the value, and \<open>mem i\<close> tells whether there
  is memory for the node. The result is \<open>None\<close> when memory runs out.
\<close>

fun overlay_entries ::
    "bool \<Rightarrow> (nat \<Rightarrow> bool) \<Rightarrow> dmi_type_map \<Rightarrow> dmi_handle_t \<Rightarrow> dmi_error_queue \<Rightarrow> 'i dmi_registry \<Rightarrow> bool \<Rightarrow> nat
      \<Rightarrow> (dmi_handle_t \<times> nat \<times> byte list) list \<Rightarrow> bool option \<times> 'i dmi_registry \<times> dmi_error_queue" where
  "overlay_entries strict mem type_map source q reg success i [] = (Some success, reg, q)"
| "overlay_entries strict mem type_map source q reg success i ((handle, offset, bytes) # entries) =
    (case dmi_registry_lookup strict type_map q reg handle None True of
       (None, reg, q) \<Rightarrow>
         overlay_entries strict mem type_map source (raise_error q DMI_ERROR_ENTITY_NOT_FOUND) reg False (i + 1) entries
     | (Some target, reg, q) \<Rightarrow>
         (case dmi_entity_add_overlay (mem i) q (rg_entries reg ! target)
                 \<lparr>ov_source = source, ov_index = i, ov_referenced_offset = offset, ov_value = bytes\<rparr> of
            (False, e, q) \<Rightarrow>
              let reg = reg\<lparr>rg_entries := (rg_entries reg)[target := e]\<rparr>
              in if out_of_memory q then (None, reg, q)
                 else overlay_entries strict mem type_map source q reg False (i + 1) entries
          | (True, e, q) \<Rightarrow>
              overlay_entries strict mem type_map source q
                (reg\<lparr>rg_entries := (rg_entries reg)[target := e],
                     rg_status := rg_status reg OR DMI_REGISTRY_STATUS_OVERLAID\<rparr>) success (i + 1) entries))"

text \<open>
  What the registry needs for decoding: the handlers, the memory, the heap and the address of the
  copy for each structure, the map of types and, for the information of additional information, its
  type and its entries.
\<close>

record 'i dmi_registry_env =
  re_strict :: bool
  re_ops :: "'i dmi_entity_ops"
  re_mem :: "nat \<Rightarrow> nat \<Rightarrow> bool"
  re_heap :: heap
  re_addr :: "nat \<Rightarrow> nat"
  re_types :: dmi_type_map
  re_overlay_mem :: "nat \<Rightarrow> nat \<Rightarrow> bool"
  re_additional :: nat
  re_entries :: "'i \<Rightarrow> (dmi_handle_t \<times> nat \<times> byte list) list"

definition decode_entry ::
    "'i dmi_registry_env \<Rightarrow> dmi_error_queue \<Rightarrow> 'i dmi_registry \<Rightarrow> nat \<Rightarrow> bool \<times> 'i dmi_registry \<times> dmi_error_queue" where
  "decode_entry env q reg n =
    (case dmi_entity_decode (re_ops env) (re_mem env n) (re_heap env) (re_addr env n) (re_types env) q (rg_entries reg ! n) of
       (ok, e, q) \<Rightarrow> (ok, reg\<lparr>rg_entries := (rg_entries reg)[n := e]\<rparr>, q))"

text \<open>
  The loop of \<open>dmi_registry_overlay\<close>. No result at all is the information being read although
  there is none.
\<close>

fun overlay_loop ::
    "'i dmi_registry_env \<Rightarrow> dmi_error_queue \<Rightarrow> 'i dmi_registry \<Rightarrow> bool \<Rightarrow> nat list
      \<Rightarrow> (bool option \<times> 'i dmi_registry \<times> dmi_error_queue) option" where
  "overlay_loop env q reg success [] = Some (Some success, reg, q)"
| "overlay_loop env q reg success (n # ns) =
    (if en_type_id (rg_entries reg ! n) \<noteq> DMI_TYPE_ID_ADDITIONAL_INFO then overlay_loop env q reg success ns
     else
       (case decode_entry env q reg n of
          (False, reg, q) \<Rightarrow>
            if out_of_memory q then Some (None, reg, q) else overlay_loop env q reg False ns
        | (True, reg, q) \<Rightarrow>
            (case dmi_entity_info (re_types env) q (rg_entries reg ! n) (Some (re_additional env)) of
               (None, e, q) \<Rightarrow> None
             | (Some info, e, q) \<Rightarrow>
                 (case overlay_entries (re_strict env) (re_overlay_mem env n) (re_types env) (en_handle e) q
                         (reg\<lparr>rg_entries := (rg_entries reg)[n := e]\<rparr>) success 0 (re_entries env info) of
                    (None, reg, q) \<Rightarrow> Some (None, reg, q)
                  | (Some success, reg, q) \<Rightarrow> overlay_loop env q reg success ns))))"

definition dmi_registry_overlay ::
    "(uintptr_t \<Rightarrow> dmi_module) \<Rightarrow> 'i dmi_registry_env \<Rightarrow> dmi_error_queue \<Rightarrow> 'i dmi_registry
      \<Rightarrow> (bool \<times> 'i dmi_registry \<times> dmi_error_queue) option" where
  "dmi_registry_overlay module_at env q reg =
    (case overlay_loop env q reg True (visit_all module_at reg) of
       None \<Rightarrow> None
     | Some (None, reg, q) \<Rightarrow> Some (False, reg, q)
     | Some (Some success, reg, q) \<Rightarrow> Some (if \<not> success \<and> re_strict env then False else True, reg, q))"

section \<open>Decoding and linking\<close>

fun decode_loop ::
    "'i dmi_registry_env \<Rightarrow> dmi_error_queue \<Rightarrow> 'i dmi_registry \<Rightarrow> bool \<Rightarrow> nat list
      \<Rightarrow> bool option \<times> 'i dmi_registry \<times> dmi_error_queue" where
  "decode_loop env q reg success [] = (Some success, reg, q)"
| "decode_loop env q reg success (n # ns) =
    (case decode_entry env q reg n of
       (True, reg, q) \<Rightarrow> decode_loop env q reg success ns
     | (False, reg, q) \<Rightarrow> if out_of_memory q then (None, reg, q) else decode_loop env q reg False ns)"

definition dmi_registry_decode ::
    "(uintptr_t \<Rightarrow> dmi_module) \<Rightarrow> 'i dmi_registry_env \<Rightarrow> dmi_error_queue \<Rightarrow> 'i dmi_registry
      \<Rightarrow> bool \<times> 'i dmi_registry \<times> dmi_error_queue" where
  "dmi_registry_decode module_at env q reg =
    (if rg_status reg AND DMI_REGISTRY_STATUS_DECODED \<noteq> 0 then (True, reg, q)
     else
       (case decode_loop env q reg True (visit_all module_at reg) of
          (None, reg, q) \<Rightarrow> (False, reg, q)
        | (Some success, reg, q) \<Rightarrow>
            if \<not> success \<and> re_strict env then (False, reg, q)
            else (True, reg\<lparr>rg_status := rg_status reg OR DMI_REGISTRY_STATUS_DECODED\<rparr>, q)))"

text \<open>
  What linking needs: whether the attributes of a structure hold links, the linking of these, and the
  handler of its specification, all of which may look structures up in the registry.
\<close>

type_synonym 'i dmi_link_fn = "nat \<Rightarrow> 'i dmi_registry \<Rightarrow> dmi_error_queue \<Rightarrow> bool \<times> 'i dmi_registry \<times> dmi_error_queue"

record 'i dmi_link_ops =
  lk_is_linkable :: "'i dmi_entity \<Rightarrow> bool"
  lk_attributes :: "'i dmi_link_fn"
  lk_handler :: "dmi_entity_spec \<Rightarrow> 'i dmi_link_fn option"

definition dmi_entity_is_linked :: "'i dmi_entity \<Rightarrow> bool" where
  "dmi_entity_is_linked e \<longleftrightarrow> en_state e AND DMI_ENTITY_STATE_LINKED \<noteq> 0"

definition dmi_entity_link ::
    "'i dmi_link_ops \<Rightarrow> dmi_error_queue \<Rightarrow> 'i dmi_registry \<Rightarrow> nat \<Rightarrow> bool \<times> 'i dmi_registry \<times> dmi_error_queue" where
  "dmi_entity_link ops q reg n =
    (if \<not> lk_is_linkable ops (rg_entries reg ! n) then (False, reg, q)
     else if dmi_entity_is_linked (rg_entries reg ! n) then (True, reg, q)
     else
       (case lk_attributes ops n reg q of
          (success, reg, q) \<Rightarrow>
            let handler = (case en_spec (rg_entries reg ! n) of None \<Rightarrow> None | Some spec \<Rightarrow> lk_handler ops spec);
                (success, reg, q) =
                  (case handler of
                     None \<Rightarrow> (success, reg, q)
                   | Some link \<Rightarrow> (case link n reg q of (ok, reg, q) \<Rightarrow> (if \<not> ok then False else success, reg, q)))
            in if \<not> success then (False, reg, raise_error q DMI_ERROR_ENTITY_LINK_FAILED)
               else
                 let e = rg_entries reg ! n
                 in (True, reg\<lparr>rg_entries := (rg_entries reg)[n := e\<lparr>en_state := en_state e OR DMI_ENTITY_STATE_LINKED\<rparr>]\<rparr>, q)))"

fun link_loop ::
    "'i dmi_link_ops \<Rightarrow> dmi_error_queue \<Rightarrow> 'i dmi_registry \<Rightarrow> bool \<Rightarrow> nat list \<Rightarrow> bool \<times> 'i dmi_registry \<times> dmi_error_queue" where
  "link_loop ops q reg success [] = (success, reg, q)"
| "link_loop ops q reg success (n # ns) =
    (if \<not> lk_is_linkable ops (rg_entries reg ! n) then link_loop ops q reg success ns
     else if \<not> dmi_entity_is_decoded (rg_entries reg ! n) then link_loop ops q reg success ns
     else
       (case dmi_entity_link ops q reg n of
          (ok, reg, q) \<Rightarrow> link_loop ops q reg (if \<not> ok then False else success) ns))"

definition dmi_registry_link ::
    "(uintptr_t \<Rightarrow> dmi_module) \<Rightarrow> bool \<Rightarrow> 'i dmi_link_ops \<Rightarrow> dmi_error_queue \<Rightarrow> 'i dmi_registry
      \<Rightarrow> bool \<times> 'i dmi_registry \<times> dmi_error_queue" where
  "dmi_registry_link module_at strict ops q reg =
    (if rg_status reg AND DMI_REGISTRY_STATUS_LINKED \<noteq> 0 then (True, reg, q)
     else
       (case link_loop ops q reg True (visit_all module_at reg) of
          (success, reg, q) \<Rightarrow>
            if \<not> success \<and> strict then (False, reg, q)
            else (True, reg\<lparr>rg_status := rg_status reg OR DMI_REGISTRY_STATUS_LINKED\<rparr>, q)))"

end
