(* ===== verification/Registry_Laws.thy ===== *)
theory Registry_Laws
  imports Registry
begin

text \<open>
  What the registry of \<open>Registry\<close> promises: it is a list of structures in which a handle finds the
  first structure that has it, filled by scanning the table from its start, structure by structure.
\<close>

section \<open>Lists of things found by a key\<close>

text \<open>
  The interface of a container which keeps things in the order they were put in and finds the first
  one of a key.
\<close>

locale keyed_sequence =
  fixes inv :: "'r \<Rightarrow> bool"
    and contents :: "'r \<Rightarrow> 'e list"
    and key :: "'e \<Rightarrow> 'k"
    and insert :: "'r \<Rightarrow> 'e \<Rightarrow> 'r option"
    and lookup :: "'r \<Rightarrow> 'k \<Rightarrow> nat option"
  assumes insert_inv: "inv r \<Longrightarrow> insert r e = Some r' \<Longrightarrow> inv r'"
    and insert_contents: "inv r \<Longrightarrow> insert r e = Some r' \<Longrightarrow> contents r' = contents r @ [e]"
    and lookup_first: "inv r \<Longrightarrow> lookup r k = find (\<lambda>n. key (contents r ! n) = k) [0..<length (contents r)]"
begin

lemma lookup_some:
  assumes "inv r" and "lookup r k = Some n"
  shows "n < length (contents r) \<and> key (contents r ! n) = k \<and> (\<forall>m < n. key (contents r ! m) \<noteq> k)"
  using assms by (auto simp: lookup_first find_Some_iff)

lemma lookup_none: "inv r \<Longrightarrow> lookup r k = None \<longleftrightarrow> (\<forall>e\<in>set (contents r). key e \<noteq> k)"
  by (simp add: lookup_first find_None_iff all_set_conv_all_nth)

lemma insert_keeps:
  assumes "inv r" and "insert r e = Some r'" and "lookup r k = Some n"
  shows "lookup r' k = Some n"
proof -
  from lookup_some [OF assms(1,3)] have n: "n < length (contents r)" "key (contents r ! n) = k"
    "\<forall>m < n. key (contents r ! m) \<noteq> k" by auto
  show ?thesis
    using n insert_contents [OF assms(1,2)]
    by (auto simp: lookup_first [OF insert_inv [OF assms(1,2)]] find_Some_iff nth_append intro!: exI [of _ n])
qed

lemma insert_finds:
  assumes "inv r" and "insert r e = Some r'"
  shows "lookup r' (key e) = Some (case lookup r (key e) of Some n \<Rightarrow> n | None \<Rightarrow> length (contents r))"
proof (cases "lookup r (key e)")
  case None
  then have other: "\<forall>x\<in>set (contents r). key x \<noteq> key e" using lookup_none [OF assms(1)] by blast
  have "lookup r' (key e) = Some (length (contents r))"
    using other insert_contents [OF assms]
    by (auto simp: lookup_first [OF insert_inv [OF assms]] find_Some_iff nth_append intro!: exI [of _ "length (contents r)"])
  with None show ?thesis by simp
qed (use insert_keeps [OF assms] in simp)

end

section \<open>The hash table\<close>

definition registry_wf :: "'i dmi_registry \<Rightarrow> bool" where
  "registry_wf reg \<longleftrightarrow> 0 < rg_capacity reg \<and> length (rg_index reg) = rg_capacity reg \<and>
     (\<forall>i < rg_capacity reg. rg_index reg ! i =
        filter (\<lambda>n. unat (en_handle (rg_entries reg ! n)) mod rg_capacity reg = i) [0..<length (rg_entries reg)]) \<and>
     list_all (\<lambda>e. en_string_count e = length (en_strings e)) (rg_entries reg)"

lemma registry_create_wf:
  assumes "dmi_registry_create mem q capacity = (Some reg, q')"
  shows "registry_wf reg" and "rg_entries reg = []" and "rg_status reg = 0" and "rg_count reg = 0"
  using assms by (auto simp: dmi_registry_create_def registry_wf_def DMI_REGISTRY_CAPACITY_def Let_def split: if_splits)

definition same_place :: "'i dmi_entity \<Rightarrow> 'i dmi_entity \<Rightarrow> bool" where
  "same_place e e' \<longleftrightarrow> buf_id (en_buffer e) = buf_id (en_buffer e') \<and> en_offset e = en_offset e'"

lemma put_walk_outcome:
  "put_walk q entries e chain = (ok, q') \<Longrightarrow>
    (ok \<longleftrightarrow> (\<forall>n\<in>set chain. \<not> same_place (entries ! n) e)) \<and>
    (queue_wf q \<longrightarrow> queue_wf q' \<and> (\<not> ok \<longrightarrow> last_reason q' = Some DMI_ERROR_ENTITY_DUPLICATE))"
  by (induction q entries e chain rule: put_walk.induct) (fastforce simp: same_place_def Let_def split: if_splits)+

lemma registry_put_some:
  assumes wf: "registry_wf reg" and put: "dmi_registry_put mem q reg e = (True, reg', q')"
    and count: "en_string_count e = length (en_strings e)"
  shows "registry_wf reg'" and "rg_entries reg' = rg_entries reg @ [e]"
    and "rg_status reg' = rg_status reg" and "rg_count reg' = rg_count reg" and "rg_capacity reg' = rg_capacity reg"
proof -
  let ?h = "unat (en_handle e) mod rg_capacity reg" and ?n = "length (rg_entries reg)"
  have reg': "reg' = reg\<lparr>rg_index := (rg_index reg)[?h := rg_index reg ! ?h @ [?n]], rg_entries := rg_entries reg @ [e]\<rparr>"
    using put by (auto simp: dmi_registry_put_def Let_def split: if_splits prod.splits bool.splits)
  then show "rg_entries reg' = rg_entries reg @ [e]" "rg_status reg' = rg_status reg" "rg_count reg' = rg_count reg"
    "rg_capacity reg' = rg_capacity reg" by simp_all
  have "filter (\<lambda>n. unat (en_handle ((rg_entries reg @ [e]) ! n)) mod rg_capacity reg = i) [0..<?n] =
      filter (\<lambda>n. unat (en_handle (rg_entries reg ! n)) mod rg_capacity reg = i) [0..<?n]" for i
    by (rule filter_cong) (auto simp: nth_append)
  then show "registry_wf reg'"
    using wf count by (auto simp: registry_wf_def reg' nth_list_update)
qed

lemma registry_put_outcome:
  assumes wf: "registry_wf reg" and put: "dmi_registry_put mem q reg e = (ok, reg', q')"
  shows "ok \<longleftrightarrow> mem \<and> (\<forall>x\<in>set (rg_entries reg). unat (en_handle x) mod rg_capacity reg = unat (en_handle e) mod rg_capacity reg
      \<longrightarrow> \<not> same_place x e)"
    and "\<not> ok \<Longrightarrow> reg' = reg" and "queue_wf q \<Longrightarrow> queue_wf q'"
    and "queue_wf q \<Longrightarrow> \<not> ok \<Longrightarrow>
      last_reason q' = Some (if mem then DMI_ERROR_ENTITY_DUPLICATE else DMI_ERROR_OUT_OF_MEMORY)"
proof -
  let ?h = "unat (en_handle e) mod rg_capacity reg"
  obtain w q1 where walk: "put_walk q (rg_entries reg) e (rg_index reg ! ?h) = (w, q1)" by fastforce
  note w = put_walk_outcome [OF walk]
  have chain: "rg_index reg ! ?h =
      filter (\<lambda>n. unat (en_handle (rg_entries reg ! n)) mod rg_capacity reg = ?h) [0..<length (rg_entries reg)]"
    using wf by (simp add: registry_wf_def)
  have chain_set: "(\<forall>n\<in>set (rg_index reg ! ?h). \<not> same_place (rg_entries reg ! n) e) \<longleftrightarrow>
      (\<forall>x\<in>set (rg_entries reg). unat (en_handle x) mod rg_capacity reg = ?h \<longrightarrow> \<not> same_place x e)"
    by (auto simp: chain all_set_conv_all_nth)
  have result: "\<not> mem \<and> \<not> ok \<and> reg' = reg \<and> q' = raise_error q DMI_ERROR_OUT_OF_MEMORY \<or>
      mem \<and> ok = w \<and> (\<not> w \<longrightarrow> reg' = reg) \<and> q' = q1"
    using put by (auto simp: dmi_registry_put_def Let_def walk split: if_splits bool.splits)
  then show "ok \<longleftrightarrow> mem \<and> (\<forall>x\<in>set (rg_entries reg). unat (en_handle x) mod rg_capacity reg = ?h \<longrightarrow> \<not> same_place x e)"
    using w chain_set by blast
  show "\<not> ok \<Longrightarrow> reg' = reg" using result by blast
  show "queue_wf q \<Longrightarrow> queue_wf q'" using result w by auto
  show "queue_wf q \<Longrightarrow> \<not> ok \<Longrightarrow> last_reason q' = Some (if mem then DMI_ERROR_ENTITY_DUPLICATE else DMI_ERROR_OUT_OF_MEMORY)"
    using result w by auto
qed

lemma find_filter: "(\<And>x. P x \<Longrightarrow> Q x) \<Longrightarrow> find P (filter Q xs) = find P xs"
  by (induction xs) auto

definition find_handle :: "'i dmi_registry \<Rightarrow> dmi_handle_t \<Rightarrow> nat option" where
  "find_handle reg handle =
    find (\<lambda>n. en_handle (rg_entries reg ! n) = handle) (rg_index reg ! (unat handle mod rg_capacity reg))"

lemma find_handle_first:
  "registry_wf reg \<Longrightarrow> find_handle reg handle = find (\<lambda>n. en_handle (rg_entries reg ! n) = handle) [0..<length (rg_entries reg)]"
  unfolding find_handle_def registry_wf_def by (simp, subst find_filter) auto

definition put_counted :: "'i dmi_registry \<Rightarrow> 'i dmi_entity \<Rightarrow> 'i dmi_registry option" where
  "put_counted reg e =
    (case dmi_registry_put True empty_queue reg e of
       (ok, reg', q) \<Rightarrow> if ok \<and> en_string_count e = length (en_strings e) then Some reg' else None)"

interpretation reg: keyed_sequence registry_wf rg_entries en_handle put_counted find_handle
  by unfold_locales
    (auto simp: put_counted_def find_handle_first dest: registry_put_some(1,2) split: prod.splits if_splits)

text \<open>Replacing a structure by one of the same handle.\<close>

lemma registry_update_wf:
  assumes "registry_wf reg" and "n < length (rg_entries reg)" and "en_handle e = en_handle (rg_entries reg ! n)"
    and "en_string_count e = length (en_strings e)"
  shows "registry_wf (reg\<lparr>rg_entries := (rg_entries reg)[n := e]\<rparr>)"
proof -
  have h: "en_handle ((rg_entries reg)[n := e] ! m) = en_handle (rg_entries reg ! m)" for m
    using assms(2,3) by (cases "m = n") auto
  show ?thesis
    using assms(1,4) unfolding registry_wf_def by (auto simp: h list_all_iff dest: set_update_subset_insert [THEN subsetD])
qed

lemma registry_status_wf [simp]: "registry_wf (reg\<lparr>rg_status := s\<rparr>) = registry_wf reg" "registry_wf (reg\<lparr>rg_count := c\<rparr>) = registry_wf reg"
  by (simp_all add: registry_wf_def)

section \<open>The type of a structure\<close>

text \<open>The specification a structure is decoded by and the type it gives, as a function of the structure.\<close>

definition chosen_spec :: "dmi_type_map \<Rightarrow> 'i dmi_entity \<Rightarrow> dmi_entity_spec option" where
  "chosen_spec type_map e =
    (if en_type_id e \<le> DMI_TYPE_ID_INVALID \<or> en_type_id e > DMI_TYPE_ID_MAX then None
     else (case find (spec_matches e) (listed (take (DMI_TYPE_CANDIDATES - 1) (drop 1 (type_map (en_type_id e))))) of
             Some spec \<Rightarrow> Some spec | None \<Rightarrow> type_map (en_type_id e) ! 0))"

definition entity_kind :: "dmi_type_map \<Rightarrow> 'i dmi_entity \<Rightarrow> nat option" where
  "entity_kind type_map e =
    map_option sp_type (case en_spec e of Some spec \<Rightarrow> Some spec | None \<Rightarrow> chosen_spec type_map e)"

lemma spec_select_chosen:
  assumes "en_string_count e = length (en_strings e)"
  shows "fst (dmi_entity_spec_select type_map q e) = chosen_spec type_map e"
  using spec_select_loop_find [OF assms, of q "take (DMI_TYPE_CANDIDATES - 1) (drop 1 (type_map (en_type_id e)))"]
  by (auto simp: dmi_entity_spec_select_def chosen_spec_def Let_def split: prod.splits option.splits)

lemma same_but_used_more:
  assumes "same_but_used e e'"
  shows "en_spec e' = en_spec e" and "en_handle e' = en_handle e" and "en_buffer e' = en_buffer e"
    and "en_offset e' = en_offset e" and "en_total_length e' = en_total_length e" and "en_state e' = en_state e"
    and "en_info e' = en_info e" and "en_overlays e' = en_overlays e" and "en_overlay e' = en_overlay e"
  using assms unfolding same_but_used_def by (metis dmi_entity.select_convs dmi_entity.surjective dmi_entity.update_convs(9))+

lemma chosen_spec_same:
  assumes "same_but_used e e'" and "en_string_count e = length (en_strings e)"
  shows "chosen_spec type_map e' = chosen_spec type_map e"
proof -
  have "spec_matches e' = spec_matches e"
    using signature_holds_same [OF assms] by (auto simp: fun_eq_iff spec_matches_def split: option.splits)
  then show ?thesis unfolding chosen_spec_def same_but_used_fields [OF assms(1)] by (simp only:)
qed

lemma entity_kind_same:
  assumes "same_but_used e e'" and "en_string_count e = length (en_strings e)"
  shows "entity_kind type_map e' = entity_kind type_map e"
  unfolding entity_kind_def chosen_spec_same [OF assms] same_but_used_more(1) [OF assms(1)] by (rule refl)

lemma spec_type_kind:
  assumes count: "en_string_count e = length (en_strings e)" and run: "dmi_entity_spec_type type_map q e = (k, e', q')"
  shows "k = entity_kind type_map e" and "same_but_used e e'" and "queue_wf q \<Longrightarrow> queue_wf q'"
proof -
  obtain s e1 q1 where sel: "dmi_entity_spec_select type_map q e = (s, e1, q1)" by (metis prod_cases3)
  then have "s = chosen_spec type_map e" "same_but_used e e1" "queue_wf q \<Longrightarrow> queue_wf q1"
    using spec_select_chosen [OF count, of type_map q] spec_select_used [OF count, of type_map q]
      spec_select_queue [of q type_map e] by simp_all
  then show "k = entity_kind type_map e" and "same_but_used e e'" and "queue_wf q \<Longrightarrow> queue_wf q'"
    using run by (auto simp: dmi_entity_spec_type_def entity_kind_def sel split: option.splits)
qed

section \<open>Lookups\<close>

text \<open>Two registries which differ in nothing but which strings count as used.\<close>

definition registry_marked :: "'i dmi_registry \<Rightarrow> 'i dmi_registry \<Rightarrow> bool" where
  "registry_marked reg reg' \<longleftrightarrow>
     reg' = reg\<lparr>rg_entries := rg_entries reg'\<rparr> \<and> list_all2 same_but_used (rg_entries reg) (rg_entries reg')"

lemma registry_marked_refl [simp]: "registry_marked reg reg"
  by (simp add: registry_marked_def list_all2_refl)

lemma registry_marked_trans: "registry_marked a b \<Longrightarrow> registry_marked b c \<Longrightarrow> registry_marked a c"
  unfolding registry_marked_def
  by (auto intro: list_all2_trans [OF same_but_used_trans]) (metis dmi_registry.surjective dmi_registry.update_convs(4))

lemma registry_marked_nth:
  assumes "registry_marked reg reg'" and "n < length (rg_entries reg)"
  shows "same_but_used (rg_entries reg ! n) (rg_entries reg' ! n)"
  using assms by (simp add: registry_marked_def list_all2_nthD)

lemma registry_marked_length [simp]: "registry_marked reg reg' \<Longrightarrow> length (rg_entries reg') = length (rg_entries reg)"
  by (metis registry_marked_def list_all2_lengthD)

lemma registry_wf_count:
  "registry_wf reg \<Longrightarrow> n < length (rg_entries reg) \<Longrightarrow> en_string_count (rg_entries reg ! n) = length (en_strings (rg_entries reg ! n))"
  by (simp add: registry_wf_def list_all_length)

lemma registry_marked_kind:
  assumes "registry_wf reg" and "registry_marked reg reg'" and "n < length (rg_entries reg)"
  shows "entity_kind type_map (rg_entries reg' ! n) = entity_kind type_map (rg_entries reg ! n)"
  by (rule entity_kind_same [OF registry_marked_nth [OF assms(2,3)] registry_wf_count [OF assms(1,3)]])

lemma entry_type_outcome:
  assumes "registry_wf reg" and "n < length (rg_entries reg)" and "entry_type type_map q reg n = (k, reg', q')"
  shows "k = entity_kind type_map (rg_entries reg ! n)" and "registry_marked reg reg'" and "registry_wf reg'"
    and "queue_wf q \<Longrightarrow> queue_wf q'"
proof -
  note count = registry_wf_count [OF assms(1,2)]
  obtain e where run: "dmi_entity_spec_type type_map q (rg_entries reg ! n) = (k, e, q')"
    and reg': "reg' = reg\<lparr>rg_entries := (rg_entries reg)[n := e]\<rparr>"
    using assms(3) by (auto simp: entry_type_def split: prod.splits)
  note r = spec_type_kind [OF count run]
  show "k = entity_kind type_map (rg_entries reg ! n)" and "queue_wf q \<Longrightarrow> queue_wf q'" using r by auto
  have "list_all2 same_but_used (rg_entries reg) ((rg_entries reg)[n := e])"
    using r(2) assms(2) by (auto simp: list_all2_conv_all_nth nth_list_update)
  then show "registry_marked reg reg'" by (simp add: registry_marked_def reg')
  have "en_string_count e = length (en_strings e)" using same_but_used_fields(3,6) [OF r(2)] count by simp
  then show "registry_wf reg'"
    unfolding reg' using registry_update_wf [OF assms(1,2)] same_but_used_more(2) [OF r(2)] by blast
qed

text \<open>What a lookup is to find: the first structure of a handle, if it is of the type.\<close>

definition lookup_spec :: "dmi_type_map \<Rightarrow> 'i dmi_entity list \<Rightarrow> dmi_handle_t \<Rightarrow> nat option \<Rightarrow> nat option" where
  "lookup_spec type_map entries handle type =
    (if handle = DMI_HANDLE_INVALID \<or> handle = DMI_HANDLE_UNSUPPORTED then None
     else (case find (\<lambda>n. en_handle (entries ! n) = handle) [0..<length entries] of
             None \<Rightarrow> None
           | Some n \<Rightarrow> if type = None \<or> entity_kind type_map (entries ! n) = type then Some n else None))"

text \<open>The error a lookup leaves behind, if it leaves any.\<close>

definition lookup_error :: "bool \<Rightarrow> dmi_type_map \<Rightarrow> 'i dmi_entity list \<Rightarrow> dmi_handle_t \<Rightarrow> nat option \<Rightarrow> bool \<Rightarrow> dmi_error_code option" where
  "lookup_error strict type_map entries handle type optional =
    (if handle = DMI_HANDLE_INVALID \<or> handle = DMI_HANDLE_UNSUPPORTED then None
     else (case find (\<lambda>n. en_handle (entries ! n) = handle) [0..<length entries] of
             None \<Rightarrow> if optional then None else Some DMI_ERROR_ENTITY_NOT_FOUND
           | Some n \<Rightarrow>
               if type = None \<or> entity_kind type_map (entries ! n) = type \<or> handle = 0 \<and> \<not> strict then None
               else Some DMI_ERROR_ENTITY_TYPE_INVALID))"

lemma lookup_outcome:
  assumes wf: "registry_wf reg" and run: "dmi_registry_lookup strict type_map q reg handle type optional = (r, reg', q')"
  shows "r = lookup_spec type_map (rg_entries reg) handle type" and "registry_marked reg reg'" and "registry_wf reg'"
    and "queue_wf q \<Longrightarrow> queue_wf q'"
    and "queue_wf q \<Longrightarrow> lookup_error strict type_map (rg_entries reg) handle type optional = Some reason \<Longrightarrow> last_reason q' = Some reason"
proof -
  have none: "handle \<noteq> DMI_HANDLE_INVALID \<and> handle \<noteq> DMI_HANDLE_UNSUPPORTED \<Longrightarrow> find_handle reg handle = None \<Longrightarrow>
      r = None \<and> reg' = reg \<and> q' = (if \<not> optional then raise_error q DMI_ERROR_ENTITY_NOT_FOUND else q)"
    using run by (simp add: dmi_registry_lookup_def find_handle_def [symmetric])
  have bad: "\<not> (handle \<noteq> DMI_HANDLE_INVALID \<and> handle \<noteq> DMI_HANDLE_UNSUPPORTED) \<Longrightarrow> r = None \<and> reg' = reg \<and> q' = q"
    using run by (auto simp: dmi_registry_lookup_def split: if_splits)
  note first = find_handle_first [OF wf, symmetric]
  have some: "(r = lookup_spec type_map (rg_entries reg) handle type \<and> registry_marked reg reg' \<and> registry_wf reg') \<and>
      (queue_wf q \<longrightarrow> queue_wf q' \<and> (\<forall>reason. lookup_error strict type_map (rg_entries reg) handle type optional = Some reason
        \<longrightarrow> last_reason q' = Some reason))"
    if valid: "handle \<noteq> DMI_HANDLE_INVALID \<and> handle \<noteq> DMI_HANDLE_UNSUPPORTED" and n: "find_handle reg handle = Some n" for n
  proof (cases type)
    case None
    then have "r = Some n \<and> reg' = reg \<and> q' = q"
      using run valid n by (simp add: dmi_registry_lookup_def find_handle_def [symmetric])
    then show ?thesis using None valid n wf by (simp add: lookup_spec_def lookup_error_def first)
  next
    case (Some t)
    have len: "n < length (rg_entries reg)" using reg.lookup_some [OF wf n] by simp
    obtain k reg1 q1 where k: "entry_type type_map q reg n = (k, reg1, q1)" by (metis prod_cases3)
    note o1 = entry_type_outcome [OF wf len k]
    have "(r, reg', q') = (if k = Some t then (Some n, reg1, q1) else if handle = 0 \<and> \<not> strict then (None, reg1, q1)
        else (None, reg1, raise_error q1 DMI_ERROR_ENTITY_TYPE_INVALID))"
      using run valid n Some by (simp add: dmi_registry_lookup_def find_handle_def [symmetric] k split: if_splits)
    then show ?thesis
      using o1 valid n Some by (auto simp: lookup_spec_def lookup_error_def first split: if_splits)
  qed
  have all: "(r = lookup_spec type_map (rg_entries reg) handle type \<and> registry_marked reg reg' \<and> registry_wf reg') \<and>
      (queue_wf q \<longrightarrow> queue_wf q' \<and> (\<forall>reason. lookup_error strict type_map (rg_entries reg) handle type optional = Some reason
        \<longrightarrow> last_reason q' = Some reason))"
    using none bad some wf
    by (cases "handle \<noteq> DMI_HANDLE_INVALID \<and> handle \<noteq> DMI_HANDLE_UNSUPPORTED"; cases "find_handle reg handle")
      (auto simp: lookup_spec_def lookup_error_def first split: if_splits)
  then show "r = lookup_spec type_map (rg_entries reg) handle type" and "registry_marked reg reg'" and "registry_wf reg'"
    and "queue_wf q \<Longrightarrow> queue_wf q'"
    and "queue_wf q \<Longrightarrow> lookup_error strict type_map (rg_entries reg) handle type optional = Some reason \<Longrightarrow> last_reason q' = Some reason"
    by blast+
qed

lemma any_type_outcome:
  "registry_wf reg \<Longrightarrow> n < length (rg_entries reg) \<Longrightarrow> any_type type_map q reg n types = (r, reg', q') \<Longrightarrow>
    (r \<longleftrightarrow> entity_kind type_map (rg_entries reg ! n) \<in> Some ` set types) \<and> registry_marked reg reg' \<and> registry_wf reg' \<and>
    (queue_wf q \<longrightarrow> queue_wf q')"
proof (induction types arbitrary: q reg)
  case (Cons type types)
  obtain k reg1 q1 where k: "entry_type type_map q reg n = (k, reg1, q1)" by (metis prod_cases3)
  note o1 = entry_type_outcome [OF Cons(2,3) k]
  note kind = registry_marked_kind [OF Cons(2) o1(2) Cons(3), of type_map]
  show ?case
  proof (cases "k = Some type")
    case True
    then show ?thesis using Cons(4) o1 by (auto simp: k)
  next
    case False
    then have run: "any_type type_map q1 reg1 n types = (r, reg', q')" using Cons(4) by (simp add: k)
    have "n < length (rg_entries reg1)" using Cons(3) o1(2) by simp
    from Cons(1) [OF o1(3) this run] show ?thesis
      using False o1 kind registry_marked_trans [OF o1(2)] by auto
  qed
qed auto

text \<open>What resolving a reference is to give: whether it succeeds, and the structure, if there is one.\<close>

definition resolve_spec :: "bool \<Rightarrow> dmi_type_map \<Rightarrow> 'i dmi_entity list \<Rightarrow> dmi_handle_t \<Rightarrow> nat list option \<Rightarrow> bool \<times> nat option" where
  "resolve_spec strict type_map entries handle types =
    (if handle = DMI_HANDLE_INVALID \<or> handle = DMI_HANDLE_UNSUPPORTED then (True, None)
     else
       (case find (\<lambda>n. en_handle (entries ! n) = handle) [0..<length entries] of
          None \<Rightarrow> (False, None)
        | Some n \<Rightarrow>
            if types = None \<or> (\<exists>t \<in> set (the types). entity_kind type_map (entries ! n) = Some t) then (True, Some n)
            else (types \<noteq> Some [] \<and> handle = 0 \<and> \<not> strict, None)))"

lemma resolve_any_outcome:
  assumes wf: "registry_wf reg" and run: "dmi_registry_resolve_any strict type_map q reg handle types = (r, reg', q')"
  shows "r = resolve_spec strict type_map (rg_entries reg) handle types \<and> registry_marked reg reg' \<and> registry_wf reg' \<and>
    (queue_wf q \<longrightarrow> queue_wf q' \<and> (\<not> fst r \<longrightarrow>
      last_reason q' \<in> {Some DMI_ERROR_ARGUMENT_INVALID, Some DMI_ERROR_ENTITY_NOT_FOUND, Some DMI_ERROR_ENTITY_TYPE_INVALID}))"
proof -
  obtain n1 reg1 q1 where l: "dmi_registry_lookup strict type_map q reg handle None False = (n1, reg1, q1)"
    by (metis prod_cases3)
  note o1 = lookup_outcome [OF wf l]
  consider (unset) "handle = DMI_HANDLE_INVALID \<or> handle = DMI_HANDLE_UNSUPPORTED"
    | (empty) "\<not> (handle = DMI_HANDLE_INVALID \<or> handle = DMI_HANDLE_UNSUPPORTED)" "types = Some []"
    | (none) "\<not> (handle = DMI_HANDLE_INVALID \<or> handle = DMI_HANDLE_UNSUPPORTED)" "types \<noteq> Some []" "n1 = None"
    | (any) n where "\<not> (handle = DMI_HANDLE_INVALID \<or> handle = DMI_HANDLE_UNSUPPORTED)" "n1 = Some n" "types = None"
    | (types) n ts where "\<not> (handle = DMI_HANDLE_INVALID \<or> handle = DMI_HANDLE_UNSUPPORTED)" "n1 = Some n" "types = Some ts" "ts \<noteq> []"
    by (cases n1; cases types) auto
  then show ?thesis
  proof cases
    case unset
    then show ?thesis using run wf by (auto simp: dmi_registry_resolve_any_def resolve_spec_def)
  next
    case empty
    then show ?thesis using run wf by (auto simp: dmi_registry_resolve_any_def resolve_spec_def split: option.splits)
  next
    case none
    then show ?thesis using run o1
      by (auto simp: dmi_registry_resolve_any_def resolve_spec_def l lookup_spec_def lookup_error_def split: option.splits)
  next
    case any
    then show ?thesis using run o1
      by (auto simp: dmi_registry_resolve_any_def resolve_spec_def l lookup_spec_def lookup_error_def split: option.splits)
  next
    case types
    have found: "find (\<lambda>n. en_handle (rg_entries reg ! n) = handle) [0..<length (rg_entries reg)] = Some n"
      using o1(1) types by (auto simp: lookup_spec_def split: option.splits)
    then have n: "n < length (rg_entries reg)" by (auto simp: find_Some_iff)
    then have n1: "n < length (rg_entries reg1)" using o1(2) by simp
    obtain ok reg2 q2 where a: "any_type type_map q1 reg1 n ts = (ok, reg2, q2)" by (metis prod_cases3)
    note o2 = any_type_outcome [OF o1(3) n1 a]
    note kind = registry_marked_kind [OF wf o1(2) n, of type_map]
    obtain k reg3 q3 where e: "entry_type type_map q2 reg2 n = (k, reg3, q3)" by (metis prod_cases3)
    have m2: "registry_marked reg reg2" "registry_wf reg2" using registry_marked_trans [OF o1(2)] o2 by auto
    then have "n < length (rg_entries reg2)" using n by simp
    note o3 = entry_type_outcome [OF m2(2) this e]
    have m3: "registry_marked reg reg3" using registry_marked_trans [OF m2(1) o3(2)] .
    have ok: "ok \<longleftrightarrow> (\<exists>t\<in>set ts. entity_kind type_map (rg_entries reg ! n) = Some t)" using o2 kind by auto
    have "r = resolve_spec strict type_map (rg_entries reg) handle types"
      using run types found ok
      by (auto simp: dmi_registry_resolve_any_def resolve_spec_def l a name_entry_spec_def e Let_def split: if_splits bool.splits)
    moreover have "registry_marked reg reg' \<and> registry_wf reg'"
      using run types m2 m3 o3(3)
      by (auto simp: dmi_registry_resolve_any_def l a name_entry_spec_def e Let_def split: if_splits bool.splits)
    moreover have "queue_wf q \<longrightarrow> queue_wf q' \<and> (\<not> fst r \<longrightarrow> last_reason q' = Some DMI_ERROR_ENTITY_TYPE_INVALID)"
      using run types o1(4) o2 o3(4)
      by (auto simp: dmi_registry_resolve_any_def l a name_entry_spec_def e Let_def split: if_splits bool.splits)
    ultimately show ?thesis by blast
  qed
qed

lemma first_of_type_outcome:
  "registry_wf reg \<Longrightarrow> \<forall>n\<in>set ns. n < length (rg_entries reg) \<Longrightarrow> first_of_type type_map q reg type ns = (r, reg', q') \<Longrightarrow>
    r = find (\<lambda>n. entity_kind type_map (rg_entries reg ! n) = Some type) ns \<and> registry_marked reg reg' \<and> registry_wf reg' \<and>
    (queue_wf q \<longrightarrow> queue_wf q')"
proof (induction ns arbitrary: q reg)
  case (Cons n ns)
  obtain k reg1 q1 where k: "entry_type type_map q reg n = (k, reg1, q1)" by (metis prod_cases3)
  have n: "n < length (rg_entries reg)" using Cons(3) by simp
  note o1 = entry_type_outcome [OF Cons(2) n k]
  show ?case
  proof (cases "k = Some type")
    case True
    then show ?thesis using Cons(4) o1 by (auto simp: k)
  next
    case False
    then have run: "first_of_type type_map q1 reg1 type ns = (r, reg', q')" using Cons(4) by (simp add: k)
    have ns: "\<forall>n\<in>set ns. n < length (rg_entries reg1)" using Cons(3) o1(2) by simp
    have "find (\<lambda>n. entity_kind type_map (rg_entries reg1 ! n) = Some type) ns =
        find (\<lambda>n. entity_kind type_map (rg_entries reg ! n) = Some type) ns"
      using registry_marked_kind [OF Cons(2) o1(2), of _ type_map] Cons(3) by (intro find_cong) auto
    with Cons(1) [OF o1(3) ns run] show ?thesis
      using False o1 registry_marked_trans [OF o1(2)] by auto
  qed
qed auto

section \<open>Iterators\<close>

lemma iter_next_visits:
  "iter_visits module_at reg it =
    (if it_is_done it then []
     else filter (iter_matches module_at reg (it_filter it))
       [(case it_position it of None \<Rightarrow> 0 | Some m \<Rightarrow> m + 1)..<length (rg_entries reg)])"
proof (induction module_at reg it rule: iter_visits.induct)
  case (1 module_at reg it)
  let ?first = "case it_position it of None \<Rightarrow> 0 | Some m \<Rightarrow> m + 1" and ?P = "iter_matches module_at reg (it_filter it)"
  show ?case
  proof (cases "iter_advance module_at reg it")
    case None
    have "iter_visits module_at reg it = []"
      by (simp add: iter_visits.simps [of module_at reg it] dmi_registry_iter_next_def None)
    moreover have "filter ?P [?first..<length (rg_entries reg)] = []"
      using None by (auto simp: iter_advance_def find_None_iff filter_empty_conv)
    ultimately show ?thesis by (simp only: if_cancel)
  next
    case (Some n)
    show ?thesis
    proof (cases "it_is_done it")
      case False
      let ?it = "it\<lparr>it_position := Some n, it_is_done := False\<rparr>"
      have step: "dmi_registry_iter_next module_at reg it = (Some n, ?it)"
        using Some False by (simp add: dmi_registry_iter_next_def Let_def)
      note b = iter_next_some(1,2) [OF step]
      have "find ?P [?first..<length (rg_entries reg)] = Some n" using Some by (simp add: iter_advance_def)
      then obtain i where i: "i < length [?first..<length (rg_entries reg)]" "?P n" "[?first..<length (rg_entries reg)] ! i = n"
        "\<forall>j < i. \<not> ?P ([?first..<length (rg_entries reg)] ! j)"
        unfolding find_Some_iff by auto
      then have at: "?first + i = n" by (simp only: nth_upt length_upt less_diff_conv2)
      have skip: "\<not> ?P m" if m: "?first \<le> m" "m < n" for m
      proof -
        have "m - ?first < i" using m at by linarith
        moreover have "[?first..<length (rg_entries reg)] ! (m - ?first) = m" using m b(1) by (subst nth_upt) linarith+
        ultimately show ?thesis using i(4) by metis
      qed
      have "filter ?P [?first..<length (rg_entries reg)] = filter ?P ([?first..<n] @ n # [n + 1..<length (rg_entries reg)])"
        using b upt_add_eq_append [of ?first n "length (rg_entries reg) - n"] upt_conv_Cons [of n "length (rg_entries reg)"] by simp
      also have "\<dots> = n # filter ?P [n + 1..<length (rg_entries reg)]"
        using skip i(2) by (simp add: filter_empty_conv)
      finally show ?thesis
        using 1 [OF step [symmetric]] False by (simp add: iter_visits.simps [of module_at reg it] step)
    qed (simp add: iter_visits.simps [of module_at reg it] dmi_registry_iter_next_def)
  qed
qed

lemma visit_all_upt: "visit_all module_at reg = [0..<length (rg_entries reg)]"
  by (simp add: iter_next_visits dmi_registry_iter_initialize_def iter_matches_def [abs_def])

section \<open>Scanning\<close>

text \<open>
  Structures laid out one after the other from an offset on, up to where they stop, none of which has
  been looked at yet.
\<close>

definition fresh_entity :: "'i dmi_entity \<Rightarrow> bool" where
  "fresh_entity e \<longleftrightarrow> en_spec e = None \<and> en_state e = 0 \<and> en_info e = None \<and> en_overlays e = [] \<and> en_overlay e = None"

fun laid_out :: "dmi_buffer \<Rightarrow> nat \<Rightarrow> 'i dmi_entity list \<Rightarrow> nat \<Rightarrow> bool" where
  "laid_out b off [] stop \<longleftrightarrow> stop = off"
| "laid_out b off (e # es) stop \<longleftrightarrow> en_buffer e = b \<and> en_offset e = off \<and> entity_in_buffer e \<and> fresh_entity e \<and>
     laid_out b (off + en_total_length e) es stop"

lemma laid_out_snoc:
  "laid_out b off (es @ [e]) stop \<longleftrightarrow>
    (\<exists>s. laid_out b off es s \<and> en_buffer e = b \<and> en_offset e = s \<and> entity_in_buffer e \<and> fresh_entity e \<and>
      stop = s + en_total_length e)"
  by (induction es arbitrary: off) auto

lemma entity_in_buffer_fields:
  assumes "entity_in_buffer e"
  shows "en_string_count e = length (en_strings e)" and "6 \<le> en_total_length e"
    and "en_offset e + en_total_length e \<le> length (buffer_bytes (en_buffer e))"
  using assms by (simp_all add: entity_in_buffer_def)

lemma laid_out_bounds:
  "laid_out b off es stop \<Longrightarrow> off \<le> stop \<and>
    (\<forall>e\<in>set es. en_buffer e = b \<and> off \<le> en_offset e \<and> en_offset e + en_total_length e \<le> stop \<and> entity_in_buffer e \<and> fresh_entity e)"
  by (induction es arbitrary: off) (force dest: add_leD1)+

lemma laid_out_before: "laid_out b off es stop \<Longrightarrow> e \<in> set es \<Longrightarrow> en_offset e < stop"
  using laid_out_bounds [of b off es stop] entity_in_buffer_fields(2) [of e] by fastforce

lemma created_fresh:
  assumes "buffer_wf b" and "dmi_entity_create mem q b off = (Some e, q')"
  shows "fresh_entity e"
  using entity_create_some(5-8) [OF assms] entity_create_no_info [OF assms(2)] by (simp add: fresh_entity_def)

lemma scan_loop_cases:
  assumes "scan_loop strict limit mem put_mem table q reg offset index count = res"
  obtains (limit) "limit \<noteq> 0" "limit \<le> index" "res = (True, reg, count, q)"
  | (short) "limit = 0 \<or> index < limit" "unat (buf_length table) - offset < 6"
      "res = (True, reg\<lparr>rg_status := rg_status reg OR DMI_REGISTRY_STATUS_TRUNCATED\<rparr>, count, q)"
  | (fault) q1 where "limit = 0 \<or> index < limit" "dmi_entity_create (mem index) q table offset = (None :: 'i dmi_entity option, q1)"
      "last_reason q1 = Some DMI_ERROR_ENTITY_TRUNCATED \<or> last_reason q1 = Some DMI_ERROR_ENTITY_LENGTH_INVALID \<and> \<not> strict"
      "res = (True, reg\<lparr>rg_status := rg_status reg OR DMI_REGISTRY_STATUS_TRUNCATED\<rparr>, count, q1)"
  | (fail) q1 where "limit = 0 \<or> index < limit" "dmi_entity_create (mem index) q table offset = (None :: 'i dmi_entity option, q1)"
      "\<not> (last_reason q1 = Some DMI_ERROR_ENTITY_TRUNCATED \<or> last_reason q1 = Some DMI_ERROR_ENTITY_LENGTH_INVALID \<and> \<not> strict)"
      "res = (False, reg, count, raise_error q1 DMI_ERROR_ENTITY_DECODE_FAILED)"
  | (put) e :: "'i dmi_entity" and q1 reg1 q2 where "limit = 0 \<or> index < limit" "dmi_entity_create (mem index) q table offset = (Some e, q1)"
      "dmi_registry_put (put_mem index) q1 reg e = (False, reg1, q2)"
      "res = (False, reg1, count, raise_error q2 DMI_ERROR_ENTITY_REGISTER_FAILED)"
  | (marker) e q1 reg1 q2 where "limit = 0 \<or> index < limit" "dmi_entity_create (mem index) q table offset = (Some e, q1)"
      "dmi_registry_put (put_mem index) q1 reg e = (True, reg1, q2)" "en_type_id e = DMI_TYPE_ID_END_OF_TABLE"
      "res = (True, reg1, count + 1, q2)"
  | (go) e q1 reg1 q2 where "limit = 0 \<or> index < limit" "dmi_entity_create (mem index) q table offset = (Some e, q1)"
      "dmi_registry_put (put_mem index) q1 reg e = (True, reg1, q2)" "en_type_id e \<noteq> DMI_TYPE_ID_END_OF_TABLE"
      "res = scan_loop strict limit mem put_mem table q2 reg1 (offset + en_total_length e) (index + 1) (count + 1)"
proof -
  obtain c q1 where c: "dmi_entity_create (mem index) q table offset = (c :: 'i dmi_entity option, q1)" by fastforce
  have lr: "last_reason q1 = Some r \<longleftrightarrow> dmi_error_peek_last q1 \<noteq> None \<and> err_reason (the (dmi_error_peek_last q1)) = r" for r
    by (auto simp: last_reason_def)
  consider (a) "\<not> (limit = 0 \<or> index < limit)" | (b) "limit = 0 \<or> index < limit" "unat (buf_length table) - offset < 6"
    | (c) "limit = 0 \<or> index < limit" "\<not> unat (buf_length table) - offset < 6" by blast
  then show thesis
  proof cases
    case a
    then have "res = (True, reg, count, q)" by (simp add: assms [symmetric] scan_loop.simps [of strict limit])
    with a limit show thesis by simp
  next
    case b
    then have "res = (True, reg\<lparr>rg_status := rg_status reg OR DMI_REGISTRY_STATUS_TRUNCATED\<rparr>, count, q)"
      by (simp add: assms [symmetric] scan_loop.simps [of strict limit])
    with b short show thesis by blast
  next
    case guard: c
    show thesis
    proof (cases c)
      case None
      have res: "res = (if last_reason q1 = Some DMI_ERROR_ENTITY_TRUNCATED \<or> last_reason q1 = Some DMI_ERROR_ENTITY_LENGTH_INVALID \<and> \<not> strict
          then (True, reg\<lparr>rg_status := rg_status reg OR DMI_REGISTRY_STATUS_TRUNCATED\<rparr>, count, q1)
          else (False, reg, count, raise_error q1 DMI_ERROR_ENTITY_DECODE_FAILED))"
        using guard c None unfolding assms [symmetric] by (simp add: scan_loop.simps [of strict limit] lr Let_def)
      show thesis
      proof (cases "last_reason q1 = Some DMI_ERROR_ENTITY_TRUNCATED \<or> last_reason q1 = Some DMI_ERROR_ENTITY_LENGTH_INVALID \<and> \<not> strict")
        case True
        then show thesis using fault [OF guard(1)] c None res by simp
      next
        case False
        then show thesis using fail [OF guard(1)] c None res by simp
      qed
    next
      case (Some e)
      obtain p reg1 q2 where p: "dmi_registry_put (put_mem index) q1 reg e = (p, reg1, q2)" by (metis prod_cases3)
      have res: "res = (if \<not> p then (False, reg1, count, raise_error q2 DMI_ERROR_ENTITY_REGISTER_FAILED)
          else if en_type_id e = DMI_TYPE_ID_END_OF_TABLE then (True, reg1, count + 1, q2)
          else scan_loop strict limit mem put_mem table q2 reg1 (offset + en_total_length e) (index + 1) (count + 1))"
        using guard c Some p unfolding assms [symmetric]
        by (subst scan_loop.simps) (simp add: Let_def split: bool.split)
      show thesis
      proof (cases p; cases "en_type_id e = DMI_TYPE_ID_END_OF_TABLE")
        assume "p" "en_type_id e = DMI_TYPE_ID_END_OF_TABLE"
        then show thesis using marker [OF guard(1)] c Some p res by simp
      next
        assume "p" "en_type_id e \<noteq> DMI_TYPE_ID_END_OF_TABLE"
        then show thesis using go [OF guard(1)] c Some p res by simp
      qed (use put [OF guard(1)] c Some p res in simp_all)
    qed
  qed
qed

text \<open>
  What a scan leaves: the structures of the table up to where it stops, and why it stops there. The
  marker of the end is the last structure or there is none, and with memory to be had the bytes at
  the stop tell the rest.
\<close>

definition marked_end :: "'i dmi_entity list \<Rightarrow> bool" where
  "marked_end es \<longleftrightarrow> es \<noteq> [] \<and> en_type_id (last es) = DMI_TYPE_ID_END_OF_TABLE"

definition scan_complete :: "nat \<Rightarrow> 'i dmi_entity list \<Rightarrow> bool" where
  "scan_complete limit es \<longleftrightarrow> marked_end es \<or> limit \<noteq> 0 \<and> length es = limit"

definition scan_result ::
    "bool \<Rightarrow> nat \<Rightarrow> bool \<Rightarrow> dmi_buffer \<Rightarrow> 32 word \<Rightarrow> bool \<Rightarrow> 'i dmi_registry \<Rightarrow> bool" where
  "scan_result strict limit memory table status ok reg \<longleftrightarrow> registry_wf reg \<and>
     (\<exists>stop. laid_out table 0 (rg_entries reg) stop \<and>
       (\<forall>e\<in>set (butlast (rg_entries reg)). en_type_id e \<noteq> DMI_TYPE_ID_END_OF_TABLE) \<and>
       (limit \<noteq> 0 \<longrightarrow> length (rg_entries reg) \<le> limit) \<and>
       rg_status reg = (if ok \<and> \<not> scan_complete limit (rg_entries reg) then status OR DMI_REGISTRY_STATUS_TRUNCATED else status) \<and>
       (memory \<longrightarrow>
         (if scan_complete limit (rg_entries reg) then ok
          else (case entity_fault (drop stop (buffer_bytes table)) of
                  None \<Rightarrow> False
                | Some reason \<Rightarrow> ok = (reason = DMI_ERROR_ENTITY_TRUNCATED \<or> \<not> strict)))))"

lemma entity_fault_reasons:
  "entity_fault bs = Some r \<Longrightarrow> r = DMI_ERROR_ENTITY_TRUNCATED \<or> r = DMI_ERROR_ENTITY_LENGTH_INVALID"
  by (auto simp: entity_fault_def Let_def split: if_splits)

lemma entity_fault_create:
  assumes "buffer_wf b" and "\<forall>i. mem i" and "dmi_entity_create mem q b off = (None :: 'i dmi_entity option, q1)" and "queue_wf q"
  shows "entity_fault (drop off (buffer_bytes b)) = last_reason q1" and "last_reason q1 \<noteq> None" and "queue_wf q1"
  using entity_create_outcome [OF assms(1,2), where ?'a = 'i and ?'b = 'i and off = off and q = q] assms(3,4) by (auto split: option.splits)

lemma entity_create_queue:
  assumes "dmi_entity_create mem q b off = (c, q1)" and "queue_wf q"
  shows "queue_wf q1"
  using assms by (auto simp: dmi_entity_create_def Let_def split: if_splits option.splits prod.splits)

lemma scan_put:
  assumes table: "buffer_wf table" and wf: "registry_wf reg" and laid: "laid_out table 0 (rg_entries reg) offset"
    and create: "dmi_entity_create m q table offset = (Some e, q1)" and put: "dmi_registry_put p q1 reg e = (ok, reg1, q2)"
  shows "ok = p" and "ok \<Longrightarrow> registry_wf reg1 \<and> rg_entries reg1 = rg_entries reg @ [e] \<and> rg_status reg1 = rg_status reg \<and>
      laid_out table 0 (rg_entries reg1) (offset + en_total_length e)"
    and "\<not> ok \<Longrightarrow> reg1 = reg" and "queue_wf q \<Longrightarrow> queue_wf q2"
proof -
  note c = entity_create_some [OF table create]
  note o1 = registry_put_outcome [OF wf put]
  have "\<not> same_place x e" if "x \<in> set (rg_entries reg)" for x
    using laid_out_before [OF laid that] c(4) by (simp add: same_place_def)
  then show "ok = p" using o1(1) by blast
  show "\<not> ok \<Longrightarrow> reg1 = reg" by (rule o1(2))
  show "queue_wf q \<Longrightarrow> queue_wf q2" using o1(3) entity_create_queue [OF create] by blast
  show "registry_wf reg1 \<and> rg_entries reg1 = rg_entries reg @ [e] \<and> rg_status reg1 = rg_status reg \<and>
      laid_out table 0 (rg_entries reg1) (offset + en_total_length e)" if ok
    using registry_put_some [OF wf put [unfolded that [THEN eq_True [THEN iffD2]]] entity_in_buffer_fields(1) [OF c(2)]]
      laid c(2,3,4) created_fresh [OF table create] by (auto simp: laid_out_snoc)
qed

lemma scan_loop_outcome:
  assumes "scan_loop strict limit mem put_mem table q reg offset index count = (ok, reg', count', q')"
    and "buffer_wf table" and "registry_wf reg" and "laid_out table 0 (rg_entries reg) offset" and "queue_wf q"
    and "index = length (rg_entries reg)" and "count = index" and "limit = 0 \<or> index \<le> limit"
    and "\<forall>e\<in>set (rg_entries reg). en_type_id e \<noteq> DMI_TYPE_ID_END_OF_TABLE"
  shows "scan_result strict limit ((\<forall>i j. mem i j) \<and> (\<forall>i. put_mem i)) table (rg_status reg) ok reg' \<and> queue_wf q' \<and>
    count' = length (rg_entries reg')"
  using assms
proof (induction strict limit mem put_mem table q reg offset index count rule: scan_loop.induct)
  case (1 strict limit mem put_mem table q reg offset index count)
  note table = 1(3) and wf = 1(4) and laid = 1(5) and q = 1(6) and index = 1(7,8) and le = 1(9) and unmarked = 1(10)
  have before: "\<forall>e\<in>set (butlast (rg_entries reg)). en_type_id e \<noteq> DMI_TYPE_ID_END_OF_TABLE"
    using unmarked by (meson in_set_butlastD)
  have unm: "\<not> marked_end (rg_entries reg)" using unmarked by (auto simp: marked_end_def)
  have len: "length (buffer_bytes table) = unat (buf_length table)" by (rule buffer_length_bytes [OF table])
  have stop_here: "scan_result strict limit ((\<forall>i j. mem i j) \<and> (\<forall>i. put_mem i)) table (rg_status reg) ok reg'"
    if "registry_wf reg'" "rg_entries reg' = rg_entries reg" "limit = 0 \<or> index < limit"
      "rg_status reg' = (if ok then rg_status reg OR DMI_REGISTRY_STATUS_TRUNCATED else rg_status reg)"
      "(\<forall>i j. mem i j) \<and> (\<forall>i. put_mem i) \<Longrightarrow> (\<exists>r. entity_fault (drop offset (buffer_bytes table)) = Some r \<and>
         ok = (r = DMI_ERROR_ENTITY_TRUNCATED \<or> \<not> strict))"
    using that before laid le index unm
    unfolding scan_result_def scan_complete_def by (intro conjI exI [of _ offset]) auto
  from 1(2) show ?case
  proof (cases rule: scan_loop_cases)
    case limit
    then show ?thesis using before laid le index unm wf q unfolding scan_result_def scan_complete_def
      by (intro conjI exI [of _ offset]) auto
  next
    case short
    then have "entity_fault (drop offset (buffer_bytes table)) = Some DMI_ERROR_ENTITY_TRUNCATED"
      by (simp add: entity_fault_def len)
    then have "scan_result strict limit ((\<forall>i j. mem i j) \<and> (\<forall>i. put_mem i)) table (rg_status reg) ok reg'"
      by (intro stop_here) (use short wf in simp_all)
    with short index q show ?thesis by simp
  next
    case (fault q1)
    have q1: "queue_wf q1" by (rule entity_create_queue [OF fault(2) q])
    have "entity_fault (drop offset (buffer_bytes table)) = last_reason q1" if "\<forall>i j. mem i j"
      using entity_fault_create(1) [OF table _ fault(2) q] that by blast
    then have "scan_result strict limit ((\<forall>i j. mem i j) \<and> (\<forall>i. put_mem i)) table (rg_status reg) ok reg'"
      by (intro stop_here) (use fault wf in auto)
    with fault index q1 show ?thesis by simp
  next
    case (fail q1)
    have q1: "queue_wf q1" by (rule entity_create_queue [OF fail(2) q])
    have "entity_fault (drop offset (buffer_bytes table)) = last_reason q1 \<and> last_reason q1 \<noteq> None" if "\<forall>i j. mem i j"
      using entity_fault_create(1,2) [OF table _ fail(2) q] that by blast
    then have "scan_result strict limit ((\<forall>i j. mem i j) \<and> (\<forall>i. put_mem i)) table (rg_status reg) ok reg'"
      by (intro stop_here) (use fail wf entity_fault_reasons [of "drop offset (buffer_bytes table)"] in auto)
    with fail index q1 show ?thesis by simp
  next
    case (put e q1 reg1 q2)
    note p = scan_put [OF table wf laid put(2,3)]
    have "scan_result strict limit ((\<forall>i j. mem i j) \<and> (\<forall>i. put_mem i)) table (rg_status reg) ok reg'"
      by (intro stop_here) (use put wf p(1,3) in auto)
    with put index q p(3,4) show ?thesis by simp
  next
    case (marker e q1 reg1 q2)
    note p = scan_put [OF table wf laid marker(2,3)]
    have reg1: "registry_wf reg1" "rg_entries reg1 = rg_entries reg @ [e]" "rg_status reg1 = rg_status reg"
      "laid_out table 0 (rg_entries reg1) (offset + en_total_length e)" using p(2) by blast+
    have "scan_result strict limit ((\<forall>i j. mem i j) \<and> (\<forall>i. put_mem i)) table (rg_status reg) True reg1"
      using reg1 marker(1,4) unmarked index
      unfolding scan_result_def scan_complete_def marked_end_def by (intro conjI exI [of _ "offset + en_total_length e"]) auto
    with marker(5) p(4) q index reg1(2) show ?thesis by simp
  next
    case (go e q1 reg1 q2)
    note p = scan_put [OF table wf laid go(2,3)]
    have reg1: "registry_wf reg1" "rg_entries reg1 = rg_entries reg @ [e]" "rg_status reg1 = rg_status reg"
      "laid_out table 0 (rg_entries reg1) (offset + en_total_length e)" using p(2) by blast+
    have long: "\<not> unat (buf_length table) - offset < 4 + 2"
      using entity_in_buffer_fields(2,3) entity_create_some(2,3,4) [OF table go(2)] len by fastforce
    have "scan_result strict limit ((\<forall>i j. mem i j) \<and> (\<forall>i. put_mem i)) table (rg_status reg1) ok reg' \<and> queue_wf q' \<and>
      count' = length (rg_entries reg')"
    proof (rule 1(1) [OF _ long go(2) [symmetric] refl go(3) [symmetric] refl refl refl go(4)])
      show "scan_loop strict limit mem put_mem table q2 reg1 (offset + en_total_length e) (index + 1) (count + 1) = (ok, reg', count', q')"
        by (rule go(5) [symmetric])
      show "registry_wf reg1" and "laid_out table 0 (rg_entries reg1) (offset + en_total_length e)" by (rule reg1)+
      show "\<forall>x\<in>set (rg_entries reg1). en_type_id x \<noteq> DMI_TYPE_ID_END_OF_TABLE" using unmarked go(4) by (simp add: reg1(2))
    qed (use go(1) index le reg1(2) p(4) q table in \<open>simp_all add: Suc_le_eq\<close>)
    then show ?thesis by (simp add: reg1(3))
  qed
qed

end
