(* ===== verification/Registry_Passes.thy ===== *)
theory Registry_Passes
  imports Registry_Laws
begin

text \<open>
  The passes over a registry which has been scanned: additional information is laid over the structures,
  they are decoded and linked. What holds of a structure before and after each pass, for every table,
  and the properties of the registry.
\<close>

section \<open>Decoding\<close>

text \<open>A structure a pass of the decoding may come to: it is decoded, or nothing has been made of it.\<close>

definition entity_ready :: "'i dmi_entity \<Rightarrow> bool" where
  "entity_ready e \<longleftrightarrow> entity_in_buffer e \<and> list_all (overlay_fits (en_body_length e)) (en_overlays e) \<and>
     (\<not> dmi_entity_is_decoded e \<longrightarrow> en_info e = None \<and> en_overlay e = None)"

definition entry_decoded :: "dmi_type_map \<Rightarrow> 'i dmi_entity \<Rightarrow> bool \<Rightarrow> 'i dmi_entity \<Rightarrow> bool" where
  "entry_decoded type_map e ok e' \<longleftrightarrow>
     (if dmi_entity_is_decoded e then ok \<and> e' = e
      else \<exists>q. decode_outcome e (chosen_spec type_map e) (ok, e', q))"

lemma same_structure_fields:
  assumes "same_structure e e'"
  shows "en_handle e' = en_handle e" and "en_type_id e' = en_type_id e" and "en_string_count e' = en_string_count e"
    and "length (en_strings e') = length (en_strings e)" and "en_body_length e' = en_body_length e"
    and "en_overlays e' = en_overlays e" and "en_buffer e' = en_buffer e" and "en_offset e' = en_offset e"
    and "en_total_length e' = en_total_length e" and "en_extra_length e' = en_extra_length e"
  using assms unfolding same_structure_def by (cases e; cases e'; auto dest: map_eq_imp_length_eq)+

lemma same_structure_in_buffer:
  assumes "same_structure e e'" and "entity_in_buffer e"
  shows "entity_in_buffer e'"
proof -
  have "map se_raw (en_strings e') = map se_raw (en_strings e)" using assms(1) by (simp add: same_structure_def)
  moreover have "en_strings e' = [] \<longleftrightarrow> en_strings e = []" using same_structure_fields(4) [OF assms(1)] by auto
  ultimately show ?thesis
    using assms(2) by (simp add: entity_in_buffer_def entity_strings_set_def same_structure_fields [OF assms(1)])
qed

lemma decode_entry_outcome:
  assumes contract: "handlers_contract (re_ops env)" and wf: "registry_wf reg" and n: "n < length (rg_entries reg)"
    and ready: "entity_ready (rg_entries reg ! n)" and q: "queue_wf q" and run: "decode_entry env q reg n = (ok, reg', q')"
  shows "\<exists>e. reg' = reg\<lparr>rg_entries := (rg_entries reg)[n := e]\<rparr> \<and> entry_decoded (re_types env) (rg_entries reg ! n) ok e \<and>
      same_structure (rg_entries reg ! n) e"
    and "registry_wf reg'" and "queue_wf q'"
    and "\<not> ok \<Longrightarrow> last_reason q' \<in> {Some DMI_ERROR_ENTITY_LENGTH_INVALID, Some DMI_ERROR_OUT_OF_MEMORY, Some DMI_ERROR_ENTITY_DECODE_FAILED}"
proof -
  let ?e = "rg_entries reg ! n"
  obtain e where e: "dmi_entity_decode (re_ops env) (re_mem env n) (re_heap env) (re_addr env n) (re_types env) q ?e = (ok, e, q')"
    and reg': "reg' = reg\<lparr>rg_entries := (rg_entries reg)[n := e]\<rparr>"
    using run by (auto simp: decode_entry_def split: prod.splits)
  have count: "en_string_count ?e = length (en_strings ?e)" by (rule registry_wf_count [OF wf n])
  have main: "entry_decoded (re_types env) ?e ok e \<and> same_structure ?e e \<and> queue_wf q' \<and>
      (\<not> ok \<longrightarrow> last_reason q' \<in> {Some DMI_ERROR_ENTITY_LENGTH_INVALID, Some DMI_ERROR_OUT_OF_MEMORY, Some DMI_ERROR_ENTITY_DECODE_FAILED})"
  proof (cases "dmi_entity_is_decoded ?e")
    case True
    then show ?thesis using e q by (auto simp: dmi_entity_decode_def entry_decoded_def)
  next
    case False
    have "decode_outcome ?e (fst (dmi_entity_spec_select (re_types env) q ?e)) (ok, e, q')"
      using entity_decode_outcome_proved [OF contract _ q, of ?e] ready False unfolding e [symmetric]
      by (simp add: entity_ready_def)
    then have o': "decode_outcome ?e (chosen_spec (re_types env) ?e) (ok, e, q')" by (simp add: spec_select_chosen [OF count])
    then show ?thesis using False by (auto simp: entry_decoded_def decode_outcome_def split: if_splits)
  qed
  then show "\<exists>e. reg' = reg\<lparr>rg_entries := (rg_entries reg)[n := e]\<rparr> \<and> entry_decoded (re_types env) ?e ok e \<and> same_structure ?e e"
    and "queue_wf q'"
    and "\<not> ok \<Longrightarrow> last_reason q' \<in> {Some DMI_ERROR_ENTITY_LENGTH_INVALID, Some DMI_ERROR_OUT_OF_MEMORY, Some DMI_ERROR_ENTITY_DECODE_FAILED}"
    using reg' by auto
  have "en_handle e = en_handle ?e" "en_string_count e = length (en_strings e)"
    using main count same_structure_fields(1,3,4) [of ?e e] by simp_all
  then show "registry_wf reg'" unfolding reg' by (rule registry_update_wf [OF wf n])
qed

text \<open>The entries \<open>ns\<close> of a registry have been through the decoding, as \<open>oks\<close> tells of each.\<close>

definition entries_decoded ::
    "dmi_type_map \<Rightarrow> nat set \<Rightarrow> (nat \<Rightarrow> bool) \<Rightarrow> 'i dmi_registry \<Rightarrow> 'i dmi_registry \<Rightarrow> bool" where
  "entries_decoded type_map ns oks reg reg' \<longleftrightarrow>
     reg' = reg\<lparr>rg_entries := rg_entries reg'\<rparr> \<and> length (rg_entries reg') = length (rg_entries reg) \<and> registry_wf reg' \<and>
     (\<forall>n < length (rg_entries reg).
        if n \<in> ns then entry_decoded type_map (rg_entries reg ! n) (oks n) (rg_entries reg' ! n) \<and>
          same_structure (rg_entries reg ! n) (rg_entries reg' ! n)
        else rg_entries reg' ! n = rg_entries reg ! n)"

lemma entries_decoded_step:
  assumes one: "reg1 = reg\<lparr>rg_entries := (rg_entries reg)[n := e]\<rparr>" and n: "n < length (rg_entries reg)" "n \<notin> ns"
    and e: "entry_decoded type_map (rg_entries reg ! n) ok e" "same_structure (rg_entries reg ! n) e"
    and rest: "entries_decoded type_map ns oks reg1 reg'"
  shows "entries_decoded type_map (insert n ns) (oks(n := ok)) reg reg'"
proof -
  have "reg' = reg\<lparr>rg_entries := rg_entries reg'\<rparr>"
    using rest one unfolding entries_decoded_def by (metis dmi_registry.surjective dmi_registry.update_convs(4))
  then show ?thesis
    using rest n e by (auto simp: entries_decoded_def one nth_list_update)
qed

lemma entries_decoded_same:
  assumes "entries_decoded type_map ns oks reg reg'"
  shows "list_all2 same_structure (rg_entries reg) (rg_entries reg') \<and> registry_wf reg' \<and> rg_status reg' = rg_status reg"
proof (intro conjI)
  have len: "length (rg_entries reg') = length (rg_entries reg)" using assms by (simp add: entries_decoded_def)
  have "same_structure (rg_entries reg ! n) (rg_entries reg' ! n)" if "n < length (rg_entries reg)" for n
    using assms that unfolding entries_decoded_def by (cases "n \<in> ns") simp_all
  then show "list_all2 same_structure (rg_entries reg) (rg_entries reg')" using len by (simp add: list_all2_conv_all_nth)
  show "registry_wf reg'" using assms by (simp add: entries_decoded_def)
  have "reg' = reg\<lparr>rg_entries := rg_entries reg'\<rparr>" using assms by (simp add: entries_decoded_def)
  then show "rg_status reg' = rg_status reg" by (metis dmi_registry.select_convs(5) dmi_registry.surjective dmi_registry.update_convs(4))
qed

lemma entries_decoded_none: "registry_wf reg \<Longrightarrow> entries_decoded type_map {} oks reg reg"
  by (simp add: entries_decoded_def)

lemma decode_loop_outcome:
  assumes "handlers_contract (re_ops env)" and "registry_wf reg" and "queue_wf q"
    and "distinct ns" and "\<forall>n\<in>set ns. n < length (rg_entries reg) \<and> entity_ready (rg_entries reg ! n)"
    and "decode_loop env q reg success ns = (r, reg', q')"
  shows "\<exists>done_ns oks. done_ns \<subseteq> set ns \<and> entries_decoded (re_types env) done_ns oks reg reg' \<and> queue_wf q' \<and>
    (case r of None \<Rightarrow> last_reason q' = Some DMI_ERROR_OUT_OF_MEMORY
     | Some s \<Rightarrow> done_ns = set ns \<and> s = (success \<and> (\<forall>n\<in>set ns. oks n)))"
  using assms(2-)
proof (induction ns arbitrary: q reg success)
  case Nil
  then show ?case using entries_decoded_none by (intro exI [of _ "{}"] exI [of _ "\<lambda>_. True"]) auto
next
  case (Cons n ns)
  obtain ok reg1 q1 where d: "decode_entry env q reg n = (ok, reg1, q1)" by (metis prod_cases3)
  have n: "n < length (rg_entries reg)" "entity_ready (rg_entries reg ! n)" using Cons.prems(4) by simp_all
  note o1 = decode_entry_outcome [OF assms(1) Cons.prems(1) n Cons.prems(2) d]
  obtain e where e: "reg1 = reg\<lparr>rg_entries := (rg_entries reg)[n := e]\<rparr>" "entry_decoded (re_types env) (rg_entries reg ! n) ok e"
    "same_structure (rg_entries reg ! n) e" using o1(1) by blast
  have ns: "distinct ns" "\<forall>m\<in>set ns. m < length (rg_entries reg1) \<and> entity_ready (rg_entries reg1 ! m)"
    using Cons.prems(3,4) by (auto simp: e(1) nth_list_update)
  have oom: "out_of_memory q1 \<longleftrightarrow> last_reason q1 = Some DMI_ERROR_OUT_OF_MEMORY" by (auto simp: out_of_memory_def last_reason_def)
  show ?case
  proof (cases "\<not> ok \<and> out_of_memory q1")
    case True
    then have "r = None" "reg' = reg1" "q' = q1" using Cons.prems(5) by (simp_all add: d)
    moreover have "entries_decoded (re_types env) (insert n {}) ((\<lambda>_. True)(n := ok)) reg reg1"
      by (rule entries_decoded_step [OF e(1) n(1) _ e(2,3) entries_decoded_none [OF o1(2)]]) simp
    ultimately show ?thesis using True oom o1(3) by (intro exI [of _ "{n}"]) auto
  next
    case False
    then have "decode_loop env q1 reg1 (ok \<and> success) ns = (r, reg', q')" using Cons.prems(5) by (cases ok) (simp_all add: d)
    from Cons.IH [OF o1(2,3) ns this] obtain dn oks where ih: "dn \<subseteq> set ns" "entries_decoded (re_types env) dn oks reg1 reg'"
      "queue_wf q'" "case r of None \<Rightarrow> last_reason q' = Some DMI_ERROR_OUT_OF_MEMORY
        | Some s \<Rightarrow> dn = set ns \<and> s = ((ok \<and> success) \<and> (\<forall>n\<in>set ns. oks n))"
      by (elim exE conjE) (rule that; assumption)
    have "n \<notin> dn" using ih(1) Cons.prems(3) by auto
    from entries_decoded_step [OF e(1) n(1) this e(2,3) ih(2)]
    have step: "entries_decoded (re_types env) (insert n dn) (oks(n := ok)) reg reg'" .
    have all: "(\<forall>m\<in>set (n # ns). (oks(n := ok)) m) \<longleftrightarrow> ok \<and> (\<forall>m\<in>set ns. oks m)" using Cons.prems(3) by auto
    have "case r of None \<Rightarrow> last_reason q' = Some DMI_ERROR_OUT_OF_MEMORY
        | Some s \<Rightarrow> insert n dn = set (n # ns) \<and> s = (success \<and> (\<forall>m\<in>set (n # ns). (oks(n := ok)) m))"
      using ih(4) unfolding all by (cases r) (simp_all, blast)
    moreover have "insert n dn \<subseteq> set (n # ns)" using ih(1) by auto
    ultimately show ?thesis using step ih(3) by blast
  qed
qed

lemma registry_decode_outcome:
  assumes contract: "handlers_contract (re_ops env)" and wf: "registry_wf reg" and q: "queue_wf q"
    and ready: "\<forall>e\<in>set (rg_entries reg). entity_ready e"
    and fresh: "rg_status reg AND DMI_REGISTRY_STATUS_DECODED = 0"
    and run: "dmi_registry_decode module_at env q reg = (ok, reg', q')"
  shows "registry_wf reg' \<and> queue_wf q' \<and> list_all2 same_structure (rg_entries reg) (rg_entries reg') \<and>
    (if ok then
       rg_status reg' = rg_status reg OR DMI_REGISTRY_STATUS_DECODED \<and>
       list_all2 (\<lambda>e e'. \<exists>ok. (re_strict env \<longrightarrow> ok) \<and> entry_decoded (re_types env) e ok e') (rg_entries reg) (rg_entries reg')
     else
       rg_status reg' = rg_status reg \<and>
       (last_reason q' = Some DMI_ERROR_OUT_OF_MEMORY \<or>
        re_strict env \<and> (\<exists>n < length (rg_entries reg). entry_decoded (re_types env) (rg_entries reg ! n) False (rg_entries reg' ! n))))"
proof -
  obtain r reg1 q1 where loop: "decode_loop env q reg True (visit_all module_at reg) = (r, reg1, q1)" by (metis prod_cases3)
  have ns: "distinct (visit_all module_at reg)"
    "\<forall>n\<in>set (visit_all module_at reg). n < length (rg_entries reg) \<and> entity_ready (rg_entries reg ! n)"
    using ready by (auto simp: visit_all_upt)
  from decode_loop_outcome [OF contract wf q ns loop] obtain dn oks where o1:
    "dn \<subseteq> set (visit_all module_at reg)" "entries_decoded (re_types env) dn oks reg reg1" "queue_wf q1"
    "case r of None \<Rightarrow> last_reason q1 = Some DMI_ERROR_OUT_OF_MEMORY
      | Some s \<Rightarrow> dn = set (visit_all module_at reg) \<and> s = (True \<and> (\<forall>n\<in>set (visit_all module_at reg). oks n))"
    by (elim exE conjE) (rule that; assumption)
  have same: "list_all2 same_structure (rg_entries reg) (rg_entries reg1)" and wf1: "registry_wf reg1"
    and status: "rg_status reg1 = rg_status reg"
    using entries_decoded_same [OF o1(2)] by auto
  have res: "(ok, reg', q') = (case r of None \<Rightarrow> (False, reg1, q1)
      | Some s \<Rightarrow> if \<not> s \<and> re_strict env then (False, reg1, q1)
                  else (True, reg1\<lparr>rg_status := rg_status reg1 OR DMI_REGISTRY_STATUS_DECODED\<rparr>, q1))"
    using run fresh by (auto simp: dmi_registry_decode_def loop)
  show ?thesis
  proof (cases r)
    case None
    then show ?thesis using res o1(3,4) same wf1 status by auto
  next
    case (Some s)
    have each: "entry_decoded (re_types env) (rg_entries reg ! n) (oks n) (rg_entries reg1 ! n)" if "n < length (rg_entries reg)" for n
      using o1(2,4) that by (simp add: Some entries_decoded_def visit_all_upt)
    have len: "length (rg_entries reg1) = length (rg_entries reg)" using same by (simp add: list_all2_lengthD)
    show ?thesis
    proof (cases "\<not> s \<and> re_strict env")
      case True
      then obtain n where "n < length (rg_entries reg)" "\<not> oks n" using o1(4) by (auto simp: Some visit_all_upt)
      with each [of n] True res show ?thesis using o1(3) same wf1 status by (auto simp: Some)
    next
      case False
      then have "\<forall>n < length (rg_entries reg). re_strict env \<longrightarrow> oks n" using o1(4) by (auto simp: Some visit_all_upt)
      with each have "list_all2 (\<lambda>e e'. \<exists>ok. (re_strict env \<longrightarrow> ok) \<and> entry_decoded (re_types env) e ok e') (rg_entries reg) (rg_entries reg1)"
        unfolding list_all2_conv_all_nth using len [symmetric] by blast
      moreover have "ok" "reg' = reg1\<lparr>rg_status := rg_status reg1 OR DMI_REGISTRY_STATUS_DECODED\<rparr>" "q' = q1"
        using False res by (auto simp: Some)
      ultimately show ?thesis using o1(3) same wf1 status by simp
    qed
  qed
qed

section \<open>Additional information\<close>

text \<open>
  What lets the pass of the additional information read the information of every structure it has
  decoded: additional information is decoded by specifications of that type only, which name a way
  to decode it. \<open>overlay_ready\<close> is what the pass keeps of every structure.
\<close>

definition additional_typed :: "'i dmi_registry_env \<Rightarrow> bool" where
  "additional_typed env \<longleftrightarrow>
     (\<forall>spec. Some spec \<in> set (re_types env DMI_TYPE_ID_ADDITIONAL_INFO) \<longrightarrow>
        sp_type spec = re_additional env \<and> (sp_has_decode spec \<or> sp_has_fields spec)) \<and>
     re_types env DMI_TYPE_ID_ADDITIONAL_INFO \<noteq> [] \<and> re_types env DMI_TYPE_ID_ADDITIONAL_INFO ! 0 \<noteq> None"

definition overlay_ready :: "'i dmi_registry_env \<Rightarrow> 'i dmi_entity \<Rightarrow> bool" where
  "overlay_ready env e \<longleftrightarrow> entity_ready e \<and>
     (en_type_id e = DMI_TYPE_ID_ADDITIONAL_INFO \<longrightarrow> en_overlays e = [] \<and>
        (dmi_entity_is_decoded e \<longrightarrow> en_info e \<noteq> None \<and> map_option sp_type (en_spec e) = Some (re_additional env)))"

lemma listed_subset: "set (listed xs) \<subseteq> {x. Some x \<in> set xs}"
  by (induction xs rule: listed.induct) auto

lemma chosen_additional:
  assumes "additional_typed env" and "en_type_id e = DMI_TYPE_ID_ADDITIONAL_INFO"
  shows "\<exists>spec. chosen_spec (re_types env) e = Some spec \<and> sp_type spec = re_additional env \<and> (sp_has_decode spec \<or> sp_has_fields spec)"
proof -
  let ?c = "re_types env DMI_TYPE_ID_ADDITIONAL_INFO"
  have range: "\<not> (en_type_id e \<le> DMI_TYPE_ID_INVALID \<or> en_type_id e > DMI_TYPE_ID_MAX)"
    by (simp add: assms(2) DMI_TYPE_ID_ADDITIONAL_INFO_def DMI_TYPE_ID_INVALID_def DMI_TYPE_ID_MAX_def)
  have "\<exists>spec. chosen_spec (re_types env) e = Some spec \<and> Some spec \<in> set ?c"
  proof (cases "find (spec_matches e) (listed (take (DMI_TYPE_CANDIDATES - 1) (drop 1 ?c)))")
    case None
    have "?c ! 0 \<in> set ?c" using assms(1) by (simp add: additional_typed_def)
    moreover obtain spec where "?c ! 0 = Some spec" using assms(1) by (auto simp: additional_typed_def)
    ultimately show ?thesis using None assms(2) range by (auto simp: chosen_spec_def)
  next
    case (Some spec)
    then have "spec \<in> set (listed (take (DMI_TYPE_CANDIDATES - 1) (drop 1 ?c)))" by (auto simp: find_Some_iff)
    then have "Some spec \<in> set (take (DMI_TYPE_CANDIDATES - 1) (drop 1 ?c))" using listed_subset [THEN subsetD] by simp
    then have "Some spec \<in> set ?c" by (meson in_set_dropD in_set_takeD)
    then show ?thesis using Some assms range by (auto simp: chosen_spec_def)
  qed
  then show ?thesis using assms(1) by (auto simp: additional_typed_def)
qed

lemma decoded_overlay_ready:
  assumes typed: "additional_typed env" and ready: "overlay_ready env e" and type: "en_type_id e = DMI_TYPE_ID_ADDITIONAL_INFO"
    and decoded: "entry_decoded (re_types env) e ok e'"
  shows "overlay_ready env e'" and "ok \<Longrightarrow> dmi_entity_is_decoded e'"
proof -
  have "overlay_ready env e' \<and> (ok \<longrightarrow> dmi_entity_is_decoded e')"
  proof (cases "dmi_entity_is_decoded e")
    case True
    then show ?thesis using decoded ready by (simp add: entry_decoded_def)
  next
    case False
    from chosen_additional [OF typed type] obtain spec where spec: "chosen_spec (re_types env) e = Some spec"
      "sp_type spec = re_additional env" "sp_has_decode spec \<or> sp_has_fields spec" by blast
    from False decoded obtain q where o1: "decode_outcome e (Some spec) (ok, e', q)" by (auto simp: entry_decoded_def spec)
    then have same: "same_structure e e'" by (simp add: decode_outcome_def)
    note f = same_structure_fields [OF same]
    have e: "entity_in_buffer e" "en_overlays e = []" "list_all (overlay_fits (en_body_length e)) (en_overlays e)"
      using ready type by (simp_all add: overlay_ready_def entity_ready_def)
    have "entity_in_buffer e'" by (rule same_structure_in_buffer [OF same e(1)])
    then show ?thesis
      using o1 e spec f type
      by (cases "en_info e'"; cases ok) (auto simp: decode_outcome_def overlay_ready_def entity_ready_def)
  qed
  then show "overlay_ready env e'" and "ok \<Longrightarrow> dmi_entity_is_decoded e'" by auto
qed

lemma overlay_decode_entry:
  assumes env: "handlers_contract (re_ops env)" "additional_typed env" and wf: "registry_wf reg"
    and n: "n < length (rg_entries reg)" and ready: "\<forall>e\<in>set (rg_entries reg). overlay_ready env e" and q: "queue_wf q"
    and type: "en_type_id (rg_entries reg ! n) = DMI_TYPE_ID_ADDITIONAL_INFO" and run: "decode_entry env q reg n = (ok, reg', q')"
  shows "registry_wf reg'" and "queue_wf q'" and "\<forall>e\<in>set (rg_entries reg'). overlay_ready env e"
    and "length (rg_entries reg') = length (rg_entries reg)" and "rg_status reg' = rg_status reg"
    and "map en_handle (rg_entries reg') = map en_handle (rg_entries reg)"
    and "map en_type_id (rg_entries reg') = map en_type_id (rg_entries reg)"
    and "ok \<Longrightarrow> dmi_entity_is_decoded (rg_entries reg' ! n)"
proof -
  have e: "overlay_ready env (rg_entries reg ! n)" using ready n by simp
  then have "entity_ready (rg_entries reg ! n)" by (simp add: overlay_ready_def)
  note o1 = decode_entry_outcome [OF env(1) wf n this q run]
  obtain e' where e': "reg' = reg\<lparr>rg_entries := (rg_entries reg)[n := e']\<rparr>" "entry_decoded (re_types env) (rg_entries reg ! n) ok e'"
    "same_structure (rg_entries reg ! n) e'" using o1(1) by blast
  note d = decoded_overlay_ready [OF env(2) e type e'(2)] and f = same_structure_fields [OF e'(3)]
  show "registry_wf reg'" "queue_wf q'" by (rule o1)+
  show "\<forall>e\<in>set (rg_entries reg'). overlay_ready env e"
    using ready d(1) by (auto simp: e'(1) dest: set_update_subset_insert [THEN subsetD])
  show "length (rg_entries reg') = length (rg_entries reg)" "rg_status reg' = rg_status reg" by (simp_all add: e'(1))
  show "map en_handle (rg_entries reg') = map en_handle (rg_entries reg)"
    "map en_type_id (rg_entries reg') = map en_type_id (rg_entries reg)"
    using f(1,2) n by (simp_all add: e'(1) map_update list_update_same_conv)
  show "ok \<Longrightarrow> dmi_entity_is_decoded (rg_entries reg' ! n)" using d(2) n by (simp add: e'(1))
qed

text \<open>What a pass keeps of the registry: its entries with their handles and types, each of them ready.\<close>

definition overlay_keeps :: "'i dmi_registry_env \<Rightarrow> 'i dmi_registry \<Rightarrow> 'i dmi_registry \<Rightarrow> bool" where
  "overlay_keeps env reg reg' \<longleftrightarrow> registry_wf reg' \<and> (\<forall>e\<in>set (rg_entries reg'). overlay_ready env e) \<and>
     map en_handle (rg_entries reg') = map en_handle (rg_entries reg) \<and>
     map en_type_id (rg_entries reg') = map en_type_id (rg_entries reg) \<and>
     rg_status reg' AND DMI_REGISTRY_STATUS_DECODED = rg_status reg AND DMI_REGISTRY_STATUS_DECODED"

lemma overlay_keeps_trans: "overlay_keeps env a b \<Longrightarrow> overlay_keeps env b c \<Longrightarrow> overlay_keeps env a c"
  by (simp add: overlay_keeps_def)

lemma overlay_keeps_length: "overlay_keeps env reg reg' \<Longrightarrow> length (rg_entries reg') = length (rg_entries reg)"
  by (metis overlay_keeps_def length_map)

lemma add_overlay_ready:
  assumes "overlay_ready env e" and "dmi_entity_add_overlay mem q e entry = (ok, e', q')"
  shows "overlay_ready env e'" and "en_handle e' = en_handle e" and "en_type_id e' = en_type_id e"
    and "en_string_count e' = en_string_count e" and "en_strings e' = en_strings e" and "queue_wf q \<Longrightarrow> queue_wf q'"
proof -
  have cases: "(e' = e \<or> \<not> dmi_entity_is_decoded e \<and> en_type_id e \<noteq> DMI_TYPE_ID_ADDITIONAL_INFO \<and> overlay_fits (en_body_length e) entry \<and>
      e' = e\<lparr>en_overlays := en_overlays e @ [entry]\<rparr>) \<and> (queue_wf q \<longrightarrow> queue_wf q')"
    using assms(2) by (auto simp: dmi_entity_add_overlay_def overlay_fits_def split: if_splits)
  then show "en_handle e' = en_handle e" "en_type_id e' = en_type_id e" "en_string_count e' = en_string_count e"
    "en_strings e' = en_strings e" "queue_wf q \<Longrightarrow> queue_wf q'" by auto
  have "entity_in_buffer (e\<lparr>en_overlays := en_overlays e @ [entry]\<rparr>) = entity_in_buffer e"
    by (simp add: entity_in_buffer_def entity_strings_set_def)
  then show "overlay_ready env e'"
    using cases assms(1) by (auto simp: overlay_ready_def entity_ready_def dmi_entity_is_decoded_def)
qed

lemma overlay_entries_outcome:
  "registry_wf reg \<Longrightarrow> \<forall>e\<in>set (rg_entries reg). overlay_ready env e \<Longrightarrow> queue_wf q \<Longrightarrow>
    overlay_entries strict mem type_map source q reg success i entries = (r, reg', q') \<Longrightarrow>
    overlay_keeps env reg reg' \<and> queue_wf q' \<and> (r = None \<longrightarrow> last_reason q' = Some DMI_ERROR_OUT_OF_MEMORY)"
proof (induction entries arbitrary: q reg success i)
  case (Cons entry entries)
  obtain handle offset bytes where entry: "entry = (handle, offset, bytes)" by (metis prod_cases3)
  note wf = Cons.prems(1) and ready = Cons.prems(2) and q = Cons.prems(3) and run = Cons.prems(4) [unfolded entry]
  obtain t reg1 q1 where l: "dmi_registry_lookup strict type_map q reg handle None True = (t, reg1, q1)" by (metis prod_cases3)
  note o1 = lookup_outcome [OF wf l]
  have reg1: "reg1 = reg" using l by (auto simp: dmi_registry_lookup_def split: if_splits option.splits)
  show ?case
  proof (cases t)
    case None
    then have "overlay_entries strict mem type_map source (raise_error q1 DMI_ERROR_ENTITY_NOT_FOUND) reg False (i + 1) entries = (r, reg', q')"
      using run by (simp add: l reg1)
    from Cons.IH [OF wf ready _ this] show ?thesis using o1(4) [OF q] by simp
  next
    case (Some n)
    then have n: "n < length (rg_entries reg)" using o1(1) by (auto simp: lookup_spec_def find_Some_iff split: option.splits if_splits)
    let ?entry = "\<lparr>ov_source = source, ov_index = i, ov_referenced_offset = offset, ov_value = bytes\<rparr>"
    obtain ok e q2 where a: "dmi_entity_add_overlay (mem i) q1 (rg_entries reg ! n) ?entry = (ok, e, q2)" by (metis prod_cases3)
    have "overlay_ready env (rg_entries reg ! n)" using ready n by simp
    note o2 = add_overlay_ready [OF this a]
    let ?reg2 = "reg\<lparr>rg_entries := (rg_entries reg)[n := e]\<rparr>"
    have "en_string_count e = length (en_strings e)" using o2(4,5) registry_wf_count [OF wf n] by simp
    then have wf2: "registry_wf ?reg2" by (rule registry_update_wf [OF wf n o2(2)])
    have ready2: "\<forall>e\<in>set (rg_entries ?reg2). overlay_ready env e"
      using ready o2(1) by (auto dest: set_update_subset_insert [THEN subsetD])
    have keeps: "overlay_keeps env reg ?reg2"
      using wf2 ready2 o2(2,3) n by (auto simp: overlay_keeps_def map_update list_update_same_conv)
    have q2: "queue_wf q2" using o2(6) o1(4) q by blast
    show ?thesis
    proof (cases ok)
      case True
      let ?reg3 = "reg\<lparr>rg_entries := (rg_entries reg)[n := e], rg_status := rg_status reg OR DMI_REGISTRY_STATUS_OVERLAID\<rparr>"
      have reg3: "registry_wf ?reg3" "\<forall>e\<in>set (rg_entries ?reg3). overlay_ready env e"
        using wf2 ready2 by (simp_all add: registry_wf_def)
      have k3: "overlay_keeps env reg ?reg3" using keeps reg3
        by (simp add: overlay_keeps_def word_ao_dist DMI_REGISTRY_STATUS_OVERLAID_def DMI_REGISTRY_STATUS_DECODED_def)
      have "overlay_entries strict mem type_map source q2 ?reg3 success (i + 1) entries = (r, reg', q')"
        using run True by (simp add: l Some reg1 a)
      from Cons.IH [OF reg3 q2 this] show ?thesis using overlay_keeps_trans [OF k3] by blast
    next
      case False
      show ?thesis
      proof (cases "out_of_memory q2")
        case True
        then have "r = None \<and> reg' = ?reg2 \<and> q' = q2" using run False by (simp add: l Some reg1 a Let_def)
        then show ?thesis using True keeps q2 by (auto simp: out_of_memory_def last_reason_def)
      next
        case oom: False
        have "overlay_entries strict mem type_map source q2 ?reg2 False (i + 1) entries = (r, reg', q')"
          using run False oom by (simp add: l Some reg1 a Let_def)
        from Cons.IH [OF wf2 ready2 q2 this] show ?thesis using overlay_keeps_trans [OF keeps] by blast
      qed
    qed
  qed
qed (auto simp: overlay_keeps_def)

lemma entity_info_some:
  assumes "map_option sp_type (en_spec e) = Some type" and "en_info e = Some info"
  shows "dmi_entity_info type_map q e (Some type) = (Some info, e, q)"
  using assms by (auto simp: dmi_entity_info_def dmi_entity_spec_type_def)

lemma overlay_loop_outcome:
  assumes env: "handlers_contract (re_ops env)" "additional_typed env"
  shows "registry_wf reg \<Longrightarrow> \<forall>e\<in>set (rg_entries reg). overlay_ready env e \<Longrightarrow> queue_wf q \<Longrightarrow>
    \<forall>n\<in>set ns. n < length (rg_entries reg) \<Longrightarrow>
    \<exists>r reg' q'. overlay_loop env q reg success ns = Some (r, reg', q') \<and> overlay_keeps env reg reg' \<and> queue_wf q' \<and>
      (r = None \<longrightarrow> last_reason q' = Some DMI_ERROR_OUT_OF_MEMORY)"
proof (induction ns arbitrary: q reg success)
  case Nil
  then show ?case by (simp add: overlay_keeps_def)
next
  case (Cons n ns)
  note wf = Cons.prems(1) and ready = Cons.prems(2) and q = Cons.prems(3)
  have n: "n < length (rg_entries reg)" using Cons.prems(4) by simp
  show ?case
  proof (cases "en_type_id (rg_entries reg ! n) = DMI_TYPE_ID_ADDITIONAL_INFO")
    case False
    then show ?thesis using Cons.IH [OF wf ready q, of success] Cons.prems(4) by simp
  next
    case type: True
    obtain ok reg1 q1 where d: "decode_entry env q reg n = (ok, reg1, q1)" by (metis prod_cases3)
    note o1 = overlay_decode_entry [OF env wf n ready q type d]
    have k1: "overlay_keeps env reg reg1" using o1 by (simp add: overlay_keeps_def)
    have ns1: "\<forall>m\<in>set ns. m < length (rg_entries reg1)" using Cons.prems(4) o1(4) by simp
    show ?thesis
    proof (cases ok)
      case False
      show ?thesis
      proof (cases "out_of_memory q1")
        case True
        then show ?thesis using False type k1 o1(2) by (auto simp: d out_of_memory_def last_reason_def)
      next
        case oom: False
        from Cons.IH [OF o1(1,3,2) ns1, of False] show ?thesis
          using False type oom overlay_keeps_trans [OF k1] by (auto simp: d)
      qed
    next
      case True
      let ?e = "rg_entries reg1 ! n"
      have "overlay_ready env ?e" using o1(3,4) n by simp
      moreover have "en_type_id ?e = DMI_TYPE_ID_ADDITIONAL_INFO"
        using o1(4,7) n type by (metis nth_map)
      ultimately obtain info where info: "en_info ?e = Some info" "map_option sp_type (en_spec ?e) = Some (re_additional env)"
        using o1(8) True by (auto simp: overlay_ready_def)
      obtain r reg2 q2 where l: "overlay_entries (re_strict env) (re_overlay_mem env n) (re_types env) (en_handle ?e) q1
          (reg1\<lparr>rg_entries := (rg_entries reg1)[n := ?e]\<rparr>) success 0 (re_entries env info) = (r, reg2, q2)" by (metis prod_cases3)
      then have "overlay_entries (re_strict env) (re_overlay_mem env n) (re_types env) (en_handle ?e) q1 reg1 success 0 (re_entries env info) = (r, reg2, q2)"
        by simp
      from overlay_entries_outcome [OF o1(1,3,2) this] have
        o2: "overlay_keeps env reg1 reg2" "queue_wf q2" "r = None \<longrightarrow> last_reason q2 = Some DMI_ERROR_OUT_OF_MEMORY" by auto
      note k2 = overlay_keeps_trans [OF k1 o2(1)]
      have step: "overlay_loop env q reg success (n # ns) =
          (case r of None \<Rightarrow> Some (None, reg2, q2) | Some success \<Rightarrow> overlay_loop env q2 reg2 success ns)"
        using type True entity_info_some [OF info(2,1), of "re_types env" q1] l by (simp add: d split: option.splits)
      show ?thesis
      proof (cases r)
        case None
        then show ?thesis using step k2 o2(2,3) by simp
      next
        case (Some s)
        have "registry_wf reg2" "\<forall>e\<in>set (rg_entries reg2). overlay_ready env e" "\<forall>m\<in>set ns. m < length (rg_entries reg2)"
          using k2 Cons.prems(4) overlay_keeps_length [OF k2] by (simp_all add: overlay_keeps_def)
        from Cons.IH [OF this(1,2) o2(2) this(3), of s] show ?thesis
          using step Some overlay_keeps_trans [OF k2] by auto
      qed
    qed
  qed
qed

lemma registry_overlay_outcome:
  assumes env: "handlers_contract (re_ops env)" "additional_typed env" and wf: "registry_wf reg"
    and ready: "\<forall>e\<in>set (rg_entries reg). overlay_ready env e" and q: "queue_wf q"
  shows "\<exists>ok reg' q'. dmi_registry_overlay module_at env q reg = Some (ok, reg', q') \<and> overlay_keeps env reg reg' \<and> queue_wf q' \<and>
    (\<not> ok \<longrightarrow> re_strict env \<or> last_reason q' = Some DMI_ERROR_OUT_OF_MEMORY)"
proof -
  have "\<forall>n\<in>set (visit_all module_at reg). n < length (rg_entries reg)" by (simp add: visit_all_upt)
  from overlay_loop_outcome [OF env wf ready q this, of True] show ?thesis
    by (auto simp: dmi_registry_overlay_def split: option.splits)
qed

section \<open>Linking\<close>

text \<open>
  What the linking of a structure may change: the information of structures and which of their strings
  count as used, not the states and not what a structure is decoded by.
\<close>

definition link_frame :: "'i dmi_registry \<Rightarrow> 'i dmi_registry \<Rightarrow> bool" where
  "link_frame reg reg' \<longleftrightarrow> reg' = reg\<lparr>rg_entries := rg_entries reg'\<rparr> \<and> registry_wf reg' \<and>
     list_all2 (\<lambda>e e'. same_structure e e' \<and> en_spec e' = en_spec e \<and> en_state e' = en_state e) (rg_entries reg) (rg_entries reg')"

definition link_fn_contract :: "'i dmi_link_fn \<Rightarrow> bool" where
  "link_fn_contract f \<longleftrightarrow> (\<forall>n reg q ok reg' q'. registry_wf reg \<longrightarrow> n < length (rg_entries reg) \<longrightarrow> f n reg q = (ok, reg', q') \<longrightarrow>
     link_frame reg reg' \<and> (queue_wf q \<longrightarrow> queue_wf q'))"

definition link_contract :: "'i dmi_link_ops \<Rightarrow> bool" where
  "link_contract ops \<longleftrightarrow> link_fn_contract (lk_attributes ops) \<and>
     (\<forall>spec f. lk_handler ops spec = Some f \<longrightarrow> link_fn_contract f) \<and>
     (\<forall>e e'. en_spec e' = en_spec e \<longrightarrow> lk_is_linkable ops e' = lk_is_linkable ops e)"

text \<open>What linking keeps, and that a structure once linked stays so.\<close>

definition link_kept :: "'i dmi_entity \<Rightarrow> 'i dmi_entity \<Rightarrow> bool" where
  "link_kept e e' \<longleftrightarrow> same_structure e e' \<and> en_spec e' = en_spec e \<and>
     dmi_entity_is_decoded e' = dmi_entity_is_decoded e \<and> (dmi_entity_is_linked e \<longrightarrow> dmi_entity_is_linked e')"

lemma link_kept_trans: "link_kept a b \<Longrightarrow> link_kept b c \<Longrightarrow> link_kept a c"
  using same_structure_trans [of a b c] by (simp add: link_kept_def)

definition link_keeps :: "'i dmi_registry \<Rightarrow> 'i dmi_registry \<Rightarrow> bool" where
  "link_keeps reg reg' \<longleftrightarrow> registry_wf reg' \<and> rg_status reg' = rg_status reg \<and>
     list_all2 link_kept (rg_entries reg) (rg_entries reg')"

lemma link_keeps_trans: "link_keeps a b \<Longrightarrow> link_keeps b c \<Longrightarrow> link_keeps a c"
  unfolding link_keeps_def using list_all2_trans [of link_kept link_kept link_kept] link_kept_trans by metis

lemma link_keeps_refl: "registry_wf reg \<Longrightarrow> link_keeps reg reg"
  by (simp add: link_keeps_def link_kept_def list_all2_conv_all_nth)

lemma link_frame_keeps:
  assumes "link_frame reg reg'"
  shows "link_keeps reg reg'"
proof -
  have "rg_status reg' = rg_status reg"
    using assms unfolding link_frame_def by (metis dmi_registry.select_convs(5) dmi_registry.surjective dmi_registry.update_convs(4))
  moreover have "list_all2 link_kept (rg_entries reg) (rg_entries reg')"
    using assms unfolding link_frame_def
    by (auto elim!: list_all2_mono simp: link_kept_def dmi_entity_is_decoded_def dmi_entity_is_linked_def)
  ultimately show ?thesis using assms by (simp add: link_keeps_def link_frame_def)
qed

lemma link_keeps_nth:
  assumes "link_keeps reg reg'" and "n < length (rg_entries reg)"
  shows "n < length (rg_entries reg')" and "link_kept (rg_entries reg ! n) (rg_entries reg' ! n)"
  using assms by (auto simp: link_keeps_def list_all2_conv_all_nth)

lemma is_linked_or: "dmi_entity_is_linked (e\<lparr>en_state := en_state e OR DMI_ENTITY_STATE_LINKED\<rparr>)"
proof -
  have "bit ((en_state e OR DMI_ENTITY_STATE_LINKED) AND DMI_ENTITY_STATE_LINKED) 1"
    by (simp add: bit_simps DMI_ENTITY_STATE_LINKED_def)
  then show ?thesis by (metis dmi_entity_is_linked_def dmi_entity.select_convs(13) dmi_entity.surjective dmi_entity.update_convs(13) bit_0_eq bot_apply bot_bool_def)
qed

lemma linked_or_decoded:
  "dmi_entity_is_decoded (e\<lparr>en_state := en_state e OR DMI_ENTITY_STATE_LINKED\<rparr>) = dmi_entity_is_decoded e"
  by (simp add: dmi_entity_is_decoded_def DMI_ENTITY_STATE_LINKED_def DMI_ENTITY_STATE_DECODED_def word_ao_dist)

lemma link_fn_run:
  assumes "link_fn_contract f" and "registry_wf reg" and "n < length (rg_entries reg)" and "queue_wf q"
    and "f n reg q = (ok, reg', q')"
  shows "link_frame reg reg'" and "queue_wf q'"
  using assms unfolding link_fn_contract_def by metis+

lemma linkable_spec: "link_contract ops \<Longrightarrow> en_spec e' = en_spec e \<Longrightarrow> lk_is_linkable ops e' = lk_is_linkable ops e"
  unfolding link_contract_def by blast

lemma entity_link_outcome:
  assumes contract: "link_contract ops" and wf: "registry_wf reg" and n: "n < length (rg_entries reg)" and q: "queue_wf q"
    and linkable: "lk_is_linkable ops (rg_entries reg ! n)" and run: "dmi_entity_link ops q reg n = (ok, reg', q')"
  shows "link_keeps reg reg' \<and> queue_wf q' \<and> (ok \<longleftrightarrow> dmi_entity_is_linked (rg_entries reg' ! n) \<and> ok) \<and>
    (\<not> ok \<longrightarrow> last_reason q' = Some DMI_ERROR_ENTITY_LINK_FAILED)"
proof (cases "dmi_entity_is_linked (rg_entries reg ! n)")
  case True
  then show ?thesis using run linkable q link_keeps_refl [OF wf] by (auto simp: dmi_entity_link_def)
next
  case False
  obtain s1 reg1 q1 where a: "lk_attributes ops n reg q = (s1, reg1, q1)" by (metis prod_cases3)
  have c1: "link_fn_contract (lk_attributes ops)" using contract by (simp add: link_contract_def)
  have f1: "link_frame reg reg1" "queue_wf q1"
    using link_fn_run [OF c1 wf n q a] by blast+
  note k1 = link_frame_keeps [OF f1(1)]
  have n1: "n < length (rg_entries reg1)" by (rule link_keeps_nth [OF k1 n])
  have wf1: "registry_wf reg1" using k1 by (simp add: link_keeps_def)
  define handler where "handler = (case en_spec (rg_entries reg1 ! n) of None \<Rightarrow> None | Some spec \<Rightarrow> lk_handler ops spec)"
  obtain s2 reg2 q2 where b: "(case handler of None \<Rightarrow> (s1, reg1, q1)
      | Some link \<Rightarrow> (case link n reg1 q1 of (ok, reg, q) \<Rightarrow> (if \<not> ok then False else s1, reg, q))) = (s2, reg2, q2)"
    by (rule prod_cases3)
  have k2: "link_keeps reg1 reg2 \<and> queue_wf q2"
  proof (cases handler)
    case None
    then show ?thesis using b f1(2) link_keeps_refl [OF wf1] by simp
  next
    case (Some link)
    then have c: "link_fn_contract link" using contract by (auto simp: handler_def link_contract_def split: option.splits)
    obtain ok reg3 q3 where "link n reg1 q1 = (ok, reg3, q3)" by (metis prod_cases3)
    then have l: "link n reg1 q1 = (ok, reg3, q3)" .
    note f2 = link_fn_run [OF c wf1 n1 f1(2) l]
    have "reg2 = reg3 \<and> q2 = q3" using b by (simp add: Some l)
    then show ?thesis using link_frame_keeps [OF f2(1)] f2(2) by simp
  qed
  have k12: "link_keeps reg reg2" using link_keeps_trans [OF k1] k2 by blast
  have n2: "n < length (rg_entries reg2)" by (rule link_keeps_nth [OF k12 n])
  let ?e = "rg_entries reg2 ! n"
  let ?e' = "?e\<lparr>en_state := en_state ?e OR DMI_ENTITY_STATE_LINKED\<rparr>"
  let ?reg3 = "reg2\<lparr>rg_entries := (rg_entries reg2)[n := ?e']\<rparr>"
  have run': "(ok, reg', q') = (if \<not> s2 then (False, reg2, raise_error q2 DMI_ERROR_ENTITY_LINK_FAILED) else (True, ?reg3, q2))"
    using run linkable False b by (cases s2) (simp_all add: dmi_entity_link_def a handler_def Let_def)
  have wf2: "registry_wf reg2" using k2 by (simp add: link_keeps_def)
  have "registry_wf ?reg3"
    by (rule registry_update_wf [OF wf2 n2]) (use registry_wf_count [OF wf2 n2] in simp_all)
  moreover have "link_kept ?e ?e'" by (simp add: link_kept_def linked_or_decoded is_linked_or)
  ultimately have "link_keeps reg2 ?reg3"
    using n2 by (auto simp: link_keeps_def list_all2_conv_all_nth nth_list_update link_kept_def)
  then have k3: "link_keeps reg ?reg3" by (rule link_keeps_trans [OF k12])
  show ?thesis
    using run' k12 k3 k2 n2 is_linked_or [of ?e] by (cases s2) auto
qed

lemma link_loop_outcome:
  assumes contract: "link_contract ops"
  shows "registry_wf reg \<Longrightarrow> queue_wf q \<Longrightarrow> \<forall>n\<in>set ns. n < length (rg_entries reg) \<Longrightarrow>
    link_loop ops q reg success ns = (s, reg', q') \<Longrightarrow>
    link_keeps reg reg' \<and> queue_wf q' \<and> (s \<longrightarrow> success \<and>
      (\<forall>n\<in>set ns. lk_is_linkable ops (rg_entries reg ! n) \<longrightarrow> dmi_entity_is_decoded (rg_entries reg ! n) \<longrightarrow>
        dmi_entity_is_linked (rg_entries reg' ! n)))"
proof (induction ns arbitrary: q reg success)
  case Nil
  then show ?case using link_keeps_refl by auto
next
  case (Cons n ns)
  note wf = Cons.prems(1) and q = Cons.prems(2)
  have n: "n < length (rg_entries reg)" using Cons.prems(3) by simp
  show ?case
  proof (cases "lk_is_linkable ops (rg_entries reg ! n) \<and> dmi_entity_is_decoded (rg_entries reg ! n)")
    case False
    then have "link_loop ops q reg success ns = (s, reg', q')" using Cons.prems(4) by (auto split: if_splits)
    from Cons.IH [OF wf q _ this] show ?thesis using Cons.prems(3) False by auto
  next
    case True
    obtain ok reg1 q1 where l: "dmi_entity_link ops q reg n = (ok, reg1, q1)" by (metis prod_cases3)
    from entity_link_outcome [OF contract wf n q _ l] True have
      o1: "link_keeps reg reg1" "queue_wf q1" "ok \<Longrightarrow> dmi_entity_is_linked (rg_entries reg1 ! n)" by auto
    have wf1: "registry_wf reg1" and len: "length (rg_entries reg1) = length (rg_entries reg)"
      using o1(1) by (auto simp: link_keeps_def dest: list_all2_lengthD)
    have ns: "\<forall>m\<in>set ns. m < length (rg_entries reg1)" using Cons.prems(3) len by simp
    have "link_loop ops q1 reg1 (ok \<and> success) ns = (s, reg', q')"
      using Cons.prems(4) True by (cases ok) (simp_all add: l)
    note ih = Cons.IH [OF wf1 o1(2) ns this]
    have o2: "link_keeps reg1 reg'" "queue_wf q'" by (rule ih [THEN conjunct1], rule ih [THEN conjunct2, THEN conjunct1])
    have all: "(ok \<and> success) \<and> (\<forall>n\<in>set ns. lk_is_linkable ops (rg_entries reg1 ! n) \<longrightarrow>
        dmi_entity_is_decoded (rg_entries reg1 ! n) \<longrightarrow> dmi_entity_is_linked (rg_entries reg' ! n))" if s
      by (rule mp [OF ih [THEN conjunct2, THEN conjunct2] that])
    have same: "lk_is_linkable ops (rg_entries reg1 ! m) = lk_is_linkable ops (rg_entries reg ! m) \<and>
        dmi_entity_is_decoded (rg_entries reg1 ! m) = dmi_entity_is_decoded (rg_entries reg ! m)" if "m < length (rg_entries reg)" for m
      using link_keeps_nth(2) [OF o1(1) that] linkable_spec [OF contract] unfolding link_kept_def by blast
    have "s \<Longrightarrow> dmi_entity_is_linked (rg_entries reg' ! n)"
      using all o1(3) link_keeps_nth(2) [OF o2(1), of n] n len by (simp add: link_kept_def)
    then show ?thesis using link_keeps_trans [OF o1(1) o2(1)] o2(2) all same Cons.prems(3) by simp
  qed
qed

section \<open>Properties\<close>

lemma laid_out_stop: "laid_out b 0 es stop \<Longrightarrow> stop \<le> length (buffer_bytes b)"
proof (cases es rule: rev_cases)
  case (snoc xs e)
  assume "laid_out b 0 es stop"
  then show ?thesis using entity_in_buffer_fields(3) [of e] by (auto simp: snoc laid_out_snoc)
qed simp

lemma status_bits: "DMI_REGISTRY_STATUS_TRUNCATED AND DMI_REGISTRY_STATUS_SCANNED = 0"
  "(w OR DMI_REGISTRY_STATUS_SCANNED) AND DMI_REGISTRY_STATUS_SCANNED \<noteq> 0"
  "(w OR DMI_REGISTRY_STATUS_SCANNED) AND DMI_REGISTRY_STATUS_TRUNCATED = w AND DMI_REGISTRY_STATUS_TRUNCATED"
proof -
  have "bit ((w OR DMI_REGISTRY_STATUS_SCANNED) AND DMI_REGISTRY_STATUS_SCANNED) 0"
    by (simp add: bit_simps DMI_REGISTRY_STATUS_SCANNED_def)
  then show "(w OR DMI_REGISTRY_STATUS_SCANNED) AND DMI_REGISTRY_STATUS_SCANNED \<noteq> 0" by (metis bit_0_eq bot_apply bot_bool_def)
qed (simp_all add: DMI_REGISTRY_STATUS_TRUNCATED_def DMI_REGISTRY_STATUS_SCANNED_def word_ao_dist)

lemma registry_scan_result:
  assumes table: "buffer_wf table" and reg: "registry_wf reg" "rg_entries reg = []" "rg_status reg = 0" and q: "queue_wf q"
    and run: "dmi_registry_scan strict limit mem put_mem table q reg = (ok, reg', q')"
  shows "scan_result strict limit ((\<forall>i j. mem i j) \<and> (\<forall>i. put_mem i)) table 0 ok
      (reg'\<lparr>rg_status := rg_status reg' AND DMI_REGISTRY_STATUS_TRUNCATED\<rparr>)" and "queue_wf q'"
    and "ok \<Longrightarrow> rg_count reg' = length (rg_entries reg') \<and> rg_status reg' AND DMI_REGISTRY_STATUS_SCANNED \<noteq> 0"
proof -
  obtain ok1 reg1 count q1 where loop: "scan_loop strict limit mem put_mem table q reg 0 0 0 = (ok1, reg1, count, q1)"
    by (metis prod_cases4)
  have o1: "scan_result strict limit ((\<forall>i j. mem i j) \<and> (\<forall>i. put_mem i)) table 0 ok1 reg1 \<and> queue_wf q1 \<and>
      count = length (rg_entries reg1)"
    using scan_loop_outcome [OF loop table reg(1) _ q] reg by simp
  have status: "rg_status reg1 AND DMI_REGISTRY_STATUS_TRUNCATED = rg_status reg1"
    using o1 by (auto simp: scan_result_def split: if_splits)
  have res: "(ok, reg', q') = (if ok1 then (True, reg1\<lparr>rg_count := count, rg_status := rg_status reg1 OR DMI_REGISTRY_STATUS_SCANNED\<rparr>, q1)
      else (False, reg1, q1))"
    using run by (cases ok1) (simp_all add: dmi_registry_scan_def reg loop)
  show "queue_wf q'" using res o1 by (cases ok1) simp_all
  show "ok \<Longrightarrow> rg_count reg' = length (rg_entries reg') \<and> rg_status reg' AND DMI_REGISTRY_STATUS_SCANNED \<noteq> 0"
    using res o1 status_bits(2) by (cases ok1) simp_all
  show "scan_result strict limit ((\<forall>i j. mem i j) \<and> (\<forall>i. put_mem i)) table 0 ok
      (reg'\<lparr>rg_status := rg_status reg' AND DMI_REGISTRY_STATUS_TRUNCATED\<rparr>)"
    using res o1 status by (cases ok1) (simp_all add: scan_result_def status_bits(3))
qed

lemma scan_loop_status:
  "scan_loop strict limit mem put_mem table q reg offset index count = (ok, reg', count', q') \<Longrightarrow>
    rg_status reg' = rg_status reg \<or> rg_status reg' = rg_status reg OR DMI_REGISTRY_STATUS_TRUNCATED"
proof (induction strict limit mem put_mem table q reg offset index count rule: scan_loop.induct)
  case (1 strict limit mem put_mem table q reg offset index count)
  have put: "rg_status reg1 = rg_status reg" if "dmi_registry_put m q1 reg e = (b, reg1, q2)" for m q1 e b reg1 q2
    using that by (auto simp: dmi_registry_put_def Let_def split: if_splits prod.splits bool.splits)
  from 1(2) show ?case
  proof (cases rule: scan_loop_cases)
    case (go e q1 reg1 q2)
    have long: "\<not> unat (buf_length table) - offset < 4 + 2"
      using go(2) by (auto simp: dmi_entity_create_def Let_def split: if_splits)
    from 1(1) [OF _ long go(2) [symmetric] refl go(3) [symmetric] refl refl refl go(4) go(5) [symmetric]] go(1) put [OF go(3)]
    show ?thesis by simp
  qed (auto dest: put)
qed

lemma scan_status:
  assumes "rg_status reg = 0" and "dmi_registry_scan strict limit mem put_mem table q reg = (ok, reg', q')"
  shows "rg_status reg' AND DMI_REGISTRY_STATUS_DECODED = 0"
proof -
  obtain ok1 reg1 count q1 where loop: "scan_loop strict limit mem put_mem table q reg 0 0 0 = (ok1, reg1, count, q1)"
    by (metis prod_cases4)
  have "rg_status reg1 = 0 \<or> rg_status reg1 = DMI_REGISTRY_STATUS_TRUNCATED" using scan_loop_status [OF loop] assms(1) by simp
  then show ?thesis
    using assms by (auto simp: dmi_registry_scan_def loop DMI_REGISTRY_STATUS_TRUNCATED_def DMI_REGISTRY_STATUS_DECODED_def
        DMI_REGISTRY_STATUS_SCANNED_def word_ao_dist split: bool.splits)
qed

text \<open>
  C2. Scanning a table registers structures which lie in it one after the other from its start, each of them
  whole, whatever the bytes of the table are, whatever the entry point says of their number and
  wherever memory runs out; the marker of the end is the last of them if it is among them, there are no more than
  the entry point tells, and the lists of the hash table are those of the handles. When the scan
  succeeds, the structures have been counted.
\<close>

theorem registry_scan_sound:
  assumes "buffer_wf table" and "queue_wf q" and "dmi_registry_create m q0 capacity = (Some reg, q1)"
    and "dmi_registry_scan strict limit mem put_mem table q reg = (ok, reg', q')"
  shows "\<exists>stop. laid_out table 0 (rg_entries reg') stop \<and> stop \<le> length (buffer_bytes table) \<and> registry_wf reg' \<and>
    (\<forall>e\<in>set (butlast (rg_entries reg')). en_type_id e \<noteq> DMI_TYPE_ID_END_OF_TABLE) \<and>
    (limit \<noteq> 0 \<longrightarrow> length (rg_entries reg') \<le> limit) \<and> queue_wf q' \<and>
    (ok \<longrightarrow> rg_count reg' = length (rg_entries reg') \<and> rg_status reg' AND DMI_REGISTRY_STATUS_SCANNED \<noteq> 0)"
proof -
  note c = registry_create_wf [OF assms(3)]
  note r = registry_scan_result [OF assms(1) c(1-3) assms(2,4)]
  show ?thesis using r laid_out_stop by (auto simp: scan_result_def)
qed

lemma example_registry: "dmi_registry_create (\<lambda>i. True) empty_queue 0 =
    (Some (\<lparr>rg_capacity = 64, rg_count = 0, rg_index = replicate 64 [], rg_entries = [], rg_status = 0\<rparr> :: nat dmi_registry), empty_queue)"
  by (simp add: dmi_registry_create_def DMI_REGISTRY_CAPACITY_def)

theorem registry_scan_sound_witness:
  "\<exists>reg reg' :: nat dmi_registry. \<exists>ok q' stop.
    dmi_registry_create (\<lambda>i. True) empty_queue 0 = (Some reg, empty_queue) \<and>
    dmi_registry_scan True 0 (\<lambda>i j. True) (\<lambda>i. True) example_table empty_queue reg = (ok, reg', q') \<and>
    laid_out example_table 0 (rg_entries reg') stop \<and> stop \<le> 18"
proof -
  obtain reg :: "nat dmi_registry" where reg: "dmi_registry_create (\<lambda>i. True) empty_queue 0 = (Some reg, empty_queue)"
    using example_registry by blast
  obtain ok reg' q' where run: "dmi_registry_scan True 0 (\<lambda>i j. True) (\<lambda>i. True) example_table empty_queue reg = (ok, reg', q')"
    by (metis prod_cases3)
  from registry_scan_sound [OF example_table_wf queue_wf_empty reg run] show ?thesis
    using reg run by (auto simp: example_table_bytes)
qed

text \<open>
  C22. With memory to be had, where and how a scan ends depends on the table alone: it goes on to the
  marker of the end or to the number of structures told by the entry point, unless the bytes it has come to
  are no structure; then the table is taken as truncated, and only in strict mode a structure whose header
  declares an impossible length makes the scan fail.
\<close>

theorem registry_scan_decides:
  assumes "buffer_wf table" and "queue_wf q" and "dmi_registry_create m q0 capacity = (Some reg, q1)"
    and "\<forall>i j. mem i j" and "\<forall>i. put_mem i"
    and "dmi_registry_scan strict limit mem put_mem table q reg = (ok, reg', q')"
  shows "if scan_complete limit (rg_entries reg') then ok \<and> rg_status reg' AND DMI_REGISTRY_STATUS_TRUNCATED = 0
    else \<exists>stop reason. laid_out table 0 (rg_entries reg') stop \<and>
      entity_fault (drop stop (buffer_bytes table)) = Some reason \<and>
      ok = (reason = DMI_ERROR_ENTITY_TRUNCATED \<or> \<not> strict) \<and>
      (ok \<longrightarrow> rg_status reg' AND DMI_REGISTRY_STATUS_TRUNCATED \<noteq> 0)"
proof -
  note c = registry_create_wf [OF assms(3)]
  note r = registry_scan_result(1) [OF assms(1) c(1-3) assms(2,6)]
  have "DMI_REGISTRY_STATUS_TRUNCATED \<noteq> 0" by (simp add: DMI_REGISTRY_STATUS_TRUNCATED_def)
  then show ?thesis using r assms(4,5) by (auto simp: scan_result_def split: if_splits option.splits)
qed

theorem registry_scan_decides_witness:
  "\<exists>reg reg' :: nat dmi_registry. \<exists>q'.
    dmi_registry_create (\<lambda>i. True) empty_queue 0 = (Some reg, empty_queue) \<and>
    dmi_registry_scan False 1 (\<lambda>i j. True) (\<lambda>i. True) example_table empty_queue reg = (True, reg', q')"
proof -
  obtain reg :: "nat dmi_registry" where reg: "dmi_registry_create (\<lambda>i. True) empty_queue 0 = (Some reg, empty_queue)"
    using example_registry by blast
  obtain ok reg' q' where run: "dmi_registry_scan False 1 (\<lambda>i j. True) (\<lambda>i. True) example_table empty_queue reg = (ok, reg', q')"
    by (metis prod_cases3)
  from registry_scan_decides [OF example_table_wf queue_wf_empty reg _ _ run] have ok by (auto split: if_splits)
  with reg run show ?thesis by auto
qed

text \<open>
  C6. Looking a handle up finds the first structure of the table which has it, and gives it if it is of
  the type asked for, through the hash table and whatever the handle; structures registered later never hide one,
  the two handles which stand for no reference are never found, and a lookup which
  fails says so unless it is optional. It changes nothing but which strings count as used.
\<close>

theorem registry_lookup_first:
  assumes "registry_wf reg" and "queue_wf q"
    and "dmi_registry_lookup strict type_map q reg handle type optional = (r, reg', q')"
  shows "r = lookup_spec type_map (rg_entries reg) handle type \<and> registry_marked reg reg' \<and> registry_wf reg' \<and> queue_wf q' \<and>
    (case lookup_error strict type_map (rg_entries reg) handle type optional of
       None \<Rightarrow> True | Some reason \<Rightarrow> r = None \<and> last_reason q' = Some reason) \<and>
    (\<forall>e mem q1 reg1 q2. en_string_count e = length (en_strings e) \<longrightarrow> dmi_registry_put mem q1 reg e = (True, reg1, q2) \<longrightarrow>
       registry_wf reg1 \<and>
       (\<forall>n. find_handle reg handle = Some n \<longrightarrow> find_handle reg1 handle = Some n) \<and>
       find_handle reg1 (en_handle e) =
         Some (case find_handle reg (en_handle e) of None \<Rightarrow> length (rg_entries reg) | Some n \<Rightarrow> n))"
proof (intro conjI allI impI)
  note o1 = lookup_outcome [OF assms(1,3)]
  show "r = lookup_spec type_map (rg_entries reg) handle type" "registry_marked reg reg'" "registry_wf reg'" by (rule o1)+
  show "queue_wf q'" by (rule o1(4) [OF assms(2)])
  show "case lookup_error strict type_map (rg_entries reg) handle type optional of
       None \<Rightarrow> True | Some reason \<Rightarrow> r = None \<and> last_reason q' = Some reason"
    using o1(1) o1(5) [OF assms(2)]
    by (auto simp: lookup_error_def lookup_spec_def split: option.splits if_splits)
next
  fix e and mem q1 reg1 q2
  assume count: "en_string_count e = length (en_strings e)" and put: "dmi_registry_put mem q1 reg e = (True, reg1, q2)"
  then have "put_counted reg e = Some reg1"
    by (auto simp: put_counted_def dmi_registry_put_def Let_def split: if_splits prod.splits bool.splits
        dest!: put_walk_outcome)
  note p = this
  show "registry_wf reg1" by (rule registry_put_some [OF assms(1) put count])
  show "find_handle reg1 handle = Some n" if "find_handle reg handle = Some n" for n
    by (rule reg.insert_keeps [OF assms(1) p that])
  show "find_handle reg1 (en_handle e) = Some (case find_handle reg (en_handle e) of None \<Rightarrow> length (rg_entries reg) | Some n \<Rightarrow> n)"
    using reg.insert_finds [OF assms(1) p] by (simp split: option.splits)
qed

text \<open>A registry of one structure, for the witnesses.\<close>

lemma example_one:
  obtains e reg where "dmi_entity_create (\<lambda>i. True) empty_queue example_table 0 = (Some (e :: nat dmi_entity), empty_queue)"
    and "registry_wf reg" and "rg_entries reg = [e]" and "rg_status reg = 0" and "en_handle e = 0x1234"
    and "entity_in_buffer e" and "fresh_entity e" and "en_type_id e = 1"
proof -
  obtain e :: "nat dmi_entity" where e: "dmi_entity_create (\<lambda>i. True) empty_queue example_table 0 = (Some e, empty_queue)"
    using example_table_created by blast
  note c = entity_create_some [OF example_table_wf e]
  obtain reg0 :: "nat dmi_registry" where reg0: "dmi_registry_create (\<lambda>i. True) empty_queue 0 = (Some reg0, empty_queue)"
    using example_registry by blast
  note r = registry_create_wf [OF reg0]
  obtain ok reg q where put: "dmi_registry_put True empty_queue reg0 e = (ok, reg, q)" by (metis prod_cases3)
  have ok using registry_put_outcome(1) [OF r(1) put] r(2) by simp
  with put have put: "dmi_registry_put True empty_queue reg0 e = (True, reg, q)" by simp
  have count: "en_string_count e = length (en_strings e)" by (rule entity_in_buffer_fields(1) [OF c(2)])
  note p = registry_put_some [OF r(1) put count]
  have "en_handle e = 0x1234"
    using c(2,3,4) by (auto simp: entity_in_buffer_def example_table_bytes load_word_def)
  then show thesis
    using that [OF e p(1)] p(2,3) r c(2) created_fresh [OF example_table_wf e] example_table_entity(2) [OF e] by simp
qed

theorem registry_lookup_first_witness:
  "\<exists>reg reg' :: nat dmi_registry. \<exists>q'. length (rg_entries reg) = 1 \<and>
    dmi_registry_lookup True (\<lambda>t. [None]) empty_queue reg 0x1234 None False = (Some 0, reg', q')"
proof -
  obtain e and reg :: "nat dmi_registry" where reg: "registry_wf reg" "rg_entries reg = [e]" "en_handle e = 0x1234"
    using example_one by metis
  obtain r reg' q' where run: "dmi_registry_lookup True (\<lambda>t. [None]) empty_queue reg 0x1234 None False = (r, reg', q')"
    by (metis prod_cases3)
  have "r = Some 0"
    using registry_lookup_first [OF reg(1) queue_wf_empty run] reg(2,3)
    by (simp add: lookup_spec_def DMI_HANDLE_INVALID_def DMI_HANDLE_UNSUPPORTED_def)
  with run reg(2) show ?thesis by (intro exI [of _ reg] exI [of _ reg'] exI [of _ q']) simp
qed

text \<open>
  C9. Resolving a reference succeeds with nothing for a handle which stands for no reference, with the
  first structure of the handle if it is of one of the types asked for, and with nothing too, but only
  outside strict mode, if the handle is zero and that structure is of another type; otherwise it
  fails, and says why.
\<close>

theorem registry_resolve_correct:
  assumes "registry_wf reg" and "queue_wf q" and "dmi_registry_resolve_any strict type_map q reg handle types = (r, reg', q')"
  shows "r = resolve_spec strict type_map (rg_entries reg) handle types \<and> registry_marked reg reg' \<and> registry_wf reg' \<and> queue_wf q' \<and>
    (fst r \<or> last_reason q' \<in> {Some DMI_ERROR_ARGUMENT_INVALID, Some DMI_ERROR_ENTITY_NOT_FOUND, Some DMI_ERROR_ENTITY_TYPE_INVALID}) \<and>
    (\<forall>n. snd r = Some n \<longrightarrow> n < length (rg_entries reg) \<and> en_handle (rg_entries reg ! n) = handle)"
proof -
  have "n < length (rg_entries reg) \<and> en_handle (rg_entries reg ! n) = handle"
    if "snd (resolve_spec strict type_map (rg_entries reg) handle types) = Some n" for n
    using that by (auto simp: resolve_spec_def find_Some_iff split: if_splits option.splits)
  then show ?thesis using resolve_any_outcome [OF assms(1,3)] assms(2) by blast
qed

theorem registry_resolve_correct_witness:
  "\<exists>reg reg' :: nat dmi_registry. \<exists>q'. length (rg_entries reg) = 1 \<and>
    dmi_registry_resolve_any False (\<lambda>t. [None]) empty_queue reg 7 (Some [3]) = ((False, None), reg', q')"
proof -
  obtain e and reg :: "nat dmi_registry" where reg: "registry_wf reg" "rg_entries reg = [e]" "en_handle e = 0x1234"
    using example_one by metis
  obtain r reg' q' where run: "dmi_registry_resolve_any False (\<lambda>t. [None]) empty_queue reg 7 (Some [3]) = (r, reg', q')"
    by (metis prod_cases3)
  have "r = (False, None)"
    using registry_resolve_correct [OF reg(1) queue_wf_empty run] reg(2,3)
    by (simp add: resolve_spec_def DMI_HANDLE_INVALID_def DMI_HANDLE_UNSUPPORTED_def)
  with run reg(2) show ?thesis by (intro exI [of _ reg] exI [of _ reg'] exI [of _ q']) simp
qed

text \<open>
  An iterator comes to the structures its filter matches, to each of them once and in the order of
  the table, and tells beforehand whether there is another one; once it has told that there is none, it
  stays so.
\<close>

theorem registry_iterates_matching:
  "iter_visits module_at reg (dmi_registry_iter_initialize f) =
     filter (iter_matches module_at reg f) [0..<length (rg_entries reg)] \<and>
   dmi_registry_iter_has_next module_at reg it = (fst (dmi_registry_iter_next module_at reg it) \<noteq> None) \<and>
   (case dmi_registry_iter_next module_at reg it of
      (Some n, it') \<Rightarrow> iter_visits module_at reg it = n # iter_visits module_at reg it'
    | (None, it') \<Rightarrow> iter_visits module_at reg it = [] \<and> dmi_registry_iter_next module_at reg it' = (None, it') \<and>
        \<not> dmi_registry_iter_has_next module_at reg it')"
proof (intro conjI)
  show "iter_visits module_at reg (dmi_registry_iter_initialize f) =
     filter (iter_matches module_at reg f) [0..<length (rg_entries reg)]"
    by (simp add: iter_next_visits dmi_registry_iter_initialize_def)
  show "dmi_registry_iter_has_next module_at reg it = (fst (dmi_registry_iter_next module_at reg it) \<noteq> None)"
    by (simp add: dmi_registry_iter_has_next_def dmi_registry_iter_next_def Let_def)
  show "case dmi_registry_iter_next module_at reg it of
      (Some n, it') \<Rightarrow> iter_visits module_at reg it = n # iter_visits module_at reg it'
    | (None, it') \<Rightarrow> iter_visits module_at reg it = [] \<and> dmi_registry_iter_next module_at reg it' = (None, it') \<and>
        \<not> dmi_registry_iter_has_next module_at reg it'"
    by (auto simp: iter_visits.simps [of module_at reg it] dmi_registry_iter_has_next_def dmi_registry_iter_next_def Let_def
        split: prod.splits option.splits if_splits)
qed

text \<open>
  C10. A table which has been scanned is read to the end, whatever its bytes: additional information is laid
  over the structures it names, never reading information there is none of, and then every
  structure is decoded, or left without information if it cannot be, so long as memory lasts; only in
  strict mode does a structure which cannot be decoded make this fail.
\<close>

theorem registry_read_total:
  assumes "handlers_contract (re_ops env)" and "additional_typed env" and "buffer_wf table" and "queue_wf q"
    and "dmi_registry_create m q0 capacity = (Some reg, q1)"
    and "dmi_registry_scan strict limit mem put_mem table q reg = (ok, reg', q')"
  shows "\<exists>ok2 reg2 q2. dmi_registry_overlay module_at env q' reg' = Some (ok2, reg2, q2) \<and>
    (\<not> ok2 \<longrightarrow> re_strict env \<or> last_reason q2 = Some DMI_ERROR_OUT_OF_MEMORY) \<and>
    map en_handle (rg_entries reg2) = map en_handle (rg_entries reg') \<and>
    (case dmi_registry_decode module_at env q2 reg2 of (ok3, reg3, q3) \<Rightarrow>
       registry_wf reg3 \<and> queue_wf q3 \<and> list_all2 same_structure (rg_entries reg2) (rg_entries reg3) \<and>
       (if ok3 then
          list_all2 (\<lambda>e e'. \<exists>ok. (re_strict env \<longrightarrow> ok) \<and> entry_decoded (re_types env) e ok e') (rg_entries reg2) (rg_entries reg3)
        else last_reason q3 = Some DMI_ERROR_OUT_OF_MEMORY \<or>
          re_strict env \<and> (\<exists>n < length (rg_entries reg2). entry_decoded (re_types env) (rg_entries reg2 ! n) False (rg_entries reg3 ! n))))"
proof -
  note c = registry_create_wf [OF assms(5)]
  note r = registry_scan_result [OF assms(3) c(1-3) assms(4,6)]
  from r(1) obtain stop where laid: "laid_out table 0 (rg_entries reg') stop" and wf: "registry_wf reg'"
    by (auto simp: scan_result_def)
  have ready: "\<forall>e\<in>set (rg_entries reg'). overlay_ready env e"
    using laid_out_bounds [OF laid]
    by (auto simp: overlay_ready_def entity_ready_def fresh_entity_def dmi_entity_is_decoded_def)
  have "rg_status reg' AND DMI_REGISTRY_STATUS_DECODED = 0"
    using scan_status [OF c(3) assms(6)] .
  from registry_overlay_outcome [OF assms(1,2) wf ready r(2), of module_at] this obtain ok2 reg2 q2 where
    o2: "dmi_registry_overlay module_at env q' reg' = Some (ok2, reg2, q2)" "overlay_keeps env reg' reg2" "queue_wf q2"
      "\<not> ok2 \<longrightarrow> re_strict env \<or> last_reason q2 = Some DMI_ERROR_OUT_OF_MEMORY"
      "rg_status reg2 AND DMI_REGISTRY_STATUS_DECODED = 0" by (auto simp: overlay_keeps_def)
  obtain ok3 reg3 q3 where d: "dmi_registry_decode module_at env q2 reg2 = (ok3, reg3, q3)" by (metis prod_cases3)
  have "registry_wf reg2" "\<forall>e\<in>set (rg_entries reg2). entity_ready e" "map en_handle (rg_entries reg2) = map en_handle (rg_entries reg')"
    using o2(2) by (auto simp: overlay_keeps_def overlay_ready_def)
  with registry_decode_outcome [OF assms(1) this(1) o2(3) this(2) o2(5) d] o2 d show ?thesis by (auto split: if_splits)
qed

definition example_env :: "nat dmi_registry_env" where
  "example_env =
    \<lparr>re_strict = False, re_ops = example_ops, re_mem = (\<lambda>n i. True), re_heap = (\<lambda>n. None), re_addr = (\<lambda>n. n + 1),
     re_types = (\<lambda>t. [Some example_spec, None, None, None]), re_overlay_mem = (\<lambda>n i. True),
     re_additional = sp_type example_spec, re_entries = (\<lambda>i. [])\<rparr>"

theorem registry_read_total_witness:
  "\<exists>reg reg' reg2 :: nat dmi_registry. \<exists>ok ok2 q' q2.
    dmi_registry_create (\<lambda>i. True) empty_queue 0 = (Some reg, empty_queue) \<and>
    dmi_registry_scan False 0 (\<lambda>i j. True) (\<lambda>i. True) example_table empty_queue reg = (ok, reg', q') \<and>
    dmi_registry_overlay (\<lambda>p. example_module 1 '''' []) example_env q' reg' = Some (ok2, reg2, q2)"
proof -
  obtain reg :: "nat dmi_registry" where reg: "dmi_registry_create (\<lambda>i. True) empty_queue 0 = (Some reg, empty_queue)"
    using example_registry by blast
  obtain ok reg' q' where run: "dmi_registry_scan False 0 (\<lambda>i j. True) (\<lambda>i. True) example_table empty_queue reg = (ok, reg', q')"
    by (metis prod_cases3)
  have ops: "handlers_contract (re_ops example_env)" by (simp add: example_env_def example_ops_contract)
  have "additional_typed example_env" by (auto simp: additional_typed_def example_env_def example_spec_def)
  from registry_read_total [OF ops this example_table_wf queue_wf_empty reg run, of "\<lambda>p. example_module 1 '''' []"] show ?thesis
    using reg run by blast
qed



end
