(* ===== verification/Field_Model.thy ===== *)
theory Field_Model
  imports Encoder
begin

text \<open>
  The declarative description of a structure (\<^verbatim>\<open>include/opendmi/field.h\<close>,
  \<^verbatim>\<open>src/field-internal.h\<close>, \<^verbatim>\<open>src/field.c\<close>): lists of fields, what their parameters mean, and
  how the value of a field is stored into a member of the decoded structure and loaded from it.

  The decoded structure is memory: every address holds a byte or a part of a pointer, members are
  ranges of addresses, and the elements of an array are a block of their own behind the
  addresses given out before, filled with zeros. A pointer to data remembers the buffer and the place it
  points to, along with the bytes there, and a pointer to a structure its position in the registry. Handlers are named by a number, as the code names them by
  their address, and what a number stands for is a parameter. The fields of a structure, of an element
  or of a vector are part of their field rather than of its parameters. An assertion of the code
  which cannot be followed, e.g. that a structure has a member, is a failure.
\<close>

section \<open>Memory of a decoded structure\<close>

datatype dmi_pointer =
    Pointer_string dmi_string_ref
  | Pointer_data nat nat "byte list"
  | Pointer_elements nat
  | Pointer_entity nat

datatype dmi_cell = Byte byte | Part dmi_pointer nat

record dmi_memory =
  mm_cells :: "nat \<Rightarrow> dmi_cell"
  mm_next :: nat

definition mem_load :: "dmi_memory \<Rightarrow> nat \<Rightarrow> nat \<Rightarrow> dmi_cell list" where
  "mem_load m a n = map (mm_cells m) [a..<a + n]"

definition mem_store :: "dmi_memory \<Rightarrow> nat \<Rightarrow> dmi_cell list \<Rightarrow> dmi_memory" where
  "mem_store m a cs = m\<lparr>mm_cells := (\<lambda>i. if a \<le> i \<and> i < a + length cs then cs ! (i - a) else mm_cells m i)\<rparr>"

primrec cell_byte :: "dmi_cell \<Rightarrow> byte" where
  "cell_byte (Byte b) = b"
| "cell_byte (Part p i) = 0"

text \<open>A pointer takes eight bytes, and a null pointer is bytes of zero.\<close>

definition pointer_cells :: "dmi_pointer option \<Rightarrow> dmi_cell list" where
  "pointer_cells p = (case p of None \<Rightarrow> replicate 8 (Byte 0) | Some p \<Rightarrow> map (Part p) [0..<8])"

definition load_pointer :: "dmi_memory \<Rightarrow> nat \<Rightarrow> dmi_pointer option" where
  "load_pointer m a =
    (case mm_cells m a of
       Byte b \<Rightarrow> None
     | Part p i \<Rightarrow> if mem_load m a 8 = pointer_cells (Some p) then Some p else None)"

record dmi_binary =
  bn_data :: "dmi_pointer option"
  bn_length :: size_t

definition binary_cells :: "dmi_binary \<Rightarrow> dmi_cell list" where
  "binary_cells b = pointer_cells (bn_data b) @ map Byte (store_word 8 (bn_length b))"

definition load_size :: "dmi_memory \<Rightarrow> nat \<Rightarrow> size_t" where
  "load_size m a = load_word (map cell_byte (mem_load m a 8))"

definition store_size :: "dmi_memory \<Rightarrow> nat \<Rightarrow> size_t \<Rightarrow> dmi_memory" where
  "store_size m a n = mem_store m a (map Byte (store_word 8 n))"

definition load_binary :: "dmi_memory \<Rightarrow> nat \<Rightarrow> dmi_binary" where
  "load_binary m a = \<lparr>bn_data = load_pointer m a, bn_length = load_size m (a + 8)\<rparr>"

definition binary_bytes :: "dmi_binary \<Rightarrow> byte list" where
  "binary_bytes b = (case bn_data b of Some (Pointer_data i p bs) \<Rightarrow> take (unat (bn_length b)) bs | _ \<Rightarrow> [])"

definition dmi_alloc_array :: "(nat \<Rightarrow> bool) \<Rightarrow> dmi_error_queue \<Rightarrow> dmi_memory \<Rightarrow> nat \<Rightarrow> size_t \<Rightarrow> nat option \<times> dmi_memory \<times> dmi_error_queue" where
  "dmi_alloc_array room q m size' count =
    (if (size' \<noteq> 0 \<and> unat count > unat SIZE_MAX div size') \<or> \<not> room (size' * unat count)
     then (None, m, raise_error q DMI_ERROR_OUT_OF_MEMORY)
     else (Some (mm_next m), mem_store m (mm_next m) (replicate (size' * unat count) (Byte 0))
             \<lparr>mm_next := mm_next m + size' * unat count\<rparr>, q))"

section \<open>Fields\<close>

datatype dmi_field_type =
    DMI_FIELD_TYPE_INTEGER
  | DMI_FIELD_TYPE_STRING
  | DMI_FIELD_TYPE_BCD
  | DMI_FIELD_TYPE_BINARY
  | DMI_FIELD_TYPE_UUID
  | DMI_FIELD_TYPE_STRUCT
  | DMI_FIELD_TYPE_ARRAY
  | DMI_FIELD_TYPE_VECTOR
  | DMI_FIELD_TYPE_BITS
  | DMI_FIELD_TYPE_PAD
  | DMI_FIELD_TYPE_GROUP
  | DMI_FIELD_TYPE_OFFSET
  | DMI_FIELD_TYPE_PRESET
  | DMI_FIELD_TYPE_SKIP

record dmi_member_ref =
  mr_offset :: nat
  mr_size :: nat

definition DMI_MEMBER_NULL :: dmi_member_ref where
  "DMI_MEMBER_NULL = \<lparr>mr_offset = 0, mr_size = 0\<rparr>"

definition dmi_member_is_present :: "dmi_member_ref \<Rightarrow> bool" where
  "dmi_member_is_present member \<longleftrightarrow> mr_size member \<noteq> 0"

definition DMI_VERSION_NONE :: dmi_version_t where "DMI_VERSION_NONE = 0"
definition DMI_FIELD_LENGTH_REST :: size_t where "DMI_FIELD_LENGTH_REST = SIZE_MAX"
definition DMI_FIELD_LENGTH_MEMBER :: size_t where "DMI_FIELD_LENGTH_MEMBER = SIZE_MAX - 1"
definition UINTMAX_MAX :: uintmax_t where "UINTMAX_MAX = - 1"

record dmi_field_params =
  fp_since :: dmi_version_t
  fp_present :: dmi_member_ref
  fp_from :: dmi_version_t
  fp_before :: dmi_version_t
  fp_absent :: "dmi_cell list option"
  fp_offset :: size_t
  fp_unknown_raw :: uintmax_t
  fp_when_raw :: uintmax_t
  fp_when :: dmi_member_ref
  fp_bits :: nat
  fp_length :: size_t
  fp_count_length :: size_t
  fp_count_member :: dmi_member_ref
  fp_stride :: size_t
  fp_stride_length :: size_t
  fp_stride_minimum :: size_t
  fp_stride_member :: dmi_member_ref
  fp_count :: nat
  fp_counter :: dmi_member_ref
  fp_decode :: "nat option"
  fp_encode :: "nat option"
  fp_extended :: bool

datatype dmi_field =
  Dmi_field (fd_member: dmi_member_ref) (fd_type: dmi_field_type) (fd_params: dmi_field_params) (fd_fields: "dmi_field list")

text \<open>\<open>da_reported\<close> tells whether there is a structure to report a value against.\<close>

record dmi_field_data =
  da_reported :: bool
  da_number :: uintmax_t
  da_string :: "dmi_string_ref option"
  da_binary :: dmi_binary

definition blank_data :: "bool \<Rightarrow> dmi_field_data" where
  "blank_data reported =
    \<lparr>da_reported = reported, da_number = 0, da_string = None, da_binary = \<lparr>bn_data = None, bn_length = 0\<rparr>\<rparr>"

text \<open>
  What the engine is given: the handlers by their numbers, which fill in the value at an address and
  read it from there, what there is memory for, the fields a specification lists, the types of the
  context and the version its entry point declares.
\<close>

record dmi_field_env =
  fe_decode :: "nat \<Rightarrow> dmi_field \<Rightarrow> dmi_field_data \<Rightarrow> dmi_memory \<Rightarrow> nat \<Rightarrow> bool \<times> dmi_memory"
  fe_encode :: "nat \<Rightarrow> dmi_field \<Rightarrow> dmi_memory \<Rightarrow> nat \<Rightarrow> dmi_field_data option"
  fe_room :: "nat \<Rightarrow> bool"
  fe_fields :: "dmi_entity_spec \<Rightarrow> dmi_field list"
  fe_types :: dmi_type_map
  fe_version :: dmi_version_t

definition dmi_field_is_defined :: "dmi_field \<Rightarrow> dmi_version_t \<Rightarrow> bool" where
  "dmi_field_is_defined field version =
    (if fp_from (fd_params field) \<noteq> DMI_VERSION_NONE \<and> version < fp_from (fd_params field) then False
     else if fp_before (fd_params field) \<noteq> DMI_VERSION_NONE \<and> version \<ge> fp_before (fd_params field) then False
     else True)"

definition dmi_field_is_numeric :: "dmi_field \<Rightarrow> bool" where
  "dmi_field_is_numeric field \<longleftrightarrow> fd_type field \<noteq> DMI_FIELD_TYPE_STRING \<and> fd_type field \<noteq> DMI_FIELD_TYPE_BINARY"

definition dmi_field_array_is_skipped :: "dmi_field \<Rightarrow> size_t \<Rightarrow> bool" where
  "dmi_field_array_is_skipped field stride \<longleftrightarrow>
     fp_stride_minimum (fd_params field) \<noteq> 0 \<and> stride < fp_stride_minimum (fd_params field)"

definition dmi_field_member_max :: "dmi_member_ref \<Rightarrow> uintmax_t" where
  "dmi_field_member_max member =
    (if mr_size member \<ge> 8 then UINTMAX_MAX else push_bit (mr_size member * 8) 1 - 1)"

fun le_load_loop :: "nat \<Rightarrow> uintmax_t \<Rightarrow> byte list \<Rightarrow> uintmax_t" where
  "le_load_loop i number [] = number"
| "le_load_loop i number (b # bs) = le_load_loop (i + 1) (number OR push_bit (i * 8) (ucast b)) bs"

definition dmi_field_le_load :: "byte list \<Rightarrow> uintmax_t" where
  "dmi_field_le_load bs = le_load_loop 0 0 bs"

definition dmi_field_le_store :: "nat \<Rightarrow> uintmax_t \<Rightarrow> byte list" where
  "dmi_field_le_store length' number = map (\<lambda>i. ucast (drop_bit (i * 8) number AND 0xFF)) [0..<length']"

section \<open>Members the extended fields are keyed on\<close>

record dmi_field_choice =
  fc_offset :: nat
  fc_when_raw :: uintmax_t
  fc_raw :: uintmax_t
  fc_extended :: bool

definition DMI_FIELD_CHOICE_MAX :: nat where "DMI_FIELD_CHOICE_MAX = 8"

definition dmi_field_when_offset :: "dmi_field \<Rightarrow> nat" where
  "dmi_field_when_offset field =
    (if dmi_member_is_present (fp_when (fd_params field)) then mr_offset (fp_when (fd_params field))
     else mr_offset (fd_member field))"

text \<open>A choice is found as its index.\<close>

fun choice_find_from :: "nat \<Rightarrow> dmi_field_choice list \<Rightarrow> nat \<Rightarrow> nat option" where
  "choice_find_from i [] offset = None"
| "choice_find_from i (c # cs) offset = (if fc_offset c = offset then Some i else choice_find_from (i + 1) cs offset)"

definition dmi_field_choice_find :: "dmi_field_choice list \<Rightarrow> nat \<Rightarrow> nat option" where
  "dmi_field_choice_find choices offset = choice_find_from 0 choices offset"

fun dmi_field_choices_collect :: "dmi_field list \<Rightarrow> dmi_field_choice list \<Rightarrow> dmi_field_choice list" where
  "dmi_field_choices_collect [] choices = choices"
| "dmi_field_choices_collect (field # fs) choices =
    (if \<not> fp_extended (fd_params field) then dmi_field_choices_collect fs choices
     else
       let offset = dmi_field_when_offset field
       in if dmi_field_choice_find choices offset \<noteq> None then dmi_field_choices_collect fs choices
          else if length choices < DMI_FIELD_CHOICE_MAX
          then dmi_field_choices_collect fs
            (choices @ [\<lparr>fc_offset = offset, fc_when_raw = fp_when_raw (fd_params field), fc_raw = 0, fc_extended = False\<rparr>])
          else dmi_field_choices_collect fs choices)"

section \<open>Storing and loading\<close>

text \<open>The errors of an invalid argument are raised on no context here, so the queue does not see them.\<close>

definition dmi_field_store_member :: "dmi_member_ref \<Rightarrow> dmi_memory \<Rightarrow> nat option \<Rightarrow> uintmax_t \<Rightarrow> bool \<times> dmi_memory" where
  "dmi_field_store_member member m value' raw =
    (case value' of
       None \<Rightarrow> (True, m)
     | Some a \<Rightarrow>
         if mr_size member = 1 then (True, mem_store m a (map Byte (store_word 1 (ucast raw :: 8 word))))
         else if mr_size member = 2 then (True, mem_store m a (map Byte (store_word 2 (ucast raw :: 16 word))))
         else if mr_size member = 4 then (True, mem_store m a (map Byte (store_word 4 (ucast raw :: 32 word))))
         else if mr_size member = 8 then (True, mem_store m a (map Byte (store_word 8 raw)))
         else (False, m))"

definition dmi_field_store :: "dmi_field \<Rightarrow> dmi_memory \<Rightarrow> nat option \<Rightarrow> uintmax_t \<Rightarrow> bool \<times> dmi_memory" where
  "dmi_field_store field m value' raw = dmi_field_store_member (fd_member field) m value' raw"

definition dmi_field_load_member :: "dmi_member_ref \<Rightarrow> dmi_memory \<Rightarrow> nat \<Rightarrow> uintmax_t" where
  "dmi_field_load_member member m a =
    (if mr_size member = 1 then ucast (load_word (map cell_byte (mem_load m a 1)) :: 8 word)
     else if mr_size member = 2 then ucast (load_word (map cell_byte (mem_load m a 2)) :: 16 word)
     else if mr_size member = 4 then ucast (load_word (map cell_byte (mem_load m a 4)) :: 32 word)
     else if mr_size member = 8 then load_word (map cell_byte (mem_load m a 8))
     else 0)"

definition dmi_field_get :: "dmi_field \<Rightarrow> dmi_memory \<Rightarrow> nat \<Rightarrow> uintmax_t" where
  "dmi_field_get field m a = dmi_field_load_member (fd_member field) m a"

definition dmi_field_set :: "dmi_field \<Rightarrow> dmi_memory \<Rightarrow> nat option \<Rightarrow> uintmax_t \<Rightarrow> bool \<times> dmi_memory" where
  "dmi_field_set field m value' number = dmi_field_store field m value' number"

definition dmi_field_apply ::
    "dmi_field_env \<Rightarrow> dmi_field \<Rightarrow> dmi_field_data \<Rightarrow> dmi_memory \<Rightarrow> nat option \<Rightarrow> bool \<times> dmi_memory" where
  "dmi_field_apply env field data m value' =
    (case value' of
       None \<Rightarrow> (True, m)
     | Some a \<Rightarrow>
         if fp_unknown_raw (fd_params field) \<noteq> 0 \<and> da_number data = fp_unknown_raw (fd_params field) \<and> dmi_field_is_numeric field
         then dmi_field_store field m value' UINTMAX_MAX
         else case fp_decode (fd_params field) of
           Some handler \<Rightarrow> fe_decode env handler field data m a
         | None \<Rightarrow>
             case fd_type field of
               DMI_FIELD_TYPE_STRING \<Rightarrow> (True, mem_store m a (pointer_cells (map_option Pointer_string (da_string data))))
             | DMI_FIELD_TYPE_BINARY \<Rightarrow> (True, mem_store m a (binary_cells (da_binary data)))
             | _ \<Rightarrow> dmi_field_store field m value' (da_number data))"

definition dmi_field_check_offset :: "dmi_error_queue \<Rightarrow> size_t \<Rightarrow> dmi_field \<Rightarrow> bool \<times> dmi_error_queue" where
  "dmi_field_check_offset q position field =
    (if position = fp_offset (fd_params field) then (True, q) else (False, raise_error q DMI_ERROR_INTERNAL))"

section \<open>Releasing\<close>

text \<open>
  Freed elements stay in the memory, which nothing points to them any more; \<open>release\<close> is the
  releasing of the fields of an element.
\<close>

definition dmi_field_release_array :: "(nat \<Rightarrow> dmi_memory \<Rightarrow> dmi_memory) \<Rightarrow> dmi_member_ref \<Rightarrow> dmi_field_params \<Rightarrow> nat \<Rightarrow> dmi_memory \<Rightarrow> dmi_memory" where
  "dmi_field_release_array release member params info m =
    (case load_pointer m (info + mr_offset member) of
       Some (Pointer_elements elements) \<Rightarrow>
         let counter = info + mr_offset (fp_counter params);
             m = fold (\<lambda>i m. release (elements + i * mr_size member) m) [0..<unat (load_size m counter)] m
         in store_size (mem_store m (info + mr_offset member) (pointer_cells None)) counter 0
     | _ \<Rightarrow> m)"

fun dmi_field_release_list :: "dmi_field list \<Rightarrow> nat \<Rightarrow> dmi_memory \<Rightarrow> dmi_memory" where
  "dmi_field_release_list [] info m = m"
| "dmi_field_release_list (Dmi_field member type params nested # fs) info m =
    dmi_field_release_list fs info
      (case type of
         DMI_FIELD_TYPE_ARRAY \<Rightarrow> dmi_field_release_array (\<lambda>element m. dmi_field_release_list nested element m) member params info m
       | DMI_FIELD_TYPE_VECTOR \<Rightarrow>
           fold (\<lambda>i m. dmi_field_release_list nested (info + mr_offset member + i * mr_size member) m) [0..<fp_count params] m
       | DMI_FIELD_TYPE_STRUCT \<Rightarrow> dmi_field_release_list nested (info + mr_offset member) m
       | _ \<Rightarrow> m)"

definition dmi_fields_release :: "dmi_field_env \<Rightarrow> dmi_memory dmi_entity \<Rightarrow> dmi_memory dmi_entity" where
  "dmi_fields_release env e =
    (case (en_info e, en_spec e) of
       (Some m, Some spec) \<Rightarrow>
         if sp_has_fields spec then e\<lparr>en_info := Some (dmi_field_release_list (fe_fields env spec) 0 m)\<rparr> else e
     | _ \<Rightarrow> e)"

section \<open>Handlers of the engine\<close>

definition dmi_field_decode_kilobytes :: "dmi_field \<Rightarrow> dmi_field_data \<Rightarrow> dmi_memory \<Rightarrow> nat \<Rightarrow> bool \<times> dmi_memory" where
  "dmi_field_decode_kilobytes field data m a = dmi_field_set field m (Some a) (push_bit 10 (da_number data))"

definition dmi_field_decode_kilobytes_last :: "dmi_field \<Rightarrow> dmi_field_data \<Rightarrow> dmi_memory \<Rightarrow> nat \<Rightarrow> bool \<times> dmi_memory" where
  "dmi_field_decode_kilobytes_last field data m a = dmi_field_set field m (Some a) (push_bit 10 (da_number data) OR 0x3FF)"

definition dmi_field_encode_kilobytes :: "dmi_field \<Rightarrow> dmi_memory \<Rightarrow> nat \<Rightarrow> dmi_field_data option" where
  "dmi_field_encode_kilobytes field m a = Some ((blank_data False)\<lparr>da_number := drop_bit 10 (dmi_field_get field m a)\<rparr>)"

end
