(* ===== verification/Field_Decode.thy ===== *)
theory Field_Decode
  imports Field_Model
begin

text \<open>
  Reading the fields a specification lists (\<^verbatim>\<open>src/field-decode.c\<close>). The state holds the decoder,
  whose structure and reader are the ones of the code, the memory of the decoded structure and the
  queue of the context. Every function of the code is a definition here; the ones which read a
  list of nested fields are given the reading of that list, \<open>nested\<close>, and
  \<open>dmi_field_decode_list\<close> gives each field the reading of its own list, so the recursion of the
  code is one over the fields, which ends. A function which stores a value besides its status
  gives the value as an option.
\<close>

record dmi_field_state =
  fs_decoder :: "dmi_memory dmi_decoder"
  fs_memory :: dmi_memory
  fs_queue :: dmi_error_queue
  fs_optional :: bool
  fs_incomplete :: bool
  fs_bits_value :: uintmax_t
  fs_bits_count :: nat
  fs_bits_taken :: nat
  fs_version :: dmi_version_t
  fs_defined :: dmi_version_t
  fs_is_part :: bool

abbreviation fs_reader :: "dmi_field_state \<Rightarrow> dmi_reader" where
  "fs_reader st \<equiv> dc_reader (fs_decoder st)"

definition set_reader :: "dmi_field_state \<Rightarrow> dmi_reader \<Rightarrow> dmi_field_state" where
  "set_reader st r = st\<lparr>fs_decoder := (fs_decoder st)\<lparr>dc_reader := r\<rparr>\<rparr>"

definition fail_with :: "dmi_field_state \<Rightarrow> dmi_fault \<Rightarrow> dmi_field_state" where
  "fail_with st f = st\<lparr>fs_queue := raise_fault (fs_queue st) f\<rparr>"

text \<open>A read of the reader or of the decoder, whose value is \<open>None\<close> if it fails.\<close>

definition read_with :: "dmi_field_state \<Rightarrow> ('v \<times> dmi_memory dmi_decoder) result \<Rightarrow> 'v option \<times> dmi_field_state" where
  "read_with st outcome =
    (case outcome of
       Inl f \<Rightarrow> (None, fail_with st f)
     | Inr (v, d) \<Rightarrow> (Some v, st\<lparr>fs_decoder := d\<rparr>))"

definition skip_with :: "dmi_field_state \<Rightarrow> dmi_reader result \<Rightarrow> bool \<times> dmi_field_state" where
  "skip_with st outcome =
    (case outcome of
       Inl f \<Rightarrow> (False, fail_with st f)
     | Inr r \<Rightarrow> (True, set_reader st r))"

definition store_with :: "dmi_field_state \<Rightarrow> bool \<times> dmi_memory \<Rightarrow> bool \<times> dmi_field_state" where
  "store_with st outcome = (case outcome of (status, m) \<Rightarrow> (status, st\<lparr>fs_memory := m\<rparr>))"

definition dmi_field_stop :: "dmi_field_state \<Rightarrow> bool \<times> dmi_field_state" where
  "dmi_field_stop st = (True, if fs_is_part st then st else st\<lparr>fs_decoder := dmi_decoder_stop (fs_decoder st)\<rparr>)"

definition dmi_field_incomplete :: "dmi_field_state \<Rightarrow> bool \<times> dmi_field_state" where
  "dmi_field_incomplete st = (True, if fs_is_part st then st else st\<lparr>fs_decoder := dmi_decoder_incomplete (fs_decoder st)\<rparr>)"

definition dmi_field_read_number :: "dmi_field_state \<Rightarrow> size_t \<Rightarrow> uintmax_t option \<times> dmi_field_state" where
  "dmi_field_read_number st length' =
    (if length' = 0 \<or> length' > 8 then (None, st\<lparr>fs_queue := raise_error (fs_queue st) DMI_ERROR_ARGUMENT_INVALID\<rparr>)
     else case read_with st (dmi_decoder_get_bytes (fs_decoder st) length') of
       (None, st) \<Rightarrow> (None, st)
     | (Some bs, st) \<Rightarrow> (Some (dmi_field_le_load bs), st))"

definition dmi_field_read_bcd :: "dmi_field_state \<Rightarrow> dmi_field \<Rightarrow> uintmax_t option \<times> dmi_field_state" where
  "dmi_field_read_bcd st field =
    (let length' = fp_length (fd_params field); unknown = fp_unknown_raw (fd_params field)
     in if length' > 8 then (None, st\<lparr>fs_queue := raise_error (fs_queue st) DMI_ERROR_ARGUMENT_INVALID\<rparr>)
        else case dmi_field_read_number st length' of
          (None, st) \<Rightarrow> (None, st)
        | (Some raw, st) \<Rightarrow>
            if unknown \<noteq> 0 \<and> raw = unknown then (Some raw, st)
            else (Some (dmi_decode_bcd (dmi_field_le_store (unat length') raw)), st))"

text \<open>The bytes a reader refers to, with the place they are at.\<close>

definition binary_of :: "dmi_reader \<Rightarrow> byte list option \<times> size_t \<Rightarrow> dmi_binary" where
  "binary_of r v =
    \<lparr>bn_data = map_option (Pointer_data (buf_id (rd_buffer r)) (unat (rd_base r + rd_position r))) (fst v), bn_length = snd v\<rparr>"

definition dmi_field_read_binary ::
    "dmi_field_env \<Rightarrow> dmi_field_state \<Rightarrow> dmi_field \<Rightarrow> nat option \<Rightarrow> dmi_binary option \<times> dmi_field_state" where
  "dmi_field_read_binary env st field value' =
    (let declared = fp_length (fd_params field);
         length' = (if declared = DMI_FIELD_LENGTH_REST then dmi_reader_remaining (fs_reader st)
                    else if declared = DMI_FIELD_LENGTH_MEMBER
                    then (case value' of None \<Rightarrow> 0 | Some a \<Rightarrow> bn_length (load_binary (fs_memory st) a))
                    else declared)
     in if declared = DMI_FIELD_LENGTH_MEMBER \<and> length' > dmi_reader_remaining (fs_reader st)
        then
          let r = fs_reader st;
              (got, st) = read_with st (dmi_decoder_get_binary (fs_decoder st) (dmi_decoder_remaining (fs_decoder st)));
              data = (blank_data True)
                \<lparr>da_binary := (case got of None \<Rightarrow> \<lparr>bn_data = None, bn_length = 0\<rparr> | Some v \<Rightarrow> binary_of r v)\<rparr>;
              (status, m) = dmi_field_apply env field data (fs_memory st) value'
          in (None, st\<lparr>fs_memory := m, fs_incomplete := True\<rparr>)
        else
          let r = fs_reader st
          in case read_with st (dmi_decoder_get_binary (fs_decoder st) length') of
               (None, st) \<Rightarrow> (None, st)
             | (Some v, st) \<Rightarrow> (Some (binary_of r v), st))"

section \<open>Ranges of bits\<close>

function take_bits_fill :: "dmi_field_state \<Rightarrow> nat \<Rightarrow> bool \<times> dmi_field_state" where
  "take_bits_fill st bits =
    (if fs_bits_count st < bits
     then case read_with st (dmi_decoder_get (\<lambda>bs. load_word bs :: byte) (fs_decoder st) 1) of
       (None, st') \<Rightarrow> (False, st')
     | (Some data, st') \<Rightarrow>
         take_bits_fill (st'\<lparr>fs_bits_value := fs_bits_value st OR push_bit (fs_bits_count st) (ucast data),
           fs_bits_count := fs_bits_count st + 8\<rparr>) bits
     else (True, st))"
  by auto
termination
  by (relation "measure (\<lambda>(st, bits). bits - fs_bits_count st)") auto

declare take_bits_fill.simps [simp del]

definition dmi_field_take_bits :: "dmi_field_state \<Rightarrow> nat \<Rightarrow> uintmax_t option \<times> dmi_field_state" where
  "dmi_field_take_bits st bits =
    (case take_bits_fill st bits of
       (False, st) \<Rightarrow> (None, st)
     | (True, st) \<Rightarrow>
         (Some (fs_bits_value st AND (push_bit bits 1 - 1)),
          st\<lparr>fs_bits_value := drop_bit bits (fs_bits_value st), fs_bits_count := fs_bits_count st - bits,
             fs_bits_taken := fs_bits_taken st + bits\<rparr>))"

definition dmi_field_decode_bits :: "dmi_field_env \<Rightarrow> dmi_field_state \<Rightarrow> dmi_field \<Rightarrow> nat option \<Rightarrow> bool \<times> dmi_field_state" where
  "dmi_field_decode_bits env st field value' =
    (case dmi_field_take_bits st (fp_bits (fd_params field)) of
       (None, st) \<Rightarrow> (False, st)
     | (Some number, st) \<Rightarrow>
         store_with st (dmi_field_apply env field ((blank_data True)\<lparr>da_number := number\<rparr>) (fs_memory st) value'))"

definition dmi_field_decode_pad :: "dmi_field_state \<Rightarrow> dmi_field \<Rightarrow> bool \<times> dmi_field_state" where
  "dmi_field_decode_pad st field =
    (let unit' = fp_bits (fd_params field);
         taken = fs_bits_taken st mod unit';
         (status, st) =
           (if taken \<noteq> 0 then (case dmi_field_take_bits st (unit' - taken) of (reserved, st) \<Rightarrow> (reserved \<noteq> None, st))
            else (True, st))
     in if \<not> status then (False, st) else (True, st\<lparr>fs_bits_taken := 0\<rparr>))"

section \<open>Values\<close>

definition dmi_field_decode_value ::
    "dmi_field_env \<Rightarrow> dmi_field_state \<Rightarrow> dmi_field \<Rightarrow> nat option \<Rightarrow> uintmax_t option \<times> bool \<times> dmi_field_state" where
  "dmi_field_decode_value env st field value' =
    (let apply_data = (\<lambda>st data.
           case store_with st (dmi_field_apply env field data (fs_memory st) value') of
             (status, st) \<Rightarrow> (Some (da_number data), status, st))
     in case fd_type field of
       DMI_FIELD_TYPE_SKIP \<Rightarrow>
         (case skip_with st (dmi_reader_skip (fs_reader st) (fp_length (fd_params field))) of (status, st) \<Rightarrow> (None, status, st))
     | DMI_FIELD_TYPE_UUID \<Rightarrow>
         (case read_with st (dmi_decoder_get dmi_uuid_decode (fs_decoder st) 16) of
            (None, st) \<Rightarrow> (None, False, st)
          | (Some uuid, st) \<Rightarrow>
              (case value' of
                 None \<Rightarrow> (None, False, st)
               | Some a \<Rightarrow> (None, True, st\<lparr>fs_memory := mem_store (fs_memory st) a (map Byte uuid)\<rparr>)))
     | DMI_FIELD_TYPE_STRING \<Rightarrow>
         (case read_with st (dmi_decoder_get (\<lambda>bs. load_word bs :: byte) (fs_decoder st) 1) of
            (None, st) \<Rightarrow> (None, False, st)
          | (Some number, st) \<Rightarrow>
              (case dmi_entity_string_ex (fs_queue st) (dc_entity (fs_decoder st)) (unat number) False of
                 (string, e, q) \<Rightarrow>
                   apply_data (st\<lparr>fs_decoder := (fs_decoder st)\<lparr>dc_entity := e\<rparr>, fs_queue := q\<rparr>)
                     ((blank_data True)\<lparr>da_number := ucast number,
                        da_string := map_option (\<lambda>_. String_pretty (unat number - 1)) string\<rparr>)))
     | DMI_FIELD_TYPE_BCD \<Rightarrow>
         (case dmi_field_read_bcd st field of
            (None, st) \<Rightarrow> (None, False, st)
          | (Some number, st) \<Rightarrow> apply_data st ((blank_data True)\<lparr>da_number := number\<rparr>))
     | DMI_FIELD_TYPE_BINARY \<Rightarrow>
         (case dmi_field_read_binary env st field value' of
            (None, st) \<Rightarrow> (None, False, st)
          | (Some binary, st) \<Rightarrow> apply_data st ((blank_data True)\<lparr>da_binary := binary\<rparr>))
     | DMI_FIELD_TYPE_INTEGER \<Rightarrow>
         (case dmi_field_read_number st (fp_length (fd_params field)) of
            (None, st) \<Rightarrow> (None, False, st)
          | (Some number, st) \<Rightarrow> apply_data st ((blank_data True)\<lparr>da_number := number\<rparr>))
     | _ \<Rightarrow> (None, False, st))"

text \<open>
  The value read is \<open>None\<close> where the code leaves the variable of the caller as it is, which is zero
  or the value of an earlier field then.
\<close>

definition dmi_field_decode_extended ::
    "dmi_field_env \<Rightarrow> dmi_field_state \<Rightarrow> dmi_field \<Rightarrow> nat option \<Rightarrow> dmi_field_choice option \<Rightarrow> bool \<times> dmi_field_state" where
  "dmi_field_decode_extended env st field value' choice =
    (case dmi_field_decode_value env st field None of
       (raw, False, st) \<Rightarrow> (False, st)
     | (raw, True, st) \<Rightarrow>
         (case choice of
            None \<Rightarrow> (True, st)
          | Some c \<Rightarrow>
              if fc_raw c \<noteq> fp_when_raw (fd_params field) then (True, st)
              else store_with st (dmi_field_apply env field
                ((blank_data True)\<lparr>da_number := (case raw of None \<Rightarrow> 0 | Some n \<Rightarrow> n)\<rparr>) (fs_memory st) value')))"

section \<open>Vectors, arrays and lists\<close>

type_synonym dmi_field_reading = "nat \<Rightarrow> dmi_field_state \<Rightarrow> bool \<times> dmi_field_state"

definition dmi_field_decode_nested :: "dmi_field_reading \<Rightarrow> dmi_field_state \<Rightarrow> nat \<Rightarrow> bool \<times> dmi_field_state" where
  "dmi_field_decode_nested nested st info =
    (case nested info (st\<lparr>fs_optional := False\<rparr>) of
       (status, st') \<Rightarrow> (status, st'\<lparr>fs_optional := fs_optional st\<rparr>))"

primrec vector_loop :: "dmi_field_reading \<Rightarrow> nat \<Rightarrow> nat \<Rightarrow> nat \<Rightarrow> dmi_field_state \<Rightarrow> bool \<times> dmi_field_state" where
  "vector_loop nested value' size' 0 st = (True, st)"
| "vector_loop nested value' size' (Suc n) st =
    (case dmi_field_decode_nested nested st value' of
       (False, st) \<Rightarrow> (False, st)
     | (True, st) \<Rightarrow> vector_loop nested (value' + size') size' n st)"

definition dmi_field_decode_vector :: "dmi_field_reading \<Rightarrow> dmi_field_state \<Rightarrow> dmi_field \<Rightarrow> nat \<Rightarrow> bool \<times> dmi_field_state" where
  "dmi_field_decode_vector nested st field value' =
    vector_loop nested value' (mr_size (fd_member field)) (fp_count (fd_params field)) st"

definition dmi_field_decode_array_header ::
    "dmi_field_state \<Rightarrow> dmi_field \<Rightarrow> nat \<Rightarrow> (size_t \<times> size_t \<times> size_t) option \<times> dmi_field_state" where
  "dmi_field_decode_array_header st field info =
    (let params = fd_params field;
         remaining = dmi_reader_remaining (fs_reader st);
         (counted, st) =
           (if fp_count_length params = 0 then (Some (remaining div fp_stride params, remaining mod fp_stride params), st)
            else case dmi_field_read_number st (fp_count_length params) of
              (None, st) \<Rightarrow> (None, st)
            | (Some raw, st) \<Rightarrow> (Some (raw, 0), st))
     in case counted of
       None \<Rightarrow> (None, st)
     | Some (count, leftover) \<Rightarrow>
         let (stride, st) =
               (if fp_stride_length params = 0 then (Some (fp_stride params), st)
                else dmi_field_read_number st (fp_stride_length params))
         in case stride of
           None \<Rightarrow> (None, st)
         | Some stride \<Rightarrow>
             let store = (\<lambda>st member number.
                   if dmi_member_is_present member
                   then store_with st (dmi_field_store_member member (fs_memory st) (Some (info + mr_offset member)) number)
                   else (True, st))
             in case store st (fp_count_member params) count of
                  (False, st) \<Rightarrow> (None, st)
                | (True, st) \<Rightarrow>
                    (case store st (fp_stride_member params) stride of
                       (False, st) \<Rightarrow> (None, st)
                     | (True, st) \<Rightarrow> (Some (count, stride, leftover), st)))"

definition dmi_field_decode_element ::
    "dmi_field_reading \<Rightarrow> dmi_field_state \<Rightarrow> dmi_field \<Rightarrow> nat \<Rightarrow> size_t \<Rightarrow> bool \<times> dmi_field_state" where
  "dmi_field_decode_element nested st field element stride =
    (if stride \<noteq> 0 \<and> \<not> dmi_reader_has (fs_reader st) stride then (False, st\<lparr>fs_incomplete := True\<rparr>)
     else
       let start = dmi_reader_mark (fs_reader st)
       in case dmi_field_decode_nested nested st element of
         (False, st) \<Rightarrow>
           (False, st\<lparr>fs_memory := dmi_field_release_list (fd_fields field) element (fs_memory st),
                      fs_incomplete := dmi_reader_is_done (fs_reader st)\<rparr>)
       | (True, st) \<Rightarrow>
           if stride = 0 then (True, st)
           else case skip_with st (dmi_reader_skip_ex (fs_reader st) start stride) of
             (False, st) \<Rightarrow> (False, st\<lparr>fs_incomplete := True\<rparr>)
           | (True, st) \<Rightarrow> (True, st))"

text \<open>The loop over the elements, which counts the ones read in the counter of the array.\<close>

primrec elements_loop ::
    "dmi_field_reading \<Rightarrow> dmi_field \<Rightarrow> size_t \<Rightarrow> nat \<Rightarrow> nat \<Rightarrow> nat \<Rightarrow> dmi_field_state \<Rightarrow> bool \<times> dmi_field_state" where
  "elements_loop nested field stride counter element 0 st = (True, st)"
| "elements_loop nested field stride counter element (Suc n) st =
    (case dmi_field_decode_element nested st field element stride of
       (False, st) \<Rightarrow> (False, st)
     | (True, st) \<Rightarrow>
         elements_loop nested field stride counter (element + mr_size (fd_member field)) n
           (st\<lparr>fs_memory := store_size (fs_memory st) counter (load_size (fs_memory st) counter + 1)\<rparr>))"

definition dmi_field_decode_array ::
    "dmi_field_env \<Rightarrow> dmi_field_reading \<Rightarrow> dmi_field_state \<Rightarrow> dmi_field \<Rightarrow> nat \<Rightarrow> bool \<times> dmi_field_state" where
  "dmi_field_decode_array env nested st field info =
    (case dmi_field_decode_array_header st field info of
       (None, st) \<Rightarrow> (False, st)
     | (Some (count, stride, leftover), st) \<Rightarrow>
         let counter = info + mr_offset (fp_counter (fd_params field));
             st = st\<lparr>fs_memory := store_size (fs_memory st) counter 0\<rparr>
         in if count = 0 then (if leftover = 0 then (True, st) else dmi_field_incomplete st)
            else if dmi_field_array_is_skipped field stride
            then
              let length' = count * stride; remaining = dmi_reader_remaining (fs_reader st)
              in skip_with st (dmi_reader_skip (fs_reader st) (if length' < remaining then length' else remaining))
            else
              case dmi_alloc_array (fe_room env) (fs_queue st) (fs_memory st) (mr_size (fd_member field)) count of
                (elements, m, q) \<Rightarrow>
                  let m = mem_store m (info + mr_offset (fd_member field)) (pointer_cells (map_option Pointer_elements elements));
                      st = st\<lparr>fs_memory := m, fs_queue := q\<rparr>
                  in case elements of
                       None \<Rightarrow> (False, st)
                     | Some first \<Rightarrow>
                         (case elements_loop nested field stride counter first (unat count) st of
                            (False, st) \<Rightarrow> (False, st)
                          | (True, st) \<Rightarrow> if leftover = 0 then (True, st) else dmi_field_incomplete st))"

text \<open>The variable a plain field keeps the value it has read in is the choice of its member, if there is one.\<close>

definition dmi_field_decode_one ::
    "dmi_field_env \<Rightarrow> dmi_field_reading \<Rightarrow> dmi_field_state \<Rightarrow> dmi_field \<Rightarrow> nat \<Rightarrow> dmi_field_choice list
      \<Rightarrow> bool \<times> dmi_field_choice list \<times> dmi_field_state" where
  "dmi_field_decode_one env nested st field info choices =
    (let value' = (if dmi_member_is_present (fd_member field) then Some (info + mr_offset (fd_member field)) else None);
         keep = (\<lambda>(status, st). (status, choices, st))
     in case fd_type field of
       DMI_FIELD_TYPE_BITS \<Rightarrow> keep (dmi_field_decode_bits env st field value')
     | DMI_FIELD_TYPE_PAD \<Rightarrow> keep (dmi_field_decode_pad st field)
     | DMI_FIELD_TYPE_ARRAY \<Rightarrow> keep (dmi_field_decode_array env nested st field info)
     | DMI_FIELD_TYPE_VECTOR \<Rightarrow>
         (case value' of None \<Rightarrow> (False, choices, st) | Some a \<Rightarrow> keep (dmi_field_decode_vector nested st field a))
     | DMI_FIELD_TYPE_STRUCT \<Rightarrow>
         (case value' of None \<Rightarrow> (False, choices, st) | Some a \<Rightarrow> keep (dmi_field_decode_nested nested st a))
     | _ \<Rightarrow>
         let kept = dmi_field_choice_find choices (dmi_field_when_offset field)
         in if fp_extended (fd_params field)
            then keep (dmi_field_decode_extended env st field value' (map_option (\<lambda>i. choices ! i) kept))
            else
              case dmi_field_decode_value env st field value' of
                (raw, status, st) \<Rightarrow>
                  (status,
                   (case (kept, raw) of
                      (Some i, Some n) \<Rightarrow> choices[i := (choices ! i)\<lparr>fc_raw := n\<rparr>]
                    | _ \<Rightarrow> choices), st))"

definition dmi_field_group_read :: "dmi_field option \<Rightarrow> nat \<Rightarrow> dmi_field_state \<Rightarrow> bool \<times> dmi_field_state" where
  "dmi_field_group_read grp info st =
    (case grp of
       None \<Rightarrow> (True, st)
     | Some g \<Rightarrow>
         let present = fp_present (fd_params g)
         in if \<not> dmi_member_is_present present then (True, st)
            else store_with st (dmi_field_store_member present (fs_memory st) (Some (info + mr_offset present)) 1))"

fun set_absent :: "dmi_field list \<Rightarrow> nat \<Rightarrow> dmi_memory \<Rightarrow> dmi_memory" where
  "set_absent [] info m = m"
| "set_absent (field # fs) info m =
    set_absent fs info
      (case fp_absent (fd_params field) of
         Some cs \<Rightarrow>
           if dmi_member_is_present (fd_member field)
           then mem_store m (info + mr_offset (fd_member field)) (take (mr_size (fd_member field)) cs) else m
       | None \<Rightarrow> m)"

text \<open>The loop over the fields of a list, each with the reading of its own list.\<close>

fun fields_loop ::
    "dmi_field_env \<Rightarrow> (dmi_field \<times> dmi_field_reading) list \<Rightarrow> dmi_field option \<Rightarrow> dmi_field_choice list \<Rightarrow> dmi_field_reading" where
  "fields_loop env [] grp choices info st = dmi_field_group_read grp info st"
| "fields_loop env ((field, nested) # fs) grp choices info st =
    (if fd_type field = DMI_FIELD_TYPE_OFFSET
     then case dmi_field_check_offset (fs_queue st) (dmi_reader_tell (fs_reader st)) field of
       (status, q) \<Rightarrow>
         let st = st\<lparr>fs_queue := q\<rparr>
         in if \<not> status then (False, st) else fields_loop env fs grp choices info st
     else if fd_type field = DMI_FIELD_TYPE_PRESET then fields_loop env fs grp choices info st
     else if fd_type field = DMI_FIELD_TYPE_GROUP
     then case dmi_field_group_read grp info st of
       (False, st) \<Rightarrow> (False, st)
     | (True, st) \<Rightarrow>
         if dmi_reader_is_done (fs_reader st) then dmi_field_stop st
         else
           let since = fp_since (fd_params field);
               d = fs_decoder st;
               d = (if since \<noteq> DMI_VERSION_NONE then d\<lparr>dc_entity := (dc_entity d)\<lparr>en_level := since\<rparr>\<rparr> else d)
           in fields_loop env fs (Some field) choices info (st\<lparr>fs_decoder := d, fs_optional := True\<rparr>)
     else if \<not> dmi_field_is_defined field (fs_version st) then fields_loop env fs grp choices info st
     else case dmi_field_decode_one env nested st field info choices of
       (False, choices, st) \<Rightarrow>
         if fs_optional st \<or> fs_incomplete st then dmi_field_incomplete st else (False, st)
     | (True, choices, st) \<Rightarrow>
         fields_loop env fs grp choices info
           (if fp_from (fd_params field) > fs_defined st then st\<lparr>fs_defined := fp_from (fd_params field)\<rparr> else st))"

definition decode_list_with :: "dmi_field_env \<Rightarrow> (dmi_field \<times> dmi_field_reading) list \<Rightarrow> dmi_field_reading" where
  "decode_list_with env fs info st =
    fields_loop env fs None (dmi_field_choices_collect (map fst fs) []) info
      (st\<lparr>fs_memory := set_absent (map fst fs) info (fs_memory st)\<rparr>)"

lemma size_fields: "size_list size (fd_fields f) < size f"
  by (cases f) simp

lemma size_member: "f \<in> set fs \<Longrightarrow> size f \<le> size_list size (fs :: dmi_field list)"
  by (induction fs) auto

function dmi_field_decode_list :: "dmi_field_env \<Rightarrow> dmi_field list \<Rightarrow> dmi_field_reading" where
  "dmi_field_decode_list env fs = decode_list_with env (map (\<lambda>f. (f, dmi_field_decode_list env (fd_fields f))) fs)"
  by auto
termination
proof (relation "measure (\<lambda>(env, fs). size_list size fs)")
  fix env :: dmi_field_env and fs :: "dmi_field list" and f
  assume "f \<in> set fs"
  then show "((env, fd_fields f), env, fs) \<in> measure (\<lambda>(env, fs). size_list size fs)"
    using size_fields [of f] size_member [of f fs] by simp
qed simp

declare dmi_field_decode_list.simps [simp del]

section \<open>A whole structure, or a part of it\<close>

definition initial_state :: "dmi_field_env \<Rightarrow> bool \<Rightarrow> dmi_error_queue \<Rightarrow> dmi_memory dmi_decoder \<Rightarrow> dmi_memory \<Rightarrow> dmi_field_state" where
  "initial_state env is_part q d m =
    \<lparr>fs_decoder = d, fs_memory = m, fs_queue = q, fs_optional = False, fs_incomplete = False, fs_bits_value = 0,
     fs_bits_count = 0, fs_bits_taken = 0, fs_version = fe_version env, fs_defined = 0, fs_is_part = is_part\<rparr>"

definition dmi_fields_decode :: "dmi_field_env \<Rightarrow> dmi_memory dmi_entity_decode_fn" where
  "dmi_fields_decode env q d =
    (case en_spec (dc_entity d) of
       None \<Rightarrow> (False, d, raise_error q DMI_ERROR_STATE_INVALID)
     | Some spec \<Rightarrow>
         if \<not> sp_has_fields spec then (False, d, raise_error q DMI_ERROR_STATE_INVALID)
         else case dmi_entity_info (fe_types env) q (dc_entity d) (Some (sp_type spec)) of
           (None, e, q) \<Rightarrow> (False, d\<lparr>dc_entity := e\<rparr>, q)
         | (Some m, e, q) \<Rightarrow>
             case dmi_field_decode_list env (fe_fields env spec) 0 (initial_state env False q (d\<lparr>dc_entity := e\<rparr>) m) of
               (status, st) \<Rightarrow>
                 let e = (dc_entity (fs_decoder st))\<lparr>en_info := Some (fs_memory st)\<rparr>;
                     e = (if fs_defined st > en_level e then e\<lparr>en_level := fs_defined st\<rparr> else e)
                 in (status, (fs_decoder st)\<lparr>dc_entity := e\<rparr>, fs_queue st))"

text \<open>The part is read into the memory \<open>m\<close> at the address \<open>info\<close>.\<close>

definition dmi_fields_decode_into ::
    "dmi_field_env \<Rightarrow> dmi_error_queue \<Rightarrow> dmi_memory dmi_decoder \<Rightarrow> dmi_field list \<Rightarrow> size_t \<Rightarrow> dmi_memory \<Rightarrow> nat
      \<Rightarrow> bool \<times> dmi_memory dmi_decoder \<times> dmi_memory \<times> dmi_error_queue" where
  "dmi_fields_decode_into env q d fs length' m info =
    (let r = dc_reader d
     in if \<not> dmi_reader_has r length' then (False, d, m, q)
        else
          let start = dmi_reader_tell r;
              part = d\<lparr>dc_reader := r\<lparr>rd_length := start + length'\<rparr>\<rparr>
          in case dmi_field_decode_list env fs info (initial_state env True q part m) of
               (status, st) \<Rightarrow>
                 (status,
                  (fs_decoder st)\<lparr>dc_reader := (fs_reader st)\<lparr>rd_length := rd_length r, rd_position := start + length'\<rparr>\<rparr>,
                  fs_memory st, fs_queue st))"

end
