(* ===== verification/Field_Encode.thy ===== *)
theory Field_Encode
  imports Field_Decode
begin

text \<open>
  Writing the fields a specification lists (\<^verbatim>\<open>src/field-encode.c\<close>). The output holds the encoder and
  the queue of the context; what does not change while a structure is written, the memory of the decoded
  structure among it, is given to every definition. As in \<open>Field_Decode\<close>, a definition which writes
  nested fields is given the writing of their list, \<open>nested\<close>. Where the code tells a field from the
  others of its list by its address, it is told by its index.
\<close>

record dmi_field_output =
  fo_encoder :: "dmi_memory dmi_encoder"
  fo_queue :: dmi_error_queue
  fo_stopped :: bool
  fo_bits_value :: uintmax_t
  fo_bits_count :: nat
  fo_bits_taken :: nat
  fo_version :: dmi_version_t

record dmi_field_writing =
  fw_env :: dmi_field_env
  fw_heap :: heap
  fw_room :: "nat \<Rightarrow> bool"
  fw_memory :: dmi_memory

definition write_with :: "dmi_field_output \<Rightarrow> bool \<times> dmi_memory dmi_encoder \<times> dmi_error_queue \<Rightarrow> bool \<times> dmi_field_output" where
  "write_with out outcome = (case outcome of (status, ec, q) \<Rightarrow> (status, out\<lparr>fo_encoder := ec, fo_queue := q\<rparr>))"

definition put_bytes :: "dmi_field_writing \<Rightarrow> dmi_field_output \<Rightarrow> byte list \<Rightarrow> bool \<times> dmi_field_output" where
  "put_bytes w out bs = write_with out (dmi_encoder_put_bytes (fw_heap w) (fo_queue out) (fo_encoder out) bs)"

definition output_error :: "dmi_field_output \<Rightarrow> dmi_error_code \<Rightarrow> dmi_field_output" where
  "output_error out reason = out\<lparr>fo_queue := raise_error (fo_queue out) reason\<rparr>"

definition dmi_field_cannot_encode :: "dmi_field_output \<Rightarrow> bool \<times> dmi_field_output" where
  "dmi_field_cannot_encode out = (False, output_error out DMI_ERROR_STATE_INVALID)"

definition dmi_field_put_reserved :: "dmi_field_writing \<Rightarrow> dmi_field_output \<Rightarrow> size_t \<Rightarrow> bool \<times> dmi_field_output" where
  "dmi_field_put_reserved w out length' =
    write_with out (dmi_encoder_copy (fw_heap w) (fo_queue out) (fo_encoder out) (unat length'))"

definition dmi_field_put_raw :: "dmi_field_writing \<Rightarrow> dmi_field_output \<Rightarrow> size_t \<Rightarrow> uintmax_t \<Rightarrow> bool \<times> dmi_field_output" where
  "dmi_field_put_raw w out width raw =
    (if width = 0 \<or> width > 8 then (False, output_error out DMI_ERROR_ARGUMENT_INVALID)
     else put_bytes w out (dmi_field_le_store (unat width) raw))"

definition dmi_field_peek_raw :: "dmi_field_output \<Rightarrow> size_t \<Rightarrow> uintmax_t option \<times> dmi_field_output" where
  "dmi_field_peek_raw out width =
    (if width > 8 then (None, output_error out DMI_ERROR_ARGUMENT_INVALID)
     else case dmi_encoder_peek (fo_encoder out) width of
       Inl f \<Rightarrow> (None, out\<lparr>fo_queue := raise_fault (fo_queue out) f\<rparr>)
     | Inr data \<Rightarrow> (Some (dmi_field_le_load data), out))"

section \<open>Widths\<close>

definition dmi_field_width :: "dmi_field \<Rightarrow> size_t" where
  "dmi_field_width field =
    (case fd_type field of
       DMI_FIELD_TYPE_INTEGER \<Rightarrow> fp_length (fd_params field)
     | DMI_FIELD_TYPE_BCD \<Rightarrow> fp_length (fd_params field)
     | DMI_FIELD_TYPE_STRING \<Rightarrow> fp_length (fd_params field)
     | DMI_FIELD_TYPE_UUID \<Rightarrow> fp_length (fd_params field)
     | DMI_FIELD_TYPE_BINARY \<Rightarrow>
         if fp_length (fd_params field) = DMI_FIELD_LENGTH_REST \<or> fp_length (fd_params field) = DMI_FIELD_LENGTH_MEMBER
         then 0 else fp_length (fd_params field)
     | _ \<Rightarrow> 0)"

text \<open>The loop of \<open>dmi_fields_size\<close>, with its two sums.\<close>

fun fields_size_loop :: "size_t \<Rightarrow> size_t \<Rightarrow> dmi_field list \<Rightarrow> size_t" where
  "fields_size_loop size' bits [] = size'"
| "fields_size_loop size' bits (Dmi_field member type params nested # fs) =
    (case type of
       DMI_FIELD_TYPE_GROUP \<Rightarrow> fields_size_loop size' bits fs
     | DMI_FIELD_TYPE_OFFSET \<Rightarrow> fields_size_loop size' bits fs
     | DMI_FIELD_TYPE_PRESET \<Rightarrow> fields_size_loop size' bits fs
     | DMI_FIELD_TYPE_BITS \<Rightarrow> fields_size_loop size' (bits + of_nat (fp_bits params)) fs
     | DMI_FIELD_TYPE_PAD \<Rightarrow>
         (let unit' = of_nat (fp_bits params)
          in fields_size_loop (size' + (bits + unit' - 1) div unit' * (unit' div 8)) 0 fs)
     | DMI_FIELD_TYPE_SKIP \<Rightarrow> fields_size_loop (size' + fp_length params) bits fs
     | DMI_FIELD_TYPE_STRUCT \<Rightarrow>
         (let n = fields_size_loop 0 0 nested in if n = 0 then 0 else fields_size_loop (size' + n) bits fs)
     | DMI_FIELD_TYPE_VECTOR \<Rightarrow>
         (let n = fields_size_loop 0 0 nested
          in if n = 0 then 0 else fields_size_loop (size' + n * of_nat (fp_count params)) bits fs)
     | _ \<Rightarrow>
         (let width = dmi_field_width (Dmi_field member type params nested)
          in if width = 0 then 0 else fields_size_loop (size' + width) bits fs))"

definition dmi_fields_size :: "dmi_field list \<Rightarrow> size_t" where
  "dmi_fields_size fs = fields_size_loop 0 0 fs"

definition dmi_field_is_fixed :: "dmi_field \<Rightarrow> bool" where
  "dmi_field_is_fixed field =
    (case fd_type field of
       DMI_FIELD_TYPE_UUID \<Rightarrow> True
     | DMI_FIELD_TYPE_BCD \<Rightarrow> True
     | DMI_FIELD_TYPE_BINARY \<Rightarrow>
         fp_length (fd_params field) = DMI_FIELD_LENGTH_REST \<or> fp_length (fd_params field) = DMI_FIELD_LENGTH_MEMBER
     | _ \<Rightarrow> False)"

definition dmi_field_group_is_absent :: "dmi_field \<Rightarrow> dmi_memory \<Rightarrow> nat \<Rightarrow> bool" where
  "dmi_field_group_is_absent grp m info \<longleftrightarrow>
     dmi_member_is_present (fp_present (fd_params grp)) \<and>
     dmi_field_load_member (fp_present (fd_params grp)) m (info + mr_offset (fp_present (fd_params grp))) = 0"

definition dmi_field_governs :: "dmi_field list \<Rightarrow> dmi_field \<Rightarrow> nat \<Rightarrow> bool" where
  "dmi_field_governs fs field offset =
    (if mr_offset (fd_member field) = offset then False
     else list_ex (\<lambda>other. fp_extended (fd_params other) \<and> mr_offset (fd_member other) = mr_offset (fd_member field) \<and>
       dmi_field_when_offset other = offset) fs)"

section \<open>Bits\<close>

function put_bits_flush :: "dmi_field_writing \<Rightarrow> dmi_field_output \<Rightarrow> bool \<times> dmi_field_output" where
  "put_bits_flush w out =
    (if fo_bits_count out \<ge> 8
     then case put_bytes w out [ucast (fo_bits_value out AND 0xFF)] of
       (False, out') \<Rightarrow> (False, out')
     | (True, out') \<Rightarrow>
         put_bits_flush w (out'\<lparr>fo_bits_value := drop_bit 8 (fo_bits_value out), fo_bits_count := fo_bits_count out - 8\<rparr>)
     else (True, out))"
  by auto
termination
  by (relation "measure (\<lambda>(w, out). fo_bits_count out)") auto

declare put_bits_flush.simps [simp del]

definition dmi_field_put_bits :: "dmi_field_writing \<Rightarrow> dmi_field_output \<Rightarrow> uintmax_t \<Rightarrow> nat \<Rightarrow> bool \<times> dmi_field_output" where
  "dmi_field_put_bits w out raw bits =
    put_bits_flush w
      (out\<lparr>fo_bits_value := fo_bits_value out OR push_bit (fo_bits_count out) (raw AND (push_bit bits 1 - 1)),
           fo_bits_count := fo_bits_count out + bits, fo_bits_taken := fo_bits_taken out + bits\<rparr>)"

definition dmi_field_source_bits :: "dmi_field_output \<Rightarrow> nat \<Rightarrow> uintmax_t" where
  "dmi_field_source_bits out bits =
    (let length' = (fo_bits_count out + bits + 8 - 1) div 8
     in if length' > 8 then 0
        else case dmi_encoder_peek (fo_encoder out) (of_nat length') of
          Inl f \<Rightarrow> 0
        | Inr data \<Rightarrow> drop_bit (fo_bits_count out) (dmi_field_le_load data) AND (push_bit bits 1 - 1))"

definition dmi_field_encode_pad :: "dmi_field_writing \<Rightarrow> dmi_field_output \<Rightarrow> dmi_field \<Rightarrow> bool \<times> dmi_field_output" where
  "dmi_field_encode_pad w out field =
    (let unit' = fp_bits (fd_params field);
         taken = fo_bits_taken out mod unit';
         (status, out) =
           (if taken \<noteq> 0
            then
              let bits = unit' - taken;
                  raw = (if ec_mode (fo_encoder out) = DMI_ENCODE_MODE_PRESERVE then dmi_field_source_bits out bits else 0)
              in dmi_field_put_bits w out raw bits
            else (True, out))
     in if \<not> status then (False, out) else (True, out\<lparr>fo_bits_taken := 0\<rparr>))"

section \<open>The data a member stands for\<close>

definition DMI_FIELD_PROBE_SIZE :: nat where "DMI_FIELD_PROBE_SIZE = 512"

text \<open>
  The copy a value is decoded into is memory of its own, which holds the member at its beginning. The
  result says whether there was memory for it and whether the value is the one of the member.
\<close>

definition probe_memory :: "dmi_memory \<Rightarrow> nat \<Rightarrow> nat \<Rightarrow> dmi_memory" where
  "probe_memory m a n = \<lparr>mm_cells = (\<lambda>i. if i < n then mm_cells m (a + i) else Byte 0), mm_next = n\<rparr>"

definition dmi_field_decodes_into ::
    "dmi_field_writing \<Rightarrow> dmi_field_output \<Rightarrow> dmi_field \<Rightarrow> dmi_field_data \<Rightarrow> nat \<Rightarrow> bool option \<times> dmi_field_output" where
  "dmi_field_decodes_into w out field data a =
    (let n = mr_size (fd_member field)
     in if n > DMI_FIELD_PROBE_SIZE \<and> \<not> fe_room (fw_env w) n then (None, output_error out DMI_ERROR_OUT_OF_MEMORY)
        else
          let probe = data\<lparr>da_reported := False\<rparr>;
              copy = probe_memory (fw_memory w) a n
          in case dmi_field_apply (fw_env w) field probe copy (Some 0) of
               (status, copy') \<Rightarrow> (Some (status \<and> mem_load copy' 0 n = mem_load (fw_memory w) a n), out))"

definition dmi_field_model_data ::
    "dmi_field_writing \<Rightarrow> dmi_field_output \<Rightarrow> dmi_field \<Rightarrow> nat \<Rightarrow> dmi_field_data option \<times> dmi_field_output" where
  "dmi_field_model_data w out field a =
    (let params = fd_params field; member = fd_member field;
         scalar = dmi_field_is_numeric field \<and> mr_size member \<in> {1, 2, 4, 8};
         data = blank_data False
     in if scalar \<and> fp_unknown_raw params \<noteq> 0 \<and> dmi_field_load_member member (fw_memory w) a = dmi_field_member_max member
        then (Some (data\<lparr>da_number := fp_unknown_raw params\<rparr>), out)
        else case fp_encode params of
          Some handler \<Rightarrow>
            (case fe_encode (fw_env w) handler field (fw_memory w) a of
               None \<Rightarrow> (None, output_error out DMI_ERROR_STATE_INVALID)
             | Some data \<Rightarrow> (Some data, out))
        | None \<Rightarrow>
            (case fd_type field of
               DMI_FIELD_TYPE_STRING \<Rightarrow>
                 (Some (data\<lparr>da_string := (case load_pointer (fw_memory w) a of Some (Pointer_string s) \<Rightarrow> Some s | _ \<Rightarrow> None)\<rparr>), out)
             | DMI_FIELD_TYPE_BINARY \<Rightarrow> (Some (data\<lparr>da_binary := load_binary (fw_memory w) a\<rparr>), out)
             | _ \<Rightarrow> (Some (data\<lparr>da_number := dmi_field_load_member member (fw_memory w) a\<rparr>), out)))"

text \<open>The result is the data and whether the field can carry it.\<close>

definition dmi_field_value_data ::
    "dmi_field_writing \<Rightarrow> dmi_field_output \<Rightarrow> dmi_field \<Rightarrow> nat \<Rightarrow> dmi_field_data option
      \<Rightarrow> (dmi_field_data \<times> bool) option \<times> dmi_field_output" where
  "dmi_field_value_data w out field a original =
    (let params = fd_params field;
         (same, out') =
           (case original of
              None \<Rightarrow> (Some False, out)
            | Some data \<Rightarrow> dmi_field_decodes_into w out field data a)
     in if fp_decode params \<noteq> None \<and> fp_encode params = None then (None, output_error out DMI_ERROR_STATE_INVALID)
        else case same of
          None \<Rightarrow> (None, out')
        | Some equal \<Rightarrow>
            if equal then (Some (the original, True), out')
            else case dmi_field_model_data w out' field a of
              (None, out') \<Rightarrow> (None, out')
            | (Some data, out') \<Rightarrow>
                (case dmi_field_decodes_into w out' field data a of
                   (None, out') \<Rightarrow> (None, out')
                 | (Some exact, out') \<Rightarrow>
                     let bits = (if fd_type field = DMI_FIELD_TYPE_BITS then fp_bits params else unat (dmi_field_width field) * 8);
                         wide = dmi_field_is_numeric field \<and> bits > 0 \<and> bits < 64 \<and> drop_bit bits (da_number data) \<noteq> 0
                     in (Some (data, exact \<and> \<not> wide), out')))"

definition dmi_field_source_data :: "dmi_field_output \<Rightarrow> dmi_field \<Rightarrow> dmi_field_data option \<times> dmi_field_output" where
  "dmi_field_source_data out field =
    (let ec = fo_encoder out; data = blank_data False
     in if ec_mode ec \<noteq> DMI_ENCODE_MODE_PRESERVE then (None, out)
        else case fd_type field of
          DMI_FIELD_TYPE_BITS \<Rightarrow>
            (let length' = (fo_bits_count out + fp_bits (fd_params field) + 8 - 1) div 8
             in if unat (dmi_encoder_remaining ec) < length' then (None, out)
                else (Some (data\<lparr>da_number := dmi_field_source_bits out (fp_bits (fd_params field))\<rparr>), out))
        | DMI_FIELD_TYPE_STRING \<Rightarrow>
            (case dmi_encoder_peek ec 1 of
               Inl f \<Rightarrow> (None, out\<lparr>fo_queue := raise_fault (fo_queue out) f\<rparr>)
             | Inr bs \<Rightarrow>
                 let number = unat (load_word bs :: byte)
                 in (Some (data\<lparr>da_number := of_nat number,
                       da_string := (if number \<noteq> 0 \<and> number \<le> en_string_count (ec_entity ec) then Some (String_pretty (number - 1)) else None)\<rparr>),
                     out))
        | DMI_FIELD_TYPE_BINARY \<Rightarrow>
            (let length' = fp_length (fd_params field)
             in if dmi_encoder_remaining ec < length' then (None, out)
                else case ec_source ec of
                  None \<Rightarrow> (None, out)
                | Some r \<Rightarrow>
                    (case dmi_buffer_at (rd_buffer r) (rd_base r + rd_position r) length' of
                       None \<Rightarrow> (None, out)
                     | Some bs \<Rightarrow> (Some (data\<lparr>da_binary := binary_of r (Some bs, length')\<rparr>), out)))
        | _ \<Rightarrow>
            (case dmi_field_peek_raw out (dmi_field_width field) of
               (None, out) \<Rightarrow> (None, out)
             | (Some number, out) \<Rightarrow> (Some (data\<lparr>da_number := number\<rparr>), out)))"

definition dmi_field_put_data :: "dmi_field_writing \<Rightarrow> dmi_field_output \<Rightarrow> dmi_field \<Rightarrow> dmi_field_data \<Rightarrow> bool \<times> dmi_field_output" where
  "dmi_field_put_data w out field data =
    (case fd_type field of
       DMI_FIELD_TYPE_STRING \<Rightarrow>
         if da_number data \<noteq> 0 \<or> da_string data = None then put_bytes w out [ucast (da_number data)]
         else write_with out (dmi_encoder_put_string (fw_heap w) (fw_room w) (fo_queue out) (fo_encoder out) (da_string data))
     | DMI_FIELD_TYPE_BINARY \<Rightarrow>
         if bn_length (da_binary data) = 0 then dmi_field_put_reserved w out (fp_length (fd_params field))
         else if bn_length (da_binary data) < fp_length (fd_params field) then dmi_field_cannot_encode out
         else put_bytes w out (take (unat (fp_length (fd_params field))) (binary_bytes (da_binary data)))
     | _ \<Rightarrow> dmi_field_put_raw w out (dmi_field_width field) (da_number data))"

section \<open>Fields\<close>

definition dmi_field_encode_bits :: "dmi_field_writing \<Rightarrow> dmi_field_output \<Rightarrow> dmi_field \<Rightarrow> nat option \<Rightarrow> bool \<times> dmi_field_output" where
  "dmi_field_encode_bits w out field value' =
    (let bits = fp_bits (fd_params field)
     in case value' of
       None \<Rightarrow>
         let raw = (if ec_mode (fo_encoder out) = DMI_ENCODE_MODE_PRESERVE then dmi_field_source_bits out bits else 0)
         in dmi_field_put_bits w out raw bits
     | Some a \<Rightarrow>
         case dmi_field_source_data out field of
           (original, out) \<Rightarrow>
             (case dmi_field_value_data w out field a original of
                (None, out) \<Rightarrow> (False, out)
              | (Some (data, exact), out) \<Rightarrow> dmi_field_put_bits w out (da_number data) bits))"

text \<open>The loop which spells out the digits, for \<open>n\<close> digits from the bit \<open>shift\<close> on, with the rest of the number.\<close>

primrec bcd_digits_loop :: "nat \<Rightarrow> nat \<Rightarrow> uintmax_t \<Rightarrow> uintmax_t \<Rightarrow> uintmax_t \<times> uintmax_t" where
  "bcd_digits_loop shift 0 number digits = (digits, number)"
| "bcd_digits_loop shift (Suc n) number digits =
    bcd_digits_loop (shift + 4) n (number div 10) (digits OR push_bit shift (number mod 10))"

definition dmi_field_encode_bcd :: "dmi_field_writing \<Rightarrow> dmi_field_output \<Rightarrow> dmi_field \<Rightarrow> nat \<Rightarrow> size_t \<Rightarrow> bool \<times> dmi_field_output" where
  "dmi_field_encode_bcd w out field a width =
    (let number = dmi_field_load_member (fd_member field) (fw_memory w) a;
         unknown = fp_unknown_raw (fd_params field)
     in if width > 8 then (False, output_error out DMI_ERROR_ARGUMENT_INVALID)
        else if unknown \<noteq> 0 \<and> number = dmi_field_member_max (fd_member field) then dmi_field_put_raw w out width unknown
        else case bcd_digits_loop 0 (2 * unat width) number 0 of
          (digits, rest) \<Rightarrow> if rest \<noteq> 0 then dmi_field_cannot_encode out else dmi_field_put_raw w out width digits)"

definition dmi_field_encode_fixed :: "dmi_field_writing \<Rightarrow> dmi_field_output \<Rightarrow> dmi_field \<Rightarrow> nat \<Rightarrow> size_t \<Rightarrow> bool \<times> dmi_field_output" where
  "dmi_field_encode_fixed w out field a width =
    (case fd_type field of
       DMI_FIELD_TYPE_UUID \<Rightarrow> put_bytes w out (dmi_uuid_encode (map cell_byte (mem_load (fw_memory w) a 16)))
     | DMI_FIELD_TYPE_BINARY \<Rightarrow> put_bytes w out (binary_bytes (load_binary (fw_memory w) a))
     | DMI_FIELD_TYPE_BCD \<Rightarrow> dmi_field_encode_bcd w out field a width
     | _ \<Rightarrow> (False, out))"

text \<open>The loop over the fields a choice governs, from the index \<open>i\<close> on; \<open>k\<close> is the index of the field which chooses.\<close>

fun governed_loop ::
    "dmi_field_writing \<Rightarrow> dmi_field list \<Rightarrow> nat \<Rightarrow> nat \<Rightarrow> nat \<Rightarrow> nat \<Rightarrow> bool \<Rightarrow> dmi_field list \<Rightarrow> dmi_field_output
      \<Rightarrow> bool option \<times> dmi_field_output" where
  "governed_loop w fs k info offset i fits [] out = (Some fits, out)"
| "governed_loop w fs k info offset i fits (other # others) out =
    (if \<not> fits then (Some fits, out)
     else if i = k \<or> fp_extended (fd_params other) \<or> \<not> dmi_field_governs fs other offset
     then governed_loop w fs k info offset (i + 1) fits others out
     else case dmi_field_value_data w out other (info + mr_offset (fd_member other)) None of
       (None, out) \<Rightarrow> (None, out)
     | (Some (data, fits), out) \<Rightarrow> governed_loop w fs k info offset (i + 1) fits others out)"

definition dmi_field_governed_fit ::
    "dmi_field_writing \<Rightarrow> dmi_field_output \<Rightarrow> dmi_field list \<Rightarrow> nat \<Rightarrow> nat \<Rightarrow> nat \<Rightarrow> bool \<Rightarrow> bool option \<times> dmi_field_output" where
  "dmi_field_governed_fit w out fs k info offset fits = governed_loop w fs k info offset 0 fits fs out"

definition dmi_field_encode_governing ::
    "dmi_field_writing \<Rightarrow> dmi_field_output \<Rightarrow> dmi_field list \<Rightarrow> nat \<Rightarrow> nat \<Rightarrow> dmi_field_choice list \<Rightarrow> nat
      \<Rightarrow> dmi_field_data option \<Rightarrow> dmi_field_data \<Rightarrow> bool \<Rightarrow> bool \<times> dmi_field_choice list \<times> dmi_field_output" where
  "dmi_field_encode_governing w out fs k info choices i original data exact =
    (let field = fs ! k; choice = choices ! i;
         fits = (exact \<and> da_number data \<noteq> fc_when_raw choice)
     in case (if fits then dmi_field_governed_fit w out fs k info (fc_offset choice) fits else (Some False, out)) of
          (None, out) \<Rightarrow> (False, choices, out)
        | (Some fits, out) \<Rightarrow>
            let extended = (\<not> fits \<or> (case original of None \<Rightarrow> False | Some o' \<Rightarrow> da_number o' = fc_when_raw choice));
                data = (if extended then data\<lparr>da_number := fc_when_raw choice\<rparr> else data)
            in case dmi_field_put_data w out field data of
                 (status, out) \<Rightarrow> (status, choices[i := choice\<lparr>fc_extended := extended\<rparr>], out))"

definition dmi_field_encode_plain ::
    "dmi_field_writing \<Rightarrow> dmi_field_output \<Rightarrow> dmi_field list \<Rightarrow> dmi_field \<Rightarrow> dmi_field_choice list \<Rightarrow> size_t \<Rightarrow> dmi_field_data
      \<Rightarrow> bool \<times> dmi_field_output" where
  "dmi_field_encode_plain w out fs field choices width data =
    (let governing =
           (case find (\<lambda>other. fp_extended (fd_params other) \<and> mr_offset (fd_member other) = mr_offset (fd_member field)) fs of
              None \<Rightarrow> None
            | Some other \<Rightarrow> dmi_field_choice_find choices (dmi_field_when_offset other))
     in case governing of
       None \<Rightarrow> dmi_field_put_data w out field data
     | Some i \<Rightarrow>
         if \<not> fc_extended (choices ! i) then dmi_field_put_data w out field data
         else if ec_mode (fo_encoder out) = DMI_ENCODE_MODE_PRESERVE then dmi_field_put_reserved w out width
         else dmi_field_put_data w out field (data\<lparr>da_number := fc_when_raw (choices ! i)\<rparr>))"

section \<open>Vectors, arrays and lists\<close>

type_synonym dmi_field_written = "nat \<Rightarrow> dmi_field_output \<Rightarrow> bool \<times> dmi_field_output"

primrec encode_vector_loop :: "dmi_field_written \<Rightarrow> nat \<Rightarrow> nat \<Rightarrow> nat \<Rightarrow> dmi_field_output \<Rightarrow> bool \<times> dmi_field_output" where
  "encode_vector_loop nested value' size' 0 out = (True, out)"
| "encode_vector_loop nested value' size' (Suc n) out =
    (case nested value' out of
       (False, out) \<Rightarrow> (False, out)
     | (True, out) \<Rightarrow> encode_vector_loop nested (value' + size') size' n out)"

definition dmi_field_encode_vector :: "dmi_field_written \<Rightarrow> dmi_field_output \<Rightarrow> dmi_field \<Rightarrow> nat \<Rightarrow> bool \<times> dmi_field_output" where
  "dmi_field_encode_vector nested out field value' =
    encode_vector_loop nested value' (mr_size (fd_member field)) (fp_count (fd_params field)) out"

text \<open>The number of the elements and the length of one are stored in variables of the caller, so they are results.\<close>

definition dmi_field_encode_array_header ::
    "dmi_field_writing \<Rightarrow> dmi_field_output \<Rightarrow> dmi_field \<Rightarrow> nat \<Rightarrow> size_t \<Rightarrow> (uintmax_t \<times> size_t) option \<times> dmi_field_output" where
  "dmi_field_encode_array_header w out field info counter =
    (let params = fd_params field;
         preserve = (ec_mode (fo_encoder out) = DMI_ENCODE_MODE_PRESERVE);
         member = (\<lambda>ref. dmi_field_load_member ref (fw_memory w) (info + mr_offset ref));
         (count, status, out) =
           (if fp_count_length params = 0 then (counter, True, out)
            else
              let (count, out) =
                    (if dmi_member_is_present (fp_count_member params) then (member (fp_count_member params), out)
                     else if preserve
                     then case dmi_field_peek_raw out (fp_count_length params) of
                       (None, out) \<Rightarrow> (counter, out)
                     | (Some original, out) \<Rightarrow> (if original > counter then original else counter, out)
                     else (counter, out))
              in case dmi_field_put_raw w out (fp_count_length params) count of (status, out) \<Rightarrow> (count, status, out))
     in if \<not> status then (None, out)
        else if fp_stride_length params = 0 then (Some (count, fp_stride params), out)
        else
          let (length', out) =
                (if dmi_member_is_present (fp_stride_member params) then (member (fp_stride_member params), out)
                 else if preserve
                 then case dmi_field_peek_raw out (fp_stride_length params) of
                   (None, out) \<Rightarrow> (dmi_fields_size (fd_fields field), out)
                 | (Some original, out) \<Rightarrow> (original, out)
                 else (dmi_fields_size (fd_fields field), out))
          in case dmi_field_put_raw w out (fp_stride_length params) length' of
               (False, out) \<Rightarrow> (None, out)
             | (True, out) \<Rightarrow> (Some (count, length'), out))"

definition dmi_field_encode_element ::
    "dmi_field_writing \<Rightarrow> dmi_field_written \<Rightarrow> dmi_field_output \<Rightarrow> nat \<Rightarrow> size_t \<Rightarrow> bool \<times> dmi_field_output" where
  "dmi_field_encode_element w nested out element stride =
    (let start = dmi_encoder_tell (fo_encoder out)
     in case nested element out of
       (False, out) \<Rightarrow> (False, out)
     | (True, out) \<Rightarrow>
         if fo_stopped out then (True, out)
         else
           let written = dmi_encoder_tell (fo_encoder out) - start
           in if stride > written then dmi_field_put_reserved w out (stride - written) else (True, out))"

primrec encode_elements_loop ::
    "dmi_field_writing \<Rightarrow> dmi_field_written \<Rightarrow> nat \<Rightarrow> size_t \<Rightarrow> nat \<Rightarrow> nat \<Rightarrow> dmi_field_output \<Rightarrow> bool \<times> dmi_field_output" where
  "encode_elements_loop w nested size' stride element 0 out = (True, out)"
| "encode_elements_loop w nested size' stride element (Suc n) out =
    (if fo_stopped out then (True, out)
     else case dmi_field_encode_element w nested out element stride of
       (False, out) \<Rightarrow> (False, out)
     | (True, out) \<Rightarrow> encode_elements_loop w nested size' stride (element + size') n out)"

text \<open>The elements of an array which counts none are nowhere.\<close>

definition dmi_field_encode_array ::
    "dmi_field_writing \<Rightarrow> dmi_field_written \<Rightarrow> dmi_field_output \<Rightarrow> dmi_field \<Rightarrow> nat \<Rightarrow> bool \<times> dmi_field_output" where
  "dmi_field_encode_array w nested out field info =
    (let params = fd_params field;
         counter = load_size (fw_memory w) (info + mr_offset (fp_counter params));
         elements = (case load_pointer (fw_memory w) (info + mr_offset (fd_member field)) of Some (Pointer_elements a) \<Rightarrow> a | _ \<Rightarrow> 0)
     in if ec_mode (fo_encoder out) = DMI_ENCODE_MODE_PRESERVE \<and>
          dmi_encoder_remaining (fo_encoder out) < fp_count_length params + fp_stride_length params
        then dmi_field_put_reserved w (out\<lparr>fo_stopped := True\<rparr>) (dmi_encoder_remaining (fo_encoder out))
        else case dmi_field_encode_array_header w out field info counter of
          (None, out) \<Rightarrow> (False, out)
        | (Some (count, stride), out) \<Rightarrow>
            if dmi_field_array_is_skipped field stride
            then
              let remaining = dmi_encoder_remaining (fo_encoder out);
                  length' = (if stride \<noteq> 0 \<and> count > remaining div stride then remaining else count * stride)
              in dmi_field_put_reserved w out length'
            else encode_elements_loop w nested (mr_size (fd_member field)) stride elements (unat counter) out)"

text \<open>
  A field without a member has no value to write by: a pointer which is null, whose member has no
  length, so what it points to is never looked at.
\<close>

definition dmi_field_encode_one ::
    "dmi_field_writing \<Rightarrow> dmi_field_written \<Rightarrow> dmi_field_output \<Rightarrow> dmi_field list \<Rightarrow> nat \<Rightarrow> nat \<Rightarrow> dmi_field_choice list
      \<Rightarrow> bool \<times> dmi_field_choice list \<times> dmi_field_output" where
  "dmi_field_encode_one w nested out fs k info choices =
    (let field = fs ! k;
         present = dmi_member_is_present (fd_member field);
         a = info + mr_offset (fd_member field);
         keep = (\<lambda>(status, out). (status, choices, out))
     in case fd_type field of
       DMI_FIELD_TYPE_BITS \<Rightarrow> keep (dmi_field_encode_bits w out field (if present then Some a else None))
     | DMI_FIELD_TYPE_PAD \<Rightarrow> keep (dmi_field_encode_pad w out field)
     | DMI_FIELD_TYPE_ARRAY \<Rightarrow> keep (dmi_field_encode_array w nested out field info)
     | DMI_FIELD_TYPE_VECTOR \<Rightarrow> if present then keep (dmi_field_encode_vector nested out field a) else (False, choices, out)
     | DMI_FIELD_TYPE_STRUCT \<Rightarrow> if present then keep (nested a out) else (False, choices, out)
     | DMI_FIELD_TYPE_SKIP \<Rightarrow> keep (dmi_field_put_reserved w out (fp_length (fd_params field)))
     | _ \<Rightarrow>
         let width = dmi_field_width field;
             remaining = dmi_encoder_remaining (fo_encoder out)
         in if ec_mode (fo_encoder out) = DMI_ENCODE_MODE_PRESERVE \<and> remaining < width
            then keep (dmi_field_put_reserved w (out\<lparr>fo_stopped := True\<rparr>) remaining)
            else if dmi_field_is_fixed field then keep (dmi_field_encode_fixed w out field a width)
            else case dmi_field_source_data out field of
              (source, out) \<Rightarrow>
                let choice = dmi_field_choice_find choices (dmi_field_when_offset field);
                    extended = fp_extended (fd_params field)
                in if extended \<and> (case choice of None \<Rightarrow> True | Some i \<Rightarrow> \<not> fc_extended (choices ! i))
                   then keep (dmi_field_put_reserved w out width)
                   else case dmi_field_value_data w out field a source of
                     (None, out) \<Rightarrow> (False, choices, out)
                   | (Some (data, exact), out) \<Rightarrow>
                       if extended then keep (dmi_field_put_data w out field data)
                       else case choice of
                         Some i \<Rightarrow> dmi_field_encode_governing w out fs k info choices i source data exact
                       | None \<Rightarrow> keep (dmi_field_encode_plain w out fs field choices width data))"

text \<open>The loop over the fields from the index \<open>k\<close> on, each with the writing of its own list.\<close>

fun encode_loop ::
    "dmi_field_writing \<Rightarrow> dmi_field list \<Rightarrow> nat \<Rightarrow> dmi_field_written list \<Rightarrow> dmi_field_choice list \<Rightarrow> dmi_field_written" where
  "encode_loop w fs k [] choices info out = (True, out)"
| "encode_loop w fs k (nested # rest) choices info out =
    (let field = fs ! k
     in if fo_stopped out then (True, out)
        else if fd_type field = DMI_FIELD_TYPE_OFFSET
        then case dmi_field_check_offset (fo_queue out) (dmi_encoder_tell (fo_encoder out)) field of
          (status, q) \<Rightarrow>
            if \<not> status then (False, out\<lparr>fo_queue := q\<rparr>) else encode_loop w fs (k + 1) rest choices info (out\<lparr>fo_queue := q\<rparr>)
        else if fd_type field = DMI_FIELD_TYPE_PRESET then encode_loop w fs (k + 1) rest choices info out
        else if fd_type field = DMI_FIELD_TYPE_GROUP
        then
          let since = fp_since (fd_params field);
              ends = (dmi_field_group_is_absent field (fw_memory w) info \<or>
                (if ec_mode (fo_encoder out) = DMI_ENCODE_MODE_PRESERVE then dmi_encoder_remaining (fo_encoder out) = 0
                 else since \<noteq> DMI_VERSION_NONE \<and> since > ec_version (fo_encoder out)))
          in encode_loop w fs (k + 1) rest choices info (if ends then out\<lparr>fo_stopped := True\<rparr> else out)
        else if \<not> dmi_field_is_defined field (fo_version out) then encode_loop w fs (k + 1) rest choices info out
        else case dmi_field_encode_one w nested out fs k info choices of
          (False, choices, out) \<Rightarrow> (False, out)
        | (True, choices, out) \<Rightarrow> encode_loop w fs (k + 1) rest choices info out)"

definition encode_list_with :: "dmi_field_writing \<Rightarrow> dmi_field list \<Rightarrow> dmi_field_written list \<Rightarrow> dmi_field_written" where
  "encode_list_with w fs nested info out = encode_loop w fs 0 nested (dmi_field_choices_collect fs []) info out"

function dmi_field_encode_list :: "dmi_field_writing \<Rightarrow> dmi_field list \<Rightarrow> dmi_field_written" where
  "dmi_field_encode_list w fs = encode_list_with w fs (map (\<lambda>f. dmi_field_encode_list w (fd_fields f)) fs)"
  by auto
termination
proof (relation "measure (\<lambda>(w, fs). size_list size fs)")
  fix w :: dmi_field_writing and fs :: "dmi_field list" and f
  assume "f \<in> set fs"
  then show "((w, fd_fields f), w, fs) \<in> measure (\<lambda>(w, fs). size_list size fs)"
    using size_fields [of f] size_member [of f fs] by simp
qed simp

declare dmi_field_encode_list.simps [simp del]

section \<open>A whole structure, or a part of it\<close>

definition initial_output :: "dmi_field_env \<Rightarrow> dmi_error_queue \<Rightarrow> dmi_memory dmi_encoder \<Rightarrow> dmi_field_output" where
  "initial_output env q ec =
    \<lparr>fo_encoder = ec, fo_queue = q, fo_stopped = False, fo_bits_value = 0, fo_bits_count = 0, fo_bits_taken = 0,
     fo_version = (if ec_mode ec = DMI_ENCODE_MODE_PRESERVE then fe_version env else ec_version ec)\<rparr>"

definition dmi_fields_encode :: "dmi_field_env \<Rightarrow> dmi_memory dmi_entity_encode_fn" where
  "dmi_fields_encode env h room q ec =
    (case (en_spec (ec_entity ec), en_info (ec_entity ec)) of
       (Some spec, Some m) \<Rightarrow>
         if \<not> sp_has_fields spec then (False, ec, raise_error q DMI_ERROR_STATE_INVALID)
         else
           let w = \<lparr>fw_env = env, fw_heap = h, fw_room = room, fw_memory = m\<rparr>
           in case dmi_field_encode_list w (fe_fields env spec) 0 (initial_output env q ec) of
                (False, out) \<Rightarrow> (False, fo_encoder out, fo_queue out)
              | (True, out) \<Rightarrow>
                  let remaining = dmi_encoder_remaining (fo_encoder out)
                  in case (if remaining > 0 then dmi_field_put_reserved w out remaining else (True, out)) of
                       (False, out) \<Rightarrow> (False, fo_encoder out, fo_queue out)
                     | (True, out) \<Rightarrow> dmi_encoder_finish h (fo_queue out) (fo_encoder out)
     | _ \<Rightarrow> (False, ec, raise_error q DMI_ERROR_STATE_INVALID))"

definition dmi_fields_encode_from ::
    "dmi_field_env \<Rightarrow> heap \<Rightarrow> (nat \<Rightarrow> bool) \<Rightarrow> dmi_error_queue \<Rightarrow> dmi_memory dmi_encoder \<Rightarrow> dmi_field list \<Rightarrow> size_t \<Rightarrow> dmi_memory \<Rightarrow> nat
      \<Rightarrow> bool \<times> dmi_memory dmi_encoder \<times> dmi_error_queue" where
  "dmi_fields_encode_from env h room q ec fs length' m info =
    (let w = \<lparr>fw_env = env, fw_heap = h, fw_room = room, fw_memory = m\<rparr>;
         start = dmi_encoder_tell ec;
         narrowed =
           (case ec_source ec of
              Some r \<Rightarrow>
                if dmi_reader_remaining r > length' then ec\<lparr>ec_source := Some (r\<lparr>rd_length := rd_position r + length'\<rparr>)\<rparr> else ec
            | None \<Rightarrow> ec)
     in case dmi_field_encode_list w fs info (initial_output env q narrowed) of
          (status, out) \<Rightarrow>
            let ec' = (fo_encoder out)\<lparr>ec_source :=
                  (case (ec_source ec, ec_source (fo_encoder out)) of
                     (Some r, Some r') \<Rightarrow> Some (r'\<lparr>rd_length := rd_length r\<rparr>)
                   | (_, source) \<Rightarrow> source)\<rparr>;
                out = out\<lparr>fo_encoder := ec'\<rparr>
            in if \<not> status then (False, fo_encoder out, fo_queue out)
               else
                 let written = dmi_encoder_tell ec' - start
                 in case (if written > length' then dmi_field_cannot_encode out else dmi_field_put_reserved w out (length' - written)) of
                      (status, out) \<Rightarrow> (status, fo_encoder out, fo_queue out))"

end
