(* ===== verification/Field_Memory.thy ===== *)
theory Field_Memory
  imports Field_Encode
begin

text \<open>
  Facts the proofs about fields share: what a member holds after a store, little-endian numbers bit by
  bit, and the memory two states agree on.
\<close>

lemma length_mem_load [simp]: "length (mem_load m a n) = n"
  by (simp add: mem_load_def)

lemma mem_store_next [simp]: "mm_next (mem_store m a cs) = mm_next m"
  by (simp add: mem_store_def)

lemma mem_store_cell: "mm_cells (mem_store m a cs) i = (if a \<le> i \<and> i < a + length cs then cs ! (i - a) else mm_cells m i)"
  by (simp add: mem_store_def)

lemma mem_load_store: "mem_load (mem_store m a cs) a (length cs) = cs"
  by (rule nth_equalityI) (simp_all add: mem_load_def mem_store_cell)

lemma mem_load_same: "length cs = n \<Longrightarrow> mem_load (mem_store m a cs) a n = cs"
  using mem_load_store by metis

lemma mem_load_cong: "(\<And>i. a \<le> i \<Longrightarrow> i < a + n \<Longrightarrow> mm_cells m i = mm_cells m' i) \<Longrightarrow> mem_load m a n = mem_load m' a n"
  by (simp add: mem_load_def)

lemma mem_load_other: "a + n \<le> b \<or> b + length cs \<le> a \<Longrightarrow> mem_load (mem_store m b cs) a n = mem_load m a n"
  by (rule mem_load_cong) (auto simp: mem_store_cell)

text \<open>Two memories hold the same at the addresses of a set.\<close>

definition agrees :: "nat set \<Rightarrow> dmi_memory \<Rightarrow> dmi_memory \<Rightarrow> bool" where
  "agrees F m m' \<longleftrightarrow> (\<forall>i\<in>F. mm_cells m i = mm_cells m' i)"

lemma agrees_refl [simp]: "agrees F m m"
  by (simp add: agrees_def)

lemma agrees_sym: "agrees F m m' \<Longrightarrow> agrees F m' m"
  by (simp add: agrees_def)

lemma agrees_trans: "agrees F a b \<Longrightarrow> agrees F b c \<Longrightarrow> agrees F a c"
  by (simp add: agrees_def)

lemma agrees_subset: "agrees F m m' \<Longrightarrow> G \<subseteq> F \<Longrightarrow> agrees G m m'"
  by (auto simp: agrees_def)

lemma agrees_load: "agrees F m m' \<Longrightarrow> {a..<a + n} \<subseteq> F \<Longrightarrow> mem_load m a n = mem_load m' a n"
  by (intro mem_load_cong) (auto simp: agrees_def)

lemma agrees_store: "agrees (- {a..<a + length cs}) m (mem_store m a cs)"
  by (auto simp: agrees_def mem_store_cell)

lemma agrees_load_member: "agrees F m m' \<Longrightarrow> {a..<a + mr_size member} \<subseteq> F \<Longrightarrow>
  dmi_field_load_member member m a = dmi_field_load_member member m' a"
  using agrees_load [of F m m' a "mr_size member"] by (auto simp: dmi_field_load_member_def)

section \<open>Little-endian numbers\<close>

lemma bit_le_load_loop:
  "i + length bs \<le> 8 \<Longrightarrow> bit (le_load_loop i number bs) j \<longleftrightarrow>
    bit number j \<or> (8 * i \<le> j \<and> j < 8 * (i + length bs) \<and> bit (bs ! (j div 8 - i)) (j mod 8))"
proof (induction bs arbitrary: i number)
  case Nil
  then show ?case by auto
next
  case (Cons b bs)
  have step: "bit (number OR push_bit (i * 8) (ucast b :: uintmax_t)) j \<longleftrightarrow>
      bit number j \<or> (8 * i \<le> j \<and> j < 8 * (i + 1) \<and> bit b (j mod 8))"
  proof -
    have i: "8 * i + 8 \<le> 64" using Cons(2) by simp
    have e: "bit b (j - 8 * i) \<longleftrightarrow> j < 8 * (i + 1) \<and> bit b (j mod 8)" if "8 * i \<le> j"
    proof (cases "j < 8 * (i + 1)")
      case True
      then have "j = 8 * i + (j - 8 * i)" "j - 8 * i < 8" using that by simp_all
      then have "j mod 8 = j - 8 * i" by (metis mod_less mod_mult_self4)
      with True show ?thesis by simp
    next
      case False
      then have "\<not> bit b (j - 8 * i)" using bit_imp_le_length [of b "j - 8 * i"] by auto
      with False show ?thesis by simp
    qed
    show ?thesis using i e by (auto simp: bit_simps mult.commute [of _ 8] dest: bit_imp_le_length)
  qed
  have rest: "j div 8 - i = Suc (j div 8 - (i + 1))" if "8 * (i + 1) \<le> j"
  proof -
    have "i + 1 \<le> j div 8" using that by (simp add: less_eq_div_iff_mult_less_eq mult.commute)
    then show ?thesis by simp
  qed
  have first: "j div 8 = i" if "8 * i \<le> j" "j < 8 * (i + 1)"
    using that by (intro div_nat_eqI) (simp_all add: mult.commute)
  show ?case
  proof (cases "8 * (i + 1) \<le> j")
    case True
    then show ?thesis using Cons.IH [of "i + 1" "number OR push_bit (i * 8) (ucast b)"] Cons(2) step rest by auto
  next
    case False
    then show ?thesis using Cons.IH [of "i + 1" "number OR push_bit (i * 8) (ucast b)"] Cons(2) step first by auto
  qed
qed

lemma bit_le_load:
  "length bs \<le> 8 \<Longrightarrow> bit (dmi_field_le_load bs) j \<longleftrightarrow> j < 8 * length bs \<and> bit (bs ! (j div 8)) (j mod 8)"
  by (simp add: dmi_field_le_load_def bit_le_load_loop)

lemma length_le_store [simp]: "length (dmi_field_le_store n number) = n"
  by (simp add: dmi_field_le_store_def)

lemma bit_byte_mask: "bit (0xFF :: uintmax_t) k \<longleftrightarrow> k < 8"
proof -
  have "(0xFF :: uintmax_t) = mask 8" by (simp add: mask_eq_exp_minus_1)
  then show ?thesis using bit_mask_iff [of 8 k, where 'a = uintmax_t] by (auto simp: possible_bit_word)
qed

lemma bit_le_store:
  assumes "i < n"
  shows "bit (dmi_field_le_store n number ! i) j \<longleftrightarrow> j < 8 \<and> bit number (8 * i + j)"
  using assms bit_byte_mask [of j]
  by (auto simp: dmi_field_le_store_def bit_simps mult.commute dest: bit_imp_le_length simp del: bit_numeral_iff)

lemma le_store_load:
  assumes "length bs \<le> 8"
  shows "dmi_field_le_store (length bs) (dmi_field_le_load bs) = bs"
proof (rule nth_equalityI)
  show "length (dmi_field_le_store (length bs) (dmi_field_le_load bs)) = length bs" by simp
  fix i assume "i < length (dmi_field_le_store (length bs) (dmi_field_le_load bs))"
  then have i: "i < length bs" by simp
  show "dmi_field_le_store (length bs) (dmi_field_le_load bs) ! i = bs ! i"
  proof (rule bit_word_eqI)
    fix j assume "j < LENGTH(8)"
    then have j: "j < 8" by simp
    then have "8 * i + j < 8 * length bs" "(8 * i + j) div 8 = i" "(8 * i + j) mod 8 = j" using i by simp_all
    then show "bit (dmi_field_le_store (length bs) (dmi_field_le_load bs) ! i) j = bit (bs ! i) j"
      using i j assms by (simp add: bit_le_store bit_le_load)
  qed
qed

lemma le_store_load_take: "length bs = n \<Longrightarrow> n \<le> 8 \<Longrightarrow> dmi_field_le_store n (dmi_field_le_load bs) = bs"
  using le_store_load by blast

end
