(* ===== verification/Field_Laws.thy ===== *)
theory Field_Laws
  imports Field_Decode
begin

text \<open>
  The field engine keeps to the interface of the decoder: whatever the fields, the handlers and the
  memory there is, reading them is a sequence of steps of the decoder. So the structures
  which list their fields are decoded the way \<open>Decoder\<close> shows of any handler.
\<close>

definition state_reach :: "dmi_field_state \<Rightarrow> dmi_field_state \<Rightarrow> bool" where
  "state_reach st st' \<longleftrightarrow> decoder_reach (fs_queue st, fs_decoder st) (fs_queue st', fs_decoder st') \<and>
     fs_is_part st' = fs_is_part st"

lemma state_reach_refl [simp, intro]: "state_reach st st"
  by (simp add: state_reach_def)

lemma state_reach_trans [trans]: "state_reach a b \<Longrightarrow> state_reach b c \<Longrightarrow> state_reach a c"
  by (auto simp: state_reach_def)

lemma state_reach_same:
  "fs_queue st' = fs_queue st \<Longrightarrow> fs_decoder st' = fs_decoder st \<Longrightarrow> fs_is_part st' = fs_is_part st \<Longrightarrow> state_reach st st'"
  by (simp add: state_reach_def)

lemma state_reach_update [simp]:
  "state_reach a (st\<lparr>fs_memory := m\<rparr>) = state_reach a st"
  "state_reach a (st\<lparr>fs_optional := b\<rparr>) = state_reach a st"
  "state_reach a (st\<lparr>fs_incomplete := b\<rparr>) = state_reach a st"
  "state_reach a (st\<lparr>fs_bits_value := w\<rparr>) = state_reach a st"
  "state_reach a (st\<lparr>fs_bits_count := n\<rparr>) = state_reach a st"
  "state_reach a (st\<lparr>fs_bits_taken := n\<rparr>) = state_reach a st"
  "state_reach a (st\<lparr>fs_defined := v\<rparr>) = state_reach a st"
  "state_reach (st\<lparr>fs_memory := m\<rparr>) a = state_reach st a"
  "state_reach (st\<lparr>fs_optional := b\<rparr>) a = state_reach st a"
  "state_reach (st\<lparr>fs_bits_value := w\<rparr>) a = state_reach st a"
  "state_reach (st\<lparr>fs_bits_count := n\<rparr>) a = state_reach st a"
  "state_reach (st\<lparr>fs_defined := v\<rparr>) a = state_reach st a"
  by (simp_all add: state_reach_def)

lemma reach_step:
  "decoder_step (fs_queue st, fs_decoder st) (fs_queue st', fs_decoder st') \<Longrightarrow> fs_is_part st' = fs_is_part st \<Longrightarrow> state_reach st st'"
  by (simp add: state_reach_def)

lemma reach_error: "state_reach st (st\<lparr>fs_queue := raise_error (fs_queue st) reason\<rparr>)"
  by (rule reach_step) (simp_all add: step_error)

lemma reach_fail: "state_reach st (fail_with st f)"
  by (cases f) (simp_all add: fail_with_def raise_fault_def reach_error)

lemma reach_read:
  assumes "read_with st outcome = (v, st')"
    and "\<And>x d. outcome = Inr (x, d) \<Longrightarrow> decoder_step (fs_queue st, fs_decoder st) (fs_queue st, d)"
  shows "state_reach st st'"
  using assms by (auto simp: read_with_def reach_fail split: sum.splits intro: reach_step)

lemma step_get: "dmi_decoder_get c d n = Inr (x, d') \<Longrightarrow> decoder_step (q, d) (q, d')"
  by (auto simp: dmi_decoder_get_def split: sum.splits intro: step_bytes)

lemma reach_skip:
  assumes "skip_with st outcome = (status, st')"
    and "\<And>r. outcome = Inr r \<Longrightarrow> decoder_step (fs_queue st, fs_decoder st) (fs_queue st, (fs_decoder st)\<lparr>dc_reader := r\<rparr>)"
  shows "state_reach st st'"
  using assms by (auto simp: skip_with_def set_reader_def reach_fail split: sum.splits intro: reach_step)

lemma step_skip_reader: "dmi_reader_skip (dc_reader d) n = Inr r \<Longrightarrow> decoder_step (q, d) (q, d\<lparr>dc_reader := r\<rparr>)"
  by (rule step_skip [of d n]) (simp add: dmi_decoder_skip_def)

lemma reach_store: "store_with st outcome = (status, st') \<Longrightarrow> state_reach st st'"
  by (auto simp: store_with_def split: prod.splits)

lemma reach_stop: "dmi_field_stop st = (status, st') \<Longrightarrow> state_reach st st'"
  by (auto simp: dmi_field_stop_def step_stop intro!: reach_step split: if_splits)

lemma reach_incomplete: "dmi_field_incomplete st = (status, st') \<Longrightarrow> state_reach st st'"
  by (auto simp: dmi_field_incomplete_def step_incomplete intro!: reach_step split: if_splits)

lemma reach_number: "dmi_field_read_number st n = (v, st') \<Longrightarrow> state_reach st st'"
  by (auto simp: dmi_field_read_number_def reach_error step_bytes split: if_splits prod.splits option.splits
      dest!: reach_read)

lemma reach_bcd: "dmi_field_read_bcd st field = (v, st') \<Longrightarrow> state_reach st st'"
  by (auto simp: dmi_field_read_bcd_def Let_def reach_error split: if_splits prod.splits option.splits dest!: reach_number)

lemma reach_get:
  assumes "read_with st (dmi_decoder_get c (fs_decoder st) n) = (v, st')"
  shows "state_reach st st'"
  by (rule reach_read [OF assms]) (rule step_get)

lemma reach_get_binary:
  assumes "read_with st (dmi_decoder_get_binary (fs_decoder st) n) = (v, st')"
  shows "state_reach st st'"
  by (rule reach_read [OF assms]) (metis step_binary surj_pair)

lemma reach_binary: "dmi_field_read_binary env st field value' = (v, st') \<Longrightarrow> state_reach st st'"
  by (auto simp: dmi_field_read_binary_def Let_def split: if_splits prod.splits option.splits dest!: reach_get_binary)

section \<open>Bits\<close>

lemma reach_fill: "take_bits_fill st bits = (v, st') \<Longrightarrow> state_reach st st'"
proof (induction st bits rule: take_bits_fill.induct)
  case (1 st bits)
  show ?case
  proof (cases "fs_bits_count st < bits")
    case False
    then show ?thesis using 1(2) by (simp add: take_bits_fill.simps [of st])
  next
    case True
    obtain got st1 where r: "read_with st (dmi_decoder_get (\<lambda>bs. load_word bs :: byte) (fs_decoder st) 1) = (got, st1)"
      by fastforce
    note one = reach_get [OF r]
    show ?thesis
    proof (cases got)
      case None
      then show ?thesis using 1(2) True r one by (simp add: take_bits_fill.simps [of st])
    next
      case (Some b)
      have "take_bits_fill (st1\<lparr>fs_bits_value := fs_bits_value st OR push_bit (fs_bits_count st) (ucast b),
          fs_bits_count := fs_bits_count st + 8\<rparr>) bits = (v, st')"
        using 1(2) True r Some by (simp add: take_bits_fill.simps [of st])
      from 1(1) [OF True r [symmetric] Some this] show ?thesis using state_reach_trans [OF one] by simp
    qed
  qed
qed

lemma reach_bits: "dmi_field_take_bits st bits = (v, st') \<Longrightarrow> state_reach st st'"
  by (auto simp: dmi_field_take_bits_def split: prod.splits bool.splits dest!: reach_fill)

lemma reach_decode_bits: "dmi_field_decode_bits env st field value' = (status, st') \<Longrightarrow> state_reach st st'"
  by (auto simp: dmi_field_decode_bits_def split: prod.splits option.splits dest!: reach_bits reach_store intro: state_reach_trans)

lemma reach_pad: "dmi_field_decode_pad st field = (status, st') \<Longrightarrow> state_reach st st'"
  by (auto simp: dmi_field_decode_pad_def Let_def split: prod.splits if_splits dest!: reach_bits)

section \<open>Values\<close>

lemma string_ex_reach:
  assumes "dmi_entity_string_ex q e n raw = (v, e', q')" and "dmi_decoder_get_bytes d 1 = Inr (bs, d1)"
    and "n = unat (load_word bs :: byte)" and "e = dc_entity d1" and "raw = False"
  shows "decoder_step (q, d) (q', d1\<lparr>dc_entity := e'\<rparr>)"
  using assms
  by (intro step_string [of q d "Inr v"]) (simp add: dmi_decoder_get_string_def dmi_decoder_get_def)

lemma reach_value: "dmi_field_decode_value env st field value' = (raw, status, st') \<Longrightarrow> state_reach st st'"
proof (cases "fd_type field = DMI_FIELD_TYPE_STRING")
  case True
  assume d: "dmi_field_decode_value env st field value' = (raw, status, st')"
  let ?get = "dmi_decoder_get (\<lambda>bs. load_word bs :: byte) (fs_decoder st) 1"
  obtain got st1 where r: "read_with st ?get = (got, st1)" by fastforce
  show ?thesis
  proof (cases got)
    case None
    then show ?thesis using d True r reach_get [OF r] by (simp add: dmi_field_decode_value_def)
  next
    case (Some n)
    then obtain d1 bs where b: "dmi_decoder_get_bytes (fs_decoder st) 1 = Inr (bs, d1)" "n = load_word bs" "st1 = st\<lparr>fs_decoder := d1\<rparr>"
      using r by (auto simp: read_with_def dmi_decoder_get_def split: sum.splits)
    obtain s e q where s: "dmi_entity_string_ex (fs_queue st) (dc_entity d1) (unat n) False = (s, e, q)"
      by (metis prod_cases3)
    have step: "decoder_step (fs_queue st, fs_decoder st) (q, d1\<lparr>dc_entity := e\<rparr>)"
      using string_ex_reach [OF s b(1)] b(2) by simp
    have "fs_queue st' = q \<and> fs_decoder st' = d1\<lparr>dc_entity := e\<rparr> \<and> fs_is_part st' = fs_is_part st"
      using d True r Some s b by (auto simp: dmi_field_decode_value_def store_with_def split: prod.splits)
    then show ?thesis using step by (auto simp: state_reach_def)
  qed
next
  case False
  assume "dmi_field_decode_value env st field value' = (raw, status, st')"
  then show ?thesis
    using False
    by (auto simp: dmi_field_decode_value_def step_skip_reader split: dmi_field_type.splits prod.splits option.splits
        dest!: reach_store reach_number reach_bcd reach_binary reach_get reach_skip intro: state_reach_trans)
qed

lemma reach_extended: "dmi_field_decode_extended env st field value' choice = (status, st') \<Longrightarrow> state_reach st st'"
  by (auto simp: dmi_field_decode_extended_def split: prod.splits bool.splits option.splits if_splits
      dest!: reach_value reach_store intro: state_reach_trans)

section \<open>Lists of fields\<close>

definition reading_reaches :: "dmi_field_reading \<Rightarrow> bool" where
  "reading_reaches nested \<longleftrightarrow> (\<forall>a st status st'. nested a st = (status, st') \<longrightarrow> state_reach st st')"

lemma reading_reachesD: "reading_reaches nested \<Longrightarrow> nested a st = (status, st') \<Longrightarrow> state_reach st st'"
  by (auto simp: reading_reaches_def)

lemma reach_nested:
  assumes "reading_reaches nested" and "dmi_field_decode_nested nested st a = (status, st')"
  shows "state_reach st st'"
  using assms(2) reading_reachesD [OF assms(1)] by (fastforce simp: dmi_field_decode_nested_def split: prod.splits)

lemma reach_vector_loop:
  assumes "reading_reaches nested"
  shows "vector_loop nested a n' n st = (status, st') \<Longrightarrow> state_reach st st'"
proof (induction n arbitrary: a st)
  case (Suc n)
  obtain ok st1 where n: "dmi_field_decode_nested nested st a = (ok, st1)" by fastforce
  note one = reach_nested [OF assms n]
  show ?case using Suc(2) n one state_reach_trans [OF one Suc(1)] by (cases ok) simp_all
qed simp

lemma reach_header: "dmi_field_decode_array_header st field info = (v, st') \<Longrightarrow> state_reach st st'"
  by (auto simp: dmi_field_decode_array_header_def Let_def split: prod.splits option.splits if_splits bool.splits
      dest!: reach_number reach_store intro: state_reach_trans)

lemma reach_element:
  assumes "reading_reaches nested" and "dmi_field_decode_element nested st field element stride = (status, st')"
  shows "state_reach st st'"
proof (cases "stride \<noteq> 0 \<and> \<not> dmi_reader_has (fs_reader st) stride")
  case True
  then show ?thesis using assms(2) by (auto simp: dmi_field_decode_element_def)
next
  case False
  obtain ok st1 where n: "dmi_field_decode_nested nested st element = (ok, st1)" by fastforce
  note one = reach_nested [OF assms(1) n]
  obtain ok2 st2 where k: "skip_with st1 (dmi_reader_skip_ex (fs_reader st1) (dmi_reader_mark (fs_reader st)) stride) = (ok2, st2)"
    by fastforce
  let ?from = "dmi_reader_mark (fs_reader st)"
  have two: "state_reach st1 st2"
  proof (rule reach_skip [OF k])
    fix r assume r: "dmi_reader_skip_ex (fs_reader st1) ?from stride = Inr r"
    then show "decoder_step (fs_queue st1, fs_decoder st1) (fs_queue st1, (fs_decoder st1)\<lparr>dc_reader := r\<rparr>)"
      by (rule step_skip_ex)
  qed
  show ?thesis
    using assms(2) False n k one state_reach_trans [OF one two]
    by (cases ok; cases ok2; cases "stride = 0") (auto simp: dmi_field_decode_element_def Let_def split: prod.splits)
qed

lemma reach_elements_loop:
  assumes "reading_reaches nested"
  shows "elements_loop nested field stride counter a n st = (status, st') \<Longrightarrow> state_reach st st'"
proof (induction n arbitrary: a st)
  case (Suc n)
  obtain ok st1 where e: "dmi_field_decode_element nested st field a stride = (ok, st1)" by fastforce
  note one = reach_element [OF assms e]
  show ?case
  proof (cases ok)
    case True
    then show ?thesis using Suc e one state_reach_trans [OF one] by fastforce
  next
    case False
    then show ?thesis using Suc e one by simp
  qed
qed simp

lemma reach_array:
  assumes "reading_reaches nested" and "dmi_field_decode_array env nested st field info = (status, st')"
  shows "state_reach st st'"
proof -
  obtain v st1 where h: "dmi_field_decode_array_header st field info = (v, st1)" by fastforce
  note one = reach_header [OF h]
  show ?thesis
  proof (cases v)
    case None
    then show ?thesis using assms(2) h one by (simp add: dmi_field_decode_array_def)
  next
    case (Some p)
    obtain count stride leftover where p: "p = (count, stride, leftover)" by (cases p)
    let ?st = "st1\<lparr>fs_memory := store_size (fs_memory st1) (info + mr_offset (fp_counter (fd_params field))) 0\<rparr>"
    have "state_reach ?st st'"
    proof (cases "count = 0 \<or> dmi_field_array_is_skipped field stride")
      case True
      then show ?thesis
        using assms(2) h Some p
        by (auto simp: dmi_field_decode_array_def Let_def step_skip_reader split: if_splits dest!: reach_incomplete reach_skip)
    next
      case False
      obtain elements m q where a: "dmi_alloc_array (fe_room env) (fs_queue ?st) (fs_memory ?st) (mr_size (fd_member field)) count = (elements, m, q)"
        by (metis prod_cases3)
      let ?m = "mem_store m (info + mr_offset (fd_member field)) (pointer_cells (map_option Pointer_elements elements))"
      let ?st2 = "?st\<lparr>fs_memory := ?m, fs_queue := q\<rparr>"
      have two: "state_reach ?st ?st2"
        using a reach_error [of ?st DMI_ERROR_OUT_OF_MEMORY]
        by (auto simp: dmi_alloc_array_def state_reach_def split: if_splits)
      show ?thesis
      proof (cases elements)
        case None
        then show ?thesis using assms(2) h Some p False a two by (simp add: dmi_field_decode_array_def)
      next
        case (Some first)
        obtain ok st3 where l: "elements_loop nested field stride (info + mr_offset (fp_counter (fd_params field))) first (unat count) ?st2 = (ok, st3)"
          by fastforce
        note three = state_reach_trans [OF two reach_elements_loop [OF assms(1) l]]
        show ?thesis
        proof (cases "ok \<and> leftover \<noteq> 0")
          case True
          then have "dmi_field_incomplete st3 = (status, st')"
            using assms(2) h \<open>v = Some p\<close> p False a Some l by (simp add: dmi_field_decode_array_def)
          from state_reach_trans [OF three reach_incomplete [OF this]] show ?thesis .
        next
          case no: False
          then have "st' = st3"
            using assms(2) h \<open>v = Some p\<close> p False a Some l by (cases ok) (simp_all add: dmi_field_decode_array_def)
          with three show ?thesis by simp
        qed
      qed
    qed
    then show ?thesis using state_reach_trans [OF one] by simp
  qed
qed

lemma reach_one:
  assumes "reading_reaches nested" and "dmi_field_decode_one env nested st field info choices = (status, choices', st')"
  shows "state_reach st st'"
  using assms(2) reach_array [OF assms(1)] reach_nested [OF assms(1)] reach_vector_loop [OF assms(1)]
  by (cases "fd_type field")
    (auto simp: dmi_field_decode_one_def dmi_field_decode_vector_def Let_def split: prod.splits option.splits if_splits
      dest: reach_decode_bits reach_pad reach_value reach_extended)

lemma reach_group_read: "dmi_field_group_read grp info st = (status, st') \<Longrightarrow> state_reach st st'"
  by (auto simp: dmi_field_group_read_def Let_def split: option.splits if_splits dest!: reach_store)

lemma reach_fields_loop:
  assumes "\<And>f nested. (f, nested) \<in> set fs \<Longrightarrow> reading_reaches nested"
    and "fields_loop env fs grp choices info st = (status, st')"
  shows "state_reach st st'"
  using assms
proof (induction env fs grp choices info st rule: fields_loop.induct)
  case (1 env grp choices info st)
  then show ?case by (simp add: reach_group_read)
next
  case (2 env field nested fs grp choices info st)
  have nested: "reading_reaches nested" using 2(6) [of field nested] by simp
  have rest: "\<And>f nested. (f, nested) \<in> set fs \<Longrightarrow> reading_reaches nested" by (meson 2(6) list.set_intros(2))
  show ?case
  proof (cases "fd_type field = DMI_FIELD_TYPE_OFFSET")
    case True
    obtain ok q where c: "dmi_field_check_offset (fs_queue st) (dmi_reader_tell (fs_reader st)) field = (ok, q)" by fastforce
    have one: "state_reach st (st\<lparr>fs_queue := q\<rparr>)"
      using c reach_error [of st DMI_ERROR_INTERNAL] by (auto simp: dmi_field_check_offset_def split: if_splits)
    show ?thesis
      using 2(1) [OF True c [symmetric] refl _ rest] 2(7) True c one by (cases ok) (auto intro: state_reach_trans)
  next
    case not_offset: False
    show ?thesis
    proof (cases "fd_type field = DMI_FIELD_TYPE_PRESET")
      case True
      then show ?thesis using 2(2) [OF not_offset True rest] 2(7) by simp
    next
      case not_preset: False
      show ?thesis
      proof (cases "fd_type field = DMI_FIELD_TYPE_GROUP")
        case True
        obtain ok st1 where g: "dmi_field_group_read grp info st = (ok, st1)" by fastforce
        note one = reach_group_read [OF g]
        show ?thesis
        proof (cases "ok \<and> \<not> dmi_reader_is_done (fs_reader st1)")
          case no: False
          show ?thesis
            using 2(7) not_offset not_preset True g no one
            by (cases ok) (auto dest: reach_stop intro: state_reach_trans)
        next
          case yes: True
          let ?d = "if fp_since (fd_params field) \<noteq> DMI_VERSION_NONE
            then (fs_decoder st1)\<lparr>dc_entity := (dc_entity (fs_decoder st1))\<lparr>en_level := fp_since (fd_params field)\<rparr>\<rparr> else fs_decoder st1"
          let ?st = "st1\<lparr>fs_decoder := ?d, fs_optional := True\<rparr>"
          have two: "state_reach st1 ?st" by (auto intro!: reach_step simp: step_level)
          have run: "fields_loop env fs (Some field) choices info ?st = (status, st')"
            using 2(7) not_offset not_preset True g yes by (simp add: Let_def)
          have "state_reach ?st st'"
            using 2(3) [OF not_offset not_preset True g [symmetric] _ _ refl refl refl rest] yes run by (simp add: Let_def)
          then show ?thesis using one two state_reach_trans by blast
        qed
      next
        case not_group: False
        show ?thesis
        proof (cases "dmi_field_is_defined field (fs_version st)")
          case False
          then show ?thesis using 2(4) [OF not_offset not_preset not_group False rest] 2(7) not_offset not_preset not_group by simp
        next
          case True
          obtain ok choices' st1 where o1: "dmi_field_decode_one env nested st field info choices = (ok, choices', st1)"
            by (metis prod_cases3)
          note one = reach_one [OF nested o1]
          show ?thesis
          proof (cases ok)
            case no: False
            show ?thesis
              using 2(7) not_offset not_preset not_group True o1 no one
              by (auto split: if_splits dest: reach_incomplete intro: state_reach_trans)
          next
            case yes: True
            let ?st = "if fp_from (fd_params field) > fs_defined st1 then st1\<lparr>fs_defined := fp_from (fd_params field)\<rparr> else st1"
            have run: "fields_loop env fs grp choices' info ?st = (status, st')"
              using 2(7) not_offset not_preset not_group True o1 yes by simp
            have "state_reach ?st st'"
              using 2(5) [OF not_offset not_preset not_group _ o1 [symmetric] _ _ rest] True yes run by simp
            then show ?thesis using state_reach_trans [OF one] by (simp split: if_splits)
          qed
        qed
      qed
    qed
  qed
qed

lemma reach_list: "reading_reaches (dmi_field_decode_list env fs)"
proof (induction env fs rule: dmi_field_decode_list.induct)
  case (1 env fs)
  show ?case
    unfolding reading_reaches_def
  proof (intro allI impI)
    fix a st status st'
    assume "dmi_field_decode_list env fs a st = (status, st')"
    then have run: "fields_loop env (map (\<lambda>f. (f, dmi_field_decode_list env (fd_fields f))) fs) None
        (dmi_field_choices_collect fs []) a (st\<lparr>fs_memory := set_absent fs a (fs_memory st)\<rparr>) = (status, st')"
      by (simp add: dmi_field_decode_list.simps [of env fs] decode_list_with_def comp_def)
    show "state_reach st st'"
      using reach_fields_loop [OF _ run] 1 by auto
  qed
qed

section \<open>The contract of a handler\<close>

lemma fields_decode_contract: "decode_contract (dmi_fields_decode env)"
  unfolding decode_contract_def
proof (intro allI impI)
  fix q d ok d' q'
  assume run: "dmi_fields_decode env q d = (ok, d', q')"
  show "decoder_reach (q, d) (q', d')"
  proof (cases "\<exists>spec. en_spec (dc_entity d) = Some spec \<and> sp_has_fields spec")
    case False
    then show ?thesis using run
      by (auto simp: dmi_fields_decode_def step_error split: option.splits)
  next
    case True
    then obtain spec where spec: "en_spec (dc_entity d) = Some spec" "sp_has_fields spec" by blast
    have info: "dmi_entity_info (fe_types env) q (dc_entity d) (Some (sp_type spec)) = (en_info (dc_entity d), dc_entity d, q)"
      using spec by (simp add: dmi_entity_info_def dmi_entity_spec_type_def)
    show ?thesis
    proof (cases "en_info (dc_entity d)")
      case None
      then show ?thesis using run spec info by (simp add: dmi_fields_decode_def)
    next
      case (Some m)
      let ?st = "initial_state env False q d m"
      obtain status st where l: "dmi_field_decode_list env (fe_fields env spec) 0 ?st = (status, st)" by fastforce
      have one: "decoder_reach (q, d) (fs_queue st, fs_decoder st)"
        using reading_reachesD [OF reach_list l] by (simp add: state_reach_def initial_state_def)
      let ?d1 = "(fs_decoder st)\<lparr>dc_entity := (dc_entity (fs_decoder st))\<lparr>en_info := Some (fs_memory st)\<rparr>\<rparr>"
      have two: "decoder_step (fs_queue st, fs_decoder st) (fs_queue st, ?d1)" by (rule step_info)
      have three: "decoder_step (fs_queue st, ?d1) (fs_queue st, ?d1\<lparr>dc_entity := (dc_entity ?d1)\<lparr>en_level := v\<rparr>\<rparr>)" for v
        by (rule step_level)
      have "q' = fs_queue st \<and> (d' = ?d1 \<or> d' = ?d1\<lparr>dc_entity := (dc_entity ?d1)\<lparr>en_level := fs_defined st\<rparr>\<rparr>)"
        using run spec info Some l by (auto simp: dmi_fields_decode_def Let_def)
      moreover have "decoder_reach (q, d) (fs_queue st, ?d1)" using one two by (rule rtranclp.rtrancl_into_rtrancl)
      moreover from this have "decoder_reach (q, d) (fs_queue st, ?d1\<lparr>dc_entity := (dc_entity ?d1)\<lparr>en_level := fs_defined st\<rparr>\<rparr>)"
        using three by (rule rtranclp.rtrancl_into_rtrancl)
      ultimately show ?thesis by blast
    qed
  qed
qed

end
