(* ===== verification/Field_Bits.thy ===== *)
theory Field_Bits
  imports Field_Memory Field_Laws
begin

text \<open>
  Where the engine is in the data of a structure, bit by bit. The bits of the data are numbered from the
  least significant bit of its first byte on, the way the ranges of bits share their units; a range of
  bits is the number they make. A decoder which has read ahead of the range it is to take next, and an
  encoder which has not written the bits it holds yet, are at the same bit all the same.
\<close>

definition wbit :: "byte list \<Rightarrow> nat \<Rightarrow> bool" where
  "wbit W k \<longleftrightarrow> bit (W ! (k div 8)) (k mod 8)"

definition bit_range :: "byte list \<Rightarrow> nat \<Rightarrow> nat \<Rightarrow> uintmax_t" where
  "bit_range W b n = horner_sum of_bool 2 (map (wbit W) [b..<b + n])"

lemma bit_bit_range: "bit (bit_range W b n) i \<longleftrightarrow> i < n \<and> i < 64 \<and> wbit W (b + i)"
  by (auto simp: bit_range_def bit_horner_sum_bit_word_iff)

text \<open>The data a structure is read from, and what else stays while it is.\<close>

record dmi_view =
  vw_buffer :: dmi_buffer
  vw_base :: size_t
  vw_bytes :: "byte list"
  vw_strings :: nat
  vw_version :: dmi_version_t

definition reader_at :: "dmi_view \<Rightarrow> nat \<Rightarrow> dmi_reader \<Rightarrow> bool" where
  "reader_at V p r \<longleftrightarrow> reader_wf r \<and> rd_buffer r = vw_buffer V \<and> rd_base r = vw_base V \<and>
     reader_window r = vw_bytes V \<and> unat (rd_position r) = p"

lemma reader_at_rest: "reader_at V p r \<Longrightarrow> reader_rest r = drop p (vw_bytes V)"
  by (simp add: reader_at_def reader_rest_def)

lemma reader_at_le: "reader_at V p r \<Longrightarrow> p \<le> length (vw_bytes V)"
  using length_reader_window [of r] by (auto simp: reader_at_def reader_wf_def word_le_nat_alt)

lemma reader_at_advance:
  assumes "reader_at V p r" and "p + unat n \<le> length (vw_bytes V)"
  shows "reader_at V (p + unat n) (r\<lparr>rd_position := rd_position r + n\<rparr>)"
  using assms reader_position_sum [of r "rd_position r" n]
  by (simp add: reader_at_def reader_wf_position)

lemma reader_at_get:
  assumes "reader_at V p r"
  shows "dmi_reader_get_bytes r n =
    (if p + unat n \<le> length (vw_bytes V)
     then Inr (take (unat n) (drop p (vw_bytes V)), r\<lparr>rd_position := rd_position r + n\<rparr>) else Inl Quiet)"
  using assms by (auto simp: dmi_reader_get_bytes_def reader_at_def get_bytes_at_correct)

lemma reader_at_skip:
  assumes "reader_at V p r"
  shows "dmi_reader_skip r n =
    (if p + unat n \<le> length (vw_bytes V) then Inr (r\<lparr>rd_position := rd_position r + n\<rparr>) else Inl Quiet)"
  using assms by (simp add: dmi_reader_skip_def reader_at_def advance_correct)

lemma reader_at_ref:
  assumes "reader_at V p r" and "dmi_reader_ref_bytes r n = Inr (v, r')"
  shows "v = (if n = 0 then None else Some (take (unat n) (drop p (vw_bytes V))))" and "p + unat n \<le> length (vw_bytes V)"
    and "r' = r\<lparr>rd_position := rd_position r + n\<rparr>"
proof -
  have wf: "reader_wf r" using assms(1) by (simp add: reader_at_def)
  show "v = (if n = 0 then None else Some (take (unat n) (drop p (vw_bytes V))))"
    using ref_bytes_correct(3) [OF wf assms(2)] reader_at_rest [OF assms(1)] by simp
  show "p + unat n \<le> length (vw_bytes V)" "r' = r\<lparr>rd_position := rd_position r + n\<rparr>"
    using assms(2) reader_at_skip [OF assms(1), of n]
    by (auto simp: dmi_reader_ref_bytes_def Let_def split: sum.splits if_splits)
qed

lemma reader_at_done: "reader_at V p r \<Longrightarrow> dmi_reader_is_done r \<longleftrightarrow> p = length (vw_bytes V)"
  using is_done_correct [of r] reader_at_rest [of V p r] reader_at_le [of V p r] by (auto simp: reader_at_def)

lemma reader_at_tell: "reader_at V p r \<Longrightarrow> dmi_reader_tell r = of_nat p"
  by (auto simp: reader_at_def dmi_reader_tell_def)

lemma reader_at_bound: "reader_at V p r \<Longrightarrow> p < 18446744073709551616"
  by (auto simp: reader_at_def unat_size_less)

section \<open>The decoder at a bit\<close>

definition filling :: "dmi_view \<Rightarrow> nat \<Rightarrow> dmi_field_state \<Rightarrow> bool" where
  "filling V b st \<longleftrightarrow>
     (\<exists>p. reader_at V p (fs_reader st) \<and> 8 * p = b + fs_bits_count st) \<and>
     (\<forall>i. bit (fs_bits_value st) i \<longleftrightarrow> i < fs_bits_count st \<and> wbit (vw_bytes V) (b + i))"

text \<open>What taking bits changes of a state.\<close>

definition bits_frame :: "dmi_field_state \<Rightarrow> dmi_field_state \<Rightarrow> bool" where
  "bits_frame st st' \<longleftrightarrow>
     st' = st\<lparr>fs_decoder := (fs_decoder st)\<lparr>dc_reader := fs_reader st'\<rparr>, fs_bits_value := fs_bits_value st',
       fs_bits_count := fs_bits_count st', fs_bits_taken := fs_bits_taken st'\<rparr>"

lemma bits_frame_refl [simp]: "bits_frame st st"
  by (simp add: bits_frame_def)

lemma bits_frame_fields:
  assumes "bits_frame st st'"
  shows "fs_memory st' = fs_memory st" and "fs_queue st' = fs_queue st" and "fs_optional st' = fs_optional st"
    and "fs_incomplete st' = fs_incomplete st" and "fs_version st' = fs_version st" and "fs_defined st' = fs_defined st"
    and "fs_is_part st' = fs_is_part st" and "dc_entity (fs_decoder st') = dc_entity (fs_decoder st)"
  by (subst assms [unfolded bits_frame_def]; simp)+

lemma fill_step:
  assumes at: "filling V b st" and room: "fs_bits_count st + 8 \<le> 64" and more: "b + fs_bits_count st < 8 * length (vw_bytes V)"
  shows "\<exists>data r. read_with st (dmi_decoder_get (\<lambda>bs. load_word bs :: byte) (fs_decoder st) 1) =
      (Some data, st\<lparr>fs_decoder := (fs_decoder st)\<lparr>dc_reader := r\<rparr>\<rparr>) \<and>
    filling V b (st\<lparr>fs_decoder := (fs_decoder st)\<lparr>dc_reader := r\<rparr>,
      fs_bits_value := fs_bits_value st OR push_bit (fs_bits_count st) (ucast data), fs_bits_count := fs_bits_count st + 8\<rparr>)"
proof -
  obtain p where p: "reader_at V p (fs_reader st)" "8 * p = b + fs_bits_count st"
    and bits: "\<forall>i. bit (fs_bits_value st) i \<longleftrightarrow> i < fs_bits_count st \<and> wbit (vw_bytes V) (b + i)"
    using at by (auto simp: filling_def)
  let ?W = "vw_bytes V" and ?c = "fs_bits_count st"
  have less: "p < length ?W" using more p(2) by simp
  let ?r = "(fs_reader st)\<lparr>rd_position := rd_position (fs_reader st) + 1\<rparr>"
  have byte: "take 1 (drop p ?W) = [?W ! p]" using less by (simp add: take_Suc_conv_app_nth hd_drop_conv_nth take_Suc)
  have get: "dmi_reader_get_bytes (fs_reader st) 1 = Inr ([?W ! p], ?r)"
    using reader_at_get [OF p(1), of 1] less byte by simp
  have data: "load_word [?W ! p] = ?W ! p"
    using store_load_word [of "[?W ! p]", where 'a = 8]
    by (simp add: load_word_def le_nat_def)
  have read: "read_with st (dmi_decoder_get (\<lambda>bs. load_word bs :: byte) (fs_decoder st) 1) =
      (Some (?W ! p), st\<lparr>fs_decoder := (fs_decoder st)\<lparr>dc_reader := ?r\<rparr>\<rparr>)"
    by (simp add: dmi_decoder_get_def dmi_decoder_get_bytes_def get read_with_def data)
  have at': "reader_at V (p + 1) ?r" using reader_at_advance [OF p(1), of 1] less by simp
  have "bit (fs_bits_value st OR push_bit ?c (ucast (?W ! p))) i \<longleftrightarrow> i < ?c + 8 \<and> wbit ?W (b + i)" for i
  proof (cases "?c \<le> i \<and> i < ?c + 8")
    case True
    then have "b + i = 8 * p + (i - ?c)" using p(2) by simp
    moreover have "i - ?c < 8" using True by linarith
    ultimately have "wbit ?W (b + i) \<longleftrightarrow> bit (?W ! p) (i - ?c)" by (simp add: wbit_def)
    moreover have "\<not> bit (fs_bits_value st) i" using spec [OF bits, of i] True by simp
    moreover have "i < 64" "i - ?c < 64" using True room by linarith+
    ultimately show ?thesis using True by (simp add: bit_or_iff bit_push_bit_iff bit_ucast_iff possible_bit_word)
  next
    case False
    then have "\<not> (?c \<le> i \<and> bit (?W ! p) (i - ?c))" using bit_imp_le_length [of "?W ! p" "i - ?c"] by auto
    then show ?thesis using False spec [OF bits, of i] by (auto simp: bit_or_iff bit_push_bit_iff bit_ucast_iff)
  qed
  moreover have "8 * (p + 1) = b + (?c + 8)" using p(2) by simp
  ultimately show ?thesis using read at' by (intro exI [of _ "?W ! p"] exI [of _ ?r]) (auto simp: filling_def)
qed

lemma fill_at:
  assumes "filling V b st" and "8 * ((b + n + 7) div 8) \<le> b + 64" and "b + n \<le> 8 * length (vw_bytes V)"
  shows "\<exists>st'. take_bits_fill st n = (True, st') \<and> filling V b st' \<and> bits_frame st st' \<and>
    fs_bits_taken st' = fs_bits_taken st \<and> n \<le> fs_bits_count st' \<and>
    (fs_bits_count st' < n + 8 \<or> fs_bits_count st' = fs_bits_count st)"
  using assms
proof (induction st n rule: take_bits_fill.induct)
  case (1 st n)
  show ?case
  proof (cases "fs_bits_count st < n")
    case False
    then show ?thesis using 1(2) by (simp add: take_bits_fill.simps [of st])
  next
    case True
    obtain p where p: "8 * p = b + fs_bits_count st" using 1(2) by (auto simp: filling_def)
    have "(p + 1) * 8 \<le> b + n + 7" using True p by simp
    then have "p + 1 \<le> (b + n + 7) div 8" by (simp add: less_eq_div_iff_mult_less_eq)
    then have room: "fs_bits_count st + 8 \<le> 64" using 1(3) p by simp
    obtain data r where r: "read_with st (dmi_decoder_get (\<lambda>bs. load_word bs :: byte) (fs_decoder st) 1) =
        (Some data, st\<lparr>fs_decoder := (fs_decoder st)\<lparr>dc_reader := r\<rparr>\<rparr>)"
      and fill: "filling V b (st\<lparr>fs_decoder := (fs_decoder st)\<lparr>dc_reader := r\<rparr>,
        fs_bits_value := fs_bits_value st OR push_bit (fs_bits_count st) (ucast data), fs_bits_count := fs_bits_count st + 8\<rparr>)"
      using fill_step [OF 1(2) room] True 1(4) by auto
    let ?st = "st\<lparr>fs_decoder := (fs_decoder st)\<lparr>dc_reader := r\<rparr>,
        fs_bits_value := fs_bits_value st OR push_bit (fs_bits_count st) (ucast data), fs_bits_count := fs_bits_count st + 8\<rparr>"
    from 1(1) [OF True r [symmetric] refl _ 1(3,4)] fill obtain st' where
      s: "take_bits_fill ?st n = (True, st')" "filling V b st'" "bits_frame ?st st'" "fs_bits_taken st' = fs_bits_taken ?st"
        "n \<le> fs_bits_count st'" "fs_bits_count st' < n + 8 \<or> fs_bits_count st' = fs_bits_count ?st"
      by auto
    have "take_bits_fill st n = (True, st')" using True r s(1) by (simp add: take_bits_fill.simps [of st])
    moreover have "bits_frame st st'" using s(3) unfolding bits_frame_def by (cases st; cases st') simp
    ultimately show ?thesis using s True by auto
  qed
qed

lemma fill_short:
  assumes "filling V b st" and "8 * ((b + n + 7) div 8) \<le> b + 64" and "b + n > 8 * length (vw_bytes V)"
  shows "fst (take_bits_fill st n) = False"
  using assms
proof (induction st n rule: take_bits_fill.induct)
  case (1 st n)
  obtain p where p: "reader_at V p (fs_reader st)" "8 * p = b + fs_bits_count st" using 1(2) by (auto simp: filling_def)
  have less: "fs_bits_count st < n" using p 1(4) reader_at_le [OF p(1)] by linarith
  show ?case
  proof (cases "p < length (vw_bytes V)")
    case False
    then have "dmi_reader_get_bytes (fs_reader st) 1 = Inl Quiet" using reader_at_get [OF p(1), of 1] by simp
    then show ?thesis using less
      by (simp add: take_bits_fill.simps [of st] dmi_decoder_get_def dmi_decoder_get_bytes_def read_with_def)
  next
    case True
    have "(p + 1) * 8 \<le> b + n + 7" using less p(2) by simp
    then have "p + 1 \<le> (b + n + 7) div 8" by (simp add: less_eq_div_iff_mult_less_eq)
    then have room: "fs_bits_count st + 8 \<le> 64" using 1(3) p(2) by simp
    obtain data r where r: "read_with st (dmi_decoder_get (\<lambda>bs. load_word bs :: byte) (fs_decoder st) 1) =
        (Some data, st\<lparr>fs_decoder := (fs_decoder st)\<lparr>dc_reader := r\<rparr>\<rparr>)"
      and fill: "filling V b (st\<lparr>fs_decoder := (fs_decoder st)\<lparr>dc_reader := r\<rparr>,
        fs_bits_value := fs_bits_value st OR push_bit (fs_bits_count st) (ucast data), fs_bits_count := fs_bits_count st + 8\<rparr>)"
      using fill_step [OF 1(2) room] True p(2) by auto
    show ?thesis
      using 1(1) [OF less r [symmetric] refl _ 1(3,4)] fill less r by (simp add: take_bits_fill.simps [of st])
  qed
qed

text \<open>The decoder is at a bit when it has read ahead of it by less than a byte.\<close>

definition dec_at :: "dmi_view \<Rightarrow> nat \<Rightarrow> dmi_field_state \<Rightarrow> bool" where
  "dec_at V b st \<longleftrightarrow> filling V b st \<and> fs_bits_count st < 8 \<and> b mod 8 = fs_bits_taken st mod 8 \<and>
     \<not> fs_is_part st \<and> fs_version st = vw_version V \<and>
     en_string_count (dc_entity (fs_decoder st)) = vw_strings V \<and>
     length (en_strings (dc_entity (fs_decoder st))) = vw_strings V"

lemma dec_at_bound: "dec_at V b st \<Longrightarrow> b \<le> 8 * length (vw_bytes V)"
  using reader_at_le by (fastforce simp: dec_at_def filling_def)

text \<open>Ranges that fit in a word along with the bits read before them.\<close>

definition range_ok :: "nat \<Rightarrow> nat \<Rightarrow> bool" where
  "range_ok b n \<longleftrightarrow> 0 < n \<and> (b mod 8 + n + 7) div 8 \<le> 8"

lemma range_ok_small: "0 < n \<Longrightarrow> n \<le> 56 \<Longrightarrow> range_ok b n"
proof -
  have "b mod 8 < 8" by simp
  then show "0 < n \<Longrightarrow> n \<le> 56 \<Longrightarrow> range_ok b n" by (simp add: range_ok_def)
qed

lemma range_ok_bytes: "range_ok b n \<Longrightarrow> 8 * ((b + n + 7) div 8) \<le> b + 64"
proof -
  assume ok: "range_ok b n"
  have "(b + n + 7) div 8 = b div 8 + (b mod 8 + n + 7) div 8"
    using div_mult_self4 [of 8 "b div 8" "b mod 8 + n + 7"] by (simp add: add.assoc [symmetric])
  moreover have "8 * (b div 8) \<le> b" by simp
  ultimately show ?thesis using ok unfolding range_ok_def by linarith
qed

lemma range_ok_width: "range_ok b n \<Longrightarrow> n \<le> 64"
  by (simp add: range_ok_def) linarith

lemma bits_mask: "bit (push_bit n 1 - 1 :: uintmax_t) i \<longleftrightarrow> i < n \<and> i < 64"
  using bit_mask_iff [of n i, where 'a = uintmax_t] by (auto simp: mask_eq_exp_minus_1 push_bit_eq_mult possible_bit_word)

lemma take_bits_at:
  assumes at: "dec_at V b st" and ok: "range_ok b n" and fits: "b + n \<le> 8 * length (vw_bytes V)"
  shows "\<exists>st'. dmi_field_take_bits st n = (Some (bit_range (vw_bytes V) b n), st') \<and> dec_at V (b + n) st' \<and>
    bits_frame st st' \<and> fs_bits_taken st' = fs_bits_taken st + n"
proof -
  have f: "filling V b st" using at by (simp add: dec_at_def)
  obtain st1 where s: "take_bits_fill st n = (True, st1)" "filling V b st1" "bits_frame st st1"
      "fs_bits_taken st1 = fs_bits_taken st" "n \<le> fs_bits_count st1"
      "fs_bits_count st1 < n + 8 \<or> fs_bits_count st1 = fs_bits_count st"
    using fill_at [OF f range_ok_bytes [OF ok] fits] by blast
  let ?st = "st1\<lparr>fs_bits_value := drop_bit n (fs_bits_value st1), fs_bits_count := fs_bits_count st1 - n,
     fs_bits_taken := fs_bits_taken st1 + n\<rparr>"
  have bits: "bit (fs_bits_value st1) i \<longleftrightarrow> i < fs_bits_count st1 \<and> wbit (vw_bytes V) (b + i)" for i
    using s(2) by (simp add: filling_def)
  have "fs_bits_value st1 AND (push_bit n 1 - 1) = bit_range (vw_bytes V) b n"
  proof (rule bit_word_eqI)
    fix i assume "i < LENGTH(64)"
    then show "bit (fs_bits_value st1 AND (push_bit n 1 - 1)) i \<longleftrightarrow> bit (bit_range (vw_bytes V) b n) i"
      using s(5) bits [of i] by (simp only: bit_and_iff bits_mask bit_bit_range) auto
  qed
  then have "dmi_field_take_bits st n = (Some (bit_range (vw_bytes V) b n), ?st)"
    by (simp add: dmi_field_take_bits_def s(1))
  moreover have "filling V (b + n) ?st"
  proof -
    have "bit (drop_bit n (fs_bits_value st1)) i \<longleftrightarrow> i < fs_bits_count st1 - n \<and> wbit (vw_bytes V) (b + n + i)" for i
      by (auto simp: bit_drop_bit_eq bits add.assoc)
    then show ?thesis using s(2,5) by (auto simp: filling_def)
  qed
  moreover have "fs_bits_count ?st < 8" using s(6) at s(5) by (auto simp: dec_at_def)
  moreover have "(b + n) mod 8 = fs_bits_taken ?st mod 8" using at s(4) by (simp add: dec_at_def) (metis mod_add_left_eq)
  moreover have "bits_frame st ?st" using s(3) unfolding bits_frame_def by (cases st; cases st1) simp
  moreover from bits_frame_fields [OF this] have "dec_at V (b + n) ?st"
    using calculation at by (simp add: dec_at_def)
  ultimately show ?thesis using s(4) by (intro exI [of _ ?st]) simp
qed

lemma take_bits_short:
  assumes "dec_at V b st" and "range_ok b n" and "8 * length (vw_bytes V) < b + n"
  shows "fst (dmi_field_take_bits st n) = None"
  using fill_short [OF _ range_ok_bytes [OF assms(2)] assms(3), of st] assms(1)
  by (auto simp: dmi_field_take_bits_def dec_at_def split: prod.splits bool.splits)

end
