(* ===== verification/Field_Mirror.thy ===== *)
theory Field_Mirror
  imports Field_Bits
begin

text \<open>
  What has been read by a list of fields is written back, in the preserve mode, into the bytes it has been
  read from. The reading and the writing of a field are followed side by side: from the same bit of the
  data they come to the same bit, the encoder having written the bytes up to it, as long as the
  memory the writing sees still holds what the reading has stored.
\<close>

section \<open>The encoder at a bit\<close>

definition source_at :: "dmi_view \<Rightarrow> nat \<Rightarrow> dmi_memory dmi_encoder \<Rightarrow> bool" where
  "source_at V p ec \<longleftrightarrow> encoder_wf ec \<and> ec_mode ec = DMI_ENCODE_MODE_PRESERVE \<and>
     (\<exists>r. ec_source ec = Some r \<and> reader_at V p r) \<and>
     length (writer_written (ec_writer ec)) = p \<and>
     drop 4 (writer_written (ec_writer ec)) = drop 4 (take p (vw_bytes V)) \<and>
     unat (wr_base (ec_writer ec)) + length (vw_bytes V) \<le> 18446744073709551488 \<and>
     en_string_count (ec_entity ec) = vw_strings V"

definition out_frame :: "dmi_field_output \<Rightarrow> dmi_field_output \<Rightarrow> bool" where
  "out_frame out out' \<longleftrightarrow> encoder_frame (fo_encoder out) (fo_encoder out') \<and> fo_queue out' = fo_queue out"

lemma out_frame_refl [simp]: "out_frame out out"
  by (simp add: out_frame_def)

lemma out_frame_trans: "out_frame a b \<Longrightarrow> out_frame b c \<Longrightarrow> out_frame a c"
  by (auto simp: out_frame_def intro: encoder_frame_trans)

lemma source_at_le: "source_at V p ec \<Longrightarrow> p \<le> length (vw_bytes V)"
  using reader_at_le by (auto simp: source_at_def)

lemma source_at_remaining:
  assumes "source_at V p ec"
  shows "unat (dmi_encoder_remaining ec) = length (vw_bytes V) - p"
proof -
  obtain r where r: "ec_source ec = Some r" "reader_at V p r" using assms by (auto simp: source_at_def)
  then have "reader_wf r" by (simp add: reader_at_def)
  then show ?thesis using remaining_correct reader_at_rest [OF r(2)] by (simp add: dmi_encoder_remaining_def r(1))
qed

lemma source_at_peek:
  assumes "source_at V p ec" and "p + unat n \<le> length (vw_bytes V)"
  shows "dmi_encoder_peek ec n = Inr (take (unat n) (drop p (vw_bytes V)))"
proof -
  obtain r where r: "ec_source ec = Some r" "reader_at V p r" using assms by (auto simp: source_at_def)
  then show ?thesis using assms(2)
    by (auto simp: dmi_encoder_peek_def reader_at_def get_bytes_at_correct)
qed

lemma source_at_put:
  assumes at: "source_at V p ec" and h: "generous h" and fits: "p + n \<le> length (vw_bytes V)" and p: "4 \<le> p"
  shows "\<exists>ec'. dmi_encoder_put_bytes h q ec (take n (drop p (vw_bytes V))) = (True, ec', q) \<and> source_at V (p + n) ec' \<and>
    encoder_frame ec ec'"
proof (cases "n = 0")
  case True
  then show ?thesis using at by (simp add: dmi_encoder_put_bytes_def)
next
  case False
  let ?W = "vw_bytes V"
  let ?run = "take n (drop p ?W)"
  obtain r where r: "ec_source ec = Some r" "reader_at V p r" and wf: "encoder_wf ec"
    and len: "length (writer_written (ec_writer ec)) = p"
    and bytes: "drop 4 (writer_written (ec_writer ec)) = drop 4 (take p ?W)"
    and room: "unat (wr_base (ec_writer ec)) + length ?W \<le> 18446744073709551488"
    using at by (auto simp: source_at_def)
  have run: "length ?run = n" "?run \<noteq> []" using fits False by auto
  have bound: "length ?W < 18446744073709551616"
    using r(2) reader_window_bound [of r] by (simp add: reader_at_def)
  have size: "unat (size_of ?run) = n" using run(1) bound fits by (simp add: unat_size_of)
  obtain ec' where put: "dmi_encoder_put_bytes h q ec ?run = (True, ec', q)"
    using encoder_put_succeeds [OF wf h, of ?run q] len room fits run(1) by auto
  note c = encoder_put_correct [OF wf _ put]
  have c1: "length ?run < 18446744073709551616" using run(1) fits bound by simp
  obtain w where w: "dmi_writer_put_bytes h (ec_writer ec) ?run = Inr w"
    using put run(2) by (auto simp: dmi_encoder_put_bytes_def split: sum.splits)
  let ?ec1 = "ec\<lparr>ec_writer := w\<rparr>"
  have rem: "dmi_encoder_remaining ?ec1 = dmi_reader_remaining r" by (simp add: dmi_encoder_remaining_def r(1))
  have rem_n: "unat (dmi_reader_remaining r) = length ?W - p"
    using source_at_remaining [OF at] by (simp add: dmi_encoder_remaining_def r(1))
  have skipped: "(if size_of ?run < dmi_reader_remaining r then size_of ?run else dmi_reader_remaining r) = size_of ?run"
  proof -
    have "size_of ?run \<le> dmi_reader_remaining r" using rem_n size fits by (simp add: word_le_nat_alt)
    then show ?thesis by (simp add: not_less)
  qed
  let ?r = "r\<lparr>rd_position := rd_position r + size_of ?run\<rparr>"
  have skip: "dmi_reader_skip r (size_of ?run) = Inr ?r" using reader_at_skip [OF r(2)] size fits by simp
  have pos: "dmi_reader_remaining r > 0" using rem_n fits False by (simp add: word_less_nat_alt)
  have "ec_source ec' = Some ?r"
    using put run(2) w skip pos skipped rem r(1) by (auto simp: dmi_encoder_put_bytes_def Let_def)
  moreover have "reader_at V (p + n) ?r" using reader_at_advance [OF r(2), of "size_of ?run"] size fits by simp
  moreover have "writer_written (ec_writer ec') = writer_written (ec_writer ec) @ ?run" using c(4) c1 by simp
  moreover have "drop 4 (take p ?W) @ ?run = drop 4 (take (p + n) ?W)"
    using p fits by (simp add: take_add drop_append)
  ultimately show ?thesis
    using put c(2,3) c1 len bytes run(1) at p
    by (intro exI [of _ ec']) (auto simp: source_at_def encoder_frame_def)
qed

lemma source_at_copy:
  assumes h: "generous h" and p: "4 \<le> p"
  shows "source_at V p ec \<Longrightarrow> p + n \<le> length (vw_bytes V) \<Longrightarrow>
    \<exists>ec'. dmi_encoder_copy h q ec n = (True, ec', q) \<and> source_at V (p + n) ec' \<and> encoder_frame ec ec'"
  using p
proof (induction n arbitrary: ec p)
  case 0
  then show ?case by auto
next
  case (Suc n)
  have peek: "dmi_encoder_peek ec 1 = Inr (take 1 (drop p (vw_bytes V)))"
    using source_at_peek [OF Suc.prems(1), of 1] Suc.prems(2) by simp
  obtain ec1 where one: "dmi_encoder_put_bytes h q ec (take 1 (drop p (vw_bytes V))) = (True, ec1, q)"
      "source_at V (p + 1) ec1" "encoder_frame ec ec1"
    using source_at_put [OF Suc.prems(1) h, of 1 q] Suc.prems(2,3) by auto
  obtain ec' where rest: "dmi_encoder_copy h q ec1 n = (True, ec', q)" "source_at V (p + 1 + n) ec'" "encoder_frame ec1 ec'"
    using Suc.IH [OF one(2)] Suc.prems(2,3) by auto
  have "ec_mode ec = DMI_ENCODE_MODE_PRESERVE" using Suc.prems(1) by (simp add: source_at_def)
  then have "dmi_encoder_copy h q ec (Suc n) = (True, ec', q)" using peek one(1) rest(1) by simp
  then show ?case using rest(2) encoder_frame_trans [OF one(3) rest(3)] by (intro exI [of _ ec']) simp
qed

text \<open>An encoder at a bit has written the whole bytes before it, and holds the bits of the byte it is in.\<close>

definition enc_holds :: "dmi_view \<Rightarrow> nat \<Rightarrow> dmi_field_output \<Rightarrow> bool" where
  "enc_holds V b out \<longleftrightarrow> fo_version out = vw_version V \<and>
     (\<exists>p. source_at V p (fo_encoder out) \<and> b = 8 * p + fo_bits_count out \<and> 4 \<le> p \<and>
       (\<forall>i. bit (fo_bits_value out) i \<longleftrightarrow> i < fo_bits_count out \<and> wbit (vw_bytes V) (8 * p + i)))"

definition enc_at :: "dmi_view \<Rightarrow> nat \<Rightarrow> dmi_field_output \<Rightarrow> bool" where
  "enc_at V b out \<longleftrightarrow> enc_holds V b out \<and> fo_bits_count out < 8"

lemma enc_at_place:
  assumes "enc_at V b out"
  shows "source_at V (b div 8) (fo_encoder out)" and "fo_bits_count out = b mod 8" and "32 \<le> b"
    and "bit (fo_bits_value out) i \<longleftrightarrow> i < b mod 8 \<and> wbit (vw_bytes V) (8 * (b div 8) + i)"
proof -
  obtain p where p: "source_at V p (fo_encoder out)" "b = 8 * p + fo_bits_count out" "4 \<le> p"
    "\<forall>i. bit (fo_bits_value out) i \<longleftrightarrow> i < fo_bits_count out \<and> wbit (vw_bytes V) (8 * p + i)"
    and "fo_bits_count out < 8"
    using assms by (auto simp: enc_at_def enc_holds_def)
  then have d: "b div 8 = p" "b mod 8 = fo_bits_count out" by auto
  show "source_at V (b div 8) (fo_encoder out)" "fo_bits_count out = b mod 8" using d p(1) by simp_all
  show "32 \<le> b" using p(2,3) by simp
  show "bit (fo_bits_value out) i \<longleftrightarrow> i < b mod 8 \<and> wbit (vw_bytes V) (8 * (b div 8) + i)"
    using d spec [OF p(4), of i] by simp
qed

lemma wbit_byte: "j < 8 \<Longrightarrow> wbit W (8 * p + j) = bit (W ! p) j"
  by (simp add: wbit_def)

lemma flush_at:
  shows "generous (fw_heap w) \<Longrightarrow> enc_holds V b out \<Longrightarrow> b \<le> 8 * length (vw_bytes V) \<Longrightarrow> fo_bits_count out \<le> 64 \<Longrightarrow>
    \<exists>out'. put_bits_flush w out = (True, out') \<and> enc_at V b out' \<and> out_frame out out' \<and>
      fo_bits_taken out' = fo_bits_taken out \<and> fo_stopped out' = fo_stopped out"
proof (induction w out rule: put_bits_flush.induct)
  case (1 w out)
  obtain p where p: "source_at V p (fo_encoder out)" "b = 8 * p + fo_bits_count out" "4 \<le> p"
    and bits: "\<forall>i. bit (fo_bits_value out) i \<longleftrightarrow> i < fo_bits_count out \<and> wbit (vw_bytes V) (8 * p + i)"
    and version: "fo_version out = vw_version V"
    using 1(3) by (auto simp: enc_holds_def)
  show ?case
  proof (cases "8 \<le> fo_bits_count out")
    case False
    then show ?thesis using 1(3) by (simp add: put_bits_flush.simps [of w out] enc_at_def)
  next
    case True
    let ?W = "vw_bytes V"
    have less: "p < length ?W" using 1(4) p(2) True by simp
    have byte: "ucast (fo_bits_value out AND 0xFF) = ?W ! p"
    proof (rule bit_word_eqI)
      fix j assume "j < LENGTH(8)"
      then have j: "j < 8" by simp
      then show "bit (ucast (fo_bits_value out AND 0xFF) :: byte) j = bit (?W ! p) j"
        using spec [OF bits, of j] True wbit_byte [OF j, of ?W p]
        by (simp only: bit_ucast_iff bit_and_iff bit_byte_mask) simp
    qed
    have run: "take 1 (drop p ?W) = [?W ! p]" using less by (simp add: take_Suc_conv_app_nth hd_drop_conv_nth take_Suc)
    obtain ec where ec: "dmi_encoder_put_bytes (fw_heap w) (fo_queue out) (fo_encoder out) [?W ! p] = (True, ec, fo_queue out)"
        "source_at V (p + 1) ec" "encoder_frame (fo_encoder out) ec"
      using source_at_put [OF p(1) 1(2), of 1 "fo_queue out"] less p(3) run by auto
    let ?out1 = "out\<lparr>fo_encoder := ec, fo_queue := fo_queue out\<rparr>"
    have put: "put_bytes w out [ucast (fo_bits_value out AND 0xFF)] = (True, ?out1)"
      by (simp add: put_bytes_def write_with_def byte ec(1))
    let ?out = "?out1\<lparr>fo_bits_value := drop_bit 8 (fo_bits_value out), fo_bits_count := fo_bits_count out - 8\<rparr>"
    have "bit (drop_bit 8 (fo_bits_value out)) i \<longleftrightarrow> i < fo_bits_count out - 8 \<and> wbit ?W (8 * (p + 1) + i)" for i
      using spec [OF bits, of "8 + i"] True by (auto simp: bit_drop_bit_eq algebra_simps)
    then have holds: "enc_holds V b ?out"
      unfolding enc_holds_def using ec(2) p(2,3) True version by (intro conjI exI [of _ "p + 1"]) auto
    have "fo_bits_count ?out \<le> 64" using 1(5) by simp
    note rest = 1(1) [OF True put [symmetric] refl 1(2) holds 1(4) this]
    obtain out' where "put_bits_flush w ?out = (True, out')" "enc_at V b out'" "out_frame ?out out'"
        "fo_bits_taken out' = fo_bits_taken ?out" "fo_stopped out' = fo_stopped ?out"
      using rest by (elim exE conjE) (rule that; assumption)
    moreover have "out_frame out ?out" using ec(3) by (simp add: out_frame_def)
    moreover have "put_bits_flush w out = put_bits_flush w ?out" using True put by (simp add: put_bits_flush.simps [of w out])
    ultimately show ?thesis using out_frame_trans by (intro exI [of _ out']) auto
  qed
qed

lemma range_ok_count: "range_ok b n \<Longrightarrow> b mod 8 + n \<le> 64"
  unfolding range_ok_def by linarith

lemma put_bits_at:
  assumes h: "generous (fw_heap w)" and at: "enc_at V b out" and ok: "range_ok b n" and fits: "b + n \<le> 8 * length (vw_bytes V)"
  shows "\<exists>out'. dmi_field_put_bits w out (bit_range (vw_bytes V) b n) n = (True, out') \<and> enc_at V (b + n) out' \<and>
    out_frame out out' \<and> fo_bits_taken out' = fo_bits_taken out + n \<and> fo_stopped out' = fo_stopped out"
proof -
  let ?W = "vw_bytes V" and ?c = "b mod 8" and ?p = "b div 8"
  note place = enc_at_place [OF at]
  have b: "b = 8 * ?p + ?c" by simp
  define raw where "raw = bit_range ?W b n AND (push_bit n 1 - 1)"
  let ?out = "out\<lparr>fo_bits_value := fo_bits_value out OR push_bit (fo_bits_count out) raw,
    fo_bits_count := fo_bits_count out + n, fo_bits_taken := fo_bits_taken out + n\<rparr>"
  have bits: "bit (fo_bits_value ?out) i \<longleftrightarrow> i < ?c + n \<and> wbit ?W (8 * ?p + i)" for i
  proof (cases "i < ?c")
    case True
    then show ?thesis using place(4) [of i] by (simp add: place(2) bit_or_iff bit_push_bit_iff)
  next
    case False
    then have i: "b + (i - ?c) = 8 * ?p + i" using b by linarith
    have "bit raw (i - ?c) \<longleftrightarrow> i - ?c < n \<and> i - ?c < 64 \<and> wbit ?W (8 * ?p + i)"
      unfolding raw_def bit_and_iff bits_mask bit_bit_range i by blast
    moreover have "i - ?c < n \<longleftrightarrow> i < ?c + n" using False by linarith
    ultimately show ?thesis
      using False place(4) [of i] range_ok_count [OF ok]
      by (auto simp: place(2) bit_or_iff bit_push_bit_iff possible_bit_word)
  qed
  have "enc_holds V (b + n) ?out"
    unfolding enc_holds_def
    using bits place at by (intro conjI exI [of _ ?p]) (auto simp: enc_at_def enc_holds_def)
  moreover have "fo_bits_count ?out \<le> 64" using range_ok_count [OF ok] place(2) by simp
  ultimately obtain out' where "put_bits_flush w ?out = (True, out')" "enc_at V (b + n) out'" "out_frame ?out out'"
      "fo_bits_taken out' = fo_bits_taken ?out" "fo_stopped out' = fo_stopped ?out"
    using flush_at [OF h _ fits] by blast
  then show ?thesis by (intro exI [of _ out']) (auto simp: dmi_field_put_bits_def out_frame_def raw_def)
qed

lemma source_bits_at:
  assumes at: "enc_at V b out" and ok: "range_ok b n" and fits: "b + n \<le> 8 * length (vw_bytes V)"
  shows "dmi_field_source_bits out n = bit_range (vw_bytes V) b n"
proof -
  define W where "W = vw_bytes V"
  define p where "p = b div 8"
  define c where "c = b mod 8"
  define len where "len = (c + n + 7) div 8"
  have b: "b = 8 * p + c" by (simp add: p_def c_def)
  have src: "source_at V p (fo_encoder out)" and count: "fo_bits_count out = c"
    using enc_at_place [OF at] by (simp_all add: p_def c_def)
  have len: "len \<le> 8" using ok by (simp add: range_ok_def len_def c_def)
  have cover: "c + n \<le> 8 * len" unfolding len_def by linarith
  have enough: "p + len \<le> length W"
  proof -
    have "8 * p + (c + n) \<le> 8 * length W" using fits b by (simp add: W_def)
    then show ?thesis unfolding len_def by linarith
  qed
  have size: "unat (of_nat len :: size_t) = len" using len by (simp add: unat_of_nat_size)
  have bytes: "(c + n + 8 - 1) div 8 = len" by (simp add: len_def)
  define run where "run = take len (drop p W)"
  have peek: "dmi_encoder_peek (fo_encoder out) (of_nat len) = Inr run"
    using source_at_peek [OF src, of "of_nat len"] enough size by (simp add: run_def W_def)
  have run: "length run = len" using enough by (simp add: run_def)
  have le: "bit (dmi_field_le_load run) k \<longleftrightarrow> k < 8 * len \<and> wbit W (8 * p + k)" for k
  proof (cases "k < 8 * len")
    case True
    then have "k div 8 < len" by (simp add: less_mult_imp_div_less mult.commute)
    then have "run ! (k div 8) = W ! (p + k div 8)" using enough by (simp add: run_def)
    moreover have "(8 * p + k) div 8 = p + k div 8" "(8 * p + k) mod 8 = k mod 8" by simp_all
    ultimately show ?thesis using bit_le_load [of run k] run len True by (simp add: wbit_def)
  next
    case False
    then show ?thesis using bit_le_load [of run k] run len by simp
  qed
  have "bit (drop_bit c (dmi_field_le_load run) AND (push_bit n 1 - 1)) i \<longleftrightarrow> bit (bit_range W b n) i" for i
  proof -
    have "8 * p + (c + i) = b + i" using b by simp
    moreover have "i < n \<Longrightarrow> c + i < 8 * len" using cover by simp
    ultimately show ?thesis
      unfolding bit_and_iff bit_drop_bit_eq comp_def bits_mask le bit_bit_range by metis
  qed
  then have "drop_bit c (dmi_field_le_load run) AND (push_bit n 1 - 1) = bit_range W b n"
    by (intro bit_eqI) blast
  moreover have "\<not> 8 < len" using len by simp
  ultimately show ?thesis
    by (simp only: dmi_field_source_bits_def Let_def count bytes peek if_False sum.case W_def)
qed

section \<open>Whole bytes\<close>

lemma enc_aligned:
  assumes "enc_at V b out" and "b mod 8 = 0"
  shows "source_at V (b div 8) (fo_encoder out)" and "fo_bits_count out = 0" and "4 \<le> b div 8"
  using enc_at_place [OF assms(1)] assms(2) by simp_all

lemma enc_at_bytes:
  assumes at: "enc_at V b out" and b: "b mod 8 = 0" and ec: "source_at V (b div 8 + n) ec" and out': "out' = out\<lparr>fo_encoder := ec, fo_queue := q\<rparr>"
  shows "enc_at V (b + 8 * n) out'"
proof -
  note a = enc_aligned [OF at b]
  have none: "\<not> bit (fo_bits_value out) i" for i using enc_at_place(4) [OF at, of i] b by simp
  have "fo_version out = vw_version V" using at by (simp add: enc_at_def enc_holds_def)
  moreover have "b + 8 * n = 8 * (b div 8 + n)" using b by presburger
  ultimately show ?thesis using ec a none unfolding out' enc_at_def enc_holds_def
    by (intro conjI exI [of _ "b div 8 + n"]) auto
qed

lemma put_run_at:
  assumes h: "generous (fw_heap w)" and at: "enc_at V b out" and b: "b mod 8 = 0" and fits: "b div 8 + n \<le> length (vw_bytes V)"
  shows "\<exists>out'. put_bytes w out (take n (drop (b div 8) (vw_bytes V))) = (True, out') \<and> enc_at V (b + 8 * n) out' \<and>
    out_frame out out' \<and> fo_bits_taken out' = fo_bits_taken out \<and> fo_stopped out' = fo_stopped out"
proof -
  note a = enc_aligned [OF at b]
  obtain ec where ec: "dmi_encoder_put_bytes (fw_heap w) (fo_queue out) (fo_encoder out) (take n (drop (b div 8) (vw_bytes V))) =
      (True, ec, fo_queue out)" "source_at V (b div 8 + n) ec" "encoder_frame (fo_encoder out) ec"
    using source_at_put [OF a(1) h fits a(3)] by blast
  show ?thesis
    using ec(1,3) enc_at_bytes [OF at b ec(2) refl, of "fo_queue out"]
    by (intro exI [of _ "out\<lparr>fo_encoder := ec, fo_queue := fo_queue out\<rparr>"]) (simp add: put_bytes_def write_with_def out_frame_def)
qed

lemma put_reserved_at:
  assumes h: "generous (fw_heap w)" and at: "enc_at V b out" and b: "b mod 8 = 0" and fits: "b div 8 + unat n \<le> length (vw_bytes V)"
  shows "\<exists>out'. dmi_field_put_reserved w out n = (True, out') \<and> enc_at V (b + 8 * unat n) out' \<and>
    out_frame out out' \<and> fo_bits_taken out' = fo_bits_taken out \<and> fo_stopped out' = fo_stopped out"
proof -
  note a = enc_aligned [OF at b]
  obtain ec where ec: "dmi_encoder_copy (fw_heap w) (fo_queue out) (fo_encoder out) (unat n) =
      (True, ec, fo_queue out)" "source_at V (b div 8 + unat n) ec" "encoder_frame (fo_encoder out) ec"
    using source_at_copy [OF h a(3) a(1) fits] by blast
  show ?thesis
    using ec(1,3) enc_at_bytes [OF at b ec(2) refl, of "fo_queue out"]
    by (intro exI [of _ "out\<lparr>fo_encoder := ec, fo_queue := fo_queue out\<rparr>"]) (simp add: dmi_field_put_reserved_def write_with_def out_frame_def)
qed

lemma dec_aligned:
  assumes "dec_at V b st" and "b mod 8 = 0"
  shows "reader_at V (b div 8) (fs_reader st)" and "fs_bits_count st = 0"
proof -
  obtain p where p: "reader_at V p (fs_reader st)" "8 * p = b + fs_bits_count st" "fs_bits_count st < 8"
    using assms(1) by (auto simp: dec_at_def filling_def)
  moreover from p(2) have "(b + fs_bits_count st) mod 8 = 0" by (metis mod_mult_self1_is_0)
  then have "fs_bits_count st mod 8 = 0" using assms(2) by presburger
  ultimately have "fs_bits_count st = 0" "b div 8 = p" by simp_all
  then show "reader_at V (b div 8) (fs_reader st)" "fs_bits_count st = 0" using p(1) by simp_all
qed

text \<open>What reading whole bytes keeps of a state.\<close>

definition read_frame :: "dmi_field_state \<Rightarrow> dmi_field_state \<Rightarrow> bool" where
  "read_frame st st' \<longleftrightarrow> fs_bits_value st' = fs_bits_value st \<and> fs_bits_count st' = fs_bits_count st \<and>
     fs_bits_taken st' = fs_bits_taken st \<and> fs_is_part st' = fs_is_part st \<and> fs_version st' = fs_version st \<and>
     en_string_count (dc_entity (fs_decoder st')) = en_string_count (dc_entity (fs_decoder st)) \<and>
     length (en_strings (dc_entity (fs_decoder st'))) = length (en_strings (dc_entity (fs_decoder st)))"

lemma read_frame_refl [simp]: "read_frame st st"
  by (simp add: read_frame_def)

lemma dec_at_bytes:
  assumes at: "dec_at V b st" and b: "b mod 8 = 0" and r: "reader_at V (b div 8 + n) (fs_reader st')" and same: "read_frame st st'"
  shows "dec_at V (b + 8 * n) st'"
proof -
  have count: "fs_bits_count st = 0" by (rule dec_aligned(2) [OF at b])
  have none: "\<not> bit (fs_bits_value st) i" for i using at count by (simp add: dec_at_def filling_def)
  have "8 * (b div 8 + n) = b + 8 * n" using b by presburger
  then have "filling V (b + 8 * n) st'"
    unfolding filling_def using r same count none by (auto simp: read_frame_def)
  then show ?thesis using at same count by (simp add: dec_at_def read_frame_def)
qed

end
