(* ===== verification/Field_Round.thy ===== *)
theory Field_Round
  imports Field_Mirror
begin

text \<open>
  The fields which are written back the way they were read, and the proof that they are: numbers, strings,
  UUIDs, bytes of a fixed length, ranges of bits with their padding, skipped bytes, groups, offsets, presets,
  nested structures and vectors, with any handlers which store a value that depends on the data
  alone. Binary-coded decimals, which are written from the number they spell, arrays and extended fields
  are left out.
\<close>

section \<open>Which fields\<close>

text \<open>What a field stores is a run of cells which depends on its data and fills its member.\<close>

definition stores_cells :: "dmi_field_env \<Rightarrow> dmi_field \<Rightarrow> (uintmax_t \<Rightarrow> dmi_string_ref option \<Rightarrow> dmi_binary \<Rightarrow> dmi_cell list) \<Rightarrow> bool" where
  "stores_cells env f cells \<longleftrightarrow>
     (\<forall>data m a. dmi_field_apply env f data m (Some a) =
        (True, mem_store m a (cells (da_number data) (da_string data) (da_binary data)))) \<and>
     (\<forall>n s b. length (cells n s b) = mr_size (fd_member f))"

definition storable :: "dmi_field_env \<Rightarrow> dmi_field \<Rightarrow> bool" where
  "storable env f \<longleftrightarrow> (\<exists>cells. stores_cells env f cells) \<and> dmi_member_is_present (fd_member f) \<and>
     mr_size (fd_member f) \<le> DMI_FIELD_PROBE_SIZE \<and> (fp_decode (fd_params f) \<noteq> None \<longrightarrow> fp_encode (fd_params f) \<noteq> None)"

definition field_ok :: "dmi_field_env \<Rightarrow> dmi_field \<Rightarrow> bool" where
  "field_ok env f \<longleftrightarrow> \<not> fp_extended (fd_params f) \<and>
     (case fd_type f of
        DMI_FIELD_TYPE_INTEGER \<Rightarrow> fp_length (fd_params f) \<noteq> 0 \<and> fp_length (fd_params f) \<le> 8 \<and> storable env f
      | DMI_FIELD_TYPE_STRING \<Rightarrow> fp_length (fd_params f) = 1 \<and> storable env f
      | DMI_FIELD_TYPE_UUID \<Rightarrow> fp_length (fd_params f) = 16 \<and> mr_size (fd_member f) = 16
      | DMI_FIELD_TYPE_BINARY \<Rightarrow> fp_length (fd_params f) \<noteq> 0 \<and> fp_length (fd_params f) \<noteq> DMI_FIELD_LENGTH_REST \<and>
          fp_length (fd_params f) \<noteq> DMI_FIELD_LENGTH_MEMBER \<and> storable env f
      | DMI_FIELD_TYPE_BITS \<Rightarrow> 0 < fp_bits (fd_params f) \<and> fp_bits (fd_params f) \<le> 56 \<and>
          (dmi_member_is_present (fd_member f) \<longrightarrow> storable env f)
      | DMI_FIELD_TYPE_PAD \<Rightarrow> fp_bits (fd_params f) \<in> {8, 16, 24, 32, 40, 48, 56, 64}
      | DMI_FIELD_TYPE_GROUP \<Rightarrow> mr_size (fp_present (fd_params f)) \<in> {0, 1, 2, 4, 8}
      | DMI_FIELD_TYPE_STRUCT \<Rightarrow> dmi_member_is_present (fd_member f)
      | DMI_FIELD_TYPE_VECTOR \<Rightarrow> dmi_member_is_present (fd_member f)
      | DMI_FIELD_TYPE_BCD \<Rightarrow> False
      | DMI_FIELD_TYPE_ARRAY \<Rightarrow> False
      | _ \<Rightarrow> True)"

text \<open>
  Where a list stores, as offsets from its structure: \<open>span_of\<close> for one field, given where the fields
  nested in it store, and with the values set before anything is read for the whole list.
\<close>

definition span_of :: "dmi_member_ref \<Rightarrow> dmi_field_type \<Rightarrow> dmi_field_params \<Rightarrow> nat list \<Rightarrow> nat list" where
  "span_of member type params inner =
    (case type of
       DMI_FIELD_TYPE_GROUP \<Rightarrow> [mr_offset (fp_present params)..<mr_offset (fp_present params) + mr_size (fp_present params)]
     | DMI_FIELD_TYPE_SKIP \<Rightarrow> []
     | DMI_FIELD_TYPE_PAD \<Rightarrow> []
     | DMI_FIELD_TYPE_OFFSET \<Rightarrow> []
     | DMI_FIELD_TYPE_PRESET \<Rightarrow> []
     | DMI_FIELD_TYPE_STRUCT \<Rightarrow> map ((+) (mr_offset member)) inner
     | DMI_FIELD_TYPE_VECTOR \<Rightarrow>
         concat (map (\<lambda>i. map ((+) (mr_offset member + i * mr_size member)) inner) [0..<fp_count params])
     | _ \<Rightarrow> [mr_offset member..<mr_offset member + mr_size member])"

definition absent_span :: "dmi_member_ref \<Rightarrow> dmi_field_params \<Rightarrow> nat list" where
  "absent_span member params =
    (if fp_absent params \<noteq> None then [mr_offset member..<mr_offset member + mr_size member] else [])"

fun list_span :: "dmi_field list \<Rightarrow> nat list" where
  "list_span [] = []"
| "list_span (Dmi_field member type params nested # fs) =
    absent_span member params @ span_of member type params (list_span nested) @ list_span fs"

definition field_span :: "dmi_field \<Rightarrow> nat list" where
  "field_span f = span_of (fd_member f) (fd_type f) (fd_params f) (list_span (fd_fields f))"

text \<open>No field of a list stores where another does, unless before anything is read.\<close>

fun apart :: "dmi_field list \<Rightarrow> bool" where
  "apart [] \<longleftrightarrow> True"
| "apart (f # fs) \<longleftrightarrow> list_all (\<lambda>g. list_all (\<lambda>x. x \<notin> set (field_span g)) (field_span f)) fs \<and> apart fs"

text \<open>Ranges of bits are closed before anything else is read: \<open>k\<close> bits of the byte have been taken.\<close>

fun bits_closed :: "dmi_version_t \<Rightarrow> nat \<Rightarrow> dmi_field list \<Rightarrow> bool" where
  "bits_closed version k [] \<longleftrightarrow> k = 0"
| "bits_closed version k (f # fs) \<longleftrightarrow>
    (if fd_type f = DMI_FIELD_TYPE_OFFSET \<or> fd_type f = DMI_FIELD_TYPE_PRESET \<or> fd_type f = DMI_FIELD_TYPE_GROUP
     then k = 0 \<and> bits_closed version k fs
     else if \<not> dmi_field_is_defined f version then bits_closed version k fs
     else if fd_type f = DMI_FIELD_TYPE_BITS then bits_closed version ((k + fp_bits (fd_params f)) mod 8) fs
     else if fd_type f = DMI_FIELD_TYPE_PAD then bits_closed version 0 fs
     else k = 0 \<and> bits_closed version k fs)"

inductive fields_ok :: "dmi_field_env \<Rightarrow> dmi_field list \<Rightarrow> bool" for env where
  fields_okI: "apart fs \<Longrightarrow> bits_closed (fe_version env) 0 fs \<Longrightarrow>
    (\<And>f. f \<in> set fs \<Longrightarrow> field_ok env f) \<Longrightarrow>
    (\<And>f. f \<in> set fs \<Longrightarrow> fd_type f = DMI_FIELD_TYPE_STRUCT \<or> fd_type f = DMI_FIELD_TYPE_VECTOR \<Longrightarrow> fields_ok env (fd_fields f)) \<Longrightarrow>
    (\<And>f. f \<in> set fs \<Longrightarrow> fd_type f = DMI_FIELD_TYPE_VECTOR \<Longrightarrow> list_all (\<lambda>x. x < mr_size (fd_member f)) (list_span (fd_fields f))) \<Longrightarrow>
    fields_ok env fs"

section \<open>The data has not ended early\<close>

definition complete :: "dmi_field_state \<Rightarrow> bool" where
  "complete st \<longleftrightarrow> \<not> bit (en_state (dc_entity (fs_decoder st))) 3"

lemma incomplete_bit: "bit (s OR DMI_ENTITY_STATE_INCOMPLETE) 3"
proof -
  have "bit (8 :: 32 word) 3" by simp
  then show ?thesis by (simp add: bit_or_iff DMI_ENTITY_STATE_INCOMPLETE_def)
qed

lemma string_ex_state: "dmi_entity_string_ex q e n raw = (v, e', q') \<Longrightarrow> en_state e' = en_state e"
  by (auto simp: dmi_entity_string_ex_def Let_def split: if_splits)

lemma step_stays_incomplete:
  assumes "decoder_step (q, d) (q', d')" and "bit (en_state (dc_entity d)) 3"
  shows "bit (en_state (dc_entity d')) 3"
  using assms
  by (cases rule: decoder_stepE [consumes 1])
    (auto simp: dmi_decoder_get_bytes_def dmi_decoder_get_string_def dmi_decoder_get_def dmi_decoder_get_binary_def
      dmi_decoder_skip_def dmi_decoder_incomplete_def dmi_decoder_stop_def bit_or_iff split: sum.splits prod.splits
      dest: string_ex_state)

lemma reach_complete: "state_reach st st' \<Longrightarrow> complete st' \<Longrightarrow> complete st"
proof -
  have "decoder_reach (q, d) (q', d') \<Longrightarrow> bit (en_state (dc_entity d)) 3 \<Longrightarrow> bit (en_state (dc_entity d')) 3" for q d q' d'
    by (induction rule: rtranclp_induct2) (auto intro: step_stays_incomplete)
  then show "state_reach st st' \<Longrightarrow> complete st' \<Longrightarrow> complete st" by (auto simp: state_reach_def complete_def)
qed

lemma incomplete_not_complete: "\<not> fs_is_part st \<Longrightarrow> dmi_field_incomplete st = (status, st') \<Longrightarrow> \<not> complete st'"
  using incomplete_bit by (auto simp: dmi_field_incomplete_def dmi_decoder_incomplete_def complete_def)

section \<open>Side by side\<close>

definition region :: "nat list \<Rightarrow> nat \<Rightarrow> nat set" where
  "region span info = (\<lambda>x. info + x) ` set span"

text \<open>
  A reading which starts \<open>a\<close> bits into a byte and ends \<open>a'\<close> bits into one, and stores in the region \<open>F\<close>
  only, is mirrored by a writing which sees the region as the reading has left it. A writing which stops has
  written all of the data.
\<close>

definition mirrored_by ::
    "dmi_view \<Rightarrow> nat set \<Rightarrow> nat \<Rightarrow> nat \<Rightarrow> dmi_field_state \<Rightarrow> dmi_field_state \<Rightarrow> (dmi_memory \<Rightarrow> dmi_field_output \<Rightarrow> bool \<times> dmi_field_output) \<Rightarrow> bool" where
  "mirrored_by V F b b' st st' write \<longleftrightarrow>
     (\<forall>m out. agrees F m (fs_memory st') \<longrightarrow> enc_at V b out \<longrightarrow> fo_bits_taken out = fs_bits_taken st \<longrightarrow> \<not> fo_stopped out \<longrightarrow>
        (\<exists>out'. write m out = (True, out') \<and> out_frame out out' \<and>
          (if fo_stopped out' then enc_at V (8 * length (vw_bytes V)) out'
           else enc_at V b' out' \<and> fo_bits_taken out' = fs_bits_taken st')))"

definition carried ::
    "dmi_view \<Rightarrow> nat set \<Rightarrow> nat \<Rightarrow> nat \<Rightarrow> dmi_field_state \<Rightarrow> dmi_field_state \<Rightarrow> (dmi_memory \<Rightarrow> dmi_field_output \<Rightarrow> bool \<times> dmi_field_output) \<Rightarrow> bool" where
  "carried V F b c st st' write \<longleftrightarrow>
     (\<exists>b'. dec_at V b' st' \<and> b \<le> b' \<and> b' mod 8 = c \<and> agrees (- F) (fs_memory st) (fs_memory st') \<and> mirrored_by V F b b' st st' write)"

definition mirrors ::
    "dmi_view \<Rightarrow> nat list \<Rightarrow> dmi_field_reading \<Rightarrow> (dmi_memory \<Rightarrow> dmi_field_written) \<Rightarrow> bool" where
  "mirrors V span read write \<longleftrightarrow>
     (\<forall>info b st st'. dec_at V b st \<longrightarrow> b mod 8 = 0 \<longrightarrow> read info st = (True, st') \<longrightarrow> complete st' \<longrightarrow>
        carried V (region span info) b 0 st st' (\<lambda>m. write m info))"

lemma mirrorsD:
  "mirrors V span read write \<Longrightarrow> dec_at V b st \<Longrightarrow> b mod 8 = 0 \<Longrightarrow> read info st = (True, st') \<Longrightarrow> complete st' \<Longrightarrow>
    carried V (region span info) b 0 st st' (\<lambda>m. write m info)"
  by (simp add: mirrors_def)

lemma mirrored_byD:
  assumes "mirrored_by V F b b' st st' write" and "agrees F m (fs_memory st')" and "enc_at V b out"
    and "fo_bits_taken out = fs_bits_taken st" and "\<not> fo_stopped out"
  obtains out' where "write m out = (True, out')" "out_frame out out'"
    "if fo_stopped out' then enc_at V (8 * length (vw_bytes V)) out' else enc_at V b' out' \<and> fo_bits_taken out' = fs_bits_taken st'"
  using assms unfolding mirrored_by_def by blast

text \<open>A field which takes a run of bytes and stores cells made of it, and is written as that run.\<close>

definition run_of :: "dmi_view \<Rightarrow> nat \<Rightarrow> nat \<Rightarrow> byte list" where
  "run_of V b n = take n (drop (b div 8) (vw_bytes V))"

lemma length_run_of: "b div 8 + n \<le> length (vw_bytes V) \<Longrightarrow> length (run_of V b n) = n"
  by (simp add: run_of_def)

lemma mirrored_run:
  assumes h: "generous (fw_heap w)" and b: "b mod 8 = 0" and fits: "b div 8 + n \<le> length (vw_bytes V)"
    and taken: "fs_bits_taken st' = fs_bits_taken st"
    and wr: "\<And>m out. agrees F m (fs_memory st') \<Longrightarrow> enc_at V b out \<Longrightarrow> write m out = put_bytes w out (run_of V b n)"
  shows "mirrored_by V F b (b + 8 * n) st st' write"
  unfolding mirrored_by_def
proof (intro allI impI)
  fix m out
  assume o: "agrees F m (fs_memory st')" "enc_at V b out" "fo_bits_taken out = fs_bits_taken st" "\<not> fo_stopped out"
  from put_run_at [OF h o(2) b fits] obtain out' where "put_bytes w out (run_of V b n) = (True, out')" "enc_at V (b + 8 * n) out'"
      "out_frame out out'" "fo_bits_taken out' = fo_bits_taken out" "fo_stopped out' = fo_stopped out"
    by (auto simp: run_of_def)
  then show "\<exists>out'. write m out = (True, out') \<and> out_frame out out' \<and>
      (if fo_stopped out' then enc_at V (8 * length (vw_bytes V)) out'
       else enc_at V (b + 8 * n) out' \<and> fo_bits_taken out' = fs_bits_taken st')"
    using wr [OF o(1,2)] o(3,4) taken by (intro exI [of _ out']) simp
qed

lemma read_run_at:
  assumes at: "dec_at V b st" and b: "b mod 8 = 0" and read: "read_with st (dmi_decoder_get_bytes (fs_decoder st) n) = (Some bs, st')"
  shows "b div 8 + unat n \<le> length (vw_bytes V)" and "bs = run_of V b (unat n)"
    and "st' = st\<lparr>fs_decoder := (fs_decoder st)\<lparr>dc_reader := fs_reader st'\<rparr>\<rparr>" and "reader_at V (b div 8 + unat n) (fs_reader st')"
proof -
  note r = dec_aligned(1) [OF at b]
  let ?r = "(fs_reader st)\<lparr>rd_position := rd_position (fs_reader st) + n\<rparr>"
  have fits: "b div 8 + unat n \<le> length (vw_bytes V)"
    using read reader_at_get [OF r, of n] by (auto simp: read_with_def dmi_decoder_get_bytes_def split: if_splits)
  then have "bs = run_of V b (unat n) \<and> st' = st\<lparr>fs_decoder := (fs_decoder st)\<lparr>dc_reader := ?r\<rparr>\<rparr>"
    using read reader_at_get [OF r, of n] by (simp add: read_with_def dmi_decoder_get_bytes_def run_of_def)
  then show "b div 8 + unat n \<le> length (vw_bytes V)" "bs = run_of V b (unat n)"
      "st' = st\<lparr>fs_decoder := (fs_decoder st)\<lparr>dc_reader := fs_reader st'\<rparr>\<rparr>" "reader_at V (b div 8 + unat n) (fs_reader st')"
    using fits reader_at_advance [OF r fits] by simp_all
qed

lemma read_frame_reader:
  assumes "st' = st\<lparr>fs_decoder := (fs_decoder st)\<lparr>dc_reader := fs_reader st'\<rparr>\<rparr>"
  shows "read_frame st st'" and "fs_memory st' = fs_memory st" and "fs_queue st' = fs_queue st"
    and "dc_entity (fs_decoder st') = dc_entity (fs_decoder st)" and "fs_bits_taken st' = fs_bits_taken st"
  by (subst assms; simp add: read_frame_def)+

lemma decodes_into_same:
  assumes "stores_cells env f cells" and "mr_size (fd_member f) \<le> DMI_FIELD_PROBE_SIZE" and "fw_env w = env"
    and "mem_load (fw_memory w) x (mr_size (fd_member f)) = cells (da_number data) (da_string data) (da_binary data)"
  shows "dmi_field_decodes_into w out f data x = (Some True, out)"
proof -
  have "dmi_field_apply env f (data\<lparr>da_reported := False\<rparr>) m (Some 0) =
      (True, mem_store m 0 (cells (da_number data) (da_string data) (da_binary data)))" for m
    using assms(1) by (simp add: stores_cells_def)
  moreover have "length (cells (da_number data) (da_string data) (da_binary data)) = mr_size (fd_member f)"
    using assms(1) by (simp add: stores_cells_def)
  ultimately show ?thesis using assms(2-4) by (simp add: dmi_field_decodes_into_def mem_load_same)
qed

lemma value_data_original:
  assumes "storable env f" and "stores_cells env f cells" and "fw_env w = env"
    and "mem_load (fw_memory w) x (mr_size (fd_member f)) = cells (da_number data) (da_string data) (da_binary data)"
  shows "dmi_field_value_data w out f x (Some data) = (Some (data, True), out)"
  using decodes_into_same [OF assms(2) _ assms(3,4), of out] assms(1)
  by (auto simp: dmi_field_value_data_def storable_def)

text \<open>Lists without extended fields make no choices.\<close>

lemma no_choices: "(\<And>f. f \<in> set fs \<Longrightarrow> \<not> fp_extended (fd_params f)) \<Longrightarrow> dmi_field_choices_collect fs [] = []"
  by (induction fs) auto

lemma find_extended:
  assumes "\<And>f. f \<in> set fs \<Longrightarrow> \<not> fp_extended (fd_params f)"
  shows "find (\<lambda>other. fp_extended (fd_params other) \<and> P other) fs = None"
  using assms by (auto simp: find_None_iff)

lemma encode_one_value:
  assumes types: "fd_type f \<in> {DMI_FIELD_TYPE_INTEGER, DMI_FIELD_TYPE_STRING, DMI_FIELD_TYPE_BINARY}" and ok: "field_ok env f"
    and k: "fs ! k = f" "\<And>f. f \<in> set fs \<Longrightarrow> \<not> fp_extended (fd_params f)" and cells: "stores_cells env f cells" and env: "fw_env w = env"
    and at: "enc_at V b out" and b: "b mod 8 = 0" and fits: "b div 8 + unat (dmi_field_width f) \<le> length (vw_bytes V)"
    and source: "dmi_field_source_data out f = (Some data, out)"
    and same: "mem_load (fw_memory w) (info + mr_offset (fd_member f)) (mr_size (fd_member f)) = cells (da_number data) (da_string data) (da_binary data)"
    and put: "dmi_field_put_data w out f data = put_bytes w out run"
  shows "dmi_field_encode_one w nested out fs k info [] = (case put_bytes w out run of (status, out) \<Rightarrow> (status, [], out))"
proof -
  have st: "storable env f" and ext: "\<not> fp_extended (fd_params f)" and notfixed: "\<not> dmi_field_is_fixed f"
    using ok types by (auto simp: field_ok_def dmi_field_is_fixed_def)
  have room: "\<not> dmi_encoder_remaining (fo_encoder out) < dmi_field_width f"
    using source_at_remaining [OF enc_aligned(1) [OF at b]] fits by (simp add: word_less_nat_alt)
  note v = value_data_original [OF st cells env same, of out]
  have plain: "dmi_field_encode_plain w out fs f [] (dmi_field_width f) data = put_bytes w out run"
    using find_extended [OF k(2)] put by (simp add: dmi_field_encode_plain_def)
  have none: "dmi_field_choice_find [] x = None" for x by (simp add: dmi_field_choice_find_def)
  show ?thesis
    using types room notfixed source ext v plain none k(1)
    by (auto simp: dmi_field_encode_one_def Let_def)
qed

section \<open>One field\<close>

definition writing :: "dmi_field_env \<Rightarrow> heap \<Rightarrow> (nat \<Rightarrow> bool) \<Rightarrow> dmi_memory \<Rightarrow> dmi_field_writing" where
  "writing env h room m = \<lparr>fw_env = env, fw_heap = h, fw_room = room, fw_memory = m\<rparr>"

lemma writing_fields [simp]:
  "fw_env (writing env h room m) = env" "fw_heap (writing env h room m) = h" "fw_room (writing env h room m) = room"
  "fw_memory (writing env h room m) = m"
  by (simp_all add: writing_def)

definition read_one :: "dmi_field_env \<Rightarrow> dmi_field_reading \<Rightarrow> dmi_field \<Rightarrow> dmi_field_reading" where
  "read_one env nested f info st = (case dmi_field_decode_one env nested st f info [] of (status, choices, st) \<Rightarrow> (status, st))"

definition write_one ::
    "dmi_field_env \<Rightarrow> heap \<Rightarrow> (nat \<Rightarrow> bool) \<Rightarrow> (dmi_memory \<Rightarrow> dmi_field_written) \<Rightarrow> dmi_field list \<Rightarrow> nat \<Rightarrow> dmi_memory \<Rightarrow> dmi_field_written" where
  "write_one env h room nested fs k m info out =
    (case dmi_field_encode_one (writing env h room m) (nested m) out fs k info [] of (status, choices, out) \<Rightarrow> (status \<and> choices = [], out))"

lemma decode_one_choices: "dmi_field_decode_one env nested st f info [] = (status, choices, st') \<Longrightarrow> choices = []"
  by (auto simp: dmi_field_decode_one_def dmi_field_choice_find_def Let_def split: dmi_field_type.splits prod.splits option.splits if_splits)

lemma region_member: "region [o'..<o' + n] info = {info + o'..<info + o' + n}"
  by (auto simp: region_def image_iff intro: bexI [of _ "x - info" for x])

text \<open>What a field of a run of bytes needs to be mirrored.\<close>

lemma value_mirrors:
  assumes b: "dec_at V b st" "b mod 8 = 0" and h: "generous h"
    and r: "b div 8 + n \<le> length (vw_bytes V)" "reader_at V (b div 8 + n) (fs_reader st')" "read_frame st st'"
    and span: "field_span f = [o'..<o' + size']"
    and mem: "fs_memory st' = mem_store (fs_memory st) (info + o') cs" "length cs = size'"
    and wr: "\<And>m out. mem_load m (info + o') size' = cs \<Longrightarrow> enc_at V b out \<Longrightarrow>
      write m out = put_bytes (writing env h room m) out (run_of V b n)"
  shows "carried V (region (field_span f) info) b 0 st st' write"
  unfolding carried_def
proof (intro exI conjI)
  show "dec_at V (b + 8 * n) st'" by (rule dec_at_bytes [OF b r(2,3)])
  show "(b + 8 * n) mod 8 = 0" using b(2) by simp
  show "agrees (- region (field_span f) info) (fs_memory st) (fs_memory st')"
    using agrees_store [of "info + o'" cs "fs_memory st"] mem by (simp add: span region_member)
  show "mirrored_by V (region (field_span f) info) b (b + 8 * n) st st' write"
  proof (rule mirrored_run [OF _ b(2) r(1)])
    show "generous (fw_heap (writing env h room undefined))" using h by simp
    show "fs_bits_taken st' = fs_bits_taken st" using r(3) by (simp add: read_frame_def)
    fix m out
    assume a: "agrees (region (field_span f) info) m (fs_memory st')" and e: "enc_at V b out"
    have "mem_load m (info + o') size' = cs"
      using agrees_load [OF a, of "info + o'" size'] mem by (simp add: span region_member mem_load_same)
    from wr [OF this e] show "write m out = put_bytes (writing env h room undefined) out (run_of V b n)"
      by (simp add: put_bytes_def)
  qed
qed simp

lemma integer_mirrors:
  assumes type: "fd_type f = DMI_FIELD_TYPE_INTEGER" and ok: "field_ok env f" and h: "generous h"
    and k: "fs ! k = f" "\<And>f. f \<in> set fs \<Longrightarrow> \<not> fp_extended (fd_params f)"
    and b: "dec_at V b st" "b mod 8 = 0" and run: "read_one env nr f info st = (True, st')"
  shows "carried V (region (field_span f) info) b 0 st st' (\<lambda>m. write_one env h room nw fs k m info)"
proof -
  let ?n = "fp_length (fd_params f)" and ?x = "info + mr_offset (fd_member f)"
  obtain cells where st: "storable env f" and cells: "stores_cells env f cells" and present: "dmi_member_is_present (fd_member f)"
    and len: "?n \<noteq> 0" "\<not> ?n > 8" and ext: "\<not> fp_extended (fd_params f)"
    using ok type by (auto simp: field_ok_def storable_def not_less)
  have len8: "unat ?n \<le> 8" using len(2) by (simp add: word_less_nat_alt not_less)
  obtain number st1 where d: "dmi_field_read_number st ?n = (Some number, st1)"
    and st': "store_with st1 (dmi_field_apply env f ((blank_data True)\<lparr>da_number := number\<rparr>) (fs_memory st1) (Some ?x)) = (True, st')"
    using run type present ext
    by (auto simp: read_one_def dmi_field_decode_one_def dmi_field_decode_value_def Let_def split: prod.splits option.splits)
  obtain bs where r: "read_with st (dmi_decoder_get_bytes (fs_decoder st) ?n) = (Some bs, st1)" and number: "number = dmi_field_le_load bs"
    using d len by (auto simp: dmi_field_read_number_def split: prod.splits option.splits)
  note at = read_run_at [OF b r] and fr = read_frame_reader [OF read_run_at(3) [OF b r]]
  let ?cs = "cells number None \<lparr>bn_data = None, bn_length = 0\<rparr>"
  have s: "st' = st1\<lparr>fs_memory := mem_store (fs_memory st) ?x ?cs\<rparr>"
    using st' cells fr(2) by (simp add: stores_cells_def store_with_def blank_data_def)
  show ?thesis
  proof (rule value_mirrors [OF b h at(1)])
    show "reader_at V (b div 8 + unat ?n) (fs_reader st')" "read_frame st st'"
      using at(4) fr(1) by (simp_all add: s read_frame_def)
    show "field_span f = [mr_offset (fd_member f)..<mr_offset (fd_member f) + mr_size (fd_member f)]"
      using type by (simp add: field_span_def span_of_def)
    show "fs_memory st' = mem_store (fs_memory st) ?x ?cs" by (simp add: s)
    show "length ?cs = mr_size (fd_member f)" using cells by (simp add: stores_cells_def)
    fix m out
    assume same: "mem_load m ?x (mr_size (fd_member f)) = ?cs" and e: "enc_at V b out"
    let ?w = "writing env h room m" and ?data = "(blank_data False)\<lparr>da_number := number\<rparr>"
    have width: "dmi_field_width f = ?n" using type by (simp add: dmi_field_width_def)
    have mode: "ec_mode (fo_encoder out) = DMI_ENCODE_MODE_PRESERVE" using enc_aligned(1) [OF e b(2)] by (simp add: source_at_def)
    have source: "dmi_field_source_data out f = (Some ?data, out)"
      using type len width mode source_at_peek [OF enc_aligned(1) [OF e b(2)] at(1)] number at(2)
      by (simp add: dmi_field_source_data_def dmi_field_peek_raw_def run_of_def)
    have "dmi_field_le_store (unat ?n) number = run_of V b (unat ?n)"
      using le_store_load_take [OF length_run_of [OF at(1)] len8] number at(2) by simp
    then have put: "dmi_field_put_data ?w out f ?data = put_bytes ?w out (run_of V b (unat ?n))"
      using type len width by (simp add: dmi_field_put_data_def dmi_field_put_raw_def)
    show "write_one env h room nw fs k m info out = put_bytes ?w out (run_of V b (unat ?n))"
      using encode_one_value [OF _ ok k cells _ e b(2) _ source _ put, of info "nw m"] type same at(1) width
      by (simp add: write_one_def blank_data_def split: prod.splits)
  qed
qed

lemma string_mirrors:
  assumes type: "fd_type f = DMI_FIELD_TYPE_STRING" and ok: "field_ok env f" and h: "generous h"
    and k: "fs ! k = f" "\<And>f. f \<in> set fs \<Longrightarrow> \<not> fp_extended (fd_params f)"
    and b: "dec_at V b st" "b mod 8 = 0" and run: "read_one env nr f info st = (True, st')"
  shows "carried V (region (field_span f) info) b 0 st st' (\<lambda>m. write_one env h room nw fs k m info)"
proof -
  let ?x = "info + mr_offset (fd_member f)"
  obtain cells where st: "storable env f" and cells: "stores_cells env f cells" and present: "dmi_member_is_present (fd_member f)"
    and len: "fp_length (fd_params f) = 1" and ext: "\<not> fp_extended (fd_params f)"
    using ok type by (auto simp: field_ok_def storable_def)
  let ?get = "dmi_decoder_get (\<lambda>bs. load_word bs :: byte) (fs_decoder st) 1"
  obtain number st1 where d: "read_with st ?get = (Some number, st1)"
    using run type present ext
    by (auto simp: read_one_def dmi_field_decode_one_def dmi_field_decode_value_def Let_def split: prod.splits option.splits)
  then obtain bs where r: "read_with st (dmi_decoder_get_bytes (fs_decoder st) 1) = (Some bs, st1)" and number: "number = load_word bs"
    by (auto simp: read_with_def dmi_decoder_get_def split: sum.splits)
  note at = read_run_at [OF b r] and fr = read_frame_reader [OF read_run_at(3) [OF b r]]
  obtain string e q where s: "dmi_entity_string_ex (fs_queue st1) (dc_entity (fs_decoder st1)) (unat number) False = (string, e, q)"
    by (metis prod_cases3)
  let ?e = "dc_entity (fs_decoder st)"
  have counts: "en_string_count ?e = vw_strings V" "length (en_strings ?e) = vw_strings V" using b(1) by (simp_all add: dec_at_def)
  have string: "string = None \<longleftrightarrow> number = 0 \<or> unat number > vw_strings V"
    using string_ex_cases(1) [of ?e "fs_queue st1" "unat number" False] counts s fr(4) by (auto simp: unat_eq_0 split: if_splits)
  have e: "en_string_count e = vw_strings V" "length (en_strings e) = vw_strings V"
    using same_but_used_fields(3,6) [OF string_ex_cases(2) [of ?e "fs_queue st1" "unat number" False]] counts s fr(4) by simp_all
  let ?string = "if number \<noteq> 0 \<and> unat number \<le> vw_strings V then Some (String_pretty (unat number - 1)) else None"
  have str: "map_option (\<lambda>_. String_pretty (unat number - 1)) string = ?string" using string by (cases string) auto
  let ?cs = "cells (ucast number) ?string \<lparr>bn_data = None, bn_length = 0\<rparr>"
  have s': "st' = st1\<lparr>fs_decoder := (fs_decoder st1)\<lparr>dc_entity := e\<rparr>, fs_queue := q, fs_memory := mem_store (fs_memory st) ?x ?cs\<rparr>"
    using run type present ext d s cells fr(2) str
    by (simp add: read_one_def dmi_field_decode_one_def dmi_field_decode_value_def Let_def stores_cells_def store_with_def blank_data_def
        split: prod.splits)
  show ?thesis
  proof (rule value_mirrors [OF b h at(1)])
    show "reader_at V (b div 8 + unat (1 :: size_t)) (fs_reader st')" using at(4) by (simp add: s')
    show "read_frame st st'" using fr(1) e counts by (simp add: s' read_frame_def)
    show "field_span f = [mr_offset (fd_member f)..<mr_offset (fd_member f) + mr_size (fd_member f)]"
      using type by (simp add: field_span_def span_of_def)
    show "fs_memory st' = mem_store (fs_memory st) ?x ?cs" by (simp add: s')
    show "length ?cs = mr_size (fd_member f)" using cells by (simp add: stores_cells_def)
    fix m out
    assume same: "mem_load m ?x (mr_size (fd_member f)) = ?cs" and eo: "enc_at V b out"
    let ?w = "writing env h room m" and ?data = "(blank_data False)\<lparr>da_number := ucast number, da_string := ?string\<rparr>"
    have width: "dmi_field_width f = 1" using type len by (simp add: dmi_field_width_def)
    note src = enc_aligned(1) [OF eo b(2)]
    have mode: "ec_mode (fo_encoder out) = DMI_ENCODE_MODE_PRESERVE" and n: "en_string_count (ec_entity (fo_encoder out)) = vw_strings V"
      using src by (simp_all add: source_at_def)
    have cast: "of_nat (unat number) = (ucast number :: uintmax_t)" by (rule of_nat_unat)
    have peek: "dmi_encoder_peek (fo_encoder out) 1 = Inr bs"
      using source_at_peek [OF src, of 1] at(1,2) by (simp add: run_of_def)
    have "unat number \<noteq> 0 \<longleftrightarrow> number \<noteq> 0" by (simp add: unat_eq_0)
    then have source: "dmi_field_source_data out f = (Some ?data, out)"
      unfolding dmi_field_source_data_def Let_def type dmi_field_type.case mode peek sum.case number [symmetric] n cast by simp
    have bs: "bs = [number]"
    proof -
      have "length bs = 1" using at(1,2) by (simp add: length_run_of)
      then have "store_word (length bs) number = bs" using store_load_word [of bs, where 'a = 8] number by simp
      then show ?thesis using \<open>length bs = 1\<close> by (simp add: store_word_def)
    qed
    have narrow: "ucast (ucast number :: uintmax_t) = number" by (rule bit_word_eqI) (simp add: bit_ucast_iff)
    have zero: "ucast number = (0 :: uintmax_t) \<longleftrightarrow> number = 0" by (metis narrow ucast_0)
    have put: "dmi_field_put_data ?w out f ?data = put_bytes ?w out (run_of V b (unat (1 :: size_t)))"
      using type at(2) bs narrow zero by (auto simp: dmi_field_put_data_def)
    show "write_one env h room nw fs k m info out = put_bytes ?w out (run_of V b (unat (1 :: size_t)))"
      using encode_one_value [OF _ ok k cells _ eo b(2) _ source _ put, of info "nw m"] type same at(1) width
      by (simp add: write_one_def blank_data_def split: prod.splits)
  qed
qed

lemma uuid_encode_decode: "length u = 16 \<Longrightarrow> dmi_uuid_encode (dmi_uuid_decode u) = u"
proof -
  assume u: "length u = 16"
  let ?a = "take 4 u" and ?b = "take 2 (drop 4 u)" and ?c = "take 2 (drop 6 u)"
  have len: "length ?a = 4" "length ?b = 2" "length ?c = 2" using u by simp_all
  have d: "dmi_uuid_decode u = rev ?a @ rev ?b @ rev ?c @ drop 8 u" by (rule uuid_decode_bytes [OF u])
  have "length (dmi_uuid_decode u) = 16" by (rule length_uuid_decode [OF u])
  from uuid_decode_bytes [OF this] have "dmi_uuid_decode (dmi_uuid_decode u) = ?a @ ?b @ ?c @ drop 8 u"
    using u by (simp add: d)
  also have "\<dots> = u"
    using take_add [of 4 2 u] take_add [of 6 2 u] append_take_drop_id [of 8 u] by simp
  finally show ?thesis by (simp add: uuid_encode_decode_eq)
qed

lemma uuid_mirrors:
  assumes type: "fd_type f = DMI_FIELD_TYPE_UUID" and ok: "field_ok env f" and h: "generous h" and k: "fs ! k = f"
    and b: "dec_at V b st" "b mod 8 = 0" and run: "read_one env nr f info st = (True, st')"
  shows "carried V (region (field_span f) info) b 0 st st' (\<lambda>m. write_one env h room nw fs k m info)"
proof -
  let ?x = "info + mr_offset (fd_member f)"
  have present: "dmi_member_is_present (fd_member f)" and size16: "mr_size (fd_member f) = 16" and len: "fp_length (fd_params f) = 16"
    and ext: "\<not> fp_extended (fd_params f)"
    using ok type by (auto simp: field_ok_def dmi_member_is_present_def)
  obtain u st1 where d: "read_with st (dmi_decoder_get dmi_uuid_decode (fs_decoder st) 16) = (Some u, st1)"
    and st': "st' = st1\<lparr>fs_memory := mem_store (fs_memory st1) ?x (map Byte u)\<rparr>"
    using run type present ext
    by (auto simp: read_one_def dmi_field_decode_one_def dmi_field_decode_value_def Let_def split: prod.splits option.splits)
  then obtain bs where r: "read_with st (dmi_decoder_get_bytes (fs_decoder st) 16) = (Some bs, st1)" and u: "u = dmi_uuid_decode bs"
    by (auto simp: read_with_def dmi_decoder_get_def split: sum.splits)
  note at = read_run_at [OF b r] and fr = read_frame_reader [OF read_run_at(3) [OF b r]]
  have bs: "length bs = 16" using at(1,2) by (simp add: length_run_of)
  show ?thesis
  proof (rule value_mirrors [OF b h at(1)])
    show "reader_at V (b div 8 + unat (16 :: size_t)) (fs_reader st')" "read_frame st st'"
      using at(4) fr(1) by (simp_all add: st' read_frame_def)
    show "field_span f = [mr_offset (fd_member f)..<mr_offset (fd_member f) + 16]"
      using type size16 by (simp add: field_span_def span_of_def)
    show "fs_memory st' = mem_store (fs_memory st) ?x (map Byte u)" using fr(2) by (simp add: st')
    show "length (map Byte u) = 16" using length_uuid_decode [OF bs] u by simp
    fix m out
    assume same: "mem_load m ?x 16 = map Byte u" and e: "enc_at V b out"
    let ?w = "writing env h room m"
    have width: "dmi_field_width f = 16" using type len by (simp add: dmi_field_width_def)
    have room: "\<not> dmi_encoder_remaining (fo_encoder out) < dmi_field_width f"
      using source_at_remaining [OF enc_aligned(1) [OF e b(2)]] at(1) width by (simp add: word_less_nat_alt)
    have fixed: "dmi_field_is_fixed f" using type by (simp add: dmi_field_is_fixed_def)
    have "map (cell_byte \<circ> Byte) u = u" by (simp add: comp_def)
    then have "dmi_field_encode_fixed ?w out f ?x (dmi_field_width f) = put_bytes ?w out (run_of V b (unat (16 :: size_t)))"
      using type same uuid_encode_decode [OF bs] at(2) u by (simp add: dmi_field_encode_fixed_def)
    then show "write_one env h room nw fs k m info out = put_bytes ?w out (run_of V b (unat (16 :: size_t)))"
      using type room fixed k by (simp add: write_one_def dmi_field_encode_one_def Let_def split: prod.splits)
  qed
qed

text \<open>Skipped bytes are copied.\<close>

lemma skip_mirrors:
  assumes type: "fd_type f = DMI_FIELD_TYPE_SKIP" and ok: "field_ok env f" and h: "generous h" and k: "fs ! k = f"
    and b: "dec_at V b st" "b mod 8 = 0" and run: "read_one env nr f info st = (True, st')"
  shows "carried V (region (field_span f) info) b 0 st st' (\<lambda>m. write_one env h room nw fs k m info)"
proof -
  let ?n = "fp_length (fd_params f)"
  have ext: "\<not> fp_extended (fd_params f)" using ok by (simp add: field_ok_def)
  have skip: "skip_with st (dmi_reader_skip (fs_reader st) ?n) = (True, st')"
    using run type ext by (auto simp: read_one_def dmi_field_decode_one_def dmi_field_decode_value_def Let_def split: prod.splits)
  note r = dec_aligned(1) [OF b]
  let ?r = "(fs_reader st)\<lparr>rd_position := rd_position (fs_reader st) + ?n\<rparr>"
  have fits: "b div 8 + unat ?n \<le> length (vw_bytes V)" and s: "st' = st\<lparr>fs_decoder := (fs_decoder st)\<lparr>dc_reader := ?r\<rparr>\<rparr>"
    using skip reader_at_skip [OF r, of ?n] by (auto simp: skip_with_def set_reader_def split: if_splits)
  have frame: "read_frame st st'" by (simp add: s read_frame_def)
  show ?thesis unfolding carried_def
  proof (intro exI conjI)
    show "dec_at V (b + 8 * unat ?n) st'"
      by (rule dec_at_bytes [OF b _ frame]) (simp add: s reader_at_advance [OF r fits])
    show "(b + 8 * unat ?n) mod 8 = 0" using b(2) by simp
    show "agrees (- region (field_span f) info) (fs_memory st) (fs_memory st')" by (simp add: s)
    show "mirrored_by V (region (field_span f) info) b (b + 8 * unat ?n) st st' (\<lambda>m. write_one env h room nw fs k m info)"
      unfolding mirrored_by_def
    proof (intro allI impI)
      fix m out
      assume "enc_at V b out" and taken: "fo_bits_taken out = fs_bits_taken st" and go: "\<not> fo_stopped out"
      moreover have "generous (fw_heap (writing env h room m))" using h by simp
      ultimately obtain out' where "dmi_field_put_reserved (writing env h room m) out ?n = (True, out')" "enc_at V (b + 8 * unat ?n) out'"
          "out_frame out out'" "fo_bits_taken out' = fo_bits_taken out" "fo_stopped out' = fo_stopped out"
        using put_reserved_at [OF _ _ b(2) fits] by blast
      then show "\<exists>out'. write_one env h room nw fs k m info out = (True, out') \<and> out_frame out out' \<and>
          (if fo_stopped out' then enc_at V (8 * length (vw_bytes V)) out'
           else enc_at V (b + 8 * unat ?n) out' \<and> fo_bits_taken out' = fs_bits_taken st')"
        using type k taken go s by (intro exI [of _ out']) (simp add: write_one_def dmi_field_encode_one_def Let_def)
    qed
  qed simp
qed

text \<open>Bytes of a fixed length are pointed to where they are in the data, by the reading and by the writing.\<close>

definition binary_at :: "dmi_view \<Rightarrow> nat \<Rightarrow> size_t \<Rightarrow> dmi_binary" where
  "binary_at V b n =
    \<lparr>bn_data = Some (Pointer_data (buf_id (vw_buffer V)) (unat (vw_base V + of_nat (b div 8))) (run_of V b (unat n))), bn_length = n\<rparr>"

lemma reader_at_buffer:
  assumes "reader_at V p r" and "p + unat n \<le> length (vw_bytes V)" and "n \<noteq> 0"
  shows "dmi_buffer_at (rd_buffer r) (rd_base r + rd_position r) n = Some (take (unat n) (drop p (vw_bytes V)))"
proof -
  let ?r = "r\<lparr>rd_position := rd_position r + n\<rparr>"
  have "dmi_reader_ref_bytes r n = Inr (dmi_buffer_at (rd_buffer r) (rd_base r + rd_position r) n, ?r)"
    using assms(3) reader_at_skip [OF assms(1), of n] assms(2) by (simp add: dmi_reader_ref_bytes_def Let_def word_neq_0_conv)
  from reader_at_ref(1) [OF assms(1) this] show ?thesis using assms(3) by simp
qed

lemma binary_of_at:
  assumes "reader_at V (b div 8) r"
  shows "binary_of r (Some (run_of V b (unat n)), n) = binary_at V b n"
proof -
  have "rd_position r = of_nat (b div 8)" using assms by (simp add: reader_at_def) (metis of_nat_unat ucast_id)
  then show ?thesis using assms by (simp add: binary_of_def binary_at_def reader_at_def)
qed

lemma binary_mirrors:
  assumes type: "fd_type f = DMI_FIELD_TYPE_BINARY" and ok: "field_ok env f" and h: "generous h"
    and k: "fs ! k = f" "\<And>f. f \<in> set fs \<Longrightarrow> \<not> fp_extended (fd_params f)"
    and b: "dec_at V b st" "b mod 8 = 0" and run: "read_one env nr f info st = (True, st')"
  shows "carried V (region (field_span f) info) b 0 st st' (\<lambda>m. write_one env h room nw fs k m info)"
proof -
  let ?n = "fp_length (fd_params f)" and ?x = "info + mr_offset (fd_member f)"
  obtain cells where st: "storable env f" and cells: "stores_cells env f cells" and present: "dmi_member_is_present (fd_member f)"
    and len: "?n \<noteq> 0" "?n \<noteq> DMI_FIELD_LENGTH_REST" "?n \<noteq> DMI_FIELD_LENGTH_MEMBER" and ext: "\<not> fp_extended (fd_params f)"
    using ok type by (auto simp: field_ok_def storable_def)
  note r = dec_aligned(1) [OF b]
  let ?r = "(fs_reader st)\<lparr>rd_position := rd_position (fs_reader st) + ?n\<rparr>"
  obtain bin st1 where d: "dmi_field_read_binary env st f (Some ?x) = (Some bin, st1)"
    and st': "store_with st1 (dmi_field_apply env f ((blank_data True)\<lparr>da_binary := bin\<rparr>) (fs_memory st1) (Some ?x)) = (True, st')"
    using run type present ext
    by (auto simp: read_one_def dmi_field_decode_one_def dmi_field_decode_value_def Let_def split: prod.splits option.splits)
  obtain v where g: "read_with st (dmi_decoder_get_binary (fs_decoder st) ?n) = (Some v, st1)" and bin: "bin = binary_of (fs_reader st) v"
    using d len by (auto simp: dmi_field_read_binary_def Let_def split: prod.splits option.splits)
  then obtain bs r1 where ref: "dmi_reader_ref_bytes (fs_reader st) ?n = Inr (bs, r1)" and v: "v = (bs, ?n)"
    and st1: "st1 = st\<lparr>fs_decoder := (fs_decoder st)\<lparr>dc_reader := r1\<rparr>\<rparr>"
    by (auto simp: read_with_def dmi_decoder_get_binary_def split: sum.splits prod.splits)
  note at = reader_at_ref [OF r ref]
  have bin_at: "bin = binary_at V b ?n"
    using binary_of_at [OF r, of ?n] at(1) len(1) by (simp add: bin v run_of_def)
  let ?cs = "cells 0 None (binary_at V b ?n)"
  have s: "st' = st\<lparr>fs_decoder := (fs_decoder st)\<lparr>dc_reader := ?r\<rparr>, fs_memory := mem_store (fs_memory st) ?x ?cs\<rparr>"
    using st' cells at(3) by (simp add: stores_cells_def store_with_def blank_data_def st1 bin_at)
  show ?thesis
  proof (rule value_mirrors [OF b h at(2)])
    show "reader_at V (b div 8 + unat ?n) (fs_reader st')" using reader_at_advance [OF r at(2)] by (simp add: s)
    show "read_frame st st'" by (simp add: s read_frame_def)
    show "field_span f = [mr_offset (fd_member f)..<mr_offset (fd_member f) + mr_size (fd_member f)]"
      using type by (simp add: field_span_def span_of_def)
    show "fs_memory st' = mem_store (fs_memory st) ?x ?cs" by (simp add: s)
    show "length ?cs = mr_size (fd_member f)" using cells by (simp add: stores_cells_def)
    fix m out
    assume same: "mem_load m ?x (mr_size (fd_member f)) = ?cs" and e: "enc_at V b out"
    let ?w = "writing env h room m" and ?data = "(blank_data False)\<lparr>da_binary := binary_at V b ?n\<rparr>"
    note src = enc_aligned(1) [OF e b(2)]
    have width: "dmi_field_width f = ?n" using type len by (simp add: dmi_field_width_def)
    have mode: "ec_mode (fo_encoder out) = DMI_ENCODE_MODE_PRESERVE" using src by (simp add: source_at_def)
    obtain r' where r': "ec_source (fo_encoder out) = Some r'" "reader_at V (b div 8) r'" using src by (auto simp: source_at_def)
    have enough: "\<not> dmi_encoder_remaining (fo_encoder out) < ?n"
      using source_at_remaining [OF src] at(2) by (simp add: word_less_nat_alt)
    have source: "dmi_field_source_data out f = (Some ?data, out)"
      using type mode enough r'(1) reader_at_buffer [OF r'(2) at(2) len(1)] binary_of_at [OF r'(2), of ?n]
      by (simp add: dmi_field_source_data_def Let_def run_of_def)
    have "binary_bytes (binary_at V b ?n) = run_of V b (unat ?n)" by (simp add: binary_bytes_def binary_at_def run_of_def)
    moreover have "take (unat ?n) (run_of V b (unat ?n)) = run_of V b (unat ?n)" by (simp add: run_of_def)
    moreover have "bn_length (binary_at V b ?n) = ?n" by (simp add: binary_at_def)
    ultimately have put: "dmi_field_put_data ?w out f ?data = put_bytes ?w out (run_of V b (unat ?n))"
      using type len(1) by (simp add: dmi_field_put_data_def)
    show "write_one env h room nw fs k m info out = put_bytes ?w out (run_of V b (unat ?n))"
      using encode_one_value [OF _ ok k cells _ e b(2) _ source _ put, of info "nw m"] type same at(2) width
      by (simp add: write_one_def blank_data_def split: prod.splits)
  qed
qed

text \<open>Ranges of bits, with a member or without one, and the rest of their unit.\<close>

lemma dec_at_frame:
  "dec_at V b st \<Longrightarrow> dec_at V b (st\<lparr>fs_memory := m\<rparr>)"
  "dec_at V b st \<Longrightarrow> b mod 8 = n mod 8 \<Longrightarrow> dec_at V b (st\<lparr>fs_bits_taken := n\<rparr>)"
  by (simp_all add: dec_at_def filling_def)

lemma apply_nowhere: "dmi_field_apply env f data m None = (True, m)"
  by (simp add: dmi_field_apply_def)

lemma enc_at_taken: "enc_at V b out \<Longrightarrow> enc_at V b (out\<lparr>fo_bits_taken := n\<rparr>)"
  by (simp add: enc_at_def enc_holds_def)

lemma out_frame_taken: "out_frame out out' \<Longrightarrow> out_frame out (out'\<lparr>fo_bits_taken := n\<rparr>)"
  by (simp add: out_frame_def)

lemma take_bits_fits:
  assumes "dec_at V b st" and "range_ok b n" and "dmi_field_take_bits st n = (Some number, st')"
  shows "b + n \<le> 8 * length (vw_bytes V)" and "number = bit_range (vw_bytes V) b n" and "dec_at V (b + n) st'"
    and "bits_frame st st'" and "fs_bits_taken st' = fs_bits_taken st + n"
proof -
  show fits: "b + n \<le> 8 * length (vw_bytes V)"
    using take_bits_short [OF assms(1,2)] assms(3) by (cases "8 * length (vw_bytes V) < b + n") auto
  show "number = bit_range (vw_bytes V) b n" "dec_at V (b + n) st'" "bits_frame st st'" "fs_bits_taken st' = fs_bits_taken st + n"
    using take_bits_at [OF assms(1,2) fits] assms(3) by auto
qed

lemma enc_at_mode: "enc_at V b out \<Longrightarrow> ec_mode (fo_encoder out) = DMI_ENCODE_MODE_PRESERVE"
  using enc_at_place(1) by (fastforce simp: source_at_def)

lemma whole_bytes:
  assumes "b + n \<le> 8 * (L :: nat)"
  shows "(b mod 8 + n + 8 - 1) div 8 \<le> L - b div 8"
proof -
  define p where "p = b div 8"
  define c where "c = b mod 8"
  have "b = 8 * p + c" by (simp add: p_def c_def)
  then have "c + n + 8 - 1 < (L - p + 1) * 8" using assms by (simp add: diff_mult_distrib)
  then have "(c + n + 8 - 1) div 8 < L - p + 1" by (rule less_mult_imp_div_less)
  then show ?thesis by (simp add: p_def c_def)
qed

lemma encode_bits_at:
  assumes type: "fd_type f = DMI_FIELD_TYPE_BITS" and bits: "fp_bits (fd_params f) = n" and at: "enc_at V b out" and ok: "range_ok b n"
    and fits: "b + n \<le> 8 * length (vw_bytes V)" and env: "fw_env w = env"
    and present: "\<And>x. place = Some x \<Longrightarrow> storable env f \<and> stores_cells env f cells \<and>
      mem_load (fw_memory w) x (mr_size (fd_member f)) = cells (bit_range (vw_bytes V) b n) None \<lparr>bn_data = None, bn_length = 0\<rparr>"
  shows "dmi_field_encode_bits w out f place = dmi_field_put_bits w out (bit_range (vw_bytes V) b n) n"
proof (cases place)
  case None
  then show ?thesis using enc_at_mode [OF at] source_bits_at [OF at ok fits] bits by (simp add: dmi_field_encode_bits_def)
next
  case (Some x)
  let ?data = "(blank_data False)\<lparr>da_number := bit_range (vw_bytes V) b n\<rparr>"
  have "(fo_bits_count out + n + 8 - 1) div 8 \<le> length (vw_bytes V) - b div 8"
    unfolding enc_at_place(2) [OF at] by (rule whole_bytes [OF fits])
  then have "dmi_field_source_data out f = (Some ?data, out)"
    using enc_at_mode [OF at] source_bits_at [OF at ok fits] bits type source_at_remaining [OF enc_at_place(1) [OF at]]
    by (simp add: dmi_field_source_data_def Let_def)
  moreover have "dmi_field_value_data w out f x (Some ?data) = (Some (?data, True), out)"
    using present [OF Some] env by (intro value_data_original [of env f cells]) (auto simp: blank_data_def)
  ultimately show ?thesis using Some bits by (simp add: dmi_field_encode_bits_def)
qed

lemma bits_mirrors:
  assumes type: "fd_type f = DMI_FIELD_TYPE_BITS" and ok: "field_ok env f" and h: "generous h" and k: "fs ! k = f"
    and b: "dec_at V b st" and run: "read_one env nr f info st = (True, st')"
  shows "carried V (region (field_span f) info) b ((b + fp_bits (fd_params f)) mod 8) st st' (\<lambda>m. write_one env h room nw fs k m info)"
proof -
  let ?n = "fp_bits (fd_params f)" and ?x = "info + mr_offset (fd_member f)" and ?size = "mr_size (fd_member f)"
  let ?here = "if dmi_member_is_present (fd_member f) then Some ?x else None"
  let ?range = "bit_range (vw_bytes V) b ?n"
  have okr: "range_ok b ?n" and sto: "dmi_member_is_present (fd_member f) \<Longrightarrow> storable env f"
    using ok type by (auto simp: field_ok_def intro: range_ok_small)
  obtain number st1 where t: "dmi_field_take_bits st ?n = (Some number, st1)"
    and st': "store_with st1 (dmi_field_apply env f ((blank_data True)\<lparr>da_number := number\<rparr>) (fs_memory st1) ?here) = (True, st')"
    using run type
    by (auto simp: read_one_def dmi_field_decode_one_def dmi_field_decode_bits_def Let_def split: prod.splits option.splits)
  note a = take_bits_fits [OF b okr t]
  obtain cells where cells: "dmi_member_is_present (fd_member f) \<Longrightarrow> stores_cells env f cells"
    using sto by (cases "dmi_member_is_present (fd_member f)") (auto simp: storable_def)
  let ?cs = "cells ?range None \<lparr>bn_data = None, bn_length = 0\<rparr>"
  have s: "st' = st1\<lparr>fs_memory := if dmi_member_is_present (fd_member f) then mem_store (fs_memory st) ?x ?cs else fs_memory st\<rparr>"
    using st' cells a(2) bits_frame_fields(1) [OF a(4)]
    by (cases "dmi_member_is_present (fd_member f)") (simp_all add: stores_cells_def store_with_def blank_data_def apply_nowhere)
  have span: "region (field_span f) info = {?x..<?x + ?size}" using type by (simp add: field_span_def span_of_def region_member)
  have len: "dmi_member_is_present (fd_member f) \<Longrightarrow> length ?cs = ?size" using cells by (simp add: stores_cells_def)
  show ?thesis unfolding carried_def
  proof (intro exI conjI)
    show "dec_at V (b + ?n) st'" unfolding s by (rule dec_at_frame(1) [OF a(3)])
    show "agrees (- region (field_span f) info) (fs_memory st) (fs_memory st')"
      using agrees_store [of ?x ?cs "fs_memory st"] len by (cases "dmi_member_is_present (fd_member f)") (simp_all add: s span)
    show "mirrored_by V (region (field_span f) info) b (b + ?n) st st' (\<lambda>m. write_one env h room nw fs k m info)"
      unfolding mirrored_by_def
    proof (intro allI impI)
      fix m out
      let ?w = "writing env h room m"
      assume mem: "agrees (region (field_span f) info) m (fs_memory st')" and e: "enc_at V b out"
        and taken: "fo_bits_taken out = fs_bits_taken st" and go: "\<not> fo_stopped out"
      have "mem_load m ?x ?size = ?cs" if "dmi_member_is_present (fd_member f)"
        using agrees_load [OF mem, of ?x ?size] that len by (simp add: s span mem_load_same)
      then have "dmi_field_encode_bits ?w out f ?here = dmi_field_put_bits ?w out ?range ?n"
        using sto cells by (intro encode_bits_at [OF type refl e okr a(1), of _ env _ cells]) (auto split: if_splits)
      moreover have "generous (fw_heap ?w)" using h by simp
      then obtain out' where "dmi_field_put_bits ?w out ?range ?n = (True, out')" "enc_at V (b + ?n) out'" "out_frame out out'"
          "fo_bits_taken out' = fo_bits_taken out + ?n" "fo_stopped out' = fo_stopped out"
        using put_bits_at [OF _ e okr a(1)] by blast
      ultimately show "\<exists>out'. write_one env h room nw fs k m info out = (True, out') \<and> out_frame out out' \<and>
          (if fo_stopped out' then enc_at V (8 * length (vw_bytes V)) out'
           else enc_at V (b + ?n) out' \<and> fo_bits_taken out' = fs_bits_taken st')"
        using type k taken go a(5) by (intro exI [of _ out']) (simp add: s write_one_def dmi_field_encode_one_def Let_def)
    qed
  qed simp_all
qed

lemma unit_rest:
  assumes "u \<in> {8, 16, 24, 32, 40, 48, 56, 64}" and "b mod 8 = taken mod 8" and "taken mod u \<noteq> 0"
  shows "range_ok b (u - taken mod u)" and "(b + (u - taken mod u)) mod 8 = (0 :: nat)"
proof -
  obtain v where v: "u = 8 * v" "0 < v" "v \<le> 8" using assms(1) by auto
  define t where "t = taken mod u"
  have t: "t < u" "0 < t" using v assms(3) by (simp_all add: t_def)
  have "t mod 8 = b mod 8" using assms(2) v(1) by (simp add: t_def mod_mod_cancel)
  then obtain k where k: "t = 8 * k + b mod 8" by (metis div_mod_decomp mult.commute)
  have "k < v" using k t v(1) by simp
  then have rest: "b mod 8 + (u - t) = 8 * (v - k)" using k t(1) v(1) by simp
  then show "range_ok b (u - taken mod u)" using t(1) v(3) unfolding range_ok_def t_def [symmetric] by simp
  have "(b + (u - t)) mod 8 = (b mod 8 + (u - t)) mod 8" by (simp add: mod_add_left_eq)
  then show "(b + (u - taken mod u)) mod 8 = 0" using rest by (simp add: t_def)
qed

lemma pad_mirrors:
  assumes type: "fd_type f = DMI_FIELD_TYPE_PAD" and ok: "field_ok env f" and h: "generous h" and k: "fs ! k = f"
    and b: "dec_at V b st" and run: "read_one env nr f info st = (True, st')"
  shows "carried V (region (field_span f) info) b 0 st st' (\<lambda>m. write_one env h room nw fs k m info)"
proof -
  let ?u = "fp_bits (fd_params f)"
  let ?t = "fs_bits_taken st mod ?u"
  have u: "?u \<in> {8, 16, 24, 32, 40, 48, 56, 64}" using ok type by (simp add: field_ok_def)
  have b8: "b mod 8 = fs_bits_taken st mod 8" using b by (simp add: dec_at_def)
  have pad: "dmi_field_decode_pad st f = (True, st')"
    using run type by (auto simp: read_one_def dmi_field_decode_one_def Let_def split: prod.splits)
  have wr: "write_one env h room nw fs k m info out = dmi_field_encode_pad (writing env h room m) out f" for m out
    using type k by (simp add: write_one_def dmi_field_encode_one_def split: prod.splits)
  show ?thesis
  proof (cases "?t = 0")
    case True
    have s: "st' = st\<lparr>fs_bits_taken := 0\<rparr>" using pad True by (simp add: dmi_field_decode_pad_def)
    have "8 dvd ?u" using u by auto
    then have "fs_bits_taken st mod 8 = 0" using True by (metis dvd_imp_mod_0 dvd_trans mod_0_imp_dvd)
    then have aligned: "b mod 8 = 0" using b8 by simp
    show ?thesis unfolding carried_def
    proof (intro exI conjI)
      show "dec_at V b st'" unfolding s using aligned by (intro dec_at_frame(2) [OF b]) simp
      show "agrees (- region (field_span f) info) (fs_memory st) (fs_memory st')" by (simp add: s)
      show "mirrored_by V (region (field_span f) info) b b st st' (\<lambda>m. write_one env h room nw fs k m info)"
        unfolding mirrored_by_def
      proof (intro allI impI)
        fix m out
        assume "enc_at V b out" "fo_bits_taken out = fs_bits_taken st" "\<not> fo_stopped out"
        then show "\<exists>out'. write_one env h room nw fs k m info out = (True, out') \<and> out_frame out out' \<and>
            (if fo_stopped out' then enc_at V (8 * length (vw_bytes V)) out' else enc_at V b out' \<and> fo_bits_taken out' = fs_bits_taken st')"
          using True by (intro exI [of _ "out\<lparr>fo_bits_taken := 0\<rparr>"])
            (simp add: wr dmi_field_encode_pad_def s enc_at_taken out_frame_taken)
      qed
    qed (use aligned in simp_all)
  next
    case False
    let ?n = "?u - ?t"
    note rest = unit_rest [OF u b8 False]
    obtain number st1 where t: "dmi_field_take_bits st ?n = (Some number, st1)" and s: "st' = st1\<lparr>fs_bits_taken := 0\<rparr>"
      using pad False by (auto simp: dmi_field_decode_pad_def Let_def split: prod.splits if_splits)
    note a = take_bits_fits [OF b rest(1) t]
    show ?thesis unfolding carried_def
    proof (intro exI conjI)
      show "dec_at V (b + ?n) st'" unfolding s using rest(2) by (intro dec_at_frame(2) [OF a(3)]) simp
      show "agrees (- region (field_span f) info) (fs_memory st) (fs_memory st')" using bits_frame_fields(1) [OF a(4)] by (simp add: s)
      show "mirrored_by V (region (field_span f) info) b (b + ?n) st st' (\<lambda>m. write_one env h room nw fs k m info)"
        unfolding mirrored_by_def
      proof (intro allI impI)
        fix m out
        let ?w = "writing env h room m"
        assume e: "enc_at V b out" and taken: "fo_bits_taken out = fs_bits_taken st" and go: "\<not> fo_stopped out"
        have "generous (fw_heap ?w)" using h by simp
        then obtain out' where "dmi_field_put_bits ?w out (bit_range (vw_bytes V) b ?n) ?n = (True, out')" "enc_at V (b + ?n) out'"
            "out_frame out out'" "fo_stopped out' = fo_stopped out"
          using put_bits_at [OF _ e rest(1) a(1)] by blast
        then show "\<exists>out'. write_one env h room nw fs k m info out = (True, out') \<and> out_frame out out' \<and>
            (if fo_stopped out' then enc_at V (8 * length (vw_bytes V)) out'
             else enc_at V (b + ?n) out' \<and> fo_bits_taken out' = fs_bits_taken st')"
          using False taken go enc_at_mode [OF e] source_bits_at [OF e rest(1) a(1)]
          by (intro exI [of _ "out'\<lparr>fo_bits_taken := 0\<rparr>"])
            (simp add: wr dmi_field_encode_pad_def s enc_at_taken out_frame_taken Let_def)
      qed
    qed (use rest(2) in simp_all)
  qed
qed

section \<open>One after the other\<close>

lemma mirrored_weaken: "mirrored_by V F b b' st st' write \<Longrightarrow> F \<subseteq> G \<Longrightarrow> mirrored_by V G b b' st st' write"
  unfolding mirrored_by_def using agrees_subset by metis

lemma carried_weaken: "carried V F b c st st' write \<Longrightarrow> F \<subseteq> G \<Longrightarrow> carried V G b c st st' write"
  unfolding carried_def using mirrored_weaken agrees_subset Compl_anti_mono by metis

text \<open>What changes between two fields is not where the decoder is, nor the memory.\<close>

definition same_place :: "dmi_field_state \<Rightarrow> dmi_field_state \<Rightarrow> bool" where
  "same_place st st' \<longleftrightarrow> fs_memory st' = fs_memory st \<and> fs_bits_taken st' = fs_bits_taken st \<and>
     (\<forall>V b. dec_at V b st' \<longleftrightarrow> dec_at V b st)"

lemma same_place_refl [simp]: "same_place st st"
  by (simp add: same_place_def)

lemma same_place_update:
  "same_place st (st\<lparr>fs_optional := o'\<rparr>)" "same_place st (st\<lparr>fs_defined := v\<rparr>)" "same_place st (st\<lparr>fs_queue := q\<rparr>)"
  by (simp_all add: same_place_def dec_at_def filling_def)

lemma same_place_entity:
  assumes "en_string_count e = en_string_count (dc_entity (fs_decoder st))" and "en_strings e = en_strings (dc_entity (fs_decoder st))"
  shows "same_place st (st\<lparr>fs_decoder := (fs_decoder st)\<lparr>dc_entity := e\<rparr>, fs_optional := o'\<rparr>)"
  using assms by (simp add: same_place_def dec_at_def filling_def)

lemma carried_same:
  assumes "carried V F b c st1 st1' write" and "same_place st1 st" and "same_place st1' st'"
  shows "carried V F b c st st' write"
  using assms unfolding carried_def mirrored_by_def same_place_def by metis

lemma carried_stay: "dec_at V b st \<Longrightarrow> b mod 8 = c \<Longrightarrow> same_place st st' \<Longrightarrow> carried V {} b c st st' (\<lambda>m out. (True, out))"
  by (auto simp: carried_def mirrored_by_def same_place_def intro!: exI [of _ b])

lemma carried_seq:
  assumes first: "carried V F b c st st1 w1"
    and second: "\<And>b1. dec_at V b1 st1 \<Longrightarrow> b1 mod 8 = c \<Longrightarrow> carried V G b1 c' st1 st' w2"
    and apart: "F \<inter> G = {}" and stops: "\<And>m out. fo_stopped out \<Longrightarrow> w2 m out = (True, out)"
  shows "carried V (F \<union> G) b c' st st' (\<lambda>m out. case w1 m out of (False, out) \<Rightarrow> (False, out) | (True, out) \<Rightarrow> w2 m out)"
proof -
  obtain b1 where b1: "dec_at V b1 st1" "b \<le> b1" "b1 mod 8 = c" and mem1: "agrees (- F) (fs_memory st) (fs_memory st1)"
    and m1: "mirrored_by V F b b1 st st1 w1"
    using first by (auto simp: carried_def)
  obtain b' where b': "dec_at V b' st'" "b1 \<le> b'" "b' mod 8 = c'" and mem2: "agrees (- G) (fs_memory st1) (fs_memory st')"
    and m2: "mirrored_by V G b1 b' st1 st' w2"
    using second [OF b1(1,3)] by (auto simp: carried_def)
  have FG: "F \<subseteq> - G" using apart by auto
  have "mirrored_by V (F \<union> G) b b' st st' (\<lambda>m out. case w1 m out of (False, out) \<Rightarrow> (False, out) | (True, out) \<Rightarrow> w2 m out)"
    unfolding mirrored_by_def
  proof (intro allI impI)
    fix m out
    assume a: "agrees (F \<union> G) m (fs_memory st')" "enc_at V b out" "fo_bits_taken out = fs_bits_taken st" "\<not> fo_stopped out"
    have "agrees F m (fs_memory st')" by (rule agrees_subset [OF a(1)]) simp
    moreover have "agrees F (fs_memory st1) (fs_memory st')" by (rule agrees_subset [OF mem2 FG])
    ultimately have "agrees F m (fs_memory st1)" by (auto simp: agrees_def)
    from mirrored_byD [OF m1 this a(2-4)] obtain out1 where out1: "w1 m out = (True, out1)" "out_frame out out1"
      and at1: "if fo_stopped out1 then enc_at V (8 * length (vw_bytes V)) out1 else enc_at V b1 out1 \<and> fo_bits_taken out1 = fs_bits_taken st1"
      by metis
    show "\<exists>out'. (case w1 m out of (False, out) \<Rightarrow> (False, out) | (True, out) \<Rightarrow> w2 m out) = (True, out') \<and> out_frame out out' \<and>
        (if fo_stopped out' then enc_at V (8 * length (vw_bytes V)) out' else enc_at V b' out' \<and> fo_bits_taken out' = fs_bits_taken st')"
    proof (cases "fo_stopped out1")
      case True
      then show ?thesis using out1 at1 stops by (intro exI [of _ out1]) simp
    next
      case False
      have "agrees G m (fs_memory st')" by (rule agrees_subset [OF a(1)]) simp
      from mirrored_byD [OF m2 this _ _ False] at1 False obtain out' where "w2 m out1 = (True, out')" "out_frame out1 out'"
        "if fo_stopped out' then enc_at V (8 * length (vw_bytes V)) out' else enc_at V b' out' \<and> fo_bits_taken out' = fs_bits_taken st'"
        by metis
      then show ?thesis using out1 out_frame_trans [OF out1(2)] by (intro exI [of _ out']) simp
    qed
  qed
  moreover have "agrees (- (F \<union> G)) (fs_memory st) (fs_memory st')"
    using mem1 mem2 by (simp add: agrees_def)
  ultimately show ?thesis using b' b1(2) unfolding carried_def by (intro exI [of _ b']) simp
qed

section \<open>Nested structures and vectors\<close>

lemma region_shift: "region (map ((+) o') span) info = region span (info + o')"
  by (auto simp: region_def image_iff add.assoc)

lemma region_append: "region (a @ b) info = region a info \<union> region b info"
  by (auto simp: region_def)

lemma map_shift: "map ((+) (a + c)) xs = map (\<lambda>x. a + (c + x)) (xs :: nat list)"
  by (simp add: add.assoc)

lemma complete_update [simp]: "complete (st\<lparr>fs_optional := o'\<rparr>) \<longleftrightarrow> complete st"
  by (simp add: complete_def)

lemma nested_carried:
  assumes nested: "mirrors V span nr nw" and b: "dec_at V b st" "b mod 8 = 0"
    and run: "dmi_field_decode_nested nr st info = (True, st')" and whole: "complete st'"
  shows "carried V (region span info) b 0 st st' (\<lambda>m. nw m info)"
proof -
  obtain st1 where r: "nr info (st\<lparr>fs_optional := False\<rparr>) = (True, st1)" and st': "st' = st1\<lparr>fs_optional := fs_optional st\<rparr>"
    using run by (auto simp: dmi_field_decode_nested_def split: prod.splits)
  have same: "same_place st (st\<lparr>fs_optional := False\<rparr>)" "same_place st1 st'" by (simp_all add: st' same_place_update)
  have "dec_at V b (st\<lparr>fs_optional := False\<rparr>)" "complete st1" using b(1) whole same(1) by (simp_all add: same_place_def st')
  from mirrorsD [OF nested this(1) b(2) r this(2)] have "carried V (region span info) b 0 (st\<lparr>fs_optional := False\<rparr>) st1 (\<lambda>m. nw m info)" .
  then show ?thesis by (rule carried_same) (use same in \<open>simp_all add: same_place_def\<close>)
qed

lemma struct_mirrors:
  assumes type: "fd_type f = DMI_FIELD_TYPE_STRUCT" and ok: "field_ok env f" and k: "fs ! k = f"
    and nested: "mirrors V (list_span (fd_fields f)) nr nw" and whole: "complete st'"
    and b: "dec_at V b st" "b mod 8 = 0" and run: "read_one env nr f info st = (True, st')"
  shows "carried V (region (field_span f) info) b 0 st st' (\<lambda>m. write_one env h room nw fs k m info)"
proof -
  let ?x = "info + mr_offset (fd_member f)"
  have present: "dmi_member_is_present (fd_member f)" using ok type by (simp add: field_ok_def)
  have "dmi_field_decode_nested nr st ?x = (True, st')"
    using run type present by (auto simp: read_one_def dmi_field_decode_one_def Let_def split: prod.splits)
  from nested_carried [OF nested b this whole] have "carried V (region (list_span (fd_fields f)) ?x) b 0 st st' (\<lambda>m. nw m ?x)" .
  moreover have "write_one env h room nw fs k m info = nw m ?x" for m
    using type k present by (auto simp: write_one_def dmi_field_encode_one_def Let_def split: prod.splits)
  ultimately show ?thesis using type by (simp add: field_span_def span_of_def region_shift)
qed

lemma vector_carried:
  assumes nested: "mirrors V span nr nw" and reach: "reading_reaches nr" and small: "list_all (\<lambda>x. x < n') span"
    and stops: "\<And>m x out. fo_stopped out \<Longrightarrow> nw m x out = (True, out)"
  shows "dec_at V b st \<Longrightarrow> b mod 8 = 0 \<Longrightarrow> vector_loop nr x n' n st = (True, st') \<Longrightarrow> complete st' \<Longrightarrow>
    carried V (region (concat (map (\<lambda>i. map ((+) (i * n')) span) [0..<n])) x) b 0 st st' (\<lambda>m. encode_vector_loop (nw m) x n' n)"
proof (induction n arbitrary: x b st)
  case 0
  then show ?case using carried_stay [OF 0(1,2) same_place_refl] by (simp add: region_def)
next
  case (Suc n)
  obtain st1 where one: "dmi_field_decode_nested nr st x = (True, st1)" and rest: "vector_loop nr (x + n') n' n st1 = (True, st')"
    using Suc.prems(3) by (auto split: prod.splits bool.splits)
  have "complete st1" by (rule reach_complete [OF reach_vector_loop [OF reach rest] Suc.prems(4)])
  note first = nested_carried [OF nested Suc.prems(1,2) one this]
  let ?rest = "concat (map (\<lambda>i. map ((+) (i * n')) span) [0..<n])"
  have stopped: "fo_stopped out \<Longrightarrow> encode_vector_loop (nw m) (x + n') n' n out = (True, out)" for m out
    by (induction n arbitrary: x) (simp_all add: stops)
  have "y < n'" if "y \<in> set span" for y using small that by (simp add: list_all_iff)
  then have apart: "region span x \<inter> region ?rest (x + n') = {}" by (fastforce simp: region_def)
  have split: "region (concat (map (\<lambda>i. map ((+) (i * n')) span) [0..<Suc n])) x = region span x \<union> region ?rest (x + n')"
  proof -
    have "[0..<Suc n] = 0 # map Suc [0..<n]" by (metis map_Suc_upt upt_conv_Cons zero_less_Suc)
    then have "concat (map (\<lambda>i. map ((+) (i * n')) span) [0..<Suc n]) = span @ map ((+) n') ?rest"
      by (simp add: map_concat comp_def map_shift map_idI del: upt_Suc)
    then show ?thesis by (simp add: region_append region_shift)
  qed
  have "carried V (region span x \<union> region ?rest (x + n')) b 0 st st'
      (\<lambda>m out. case nw m x out of (False, out) \<Rightarrow> (False, out) | (True, out) \<Rightarrow> encode_vector_loop (nw m) (x + n') n' n out)"
    by (rule carried_seq [OF first _ apart stopped]) (rule Suc.IH [OF _ _ rest Suc.prems(4)])
  then show ?case unfolding split by simp
qed

lemma vector_mirrors:
  assumes type: "fd_type f = DMI_FIELD_TYPE_VECTOR" and ok: "field_ok env f" and k: "fs ! k = f"
    and nested: "mirrors V (list_span (fd_fields f)) nr nw" and reach: "reading_reaches nr" and whole: "complete st'"
    and small: "list_all (\<lambda>x. x < mr_size (fd_member f)) (list_span (fd_fields f))"
    and stops: "\<And>m x out. fo_stopped out \<Longrightarrow> nw m x out = (True, out)"
    and b: "dec_at V b st" "b mod 8 = 0" and run: "read_one env nr f info st = (True, st')"
  shows "carried V (region (field_span f) info) b 0 st st' (\<lambda>m. write_one env h room nw fs k m info)"
proof -
  let ?o = "mr_offset (fd_member f)" and ?n = "mr_size (fd_member f)" and ?count = "fp_count (fd_params f)"
  have present: "dmi_member_is_present (fd_member f)" using ok type by (simp add: field_ok_def)
  have "vector_loop nr (info + ?o) ?n ?count st = (True, st')"
    using run type present
    by (auto simp: read_one_def dmi_field_decode_one_def dmi_field_decode_vector_def Let_def split: prod.splits)
  note loop = vector_carried [OF nested reach small stops b this whole]
  have "write_one env h room nw fs k m info = encode_vector_loop (nw m) (info + ?o) ?n ?count" for m
    using type k present
    by (auto simp: write_one_def dmi_field_encode_one_def dmi_field_encode_vector_def Let_def split: prod.splits)
  moreover have "field_span f = map ((+) ?o) (concat (map (\<lambda>i. map ((+) (i * ?n)) (list_span (fd_fields f))) [0..<?count]))"
    using type by (simp add: field_span_def span_of_def map_concat comp_def map_shift)
  ultimately show ?thesis using loop by (simp add: region_shift)
qed

end
