(* ===== verification/Field_Lists.thy ===== *)
theory Field_Lists
  imports Field_Round
begin

text \<open>
  Whole lists of fields, and whole structures, are written back the way they were read: by induction over
  the fields of a list, with the group they belong to, and over the lists nested in them.
\<close>

section \<open>Any field\<close>

lemma stopped_stays: "fo_stopped out \<Longrightarrow> dmi_field_encode_list w fs info out = (True, out)"
proof -
  assume "fo_stopped out"
  then have "encode_loop w fs k nested choices info out = (True, out)" for k nested choices
    by (cases nested) simp_all
  then show ?thesis by (subst dmi_field_encode_list.simps) (simp add: encode_list_with_def)
qed

definition writes_one :: "dmi_field_env \<Rightarrow> heap \<Rightarrow> (nat \<Rightarrow> bool) \<Rightarrow> dmi_field list \<Rightarrow> nat \<Rightarrow> nat \<Rightarrow> dmi_memory \<Rightarrow> dmi_field_output \<Rightarrow> bool \<times> dmi_field_output" where
  "writes_one env h room fs k info m =
    write_one env h room (\<lambda>m. dmi_field_encode_list (writing env h room m) (fd_fields (fs ! k))) fs k m info"

text \<open>Where in its byte a field leaves the data.\<close>

definition next_bit :: "dmi_field \<Rightarrow> nat \<Rightarrow> nat" where
  "next_bit f b = (if fd_type f = DMI_FIELD_TYPE_BITS then (b + fp_bits (fd_params f)) mod 8 else 0)"

text \<open>What the fields nested in a field are known to do.\<close>

definition nested_fine :: "dmi_field_env \<Rightarrow> heap \<Rightarrow> (nat \<Rightarrow> bool) \<Rightarrow> dmi_view \<Rightarrow> dmi_field \<Rightarrow> bool" where
  "nested_fine env h room V f \<longleftrightarrow>
     (fd_type f \<in> {DMI_FIELD_TYPE_STRUCT, DMI_FIELD_TYPE_VECTOR} \<longrightarrow>
       mirrors V (list_span (fd_fields f)) (dmi_field_decode_list env (fd_fields f))
         (\<lambda>m. dmi_field_encode_list (writing env h room m) (fd_fields f))) \<and>
     (fd_type f = DMI_FIELD_TYPE_VECTOR \<longrightarrow> list_all (\<lambda>x. x < mr_size (fd_member f)) (list_span (fd_fields f)))"

lemma one_carried:
  assumes ok: "field_ok env f" and h: "generous h" and k: "fs ! k = f" and plain: "\<And>f. f \<in> set fs \<Longrightarrow> \<not> fp_extended (fd_params f)"
    and type: "fd_type f \<notin> {DMI_FIELD_TYPE_OFFSET, DMI_FIELD_TYPE_PRESET, DMI_FIELD_TYPE_GROUP}"
    and aligned: "fd_type f \<notin> {DMI_FIELD_TYPE_BITS, DMI_FIELD_TYPE_PAD} \<Longrightarrow> b mod 8 = 0"
    and nested: "nested_fine env h room V f" and b: "dec_at V b st" and whole: "complete st'"
    and run: "read_one env (dmi_field_decode_list env (fd_fields f)) f info st = (True, st')"
  shows "carried V (region (field_span f) info) b (next_bit f b) st st' (writes_one env h room fs k info)"
proof -
  note reach = reach_list [of env "fd_fields f"]
  have w: "writes_one env h room fs k info =
      (\<lambda>m. write_one env h room (\<lambda>m. dmi_field_encode_list (writing env h room m) (fd_fields f)) fs k m info)"
    by (rule ext) (simp add: writes_one_def k)
  show ?thesis
  proof (cases "fd_type f")
    case DMI_FIELD_TYPE_INTEGER
    with aligned integer_mirrors [OF _ ok h k plain b _ run] show ?thesis by (simp add: next_bit_def w)
  next
    case DMI_FIELD_TYPE_STRING
    with aligned string_mirrors [OF _ ok h k plain b _ run] show ?thesis by (simp add: next_bit_def w)
  next
    case DMI_FIELD_TYPE_BINARY
    with aligned binary_mirrors [OF _ ok h k plain b _ run] show ?thesis by (simp add: next_bit_def w)
  next
    case DMI_FIELD_TYPE_UUID
    with aligned uuid_mirrors [OF _ ok h k b _ run] show ?thesis by (simp add: next_bit_def w)
  next
    case DMI_FIELD_TYPE_SKIP
    with aligned skip_mirrors [OF _ ok h k b _ run] show ?thesis by (simp add: next_bit_def w)
  next
    case DMI_FIELD_TYPE_BITS
    with bits_mirrors [OF _ ok h k b run] show ?thesis by (simp add: next_bit_def w)
  next
    case DMI_FIELD_TYPE_PAD
    with pad_mirrors [OF _ ok h k b run] show ?thesis by (simp add: next_bit_def w)
  next
    case DMI_FIELD_TYPE_STRUCT
    then have "b mod 8 = 0" "mirrors V (list_span (fd_fields f)) (dmi_field_decode_list env (fd_fields f))
        (\<lambda>m. dmi_field_encode_list (writing env h room m) (fd_fields f))"
      using aligned nested by (simp_all add: nested_fine_def)
    from struct_mirrors [OF DMI_FIELD_TYPE_STRUCT ok k this(2) whole b this(1) run] DMI_FIELD_TYPE_STRUCT
    show ?thesis by (simp add: next_bit_def w)
  next
    case DMI_FIELD_TYPE_VECTOR
    then have "b mod 8 = 0" "mirrors V (list_span (fd_fields f)) (dmi_field_decode_list env (fd_fields f))
        (\<lambda>m. dmi_field_encode_list (writing env h room m) (fd_fields f))"
      "list_all (\<lambda>x. x < mr_size (fd_member f)) (list_span (fd_fields f))"
      using aligned nested by (simp_all add: nested_fine_def)
    from vector_mirrors [OF DMI_FIELD_TYPE_VECTOR ok k this(2) reach whole this(3) _ b this(1) run] DMI_FIELD_TYPE_VECTOR stopped_stays
    show ?thesis by (simp add: next_bit_def w)
  qed (use ok type in \<open>simp_all add: field_ok_def\<close>)
qed

section \<open>Groups\<close>

definition group_span :: "dmi_field option \<Rightarrow> nat list" where
  "group_span grp = (case grp of None \<Rightarrow> [] | Some g \<Rightarrow> field_span g)"

definition group_held :: "dmi_field option \<Rightarrow> nat \<Rightarrow> dmi_memory \<Rightarrow> bool" where
  "group_held grp info m \<longleftrightarrow> (\<forall>g. grp = Some g \<longrightarrow> \<not> dmi_field_group_is_absent g m info)"

definition group_ok :: "dmi_field_env \<Rightarrow> dmi_field option \<Rightarrow> bool" where
  "group_ok env grp \<longleftrightarrow> (\<forall>g. grp = Some g \<longrightarrow> fd_type g = DMI_FIELD_TYPE_GROUP \<and> field_ok env g)"

lemma store_one:
  assumes "mr_size member \<in> {1, 2, 4, 8}"
  obtains cs where "dmi_field_store_member member m (Some a) 1 = (True, mem_store m a cs)" "length cs = mr_size member"
    "dmi_field_load_member member (mem_store m a cs) a = 1"
proof -
  have bytes: "map (cell_byte \<circ> Byte) bs = bs" for bs by (simp add: comp_def)
  consider "mr_size member = 1" | "mr_size member = 2" | "mr_size member = 4" | "mr_size member = 8" using assms by auto
  then show thesis
  proof cases
    case 1
    then show thesis
      by (intro that [of "map Byte (store_word 1 (1 :: 8 word))"])
        (simp_all add: dmi_field_store_member_def dmi_field_load_member_def mem_load_same bytes load_store_word)
  next
    case 2
    then show thesis
      by (intro that [of "map Byte (store_word 2 (1 :: 16 word))"])
        (simp_all add: dmi_field_store_member_def dmi_field_load_member_def mem_load_same bytes load_store_word)
  next
    case 3
    then show thesis
      by (intro that [of "map Byte (store_word 4 (1 :: 32 word))"])
        (simp_all add: dmi_field_store_member_def dmi_field_load_member_def mem_load_same bytes load_store_word)
  next
    case 4
    then show thesis
      by (intro that [of "map Byte (store_word 8 (1 :: uintmax_t))"])
        (simp_all add: dmi_field_store_member_def dmi_field_load_member_def mem_load_same bytes load_store_word)
  qed
qed

lemma span_group:
  assumes "fd_type g = DMI_FIELD_TYPE_GROUP"
  shows "region (field_span g) info =
    {info + mr_offset (fp_present (fd_params g))..<info + mr_offset (fp_present (fd_params g)) + mr_size (fp_present (fd_params g))}"
  using assms by (simp add: field_span_def span_of_def region_member)

lemma absent_cong:
  assumes "fd_type g = DMI_FIELD_TYPE_GROUP" and "agrees (region (field_span g) info) m m'"
  shows "dmi_field_group_is_absent g m info \<longleftrightarrow> dmi_field_group_is_absent g m' info"
  using agrees_load_member [OF assms(2), of "info + mr_offset (fp_present (fd_params g))" "fp_present (fd_params g)"]
  by (simp add: span_group [OF assms(1)] dmi_field_group_is_absent_def)

lemma held_cong:
  assumes "group_ok env grp" and "agrees (region (group_span grp) info) m m'" and "group_held grp info m"
  shows "group_held grp info m'"
  using assms absent_cong by (auto simp: group_held_def group_ok_def group_span_def)

text \<open>A group is marked as read at the end of it.\<close>

lemma group_read_held:
  assumes ok: "group_ok env grp" and b: "dec_at V b st"
  obtains m where "dmi_field_group_read grp info st = (True, st\<lparr>fs_memory := m\<rparr>)" and "group_held grp info m"
    and "carried V (region (group_span grp) info) b (b mod 8) st (st\<lparr>fs_memory := m\<rparr>) (\<lambda>m out. (True, out))"
proof -
  have here: "carried V F b (b mod 8) st (st\<lparr>fs_memory := m\<rparr>) (\<lambda>m out. (True, out))" if "agrees (- F) (fs_memory st) m" for F m
    using b that by (auto simp: carried_def mirrored_by_def dec_at_frame intro!: exI [of _ b])
  consider "grp = None" | g where "grp = Some g" "\<not> dmi_member_is_present (fp_present (fd_params g))"
    | g where "grp = Some g" "dmi_member_is_present (fp_present (fd_params g))" by (cases grp) auto
  then show thesis
  proof cases
    case 1
    then show thesis using here [OF agrees_refl] by (intro that [of "fs_memory st"]) (simp_all add: dmi_field_group_read_def group_held_def)
  next
    case 2
    then show thesis using here [OF agrees_refl]
      by (intro that [of "fs_memory st"]) (simp_all add: dmi_field_group_read_def group_held_def dmi_field_group_is_absent_def)
  next
    case 3
    let ?p = "fp_present (fd_params g)"
    let ?x = "info + mr_offset ?p"
    have g: "fd_type g = DMI_FIELD_TYPE_GROUP" "mr_size ?p \<in> {1, 2, 4, 8}"
      using ok 3 by (auto simp: group_ok_def field_ok_def dmi_member_is_present_def)
    from store_one [OF g(2)] obtain cs where cs: "dmi_field_store_member ?p (fs_memory st) (Some ?x) 1 = (True, mem_store (fs_memory st) ?x cs)"
      "length cs = mr_size ?p" "dmi_field_load_member ?p (mem_store (fs_memory st) ?x cs) ?x = 1" by metis
    show thesis
    proof (rule that [of "mem_store (fs_memory st) ?x cs"])
      show "dmi_field_group_read grp info st = (True, st\<lparr>fs_memory := mem_store (fs_memory st) ?x cs\<rparr>)"
        using 3 cs(1) by (simp add: dmi_field_group_read_def store_with_def)
      show "group_held grp info (mem_store (fs_memory st) ?x cs)"
        using 3 cs(3) by (simp add: group_held_def dmi_field_group_is_absent_def)
      have "agrees (- region (group_span grp) info) (fs_memory st) (mem_store (fs_memory st) ?x cs)"
        using agrees_store [of ?x cs "fs_memory st"] 3 cs(2) span_group [OF g(1), of info] by (simp add: group_span_def)
      then show "carried V (region (group_span grp) info) b (b mod 8) st (st\<lparr>fs_memory := mem_store (fs_memory st) ?x cs\<rparr>) (\<lambda>m out. (True, out))"
        by (rule here)
    qed
  qed
qed

lemma carried_imp:
  assumes "carried V F b c st st' w"
    and "\<And>m out out'. agrees F m (fs_memory st') \<Longrightarrow> enc_at V b out \<Longrightarrow> \<not> fo_stopped out \<Longrightarrow> w m out = (True, out') \<Longrightarrow> w' m out = (True, out')"
  shows "carried V F b c st st' w'"
  using assms unfolding carried_def mirrored_by_def by metis

lemma encoder_tell_at: "source_at V p ec \<Longrightarrow> dmi_encoder_tell ec = of_nat p"
  using encoder_tell_correct [of ec] by (simp add: source_at_def) (metis of_nat_unat ucast_id)

section \<open>The fields of a list\<close>

definition reads :: "dmi_field_env \<Rightarrow> dmi_field list \<Rightarrow> (dmi_field \<times> dmi_field_reading) list" where
  "reads env gs = map (\<lambda>f. (f, dmi_field_decode_list env (fd_fields f))) gs"

definition writes :: "dmi_field_env \<Rightarrow> heap \<Rightarrow> (nat \<Rightarrow> bool) \<Rightarrow> dmi_field list \<Rightarrow> nat \<Rightarrow> nat \<Rightarrow> dmi_field list \<Rightarrow> dmi_memory \<Rightarrow> dmi_field_output \<Rightarrow> bool \<times> dmi_field_output" where
  "writes env h room fs k info gs m =
    encode_loop (writing env h room m) fs k (map (\<lambda>f. dmi_field_encode_list (writing env h room m) (fd_fields f)) gs) [] info"

definition spans :: "dmi_field list \<Rightarrow> nat list" where
  "spans gs = concat (map field_span gs)"

text \<open>The fields \<open>gs\<close> are the ones of the list \<open>fs\<close> from the index \<open>k\<close> on.\<close>

definition rest_carried :: "dmi_field_env \<Rightarrow> heap \<Rightarrow> (nat \<Rightarrow> bool) \<Rightarrow> dmi_view \<Rightarrow> dmi_field list \<Rightarrow> nat \<Rightarrow> nat \<Rightarrow> dmi_field list \<Rightarrow> bool" where
  "rest_carried env h room V fs info k gs \<longleftrightarrow>
    (\<forall>grp b st st'. group_ok env grp \<longrightarrow> set (group_span grp) \<inter> set (spans gs) = {} \<longrightarrow> apart gs \<longrightarrow>
       bits_closed (vw_version V) (b mod 8) gs \<longrightarrow> dec_at V b st \<longrightarrow> fields_loop env (reads env gs) grp [] info st = (True, st') \<longrightarrow>
       complete st' \<longrightarrow>
       carried V (region (group_span grp @ spans gs) info) b 0 st st' (writes env h room fs k info gs) \<and> group_held grp info (fs_memory st'))"

lemma rest_carriedD:
  assumes "rest_carried env h room V fs info k gs" and "group_ok env grp" and "set (group_span grp) \<inter> set (spans gs) = {}" and "apart gs"
    and "bits_closed (vw_version V) (b mod 8) gs" and "dec_at V b st" and "fields_loop env (reads env gs) grp [] info st = (True, st')"
    and "complete st'"
  shows "carried V (region (group_span grp @ spans gs) info) b 0 st st' (writes env h room fs k info gs)"
    and "group_held grp info (fs_memory st')"
  using assms unfolding rest_carried_def by blast+

lemma apart_span: "apart (f # gs) \<Longrightarrow> set (field_span f) \<inter> set (spans gs) = {}"
  by (fastforce simp: spans_def list_all_iff)

lemma spans_Cons: "spans (f # gs) = field_span f @ spans gs"
  by (simp add: spans_def)

lemma region_disjoint: "set a \<inter> set c = {} \<Longrightarrow> region a info \<inter> region c info = {}"
  by (auto simp: region_def)

lemma writes_stops: "fo_stopped out \<Longrightarrow> writes env h room fs k info gs m out = (True, out)"
  by (cases gs) (simp_all add: writes_def)

lemma loop_reach:
  assumes "fields_loop env (reads env gs) grp choices info st = (status, st')"
  shows "state_reach st st'"
  by (rule reach_fields_loop [OF _ assms]) (auto simp: reads_def reach_list)

lemma rest_nil: "rest_carried env h room V fs info k []"
  unfolding rest_carried_def
proof (intro allI impI conjI)
  fix grp b st st'
  assume ok: "group_ok env grp" and closed: "bits_closed (vw_version V) (b mod 8) []" and b: "dec_at V b st"
    and run: "fields_loop env (reads env []) grp [] info st = (True, st')"
  obtain m where m: "dmi_field_group_read grp info st = (True, st\<lparr>fs_memory := m\<rparr>)" "group_held grp info m"
    "carried V (region (group_span grp) info) b (b mod 8) st (st\<lparr>fs_memory := m\<rparr>) (\<lambda>m out. (True, out))"
    by (rule group_read_held [OF ok b, of info])
  have s: "st' = st\<lparr>fs_memory := m\<rparr>" using run m(1) by (simp add: reads_def)
  have w: "writes env h room fs k info [] = (\<lambda>m out. (True, out))" by (intro ext) (simp add: writes_def)
  show "carried V (region (group_span grp @ spans []) info) b 0 st st' (writes env h room fs k info [])"
    using m(3) closed by (simp add: s w spans_def)
  show "group_held grp info (fs_memory st')" using m(2) by (simp add: s)
qed

text \<open>Fields which only describe the list, or which are not in this version of it, change nothing.\<close>

lemma rest_passed:
  assumes rest: "rest_carried env h room V fs info (k + 1) gs" and k: "fs ! k = f"
    and step: "\<And>grp b st st'. dec_at V b st \<Longrightarrow> bits_closed (vw_version V) (b mod 8) (f # gs) \<Longrightarrow>
      fields_loop env (reads env (f # gs)) grp [] info st = (True, st') \<Longrightarrow>
      fields_loop env (reads env gs) grp [] info st = (True, st') \<and>
      (\<forall>m out. enc_at V b out \<longrightarrow> \<not> fo_stopped out \<longrightarrow>
        writes env h room fs k info (f # gs) m out = writes env h room fs (k + 1) info gs m out)"
    and closed: "\<And>n. bits_closed (vw_version V) n (f # gs) \<Longrightarrow> bits_closed (vw_version V) n gs"
  shows "rest_carried env h room V fs info k (f # gs)"
  unfolding rest_carried_def
proof (intro allI impI)
  fix grp b st st'
  assume a: "group_ok env grp" "set (group_span grp) \<inter> set (spans (f # gs)) = {}" "apart (f # gs)"
    "bits_closed (vw_version V) (b mod 8) (f # gs)" "dec_at V b st"
    "fields_loop env (reads env (f # gs)) grp [] info st = (True, st')" "complete st'"
  have "set (group_span grp) \<inter> set (spans gs) = {}" "apart gs" using a(2,3) by (auto simp: spans_Cons)
  note r' = rest_carriedD [OF rest a(1) this closed [OF a(4)] a(5)]
  note go = step [OF a(5,4,6)]
  note r = r' [OF conjunct1 [OF go] a(7)]
  have "carried V (region (group_span grp @ spans gs) info) b 0 st st' (writes env h room fs k info (f # gs))"
    by (rule carried_imp [OF r(1)]) (simp add: go)
  then have "carried V (region (group_span grp @ spans (f # gs)) info) b 0 st st' (writes env h room fs k info (f # gs))"
    by (rule carried_weaken) (auto simp: region_append spans_Cons)
  with r(2) show "carried V (region (group_span grp @ spans (f # gs)) info) b 0 st st' (writes env h room fs k info (f # gs)) \<and>
      group_held grp info (fs_memory st')" by simp
qed

lemma reads_Cons: "reads env (f # gs) = (f, dmi_field_decode_list env (fd_fields f)) # reads env gs"
  by (simp add: reads_def)

lemma writes_Cons:
  "writes env h room fs k info (f # gs) m =
    encode_loop (writing env h room m) fs k (dmi_field_encode_list (writing env h room m) (fd_fields f) #
      map (\<lambda>f. dmi_field_encode_list (writing env h room m) (fd_fields f)) gs) [] info"
  by (simp add: writes_def)

lemma rest_offset:
  assumes rest: "rest_carried env h room V fs info (k + 1) gs" and k: "fs ! k = f" and type: "fd_type f = DMI_FIELD_TYPE_OFFSET"
  shows "rest_carried env h room V fs info k (f # gs)"
proof (rule rest_passed [OF rest k])
  fix grp b st st'
  assume b: "dec_at V b st" and closed: "bits_closed (vw_version V) (b mod 8) (f # gs)"
    and run: "fields_loop env (reads env (f # gs)) grp [] info st = (True, st')"
  have aligned: "b mod 8 = 0" using closed type by simp
  note r = reader_at_tell [OF dec_aligned(1) [OF b aligned]]
  have offset: "of_nat (b div 8) = fp_offset (fd_params f)"
    using run type r by (auto simp: reads_Cons dmi_field_check_offset_def split: if_splits)
  have "fields_loop env (reads env gs) grp [] info st = (True, st')"
    using run type r offset by (simp add: reads_Cons dmi_field_check_offset_def)
  moreover have "writes env h room fs k info (f # gs) m out = writes env h room fs (k + 1) info gs m out"
    if e: "enc_at V b out" "\<not> fo_stopped out" for m out
    unfolding writes_Cons
    using type k encoder_tell_at [OF enc_aligned(1) [OF e(1) aligned]] offset e(2)
    by (simp add: dmi_field_check_offset_def Let_def writes_def)
  ultimately show "fields_loop env (reads env gs) grp [] info st = (True, st') \<and>
      (\<forall>m out. enc_at V b out \<longrightarrow> \<not> fo_stopped out \<longrightarrow>
        writes env h room fs k info (f # gs) m out = writes env h room fs (k + 1) info gs m out)" by blast
qed (use type in simp)

lemma rest_preset:
  assumes rest: "rest_carried env h room V fs info (k + 1) gs" and k: "fs ! k = f" and type: "fd_type f = DMI_FIELD_TYPE_PRESET"
  shows "rest_carried env h room V fs info k (f # gs)"
  by (rule rest_passed [OF rest k]) (use type k in \<open>simp_all add: reads_Cons writes_Cons writes_def Let_def\<close>)

lemma rest_undefined:
  assumes rest: "rest_carried env h room V fs info (k + 1) gs" and k: "fs ! k = f"
    and type: "fd_type f \<notin> {DMI_FIELD_TYPE_OFFSET, DMI_FIELD_TYPE_PRESET, DMI_FIELD_TYPE_GROUP}"
    and undefined: "\<not> dmi_field_is_defined f (vw_version V)"
  shows "rest_carried env h room V fs info k (f # gs)"
  by (rule rest_passed [OF rest k])
    (use type k undefined in \<open>simp_all add: reads_Cons writes_Cons writes_def Let_def dec_at_def enc_at_def enc_holds_def\<close>)

text \<open>A field which is read.\<close>

lemma loop_one:
  assumes type: "fd_type f \<notin> {DMI_FIELD_TYPE_OFFSET, DMI_FIELD_TYPE_PRESET, DMI_FIELD_TYPE_GROUP}"
    and defined: "dmi_field_is_defined f (vw_version V)" and b: "dec_at V b st"
    and run: "fields_loop env (reads env (f # gs)) grp [] info st = (True, st')" and whole: "complete st'"
  obtains st1 v where "read_one env (dmi_field_decode_list env (fd_fields f)) f info st = (True, st1)"
    and "fields_loop env (reads env gs) grp [] info (st1\<lparr>fs_defined := v\<rparr>) = (True, st')" and "complete st1"
proof -
  obtain status choices st1 where one: "dmi_field_decode_one env (dmi_field_decode_list env (fd_fields f)) st f info [] = (status, choices, st1)"
    by (metis prod_cases3)
  have v: "fs_version st = vw_version V" and part: "\<not> fs_is_part st" using b by (simp_all add: dec_at_def)
  have "\<not> fs_is_part st1" using part reach_one [OF reach_list one] by (simp add: state_reach_def)
  then have status: "status"
    using run whole type defined one v incomplete_not_complete [of st1]
    by (cases status) (auto simp: reads_Cons split: if_splits)
  define v where "v = (if fp_from (fd_params f) > fs_defined st1 then fp_from (fd_params f) else fs_defined st1)"
  have "fields_loop env (reads env gs) grp [] info (st1\<lparr>fs_defined := v\<rparr>) = (True, st')"
    using run type defined one status decode_one_choices [OF one] v_def \<open>fs_version st = vw_version V\<close>
    by (auto simp: reads_Cons split: if_splits)
  moreover from reach_complete [OF loop_reach [OF this] whole] have "complete st1" by (simp add: complete_def)
  ultimately show thesis using one status by (intro that [of st1 v]) (simp_all add: read_one_def)
qed

lemma closed_next:
  assumes "fd_type f \<notin> {DMI_FIELD_TYPE_OFFSET, DMI_FIELD_TYPE_PRESET, DMI_FIELD_TYPE_GROUP}" and "dmi_field_is_defined f version"
    and "bits_closed version (b mod 8) (f # gs)"
  shows "bits_closed version (next_bit f b) gs" and "fd_type f \<notin> {DMI_FIELD_TYPE_BITS, DMI_FIELD_TYPE_PAD} \<Longrightarrow> b mod 8 = 0"
  using assms by (auto simp: next_bit_def mod_add_left_eq split: if_splits)

lemma rest_field:
  assumes rest: "rest_carried env h room V fs info (k + 1) gs" and k: "fs ! k = f" and h: "generous h" and ok: "field_ok env f"
    and type: "fd_type f \<notin> {DMI_FIELD_TYPE_OFFSET, DMI_FIELD_TYPE_PRESET, DMI_FIELD_TYPE_GROUP}"
    and defined: "dmi_field_is_defined f (vw_version V)" and plain: "\<And>f. f \<in> set fs \<Longrightarrow> \<not> fp_extended (fd_params f)"
    and nested: "nested_fine env h room V f"
  shows "rest_carried env h room V fs info k (f # gs)"
  unfolding rest_carried_def
proof (intro allI impI)
  fix grp b st st'
  assume a: "group_ok env grp" "set (group_span grp) \<inter> set (spans (f # gs)) = {}" "apart (f # gs)"
    "bits_closed (vw_version V) (b mod 8) (f # gs)" "dec_at V b st"
    "fields_loop env (reads env (f # gs)) grp [] info st = (True, st')" "complete st'"
  obtain st1 v where one: "read_one env (dmi_field_decode_list env (fd_fields f)) f info st = (True, st1)"
    and run: "fields_loop env (reads env gs) grp [] info (st1\<lparr>fs_defined := v\<rparr>) = (True, st')" and whole: "complete st1"
    by (rule loop_one [OF type defined a(5-7)])
  note closed = closed_next [OF type defined a(4)]
  note first = carried_same [OF one_carried [OF ok h k plain type closed(2) nested a(5) whole one] same_place_refl same_place_update(2)]
  have disjoint: "set (group_span grp) \<inter> set (spans gs) = {}" "apart gs" using a(2,3) by (auto simp: spans_Cons)
  have here: "carried V (region (group_span grp @ spans gs) info) b1 0 (st1\<lparr>fs_defined := v\<rparr>) st' (writes env h room fs (k + 1) info gs) \<and>
      group_held grp info (fs_memory st')" if b1: "dec_at V b1 (st1\<lparr>fs_defined := v\<rparr>)" "b1 mod 8 = next_bit f b" for b1
    using rest_carriedD [OF rest a(1) disjoint _ b1(1) run a(7)] closed(1) b1(2) by simp
  obtain b1 where "dec_at V b1 (st1\<lparr>fs_defined := v\<rparr>)" "b1 mod 8 = next_bit f b" using first by (auto simp: carried_def)
  from here [OF this] have held: "group_held grp info (fs_memory st')" by simp
  have "set (field_span f) \<inter> set (group_span grp @ spans gs) = {}" using apart_span [OF a(3)] a(2) by (auto simp: spans_Cons)
  note seq = carried_seq [OF first conjunct1 [OF here] region_disjoint [OF this] writes_stops]
  have both: "carried V (region (field_span f) info \<union> region (group_span grp @ spans gs) info) b 0 st st'
      (\<lambda>m out. case writes_one env h room fs k info m out of (False, out) \<Rightarrow> (False, out) | (True, out) \<Rightarrow> writes env h room fs (k + 1) info gs m out)"
    by (rule seq)
  have "carried V (region (field_span f) info \<union> region (group_span grp @ spans gs) info) b 0 st st' (writes env h room fs k info (f # gs))"
  proof (rule carried_imp [OF both])
    fix m out out'
    assume "enc_at V b out" and go: "\<not> fo_stopped out"
      and w: "(case writes_one env h room fs k info m out of (False, out) \<Rightarrow> (False, out)
        | (True, out) \<Rightarrow> writes env h room fs (k + 1) info gs m out) = (True, out')"
    then have version: "fo_version out = vw_version V" by (simp add: enc_at_def enc_holds_def)
    let ?w = "writing env h room m"
    obtain status choices out1 where one: "dmi_field_encode_one ?w (dmi_field_encode_list ?w (fd_fields f)) out fs k info [] =
        (status, choices, out1)" by (metis prod_cases3)
    have "writes_one env h room fs k info m out = (status \<and> choices = [], out1)"
      using one k by (simp add: writes_one_def write_one_def)
    then have "status" "choices = []" "writes env h room fs (k + 1) info gs m out1 = (True, out')"
      using w by (auto split: bool.splits)
    moreover have "writes env h room fs k info (f # gs) m out =
        (case dmi_field_encode_one ?w (dmi_field_encode_list ?w (fd_fields f)) out fs k info [] of
          (False, choices, out) \<Rightarrow> (False, out)
        | (True, choices, out) \<Rightarrow>
            encode_loop ?w fs (k + 1) (map (\<lambda>f. dmi_field_encode_list ?w (fd_fields f)) gs) choices info out)"
      using type defined go version k by (simp add: writes_Cons Let_def)
    ultimately show "writes env h room fs k info (f # gs) m out = (True, out')"
      using one by (simp add: writes_def)
  qed
  then have "carried V (region (group_span grp @ spans (f # gs)) info) b 0 st st' (writes env h room fs k info (f # gs))"
    by (rule carried_weaken) (auto simp: region_append spans_Cons)
  with held show "carried V (region (group_span grp @ spans (f # gs)) info) b 0 st st' (writes env h room fs k info (f # gs)) \<and>
      group_held grp info (fs_memory st')" by simp
qed

text \<open>A group begins, or the data has ended before it and so do both.\<close>

lemma writes_group:
  assumes type: "fd_type g = DMI_FIELD_TYPE_GROUP" and k: "fs ! k = g" and e: "enc_at V b out" "b mod 8 = 0" and go: "\<not> fo_stopped out"
  shows "writes env h room fs k info (g # gs) m out = writes env h room fs (k + 1) info gs m
    (if dmi_field_group_is_absent g m info \<or> b = 8 * length (vw_bytes V) then out\<lparr>fo_stopped := True\<rparr> else out)"
proof -
  note at = enc_aligned(1) [OF e]
  have "dmi_encoder_remaining (fo_encoder out) = 0 \<longleftrightarrow> length (vw_bytes V) - b div 8 = 0"
    using source_at_remaining [OF at] by (simp add: unat_eq_0 [symmetric])
  moreover have "b = 8 * (b div 8)" using e(2) by auto
  ultimately have "dmi_encoder_remaining (fo_encoder out) = 0 \<longleftrightarrow> b = 8 * length (vw_bytes V)"
    using source_at_le [OF at] by auto
  then show ?thesis using type k go enc_at_mode [OF e(1)] by (simp add: writes_Cons writes_def Let_def)
qed

lemma group_ends:
  assumes type: "fd_type g = DMI_FIELD_TYPE_GROUP" and k: "fs ! k = g"
    and first: "carried V F b 0 st st1 (\<lambda>m out. (True, out))" and b: "b = 8 * length (vw_bytes V)" and place: "same_place st1 st'"
  shows "carried V F b 0 st st' (writes env h room fs k info (g # gs))"
proof -
  obtain b1 where at: "dec_at V b1 st1" "b \<le> b1" "agrees (- F) (fs_memory st) (fs_memory st1)" using first by (auto simp: carried_def)
  have "b1 = b" using at(1,2) b dec_at_bound by force
  then have "dec_at V b st'" using at(1) place by (simp add: same_place_def)
  moreover have "mirrored_by V F b b st st' (writes env h room fs k info (g # gs))"
    unfolding mirrored_by_def
  proof (intro allI impI)
    fix m out
    assume e: "enc_at V b out" and go: "\<not> fo_stopped out"
    have "writes env h room fs k info (g # gs) m out = (True, out\<lparr>fo_stopped := True\<rparr>)"
      using writes_group [OF type k e _ go] b by (simp add: writes_stops)
    moreover have "enc_at V b (out\<lparr>fo_stopped := True\<rparr>)" using e by (simp add: enc_at_def enc_holds_def)
    moreover have "out_frame out (out\<lparr>fo_stopped := True\<rparr>)" by (simp add: out_frame_def)
    ultimately show "\<exists>out'. writes env h room fs k info (g # gs) m out = (True, out') \<and> out_frame out out' \<and>
        (if fo_stopped out' then enc_at V (8 * length (vw_bytes V)) out' else enc_at V b out' \<and> fo_bits_taken out' = fs_bits_taken st')"
      using b by (intro exI [of _ "out\<lparr>fo_stopped := True\<rparr>"]) simp
  qed
  ultimately show ?thesis using at(3) b place unfolding carried_def by (intro exI [of _ b]) (simp add: same_place_def)
qed

lemma rest_group:
  assumes rest: "rest_carried env h room V fs info (k + 1) gs" and k: "fs ! k = g" and ok: "field_ok env g"
    and type: "fd_type g = DMI_FIELD_TYPE_GROUP"
  shows "rest_carried env h room V fs info k (g # gs)"
  unfolding rest_carried_def
proof (intro allI impI)
  fix grp b st st'
  assume a: "group_ok env grp" "set (group_span grp) \<inter> set (spans (g # gs)) = {}" "apart (g # gs)"
    "bits_closed (vw_version V) (b mod 8) (g # gs)" "dec_at V b st"
    "fields_loop env (reads env (g # gs)) grp [] info st = (True, st')" "complete st'"
  have aligned: "b mod 8 = 0" and closed: "bits_closed (vw_version V) 0 gs" using a(4) type by auto
  obtain m0 where m0: "dmi_field_group_read grp info st = (True, st\<lparr>fs_memory := m0\<rparr>)" "group_held grp info m0"
    "carried V (region (group_span grp) info) b 0 st (st\<lparr>fs_memory := m0\<rparr>) (\<lambda>m out. (True, out))"
    using group_read_held [OF a(1,5), of info] aligned by metis
  let ?st1 = "st\<lparr>fs_memory := m0\<rparr>"
  note r = dec_aligned(1) [OF a(5) aligned]
  have b8: "b = 8 * (b div 8)" using aligned by auto
  show "carried V (region (group_span grp @ spans (g # gs)) info) b 0 st st' (writes env h room fs k info (g # gs)) \<and>
      group_held grp info (fs_memory st')"
  proof (cases "dmi_reader_is_done (fs_reader st)")
    case True
    then have s: "st' = st\<lparr>fs_memory := m0, fs_decoder := dmi_decoder_stop (fs_decoder st)\<rparr>"
      using a(5,6) type m0(1) by (simp add: reads_Cons dmi_field_stop_def dec_at_def)
    have place: "same_place ?st1 st'"
      by (simp add: s same_place_def dec_at_def filling_def dmi_decoder_stop_def dmi_decoder_incomplete_def)
    have "b = 8 * length (vw_bytes V)" using True reader_at_done [OF r] b8 by simp
    from carried_weaken [OF group_ends [OF type k m0(3) this place]] m0(2) show ?thesis
      by (simp add: s region_append)
  next
    case False
    define e where "e = (if fp_since (fd_params g) \<noteq> DMI_VERSION_NONE then (dc_entity (fs_decoder st))\<lparr>en_level := fp_since (fd_params g)\<rparr>
      else dc_entity (fs_decoder st))"
    let ?st2 = "?st1\<lparr>fs_decoder := (fs_decoder ?st1)\<lparr>dc_entity := e\<rparr>, fs_optional := True\<rparr>"
    have run: "fields_loop env (reads env gs) (Some g) [] info ?st2 = (True, st')"
      using a(6) False type m0(1) by (simp add: reads_Cons Let_def e_def split: if_splits)
    have place: "same_place ?st1 ?st2" by (rule same_place_entity) (simp_all add: e_def)
    note first = carried_same [OF m0(3) same_place_refl place]
    have g: "group_ok env (Some g)" using ok type by (simp add: group_ok_def)
    have disjoint: "set (group_span (Some g)) \<inter> set (spans gs) = {}" "apart gs"
      using apart_span [OF a(3)] a(3) by (auto simp: group_span_def)
    have here: "carried V (region (spans (g # gs)) info) b1 0 ?st2 st' (writes env h room fs (k + 1) info gs) \<and> group_held (Some g) info (fs_memory st')"
      if "dec_at V b1 ?st2" "b1 mod 8 = 0" for b1
      using rest_carriedD [OF rest g disjoint _ that(1) run a(7)] that(2) closed by (simp add: group_span_def spans_Cons)
    obtain b1 where "dec_at V b1 ?st2" "b1 mod 8 = 0" using first by (auto simp: carried_def)
    note there = here [OF this]
    have "group_held grp info (fs_memory st')"
    proof (rule held_cong [OF a(1) _ m0(2)])
      have "agrees (- region (spans (g # gs)) info) m0 (fs_memory st')" using there by (auto simp: carried_def)
      then show "agrees (region (group_span grp) info) m0 (fs_memory st')"
        by (rule agrees_subset) (use region_disjoint [OF a(2), of info] in auto)
    qed
    moreover have "carried V (region (group_span grp) info \<union> region (spans (g # gs)) info) b 0 st st' (writes env h room fs k info (g # gs))"
    proof (rule carried_imp [OF carried_seq [OF first conjunct1 [OF here] region_disjoint [OF a(2)] writes_stops]])
      fix m out out'
      assume mem: "agrees (region (group_span grp) info \<union> region (spans (g # gs)) info) m (fs_memory st')"
        and e: "enc_at V b out" and go: "\<not> fo_stopped out"
        and w: "(case (True, out) of (False, out) \<Rightarrow> (False, out) | (True, out) \<Rightarrow> writes env h room fs (k + 1) info gs m out) = (True, out')"
      have "agrees (region (field_span g) info) m (fs_memory st')"
        by (rule agrees_subset [OF mem]) (auto simp: spans_Cons region_append)
      from absent_cong [OF type this] there have "\<not> dmi_field_group_is_absent g m info" by (simp add: group_held_def)
      moreover have "b \<noteq> 8 * length (vw_bytes V)" using False reader_at_done [OF r] b8 by auto
      ultimately show "writes env h room fs k info (g # gs) m out = (True, out')"
        using w writes_group [OF type k e aligned go] by simp
    qed
    ultimately show ?thesis by (simp add: region_append)
  qed
qed

section \<open>Whole lists\<close>

lemma rest_any:
  assumes h: "generous h" and ok: "\<And>f. f \<in> set fs \<Longrightarrow> field_ok env f" and nested: "\<And>f. f \<in> set fs \<Longrightarrow> nested_fine env h room V f"
  shows "fs = pre @ gs \<Longrightarrow> rest_carried env h room V fs info (length pre) gs"
proof (induction gs arbitrary: pre)
  case Nil
  show ?case by (rule rest_nil)
next
  case (Cons f gs)
  then have rest: "rest_carried env h room V fs info (length pre + 1) gs" using Cons.IH [of "pre @ [f]"] by simp
  have k: "fs ! length pre = f" and f: "f \<in> set fs" using Cons.prems by simp_all
  have plain: "\<And>f. f \<in> set fs \<Longrightarrow> \<not> fp_extended (fd_params f)" using ok by (simp add: field_ok_def)
  consider "fd_type f = DMI_FIELD_TYPE_OFFSET" | "fd_type f = DMI_FIELD_TYPE_PRESET" | "fd_type f = DMI_FIELD_TYPE_GROUP"
    | "fd_type f \<notin> {DMI_FIELD_TYPE_OFFSET, DMI_FIELD_TYPE_PRESET, DMI_FIELD_TYPE_GROUP}" by auto
  then show ?case
  proof cases
    case 1
    then show ?thesis by (rule rest_offset [OF rest k])
  next
    case 2
    then show ?thesis by (rule rest_preset [OF rest k])
  next
    case 3
    then show ?thesis by (rule rest_group [OF rest k ok [OF f]])
  next
    case 4
    then show ?thesis
      using rest_undefined [OF rest k 4] rest_field [OF rest k h ok [OF f] 4 _ plain nested [OF f]] by blast
  qed
qed

lemma set_absent_agrees: "agrees (- region (list_span fs) info) m (set_absent fs info m)"
proof (induction fs arbitrary: m)
  case (Cons f fs)
  obtain member type params nested where f: "f = Dmi_field member type params nested" by (cases f)
  define m1 where "m1 = (case fp_absent params of
      Some cs \<Rightarrow> if dmi_member_is_present member then mem_store m (info + mr_offset member) (take (mr_size member) cs) else m
    | None \<Rightarrow> m)"
  have "agrees (- region (absent_span member params) info) m m1"
    by (auto simp: m1_def absent_span_def region_member agrees_def mem_store_cell split: option.splits)
  then have "agrees (- region (list_span (f # fs)) info) m m1" by (rule agrees_subset) (auto simp: f region_append)
  moreover have "agrees (- region (list_span (f # fs)) info) m1 (set_absent fs info m1)"
    by (rule agrees_subset [OF Cons.IH]) (auto simp: f region_append)
  moreover have "set_absent (f # fs) info m = set_absent fs info m1" by (cases "fp_absent params") (simp_all add: f m1_def)
  ultimately show ?case using agrees_trans by metis
qed simp

lemma spans_list: "region (spans fs) info \<subseteq> region (list_span fs) info"
proof (induction fs)
  case (Cons f fs)
  then show ?case by (cases f) (auto simp: spans_Cons field_span_def region_append)
qed (simp add: spans_def region_def)

lemma carried_before:
  assumes "carried V F b c st0 st' write" and "agrees (- F) (fs_memory st) (fs_memory st0)" and "fs_bits_taken st0 = fs_bits_taken st"
  shows "carried V F b c st st' write"
  using assms agrees_trans unfolding carried_def mirrored_by_def by fastforce

lemma list_mirrors:
  assumes h: "generous h" and ok: "\<And>f. f \<in> set fs \<Longrightarrow> field_ok env f" and nested: "\<And>f. f \<in> set fs \<Longrightarrow> nested_fine env h room V f"
    and apart: "apart fs" and closed: "bits_closed (vw_version V) 0 fs"
  shows "mirrors V (list_span fs) (dmi_field_decode_list env fs) (\<lambda>m. dmi_field_encode_list (writing env h room m) fs)"
  unfolding mirrors_def
proof (intro allI impI)
  fix info b st st'
  assume b: "dec_at V b st" "b mod 8 = 0" and run: "dmi_field_decode_list env fs info st = (True, st')" and whole: "complete st'"
  have none: "dmi_field_choices_collect fs [] = []" by (rule no_choices) (use ok in \<open>simp add: field_ok_def\<close>)
  define st0 where "st0 = st\<lparr>fs_memory := set_absent fs info (fs_memory st)\<rparr>"
  have "map fst (reads env fs) = fs" by (simp add: reads_def comp_def)
  then have loop: "fields_loop env (reads env fs) None [] info st0 = (True, st')"
    using run none by (subst (asm) dmi_field_decode_list.simps) (simp add: decode_list_with_def reads_def [symmetric] st0_def)
  have at: "dec_at V b st0" using b(1) by (simp add: st0_def dec_at_frame)
  have "set (group_span None) \<inter> set (spans fs) = {}" "group_ok env None" by (simp_all add: group_span_def group_ok_def)
  moreover have "rest_carried env h room V fs info 0 fs"
    using rest_any [OF h ok nested, where pre = "[]" and gs = fs and info = info] by simp
  ultimately have "carried V (region (spans fs) info) b 0 st0 st' (writes env h room fs 0 info fs)"
    using rest_carriedD(1) [OF _ _ _ apart _ at loop whole] b(2) closed by (simp add: group_span_def)
  then have "carried V (region (list_span fs) info) b 0 st0 st' (writes env h room fs 0 info fs)" by (rule carried_weaken [OF _ spans_list])
  from carried_before [OF this] have "carried V (region (list_span fs) info) b 0 st st' (writes env h room fs 0 info fs)"
    by (simp add: st0_def set_absent_agrees)
  moreover have "writes env h room fs 0 info fs = (\<lambda>m. dmi_field_encode_list (writing env h room m) fs info)"
    by (intro ext, subst dmi_field_encode_list.simps) (simp add: writes_def encode_list_with_def none)
  ultimately show "carried V (region (list_span fs) info) b 0 st st' (\<lambda>m. dmi_field_encode_list (writing env h room m) fs info)"
    by simp
qed

lemma fields_mirror:
  assumes "fields_ok env fs" and h: "generous h" and version: "vw_version V = fe_version env"
  shows "mirrors V (list_span fs) (dmi_field_decode_list env fs) (\<lambda>m. dmi_field_encode_list (writing env h room m) fs)"
  using assms(1)
proof (induction rule: fields_ok.induct)
  case (fields_okI fs)
  have "nested_fine env h room V f" if "f \<in> set fs" for f
    using fields_okI.IH [OF that] fields_okI.hyps(5) [OF that] unfolding nested_fine_def by blast
  then show ?case using list_mirrors [OF h fields_okI(3) _ fields_okI(1)] fields_okI(2) version by simp
qed

end
