(* ===== verification/Field_Whole.thy ===== *)
theory Field_Whole
  imports Field_Lists
begin

text \<open>
  A structure whose specification lists its fields, decoded and written back: what the engine has read it
  puts into the bytes it has read it from.
\<close>

section \<open>Where the two begin\<close>

definition entity_view :: "dmi_field_env \<Rightarrow> dmi_memory dmi_entity \<Rightarrow> dmi_view" where
  "entity_view env e =
    \<lparr>vw_buffer = dmi_entity_buffer e, vw_base = of_nat (dmi_entity_offset e), vw_bytes = decoder_body e,
     vw_strings = en_string_count e, vw_version = fe_version env\<rparr>"

lemma decoder_initialize_source: "dmi_decoder_initialize e = Inr d \<Longrightarrow>
  rd_buffer (dc_reader d) = dmi_entity_buffer e \<and> rd_base (dc_reader d) = of_nat (dmi_entity_offset e)"
  by (auto simp: dmi_decoder_initialize_def dmi_reader_initialize_def dmi_reader_seek_def split: sum.splits if_splits)

lemma decoder_starts:
  assumes e: "entity_readable e" and d: "dmi_decoder_initialize e = Inr d"
  shows "dec_at (entity_view env e) 32 (initial_state env False q d m)"
proof -
  have "dc_entity d = e" "reader_at (entity_view env e) 4 (dc_reader d)"
    using decoder_initialize_reads [OF e] d decoder_initialize_source [OF d] by (auto simp: reader_at_def entity_view_def)
  then show ?thesis using e
    by (auto simp: dec_at_def filling_def initial_state_def entity_view_def entity_readable_def intro!: exI [of _ 4])
qed

lemma put_source:
  assumes "dmi_encoder_put_bytes h q ec ptr = (True, ec', q')" and "ec_source ec = Some r"
  shows "\<exists>r'. ec_source ec' = Some r' \<and> rd_buffer r' = rd_buffer r \<and> rd_base r' = rd_base r"
  using assms
  by (auto simp: dmi_encoder_put_bytes_def dmi_reader_skip_def dmi_reader_advance_def Let_def split: if_splits sum.splits option.splits)

lemma encoder_initialize_source:
  assumes e: "entity_readable e" and run: "dmi_encoder_initialize h mem q b e DMI_ENCODE_MODE_PRESERVE version = (Some ec, q')"
    and mem: "\<forall>i. mem i"
  shows "\<exists>r. ec_source ec = Some r \<and> rd_buffer r = dmi_entity_buffer e \<and> rd_base r = of_nat (dmi_entity_offset e)"
proof -
  obtain w where w: "dmi_writer_initialize b (buf_length b) (-1) = Inr w" by (simp add: dmi_writer_initialize_def)
  obtain r where r: "dmi_reader_initialize (dmi_entity_buffer e) (of_nat (dmi_entity_offset e)) (of_nat (en_body_length e)) = Inr r"
    using entity_source [OF e] by blast
  then have place: "rd_buffer r = dmi_entity_buffer e" "rd_base r = of_nat (dmi_entity_offset e)"
    by (auto simp: dmi_reader_initialize_def split: if_splits)
  let ?ec0 = "\<lparr>ec_entity = e, ec_mode = DMI_ENCODE_MODE_PRESERVE, ec_version = version, ec_writer = w, ec_source = Some r,
      ec_strings = [], ec_capacity = 0\<rparr>"
  obtain c where c: "add_strings mem q ?ec0 (en_strings e) =
      (True, ?ec0\<lparr>ec_strings := map (Some \<circ> se_raw) (en_strings e), ec_capacity := c\<rparr>, q)"
    using add_strings_preserve [OF mem, of ?ec0 q "en_strings e"] by auto
  then have "dmi_encoder_put_bytes h q (?ec0\<lparr>ec_strings := map (Some \<circ> se_raw) (en_strings e), ec_capacity := c\<rparr>) (header_bytes e 0) = (True, ec, q')"
    using run by (auto simp: dmi_encoder_initialize_def w r split: prod.splits bool.splits)
  from put_source [OF this] show ?thesis using place by simp
qed

lemma encoder_starts:
  assumes e: "entity_readable e" and short: "en_body_length e \<le> 255" and b: "buffer_wf b" and h: "generous h" and mem: "\<forall>i. mem i"
    and room: "length (buffer_bytes b) + 255 \<le> 18446744073709551488"
  obtains ec where "dmi_encoder_initialize h mem q b e DMI_ENCODE_MODE_PRESERVE version = (Some ec, q)" and "ec_entity ec = e"
    and "enc_at (entity_view env e) 32 (initial_output env q ec)" and "ec_strings ec = map (Some \<circ> se_raw) (en_strings e)"
    and "unat (wr_base (ec_writer ec)) = length (buffer_bytes b)" and "source_window ec = decoder_body e"
    and "take (length (buffer_bytes b)) (buffer_bytes (wr_buffer (ec_writer ec))) = buffer_bytes b"
proof -
  from encoder_initialize_preserve [OF e b h mem room, of q version] obtain ec where
    ec: "dmi_encoder_initialize h mem q b e DMI_ENCODE_MODE_PRESERVE version = (Some ec, q)" "encoder_wf ec"
      "ec_entity ec = e" "ec_mode ec = DMI_ENCODE_MODE_PRESERVE" "ec_strings ec = map (Some \<circ> se_raw) (en_strings e)"
      "writer_written (ec_writer ec) = header_bytes e 0" "source_rest ec = drop 4 (decoder_body e)"
      "source_window ec = decoder_body e" "unat (wr_base (ec_writer ec)) = length (buffer_bytes b)"
      "take (length (buffer_bytes b)) (buffer_bytes (wr_buffer (ec_writer ec))) = buffer_bytes b" by auto
  obtain r where r: "ec_source ec = Some r" "rd_buffer r = dmi_entity_buffer e" "rd_base r = of_nat (dmi_entity_offset e)"
    using encoder_initialize_source [OF e ec(1) mem] by blast
  have len: "length (decoder_body e) = en_body_length e" "4 \<le> en_body_length e" "en_string_count e = length (en_strings e)"
    using e by (auto simp: decoder_body_def entity_readable_def)
  have wf: "reader_wf r" using ec(2) r(1) by (simp add: encoder_wf_def)
  have rest: "reader_rest r = drop 4 (decoder_body e)" "reader_window r = decoder_body e"
    using ec(7,8) r(1) by (simp_all add: source_rest_def source_window_def)
  have "unat (rd_position r) \<le> length (decoder_body e)"
    using wf length_reader_window [OF wf] rest(2) by (simp add: reader_wf_def word_le_nat_alt)
  moreover have "length (decoder_body e) - unat (rd_position r) = length (decoder_body e) - 4"
    using arg_cong [OF rest(1), of length] rest(2) by (simp add: reader_rest_def)
  ultimately have "unat (rd_position r) = 4" using len by simp
  then have "reader_at (entity_view env e) 4 r" using wf r rest(2) by (simp add: reader_at_def entity_view_def)
  moreover have "length (header_bytes e 0) = 4" by (simp add: header_bytes_def)
  ultimately have "source_at (entity_view env e) 4 ec"
    using ec r len room short by (simp add: source_at_def entity_view_def)
  then have "enc_at (entity_view env e) 32 (initial_output env q ec)"
    using ec(4) by (auto simp: enc_at_def enc_holds_def initial_output_def entity_view_def intro!: exI [of _ 4])
  then show thesis using that [OF ec(1,3) _ ec(5,9,8,10)] by blast
qed

section \<open>Where they end\<close>

text \<open>What the fields have not written is copied, and the header is the one of the data.\<close>

lemma encoder_ends:
  assumes h: "generous h" and at: "enc_at V b out" "b mod 8 = 0" and short: "length (vw_bytes V) \<le> 255"
    and reads: "header_reads_as (ec_entity (fo_encoder out)) (vw_bytes V)" and window: "source_window (fo_encoder out) = vw_bytes V"
    and room: "unat (wr_base (ec_writer (fo_encoder out))) + 255 \<le> 18446744073709551488" and w: "fw_heap w = h"
  obtains out1 ec' where "(if dmi_encoder_remaining (fo_encoder out) > 0
      then dmi_field_put_reserved w out (dmi_encoder_remaining (fo_encoder out)) else (True, out)) = (True, out1)"
    and "out_frame out out1" and "dmi_encoder_finish h (fo_queue out1) (fo_encoder out1) = (True, ec', fo_queue out)"
    and "ec_strings ec' = ec_strings (fo_encoder out)"
    and "buffer_bytes (wr_buffer (ec_writer ec')) =
      take (unat (wr_base (ec_writer (fo_encoder out)))) (buffer_bytes (wr_buffer (ec_writer (fo_encoder out)))) @ vw_bytes V"
proof -
  let ?n = "dmi_encoder_remaining (fo_encoder out)" and ?L = "length (vw_bytes V)"
  note src = enc_aligned(1) [OF at]
  have n: "unat ?n = ?L - b div 8" and le: "b div 8 \<le> ?L" using source_at_remaining [OF src] source_at_le [OF src] by simp_all
  have "\<exists>out1. (if ?n > 0 then dmi_field_put_reserved w out ?n else (True, out)) = (True, out1) \<and> out_frame out out1 \<and>
      source_at V ?L (fo_encoder out1)"
  proof (cases "?n > 0")
    case False
    then have "unat ?n = 0" by (simp add: word_less_nat_alt)
    then have "b div 8 = ?L" using n le by simp
    then show ?thesis using False src by (intro exI [of _ out]) simp
  next
    case True
    have "generous (fw_heap w)" using h w by simp
    from put_reserved_at [OF this at, of ?n] n le obtain out1 where out1: "dmi_field_put_reserved w out ?n = (True, out1)"
      "enc_at V (b + 8 * unat ?n) out1" "out_frame out out1" by auto
    have "(b + 8 * unat ?n) mod 8 = 0" "(b + 8 * unat ?n) div 8 = ?L" using at(2) n le by simp_all
    with enc_aligned(1) [OF out1(2)] have "source_at V ?L (fo_encoder out1)" by simp
    then show ?thesis using True out1 by (intro exI [of _ out1]) simp
  qed
  then obtain out1 where out1: "(if ?n > 0 then dmi_field_put_reserved w out ?n else (True, out)) = (True, out1)"
    "out_frame out out1" "source_at V ?L (fo_encoder out1)" by blast
  let ?ec = "fo_encoder out1"
  have frame: "ec_entity ?ec = ec_entity (fo_encoder out)" "source_window ?ec = vw_bytes V" "ec_strings ?ec = ec_strings (fo_encoder out)"
    "wr_base (ec_writer ?ec) = wr_base (ec_writer (fo_encoder out))"
    "take (unat (wr_base (ec_writer ?ec))) (buffer_bytes (wr_buffer (ec_writer ?ec))) =
      take (unat (wr_base (ec_writer (fo_encoder out)))) (buffer_bytes (wr_buffer (ec_writer (fo_encoder out))))"
    using out1(2) window by (simp_all add: out_frame_def encoder_frame_def)
  have four: "4 \<le> ?L" using reads by (simp add: header_reads_as_def)
  let ?written = "writer_written (ec_writer ?ec)"
  have written: "?written = take 4 ?written @ drop 4 (source_window ?ec)" "length (take 4 ?written) = 4"
    using out1(3) four frame(2) append_take_drop_id [of 4 ?written] by (simp_all add: source_at_def)
  from encoder_finish_preserve [OF _ h _ written, of "fo_queue out1"] out1(3) frame short reads room obtain ec' where
    fin: "dmi_encoder_finish h (fo_queue out1) ?ec = (True, ec', fo_queue out1)" "wr_base (ec_writer ec') = wr_base (ec_writer ?ec)"
      "writer_range (ec_writer ec') = vw_bytes V" "ec_strings ec' = ec_strings ?ec"
      "take (unat (wr_base (ec_writer ?ec))) (buffer_bytes (wr_buffer (ec_writer ec'))) =
        take (unat (wr_base (ec_writer ?ec))) (buffer_bytes (wr_buffer (ec_writer ?ec)))"
    by (auto simp: source_at_def)
  have "buffer_bytes (wr_buffer (ec_writer ec')) =
      take (unat (wr_base (ec_writer (fo_encoder out)))) (buffer_bytes (wr_buffer (ec_writer (fo_encoder out)))) @ vw_bytes V"
    using fin(2,3,5) frame(4,5) append_take_drop_id [of "unat (wr_base (ec_writer ?ec))" "buffer_bytes (wr_buffer (ec_writer ec'))"]
    by (simp add: writer_range_def)
  then show thesis using that [OF out1(1,2)] fin(1,4) frame(3) out1(2) by (simp add: out_frame_def)
qed

section \<open>There and back\<close>

text \<open>What decoding by the fields leaves: the memory of the structure, and its writing.\<close>

lemma fields_decode_mirrored:
  assumes e: "entity_readable e" and d: "dmi_decoder_initialize e = Inr d" and run: "dmi_fields_decode env q d = (True, d', q')"
    and spec: "en_spec e = Some spec" and ok: "fields_ok env (fe_fields env spec)" and h: "generous h"
    and whole: "\<not> bit (en_state (dc_entity d')) 3"
  obtains m b F st where "en_info (dc_entity d') = Some m" and "b mod 8 = 0" and "fs_memory st = m"
    and "mirrored_by (entity_view env e) F 32 b (initial_state env False q d m0) st (\<lambda>m. dmi_field_encode_list (writing env h room m) (fe_fields env spec) 0)"
proof -
  have de: "dc_entity d = e" using decoder_initialize_reads [OF e] d by auto
  obtain m1 where fields: "sp_has_fields spec" and m1: "en_info e = Some m1"
    using run spec de by (auto simp: dmi_fields_decode_def dmi_entity_info_def dmi_entity_spec_type_def split: if_splits option.splits)
  let ?V = "entity_view env e" and ?fs = "fe_fields env spec"
  obtain status st where l: "dmi_field_decode_list env ?fs 0 (initial_state env False q d m1) = (status, st)" by fastforce
  have same: "d\<lparr>dc_entity := e\<rparr> = d" using de by auto
  have out: "status" "en_info (dc_entity d') = Some (fs_memory st)" "en_state (dc_entity d') = en_state (dc_entity (fs_decoder st))"
    using run spec de fields m1 l same
    by (auto simp: dmi_fields_decode_def dmi_entity_info_def dmi_entity_spec_type_def Let_def split: if_splits)
  have "complete st" using whole out(3) by (simp add: complete_def)
  moreover have "dec_at ?V 32 (initial_state env False q d m1)" by (rule decoder_starts [OF e d])
  moreover have "vw_version ?V = fe_version env" by (simp add: entity_view_def)
  ultimately have "carried ?V (region (list_span ?fs) 0) 32 0 (initial_state env False q d m1) st
      (\<lambda>m. dmi_field_encode_list (writing env h room m) ?fs 0)"
    using mirrorsD [OF fields_mirror [OF ok h]] l out(1) by simp
  then obtain b F where b: "b mod 8 = 0" and m: "mirrored_by ?V F 32 b (initial_state env False q d m1) st
      (\<lambda>m. dmi_field_encode_list (writing env h room m) ?fs 0)" unfolding carried_def by (elim exE conjE) (rule that; assumption)
  from m have "mirrored_by ?V F 32 b (initial_state env False q d m0) st
      (\<lambda>m. dmi_field_encode_list (writing env h room m) ?fs 0)" by (simp add: mirrored_by_def initial_state_def)
  from that [OF out(2) b refl this] show thesis .
qed

text \<open>Writing by the fields from such a memory gives the data.\<close>

lemma fields_encode_mirrored:
  assumes mirror: "mirrored_by (entity_view env e) F 32 b (initial_state env False q0 d m0) st (\<lambda>m. dmi_field_encode_list (writing env h room m) (fe_fields env spec) 0)"
    and b: "b mod 8 = 0" and info: "en_info e = Some (fs_memory st)" and spec: "en_spec e = Some spec" "sp_has_fields spec"
    and e: "entity_readable e" and short: "en_body_length e \<le> 255" and reads: "header_reads_as e (decoder_body e)"
    and out: "buffer_wf buf" and h: "generous h" and mem: "\<forall>i. mem i" and room: "length (buffer_bytes buf) + 255 \<le> 18446744073709551488"
  shows "\<exists>ec ec'. dmi_encoder_initialize h mem q buf e DMI_ENCODE_MODE_PRESERVE version = (Some ec, q) \<and>
    dmi_fields_encode env h room q ec = (True, ec', q) \<and> ec_entity ec = e \<and>
    buffer_bytes (wr_buffer (ec_writer ec')) = buffer_bytes buf @ decoder_body e \<and>
    ec_strings ec' = map (Some \<circ> se_raw) (en_strings e)"
proof -
  let ?V = "entity_view env e" and ?fs = "fe_fields env spec" and ?m = "fs_memory st"
  let ?w = "writing env h room ?m"
  obtain ec where ec: "dmi_encoder_initialize h mem q buf e DMI_ENCODE_MODE_PRESERVE version = (Some ec, q)" "ec_entity ec = e"
    "enc_at ?V 32 (initial_output env q ec)" "ec_strings ec = map (Some \<circ> se_raw) (en_strings e)"
    "unat (wr_base (ec_writer ec)) = length (buffer_bytes buf)" "source_window ec = decoder_body e"
    "take (length (buffer_bytes buf)) (buffer_bytes (wr_buffer (ec_writer ec))) = buffer_bytes buf"
    by (rule encoder_starts [OF e short out h mem room])
  have start: "fo_bits_taken (initial_output env q ec) = fs_bits_taken (initial_state env False q0 d m0)"
    "\<not> fo_stopped (initial_output env q ec)" by (simp_all add: initial_output_def initial_state_def)
  from mirrored_byD [OF mirror agrees_refl ec(3) start] obtain out' where
    run: "dmi_field_encode_list ?w ?fs 0 (initial_output env q ec) = (True, out')" "out_frame (initial_output env q ec) out'"
    and at: "if fo_stopped out' then enc_at ?V (8 * length (vw_bytes ?V)) out' else enc_at ?V b out' \<and> fo_bits_taken out' = fs_bits_taken st"
    by metis
  obtain c where c: "enc_at ?V c out'" "c mod 8 = 0" using at b by (cases "fo_stopped out'") auto
  have fr: "ec_entity (fo_encoder out') = e" "source_window (fo_encoder out') = vw_bytes ?V" "fo_queue out' = q"
    "wr_base (ec_writer (fo_encoder out')) = wr_base (ec_writer ec)" "ec_strings (fo_encoder out') = ec_strings ec"
    "take (length (buffer_bytes buf)) (buffer_bytes (wr_buffer (ec_writer (fo_encoder out')))) = buffer_bytes buf"
    using run(2) ec by (simp_all add: out_frame_def encoder_frame_def initial_output_def entity_view_def)
  have len: "length (vw_bytes ?V) \<le> 255" "vw_bytes ?V = decoder_body e"
    using short e by (simp_all add: entity_view_def decoder_body_def)
  obtain out1 ec' where fin: "(if dmi_encoder_remaining (fo_encoder out') > 0
      then dmi_field_put_reserved ?w out' (dmi_encoder_remaining (fo_encoder out')) else (True, out')) = (True, out1)"
    "dmi_encoder_finish h (fo_queue out1) (fo_encoder out1) = (True, ec', fo_queue out')" "ec_strings ec' = ec_strings (fo_encoder out')"
    "buffer_bytes (wr_buffer (ec_writer ec')) =
      take (unat (wr_base (ec_writer (fo_encoder out')))) (buffer_bytes (wr_buffer (ec_writer (fo_encoder out')))) @ vw_bytes ?V"
    by (rule encoder_ends [OF h c len(1), of ?w]) (use fr reads len ec(5) room in simp_all)
  have w: "\<lparr>fw_env = env, fw_heap = h, fw_room = room, fw_memory = ?m\<rparr> = ?w" by (simp add: writing_def)
  have "dmi_fields_encode env h room q ec = (True, ec', q)"
    using run(1) fin(1,2) fr(3) spec info ec(2) by (simp add: dmi_fields_encode_def w Let_def)
  then show ?thesis using ec(1,2,4,5) fin(3,4) fr(4-6) len(2) by auto
qed

section \<open>Decoding and encoding a structure\<close>

lemma decode_by_fields:
  assumes e: "entity_in_buffer e" "en_state e = 0" "en_overlays e = []" "en_overlay e = None"
    and ops: "eo_fields_decode ops = dmi_fields_decode env"
    and run: "dmi_entity_decode ops mem h addr type_map q e = (True, e', q')"
    and spec: "fst (dmi_entity_spec_select type_map q e) = Some spec" "sp_has_fields spec" "\<not> sp_has_decode spec" "\<not> sp_has_derive spec"
  obtains e2 d d' q2 where "same_structure e e2" and "en_overlay e2 = None" and "en_spec e2 = Some spec" and "en_info e2 \<noteq> None"
    and "dmi_decoder_initialize e2 = Inr d" and "dmi_fields_decode env q2 d = (True, d', q')"
    and "e' = (dc_entity d')\<lparr>en_state := en_state (dc_entity d') OR DMI_ENTITY_STATE_DECODED\<rparr>"
proof -
  obtain e0 q0 where sel: "dmi_entity_spec_select type_map q e = (Some spec, e0, q0)"
    using spec(1) by (metis fst_conv prod_cases3)
  have used: "same_but_used e e0" using spec_select_used [of e type_map q] e(1) by (simp add: sel entity_in_buffer_def)
  note keep = entity_in_buffer_used [OF used e(1)]
  have undecoded: "\<not> dmi_entity_is_decoded e" using e(2) by (simp add: dmi_entity_is_decoded_def)
  let ?e1 = "e0\<lparr>en_spec := Some spec, en_level := ep_minimum_version (sp_params spec)\<rparr>"
  let ?e2 = "?e1\<lparr>en_info := Some (eo_blank ops spec)\<rparr>"
  have same: "same_structure e ?e2"
    using decoding_frame_structure [OF decoding_frame_same_but_used [OF used]] same_structure_trans same_structure_update(1-3) by metis
  have fin: "(case dmi_decoder_initialize ?e2 of
      Inl f \<Rightarrow> (False, ?e2, q0)
    | Inr d \<Rightarrow> (case dmi_fields_decode env q0 d of (status, d, q) \<Rightarrow> (status, dc_entity d, q))) = (True, e3, q3) \<Longrightarrow>
      e' = e3\<lparr>en_state := en_state e3 OR DMI_ENTITY_STATE_DECODED\<rparr> \<and> q' = q3" for e3 q3
    using run undecoded spec(2-4) keep(3) e(3) ops
    by (auto simp: dmi_entity_decode_def sel Let_def split: if_splits prod.splits)
  have "\<exists>e3 q3. (case dmi_decoder_initialize ?e2 of
      Inl f \<Rightarrow> (False, ?e2, q0)
    | Inr d \<Rightarrow> (case dmi_fields_decode env q0 d of (status, d, q) \<Rightarrow> (status, dc_entity d, q))) = (True, e3, q3)"
    using run undecoded spec(2-4) keep(3) e(3) ops
    by (auto simp: dmi_entity_decode_def sel Let_def split: if_splits prod.splits)
  then obtain e3 q3 where e3: "(case dmi_decoder_initialize ?e2 of
      Inl f \<Rightarrow> (False, ?e2, q0)
    | Inr d \<Rightarrow> (case dmi_fields_decode env q0 d of (status, d, q) \<Rightarrow> (status, dc_entity d, q))) = (True, e3, q3)" by blast
  then obtain d d' where d: "dmi_decoder_initialize ?e2 = Inr d" "dmi_fields_decode env q0 d = (True, d', q3)" "e3 = dc_entity d'"
    by (auto split: sum.splits prod.splits)
  show thesis
    by (rule that [OF same _ _ _ d(1)]) (use d fin [OF e3] keep(4) e(4) in simp_all)
qed

lemma same_structure_data:
  assumes "same_structure e e'"
  shows "en_string_count e' = en_string_count e" and "length (en_strings e') = length (en_strings e)"
    and "map se_raw (en_strings e') = map se_raw (en_strings e)" and "en_body_length e' = en_body_length e"
    and "en_buffer e' = en_buffer e" and "en_offset e' = en_offset e" and "en_type_id e' = en_type_id e" and "en_handle e' = en_handle e"
proof -
  show raw: "map se_raw (en_strings e') = map se_raw (en_strings e)" using assms by (simp add: same_structure_def)
  then show "length (en_strings e') = length (en_strings e)" by (metis length_map)
  show "en_string_count e' = en_string_count e" "en_body_length e' = en_body_length e"
    "en_buffer e' = en_buffer e" "en_offset e' = en_offset e" "en_type_id e' = en_type_id e" "en_handle e' = en_handle e"
    using assms unfolding same_structure_def by (cases e'; simp)+
qed

lemma same_structure_readable:
  assumes "same_structure e e'" and "entity_readable e" and "en_overlay e = None" and "en_overlay e' = None"
  shows "entity_readable e'" and "decoder_body e' = decoder_body e" and "entity_view env e' = entity_view env e"
    and "header_reads_as e body \<Longrightarrow> header_reads_as e' body"
  using same_structure_data [OF assms(1)] assms(2-4)
  by (simp_all add: entity_readable_def decoder_body_def entity_view_def dmi_entity_buffer_def dmi_entity_offset_def header_reads_as_def)

lemma written_back:
  assumes table: "buffer_wf b" "dmi_entity_create m q0 b off = (Some e, q1)"
    and ops: "eo_fields_decode ops = dmi_fields_decode env" "eo_fields_encode enc = dmi_fields_encode env"
    and run: "dmi_entity_decode ops mem h addr type_map q e = (True, e', q')"
    and spec: "fst (dmi_entity_spec_select type_map q e) = Some spec" "sp_has_fields spec" "\<not> sp_has_decode spec" "\<not> sp_has_derive spec"
    and ok: "fields_ok env (fe_fields env spec)" and whole: "en_state e' AND DMI_ENTITY_STATE_INCOMPLETE = 0"
    and out: "buffer_wf out" "length (buffer_bytes out) + 255 \<le> 18446744073709551488" and h: "generous h'" "\<forall>i. mem' i"
  shows "\<exists>ec ec'. dmi_encoder_initialize h' mem' q2 out e' DMI_ENCODE_MODE_PRESERVE version = (Some ec, q2) \<and>
    dmi_entity_encode enc h' mem' q2 ec = (True, ec', q2) \<and>
    buffer_bytes (wr_buffer (ec_writer ec')) = buffer_bytes out @ entity_body e \<and>
    ec_strings ec' = map (Some \<circ> se_raw) (en_strings e)"
proof -
  note c = created_header_reads [OF table] and created = entity_create_some [OF table]
  obtain e2 d d' q3 where run2: "same_structure e e2" "en_overlay e2 = None" "en_spec e2 = Some spec" "en_info e2 \<noteq> None"
    "dmi_decoder_initialize e2 = Inr d" "dmi_fields_decode env q3 d = (True, d', q')"
    "e' = (dc_entity d')\<lparr>en_state := en_state (dc_entity d') OR DMI_ENTITY_STATE_DECODED\<rparr>"
    by (rule decode_by_fields [OF created(2,6,7,8) ops(1) run spec])
  note two = same_structure_readable [OF run2(1) c(2) created(8) run2(2)]
  have de: "dc_entity d = e2" using decoder_initialize_reads [OF two(1)] run2(5) by auto
  have "decoder_keeps d d'"
    using reach_keeps [of q3 d q' d'] fields_decode_contract [of env] run2(6) two(1) by (simp add: decode_contract_def de entity_readable_def)
  then have frame: "decoding_frame e2 (dc_entity d')" by (simp add: decoder_keeps_def de)
  have over: "en_overlay (dc_entity d') = None" using frame run2(2) unfolding decoding_frame_def by (cases "dc_entity d'") auto
  have same: "same_structure e e'"
    unfolding run2(7) using same_structure_trans [OF run2(1) same_structure_trans [OF decoding_frame_structure [OF frame] same_structure_update(4)]] .
  have "\<not> bit (en_state e' AND DMI_ENTITY_STATE_INCOMPLETE) 3" using whole by simp
  moreover have "bit DMI_ENTITY_STATE_INCOMPLETE 3"
  proof -
    have "bit (8 :: 32 word) 3" by simp
    then show ?thesis by (simp add: DMI_ENTITY_STATE_INCOMPLETE_def)
  qed
  ultimately have whole': "\<not> bit (en_state (dc_entity d')) 3" by (simp add: run2(7) bit_or_iff bit_and_iff)
  obtain mm b F st where mir: "en_info (dc_entity d') = Some mm" "b mod 8 = 0" "fs_memory st = mm"
    "mirrored_by (entity_view env e2) F 32 b (initial_state env False q3 d undefined) st
      (\<lambda>m. dmi_field_encode_list (writing env h' mem' m) (fe_fields env spec) 0)"
    by (rule fields_decode_mirrored [OF two(1) run2(5,6,3) ok h(1) whole'])
  have over': "en_overlay e' = None" using over by (simp add: run2(7))
  note fin = same_structure_readable [OF same c(2) created(8) over']
  have view: "entity_view env e2 = entity_view env e'" by (simp add: two(3) fin(3))
  have spec': "en_spec e' = Some spec" using decoding_frame_fields(6) [OF frame] run2(3) by (simp add: run2(7))
  have info: "en_info e' = Some (fs_memory st)" using mir(1,3) by (simp add: run2(7))
  have "en_body_length e' \<le> 255" "header_reads_as e' (decoder_body e')"
    using same_structure_data(4) [OF same] c(1,3,4) fin by simp_all
  from fields_encode_mirrored [OF mir(4) [unfolded view] mir(2) info spec' spec(2) fin(1) this out(1) h out(2)] obtain ec ec' where
    enc: "dmi_encoder_initialize h' mem' q2 out e' DMI_ENCODE_MODE_PRESERVE version = (Some ec, q2)"
      "dmi_fields_encode env h' mem' q2 ec = (True, ec', q2)" "ec_entity ec = e'"
      "buffer_bytes (wr_buffer (ec_writer ec')) = buffer_bytes out @ decoder_body e'"
      "ec_strings ec' = map (Some \<circ> se_raw) (en_strings e')" by blast
  have "dmi_entity_encode enc h' mem' q2 ec = (True, ec', q2)"
    using enc(2,3) spec' spec(2,3) ops(2) by (simp add: dmi_entity_encode_def)
  moreover have "map (Some \<circ> se_raw) (en_strings e') = map (Some \<circ> se_raw) (en_strings e)"
    using same_structure_data(3) [OF same] by (metis map_map)
  ultimately show ?thesis using enc fin(2) c(3) by auto
qed

end
