(* ===== verification/Field_Bcd.thy ===== *)
theory Field_Bcd
  imports Field_Memory
begin

text \<open>
  Binary-coded decimal fields. Their bytes are read as the number their digits spell, whatever the digits are, and the
  number is spelled again when it is written, so the bytes come back if their digits are decimal, and
  only then: of the fields of a fixed representation they are the ones the preserve mode may change.
\<close>

lemma nibble_low: "unat (v mod 10 :: uintmax_t) < 16"
  using unat_mod [of v 10] by simp

lemma ucast_digits:
  fixes v :: uintmax_t
  shows "ucast (ucast ((v mod 10) OR push_bit 4 ((v div 10) mod 10)) :: byte) = (v mod 10) OR push_bit 4 ((v div 10) mod 10)"
proof (rule bit_word_eqI)
  fix k assume "k < LENGTH(64)"
  have low: "\<not> bit (x mod 10 :: uintmax_t) j" if "4 \<le> j" for x j
  proof -
    have "take_bit 4 (x mod 10) = x mod 10"
      using nibble_low [of x] by (simp add: take_bit_eq_mod word_unat_eq_iff unat_mod)
    then have "bit (x mod 10) j = bit (take_bit 4 (x mod 10)) j" by simp
    then show ?thesis using that by (simp add: bit_take_bit_iff)
  qed
  show "bit (ucast (ucast ((v mod 10) OR push_bit 4 ((v div 10) mod 10)) :: byte) :: uintmax_t) k =
      bit ((v mod 10) OR push_bit 4 ((v div 10) mod 10)) k"
    using low [of k v] low [of "k - 4" "v div 10"] \<open>k < LENGTH(64)\<close>
    by (cases "k < 4"; cases "k < 8") (auto simp: bit_simps not_less)
qed

lemma bcd_loop_bytes:
  "fst (bcd_digits_loop (i * 8) (2 * n) v d) = le_load_loop i d (dmi_encode_bcd v n) \<and>
   unat (snd (bcd_digits_loop (i * 8) (2 * n) v d)) = unat v div 100 ^ n"
proof (induction n arbitrary: i v d)
  case (Suc n)
  have two: "v div 10 div 10 = v div 100" by (simp add: word_unat_eq_iff unat_div div_mult2_eq [symmetric])
  have shift: "i * 8 + 4 + 4 = (i + 1) * 8" by simp
  have "bcd_digits_loop (i * 8) (2 * Suc n) v d =
      bcd_digits_loop ((i + 1) * 8) (2 * n) (v div 100) (d OR push_bit (i * 8) (v mod 10) OR push_bit (i * 8 + 4) (v div 10 mod 10))"
    using shift two by (simp add: add.commute or.assoc)
  moreover have "d OR push_bit (i * 8) (v mod 10) OR push_bit (i * 8 + 4) (v div 10 mod 10) =
      d OR push_bit (i * 8) (ucast (ucast ((v mod 10) OR push_bit 4 ((v div 10) mod 10)) :: byte))"
    by (simp add: ucast_digits or.assoc push_bit_or add.commute)
  moreover have "unat v div 100 ^ Suc n = unat (v div 100) div 100 ^ n" by (simp add: unat_div div_mult2_eq)
  ultimately show ?case using Suc.IH [of "i + 1" "v div 100"] by simp
qed simp

lemma bcd_nat_limit: "bcd_nat bs + 2 \<le> 2 * 100 ^ length bs"
proof (induction bs)
  case (Cons b bs)
  then show ?case using bcd_digits_bound [of b] by simp
qed simp

lemma bcd_inverse:
  assumes "length bs \<le> 8" and "bcd_nat bs < 100 ^ length bs"
  shows "dmi_encode_bcd (dmi_decode_bcd bs) (length bs) = bs \<longleftrightarrow> list_all is_bcd bs"
proof
  assume "dmi_encode_bcd (dmi_decode_bcd bs) (length bs) = bs"
  then show "list_all is_bcd bs" by (metis encode_is_bcd)
next
  assume bcd: "list_all is_bcd bs"
  have "(100::nat) ^ length bs \<le> 100 ^ 8" using assms(1) by (intro power_increasing) auto
  then have "unat (dmi_decode_bcd bs) = bcd_nat bs" using assms(2) by (simp add: decode_bcd_value unat_of_nat_size)
  then have "bcd_nat (dmi_encode_bcd (dmi_decode_bcd bs) (length bs)) = bcd_nat bs" using assms(2) by (simp add: bcd_nat_encode)
  then show "dmi_encode_bcd (dmi_decode_bcd bs) (length bs) = bs" by (intro bcd_nat_inj) (simp_all add: encode_is_bcd bcd)
qed

text \<open>What the bytes of a field are written as, from the number they have been read as.\<close>

lemma bcd_encode:
  assumes len: "length bs \<le> 8" "bs \<noteq> []" and unknown: "fp_unknown_raw (fd_params f) = 0"
    and member: "dmi_field_load_member (fd_member f) (fw_memory w) a = dmi_decode_bcd bs"
  shows "dmi_field_encode_bcd w out f a (of_nat (length bs)) =
    (if bcd_nat bs < 100 ^ length bs then put_bytes w out (dmi_encode_bcd (dmi_decode_bcd bs) (length bs)) else dmi_field_cannot_encode out)"
proof -
  let ?n = "length bs" and ?v = "dmi_decode_bcd bs"
  have un: "unat (of_nat ?n :: size_t) = ?n" using len(1) by (intro unat_of_nat_size) simp
  have small: "\<not> (of_nat ?n :: size_t) > 8" "(of_nat ?n :: size_t) \<noteq> 0"
    using len un by (auto simp: word_less_nat_alt simp flip: unat_eq_0)
  have "(100 :: nat) ^ ?n \<le> 100 ^ 8" using len(1) by (intro power_increasing) auto
  then have v: "unat ?v = bcd_nat bs" using bcd_nat_limit [of bs] by (simp add: decode_bcd_value unat_of_nat_size)
  obtain digits rest where loop: "bcd_digits_loop 0 (2 * ?n) ?v 0 = (digits, rest)" by fastforce
  have d: "digits = dmi_field_le_load (dmi_encode_bcd ?v ?n)" and r: "unat rest = bcd_nat bs div 100 ^ ?n"
    using bcd_loop_bytes [of 0 ?n ?v 0] by (simp_all add: loop v dmi_field_le_load_def)
  have rest: "rest \<noteq> 0 \<longleftrightarrow> \<not> bcd_nat bs < 100 ^ ?n" using r by (simp add: div_eq_0_iff unat_eq_0 [symmetric])
  have "dmi_field_le_store ?n digits = dmi_encode_bcd ?v ?n"
    using le_store_load_take [of "dmi_encode_bcd ?v ?n" ?n] len(1) by (simp add: d)
  then show ?thesis
    using small unknown member loop rest un by (simp add: dmi_field_encode_bcd_def dmi_field_put_raw_def Let_def)
qed

text \<open>A month of \<open>0x1F\<close>, which no clock gives, is read as 25 and written as \<open>0x25\<close>.\<close>

lemma bcd_byte_changed:
  assumes "fp_unknown_raw (fd_params f) = 0" and "dmi_field_load_member (fd_member f) (fw_memory w) a = dmi_decode_bcd [0x1F]"
  shows "dmi_field_encode_bcd w out f a 1 = put_bytes w out [0x25]"
proof -
  have "dmi_encode_bcd (dmi_decode_bcd [0x1F]) 1 = [0x25]" "bcd_nat [0x1F] < 100" by code_simp+
  then show ?thesis using bcd_encode [of "[0x1F]" f w a out] assms by simp
qed

end
