(* ===== verification/Field_Properties.thy ===== *)
theory Field_Properties
  imports Field_Whole Field_Bcd
begin

text \<open>
  The properties of the field engine, with a list of fields to show them on: a range of bits with the rest of
  its byte, and a group of one more byte, which the data of the example fills.
\<close>

section \<open>An example\<close>

definition example_params :: dmi_field_params where
  "example_params =
    \<lparr>fp_since = 0, fp_present = DMI_MEMBER_NULL, fp_from = 0, fp_before = 0, fp_absent = None, fp_offset = 0, fp_unknown_raw = 0,
     fp_when_raw = 0, fp_when = DMI_MEMBER_NULL, fp_bits = 0, fp_length = 0, fp_count_length = 0, fp_count_member = DMI_MEMBER_NULL,
     fp_stride = 0, fp_stride_length = 0, fp_stride_minimum = 0, fp_stride_member = DMI_MEMBER_NULL, fp_count = 0,
     fp_counter = DMI_MEMBER_NULL, fp_decode = None, fp_encode = None, fp_extended = False\<rparr>"

definition example_fields :: "dmi_field list" where
  "example_fields =
    [Dmi_field \<lparr>mr_offset = 0, mr_size = 1\<rparr> DMI_FIELD_TYPE_BITS (example_params\<lparr>fp_bits := 3\<rparr>) [],
     Dmi_field DMI_MEMBER_NULL DMI_FIELD_TYPE_PAD (example_params\<lparr>fp_bits := 8\<rparr>) [],
     Dmi_field DMI_MEMBER_NULL DMI_FIELD_TYPE_GROUP (example_params\<lparr>fp_present := \<lparr>mr_offset = 1, mr_size = 1\<rparr>\<rparr>) [],
     Dmi_field \<lparr>mr_offset = 2, mr_size = 1\<rparr> DMI_FIELD_TYPE_INTEGER (example_params\<lparr>fp_length := 1\<rparr>) []]"

definition example_env :: dmi_field_env where
  "example_env =
    \<lparr>fe_decode = (\<lambda>n f data m a. (False, m)), fe_encode = (\<lambda>n f m a. None), fe_room = (\<lambda>n. True), fe_fields = (\<lambda>spec. example_fields),
     fe_types = (\<lambda>t. []), fe_version = 0x030000\<rparr>"

definition example_reader :: "size_t \<Rightarrow> dmi_reader" where
  "example_reader p = \<lparr>rd_buffer = example_table, rd_base = 0, rd_length = 6, rd_position = p\<rparr>"

lemma example_env_version: "fe_version example_env = 0x030000"
  by (simp add: example_env_def)

lemma example_reads:
  "dmi_reader_get_bytes (example_reader 4) 1 = Inr ([1], example_reader 5)"
  "dmi_reader_get_bytes (example_reader 5) 1 = Inr ([2], example_reader 6)"
  "\<not> dmi_reader_is_done (example_reader 5)"
  by code_simp+

lemma example_fields_read:
  assumes "dc_reader d = example_reader 4"
  shows "\<exists>st'. dmi_field_decode_list example_env example_fields 0 (initial_state example_env False q d m0) = (True, st') \<and>
    fs_decoder st' = d\<lparr>dc_reader := example_reader 6\<rparr>"
  using assms
  by (subst dmi_field_decode_list.simps)
    (simp add: decode_list_with_def example_fields_def example_params_def initial_state_def example_env_version
      dmi_field_is_defined_def DMI_VERSION_NONE_def dmi_field_decode_one_def dmi_member_is_present_def DMI_MEMBER_NULL_def
      dmi_field_decode_bits_def dmi_field_take_bits_def take_bits_fill.simps read_with_def dmi_decoder_get_def dmi_decoder_get_bytes_def
      example_reads store_with_def dmi_field_apply_def dmi_field_store_def dmi_field_store_member_def dmi_field_decode_pad_def
      dmi_field_group_read_def dmi_field_decode_value_def dmi_field_read_number_def blank_data_def Let_def)

definition example_fields_spec :: dmi_entity_spec where
  "example_fields_spec = example_spec\<lparr>sp_has_fields := True, sp_has_decode := False\<rparr>"

lemma example_fields_spec_fields:
  "sp_has_fields example_fields_spec" "\<not> sp_has_decode example_fields_spec" "\<not> sp_has_derive example_fields_spec"
  "ep_minimum_version (sp_params example_fields_spec) = 0x020000" "ep_minimum_length (sp_params example_fields_spec) = 5"
  by (simp_all add: example_fields_spec_def example_spec_def)

definition example_field_ops :: "dmi_memory dmi_entity_ops" where
  "example_field_ops =
    \<lparr>eo_decode = (\<lambda>spec. dmi_fields_decode example_env), eo_derive = (\<lambda>spec q e. (True, e, q)),
     eo_fields_decode = dmi_fields_decode example_env, eo_blank = (\<lambda>spec. \<lparr>mm_cells = (\<lambda>i. Byte 0), mm_next = 3\<rparr>)\<rparr>"

lemma example_storable:
  assumes "mr_size (fd_member f) = 1" and "fp_unknown_raw (fd_params f) = 0" and "fp_decode (fd_params f) = None"
    and "fd_type f \<in> {DMI_FIELD_TYPE_BITS, DMI_FIELD_TYPE_INTEGER}"
  shows "storable env f"
proof -
  have "stores_cells env f (\<lambda>n s b. map Byte (store_word 1 (ucast n :: 8 word)))"
    using assms by (auto simp: stores_cells_def dmi_field_apply_def dmi_field_store_def dmi_field_store_member_def)
  then show ?thesis using assms by (auto simp: storable_def dmi_member_is_present_def DMI_FIELD_PROBE_SIZE_def)
qed

lemma example_fields_ok: "fields_ok example_env example_fields"
proof (rule fields_okI)
  show "apart example_fields" by (simp add: example_fields_def example_params_def DMI_MEMBER_NULL_def field_span_def span_of_def)
  show "bits_closed (fe_version example_env) 0 example_fields"
    by (simp add: example_fields_def example_params_def example_env_version dmi_field_is_defined_def DMI_VERSION_NONE_def)
  fix f assume "f \<in> set example_fields"
  then consider "f = example_fields ! 0" | "f = example_fields ! 1" | "f = example_fields ! 2" | "f = example_fields ! 3"
    by (auto simp: example_fields_def)
  then show "field_ok example_env f"
    by cases (simp_all add: example_fields_def example_params_def DMI_MEMBER_NULL_def field_ok_def example_storable)
qed (auto simp: example_fields_def)

lemma example_decoded:
  "\<exists>(e :: dmi_memory dmi_entity) e' q'. dmi_entity_create (\<lambda>i. True) empty_queue example_table 0 = (Some e, empty_queue) \<and>
    fst (dmi_entity_spec_select (\<lambda>t. [Some example_fields_spec, None, None, None]) empty_queue e) = Some example_fields_spec \<and>
    dmi_entity_decode example_field_ops (\<lambda>i. True) (\<lambda>n. None) 9 (\<lambda>t. [Some example_fields_spec, None, None, None]) empty_queue e = (True, e', q') \<and>
    en_state e' AND DMI_ENTITY_STATE_INCOMPLETE = 0"
proof -
  obtain e :: "dmi_memory dmi_entity" where e: "dmi_entity_create (\<lambda>i. True) empty_queue example_table 0 = (Some e, empty_queue)"
    using example_table_created by blast
  note c = entity_create_some [OF example_table_wf e] and x = example_table_entity [OF e]
  have sel: "dmi_entity_spec_select (\<lambda>t. [Some example_fields_spec, None, None, None]) empty_queue e = (Some example_fields_spec, e, empty_queue)"
    by (simp add: dmi_entity_spec_select_def x DMI_TYPE_ID_INVALID_def DMI_TYPE_ID_MAX_def DMI_TYPE_CANDIDATES_def)
  let ?e2 = "e\<lparr>en_spec := Some example_fields_spec, en_level := 0x020000,
    en_info := Some \<lparr>mm_cells = (\<lambda>i. Byte 0), mm_next = 3\<rparr>\<rparr>"
  have "dmi_entity_buffer ?e2 = example_table" "dmi_entity_offset ?e2 = 0" "en_body_length ?e2 = 6"
    using c(3,4,8) x(1) by (simp_all add: dmi_entity_buffer_def dmi_entity_offset_def)
  then have init: "dmi_decoder_initialize ?e2 = Inr \<lparr>dc_entity = ?e2, dc_reader = example_reader 4\<rparr>"
    by (simp add: dmi_decoder_initialize_def dmi_reader_initialize_def dmi_reader_seek_def dmi_buffer_at_def example_table_def example_reader_def)
  obtain st' where st': "dmi_field_decode_list example_env example_fields 0
      (initial_state example_env False empty_queue \<lparr>dc_entity = ?e2, dc_reader = example_reader 4\<rparr> \<lparr>mm_cells = (\<lambda>i. Byte 0), mm_next = 3\<rparr>) = (True, st')"
    "fs_decoder st' = \<lparr>dc_entity = ?e2, dc_reader = example_reader 6\<rparr>"
    using example_fields_read [of "\<lparr>dc_entity = ?e2, dc_reader = example_reader 4\<rparr>"] by auto
  have "fe_fields example_env spec = example_fields" for spec by (simp add: example_env_def)
  then have run: "\<exists>l. dmi_fields_decode example_env empty_queue \<lparr>dc_entity = ?e2, dc_reader = example_reader 4\<rparr> =
      (True, \<lparr>dc_entity = ?e2\<lparr>en_info := Some (fs_memory st'), en_level := l\<rparr>, dc_reader = example_reader 6\<rparr>, fs_queue st')"
    using st'
    by (intro exI [of _ "if fs_defined st' > 0x020000 then fs_defined st' else 0x020000"])
      (simp add: dmi_fields_decode_def dmi_entity_info_def dmi_entity_spec_type_def example_fields_spec_def Let_def)
  then obtain l where run: "dmi_fields_decode example_env empty_queue \<lparr>dc_entity = ?e2, dc_reader = example_reader 4\<rparr> =
      (True, \<lparr>dc_entity = ?e2\<lparr>en_info := Some (fs_memory st'), en_level := l\<rparr>, dc_reader = example_reader 6\<rparr>, fs_queue st')" by blast
  have "dmi_entity_decode example_field_ops (\<lambda>i. True) (\<lambda>n. None) 9 (\<lambda>t. [Some example_fields_spec, None, None, None]) empty_queue e =
      (True, ?e2\<lparr>en_info := Some (fs_memory st'), en_level := l, en_state := DMI_ENTITY_STATE_DECODED\<rparr>, fs_queue st')"
    using init run c(6,7,8) x(1,3)
    by (simp add: dmi_entity_decode_def sel example_fields_spec_fields example_field_ops_def Let_def)
  then show ?thesis using e sel
    by (intro exI [of _ e] exI conjI) (auto simp: DMI_ENTITY_STATE_DECODED_def DMI_ENTITY_STATE_INCOMPLETE_def)
qed


section \<open>Properties\<close>

text \<open>
  C1. Decoding a structure by the list of fields of its specification and encoding it again, in the preserve
  mode, gives back the bytes of its formatted area, whatever they are, so long as they have not ended
  within the fields: numbers, strings, UUIDs, bytes, ranges of bits with their padding, skipped bytes, groups
  the data ends before, nested structures and vectors, with any handlers which store a value that depends on
  the data of its field alone. Everything is written from what the decoding has stored in
  the memory of the structure, so nothing is lost there and no field overwrites another.
\<close>

theorem fields_written_back:
  assumes "buffer_wf b" and "dmi_entity_create m q0 b off = (Some e, q1)"
    and "eo_fields_decode ops = dmi_fields_decode env" and "eo_fields_encode enc = dmi_fields_encode env"
    and "fst (dmi_entity_spec_select type_map q e) = Some spec" and "sp_has_fields spec" and "\<not> sp_has_decode spec" and "\<not> sp_has_derive spec"
    and "fields_ok env (fe_fields env spec)"
    and "dmi_entity_decode ops mem h addr type_map q e = (True, e', q')" and "en_state e' AND DMI_ENTITY_STATE_INCOMPLETE = 0"
    and "buffer_wf out" and "length (buffer_bytes out) + 255 \<le> 18446744073709551488" and "generous h'" and "\<forall>i. mem' i"
  shows "\<exists>ec ec'. dmi_encoder_initialize h' mem' q2 out e' DMI_ENCODE_MODE_PRESERVE version = (Some ec, q2) \<and>
    dmi_entity_encode enc h' mem' q2 ec = (True, ec', q2) \<and>
    buffer_bytes (wr_buffer (ec_writer ec')) = buffer_bytes out @ entity_body e \<and>
    ec_strings ec' = map (Some \<circ> se_raw) (en_strings e)"
  by (rule written_back [OF assms(1-4,10,5-9,11-15)])

theorem fields_written_back_witness:
  "\<exists>(e :: dmi_memory dmi_entity) e' q' ec ec'. dmi_entity_create (\<lambda>i. True) empty_queue example_table 0 = (Some e, empty_queue) \<and>
    dmi_entity_decode example_field_ops (\<lambda>i. True) (\<lambda>n. None) 9 (\<lambda>t. [Some example_fields_spec, None, None, None]) empty_queue e = (True, e', q') \<and>
    dmi_encoder_initialize (\<lambda>n. Some (\<lambda>i. 0)) (\<lambda>i. True) empty_queue (dmi_buffer_create 7) e' DMI_ENCODE_MODE_PRESERVE 0 = (Some ec, empty_queue) \<and>
    dmi_entity_encode \<lparr>eo_fields_encode = dmi_fields_encode example_env, eo_encode = (\<lambda>spec. None)\<rparr>
      (\<lambda>n. Some (\<lambda>i. 0)) (\<lambda>i. True) empty_queue ec = (True, ec', empty_queue) \<and>
    buffer_bytes (wr_buffer (ec_writer ec')) = [1, 6, 0x34, 0x12, 1, 2]"
proof -
  obtain e :: "dmi_memory dmi_entity" and e' q' where e: "dmi_entity_create (\<lambda>i. True) empty_queue example_table 0 = (Some e, empty_queue)"
    and sel: "fst (dmi_entity_spec_select (\<lambda>t. [Some example_fields_spec, None, None, None]) empty_queue e) = Some example_fields_spec"
    and run: "dmi_entity_decode example_field_ops (\<lambda>i. True) (\<lambda>n. None) 9 (\<lambda>t. [Some example_fields_spec, None, None, None]) empty_queue e = (True, e', q')"
    and whole: "en_state e' AND DMI_ENTITY_STATE_INCOMPLETE = 0"
    using example_decoded by blast
  have ok: "fields_ok example_env (fe_fields example_env example_fields_spec)" using example_fields_ok by (simp add: example_env_def)
  have ops: "eo_fields_decode example_field_ops = dmi_fields_decode example_env"
    "eo_fields_encode \<lparr>eo_fields_encode = dmi_fields_encode example_env, eo_encode = (\<lambda>spec. None)\<rparr> = dmi_fields_encode example_env"
    by (simp_all add: example_field_ops_def)
  have out: "buffer_bytes (dmi_buffer_create 7) = []" by (simp add: dmi_buffer_create_def buffer_bytes_def buf_memory_def)
  have h: "generous (\<lambda>n. Some (\<lambda>i. 0))" by (simp add: generous_def)
  show ?thesis
    using fields_written_back [OF example_table_wf e ops sel example_fields_spec_fields(1-3) ok run whole buffer_wf_create [of 7] _ h, of "\<lambda>i. True" empty_queue 0]
      e run out example_table_entity(4) [OF e] by auto
qed

text \<open>
  C8. Whatever fields a specification lists, nested arrays of any counts and strides included, and whatever the
  handlers of the fields do, reading them never leaves the formatted area of the structure: the reader stays in it, what
  is left to read is the rest of it, and of the structure only the marks of its strings, the information, the
  version and the two states which say that the data has ended early change.
\<close>

theorem fields_stay_in_structure:
  assumes "entity_readable e" and "dmi_decoder_initialize e = Inr d" and "dmi_fields_decode env q d = (ok, d', q')"
  shows "decoding_frame e (dc_entity d') \<and> (queue_wf q \<longrightarrow> queue_wf q') \<and>
    unat (rd_position (dc_reader d')) \<le> en_body_length e \<and>
    reader_rest (dc_reader d') = drop (unat (rd_position (dc_reader d'))) (decoder_body e)"
proof -
  have reach: "decoder_reach (q, d) (q', d')" using fields_decode_contract [of env] assms(3) by (simp add: decode_contract_def)
  have d: "dc_entity d = e" "reader_wf (dc_reader d)" "reader_window (dc_reader d) = decoder_body e"
    using decoder_initialize_reads [OF assms(1)] assms(2) by auto
  have keeps: "decoder_keeps d d'" using reach_keeps [OF reach] assms(1) by (simp add: d entity_readable_def)
  note w = reach_window [OF keeps d(2)]
  have "length (decoder_body e) = en_body_length e" using assms(1) by (auto simp: decoder_body_def entity_readable_def)
  moreover have "unat (rd_position (dc_reader d')) \<le> length (reader_window (dc_reader d'))"
    using w(1) length_reader_window [OF w(1)] by (simp add: reader_wf_def word_le_nat_alt)
  ultimately show ?thesis
    using keeps reach_queue [OF reach] w(2) d by (simp add: decoder_keeps_def reader_rest_def)
qed

lemma example_readable:
  obtains e :: "dmi_memory dmi_entity" and d where "dmi_entity_create (\<lambda>i. True) empty_queue example_table 0 = (Some e, empty_queue)"
    and "entity_readable e" and "dmi_decoder_initialize e = Inr d" and "dc_entity d = e" and "dc_reader d = example_reader 4"
    and "decoder_body e = [1, 6, 0x34, 0x12, 1, 2]" and "en_body_length e = 6"
proof -
  obtain e :: "dmi_memory dmi_entity" where e: "dmi_entity_create (\<lambda>i. True) empty_queue example_table 0 = (Some e, empty_queue)"
    using example_table_created by blast
  note c = created_header_reads [OF example_table_wf e] and x = example_table_entity [OF e]
    and s = entity_create_some [OF example_table_wf e]
  have "dmi_entity_buffer e = example_table" "dmi_entity_offset e = 0"
    using s(3,4,8) by (simp_all add: dmi_entity_buffer_def dmi_entity_offset_def)
  then have init: "dmi_decoder_initialize e = Inr \<lparr>dc_entity = e, dc_reader = example_reader 4\<rparr>"
    using x(1) by (simp add: dmi_decoder_initialize_def dmi_reader_initialize_def dmi_reader_seek_def dmi_buffer_at_def example_table_def example_reader_def)
  show thesis by (rule that [OF e c(2) init]) (use c(3) x(1,4) in simp_all)
qed

theorem fields_stay_in_structure_witness:
  "\<exists>(e :: dmi_memory dmi_entity) d ok d' q'. entity_readable e \<and> dmi_decoder_initialize e = Inr d \<and>
    dmi_fields_decode example_env empty_queue d = (ok, d', q') \<and> decoding_frame e (dc_entity d') \<and> unat (rd_position (dc_reader d')) \<le> 6"
proof -
  obtain e :: "dmi_memory dmi_entity" and d where e: "entity_readable e" "dmi_decoder_initialize e = Inr d" "en_body_length e = 6"
    by (rule example_readable)
  obtain ok d' q' where run: "dmi_fields_decode example_env empty_queue d = (ok, d', q')" by (metis prod_cases3)
  show ?thesis using fields_stay_in_structure [OF e(1,2) run] e run by auto
qed



text \<open>
  C31. The bytes of a binary-coded decimal field are read as the number their digits spell, and written again as
  the digits of that number if there are no more than the field has room for, which is an error otherwise; so they come back unchanged
  exactly if all of their digits are decimal, which the preserve mode does not look at.
\<close>

theorem bcd_fields_decimal:
  assumes "dec_at V b st" and "b mod 8 = 0" and "fp_unknown_raw (fd_params f) = 0" and "dmi_field_read_bcd st f = (Some number, st')"
    and "dmi_field_load_member (fd_member f) (fw_memory w) a = number"
  shows "\<exists>bs. bs = run_of V b (unat (fp_length (fd_params f))) \<and> number = word_of_nat (bcd_nat bs) \<and>
    dmi_field_encode_bcd w out f a (fp_length (fd_params f)) =
      (if bcd_nat bs < 100 ^ length bs then put_bytes w out (dmi_encode_bcd number (length bs)) else dmi_field_cannot_encode out) \<and>
    (bcd_nat bs < 100 ^ length bs \<and> dmi_encode_bcd number (length bs) = bs \<longleftrightarrow> list_all is_bcd bs)"
proof -
  let ?n = "fp_length (fd_params f)" and ?bs = "run_of V b (unat (fp_length (fd_params f)))"
  obtain raw where r: "dmi_field_read_number st ?n = (Some raw, st')" and number: "number = dmi_decode_bcd (dmi_field_le_store (unat ?n) raw)"
    using assms(3,4) by (auto simp: dmi_field_read_bcd_def Let_def split: if_splits prod.splits option.splits)
  then obtain bs where bs: "read_with st (dmi_decoder_get_bytes (fs_decoder st) ?n) = (Some bs, st')" "raw = dmi_field_le_load bs"
    and n: "?n \<noteq> 0" "\<not> ?n > 8"
    by (auto simp: dmi_field_read_number_def split: if_splits prod.splits option.splits)
  note at = read_run_at [OF assms(1,2) bs(1)]
  have n8: "unat ?n \<le> 8" "unat ?n \<noteq> 0" using n by (simp_all add: word_less_nat_alt not_less unat_eq_0)
  have len: "length ?bs = unat ?n" by (rule length_run_of [OF at(1)])
  have v: "number = dmi_decode_bcd ?bs" using number bs(2) at(2) le_store_load_take [OF len n8(1)] by simp
  have word: "of_nat (length ?bs) = ?n" using len by simp
  have "?bs \<noteq> []" using len n8(2) by auto
  from bcd_encode [OF _ this assms(3), of w a out] have enc: "dmi_field_encode_bcd w out f a ?n =
      (if bcd_nat ?bs < 100 ^ length ?bs then put_bytes w out (dmi_encode_bcd number (length ?bs)) else dmi_field_cannot_encode out)"
    using assms(5) v word n8(1) len by simp
  have "length ?bs \<le> 8" using len n8(1) by simp
  from bcd_inverse [OF this] have "bcd_nat ?bs < 100 ^ length ?bs \<and> dmi_encode_bcd number (length ?bs) = ?bs \<longleftrightarrow> list_all is_bcd ?bs"
    using bcd_nat_bound [of ?bs] v by auto
  then show ?thesis using enc v by (intro exI [of _ ?bs]) (simp add: decode_bcd_value)
qed

theorem bcd_fields_decimal_witness:
  "\<exists>V st st' (f :: dmi_field). \<exists>w out. dmi_field_read_bcd st f = (Some 1, st') \<and> dmi_field_encode_bcd w out f 0 1 = put_bytes w out [1]"
proof -
  obtain e :: "dmi_memory dmi_entity" and d where e: "entity_readable e" "dmi_decoder_initialize e = Inr d"
    "decoder_body e = [1, 6, 0x34, 0x12, 1, 2]" "dc_reader d = example_reader 4" by (rule example_readable)
  let ?V = "entity_view example_env e" and ?f = "Dmi_field \<lparr>mr_offset = 0, mr_size = 1\<rparr> DMI_FIELD_TYPE_BCD (example_params\<lparr>fp_length := 1\<rparr>) []"
  let ?m = "mem_store \<lparr>mm_cells = (\<lambda>i. Byte 0), mm_next = 1\<rparr> 0 [Byte 1]"
  let ?w = "\<lparr>fw_env = example_env, fw_heap = (\<lambda>n. None), fw_room = (\<lambda>n. True), fw_memory = ?m\<rparr>"
  let ?st = "initial_state example_env False empty_queue d ?m"
  have start: "dec_at ?V 32 ?st" by (rule decoder_starts [OF e(1,2)])
  have unknown: "fp_unknown_raw (fd_params ?f) = 0" by (simp add: example_params_def)
  have "dmi_decode_bcd [1] = 1" "dmi_field_le_store 1 (dmi_field_le_load [1]) = [1]" by code_simp+
  then obtain st' where read: "dmi_field_read_bcd ?st ?f = (Some 1, st')"
    using e(4) by (auto simp: dmi_field_read_bcd_def dmi_field_read_number_def read_with_def dmi_decoder_get_bytes_def example_reads
        example_params_def initial_state_def Let_def)
  have load: "dmi_field_load_member (fd_member ?f) (fw_memory ?w) 0 = 1"
    by (simp add: dmi_field_load_member_def mem_load_same) code_simp
  have bs: "run_of ?V 32 1 = [1]" using e(3) by (simp add: run_of_def entity_view_def)
  have one: "dmi_encode_bcd 1 1 = [1]" "bcd_nat [1] < 100" by code_simp+
  have "dmi_field_encode_bcd ?w out ?f 0 1 = put_bytes ?w out [1]" for out
    using bcd_fields_decimal [OF start _ unknown read load, of out] bs one by (simp add: example_params_def)
  with read show ?thesis by blast
qed

end
