(* ===== verification/Attributes.thy ===== *)
theory Attributes
  imports Field_Memory Names
begin

text \<open>
  The attributes of a structure (\<^verbatim>\<open>include/opendmi/attribute.h\<close>, \<^verbatim>\<open>src/attribute.c\<close>) and the walk over
  them (\<^verbatim>\<open>src/attribute-walk.c\<close>): what the members of a decoded structure mean, which of them have no
  value, which variant describes a value, and in which order the members, the nested structures and the
  elements of arrays are visited.

  A list of attributes or variants ends with an entry whose type is none, or where the list of the model
  ends. The decoded structure is the memory of \<^verbatim>\<open>Field_Model\<close>, and the sentinels of a value are bytes.
  Attributes, structures and callbacks which are missing raise errors on no context, which no queue sees,
  and are not values of the model.
\<close>

section \<open>Attributes\<close>

datatype dmi_attribute_type =
    DMI_ATTRIBUTE_TYPE_NONE
  | DMI_ATTRIBUTE_TYPE_STRUCT
  | DMI_ATTRIBUTE_TYPE_HANDLE
  | DMI_ATTRIBUTE_TYPE_STRING
  | DMI_ATTRIBUTE_TYPE_BOOL
  | DMI_ATTRIBUTE_TYPE_INTEGER
  | DMI_ATTRIBUTE_TYPE_DECIMAL
  | DMI_ATTRIBUTE_TYPE_SIZE
  | DMI_ATTRIBUTE_TYPE_ADDRESS
  | DMI_ATTRIBUTE_TYPE_ENUM
  | DMI_ATTRIBUTE_TYPE_SET
  | DMI_ATTRIBUTE_TYPE_VERSION
  | DMI_ATTRIBUTE_TYPE_DATE
  | DMI_ATTRIBUTE_TYPE_UUID
  | DMI_ATTRIBUTE_TYPE_BINARY
  | DMI_ATTRIBUTE_TYPE_VARIANT

definition DMI_ATTRIBUTE_FLAG_SIGNED :: "32 word" where "DMI_ATTRIBUTE_FLAG_SIGNED = 0x01"
definition DMI_ATTRIBUTE_FLAG_HEX :: "32 word" where "DMI_ATTRIBUTE_FLAG_HEX = 0x02"
definition DMI_ATTRIBUTE_FLAG_BCD :: "32 word" where "DMI_ATTRIBUTE_FLAG_BCD = 0x04"
definition DMI_ATTRIBUTE_FLAG_MAC :: "32 word" where "DMI_ATTRIBUTE_FLAG_MAC = 0x10"
definition DMI_ATTRIBUTE_FLAG_IP :: "32 word" where "DMI_ATTRIBUTE_FLAG_IP = 0x20"
definition DMI_ATTRIBUTE_FLAG_JEP106 :: "32 word" where "DMI_ATTRIBUTE_FLAG_JEP106 = 0x40"
definition DMI_ATTRIBUTE_FLAG_PRIVATE :: "32 word" where "DMI_ATTRIBUTE_FLAG_PRIVATE = 0x80"
definition DMI_ATTRIBUTE_FLAG_OPEN :: "32 word" where "DMI_ATTRIBUTE_FLAG_OPEN = 0x100"

definition DMI_MAC_ADDR_LENGTH :: nat where "DMI_MAC_ADDR_LENGTH = 6"

text \<open>The attributes of a structure and the variants are part of their attribute rather than of its parameters.\<close>

record dmi_attribute_params =
  ap_code :: "string option"
  ap_name :: "string option"
  ap_scale :: nat
  ap_unspec :: "byte list option"
  ap_unknown :: "byte list option"
  ap_flags :: "32 word"
  ap_values :: "dmi_name_set option"
  ap_targets :: "nat list option"
  ap_link :: dmi_member_ref
  ap_minimum :: "byte list option"
  ap_maximum :: "byte list option"
  ap_level :: dmi_version_t

datatype dmi_attribute =
  Dmi_attribute (at_value: dmi_member_ref) (at_counter: dmi_member_ref) (at_count: nat) (at_type: dmi_attribute_type)
    (at_params: dmi_attribute_params) (at_attrs: "dmi_attribute list option") (at_variants: "dmi_attribute_variant list option")
and dmi_attribute_variant =
  Dmi_attribute_variant (av_selector: int) (av_is_default: bool) (av_attribute: dmi_attribute)

definition has_flag :: "dmi_attribute \<Rightarrow> 32 word \<Rightarrow> bool" where
  "has_flag attr flag \<longleftrightarrow> ap_flags (at_params attr) AND flag \<noteq> 0"

section \<open>Values of members\<close>

definition mem_bytes :: "dmi_memory \<Rightarrow> nat \<Rightarrow> nat \<Rightarrow> byte list" where
  "mem_bytes m a n = map cell_byte (mem_load m a n)"

text \<open>Comparing the bytes at an address with a sentinel, none of which is a part of a pointer.\<close>

definition holds_bytes :: "dmi_memory \<Rightarrow> nat \<Rightarrow> nat \<Rightarrow> byte list \<Rightarrow> bool" where
  "holds_bytes m a n bs \<longleftrightarrow> mem_load m a n = map Byte (take n bs)"

definition is_null_pointer :: "dmi_memory \<Rightarrow> nat \<Rightarrow> bool" where
  "is_null_pointer m a \<longleftrightarrow> load_pointer m a = None"

definition dmi_attribute_is_unspecified :: "dmi_attribute \<Rightarrow> dmi_memory \<Rightarrow> nat \<Rightarrow> bool" where
  "dmi_attribute_is_unspecified attr m a =
    (case ap_unspec (at_params attr) of
       Some unspec \<Rightarrow> holds_bytes m a (mr_size (at_value attr)) unspec
     | None \<Rightarrow>
         if at_type attr = DMI_ATTRIBUTE_TYPE_STRING then is_null_pointer m a
         else if at_type attr = DMI_ATTRIBUTE_TYPE_HANDLE then (load_word (mem_bytes m a 2) :: dmi_handle_t) = 0xFFFF
         else if at_type attr = DMI_ATTRIBUTE_TYPE_BINARY then bn_length (load_binary m a) = 0
         else False)"

definition dmi_attribute_is_unknown :: "dmi_attribute \<Rightarrow> dmi_memory \<Rightarrow> nat \<Rightarrow> bool" where
  "dmi_attribute_is_unknown attr m a =
    (case ap_unknown (at_params attr) of
       Some unknown \<Rightarrow> holds_bytes m a (mr_size (at_value attr)) unknown
     | None \<Rightarrow> False)"

text \<open>Signed values are numbers, within the limits of \<open>intmax_t\<close>.\<close>

definition INTMAX_MAX :: int where "INTMAX_MAX = 9223372036854775807"

definition load_int :: "int \<Rightarrow> dmi_memory \<Rightarrow> nat \<Rightarrow> nat \<Rightarrow> int" where
  "load_int other m a n =
    (if n = 1 then sint (load_word (mem_bytes m a 1) :: 8 word)
     else if n = 2 then sint (load_word (mem_bytes m a 2) :: 16 word)
     else if n = 4 then sint (load_word (mem_bytes m a 4) :: 32 word)
     else if n = 8 then sint (load_word (mem_bytes m a 8) :: 64 word)
     else other)"

definition load_uint :: "uintmax_t \<Rightarrow> dmi_memory \<Rightarrow> nat \<Rightarrow> nat \<Rightarrow> uintmax_t" where
  "load_uint other m a n =
    (if n = 1 then ucast (load_word (mem_bytes m a 1) :: 8 word)
     else if n = 2 then ucast (load_word (mem_bytes m a 2) :: 16 word)
     else if n = 4 then ucast (load_word (mem_bytes m a 4) :: 32 word)
     else if n = 8 then load_word (mem_bytes m a 8)
     else other)"

definition dmi_attribute_get_int :: "dmi_attribute \<Rightarrow> dmi_memory \<Rightarrow> nat \<Rightarrow> int" where
  "dmi_attribute_get_int attr m a = load_int INTMAX_MAX m a (mr_size (at_value attr))"

definition dmi_attribute_get_uint :: "dmi_attribute \<Rightarrow> dmi_memory \<Rightarrow> nat \<Rightarrow> uintmax_t" where
  "dmi_attribute_get_uint attr m a = load_uint UINTMAX_MAX m a (mr_size (at_value attr))"

definition dmi_attribute_read_uint :: "dmi_memory \<Rightarrow> nat \<Rightarrow> nat \<Rightarrow> uintmax_t" where
  "dmi_attribute_read_uint m a size' = load_uint 0 m a size'"

definition dmi_attribute_read_int :: "dmi_memory \<Rightarrow> nat \<Rightarrow> nat \<Rightarrow> int" where
  "dmi_attribute_read_int m a size' = load_int 0 m a size'"

text \<open>A number of \<open>uintmax_t\<close> always fits into \<open>size_t\<close> here.\<close>

definition dmi_attribute_get_count :: "dmi_attribute \<Rightarrow> dmi_memory \<Rightarrow> nat \<Rightarrow> nat" where
  "dmi_attribute_get_count attr m info =
    (if at_count attr \<noteq> 0 then at_count attr
     else unat (dmi_attribute_read_uint m (info + mr_offset (at_counter attr)) (mr_size (at_counter attr))))"

definition dmi_attribute_is_array :: "dmi_attribute \<Rightarrow> bool" where
  "dmi_attribute_is_array attr \<longleftrightarrow> dmi_member_is_present (at_counter attr) \<or> at_count attr \<noteq> 0"

definition dmi_attribute_get_elements :: "dmi_attribute \<Rightarrow> dmi_memory \<Rightarrow> nat \<Rightarrow> nat option" where
  "dmi_attribute_get_elements attr m a =
    (if at_count attr \<noteq> 0 then Some a
     else (case load_pointer m a of Some (Pointer_elements elements) \<Rightarrow> Some elements | _ \<Rightarrow> None))"

section \<open>Variants\<close>

fun variant_search :: "int \<Rightarrow> dmi_attribute option \<Rightarrow> dmi_attribute_variant list \<Rightarrow> dmi_attribute option" where
  "variant_search selector fallback [] = fallback"
| "variant_search selector fallback (v # vs) =
    (if at_type (av_attribute v) = DMI_ATTRIBUTE_TYPE_NONE then fallback
     else if av_is_default v then variant_search selector (Some (av_attribute v)) vs
     else if av_selector v = selector then Some (av_attribute v)
     else variant_search selector fallback vs)"

definition dmi_attribute_resolve :: "dmi_attribute \<Rightarrow> dmi_memory \<Rightarrow> nat \<Rightarrow> dmi_attribute option" where
  "dmi_attribute_resolve attr m info =
    (if at_type attr \<noteq> DMI_ATTRIBUTE_TYPE_VARIANT then Some attr
     else
       (case at_variants attr of
          None \<Rightarrow> None
        | Some variants \<Rightarrow>
            let selector = dmi_attribute_read_int m (info + mr_offset (at_value attr)) (mr_size (at_value attr))
            in variant_search selector None variants))"

lemma variant_search_in:
  "variant_search selector fallback vs = Some r \<Longrightarrow> fallback = Some r \<or> (\<exists>v\<in>set vs. r = av_attribute v)"
  by (induction selector fallback vs rule: variant_search.induct) (auto split: if_splits)

text \<open>The attributes nested in the one describing a value are smaller than the declared attribute.\<close>

lemma size_resolved:
  assumes "dmi_attribute_resolve attr m info = Some r"
  shows "size r \<le> size attr"
proof (cases "r = attr")
  case False
  then obtain vs where vs: "at_variants attr = Some vs" and "\<exists>v\<in>set vs. r = av_attribute v"
    using assms variant_search_in [where fallback = None]
    by (auto simp: dmi_attribute_resolve_def Let_def split: if_splits option.splits)
  then obtain v where v: "v \<in> set vs" "r = av_attribute v" by blast
  have "size r \<le> size v" using v(2) by (cases v) simp
  also have "\<dots> \<le> size_list size vs" using v(1) size_list_estimation' [of v vs "size v" size] by simp
  also have "\<dots> \<le> size attr" using vs by (cases attr) simp
  finally show ?thesis .
qed simp

lemma size_nested: "at_attrs r = Some attrs \<Longrightarrow> size_list size attrs < size r"
  by (cases r) simp

end
