(* ===== verification/Attribute_Walk.thy ===== *)
theory Attribute_Walk
  imports Attributes
begin

text \<open>
  The walk of the members of a decoded structure (\<^verbatim>\<open>src/attribute-walk.c\<close>). A callback is a function of
  the state of its context, of the memory of the structure, which it may change, and of the node the walk
  has reached. The walk reads a selector as it enters the member, and the elements of an array and how
  many there are as it enters the array, so that a callback which changes them later is too late.
\<close>

section \<open>Nodes and callbacks\<close>

datatype dmi_attribute_walk_t =
    DMI_ATTRIBUTE_WALK_STOP
  | DMI_ATTRIBUTE_WALK_CONTINUE
  | DMI_ATTRIBUTE_WALK_SKIP

record dmi_attribute_node =
  nd_member :: dmi_attribute
  nd_attr :: dmi_attribute
  nd_info :: nat
  nd_value :: nat
  nd_index :: size_t
  nd_count :: nat

type_synonym 's dmi_attribute_enter_fn = "dmi_attribute_node \<Rightarrow> 's \<times> dmi_memory \<Rightarrow> dmi_attribute_walk_t \<times> 's \<times> dmi_memory"
type_synonym 's dmi_attribute_leave_fn = "dmi_attribute_node \<Rightarrow> 's \<times> dmi_memory \<Rightarrow> bool \<times> 's \<times> dmi_memory"

record 's dmi_attribute_visitor =
  vs_member_start :: "'s dmi_attribute_enter_fn option"
  vs_member_end :: "'s dmi_attribute_leave_fn option"
  vs_struct_start :: "'s dmi_attribute_enter_fn option"
  vs_struct_end :: "'s dmi_attribute_leave_fn option"
  vs_array_start :: "'s dmi_attribute_enter_fn option"
  vs_array_end :: "'s dmi_attribute_leave_fn option"
  vs_item_start :: "'s dmi_attribute_enter_fn option"
  vs_item_end :: "'s dmi_attribute_leave_fn option"
  vs_value :: "'s dmi_attribute_leave_fn option"

definition dmi_attribute_enter :: "'s dmi_attribute_enter_fn option \<Rightarrow> 's dmi_attribute_enter_fn" where
  "dmi_attribute_enter enter node s = (case enter of Some f \<Rightarrow> f node s | None \<Rightarrow> (DMI_ATTRIBUTE_WALK_CONTINUE, s))"

definition dmi_attribute_leave :: "'s dmi_attribute_leave_fn option \<Rightarrow> 's dmi_attribute_leave_fn" where
  "dmi_attribute_leave leave node s = (case leave of Some f \<Rightarrow> f node s | None \<Rightarrow> (True, s))"

section \<open>The walk\<close>

text \<open>\<open>nested\<close> walks the attributes of a nested structure at an address.\<close>

type_synonym 's dmi_nested_walk = "nat \<Rightarrow> 's \<times> dmi_memory \<Rightarrow> bool \<times> 's \<times> dmi_memory"

definition dmi_attribute_walk_struct :: "'s dmi_attribute_visitor \<Rightarrow> 's dmi_nested_walk \<Rightarrow> 's dmi_attribute_leave_fn" where
  "dmi_attribute_walk_struct visitor nested node s =
    (case dmi_attribute_enter (vs_struct_start visitor) node s of
       (DMI_ATTRIBUTE_WALK_STOP, s) \<Rightarrow> (False, s)
     | (DMI_ATTRIBUTE_WALK_SKIP, s) \<Rightarrow> (True, s)
     | (DMI_ATTRIBUTE_WALK_CONTINUE, s) \<Rightarrow>
         (case nested (nd_value node) s of
            (False, s) \<Rightarrow> (False, s)
          | (True, s) \<Rightarrow> dmi_attribute_leave (vs_struct_end visitor) node s))"

definition dmi_attribute_walk_value :: "'s dmi_attribute_visitor \<Rightarrow> 's dmi_nested_walk \<Rightarrow> 's dmi_attribute_leave_fn" where
  "dmi_attribute_walk_value visitor nested node s =
    (if at_type (nd_attr node) = DMI_ATTRIBUTE_TYPE_STRUCT then dmi_attribute_walk_struct visitor nested node s
     else dmi_attribute_leave (vs_value visitor) node s)"

text \<open>The elements from the index \<open>i\<close> on, \<open>n\<close> of them.\<close>

primrec walk_items ::
    "'s dmi_attribute_visitor \<Rightarrow> 's dmi_nested_walk \<Rightarrow> dmi_attribute_node \<Rightarrow> nat \<Rightarrow> nat \<Rightarrow> nat \<Rightarrow> 's \<times> dmi_memory \<Rightarrow> bool \<times> 's \<times> dmi_memory" where
  "walk_items visitor nested array elements i 0 s = (True, s)"
| "walk_items visitor nested array elements i (Suc n) s =
    (let item = array\<lparr>nd_value := elements + i * mr_size (at_value (nd_attr array)), nd_index := of_nat i\<rparr>
     in case dmi_attribute_enter (vs_item_start visitor) item s of
          (DMI_ATTRIBUTE_WALK_STOP, s) \<Rightarrow> (False, s)
        | (DMI_ATTRIBUTE_WALK_SKIP, s) \<Rightarrow> walk_items visitor nested array elements (i + 1) n s
        | (DMI_ATTRIBUTE_WALK_CONTINUE, s) \<Rightarrow>
            (case dmi_attribute_walk_value visitor nested item s of
               (False, s) \<Rightarrow> (False, s)
             | (True, s) \<Rightarrow>
                 (case dmi_attribute_leave (vs_item_end visitor) item s of
                    (False, s) \<Rightarrow> (False, s)
                  | (True, s) \<Rightarrow> walk_items visitor nested array elements (i + 1) n s)))"

text \<open>The node of an array, with how many elements there are, and the first of them if there are any.\<close>

definition array_node :: "dmi_attribute_node \<Rightarrow> dmi_memory \<Rightarrow> dmi_attribute_node" where
  "array_node node m = node\<lparr>nd_count :=
    (case dmi_attribute_get_elements (nd_attr node) m (nd_value node) of
       Some _ \<Rightarrow> dmi_attribute_get_count (nd_attr node) m (nd_info node)
     | None \<Rightarrow> 0)\<rparr>"

definition array_base :: "dmi_attribute_node \<Rightarrow> dmi_memory \<Rightarrow> nat" where
  "array_base node m = (case dmi_attribute_get_elements (nd_attr node) m (nd_value node) of Some e \<Rightarrow> e | None \<Rightarrow> 0)"

definition dmi_attribute_walk_array :: "'s dmi_attribute_visitor \<Rightarrow> 's dmi_nested_walk \<Rightarrow> 's dmi_attribute_leave_fn" where
  "dmi_attribute_walk_array visitor nested node s =
    (let elements = array_base node (snd s);
         array = array_node node (snd s)
     in case dmi_attribute_enter (vs_array_start visitor) array s of
          (DMI_ATTRIBUTE_WALK_STOP, s) \<Rightarrow> (False, s)
        | (DMI_ATTRIBUTE_WALK_SKIP, s) \<Rightarrow> (True, s)
        | (DMI_ATTRIBUTE_WALK_CONTINUE, s) \<Rightarrow>
            (case walk_items visitor nested array elements 0 (nd_count array) s of
               (False, s) \<Rightarrow> (False, s)
             | (True, s) \<Rightarrow> dmi_attribute_leave (vs_array_end visitor) array s))"

definition member_node :: "dmi_attribute \<Rightarrow> dmi_attribute \<Rightarrow> nat \<Rightarrow> dmi_attribute_node" where
  "member_node attr resolved info =
    \<lparr>nd_member = attr, nd_attr = resolved, nd_info = info, nd_value = info + mr_offset (at_value resolved),
     nd_index = SIZE_MAX, nd_count = 0\<rparr>"

text \<open>A member whose value \<open>resolved\<close> describes.\<close>

definition walk_member ::
    "'s dmi_attribute_visitor \<Rightarrow> 's dmi_nested_walk \<Rightarrow> dmi_attribute \<Rightarrow> dmi_attribute \<Rightarrow> nat \<Rightarrow> 's \<times> dmi_memory \<Rightarrow> bool \<times> 's \<times> dmi_memory" where
  "walk_member visitor nested attr resolved info s =
    (let node = member_node attr resolved info
     in case dmi_attribute_enter (vs_member_start visitor) node s of
          (DMI_ATTRIBUTE_WALK_STOP, s) \<Rightarrow> (False, s)
        | (DMI_ATTRIBUTE_WALK_SKIP, s) \<Rightarrow> (True, s)
        | (DMI_ATTRIBUTE_WALK_CONTINUE, s) \<Rightarrow>
            (case (if dmi_attribute_is_array resolved then dmi_attribute_walk_array visitor nested node s
                   else dmi_attribute_walk_value visitor nested node s) of
               (False, s) \<Rightarrow> (False, s)
             | (True, s) \<Rightarrow> dmi_attribute_leave (vs_member_end visitor) node s))"

definition attributes_of :: "dmi_attribute \<Rightarrow> dmi_attribute list" where
  "attributes_of attr = (case at_attrs attr of Some attrs \<Rightarrow> attrs | None \<Rightarrow> [])"

lemma size_attributes_of: "size_list size (attributes_of r) < size r"
  by (cases r) (auto simp: attributes_of_def split: option.splits)

function dmi_attributes_walk :: "'s dmi_attribute_visitor \<Rightarrow> dmi_attribute list \<Rightarrow> 's dmi_nested_walk" where
  "dmi_attributes_walk visitor [] info s = (True, s)"
| "dmi_attributes_walk visitor (attr # attrs) info s =
    (if at_type attr = DMI_ATTRIBUTE_TYPE_NONE then (True, s)
     else
       (case dmi_attribute_resolve attr (snd s) info of
          None \<Rightarrow> dmi_attributes_walk visitor attrs info s
        | Some resolved \<Rightarrow>
            (case walk_member visitor (dmi_attributes_walk visitor (attributes_of resolved)) attr resolved info s of
               (False, s) \<Rightarrow> (False, s)
             | (True, s) \<Rightarrow> dmi_attributes_walk visitor attrs info s)))"
  by pat_completeness auto
termination
proof (relation "measure (\<lambda>(visitor, attrs, info, s). size_list size attrs)", goal_cases)
  case (3 visitor attr attrs info s resolved info' s')
  then have "size_list size (attributes_of resolved) < size attr"
    using size_resolved [of attr "snd s" info resolved] size_attributes_of [of resolved] by linarith
  then show ?case by simp
qed simp_all

definition dmi_attribute_walk :: "'s dmi_attribute_visitor \<Rightarrow> dmi_attribute \<Rightarrow> 's dmi_nested_walk" where
  "dmi_attribute_walk visitor attr info s =
    (case dmi_attribute_resolve attr (snd s) info of
       None \<Rightarrow> (True, s)
     | Some resolved \<Rightarrow> walk_member visitor (dmi_attributes_walk visitor (attributes_of resolved)) attr resolved info s)"

lemma attributes_walk_each:
  "dmi_attributes_walk visitor (attr # attrs) info s =
    (if at_type attr = DMI_ATTRIBUTE_TYPE_NONE then (True, s)
     else
       (case dmi_attribute_walk visitor attr info s of
          (False, s) \<Rightarrow> (False, s)
        | (True, s) \<Rightarrow> dmi_attributes_walk visitor attrs info s))"
  by (simp add: dmi_attribute_walk_def split: option.splits)

declare dmi_attributes_walk.simps [simp del]

text \<open>The part members, structures and arrays have in common: a node is entered, walked and left.\<close>

definition around :: "'s dmi_attribute_enter_fn option \<Rightarrow> 's dmi_attribute_leave_fn option \<Rightarrow> dmi_attribute_node
    \<Rightarrow> ('s \<times> dmi_memory \<Rightarrow> bool \<times> 's \<times> dmi_memory) \<Rightarrow> 's \<times> dmi_memory \<Rightarrow> bool \<times> 's \<times> dmi_memory" where
  "around enter leave node inside s =
    (case dmi_attribute_enter enter node s of
       (DMI_ATTRIBUTE_WALK_STOP, s) \<Rightarrow> (False, s)
     | (DMI_ATTRIBUTE_WALK_SKIP, s) \<Rightarrow> (True, s)
     | (DMI_ATTRIBUTE_WALK_CONTINUE, s) \<Rightarrow>
         (case inside s of (False, s) \<Rightarrow> (False, s) | (True, s) \<Rightarrow> dmi_attribute_leave leave node s))"

lemma struct_around:
  "dmi_attribute_walk_struct visitor nested node = around (vs_struct_start visitor) (vs_struct_end visitor) node (nested (nd_value node))"
  by (rule ext) (simp add: dmi_attribute_walk_struct_def around_def)

lemma array_around:
  "dmi_attribute_walk_array visitor nested node s =
    around (vs_array_start visitor) (vs_array_end visitor) (array_node node (snd s))
      (walk_items visitor nested (array_node node (snd s)) (array_base node (snd s)) 0 (nd_count (array_node node (snd s)))) s"
  by (simp add: dmi_attribute_walk_array_def around_def Let_def)

lemma member_around:
  "walk_member visitor nested attr resolved info =
    around (vs_member_start visitor) (vs_member_end visitor) (member_node attr resolved info)
      (\<lambda>s. if dmi_attribute_is_array resolved then dmi_attribute_walk_array visitor nested (member_node attr resolved info) s
           else dmi_attribute_walk_value visitor nested (member_node attr resolved info) s)"
  by (rule ext) (simp only: walk_member_def around_def Let_def)

section \<open>What every callback keeps\<close>

text \<open>
  A client of the walk proves of its callbacks that each of them takes a state to one it is related to;
  the walk then does the same, whether it is stopped or not.
\<close>

locale attribute_visiting =
  fixes visitor :: "'s dmi_attribute_visitor" and related :: "'s \<times> dmi_memory \<Rightarrow> 's \<times> dmi_memory \<Rightarrow> bool"
  assumes related_refl: "related s s"
    and related_trans: "related s t \<Longrightarrow> related t u \<Longrightarrow> related s u"
    and entering: "Some enter \<in> {vs_member_start visitor, vs_struct_start visitor, vs_array_start visitor, vs_item_start visitor} \<Longrightarrow>
      related s (snd (enter node s))"
    and leaving: "Some leave \<in> {vs_member_end visitor, vs_struct_end visitor, vs_array_end visitor, vs_item_end visitor, vs_value visitor} \<Longrightarrow>
      related s (snd (leave node s))"
begin

lemma enter_related:
  assumes "enter \<in> {vs_member_start visitor, vs_struct_start visitor, vs_array_start visitor, vs_item_start visitor}"
    and "dmi_attribute_enter enter node s = (w, t)"
  shows "related s t"
proof (cases enter)
  case None
  then show ?thesis using assms(2) related_refl by (simp add: dmi_attribute_enter_def)
next
  case (Some f)
  then have "related s (snd (f node s))" using assms(1) by (intro entering) simp
  then show ?thesis using assms(2) Some by (simp add: dmi_attribute_enter_def)
qed

lemma leave_related:
  assumes "leave \<in> {vs_member_end visitor, vs_struct_end visitor, vs_array_end visitor, vs_item_end visitor, vs_value visitor}"
    and "dmi_attribute_leave leave node s = (ok, t)"
  shows "related s t"
proof (cases leave)
  case None
  then show ?thesis using assms(2) related_refl by (simp add: dmi_attribute_leave_def)
next
  case (Some f)
  then have "related s (snd (f node s))" using assms(1) by (intro leaving) simp
  then show ?thesis using assms(2) Some by (simp add: dmi_attribute_leave_def)
qed

lemma around_related:
  assumes enter: "enter \<in> {vs_member_start visitor, vs_struct_start visitor, vs_array_start visitor, vs_item_start visitor}"
    and leave: "leave \<in> {vs_member_end visitor, vs_struct_end visitor, vs_array_end visitor, vs_item_end visitor, vs_value visitor}"
    and inside: "\<And>s ok t. inside s = (ok, t) \<Longrightarrow> related s t"
    and run: "around enter leave node inside s = (ok, t)"
  shows "related s t"
proof -
  obtain w u where w: "dmi_attribute_enter enter node s = (w, u)" by (cases "dmi_attribute_enter enter node s")
  obtain ok1 v where v: "inside u = (ok1, v)" by (cases "inside u")
  obtain ok2 x where x: "dmi_attribute_leave leave node v = (ok2, x)" by (cases "dmi_attribute_leave leave node v")
  have su: "related s u" using enter_related [OF enter w] .
  have sv: "related s v" using related_trans [OF su inside [OF v]] .
  have sx: "related s x" using related_trans [OF sv leave_related [OF leave x]] .
  show ?thesis using run w v x su sv sx by (cases w; cases ok1) (auto simp: around_def)
qed

lemma value_related:
  assumes nested: "\<And>info s ok t. nested info s = (ok, t) \<Longrightarrow> related s t"
    and run: "dmi_attribute_walk_value visitor nested node s = (ok, t)"
  shows "related s t"
proof (cases "at_type (nd_attr node) = DMI_ATTRIBUTE_TYPE_STRUCT")
  case True
  then have "around (vs_struct_start visitor) (vs_struct_end visitor) node (nested (nd_value node)) s = (ok, t)"
    using run by (simp add: dmi_attribute_walk_value_def struct_around)
  then show ?thesis by (rule around_related [rotated 3]) (auto intro: nested)
next
  case False
  then show ?thesis using run leave_related [of "vs_value visitor" node s ok t] by (simp add: dmi_attribute_walk_value_def)
qed

lemma items_related:
  assumes nested: "\<And>info s ok t. nested info s = (ok, t) \<Longrightarrow> related s t"
    and run: "walk_items visitor nested array elements i n s = (ok, t)"
  shows "related s t"
  using run
proof (induction n arbitrary: i s)
  case 0
  then show ?case using related_refl by simp
next
  case (Suc n)
  let ?item = "array\<lparr>nd_value := elements + i * mr_size (at_value (nd_attr array)), nd_index := of_nat i\<rparr>"
  obtain w u where w: "dmi_attribute_enter (vs_item_start visitor) ?item s = (w, u)" by (cases "dmi_attribute_enter (vs_item_start visitor) ?item s")
  have su: "related s u" using enter_related [OF _ w] by simp
  show ?case
  proof (cases w)
    case DMI_ATTRIBUTE_WALK_STOP
    then show ?thesis using Suc.prems su w by simp
  next
    case DMI_ATTRIBUTE_WALK_SKIP
    then show ?thesis using Suc.IH [of "i + 1" u] Suc.prems su w related_trans by simp
  next
    case DMI_ATTRIBUTE_WALK_CONTINUE
    obtain ok1 v where v: "dmi_attribute_walk_value visitor nested ?item u = (ok1, v)" by (cases "dmi_attribute_walk_value visitor nested ?item u")
    have sv: "related s v" using related_trans [OF su value_related [OF nested v]] .
    obtain ok2 x where x: "dmi_attribute_leave (vs_item_end visitor) ?item v = (ok2, x)" by (cases "dmi_attribute_leave (vs_item_end visitor) ?item v")
    have sx: "related s x" using related_trans [OF sv leave_related [OF _ x]] by simp
    show ?thesis using Suc.IH [of "i + 1" x] Suc.prems w v x sv sx related_trans DMI_ATTRIBUTE_WALK_CONTINUE
      by (cases ok1; cases ok2) auto
  qed
qed

lemma member_related:
  assumes nested: "\<And>info s ok t. nested info s = (ok, t) \<Longrightarrow> related s t"
    and run: "walk_member visitor nested attr resolved info s = (ok, t)"
  shows "related s t"
proof -
  have array: "related s t" if "dmi_attribute_walk_array visitor nested node s = (ok, t)" for node s ok t
    using that unfolding array_around by (rule around_related [rotated 3]) (auto intro: items_related [OF nested])
  show ?thesis using run unfolding member_around
    by (rule around_related [rotated 3]) (auto intro: array value_related [OF nested] split: if_splits)
qed

lemma walk_related: "dmi_attributes_walk visitor attrs info s = (ok, t) \<Longrightarrow> related s t"
proof (induction "size_list size attrs" arbitrary: attrs info s ok t rule: less_induct)
  case less
  show ?case
  proof (cases attrs)
    case Nil
    then show ?thesis using less.prems related_refl by (simp add: dmi_attributes_walk.simps)
  next
    case (Cons attr rest)
    show ?thesis
    proof (cases "at_type attr = DMI_ATTRIBUTE_TYPE_NONE \<or> dmi_attribute_resolve attr (snd s) info = None")
      case True
      then show ?thesis using less.hyps [of rest info s ok t] less.prems related_refl Cons
        by (auto simp: dmi_attributes_walk.simps split: if_splits)
    next
      case False
      then obtain r where r: "dmi_attribute_resolve attr (snd s) info = Some r" by auto
      have "size_list size (attributes_of r) < size_list size attrs" using size_attributes_of [of r] size_resolved [OF r] Cons by simp
      then have nested: "\<And>info s ok t. dmi_attributes_walk visitor (attributes_of r) info s = (ok, t) \<Longrightarrow> related s t" by (rule less.hyps)
      obtain ok1 u where u: "walk_member visitor (dmi_attributes_walk visitor (attributes_of r)) attr r info s = (ok1, u)"
        by (cases "walk_member visitor (dmi_attributes_walk visitor (attributes_of r)) attr r info s")
      have "related s u" using member_related [OF nested u] .
      then show ?thesis using less.hyps [of rest info u ok t] less.prems False Cons r u related_trans
        by (cases ok1) (auto simp: dmi_attributes_walk.simps)
    qed
  qed
qed

end

end
