(* ===== verification/Attribute_Visits.thy ===== *)
theory Attribute_Visits
  imports Attribute_Walk
begin

text \<open>
  What a client of the walk over the attributes sees. The events of a walk which is not stopped are nested,
  every entering callback matched by the leaving one of its node, and nothing follows the event which has
  stopped a walk. A client which takes values only sees the members in the order they are declared in, the
  members of a nested structure in its place and the elements of an array in their order.
\<close>

section \<open>Events\<close>

datatype walk_place = Place_member | Place_struct | Place_array | Place_item

datatype walk_event =
    Event_enter walk_place dmi_attribute_node dmi_attribute_walk_t
  | Event_leave walk_place dmi_attribute_node bool
  | Event_value dmi_attribute_node bool

text \<open>A client decides by what it has seen, and its callbacks note what they are called for.\<close>

record walk_client =
  cl_enter :: "walk_event list \<Rightarrow> walk_place \<Rightarrow> dmi_attribute_node \<Rightarrow> dmi_attribute_walk_t"
  cl_leave :: "walk_event list \<Rightarrow> walk_place \<Rightarrow> dmi_attribute_node \<Rightarrow> bool"
  cl_value :: "walk_event list \<Rightarrow> dmi_attribute_node \<Rightarrow> bool"

definition note_enter :: "walk_client \<Rightarrow> walk_place \<Rightarrow> walk_event list dmi_attribute_enter_fn" where
  "note_enter c place node s =
    (let w = cl_enter c (fst s) place node in (w, fst s @ [Event_enter place node w], snd s))"

definition note_leave :: "walk_client \<Rightarrow> walk_place \<Rightarrow> walk_event list dmi_attribute_leave_fn" where
  "note_leave c place node s =
    (let ok = cl_leave c (fst s) place node in (ok, fst s @ [Event_leave place node ok], snd s))"

definition note_value :: "walk_client \<Rightarrow> walk_event list dmi_attribute_leave_fn" where
  "note_value c node s = (let ok = cl_value c (fst s) node in (ok, fst s @ [Event_value node ok], snd s))"

definition recorder :: "walk_client \<Rightarrow> walk_event list dmi_attribute_visitor" where
  "recorder c =
    \<lparr>vs_member_start = Some (note_enter c Place_member), vs_member_end = Some (note_leave c Place_member),
     vs_struct_start = Some (note_enter c Place_struct), vs_struct_end = Some (note_leave c Place_struct),
     vs_array_start = Some (note_enter c Place_array), vs_array_end = Some (note_leave c Place_array),
     vs_item_start = Some (note_enter c Place_item), vs_item_end = Some (note_leave c Place_item),
     vs_value = Some (note_value c)\<rparr>"

inductive nested_events :: "walk_event list \<Rightarrow> bool" where
  no_event: "nested_events []"
| value_event: "nested_events es \<Longrightarrow> nested_events (Event_value node True # es)"
| skip_event: "nested_events es \<Longrightarrow> nested_events (Event_enter place node DMI_ATTRIBUTE_WALK_SKIP # es)"
| pair_event: "nested_events es \<Longrightarrow> nested_events fs \<Longrightarrow>
    nested_events (Event_enter place node DMI_ATTRIBUTE_WALK_CONTINUE # es @ Event_leave place node True # fs)"

fun stopping :: "walk_event \<Rightarrow> bool" where
  "stopping (Event_enter place node w) \<longleftrightarrow> w = DMI_ATTRIBUTE_WALK_STOP"
| "stopping (Event_leave place node ok) \<longleftrightarrow> \<not> ok"
| "stopping (Event_value node ok) \<longleftrightarrow> \<not> ok"

definition halted_events :: "walk_event list \<Rightarrow> bool" where
  "halted_events es \<longleftrightarrow> (\<exists>before e. es = before @ [e] \<and> stopping e \<and> list_all (\<lambda>f. \<not> stopping f) before)"

lemma nested_append: "nested_events es \<Longrightarrow> nested_events fs \<Longrightarrow> nested_events (es @ fs)"
  by (induction es rule: nested_events.induct) (simp_all add: nested_events.intros)

lemma nested_going: "nested_events es \<Longrightarrow> list_all (\<lambda>f. \<not> stopping f) es"
  by (induction es rule: nested_events.induct) simp_all

lemma halted_append: "list_all (\<lambda>f. \<not> stopping f) es \<Longrightarrow> halted_events fs \<Longrightarrow> halted_events (es @ fs)"
  unfolding halted_events_def by (metis append_assoc list_all_append)

lemma halted_single: "stopping e \<Longrightarrow> halted_events [e]"
  by (simp add: halted_events_def)

section \<open>The walk of a recording client\<close>

definition seen :: "walk_event list \<times> dmi_memory \<Rightarrow> bool \<times> walk_event list \<times> dmi_memory \<Rightarrow> bool" where
  "seen s r \<longleftrightarrow> snd (snd r) = snd s \<and>
    (\<exists>es. fst (snd r) = fst s @ es \<and> (if fst r then nested_events es else halted_events es))"

lemma seen_refl: "seen s (True, s)"
  by (simp add: seen_def no_event)

lemma seen_then:
  assumes "seen s (True, t)" and "seen t r"
  shows "seen s r"
proof -
  obtain es where es: "snd t = snd s" "fst t = fst s @ es" "nested_events es" using assms(1) by (auto simp: seen_def)
  obtain fs where fs: "snd (snd r) = snd t" "fst (snd r) = fst t @ fs" "if fst r then nested_events fs else halted_events fs"
    using assms(2) by (auto simp: seen_def)
  show ?thesis using es fs nested_append [OF es(3)] halted_append [OF nested_going [OF es(3)]]
    by (auto simp: seen_def intro!: exI [of _ "es @ fs"])
qed

lemma seen_value: "seen s (note_value c node s)"
  by (auto simp: seen_def note_value_def Let_def intro: nested_events.intros halted_single)

lemma seen_around:
  assumes inside: "\<And>s. seen s (inside s)"
  shows "seen s (around (Some (note_enter c place)) (Some (note_leave c place)) node inside s)"
proof -
  define w where "w = cl_enter c (fst s) place node"
  define u where "u = (fst s @ [Event_enter place node w], snd s)"
  have enter: "dmi_attribute_enter (Some (note_enter c place)) node s = (w, u)"
    by (simp add: dmi_attribute_enter_def note_enter_def Let_def w_def u_def)
  show ?thesis
  proof (cases w)
    case DMI_ATTRIBUTE_WALK_STOP
    then show ?thesis using enter by (auto simp: around_def seen_def u_def intro: halted_single)
  next
    case DMI_ATTRIBUTE_WALK_SKIP
    then show ?thesis using enter by (auto simp: around_def seen_def u_def intro: nested_events.intros)
  next
    case DMI_ATTRIBUTE_WALK_CONTINUE
    obtain ok v where v: "inside u = (ok, v)" by (cases "inside u")
    obtain es where es: "snd v = snd s" "fst v = fst u @ es" "if ok then nested_events es else halted_events es"
      using inside [of u] v by (auto simp: seen_def u_def)
    show ?thesis
    proof (cases ok)
      case False
      then have "halted_events (Event_enter place node w # es)"
        using es halted_append [of "[Event_enter place node w]" es] DMI_ATTRIBUTE_WALK_CONTINUE by simp
      then show ?thesis using enter v False DMI_ATTRIBUTE_WALK_CONTINUE es by (auto simp: around_def seen_def u_def)
    next
      case True
      define ok2 where "ok2 = cl_leave c (fst v) place node"
      have leave: "dmi_attribute_leave (Some (note_leave c place)) node v = (ok2, fst v @ [Event_leave place node ok2], snd v)"
        by (simp add: dmi_attribute_leave_def note_leave_def Let_def ok2_def)
      have "nested_events es" using True es by simp
      then have "if ok2 then nested_events (Event_enter place node w # es @ [Event_leave place node ok2])
          else halted_events (Event_enter place node w # es @ [Event_leave place node ok2])"
        using pair_event [OF _ no_event, of es place node] nested_going [of es] DMI_ATTRIBUTE_WALK_CONTINUE
          halted_append [of "Event_enter place node w # es" "[Event_leave place node ok2]"] halted_single [of "Event_leave place node ok2"]
        by auto
      then show ?thesis using enter v leave True DMI_ATTRIBUTE_WALK_CONTINUE es by (auto simp: around_def seen_def u_def)
    qed
  qed
qed

lemma seen_walk_value:
  assumes "\<And>info s. seen s (nested info s)"
  shows "seen s (dmi_attribute_walk_value (recorder c) nested node s)"
  using assms seen_value
  by (simp add: dmi_attribute_walk_value_def struct_around recorder_def seen_around dmi_attribute_leave_def)

lemma items_around:
  assumes place: "vs_item_start visitor = Some (note_enter c Place_item)" "vs_item_end visitor = Some (note_leave c Place_item)"
  shows "walk_items visitor nested array elements i (Suc n) s =
    (let item = array\<lparr>nd_value := elements + i * mr_size (at_value (nd_attr array)), nd_index := of_nat i\<rparr>
     in case around (vs_item_start visitor) (vs_item_end visitor) item (dmi_attribute_walk_value visitor nested item) s of
          (False, s) \<Rightarrow> (False, s)
        | (True, s) \<Rightarrow> walk_items visitor nested array elements (i + 1) n s)"
  by (simp add: Let_def around_def split: prod.split dmi_attribute_walk_t.split bool.split)

lemma seen_items:
  assumes nested: "\<And>info s. seen s (nested info s)"
  shows "seen s (walk_items (recorder c) nested array elements i n s)"
proof (induction n arbitrary: i s)
  case 0
  then show ?case by (simp add: seen_refl)
next
  case (Suc n)
  let ?item = "array\<lparr>nd_value := elements + i * mr_size (at_value (nd_attr array)), nd_index := of_nat i\<rparr>"
  let ?one = "around (vs_item_start (recorder c)) (vs_item_end (recorder c)) ?item (dmi_attribute_walk_value (recorder c) nested ?item) s"
  have one: "seen s ?one" using seen_around [of "dmi_attribute_walk_value (recorder c) nested ?item"] seen_walk_value [OF nested]
    by (simp add: recorder_def)
  obtain ok t where t: "?one = (ok, t)" by (cases ?one)
  have step: "walk_items (recorder c) nested array elements i (Suc n) s =
      (if ok then walk_items (recorder c) nested array elements (i + 1) n t else (False, t))"
    using t by (subst items_around [where c = c]) (simp_all add: recorder_def Let_def split: bool.split)
  show ?case
  proof (cases ok)
    case True
    then show ?thesis using one Suc.IH [where s = t and i = "i + 1"] unfolding step t by (auto intro: seen_then)
  next
    case False
    then show ?thesis using one unfolding step t by simp
  qed
qed

lemma seen_member:
  assumes nested: "\<And>info s. seen s (nested info s)"
  shows "seen s (walk_member (recorder c) nested attr resolved info s)"
proof -
  have array: "seen s (dmi_attribute_walk_array (recorder c) nested node s)" for node s
    unfolding array_around using seen_around [OF seen_items [OF nested]] by (simp add: recorder_def)
  show ?thesis unfolding member_around
    using seen_around [of "\<lambda>s. if dmi_attribute_is_array resolved then dmi_attribute_walk_array (recorder c) nested (member_node attr resolved info) s
           else dmi_attribute_walk_value (recorder c) nested (member_node attr resolved info) s" s c Place_member] array seen_walk_value [OF nested]
    by (simp add: recorder_def)
qed

lemma seen_walk: "seen s (dmi_attributes_walk (recorder c) attrs info s)"
proof (induction "size_list size attrs" arbitrary: attrs info s rule: less_induct)
  case less
  show ?case
  proof (cases attrs)
    case Nil
    then show ?thesis by (simp add: dmi_attributes_walk.simps seen_refl)
  next
    case (Cons attr rest)
    have later: "seen t (dmi_attributes_walk (recorder c) rest info t)" for t using less.hyps [of rest] Cons by simp
    show ?thesis
    proof (cases "at_type attr = DMI_ATTRIBUTE_TYPE_NONE \<or> dmi_attribute_resolve attr (snd s) info = None")
      case True
      then show ?thesis using later [of s] Cons by (auto simp: dmi_attributes_walk.simps seen_refl)
    next
      case False
      then obtain r where r: "dmi_attribute_resolve attr (snd s) info = Some r" by auto
      have "size_list size (attributes_of r) < size_list size attrs" using size_attributes_of [of r] size_resolved [OF r] Cons by simp
      then have nested: "\<And>info s. seen s (dmi_attributes_walk (recorder c) (attributes_of r) info s)" by (rule less.hyps)
      obtain ok u where u: "walk_member (recorder c) (dmi_attributes_walk (recorder c) (attributes_of r)) attr r info s = (ok, u)"
        by (cases "walk_member (recorder c) (dmi_attributes_walk (recorder c) (attributes_of r)) attr r info s")
      have "seen s (ok, u)" unfolding u [symmetric] by (rule seen_member) (rule nested)
      moreover have "dmi_attributes_walk (recorder c) attrs info s = (if ok then dmi_attributes_walk (recorder c) rest info u else (False, u))"
        unfolding Cons dmi_attributes_walk.simps(2) [of "recorder c" attr rest] using False r u by (cases ok) simp_all
      ultimately show ?thesis using seen_then [OF _ later [of u]] by (cases ok) simp_all
    qed
  qed
qed

section \<open>The values in the order they are visited\<close>

text \<open>A client which takes values and leaves the structure alone.\<close>

definition values_only :: "(dmi_attribute_node \<Rightarrow> 's \<Rightarrow> bool \<times> 's) \<Rightarrow> 's dmi_attribute_visitor" where
  "values_only f =
    \<lparr>vs_member_start = None, vs_member_end = None, vs_struct_start = None, vs_struct_end = None, vs_array_start = None,
     vs_array_end = None, vs_item_start = None, vs_item_end = None,
     vs_value = Some (\<lambda>node s. case f node (fst s) of (ok, t) \<Rightarrow> (ok, t, snd s))\<rparr>"

primrec visit_each :: "(dmi_attribute_node \<Rightarrow> 's \<Rightarrow> bool \<times> 's) \<Rightarrow> dmi_attribute_node list \<Rightarrow> 's \<Rightarrow> bool \<times> 's" where
  "visit_each f [] s = (True, s)"
| "visit_each f (node # nodes) s = (case f node s of (False, t) \<Rightarrow> (False, t) | (True, t) \<Rightarrow> visit_each f nodes t)"

text \<open>The values a structure at an address has, member by member.\<close>

definition value_nodes :: "(nat \<Rightarrow> dmi_attribute_node list) \<Rightarrow> dmi_attribute_node \<Rightarrow> dmi_attribute_node list" where
  "value_nodes nested node = (if at_type (nd_attr node) = DMI_ATTRIBUTE_TYPE_STRUCT then nested (nd_value node) else [node])"

definition member_nodes :: "dmi_memory \<Rightarrow> (nat \<Rightarrow> dmi_attribute_node list) \<Rightarrow> dmi_attribute_node \<Rightarrow> dmi_attribute_node list" where
  "member_nodes m nested node =
    (if dmi_attribute_is_array (nd_attr node)
     then concat (map (\<lambda>i. value_nodes nested ((array_node node m)\<lparr>nd_value := array_base node m + i * mr_size (at_value (nd_attr node)), nd_index := of_nat i\<rparr>))
                      [0..<nd_count (array_node node m)])
     else value_nodes nested node)"

function structure_nodes :: "dmi_memory \<Rightarrow> dmi_attribute list \<Rightarrow> nat \<Rightarrow> dmi_attribute_node list" where
  "structure_nodes m [] info = []"
| "structure_nodes m (attr # attrs) info =
    (if at_type attr = DMI_ATTRIBUTE_TYPE_NONE then []
     else
       (case dmi_attribute_resolve attr m info of
          None \<Rightarrow> []
        | Some resolved \<Rightarrow> member_nodes m (structure_nodes m (attributes_of resolved)) (member_node attr resolved info))
       @ structure_nodes m attrs info)"
  by pat_completeness auto
termination
proof (relation "measure (\<lambda>(m, attrs, info). size_list size attrs)", goal_cases)
  case (2 m attr attrs info resolved info')
  then have "size_list size (attributes_of resolved) < size attr"
    using size_resolved [of attr m info resolved] size_attributes_of [of resolved] by linarith
  then show ?case by simp
qed simp_all

declare structure_nodes.simps [simp del]

definition on_values :: "bool \<times> 's \<Rightarrow> dmi_memory \<Rightarrow> bool \<times> 's \<times> dmi_memory" where
  "on_values r m = (fst r, snd r, m)"

lemma visit_each_append:
  "visit_each f (ns @ ks) s = (case visit_each f ns s of (False, t) \<Rightarrow> (False, t) | (True, t) \<Rightarrow> visit_each f ks t)"
  by (induction ns arbitrary: s) (simp_all split: prod.split bool.split)

lemma around_nothing: "around None None node inside s = inside s"
  by (auto simp: around_def dmi_attribute_enter_def dmi_attribute_leave_def split: prod.split bool.split)

lemma walk_value_only:
  assumes nested: "\<And>info s. nested info (s, m) = on_values (visit_each f (nodes info) s) m"
  shows "dmi_attribute_walk_value (values_only f) nested node (s, m) = on_values (visit_each f (value_nodes nodes node) s) m"
proof (cases "at_type (nd_attr node) = DMI_ATTRIBUTE_TYPE_STRUCT")
  case True
  then show ?thesis using nested by (simp add: dmi_attribute_walk_value_def struct_around values_only_def around_nothing value_nodes_def)
next
  case False
  then show ?thesis
    by (auto simp: dmi_attribute_walk_value_def values_only_def value_nodes_def dmi_attribute_leave_def on_values_def split: prod.split bool.split)
qed

lemma walk_items_only:
  assumes nested: "\<And>info s. nested info (s, m) = on_values (visit_each f (nodes info) s) m"
  shows "walk_items (values_only f) nested array elements i n (s, m) =
    on_values (visit_each f (concat (map (\<lambda>i. value_nodes nodes (array\<lparr>nd_value := elements + i * mr_size (at_value (nd_attr array)), nd_index := of_nat i\<rparr>)) [i..<i + n])) s) m"
proof (induction n arbitrary: i s)
  case 0
  then show ?case by (simp add: on_values_def)
next
  case (Suc n)
  let ?item = "\<lambda>i. array\<lparr>nd_value := elements + i * mr_size (at_value (nd_attr array)), nd_index := of_nat i\<rparr>"
  define rest where "rest = concat (map (\<lambda>i. value_nodes nodes (?item i)) [i + 1..<i + 1 + n])"
  have "[i..<i + Suc n] = i # [i + 1..<i + 1 + n]" by (simp add: upt_conv_Cons del: upt_Suc)
  then have split: "concat (map (\<lambda>i. value_nodes nodes (?item i)) [i..<i + Suc n]) = value_nodes nodes (?item i) @ rest"
    by (simp only: rest_def list.map concat.simps)
  have none: "vs_item_start (values_only f) = None" "vs_item_end (values_only f) = None" by (simp_all add: values_only_def)
  obtain ok t where t: "visit_each f (value_nodes nodes (?item i)) s = (ok, t)" by (cases "visit_each f (value_nodes nodes (?item i)) s")
  have one: "dmi_attribute_walk_value (values_only f) nested (?item i) (s, m) = (ok, t, m)"
    using walk_value_only [where nested = nested and node = "?item i" and s = s, OF nested] t by (simp add: on_values_def)
  have "walk_items (values_only f) nested array elements (i + 1) n (t, m) = on_values (visit_each f rest t) m"
    unfolding rest_def by (rule Suc.IH)
  then show ?case unfolding split using one t
    by (cases ok) (simp_all add: visit_each_append none dmi_attribute_enter_def dmi_attribute_leave_def Let_def on_values_def)
qed

lemma walk_member_only:
  assumes nested: "\<And>info s. nested info (s, m) = on_values (visit_each f (nodes info) s) m"
  shows "walk_member (values_only f) nested attr resolved info (s, m) =
    on_values (visit_each f (member_nodes m nodes (member_node attr resolved info)) s) m"
proof -
  have none: "vs_member_start (values_only f) = None" "vs_member_end (values_only f) = None"
    "vs_array_start (values_only f) = None" "vs_array_end (values_only f) = None" by (simp_all add: values_only_def)
  have attr: "nd_attr (array_node (member_node attr resolved info) m) = nd_attr (member_node attr resolved info)" by (simp add: array_node_def)
  show ?thesis unfolding member_around none around_nothing array_around
    by (simp add: walk_value_only [OF nested] walk_items_only [OF nested] member_nodes_def member_node_def array_node_def)
qed

lemma walk_values: "dmi_attributes_walk (values_only f) attrs info (s, m) = on_values (visit_each f (structure_nodes m attrs info) s) m"
proof (induction "size_list size attrs" arbitrary: attrs info s rule: less_induct)
  case less
  show ?case
  proof (cases attrs)
    case Nil
    then show ?thesis by (simp add: dmi_attributes_walk.simps structure_nodes.simps on_values_def)
  next
    case (Cons attr rest)
    have later: "dmi_attributes_walk (values_only f) rest info (t, m) = on_values (visit_each f (structure_nodes m rest info) t) m" for t
      using less.hyps [of rest] Cons by simp
    show ?thesis
    proof (cases "at_type attr = DMI_ATTRIBUTE_TYPE_NONE \<or> dmi_attribute_resolve attr m info = None")
      case True
      then show ?thesis using later [of s] Cons by (auto simp: dmi_attributes_walk.simps structure_nodes.simps on_values_def)
    next
      case False
      then obtain r where r: "dmi_attribute_resolve attr m info = Some r" by auto
      have "size_list size (attributes_of r) < size_list size attrs" using size_attributes_of [of r] size_resolved [OF r] Cons by simp
      then have nested: "\<And>info s. dmi_attributes_walk (values_only f) (attributes_of r) info (s, m) =
          on_values (visit_each f (structure_nodes m (attributes_of r) info) s) m" by (rule less.hyps)
      show ?thesis using walk_member_only [where attr = attr and resolved = r and info = info and s = s, OF nested] later False Cons r
        by (auto simp: dmi_attributes_walk.simps structure_nodes.simps visit_each_append on_values_def split: prod.split bool.split)
    qed
  qed
qed

section \<open>Properties\<close>

text \<open>
  C17. Whatever the callbacks answer, a walk leaves the structure to them and makes a sequence of events
  which is nested if the walk succeeds: every member, structure, array and element which has been entered is
  left with the same node, after everything inside it has been left, and the ones the client has skipped are
  neither walked nor left. A walk which fails ends with the event whose callback has stopped it, and no other
  callback has.
\<close>
theorem walk_is_bracketed:
  "\<exists>new. (case dmi_attributes_walk (recorder c) attrs info (es, m) of
      (ok, fs, m') \<Rightarrow> m' = m \<and> fs = es @ new \<and> (if ok then nested_events new else halted_events new))"
  using seen_walk [of "(es, m)" c attrs info]
  by (cases "dmi_attributes_walk (recorder c) attrs info (es, m)") (auto simp: seen_def)

text \<open>
  A client which takes values only is given every value of the structure once, in the order the
  attributes are declared in: the variant the selector chooses in place of a variant attribute, the values of
  a nested structure in its place and those of the elements of an array or a vector by their index, and is
  called until it stops the walk. Values no variant describes and elements of arrays which have not been
  allocated are left out.
\<close>
theorem walk_visits_values:
  "dmi_attributes_walk (values_only f) attrs info (s, m) =
    (case visit_each f (structure_nodes m attrs info) s of (ok, t) \<Rightarrow> (ok, t, m))"
  by (simp add: walk_values on_values_def split: prod.split)

end
