(* ===== verification/Anonymize_Values.thy ===== *)
theory Anonymize_Values
  imports Field_Memory Texts
begin

text \<open>
  The replacements of the anonymizer (\<^verbatim>\<open>src/anonymize.c\<close>): the keyed hash of a value, the sequence of
  numbers it seeds, the replacement of a text, which keeps its format, and of binary data, and what is
  taken for an identifier. The key is a parameter, since the code takes it from the system.
\<close>

section \<open>The keyed hash\<close>

type_synonym sip_state = "uint64_t \<times> uint64_t \<times> uint64_t \<times> uint64_t"

definition dmi_anonymize_rotl :: "uint64_t \<Rightarrow> nat \<Rightarrow> uint64_t" where
  "dmi_anonymize_rotl value' bits = push_bit bits value' OR drop_bit (64 - bits) value'"

definition DMI_SIPROUND :: "sip_state \<Rightarrow> sip_state" where
  "DMI_SIPROUND v =
    (let (v0, v1, v2, v3) = v;
         v0 = v0 + v1; v1 = dmi_anonymize_rotl v1 13; v1 = v1 XOR v0;
         v0 = dmi_anonymize_rotl v0 32;
         v2 = v2 + v3; v3 = dmi_anonymize_rotl v3 16; v3 = v3 XOR v2;
         v0 = v0 + v3; v3 = dmi_anonymize_rotl v3 21; v3 = v3 XOR v0;
         v2 = v2 + v1; v1 = dmi_anonymize_rotl v1 17; v1 = v1 XOR v2;
         v2 = dmi_anonymize_rotl v2 32
     in (v0, v1, v2, v3))"

text \<open>A word of the message, and the words of its first \<open>n\<close> runs of eight bytes.\<close>

definition sip_word :: "uint64_t \<Rightarrow> sip_state \<Rightarrow> sip_state" where
  "sip_word m v =
    (let (v0, v1, v2, v3) = v;
         (v0, v1, v2, v3) = DMI_SIPROUND (DMI_SIPROUND (v0, v1, v2, v3 XOR m))
     in (v0 XOR m, v1, v2, v3))"

primrec sip_words :: "nat \<Rightarrow> byte list \<Rightarrow> sip_state \<Rightarrow> sip_state" where
  "sip_words 0 bytes v = v"
| "sip_words (Suc n) bytes v = sip_words n (drop 8 bytes) (sip_word (le_load_loop 0 0 (take 8 bytes)) v)"

definition dmi_anonymize_hash :: "uint64_t \<times> uint64_t \<Rightarrow> byte list \<Rightarrow> uint64_t" where
  "dmi_anonymize_hash key bytes =
    (let v = (fst key XOR 0x736F6D6570736575, snd key XOR 0x646F72616E646F6D,
              fst key XOR 0x6C7967656E657261, snd key XOR 0x7465646279746573);
         tail = length bytes mod 8;
         end' = length bytes - tail;
         v = sip_words (end' div 8) bytes v;
         (v0, v1, v2, v3) = sip_word (le_load_loop 0 (push_bit 56 (of_nat (length bytes))) (drop end' bytes)) v;
         (v0, v1, v2, v3) = (DMI_SIPROUND ^^ 4) (v0, v1, v2 XOR 0xFF, v3)
     in v0 XOR v1 XOR v2 XOR v3)"

section \<open>The sequence of numbers\<close>

definition dmi_anonymize_next :: "uint64_t \<Rightarrow> uint64_t \<times> uint64_t" where
  "dmi_anonymize_next state =
    (let state = state + 0x9E3779B97F4A7C15;
         z = state;
         z = (z XOR drop_bit 30 z) * 0xBF58476D1CE4E5B9;
         z = (z XOR drop_bit 27 z) * 0x94D049BB133111EB
     in (z XOR drop_bit 31 z, state))"

section \<open>Replacements\<close>

definition text_byte :: "byte \<Rightarrow> uint32_t \<Rightarrow> byte" where
  "text_byte c r =
    (if c \<ge> 0x30 \<and> c \<le> 0x39 then ucast (0x30 + r mod 10)
     else if c \<ge> 0x41 \<and> c \<le> 0x5A then ucast (0x41 + r mod 26)
     else if c \<ge> 0x61 \<and> c \<le> 0x7A then ucast (0x61 + r mod 26)
     else c)"

fun text_loop :: "uint64_t \<Rightarrow> byte list \<Rightarrow> byte list" where
  "text_loop state [] = []"
| "text_loop state (c # cs) =
    (let (z, state) = dmi_anonymize_next state
     in text_byte c (ucast (drop_bit 32 z)) # text_loop state cs)"

definition dmi_anonymize_text :: "uint64_t \<times> uint64_t \<Rightarrow> byte list \<Rightarrow> byte list" where
  "dmi_anonymize_text key data = text_loop (dmi_anonymize_hash key data) data"

text \<open>\<open>keep\<close> counts down the leading bytes which are kept.\<close>

fun bytes_loop :: "uint64_t \<Rightarrow> nat \<Rightarrow> byte list \<Rightarrow> byte list" where
  "bytes_loop state keep [] = []"
| "bytes_loop state (Suc keep) (c # cs) = c # bytes_loop state keep cs"
| "bytes_loop state 0 (c # cs) = (let (z, state) = dmi_anonymize_next state in ucast (drop_bit 56 z) # bytes_loop state 0 cs)"

definition dmi_anonymize_bytes :: "uint64_t \<times> uint64_t \<Rightarrow> byte list \<Rightarrow> nat \<Rightarrow> byte list" where
  "dmi_anonymize_bytes key data keep = bytes_loop (dmi_anonymize_hash key data) keep data"

text \<open>The two masks of a UUID, whose fields are the numbers its bytes are on the host.\<close>

definition dmi_anonymize_uuid_keep :: "dmi_uuid \<Rightarrow> dmi_uuid \<Rightarrow> dmi_uuid" where
  "dmi_anonymize_uuid_keep uuid replacement =
    (let replacement = patch replacement 6
           (store_word 2 ((uuid_time_hi_and_version replacement AND 0x0FFF) OR (uuid_time_hi_and_version uuid AND 0xF000)))
     in patch replacement 8 [(replacement ! 8 AND 0x3F) OR (uuid ! 8 AND 0xC0)])"

section \<open>Values\<close>

definition dmi_anonymize_is_blank :: "byte list \<Rightarrow> bool" where
  "dmi_anonymize_is_blank data \<longleftrightarrow> list_all (\<lambda>i. data ! i = data ! 0) [1..<length data]"

fun identifier_loop :: "bool \<Rightarrow> byte list \<Rightarrow> byte list \<Rightarrow> bool" where
  "identifier_loop has_digit seen [] \<longleftrightarrow> has_digit \<and> length seen \<ge> 3"
| "identifier_loop has_digit seen (c # cs) \<longleftrightarrow>
    (if is_space c then False
     else identifier_loop (has_digit \<or> isdigit (char_of_byte c))
            (if length seen < 3 \<and> c \<notin> set seen then seen @ [c] else seen) cs)"

definition dmi_anonymize_is_identifier :: "byte list \<Rightarrow> bool" where
  "dmi_anonymize_is_identifier text' \<longleftrightarrow> identifier_loop False [] text'"

section \<open>The format of a text\<close>

datatype byte_kind = Kind_digit | Kind_upper | Kind_lower | Kind_other byte

definition kind_of :: "byte \<Rightarrow> byte_kind" where
  "kind_of c =
    (if 0x30 \<le> c \<and> c \<le> 0x39 then Kind_digit
     else if 0x41 \<le> c \<and> c \<le> 0x5A then Kind_upper
     else if 0x61 \<le> c \<and> c \<le> 0x7A then Kind_lower
     else Kind_other c)"

lemma text_byte_range:
  fixes r :: uint32_t
  assumes "0 < n" and "a + n < 256"
  shows "unat (ucast (of_nat a + r mod of_nat n) :: byte) = a + unat r mod n"
proof -
  have n: "unat (of_nat n :: uint32_t) = n" "unat (of_nat a :: uint32_t) = a"
    using assms(2) by (simp_all add: unat_of_nat)
  have r: "unat (r mod of_nat n) = unat r mod n" by (simp only: unat_mod_distrib n)
  have small: "unat r mod n < n" using assms(1) by simp
  then have "unat (of_nat a + r mod of_nat n :: uint32_t) = a + unat r mod n"
    using assms(2) by (subst unat_add_lem [THEN iffD1]) (simp_all add: r n)
  then show ?thesis using small assms(2) by (simp add: unsigned_ucast_eq take_bit_nat_def)
qed

lemma kind_of_unat:
  "48 \<le> unat c \<Longrightarrow> unat c \<le> 57 \<Longrightarrow> kind_of c = Kind_digit"
  "65 \<le> unat c \<Longrightarrow> unat c \<le> 90 \<Longrightarrow> kind_of c = Kind_upper"
  "97 \<le> unat c \<Longrightarrow> unat c \<le> 122 \<Longrightarrow> kind_of c = Kind_lower"
  by (simp_all add: kind_of_def word_le_nat_alt)

lemma kind_text_byte [simp]: "kind_of (text_byte c r) = kind_of c"
proof -
  have digit: "unat (ucast (0x30 + r mod 10) :: byte) = 48 + unat r mod 10" using text_byte_range [of 10 48 r] by simp
  have upper: "unat (ucast (0x41 + r mod 26) :: byte) = 65 + unat r mod 26" using text_byte_range [of 26 65 r] by simp
  have lower: "unat (ucast (0x61 + r mod 26) :: byte) = 97 + unat r mod 26" using text_byte_range [of 26 97 r] by simp
  have bounds: "unat r mod 10 < 10" "unat r mod 26 < 26" by simp_all
  have kinds: "kind_of (ucast (0x30 + r mod 10)) = Kind_digit"
    by (rule kind_of_unat(1)) (use bounds(1) in \<open>unfold digit, linarith+\<close>)
  have kinds': "kind_of (ucast (0x41 + r mod 26)) = Kind_upper"
    by (rule kind_of_unat(2)) (use bounds(2) in \<open>unfold upper, linarith+\<close>)
  have kinds'': "kind_of (ucast (0x61 + r mod 26)) = Kind_lower"
    by (rule kind_of_unat(3)) (use bounds(2) in \<open>unfold lower, linarith+\<close>)
  show ?thesis unfolding text_byte_def
    by (cases "0x30 \<le> c \<and> c \<le> 0x39"; cases "0x41 \<le> c \<and> c \<le> 0x5A"; cases "0x61 \<le> c \<and> c \<le> 0x7A";
        simp only: kinds kinds' kinds'' kind_of_def [of c] if_True if_False simp_thms)
qed

lemma text_loop_kinds: "map kind_of (text_loop state data) = map kind_of data"
  by (induction state data rule: text_loop.induct) (simp_all add: Let_def split: prod.split)

lemma length_text [simp]: "length (dmi_anonymize_text key data) = length data"
  using text_loop_kinds [of "dmi_anonymize_hash key data" data] unfolding dmi_anonymize_text_def by (metis length_map)

lemma text_nth_kind: "i < length data \<Longrightarrow> kind_of (dmi_anonymize_text key data ! i) = kind_of (data ! i)"
  using text_loop_kinds [of "dmi_anonymize_hash key data" data] length_text [of key data]
  unfolding dmi_anonymize_text_def by (metis nth_map)

lemma kind_zero: "kind_of c = kind_of 0 \<longleftrightarrow> c = 0"
  by (auto simp: kind_of_def)

lemma text_nth_zero: "i < length data \<Longrightarrow> dmi_anonymize_text key data ! i = 0 \<longleftrightarrow> data ! i = 0"
  using text_nth_kind [of i data key] kind_zero by metis

lemma text_zero: "0 \<in> set (dmi_anonymize_text key data) \<longleftrightarrow> 0 \<in> set data"
  unfolding in_set_conv_nth using text_nth_zero [of _ data key] by auto

section \<open>Binary data\<close>

lemma length_bytes_loop [simp]: "length (bytes_loop state keep data) = length data"
  by (induction state keep data rule: bytes_loop.induct) (simp_all add: Let_def split: prod.split)

lemma take_bytes_loop: "take keep (bytes_loop state keep data) = take keep data"
  by (induction state keep data rule: bytes_loop.induct) simp_all

lemma length_bytes [simp]: "length (dmi_anonymize_bytes key data keep) = length data"
  by (simp add: dmi_anonymize_bytes_def)

lemma take_bytes: "take keep (dmi_anonymize_bytes key data keep) = take keep data"
  by (simp add: dmi_anonymize_bytes_def take_bytes_loop)

section \<open>Identifiers and blank values\<close>

lemma blank_iff: "dmi_anonymize_is_blank data \<longleftrightarrow> (\<forall>b\<in>set data. b = data ! 0)"
proof
  assume blank: "dmi_anonymize_is_blank data"
  have "data ! i = data ! 0" if "i < length data" for i
    using that blank by (cases "i = 0") (auto simp: dmi_anonymize_is_blank_def list_all_iff)
  then show "\<forall>b\<in>set data. b = data ! 0" by (auto simp: in_set_conv_nth)
qed (simp add: dmi_anonymize_is_blank_def list_all_iff)

lemma identifier_loop_iff:
  "distinct seen \<Longrightarrow> length seen \<le> 3 \<Longrightarrow> identifier_loop has_digit seen cs \<longleftrightarrow>
    (\<forall>c\<in>set cs. \<not> is_space c) \<and> (has_digit \<or> (\<exists>c\<in>set cs. isdigit (char_of_byte c))) \<and> 3 \<le> card (set seen \<union> set cs)"
proof (induction has_digit seen cs rule: identifier_loop.induct)
  case (1 has_digit seen)
  then show ?case by (simp add: distinct_card)
next
  case (2 has_digit seen c cs)
  have full: "3 \<le> card (set seen \<union> A)" if "length seen = 3" "finite A" for A
    using that card_mono [of "set seen \<union> A" "set seen"] distinct_card [OF 2(2)] by simp
  show ?case
  proof (cases "is_space c")
    case False
    show ?thesis
    proof (cases "length seen < 3 \<and> c \<notin> set seen")
      case True
      then have "identifier_loop has_digit seen (c # cs) \<longleftrightarrow>
          (\<forall>d\<in>set cs. \<not> is_space d) \<and> ((has_digit \<or> isdigit (char_of_byte c)) \<or> (\<exists>d\<in>set cs. isdigit (char_of_byte d))) \<and>
          3 \<le> card (set (seen @ [c]) \<union> set cs)"
        using False 2(1) 2(2) by simp
      then show ?thesis using False by (auto simp: insert_commute Un_commute)
    next
      case other: False
      then have "set seen \<union> set (c # cs) = set seen \<union> set cs \<or> length seen = 3" using 2(3) by auto
      then have "3 \<le> card (set seen \<union> set (c # cs)) \<longleftrightarrow> 3 \<le> card (set seen \<union> set cs)"
        using full [of "set cs"] full [of "set (c # cs)"] by auto
      then show ?thesis using False other 2(1) [OF False] 2(2,3) by auto
    qed
  qed simp
qed

section \<open>Version and variant of a UUID\<close>

lemma word_mask_or_bytes:
  fixes a b :: uint16_t
  shows "store_word 2 ((a AND 0x0FFF) OR (b AND 0xF000)) = [store_word 2 a ! 0, (store_word 2 a ! 1 AND 0x0F) OR (store_word 2 b ! 1 AND 0xF0)]"
proof (rule nth_equalityI)
  fix i assume "i < length (store_word 2 ((a AND 0x0FFF) OR (b AND 0xF000)))"
  then have i: "i = 0 \<or> i = 1" by auto
  show "store_word 2 ((a AND 0x0FFF) OR (b AND 0xF000)) ! i = [store_word 2 a ! 0, (store_word 2 a ! 1 AND 0x0F) OR (store_word 2 b ! 1 AND 0xF0)] ! i"
  proof (rule bit_word_eqI)
    fix j assume "j < LENGTH(8)"
    then have "j = 0 \<or> j = 1 \<or> j = 2 \<or> j = 3 \<or> j = 4 \<or> j = 5 \<or> j = 6 \<or> j = 7" by auto
    with i show "bit (store_word 2 ((a AND 0x0FFF) OR (b AND 0xF000)) ! i) j \<longleftrightarrow>
        bit ([store_word 2 a ! 0, (store_word 2 a ! 1 AND 0x0F) OR (store_word 2 b ! 1 AND 0xF0)] ! i) j"
      by (elim disjE; simp add: bit_nth_store_word bit_and_iff bit_or_iff)
  qed
qed simp

lemma uuid_keep_bytes:
  assumes u: "length u = 16" and r: "length r = 16"
  shows "dmi_anonymize_uuid_keep u r = take 7 r @ [(r ! 7 AND 0x0F) OR (u ! 7 AND 0xF0), (r ! 8 AND 0x3F) OR (u ! 8 AND 0xC0)] @ drop 9 r"
proof -
  have fields: "store_word 2 (uuid_time_hi_and_version v) = take 2 (drop 6 v)" if "length v = 16" for v
    using store_load_word [of "take 2 (drop 6 v)", where 'a = 16] that by (simp add: uuid_time_hi_and_version_def)
  have nth: "take 2 (drop 6 v) ! 0 = v ! 6" "take 2 (drop 6 v) ! 1 = v ! 7" if "length v = 16" for v :: "byte list"
    using that by simp_all
  have "store_word 2 ((uuid_time_hi_and_version r AND 0x0FFF) OR (uuid_time_hi_and_version u AND 0xF000)) =
      [r ! 6, (r ! 7 AND 0x0F) OR (u ! 7 AND 0xF0)]"
    by (simp only: word_mask_or_bytes fields [OF u] fields [OF r] nth [OF u] nth [OF r])
  then show ?thesis using r
    by (simp add: dmi_anonymize_uuid_keep_def Let_def)
       (rule nth_equalityI; auto simp: nth_patch length_patch nth_append less_Suc_eq numeral_eq_Suc)
qed

text \<open>The version and the variant as the standard puts them into the sixteen bytes of a UUID.\<close>

definition uuid_version :: "dmi_uuid \<Rightarrow> byte" where
  "uuid_version u = drop_bit 4 (u ! 6)"

definition uuid_variant :: "dmi_uuid \<Rightarrow> byte" where
  "uuid_variant u = u ! 8 AND 0xC0"

section \<open>The hash against its published test\<close>

text \<open>The words of the published test of the hash, two rounds at a time.\<close>

lemma sip_test_loads:
  "le_load_loop 0 0 [0, 1, 2, 3, 4, 5, 6, 7] = 0x706050403020100"
  "le_load_loop 0 (push_bit 56 15) [8, 9, 10, 11, 12, 13, 14] = 0xF0E0D0C0B0A0908"
  by code_simp+

lemma sip_test_first: "sip_word 0x706050403020100 (0x7469686173716475, 0x6B617F6D656E6665, 0x6B7F62616D677361, 0x7B6B696E727E6C7B) =
    (0x4A017198DE0A59E0, 0xD52F6F62A4F59A4, 0x634CB3577B01FD3D, 0xA5224D6F55C7D9C8)"
  by (simp add: sip_word_def DMI_SIPROUND_def dmi_anonymize_rotl_def)

lemma sip_test_second: "sip_word 0xF0E0D0C0B0A0908 (0x4A017198DE0A59E0, 0xD52F6F62A4F59A4, 0x634CB3577B01FD3D, 0xA5224D6F55C7D9C8) =
    (0x3C85B3AB6F55BE51, 0x414FC3FB98EFE374, 0xCCF13EA527B9F4BD, 0x5293F5DA84008F82)"
  by (simp add: sip_word_def DMI_SIPROUND_def dmi_anonymize_rotl_def)

lemma sip_test_third: "DMI_SIPROUND (DMI_SIPROUND (0x3C85B3AB6F55BE51, 0x414FC3FB98EFE374, 0xCCF13EA527B9F442, 0x5293F5DA84008F82)) =
    (0xB6C3FBDECC2AE4B4, 0x1638C86ADC6B3CF0, 0x28B8B6AB62553D46, 0xC9465E86EC43EB95)"
  by (simp add: DMI_SIPROUND_def dmi_anonymize_rotl_def)

lemma sip_test_fourth: "DMI_SIPROUND (DMI_SIPROUND (0xB6C3FBDECC2AE4B4, 0x1638C86ADC6B3CF0, 0x28B8B6AB62553D46, 0xC9465E86EC43EB95)) =
    (0xF6BCD53893FECFF1, 0x54B9964C7EA0D937, 0x1B38329C099BB55A, 0x1814BB89AD7BE679)"
  by (simp add: DMI_SIPROUND_def dmi_anonymize_rotl_def)

lemma sip_test_blocks:
  "sip_words 1 [0, 1, 2, 3, 4, 5, 6, 7, 8, 9, 10, 11, 12, 13, 14] (0x7469686173716475, 0x6B617F6D656E6665, 0x6B7F62616D677361, 0x7B6B696E727E6C7B) = (0x4A017198DE0A59E0, 0xD52F6F62A4F59A4, 0x634CB3577B01FD3D, 0xA5224D6F55C7D9C8)"
proof -
  have "take 8 [0, 1, 2, 3, 4, 5, 6, 7, 8, 9, 10, 11, 12, 13, 14] = [0, 1, 2, 3, 4, 5, 6, 7 :: byte]" by simp
  then show ?thesis unfolding One_nat_def sip_words.simps by (simp only: sip_test_loads sip_test_first)
qed

lemma sip_test:
  "dmi_anonymize_hash (0x0706050403020100, 0x0F0E0D0C0B0A0908) [0, 1, 2, 3, 4, 5, 6, 7, 8, 9, 10, 11, 12, 13, 14] = 0xA129CA6149BE45E5"
proof -
  let ?data = "[0, 1, 2, 3, 4, 5, 6, 7, 8, 9, 10, 11, 12, 13, 14] :: byte list"
  have data: "length ?data = 15" "drop 8 ?data = [8, 9, 10, 11, 12, 13, 14]" by simp_all
  have key: "(0x0706050403020100 :: uint64_t) XOR 0x736F6D6570736575 = 0x7469686173716475"
    "(0x0F0E0D0C0B0A0908 :: uint64_t) XOR 0x646F72616E646F6D = 0x6B617F6D656E6665"
    "(0x0706050403020100 :: uint64_t) XOR 0x6C7967656E657261 = 0x6B7F62616D677361"
    "(0x0F0E0D0C0B0A0908 :: uint64_t) XOR 0x7465646279746573 = 0x7B6B696E727E6C7B" by simp_all
  have number: "(of_nat 15 :: uint64_t) = 15" "(15 :: nat) mod 8 = 7" "(15 :: nat) - 7 = 8" "(8 :: nat) div 8 = 1" by simp_all
  have last': "(0xCCF13EA527B9F4BD :: uint64_t) XOR 0xFF = 0xCCF13EA527B9F442" by simp
  have four: "(DMI_SIPROUND ^^ 4) v = DMI_SIPROUND (DMI_SIPROUND (DMI_SIPROUND (DMI_SIPROUND v)))" for v
    by (simp add: numeral_eq_Suc)
  show ?thesis
    unfolding dmi_anonymize_hash_def Let_def fst_conv snd_conv data number key sip_test_blocks sip_test_loads sip_test_second
      prod.case four last' sip_test_third sip_test_fourth
    by simp
qed

end
