(* ===== verification/Anonymizer.thy ===== *)
theory Anonymizer
  imports Anonymize_Values Attribute_Walk Registry
begin

text \<open>
  The anonymizer (\<^verbatim>\<open>src/anonymize.c\<close>): a copy of the table of a context in which the private values of the
  structures are replaced, first where their attributes are and then wherever a string or a formatted area
  holds one of them.

  The state of a run is the record \<open>dmi_anonymizer\<close>; the decoded structure it works on is threaded beside
  it, since members are replaced there while the structure is encoded. The copy is written to by offsets into
  it, as the code does without checking them, and the proofs show what the offsets are. A string of a
  structure is a place in the table, and data of a member remembers the buffer it lies in. The random key,
  what memory there is, the attributes of a specification and the way its structures are encoded are given.
  Freed memory has no trace in the model.
\<close>

definition DMI_ANONYMIZE_SUBSTRING_MIN :: nat where "DMI_ANONYMIZE_SUBSTRING_MIN = 4"
definition DMI_ANONYMIZE_PATTERN_MIN :: nat where "DMI_ANONYMIZE_PATTERN_MIN = 6"
definition DMI_ANONYMIZE_MEMBER_MAX :: nat where "DMI_ANONYMIZE_MEMBER_MAX = 16"

record dmi_anonymize_value =
  vl_data :: "byte list"
  vl_replacement :: "byte list"
  vl_propagate :: bool

record dmi_anonymize_saved =
  sv_ptr :: nat
  sv_cells :: "dmi_cell list"

text \<open>
  The two vectors are lists, along with what their storage has room for, and \<open>an_requests\<close> counts the
  requests for memory.
\<close>

record dmi_anonymizer =
  an_source :: dmi_buffer
  an_table :: dmi_buffer
  an_entity :: "dmi_memory dmi_entity option"
  an_key :: "uint64_t \<times> uint64_t"
  an_values :: "dmi_anonymize_value list"
  an_values_room :: nat
  an_saved :: "dmi_anonymize_saved list"
  an_saved_room :: nat
  an_requests :: nat
  an_queue :: dmi_error_queue

record dmi_anonymize_env =
  ae_room :: "nat \<Rightarrow> bool"
  ae_heap :: heap
  ae_strings :: "nat \<Rightarrow> bool"
  ae_buffer :: nat
  ae_attributes :: "dmi_entity_spec \<Rightarrow> dmi_attribute list option"
  ae_encode :: "dmi_memory dmi_encode_ops"
  ae_module :: "uintptr_t \<Rightarrow> dmi_module"
  ae_key :: "(uint64_t \<times> uint64_t) option"

section \<open>Memory and errors\<close>

definition anon_alloc :: "dmi_anonymize_env \<Rightarrow> dmi_anonymizer \<Rightarrow> bool \<times> dmi_anonymizer" where
  "anon_alloc env anon =
    (let anon = anon\<lparr>an_requests := an_requests anon + 1\<rparr>
     in if ae_room env (an_requests anon) then (True, anon)
        else (False, anon\<lparr>an_queue := raise_error (an_queue anon) DMI_ERROR_OUT_OF_MEMORY\<rparr>))"

text \<open>The vectors grow by sixteen items at a time.\<close>

definition push_value :: "dmi_anonymize_env \<Rightarrow> dmi_anonymizer \<Rightarrow> dmi_anonymize_value \<Rightarrow> bool \<times> dmi_anonymizer" where
  "push_value env anon value' =
    (case (if length (an_values anon) \<ge> an_values_room anon
           then (case anon_alloc env anon of
                   (False, anon) \<Rightarrow> (False, anon)
                 | (True, anon) \<Rightarrow> (True, anon\<lparr>an_values_room := an_values_room anon + 16\<rparr>))
           else (True, anon)) of
       (False, anon) \<Rightarrow> (False, anon)
     | (True, anon) \<Rightarrow> (True, anon\<lparr>an_values := an_values anon @ [value']\<rparr>))"

definition push_saved :: "dmi_anonymize_env \<Rightarrow> dmi_anonymizer \<Rightarrow> dmi_anonymize_saved \<Rightarrow> bool \<times> dmi_anonymizer" where
  "push_saved env anon saved =
    (case (if length (an_saved anon) \<ge> an_saved_room anon
           then (case anon_alloc env anon of
                   (False, anon) \<Rightarrow> (False, anon)
                 | (True, anon) \<Rightarrow> (True, anon\<lparr>an_saved_room := an_saved_room anon + 16\<rparr>))
           else (True, anon)) of
       (False, anon) \<Rightarrow> (False, anon)
     | (True, anon) \<Rightarrow> (True, anon\<lparr>an_saved := an_saved anon @ [saved]\<rparr>))"

definition table_write :: "dmi_anonymizer \<Rightarrow> nat \<Rightarrow> byte list \<Rightarrow> dmi_anonymizer" where
  "table_write anon offset bytes = anon\<lparr>an_table := buf_store (an_table anon) (of_nat offset) bytes\<rparr>"

section \<open>Values replaced elsewhere\<close>

text \<open>Adding to a value which is there already; \<open>None\<close> if it is not.\<close>

fun merge_value :: "byte list \<Rightarrow> bool \<Rightarrow> dmi_anonymize_value list \<Rightarrow> dmi_anonymize_value list option" where
  "merge_value data propagate [] = None"
| "merge_value data propagate (v # vs) =
    (if length (vl_data v) = length data \<and> vl_data v = data then Some (v\<lparr>vl_propagate := vl_propagate v \<or> propagate\<rparr> # vs)
     else map_option ((#) v) (merge_value data propagate vs))"

definition dmi_anonymize_add ::
    "dmi_anonymize_env \<Rightarrow> dmi_anonymizer \<Rightarrow> byte list \<Rightarrow> byte list \<Rightarrow> bool \<Rightarrow> bool \<times> dmi_anonymizer" where
  "dmi_anonymize_add env anon data replacement propagate =
    (if data = [] \<or> dmi_anonymize_is_blank data then (True, anon)
     else
       (case merge_value data propagate (an_values anon) of
          Some values \<Rightarrow> (True, anon\<lparr>an_values := values\<rparr>)
        | None \<Rightarrow>
            (case anon_alloc env anon of
               (False, anon) \<Rightarrow> (False, anon)
             | (True, anon) \<Rightarrow>
                 push_value env anon \<lparr>vl_data = data, vl_replacement = replacement, vl_propagate = propagate\<rparr>)))"

section \<open>Strings\<close>

text \<open>Where the string \<open>i\<close> of a structure begins in the table.\<close>

definition raw_offset :: "'i dmi_entity \<Rightarrow> nat \<Rightarrow> nat" where
  "raw_offset e i = en_offset e + en_body_length e + sum_list (map (\<lambda>entry. length (se_raw entry) + 1) (take i (en_strings e)))"

fun strstr_from :: "nat \<Rightarrow> byte list \<Rightarrow> byte list \<Rightarrow> nat option" where
  "strstr_from pos [] text' = (if text' = [] then Some pos else None)"
| "strstr_from pos (c # cs) text' = (if take (length text') (c # cs) = text' then Some pos else strstr_from (pos + 1) cs text')"

definition strstr :: "byte list \<Rightarrow> byte list \<Rightarrow> nat option" where
  "strstr raw text' = strstr_from 0 raw text'"

text \<open>
  The strings of a structure the source does not hold are pointers into another buffer, whose distance to the
  source the code does not ask for; the model leaves them alone.
\<close>

definition dmi_anonymize_raw_string :: "dmi_anonymizer \<Rightarrow> dmi_string_ref \<Rightarrow> byte list \<Rightarrow> byte list \<Rightarrow> dmi_anonymizer" where
  "dmi_anonymize_raw_string anon ref text' replacement =
    (case an_entity anon of
       None \<Rightarrow> anon
     | Some e \<Rightarrow>
         (case find (\<lambda>i. ref = String_pretty i) [0..<en_string_count e] of
            None \<Rightarrow> anon
          | Some i \<Rightarrow>
              (case strstr (se_raw (en_strings e ! i)) text' of
                 None \<Rightarrow> anon
               | Some pos \<Rightarrow>
                   if buf_id (en_buffer e) = buf_id (an_source anon) then table_write anon (raw_offset e i + pos) replacement
                   else anon)))"

definition dmi_anonymize_member_string :: "dmi_anonymize_env \<Rightarrow> dmi_anonymizer \<Rightarrow> dmi_string_ref option \<Rightarrow> bool \<times> dmi_anonymizer" where
  "dmi_anonymize_member_string env anon ref =
    (case (ref, an_entity anon) of
       (Some ref, Some e) \<Rightarrow>
         let text' = string_of_ref e ref
         in if dmi_string_is_placeholder (map char_of_byte text') then (True, anon)
            else if text' = [] \<or> dmi_anonymize_is_blank text' then (True, anon)
            else
              (case anon_alloc env anon of
                 (False, anon) \<Rightarrow> (False, anon)
               | (True, anon) \<Rightarrow>
                   let replacement = dmi_anonymize_text (an_key anon) text';
                       anon = dmi_anonymize_raw_string anon ref text' replacement
                   in dmi_anonymize_add env anon text' replacement (dmi_anonymize_is_identifier text'))
     | _ \<Rightarrow> (True, anon))"

section \<open>Binary data\<close>

definition dmi_anonymize_member_binary ::
    "dmi_anonymize_env \<Rightarrow> dmi_anonymizer \<Rightarrow> dmi_attribute \<Rightarrow> dmi_binary \<Rightarrow> bool \<times> dmi_anonymizer" where
  "dmi_anonymize_member_binary env anon attr binary =
    (case bn_data binary of
       Some (Pointer_data i p bs) \<Rightarrow>
         let data = binary_bytes binary
         in if bn_length binary = 0 then (True, anon)
            else if dmi_anonymize_is_blank data then (True, anon)
            else if i \<noteq> buf_id (an_source anon) \<or> p + unat (bn_length binary) > unat (buf_length (an_source anon)) then (True, anon)
            else
              let keep = (if has_flag attr DMI_ATTRIBUTE_FLAG_MAC then 3 else 0);
                  keep = (if keep \<ge> unat (bn_length binary) then 0 else keep);
                  replacement = dmi_anonymize_bytes (an_key anon) data keep;
                  anon = table_write anon p replacement
              in dmi_anonymize_add env anon data replacement True
     | _ \<Rightarrow> (True, anon))"

section \<open>Integers and UUIDs\<close>

definition dmi_anonymize_save ::
    "dmi_anonymize_env \<Rightarrow> dmi_anonymizer \<Rightarrow> dmi_memory \<Rightarrow> nat \<Rightarrow> nat \<Rightarrow> dmi_anonymize_saved option \<times> dmi_anonymizer" where
  "dmi_anonymize_save env anon m a size' =
    (case anon_alloc env anon of
       (False, anon) \<Rightarrow> (None, anon)
     | (True, anon) \<Rightarrow>
         let saved = \<lparr>sv_ptr = a, sv_cells = mem_load m a size'\<rparr>
         in (case push_saved env anon saved of
               (False, anon) \<Rightarrow> (None, anon)
             | (True, anon) \<Rightarrow> (Some saved, anon)))"

definition sv_bytes :: "dmi_anonymize_saved \<Rightarrow> byte list" where
  "sv_bytes saved = map cell_byte (sv_cells saved)"

text \<open>
  The replacement of an integer or a UUID, which is never one byte repeated. The buffers it is made in have room
  for a UUID, and the bytes past the member are not looked at.
\<close>

definition scalar_replacement :: "uint64_t \<times> uint64_t \<Rightarrow> dmi_attribute \<Rightarrow> byte list \<Rightarrow> byte list" where
  "scalar_replacement key attr bytes =
    (let replaced = dmi_anonymize_bytes key bytes 0;
         replaced = (if at_type attr = DMI_ATTRIBUTE_TYPE_UUID then take (length bytes) (dmi_anonymize_uuid_keep bytes replaced) else replaced)
     in if dmi_anonymize_is_blank replaced then replaced[0 := replaced ! 0 XOR 1] else replaced)"

text \<open>The walk goes on with whether a member has been replaced, and the structure.\<close>

definition dmi_anonymize_member_scalar ::
    "dmi_anonymize_env \<Rightarrow> dmi_anonymizer \<Rightarrow> dmi_attribute \<Rightarrow> nat \<Rightarrow> bool \<Rightarrow> dmi_memory \<Rightarrow> bool \<times> (dmi_anonymizer \<times> bool) \<times> dmi_memory" where
  "dmi_anonymize_member_scalar env anon attr a changed m =
    (let size' = mr_size (at_value attr)
     in if size' = 0 \<or> size' > DMI_ANONYMIZE_MEMBER_MAX then (True, (anon, changed), m)
        else if dmi_anonymize_is_blank (mem_bytes m a size') then (True, (anon, changed), m)
        else
          (case dmi_anonymize_save env anon m a size' of
             (None, anon) \<Rightarrow> (False, (anon, changed), m)
           | (Some saved, anon) \<Rightarrow>
               (True, (anon, True), mem_store m a (map Byte (scalar_replacement (an_key anon) attr (sv_bytes saved))))))"

section \<open>Walking the members\<close>

definition member_string_ref :: "dmi_memory \<Rightarrow> nat \<Rightarrow> dmi_string_ref option" where
  "member_string_ref m a = (case load_pointer m a of Some (Pointer_string ref) \<Rightarrow> Some ref | _ \<Rightarrow> None)"

definition dmi_anonymize_member ::
    "dmi_anonymize_env \<Rightarrow> dmi_attribute \<Rightarrow> nat \<Rightarrow> (dmi_anonymizer \<times> bool) \<times> dmi_memory \<Rightarrow> bool \<times> (dmi_anonymizer \<times> bool) \<times> dmi_memory" where
  "dmi_anonymize_member env attr a s =
    (let ((anon, changed), m) = s
     in if at_type attr = DMI_ATTRIBUTE_TYPE_STRING
        then (case dmi_anonymize_member_string env anon (member_string_ref m a) of (ok, anon) \<Rightarrow> (ok, (anon, changed), m))
        else if at_type attr = DMI_ATTRIBUTE_TYPE_BINARY
        then (case dmi_anonymize_member_binary env anon attr (load_binary m a) of (ok, anon) \<Rightarrow> (ok, (anon, changed), m))
        else if at_type attr = DMI_ATTRIBUTE_TYPE_UUID \<or> at_type attr = DMI_ATTRIBUTE_TYPE_INTEGER
        then dmi_anonymize_member_scalar env anon attr a changed m
        else (True, s))"

definition dmi_anonymize_visit ::
    "dmi_anonymize_env \<Rightarrow> dmi_attribute_node \<Rightarrow> (dmi_anonymizer \<times> bool) \<times> dmi_memory \<Rightarrow> bool \<times> (dmi_anonymizer \<times> bool) \<times> dmi_memory" where
  "dmi_anonymize_visit env node s =
    (let attr = nd_attr node
     in if \<not> has_flag attr DMI_ATTRIBUTE_FLAG_PRIVATE then (True, s)
        else if dmi_attribute_is_unspecified attr (snd s) (nd_value node) \<or> dmi_attribute_is_unknown attr (snd s) (nd_value node) then (True, s)
        else dmi_anonymize_member env attr (nd_value node) s)"

definition anonymize_visitor :: "dmi_anonymize_env \<Rightarrow> (dmi_anonymizer \<times> bool) dmi_attribute_visitor" where
  "anonymize_visitor env =
    \<lparr>vs_member_start = None, vs_member_end = None, vs_struct_start = None, vs_struct_end = None, vs_array_start = None,
     vs_array_end = None, vs_item_start = None, vs_item_end = None, vs_value = Some (dmi_anonymize_visit env)\<rparr>"

section \<open>Encoding a structure\<close>

definition dmi_anonymize_write ::
    "dmi_anonymize_env \<Rightarrow> dmi_anonymizer \<Rightarrow> dmi_memory dmi_entity \<Rightarrow> bool \<times> dmi_anonymizer" where
  "dmi_anonymize_write env anon e =
    (case anon_alloc env anon of
       (False, anon) \<Rightarrow> (False, anon)
     | (True, anon) \<Rightarrow>
         (case dmi_encoder_initialize (ae_heap env) (ae_strings env) (an_queue anon) (dmi_buffer_create (ae_buffer env)) e
                 DMI_ENCODE_MODE_PRESERVE DMI_VERSION_NONE of
            (None, q) \<Rightarrow> (False, anon\<lparr>an_queue := q\<rparr>)
          | (Some ec, q) \<Rightarrow>
              (case dmi_entity_encode (ae_encode env) (ae_heap env) (ae_strings env) q ec of
                 (False, ec, q) \<Rightarrow> (False, anon\<lparr>an_queue := q\<rparr>)
               | (True, ec, q) \<Rightarrow>
                   let buffer = wr_buffer (ec_writer ec);
                       anon = anon\<lparr>an_queue := q\<rparr>
                   in if unat (buf_length buffer) \<noteq> en_body_length e \<or>
                         en_offset e + en_body_length e > unat (buf_length (an_table anon))
                      then (False, anon\<lparr>an_queue := raise_error q DMI_ERROR_INTERNAL\<rparr>)
                      else (True, table_write anon (en_offset e) (buffer_bytes buffer)))))"

text \<open>The bytes the table has where the source has the ones of a saved member and encoding has replaced them.\<close>

definition dmi_anonymize_find :: "byte list \<Rightarrow> byte list \<Rightarrow> nat \<Rightarrow> byte list \<Rightarrow> byte list option" where
  "dmi_anonymize_find source result length' bytes =
    map_option (\<lambda>pos. take (length bytes) (drop pos result))
      (find (\<lambda>pos. pos + length bytes \<le> length' \<and> take (length bytes) (drop pos source) = bytes \<and>
                   take (length bytes) (drop pos result) \<noteq> bytes) [0..<length' + 1])"

fun collect_loop :: "dmi_anonymize_env \<Rightarrow> byte list \<Rightarrow> byte list \<Rightarrow> nat \<Rightarrow> dmi_anonymize_saved list \<Rightarrow> dmi_anonymizer \<Rightarrow> bool \<times> dmi_anonymizer" where
  "collect_loop env source result length' [] anon = (True, anon)"
| "collect_loop env source result length' (saved # rest) anon =
    (if length (sv_bytes saved) < DMI_ANONYMIZE_PATTERN_MIN then collect_loop env source result length' rest anon
     else
       (case dmi_anonymize_find source result length' (sv_bytes saved) of
          None \<Rightarrow> collect_loop env source result length' rest anon
        | Some replacement \<Rightarrow>
            (case dmi_anonymize_add env anon (sv_bytes saved) replacement True of
               (False, anon) \<Rightarrow> (False, anon)
             | (True, anon) \<Rightarrow> collect_loop env source result length' rest anon)))"

definition dmi_anonymize_collect ::
    "dmi_anonymize_env \<Rightarrow> dmi_anonymizer \<Rightarrow> dmi_memory dmi_entity \<Rightarrow> bool \<times> dmi_anonymizer" where
  "dmi_anonymize_collect env anon e =
    collect_loop env (drop (en_offset e) (buf_memory (an_source anon))) (drop (en_offset e) (buf_memory (an_table anon)))
      (en_body_length e) (an_saved anon) anon"

definition dmi_anonymize_encode ::
    "dmi_anonymize_env \<Rightarrow> dmi_anonymizer \<Rightarrow> dmi_memory dmi_entity \<Rightarrow> bool \<times> dmi_anonymizer" where
  "dmi_anonymize_encode env anon e =
    (if buf_id (en_buffer e) \<noteq> buf_id (an_source anon) then (True, anon)
     else
       (case dmi_anonymize_write env anon e of
          (False, anon) \<Rightarrow> (False, anon)
        | (True, anon) \<Rightarrow> dmi_anonymize_collect env anon e))"

text \<open>Members are put back from the last one on, until none is left.\<close>

definition put_back :: "dmi_anonymize_saved list \<Rightarrow> dmi_memory \<Rightarrow> dmi_memory" where
  "put_back saved m = foldl (\<lambda>m item. mem_store m (sv_ptr item) (sv_cells item)) m (rev saved)"

definition dmi_anonymize_restore :: "dmi_anonymizer \<Rightarrow> dmi_memory \<Rightarrow> dmi_anonymizer \<times> dmi_memory" where
  "dmi_anonymize_restore anon m = (anon\<lparr>an_saved := [], an_saved_room := 0\<rparr>, put_back (an_saved anon) m)"

definition dmi_anonymize_entity ::
    "dmi_anonymize_env \<Rightarrow> dmi_anonymizer \<Rightarrow> dmi_memory dmi_entity \<Rightarrow> bool \<times> dmi_anonymizer \<times> dmi_memory dmi_entity" where
  "dmi_anonymize_entity env anon e =
    (case (en_spec e, en_info e) of
       (Some spec, Some m) \<Rightarrow>
         (case (if dmi_entity_is_decoded e then ae_attributes env spec else None) of
            None \<Rightarrow> (True, anon, e)
          | Some attrs \<Rightarrow>
              let anon = anon\<lparr>an_entity := Some e\<rparr>
              in (case dmi_attributes_walk (anonymize_visitor env) attrs 0 ((anon, False), m) of
                    (success, (anon, changed), m) \<Rightarrow>
                      let (success, anon) =
                            (if success \<and> changed then dmi_anonymize_encode env anon (e\<lparr>en_info := Some m\<rparr>) else (success, anon));
                          (anon, m) = dmi_anonymize_restore anon m
                      in (success, anon, e\<lparr>en_info := Some m\<rparr>)))
     | _ \<Rightarrow> (True, anon, e))"

section \<open>Values wherever they are\<close>

definition longest_below :: "nat \<Rightarrow> dmi_anonymize_value list \<Rightarrow> nat" where
  "longest_below previous values =
    foldl (\<lambda>longest v. if length (vl_data v) < previous \<and> length (vl_data v) > longest then length (vl_data v) else longest) 0 values"

text \<open>
  The scan of a range of the source for a value, position by position; \<open>skip\<close> of them are the rest of an
  occurrence which has been replaced.
\<close>

fun replace_scan :: "byte list \<Rightarrow> dmi_anonymize_value \<Rightarrow> nat \<Rightarrow> nat list \<Rightarrow> byte list \<Rightarrow> byte list" where
  "replace_scan source v skip [] table = table"
| "replace_scan source v (Suc skip) (pos # ps) table = replace_scan source v skip ps table"
| "replace_scan source v 0 (pos # ps) table =
    (if take (length (vl_data v)) (drop pos source) \<noteq> vl_data v then replace_scan source v 0 ps table
     else replace_scan source v (length (vl_data v) - 1) ps (patch table pos (vl_replacement v)))"

definition replace_value :: "byte list \<Rightarrow> nat \<Rightarrow> nat \<Rightarrow> nat \<Rightarrow> byte list \<Rightarrow> dmi_anonymize_value \<Rightarrow> byte list" where
  "replace_value source start end' longest table v =
    (if \<not> vl_propagate v \<or> length (vl_data v) \<noteq> longest \<or> end' - start < length (vl_data v) then table
     else replace_scan source v 0 [start..<end' + 1 - length (vl_data v)] table)"

lemma longest_below_less:
  assumes "longest_below previous vs \<noteq> 0"
  shows "longest_below previous vs < previous"
proof -
  have "longest < previous \<or> longest = 0 \<Longrightarrow>
      foldl (\<lambda>longest v. if length (vl_data v) < previous \<and> length (vl_data v) > longest then length (vl_data v) else longest) longest vs < previous \<or>
      foldl (\<lambda>longest v. if length (vl_data v) < previous \<and> length (vl_data v) > longest then length (vl_data v) else longest) longest vs = 0" for longest
    by (induction vs arbitrary: longest) auto
  from this [of 0] show ?thesis using assms by (auto simp: longest_below_def)
qed

function replace_loop :: "byte list \<Rightarrow> dmi_anonymize_value list \<Rightarrow> nat \<Rightarrow> nat \<Rightarrow> nat \<Rightarrow> nat \<Rightarrow> byte list \<Rightarrow> byte list" where
  "replace_loop source values start end' minimum previous table =
    (let longest = longest_below previous values
     in if longest = 0 \<or> longest < minimum then table
        else replace_loop source values start end' minimum longest (foldl (replace_value source start end' longest) table values))"
  by pat_completeness auto
termination
  by (relation "measure (\<lambda>(source, values, start, end', minimum, previous, table). previous)") (simp_all add: longest_below_less)

declare replace_loop.simps [simp del]

definition dmi_anonymize_replace :: "dmi_anonymizer \<Rightarrow> nat \<Rightarrow> nat \<Rightarrow> nat \<Rightarrow> dmi_anonymizer" where
  "dmi_anonymize_replace anon start end' minimum =
    anon\<lparr>an_table := (an_table anon)\<lparr>buf_data := map_option
      (replace_loop (buf_memory (an_source anon)) (an_values anon) start end' minimum (unat SIZE_MAX)) (buf_data (an_table anon))\<rparr>\<rparr>"

definition dmi_anonymize_strings :: "dmi_anonymizer \<Rightarrow> 'i dmi_entity \<Rightarrow> dmi_anonymizer" where
  "dmi_anonymize_strings anon e =
    (if buf_id (en_buffer e) \<noteq> buf_id (an_source anon) then anon
     else foldl (\<lambda>anon i. dmi_anonymize_replace anon (raw_offset e i) (raw_offset e i + length (se_raw (en_strings e ! i)))
                            DMI_ANONYMIZE_SUBSTRING_MIN) anon [0..<en_string_count e])"

definition dmi_anonymize_body :: "dmi_anonymizer \<Rightarrow> 'i dmi_entity \<Rightarrow> dmi_anonymizer" where
  "dmi_anonymize_body anon e =
    (if buf_id (en_buffer e) \<noteq> buf_id (an_source anon) then anon
     else
       let start = en_offset e + 4;
           end' = en_offset e + en_body_length e
       in if end' \<le> start \<or> end' > unat (buf_length (an_table anon)) then anon
          else dmi_anonymize_replace anon start end' DMI_ANONYMIZE_PATTERN_MIN)"

section \<open>The whole table\<close>

definition dmi_anonymize_check :: "bool \<Rightarrow> 'i dmi_registry \<Rightarrow> dmi_error_queue \<Rightarrow> bool \<times> dmi_error_queue" where
  "dmi_anonymize_check is_open reg q =
    (if \<not> is_open then (False, raise_error q DMI_ERROR_STATE_INVALID)
     else if rg_status reg AND DMI_REGISTRY_STATUS_OVERLAID \<noteq> 0 then (False, raise_error q DMI_ERROR_STATE_INVALID)
     else (True, q))"

definition dmi_anonymize_key :: "dmi_anonymize_env \<Rightarrow> dmi_anonymizer \<Rightarrow> bool \<times> dmi_anonymizer" where
  "dmi_anonymize_key env anon =
    (case ae_key env of
       Some key \<Rightarrow> (True, anon\<lparr>an_key := key\<rparr>)
     | None \<Rightarrow> (False, anon\<lparr>an_queue := raise_error (an_queue anon) DMI_ERROR_SYSTEM\<rparr>))"

fun entities_loop ::
    "dmi_anonymize_env \<Rightarrow> nat list \<Rightarrow> dmi_anonymizer \<Rightarrow> dmi_memory dmi_registry \<Rightarrow> bool \<times> dmi_anonymizer \<times> dmi_memory dmi_registry" where
  "entities_loop env [] anon reg = (True, anon, reg)"
| "entities_loop env (n # ns) anon reg =
    (case dmi_anonymize_entity env anon (rg_entries reg ! n) of
       (False, anon, e) \<Rightarrow> (False, anon, reg\<lparr>rg_entries := (rg_entries reg)[n := e]\<rparr>)
     | (True, anon, e) \<Rightarrow> entities_loop env ns anon (reg\<lparr>rg_entries := (rg_entries reg)[n := e]\<rparr>))"

definition dmi_anonymize_entities ::
    "dmi_anonymize_env \<Rightarrow> dmi_anonymizer \<Rightarrow> dmi_memory dmi_registry \<Rightarrow> bool \<times> dmi_anonymizer \<times> dmi_memory dmi_registry" where
  "dmi_anonymize_entities env anon reg = entities_loop env (visit_all (ae_module env) reg) anon reg"

definition dmi_anonymize_elsewhere :: "dmi_anonymize_env \<Rightarrow> dmi_anonymizer \<Rightarrow> dmi_memory dmi_registry \<Rightarrow> dmi_anonymizer" where
  "dmi_anonymize_elsewhere env anon reg =
    foldl (\<lambda>anon n. dmi_anonymize_body (dmi_anonymize_strings anon (rg_entries reg ! n)) (rg_entries reg ! n)) anon
      (visit_all (ae_module env) reg)"

definition initial_anonymizer :: "dmi_buffer \<Rightarrow> dmi_buffer \<Rightarrow> dmi_error_queue \<Rightarrow> dmi_anonymizer" where
  "initial_anonymizer source table q =
    \<lparr>an_source = source, an_table = table, an_entity = None, an_key = (0, 0), an_values = [], an_values_room = 0,
     an_saved = [], an_saved_room = 0, an_requests = 0, an_queue = q\<rparr>"

text \<open>
  The answer, the copy, the structures and the errors. Cleaning up puts saved members back, of which there are
  none left once a structure is done.
\<close>

definition dmi_anonymize ::
    "dmi_anonymize_env \<Rightarrow> bool \<Rightarrow> dmi_buffer \<Rightarrow> dmi_memory dmi_registry \<Rightarrow> dmi_error_queue \<Rightarrow> dmi_buffer
      \<Rightarrow> bool \<times> dmi_buffer \<times> dmi_memory dmi_registry \<times> dmi_error_queue" where
  "dmi_anonymize env is_open source reg q table =
    (case dmi_anonymize_check is_open reg q of
       (False, q) \<Rightarrow> (False, table, reg, q)
     | (True, q) \<Rightarrow>
         (case dmi_anonymize_key env (initial_anonymizer source table q) of
            (False, anon) \<Rightarrow> (False, dmi_buffer_clear (an_table anon), reg, an_queue anon)
          | (True, anon) \<Rightarrow>
              (case dmi_buffer_assign (ae_heap env) table (buffer_bytes source) of
                 Inl f \<Rightarrow> (False, dmi_buffer_clear table, reg, raise_fault (an_queue anon) f)
               | Inr table \<Rightarrow>
                   (case dmi_anonymize_entities env (anon\<lparr>an_table := table\<rparr>) reg of
                      (False, anon, reg) \<Rightarrow> (False, dmi_buffer_clear (an_table anon), reg, an_queue anon)
                    | (True, anon, reg) \<Rightarrow>
                        let anon = dmi_anonymize_elsewhere env anon reg
                        in (True, an_table anon, reg, an_queue anon)))))"

end
