(* ===== verification/Anonymizer_Laws.thy ===== *)
theory Anonymizer_Laws
  imports Anonymizer Registry_Laws
begin

text \<open>
  What the operations of the anonymizer keep: the decoded structures are as they were once the saved members
  are put back, whatever has been saved and however the work has ended; the copy keeps its length, as every
  write to it lies within the structures of the table; the values are told apart, identify something and have
  replacements of their length.
\<close>

section \<open>Saved members\<close>

lemma mem_store_undone:
  fixes m :: dmi_memory
  assumes "length cs = n"
  shows "mem_store (mem_store m a cs) a (mem_load m a n) = m"
proof -
  have "mm_cells (mem_store (mem_store m a cs) a (mem_load m a n)) = mm_cells m"
    using assms by (intro ext) (auto simp: mem_store_cell mem_load_def)
  then show ?thesis by (simp add: mem_store_def)
qed

lemma put_back_append: "put_back (new @ more') m = put_back new (put_back more' m)"
  by (simp add: put_back_def)

lemma put_back_Nil [simp]: "put_back [] m = m"
  by (simp add: put_back_def)

lemma length_scalar_replacement [simp]: "length (scalar_replacement key attr bytes) = length bytes"
proof -
  have "length bytes \<le> length (dmi_anonymize_uuid_keep bytes (dmi_anonymize_bytes key bytes 0))"
    by (simp add: dmi_anonymize_uuid_keep_def Let_def patch_def)
  then show ?thesis by (simp add: scalar_replacement_def Let_def)
qed

section \<open>Requests for memory\<close>

text \<open>What a request changes: the count of the requests, and the errors.\<close>

definition same_work :: "dmi_anonymizer \<Rightarrow> dmi_anonymizer \<Rightarrow> bool" where
  "same_work anon anon' \<longleftrightarrow> an_source anon' = an_source anon \<and> an_table anon' = an_table anon \<and> an_entity anon' = an_entity anon \<and>
     an_key anon' = an_key anon \<and> an_values anon' = an_values anon \<and> an_saved anon' = an_saved anon"

lemma alloc_work: "anon_alloc env anon = (ok, anon') \<Longrightarrow> same_work anon anon'"
  by (auto simp: anon_alloc_def same_work_def Let_def split: if_splits)

lemma push_saved_result:
  "push_saved env anon saved = (ok, anon') \<Longrightarrow>
    same_work (if ok then anon\<lparr>an_saved := an_saved anon @ [saved]\<rparr> else anon) anon'"
  by (auto simp: push_saved_def anon_alloc_def same_work_def Let_def split: if_splits bool.splits prod.splits)

lemma push_value_result:
  "push_value env anon v = (ok, anon') \<Longrightarrow>
    same_work (if ok then anon\<lparr>an_values := an_values anon @ [v]\<rparr> else anon) anon'"
  by (auto simp: push_value_def anon_alloc_def same_work_def Let_def split: if_splits bool.splits prod.splits)

lemma save_result:
  assumes "dmi_anonymize_save env anon m a n = (r, anon')"
  shows "case r of None \<Rightarrow> same_work anon anon'
    | Some saved \<Rightarrow> saved = \<lparr>sv_ptr = a, sv_cells = mem_load m a n\<rparr> \<and> same_work (anon\<lparr>an_saved := an_saved anon @ [saved]\<rparr>) anon'"
proof -
  obtain ok1 anon1 where a: "anon_alloc env anon = (ok1, anon1)" by (cases "anon_alloc env anon")
  let ?s = "\<lparr>sv_ptr = a, sv_cells = mem_load m a n\<rparr>"
  obtain ok2 anon2 where p: "push_saved env anon1 ?s = (ok2, anon2)" by (cases "push_saved env anon1 ?s")
  show ?thesis using assms a p alloc_work [OF a] push_saved_result [OF p]
    by (cases ok1; cases ok2) (auto simp: dmi_anonymize_save_def Let_def same_work_def)
qed

section \<open>Values\<close>

definition value_ok :: "dmi_anonymize_value \<Rightarrow> bool" where
  "value_ok v \<longleftrightarrow> length (vl_replacement v) = length (vl_data v) \<and> vl_data v \<noteq> [] \<and> \<not> dmi_anonymize_is_blank (vl_data v)"

definition values_ok :: "dmi_anonymize_value list \<Rightarrow> bool" where
  "values_ok vs \<longleftrightarrow> list_all value_ok vs \<and> distinct (map vl_data vs)"

lemma merge_value_some:
  "merge_value data propagate vs = Some ws \<Longrightarrow> map vl_data ws = map vl_data vs \<and> map vl_replacement ws = map vl_replacement vs \<and>
    (\<forall>i<length vs. vl_propagate (ws ! i) \<longleftrightarrow> vl_propagate (vs ! i) \<or> (vl_data (vs ! i) = data \<and> propagate \<and> (\<forall>j<i. vl_data (vs ! j) \<noteq> data)))"
proof (induction data propagate vs arbitrary: ws rule: merge_value.induct)
  case (2 data propagate v vs)
  show ?case
  proof (cases "vl_data v = data")
    case True
    then show ?thesis using 2(2) by (auto simp: nth_Cons split: nat.splits)
  next
    case False
    then obtain us where us: "merge_value data propagate vs = Some us" "ws = v # us" using 2(2) by auto
    have IH: "map vl_data us = map vl_data vs \<and> map vl_replacement us = map vl_replacement vs \<and>
        (\<forall>i<length vs. vl_propagate (us ! i) \<longleftrightarrow> vl_propagate (vs ! i) \<or> (vl_data (vs ! i) = data \<and> propagate \<and> (\<forall>j<i. vl_data (vs ! j) \<noteq> data)))"
      using 2(1) False us(1) by auto
    have "vl_propagate (ws ! i) \<longleftrightarrow> vl_propagate ((v # vs) ! i) \<or> (vl_data ((v # vs) ! i) = data \<and> propagate \<and> (\<forall>j<i. vl_data ((v # vs) ! j) \<noteq> data))"
      if "i < length (v # vs)" for i
      using that IH False us(2) by (cases i) (auto simp: All_less_Suc2)
    then show ?thesis using IH us(2) by simp
  qed
qed simp

lemma merge_value_none: "merge_value data propagate vs = None \<longleftrightarrow> data \<notin> vl_data ` set vs"
  by (induction data propagate vs rule: merge_value.induct) auto

lemma values_ok_merge: "merge_value data propagate vs = Some ws \<Longrightarrow> values_ok vs \<Longrightarrow> values_ok ws"
proof -
  assume merge: "merge_value data propagate vs = Some ws" and ok: "values_ok vs"
  have maps: "map vl_data ws = map vl_data vs" "map vl_replacement ws = map vl_replacement vs" using merge_value_some [OF merge] by auto
  then have same: "length ws = length vs" by (metis length_map)
  have "value_ok (ws ! i)" if "i < length ws" for i
  proof -
    have "vl_data (ws ! i) = vl_data (vs ! i)" "vl_replacement (ws ! i) = vl_replacement (vs ! i)"
      using that same maps by (metis nth_map)+
    moreover have "value_ok (vs ! i)" using ok that same by (simp add: values_ok_def list_all_length)
    ultimately show ?thesis by (simp add: value_ok_def)
  qed
  then show "values_ok ws" using ok maps by (simp add: values_ok_def list_all_length)
qed

lemma add_result:
  assumes "dmi_anonymize_add env anon data replacement propagate = (ok, anon')"
  shows "an_source anon' = an_source anon \<and> an_table anon' = an_table anon \<and> an_entity anon' = an_entity anon \<and>
    an_key anon' = an_key anon \<and> an_saved anon' = an_saved anon \<and>
    (length replacement = length data \<longrightarrow> values_ok (an_values anon) \<longrightarrow> values_ok (an_values anon'))"
proof (cases "data = [] \<or> dmi_anonymize_is_blank data")
  case True
  then show ?thesis using assms(1) by (auto simp: dmi_anonymize_add_def)
next
  case False
  show ?thesis
  proof (cases "merge_value data propagate (an_values anon)")
    case (Some ws)
    then show ?thesis using assms(1) False values_ok_merge [OF Some] by (auto simp: dmi_anonymize_add_def)
  next
    case None
    let ?v = "\<lparr>vl_data = data, vl_replacement = replacement, vl_propagate = propagate\<rparr>"
    obtain ok1 anon1 where a: "anon_alloc env anon = (ok1, anon1)" by (cases "anon_alloc env anon")
    obtain ok2 anon2 where p: "push_value env anon1 ?v = (ok2, anon2)" by (cases "push_value env anon1 ?v")
    have "length replacement = length data \<longrightarrow> value_ok ?v" using False by (simp add: value_ok_def)
    moreover have "data \<notin> vl_data ` set (an_values anon)" using None merge_value_none by metis
    ultimately have "length replacement = length data \<longrightarrow> values_ok (an_values anon) \<longrightarrow> values_ok (an_values anon @ [?v])"
      by (auto simp: values_ok_def)
    then show ?thesis using assms(1) False None a p alloc_work [OF a] push_value_result [OF p]
      by (cases ok1; cases ok2) (auto simp: dmi_anonymize_add_def same_work_def)
  qed
qed

section \<open>Writes to the copy\<close>

lemma buf_store_within:
  assumes "buffer_wf b" and "off + length bs \<le> unat (buf_length b)"
  shows "buffer_wf (buf_store b (of_nat off) bs)" and "buf_length (buf_store b (of_nat off) bs) = buf_length b"
    and "buf_memory (buf_store b (of_nat off) bs) = patch (buf_memory b) off bs"
proof -
  have "off < 18446744073709551616" using assms(2) unat_size_less [of "buf_length b"] by linarith
  then have off: "unat (of_nat off :: size_t) = off" by (simp add: unat_of_nat_size)
  have mem: "length (buf_memory b) = unat (buf_capacity b)" "unat (buf_length b) \<le> unat (buf_capacity b)"
    using assms(1) by (simp_all add: buffer_wf_def word_le_nat_alt)
  show m: "buf_memory (buf_store b (of_nat off) bs) = patch (buf_memory b) off bs"
  proof (cases "buf_data b")
    case None
    then have "off = 0" "bs = []" using assms(2) mem by (simp_all add: buf_memory_def)
    then show ?thesis using None by (simp add: buf_store_def buf_memory_def)
  next
    case (Some d)
    then show ?thesis using off by (simp add: buf_store_def buf_memory_def)
  qed
  show "buf_length (buf_store b (of_nat off) bs) = buf_length b" by (simp add: buf_store_def)
  have "buf_capacity (buf_store b (of_nat off) bs) = buf_capacity b" by (simp add: buf_store_def)
  then show "buffer_wf (buf_store b (of_nat off) bs)"
    using assms mem unfolding buffer_wf_def m by (simp add: length_patch buf_store_def)
qed

section \<open>Strings of a structure in its table\<close>

lemma concat_at:
  assumes "i < length ss"
  shows "concat ss = concat (take i ss) @ ss ! i @ concat (drop (Suc i) ss)"
  using assms by (metis concat.simps(2) concat_append id_take_nth_drop)

lemma entity_string_place:
  assumes e: "entity_in_buffer e" and i: "i < en_string_count e"
  shows "raw_offset e i + length (se_raw (en_strings e ! i)) + 2 \<le> en_offset e + en_total_length e"
    and "take (length (se_raw (en_strings e ! i))) (drop (raw_offset e i) (buffer_bytes (en_buffer e))) = se_raw (en_strings e ! i)"
    and "en_offset e + en_body_length e \<le> raw_offset e i"
proof -
  let ?raws = "map se_raw (en_strings e)" and ?S = "entity_strings_set e" and ?B = "buffer_bytes (en_buffer e)"
  let ?before = "concat (map (\<lambda>s. s @ [0]) (take i ?raws))" and ?after = "concat (map (\<lambda>s. s @ [0]) (drop (Suc i) ?raws)) @ [0]"
  let ?raw = "se_raw (en_strings e ! i)"
  have count: "i < length (en_strings e)" using e i by (simp add: entity_in_buffer_def)
  then have S: "?S = print_strings ?raws" using e by (auto simp: entity_in_buffer_def split: if_splits)
  have split: "print_strings ?raws = ?before @ (?raw @ [0]) @ ?after"
    using concat_at [of i "map (\<lambda>s. s @ [0]) ?raws"] count by (simp add: print_strings_def take_map drop_map)
  have skip: "length ?before = sum_list (map (\<lambda>entry. length (se_raw entry) + 1) (take i (en_strings e)))"
    by (simp add: length_concat take_map comp_def)
  have whole: "en_offset e + en_total_length e \<le> length ?B" "en_total_length e = en_body_length e + en_extra_length e"
    using e by (simp_all add: entity_in_buffer_def)
  have len: "length ?S = en_extra_length e" using whole by (simp add: entity_strings_set_def)
  then have lens: "length ?before + (length ?raw + 1) + length ?after = en_extra_length e" using S split by simp
  show place: "raw_offset e i + length ?raw + 2 \<le> en_offset e + en_total_length e"
    using lens whole(2) skip unfolding raw_offset_def by simp
  show "en_offset e + en_body_length e \<le> raw_offset e i" by (simp add: raw_offset_def)
  have "take (length ?raw) (drop (length ?before) ?S) = ?raw" unfolding S split by simp
  moreover have "take (length ?raw) (drop (length ?before) ?S) = take (length ?raw) (drop (raw_offset e i) ?B)"
  proof -
    have "drop (length ?before) ?S = take (en_extra_length e - length ?before) (drop (raw_offset e i) ?B)"
      unfolding raw_offset_def skip [symmetric] by (simp add: entity_strings_set_def drop_take add.commute add.left_commute)
    then show ?thesis using lens by (simp add: min_def)
  qed
  ultimately show "take (length ?raw) (drop (raw_offset e i) ?B) = ?raw" by simp
qed

lemma strstr_from_some:
  "strstr_from pos raw text' = Some k \<Longrightarrow> pos \<le> k \<and> k - pos + length text' \<le> length raw \<and> take (length text') (drop (k - pos) raw) = text'"
proof (induction pos raw text' rule: strstr_from.induct)
  case (2 pos c cs text')
  show ?case
  proof (cases "take (length text') (c # cs) = text'")
    case True
    then have "length text' \<le> length (c # cs)" by (metis length_take min.absorb_iff2 min.commute)
    then show ?thesis using True 2(2) by simp
  next
    case False
    then have "strstr_from (pos + 1) cs text' = Some k" using 2(2) by simp
    from 2(1) [OF False this] have "pos + 1 \<le> k" "k - (pos + 1) + length text' \<le> length cs" "take (length text') (drop (k - (pos + 1)) cs) = text'"
      by auto
    moreover from this(1) have "k - pos = Suc (k - (pos + 1))" by simp
    ultimately show ?thesis by simp
  qed
qed (auto split: if_splits)

section \<open>What a walk keeps\<close>

definition placed :: "dmi_buffer \<Rightarrow> 'i dmi_entity \<Rightarrow> bool" where
  "placed source e \<longleftrightarrow> buf_id (en_buffer e) = buf_id source \<longrightarrow> en_buffer e = source \<and> entity_in_buffer e"

definition anon_ok :: "dmi_anonymizer \<Rightarrow> bool" where
  "anon_ok anon \<longleftrightarrow> buffer_wf (an_source anon) \<and> buffer_wf (an_table anon) \<and> buf_length (an_table anon) = buf_length (an_source anon) \<and>
     values_ok (an_values anon) \<and> (\<forall>e. an_entity anon = Some e \<longrightarrow> placed (an_source anon) e)"

definition anon_frame :: "dmi_anonymizer \<Rightarrow> dmi_anonymizer \<Rightarrow> bool" where
  "anon_frame anon anon' \<longleftrightarrow> an_source anon' = an_source anon \<and> an_entity anon' = an_entity anon \<and> an_key anon' = an_key anon \<and>
     (anon_ok anon \<longrightarrow> anon_ok anon')"

lemma anon_frame_refl [simp]: "anon_frame anon anon"
  by (simp add: anon_frame_def)

lemma anon_frame_trans: "anon_frame a b \<Longrightarrow> anon_frame b c \<Longrightarrow> anon_frame a c"
  by (simp add: anon_frame_def)

lemma same_work_frame: "same_work anon anon' \<Longrightarrow> anon_frame anon anon'"
  by (simp add: same_work_def anon_frame_def anon_ok_def)

lemma add_frame:
  assumes "dmi_anonymize_add env anon data replacement propagate = (ok, anon')" and "length replacement = length data"
  shows "anon_frame anon anon' \<and> an_saved anon' = an_saved anon"
  using add_result [OF assms(1)] assms(2) by (auto simp: anon_frame_def anon_ok_def)

lemma table_write_frame:
  assumes "anon_ok anon \<longrightarrow> off + length bs \<le> unat (buf_length (an_source anon))"
  shows "anon_frame anon (table_write anon off bs)"
  using assms buf_store_within [of "an_table anon" off bs] by (auto simp: anon_frame_def anon_ok_def table_write_def)

lemma raw_string_frame:
  assumes len: "length replacement = length text'"
  shows "anon_frame anon (dmi_anonymize_raw_string anon ref text' replacement)"
    and "an_saved (dmi_anonymize_raw_string anon ref text' replacement) = an_saved anon"
proof -
  show "an_saved (dmi_anonymize_raw_string anon ref text' replacement) = an_saved anon"
    by (simp add: dmi_anonymize_raw_string_def table_write_def split: option.split)
  show "anon_frame anon (dmi_anonymize_raw_string anon ref text' replacement)"
  proof (cases "an_entity anon")
    case None
    then show ?thesis by (simp add: dmi_anonymize_raw_string_def)
  next
    case (Some e)
    show ?thesis
    proof (cases "find (\<lambda>i. ref = String_pretty i) [0..<en_string_count e]")
      case None
      then show ?thesis using Some by (simp add: dmi_anonymize_raw_string_def)
    next
      case i: (Some i)
      then have count: "i < en_string_count e" by (auto simp: find_Some_iff)
      show ?thesis
      proof (cases "strstr (se_raw (en_strings e ! i)) text'")
        case None
        then show ?thesis using Some i by (simp add: dmi_anonymize_raw_string_def)
      next
        case k: (Some k)
        then have "k + length text' \<le> length (se_raw (en_strings e ! i))" using strstr_from_some [of 0] by (auto simp: strstr_def)
        then have "raw_offset e i + k + length replacement \<le> unat (buf_length (an_source anon))"
          if "anon_ok anon" "buf_id (en_buffer e) = buf_id (an_source anon)"
        proof -
          have e: "en_buffer e = an_source anon" "entity_in_buffer e" "buffer_wf (an_source anon)"
            using that Some by (simp_all add: anon_ok_def placed_def)
          have "en_offset e + en_total_length e \<le> unat (buf_length (an_source anon))"
            using e buffer_length_bytes [OF e(3)] by (simp add: entity_in_buffer_def)
          then show ?thesis using entity_string_place(1) [OF e(2) count] \<open>k + length text' \<le> _\<close> len by simp
        qed
        then show ?thesis using Some i k by (auto simp: dmi_anonymize_raw_string_def intro!: table_write_frame)
      qed
    qed
  qed
qed

lemma member_string_frame:
  assumes "dmi_anonymize_member_string env anon ref = (ok, anon')"
  shows "anon_frame anon anon' \<and> an_saved anon' = an_saved anon"
proof (cases "ref = None \<or> an_entity anon = None")
  case True
  then show ?thesis using assms by (auto simp: dmi_anonymize_member_string_def split: option.splits)
next
  case False
  then obtain r e where re: "ref = Some r" "an_entity anon = Some e" by auto
  define t where "t = string_of_ref e r"
  obtain ok1 anon1 where a: "anon_alloc env anon = (ok1, anon1)" by (cases "anon_alloc env anon")
  define anon2 where "anon2 = dmi_anonymize_raw_string anon1 r t (dmi_anonymize_text (an_key anon1) t)"
  have one: "anon_frame anon anon1" "an_saved anon1 = an_saved anon" "an_key anon1 = an_key anon"
    using alloc_work [OF a] same_work_frame [of anon anon1] by (auto simp: same_work_def)
  have two: "anon_frame anon1 anon2" "an_saved anon2 = an_saved anon1"
    unfolding anon2_def by (rule raw_string_frame; simp)+
  have add: "anon_frame anon2 anon3 \<and> an_saved anon3 = an_saved anon2"
    if "dmi_anonymize_add env anon2 t (dmi_anonymize_text (an_key anon1) t) (dmi_anonymize_is_identifier t) = (ok3, anon3)" for ok3 anon3
    using add_frame [OF that] by simp
  show ?thesis
  proof (cases "dmi_string_is_placeholder (map char_of_byte t) \<or> t = [] \<or> dmi_anonymize_is_blank t")
    case True
    then have "anon' = anon" using assms re
      by (auto simp: dmi_anonymize_member_string_def t_def [symmetric] Let_def split: if_splits)
    then show ?thesis by simp
  next
    case go: False
    show ?thesis
    proof (cases ok1)
      case False
      then show ?thesis using assms re go one by (simp add: dmi_anonymize_member_string_def t_def [symmetric] Let_def a)
    next
      case True
      then have "dmi_anonymize_add env anon2 t (dmi_anonymize_text (an_key anon1) t) (dmi_anonymize_is_identifier t) = (ok, anon')"
        using assms re go by (simp add: dmi_anonymize_member_string_def t_def [symmetric] Let_def a anon2_def)
      from add [OF this] show ?thesis using anon_frame_trans [OF anon_frame_trans [OF one(1) two(1)]] one(2) two(2) by simp
    qed
  qed
qed

lemma member_binary_frame:
  assumes run: "dmi_anonymize_member_binary env anon attr binary = (ok, anon')"
  shows "anon_frame anon anon' \<and> an_saved anon' = an_saved anon"
proof (cases "\<exists>i p bs. bn_data binary = Some (Pointer_data i p bs)")
  case False
  then have "anon' = anon" using run by (auto simp: dmi_anonymize_member_binary_def split: option.splits dmi_pointer.splits)
  then show ?thesis by simp
next
  case True
  then obtain i p bs where b: "bn_data binary = Some (Pointer_data i p bs)" by blast
  define data where "data = binary_bytes binary"
  show ?thesis
  proof (cases "bn_length binary = 0 \<or> dmi_anonymize_is_blank data \<or> i \<noteq> buf_id (an_source anon) \<or>
      p + unat (bn_length binary) > unat (buf_length (an_source anon))")
    case True
    then have "anon' = anon" using run b by (auto simp: dmi_anonymize_member_binary_def data_def [symmetric] Let_def split: if_splits)
    then show ?thesis by simp
  next
    case False
    define keep where "keep = (if has_flag attr DMI_ATTRIBUTE_FLAG_MAC then 3 else 0 :: nat)"
    define kept where "kept = (if keep \<ge> unat (bn_length binary) then 0 else keep)"
    define replacement where "replacement = dmi_anonymize_bytes (an_key anon) data kept"
    have "length data \<le> unat (bn_length binary)" by (auto simp: data_def binary_bytes_def b)
    then have "p + length replacement \<le> unat (buf_length (an_source anon))" using False by (simp add: replacement_def)
    then have one: "anon_frame anon (table_write anon p replacement)" by (intro table_write_frame) simp
    have "dmi_anonymize_add env (table_write anon p replacement) data replacement True = (ok, anon')"
      using run b False
      by (simp add: dmi_anonymize_member_binary_def data_def [symmetric] Let_def keep_def [symmetric] kept_def [symmetric] replacement_def [symmetric])
    from add_frame [OF this] show ?thesis using anon_frame_trans [OF one] by (simp add: replacement_def table_write_def)
  qed
qed

definition walk_frame :: "(dmi_anonymizer \<times> bool) \<times> dmi_memory \<Rightarrow> (dmi_anonymizer \<times> bool) \<times> dmi_memory \<Rightarrow> bool" where
  "walk_frame s t \<longleftrightarrow> anon_frame (fst (fst s)) (fst (fst t)) \<and>
     (\<exists>new. an_saved (fst (fst t)) = an_saved (fst (fst s)) @ new \<and> put_back new (snd t) = snd s)"

lemma walk_frame_same:
  "anon_frame anon anon' \<Longrightarrow> an_saved anon' = an_saved anon \<Longrightarrow> walk_frame ((anon, c), m) ((anon', c'), m)"
  by (auto simp: walk_frame_def)

lemma member_scalar_frame:
  assumes run: "dmi_anonymize_member_scalar env anon attr a changed m = (ok, t)"
  shows "walk_frame ((anon, changed), m) t"
proof -
  let ?n = "mr_size (at_value attr)"
  show ?thesis
  proof (cases "?n = 0 \<or> ?n > DMI_ANONYMIZE_MEMBER_MAX \<or> dmi_anonymize_is_blank (mem_bytes m a ?n)")
    case True
    then have "t = ((anon, changed), m)" using run by (auto simp: dmi_anonymize_member_scalar_def Let_def split: if_splits)
    then show ?thesis by (simp add: walk_frame_same)
  next
    case False
    obtain r anon1 where save: "dmi_anonymize_save env anon m a ?n = (r, anon1)" by (cases "dmi_anonymize_save env anon m a ?n")
    show ?thesis
    proof (cases r)
      case None
      then have "t = ((anon1, changed), m)" "same_work anon anon1"
        using run save False save_result [OF save] by (auto simp: dmi_anonymize_member_scalar_def Let_def)
      then show ?thesis using walk_frame_same [OF same_work_frame] by (simp add: same_work_def)
    next
      case (Some saved)
      have saved: "saved = \<lparr>sv_ptr = a, sv_cells = mem_load m a ?n\<rparr>" and work: "same_work (anon\<lparr>an_saved := an_saved anon @ [saved]\<rparr>) anon1"
        using save_result [OF save] unfolding Some by auto
      let ?cs = "map Byte (scalar_replacement (an_key anon1) attr (sv_bytes saved))"
      have t: "t = ((anon1, True), mem_store m a ?cs)" using run save False Some by (simp add: dmi_anonymize_member_scalar_def Let_def)
      have "length ?cs = ?n" by (simp add: saved sv_bytes_def)
      then have "put_back [saved] (mem_store m a ?cs) = m" using mem_store_undone [of ?cs ?n m a] by (simp add: put_back_def saved)
      moreover have "anon_frame anon anon1" using work by (simp add: same_work_def anon_frame_def anon_ok_def)
      ultimately show ?thesis using work by (auto simp: walk_frame_def t same_work_def)
    qed
  qed
qed

lemma visit_frame: "dmi_anonymize_visit env node s = (ok, t) \<Longrightarrow> walk_frame s t"
proof -
  assume run: "dmi_anonymize_visit env node s = (ok, t)"
  obtain anon c m where s: "s = ((anon, c), m)" by (metis prod_cases3 surj_pair)
  have refl: "walk_frame s s" by (simp add: s walk_frame_same)
  show ?thesis
  proof (cases "dmi_anonymize_visit env node s = (True, s)")
    case True
    then show ?thesis using run refl by simp
  next
    case False
    then have member: "dmi_anonymize_member env (nd_attr node) (nd_value node) s = (ok, t)"
      using run by (auto simp: dmi_anonymize_visit_def Let_def split: if_splits)
    obtain ok1 anon1 where str: "dmi_anonymize_member_string env anon (member_string_ref m (nd_value node)) = (ok1, anon1)"
      by (cases "dmi_anonymize_member_string env anon (member_string_ref m (nd_value node))")
    obtain ok2 anon2 where bin: "dmi_anonymize_member_binary env anon (nd_attr node) (load_binary m (nd_value node)) = (ok2, anon2)"
      by (cases "dmi_anonymize_member_binary env anon (nd_attr node) (load_binary m (nd_value node))")
    show ?thesis using member refl member_string_frame [OF str] member_binary_frame [OF bin] member_scalar_frame
      by (auto simp: dmi_anonymize_member_def s str bin intro: walk_frame_same split: if_splits)
  qed
qed

lemma walk_frame_trans: "walk_frame s t \<Longrightarrow> walk_frame t u \<Longrightarrow> walk_frame s u"
  by (auto simp: walk_frame_def put_back_append intro: anon_frame_trans)

interpretation anonymizing: attribute_visiting "anonymize_visitor env" walk_frame for env
proof unfold_locales
  fix s :: "(dmi_anonymizer \<times> bool) \<times> dmi_memory"
  show "walk_frame s s" by (cases s; cases "fst s") (simp add: walk_frame_same)
next
  fix s t u :: "(dmi_anonymizer \<times> bool) \<times> dmi_memory"
  show "walk_frame s t \<Longrightarrow> walk_frame t u \<Longrightarrow> walk_frame s u" by (rule walk_frame_trans)
next
  fix enter :: "(dmi_anonymizer \<times> bool) dmi_attribute_enter_fn" and node s
  assume "Some enter \<in> {vs_member_start (anonymize_visitor env), vs_struct_start (anonymize_visitor env),
      vs_array_start (anonymize_visitor env), vs_item_start (anonymize_visitor env)}"
  then show "walk_frame s (snd (enter node s))" by (simp add: anonymize_visitor_def)
next
  fix leave :: "(dmi_anonymizer \<times> bool) dmi_attribute_leave_fn" and node s
  assume "Some leave \<in> {vs_member_end (anonymize_visitor env), vs_struct_end (anonymize_visitor env),
      vs_array_end (anonymize_visitor env), vs_item_end (anonymize_visitor env), vs_value (anonymize_visitor env)}"
  then have "leave = dmi_anonymize_visit env" by (simp add: anonymize_visitor_def)
  then show "walk_frame s (snd (leave node s))" using visit_frame [of env node s] by (metis prod.collapse)
qed

section \<open>What encoding keeps\<close>

lemma write_frame:
  assumes run: "dmi_anonymize_write env anon e = (ok, anon')"
  shows "anon_frame anon anon' \<and> an_saved anon' = an_saved anon \<and>
    (ok \<longrightarrow> en_offset e + en_body_length e \<le> unat (buf_length (an_table anon')))"
proof -
  obtain ok1 anon1 where a: "anon_alloc env anon = (ok1, anon1)" by (cases "anon_alloc env anon")
  note one = same_work_frame [OF alloc_work [OF a]] alloc_work [OF a]
  have queue: "anon_frame x (x\<lparr>an_queue := q\<rparr>)" for x :: dmi_anonymizer and q by (simp add: anon_frame_def anon_ok_def)
  obtain r q1 where i: "dmi_encoder_initialize (ae_heap env) (ae_strings env) (an_queue anon1) (dmi_buffer_create (ae_buffer env)) e
      DMI_ENCODE_MODE_PRESERVE DMI_VERSION_NONE = (r, q1)"
    by (cases "dmi_encoder_initialize (ae_heap env) (ae_strings env) (an_queue anon1) (dmi_buffer_create (ae_buffer env)) e
      DMI_ENCODE_MODE_PRESERVE DMI_VERSION_NONE")
  show ?thesis
  proof (cases "ok1 \<and> r \<noteq> None")
    case False
    then show ?thesis using run a i one anon_frame_trans [OF one(1) queue]
      by (auto simp: dmi_anonymize_write_def same_work_def split: option.splits bool.splits)
  next
    case True
    then obtain ec where ec: "r = Some ec" "ok1" by auto
    obtain ok2 ec2 q2 where n: "dmi_entity_encode (ae_encode env) (ae_heap env) (ae_strings env) q1 ec = (ok2, ec2, q2)" by (metis prod_cases3)
    let ?b = "wr_buffer (ec_writer ec2)"
    show ?thesis
    proof (cases "ok2 \<and> unat (buf_length ?b) = en_body_length e \<and> en_offset e + en_body_length e \<le> unat (buf_length (an_table anon1))")
      case False
      then have "\<exists>q. anon' = anon1\<lparr>an_queue := q\<rparr>" "\<not> ok"
        using run a i ec n by (auto simp: dmi_anonymize_write_def Let_def split: bool.splits if_splits)
      then show ?thesis using one anon_frame_trans [OF one(1) queue] by (auto simp: same_work_def)
    next
      case True
      let ?anon2 = "anon1\<lparr>an_queue := q2\<rparr>"
      have anon': "anon' = table_write ?anon2 (en_offset e) (buffer_bytes ?b)"
        using run a i ec n True by (auto simp: dmi_anonymize_write_def Let_def)
      have "length (buffer_bytes ?b) \<le> en_body_length e" using True by (simp add: buffer_bytes_def)
      then have "anon_frame ?anon2 anon'" unfolding anon' using True by (intro table_write_frame) (auto simp: anon_ok_def)
      then have "anon_frame anon anon'" using anon_frame_trans [OF anon_frame_trans [OF one(1) queue]] by blast
      then show ?thesis using one(2) True by (simp add: anon' table_write_def buf_store_def same_work_def)
    qed
  qed
qed

lemma find_length:
  assumes "dmi_anonymize_find source result n bytes = Some replacement" and "n \<le> length result"
  shows "length replacement = length bytes"
  using assms by (auto simp: dmi_anonymize_find_def find_Some_iff)

lemma collect_loop_frame:
  "collect_loop env source result n saved anon = (ok, anon') \<Longrightarrow> n \<le> length result \<Longrightarrow>
    anon_frame anon anon' \<and> an_saved anon' = an_saved anon"
proof (induction env source result n saved anon rule: collect_loop.induct)
  case (2 env source result n item rest anon)
  show ?case
  proof (cases "length (sv_bytes item) < DMI_ANONYMIZE_PATTERN_MIN")
    case True
    then show ?thesis using 2 by simp
  next
    case False
    show ?thesis
    proof (cases "dmi_anonymize_find source result n (sv_bytes item)")
      case None
      then show ?thesis using 2 False by simp
    next
      case (Some replacement)
      obtain ok1 anon1 where add: "dmi_anonymize_add env anon (sv_bytes item) replacement True = (ok1, anon1)"
        by (cases "dmi_anonymize_add env anon (sv_bytes item) replacement True")
      have one: "anon_frame anon anon1 \<and> an_saved anon1 = an_saved anon"
        using add_frame [OF add find_length [OF Some 2(5)]] .
      show ?thesis
      proof (cases ok1)
        case True
        then have "collect_loop env source result n rest anon1 = (ok, anon')" using 2(4) False Some add by simp
        then have "anon_frame anon1 anon' \<and> an_saved anon' = an_saved anon1"
          using 2(3) [OF False Some add [symmetric]] 2(5) True by simp
        then show ?thesis using one anon_frame_trans by metis
      next
        case ok1: False
        then show ?thesis using 2(4) False Some add one by simp
      qed
    qed
  qed
qed simp

lemma collect_loop_same:
  "collect_loop env source result n saved anon = (ok, anon') \<Longrightarrow>
    an_source anon' = an_source anon \<and> an_entity anon' = an_entity anon \<and> an_key anon' = an_key anon \<and> an_saved anon' = an_saved anon"
proof (induction env source result n saved anon rule: collect_loop.induct)
  case (2 env source result n item rest anon)
  show ?case
  proof (cases "length (sv_bytes item) < DMI_ANONYMIZE_PATTERN_MIN \<or> dmi_anonymize_find source result n (sv_bytes item) = None")
    case True
    then show ?thesis using 2 by (auto split: if_splits)
  next
    case False
    then obtain replacement where find': "dmi_anonymize_find source result n (sv_bytes item) = Some replacement" by auto
    obtain ok1 anon1 where add: "dmi_anonymize_add env anon (sv_bytes item) replacement True = (ok1, anon1)"
      by (cases "dmi_anonymize_add env anon (sv_bytes item) replacement True")
    show ?thesis using 2(3) [OF _ find' add [symmetric]] 2(4) False find' add add_result [OF add] by (cases ok1) auto
  qed
qed simp

lemma encode_frame:
  assumes run: "dmi_anonymize_encode env anon e = (ok, anon')"
  shows "anon_frame anon anon' \<and> an_saved anon' = an_saved anon"
proof (cases "buf_id (en_buffer e) \<noteq> buf_id (an_source anon)")
  case True
  then show ?thesis using run by (simp add: dmi_anonymize_encode_def)
next
  case False
  obtain ok1 anon1 where w: "dmi_anonymize_write env anon e = (ok1, anon1)" by (cases "dmi_anonymize_write env anon e")
  note one = write_frame [OF w]
  show ?thesis
  proof (cases ok1)
    case no: False
    then show ?thesis using run False w one by (simp add: dmi_anonymize_encode_def)
  next
    case True
    then have c: "collect_loop env (drop (en_offset e) (buf_memory (an_source anon1))) (drop (en_offset e) (buf_memory (an_table anon1)))
        (en_body_length e) (an_saved anon1) anon1 = (ok, anon')"
      using run False w by (simp add: dmi_anonymize_encode_def dmi_anonymize_collect_def)
    have "anon_ok anon'" if "anon_ok anon"
    proof -
      have ok: "anon_ok anon1" using one that by (simp add: anon_frame_def)
      then have "unat (buf_length (an_table anon1)) \<le> length (buf_memory (an_table anon1))"
        by (auto simp: anon_ok_def buffer_wf_def word_le_nat_alt)
      then have "en_body_length e \<le> length (drop (en_offset e) (buf_memory (an_table anon1)))" using one True unfolding length_drop by linarith
      from collect_loop_frame [OF c this] show ?thesis using ok by (simp add: anon_frame_def)
    qed
    then show ?thesis using one collect_loop_same [OF c] by (simp add: anon_frame_def)
  qed
qed

section \<open>A structure\<close>

text \<open>The structure is as it was, and the copy and the values stay in order.\<close>

lemma entity_kept:
  assumes run: "dmi_anonymize_entity env anon e = (ok, anon', e')" and none: "an_saved anon = []"
  shows "e' = e \<and> an_saved anon' = [] \<and> an_source anon' = an_source anon \<and> an_key anon' = an_key anon \<and>
    (anon_ok anon \<longrightarrow> placed (an_source anon) e \<longrightarrow> anon_ok anon')"
proof (cases "\<exists>spec m attrs. en_spec e = Some spec \<and> en_info e = Some m \<and> dmi_entity_is_decoded e \<and> ae_attributes env spec = Some attrs")
  case False
  then have "(ok, anon', e') = (True, anon, e)" using run by (auto simp: dmi_anonymize_entity_def split: option.splits if_splits)
  then show ?thesis using none by simp
next
  case True
  then obtain spec m attrs where e: "en_spec e = Some spec" "en_info e = Some m" "dmi_entity_is_decoded e" "ae_attributes env spec = Some attrs"
    by blast
  let ?anon1 = "anon\<lparr>an_entity := Some e\<rparr>"
  obtain ok2 anon2 c m2 where walk: "dmi_attributes_walk (anonymize_visitor env) attrs 0 ((?anon1, False), m) = (ok2, (anon2, c), m2)"
    by (metis prod_cases3 surj_pair)
  obtain new where new: "anon_frame ?anon1 anon2" "an_saved anon2 = new" "put_back new m2 = m"
    using anonymizing.walk_related [OF walk] none by (auto simp: walk_frame_def)
  define r where "r = (if ok2 \<and> c then dmi_anonymize_encode env anon2 (e\<lparr>en_info := Some m2\<rparr>) else (ok2, anon2))"
  obtain ok3 anon3 where r3: "r = (ok3, anon3)" by (cases r)
  have three: "anon_frame anon2 anon3 \<and> an_saved anon3 = new"
    using r3 new(2) encode_frame [of env anon2 "e\<lparr>en_info := Some m2\<rparr>" ok3 anon3] by (auto simp: r_def split: if_splits)
  have result: "(ok, anon', e') = (ok3, anon3\<lparr>an_saved := [], an_saved_room := 0\<rparr>, e\<lparr>en_info := Some (put_back new m2)\<rparr>)"
    using run three by (simp add: dmi_anonymize_entity_def e walk r_def [symmetric] r3 dmi_anonymize_restore_def Let_def)
  have frame: "anon_frame ?anon1 anon3" using anon_frame_trans new(1) three by blast
  moreover have "anon_ok ?anon1" if "anon_ok anon" "placed (an_source anon) e" using that by (simp add: anon_ok_def)
  moreover have "anon_ok (anon3\<lparr>an_saved := [], an_saved_room := 0\<rparr>) \<longleftrightarrow> anon_ok anon3" by (simp add: anon_ok_def)
  ultimately show ?thesis using result new(3) e(2) by (auto simp: anon_frame_def)
qed

section \<open>All structures\<close>

definition registry_placed :: "dmi_buffer \<Rightarrow> 'i dmi_registry \<Rightarrow> bool" where
  "registry_placed source reg \<longleftrightarrow> (\<forall>e\<in>set (rg_entries reg). placed source e)"

lemma entities_kept:
  assumes "entities_loop env ns anon reg = (ok, anon', reg')" and "an_saved anon = []" and "\<forall>n\<in>set ns. n < length (rg_entries reg)"
  shows "reg' = reg \<and> an_saved anon' = [] \<and> an_source anon' = an_source anon \<and> an_key anon' = an_key anon \<and>
    (anon_ok anon \<longrightarrow> registry_placed (an_source anon) reg \<longrightarrow> anon_ok anon')"
  using assms
proof (induction ns arbitrary: anon)
  case (Cons n ns)
  obtain ok1 anon1 e where one: "dmi_anonymize_entity env anon (rg_entries reg ! n) = (ok1, anon1, e)" by (metis prod_cases3)
  note kept = entity_kept [OF one Cons.prems(2)]
  have same: "reg\<lparr>rg_entries := (rg_entries reg)[n := e]\<rparr> = reg" using kept by simp
  have placed: "placed (an_source anon) (rg_entries reg ! n)" if "registry_placed (an_source anon) reg"
    using that Cons.prems(3) by (auto simp: registry_placed_def)
  show ?case
  proof (cases ok1)
    case True
    then have "entities_loop env ns anon1 reg = (ok, anon', reg')" using Cons.prems(1) one same by simp
    from Cons.IH [OF this] show ?thesis using kept placed Cons.prems(3) by auto
  next
    case False
    then show ?thesis using Cons.prems(1) one same kept placed by simp
  qed
qed simp

end
