(* ===== verification/Anonymizer_Replacing.thy ===== *)
theory Anonymizer_Replacing
  imports Anonymizer_Laws
begin

text \<open>
  The replacing of values in a range of the table: which places are written to, what they hold afterwards, and
  that no occurrence of a value is left as it is.
\<close>

section \<open>Occurrences which are replaced\<close>

text \<open>The positions a scan replaces a value at.\<close>

fun scan_positions :: "byte list \<Rightarrow> byte list \<Rightarrow> nat \<Rightarrow> nat list \<Rightarrow> nat list" where
  "scan_positions source data skip [] = []"
| "scan_positions source data (Suc skip) (pos # ps) = scan_positions source data skip ps"
| "scan_positions source data 0 (pos # ps) =
    (if take (length data) (drop pos source) \<noteq> data then scan_positions source data 0 ps
     else pos # scan_positions source data (length data - 1) ps)"

text \<open>Values written one after the other, each at a position.\<close>

definition patch_all :: "(nat \<times> dmi_anonymize_value) list \<Rightarrow> byte list \<Rightarrow> byte list" where
  "patch_all jobs table = foldl (\<lambda>t (pos, v). patch t pos (vl_replacement v)) table jobs"

lemma patch_all_Nil [simp]: "patch_all [] table = table"
  by (simp add: patch_all_def)

lemma patch_all_append: "patch_all (js @ ks) table = patch_all ks (patch_all js table)"
  by (simp add: patch_all_def)

lemma patch_all_Cons: "patch_all ((pos, v) # js) table = patch_all js (patch table pos (vl_replacement v))"
  by (simp add: patch_all_def)

lemma replace_scan_jobs:
  "replace_scan source v skip ps table = patch_all (map (\<lambda>pos. (pos, v)) (scan_positions source (vl_data v) skip ps)) table"
  by (induction source v skip ps table rule: replace_scan.induct) (simp_all add: patch_all_Cons)

definition value_positions :: "byte list \<Rightarrow> nat \<Rightarrow> nat \<Rightarrow> dmi_anonymize_value \<Rightarrow> nat list" where
  "value_positions source start end' v =
    (if \<not> vl_propagate v \<or> end' - start < length (vl_data v) then []
     else scan_positions source (vl_data v) 0 [start..<end' + 1 - length (vl_data v)])"

definition value_jobs :: "byte list \<Rightarrow> nat \<Rightarrow> nat \<Rightarrow> nat \<Rightarrow> dmi_anonymize_value \<Rightarrow> (nat \<times> dmi_anonymize_value) list" where
  "value_jobs source start end' longest v =
    (if length (vl_data v) = longest then map (\<lambda>pos. (pos, v)) (value_positions source start end' v) else [])"

lemma replace_value_jobs: "replace_value source start end' longest table v = patch_all (value_jobs source start end' longest v) table"
  by (auto simp: replace_value_def value_jobs_def value_positions_def replace_scan_jobs)

lemma fold_jobs:
  "foldl (replace_value source start end' longest) table vs = patch_all (concat (map (value_jobs source start end' longest) vs)) table"
  by (induction vs arbitrary: table) (simp_all add: replace_value_jobs patch_all_append)

section \<open>The lengths which are looked for\<close>

lemma longest_fold:
  fixes vs :: "dmi_anonymize_value list"
  shows "l \<le> foldl (\<lambda>longest v. if length (vl_data v) < previous \<and> length (vl_data v) > longest then length (vl_data v) else longest) l vs \<and>
    (\<forall>v\<in>set vs. length (vl_data v) < previous \<longrightarrow> length (vl_data v) \<le>
      foldl (\<lambda>longest v. if length (vl_data v) < previous \<and> length (vl_data v) > longest then length (vl_data v) else longest) l vs)"
proof (induction vs arbitrary: l)
  case (Cons w ws)
  define F where "F = foldl (\<lambda>longest (v :: dmi_anonymize_value). if length (vl_data v) < previous \<and> length (vl_data v) > longest then length (vl_data v) else longest)"
  define k where "k = (if length (vl_data w) < previous \<and> length (vl_data w) > l then length (vl_data w) else l)"
  have step: "F l (w # ws) = F k ws" by (simp add: F_def k_def)
  have rest: "k \<le> F k ws \<and> (\<forall>v\<in>set ws. length (vl_data v) < previous \<longrightarrow> length (vl_data v) \<le> F k ws)"
    using Cons.IH [of k] by (simp add: F_def)
  have "l \<le> k" "length (vl_data w) < previous \<longrightarrow> length (vl_data w) \<le> k" by (auto simp: k_def)
  then have "l \<le> F k ws \<and> (\<forall>v\<in>set (w # ws). length (vl_data v) < previous \<longrightarrow> length (vl_data v) \<le> F k ws)"
    using rest by auto
  then show ?case unfolding step [symmetric] unfolding F_def .
qed simp

lemma longest_below_greatest: "v \<in> set vs \<Longrightarrow> length (vl_data v) < previous \<Longrightarrow> length (vl_data v) \<le> longest_below previous vs"
  unfolding longest_below_def by (rule longest_fold [THEN conjunct2, rule_format])

text \<open>The values a range is searched for.\<close>

definition searched :: "dmi_anonymize_value list \<Rightarrow> nat \<Rightarrow> nat \<Rightarrow> dmi_anonymize_value \<Rightarrow> bool" where
  "searched vs minimum previous v \<longleftrightarrow> v \<in> set vs \<and> vl_data v \<noteq> [] \<and> minimum \<le> length (vl_data v) \<and> length (vl_data v) < previous"

text \<open>Shorter values are written later.\<close>

definition shorter_later :: "nat \<times> dmi_anonymize_value \<Rightarrow> nat \<times> dmi_anonymize_value \<Rightarrow> bool" where
  "shorter_later job job' \<longleftrightarrow> length (vl_data (snd job')) \<le> length (vl_data (snd job))"

lemma sorted_jobs_now:
  "(\<forall>job\<in>set js. length (vl_data (snd job)) = n) \<Longrightarrow> sorted_wrt shorter_later js"
  by (induction js) (auto simp: shorter_later_def)

lemma replace_loop_jobs:
  "\<exists>jobs. replace_loop source vs start end' minimum previous table = patch_all jobs table \<and>
    set jobs = {(pos, v) | pos v. searched vs minimum previous v \<and> pos \<in> set (value_positions source start end' v)} \<and>
    sorted_wrt shorter_later jobs"
proof (induction source vs start end' minimum previous table rule: replace_loop.induct)
  case (1 source vs start end' minimum previous table)
  define longest where "longest = longest_below previous vs"
  show ?case
  proof (cases "longest = 0 \<or> longest < minimum")
    case True
    have "\<not> searched vs minimum previous v" for v
      using longest_below_greatest [of v vs previous] True by (auto simp: searched_def longest_def)
    then show ?thesis using True by (auto simp: replace_loop.simps [of source vs] Let_def longest_def intro!: exI [of _ "[]"])
  next
    case False
    let ?table = "foldl (replace_value source start end' longest) table vs"
    obtain jobs where jobs: "replace_loop source vs start end' minimum longest ?table = patch_all jobs ?table"
      "set jobs = {(pos, v) | pos v. searched vs minimum longest v \<and> pos \<in> set (value_positions source start end' v)}"
      "sorted_wrt shorter_later jobs"
      using 1 [of longest] False by (auto simp: longest_def)
    let ?now = "concat (map (value_jobs source start end' longest) vs)"
    have "replace_loop source vs start end' minimum previous table = patch_all (?now @ jobs) table"
      using False jobs(1) unfolding replace_loop.simps [of source vs start end' minimum previous table] patch_all_append
      by (simp add: Let_def fold_jobs longest_def [symmetric])
    moreover have "set ?now = {(pos, v) | pos v. v \<in> set vs \<and> length (vl_data v) = longest \<and> pos \<in> set (value_positions source start end' v)}"
      by (auto simp: value_jobs_def split: if_splits)
    moreover have "searched vs minimum previous v \<longleftrightarrow> (v \<in> set vs \<and> length (vl_data v) = longest) \<or> searched vs minimum longest v" for v
      using longest_below_greatest [of v vs previous] longest_below_less [of previous vs] False
      by (auto simp: searched_def longest_def)
    moreover have "sorted_wrt shorter_later (?now @ jobs)"
    proof -
      have now: "\<forall>job\<in>set ?now. length (vl_data (snd job)) = longest" by (auto simp: value_jobs_def split: if_splits)
      then have "\<forall>job\<in>set ?now. \<forall>job'\<in>set jobs. shorter_later job job'"
        using jobs(2) by (auto simp: shorter_later_def searched_def)
      then show ?thesis using sorted_jobs_now [OF now] jobs(3) by (simp add: sorted_wrt_append)
    qed
    ultimately show ?thesis using jobs(2) by (intro exI [of _ "?now @ jobs"]) auto
  qed
qed

section \<open>What the copy holds afterwards\<close>

text \<open>A byte a value is written over, and a byte no value is.\<close>

definition covers :: "nat \<times> dmi_anonymize_value \<Rightarrow> nat \<Rightarrow> bool" where
  "covers job k \<longleftrightarrow> fst job \<le> k \<and> k < fst job + length (vl_replacement (snd job))"

definition within :: "nat \<Rightarrow> nat \<times> dmi_anonymize_value \<Rightarrow> bool" where
  "within n job \<longleftrightarrow> fst job + length (vl_replacement (snd job)) \<le> n"

lemma length_patch_all: "list_all (within (length table)) jobs \<Longrightarrow> length (patch_all jobs table) = length table"
proof (induction jobs arbitrary: table)
  case (Cons job jobs)
  obtain pos v where job: "job = (pos, v)" by (cases job)
  have "pos + length (vl_replacement v) \<le> length table" using Cons.prems by (simp add: within_def job)
  then have len: "length (patch table pos (vl_replacement v)) = length table" by (rule length_patch)
  then show ?case using Cons.IH [of "patch table pos (vl_replacement v)"] Cons.prems by (simp add: job patch_all_Cons)
qed simp

lemma patch_all_nth:
  assumes "list_all (within (length table)) jobs" and "k < length table" and "sorted_wrt shorter_later jobs"
  shows "if \<exists>job\<in>set jobs. covers job k
    then \<exists>job\<in>set jobs. covers job k \<and> patch_all jobs table ! k = vl_replacement (snd job) ! (k - fst job) \<and>
      (\<forall>job'\<in>set jobs. covers job' k \<longrightarrow> shorter_later job' job)
    else patch_all jobs table ! k = table ! k"
  using assms
proof (induction jobs rule: rev_induct)
  case (snoc job jobs)
  obtain pos v where job: "job = (pos, v)" by (cases job)
  let ?t = "patch_all jobs table"
  have len: "length ?t = length table" using snoc.prems(1) by (intro length_patch_all) simp
  have fits: "pos + length (vl_replacement v) \<le> length ?t" using snoc.prems(1) len by (simp add: within_def job)
  have now: "patch_all (jobs @ [job]) table = patch ?t pos (vl_replacement v)" by (simp add: patch_all_append patch_all_Cons job)
  have nth: "patch_all (jobs @ [job]) table ! k = (if covers job k then vl_replacement v ! (k - pos) else ?t ! k)"
    unfolding now using nth_patch [OF fits, of k] snoc.prems(2) len by (auto simp: covers_def job)
  have later: "\<forall>job'\<in>set jobs. shorter_later job' job" using snoc.prems(3) by (simp add: sorted_wrt_append)
  have self: "shorter_later job job" by (simp add: shorter_later_def)
  show ?case
  proof (cases "covers job k")
    case True
    have "patch_all (jobs @ [job]) table ! k = vl_replacement (snd job) ! (k - fst job)" using nth True by (simp add: job)
    moreover have "\<forall>job'\<in>set (jobs @ [job]). covers job' k \<longrightarrow> shorter_later job' job" using later self by auto
    ultimately show ?thesis using True by (auto intro!: bexI [of _ job])
  next
    case False
    then have same: "patch_all (jobs @ [job]) table ! k = ?t ! k" using nth by simp
    have IH: "if \<exists>job\<in>set jobs. covers job k
      then \<exists>job\<in>set jobs. covers job k \<and> ?t ! k = vl_replacement (snd job) ! (k - fst job) \<and>
        (\<forall>job'\<in>set jobs. covers job' k \<longrightarrow> shorter_later job' job)
      else ?t ! k = table ! k" using snoc.IH snoc.prems by (simp add: sorted_wrt_append)
    show ?thesis unfolding same using IH False by auto
  qed
qed simp

section \<open>Every occurrence is hit\<close>

definition occurs_at :: "byte list \<Rightarrow> byte list \<Rightarrow> nat \<Rightarrow> bool" where
  "occurs_at source data pos \<longleftrightarrow> take (length data) (drop pos source) = data"

lemma scan_positions_sound: "pos \<in> set (scan_positions source data skip ps) \<Longrightarrow> pos \<in> set ps \<and> occurs_at source data pos"
  by (induction source data skip ps rule: scan_positions.induct) (auto simp: occurs_at_def split: if_splits)

lemma scan_positions_hit:
  assumes "data \<noteq> []" and "ps = [a..<b]" and "a + skip \<le> p" and "p < b" and "occurs_at source data p"
  shows "\<exists>q\<in>set (scan_positions source data skip ps). q \<le> p \<and> p < q + length data"
  using assms
proof (induction source data skip ps arbitrary: a rule: scan_positions.induct)
  case (1 source data skip)
  then have "length [a..<b] = 0" by (metis list.size(3))
  then have "b \<le> a" by (simp only: length_upt diff_is_0_eq)
  then show ?case using 1(3,4) by linarith
next
  case (2 source data skip pos ps)
  have "pos = a" "ps = [Suc a..<b]" using 2(3) by (cases "a < b"; simp add: upt_conv_Cons)+
  then show ?case using 2(1) [of "Suc a"] 2(2,4-6) by simp
next
  case (3 source data pos ps)
  have a: "pos = a" "ps = [Suc a..<b]" using 3(4) by (cases "a < b"; simp add: upt_conv_Cons)+
  show ?case
  proof (cases "take (length data) (drop pos source) \<noteq> data")
    case True
    then have "p \<noteq> a" using 3(7) a(1) by (auto simp: occurs_at_def)
    then show ?thesis using 3(1) [OF True 3(3) a(2)] 3(5-7) True by simp
  next
    case False
    show ?thesis
    proof (cases "p < a + length data")
      case True
      then show ?thesis using False 3(5) a(1) by auto
    next
      case later: False
      then have "Suc a + (length data - 1) \<le> p" using 3(3) by (cases data) simp_all
      then show ?thesis using 3(2) [OF False 3(3) a(2)] 3(6,7) False by auto
    qed
  qed
qed

text \<open>
  The places of a range values are written at: the propagated values which are long enough, where the source
  has them.
\<close>

definition replaced_at :: "byte list \<Rightarrow> dmi_anonymize_value list \<Rightarrow> nat \<Rightarrow> nat \<Rightarrow> nat \<Rightarrow> nat \<Rightarrow> dmi_anonymize_value \<Rightarrow> bool" where
  "replaced_at source vs start end' minimum pos v \<longleftrightarrow>
     searched vs minimum (unat SIZE_MAX) v \<and> pos \<in> set (value_positions source start end' v)"

lemma value_positions_sound:
  assumes "pos \<in> set (value_positions source start end' v)" and "vl_data v \<noteq> []"
  shows "vl_propagate v \<and> start \<le> pos \<and> pos + length (vl_data v) \<le> end' \<and> occurs_at source (vl_data v) pos"
proof -
  have v: "vl_propagate v" "length (vl_data v) \<le> end' - start"
    "pos \<in> set (scan_positions source (vl_data v) 0 [start..<end' + 1 - length (vl_data v)])"
    using assms(1) by (auto simp: value_positions_def split: if_splits)
  then show ?thesis using scan_positions_sound [OF v(3)] assms(2) by auto
qed

lemma value_positions_hit:
  assumes "vl_propagate v" and "vl_data v \<noteq> []" and "start \<le> p" and "p + length (vl_data v) \<le> end'" and "occurs_at source (vl_data v) p"
  shows "\<exists>q\<in>set (value_positions source start end' v). q \<le> p \<and> p < q + length (vl_data v)"
proof -
  have "\<exists>q\<in>set (scan_positions source (vl_data v) 0 [start..<end' + 1 - length (vl_data v)]). q \<le> p \<and> p < q + length (vl_data v)"
    using assms by (intro scan_positions_hit [where a = start and b = "end' + 1 - length (vl_data v)"]) simp_all
  then show ?thesis using assms by (simp add: value_positions_def)
qed

text \<open>
  A range of the table after it has been searched: a byte no value has been written over is as it was, and
  any other one is of the replacement of the shortest of the values written there.
\<close>

lemma replace_loop_bytes:
  assumes ok: "list_all value_ok vs" and range: "end' \<le> length table"
    and result: "result = replace_loop source vs start end' minimum (unat SIZE_MAX) table"
  shows "length result = length table"
    and "k < length table \<Longrightarrow> if \<exists>pos v. replaced_at source vs start end' minimum pos v \<and> pos \<le> k \<and> k < pos + length (vl_data v)
      then \<exists>pos v. replaced_at source vs start end' minimum pos v \<and> pos \<le> k \<and> k < pos + length (vl_data v) \<and>
        result ! k = vl_replacement v ! (k - pos) \<and>
        (\<forall>pos' v'. replaced_at source vs start end' minimum pos' v' \<and> pos' \<le> k \<and> k < pos' + length (vl_data v') \<longrightarrow>
          length (vl_data v) \<le> length (vl_data v'))
      else result ! k = table ! k"
proof -
  obtain jobs where jobs: "result = patch_all jobs table"
    "set jobs = {(pos, v) | pos v. replaced_at source vs start end' minimum pos v}" "sorted_wrt shorter_later jobs"
    using replace_loop_jobs [of source vs start end' minimum "unat SIZE_MAX" table] unfolding result replaced_at_def by blast
  have len: "length (vl_replacement v) = length (vl_data v)" if "replaced_at source vs start end' minimum pos v" for pos v
    using that ok by (auto simp: replaced_at_def searched_def list_all_iff value_ok_def)
  have within: "list_all (within (length table)) jobs"
  proof (unfold list_all_iff, intro ballI)
    fix job assume "job \<in> set jobs"
    then obtain pos v where job: "job = (pos, v)" and at: "replaced_at source vs start end' minimum pos v" using jobs(2) by auto
    then have "pos + length (vl_data v) \<le> end'" using value_positions_sound [of pos source start end' v] by (auto simp: replaced_at_def searched_def)
    then show "within (length table) job" using range len [OF at] by (simp add: within_def job)
  qed
  show "length result = length table" using length_patch_all [OF within] jobs(1) by simp
  have covers: "covers (pos, v) k \<longleftrightarrow> pos \<le> k \<and> k < pos + length (vl_data v)" if "(pos, v) \<in> set jobs" for pos v
    using that len [of pos v] jobs(2) by (auto simp: covers_def)
  have any: "(\<exists>job\<in>set jobs. covers job k) \<longleftrightarrow>
      (\<exists>pos v. replaced_at source vs start end' minimum pos v \<and> pos \<le> k \<and> k < pos + length (vl_data v))"
    using covers jobs(2) by fastforce
  assume k: "k < length table"
  note nth = patch_all_nth [OF within k jobs(3), folded jobs(1)]
  show "if \<exists>pos v. replaced_at source vs start end' minimum pos v \<and> pos \<le> k \<and> k < pos + length (vl_data v)
      then \<exists>pos v. replaced_at source vs start end' minimum pos v \<and> pos \<le> k \<and> k < pos + length (vl_data v) \<and>
        result ! k = vl_replacement v ! (k - pos) \<and>
        (\<forall>pos' v'. replaced_at source vs start end' minimum pos' v' \<and> pos' \<le> k \<and> k < pos' + length (vl_data v') \<longrightarrow>
          length (vl_data v) \<le> length (vl_data v'))
      else result ! k = table ! k"
  proof (cases "\<exists>job\<in>set jobs. covers job k")
    case True
    then obtain pos v where at: "(pos, v) \<in> set jobs" "covers (pos, v) k" "result ! k = vl_replacement v ! (k - pos)"
      "\<forall>job'\<in>set jobs. covers job' k \<longrightarrow> shorter_later job' (pos, v)" using nth by auto
    have "length (vl_data v) \<le> length (vl_data v')"
      if "replaced_at source vs start end' minimum pos' v'" "pos' \<le> k" "k < pos' + length (vl_data v')" for pos' v'
    proof -
      have "(pos', v') \<in> set jobs" using that(1) jobs(2) by simp
      then show ?thesis using at(4) covers that(2,3) by (auto simp: shorter_later_def)
    qed
    then show ?thesis using at(1-3) covers jobs(2) True any by auto
  next
    case False
    then have "\<not> (\<exists>pos v. replaced_at source vs start end' minimum pos v \<and> pos \<le> k \<and> k < pos + length (vl_data v))" using any by blast
    then show ?thesis using nth False by (simp only: if_False)
  qed
qed

section \<open>A range of the copy\<close>

text \<open>A byte of the copy is disguised if it is of the replacement of a value the source has there.\<close>

definition disguised :: "dmi_anonymizer \<Rightarrow> nat \<Rightarrow> bool" where
  "disguised anon k \<longleftrightarrow> (\<exists>v\<in>set (an_values anon). \<exists>pos. vl_propagate v \<and> occurs_at (buf_memory (an_source anon)) (vl_data v) pos \<and>
     pos \<le> k \<and> k < pos + length (vl_data v) \<and> buf_memory (an_table anon) ! k = vl_replacement v ! (k - pos))"

text \<open>A pass over the copy: what is disguised stays so, and nothing else changes.\<close>

definition disguising :: "dmi_anonymizer \<Rightarrow> dmi_anonymizer \<Rightarrow> bool" where
  "disguising anon anon' \<longleftrightarrow> anon_frame anon anon' \<and> an_values anon' = an_values anon \<and> an_queue anon' = an_queue anon \<and>
     buf_length (an_table anon') = buf_length (an_table anon) \<and>
     length (buf_memory (an_table anon')) = length (buf_memory (an_table anon)) \<and>
     (\<forall>k < length (buf_memory (an_table anon)). (disguised anon k \<longrightarrow> disguised anon' k) \<and>
       (\<not> disguised anon' k \<longrightarrow> buf_memory (an_table anon') ! k = buf_memory (an_table anon) ! k))"

lemma disguising_refl [simp]: "disguising anon anon"
  by (simp add: disguising_def)

lemma disguising_trans: "disguising a b \<Longrightarrow> disguising b c \<Longrightarrow> disguising a c"
  by (auto simp: disguising_def intro: anon_frame_trans)

lemma replace_memory:
  assumes ok: "anon_ok anon" and range: "end' \<le> unat (buf_length (an_table anon))"
  shows "buf_memory (an_table (dmi_anonymize_replace anon start end' minimum)) =
    replace_loop (buf_memory (an_source anon)) (an_values anon) start end' minimum (unat SIZE_MAX) (buf_memory (an_table anon))"
proof (cases "buf_data (an_table anon)")
  case None
  then have "buf_memory (an_table anon) = []" by (simp add: buf_memory_def)
  moreover have "end' \<le> length (buf_memory (an_table anon))" using ok range by (auto simp: anon_ok_def buffer_wf_def word_le_nat_alt)
  ultimately have "length (replace_loop (buf_memory (an_source anon)) (an_values anon) start end' minimum (unat SIZE_MAX) []) = 0"
    using replace_loop_bytes(1) [of "an_values anon" end' "[]"] ok by (auto simp: anon_ok_def values_ok_def)
  then show ?thesis using None by (simp add: dmi_anonymize_replace_def buf_memory_def)
next
  case (Some d)
  then show ?thesis by (simp add: dmi_anonymize_replace_def buf_memory_def)
qed

lemma replace_disguises:
  assumes ok: "anon_ok anon" and range: "end' \<le> unat (buf_length (an_table anon))"
  shows "disguising anon (dmi_anonymize_replace anon start end' minimum)"
    and "\<And>v p. v \<in> set (an_values anon) \<Longrightarrow> vl_propagate v \<Longrightarrow> minimum \<le> length (vl_data v) \<Longrightarrow> 0 < p \<Longrightarrow> start \<le> p \<Longrightarrow>
      p + length (vl_data v) \<le> end' \<Longrightarrow> occurs_at (buf_memory (an_source anon)) (vl_data v) p \<Longrightarrow>
      disguised (dmi_anonymize_replace anon start end' minimum) p"
proof -
  let ?anon' = "dmi_anonymize_replace anon start end' minimum"
  let ?S = "buf_memory (an_source anon)" and ?T = "buf_memory (an_table anon)" and ?T' = "buf_memory (an_table ?anon')"
  note mem = replace_memory [OF ok range, of start minimum]
  have values': "list_all value_ok (an_values anon)" using ok by (simp add: anon_ok_def values_ok_def)
  have wf: "buffer_wf (an_table anon)" using ok by (simp add: anon_ok_def)
  have "end' \<le> length ?T" using range wf by (auto simp: buffer_wf_def word_le_nat_alt)
  note bytes = replace_loop_bytes [OF values' this mem]
  have same: "an_source ?anon' = an_source anon" "an_entity ?anon' = an_entity anon" "an_key ?anon' = an_key anon"
    "an_values ?anon' = an_values anon" "buf_length (an_table ?anon') = buf_length (an_table anon)"
    "buf_capacity (an_table ?anon') = buf_capacity (an_table anon)" "an_queue ?anon' = an_queue anon"
    by (simp_all add: dmi_anonymize_replace_def)
  have "buffer_wf (an_table ?anon')" using wf same bytes(1) by (simp add: buffer_wf_def)
  then have frame: "anon_frame anon ?anon'" using same by (simp add: anon_frame_def anon_ok_def)
  have hit: "disguised ?anon' k"
    if at: "replaced_at ?S (an_values anon) start end' minimum pos v" "pos \<le> k" "k < pos + length (vl_data v)" and k: "k < length ?T" for pos v k
  proof -
    obtain pos' v' where at': "replaced_at ?S (an_values anon) start end' minimum pos' v'" "pos' \<le> k" "k < pos' + length (vl_data v')"
      "?T' ! k = vl_replacement v' ! (k - pos')" using bytes(2) [OF k] at by metis
    then show ?thesis using same value_positions_sound [of pos' ?S start end' v']
      by (auto simp: disguised_def replaced_at_def searched_def)
  qed
  show "disguising anon ?anon'"
    unfolding disguising_def
  proof (intro conjI allI impI)
    fix k assume k: "k < length ?T"
    show "?T' ! k = ?T ! k" if "\<not> disguised ?anon' k" using bytes(2) [OF k] hit [OF _ _ _ k] that by metis
    show "disguised ?anon' k" if d: "disguised anon k"
    proof (cases "\<exists>pos v. replaced_at ?S (an_values anon) start end' minimum pos v \<and> pos \<le> k \<and> k < pos + length (vl_data v)")
      case True
      then show ?thesis using hit [OF _ _ _ k] by blast
    next
      case False
      then have "?T' ! k = ?T ! k" using bytes(2) [OF k] by (simp only: if_False)
      then show ?thesis using d same by (simp add: disguised_def)
    qed
  qed (use frame same bytes(1) in auto)
  show "disguised ?anon' p"
    if v: "v \<in> set (an_values anon)" "vl_propagate v" "minimum \<le> length (vl_data v)" and p: "0 < p" "start \<le> p" "p + length (vl_data v) \<le> end'"
      and occurs: "occurs_at ?S (vl_data v) p" for v p
  proof -
    have data: "vl_data v \<noteq> []" using values' v(1) by (auto simp: list_all_iff value_ok_def)
    obtain q where q: "q \<in> set (value_positions ?S start end' v)" "q \<le> p" "p < q + length (vl_data v)"
      using value_positions_hit [OF v(2) data p(2,3) occurs] by blast
    have "unat (buf_length (an_table anon)) \<le> unat SIZE_MAX" using unat_le_size_max by simp
    then have "length (vl_data v) < unat SIZE_MAX" using p range by linarith
    then have "replaced_at ?S (an_values anon) start end' minimum q v" using v q data by (simp add: replaced_at_def searched_def)
    moreover have "p < length ?T" using p data \<open>end' \<le> length ?T\<close> by (cases "vl_data v") auto
    ultimately show ?thesis using hit q by blast
  qed
qed

section \<open>The strings and the formatted area of a structure\<close>

lemma disguising_ok: "disguising anon anon' \<Longrightarrow> anon_ok anon \<Longrightarrow> anon_ok anon'"
  by (simp add: disguising_def anon_frame_def)

lemma disguising_same:
  assumes "disguising anon anon'"
  shows "an_source anon' = an_source anon" and "an_values anon' = an_values anon" and "buf_length (an_table anon') = buf_length (an_table anon)"
  using assms by (simp_all add: disguising_def anon_frame_def)

lemma disguising_keeps:
  assumes "disguising anon anon'" and "disguised anon p" and "p < length (buf_memory (an_table anon))"
  shows "disguised anon' p"
  using assms by (simp add: disguising_def)

text \<open>A sequence of steps each of which disguises what it is about.\<close>

lemma disguising_fold:
  assumes step: "\<And>anon x. anon_ok anon \<Longrightarrow> an_source anon = source \<Longrightarrow> x \<in> set xs \<Longrightarrow> disguising anon (f anon x)"
    and ok: "anon_ok anon" and source: "an_source anon = source"
  shows "disguising anon (foldl f anon xs)"
    and "\<And>x p. x \<in> set xs \<Longrightarrow> p < length (buf_memory (an_table anon)) \<Longrightarrow>
      (\<And>anon'. disguising anon anon' \<Longrightarrow> anon_ok anon' \<Longrightarrow> disguised (f anon' x) p) \<Longrightarrow> disguised (foldl f anon xs) p"
proof -
  have both: "disguising anon (foldl f anon xs) \<and>
      (\<forall>x\<in>set xs. \<forall>p < length (buf_memory (an_table anon)).
        (\<forall>anon'. disguising anon anon' \<longrightarrow> anon_ok anon' \<longrightarrow> disguised (f anon' x) p) \<longrightarrow> disguised (foldl f anon xs) p)"
    using step ok source
  proof (induction xs arbitrary: anon)
    case (Cons y ys)
    have one: "disguising anon (f anon y)" using Cons.prems by simp
    have ok1: "anon_ok (f anon y)" using disguising_ok [OF one Cons.prems(2)] .
    have source1: "an_source (f anon y) = source" using disguising_same(1) [OF one] Cons.prems(3) by simp
    have len: "length (buf_memory (an_table (f anon y))) = length (buf_memory (an_table anon))" using one by (simp add: disguising_def)
    have IH: "disguising (f anon y) (foldl f (f anon y) ys) \<and>
      (\<forall>x\<in>set ys. \<forall>p < length (buf_memory (an_table (f anon y))).
        (\<forall>anon'. disguising (f anon y) anon' \<longrightarrow> anon_ok anon' \<longrightarrow> disguised (f anon' x) p) \<longrightarrow> disguised (foldl f (f anon y) ys) p)"
      using Cons.IH [of "f anon y"] Cons.prems(1) ok1 source1 by simp
    show ?case
    proof (intro conjI ballI allI impI)
      show "disguising anon (foldl f anon (y # ys))" using disguising_trans [OF one] IH by simp
      fix x p
      assume x: "x \<in> set (y # ys)" and p: "p < length (buf_memory (an_table anon))"
        and hit: "\<forall>anon'. disguising anon anon' \<longrightarrow> anon_ok anon' \<longrightarrow> disguised (f anon' x) p"
      show "disguised (foldl f anon (y # ys)) p"
      proof (cases "x \<in> set ys")
        case True
        have "\<forall>anon'. disguising (f anon y) anon' \<longrightarrow> anon_ok anon' \<longrightarrow> disguised (f anon' x) p"
          using hit disguising_trans [OF one] by blast
        then show ?thesis using IH True p len by simp
      next
        case False
        then have "disguised (f anon y) p" using hit x Cons.prems(2) by simp
        then show ?thesis using disguising_keeps [of "f anon y"] IH p len by simp
      qed
    qed
  qed simp
  show "disguising anon (foldl f anon xs)" using both by simp
  show "disguised (foldl f anon xs) p" if "x \<in> set xs" "p < length (buf_memory (an_table anon))"
    "\<And>anon'. disguising anon anon' \<Longrightarrow> anon_ok anon' \<Longrightarrow> disguised (f anon' x) p" for x p
    using both that by blast
qed

lemma anon_ok_lengths: "anon_ok anon \<Longrightarrow> unat (buf_length (an_table anon)) = unat (buf_length (an_source anon)) \<and>
    unat (buf_length (an_table anon)) \<le> length (buf_memory (an_table anon))"
  by (auto simp: anon_ok_def buffer_wf_def word_le_nat_alt)

lemma placed_within:
  assumes "placed source e" and "buf_id (en_buffer e) = buf_id source" and "buffer_wf source"
  shows "en_offset e + en_total_length e \<le> unat (buf_length source)" and "entity_in_buffer e" and "en_buffer e = source"
  using assms buffer_length_bytes [of source] by (auto simp: placed_def entity_in_buffer_def)

text \<open>Where a value of a structure is looked for: within one of its strings, or in its formatted area past the header.\<close>

definition in_string :: "'i dmi_entity \<Rightarrow> nat \<Rightarrow> nat \<Rightarrow> bool" where
  "in_string e p n \<longleftrightarrow> DMI_ANONYMIZE_SUBSTRING_MIN \<le> n \<and>
     (\<exists>i<en_string_count e. raw_offset e i \<le> p \<and> p + n \<le> raw_offset e i + length (se_raw (en_strings e ! i)))"

definition in_body :: "'i dmi_entity \<Rightarrow> nat \<Rightarrow> nat \<Rightarrow> bool" where
  "in_body e p n \<longleftrightarrow> DMI_ANONYMIZE_PATTERN_MIN \<le> n \<and> en_offset e + 4 \<le> p \<and> p + n \<le> en_offset e + en_body_length e"

lemma strings_disguise:
  assumes ok: "anon_ok anon" and e: "placed (an_source anon) e"
  shows "disguising anon (dmi_anonymize_strings anon e)"
    and "\<And>v p. buf_id (en_buffer e) = buf_id (an_source anon) \<Longrightarrow> v \<in> set (an_values anon) \<Longrightarrow> vl_propagate v \<Longrightarrow>
      in_string e p (length (vl_data v)) \<Longrightarrow> occurs_at (buf_memory (an_source anon)) (vl_data v) p \<Longrightarrow> disguised (dmi_anonymize_strings anon e) p"
proof -
  let ?f = "\<lambda>anon i. dmi_anonymize_replace anon (raw_offset e i) (raw_offset e i + length (se_raw (en_strings e ! i))) DMI_ANONYMIZE_SUBSTRING_MIN"
  have range: "raw_offset e i + length (se_raw (en_strings e ! i)) \<le> unat (buf_length (an_table anon'))"
    if "anon_ok anon'" "an_source anon' = an_source anon" "i \<in> set [0..<en_string_count e]" "buf_id (en_buffer e) = buf_id (an_source anon)" for anon' i
  proof -
    have wf: "buffer_wf (an_source anon)" using ok by (simp add: anon_ok_def)
    show ?thesis using placed_within [OF e that(4) wf] entity_string_place(1) [of e i] that anon_ok_lengths [OF that(1)] by simp
  qed
  show "disguising anon (dmi_anonymize_strings anon e)"
    using disguising_fold(1) [of "an_source anon" "[0..<en_string_count e]" ?f anon] replace_disguises(1) range ok
    by (auto simp: dmi_anonymize_strings_def)
  show "disguised (dmi_anonymize_strings anon e) p"
    if same: "buf_id (en_buffer e) = buf_id (an_source anon)" and v: "v \<in> set (an_values anon)" "vl_propagate v"
      and p: "in_string e p (length (vl_data v))" and occurs: "occurs_at (buf_memory (an_source anon)) (vl_data v) p" for v p
  proof -
    obtain i where i: "i < en_string_count e" "raw_offset e i \<le> p" "p + length (vl_data v) \<le> raw_offset e i + length (se_raw (en_strings e ! i))"
      and n: "DMI_ANONYMIZE_SUBSTRING_MIN \<le> length (vl_data v)" using p by (auto simp: in_string_def)
    have wf: "buffer_wf (an_source anon)" using ok by (simp add: anon_ok_def)
    have body: "4 \<le> en_body_length e" using placed_within(2) [OF e same wf] by (simp add: entity_in_buffer_def)
    have pos: "0 < p" using i(2) body by (simp add: raw_offset_def)
    have "disguised (foldl ?f anon [0..<en_string_count e]) p"
    proof (rule disguising_fold(2) [of "an_source anon", where x = i])
      show "p < length (buf_memory (an_table anon))"
        using i range [OF ok refl _ same, of i] anon_ok_lengths [OF ok] n by (simp add: DMI_ANONYMIZE_SUBSTRING_MIN_def)
      fix anon' assume d: "disguising anon anon'" "anon_ok anon'"
      show "disguised (?f anon' i) p"
        using d v n pos i occurs same range [OF d(2)] disguising_same [OF d(1)] by (intro replace_disguises(2) [where v = v]) auto
    next
      fix anon' j assume "anon_ok anon'" "an_source anon' = an_source anon" "j \<in> set [0..<en_string_count e]"
      then show "disguising anon' (?f anon' j)" using range same by (intro replace_disguises(1)) auto
    qed (use i ok in auto)
    then show ?thesis using same by (simp add: dmi_anonymize_strings_def)
  qed
qed

lemma body_disguises:
  assumes ok: "anon_ok anon" and e: "placed (an_source anon) e"
  shows "disguising anon (dmi_anonymize_body anon e)"
    and "\<And>v p. buf_id (en_buffer e) = buf_id (an_source anon) \<Longrightarrow> v \<in> set (an_values anon) \<Longrightarrow> vl_propagate v \<Longrightarrow>
      in_body e p (length (vl_data v)) \<Longrightarrow> occurs_at (buf_memory (an_source anon)) (vl_data v) p \<Longrightarrow> disguised (dmi_anonymize_body anon e) p"
proof -
  let ?anon' = "dmi_anonymize_replace anon (en_offset e + 4) (en_offset e + en_body_length e) DMI_ANONYMIZE_PATTERN_MIN"
  show "disguising anon (dmi_anonymize_body anon e)"
    using replace_disguises(1) [OF ok, of "en_offset e + en_body_length e"] by (simp add: dmi_anonymize_body_def Let_def)
  show "disguised (dmi_anonymize_body anon e) p"
    if same: "buf_id (en_buffer e) = buf_id (an_source anon)" and v: "v \<in> set (an_values anon)" "vl_propagate v"
      and p: "in_body e p (length (vl_data v))" and occurs: "occurs_at (buf_memory (an_source anon)) (vl_data v) p" for v p
  proof -
    have wf: "buffer_wf (an_source anon)" using ok by (simp add: anon_ok_def)
    have "en_offset e + en_total_length e \<le> unat (buf_length (an_source anon))" "en_body_length e \<le> en_total_length e"
      using placed_within [OF e same wf] by (auto simp: entity_in_buffer_def)
    then have range: "en_offset e + en_body_length e \<le> unat (buf_length (an_table anon))" using anon_ok_lengths [OF ok] by linarith
    have at: "en_offset e + 4 \<le> p" "p + length (vl_data v) \<le> en_offset e + en_body_length e" "6 \<le> length (vl_data v)"
      using p by (simp_all add: in_body_def DMI_ANONYMIZE_PATTERN_MIN_def)
    then have "\<not> en_body_length e \<le> 4" by linarith
    moreover have "disguised ?anon' p"
      using at v occurs by (intro replace_disguises(2) [OF ok range, where v = v]) (simp_all add: DMI_ANONYMIZE_PATTERN_MIN_def)
    ultimately show ?thesis using same range by (simp add: dmi_anonymize_body_def Let_def)
  qed
qed

lemma elsewhere_disguises:
  assumes ok: "anon_ok anon" and reg: "registry_placed (an_source anon) reg"
  shows "disguising anon (dmi_anonymize_elsewhere env anon reg)"
    and "\<And>e v p. e \<in> set (rg_entries reg) \<Longrightarrow> buf_id (en_buffer e) = buf_id (an_source anon) \<Longrightarrow> v \<in> set (an_values anon) \<Longrightarrow>
      vl_propagate v \<Longrightarrow> in_string e p (length (vl_data v)) \<or> in_body e p (length (vl_data v)) \<Longrightarrow>
      occurs_at (buf_memory (an_source anon)) (vl_data v) p \<Longrightarrow> disguised (dmi_anonymize_elsewhere env anon reg) p"
proof -
  let ?f = "\<lambda>anon n. dmi_anonymize_body (dmi_anonymize_strings anon (rg_entries reg ! n)) (rg_entries reg ! n)"
  have ns: "visit_all (ae_module env) reg = [0..<length (rg_entries reg)]" by (rule visit_all_upt)
  have placed: "placed (an_source anon) (rg_entries reg ! n)" if "n < length (rg_entries reg)" for n
    using reg that by (simp add: registry_placed_def)
  have step: "disguising anon' (?f anon' n)" if "anon_ok anon'" "an_source anon' = an_source anon" "n < length (rg_entries reg)" for anon' n
  proof -
    have one: "disguising anon' (dmi_anonymize_strings anon' (rg_entries reg ! n))" using strings_disguise(1) [OF that(1), of "rg_entries reg ! n"] placed that by simp
    have "disguising (dmi_anonymize_strings anon' (rg_entries reg ! n)) (?f anon' n)"
      using body_disguises(1) [OF disguising_ok [OF one that(1)], of "rg_entries reg ! n"] disguising_same(1) [OF one] placed that by simp
    with one show ?thesis by (rule disguising_trans)
  qed
  show "disguising anon (dmi_anonymize_elsewhere env anon reg)"
    unfolding dmi_anonymize_elsewhere_def ns using step ok by (intro disguising_fold(1) [of "an_source anon"]) auto
  show "disguised (dmi_anonymize_elsewhere env anon reg) p"
    if e: "e \<in> set (rg_entries reg)" "buf_id (en_buffer e) = buf_id (an_source anon)" and v: "v \<in> set (an_values anon)" "vl_propagate v"
      and p: "in_string e p (length (vl_data v)) \<or> in_body e p (length (vl_data v))"
      and occurs: "occurs_at (buf_memory (an_source anon)) (vl_data v) p" for e v p
  proof -
    obtain n where n: "n < length (rg_entries reg)" "e = rg_entries reg ! n" using e(1) by (auto simp: in_set_conv_nth)
    have wf: "buffer_wf (an_source anon)" using ok by (simp add: anon_ok_def)
    note within = placed_within [OF placed [OF n(1), folded n(2)] e(2) wf]
    have "p < en_offset e + en_total_length e"
      using p entity_string_place(1) [OF within(2)] within(2)
      by (auto simp: in_string_def in_body_def entity_in_buffer_def DMI_ANONYMIZE_SUBSTRING_MIN_def DMI_ANONYMIZE_PATTERN_MIN_def) fastforce
    then have mem: "p < length (buf_memory (an_table anon))" using within(1) anon_ok_lengths [OF ok] by linarith
    show ?thesis unfolding dmi_anonymize_elsewhere_def ns
    proof (rule disguising_fold(2) [of "an_source anon", where x = n])
      fix anon' assume d: "disguising anon anon'" "anon_ok anon'"
      note same = disguising_same [OF d(1)]
      have one: "disguising anon' (dmi_anonymize_strings anon' e)" using strings_disguise(1) [OF d(2), of e] placed n same by simp
      note same1 = disguising_same [OF one]
      have ok1: "anon_ok (dmi_anonymize_strings anon' e)" using disguising_ok [OF one d(2)] .
      have placed': "placed (an_source (dmi_anonymize_strings anon' e)) e" "placed (an_source anon') e" using placed n same same1 by simp_all
      have two: "disguising (dmi_anonymize_strings anon' e) (dmi_anonymize_body (dmi_anonymize_strings anon' e) e)"
        by (rule body_disguises(1) [OF ok1 placed'(1)])
      have mem': "p < length (buf_memory (an_table (dmi_anonymize_strings anon' e)))" using mem d(1) one by (simp add: disguising_def)
      have "disguised (dmi_anonymize_body (dmi_anonymize_strings anon' e) e) p"
      proof (cases "in_string e p (length (vl_data v))")
        case True
        then have "disguised (dmi_anonymize_strings anon' e) p"
          using e v occurs same by (intro strings_disguise(2) [OF d(2) placed'(2), where v = v]) auto
        then show ?thesis using disguising_keeps [OF two] mem' by blast
      next
        case False
        then show ?thesis using p e v occurs same same1 by (intro body_disguises(2) [OF ok1 placed'(1), where v = v]) auto
      qed
      then show "disguised (?f anon' n) p" using n(2) by simp
    qed (use step ok n mem in auto)
  qed
qed

end
