(* ===== verification/Attribute_Reads.thy ===== *)
theory Attribute_Reads
  imports Attribute_Visits
begin

text \<open>
  What a walk over the attributes reads of the structure: selectors, the pointers to the elements of arrays and
  their counters. A client which changes other cells of the structure only, e.g. the values it is given, is
  given the values it would have been given had it changed nothing.
\<close>

definition member_reads :: "dmi_attribute \<Rightarrow> dmi_attribute option \<Rightarrow> nat \<Rightarrow> nat set" where
  "member_reads attr resolved info =
    (if at_type attr = DMI_ATTRIBUTE_TYPE_VARIANT
     then {info + mr_offset (at_value attr)..<info + mr_offset (at_value attr) + mr_size (at_value attr)} else {}) \<union>
    (case resolved of
       Some r \<Rightarrow>
         if dmi_attribute_is_array r \<and> at_count r = 0
         then {info + mr_offset (at_value r)..<info + mr_offset (at_value r) + 8} \<union>
              {info + mr_offset (at_counter r)..<info + mr_offset (at_counter r) + mr_size (at_counter r)}
         else {}
     | None \<Rightarrow> {})"

definition value_reads :: "(nat \<Rightarrow> nat set) \<Rightarrow> dmi_attribute_node \<Rightarrow> nat set" where
  "value_reads nested node = (if at_type (nd_attr node) = DMI_ATTRIBUTE_TYPE_STRUCT then nested (nd_value node) else {})"

definition item_node :: "dmi_memory \<Rightarrow> dmi_attribute_node \<Rightarrow> nat \<Rightarrow> dmi_attribute_node" where
  "item_node m node i = (array_node node m)\<lparr>nd_value := array_base node m + i * mr_size (at_value (nd_attr node)), nd_index := of_nat i\<rparr>"

definition nested_reads :: "dmi_memory \<Rightarrow> (nat \<Rightarrow> nat set) \<Rightarrow> dmi_attribute_node \<Rightarrow> nat set" where
  "nested_reads m nested node =
    (if dmi_attribute_is_array (nd_attr node)
     then (\<Union>i\<in>{0..<nd_count (array_node node m)}. value_reads nested (item_node m node i))
     else value_reads nested node)"

function structure_reads :: "dmi_memory \<Rightarrow> dmi_attribute list \<Rightarrow> nat \<Rightarrow> nat set" where
  "structure_reads m [] info = {}"
| "structure_reads m (attr # attrs) info =
    (if at_type attr = DMI_ATTRIBUTE_TYPE_NONE then {}
     else
       member_reads attr (dmi_attribute_resolve attr m info) info \<union>
       (case dmi_attribute_resolve attr m info of
          None \<Rightarrow> {}
        | Some resolved \<Rightarrow> nested_reads m (structure_reads m (attributes_of resolved)) (member_node attr resolved info))
       \<union> structure_reads m attrs info)"
  by pat_completeness auto
termination
proof (relation "measure (\<lambda>(m, attrs, info). size_list size attrs)", goal_cases)
  case (2 m attr attrs info resolved info')
  then have "size_list size (attributes_of resolved) < size attr"
    using size_resolved [of attr m info resolved] size_attributes_of [of resolved] by linarith
  then show ?case by simp
qed simp_all

declare structure_reads.simps [simp del]

section \<open>Reading the same\<close>

lemma agrees_bytes: "agrees F m m' \<Longrightarrow> {a..<a + n} \<subseteq> F \<Longrightarrow> mem_bytes m a n = mem_bytes m' a n"
  by (simp add: mem_bytes_def agrees_load)

lemma agrees_load_int: "agrees F m m' \<Longrightarrow> {a..<a + n} \<subseteq> F \<Longrightarrow> load_int other m a n = load_int other m' a n"
  using agrees_bytes [of F m m' a n] by (auto simp: load_int_def)

lemma agrees_load_uint: "agrees F m m' \<Longrightarrow> {a..<a + n} \<subseteq> F \<Longrightarrow> load_uint other m a n = load_uint other m' a n"
  using agrees_bytes [of F m m' a n] by (auto simp: load_uint_def)

lemma agrees_pointer:
  assumes agree: "agrees F m m'" and cells: "{a..<a + 8} \<subseteq> F"
  shows "load_pointer m a = load_pointer m' a"
proof -
  from assms have "mem_load m a 8 = mem_load m' a 8" by (rule agrees_load)
  moreover have "a \<in> F" using cells by auto
  then have "mm_cells m a = mm_cells m' a" using agree by (simp add: agrees_def)
  ultimately show ?thesis by (simp only: load_pointer_def)
qed

lemma agrees_resolve:
  assumes "agrees F m m'" and "member_reads attr r info \<subseteq> F"
  shows "dmi_attribute_resolve attr m info = dmi_attribute_resolve attr m' info"
proof (cases "at_type attr = DMI_ATTRIBUTE_TYPE_VARIANT")
  case True
  then have "{info + mr_offset (at_value attr)..<info + mr_offset (at_value attr) + mr_size (at_value attr)} \<subseteq> F"
    using assms(2) by (simp add: member_reads_def)
  then have "dmi_attribute_read_int m (info + mr_offset (at_value attr)) (mr_size (at_value attr)) =
      dmi_attribute_read_int m' (info + mr_offset (at_value attr)) (mr_size (at_value attr))"
    unfolding dmi_attribute_read_int_def by (rule agrees_load_int [OF assms(1)])
  then show ?thesis by (simp only: dmi_attribute_resolve_def)
qed (simp add: dmi_attribute_resolve_def)

lemma agrees_array:
  assumes "agrees F m m'" and "member_reads attr (Some r) info \<subseteq> F" and "dmi_attribute_is_array r"
  shows "array_node (member_node attr r info) m = array_node (member_node attr r info) m'"
    and "array_base (member_node attr r info) m = array_base (member_node attr r info) m'"
proof -
  have elements: "dmi_attribute_get_elements r m (info + mr_offset (at_value r)) = dmi_attribute_get_elements r m' (info + mr_offset (at_value r))"
    and count: "dmi_attribute_get_count r m info = dmi_attribute_get_count r m' info"
  proof -
    show "dmi_attribute_get_elements r m (info + mr_offset (at_value r)) = dmi_attribute_get_elements r m' (info + mr_offset (at_value r))"
      using assms agrees_pointer [OF assms(1), of "info + mr_offset (at_value r)"]
      by (auto simp: dmi_attribute_get_elements_def member_reads_def)
    show "dmi_attribute_get_count r m info = dmi_attribute_get_count r m' info"
      using assms agrees_load_uint [OF assms(1), of "info + mr_offset (at_counter r)" "mr_size (at_counter r)" 0]
      by (auto simp: dmi_attribute_get_count_def dmi_attribute_read_uint_def member_reads_def)
  qed
  show "array_node (member_node attr r info) m = array_node (member_node attr r info) m'"
    by (simp add: array_node_def member_node_def elements count split: option.split)
  show "array_base (member_node attr r info) m = array_base (member_node attr r info) m'"
    by (simp add: array_base_def member_node_def elements)
qed

section \<open>The walk of a client which changes values\<close>

definition value_visitor :: "'s dmi_attribute_leave_fn \<Rightarrow> 's dmi_attribute_visitor" where
  "value_visitor f =
    \<lparr>vs_member_start = None, vs_member_end = None, vs_struct_start = None, vs_struct_end = None, vs_array_start = None,
     vs_array_end = None, vs_item_start = None, vs_item_end = None, vs_value = Some f\<rparr>"

text \<open>
  Visiting the nodes \<open>ns\<close> one after the other from a memory which agrees with \<open>m\<close> on \<open>F\<close> is what the part of the walk
  \<open>w\<close> does, and the memory goes on agreeing.
\<close>

definition visits :: "'s dmi_attribute_leave_fn \<Rightarrow> nat set \<Rightarrow> dmi_memory \<Rightarrow> dmi_attribute_node list \<Rightarrow> ('s \<times> dmi_memory \<Rightarrow> bool \<times> 's \<times> dmi_memory) \<Rightarrow> bool" where
  "visits f F m ns w \<longleftrightarrow> (\<forall>s. agrees F m (snd s) \<longrightarrow> w s = visit_each f ns s \<and> agrees F m (snd (snd (w s))))"

lemma visits_Nil: "visits f F m [] (\<lambda>s. (True, s))"
  by (simp add: visits_def)

lemma visits_then:
  assumes "visits f F m ns w" and "visits f F m ks x"
  shows "visits f F m (ns @ ks) (\<lambda>s. case w s of (False, t) \<Rightarrow> (False, t) | (True, t) \<Rightarrow> x t)"
  unfolding visits_def
proof (intro allI impI)
  fix s :: "'a \<times> dmi_memory"
  assume s: "agrees F m (snd s)"
  obtain ok t where t: "w s = (ok, t)" by (cases "w s")
  have "w s = visit_each f ns s \<and> agrees F m (snd (snd (w s)))" using assms(1) s unfolding visits_def by blast
  then have one: "visit_each f ns s = (ok, t)" "agrees F m (snd t)" using t by simp_all
  then have two: "x t = visit_each f ks t \<and> agrees F m (snd (snd (x t)))" using assms(2) unfolding visits_def by blast
  show "(case w s of (False, t) \<Rightarrow> (False, t) | (True, t) \<Rightarrow> x t) = visit_each f (ns @ ks) s \<and>
      agrees F m (snd (snd (case w s of (False, t) \<Rightarrow> (False, t) | (True, t) \<Rightarrow> x t)))"
    using t one two by (cases ok) (auto simp: visit_each_append)
qed

lemma visits_one:
  assumes "\<And>s. agrees F m (snd s) \<Longrightarrow> agrees F m (snd (snd (f node s)))"
  shows "visits f F m [node] (f node)"
  using assms by (auto simp: visits_def split: prod.split bool.split)

lemma visits_value:
  assumes nested: "at_type (nd_attr node) = DMI_ATTRIBUTE_TYPE_STRUCT \<Longrightarrow> visits f F m (nodes (nd_value node)) (nested (nd_value node))"
    and one: "\<And>s. at_type (nd_attr node) \<noteq> DMI_ATTRIBUTE_TYPE_STRUCT \<Longrightarrow> agrees F m (snd s) \<Longrightarrow> agrees F m (snd (snd (f node s)))"
  shows "visits f F m (value_nodes nodes node) (dmi_attribute_walk_value (value_visitor f) nested node)"
proof (cases "at_type (nd_attr node) = DMI_ATTRIBUTE_TYPE_STRUCT")
  case True
  have "dmi_attribute_walk_value (value_visitor f) nested node = nested (nd_value node)"
    using True by (intro ext) (simp add: dmi_attribute_walk_value_def struct_around value_visitor_def around_nothing)
  then show ?thesis using nested [OF True] True by (simp add: value_nodes_def)
next
  case False
  have "dmi_attribute_walk_value (value_visitor f) nested node = f node"
    using False by (intro ext) (simp add: dmi_attribute_walk_value_def value_visitor_def dmi_attribute_leave_def)
  moreover have "visits f F m [node] (f node)" using one [OF False] by (intro visits_one)
  ultimately show ?thesis using False by (simp add: value_nodes_def)
qed

lemma visits_items:
  assumes items: "\<And>j. i \<le> j \<Longrightarrow> j < i + n \<Longrightarrow>
    visits f F m (value_nodes nodes (array\<lparr>nd_value := elements + j * mr_size (at_value (nd_attr array)), nd_index := of_nat j\<rparr>))
      (dmi_attribute_walk_value (value_visitor f) nested (array\<lparr>nd_value := elements + j * mr_size (at_value (nd_attr array)), nd_index := of_nat j\<rparr>))"
  shows "visits f F m (concat (map (\<lambda>j. value_nodes nodes (array\<lparr>nd_value := elements + j * mr_size (at_value (nd_attr array)), nd_index := of_nat j\<rparr>)) [i..<i + n]))
    (walk_items (value_visitor f) nested array elements i n)"
  using items
proof (induction n arbitrary: i)
  case 0
  then show ?case by (simp add: visits_def)
next
  case (Suc n)
  let ?item = "\<lambda>i. array\<lparr>nd_value := elements + i * mr_size (at_value (nd_attr array)), nd_index := of_nat i\<rparr>"
  define rest where "rest = concat (map (\<lambda>i. value_nodes nodes (?item i)) [i + 1..<i + 1 + n])"
  have "[i..<i + Suc n] = i # [i + 1..<i + 1 + n]" by (simp add: upt_conv_Cons del: upt_Suc)
  then have split: "concat (map (\<lambda>i. value_nodes nodes (?item i)) [i..<i + Suc n]) = value_nodes nodes (?item i) @ rest"
    by (simp only: rest_def list.map concat.simps)
  have later: "visits f F m rest (walk_items (value_visitor f) nested array elements (i + 1) n)"
    unfolding rest_def by (rule Suc.IH) (rule Suc.prems; simp)
  have none: "vs_item_start (value_visitor f) = None" "vs_item_end (value_visitor f) = None" by (simp_all add: value_visitor_def)
  have step: "walk_items (value_visitor f) nested array elements i (Suc n) =
      (\<lambda>s. case dmi_attribute_walk_value (value_visitor f) nested (?item i) s of
         (False, t) \<Rightarrow> (False, t) | (True, t) \<Rightarrow> walk_items (value_visitor f) nested array elements (i + 1) n t)"
    by (intro ext) (simp add: Let_def none dmi_attribute_enter_def dmi_attribute_leave_def split: prod.split bool.split)
  show ?case unfolding split step by (rule visits_then [OF Suc.prems later]) simp_all
qed

lemma visits_cong:
  assumes "visits f F m ns w'" and "\<And>s. agrees F m (snd s) \<Longrightarrow> w s = w' s"
  shows "visits f F m ns w"
  unfolding visits_def
proof (intro allI impI)
  fix s :: "'a \<times> dmi_memory" assume "agrees F m (snd s)"
  then show "w s = visit_each f ns s \<and> agrees F m (snd (snd (w s)))"
    using assms(1) assms(2) [of s] unfolding visits_def by metis
qed

lemma array_node_attr [simp]: "nd_attr (array_node node m) = nd_attr node"
  by (simp add: array_node_def)

lemma member_node_attr [simp]: "nd_attr (member_node attr r info) = r"
  by (simp add: member_node_def)

lemma visits_member:
  assumes reads: "member_reads attr (Some r) info \<subseteq> F" "nested_reads m reads' (member_node attr r info) \<subseteq> F"
    and nested: "\<And>a. reads' a \<subseteq> F \<Longrightarrow> (\<And>node s. node \<in> set (nodes a) \<Longrightarrow> agrees F m (snd s) \<Longrightarrow> agrees F m (snd (snd (f node s)))) \<Longrightarrow>
      visits f F m (nodes a) (nested a)"
    and one: "\<And>node s. node \<in> set (member_nodes m nodes (member_node attr r info)) \<Longrightarrow> agrees F m (snd s) \<Longrightarrow> agrees F m (snd (snd (f node s)))"
  shows "visits f F m (member_nodes m nodes (member_node attr r info)) (walk_member (value_visitor f) nested attr r info)"
proof -
  let ?node = "member_node attr r info"
  have none: "vs_member_start (value_visitor f) = None" "vs_member_end (value_visitor f) = None"
    "vs_array_start (value_visitor f) = None" "vs_array_end (value_visitor f) = None" by (simp_all add: value_visitor_def)
  have value': "visits f F m (value_nodes nodes node) (dmi_attribute_walk_value (value_visitor f) nested node)"
    if within: "value_reads reads' node \<subseteq> F"
      and each: "\<And>n s. n \<in> set (value_nodes nodes node) \<Longrightarrow> agrees F m (snd s) \<Longrightarrow> agrees F m (snd (snd (f n s)))" for node
  proof (rule visits_value)
    show "visits f F m (nodes (nd_value node)) (nested (nd_value node))" if "at_type (nd_attr node) = DMI_ATTRIBUTE_TYPE_STRUCT"
      using within that each by (intro nested) (simp_all add: value_reads_def value_nodes_def)
    show "agrees F m (snd (snd (f node s)))" if "at_type (nd_attr node) \<noteq> DMI_ATTRIBUTE_TYPE_STRUCT" "agrees F m (snd s)" for s
      using that each by (simp add: value_nodes_def)
  qed
  show ?thesis
  proof (cases "dmi_attribute_is_array r")
    case False
    then have "walk_member (value_visitor f) nested attr r info = dmi_attribute_walk_value (value_visitor f) nested ?node"
      unfolding member_around none by (intro ext) (simp add: around_nothing)
    moreover have "visits f F m (value_nodes nodes ?node) (dmi_attribute_walk_value (value_visitor f) nested ?node)"
      using False reads(2) one by (intro value') (simp_all add: nested_reads_def member_nodes_def)
    ultimately show ?thesis using False by (simp add: member_nodes_def)
  next
    case True
    let ?a = "array_node ?node m" and ?b = "array_base ?node m"
    let ?item = "\<lambda>j. ?a\<lparr>nd_value := ?b + j * mr_size (at_value (nd_attr ?a)), nd_index := of_nat j\<rparr>"
    have nodes: "member_nodes m nodes ?node = concat (map (\<lambda>j. value_nodes nodes (?item j)) [0..<0 + nd_count ?a])"
      using True by (simp add: member_nodes_def)
    have items: "visits f F m (concat (map (\<lambda>j. value_nodes nodes (?item j)) [0..<0 + nd_count ?a])) (walk_items (value_visitor f) nested ?a ?b 0 (nd_count ?a))"
    proof (rule visits_items)
      fix j assume j: "0 \<le> j" "j < 0 + nd_count ?a"
      show "visits f F m (value_nodes nodes (?item j)) (dmi_attribute_walk_value (value_visitor f) nested (?item j))"
      proof (rule value')
        show "value_reads reads' (?item j) \<subseteq> F" using reads(2) True j by (simp add: nested_reads_def item_node_def UN_subset_iff)
        show "agrees F m (snd (snd (f n s)))" if "n \<in> set (value_nodes nodes (?item j))" "agrees F m (snd s)" for n s
          using that j by (intro one) (auto simp: nodes)
      qed
    qed
    show ?thesis unfolding nodes
    proof (rule visits_cong [OF items])
      fix s :: "'a \<times> dmi_memory" assume "agrees F m (snd s)"
      note same = agrees_array [OF this reads(1) True]
      show "walk_member (value_visitor f) nested attr r info s = walk_items (value_visitor f) nested ?a ?b 0 (nd_count ?a) s"
        unfolding member_around none by (simp add: around_nothing True array_around none same [symmetric])
    qed
  qed
qed

lemma visits_walk:
  assumes "structure_reads m attrs info \<subseteq> F"
    and "\<And>node s. node \<in> set (structure_nodes m attrs info) \<Longrightarrow> agrees F m (snd s) \<Longrightarrow> agrees F m (snd (snd (f node s)))"
  shows "visits f F m (structure_nodes m attrs info) (dmi_attributes_walk (value_visitor f) attrs info)"
  using assms
proof (induction "size_list size attrs" arbitrary: attrs info rule: less_induct)
  case less
  show ?case
  proof (cases attrs)
    case Nil
    have "dmi_attributes_walk (value_visitor f) attrs info = (\<lambda>s. (True, s))" by (intro ext) (simp add: Nil dmi_attributes_walk.simps)
    then show ?thesis by (simp add: Nil structure_nodes.simps visits_Nil)
  next
    case (Cons attr rest)
    show ?thesis
    proof (cases "at_type attr = DMI_ATTRIBUTE_TYPE_NONE")
      case True
      have "dmi_attributes_walk (value_visitor f) attrs info = (\<lambda>s. (True, s))" by (intro ext) (simp add: Cons True dmi_attributes_walk.simps)
      then show ?thesis by (simp add: Cons True structure_nodes.simps visits_Nil)
    next
      case False
      have rest: "visits f F m (structure_nodes m rest info) (dmi_attributes_walk (value_visitor f) rest info)"
      proof (rule less.hyps)
        show "size_list size rest < size_list size attrs" using Cons by simp
        show "structure_reads m rest info \<subseteq> F" using less.prems(1) Cons False by (simp add: structure_reads.simps)
        show "agrees F m (snd (snd (f node s)))" if "node \<in> set (structure_nodes m rest info)" "agrees F m (snd s)" for node s
          using that Cons False by (intro less.prems(2)) (simp_all add: structure_nodes.simps)
      qed
      have reads: "member_reads attr (dmi_attribute_resolve attr m info) info \<subseteq> F" using less.prems(1) Cons False by (simp add: structure_reads.simps)
      note same = agrees_resolve [OF _ reads]
      show ?thesis
      proof (cases "dmi_attribute_resolve attr m info")
        case None
        have nodes: "structure_nodes m attrs info = structure_nodes m rest info" using Cons False None by (simp add: structure_nodes.simps)
        show ?thesis unfolding nodes
        proof (rule visits_cong [OF rest])
          fix s :: "'a \<times> dmi_memory" assume "agrees F m (snd s)"
          from same [OF this] show "dmi_attributes_walk (value_visitor f) attrs info s = dmi_attributes_walk (value_visitor f) rest info s"
            unfolding Cons dmi_attributes_walk.simps using False None by simp
        qed
      next
        case (Some r)
        let ?walk = "walk_member (value_visitor f) (dmi_attributes_walk (value_visitor f) (attributes_of r)) attr r info"
        have nodes: "structure_nodes m attrs info =
            member_nodes m (structure_nodes m (attributes_of r)) (member_node attr r info) @ structure_nodes m rest info"
          using Cons False Some by (simp add: structure_nodes.simps)
        have member: "visits f F m (member_nodes m (structure_nodes m (attributes_of r)) (member_node attr r info)) ?walk"
        proof (rule visits_member [where reads' = "structure_reads m (attributes_of r)"])
          show "member_reads attr (Some r) info \<subseteq> F" using reads Some by simp
          show "nested_reads m (structure_reads m (attributes_of r)) (member_node attr r info) \<subseteq> F"
            using less.prems(1) Cons False Some by (simp add: structure_reads.simps)
          show "agrees F m (snd (snd (f node s)))"
            if "node \<in> set (member_nodes m (structure_nodes m (attributes_of r)) (member_node attr r info))" "agrees F m (snd s)" for node s
            using that by (intro less.prems(2)) (simp_all add: nodes)
          have "size_list size (attributes_of r) < size_list size attrs" using size_attributes_of [of r] size_resolved [OF Some] Cons by simp
          then show "visits f F m (structure_nodes m (attributes_of r) a) (dmi_attributes_walk (value_visitor f) (attributes_of r) a)"
            if "structure_reads m (attributes_of r) a \<subseteq> F"
              "\<And>node s. node \<in> set (structure_nodes m (attributes_of r) a) \<Longrightarrow> agrees F m (snd s) \<Longrightarrow> agrees F m (snd (snd (f node s)))" for a
            using that by (rule less.hyps)
        qed
        show ?thesis unfolding nodes
        proof (rule visits_cong [OF visits_then [OF member rest]])
          fix s :: "'a \<times> dmi_memory" assume "agrees F m (snd s)"
          from same [OF this] Some have r: "dmi_attribute_resolve attr (snd s) info = Some r" by simp
          show "dmi_attributes_walk (value_visitor f) attrs info s =
              (case ?walk s of (False, t) \<Rightarrow> (False, t) | (True, t) \<Rightarrow> dmi_attributes_walk (value_visitor f) rest info t)"
            unfolding Cons dmi_attributes_walk.simps r using False by simp
        qed
      qed
    qed
  qed
qed

text \<open>
  What a client establishes of each value it is given, and keeps from then on, it has established of all of them
  when the walk has succeeded.
\<close>

lemma visit_each_reaches:
  assumes "visit_each f ns s = (True, t)" and "I s"
    and calm: "\<And>node s. node \<in> set ns \<Longrightarrow> I s \<Longrightarrow> I (snd (f node s))"
    and hit: "\<And>node s t. node \<in> set ns \<Longrightarrow> I s \<Longrightarrow> f node s = (True, t) \<Longrightarrow> Q node t"
    and stays: "\<And>q node s. Q q s \<Longrightarrow> Q q (snd (f node s))"
  shows "\<forall>node\<in>set ns. Q node t"
proof -
  have keep: "Q q s \<Longrightarrow> visit_each f ns s = (True, t) \<Longrightarrow> Q q t" for q ns s t
  proof (induction ns arbitrary: s)
    case (Cons n ns)
    then show ?case using stays [of q s n] by (auto split: prod.splits bool.splits)
  qed simp
  show ?thesis using assms(1) assms(2) calm hit
  proof (induction ns arbitrary: s)
    case (Cons n ns)
    obtain u where u: "f n s = (True, u)" "visit_each f ns u = (True, t)" using Cons.prems(1) by (auto split: prod.splits bool.splits)
    have u': "I u" using Cons.prems(2) Cons.prems(3) [of n s] u by simp
    have "Q n t" using keep [OF Cons.prems(4) [of n s u] u(2)] Cons.prems(2) u(1) by simp
    moreover have "\<forall>node\<in>set ns. Q node t" using Cons.IH [OF u(2) u'] Cons.prems(3,4) by simp
    ultimately show ?case by simp
  qed simp
qed

end
