(* ===== verification/Anonymizer_Privacy.thy ===== *)
theory Anonymizer_Privacy
  imports Anonymizer_Replacing Attribute_Reads
begin

text \<open>
  The values an anonymization collects: every private string which looks like an identifier and every private
  data in the table becomes one of them, and stays so, and every one of them has a replacement made with the
  key, or written by the encoder in place of the value.
\<close>

section \<open>Collected values\<close>

definition known :: "dmi_anonymize_value list \<Rightarrow> byte list \<Rightarrow> bool" where
  "known vs data \<longleftrightarrow> (\<exists>v\<in>set vs. vl_data v = data \<and> vl_propagate v)"

definition genuine :: "uint64_t \<times> uint64_t \<Rightarrow> dmi_anonymize_value \<Rightarrow> bool" where
  "genuine key v \<longleftrightarrow> vl_replacement v = dmi_anonymize_text key (vl_data v) \<or>
     (\<exists>keep\<in>{0, 3}. vl_replacement v = dmi_anonymize_bytes key (vl_data v) keep) \<or>
     vl_replacement v \<noteq> vl_data v"

definition grows :: "dmi_anonymizer \<Rightarrow> dmi_anonymizer \<Rightarrow> bool" where
  "grows anon anon' \<longleftrightarrow> an_key anon' = an_key anon \<and>
     (\<forall>data. known (an_values anon) data \<longrightarrow> known (an_values anon') data) \<and>
     (list_all (genuine (an_key anon)) (an_values anon) \<longrightarrow> list_all (genuine (an_key anon)) (an_values anon'))"

lemma grows_refl [simp]: "grows anon anon"
  by (simp add: grows_def)

lemma grows_trans: "grows a b \<Longrightarrow> grows b c \<Longrightarrow> grows a c"
  by (simp add: grows_def)

lemma grows_same: "an_values anon' = an_values anon \<Longrightarrow> an_key anon' = an_key anon \<Longrightarrow> grows anon anon'"
  by (simp add: grows_def)

lemma same_work_grows: "same_work anon anon' \<Longrightarrow> grows anon anon'"
  by (simp add: same_work_def grows_same)

lemma merge_known:
  assumes "merge_value data propagate vs = Some ws"
  shows "known vs t \<Longrightarrow> known ws t" and "propagate \<Longrightarrow> known ws data" and "list_all (genuine key) vs \<Longrightarrow> list_all (genuine key) ws"
proof -
  have all: "(known vs t \<longrightarrow> known ws t) \<and> (propagate \<longrightarrow> known ws data) \<and> (list_all (genuine key) vs \<longrightarrow> list_all (genuine key) ws)"
    using assms
  proof (induction data propagate vs arbitrary: ws rule: merge_value.induct)
    case (2 data propagate v vs)
    show ?case
    proof (cases "vl_data v = data")
      case True
      then show ?thesis using 2(2) by (auto simp: known_def genuine_def)
    next
      case False
      then obtain us where us: "merge_value data propagate vs = Some us" "ws = v # us" using 2(2) by auto
      have "(known vs t \<longrightarrow> known us t) \<and> (propagate \<longrightarrow> known us data) \<and> (list_all (genuine key) vs \<longrightarrow> list_all (genuine key) us)"
        using 2(1) False us(1) by auto
      then show ?thesis using us(2) by (auto simp: known_def)
    qed
  qed simp
  then show "known vs t \<Longrightarrow> known ws t" "propagate \<Longrightarrow> known ws data" "list_all (genuine key) vs \<Longrightarrow> list_all (genuine key) ws" by simp_all
qed

lemma add_grows:
  assumes run: "dmi_anonymize_add env anon data replacement propagate = (ok, anon')"
    and new: "genuine (an_key anon) \<lparr>vl_data = data, vl_replacement = replacement, vl_propagate = propagate\<rparr>"
  shows "grows anon anon'" and "ok \<Longrightarrow> propagate \<Longrightarrow> data \<noteq> [] \<Longrightarrow> \<not> dmi_anonymize_is_blank data \<Longrightarrow> known (an_values anon') data"
proof -
  have both: "grows anon anon' \<and> (ok \<and> propagate \<and> data \<noteq> [] \<and> \<not> dmi_anonymize_is_blank data \<longrightarrow> known (an_values anon') data)"
  proof (cases "data = [] \<or> dmi_anonymize_is_blank data")
    case True
    then show ?thesis using run by (auto simp: dmi_anonymize_add_def)
  next
    case False
    show ?thesis
    proof (cases "merge_value data propagate (an_values anon)")
      case (Some ws)
      then have "anon' = anon\<lparr>an_values := ws\<rparr>" using run False by (simp add: dmi_anonymize_add_def)
      then show ?thesis using merge_known [OF Some] by (simp add: grows_def)
    next
      case None
      let ?v = "\<lparr>vl_data = data, vl_replacement = replacement, vl_propagate = propagate\<rparr>"
      obtain ok1 anon1 where a: "anon_alloc env anon = (ok1, anon1)" by (cases "anon_alloc env anon")
      obtain ok2 anon2 where p: "push_value env anon1 ?v = (ok2, anon2)" by (cases "push_value env anon1 ?v")
      have one: "an_values anon1 = an_values anon" "an_key anon1 = an_key anon" using alloc_work [OF a] by (simp_all add: same_work_def)
      have two: "an_values anon2 = (if ok2 then an_values anon @ [?v] else an_values anon)" "an_key anon2 = an_key anon"
        using push_value_result [OF p] one by (auto simp: same_work_def)
      show ?thesis
      proof (cases ok1)
        case no: False
        then have "anon' = anon1" "\<not> ok" using run False None a by (simp_all add: dmi_anonymize_add_def)
        then show ?thesis using one by (simp add: grows_same)
      next
        case True
        then have "anon' = anon2" "ok = ok2" using run False None a p by (simp_all add: dmi_anonymize_add_def)
        then show ?thesis using two new by (auto simp: grows_def known_def)
      qed
    qed
  qed
  then show "grows anon anon'" by simp
  show "known (an_values anon') data" if "ok" "propagate" "data \<noteq> []" "\<not> dmi_anonymize_is_blank data" using both that by simp
qed

section \<open>Private values of a structure\<close>

text \<open>The bytes of a private value the walk is to collect, in the structure as it is before.\<close>

definition private_value :: "dmi_buffer \<Rightarrow> dmi_memory dmi_entity \<Rightarrow> dmi_memory \<Rightarrow> dmi_attribute_node \<Rightarrow> byte list option" where
  "private_value source e m node =
    (if \<not> has_flag (nd_attr node) DMI_ATTRIBUTE_FLAG_PRIVATE \<or> dmi_attribute_is_unspecified (nd_attr node) m (nd_value node) \<or>
        dmi_attribute_is_unknown (nd_attr node) m (nd_value node) then None
     else if at_type (nd_attr node) = DMI_ATTRIBUTE_TYPE_STRING
     then (case member_string_ref m (nd_value node) of
             None \<Rightarrow> None
           | Some ref \<Rightarrow>
               let text' = string_of_ref e ref
               in if dmi_string_is_placeholder (map char_of_byte text') \<or> text' = [] \<or> dmi_anonymize_is_blank text' \<or>
                     \<not> dmi_anonymize_is_identifier text' then None
                  else Some text')
     else if at_type (nd_attr node) = DMI_ATTRIBUTE_TYPE_BINARY
     then (case bn_data (load_binary m (nd_value node)) of
             Some (Pointer_data i p bs) \<Rightarrow>
               let binary = load_binary m (nd_value node);
                   data = binary_bytes binary
               in if data = [] \<or> bn_length binary = 0 \<or> dmi_anonymize_is_blank data \<or> i \<noteq> buf_id source \<or>
                     p + unat (bn_length binary) > unat (buf_length source) \<or> length data \<noteq> unat (bn_length binary) then None
                  else Some data
           | _ \<Rightarrow> None)
     else None)"

lemma member_string_grows:
  assumes run: "dmi_anonymize_member_string env anon ref = (ok, anon')"
  shows "grows anon anon'"
    and "\<And>r e. ok \<Longrightarrow> ref = Some r \<Longrightarrow> an_entity anon = Some e \<Longrightarrow> \<not> dmi_string_is_placeholder (map char_of_byte (string_of_ref e r)) \<Longrightarrow>
      string_of_ref e r \<noteq> [] \<Longrightarrow> \<not> dmi_anonymize_is_blank (string_of_ref e r) \<Longrightarrow> dmi_anonymize_is_identifier (string_of_ref e r) \<Longrightarrow>
      known (an_values anon') (string_of_ref e r)"
proof -
  have both: "grows anon anon' \<and> (\<forall>r e. ok \<and> ref = Some r \<and> an_entity anon = Some e \<and> \<not> dmi_string_is_placeholder (map char_of_byte (string_of_ref e r)) \<and>
      string_of_ref e r \<noteq> [] \<and> \<not> dmi_anonymize_is_blank (string_of_ref e r) \<and> dmi_anonymize_is_identifier (string_of_ref e r) \<longrightarrow>
      known (an_values anon') (string_of_ref e r))"
  proof (cases "ref = None \<or> an_entity anon = None")
    case True
    then show ?thesis using run by (auto simp: dmi_anonymize_member_string_def split: option.splits)
  next
    case False
    then obtain r e where re: "ref = Some r" "an_entity anon = Some e" by auto
    define t where "t = string_of_ref e r"
    show ?thesis
    proof (cases "dmi_string_is_placeholder (map char_of_byte t) \<or> t = [] \<or> dmi_anonymize_is_blank t")
      case True
      then have "anon' = anon" using run re by (auto simp: dmi_anonymize_member_string_def t_def [symmetric] Let_def split: if_splits)
      then show ?thesis using True re by (auto simp: t_def)
    next
      case go: False
      obtain ok1 anon1 where a: "anon_alloc env anon = (ok1, anon1)" by (cases "anon_alloc env anon")
      have one: "grows anon anon1" "an_key anon1 = an_key anon" using alloc_work [OF a] same_work_grows by (auto simp: same_work_def)
      show ?thesis
      proof (cases ok1)
        case False
        then have "anon' = anon1" "\<not> ok" using run re go by (simp_all add: dmi_anonymize_member_string_def t_def [symmetric] Let_def a)
        then show ?thesis using one by simp
      next
        case True
        define anon2 where "anon2 = dmi_anonymize_raw_string anon1 r t (dmi_anonymize_text (an_key anon1) t)"
        have same2: "an_values anon2 = an_values anon1" "an_key anon2 = an_key anon1"
          by (simp_all add: anon2_def dmi_anonymize_raw_string_def table_write_def split: option.split)
        have add: "dmi_anonymize_add env anon2 t (dmi_anonymize_text (an_key anon1) t) (dmi_anonymize_is_identifier t) = (ok, anon')"
          using run re go True by (simp add: dmi_anonymize_member_string_def t_def [symmetric] Let_def a anon2_def)
        have "genuine (an_key anon2) \<lparr>vl_data = t, vl_replacement = dmi_anonymize_text (an_key anon1) t, vl_propagate = dmi_anonymize_is_identifier t\<rparr>"
          by (simp add: genuine_def same2)
        note grown = add_grows [OF add this]
        have "grows anon anon'" using grows_trans [OF grows_trans [OF one(1) grows_same [OF same2]] grown(1)] .
        then show ?thesis using grown(2) re go by (auto simp: t_def)
      qed
    qed
  qed
  then show "grows anon anon'" by simp
  show "known (an_values anon') (string_of_ref e r)"
    if "ok" "ref = Some r" "an_entity anon = Some e" "\<not> dmi_string_is_placeholder (map char_of_byte (string_of_ref e r))"
      "string_of_ref e r \<noteq> []" "\<not> dmi_anonymize_is_blank (string_of_ref e r)" "dmi_anonymize_is_identifier (string_of_ref e r)" for r e
    using both that by blast
qed

lemma member_binary_grows:
  assumes run: "dmi_anonymize_member_binary env anon attr binary = (ok, anon')"
  shows "grows anon anon'"
    and "\<And>i p bs. ok \<Longrightarrow> bn_data binary = Some (Pointer_data i p bs) \<Longrightarrow> binary_bytes binary \<noteq> [] \<Longrightarrow> bn_length binary \<noteq> 0 \<Longrightarrow>
      \<not> dmi_anonymize_is_blank (binary_bytes binary) \<Longrightarrow> i = buf_id (an_source anon) \<Longrightarrow>
      p + unat (bn_length binary) \<le> unat (buf_length (an_source anon)) \<Longrightarrow> length (binary_bytes binary) = unat (bn_length binary) \<Longrightarrow>
      known (an_values anon') (binary_bytes binary)"
proof -
  define data where "data = binary_bytes binary"
  have both: "grows anon anon' \<and> (\<forall>i p bs. ok \<and> bn_data binary = Some (Pointer_data i p bs) \<and> data \<noteq> [] \<and> bn_length binary \<noteq> 0 \<and>
      \<not> dmi_anonymize_is_blank data \<and> i = buf_id (an_source anon) \<and> p + unat (bn_length binary) \<le> unat (buf_length (an_source anon)) \<and>
      length data = unat (bn_length binary) \<longrightarrow> known (an_values anon') data)"
  proof (cases "\<exists>i p bs. bn_data binary = Some (Pointer_data i p bs)")
    case False
    then have "anon' = anon" using run by (auto simp: dmi_anonymize_member_binary_def split: option.splits dmi_pointer.splits)
    then show ?thesis using False by auto
  next
    case True
    then obtain i p bs where b: "bn_data binary = Some (Pointer_data i p bs)" by blast
    show ?thesis
    proof (cases "bn_length binary = 0 \<or> dmi_anonymize_is_blank data \<or> i \<noteq> buf_id (an_source anon) \<or>
        p + unat (bn_length binary) > unat (buf_length (an_source anon))")
      case True
      then have "anon' = anon" using run b by (auto simp: dmi_anonymize_member_binary_def data_def [symmetric] Let_def split: if_splits)
      then show ?thesis using True b by auto
    next
      case False
      define keep where "keep = (if has_flag attr DMI_ATTRIBUTE_FLAG_MAC then 3 else 0 :: nat)"
      define kept where "kept = (if keep \<ge> unat (bn_length binary) then 0 else keep)"
      define replacement where "replacement = dmi_anonymize_bytes (an_key anon) data kept"
      define anon1 where "anon1 = table_write anon p replacement"
      have same: "an_values anon1 = an_values anon" "an_key anon1 = an_key anon" by (simp_all add: anon1_def table_write_def)
      have add: "dmi_anonymize_add env anon1 data replacement True = (ok, anon')"
        using run b False
        by (simp add: dmi_anonymize_member_binary_def data_def [symmetric] Let_def keep_def [symmetric] kept_def [symmetric] replacement_def [symmetric] anon1_def)
      show ?thesis
      proof (cases "data = []")
        case True
        then have "anon' = anon1" using add by (simp add: dmi_anonymize_add_def)
        then show ?thesis using True grows_same [OF same] by simp
      next
        case full: False
        have "kept \<in> {0, 3}" by (simp add: kept_def keep_def)
        then have new: "genuine (an_key anon1) \<lparr>vl_data = data, vl_replacement = replacement, vl_propagate = True\<rparr>"
          using full by (auto simp: genuine_def same replacement_def simp del: insert_iff)
        show ?thesis using grows_trans [OF grows_same [OF same] add_grows(1) [OF add new]] add_grows(2) [OF add new] full False by auto
      qed
    qed
  qed
  then show "grows anon anon'" by simp
  show "known (an_values anon') (binary_bytes binary)"
    if "ok" "bn_data binary = Some (Pointer_data i p bs)" "binary_bytes binary \<noteq> []" "bn_length binary \<noteq> 0"
      "\<not> dmi_anonymize_is_blank (binary_bytes binary)" "i = buf_id (an_source anon)"
      "p + unat (bn_length binary) \<le> unat (buf_length (an_source anon))" "length (binary_bytes binary) = unat (bn_length binary)" for i p bs
    using both that by (auto simp: data_def)
qed

section \<open>What a walk collects\<close>

lemma member_scalar_grows:
  assumes run: "dmi_anonymize_member_scalar env anon attr a changed m = (ok, t)"
  shows "grows anon (fst (fst t))" and "an_entity (fst (fst t)) = an_entity anon" and "an_source (fst (fst t)) = an_source anon"
    and "agrees (- {a..<a + mr_size (at_value attr)}) m (snd t)"
proof -
  let ?n = "mr_size (at_value attr)"
  have all: "grows anon (fst (fst t)) \<and> an_entity (fst (fst t)) = an_entity anon \<and> an_source (fst (fst t)) = an_source anon \<and>
      agrees (- {a..<a + ?n}) m (snd t)"
  proof (cases "?n = 0 \<or> ?n > DMI_ANONYMIZE_MEMBER_MAX \<or> dmi_anonymize_is_blank (mem_bytes m a ?n)")
    case True
    then have "t = ((anon, changed), m)" using run by (auto simp: dmi_anonymize_member_scalar_def Let_def split: if_splits)
    then show ?thesis by simp
  next
    case False
    obtain r anon1 where save: "dmi_anonymize_save env anon m a ?n = (r, anon1)" by (cases "dmi_anonymize_save env anon m a ?n")
    show ?thesis
    proof (cases r)
      case None
      then have "t = ((anon1, changed), m)" "same_work anon anon1"
        using run save False save_result [OF save] by (auto simp: dmi_anonymize_member_scalar_def Let_def)
      then show ?thesis using same_work_grows by (simp add: same_work_def)
    next
      case (Some saved)
      have saved: "saved = \<lparr>sv_ptr = a, sv_cells = mem_load m a ?n\<rparr>" and work: "same_work (anon\<lparr>an_saved := an_saved anon @ [saved]\<rparr>) anon1"
        using save_result [OF save] unfolding Some by auto
      let ?cs = "map Byte (scalar_replacement (an_key anon1) attr (sv_bytes saved))"
      have t: "t = ((anon1, True), mem_store m a ?cs)" using run save False Some by (simp add: dmi_anonymize_member_scalar_def Let_def)
      have "length ?cs = ?n" by (simp add: saved sv_bytes_def)
      then show ?thesis using work agrees_store [of a ?cs m] by (simp add: t same_work_def grows_def)
    qed
  qed
  then show "grows anon (fst (fst t))" "an_entity (fst (fst t)) = an_entity anon" "an_source (fst (fst t)) = an_source anon"
    "agrees (- {a..<a + ?n}) m (snd t)" by simp_all
qed

text \<open>The cells a visit may change, and the ones what it collects depends on.\<close>

definition is_scalar :: "dmi_attribute \<Rightarrow> bool" where
  "is_scalar attr \<longleftrightarrow> at_type attr = DMI_ATTRIBUTE_TYPE_INTEGER \<or> at_type attr = DMI_ATTRIBUTE_TYPE_UUID"

definition node_writes :: "dmi_attribute_node \<Rightarrow> nat set" where
  "node_writes node =
    (if has_flag (nd_attr node) DMI_ATTRIBUTE_FLAG_PRIVATE \<and> is_scalar (nd_attr node)
     then {nd_value node..<nd_value node + mr_size (at_value (nd_attr node))} else {})"

definition node_reads :: "dmi_attribute_node \<Rightarrow> nat set" where
  "node_reads node =
    (if has_flag (nd_attr node) DMI_ATTRIBUTE_FLAG_PRIVATE \<and> \<not> is_scalar (nd_attr node)
     then {nd_value node..<nd_value node + max 16 (mr_size (at_value (nd_attr node)))} else {})"

lemma visit_grows:
  assumes run: "dmi_anonymize_visit env node s = (ok, t)"
  shows "grows (fst (fst s)) (fst (fst t))" and "an_entity (fst (fst t)) = an_entity (fst (fst s))"
    and "an_source (fst (fst t)) = an_source (fst (fst s))" and "agrees (- node_writes node) (snd s) (snd t)"
proof -
  obtain anon c m where s: "s = ((anon, c), m)" by (metis prod_cases3 surj_pair)
  have "grows (fst (fst s)) (fst (fst t)) \<and> an_entity (fst (fst t)) = an_entity (fst (fst s)) \<and>
    an_source (fst (fst t)) = an_source (fst (fst s)) \<and> agrees (- node_writes node) (snd s) (snd t)"
  proof (cases "dmi_anonymize_visit env node s = (True, s)")
    case True
    then show ?thesis using run by simp
  next
    case False
    then have flagged: "has_flag (nd_attr node) DMI_ATTRIBUTE_FLAG_PRIVATE"
      and member: "dmi_anonymize_member env (nd_attr node) (nd_value node) s = (ok, t)"
      using run by (auto simp: dmi_anonymize_visit_def Let_def split: if_splits)
    obtain ok1 anon1 where str: "dmi_anonymize_member_string env anon (member_string_ref m (nd_value node)) = (ok1, anon1)"
      by (cases "dmi_anonymize_member_string env anon (member_string_ref m (nd_value node))")
    obtain ok2 anon2 where bin: "dmi_anonymize_member_binary env anon (nd_attr node) (load_binary m (nd_value node)) = (ok2, anon2)"
      by (cases "dmi_anonymize_member_binary env anon (nd_attr node) (load_binary m (nd_value node))")
    note one = member_string_grows(1) [OF str] member_string_frame [OF str]
    note two = member_binary_grows(1) [OF bin] member_binary_frame [OF bin]
    consider "at_type (nd_attr node) = DMI_ATTRIBUTE_TYPE_STRING" | "at_type (nd_attr node) = DMI_ATTRIBUTE_TYPE_BINARY"
      | "is_scalar (nd_attr node)" | "at_type (nd_attr node) \<noteq> DMI_ATTRIBUTE_TYPE_STRING" "at_type (nd_attr node) \<noteq> DMI_ATTRIBUTE_TYPE_BINARY"
        "\<not> is_scalar (nd_attr node)" by blast
    then show ?thesis
    proof cases
      case 1
      then have "t = ((anon1, c), m)" using member by (simp add: dmi_anonymize_member_def s str)
      then show ?thesis using one by (simp add: s anon_frame_def)
    next
      case 2
      then have "t = ((anon2, c), m)" using member by (simp add: dmi_anonymize_member_def s bin)
      then show ?thesis using two by (simp add: s anon_frame_def)
    next
      case 3
      then have "dmi_anonymize_member_scalar env anon (nd_attr node) (nd_value node) c m = (ok, t)"
        using member by (auto simp: dmi_anonymize_member_def s is_scalar_def)
      from member_scalar_grows [OF this] show ?thesis using 3 flagged by (simp add: s node_writes_def)
    next
      case 4
      then have "t = s" using member by (simp add: dmi_anonymize_member_def s is_scalar_def)
      then show ?thesis by simp
    qed
  qed
  then show "grows (fst (fst s)) (fst (fst t))" "an_entity (fst (fst t)) = an_entity (fst (fst s))"
    "an_source (fst (fst t)) = an_source (fst (fst s))" "agrees (- node_writes node) (snd s) (snd t)" by simp_all
qed

interpretation collecting: attribute_visiting "anonymize_visitor env" "\<lambda>s t. grows (fst (fst s)) (fst (fst t))" for env
proof unfold_locales
  fix s :: "(dmi_anonymizer \<times> bool) \<times> dmi_memory"
  show "grows (fst (fst s)) (fst (fst s))" by simp
next
  fix s t u :: "(dmi_anonymizer \<times> bool) \<times> dmi_memory"
  show "grows (fst (fst s)) (fst (fst t)) \<Longrightarrow> grows (fst (fst t)) (fst (fst u)) \<Longrightarrow> grows (fst (fst s)) (fst (fst u))" by (rule grows_trans)
next
  fix enter :: "(dmi_anonymizer \<times> bool) dmi_attribute_enter_fn" and node s
  assume "Some enter \<in> {vs_member_start (anonymize_visitor env), vs_struct_start (anonymize_visitor env),
      vs_array_start (anonymize_visitor env), vs_item_start (anonymize_visitor env)}"
  then show "grows (fst (fst s)) (fst (fst (snd (enter node s))))" by (simp add: anonymize_visitor_def)
next
  fix leave :: "(dmi_anonymizer \<times> bool) dmi_attribute_leave_fn" and node s
  assume "Some leave \<in> {vs_member_end (anonymize_visitor env), vs_struct_end (anonymize_visitor env),
      vs_array_end (anonymize_visitor env), vs_item_end (anonymize_visitor env), vs_value (anonymize_visitor env)}"
  then have "leave = dmi_anonymize_visit env" by (simp add: anonymize_visitor_def)
  then show "grows (fst (fst s)) (fst (fst (snd (leave node s))))" using visit_grows(1) [of env node s] by (metis prod.collapse)
qed

text \<open>What is collected of a node depends on the cells it reads only.\<close>

lemma agrees_unset:
  assumes "agrees F m m'" and "{a..<a + max 16 (mr_size (at_value attr))} \<subseteq> F"
  shows "dmi_attribute_is_unspecified attr m a = dmi_attribute_is_unspecified attr m' a"
    and "dmi_attribute_is_unknown attr m a = dmi_attribute_is_unknown attr m' a"
    and "load_pointer m a = load_pointer m' a" and "load_binary m a = load_binary m' a"
proof -
  have few: "{b..<b + n} \<subseteq> F" if "a \<le> b" "b + n \<le> a + max 16 (mr_size (at_value attr))" for b n
    using assms(2) that by auto
  have bytes: "mem_bytes m a n = mem_bytes m' a n" if "n \<le> max 16 (mr_size (at_value attr))" for n
    using that by (intro agrees_bytes [OF assms(1)] few) simp_all
  have cells: "mem_load m a (mr_size (at_value attr)) = mem_load m' a (mr_size (at_value attr))"
    by (intro agrees_load [OF assms(1)] few) simp_all
  show pointer: "load_pointer m a = load_pointer m' a" by (intro agrees_pointer [OF assms(1)] few) simp_all
  have "mem_load m (a + 8) 8 = mem_load m' (a + 8) 8" by (intro agrees_load [OF assms(1)] few) simp_all
  then show binary: "load_binary m a = load_binary m' a" by (simp add: load_binary_def pointer load_size_def)
  show "dmi_attribute_is_unspecified attr m a = dmi_attribute_is_unspecified attr m' a"
    by (simp add: dmi_attribute_is_unspecified_def holds_bytes_def bytes cells pointer binary is_null_pointer_def split: option.split)
  show "dmi_attribute_is_unknown attr m a = dmi_attribute_is_unknown attr m' a"
    by (simp add: dmi_attribute_is_unknown_def holds_bytes_def cells split: option.split)
qed

lemma private_value_scalar: "is_scalar (nd_attr node) \<Longrightarrow> private_value source e m node = None"
  by (auto simp: private_value_def is_scalar_def)

lemma private_value_agrees:
  assumes "agrees F m m'" and "node_reads node \<subseteq> F"
  shows "private_value source e m node = private_value source e m' node"
proof (cases "has_flag (nd_attr node) DMI_ATTRIBUTE_FLAG_PRIVATE \<and> \<not> is_scalar (nd_attr node)")
  case True
  then have "{nd_value node..<nd_value node + max 16 (mr_size (at_value (nd_attr node)))} \<subseteq> F" using assms(2) by (simp add: node_reads_def)
  note same = agrees_unset [OF assms(1) this]
  show ?thesis unfolding private_value_def member_string_ref_def same by simp
next
  case False
  then have "private_value source e m node = None" for m using private_value_scalar [of node source e m] by (cases "is_scalar (nd_attr node)") (simp_all add: private_value_def)
  then show ?thesis by simp
qed

lemma visit_collects:
  assumes run: "dmi_anonymize_visit env node s = (True, t)"
    and e: "an_entity (fst (fst s)) = Some e" and source: "an_source (fst (fst s)) = source"
    and found: "private_value source e (snd s) node = Some data"
  shows "known (an_values (fst (fst t))) data"
proof -
  obtain anon c m where s: "s = ((anon, c), m)" by (metis prod_cases3 surj_pair)
  let ?attr = "nd_attr node" and ?a = "nd_value node"
  have set': "has_flag ?attr DMI_ATTRIBUTE_FLAG_PRIVATE" "\<not> dmi_attribute_is_unspecified ?attr m ?a" "\<not> dmi_attribute_is_unknown ?attr m ?a"
    using found by (auto simp: private_value_def s split: if_splits)
  then have member: "dmi_anonymize_member env ?attr ?a s = (True, t)" using run by (simp add: dmi_anonymize_visit_def s)
  have type: "at_type ?attr = DMI_ATTRIBUTE_TYPE_STRING \<or> at_type ?attr = DMI_ATTRIBUTE_TYPE_BINARY"
    using found by (auto simp: private_value_def split: if_splits)
  show ?thesis
  proof (cases "at_type ?attr = DMI_ATTRIBUTE_TYPE_STRING")
    case True
    then obtain ref where ref: "member_string_ref m ?a = Some ref" "data = string_of_ref e ref"
      "\<not> dmi_string_is_placeholder (map char_of_byte data)" "data \<noteq> []" "\<not> dmi_anonymize_is_blank data" "dmi_anonymize_is_identifier data"
      using found by (auto simp: private_value_def s Let_def split: if_splits option.splits)
    obtain ok1 anon1 where str: "dmi_anonymize_member_string env anon (member_string_ref m ?a) = (ok1, anon1)"
      by (cases "dmi_anonymize_member_string env anon (member_string_ref m ?a)")
    then have "ok1" "t = ((anon1, c), m)" using member True by (simp_all add: dmi_anonymize_member_def s)
    then show ?thesis using member_string_grows(2) [OF str _ ref(1)] e ref by (simp add: s)
  next
    case False
    then obtain i p bs where b: "bn_data (load_binary m ?a) = Some (Pointer_data i p bs)" "data = binary_bytes (load_binary m ?a)" "data \<noteq> []"
      "bn_length (load_binary m ?a) \<noteq> 0" "\<not> dmi_anonymize_is_blank data" "i = buf_id source"
      "p + unat (bn_length (load_binary m ?a)) \<le> unat (buf_length source)" "length data = unat (bn_length (load_binary m ?a))"
      using found type by (auto simp: private_value_def s Let_def not_less split: if_splits option.splits dmi_pointer.splits)
    obtain ok1 anon1 where bin: "dmi_anonymize_member_binary env anon ?attr (load_binary m ?a) = (ok1, anon1)"
      by (cases "dmi_anonymize_member_binary env anon ?attr (load_binary m ?a)")
    then have "ok1" "t = ((anon1, c), m)" using member False type by (auto simp: dmi_anonymize_member_def s)
    then show ?thesis using member_binary_grows(2) [OF bin _ b(1)] b source by (simp add: s)
  qed
qed

section \<open>What encoding adds\<close>

lemma write_grows:
  assumes run: "dmi_anonymize_write env anon e = (ok, anon')"
  shows "grows anon anon'"
proof -
  obtain ok1 anon1 where a: "anon_alloc env anon = (ok1, anon1)" by (cases "anon_alloc env anon")
  have one: "an_values anon1 = an_values anon" "an_key anon1 = an_key anon" using alloc_work [OF a] by (simp_all add: same_work_def)
  have "an_values anon' = an_values anon1 \<and> an_key anon' = an_key anon1"
    using run a by (auto simp: dmi_anonymize_write_def Let_def table_write_def split: prod.splits bool.splits option.splits if_splits)
  then show ?thesis using one by (simp add: grows_same)
qed

lemma collect_loop_grows: "collect_loop env source result n saved anon = (ok, anon') \<Longrightarrow> grows anon anon'"
proof (induction env source result n saved anon rule: collect_loop.induct)
  case (2 env source result n item rest anon)
  show ?case
  proof (cases "length (sv_bytes item) < DMI_ANONYMIZE_PATTERN_MIN \<or> dmi_anonymize_find source result n (sv_bytes item) = None")
    case True
    then show ?thesis using 2 by (auto split: if_splits)
  next
    case False
    then obtain replacement where found: "dmi_anonymize_find source result n (sv_bytes item) = Some replacement" by auto
    then have new: "genuine key \<lparr>vl_data = sv_bytes item, vl_replacement = replacement, vl_propagate = True\<rparr>" for key
      by (auto simp: dmi_anonymize_find_def genuine_def find_Some_iff)
    obtain ok1 anon1 where add: "dmi_anonymize_add env anon (sv_bytes item) replacement True = (ok1, anon1)"
      by (cases "dmi_anonymize_add env anon (sv_bytes item) replacement True")
    note one = add_grows(1) [OF add new]
    show ?thesis
    proof (cases ok1)
      case True
      then have "grows anon1 anon'" using 2(3) [OF _ found add [symmetric]] 2(4) False found add by simp
      with one show ?thesis by (rule grows_trans)
    next
      case no: False
      then show ?thesis using 2(4) False found add one by simp
    qed
  qed
qed simp

lemma encode_grows:
  assumes run: "dmi_anonymize_encode env anon e = (ok, anon')"
  shows "grows anon anon'"
proof (cases "buf_id (en_buffer e) \<noteq> buf_id (an_source anon)")
  case True
  then show ?thesis using run by (simp add: dmi_anonymize_encode_def)
next
  case False
  obtain ok1 anon1 where w: "dmi_anonymize_write env anon e = (ok1, anon1)" by (cases "dmi_anonymize_write env anon e")
  show ?thesis
  proof (cases ok1)
    case no: False
    then show ?thesis using run False w write_grows [OF w] by (simp add: dmi_anonymize_encode_def)
  next
    case True
    then have "collect_loop env (drop (en_offset e) (buf_memory (an_source anon1))) (drop (en_offset e) (buf_memory (an_table anon1)))
        (en_body_length e) (an_saved anon1) anon1 = (ok, anon')"
      using run False w by (simp add: dmi_anonymize_encode_def dmi_anonymize_collect_def)
    from collect_loop_grows [OF this] show ?thesis using grows_trans [OF write_grows [OF w]] by blast
  qed
qed

section \<open>A structure\<close>

text \<open>
  The attributes of a structure do not share cells: what a visit changes is not read by the walk, nor is it
  part of a private string or private data.
\<close>

definition separate :: "dmi_memory \<Rightarrow> dmi_attribute list \<Rightarrow> bool" where
  "separate m attrs \<longleftrightarrow>
     (\<forall>node\<in>set (structure_nodes m attrs 0).
        node_writes node \<inter> structure_reads m attrs 0 = {} \<and>
        (\<forall>other\<in>set (structure_nodes m attrs 0). node_writes node \<inter> node_reads other = {}))"

lemma walk_collects:
  assumes run: "dmi_attributes_walk (anonymize_visitor env) attrs 0 ((anon, c), m) = (True, t)"
    and e: "an_entity anon = Some e" and separate: "separate m attrs"
    and node: "node \<in> set (structure_nodes m attrs 0)" and found: "private_value (an_source anon) e m node = Some data"
  shows "known (an_values (fst (fst t))) data"
proof -
  let ?ns = "structure_nodes m attrs 0" and ?f = "dmi_anonymize_visit env"
  define F where "F = - (\<Union>node\<in>set ?ns. node_writes node)"
  have writes: "- node_writes n \<supseteq> F" if "n \<in> set ?ns" for n using that by (auto simp: F_def)
  have reads: "structure_reads m attrs 0 \<subseteq> F" "\<And>n. n \<in> set ?ns \<Longrightarrow> node_reads n \<subseteq> F"
    using separate by (fastforce simp: separate_def F_def)+
  have calm: "agrees F m (snd (snd (?f n s)))" if "n \<in> set ?ns" "agrees F m (snd s)" for n s
  proof -
    obtain ok u where u: "?f n s = (ok, u)" by (cases "?f n s")
    show ?thesis using agrees_trans [OF that(2) agrees_subset [OF visit_grows(4) [OF u] writes [OF that(1)]]] u by simp
  qed
  have visitor: "anonymize_visitor env = value_visitor ?f" by (simp add: anonymize_visitor_def value_visitor_def)
  have "visits ?f F m ?ns (dmi_attributes_walk (anonymize_visitor env) attrs 0)"
    unfolding visitor using reads(1) calm by (rule visits_walk)
  then have each: "visit_each ?f ?ns ((anon, c), m) = (True, t)" using run by (simp add: visits_def)
  define I where "I s \<longleftrightarrow> agrees F m (snd s) \<and> an_entity (fst (fst s)) = Some e \<and> an_source (fst (fst s)) = an_source anon"
    for s :: "(dmi_anonymizer \<times> bool) \<times> dmi_memory"
  define Q where "Q n s \<longleftrightarrow> (\<forall>data. private_value (an_source anon) e m n = Some data \<longrightarrow> known (an_values (fst (fst s))) data)"
    for n :: dmi_attribute_node and s :: "(dmi_anonymizer \<times> bool) \<times> dmi_memory"
  have "\<forall>n\<in>set ?ns. Q n t"
  proof (rule visit_each_reaches [OF each, where I = I])
    show "I ((anon, c), m)" using e by (simp add: I_def)
    show "I (snd (?f n s))" if "n \<in> set ?ns" "I s" for n s
      using calm [OF that(1), of s] that(2) visit_grows(2,3) [of env n s] by (simp add: I_def) (metis prod.collapse)
    show "Q n u" if "n \<in> set ?ns" "I s" "?f n s = (True, u)" for n s u
      unfolding Q_def
    proof (intro allI impI)
      fix data assume found': "private_value (an_source anon) e m n = Some data"
      have "agrees F m (snd s)" using that(2) by (simp add: I_def)
      then have "private_value (an_source anon) e (snd s) n = Some data"
        using private_value_agrees [of F m "snd s" n "an_source anon" e] reads(2) [OF that(1)] found' by simp
      then show "known (an_values (fst (fst u))) data" using visit_collects [OF that(3)] that(2) by (simp add: I_def)
    qed
    show "Q q (snd (?f n s))" if "Q q s" for q n s
    proof -
      have "grows (fst (fst s)) (fst (fst (snd (?f n s))))" using visit_grows(1) [of env n s] by (metis prod.collapse)
      then show ?thesis using that by (simp add: Q_def grows_def)
    qed
  qed
  then show ?thesis using node found by (simp add: Q_def)
qed

text \<open>The private values of a structure, whose attributes are known and which has been decoded.\<close>

definition entity_privates :: "dmi_anonymize_env \<Rightarrow> dmi_buffer \<Rightarrow> dmi_memory dmi_entity \<Rightarrow> byte list set" where
  "entity_privates env source e =
    (case (en_spec e, en_info e) of
       (Some spec, Some m) \<Rightarrow>
         (case (if dmi_entity_is_decoded e then ae_attributes env spec else None) of
            None \<Rightarrow> {}
          | Some attrs \<Rightarrow> {data. \<exists>node\<in>set (structure_nodes m attrs 0). private_value source e m node = Some data})
     | _ \<Rightarrow> {})"

definition entity_separate :: "dmi_anonymize_env \<Rightarrow> dmi_memory dmi_entity \<Rightarrow> bool" where
  "entity_separate env e \<longleftrightarrow>
     (\<forall>spec m attrs. en_spec e = Some spec \<longrightarrow> en_info e = Some m \<longrightarrow> ae_attributes env spec = Some attrs \<longrightarrow> separate m attrs)"

lemma entity_collects:
  assumes run: "dmi_anonymize_entity env anon e = (ok, anon', e')"
  shows "grows anon anon'"
    and "\<And>data. ok \<Longrightarrow> entity_separate env e \<Longrightarrow> data \<in> entity_privates env (an_source anon) e \<Longrightarrow> known (an_values anon') data"
proof -
  have both: "grows anon anon' \<and> (\<forall>data. ok \<and> entity_separate env e \<and> data \<in> entity_privates env (an_source anon) e \<longrightarrow> known (an_values anon') data)"
  proof (cases "\<exists>spec m attrs. en_spec e = Some spec \<and> en_info e = Some m \<and> dmi_entity_is_decoded e \<and> ae_attributes env spec = Some attrs")
    case False
    then have "(ok, anon', e') = (True, anon, e)" "entity_privates env (an_source anon) e = {}"
      using run by (auto simp: dmi_anonymize_entity_def entity_privates_def split: option.splits if_splits)
    then show ?thesis by simp
  next
    case True
    then obtain spec m attrs where e: "en_spec e = Some spec" "en_info e = Some m" "dmi_entity_is_decoded e" "ae_attributes env spec = Some attrs"
      by blast
    let ?anon1 = "anon\<lparr>an_entity := Some e\<rparr>"
    obtain ok2 anon2 c m2 where walk: "dmi_attributes_walk (anonymize_visitor env) attrs 0 ((?anon1, False), m) = (ok2, (anon2, c), m2)"
      by (metis prod_cases3 surj_pair)
    have first: "grows anon ?anon1" by (simp add: grows_same)
    have second: "grows ?anon1 anon2" using collecting.walk_related [OF walk] by simp
    define r where "r = (if ok2 \<and> c then dmi_anonymize_encode env anon2 (e\<lparr>en_info := Some m2\<rparr>) else (ok2, anon2))"
    obtain ok3 anon3 where r3: "r = (ok3, anon3)" by (cases r)
    have third: "grows anon2 anon3" "ok3 \<Longrightarrow> ok2"
      using r3 encode_grows [of env anon2 "e\<lparr>en_info := Some m2\<rparr>" ok3 anon3] by (auto simp: r_def split: if_splits)
    have result: "ok = ok3" "an_values anon' = an_values anon3" "an_key anon' = an_key anon3"
      using run by (auto simp: dmi_anonymize_entity_def e walk r_def [symmetric] r3 dmi_anonymize_restore_def Let_def)
    have grown: "grows anon2 anon'" using grows_trans [OF third(1) grows_same [OF result(2,3)]] .
    then have "grows anon anon'" using grows_trans [OF grows_trans [OF first second]] by blast
    moreover have "known (an_values anon') data"
      if asm: "ok" "entity_separate env e" "data \<in> entity_privates env (an_source anon) e" for data
    proof -
      obtain node where node: "node \<in> set (structure_nodes m attrs 0)" "private_value (an_source anon) e m node = Some data"
        using asm(3) by (auto simp: entity_privates_def e)
      have sep: "separate m attrs" using asm(2) e by (simp add: entity_separate_def)
      have "ok2" using asm(1) result(1) third(2) by simp
      then have "dmi_attributes_walk (anonymize_visitor env) attrs 0 ((?anon1, False), m) = (True, (anon2, c), m2)" using walk by simp
      from walk_collects [OF this _ sep node(1)] node(2) have "known (an_values anon2) data" by simp
      then show ?thesis using grown by (simp add: grows_def)
    qed
    ultimately show ?thesis by blast
  qed
  then show "grows anon anon'" by simp
  show "known (an_values anon') data" if "ok" "entity_separate env e" "data \<in> entity_privates env (an_source anon) e" for data
    using both that by blast
qed

lemma entities_collect:
  assumes "entities_loop env ns anon reg = (ok, anon', reg')" and "an_saved anon = []" and "\<forall>n\<in>set ns. n < length (rg_entries reg)"
  shows "grows anon anon' \<and> (ok \<longrightarrow> (\<forall>n\<in>set ns. \<forall>data\<in>entity_privates env (an_source anon) (rg_entries reg ! n).
    entity_separate env (rg_entries reg ! n) \<longrightarrow> known (an_values anon') data))"
  using assms
proof (induction ns arbitrary: anon)
  case (Cons n ns)
  obtain ok1 anon1 e where one: "dmi_anonymize_entity env anon (rg_entries reg ! n) = (ok1, anon1, e)" by (metis prod_cases3)
  note kept = entity_kept [OF one Cons.prems(2)] and grown = entity_collects [OF one]
  have same: "reg\<lparr>rg_entries := (rg_entries reg)[n := e]\<rparr> = reg" using kept by simp
  show ?case
  proof (cases ok1)
    case True
    then have rest: "entities_loop env ns anon1 reg = (ok, anon', reg')" using Cons.prems(1) one same by simp
    have source: "an_source anon1 = an_source anon" using kept by simp
    have IH: "grows anon1 anon' \<and> (ok \<longrightarrow> (\<forall>n\<in>set ns. \<forall>data\<in>entity_privates env (an_source anon) (rg_entries reg ! n).
        entity_separate env (rg_entries reg ! n) \<longrightarrow> known (an_values anon') data))"
      using Cons.IH [OF rest] kept Cons.prems(3) unfolding source by simp
    have first: "known (an_values anon') data"
      if "data \<in> entity_privates env (an_source anon) (rg_entries reg ! n)" "entity_separate env (rg_entries reg ! n)" for data
      using grown(2) [OF True that(2,1)] IH by (simp add: grows_def)
    show ?thesis using first IH grows_trans [OF grown(1)] by auto
  next
    case False
    then show ?thesis using Cons.prems(1) one grown(1) by simp
  qed
qed simp

end
