(* ===== verification/Anonymizer_Properties.thy ===== *)
theory Anonymizer_Properties
  imports Anonymizer_Privacy
begin

text \<open>
  The properties of the anonymizer: the structures are left as they are, the copy has the length of the table,
  private values are replaced wherever the table has them, and what the replacements look like. Along with
  them come three places where the code does not do what its documentation says.
\<close>

section \<open>A run\<close>

text \<open>The state in which the structures are anonymized, and the values they have led to.\<close>

definition keyed :: "dmi_buffer \<Rightarrow> dmi_buffer \<Rightarrow> dmi_error_queue \<Rightarrow> uint64_t \<times> uint64_t \<Rightarrow> dmi_anonymizer" where
  "keyed source table q key = (initial_anonymizer source table q)\<lparr>an_key := key\<rparr>"

definition anonymized_values ::
    "dmi_anonymize_env \<Rightarrow> dmi_buffer \<Rightarrow> dmi_memory dmi_registry \<Rightarrow> dmi_error_queue \<Rightarrow> dmi_buffer \<Rightarrow> dmi_anonymize_value list" where
  "anonymized_values env source reg q table =
    (case (ae_key env, dmi_buffer_assign (ae_heap env) table (buffer_bytes source)) of
       (Some key, Inr table) \<Rightarrow> an_values (fst (snd (dmi_anonymize_entities env (keyed source table q key) reg)))
     | _ \<Rightarrow> [])"

lemma keyed_ok:
  assumes "buffer_wf source" and "buffer_wf table" and "dmi_buffer_assign h table (buffer_bytes source) = Inr table'"
  shows "anon_ok (keyed source table' q key)"
proof -
  note assigned = assign_correct [OF assms(2) buffer_bytes_bound [OF assms(1)] assms(3)]
  have "unat (buf_length table') = unat (buf_length source)"
    using buffer_length_bytes [OF assigned(1)] buffer_length_bytes [OF assms(1)] assigned(2) by simp
  then have "buf_length table' = buf_length source" by (simp only: word_unat_eq_iff)
  then show ?thesis using assms(1) assigned(1) by (simp add: keyed_def initial_anonymizer_def anon_ok_def values_ok_def)
qed

lemma keyed_fields [simp]:
  "an_source (keyed source table q key) = source" "an_key (keyed source table q key) = key" "an_saved (keyed source table q key) = []"
  "an_values (keyed source table q key) = []"
  by (simp_all add: keyed_def initial_anonymizer_def)

text \<open>How a run ends.\<close>

lemma anonymize_cases:
  obtains (refused) q' where "dmi_anonymize env is_open source reg q table = (False, table, reg, q')"
      "fst (dmi_anonymize_check is_open reg q) = False"
  | (failed) q' where "dmi_anonymize env is_open source reg q table = (False, dmi_buffer_clear table, reg, q')"
  | (stopped) key table1 anon reg' q1 where "ae_key env = Some key"
      "dmi_buffer_assign (ae_heap env) table (buffer_bytes source) = Inr table1"
      "dmi_anonymize_entities env (keyed source table1 q1 key) reg = (False, anon, reg')"
      "dmi_anonymize env is_open source reg q table = (False, dmi_buffer_clear (an_table anon), reg', an_queue anon)"
  | (finished) key table1 anon reg' anon' where "ae_key env = Some key"
      "dmi_buffer_assign (ae_heap env) table (buffer_bytes source) = Inr table1"
      "dmi_anonymize_entities env (keyed source table1 q key) reg = (True, anon, reg')"
      "anon' = dmi_anonymize_elsewhere env anon reg'"
      "dmi_anonymize env is_open source reg q table = (True, an_table anon', reg', an_queue anon')"
proof -
  obtain ok q1 where check: "dmi_anonymize_check is_open reg q = (ok, q1)" by (cases "dmi_anonymize_check is_open reg q")
  show thesis
  proof (cases ok)
    case False
    then show thesis using check by (intro refused [of q1]) (simp_all add: dmi_anonymize_def)
  next
    case True
    then have q1: "q1 = q" using check by (auto simp: dmi_anonymize_check_def split: if_splits)
    show thesis
    proof (cases "ae_key env")
      case None
      show thesis
        by (rule failed [of "raise_error q DMI_ERROR_SYSTEM"])
          (simp add: dmi_anonymize_def check True q1 dmi_anonymize_key_def None initial_anonymizer_def)
    next
      case (Some key)
      show thesis
      proof (cases "dmi_buffer_assign (ae_heap env) table (buffer_bytes source)")
        case (Inl f)
        show thesis
          by (rule failed [of "raise_fault q f"])
            (simp add: dmi_anonymize_def check True q1 dmi_anonymize_key_def Some Inl initial_anonymizer_def)
      next
        case (Inr table1)
        have start: "(initial_anonymizer source table q)\<lparr>an_key := key\<rparr>\<lparr>an_table := table1\<rparr> = keyed source table1 q key"
          by (simp add: keyed_def initial_anonymizer_def)
        obtain ok2 anon reg' where run: "dmi_anonymize_entities env (keyed source table1 q key) reg = (ok2, anon, reg')" by (metis prod_cases3)
        have whole: "dmi_anonymize env is_open source reg q table =
            (if ok2 then (True, an_table (dmi_anonymize_elsewhere env anon reg'), reg', an_queue (dmi_anonymize_elsewhere env anon reg'))
             else (False, dmi_buffer_clear (an_table anon), reg', an_queue anon))"
          by (simp add: dmi_anonymize_def check True q1 dmi_anonymize_key_def Some Inr start run Let_def)
        show thesis using whole run Some Inr by (cases ok2) (auto intro: stopped finished)
      qed
    qed
  qed
qed

lemma all_entities:
  assumes "dmi_anonymize_entities env anon reg = (ok, anon', reg')" and "an_saved anon = []"
  shows "reg' = reg" and "an_source anon' = an_source anon" and "an_key anon' = an_key anon"
    and "anon_ok anon \<Longrightarrow> registry_placed (an_source anon) reg \<Longrightarrow> anon_ok anon'" and "grows anon anon'"
    and "\<And>e data. ok \<Longrightarrow> e \<in> set (rg_entries reg) \<Longrightarrow> entity_separate env e \<Longrightarrow> data \<in> entity_privates env (an_source anon) e \<Longrightarrow>
      known (an_values anon') data"
proof -
  have loop: "entities_loop env [0..<length (rg_entries reg)] anon reg = (ok, anon', reg')"
    using assms(1) by (simp add: dmi_anonymize_entities_def visit_all_upt)
  have within: "\<forall>n\<in>set [0..<length (rg_entries reg)]. n < length (rg_entries reg)" by simp
  note kept = entities_kept [OF loop assms(2) within] and collected = entities_collect [OF loop assms(2) within]
  show "reg' = reg" "an_source anon' = an_source anon" "an_key anon' = an_key anon" using kept by simp_all
  show "anon_ok anon'" if "anon_ok anon" "registry_placed (an_source anon) reg" using kept that by simp
  show "grows anon anon'" using collected by simp
  show "known (an_values anon') data"
    if asm: "ok" "e \<in> set (rg_entries reg)" "entity_separate env e" "data \<in> entity_privates env (an_source anon) e" for e data
  proof -
    obtain n where "n < length (rg_entries reg)" "e = rg_entries reg ! n" using asm(2) by (auto simp: in_set_conv_nth)
    then show ?thesis using collected asm by simp
  qed
qed

section \<open>The structures are left as they are\<close>

text \<open>
  C12. The structures the table is anonymized with are as they were, whatever the outcome: every member which is
  replaced while a structure is encoded is put back, also after a failure, and nothing else is changed.
\<close>

theorem anonymize_leaves_structures:
  "fst (snd (snd (dmi_anonymize env is_open source reg q table))) = reg"
proof (cases rule: anonymize_cases [of env is_open source reg q table])
  case (stopped key table1 anon reg' q1)
  then show ?thesis using all_entities(1) [OF stopped(3)] by simp
next
  case (finished key table1 anon reg' anon')
  then show ?thesis using all_entities(1) [OF finished(3)] by simp
qed simp_all

section \<open>The copy has the length of the table\<close>

lemma finished_disguises:
  assumes source: "buffer_wf source" and table: "buffer_wf table" and reg: "registry_placed source reg"
    and assign: "dmi_buffer_assign h table (buffer_bytes source) = Inr table1"
    and run: "dmi_anonymize_entities env (keyed source table1 q key) reg = (True, anon, reg')"
  shows "anon_ok anon" and "an_source anon = source" and "reg' = reg" and "disguising anon (dmi_anonymize_elsewhere env anon reg)"
proof -
  note all = all_entities [OF run]
  have "anon_ok (keyed source table1 q key)" using keyed_ok [OF source table assign] .
  then show ok: "anon_ok anon" using all(4) reg by simp
  show same: "an_source anon = source" "reg' = reg" using all(1,2) by simp_all
  show "disguising anon (dmi_anonymize_elsewhere env anon reg)" using elsewhere_disguises(1) [OF ok] reg same by simp
qed

text \<open>
  C32. A table which has been anonymized is as long as the one it is a copy of, and a buffer in order; after a
  failure the buffer is empty, but for a request which is refused, as the context is not open or its structures
  carry additional information, after which it is as it was.
\<close>

theorem anonymize_keeps_layout:
  assumes "buffer_wf source" and "buffer_wf table" and "registry_placed source reg"
    and "dmi_anonymize env is_open source reg q table = (ok, table', reg', q')"
  shows "buffer_wf table' \<and>
    (if ok then length (buffer_bytes table') = length (buffer_bytes source)
     else if \<not> is_open \<or> rg_status reg AND DMI_REGISTRY_STATUS_OVERLAID \<noteq> 0 then table' = table
     else buffer_bytes table' = [])"
proof -
  have check: "fst (dmi_anonymize_check is_open reg q) \<longleftrightarrow> \<not> (\<not> is_open \<or> rg_status reg AND DMI_REGISTRY_STATUS_OVERLAID \<noteq> 0)"
    by (simp add: dmi_anonymize_check_def)
  show ?thesis
  proof (cases "\<not> is_open \<or> rg_status reg AND DMI_REGISTRY_STATUS_OVERLAID \<noteq> 0")
    case True
    then have "dmi_anonymize env is_open source reg q table = (False, table, reg, snd (dmi_anonymize_check is_open reg q))"
      using check by (cases "dmi_anonymize_check is_open reg q") (simp add: dmi_anonymize_def)
    then show ?thesis using assms(2,4) True by simp
  next
    case go: False
    show ?thesis
    proof (cases rule: anonymize_cases [of env is_open source reg q table])
      case (refused q1)
      then show ?thesis using check go by simp
    next
      case (failed q1)
      then show ?thesis using assms(2,4) go clear_correct [of table] by auto
    next
      case (stopped key table1 anon reg1 q1)
      note all = all_entities [OF stopped(3)]
      have "anon_ok anon" using all(4) keyed_ok [OF assms(1,2) stopped(2)] assms(3) by simp
      then show ?thesis using assms(4) go stopped(4) clear_correct [of "an_table anon"] by (auto simp: anon_ok_def)
    next
      case (finished key table1 anon reg1 anon1)
      note end' = finished_disguises [OF assms(1-3) finished(2,3)]
      have ok: "anon_ok anon1" using disguising_ok [OF end'(4,1)] end'(3) finished(4) by simp
      have "an_source anon1 = source" using disguising_same(1) [OF end'(4)] end'(2,3) finished(4) by simp
      then have "buffer_wf (an_table anon1)" "buf_length (an_table anon1) = buf_length source" using ok by (auto simp: anon_ok_def)
      then show ?thesis using assms(1,4) finished(5) buffer_length_bytes [of "an_table anon1"] buffer_length_bytes [of source] by auto
    qed
  qed
qed

section \<open>Private values are replaced wherever the table has them\<close>

lemma genuine_initial: "grows (keyed source table q key) anon \<Longrightarrow> list_all (genuine key) (an_values anon)"
  by (simp add: grows_def)

lemma anonymized_hidden:
  assumes "buffer_wf source" and "buffer_wf table" and "registry_placed source reg"
    and "dmi_anonymize env is_open source reg q table = (True, table', reg', q')"
    and "vs = anonymized_values env source reg q table" and "ae_key env = Some key"
  shows "\<forall>e\<in>set (rg_entries reg). entity_separate env e \<longrightarrow> (\<forall>data\<in>entity_privates env source e. known vs data)"
    and "distinct (map vl_data vs)"
    and "\<forall>v\<in>set vs. length (vl_replacement v) = length (vl_data v) \<and> \<not> dmi_anonymize_is_blank (vl_data v) \<and>
      (vl_replacement v = dmi_anonymize_text key (vl_data v) \<or> (\<exists>keep\<in>{0, 3}. vl_replacement v = dmi_anonymize_bytes key (vl_data v) keep) \<or>
       vl_replacement v \<noteq> vl_data v)"
    and "\<forall>e\<in>set (rg_entries reg). \<forall>data p. buf_id (en_buffer e) = buf_id source \<and> known vs data \<and>
      (in_string e p (length data) \<or> in_body e p (length data)) \<and> occurs_at (buf_memory source) data p \<longrightarrow>
      (\<exists>w\<in>set vs. \<exists>pos. vl_propagate w \<and> occurs_at (buf_memory source) (vl_data w) pos \<and> pos \<le> p \<and> p < pos + length (vl_data w) \<and>
        buf_memory table' ! p = vl_replacement w ! (p - pos))"
proof -
  obtain key1 table1 anon reg1 anon1 where run: "ae_key env = Some key1" "dmi_buffer_assign (ae_heap env) table (buffer_bytes source) = Inr table1"
    "dmi_anonymize_entities env (keyed source table1 q key1) reg = (True, anon, reg1)" "anon1 = dmi_anonymize_elsewhere env anon reg1"
    "table' = an_table anon1"
    using assms(4) by (cases rule: anonymize_cases [of env is_open source reg q table]) auto
  have key: "key1 = key" using run(1) assms(6) by simp
  note all = all_entities [OF run(3)] and end' = finished_disguises [OF assms(1-3) run(2,3)]
  have vs: "vs = an_values anon" using assms(5) run(1-3) by (simp add: anonymized_values_def)
  show "\<forall>e\<in>set (rg_entries reg). entity_separate env e \<longrightarrow> (\<forall>data\<in>entity_privates env source e. known vs data)"
    using all(6) vs by simp
  have values': "values_ok vs" using end'(1) vs by (simp add: anon_ok_def)
  then show "distinct (map vl_data vs)" by (simp add: values_ok_def)
  have "list_all (genuine key) vs" using genuine_initial [of source table1 q key1 anon] all(5) vs key by simp
  then show "\<forall>v\<in>set vs. length (vl_replacement v) = length (vl_data v) \<and> \<not> dmi_anonymize_is_blank (vl_data v) \<and>
      (vl_replacement v = dmi_anonymize_text key (vl_data v) \<or> (\<exists>keep\<in>{0, 3}. vl_replacement v = dmi_anonymize_bytes key (vl_data v) keep) \<or>
       vl_replacement v \<noteq> vl_data v)"
    using values' by (simp add: values_ok_def list_all_iff value_ok_def genuine_def)
  have same: "an_source anon1 = source" "an_values anon1 = vs" using disguising_same [OF end'(4)] end'(2,3) run(4) vs by simp_all
  show "\<forall>e\<in>set (rg_entries reg). \<forall>data p. buf_id (en_buffer e) = buf_id source \<and> known vs data \<and>
      (in_string e p (length data) \<or> in_body e p (length data)) \<and> occurs_at (buf_memory source) data p \<longrightarrow>
      (\<exists>w\<in>set vs. \<exists>pos. vl_propagate w \<and> occurs_at (buf_memory source) (vl_data w) pos \<and> pos \<le> p \<and> p < pos + length (vl_data w) \<and>
        buf_memory table' ! p = vl_replacement w ! (p - pos))"
  proof (intro ballI allI impI)
    fix e data p
    assume e: "e \<in> set (rg_entries reg)" and at: "buf_id (en_buffer e) = buf_id source \<and> known vs data \<and>
      (in_string e p (length data) \<or> in_body e p (length data)) \<and> occurs_at (buf_memory source) data p"
    obtain v where v: "v \<in> set vs" "vl_data v = data" "vl_propagate v" using at by (auto simp: known_def)
    have "disguised (dmi_anonymize_elsewhere env anon reg) p"
      using elsewhere_disguises(2) [OF end'(1), of reg e v p env] assms(3) end'(2) e at v vs by simp
    then have "disguised anon1 p" using run(4) end'(3) by simp
    then show "\<exists>w\<in>set vs. \<exists>pos. vl_propagate w \<and> occurs_at (buf_memory source) (vl_data w) pos \<and> pos \<le> p \<and> p < pos + length (vl_data w) \<and>
        buf_memory table' ! p = vl_replacement w ! (p - pos)"
      using same run(5) by (simp add: disguised_def)
  qed
qed

text \<open>
  C11. Once a table has been anonymized, every private string which looks like an identifier and all private data
  of a decoded structure are among the values which have been collected, provided the members of the structure
  do not overlap; every collected value identifies something, is told apart from the others and has a
  replacement of its length, made from it with the key or by encoding the structure; and wherever a string of a structure
  holds a value of four bytes or more, or its formatted area past the header holds one of six or more, the copy
  does not hold the value's first byte there, but the byte the replacement of a value found over that place
  has for it.
\<close>

theorem anonymize_hides_values:
  assumes "buffer_wf source" and "buffer_wf table" and "registry_placed source reg"
    and "dmi_anonymize env is_open source reg q table = (True, table', reg', q')"
    and "vs = anonymized_values env source reg q table" and "ae_key env = Some key"
  shows "(\<forall>e\<in>set (rg_entries reg). entity_separate env e \<longrightarrow> (\<forall>data\<in>entity_privates env source e. known vs data)) \<and>
    distinct (map vl_data vs) \<and>
    (\<forall>v\<in>set vs. length (vl_replacement v) = length (vl_data v) \<and> \<not> dmi_anonymize_is_blank (vl_data v) \<and>
      (vl_replacement v = dmi_anonymize_text key (vl_data v) \<or> (\<exists>keep\<in>{0, 3}. vl_replacement v = dmi_anonymize_bytes key (vl_data v) keep) \<or>
       vl_replacement v \<noteq> vl_data v)) \<and>
    (\<forall>e\<in>set (rg_entries reg). \<forall>data p. buf_id (en_buffer e) = buf_id source \<and> known vs data \<and>
      (in_string e p (length data) \<or> in_body e p (length data)) \<and> occurs_at (buf_memory source) data p \<longrightarrow>
      (\<exists>w\<in>set vs. \<exists>pos. vl_propagate w \<and> occurs_at (buf_memory source) (vl_data w) pos \<and> pos \<le> p \<and> p < pos + length (vl_data w) \<and>
        buf_memory table' ! p = vl_replacement w ! (p - pos)))"
  using anonymized_hidden [OF assms] by (intro conjI)

section \<open>An example\<close>

text \<open>A structure of one private string, which holds a serial number.\<close>

definition private_source :: dmi_buffer where
  "private_source = \<lparr>buf_id = 0, buf_data = Some [200, 5, 0x34, 0x12, 1, 83, 78, 49, 50, 51, 52, 0, 0], buf_length = 13, buf_capacity = 13\<rparr>"

definition private_memory :: dmi_memory where
  "private_memory = \<lparr>mm_cells = (\<lambda>i. if i < 8 then Part (Pointer_string (String_pretty 0)) i else Byte 0), mm_next = 8\<rparr>"

definition private_params :: dmi_attribute_params where
  "private_params = \<lparr>ap_code = None, ap_name = None, ap_scale = 0, ap_unspec = None, ap_unknown = None, ap_flags = 0x80,
     ap_values = None, ap_targets = None, ap_link = DMI_MEMBER_NULL, ap_minimum = None, ap_maximum = None, ap_level = 0\<rparr>"

definition private_attribute :: dmi_attribute where
  "private_attribute = Dmi_attribute \<lparr>mr_offset = 0, mr_size = 8\<rparr> DMI_MEMBER_NULL 0 DMI_ATTRIBUTE_TYPE_STRING private_params None None"

definition private_entity :: "dmi_memory dmi_entity" where
  "private_entity =
    \<lparr>en_type_id = 200, en_spec = Some example_spec, en_handle = 0x1234, en_buffer = private_source, en_offset = 0, en_total_length = 13,
     en_body_length = 5, en_extra_length = 8, en_strings = [string_entry [83, 78, 49, 50, 51, 52]], en_string_count = 1,
     en_info = Some private_memory, en_level = 0x020000, en_state = DMI_ENTITY_STATE_DECODED, en_properties = [], en_overlays = [],
     en_overlay = None\<rparr>"

definition private_registry :: "dmi_memory dmi_registry" where
  "private_registry = \<lparr>rg_capacity = 1, rg_count = 1, rg_index = [[0]], rg_entries = [private_entity], rg_status = 0\<rparr>"

definition private_env :: dmi_anonymize_env where
  "private_env =
    \<lparr>ae_room = (\<lambda>n. True), ae_heap = (\<lambda>n. Some (\<lambda>i. 0)), ae_strings = (\<lambda>n. True), ae_buffer = 7,
     ae_attributes = (\<lambda>spec. Some [private_attribute]),
     ae_encode = \<lparr>eo_fields_encode = (\<lambda>h mem q ec. (False, ec, q)), eo_encode = (\<lambda>spec. None)\<rparr>,
     ae_module = undefined, ae_key = Some (1, 2)\<rparr>"

lemma private_source_wf: "buffer_wf private_source" "buf_memory private_source = [200, 5, 0x34, 0x12, 1, 83, 78, 49, 50, 51, 52, 0, 0]"
  "buffer_bytes private_source = [200, 5, 0x34, 0x12, 1, 83, 78, 49, 50, 51, 52, 0, 0]"
  by (simp_all add: buffer_wf_def private_source_def buf_memory_def buffer_bytes_def)

lemma private_entity_placed: "registry_placed private_source private_registry"
proof -
  have "entity_in_buffer private_entity" by code_simp
  then show ?thesis by (simp add: registry_placed_def private_registry_def placed_def private_entity_def)
qed

lemma private_text: "\<not> dmi_string_is_placeholder (map char_of_byte [83, 78, 49, 50, 51, 52])"
  "\<not> dmi_anonymize_is_blank [83, 78, 49, 50, 51, 52]" "dmi_anonymize_is_identifier [83, 78, 49, 50, 51, 52]"
  "dmi_entity_string_trim [83, 78, 49, 50, 51, 52] = [83, 78, 49, 50, 51, 52]"
  by code_simp+

lemmas private_text_facts = private_text(1) [unfolded list.map] private_text(2-4)

definition private_node :: dmi_attribute_node where
  "private_node = member_node private_attribute private_attribute 0"

lemma private_pointer: "load_pointer private_memory 0 = Some (Pointer_string (String_pretty 0))"
  by (simp add: load_pointer_def private_memory_def pointer_cells_def mem_load_def upt_rec)

lemma private_nodes: "structure_nodes private_memory [private_attribute] 0 = [private_node]"
  by (simp add: structure_nodes.simps private_node_def dmi_attribute_resolve_def private_attribute_def member_nodes_def value_nodes_def
    dmi_attribute_is_array_def dmi_member_is_present_def DMI_MEMBER_NULL_def)

lemma private_node_value: "private_value private_source private_entity private_memory private_node = Some [83, 78, 49, 50, 51, 52]"
  by (simp add: private_value_def private_node_def member_node_def private_attribute_def has_flag_def private_params_def
    DMI_ATTRIBUTE_FLAG_PRIVATE_def dmi_attribute_is_unspecified_def dmi_attribute_is_unknown_def is_null_pointer_def private_pointer
    member_string_ref_def string_of_ref_def private_entity_def string_entry_def private_text_facts Let_def)

lemma private_separate: "separate private_memory [private_attribute]"
proof -
  have "node_writes private_node = {}" by (simp add: node_writes_def is_scalar_def private_node_def member_node_def private_attribute_def)
  then show ?thesis by (simp add: separate_def private_nodes)
qed

lemma private_walk:
  assumes "an_values anon = []" and "an_entity anon = Some private_entity"
  shows "\<exists>anon'. dmi_attributes_walk (anonymize_visitor private_env) [private_attribute] 0 ((anon, False), private_memory) = (True, (anon', False), private_memory)"
  using assms
  by (simp add: dmi_attributes_walk.simps dmi_attribute_resolve_def private_attribute_def walk_member_def member_node_def
    dmi_attribute_is_array_def dmi_member_is_present_def DMI_MEMBER_NULL_def anonymize_visitor_def dmi_attribute_enter_def dmi_attribute_leave_def
    dmi_attribute_walk_value_def dmi_anonymize_visit_def has_flag_def private_params_def DMI_ATTRIBUTE_FLAG_PRIVATE_def
    dmi_attribute_is_unspecified_def dmi_attribute_is_unknown_def is_null_pointer_def private_pointer dmi_anonymize_member_def
    member_string_ref_def dmi_anonymize_member_string_def string_of_ref_def private_entity_def string_entry_def private_text_facts Let_def
    anon_alloc_def private_env_def dmi_anonymize_add_def dmi_anonymize_raw_string_def push_value_def split: option.split)

lemma private_entity_run:
  assumes "an_values anon = []"
  shows "fst (dmi_anonymize_entity private_env anon private_entity)"
proof -
  obtain anon' where "dmi_attributes_walk (anonymize_visitor private_env) [private_attribute] 0 ((anon\<lparr>an_entity := Some private_entity\<rparr>, False), private_memory) =
      (True, (anon', False), private_memory)" using private_walk [of "anon\<lparr>an_entity := Some private_entity\<rparr>"] assms by auto
  moreover have "dmi_entity_is_decoded private_entity" by code_simp
  moreover have "en_spec private_entity = Some example_spec" "en_info private_entity = Some private_memory"
    "ae_attributes private_env example_spec = Some [private_attribute]" by (simp_all add: private_entity_def private_env_def)
  ultimately show ?thesis by (simp add: dmi_anonymize_entity_def dmi_anonymize_restore_def)
qed

lemma private_run:
  "\<exists>table' q'. dmi_anonymize private_env True private_source private_registry empty_queue (dmi_buffer_create 9) = (True, table', private_registry, q')"
proof -
  have "generous (ae_heap private_env)" by (simp add: generous_def private_env_def)
  then obtain table1 where assign: "dmi_buffer_assign (ae_heap private_env) (dmi_buffer_create 9) (buffer_bytes private_source) = Inr table1"
    using assign_succeeds [of "ae_heap private_env" "buffer_bytes private_source" "dmi_buffer_create 9"] by (auto simp: private_source_wf)
  let ?anon = "keyed private_source table1 empty_queue (1, 2)"
  have entity: "fst (dmi_anonymize_entity private_env ?anon private_entity)" by (rule private_entity_run) simp
  have "visit_all (ae_module private_env) private_registry = [0]" "rg_entries private_registry ! 0 = private_entity"
    by (simp_all add: visit_all_upt private_registry_def)
  then have "fst (dmi_anonymize_entities private_env ?anon private_registry)"
    using entity by (cases "dmi_anonymize_entity private_env ?anon private_entity") (simp add: dmi_anonymize_entities_def split: bool.split)
  then obtain anon reg' where run: "dmi_anonymize_entities private_env ?anon private_registry = (True, anon, reg')" by (metis prod.collapse)
  then have "reg' = private_registry" using all_entities(1) by fastforce
  moreover have "(initial_anonymizer private_source (dmi_buffer_create 9) empty_queue)\<lparr>an_key := (1, 2)\<rparr>\<lparr>an_table := table1\<rparr> = ?anon"
    by (simp add: keyed_def initial_anonymizer_def)
  moreover have "ae_key private_env = Some (1, 2)" "dmi_anonymize_check True private_registry empty_queue = (True, empty_queue)"
    by (simp_all add: private_env_def dmi_anonymize_check_def private_registry_def)
  ultimately show ?thesis using run assign by (simp add: dmi_anonymize_def dmi_anonymize_key_def Let_def)
qed

theorem anonymize_keeps_layout_witness:
  "\<exists>table' q'. dmi_anonymize private_env True private_source private_registry empty_queue (dmi_buffer_create 9) = (True, table', private_registry, q') \<and>
    length (buffer_bytes table') = 13"
proof -
  obtain table' q' where run: "dmi_anonymize private_env True private_source private_registry empty_queue (dmi_buffer_create 9) =
      (True, table', private_registry, q')" using private_run by blast
  show ?thesis
    using anonymize_keeps_layout [OF private_source_wf(1) buffer_wf_create private_entity_placed run] run by (auto simp: private_source_wf)
qed

text \<open>The serial number is where it was collected from, and its first character is the one of its replacement.\<close>

theorem anonymize_hides_values_witness:
  "\<exists>table' q'. dmi_anonymize private_env True private_source private_registry empty_queue (dmi_buffer_create 9) = (True, table', private_registry, q') \<and>
    known (anonymized_values private_env private_source private_registry empty_queue (dmi_buffer_create 9)) [83, 78, 49, 50, 51, 52] \<and>
    (\<exists>w\<in>set (anonymized_values private_env private_source private_registry empty_queue (dmi_buffer_create 9)). \<exists>pos.
      occurs_at (buf_memory private_source) (vl_data w) pos \<and> pos \<le> 5 \<and> 5 < pos + length (vl_data w) \<and>
      buf_memory table' ! 5 = vl_replacement w ! (5 - pos))"
proof -
  obtain table' q' where run: "dmi_anonymize private_env True private_source private_registry empty_queue (dmi_buffer_create 9) =
      (True, table', private_registry, q')" using private_run by blast
  let ?vs = "anonymized_values private_env private_source private_registry empty_queue (dmi_buffer_create 9)"
  have key: "ae_key private_env = Some (1, 2)" by (simp add: private_env_def)
  note hidden = anonymize_hides_values [OF private_source_wf(1) buffer_wf_create private_entity_placed run refl key]
  have entry: "rg_entries private_registry = [private_entity]" by (simp add: private_registry_def)
  have spec: "en_spec private_entity = Some example_spec" "en_info private_entity = Some private_memory"
    "ae_attributes private_env spec = Some [private_attribute]" "buf_id (en_buffer private_entity) = buf_id private_source" for spec
    by (simp_all add: private_entity_def private_env_def)
  have "entity_separate private_env private_entity" by (simp add: entity_separate_def spec private_separate)
  moreover have "dmi_entity_is_decoded private_entity" by code_simp
  then have "[83, 78, 49, 50, 51, 52] \<in> entity_privates private_env private_source private_entity"
    by (simp add: entity_privates_def spec private_nodes private_node_value)
  ultimately have "known ?vs [83, 78, 49, 50, 51, 52]" using hidden entry by simp
  moreover have "in_string private_entity 5 (length [83, 78, 49, 50, 51, 52 :: byte])"
    by (simp add: in_string_def DMI_ANONYMIZE_SUBSTRING_MIN_def private_entity_def raw_offset_def string_entry_def)
  moreover have "occurs_at (buf_memory private_source) [83, 78, 49, 50, 51, 52] 5" by (simp add: occurs_at_def private_source_wf)
  ultimately show ?thesis using hidden entry spec(4) run by (metis (no_types, lifting) list.set_intros(1))
qed

section \<open>Values which overlap\<close>

text \<open>
  C33. In a range of the table which is searched for the collected values, each byte a value is found over is the
  one of the replacement of the shortest of the values found over it, whose part it is then, and any other byte
  is as it was. Longer values are written first, but the source is searched, so that a value which lies
  within a longer one is found there as well, and written over the longer one's replacement.
\<close>

theorem anonymize_shortest_value_wins:
  assumes "list_all value_ok vs" and "end' \<le> length table" and "k < length table"
    and "result = replace_loop source vs start end' minimum (unat SIZE_MAX) table"
  shows "length result = length table \<and>
    (if \<exists>pos v. replaced_at source vs start end' minimum pos v \<and> pos \<le> k \<and> k < pos + length (vl_data v)
     then \<exists>pos v. replaced_at source vs start end' minimum pos v \<and> pos \<le> k \<and> k < pos + length (vl_data v) \<and>
       result ! k = vl_replacement v ! (k - pos) \<and>
       (\<forall>pos' v'. replaced_at source vs start end' minimum pos' v' \<and> pos' \<le> k \<and> k < pos' + length (vl_data v') \<longrightarrow>
         length (vl_data v) \<le> length (vl_data v'))
     else result ! k = table ! k)"
  using replace_loop_bytes [OF assms(1,2,4)] assms(3) by (intro conjI)

definition overlapping_values :: "dmi_anonymize_value list" where
  "overlapping_values =
    [\<lparr>vl_data = [65, 66, 49, 50, 51, 52], vl_replacement = [88, 89, 55, 55, 55, 55], vl_propagate = True\<rparr>,
     \<lparr>vl_data = [49, 50, 51, 52], vl_replacement = [57, 56, 57, 56], vl_propagate = True\<rparr>]"

lemma overlapping_replaced:
  "replace_loop [65, 66, 49, 50, 51, 52] overlapping_values 0 6 4 (unat SIZE_MAX) [65, 66, 49, 50, 51, 52] = [88, 89, 57, 56, 57, 56]"
  by (simp add: replace_loop.simps longest_below_def replace_value_def overlapping_values_def upt_rec patch_def Let_def)

theorem anonymize_shortest_value_wins_witness:
  "replace_loop [65, 66, 49, 50, 51, 52] overlapping_values 0 6 4 (unat SIZE_MAX) [65, 66, 49, 50, 51, 52] = [88, 89, 57, 56, 57, 56] \<and>
   length [88, 89, 57, 56, 57, 56 :: byte] = length [65, 66, 49, 50, 51, 52 :: byte]"
proof -
  have "list_all value_ok overlapping_values"
    by (simp add: overlapping_values_def value_ok_def dmi_anonymize_is_blank_def upt_rec)
  then show ?thesis
    using anonymize_shortest_value_wins [of overlapping_values 6 "[65, 66, 49, 50, 51, 52]" 2 _ "[65, 66, 49, 50, 51, 52]" 0 4, OF _ _ _ refl]
      overlapping_replaced by simp
qed

section \<open>Replacements\<close>

text \<open>
  The replacement of a text is as long as the text and has a digit where the text has a digit, a capital
  letter where it has one, a small letter where it has one, and every other character as it is; so it ends
  where the text ends.
\<close>

theorem anonymize_text_keeps_format:
  "length (dmi_anonymize_text key data) = length data \<and> map kind_of (dmi_anonymize_text key data) = map kind_of data \<and>
   (0 \<in> set (dmi_anonymize_text key data) \<longleftrightarrow> 0 \<in> set data)"
  by (simp add: dmi_anonymize_text_def text_loop_kinds length_text [unfolded dmi_anonymize_text_def] text_zero [unfolded dmi_anonymize_text_def])

text \<open>
  A text is taken for an identifier exactly if it has no white space, at least one digit and at least three
  different characters, whatever its length.
\<close>

theorem anonymize_identifiers:
  "dmi_anonymize_is_identifier text' \<longleftrightarrow>
    list_all (\<lambda>c. \<not> is_space c) text' \<and> list_ex (\<lambda>c. isdigit (char_of_byte c)) text' \<and> 3 \<le> card (set text')"
  using identifier_loop_iff [of "[]" False text'] by (simp add: dmi_anonymize_is_identifier_def list_all_iff list_ex_iff)

text \<open>
  C34. Replacing a decoded UUID, whose bytes are in the order of the standard, keeps its variant and the high half
  of its eighth byte; its version, which the standard has in the high half of the seventh byte, becomes the
  one of the replacement, i.e. a random one. The mask is one of the number the two bytes are on a little-endian
  host.
\<close>

theorem anonymize_uuid_version:
  assumes "length u = 16" and "length r = 16"
  shows "let k = dmi_anonymize_uuid_keep u r
    in length k = 16 \<and> uuid_variant k = uuid_variant u \<and> uuid_version k = uuid_version r \<and> drop_bit 4 (k ! 7) = drop_bit 4 (u ! 7)"
proof -
  have variant: "((b AND 0x3F) OR (c AND 0xC0)) AND 0xC0 = c AND (0xC0 :: byte)" for b c
    by (rule bit_word_eqI) (auto simp: bit_simps numeral_eq_Suc less_Suc_eq)
  have high: "drop_bit 4 ((b AND 0x0F) OR (c AND 0xF0)) = drop_bit 4 (c :: byte)" for b c
    by (rule bit_word_eqI) (auto simp: bit_simps numeral_eq_Suc less_Suc_eq dest: bit_imp_le_length)
  define k where "k = dmi_anonymize_uuid_keep u r"
  have k: "length k = 16" "k ! 6 = r ! 6" "k ! 7 = (r ! 7 AND 0x0F) OR (u ! 7 AND 0xF0)" "k ! 8 = (r ! 8 AND 0x3F) OR (u ! 8 AND 0xC0)"
    using assms by (simp_all add: k_def uuid_keep_bytes [OF assms] nth_append)
  have "drop_bit 4 (k ! 7) = drop_bit 4 (u ! 7)" unfolding k(3) by (rule high)
  moreover have "uuid_variant k = uuid_variant u" unfolding uuid_variant_def k(4) by (rule variant)
  moreover have "uuid_version k = uuid_version r" by (simp add: uuid_version_def k(2))
  ultimately show ?thesis unfolding Let_def k_def [symmetric] using k(1) by blast
qed

theorem anonymize_uuid_version_witness:
  "uuid_version (dmi_anonymize_uuid_keep [0, 1, 2, 3, 4, 5, 0x41, 0x22, 0x80, 9, 10, 11, 12, 13, 14, 15] (replicate 16 0x75)) = 7 \<and>
   uuid_version [0, 1, 2, 3, 4, 5, 0x41, 0x22, 0x80, 9, 10, 11, 12, 13, 14, 15] = 4"
proof -
  have "uuid_version (replicate 16 0x75) = 7" "uuid_version [0, 1, 2, 3, 4, 5, 0x41, 0x22, 0x80, 9, 10, 11, 12, 13, 14, 15] = 4"
    by (simp_all add: uuid_version_def)
  then show ?thesis
    using anonymize_uuid_version [of "[0, 1, 2, 3, 4, 5, 0x41, 0x22, 0x80, 9, 10, 11, 12, 13, 14, 15]" "replicate 16 0x75"]
    by (simp add: Let_def)
qed

section \<open>Data in strings\<close>

text \<open>A key and four bytes whose replacement begins with a zero, two rounds of the hash at a time.\<close>

lemma zero_load: "le_load_loop 0 (push_bit 56 4) [83, 78, 52, 50] = 0x400000032344E53"
  by code_simp

lemma zero_word: "sip_word 0x400000032344E53 (0x736F6D6570736565, 0x646F72616E646F6D, 0x6C7967656E657271, 0x7465646279746573) = (0xFC6503B3897CCFC8, 0xE3C69E5180F977A4, 0x957F22BFBED3CA62, 0x1CE32A51A81AB5A2)"
  by (simp add: sip_word_def DMI_SIPROUND_def dmi_anonymize_rotl_def)

lemma zero_first: "DMI_SIPROUND (DMI_SIPROUND (0xFC6503B3897CCFC8, 0xE3C69E5180F977A4, 0x957F22BFBED3CA9D, 0x1CE32A51A81AB5A2)) = (0xBB7C05459CD3D6BE, 0x2D3E08CA200D54CF, 0xE6727B072725A64C, 0x81FAF3071FCA83EF)"
  by (simp add: DMI_SIPROUND_def dmi_anonymize_rotl_def)

lemma zero_second: "DMI_SIPROUND (DMI_SIPROUND (0xBB7C05459CD3D6BE, 0x2D3E08CA200D54CF, 0xE6727B072725A64C, 0x81FAF3071FCA83EF)) = (0xEFB247DB11BE1EA9, 0x9FCE35916A080967, 0x626D90EC8B01C175, 0xB3442B669C8E0DD5)"
  by (simp add: DMI_SIPROUND_def dmi_anonymize_rotl_def)

lemma zero_hash: "dmi_anonymize_hash (16, 0) [83, 78, 52, 50] = 0xA155C9C06C39DB6E"
proof -
  let ?data = "[83, 78, 52, 50] :: byte list"
  have data: "length ?data = 4" "drop 0 ?data = ?data" by simp_all
  have key: "(16 :: uint64_t) XOR 0x736F6D6570736575 = 0x736F6D6570736565" "(0 :: uint64_t) XOR 0x646F72616E646F6D = 0x646F72616E646F6D"
    "(16 :: uint64_t) XOR 0x6C7967656E657261 = 0x6C7967656E657271" "(0 :: uint64_t) XOR 0x7465646279746573 = 0x7465646279746573" by simp_all
  have number: "(of_nat 4 :: uint64_t) = 4" "(4 :: nat) mod 8 = 4" "(4 :: nat) - 4 = 0" "(0 :: nat) div 8 = 0" by simp_all
  have last': "(0x957F22BFBED3CA62 :: uint64_t) XOR 0xFF = 0x957F22BFBED3CA9D" by simp
  have four: "(DMI_SIPROUND ^^ 4) v = DMI_SIPROUND (DMI_SIPROUND (DMI_SIPROUND (DMI_SIPROUND v)))" for v
    by (simp add: numeral_eq_Suc)
  show ?thesis
    unfolding dmi_anonymize_hash_def Let_def fst_conv snd_conv data number key sip_words.simps zero_load zero_word prod.case four last'
      zero_first zero_second
    by simp
qed

lemma zero_numbers:
  "dmi_anonymize_next 0xA155C9C06C39DB6E = (0xB521AA1EDB5440, 0x3F8D4379EB845783)"
  "dmi_anonymize_next 0x3F8D4379EB845783 = (0xAB53C9D1FCBDF61C, 0xDDC4BD336ACED398)"
  "dmi_anonymize_next 0xDDC4BD336ACED398 = (0x99167ECBDCA41FB4, 0x7BFC36ECEA194FAD)"
  "dmi_anonymize_next 0x7BFC36ECEA194FAD = (0x78543F418713C7EC, 0x1A33B0A66963CBC2)"
  by (simp_all add: dmi_anonymize_next_def)

lemma zero_bytes: "dmi_anonymize_bytes (16, 0) [83, 78, 52, 50] 0 = [0, 171, 153, 120]"
  by (simp add: dmi_anonymize_bytes_def zero_hash zero_numbers)

text \<open>
  There are a key and private data of four printable bytes such that a string which holds the data ends early
  once it has been replaced: the replacement of data may have a zero among its bytes, and strings are searched
  for every collected value.
\<close>

theorem anonymize_data_cuts_string:
  "\<exists>key data string. 0 \<notin> set string \<and> \<not> dmi_anonymize_is_blank data \<and> length data = DMI_ANONYMIZE_SUBSTRING_MIN \<and>
    replace_loop (string @ [0]) [\<lparr>vl_data = data, vl_replacement = dmi_anonymize_bytes key data 0, vl_propagate = True\<rparr>] 0 (length string)
      DMI_ANONYMIZE_SUBSTRING_MIN (unat SIZE_MAX) (string @ [0]) = [88, 0, 171, 153, 120, 0] \<and> length string = 5"
proof (intro exI conjI)
  show "replace_loop ([88, 83, 78, 52, 50] @ [0]) [\<lparr>vl_data = [83, 78, 52, 50],
      vl_replacement = dmi_anonymize_bytes (16, 0) [83, 78, 52, 50] 0, vl_propagate = True\<rparr>] 0 (length [88, 83, 78, 52, 50 :: byte])
      DMI_ANONYMIZE_SUBSTRING_MIN (unat SIZE_MAX) ([88, 83, 78, 52, 50] @ [0]) = [88, 0, 171, 153, 120, 0]"
    unfolding zero_bytes
    by (simp add: replace_loop.simps longest_below_def replace_value_def upt_rec patch_def Let_def DMI_ANONYMIZE_SUBSTRING_MIN_def)
qed (simp_all add: dmi_anonymize_is_blank_def upt_rec DMI_ANONYMIZE_SUBSTRING_MIN_def)

end
