(* ===== verification/Links.thy ===== *)
theory Links
  imports Attribute_Reads Registry_Passes
begin

text \<open>
  Linking (\<^verbatim>\<open>src/link.c\<close>): a walk over the attributes of a decoded structure which resolves every handle whose
  attribute names a member for the structure it means, or every handle of an array of them, into an array of
  its own. The walk works on the memory of the structure beside the registry, whose other structures are
  looked up, and the structure is given its memory back in the end. Freeing has no trace in the model.
\<close>

record dmi_link_env =
  le_strict :: bool
  le_types :: dmi_type_map
  le_room :: "nat \<Rightarrow> bool"
  le_attributes :: "dmi_entity_spec \<Rightarrow> dmi_attribute list option"

section \<open>Handles\<close>

definition load_handle :: "dmi_memory \<Rightarrow> nat \<Rightarrow> dmi_handle_t" where
  "load_handle m a = load_word (mem_bytes m a 2)"

definition store_pointer :: "dmi_memory \<Rightarrow> nat \<Rightarrow> dmi_pointer option \<Rightarrow> dmi_memory" where
  "store_pointer m a p = mem_store m a (pointer_cells p)"

type_synonym dmi_link_registry = "dmi_memory dmi_registry \<times> dmi_error_queue"

text \<open>Resolving a handle into the member at an address.\<close>

definition link_target ::
    "dmi_link_env \<Rightarrow> nat list option \<Rightarrow> dmi_handle_t \<Rightarrow> nat \<Rightarrow> dmi_link_registry \<times> dmi_memory \<Rightarrow> bool \<times> dmi_link_registry \<times> dmi_memory" where
  "link_target env types handle a s =
    (case s of ((reg, q), m) \<Rightarrow>
       case dmi_registry_resolve_any (le_strict env) (le_types env) q reg handle types of
         ((ok, target), reg, q) \<Rightarrow> (ok, (reg, q), store_pointer m a (map_option Pointer_entity target)))"

text \<open>The handles of an array from the index \<open>i\<close> on, \<open>n\<close> of them.\<close>

primrec link_targets ::
    "dmi_link_env \<Rightarrow> nat list option \<Rightarrow> nat \<Rightarrow> nat \<Rightarrow> nat \<Rightarrow> nat \<Rightarrow> bool \<Rightarrow> dmi_link_registry \<times> dmi_memory
      \<Rightarrow> bool \<times> dmi_link_registry \<times> dmi_memory" where
  "link_targets env types handles targets i 0 success s = (success, s)"
| "link_targets env types handles targets i (Suc n) success s =
    (case link_target env types (load_handle (snd s) (handles + i * 2)) (targets + i * 8) s of
       (ok, s) \<Rightarrow> link_targets env types handles targets (i + 1) n (if \<not> ok then False else success) s)"

type_synonym dmi_attributes_link_fn = "dmi_attribute \<Rightarrow> nat \<Rightarrow> dmi_link_registry \<times> dmi_memory \<Rightarrow> bool \<times> dmi_link_registry \<times> dmi_memory"

text \<open>The array of the structures the \<open>count\<close> handles of an array stand for, which is kept at \<open>slot\<close>.\<close>

definition link_array ::
    "dmi_link_env \<Rightarrow> nat list option \<Rightarrow> nat \<Rightarrow> nat \<Rightarrow> nat \<Rightarrow> dmi_link_registry \<times> dmi_memory \<Rightarrow> bool \<times> dmi_link_registry \<times> dmi_memory" where
  "link_array env types slot handles count s =
    (case s of ((reg, q), m) \<Rightarrow>
       case dmi_alloc_array (le_room env) q (store_pointer m slot None) 8 (of_nat count) of
         (None, m, q) \<Rightarrow> (False, (reg, q), m)
       | (Some targets, m, q) \<Rightarrow>
           link_targets env types handles targets 0 count True ((reg, q), store_pointer m slot (Some (Pointer_elements targets))))"

definition dmi_attributes_link_handle :: "dmi_link_env \<Rightarrow> dmi_attributes_link_fn" where
  "dmi_attributes_link_handle env attr info s =
    (if \<not> dmi_member_is_present (ap_link (at_params attr)) then (True, s)
     else
       let ptr = info + mr_offset (at_value attr);
           target = info + mr_offset (ap_link (at_params attr));
           types = ap_targets (at_params attr)
       in if \<not> dmi_attribute_is_array attr then link_target env types (load_handle (snd s) ptr) target s
          else
            let handles = dmi_attribute_get_elements attr (snd s) ptr;
                count = (if handles \<noteq> None then dmi_attribute_get_count attr (snd s) info else 0)
            in if count = 0 then (True, s) else link_array env types target (the handles) count s)"

definition dmi_attributes_unlink_handle :: "dmi_attributes_link_fn" where
  "dmi_attributes_unlink_handle attr info s =
    (if \<not> dmi_member_is_present (ap_link (at_params attr)) \<or> \<not> dmi_attribute_is_array attr then (True, s)
     else (True, fst s, store_pointer (snd s) (info + mr_offset (ap_link (at_params attr))) None))"

section \<open>The walk\<close>

type_synonym dmi_link_walk = "bool \<times> dmi_link_registry"

definition dmi_attributes_link_member :: "dmi_attributes_link_fn \<Rightarrow> dmi_link_walk dmi_attribute_enter_fn" where
  "dmi_attributes_link_member handle node s =
    (case s of ((success, reg), m) \<Rightarrow>
       if at_type (nd_attr node) \<noteq> DMI_ATTRIBUTE_TYPE_HANDLE then (DMI_ATTRIBUTE_WALK_CONTINUE, s)
       else (case handle (nd_attr node) (nd_info node) (reg, m) of
               (ok, reg, m) \<Rightarrow> (DMI_ATTRIBUTE_WALK_SKIP, ((if \<not> ok then False else success), reg), m)))"

definition link_visitor :: "dmi_attributes_link_fn \<Rightarrow> dmi_link_walk dmi_attribute_visitor" where
  "link_visitor handle =
    \<lparr>vs_member_start = Some (dmi_attributes_link_member handle), vs_member_end = None, vs_struct_start = None, vs_struct_end = None,
     vs_array_start = None, vs_array_end = None, vs_item_start = None, vs_item_end = None, vs_value = None\<rparr>"

definition dmi_attributes_link_walk ::
    "dmi_attributes_link_fn \<Rightarrow> dmi_attribute list \<Rightarrow> dmi_link_registry \<times> dmi_memory \<Rightarrow> bool \<times> dmi_link_registry \<times> dmi_memory" where
  "dmi_attributes_link_walk handle attrs s =
    (case dmi_attributes_walk (link_visitor handle) attrs 0 ((True, fst s), snd s) of
       (_, (success, reg), m) \<Rightarrow> (success, reg, m))"

text \<open>Both of them leave a structure alone which has no attributes or has not been decoded.\<close>

definition link_with :: "dmi_link_env \<Rightarrow> dmi_attributes_link_fn \<Rightarrow> dmi_memory dmi_link_fn" where
  "link_with env handle n reg q =
    (let e = rg_entries reg ! n
     in case (en_spec e, en_info e) of
          (Some spec, Some m) \<Rightarrow>
            (case le_attributes env spec of
               None \<Rightarrow> (True, reg, q)
             | Some attrs \<Rightarrow>
                 (case dmi_attributes_link_walk handle attrs ((reg, q), m) of
                    (success, (reg, q), m) \<Rightarrow>
                      (success, reg\<lparr>rg_entries := (rg_entries reg)[n := (rg_entries reg ! n)\<lparr>en_info := Some m\<rparr>]\<rparr>, q)))
        | _ \<Rightarrow> (True, reg, q))"

definition dmi_attributes_link :: "dmi_link_env \<Rightarrow> dmi_memory dmi_link_fn" where
  "dmi_attributes_link env = link_with env (dmi_attributes_link_handle env)"

definition dmi_attributes_unlink :: "dmi_link_env \<Rightarrow> nat \<Rightarrow> dmi_memory dmi_registry \<Rightarrow> dmi_error_queue \<Rightarrow> dmi_memory dmi_registry \<times> dmi_error_queue" where
  "dmi_attributes_unlink env n reg q = (case link_with env dmi_attributes_unlink_handle n reg q of (_, reg, q) \<Rightarrow> (reg, q))"

section \<open>Structures with something to link\<close>

function dmi_attributes_have_links :: "dmi_attribute list \<Rightarrow> bool" where
  "dmi_attributes_have_links [] \<longleftrightarrow> False"
| "dmi_attributes_have_links (attr # attrs) \<longleftrightarrow>
    (if at_type attr = DMI_ATTRIBUTE_TYPE_NONE then False
     else if at_type attr = DMI_ATTRIBUTE_TYPE_HANDLE \<and> dmi_member_is_present (ap_link (at_params attr)) then True
     else if at_type attr = DMI_ATTRIBUTE_TYPE_STRUCT \<and> dmi_attributes_have_links (attributes_of attr) then True
     else dmi_attributes_have_links attrs)"
  by pat_completeness auto
termination
proof (relation "measure (size_list size)", goal_cases)
  case (2 attr attrs)
  then show ?case using size_attributes_of [of attr] by simp
qed simp_all

definition dmi_entity_is_linkable :: "dmi_link_env \<Rightarrow> (dmi_entity_spec \<Rightarrow> dmi_memory dmi_link_fn option) \<Rightarrow> dmi_memory dmi_entity \<Rightarrow> bool" where
  "dmi_entity_is_linkable env handlers e =
    (case en_spec e of
       None \<Rightarrow> False
     | Some spec \<Rightarrow>
         if handlers spec \<noteq> None then True
         else (case le_attributes env spec of None \<Rightarrow> False | Some attrs \<Rightarrow> dmi_attributes_have_links attrs))"

definition attribute_links :: "dmi_link_env \<Rightarrow> (dmi_entity_spec \<Rightarrow> dmi_memory dmi_link_fn option) \<Rightarrow> dmi_memory dmi_link_ops" where
  "attribute_links env handlers =
    \<lparr>lk_is_linkable = dmi_entity_is_linkable env handlers, lk_attributes = dmi_attributes_link env, lk_handler = handlers\<rparr>"

section \<open>What linking keeps\<close>

text \<open>The registry is as it was but for strings which have been looked at, and the queue is in order.\<close>

definition link_registry_frame :: "dmi_link_registry \<Rightarrow> dmi_link_registry \<Rightarrow> bool" where
  "link_registry_frame r r' \<longleftrightarrow>
     (registry_wf (fst r) \<longrightarrow> registry_wf (fst r') \<and> registry_marked (fst r) (fst r')) \<and> (registry_wf (fst r) \<longrightarrow> queue_wf (snd r) \<longrightarrow> queue_wf (snd r'))"

lemma link_registry_refl [simp]: "link_registry_frame r r"
  by (simp add: link_registry_frame_def)

lemma link_registry_trans: "link_registry_frame a b \<Longrightarrow> link_registry_frame b c \<Longrightarrow> link_registry_frame a c"
  by (auto simp: link_registry_frame_def intro: registry_marked_trans)

lemma link_target_result:
  assumes "link_target env types handle a ((reg, q), m) = (ok, (reg', q'), m')"
  shows "link_registry_frame (reg, q) (reg', q')"
    and "registry_wf reg \<Longrightarrow> ok = fst (resolve_spec (le_strict env) (le_types env) (rg_entries reg) handle types)"
    and "registry_wf reg \<Longrightarrow> m' = store_pointer m a (map_option Pointer_entity (snd (resolve_spec (le_strict env) (le_types env) (rg_entries reg) handle types)))"
proof -
  obtain r where r: "dmi_registry_resolve_any (le_strict env) (le_types env) q reg handle types = (r, reg', q')"
    and m': "ok = fst r" "m' = store_pointer m a (map_option Pointer_entity (snd r))"
    using assms by (auto simp: link_target_def split: prod.splits)
  note outcome = resolve_any_outcome [OF _ r]
  show "link_registry_frame (reg, q) (reg', q')" using outcome by (auto simp: link_registry_frame_def)
  show "ok = fst (resolve_spec (le_strict env) (le_types env) (rg_entries reg) handle types)" if "registry_wf reg"
    using outcome [OF that] m' by simp
  show "m' = store_pointer m a (map_option Pointer_entity (snd (resolve_spec (le_strict env) (le_types env) (rg_entries reg) handle types)))"
    if "registry_wf reg" using outcome [OF that] m' by simp
qed

lemma link_targets_frame: "link_targets env types handles targets i n success s = (ok, s') \<Longrightarrow> link_registry_frame (fst s) (fst s')"
proof (induction n arbitrary: i success s)
  case (Suc n)
  obtain reg q m where s: "s = ((reg, q), m)" by (metis prod.exhaust)
  obtain ok1 reg1 q1 m1 where t: "link_target env types (load_handle (snd s) (handles + i * 2)) (targets + i * 8) s = (ok1, (reg1, q1), m1)"
    by (metis prod.exhaust)
  have "link_registry_frame (reg, q) (reg1, q1)" using link_target_result(1) t unfolding s by blast
  moreover have "link_registry_frame (reg1, q1) (fst s')" using Suc.IH [of "i + 1" _ "((reg1, q1), m1)"] Suc.prems by (auto simp: t)
  ultimately show ?case by (simp add: s link_registry_trans)
qed simp

lemma link_array_frame:
  assumes "link_array env types slot handles count s = (ok, s')"
  shows "link_registry_frame (fst s) (fst s')"
proof -
  obtain reg q m where s: "s = ((reg, q), m)" by (metis prod.exhaust)
  obtain t m1 q1 where a: "dmi_alloc_array (le_room env) q (store_pointer m slot None) 8 (of_nat count) = (t, m1, q1)" by (metis prod_cases3)
  have q1: "link_registry_frame (reg, q) (reg, q1)" using a by (auto simp: dmi_alloc_array_def link_registry_frame_def split: if_splits)
  show ?thesis
  proof (cases t)
    case None
    then show ?thesis using assms a q1 by (auto simp: s link_array_def)
  next
    case (Some targets)
    then have "link_targets env types handles targets 0 count True ((reg, q1), store_pointer m1 slot (Some (Pointer_elements targets))) = (ok, s')"
      using assms a by (simp add: s link_array_def)
    from link_targets_frame [OF this] show ?thesis using link_registry_trans [OF q1] by (simp add: s)
  qed
qed

lemma link_handle_frame: "dmi_attributes_link_handle env attr info s = (ok, s') \<Longrightarrow> link_registry_frame (fst s) (fst s')"
proof -
  assume run: "dmi_attributes_link_handle env attr info s = (ok, s')"
  have target: "link_registry_frame (fst s) (fst t)" if "link_target env types h a s = (b, t)" for types h a b t
    using link_target_result(1) [of env types h a] that by (metis fst_conv prod.exhaust)
  show ?thesis
    using run target link_array_frame [of env _ _ _ _ s] by (auto simp: dmi_attributes_link_handle_def Let_def split: if_splits)
qed

text \<open>A client of the walk which links or unlinks keeps what its handler keeps.\<close>

lemma link_member_frame:
  assumes "\<And>attr info s. link_registry_frame (fst s) (fst (snd (handle attr info s)))"
  shows "link_registry_frame (snd (fst s)) (snd (fst (snd (dmi_attributes_link_member handle node s))))"
proof -
  obtain success reg m where s: "s = ((success, reg), m)" by (metis prod.exhaust)
  obtain ok reg' m' where h: "handle (nd_attr node) (nd_info node) (reg, m) = (ok, reg', m')" by (metis prod_cases3)
  have "link_registry_frame reg reg'" using assms [of "(reg, m)" "nd_attr node" "nd_info node"] h by simp
  then show ?thesis by (simp add: s h dmi_attributes_link_member_def)
qed

interpretation linking: attribute_visiting "link_visitor (dmi_attributes_link_handle env)"
    "\<lambda>s t. link_registry_frame (snd (fst s)) (snd (fst t))" for env
proof unfold_locales
  fix s :: "dmi_link_walk \<times> dmi_memory"
  show "link_registry_frame (snd (fst s)) (snd (fst s))" by simp
next
  fix s t u :: "dmi_link_walk \<times> dmi_memory"
  show "link_registry_frame (snd (fst s)) (snd (fst t)) \<Longrightarrow> link_registry_frame (snd (fst t)) (snd (fst u)) \<Longrightarrow>
      link_registry_frame (snd (fst s)) (snd (fst u))" by (rule link_registry_trans)
next
  fix enter :: "dmi_link_walk dmi_attribute_enter_fn" and node s
  assume "Some enter \<in> {vs_member_start (link_visitor (dmi_attributes_link_handle env)), vs_struct_start (link_visitor (dmi_attributes_link_handle env)),
      vs_array_start (link_visitor (dmi_attributes_link_handle env)), vs_item_start (link_visitor (dmi_attributes_link_handle env))}"
  then have "enter = dmi_attributes_link_member (dmi_attributes_link_handle env)" by (simp add: link_visitor_def)
  moreover have "link_registry_frame (fst s) (fst (snd (dmi_attributes_link_handle env attr info s)))" for attr info s
    using link_handle_frame [of env attr info s] by (metis prod.collapse)
  ultimately show "link_registry_frame (snd (fst s)) (snd (fst (snd (enter node s))))" using link_member_frame by simp
next
  fix leave :: "dmi_link_walk dmi_attribute_leave_fn" and node s
  assume "Some leave \<in> {vs_member_end (link_visitor (dmi_attributes_link_handle env)), vs_struct_end (link_visitor (dmi_attributes_link_handle env)),
      vs_array_end (link_visitor (dmi_attributes_link_handle env)), vs_item_end (link_visitor (dmi_attributes_link_handle env)),
      vs_value (link_visitor (dmi_attributes_link_handle env))}"
  then show "link_registry_frame (snd (fst s)) (snd (fst (snd (leave node s))))" by (simp add: link_visitor_def)
qed

lemma link_walk_frame:
  assumes "dmi_attributes_link_walk (dmi_attributes_link_handle env) attrs s = (ok, reg, m)"
  shows "link_registry_frame (fst s) reg"
proof -
  obtain b t where t: "dmi_attributes_walk (link_visitor (dmi_attributes_link_handle env)) attrs 0 ((True, fst s), snd s) = (b, t)"
    by (cases "dmi_attributes_walk (link_visitor (dmi_attributes_link_handle env)) attrs 0 ((True, fst s), snd s)")
  have "snd (fst t) = reg" using assms t by (auto simp: dmi_attributes_link_walk_def split: prod.splits)
  then show ?thesis using linking.walk_related [OF t] by simp
qed

section \<open>Linking is linking\<close>

lemma same_but_used_kept: "same_but_used e e' \<Longrightarrow> same_structure e e' \<and> en_spec e' = en_spec e \<and> en_state e' = en_state e"
  by (cases e; cases e') (simp add: same_but_used_def same_structure_def)

lemma marked_frame:
  assumes "registry_wf reg'" and "registry_marked reg reg'"
  shows "link_frame reg reg'"
  using assms unfolding link_frame_def registry_marked_def by (auto elim!: list_all2_mono dest: same_but_used_kept)

lemma link_frame_info:
  assumes wf: "registry_wf reg'" and marked: "registry_marked reg reg'" and n: "n < length (rg_entries reg)"
  shows "link_frame reg (reg'\<lparr>rg_entries := (rg_entries reg')[n := (rg_entries reg' ! n)\<lparr>en_info := Some m\<rparr>]\<rparr>)"
proof -
  let ?e = "rg_entries reg' ! n" and ?reg = "reg'\<lparr>rg_entries := (rg_entries reg')[n := (rg_entries reg' ! n)\<lparr>en_info := Some m\<rparr>]\<rparr>"
  have n': "n < length (rg_entries reg')" using n marked by simp
  have "registry_wf ?reg"
    by (rule registry_update_wf [OF wf n']) (use registry_wf_count [OF wf n'] in simp_all)
  moreover have "?reg = reg\<lparr>rg_entries := rg_entries ?reg\<rparr>" using marked by (cases reg; cases reg') (auto simp: registry_marked_def)
  moreover have "list_all2 (\<lambda>e e'. same_structure e e' \<and> en_spec e' = en_spec e \<and> en_state e' = en_state e) (rg_entries reg) (rg_entries ?reg)"
    unfolding list_all2_conv_all_nth
  proof (intro conjI allI impI)
    show "length (rg_entries reg) = length (rg_entries ?reg)" using marked by simp
  next
    fix i assume i: "i < length (rg_entries reg)"
    have kept: "same_structure (rg_entries reg ! i) (rg_entries reg' ! i)" "en_spec (rg_entries reg' ! i) = en_spec (rg_entries reg ! i)"
      "en_state (rg_entries reg' ! i) = en_state (rg_entries reg ! i)"
      using same_but_used_kept [OF registry_marked_nth [OF marked i]] by simp_all
    have "same_structure ?e (?e\<lparr>en_info := Some m\<rparr>)" by (simp add: same_structure_def)
    then have own: "same_structure (rg_entries reg ! i) (?e\<lparr>en_info := Some m\<rparr>)" if "i = n" using same_structure_trans kept(1) that by blast
    have new: "same_structure (rg_entries reg ! i) (rg_entries ?reg ! i) \<and> en_spec (rg_entries ?reg ! i) = en_spec (rg_entries reg ! i) \<and>
        en_state (rg_entries ?reg ! i) = en_state (rg_entries reg ! i)"
      using kept own n' by (cases "i = n") simp_all
    show "same_structure (rg_entries reg ! i) (rg_entries ?reg ! i)" "en_spec (rg_entries ?reg ! i) = en_spec (rg_entries reg ! i)"
      "en_state (rg_entries ?reg ! i) = en_state (rg_entries reg ! i)" using new by simp_all
  qed
  ultimately show ?thesis by (simp add: link_frame_def)
qed

lemma attributes_link_contract: "link_fn_contract (dmi_attributes_link env)"
  unfolding link_fn_contract_def
proof (intro allI impI)
  fix n reg q ok reg' q'
  assume wf: "registry_wf reg" and n: "n < length (rg_entries reg)" and run: "dmi_attributes_link env n reg q = (ok, reg', q')"
  have none: "link_frame reg reg" using marked_frame [OF wf] by simp
  consider (same) "reg' = reg" "q' = q"
    | (walk) m attrs success reg1 q1 m1 where "dmi_attributes_link_walk (dmi_attributes_link_handle env) attrs ((reg, q), m) = (success, (reg1, q1), m1)"
        "reg' = reg1\<lparr>rg_entries := (rg_entries reg1)[n := (rg_entries reg1 ! n)\<lparr>en_info := Some m1\<rparr>]\<rparr>" "q' = q1"
    using run by (auto simp: dmi_attributes_link_def link_with_def Let_def split: option.splits prod.splits)
  then show "link_frame reg reg' \<and> (queue_wf q \<longrightarrow> queue_wf q')"
  proof cases
    case same
    then show ?thesis using none by simp
  next
    case walk
    have frame: "link_registry_frame (reg, q) (reg1, q1)" using link_walk_frame [OF walk(1)] by simp
    then show ?thesis using wf link_frame_info [of reg1 reg n m1] n walk(2,3) by (simp add: link_registry_frame_def)
  qed
qed

text \<open>With handlers which keep to the interface, linking by attributes is what the pass over the registry expects.\<close>

lemma attribute_links_contract:
  assumes "\<forall>spec f. handlers spec = Some f \<longrightarrow> link_fn_contract f"
  shows "link_contract (attribute_links env handlers)"
  using assms attributes_link_contract
  by (simp add: link_contract_def attribute_links_def dmi_entity_is_linkable_def)

end
