(* ===== verification/Link_Results.thy ===== *)
theory Link_Results
  imports Links
begin

text \<open>
  What linking a structure by its attributes comes to: the walk gives every handle attribute to the handler in
  the order they are declared in, each handle is resolved in the registry as it was before, and the members
  the attributes name hold what the handles stand for, whether all of them can be resolved or not.
\<close>

section \<open>Handle attributes in their order\<close>

definition link_nodes :: "dmi_memory \<Rightarrow> (nat \<Rightarrow> dmi_attribute_node list) \<Rightarrow> dmi_attribute_node \<Rightarrow> dmi_attribute_node list" where
  "link_nodes m nodes node =
    (if at_type (nd_attr node) = DMI_ATTRIBUTE_TYPE_HANDLE then [node]
     else if at_type (nd_attr node) = DMI_ATTRIBUTE_TYPE_STRUCT then
       (if dmi_attribute_is_array (nd_attr node)
        then concat (map (\<lambda>i. nodes (nd_value (item_node m node i))) [0..<nd_count (array_node node m)])
        else nodes (nd_value node))
     else [])"

function handle_nodes :: "dmi_memory \<Rightarrow> dmi_attribute list \<Rightarrow> nat \<Rightarrow> dmi_attribute_node list" where
  "handle_nodes m [] info = []"
| "handle_nodes m (attr # attrs) info =
    (if at_type attr = DMI_ATTRIBUTE_TYPE_NONE then []
     else
       (case dmi_attribute_resolve attr m info of
          None \<Rightarrow> []
        | Some resolved \<Rightarrow> link_nodes m (handle_nodes m (attributes_of resolved)) (member_node attr resolved info))
       @ handle_nodes m attrs info)"
  by pat_completeness auto
termination
proof (relation "measure (\<lambda>(m, attrs, info). size_list size attrs)", goal_cases)
  case (2 m attr attrs info resolved info')
  then have "size_list size (attributes_of resolved) < size attr"
    using size_resolved [of attr m info resolved] size_attributes_of [of resolved] by linarith
  then show ?case by simp
qed simp_all

declare handle_nodes.simps [simp del]

lemma handle_nodes_type: "node \<in> set (handle_nodes m attrs info) \<Longrightarrow> at_type (nd_attr node) = DMI_ATTRIBUTE_TYPE_HANDLE"
proof (induction "size_list size attrs" arbitrary: attrs info rule: less_induct)
  case less
  show ?case
  proof (cases attrs)
    case Nil
    then show ?thesis using less.prems by (simp add: handle_nodes.simps)
  next
    case (Cons attr rest)
    have rest: "node \<in> set (handle_nodes m rest info) \<Longrightarrow> at_type (nd_attr node) = DMI_ATTRIBUTE_TYPE_HANDLE"
      using less.hyps [of rest info] Cons by simp
    have nested: "node \<in> set (handle_nodes m (attributes_of r) a) \<Longrightarrow> at_type (nd_attr node) = DMI_ATTRIBUTE_TYPE_HANDLE"
      if "Some r = dmi_attribute_resolve attr m info" for r a
      using less.hyps [of "attributes_of r" a] size_attributes_of [of r] size_resolved [OF that [symmetric]] Cons by simp
    show ?thesis
      using less.prems rest nested Cons by (auto simp: handle_nodes.simps link_nodes_def split: if_splits option.splits)
  qed
qed

section \<open>The walk as a pass over the handles\<close>

definition keeps :: "nat set \<Rightarrow> dmi_memory \<Rightarrow> dmi_memory \<Rightarrow> bool" where
  "keeps F m m' \<longleftrightarrow> agrees F m m' \<and> mm_next m \<le> mm_next m'"

lemma keeps_refl [simp]: "keeps F m m"
  by (simp add: keeps_def)

lemma keeps_agrees: "keeps F m m' \<Longrightarrow> agrees F m m'"
  by (simp add: keeps_def)

primrec link_each :: "dmi_attributes_link_fn \<Rightarrow> dmi_attribute_node list \<Rightarrow> dmi_link_walk \<times> dmi_memory \<Rightarrow> dmi_link_walk \<times> dmi_memory" where
  "link_each handle [] s = s"
| "link_each handle (n # ns) s = link_each handle ns (snd (dmi_attributes_link_member handle n s))"

lemma link_each_append: "link_each handle (ns @ ks) s = link_each handle ks (link_each handle ns s)"
  by (induction ns arbitrary: s) simp_all

definition passes ::
    "dmi_attributes_link_fn \<Rightarrow> (dmi_link_walk \<times> dmi_memory \<Rightarrow> bool) \<Rightarrow> dmi_attribute_node list
      \<Rightarrow> (dmi_link_walk \<times> dmi_memory \<Rightarrow> bool \<times> dmi_link_walk \<times> dmi_memory) \<Rightarrow> bool" where
  "passes handle P ns w \<longleftrightarrow>
    (\<forall>s. P s \<longrightarrow> w s = (True, link_each handle ns s) \<and> P (link_each handle ns s))"

lemma passes_nothing: "passes handle P [] (\<lambda>s. (True, s))"
  by (simp add: passes_def)

lemma passes_then:
  assumes "passes handle P ns w" and "passes handle P ks x"
  shows "passes handle P (ns @ ks) (\<lambda>s. case w s of (False, t) \<Rightarrow> (False, t) | (True, t) \<Rightarrow> x t)"
  unfolding passes_def
proof (intro allI impI)
  fix s :: "dmi_link_walk \<times> dmi_memory" assume s: "P s"
  have one: "w s = (True, link_each handle ns s)" "P (link_each handle ns s)" using assms(1) s unfolding passes_def by blast+
  have "x (link_each handle ns s) = (True, link_each handle ks (link_each handle ns s)) \<and> P (link_each handle ks (link_each handle ns s))"
    using assms(2) one(2) unfolding passes_def by blast
  then show "(case w s of (False, t) \<Rightarrow> (False, t) | (True, t) \<Rightarrow> x t) = (True, link_each handle (ns @ ks) s) \<and> P (link_each handle (ns @ ks) s)"
    using one by (simp add: link_each_append)
qed

lemma passes_cong:
  assumes "passes handle P ns w'" and "\<And>s. P s \<Longrightarrow> w s = w' s"
  shows "passes handle P ns w"
  using assms by (simp add: passes_def)

lemma link_value:
  "dmi_attribute_walk_value (link_visitor handle) nested node =
    (if at_type (nd_attr node) = DMI_ATTRIBUTE_TYPE_STRUCT then nested (nd_value node) else (\<lambda>s. (True, s)))"
  by (intro ext) (simp add: dmi_attribute_walk_value_def struct_around link_visitor_def around_nothing dmi_attribute_leave_def)

lemma passes_items:
  assumes "\<And>j. i \<le> j \<Longrightarrow> j < i + n \<Longrightarrow> passes handle P (nodes (nd_value (item j))) (w (item j))"
    and item: "\<And>j. item j = array\<lparr>nd_value := elements + j * mr_size (at_value (nd_attr array)), nd_index := of_nat j\<rparr>"
    and w: "\<And>j. dmi_attribute_walk_value (link_visitor handle) nested (item j) = w (item j)"
  shows "passes handle P (concat (map (\<lambda>j. nodes (nd_value (item j))) [i..<i + n])) (walk_items (link_visitor handle) nested array elements i n)"
  using assms(1)
proof (induction n arbitrary: i)
  case 0
  then show ?case by (simp add: passes_def)
next
  case (Suc n)
  have "[i..<i + Suc n] = i # [i + 1..<i + 1 + n]" by (simp add: upt_conv_Cons del: upt_Suc)
  then have split: "concat (map (\<lambda>j. nodes (nd_value (item j))) [i..<i + Suc n]) =
      nodes (nd_value (item i)) @ concat (map (\<lambda>j. nodes (nd_value (item j))) [i + 1..<i + 1 + n])"
    by (simp only: list.map concat.simps)
  have later: "passes handle P (concat (map (\<lambda>j. nodes (nd_value (item j))) [i + 1..<i + 1 + n]))
      (walk_items (link_visitor handle) nested array elements (i + 1) n)"
    by (rule Suc.IH) (rule Suc.prems; simp)
  have none: "vs_item_start (link_visitor handle) = None" "vs_item_end (link_visitor handle) = None" by (simp_all add: link_visitor_def)
  have step: "walk_items (link_visitor handle) nested array elements i (Suc n) =
      (\<lambda>s. case w (item i) s of (False, t) \<Rightarrow> (False, t) | (True, t) \<Rightarrow> walk_items (link_visitor handle) nested array elements (i + 1) n t)"
    unfolding w [symmetric] unfolding item [of i]
    by (intro ext) (simp add: Let_def none dmi_attribute_enter_def dmi_attribute_leave_def split: prod.split bool.split)
  show ?case unfolding split step by (rule passes_then [OF Suc.prems later]) simp_all
qed

lemma passes_member:
  assumes keep: "\<And>s. P s \<Longrightarrow> agrees F m (snd s)" and reads: "member_reads attr (Some r) info \<subseteq> F" "nested_reads m reads' (member_node attr r info) \<subseteq> F"
    and nested: "\<And>a. reads' a \<subseteq> F \<Longrightarrow> (\<And>node s. node \<in> set (nodes a) \<Longrightarrow> P s \<Longrightarrow> P (snd (dmi_attributes_link_member handle node s))) \<Longrightarrow>
      passes handle P (nodes a) (nested a)"
    and one: "\<And>node s. node \<in> set (link_nodes m nodes (member_node attr r info)) \<Longrightarrow> P s \<Longrightarrow>
      P (snd (dmi_attributes_link_member handle node s))"
  shows "passes handle P (link_nodes m nodes (member_node attr r info)) (walk_member (link_visitor handle) nested attr r info)"
proof -
  let ?node = "member_node attr r info"
  have start: "vs_member_start (link_visitor handle) = Some (dmi_attributes_link_member handle)" and none: "vs_member_end (link_visitor handle) = None"
    "vs_array_start (link_visitor handle) = None" "vs_array_end (link_visitor handle) = None" by (simp_all add: link_visitor_def)
  have enter: "dmi_attribute_enter (vs_member_start (link_visitor handle)) ?node s =
      (if at_type r = DMI_ATTRIBUTE_TYPE_HANDLE then (DMI_ATTRIBUTE_WALK_SKIP, snd (dmi_attributes_link_member handle ?node s))
       else (DMI_ATTRIBUTE_WALK_CONTINUE, s))" for s
    by (cases s) (auto simp: start dmi_attribute_enter_def dmi_attributes_link_member_def split: prod.split)
  show ?thesis
  proof (cases "at_type r = DMI_ATTRIBUTE_TYPE_HANDLE")
    case True
    then have "walk_member (link_visitor handle) nested attr r info = (\<lambda>s. (True, snd (dmi_attributes_link_member handle ?node s)))"
      unfolding member_around around_def enter by (intro ext) simp
    moreover have "link_nodes m nodes ?node = [?node]" using True by (simp add: link_nodes_def)
    ultimately show ?thesis using one by (simp add: passes_def)
  next
    case other: False
    have walk: "walk_member (link_visitor handle) nested attr r info s =
        (if dmi_attribute_is_array r then dmi_attribute_walk_array (link_visitor handle) nested ?node s
         else dmi_attribute_walk_value (link_visitor handle) nested ?node s)" for s
      unfolding member_around around_def enter using other by (simp add: none dmi_attribute_leave_def split: prod.split bool.split)
    show ?thesis
    proof (cases "dmi_attribute_is_array r")
      case False
      have "walk_member (link_visitor handle) nested attr r info =
          (if at_type r = DMI_ATTRIBUTE_TYPE_STRUCT then nested (nd_value ?node) else (\<lambda>s. (True, s)))"
        by (intro ext) (simp add: walk False link_value)
      moreover have "passes handle P (nodes (nd_value ?node)) (nested (nd_value ?node))" if "at_type r = DMI_ATTRIBUTE_TYPE_STRUCT"
        using that False other reads(2) one by (intro nested) (simp_all add: nested_reads_def value_reads_def link_nodes_def)
      ultimately show ?thesis using False other passes_nothing by (simp add: link_nodes_def)
    next
      case True
      let ?a = "array_node ?node m" and ?b = "array_base ?node m"
      let ?w = "\<lambda>node. if at_type r = DMI_ATTRIBUTE_TYPE_STRUCT then nested (nd_value node) else (\<lambda>s. (True, s))"
      let ?nodes = "\<lambda>a. if at_type r = DMI_ATTRIBUTE_TYPE_STRUCT then nodes a else []"
      have all: "link_nodes m nodes ?node = concat (map (\<lambda>j. ?nodes (nd_value (item_node m ?node j))) [0..<0 + nd_count ?a])"
        using True other by (simp add: link_nodes_def)
      have items: "passes handle P (concat (map (\<lambda>j. ?nodes (nd_value (item_node m ?node j))) [0..<0 + nd_count ?a]))
          (walk_items (link_visitor handle) nested ?a ?b 0 (nd_count ?a))"
      proof (rule passes_items [where item = "item_node m ?node" and w = ?w])
        fix j assume j: "0 \<le> j" "j < 0 + nd_count ?a"
        show "passes handle P (?nodes (nd_value (item_node m ?node j))) (?w (item_node m ?node j))"
        proof (cases "at_type r = DMI_ATTRIBUTE_TYPE_STRUCT")
          case struct: True
          have "passes handle P (nodes (nd_value (item_node m ?node j))) (nested (nd_value (item_node m ?node j)))"
          proof (rule nested)
            show "reads' (nd_value (item_node m ?node j)) \<subseteq> F"
              using reads(2) True j struct by (simp add: nested_reads_def value_reads_def item_node_def UN_subset_iff)
            show "P (snd (dmi_attributes_link_member handle n s))"
              if "n \<in> set (nodes (nd_value (item_node m ?node j)))" "P s" for n s
              using that j struct by (intro one) (auto simp: all)
          qed
          then show ?thesis using struct by simp
        qed (simp add: passes_nothing)
      next
        show "item_node m ?node j = ?a\<lparr>nd_value := ?b + j * mr_size (at_value (nd_attr ?a)), nd_index := of_nat j\<rparr>" for j
          by (simp add: item_node_def)
        show "dmi_attribute_walk_value (link_visitor handle) nested (item_node m ?node j) = ?w (item_node m ?node j)" for j
          by (simp add: link_value item_node_def)
      qed
      show ?thesis unfolding all
      proof (rule passes_cong [OF items])
        fix s :: "dmi_link_walk \<times> dmi_memory" assume "P s"
        note same = agrees_array [OF keep [OF this] reads(1) True]
        show "walk_member (link_visitor handle) nested attr r info s = walk_items (link_visitor handle) nested ?a ?b 0 (nd_count ?a) s"
          unfolding walk by (simp add: True array_around none around_nothing same [symmetric])
      qed
    qed
  qed
qed

lemma passes_walk:
  assumes keep: "\<And>s. P s \<Longrightarrow> agrees F m (snd s)" and "structure_reads m attrs info \<subseteq> F"
    and "\<And>node s. node \<in> set (handle_nodes m attrs info) \<Longrightarrow> P s \<Longrightarrow> P (snd (dmi_attributes_link_member handle node s))"
  shows "passes handle P (handle_nodes m attrs info) (dmi_attributes_walk (link_visitor handle) attrs info)"
  using assms(2,3)
proof (induction "size_list size attrs" arbitrary: attrs info rule: less_induct)
  case less
  show ?case
  proof (cases attrs)
    case Nil
    have "dmi_attributes_walk (link_visitor handle) attrs info = (\<lambda>s. (True, s))" by (intro ext) (simp add: Nil dmi_attributes_walk.simps)
    then show ?thesis by (simp add: Nil handle_nodes.simps passes_nothing)
  next
    case (Cons attr rest)
    show ?thesis
    proof (cases "at_type attr = DMI_ATTRIBUTE_TYPE_NONE")
      case True
      have "dmi_attributes_walk (link_visitor handle) attrs info = (\<lambda>s. (True, s))" by (intro ext) (simp add: Cons True dmi_attributes_walk.simps)
      then show ?thesis by (simp add: Cons True handle_nodes.simps passes_nothing)
    next
      case False
      have rest: "passes handle P (handle_nodes m rest info) (dmi_attributes_walk (link_visitor handle) rest info)"
      proof (rule less.hyps)
        show "size_list size rest < size_list size attrs" using Cons by simp
        show "structure_reads m rest info \<subseteq> F" using less.prems(1) Cons False by (simp add: structure_reads.simps)
        show "P (snd (dmi_attributes_link_member handle node s))" if "node \<in> set (handle_nodes m rest info)" "P s" for node s
          using that Cons False by (intro less.prems(2)) (simp_all add: handle_nodes.simps)
      qed
      have reads: "member_reads attr (dmi_attribute_resolve attr m info) info \<subseteq> F" using less.prems(1) Cons False by (simp add: structure_reads.simps)
      note same = agrees_resolve [OF keep reads]
      show ?thesis
      proof (cases "dmi_attribute_resolve attr m info")
        case None
        have nodes: "handle_nodes m attrs info = handle_nodes m rest info" using Cons False None by (simp add: handle_nodes.simps)
        show ?thesis unfolding nodes
        proof (rule passes_cong [OF rest])
          fix s :: "dmi_link_walk \<times> dmi_memory" assume "P s"
          from same [OF this] show "dmi_attributes_walk (link_visitor handle) attrs info s = dmi_attributes_walk (link_visitor handle) rest info s"
            unfolding Cons dmi_attributes_walk.simps using False None by simp
        qed
      next
        case (Some r)
        let ?walk = "walk_member (link_visitor handle) (dmi_attributes_walk (link_visitor handle) (attributes_of r)) attr r info"
        have nodes: "handle_nodes m attrs info =
            link_nodes m (handle_nodes m (attributes_of r)) (member_node attr r info) @ handle_nodes m rest info"
          using Cons False Some by (simp add: handle_nodes.simps)
        have member: "passes handle P (link_nodes m (handle_nodes m (attributes_of r)) (member_node attr r info)) ?walk"
        proof (rule passes_member [OF keep, where reads' = "structure_reads m (attributes_of r)"])
          show "member_reads attr (Some r) info \<subseteq> F" using reads Some by simp
          show "nested_reads m (structure_reads m (attributes_of r)) (member_node attr r info) \<subseteq> F"
            using less.prems(1) Cons False Some by (simp add: structure_reads.simps)
          show "P (snd (dmi_attributes_link_member handle node s))"
            if "node \<in> set (link_nodes m (handle_nodes m (attributes_of r)) (member_node attr r info))" "P s" for node s
            using that by (intro less.prems(2)) (simp_all add: nodes)
          have "size_list size (attributes_of r) < size_list size attrs" using size_attributes_of [of r] size_resolved [OF Some] Cons by simp
          then show "passes handle P (handle_nodes m (attributes_of r) a) (dmi_attributes_walk (link_visitor handle) (attributes_of r) a)"
            if "structure_reads m (attributes_of r) a \<subseteq> F"
              "\<And>node s. node \<in> set (handle_nodes m (attributes_of r) a) \<Longrightarrow> P s \<Longrightarrow> P (snd (dmi_attributes_link_member handle node s))" for a
            using that by (rule less.hyps)
        qed
        show ?thesis unfolding nodes
        proof (rule passes_cong [OF passes_then [OF member rest]])
          fix s :: "dmi_link_walk \<times> dmi_memory" assume "P s"
          from same [OF this] Some have r: "dmi_attribute_resolve attr (snd s) info = Some r" by simp
          show "dmi_attributes_walk (link_visitor handle) attrs info s =
              (case ?walk s of (False, t) \<Rightarrow> (False, t) | (True, t) \<Rightarrow> dmi_attributes_walk (link_visitor handle) rest info t)"
            unfolding Cons dmi_attributes_walk.simps r using False by simp
        qed
      qed
    qed
  qed
qed

end
