(* ===== verification/Link_Properties.thy ===== *)
theory Link_Properties
  imports Link_Results
begin

text \<open>
  What the members hold after linking, and the properties of linking. The structures handles are resolved
  into are the ones of the registry before, as resolving a handle changes nothing of a structure but
  which of its strings have been looked at.
\<close>

section \<open>Resolving again and again\<close>

lemma resolve_spec_marked:
  assumes wf: "registry_wf reg" and marked: "registry_marked reg reg'"
  shows "resolve_spec strict type_map (rg_entries reg') = resolve_spec strict type_map (rg_entries reg)"
proof (intro ext)
  fix handle types
  have len: "length (rg_entries reg') = length (rg_entries reg)" using marked by simp
  have entry: "en_handle (rg_entries reg' ! n) = en_handle (rg_entries reg ! n)" if "n < length (rg_entries reg)" for n
    using registry_marked_nth [OF marked that] by (cases "rg_entries reg ! n"; cases "rg_entries reg' ! n") (simp add: same_but_used_def)
  have found: "find (\<lambda>n. en_handle (rg_entries reg' ! n) = handle) [0..<length (rg_entries reg')] =
      find (\<lambda>n. en_handle (rg_entries reg ! n) = handle) [0..<length (rg_entries reg)]"
    unfolding len by (rule find_cong) (simp_all add: entry)
  have kind: "entity_kind type_map (rg_entries reg' ! n) = entity_kind type_map (rg_entries reg ! n)"
    if "find (\<lambda>n. en_handle (rg_entries reg ! n) = handle) [0..<length (rg_entries reg)] = Some n" for n
    using registry_marked_kind [OF wf marked, of n] that by (auto simp: find_Some_iff)
  show "resolve_spec strict type_map (rg_entries reg') handle types = resolve_spec strict type_map (rg_entries reg) handle types"
    unfolding resolve_spec_def found using kind by (simp split: option.split)
qed

section \<open>Pointers in memory\<close>

lemma length_pointer_cells [simp]: "length (pointer_cells p) = 8"
  by (simp add: pointer_cells_def split: option.split)

lemma load_stored_pointer: "load_pointer (store_pointer m a p) a = p"
proof -
  have cells: "mem_load (store_pointer m a p) a 8 = pointer_cells p"
    unfolding store_pointer_def by (rule mem_load_same) simp
  have "mm_cells (store_pointer m a p) a = pointer_cells p ! 0" by (simp add: store_pointer_def mem_store_cell)
  then show ?thesis using cells by (cases p) (simp_all add: load_pointer_def pointer_cells_def)
qed

lemma store_pointer_agrees: "agrees (- {a..<a + 8}) m (store_pointer m a p)"
  using agrees_store [of a "pointer_cells p" m] by (simp add: store_pointer_def)

lemma store_pointer_next [simp]: "mm_next (store_pointer m a p) = mm_next m"
  by (simp add: store_pointer_def)

lemma load_handle_agrees: "agrees F m m' \<Longrightarrow> {a..<a + 2} \<subseteq> F \<Longrightarrow> load_handle m a = load_handle m' a"
  by (simp add: load_handle_def agrees_bytes)

section \<open>One handle attribute\<close>

text \<open>Where the handles of an attribute are, and where what they stand for goes.\<close>

definition node_slot :: "dmi_attribute_node \<Rightarrow> nat" where
  "node_slot node = nd_info node + mr_offset (ap_link (at_params (nd_attr node)))"

definition node_linked :: "dmi_attribute_node \<Rightarrow> bool" where
  "node_linked node \<longleftrightarrow> dmi_member_is_present (ap_link (at_params (nd_attr node)))"

definition node_place :: "dmi_attribute_node \<Rightarrow> nat" where
  "node_place node = nd_info node + mr_offset (at_value (nd_attr node))"

definition node_count :: "dmi_memory \<Rightarrow> dmi_attribute_node \<Rightarrow> nat" where
  "node_count m node =
    (if \<not> dmi_attribute_is_array (nd_attr node) then 1
     else if dmi_attribute_get_elements (nd_attr node) m (node_place node) = None then 0
     else dmi_attribute_get_count (nd_attr node) m (nd_info node))"

definition node_base :: "dmi_memory \<Rightarrow> dmi_attribute_node \<Rightarrow> nat" where
  "node_base m node =
    (if \<not> dmi_attribute_is_array (nd_attr node) then node_place node
     else (case dmi_attribute_get_elements (nd_attr node) m (node_place node) of Some e \<Rightarrow> e | None \<Rightarrow> 0))"

definition node_handle :: "dmi_memory \<Rightarrow> dmi_attribute_node \<Rightarrow> nat \<Rightarrow> dmi_handle_t" where
  "node_handle m node i = load_handle m (node_base m node + i * 2)"

text \<open>The cells linking a node depends on: the member or the pointer and the counter of an array, and the handles.\<close>

definition handle_cells :: "dmi_memory \<Rightarrow> dmi_attribute_node \<Rightarrow> nat set" where
  "handle_cells m node =
    {node_base m node..<node_base m node + node_count m node * 2} \<union>
    (if dmi_attribute_is_array (nd_attr node) \<and> at_count (nd_attr node) = 0
     then {node_place node..<node_place node + 8} \<union>
       {nd_info node + mr_offset (at_counter (nd_attr node))..<
        nd_info node + mr_offset (at_counter (nd_attr node)) + mr_size (at_counter (nd_attr node))}
     else {})"

definition slot_cells :: "dmi_attribute_node \<Rightarrow> nat set" where
  "slot_cells node = (if node_linked node then {node_slot node..<node_slot node + 8} else {})"

text \<open>There is memory for the structures of an array of handles.\<close>

definition node_granted :: "dmi_link_env \<Rightarrow> dmi_memory \<Rightarrow> dmi_attribute_node \<Rightarrow> bool" where
  "node_granted env m node \<longleftrightarrow> \<not> dmi_attribute_is_array (nd_attr node) \<or> node_count m node = 0 \<or>
     (node_count m node \<le> unat SIZE_MAX div 8 \<and> le_room env (8 * node_count m node))"

text \<open>What the members hold, with \<open>R\<close> the structure a handle stands for.\<close>

definition node_placed :: "(dmi_handle_t \<Rightarrow> nat option) \<Rightarrow> dmi_memory \<Rightarrow> dmi_attribute_node \<Rightarrow> dmi_memory \<Rightarrow> bool" where
  "node_placed R m node m' \<longleftrightarrow>
    (if \<not> dmi_attribute_is_array (nd_attr node)
     then load_pointer m' (node_slot node) = map_option Pointer_entity (R (node_handle m node 0))
     else node_count m node \<noteq> 0 \<longrightarrow>
       (\<exists>targets. load_pointer m' (node_slot node) = Some (Pointer_elements targets) \<and>
         mm_next m \<le> targets \<and> targets + node_count m node * 8 \<le> mm_next m' \<and>
         (\<forall>i < node_count m node. load_pointer m' (targets + i * 8) = map_option Pointer_entity (R (node_handle m node i)))))"

lemma node_agrees:
  assumes "agrees F m m'" and "handle_cells m node \<subseteq> F"
  shows "node_count m' node = node_count m node" and "node_base m' node = node_base m node"
    and "i < node_count m node \<Longrightarrow> node_handle m' node i = node_handle m node i"
proof -
  have elements: "dmi_attribute_get_elements (nd_attr node) m (node_place node) = dmi_attribute_get_elements (nd_attr node) m' (node_place node)"
    if "dmi_attribute_is_array (nd_attr node)"
    using assms(2) that agrees_pointer [OF assms(1), of "node_place node"]
    by (auto simp: handle_cells_def dmi_attribute_get_elements_def split: if_splits)
  have count: "dmi_attribute_get_count (nd_attr node) m (nd_info node) = dmi_attribute_get_count (nd_attr node) m' (nd_info node)"
    if "dmi_attribute_is_array (nd_attr node)"
    using assms(2) that agrees_load_uint [OF assms(1), of "nd_info node + mr_offset (at_counter (nd_attr node))" "mr_size (at_counter (nd_attr node))" 0]
    by (auto simp: handle_cells_def dmi_attribute_get_count_def dmi_attribute_read_uint_def split: if_splits)
  show same: "node_count m' node = node_count m node" "node_base m' node = node_base m node"
    using elements count by (simp_all add: node_count_def node_base_def)
  show "node_handle m' node i = node_handle m node i" if "i < node_count m node"
  proof -
    have "{node_base m node + i * 2..<node_base m node + i * 2 + 2} \<subseteq> F"
      using assms(2) that by (auto simp: handle_cells_def)
    from load_handle_agrees [OF assms(1) this] show ?thesis by (simp add: node_handle_def same)
  qed
qed

text \<open>The loop over the handles of an array.\<close>

lemma link_targets_result:
  assumes "link_targets env types handles targets i n success s = (ok, s')" and "registry_wf (fst (fst s))"
    and "\<And>j. i \<le> j \<Longrightarrow> j < i + n \<Longrightarrow> {handles + j * 2..<handles + j * 2 + 2} \<inter> {targets + i * 8..<targets + (i + n) * 8} = {}"
    and "R = resolve_spec (le_strict env) (le_types env) (rg_entries (fst (fst s)))"
  shows "(ok \<longleftrightarrow> success \<and> (\<forall>j. i \<le> j \<and> j < i + n \<longrightarrow> fst (R (load_handle (snd s) (handles + j * 2)) types))) \<and>
    mm_next (snd s') = mm_next (snd s) \<and> agrees (- {targets + i * 8..<targets + (i + n) * 8}) (snd s) (snd s') \<and>
    (\<forall>j. i \<le> j \<and> j < i + n \<longrightarrow> load_pointer (snd s') (targets + j * 8) =
      map_option Pointer_entity (snd (R (load_handle (snd s) (handles + j * 2)) types)))"
  using assms
proof (induction n arbitrary: i success s)
  case 0
  then show ?case by auto
next
  case (Suc n)
  obtain reg q m where s: "s = ((reg, q), m)" by (metis prod.exhaust)
  obtain ok1 reg1 q1 m1 where t: "link_target env types (load_handle m (handles + i * 2)) (targets + i * 8) ((reg, q), m) = (ok1, (reg1, q1), m1)"
    by (metis prod.exhaust)
  have wf: "registry_wf reg" using Suc.prems(2) s by simp
  let ?h = "load_handle m (handles + i * 2)"
  have r: "ok1 = fst (R ?h types)" "m1 = store_pointer m (targets + i * 8) (map_option Pointer_entity (snd (R ?h types)))"
    using link_target_result(2,3) [OF t wf] Suc.prems(4) s by simp_all
  have reg1: "registry_wf reg1" "registry_marked reg reg1" using link_target_result(1) [OF t] wf by (simp_all add: link_registry_frame_def)
  have R1: "R = resolve_spec (le_strict env) (le_types env) (rg_entries (fst (fst ((reg1, q1), m1))))"
    using resolve_spec_marked [OF wf reg1(2)] Suc.prems(4) s by simp
  have run: "link_targets env types handles targets (i + 1) n (if \<not> ok1 then False else success) ((reg1, q1), m1) = (ok, s')"
    using Suc.prems(1) t by (simp add: s)
  have apart: "{handles + j * 2..<handles + j * 2 + 2} \<inter> {targets + (i + 1) * 8..<targets + (i + 1 + n) * 8} = {}"
    if "i + 1 \<le> j" "j < i + 1 + n" for j using Suc.prems(3) [of j] that by fastforce
  have IH: "(ok \<longleftrightarrow> (if \<not> ok1 then False else success) \<and> (\<forall>j. i + 1 \<le> j \<and> j < i + 1 + n \<longrightarrow> fst (R (load_handle m1 (handles + j * 2)) types))) \<and>
    mm_next (snd s') = mm_next m1 \<and> agrees (- {targets + (i + 1) * 8..<targets + (i + 1 + n) * 8}) m1 (snd s') \<and>
    (\<forall>j. i + 1 \<le> j \<and> j < i + 1 + n \<longrightarrow> load_pointer (snd s') (targets + j * 8) =
      map_option Pointer_entity (snd (R (load_handle m1 (handles + j * 2)) types)))"
    using Suc.IH [OF run _ apart R1] reg1(1) by simp
  have stored: "agrees (- {targets + i * 8..<targets + i * 8 + 8}) m m1" unfolding r(2) by (rule store_pointer_agrees)
  have same: "load_handle m1 (handles + j * 2) = load_handle m (handles + j * 2)" if "i \<le> j" "j < i + Suc n" for j
  proof -
    have "{handles + j * 2..<handles + j * 2 + 2} \<subseteq> - {targets + i * 8..<targets + i * 8 + 8}"
      using Suc.prems(3) [OF that] by fastforce
    from load_handle_agrees [OF stored this] show ?thesis by simp
  qed
  have split: "i \<le> j \<and> j < i + Suc n \<longleftrightarrow> j = i \<or> i + 1 \<le> j \<and> j < i + 1 + n" for j by auto
  have first: "load_pointer (snd s') (targets + i * 8) = map_option Pointer_entity (snd (R ?h types))"
  proof -
    have "load_pointer m1 (targets + i * 8) = load_pointer (snd s') (targets + i * 8)"
      by (rule agrees_pointer [OF IH [THEN conjunct2, THEN conjunct2, THEN conjunct1]]) auto
    then show ?thesis using load_stored_pointer r(2) by simp
  qed
  have next': "mm_next m1 = mm_next m" using r(2) by simp
  have whole: "agrees (- {targets + i * 8..<targets + (i + Suc n) * 8}) m (snd s')"
  proof (rule agrees_trans)
    show "agrees (- {targets + i * 8..<targets + (i + Suc n) * 8}) m m1" by (rule agrees_subset [OF stored]) auto
    show "agrees (- {targets + i * 8..<targets + (i + Suc n) * 8}) m1 (snd s')"
      by (rule agrees_subset [OF IH [THEN conjunct2, THEN conjunct2, THEN conjunct1]]) auto
  qed
  show ?case unfolding s snd_conv split
    using IH first same next' whole r(1) by (auto simp: split)
qed

lemma array_granted:
  assumes "count < 18446744073709551616" and "count \<noteq> 0"
  shows "dmi_alloc_array room q m 8 (of_nat count) =
    (if count \<le> unat SIZE_MAX div 8 \<and> room (8 * count)
     then (Some (mm_next m), mem_store m (mm_next m) (replicate (8 * count) (Byte 0))\<lparr>mm_next := mm_next m + 8 * count\<rparr>, q)
     else (None, m, raise_error q DMI_ERROR_OUT_OF_MEMORY))"
  using assms by (auto simp: dmi_alloc_array_def unat_of_nat_size)

lemma link_array_result:
  assumes wf: "registry_wf reg" and R: "R = resolve_spec (le_strict env) (le_types env) (rg_entries reg)"
    and run: "link_array env types slot handles count ((reg, q), m) = (ok, (reg', q'), m')"
    and count: "count < 18446744073709551616" "count \<noteq> 0"
    and below: "handles + count * 2 \<le> mm_next m" "slot + 8 \<le> mm_next m"
    and apart: "{handles..<handles + count * 2} \<inter> {slot..<slot + 8} = {}"
  shows "(ok \<longleftrightarrow> (count \<le> unat SIZE_MAX div 8 \<and> le_room env (8 * count)) \<and> (\<forall>i<count. fst (R (load_handle m (handles + i * 2)) types))) \<and>
    keeps ({..<mm_next m} - {slot..<slot + 8}) m m' \<and>
    (count \<le> unat SIZE_MAX div 8 \<and> le_room env (8 * count) \<longrightarrow>
      (\<exists>targets. load_pointer m' slot = Some (Pointer_elements targets) \<and> mm_next m \<le> targets \<and> targets + count * 8 \<le> mm_next m' \<and>
        (\<forall>i<count. load_pointer m' (targets + i * 8) = map_option Pointer_entity (snd (R (load_handle m (handles + i * 2)) types)))))"
proof (cases "count \<le> unat SIZE_MAX div 8 \<and> le_room env (8 * count)")
  case False
  then have "ok = False" "m' = store_pointer m slot None"
    using run array_granted [OF count, of "le_room env" q "store_pointer m slot None"] by (auto simp: link_array_def)
  moreover have "keeps ({..<mm_next m} - {slot..<slot + 8}) m (store_pointer m slot None)"
    using agrees_subset [OF store_pointer_agrees [of slot m None]] by (auto simp: keeps_def)
  ultimately show ?thesis using False by auto
next
  case True
  define m1 where "m1 = store_pointer m slot None"
  define t where "t = mm_next m"
  define m2 where "m2 = mem_store m1 t (replicate (8 * count) (Byte 0))\<lparr>mm_next := t + 8 * count\<rparr>"
  define m3 where "m3 = store_pointer m2 slot (Some (Pointer_elements t))"
  have "dmi_alloc_array (le_room env) q m1 8 (of_nat count) = (Some t, m2, q)"
    using True array_granted [OF count, of "le_room env" q m1] by (simp add: m1_def m2_def t_def)
  then have loop: "link_targets env types handles t 0 count True ((reg, q), m3) = (ok, (reg', q'), m')"
    using run by (simp add: link_array_def m1_def m3_def)
  have cells: "mm_cells m3 k = mm_cells m k" if "k < t" "k \<notin> {slot..<slot + 8}" for k
    using that by (auto simp: m3_def m2_def m1_def store_pointer_def mem_store_cell)
  have far: "{handles + j * 2..<handles + j * 2 + 2} \<inter> {t + 0 * 8..<t + (0 + count) * 8} = {}" if "0 \<le> j" "j < 0 + count" for j
    using below(1) that by (auto simp: t_def)
  have R': "R = resolve_spec (le_strict env) (le_types env) (rg_entries (fst (fst ((reg, q), m3))))" using R by simp
  have wf': "registry_wf (fst (fst ((reg, q), m3)))" using wf by simp
  note result = link_targets_result [OF loop wf' far R']
  have same: "load_handle m3 (handles + i * 2) = load_handle m (handles + i * 2)" if "i < count" for i
  proof (rule load_handle_agrees)
    show "agrees ({..<t} - {slot..<slot + 8}) m3 m" using cells by (auto simp: agrees_def)
    have "{handles + i * 2..<handles + i * 2 + 2} \<subseteq> {handles..<handles + count * 2}" using that by auto
    then show "{handles + i * 2..<handles + i * 2 + 2} \<subseteq> {..<t} - {slot..<slot + 8}" using apart below(1) by (auto simp: t_def)
  qed
  have next': "mm_next m' = t + 8 * count" using result by (simp add: m3_def m2_def)
  have frame: "agrees (- {t..<t + count * 8}) m3 m'" using result by simp
  have "agrees ({..<mm_next m} - {slot..<slot + 8}) m m'"
  proof (rule agrees_trans)
    show "agrees ({..<mm_next m} - {slot..<slot + 8}) m m3" using cells by (auto simp: agrees_def t_def)
    show "agrees ({..<mm_next m} - {slot..<slot + 8}) m3 m'" by (rule agrees_subset [OF frame]) (auto simp: t_def)
  qed
  then have "keeps ({..<mm_next m} - {slot..<slot + 8}) m m'" using next' by (simp add: keeps_def t_def)
  moreover have "load_pointer m' slot = Some (Pointer_elements t)"
  proof -
    have "load_pointer m3 slot = load_pointer m' slot" by (rule agrees_pointer [OF frame]) (use below(2) in \<open>auto simp: t_def\<close>)
    then show ?thesis using load_stored_pointer by (simp add: m3_def)
  qed
  moreover have "ok \<longleftrightarrow> (\<forall>i<count. fst (R (load_handle m (handles + i * 2)) types))" using result same by auto
  moreover have "\<forall>i<count. load_pointer m' (t + i * 8) = map_option Pointer_entity (snd (R (load_handle m (handles + i * 2)) types))"
    using result same by auto
  ultimately show ?thesis using True next' by (auto simp: t_def)
qed

text \<open>Linking one attribute: what the handler answers, what it leaves alone and what it stores.\<close>

definition node_ready :: "nat \<Rightarrow> dmi_memory \<Rightarrow> dmi_attribute_node \<Rightarrow> bool" where
  "node_ready limit m node \<longleftrightarrow> handle_cells m node \<subseteq> {..<limit} \<and> slot_cells node \<subseteq> {..<limit} \<and>
     handle_cells m node \<inter> slot_cells node = {} \<and> node_count m node < 18446744073709551616"

lemma link_node_result:
  assumes wf: "registry_wf reg" and R: "R = (\<lambda>h. resolve_spec (le_strict env) (le_types env) (rg_entries reg) h (ap_targets (at_params (nd_attr node))))"
    and run: "dmi_attributes_link_handle env (nd_attr node) (nd_info node) ((reg, q), m) = (ok, (reg', q'), m')"
    and ready: "node_ready (mm_next m) m node"
  shows "(ok \<longleftrightarrow> node_linked node \<longrightarrow> node_granted env m node \<and> (\<forall>i < node_count m node. fst (R (node_handle m node i)))) \<and>
    keeps ({..<mm_next m} - slot_cells node) m m' \<and>
    (node_linked node \<longrightarrow> node_granted env m node \<longrightarrow> node_placed (\<lambda>h. snd (R h)) m node m')"
proof (cases "node_linked node")
  case False
  then have "ok \<and> m' = m" using run by (simp add: dmi_attributes_link_handle_def node_linked_def)
  then show ?thesis using False by simp
next
  case True
  let ?types = "ap_targets (at_params (nd_attr node))"
  have place: "nd_info node + mr_offset (at_value (nd_attr node)) = node_place node"
    "nd_info node + mr_offset (ap_link (at_params (nd_attr node))) = node_slot node" by (simp_all add: node_place_def node_slot_def)
  have slot: "slot_cells node = {node_slot node..<node_slot node + 8}" using True by (simp add: slot_cells_def)
  show ?thesis
  proof (cases "dmi_attribute_is_array (nd_attr node)")
    case False
    then have t: "link_target env ?types (load_handle m (node_place node)) (node_slot node) ((reg, q), m) = (ok, (reg', q'), m')"
      using run True by (simp add: dmi_attributes_link_handle_def node_linked_def place)
    note result = link_target_result(2,3) [OF t wf]
    have "node_count m node = 1" "node_handle m node 0 = load_handle m (node_place node)" "node_granted env m node"
      using False by (simp_all add: node_count_def node_handle_def node_base_def node_granted_def)
    moreover have "keeps ({..<mm_next m} - slot_cells node) m m'"
      unfolding keeps_def result(2) by (simp, rule agrees_subset [OF store_pointer_agrees]) (auto simp: slot)
    moreover have "load_pointer m' (node_slot node) = map_option Pointer_entity (snd (R (load_handle m (node_place node))))"
      using result(2) load_stored_pointer R by simp
    ultimately show ?thesis using result(1) R False True by (simp add: node_placed_def)
  next
    case array: True
    define count where "count = node_count m node"
    show ?thesis
    proof (cases "count = 0")
      case True
      then have "ok \<and> m' = m" using run array
        by (auto simp: dmi_attributes_link_handle_def place count_def node_count_def Let_def split: if_splits)
      then show ?thesis using True array by (simp add: count_def node_granted_def node_placed_def)
    next
      case False
      obtain e where e: "dmi_attribute_get_elements (nd_attr node) m (node_place node) = Some e"
        "count = dmi_attribute_get_count (nd_attr node) m (nd_info node)"
        using False array by (auto simp: count_def node_count_def split: if_splits)
      have base: "node_base m node = e" using e array by (simp add: node_base_def)
      have a: "link_array env ?types (node_slot node) e count ((reg, q), m) = (ok, (reg', q'), m')"
        using run \<open>node_linked node\<close> array e False by (simp add: dmi_attributes_link_handle_def node_linked_def place Let_def)
      have cells: "{e..<e + count * 2} \<subseteq> handle_cells m node" by (auto simp: handle_cells_def base count_def)
      have "e + count * 2 \<le> mm_next m"
      proof -
        have "e + (count * 2 - 1) \<in> {e..<e + count * 2}" using False by simp
        then have "e + (count * 2 - 1) \<in> {..<mm_next m}" using cells ready unfolding node_ready_def by blast
        then show ?thesis using False by simp
      qed
      moreover have "node_slot node + 8 \<le> mm_next m"
      proof -
        have "node_slot node + 7 \<in> slot_cells node" by (simp add: slot)
        then have "node_slot node + 7 \<in> {..<mm_next m}" using ready unfolding node_ready_def by blast
        then show ?thesis by simp
      qed
      moreover have "{e..<e + count * 2} \<inter> {node_slot node..<node_slot node + 8} = {}"
        using cells ready unfolding node_ready_def slot by blast
      moreover have "count < 18446744073709551616" using ready by (simp add: node_ready_def count_def)
      ultimately show ?thesis
        using link_array_result [OF wf refl a] False R array \<open>node_linked node\<close>
        by (simp add: node_granted_def node_placed_def node_handle_def base slot count_def)
    qed
  qed
qed

section \<open>All the handle attributes of a structure\<close>

lemma node_kept:
  assumes "keeps F m m'" and "handle_cells m node \<subseteq> F" and "node_ready (mm_next m) m node"
  shows "node_granted env m' node = node_granted env m node" and "node_ready (mm_next m') m' node"
    and "node_placed R m' node m'' \<Longrightarrow> node_placed R m node m''"
proof -
  have m: "agrees F m m'" "mm_next m \<le> mm_next m'" using assms(1) by (simp_all add: keeps_def)
  note same = node_agrees [OF m(1) assms(2)]
  show "node_granted env m' node = node_granted env m node" by (simp add: node_granted_def same(1))
  have "handle_cells m' node = handle_cells m node" by (simp add: handle_cells_def same(1,2))
  then show "node_ready (mm_next m') m' node"
    using assms(3) m(2) by (force simp: node_ready_def same(1))
  show "node_placed R m node m''" if "node_placed R m' node m''"
  proof (cases "dmi_attribute_is_array (nd_attr node)")
    case False
    then show ?thesis using that same(3) [of 0] by (simp add: node_placed_def node_count_def)
  next
    case True
    then show ?thesis using that same m(2) by (fastforce simp: node_placed_def)
  qed
qed

text \<open>What has been stored for a node stays when other slots are written and memory is added.\<close>

lemma node_placed_stays:
  assumes placed: "node_placed R m node m1" and later: "keeps ({..<mm_next m1} - S) m1 m2"
    and S: "S \<inter> slot_cells node = {}" "S \<subseteq> {..<mm_next m}"
    and ready: "node_ready (mm_next m) m node" "node_linked node" "mm_next m \<le> mm_next m1"
  shows "node_placed R m node m2"
proof -
  have m2: "agrees ({..<mm_next m1} - S) m1 m2" "mm_next m1 \<le> mm_next m2" using later by (simp_all add: keeps_def)
  have cells: "slot_cells node = {node_slot node..<node_slot node + 8}" using ready(2) by (simp add: slot_cells_def)
  have "slot_cells node \<subseteq> {..<mm_next m1} - S" using ready(1,3) S(1) by (force simp: node_ready_def)
  then have slot: "load_pointer m2 (node_slot node) = load_pointer m1 (node_slot node)" using agrees_pointer [OF m2(1)] by (simp add: cells)
  have new: "load_pointer m2 a = load_pointer m1 a" if "mm_next m \<le> a" "a + 8 \<le> mm_next m1" for a
  proof -
    have "{a..<a + 8} \<subseteq> {..<mm_next m1} - S" using that S(2) by force
    from agrees_pointer [OF m2(1) this] show ?thesis by simp
  qed
  show ?thesis
  proof (cases "dmi_attribute_is_array (nd_attr node) \<and> node_count m node \<noteq> 0")
    case False
    then show ?thesis using placed slot by (auto simp: node_placed_def)
  next
    case True
    then obtain t where t: "load_pointer m1 (node_slot node) = Some (Pointer_elements t)" "mm_next m \<le> t"
      "t + node_count m node * 8 \<le> mm_next m1"
      "\<forall>i < node_count m node. load_pointer m1 (t + i * 8) = map_option Pointer_entity (R (node_handle m node i))"
      using placed unfolding node_placed_def by auto
    have "load_pointer m2 (t + i * 8) = load_pointer m1 (t + i * 8)" if "i < node_count m node" for i
      using t(2,3) that by (intro new) simp_all
    then show ?thesis using True t m2(2) slot unfolding node_placed_def by (auto intro!: exI [of _ t])
  qed
qed

definition node_resolves :: "dmi_link_env \<Rightarrow> 'i dmi_entity list \<Rightarrow> dmi_attribute_node \<Rightarrow> dmi_handle_t \<Rightarrow> bool \<times> nat option" where
  "node_resolves env entries node h = resolve_spec (le_strict env) (le_types env) entries h (ap_targets (at_params (nd_attr node)))"

definition node_success :: "dmi_link_env \<Rightarrow> 'i dmi_entity list \<Rightarrow> dmi_memory \<Rightarrow> dmi_attribute_node \<Rightarrow> bool" where
  "node_success env entries m node \<longleftrightarrow>
    (node_linked node \<longrightarrow> node_granted env m node \<and> list_all (\<lambda>i. fst (node_resolves env entries node (node_handle m node i))) [0..<node_count m node])"

definition slots :: "dmi_attribute_node list \<Rightarrow> nat set" where
  "slots ns = (\<Union>n\<in>set ns. slot_cells n)"

lemma slots_simps [simp]: "slots [] = {}" "slots (n # ns) = slot_cells n \<union> slots ns"
  by (simp_all add: slots_def)

lemma link_member_result:
  assumes wf: "registry_wf reg" and marked: "registry_marked reg0 reg" and wf0: "registry_wf reg0"
    and kept: "keeps F m0 m" "handle_cells m0 node \<subseteq> F"
    and ready: "node_ready (mm_next m0) m0 node" and handle: "at_type (nd_attr node) = DMI_ATTRIBUTE_TYPE_HANDLE"
    and run: "snd (dmi_attributes_link_member (dmi_attributes_link_handle env) node ((success, (reg, q)), m)) = ((success', (reg', q')), m')"
  shows "success' = (success \<and> node_success env (rg_entries reg0) m0 node)"
    and "registry_wf reg'" and "registry_marked reg0 reg'"
    and "keeps ({..<mm_next m} - slot_cells node) m m'"
    and "node_linked node \<Longrightarrow> node_granted env m0 node \<Longrightarrow> node_placed (\<lambda>h. snd (node_resolves env (rg_entries reg0) node h)) m0 node m'"
proof -
  obtain ok where h: "dmi_attributes_link_handle env (nd_attr node) (nd_info node) ((reg, q), m) = (ok, (reg', q'), m')"
    and success': "success' = (if \<not> ok then False else success)"
    using run handle by (auto simp: dmi_attributes_link_member_def split: prod.splits)
  have frame: "link_registry_frame (reg, q) (reg', q')" using link_handle_frame [OF h] by simp
  then show "registry_wf reg'" "registry_marked reg0 reg'"
    using wf registry_marked_trans [OF marked] by (simp_all add: link_registry_frame_def)
  note here = node_kept [OF kept ready]
  have agree: "agrees F m0 m" using kept(1) by (rule keeps_agrees)
  have R: "node_resolves env (rg_entries reg0) node =
      (\<lambda>h. resolve_spec (le_strict env) (le_types env) (rg_entries reg) h (ap_targets (at_params (nd_attr node))))"
    by (intro ext) (simp add: node_resolves_def resolve_spec_marked [OF wf0 marked])
  note result = link_node_result [OF wf R h here(2)]
  have "(\<forall>i<node_count m node. fst (node_resolves env (rg_entries reg0) node (node_handle m node i))) \<longleftrightarrow>
      (\<forall>i<node_count m0 node. fst (node_resolves env (rg_entries reg0) node (node_handle m0 node i)))"
    using node_agrees [OF agree kept(2)] by simp
  then show "success' = (success \<and> node_success env (rg_entries reg0) m0 node)"
    using result success' by (cases "node_linked node") (auto simp: node_success_def here(1) list_all_iff)
  show "keeps ({..<mm_next m} - slot_cells node) m m'" using result by simp
  show "node_placed (\<lambda>h. snd (node_resolves env (rg_entries reg0) node h)) m0 node m'"
    if "node_linked node" "node_granted env m0 node" using result that here(1,3) by simp
qed

lemma keeps_then:
  assumes "keeps ({..<mm_next a} - S) a b" and "keeps ({..<mm_next b} - T) b c"
  shows "keeps ({..<mm_next a} - (S \<union> T)) a c"
proof -
  have "agrees ({..<mm_next a} - (S \<union> T)) a b" "agrees ({..<mm_next a} - (S \<union> T)) b c"
    using assms by (auto simp: keeps_def intro: agrees_subset)
  then show ?thesis using assms agrees_trans by (auto simp: keeps_def)
qed

text \<open>No member that is looked at is one that is written, and no two references are kept at one place.\<close>

definition nodes_apart :: "dmi_memory \<Rightarrow> nat set \<Rightarrow> dmi_attribute_node list \<Rightarrow> bool" where
  "nodes_apart m S ns \<longleftrightarrow> list_all (\<lambda>n. node_ready (mm_next m) m n \<and> at_type (nd_attr n) = DMI_ATTRIBUTE_TYPE_HANDLE \<and> handle_cells m n \<inter> S = {} \<and> slot_cells n \<subseteq> S) ns \<and>
     sorted_wrt (\<lambda>n k. slot_cells n \<inter> slot_cells k = {}) ns"

lemma nodes_apart_Cons:
  "nodes_apart m S (n # ns) \<longleftrightarrow>
     node_ready (mm_next m) m n \<and> at_type (nd_attr n) = DMI_ATTRIBUTE_TYPE_HANDLE \<and> handle_cells m n \<inter> S = {} \<and> slot_cells n \<subseteq> S \<and>
     slot_cells n \<inter> slots ns = {} \<and> nodes_apart m S ns"
  by (auto simp: nodes_apart_def slots_def)

lemma node_keeps:
  assumes "nodes_apart m0 S ns" and "n \<in> set ns" and kept: "keeps ({..<mm_next m0} - S) m0 m" and wf: "registry_wf reg" "registry_wf reg0" "registry_marked reg0 reg"
    and run: "snd (dmi_attributes_link_member (dmi_attributes_link_handle env) n ((success, (reg, q)), m)) = ((success', (reg', q')), m')"
  shows "keeps ({..<mm_next m0} - S) m0 m'"
proof -
  have n: "node_ready (mm_next m0) m0 n" "at_type (nd_attr n) = DMI_ATTRIBUTE_TYPE_HANDLE" "handle_cells m0 n \<inter> S = {}" "slot_cells n \<subseteq> S"
    using assms(1,2) by (auto simp: nodes_apart_def list_all_iff)
  have "handle_cells m0 n \<subseteq> {..<mm_next m0} - S" using n(1,3) by (auto simp: node_ready_def)
  from link_member_result(4) [OF wf(1) wf(3) wf(2) kept this n(1,2) run]
  have "keeps ({..<mm_next m} - slot_cells n) m m'" .
  moreover have "keeps ({..<mm_next m0} - S) m0 m" by (rule kept)
  ultimately have "keeps ({..<mm_next m0} - (S \<union> slot_cells n)) m0 m'" by (rule keeps_then [rotated])
  then show ?thesis using n(4) by (simp add: Un_absorb2)
qed

lemma link_each_result:
  assumes wf0: "registry_wf reg0"
  shows "nodes_apart m0 S ns \<Longrightarrow> keeps ({..<mm_next m0} - S) m0 m \<Longrightarrow> registry_wf reg \<Longrightarrow> registry_marked reg0 reg \<Longrightarrow>
    link_each (dmi_attributes_link_handle env) ns ((success, (reg, q)), m) = ((success', (reg', q')), m') \<Longrightarrow>
    success' = (success \<and> list_all (node_success env (rg_entries reg0) m0) ns) \<and> registry_wf reg' \<and> registry_marked reg0 reg' \<and>
    keeps ({..<mm_next m} - slots ns) m m' \<and>
    (\<forall>n\<in>set ns. node_linked n \<longrightarrow> node_granted env m0 n \<longrightarrow> node_placed (\<lambda>h. snd (node_resolves env (rg_entries reg0) n h)) m0 n m')"
proof (induction ns arbitrary: success reg q m)
  case Nil
  then show ?case by simp
next
  case (Cons n ns)
  obtain ok1 reg1 q1 m1 where one: "snd (dmi_attributes_link_member (dmi_attributes_link_handle env) n ((success, (reg, q)), m)) = ((ok1, (reg1, q1)), m1)"
    by (metis prod.exhaust)
  have n: "node_ready (mm_next m0) m0 n" "at_type (nd_attr n) = DMI_ATTRIBUTE_TYPE_HANDLE" "handle_cells m0 n \<inter> S = {}" "slot_cells n \<subseteq> S"
    "slot_cells n \<inter> slots ns = {}" "nodes_apart m0 S ns" using Cons.prems(1) by (simp_all add: nodes_apart_Cons)
  have "handle_cells m0 n \<subseteq> {..<mm_next m0} - S" using n(1,3) by (auto simp: node_ready_def)
  note r = link_member_result [OF Cons.prems(3,4) wf0 Cons.prems(2) this n(1,2) one]
  have kept: "keeps ({..<mm_next m0} - S) m0 m1"
    by (rule node_keeps [OF Cons.prems(1) _ Cons.prems(2,3) wf0 Cons.prems(4) one]) simp
  have "link_each (dmi_attributes_link_handle env) ns ((ok1, (reg1, q1)), m1) = ((success', (reg', q')), m')"
    using Cons.prems(5) one by simp
  note rest = Cons.IH [OF n(6) kept r(2,3) this]
  have later: "keeps ({..<mm_next m1} - slots ns) m1 m'" using rest by simp
  have below: "slots ns \<subseteq> {..<mm_next m0}"
    using n(6) by (auto simp: slots_def nodes_apart_def list_all_iff node_ready_def)
  have "node_placed (\<lambda>h. snd (node_resolves env (rg_entries reg0) n h)) m0 n m'" if "node_linked n" "node_granted env m0 n"
    by (rule node_placed_stays [OF r(5) [OF that] later _ below n(1) that(1)]) (use n(5) kept in \<open>auto simp: keeps_def\<close>)
  moreover have "keeps ({..<mm_next m} - slots (n # ns)) m m'" using keeps_then [OF r(4) later] by simp
  ultimately show ?case using rest r(1) by auto
qed

section \<open>Linking a structure\<close>

text \<open>
  A structure laid out as the tables of the library lay theirs out: the members references go into are apart
  from each other and from all that is read on the way to the handles.
\<close>

definition links_apart :: "dmi_memory \<Rightarrow> dmi_attribute list \<Rightarrow> bool" where
  "links_apart m attrs \<longleftrightarrow>
    (let ns = handle_nodes m attrs 0
     in nodes_apart m (slots ns) ns \<and> structure_reads m attrs 0 \<subseteq> {..<mm_next m} - slots ns)"

lemma link_walk_result:
  assumes wf: "registry_wf reg" and apart: "links_apart m attrs"
    and run: "dmi_attributes_link_walk (dmi_attributes_link_handle env) attrs ((reg, q), m) = (ok, (reg', q'), m')"
  defines "ns \<equiv> handle_nodes m attrs 0"
  shows "(ok \<longleftrightarrow> list_all (node_success env (rg_entries reg) m) ns) \<and> registry_wf reg' \<and> registry_marked reg reg' \<and>
    keeps ({..<mm_next m} - slots ns) m m' \<and>
    (\<forall>n\<in>set ns. node_linked n \<longrightarrow> node_granted env m n \<longrightarrow> node_placed (\<lambda>h. snd (node_resolves env (rg_entries reg) n h)) m n m')"
proof -
  define P where "P s \<longleftrightarrow> keeps ({..<mm_next m} - slots ns) m (snd s) \<and> registry_wf (fst (snd (fst s))) \<and> registry_marked reg (fst (snd (fst s)))"
    for s :: "dmi_link_walk \<times> dmi_memory"
  have nodes: "nodes_apart m (slots ns) ns" "structure_reads m attrs 0 \<subseteq> {..<mm_next m} - slots ns"
    using apart by (simp_all add: links_apart_def ns_def Let_def)
  have "passes (dmi_attributes_link_handle env) P ns (dmi_attributes_walk (link_visitor (dmi_attributes_link_handle env)) attrs 0)"
    unfolding ns_def
  proof (rule passes_walk [OF _ nodes(2)])
    show "agrees ({..<mm_next m} - slots ns) m (snd s)" if "P s" for s using that by (simp add: P_def keeps_def)
    show "P (snd (dmi_attributes_link_member (dmi_attributes_link_handle env) n s))" if n: "n \<in> set (handle_nodes m attrs 0)" and s: "P s" for n s
    proof -
      obtain success r c k where s': "s = ((success, (r, c)), k)" by (metis prod.exhaust)
      obtain success2 r2 c2 k2 where t: "snd (dmi_attributes_link_member (dmi_attributes_link_handle env) n s) = ((success2, (r2, c2)), k2)"
        by (metis prod.exhaust)
      have state: "keeps ({..<mm_next m} - slots ns) m k" "registry_wf r" "registry_marked reg r" using s by (simp_all add: P_def s')
      have "keeps ({..<mm_next m} - slots ns) m k2"
        using node_keeps [OF nodes(1) _ state(1,2) wf state(3) t [unfolded s']] n by (simp add: ns_def)
      moreover have "link_registry_frame (r, c) (r2, c2)"
        using link_member_frame [of "dmi_attributes_link_handle env" s n] link_handle_frame by (simp add: s' t [unfolded s']) (metis prod.collapse)
      ultimately show ?thesis using state registry_marked_trans [OF state(3)] by (simp add: P_def t link_registry_frame_def)
    qed
  qed
  then have "dmi_attributes_walk (link_visitor (dmi_attributes_link_handle env)) attrs 0 ((True, (reg, q)), m) =
      (True, link_each (dmi_attributes_link_handle env) ns ((True, (reg, q)), m))"
    using wf by (simp add: passes_def P_def)
  then have "link_each (dmi_attributes_link_handle env) ns ((True, (reg, q)), m) = ((ok, (reg', q')), m')"
    using run by (auto simp: dmi_attributes_link_walk_def split: prod.splits)
  from link_each_result [OF wf nodes(1) keeps_refl wf _ this] show ?thesis by simp
qed

lemma link_with_run:
  assumes entry: "en_spec (rg_entries reg ! n) = Some spec" "en_info (rg_entries reg ! n) = Some m" "le_attributes env spec = Some attrs"
    and run: "link_with env handle n reg q = (ok, reg', q')"
  obtains reg1 m1 where "dmi_attributes_link_walk handle attrs ((reg, q), m) = (ok, (reg1, q'), m1)"
    and "reg' = reg1\<lparr>rg_entries := (rg_entries reg1)[n := (rg_entries reg1 ! n)\<lparr>en_info := Some m1\<rparr>]\<rparr>"
  using run by (auto simp: link_with_def entry Let_def split: prod.splits)

text \<open>
  C13. Linking a structure succeeds exactly if every reference of it can be resolved, and the structures of
  every array of references can be kept. Whether it succeeds or not, every member a reference goes into
  holds the structure that reference stands for or nothing, an array of references one for each of them;
  of the rest of the structure nothing is touched, and of the other structures of the table nothing but the mark of the
  strings that have been looked at.
\<close>

theorem attributes_link_correct:
  assumes "registry_wf reg" and "n < length (rg_entries reg)"
    and "en_spec (rg_entries reg ! n) = Some spec" and "en_info (rg_entries reg ! n) = Some m" and "le_attributes env spec = Some attrs"
    and "links_apart m attrs" and "dmi_attributes_link env n reg q = (ok, reg', q')"
  shows "(ok \<longleftrightarrow> list_all (node_success env (rg_entries reg) m) (handle_nodes m attrs 0)) \<and>
    (\<exists>m'. en_info (rg_entries reg' ! n) = Some m' \<and> agrees ({..<mm_next m} - slots (handle_nodes m attrs 0)) m m' \<and>
      list_all (\<lambda>node. node_linked node \<longrightarrow> node_granted env m node \<longrightarrow>
        node_placed (\<lambda>h. snd (node_resolves env (rg_entries reg) node h)) m node m') (handle_nodes m attrs 0)) \<and>
    registry_wf reg' \<and> (\<forall>k < length (rg_entries reg). k \<noteq> n \<longrightarrow> same_but_used (rg_entries reg ! k) (rg_entries reg' ! k))"
proof -
  obtain reg1 m1 where walk: "dmi_attributes_link_walk (dmi_attributes_link_handle env) attrs ((reg, q), m) = (ok, (reg1, q'), m1)"
    and reg': "reg' = reg1\<lparr>rg_entries := (rg_entries reg1)[n := (rg_entries reg1 ! n)\<lparr>en_info := Some m1\<rparr>]\<rparr>"
    using link_with_run [OF assms(3-5) assms(7) [unfolded dmi_attributes_link_def]] .
  note r = link_walk_result [OF assms(1,6) walk]
  have marked: "registry_marked reg reg1" and wf1: "registry_wf reg1" using r by simp_all
  have n1: "n < length (rg_entries reg1)" using marked assms(2) by simp
  have "registry_wf reg'" unfolding reg'
    by (rule registry_update_wf [OF wf1 n1]) (use registry_wf_count [OF wf1 n1] in simp_all)
  moreover have "en_info (rg_entries reg' ! n) = Some m1" using n1 by (simp add: reg')
  moreover have "same_but_used (rg_entries reg ! k) (rg_entries reg' ! k)" if "k < length (rg_entries reg)" "k \<noteq> n" for k
    using registry_marked_nth [OF marked that(1)] that(2) by (simp add: reg')
  ultimately show ?thesis using r by (auto simp: keeps_def list_all_iff)
qed

section \<open>Unlinking\<close>

definition node_unlinked :: "dmi_attribute_node \<Rightarrow> bool" where
  "node_unlinked node \<longleftrightarrow> node_linked node \<and> dmi_attribute_is_array (nd_attr node)"

definition unlink_node :: "dmi_attribute_node \<Rightarrow> dmi_memory \<Rightarrow> dmi_memory" where
  "unlink_node node m = (if node_unlinked node then store_pointer m (node_slot node) None else m)"

lemma unlink_member:
  "at_type (nd_attr n) = DMI_ATTRIBUTE_TYPE_HANDLE \<Longrightarrow>
    snd (dmi_attributes_link_member dmi_attributes_unlink_handle n (c, m)) = (c, unlink_node n m)"
  by (cases c) (auto simp: dmi_attributes_link_member_def dmi_attributes_unlink_handle_def unlink_node_def node_unlinked_def node_linked_def node_slot_def)

lemma unlink_node_keeps: "keeps ({..<mm_next m} - slot_cells n) m (unlink_node n m)"
proof (cases "node_unlinked n")
  case True
  then have "slot_cells n = {node_slot n..<node_slot n + 8}" by (simp add: node_unlinked_def slot_cells_def)
  then show ?thesis unfolding keeps_def unlink_node_def using True
    by (simp, intro agrees_subset [OF store_pointer_agrees]) auto
qed (simp add: unlink_node_def)

lemma unlink_each:
  assumes "nodes_apart m0 S ns" and "mm_next m0 \<le> mm_next m"
  shows "\<exists>m'. link_each dmi_attributes_unlink_handle ns (c, m) = (c, m') \<and> keeps ({..<mm_next m} - slots ns) m m' \<and>
    (\<forall>n\<in>set ns. node_unlinked n \<longrightarrow> load_pointer m' (node_slot n) = None)"
  using assms
proof (induction ns arbitrary: m)
  case (Cons n ns)
  have n: "node_ready (mm_next m0) m0 n" "at_type (nd_attr n) = DMI_ATTRIBUTE_TYPE_HANDLE" "slot_cells n \<inter> slots ns = {}" "nodes_apart m0 S ns"
    using Cons.prems(1) by (simp_all add: nodes_apart_Cons)
  let ?m = "unlink_node n m"
  have kept: "keeps ({..<mm_next m} - slot_cells n) m ?m" by (rule unlink_node_keeps)
  have below: "mm_next m0 \<le> mm_next ?m" using kept Cons.prems(2) by (simp add: keeps_def)
  obtain m' where m': "link_each dmi_attributes_unlink_handle ns (c, ?m) = (c, m')" "keeps ({..<mm_next ?m} - slots ns) ?m m'"
    "\<forall>n\<in>set ns. node_unlinked n \<longrightarrow> load_pointer m' (node_slot n) = None"
    using Cons.IH [OF n(4) below] by blast
  have "load_pointer m' (node_slot n) = None" if u: "node_unlinked n"
  proof -
    have cells: "slot_cells n = {node_slot n..<node_slot n + 8}" using u by (simp add: node_unlinked_def slot_cells_def)
    have "slot_cells n \<subseteq> {..<mm_next ?m} - slots ns" using n(1,3) below by (force simp: node_ready_def)
    then have "load_pointer ?m (node_slot n) = load_pointer m' (node_slot n)"
      using m'(2) unfolding cells keeps_def by (blast intro: agrees_pointer)
    then show ?thesis using u load_stored_pointer by (simp add: unlink_node_def)
  qed
  then show ?case using m' keeps_then [OF kept m'(2)] by (simp add: unlink_member [OF n(2)])
qed simp

text \<open>
  Unlinking a structure drops the array of every array of references, which is what linking has
  allocated, and touches nothing else of the structure and nothing of any other one.
\<close>

theorem attributes_unlink_clears:
  assumes "n < length (rg_entries reg)" and "en_spec (rg_entries reg ! n) = Some spec" and "en_info (rg_entries reg ! n) = Some m"
    and "le_attributes env spec = Some attrs" and "links_apart m attrs"
  shows "\<exists>m'. dmi_attributes_unlink env n reg q = (reg\<lparr>rg_entries := (rg_entries reg)[n := (rg_entries reg ! n)\<lparr>en_info := Some m'\<rparr>]\<rparr>, q) \<and>
    agrees ({..<mm_next m} - slots (handle_nodes m attrs 0)) m m' \<and>
    list_all (\<lambda>node. node_unlinked node \<longrightarrow> load_pointer m' (node_slot node) = None) (handle_nodes m attrs 0)"
proof -
  let ?ns = "handle_nodes m attrs 0"
  define P where "P s \<longleftrightarrow> keeps ({..<mm_next m} - slots ?ns) m (snd s)" for s :: "dmi_link_walk \<times> dmi_memory"
  have nodes: "nodes_apart m (slots ?ns) ?ns" "structure_reads m attrs 0 \<subseteq> {..<mm_next m} - slots ?ns"
    using assms(5) by (simp_all add: links_apart_def Let_def)
  have "passes dmi_attributes_unlink_handle P ?ns (dmi_attributes_walk (link_visitor dmi_attributes_unlink_handle) attrs 0)"
  proof (rule passes_walk [OF _ nodes(2)])
    show "agrees ({..<mm_next m} - slots ?ns) m (snd s)" if "P s" for s using that by (simp add: P_def keeps_def)
    show "P (snd (dmi_attributes_link_member dmi_attributes_unlink_handle node s))" if node: "node \<in> set ?ns" and s: "P s" for node s
    proof -
      have "slot_cells node \<subseteq> slots ?ns" using node by (auto simp: slots_def)
      then have "keeps ({..<mm_next m} - slots ?ns) m (unlink_node node (snd s))"
        using keeps_then [OF s [unfolded P_def] unlink_node_keeps, of node] by (simp add: Un_absorb2)
      then show ?thesis
        using unlink_member [OF handle_nodes_type [OF node], of "fst s" "snd s"] by (simp add: P_def)
    qed
  qed
  then have walk: "dmi_attributes_walk (link_visitor dmi_attributes_unlink_handle) attrs 0 ((True, (reg, q)), m) =
      (True, link_each dmi_attributes_unlink_handle ?ns ((True, (reg, q)), m))" by (simp add: passes_def P_def)
  obtain m' where m': "link_each dmi_attributes_unlink_handle ?ns ((True, (reg, q)), m) = ((True, (reg, q)), m')"
    "keeps ({..<mm_next m} - slots ?ns) m m'" "\<forall>n\<in>set ?ns. node_unlinked n \<longrightarrow> load_pointer m' (node_slot n) = None"
    using unlink_each [OF nodes(1), of m "(True, (reg, q))"] by auto
  have "dmi_attributes_link_walk dmi_attributes_unlink_handle attrs ((reg, q), m) = (True, (reg, q), m')"
    by (simp add: dmi_attributes_link_walk_def walk m'(1))
  then have "dmi_attributes_unlink env n reg q = (reg\<lparr>rg_entries := (rg_entries reg)[n := (rg_entries reg ! n)\<lparr>en_info := Some m'\<rparr>]\<rparr>, q)"
    by (simp add: dmi_attributes_unlink_def link_with_def assms(2-4) Let_def)
  then show ?thesis using m' by (auto simp: keeps_def list_all_iff)
qed

section \<open>An example\<close>

text \<open>A structure which names itself twice: by a reference and by the first one of an array of two.\<close>

definition link_memory :: dmi_memory where
  "link_memory = \<lparr>mm_cells = (\<lambda>i. if 16 \<le> i \<and> i < 24 then Part (Pointer_elements 40) (i - 16)
      else if i = 0 \<or> i = 40 then Byte 0x34 else if i = 1 \<or> i = 41 then Byte 0x12 else if i = 24 then Byte 2
      else if i = 42 \<or> i = 43 then Byte 0xFF else Byte 0), mm_next = 44\<rparr>"

definition link_params :: "nat \<Rightarrow> dmi_attribute_params" where
  "link_params a = \<lparr>ap_code = None, ap_name = None, ap_scale = 0, ap_unspec = None, ap_unknown = None, ap_flags = 0,
     ap_values = None, ap_targets = None, ap_link = \<lparr>mr_offset = a, mr_size = 8\<rparr>, ap_minimum = None, ap_maximum = None, ap_level = 0\<rparr>"

definition link_attributes :: "dmi_attribute list" where
  "link_attributes =
    [Dmi_attribute \<lparr>mr_offset = 0, mr_size = 2\<rparr> DMI_MEMBER_NULL 0 DMI_ATTRIBUTE_TYPE_HANDLE (link_params 8) None None,
     Dmi_attribute \<lparr>mr_offset = 16, mr_size = 2\<rparr> \<lparr>mr_offset = 24, mr_size = 1\<rparr> 0 DMI_ATTRIBUTE_TYPE_HANDLE (link_params 32) None None]"

definition link_entity :: "dmi_memory dmi_entity" where
  "link_entity =
    \<lparr>en_type_id = 200, en_spec = Some example_spec, en_handle = 0x1234, en_buffer = \<lparr>buf_id = 0, buf_data = None, buf_length = 0, buf_capacity = 0\<rparr>,
     en_offset = 0, en_total_length = 13, en_body_length = 5, en_extra_length = 8, en_strings = [], en_string_count = 0,
     en_info = Some link_memory, en_level = 0x020000, en_state = DMI_ENTITY_STATE_DECODED, en_properties = [], en_overlays = [],
     en_overlay = None\<rparr>"

definition link_registry :: "dmi_memory dmi_registry" where
  "link_registry = \<lparr>rg_capacity = 1, rg_count = 1, rg_index = [[0]], rg_entries = [link_entity], rg_status = 0\<rparr>"

definition link_env :: dmi_link_env where
  "link_env = \<lparr>le_strict = True, le_types = (\<lambda>t. []), le_room = (\<lambda>n. True), le_attributes = (\<lambda>spec. Some link_attributes)\<rparr>"

lemma link_registry_wf: "registry_wf link_registry"
  by (simp add: registry_wf_def link_registry_def link_entity_def)

definition link_one :: dmi_attribute_node where
  "link_one = member_node (link_attributes ! 0) (link_attributes ! 0) 0"

definition link_many :: dmi_attribute_node where
  "link_many = member_node (link_attributes ! 1) (link_attributes ! 1) 0"

lemma link_handle_nodes: "handle_nodes link_memory link_attributes 0 = [link_one, link_many]"
  by (simp add: handle_nodes.simps link_attributes_def dmi_attribute_resolve_def link_nodes_def link_one_def link_many_def member_node_def)

lemma link_loads: "load_pointer link_memory 16 = Some (Pointer_elements 40)" "load_handle link_memory 0 = 0x1234"
  "load_handle link_memory 40 = 0x1234" "load_handle link_memory 42 = 0xFFFF" "dmi_attribute_read_uint link_memory 24 (Suc 0) = 2"
  by (simp_all add: link_memory_def load_pointer_def pointer_cells_def mem_load_def upt_rec load_handle_def mem_bytes_def load_word_def
    dmi_attribute_read_uint_def load_uint_def)

lemma link_shapes:
  "at_type (nd_attr link_one) = DMI_ATTRIBUTE_TYPE_HANDLE" "at_type (nd_attr link_many) = DMI_ATTRIBUTE_TYPE_HANDLE"
  "dmi_attribute_is_array (nd_attr link_one) \<longleftrightarrow> False" "dmi_attribute_is_array (nd_attr link_many) \<longleftrightarrow> True"
  "at_count (nd_attr link_many) = 0" "at_counter (nd_attr link_many) = \<lparr>mr_offset = 24, mr_size = 1\<rparr>"
  "node_linked link_one \<longleftrightarrow> True" "node_linked link_many \<longleftrightarrow> True" "node_slot link_one = 8" "node_slot link_many = 32"
  "node_place link_one = 0" "node_place link_many = 16" "nd_info link_many = 0"
  "ap_targets (at_params (nd_attr link_one)) = None" "ap_targets (at_params (nd_attr link_many)) = None"
  by (simp_all add: link_one_def link_many_def link_attributes_def link_params_def member_node_def node_linked_def node_slot_def node_place_def
    dmi_member_is_present_def DMI_MEMBER_NULL_def dmi_attribute_is_array_def)

lemma link_counts: "node_count link_memory link_one = 1" "node_base link_memory link_one = 0"
  "node_count link_memory link_many = 2" "node_base link_memory link_many = 40"
  by (simp_all add: node_count_def node_base_def link_shapes link_loads dmi_attribute_get_elements_def dmi_attribute_get_count_def)

lemma link_example_apart: "links_apart link_memory link_attributes"
proof -
  have cells: "slot_cells link_one = {8..<16}" "slot_cells link_many = {32..<40}" "handle_cells link_memory link_one = {0..<2}"
    "handle_cells link_memory link_many = {40..<44} \<union> ({16..<24} \<union> {24..<25})"
    by (simp_all add: slot_cells_def handle_cells_def link_counts link_shapes numeral_2_eq_2)
  have reads: "structure_reads link_memory link_attributes 0 \<subseteq> {16..<24} \<union> {24..<25}"
    by (simp add: structure_reads.simps dmi_attribute_resolve_def member_reads_def nested_reads_def value_reads_def item_node_def array_node_def
      link_attributes_def member_node_def dmi_attribute_is_array_def dmi_member_is_present_def DMI_MEMBER_NULL_def)
  have top: "mm_next link_memory = 44" by (simp add: link_memory_def)
  have "nodes_apart link_memory (slots [link_one, link_many]) [link_one, link_many]"
    by (auto simp: nodes_apart_Cons nodes_apart_def node_ready_def cells link_shapes top link_counts)
  moreover have "structure_reads link_memory link_attributes 0 \<subseteq> {..<44} - ({8..<16} \<union> {32..<40})" using reads by force
  ultimately show ?thesis by (simp add: links_apart_def link_handle_nodes top cells Let_def)
qed

lemma link_entry: "rg_entries link_registry = [link_entity]" "en_spec link_entity = Some example_spec" "en_info link_entity = Some link_memory"
  "le_attributes link_env example_spec = Some link_attributes" "en_handle link_entity = 0x1234"
  by (simp_all add: link_registry_def link_entity_def link_env_def)

lemma link_example_resolves:
  assumes "node \<in> {link_one, link_many}"
  shows "node_resolves link_env [link_entity] node h =
    (if h = 0xFFFF \<or> h = 0xFFFE then (True, None) else if h = 0x1234 then (True, Some 0) else (False, None))"
  using assms by (auto simp: node_resolves_def resolve_spec_def link_entry link_shapes DMI_HANDLE_INVALID_def DMI_HANDLE_UNSUPPORTED_def)

lemma link_granted: "node \<in> {link_one, link_many} \<Longrightarrow> node_granted link_env link_memory node"
  by (auto simp: node_granted_def link_env_def link_counts)

theorem attributes_link_correct_witness:
  "\<exists>reg' q' m'. dmi_attributes_link link_env 0 link_registry empty_queue = (True, reg', q') \<and> en_info (rg_entries reg' ! 0) = Some m' \<and>
    load_pointer m' 8 = Some (Pointer_entity 0) \<and>
    (\<exists>a. load_pointer m' 32 = Some (Pointer_elements a) \<and> load_pointer m' a = Some (Pointer_entity 0) \<and> load_pointer m' (a + 8) = None)"
proof -
  obtain ok reg' q' where run: "dmi_attributes_link link_env 0 link_registry empty_queue = (ok, reg', q')" by (metis prod_cases3)
  have all: "0 < length (rg_entries link_registry)" "en_spec (rg_entries link_registry ! 0) = Some example_spec"
    "en_info (rg_entries link_registry ! 0) = Some link_memory" by (simp_all add: link_entry)
  have ok: "list_all (node_success link_env [link_entity] link_memory) [link_one, link_many]"
    by (simp add: node_success_def link_shapes link_granted link_example_resolves node_handle_def link_counts link_loads upt_rec)
  have placed: "node_placed (\<lambda>h. snd (node_resolves link_env [link_entity] link_one h)) link_memory link_one m' \<Longrightarrow> load_pointer m' 8 = Some (Pointer_entity 0)"
    "node_placed (\<lambda>h. snd (node_resolves link_env [link_entity] link_many h)) link_memory link_many m' \<Longrightarrow>
      \<exists>a. load_pointer m' 32 = Some (Pointer_elements a) \<and> load_pointer m' a = Some (Pointer_entity 0) \<and> load_pointer m' (a + 8) = None" for m'
    by (auto simp: node_placed_def link_shapes link_counts node_handle_def link_loads link_example_resolves less_2_cases_iff)
  note result = attributes_link_correct [OF link_registry_wf all link_entry(4) link_example_apart run, unfolded link_entry(1) link_handle_nodes]
  from result obtain m' where m': "ok" "en_info (rg_entries reg' ! 0) = Some m'"
    "node_placed (\<lambda>h. snd (node_resolves link_env [link_entity] link_one h)) link_memory link_one m'"
    "node_placed (\<lambda>h. snd (node_resolves link_env [link_entity] link_many h)) link_memory link_many m'"
    using ok link_granted by (auto simp: link_shapes)
  show ?thesis using run m'(1,2) placed(1) [OF m'(3)] placed(2) [OF m'(4)] by auto
qed

theorem attributes_unlink_clears_witness:
  "\<exists>m'. en_info (rg_entries (fst (dmi_attributes_unlink link_env 0 link_registry empty_queue)) ! 0) = Some m' \<and> load_pointer m' 32 = None \<and> load_pointer m' 16 = Some (Pointer_elements 40)"
proof -
  have all: "0 < length (rg_entries link_registry)" "en_spec (rg_entries link_registry ! 0) = Some example_spec"
    "en_info (rg_entries link_registry ! 0) = Some link_memory" by (simp_all add: link_entry)
  obtain m' where m': "dmi_attributes_unlink link_env 0 link_registry empty_queue =
      (link_registry\<lparr>rg_entries := (rg_entries link_registry)[0 := (rg_entries link_registry ! 0)\<lparr>en_info := Some m'\<rparr>]\<rparr>, empty_queue)"
    "agrees ({..<mm_next link_memory} - slots [link_one, link_many]) link_memory m'"
    "node_unlinked link_many \<longrightarrow> load_pointer m' (node_slot link_many) = None"
    using attributes_unlink_clears [OF all link_entry(4) link_example_apart, of empty_queue] by (auto simp: link_handle_nodes)
  have "{16..<16 + 8} \<subseteq> {..<mm_next link_memory} - slots [link_one, link_many]"
    by (auto simp: slot_cells_def link_shapes link_memory_def)
  from agrees_pointer [OF m'(2) this] m' show ?thesis
    by (simp add: node_unlinked_def link_shapes link_loads link_entry)
qed

end
