(* ===== verification/Lint.thy ===== *)
theory Lint
  imports Attribute_Reads Registry_Passes Entry
begin

text \<open>
  The engine which checks the data of an open context against rules (\<^verbatim>\<open>include/lint.h\<close>, \<^verbatim>\<open>src/lint.c\<close>). A
  check is a function of the state of the check and of the structure, which is named by its position in
  the registry. What the handler has been given is the list of the issues. An issue has the format and the
  arguments of its details: putting them into a text of at most 255 characters is left to the C library. An offset is
  \<open>None\<close> for \<open>DMI_LINT_NO_OFFSET\<close>.
\<close>

section \<open>Rules and issues\<close>

datatype dmi_lint_severity =
    DMI_LINT_SEVERITY_NONE
  | DMI_LINT_SEVERITY_NOTE
  | DMI_LINT_SEVERITY_WARNING
  | DMI_LINT_SEVERITY_ERROR

datatype dmi_lint_profile =
    DMI_LINT_PROFILE_READER
  | DMI_LINT_PROFILE_PRODUCER

datatype dmi_lint_scope =
    DMI_LINT_SCOPE_ENTRY
  | DMI_LINT_SCOPE_ENTITY
  | DMI_LINT_SCOPE_TABLE

record dmi_lint_rule_params =
  lp_name :: String.literal
  lp_reader_severity :: dmi_lint_severity
  lp_producer_severity :: dmi_lint_severity
  lp_optional :: bool

text \<open>A rule but for its check, which is what an issue has of its rule.\<close>

record dmi_lint_rule_t =
  lr_code :: String.literal
  lr_scope :: dmi_lint_scope
  lr_params :: dmi_lint_rule_params

datatype dmi_lint_message = Lint_message (lm_format: String.literal) (lm_args: "dmi_lint_arg list")
and dmi_lint_arg =
    Lint_number int
  | Lint_text string
  | Lint_details dmi_lint_message

record dmi_lint_issue_t =
  is_rule :: dmi_lint_rule_t
  is_severity :: dmi_lint_severity
  is_handle :: dmi_handle_t
  is_type :: dmi_type_id_t
  is_attribute :: "string option"
  is_offset :: "nat option"
  is_message :: dmi_lint_message

section \<open>The state of a check\<close>

record dmi_lint_options_t =
  lo_profile :: dmi_lint_profile
  lo_all :: bool
  lo_version :: dmi_version_t
  lo_rule_filter :: "(dmi_lint_rule_t \<Rightarrow> bool) option"

record dmi_lint_totals_t =
  lt_entity_count :: nat
  lt_entity_max_size :: nat
  lt_type_counts :: "dmi_type_id_t \<Rightarrow> nat"
  lt_terminator :: "nat option"

text \<open>
  What the checks use of the context beside its registry and its queue: the extensions and the map of types, the state the entry
  point has led to, the data of the entry point and of the table, the catalogue of the locale with the name of a value by its
  code, the attributes of a specification, the types of two structures the library knows, and the entries of additional
  information: the handle, the offset, the length of the value and whether there is a string. Iterators find the modules a filter
  names by their addresses, though no iterator has a filter here.
\<close>

record dmi_lint_context =
  lc_context :: dmi_context
  lc_state :: dmi_context_state
  lc_entry :: "dmi_buffer option"
  lc_entry_spec :: "dmi_entry_spec option"
  lc_table :: "dmi_buffer option"
  lc_strict :: bool
  lc_locale :: locale_string
  lc_value_text :: "string \<Rightarrow> string \<Rightarrow> string"
  lc_attributes :: "dmi_entity_spec \<Rightarrow> dmi_attribute list option"
  lc_end_of_table :: nat
  lc_additional :: nat
  lc_entries :: "dmi_memory \<Rightarrow> (dmi_handle_t \<times> nat \<times> nat \<times> bool) list"
  lc_module_at :: "uintptr_t \<Rightarrow> dmi_module"

record dmi_lint_t =
  li_context :: dmi_lint_context
  li_registry :: "dmi_memory dmi_registry"
  li_queue :: dmi_error_queue
  li_options :: dmi_lint_options_t
  li_handler :: bool
  li_version :: dmi_version_t
  li_rule :: "dmi_lint_rule_t option"
  li_totals :: dmi_lint_totals_t
  li_issues :: "dmi_lint_issue_t list"

type_synonym dmi_lint_check_fn = "dmi_lint_t \<Rightarrow> nat option \<Rightarrow> dmi_lint_t"

record dmi_lint_rule = dmi_lint_rule_t +
  lr_check :: "dmi_lint_check_fn option"

definition rule_head :: "dmi_lint_rule \<Rightarrow> dmi_lint_rule_t" where
  "rule_head rule = dmi_lint_rule_t.truncate rule"

abbreviation lint_entity :: "dmi_lint_t \<Rightarrow> nat \<Rightarrow> dmi_memory dmi_entity" where
  "lint_entity lint n \<equiv> rg_entries (li_registry lint) ! n"

abbreviation lint_types :: "dmi_lint_t \<Rightarrow> dmi_type_map" where
  "lint_types lint \<equiv> cx_type_map (lc_context (li_context lint))"

definition default_options :: dmi_lint_options_t where
  "default_options = \<lparr>lo_profile = DMI_LINT_PROFILE_READER, lo_all = False, lo_version = 0, lo_rule_filter = None\<rparr>"

definition no_totals :: dmi_lint_totals_t where
  "no_totals = \<lparr>lt_entity_count = 0, lt_entity_max_size = 0, lt_type_counts = (\<lambda>type. 0), lt_terminator = None\<rparr>"

section \<open>What the checks call\<close>

definition dmi_lint_rule_severity :: "dmi_lint_rule_t \<Rightarrow> dmi_lint_profile \<Rightarrow> dmi_lint_severity" where
  "dmi_lint_rule_severity rule profile =
    (if profile = DMI_LINT_PROFILE_PRODUCER then lp_producer_severity (lr_params rule) else lp_reader_severity (lr_params rule))"

definition dmi_lint_issue :: "dmi_lint_t \<Rightarrow> nat option \<Rightarrow> string option \<Rightarrow> nat option \<Rightarrow> dmi_lint_message \<Rightarrow> dmi_lint_t" where
  "dmi_lint_issue lint entity attribute offset message =
    (case li_rule lint of
       None \<Rightarrow> lint
     | Some rule \<Rightarrow>
         if \<not> li_handler lint then lint
         else lint\<lparr>li_issues := li_issues lint @
           [\<lparr>is_rule = rule, is_severity = dmi_lint_rule_severity rule (lo_profile (li_options lint)),
             is_handle = (case entity of Some n \<Rightarrow> en_handle (lint_entity lint n) | None \<Rightarrow> DMI_HANDLE_INVALID),
             is_type = (case entity of Some n \<Rightarrow> en_type_id (lint_entity lint n) | None \<Rightarrow> DMI_TYPE_ID_INVALID),
             is_attribute = attribute, is_offset = offset, is_message = message\<rparr>]\<rparr>)"

definition dmi_lint_entity_offset :: "dmi_lint_t \<Rightarrow> nat \<Rightarrow> nat option" where
  "dmi_lint_entity_offset lint n =
    (if map_option buf_id (lc_table (li_context lint)) \<noteq> Some (buf_id (en_buffer (lint_entity lint n))) then None
     else Some (en_offset (lint_entity lint n)))"

definition dmi_lint_string_offset :: "dmi_lint_t \<Rightarrow> nat \<Rightarrow> nat \<Rightarrow> nat option" where
  "dmi_lint_string_offset lint n num =
    (let e = lint_entity lint n
     in case dmi_lint_entity_offset lint n of
          None \<Rightarrow> None
        | Some offset \<Rightarrow>
            if num = 0 \<or> num > en_string_count e then None
            else Some (offset + en_body_length e + sum_list (map (\<lambda>s. length (se_raw s) + 1) (take (num - 1) (en_strings e)))))"

definition lint_type_spec :: "dmi_lint_t \<Rightarrow> dmi_type_id_t \<Rightarrow> dmi_entity_spec option" where
  "lint_type_spec lint type = fst (dmi_type_spec (lc_context (li_context lint)) type)"

text \<open>\<open>dmi_entity_type\<close> and \<open>dmi_registry_lookup\<close> as the checks call them.\<close>

definition lint_entity_type :: "dmi_lint_t \<Rightarrow> nat \<Rightarrow> nat option \<times> dmi_lint_t" where
  "lint_entity_type lint n =
    (case entry_type (lint_types lint) (li_queue lint) (li_registry lint) n of
       (type, reg, q) \<Rightarrow> (type, lint\<lparr>li_registry := reg, li_queue := q\<rparr>))"

definition lint_lookup :: "dmi_lint_t \<Rightarrow> dmi_handle_t \<Rightarrow> nat option" where
  "lint_lookup lint handle =
    fst (dmi_registry_lookup (lc_strict (li_context lint)) (lint_types lint) (li_queue lint) (li_registry lint) handle None True)"

section \<open>Names\<close>

definition dmi_spec_name :: "locale_string \<Rightarrow> dmi_entity_spec \<Rightarrow> string" where
  "dmi_spec_name tr spec = (case tr (sp_code spec) ''name'' of Some translated \<Rightarrow> translated | None \<Rightarrow> sp_name spec)"

definition dmi_type_name :: "dmi_lint_t \<Rightarrow> dmi_type_id_t \<Rightarrow> string" where
  "dmi_type_name lint type =
    (case lint_type_spec lint type of
       Some spec \<Rightarrow> dmi_spec_name (lc_locale (li_context lint)) spec
     | None \<Rightarrow>
         if type \<ge> DMI_TYPE_ID_OEM_START \<and> type \<le> DMI_TYPE_ID_MAX then lc_value_text (li_context lint) ''oem-type'' ''OEM-specific''
         else lc_value_text (li_context lint) ''unknown-type'' ''Unknown'')"

definition dmi_entity_name :: "dmi_lint_t \<Rightarrow> nat \<Rightarrow> string \<times> dmi_lint_t" where
  "dmi_entity_name lint n =
    (case (case en_spec (lint_entity lint n) of
             Some spec \<Rightarrow> (Some spec, lint)
           | None \<Rightarrow>
               (case dmi_entity_spec_select (lint_types lint) (li_queue lint) (lint_entity lint n) of
                  (spec, e, q) \<Rightarrow>
                    (spec, lint\<lparr>li_registry := (li_registry lint)\<lparr>rg_entries := (rg_entries (li_registry lint))[n := e]\<rparr>, li_queue := q\<rparr>))) of
       (Some spec, lint) \<Rightarrow> (dmi_spec_name (lc_locale (li_context lint)) spec, lint)
     | (None, lint) \<Rightarrow>
         (if en_type_id (lint_entity lint n) > 0x7F then lc_value_text (li_context lint) ''oem-type'' ''OEM-specific''
          else lc_value_text (li_context lint) ''unknown-type'' ''Unknown'', lint))"

section \<open>Checking\<close>

definition dmi_lint_enabled :: "dmi_lint_t \<Rightarrow> dmi_lint_rule \<Rightarrow> bool" where
  "dmi_lint_enabled lint rule \<longleftrightarrow>
    (if lr_check rule = None then False
     else if lp_optional (lr_params rule) \<and> \<not> lo_all (li_options lint) then False
     else if dmi_lint_rule_severity (rule_head rule) (lo_profile (li_options lint)) = DMI_LINT_SEVERITY_NONE then False
     else (case lo_rule_filter (li_options lint) of Some f \<Rightarrow> f (rule_head rule) | None \<Rightarrow> True))"

definition dmi_lint_check_rule :: "dmi_lint_t \<Rightarrow> dmi_lint_rule \<Rightarrow> nat option \<Rightarrow> dmi_lint_t" where
  "dmi_lint_check_rule lint rule entity =
    (if \<not> dmi_lint_enabled lint rule then lint
     else (the (lr_check rule) (lint\<lparr>li_rule := Some (rule_head rule)\<rparr>) entity)\<lparr>li_rule := None\<rparr>)"

primrec dmi_lint_check_scope :: "dmi_lint_rule list \<Rightarrow> dmi_lint_t \<Rightarrow> dmi_lint_scope \<Rightarrow> nat option \<Rightarrow> dmi_lint_t" where
  "dmi_lint_check_scope [] lint scope entity = lint"
| "dmi_lint_check_scope (rule # rules) lint scope entity =
    (if lr_scope rule \<noteq> scope then dmi_lint_check_scope rules lint scope entity
     else dmi_lint_check_scope rules (dmi_lint_check_rule lint rule entity) scope entity)"

text \<open>The rules of a type, whatever their scope.\<close>

primrec check_rules_loop :: "dmi_lint_t \<Rightarrow> dmi_lint_rule list \<Rightarrow> nat option \<Rightarrow> dmi_lint_t" where
  "check_rules_loop lint [] entity = lint"
| "check_rules_loop lint (rule # rules) entity = check_rules_loop (dmi_lint_check_rule lint rule entity) rules entity"

definition dmi_lint_check_rules :: "dmi_lint_t \<Rightarrow> dmi_lint_rule list option \<Rightarrow> nat option \<Rightarrow> dmi_lint_t" where
  "dmi_lint_check_rules lint rules entity = (case rules of None \<Rightarrow> lint | Some rules \<Rightarrow> check_rules_loop lint rules entity)"

definition add_total :: "dmi_memory dmi_registry \<Rightarrow> nat \<Rightarrow> dmi_lint_totals_t \<Rightarrow> dmi_lint_totals_t" where
  "add_total reg n totals =
    (let e = rg_entries reg ! n; type = en_type_id e
     in totals\<lparr>lt_entity_count := lt_entity_count totals + 1,
          lt_type_counts := (lt_type_counts totals)(type := lt_type_counts totals type + 1),
          lt_entity_max_size := (if en_total_length e > lt_entity_max_size totals then en_total_length e else lt_entity_max_size totals),
          lt_terminator := (if type = DMI_TYPE_ID_END_OF_TABLE \<and> lt_terminator totals = None then Some n else lt_terminator totals)\<rparr>)"

definition lint_visits :: "dmi_lint_t \<Rightarrow> nat list" where
  "lint_visits lint = visit_all (lc_module_at (li_context lint)) (li_registry lint)"

definition dmi_lint_collect :: "dmi_lint_t \<Rightarrow> dmi_lint_t" where
  "dmi_lint_collect lint =
    lint\<lparr>li_totals := foldl (\<lambda>totals n. add_total (li_registry lint) n totals) (li_totals lint) (lint_visits lint)\<rparr>"

definition check_entity :: "dmi_lint_rule list \<Rightarrow> (dmi_entity_spec \<Rightarrow> dmi_lint_rule list option) \<Rightarrow> dmi_lint_t \<Rightarrow> nat \<Rightarrow> dmi_lint_t" where
  "check_entity rules type_rules lint n =
    (let lint = dmi_lint_check_scope rules lint DMI_LINT_SCOPE_ENTITY (Some n)
     in case en_spec (lint_entity lint n) of
          Some spec \<Rightarrow> dmi_lint_check_rules lint (type_rules spec) (Some n)
        | None \<Rightarrow> lint)"

definition dmi_lint_check_entities ::
    "dmi_lint_rule list \<Rightarrow> (dmi_entity_spec \<Rightarrow> dmi_lint_rule list option) \<Rightarrow> dmi_lint_t \<Rightarrow> dmi_lint_t" where
  "dmi_lint_check_entities rules type_rules lint =
    foldl (check_entity rules type_rules) lint (lint_visits lint)"

text \<open>
  \<open>dmi_lint\<close> with the rules of the library and the rules the specifications bring; \<open>room\<close> tells whether there is memory for the
  state. The registry is \<open>None\<close> and the context has no table while it is closed.
\<close>

definition lint_start ::
    "dmi_lint_context \<Rightarrow> dmi_memory dmi_registry \<Rightarrow> dmi_error_queue \<Rightarrow> dmi_lint_options_t option \<Rightarrow> bool \<Rightarrow> dmi_lint_t" where
  "lint_start context reg q options handler =
    (let options = (case options of Some options \<Rightarrow> options | None \<Rightarrow> default_options)
     in \<lparr>li_context = context, li_registry = reg, li_queue = q, li_options = options, li_handler = handler,
         li_version = (if lo_version options \<noteq> 0 then lo_version options else smbios_version (lc_state context)),
         li_rule = None, li_totals = no_totals, li_issues = []\<rparr>)"

definition lint_run ::
    "dmi_lint_rule list \<Rightarrow> (dmi_entity_spec \<Rightarrow> dmi_lint_rule list option) \<Rightarrow> dmi_lint_t \<Rightarrow> dmi_lint_t" where
  "lint_run rules type_rules lint =
    (let lint = dmi_lint_collect lint;
         lint = dmi_lint_check_scope rules lint DMI_LINT_SCOPE_ENTRY None;
         lint = dmi_lint_check_entities rules type_rules lint
     in dmi_lint_check_scope rules lint DMI_LINT_SCOPE_TABLE None)"

definition dmi_lint_with ::
    "dmi_lint_rule list \<Rightarrow> (dmi_entity_spec \<Rightarrow> dmi_lint_rule list option) \<Rightarrow> bool \<Rightarrow> dmi_lint_context
      \<Rightarrow> dmi_memory dmi_registry option \<Rightarrow> dmi_error_queue \<Rightarrow> dmi_lint_options_t option \<Rightarrow> bool
      \<Rightarrow> bool \<times> dmi_lint_issue_t list \<times> dmi_memory dmi_registry option \<times> dmi_error_queue" where
  "dmi_lint_with rules type_rules room context registry q options handler =
    (case registry of
       Some reg \<Rightarrow>
         if lc_table context = None then (False, [], Some reg, raise_error q DMI_ERROR_STATE_INVALID)
         else if \<not> room then (False, [], Some reg, raise_error q DMI_ERROR_OUT_OF_MEMORY)
         else
           let lint = lint_run rules type_rules (lint_start context reg q options handler)
           in (True, li_issues lint, Some (li_registry lint), li_queue lint)
     | None \<Rightarrow> (False, [], None, raise_error q DMI_ERROR_STATE_INVALID))"

section \<open>Looking rules up\<close>

definition dmi_lint_rule_name :: "locale_string \<Rightarrow> dmi_lint_rule_t \<Rightarrow> string" where
  "dmi_lint_rule_name tr rule =
    (case tr ''lint-rule'' (String.explode (lr_code rule)) of Some translated \<Rightarrow> translated | None \<Rightarrow> String.explode (lp_name (lr_params rule)))"

definition find_rule :: "dmi_lint_rule list \<Rightarrow> String.literal \<Rightarrow> dmi_lint_rule option" where
  "find_rule rules code = find (\<lambda>rule. lr_code rule = code) rules"

primrec find_type_rule ::
    "dmi_context \<Rightarrow> (dmi_entity_spec \<Rightarrow> dmi_lint_rule list option) \<Rightarrow> String.literal \<Rightarrow> dmi_type_id_t list \<Rightarrow> dmi_lint_rule option" where
  "find_type_rule context type_rules code [] = None"
| "find_type_rule context type_rules code (type # types) =
    (case fst (dmi_type_spec context type) of
       None \<Rightarrow> find_type_rule context type_rules code types
     | Some spec \<Rightarrow>
         (case type_rules spec of
            None \<Rightarrow> find_type_rule context type_rules code types
          | Some rules \<Rightarrow>
              (case find_rule rules code of
                 Some rule \<Rightarrow> Some rule
               | None \<Rightarrow> find_type_rule context type_rules code types)))"

definition dmi_lint_rule_find ::
    "dmi_lint_rule list \<Rightarrow> (dmi_entity_spec \<Rightarrow> dmi_lint_rule list option) \<Rightarrow> dmi_context option \<Rightarrow> String.literal \<Rightarrow> dmi_lint_rule option" where
  "dmi_lint_rule_find rules type_rules context code =
    (case find_rule rules code of
       Some rule \<Rightarrow> Some rule
     | None \<Rightarrow> (case context of None \<Rightarrow> None | Some c \<Rightarrow> find_type_rule c type_rules code [0..DMI_TYPE_ID_MAX]))"

end
