(* ===== verification/Lint_Structures.thy ===== *)
theory Lint_Structures
  imports Lint
begin

text \<open>
  The rules of a structure and its strings (\<^verbatim>\<open>src/lint/entity.c\<close>, \<^verbatim>\<open>src/lint/string.c\<close>, \<^verbatim>\<open>src/lint/quality.c\<close>). A version
  whose text there is no memory for is spelled differently, which is left out.
\<close>

definition of_entity :: "(dmi_lint_t \<Rightarrow> nat \<Rightarrow> dmi_lint_t) \<Rightarrow> dmi_lint_check_fn" where
  "of_entity check lint entity = (case entity of Some n \<Rightarrow> check lint n | None \<Rightarrow> lint)"

abbreviation entity_issue :: "dmi_lint_t \<Rightarrow> nat \<Rightarrow> String.literal \<Rightarrow> dmi_lint_arg list \<Rightarrow> dmi_lint_t" where
  "entity_issue lint n format args \<equiv>
    dmi_lint_issue lint (Some n) None (dmi_lint_entity_offset lint n) (Lint_message format args)"

abbreviation Lint_size :: "nat \<Rightarrow> dmi_lint_arg" where
  "Lint_size n \<equiv> Lint_number (int n)"

section \<open>Structures\<close>

definition dmi_lint_obsolete_types :: "dmi_type_id_t list" where
  "dmi_lint_obsolete_types = [5, 6, 10]"

definition dmi_entity_is_incomplete :: "dmi_memory dmi_entity \<Rightarrow> bool" where
  "dmi_entity_is_incomplete e \<longleftrightarrow> en_state e AND DMI_ENTITY_STATE_INCOMPLETE \<noteq> 0"

definition dmi_lint_entity_version :: "dmi_version_t \<Rightarrow> dmi_lint_arg" where
  "dmi_lint_entity_version version = Lint_text (dmi_version_format version)"

definition dmi_lint_entity_below_minimum :: "dmi_lint_t \<Rightarrow> nat \<Rightarrow> dmi_lint_t" where
  "dmi_lint_entity_below_minimum lint n =
    (case en_spec (lint_entity lint n) of
       None \<Rightarrow> lint
     | Some spec \<Rightarrow>
         if ep_minimum_length (sp_params spec) = 0 then lint
         else if en_body_length (lint_entity lint n) < ep_minimum_length (sp_params spec) then
           entity_issue lint n (STR ''structure is %zu bytes long, but its type needs at least %zu'')
             [Lint_size (en_body_length (lint_entity lint n)), Lint_size (ep_minimum_length (sp_params spec))]
         else lint)"

definition dmi_lint_entity_unknown_length :: "dmi_lint_t \<Rightarrow> nat \<Rightarrow> dmi_lint_t" where
  "dmi_lint_entity_unknown_length lint n =
    (if dmi_entity_is_incomplete (lint_entity lint n) then
       entity_issue lint n (STR ''length of %zu bytes matches no version of the specification'') [Lint_size (en_body_length (lint_entity lint n))]
     else lint)"

definition dmi_lint_entity_undecoded :: "dmi_lint_t \<Rightarrow> nat \<Rightarrow> dmi_lint_t" where
  "dmi_lint_entity_undecoded lint n =
    (case en_spec (lint_entity lint n) of
       None \<Rightarrow> lint
     | Some spec \<Rightarrow>
         if \<not> sp_has_decode spec \<and> \<not> sp_has_fields spec then lint
         else if dmi_entity_is_decoded (lint_entity lint n) then lint
         else entity_issue lint n (STR ''structure has not been decoded'') [])"

definition dmi_lint_entity_newer_fields :: "dmi_lint_t \<Rightarrow> nat \<Rightarrow> dmi_lint_t" where
  "dmi_lint_entity_newer_fields lint n =
    (let level = en_level (lint_entity lint n); version = li_version lint
     in if level = 0 \<or> level \<le> version then lint
        else entity_issue lint n (STR ''structure has fields of SMBIOS %s, while the entry point declares %s'')
               [dmi_lint_entity_version level, dmi_lint_entity_version version])"

definition dmi_lint_entity_newer_type :: "dmi_lint_t \<Rightarrow> nat \<Rightarrow> dmi_lint_t" where
  "dmi_lint_entity_newer_type lint n =
    (case en_spec (lint_entity lint n) of
       None \<Rightarrow> lint
     | Some spec \<Rightarrow>
         let minimum = ep_minimum_version (sp_params spec); version = li_version lint
         in if minimum = 0 \<or> minimum \<le> version then lint
            else entity_issue lint n (STR ''type is defined by SMBIOS %s, while the entry point declares %s'')
                   [dmi_lint_entity_version minimum, dmi_lint_entity_version version])"

definition dmi_lint_entity_unknown_type :: "dmi_lint_t \<Rightarrow> nat \<Rightarrow> dmi_lint_t" where
  "dmi_lint_entity_unknown_type lint n =
    (if en_spec (lint_entity lint n) \<noteq> None then lint
     else
       let type = en_type_id (lint_entity lint n)
       in entity_issue lint n
            (if type \<ge> DMI_TYPE_ID_OEM_START then STR ''no enabled module describes OEM-specific type %d''
             else STR ''no specification describes type %d'') [Lint_number type])"

text \<open>The loop stops at the first type which matches.\<close>

primrec obsolete_loop :: "dmi_lint_t \<Rightarrow> nat \<Rightarrow> dmi_type_id_t \<Rightarrow> dmi_type_id_t list \<Rightarrow> dmi_lint_t" where
  "obsolete_loop lint n type [] = lint"
| "obsolete_loop lint n type (t # ts) =
    (if type \<noteq> t then obsolete_loop lint n type ts
     else entity_issue lint n (STR ''type %d (%s) is obsolete'') [Lint_number type, Lint_text (dmi_type_name lint type)])"

definition dmi_lint_entity_obsolete :: "dmi_lint_t \<Rightarrow> nat \<Rightarrow> dmi_lint_t" where
  "dmi_lint_entity_obsolete lint n = obsolete_loop lint n (en_type_id (lint_entity lint n)) dmi_lint_obsolete_types"

section \<open>Strings\<close>

definition DMI_LINT_STRING_MAX :: nat where "DMI_LINT_STRING_MAX = 64"

text \<open>The loops over the strings of a structure, each with the issue \<open>check\<close> finds of the string, if any.\<close>

definition string_step :: "(nat \<Rightarrow> dmi_string_entry \<Rightarrow> dmi_lint_message option) \<Rightarrow> nat \<Rightarrow> dmi_lint_t \<Rightarrow> nat \<Rightarrow> dmi_lint_t" where
  "string_step check n lint i =
    (case check i (en_strings (lint_entity lint n) ! i) of
       None \<Rightarrow> lint
     | Some message \<Rightarrow> dmi_lint_issue lint (Some n) None (dmi_lint_string_offset lint n (i + 1)) message)"

definition strings_loop :: "(nat \<Rightarrow> dmi_string_entry \<Rightarrow> dmi_lint_message option) \<Rightarrow> dmi_lint_t \<Rightarrow> nat \<Rightarrow> dmi_lint_t" where
  "strings_loop check lint n = foldl (string_step check n) lint [0..<en_string_count (lint_entity lint n)]"

definition too_long :: "nat \<Rightarrow> dmi_string_entry \<Rightarrow> dmi_lint_message option" where
  "too_long i s =
    (if length (se_raw s) > DMI_LINT_STRING_MAX
     then Some (Lint_message (STR ''string %zu is %zu characters long, expected at most %d'')
                  [Lint_size (i + 1), Lint_size (length (se_raw s)), Lint_size DMI_LINT_STRING_MAX])
     else None)"

definition dmi_lint_string_too_long :: "dmi_lint_t \<Rightarrow> nat \<Rightarrow> dmi_lint_t" where
  "dmi_lint_string_too_long = strings_loop too_long"

primrec non_printable_loop :: "nat \<Rightarrow> nat \<Rightarrow> byte list \<Rightarrow> dmi_lint_message option" where
  "non_printable_loop i pos [] = None"
| "non_printable_loop i pos (c # cs) =
    (if isprint c \<or> c AND 0x80 \<noteq> 0 then non_printable_loop i (pos + 1) cs
     else Some (Lint_message (STR ''string %zu holds a non-printable character 0x%02X at position %zu'')
                  [Lint_size (i + 1), Lint_number (uint c), Lint_size pos]))"

definition non_printable :: "nat \<Rightarrow> dmi_string_entry \<Rightarrow> dmi_lint_message option" where
  "non_printable i s = non_printable_loop i 0 (se_raw s)"

definition dmi_lint_string_non_printable :: "dmi_lint_t \<Rightarrow> nat \<Rightarrow> dmi_lint_t" where
  "dmi_lint_string_non_printable = strings_loop non_printable"

definition blank_string :: "nat \<Rightarrow> dmi_string_entry \<Rightarrow> dmi_lint_message option" where
  "blank_string i s =
    (if se_raw s = [] \<or> se_pretty s \<noteq> [] then None
     else Some (Lint_message (STR ''string %zu holds whitespace only'') [Lint_size (i + 1)]))"

definition dmi_lint_string_blank :: "dmi_lint_t \<Rightarrow> nat \<Rightarrow> dmi_lint_t" where
  "dmi_lint_string_blank = strings_loop blank_string"

definition padded_string :: "nat \<Rightarrow> dmi_string_entry \<Rightarrow> dmi_lint_message option" where
  "padded_string i s =
    (if se_pretty s = [] then None
     else if se_raw s \<noteq> se_pretty s then Some (Lint_message (STR ''string %zu is padded with whitespace'') [Lint_size (i + 1)])
     else None)"

definition dmi_lint_string_padded :: "dmi_lint_t \<Rightarrow> nat \<Rightarrow> dmi_lint_t" where
  "dmi_lint_string_padded = strings_loop padded_string"

definition unreferenced :: "nat \<Rightarrow> dmi_string_entry \<Rightarrow> dmi_lint_message option" where
  "unreferenced i s =
    (if se_used s then None
     else Some (Lint_message (STR ''string %zu is referenced by no field of the structure'') [Lint_size (i + 1)]))"

definition dmi_lint_string_unreferenced :: "dmi_lint_t \<Rightarrow> nat \<Rightarrow> dmi_lint_t" where
  "dmi_lint_string_unreferenced lint n =
    (if en_info (lint_entity lint n) = None \<or> en_spec (lint_entity lint n) = None then lint else strings_loop unreferenced lint n)"

definition placeholder :: "nat \<Rightarrow> dmi_string_entry \<Rightarrow> dmi_lint_message option" where
  "placeholder i s =
    (let text' = map char_of_byte (se_pretty s)
     in if se_pretty s = [] then None
        else if dmi_string_is_placeholder text'
        then Some (Lint_message (STR ''string %zu holds a placeholder: \"%s\"'') [Lint_size (i + 1), Lint_text text'])
        else None)"

definition dmi_lint_quality_placeholder :: "dmi_lint_t \<Rightarrow> nat \<Rightarrow> dmi_lint_t" where
  "dmi_lint_quality_placeholder = strings_loop placeholder"

section \<open>The rules\<close>

definition dmi_lint_entity_below_minimum_rule :: dmi_lint_rule where
  "dmi_lint_entity_below_minimum_rule =
    \<lparr>lr_code = STR ''entity.below-minimum'', lr_scope = DMI_LINT_SCOPE_ENTITY,
     lr_params = \<lparr>lp_name = STR ''Structure is long enough for its type'',
       lp_reader_severity = DMI_LINT_SEVERITY_ERROR, lp_producer_severity = DMI_LINT_SEVERITY_ERROR, lp_optional = False\<rparr>,
     lr_check = Some (of_entity dmi_lint_entity_below_minimum)\<rparr>"

definition dmi_lint_entity_unknown_length_rule :: dmi_lint_rule where
  "dmi_lint_entity_unknown_length_rule =
    \<lparr>lr_code = STR ''entity.unknown-length'', lr_scope = DMI_LINT_SCOPE_ENTITY,
     lr_params = \<lparr>lp_name = STR ''Length of the structure matches a version of its specification'',
       lp_reader_severity = DMI_LINT_SEVERITY_WARNING, lp_producer_severity = DMI_LINT_SEVERITY_ERROR, lp_optional = False\<rparr>,
     lr_check = Some (of_entity dmi_lint_entity_unknown_length)\<rparr>"

definition dmi_lint_entity_undecoded_rule :: dmi_lint_rule where
  "dmi_lint_entity_undecoded_rule =
    \<lparr>lr_code = STR ''entity.undecoded'', lr_scope = DMI_LINT_SCOPE_ENTITY,
     lr_params = \<lparr>lp_name = STR ''Structure has been decoded'',
       lp_reader_severity = DMI_LINT_SEVERITY_WARNING, lp_producer_severity = DMI_LINT_SEVERITY_ERROR, lp_optional = False\<rparr>,
     lr_check = Some (of_entity dmi_lint_entity_undecoded)\<rparr>"

definition dmi_lint_entity_newer_fields_rule :: dmi_lint_rule where
  "dmi_lint_entity_newer_fields_rule =
    \<lparr>lr_code = STR ''entity.newer-fields'', lr_scope = DMI_LINT_SCOPE_ENTITY,
     lr_params = \<lparr>lp_name = STR ''Structure has no fields newer than the version of the entry point'',
       lp_reader_severity = DMI_LINT_SEVERITY_NOTE, lp_producer_severity = DMI_LINT_SEVERITY_ERROR, lp_optional = False\<rparr>,
     lr_check = Some (of_entity dmi_lint_entity_newer_fields)\<rparr>"

definition dmi_lint_entity_newer_type_rule :: dmi_lint_rule where
  "dmi_lint_entity_newer_type_rule =
    \<lparr>lr_code = STR ''entity.newer-type'', lr_scope = DMI_LINT_SCOPE_ENTITY,
     lr_params = \<lparr>lp_name = STR ''Type of the structure is defined by the version of the entry point'',
       lp_reader_severity = DMI_LINT_SEVERITY_WARNING, lp_producer_severity = DMI_LINT_SEVERITY_ERROR, lp_optional = False\<rparr>,
     lr_check = Some (of_entity dmi_lint_entity_newer_type)\<rparr>"

definition dmi_lint_entity_unknown_type_rule :: dmi_lint_rule where
  "dmi_lint_entity_unknown_type_rule =
    \<lparr>lr_code = STR ''entity.unknown-type'', lr_scope = DMI_LINT_SCOPE_ENTITY,
     lr_params = \<lparr>lp_name = STR ''Type of the structure is known'',
       lp_reader_severity = DMI_LINT_SEVERITY_NOTE, lp_producer_severity = DMI_LINT_SEVERITY_WARNING, lp_optional = True\<rparr>,
     lr_check = Some (of_entity dmi_lint_entity_unknown_type)\<rparr>"

definition dmi_lint_entity_obsolete_rule :: dmi_lint_rule where
  "dmi_lint_entity_obsolete_rule =
    \<lparr>lr_code = STR ''entity.obsolete'', lr_scope = DMI_LINT_SCOPE_ENTITY,
     lr_params = \<lparr>lp_name = STR ''Structure is not of a type obsoleted by the specification'',
       lp_reader_severity = DMI_LINT_SEVERITY_NOTE, lp_producer_severity = DMI_LINT_SEVERITY_WARNING, lp_optional = True\<rparr>,
     lr_check = Some (of_entity dmi_lint_entity_obsolete)\<rparr>"

definition dmi_lint_string_too_long_rule :: dmi_lint_rule where
  "dmi_lint_string_too_long_rule =
    \<lparr>lr_code = STR ''string.too-long'', lr_scope = DMI_LINT_SCOPE_ENTITY,
     lr_params = \<lparr>lp_name = STR ''Strings are no longer than the specification allows'',
       lp_reader_severity = DMI_LINT_SEVERITY_WARNING, lp_producer_severity = DMI_LINT_SEVERITY_ERROR, lp_optional = False\<rparr>,
     lr_check = Some (of_entity dmi_lint_string_too_long)\<rparr>"

definition dmi_lint_string_non_printable_rule :: dmi_lint_rule where
  "dmi_lint_string_non_printable_rule =
    \<lparr>lr_code = STR ''string.non-printable'', lr_scope = DMI_LINT_SCOPE_ENTITY,
     lr_params = \<lparr>lp_name = STR ''Strings hold printable text'',
       lp_reader_severity = DMI_LINT_SEVERITY_WARNING, lp_producer_severity = DMI_LINT_SEVERITY_ERROR, lp_optional = False\<rparr>,
     lr_check = Some (of_entity dmi_lint_string_non_printable)\<rparr>"

definition dmi_lint_string_blank_rule :: dmi_lint_rule where
  "dmi_lint_string_blank_rule =
    \<lparr>lr_code = STR ''string.blank'', lr_scope = DMI_LINT_SCOPE_ENTITY,
     lr_params = \<lparr>lp_name = STR ''Strings are not blank'',
       lp_reader_severity = DMI_LINT_SEVERITY_NOTE, lp_producer_severity = DMI_LINT_SEVERITY_WARNING, lp_optional = False\<rparr>,
     lr_check = Some (of_entity dmi_lint_string_blank)\<rparr>"

definition dmi_lint_string_padded_rule :: dmi_lint_rule where
  "dmi_lint_string_padded_rule =
    \<lparr>lr_code = STR ''string.padded'', lr_scope = DMI_LINT_SCOPE_ENTITY,
     lr_params = \<lparr>lp_name = STR ''Strings have no leading or trailing whitespace'',
       lp_reader_severity = DMI_LINT_SEVERITY_NOTE, lp_producer_severity = DMI_LINT_SEVERITY_WARNING, lp_optional = True\<rparr>,
     lr_check = Some (of_entity dmi_lint_string_padded)\<rparr>"

definition dmi_lint_string_unreferenced_rule :: dmi_lint_rule where
  "dmi_lint_string_unreferenced_rule =
    \<lparr>lr_code = STR ''string.unreferenced'', lr_scope = DMI_LINT_SCOPE_ENTITY,
     lr_params = \<lparr>lp_name = STR ''Every string is referenced by a field of its structure'',
       lp_reader_severity = DMI_LINT_SEVERITY_NOTE, lp_producer_severity = DMI_LINT_SEVERITY_WARNING, lp_optional = True\<rparr>,
     lr_check = Some (of_entity dmi_lint_string_unreferenced)\<rparr>"

definition dmi_lint_quality_placeholder_rule :: dmi_lint_rule where
  "dmi_lint_quality_placeholder_rule =
    \<lparr>lr_code = STR ''quality.placeholder'', lr_scope = DMI_LINT_SCOPE_ENTITY,
     lr_params = \<lparr>lp_name = STR ''Strings hold data rather than the placeholders of the firmware vendor'',
       lp_reader_severity = DMI_LINT_SEVERITY_NOTE, lp_producer_severity = DMI_LINT_SEVERITY_WARNING, lp_optional = True\<rparr>,
     lr_check = Some (of_entity dmi_lint_quality_placeholder)\<rparr>"

end
