(* ===== verification/Lint_Tables.thy ===== *)
theory Lint_Tables
  imports Lint_Structures
begin

text \<open>The rules of the entry point (\<^verbatim>\<open>src/lint/entry.c\<close>) and of the table as a whole (\<^verbatim>\<open>src/lint/table.c\<close>).\<close>

definition of_table :: "(dmi_lint_t \<Rightarrow> dmi_lint_t) \<Rightarrow> dmi_lint_check_fn" where
  "of_table check lint entity = check lint"

section \<open>The entry point\<close>

definition dmi_lint_entry_verify :: "byte list \<Rightarrow> bool" where
  "dmi_lint_entry_verify data \<longleftrightarrow> fold (\<lambda>b sum. sum + b) data 0 = 0"

abbreviation entry_issue :: "dmi_lint_t \<Rightarrow> string option \<Rightarrow> nat \<Rightarrow> String.literal \<Rightarrow> dmi_lint_arg list \<Rightarrow> dmi_lint_t" where
  "entry_issue lint attribute offset format args \<equiv> dmi_lint_issue lint None attribute (Some offset) (Lint_message format args)"

definition dmi_lint_entry_checksum :: "dmi_lint_t \<Rightarrow> dmi_lint_t" where
  "dmi_lint_entry_checksum lint =
    (case (lc_entry (li_context lint), lc_entry_spec (li_context lint)) of
       (Some entry, Some spec) \<Rightarrow>
         let declared = entry_length (lc_state (li_context lint));
             available = length (buffer_bytes entry);
             length' = (if declared < available then declared else available);
             lint = (if length' > 0 \<and> \<not> dmi_lint_entry_verify (take length' (buffer_bytes entry))
                     then entry_issue lint None 0 (STR ''checksum of the entry point does not match its %zu bytes'') [Lint_size length']
                     else lint)
         in if es_anchor spec = DMI_ANCHOR_V21 \<and> available \<ge> 31 \<and> \<not> dmi_lint_entry_verify (take 0x0F (drop 0x10 (buffer_bytes entry)))
            then entry_issue lint None 0x10 (STR ''checksum of the intermediate anchor does not match its data'') []
            else lint
     | _ \<Rightarrow> lint)"

text \<open>There is an entry point wherever there is a specification of one.\<close>

definition dmi_lint_entry_length :: "dmi_lint_t \<Rightarrow> dmi_lint_t" where
  "dmi_lint_entry_length lint =
    (case lc_entry_spec (li_context lint) of
       None \<Rightarrow> lint
     | Some spec \<Rightarrow>
         let declared = entry_length (lc_state (li_context lint));
             available = (case lc_entry (li_context lint) of Some entry \<Rightarrow> length (buffer_bytes entry) | None \<Rightarrow> 0)
         in if declared < es_min_length spec then
              entry_issue lint (Some ''length'') 0 (STR ''entry point of format \"%s\" is %zu bytes long, expected at least %zu'')
                [Lint_text (es_name spec), Lint_size declared, Lint_size (es_min_length spec)]
            else if declared > available then
              entry_issue lint (Some ''length'') 0 (STR ''entry point declares %zu bytes, but only %zu are available'')
                [Lint_size declared, Lint_size available]
            else lint)"

definition dmi_lint_entry_table_addr :: "dmi_lint_t \<Rightarrow> dmi_lint_t" where
  "dmi_lint_entry_table_addr lint =
    (if table_area_address (lc_state (li_context lint)) = 0
     then entry_issue lint (Some ''table-area-address'') 0 (STR ''entry point declares no address of the table'') []
     else lint)"

definition table_length :: "dmi_lint_t \<Rightarrow> nat" where
  "table_length lint = (case lc_table (li_context lint) of Some table \<Rightarrow> unat (buf_length table) | None \<Rightarrow> 0)"

definition dmi_lint_entry_table_size :: "dmi_lint_t \<Rightarrow> dmi_lint_t" where
  "dmi_lint_entry_table_size lint =
    (let size = table_area_size (lc_state (li_context lint)); max_size = table_area_max_size (lc_state (li_context lint))
     in if size > 0 \<and> size \<noteq> table_length lint then
          entry_issue lint (Some ''table-area-size'') 0 (STR ''entry point declares a table of %zu bytes, but it is %zu bytes long'')
            [Lint_size size, Lint_size (table_length lint)]
        else if max_size > 0 \<and> table_length lint > max_size then
          entry_issue lint (Some ''table-area-max-size'') 0 (STR ''table of %zu bytes is longer than the maximum of %zu bytes'')
            [Lint_size (table_length lint), Lint_size max_size]
        else lint)"

definition dmi_lint_entry_entity_count :: "dmi_lint_t \<Rightarrow> dmi_lint_t" where
  "dmi_lint_entry_entity_count lint =
    (let declared = entity_count (lc_state (li_context lint)); count = lt_entity_count (li_totals lint)
     in if declared > 0 \<and> declared \<noteq> count then
          entry_issue lint (Some ''entity-count'') 0 (STR ''entry point declares %zu structures, but the table has %zu'')
            [Lint_size declared, Lint_size count]
        else lint)"

definition dmi_lint_entry_entity_max_size :: "dmi_lint_t \<Rightarrow> dmi_lint_t" where
  "dmi_lint_entry_entity_max_size lint =
    (let declared = entity_max_size (lc_state (li_context lint)); size = lt_entity_max_size (li_totals lint)
     in if declared > 0 \<and> size > declared then
          entry_issue lint (Some ''entity-max-size'') 0
            (STR ''table has a structure of %zu bytes, but the entry point declares a maximum of %zu bytes'') [Lint_size size, Lint_size declared]
        else lint)"

section \<open>The table\<close>

definition DMI_LINT_RESERVED_HANDLE :: dmi_handle_t where "DMI_LINT_RESERVED_HANDLE = 0xFF00"

abbreviation table_issue :: "dmi_lint_t \<Rightarrow> nat option \<Rightarrow> String.literal \<Rightarrow> dmi_lint_arg list \<Rightarrow> dmi_lint_t" where
  "table_issue lint offset format args \<equiv> dmi_lint_issue lint None None offset (Lint_message format args)"

text \<open>What stops the walk of the table before its end, with the offset and the bytes of the header.\<close>

datatype dmi_lint_table_stop =
    DMI_LINT_TABLE_STOP_NONE
  | DMI_LINT_TABLE_STOP_ZERO_LENGTH (stop_offset: nat) (stop_header: "byte list")
  | DMI_LINT_TABLE_STOP_SHORT_LENGTH (stop_offset: nat) (stop_header: "byte list")

text \<open>The end of the structures the table has been walked to.\<close>

definition walk_end_step :: "dmi_lint_t \<Rightarrow> nat \<Rightarrow> nat \<Rightarrow> nat" where
  "walk_end_step lint offset n =
    (case dmi_lint_entity_offset lint n of
       Some start \<Rightarrow>
         if start + en_total_length (lint_entity lint n) > offset then start + en_total_length (lint_entity lint n) else offset
     | None \<Rightarrow> offset)"

definition walk_end :: "dmi_lint_t \<Rightarrow> nat" where
  "walk_end lint = foldl (walk_end_step lint) 0 (lint_visits lint)"

definition dmi_lint_table_find_stop :: "dmi_lint_t \<Rightarrow> dmi_lint_table_stop" where
  "dmi_lint_table_find_stop lint =
    (case lc_table (li_context lint) of
       None \<Rightarrow> DMI_LINT_TABLE_STOP_NONE
     | Some table \<Rightarrow>
         (case lt_terminator (li_totals lint) of
            Some n \<Rightarrow>
              (case dmi_lint_entity_offset lint n of
                 None \<Rightarrow> DMI_LINT_TABLE_STOP_NONE
               | Some offset \<Rightarrow>
                   (case dmi_buffer_at table (of_nat offset) (buf_length table - of_nat offset) of
                      None \<Rightarrow> DMI_LINT_TABLE_STOP_NONE
                    | Some header \<Rightarrow>
                        if header ! 1 \<noteq> 0 \<or> uint (header ! 0) = DMI_TYPE_ID_END_OF_TABLE then DMI_LINT_TABLE_STOP_NONE
                        else if list_ex (\<lambda>b. b \<noteq> 0) (drop 4 header) then DMI_LINT_TABLE_STOP_ZERO_LENGTH offset header
                        else DMI_LINT_TABLE_STOP_NONE))
          | None \<Rightarrow>
              let offset = walk_end lint
              in if buf_length table - of_nat offset < 4 then DMI_LINT_TABLE_STOP_NONE
                 else
                   (case dmi_buffer_at table (of_nat offset) 4 of
                      None \<Rightarrow> DMI_LINT_TABLE_STOP_NONE
                    | Some header \<Rightarrow>
                        if header ! 1 = 0 \<or> header ! 1 \<ge> 4 then DMI_LINT_TABLE_STOP_NONE
                        else DMI_LINT_TABLE_STOP_SHORT_LENGTH offset header)))"

definition dmi_lint_table_truncated :: "dmi_lint_t \<Rightarrow> dmi_lint_t" where
  "dmi_lint_table_truncated lint =
    (case dmi_lint_table_find_stop lint of
       DMI_LINT_TABLE_STOP_SHORT_LENGTH _ _ \<Rightarrow> lint
     | _ \<Rightarrow>
         if rg_status (li_registry lint) AND DMI_REGISTRY_STATUS_TRUNCATED \<noteq> 0
         then table_issue lint None (STR ''table ends in the middle of a structure'') []
         else lint)"

definition dmi_lint_table_terminator :: "dmi_lint_t \<Rightarrow> dmi_lint_t" where
  "dmi_lint_table_terminator lint =
    (if lt_terminator (li_totals lint) = None then table_issue lint None (STR ''table has no end-of-table structure'') [] else lint)"

definition dmi_lint_table_trailing_data :: "dmi_lint_t \<Rightarrow> dmi_lint_t" where
  "dmi_lint_table_trailing_data lint =
    (case lt_terminator (li_totals lint) of
       None \<Rightarrow> lint
     | Some n \<Rightarrow>
         (case dmi_lint_table_find_stop lint of
            DMI_LINT_TABLE_STOP_ZERO_LENGTH _ _ \<Rightarrow> lint
          | _ \<Rightarrow>
              (case dmi_lint_entity_offset lint n of
                 None \<Rightarrow> lint
               | Some offset \<Rightarrow>
                   let end' = offset + en_total_length (lint_entity lint n); size = table_length lint
                   in if size > end' then
                        table_issue lint (Some end') (STR ''table has %zu bytes past the end-of-table structure'') [Lint_size (size - end')]
                      else lint)))"

definition dmi_lint_table_invalid_header :: "dmi_lint_t \<Rightarrow> dmi_lint_t" where
  "dmi_lint_table_invalid_header lint =
    (case dmi_lint_table_find_stop lint of
       DMI_LINT_TABLE_STOP_NONE \<Rightarrow> lint
     | DMI_LINT_TABLE_STOP_ZERO_LENGTH offset header \<Rightarrow>
         table_issue lint (Some offset)
           (STR ''header of type %u and of no length is taken for the end of the table, while %zu bytes of the table follow it'')
           [Lint_number (uint (header ! 0)), Lint_size (table_length lint - offset - 4)]
     | DMI_LINT_TABLE_STOP_SHORT_LENGTH offset header \<Rightarrow>
         table_issue lint (Some offset)
           (STR ''header of type %u declares a length of %u bytes, shorter than the header, so the %zu bytes of the table from it on cannot be read'')
           [Lint_number (uint (header ! 0)), Lint_number (uint (header ! 1)), Lint_size (table_length lint - offset)])"

text \<open>The loops over the types the context knows.\<close>

definition types_loop :: "(dmi_lint_t \<Rightarrow> dmi_type_id_t \<Rightarrow> dmi_entity_params \<Rightarrow> dmi_lint_t) \<Rightarrow> dmi_lint_t \<Rightarrow> dmi_lint_t" where
  "types_loop check lint =
    foldl (\<lambda>lint type. case lint_type_spec lint type of None \<Rightarrow> lint | Some spec \<Rightarrow> check lint type (sp_params spec)) lint [0..DMI_TYPE_ID_MAX]"

definition missing_issue :: "dmi_lint_t \<Rightarrow> dmi_type_id_t \<Rightarrow> dmi_lint_t" where
  "missing_issue lint type =
    (if lt_type_counts (li_totals lint) type = 0
     then table_issue lint None (STR ''table has no structure of type %d (%s)'') [Lint_number type, Lint_text (dmi_type_name lint type)]
     else lint)"

definition check_required :: "dmi_lint_t \<Rightarrow> dmi_type_id_t \<Rightarrow> dmi_entity_params \<Rightarrow> dmi_lint_t" where
  "check_required lint type params =
    (if ep_required_from params = 0 then lint
     else if li_version lint < ep_required_from params then lint
     else if ep_required_till params \<noteq> 0 \<and> li_version lint > ep_required_till params then lint
     else missing_issue lint type)"

definition dmi_lint_table_required :: "dmi_lint_t \<Rightarrow> dmi_lint_t" where
  "dmi_lint_table_required = types_loop check_required"

definition check_recommended :: "dmi_lint_t \<Rightarrow> dmi_type_id_t \<Rightarrow> dmi_entity_params \<Rightarrow> dmi_lint_t" where
  "check_recommended lint type params =
    (if ep_recommended_from params = 0 then lint
     else if li_version lint < ep_recommended_from params then lint
     else missing_issue lint type)"

definition dmi_lint_table_recommended :: "dmi_lint_t \<Rightarrow> dmi_lint_t" where
  "dmi_lint_table_recommended = types_loop check_recommended"

definition check_singleton :: "dmi_lint_t \<Rightarrow> dmi_type_id_t \<Rightarrow> dmi_entity_params \<Rightarrow> dmi_lint_t" where
  "check_singleton lint type params =
    (if \<not> ep_unique params then lint
     else if lt_type_counts (li_totals lint) type > 1 then
       table_issue lint None (STR ''table has %zu structures of type %d (%s), expected one'')
         [Lint_size (lt_type_counts (li_totals lint) type), Lint_number type, Lint_text (dmi_type_name lint type)]
     else lint)"

definition dmi_lint_table_singleton :: "dmi_lint_t \<Rightarrow> dmi_lint_t" where
  "dmi_lint_table_singleton = types_loop check_singleton"

definition dmi_lint_table_reserved_handle :: "dmi_lint_t \<Rightarrow> nat \<Rightarrow> dmi_lint_t" where
  "dmi_lint_table_reserved_handle lint n =
    (case lint_entity_type lint n of
       (type, lint) \<Rightarrow>
         if type = Some (lc_end_of_table (li_context lint)) then lint
         else
           let handle = en_handle (lint_entity lint n)
           in if handle \<ge> DMI_LINT_RESERVED_HANDLE then
                entity_issue lint n (STR ''handle 0x%04X belongs to the range 0x%04X-0xFFFF reserved by the specification'')
                  [Lint_number (uint handle), Lint_number (uint DMI_LINT_RESERVED_HANDLE)]
              else lint)"

section \<open>The rules\<close>

definition dmi_lint_entry_checksum_rule :: dmi_lint_rule where
  "dmi_lint_entry_checksum_rule =
    \<lparr>lr_code = STR ''entry.checksum'', lr_scope = DMI_LINT_SCOPE_ENTRY,
     lr_params = \<lparr>lp_name = STR ''Checksum of the entry point matches its data'',
       lp_reader_severity = DMI_LINT_SEVERITY_WARNING, lp_producer_severity = DMI_LINT_SEVERITY_ERROR, lp_optional = False\<rparr>,
     lr_check = Some (of_table dmi_lint_entry_checksum)\<rparr>"

definition dmi_lint_entry_length_rule :: dmi_lint_rule where
  "dmi_lint_entry_length_rule =
    \<lparr>lr_code = STR ''entry.length'', lr_scope = DMI_LINT_SCOPE_ENTRY,
     lr_params = \<lparr>lp_name = STR ''Length of the entry point matches its format'',
       lp_reader_severity = DMI_LINT_SEVERITY_WARNING, lp_producer_severity = DMI_LINT_SEVERITY_ERROR, lp_optional = False\<rparr>,
     lr_check = Some (of_table dmi_lint_entry_length)\<rparr>"

definition dmi_lint_entry_table_addr_rule :: dmi_lint_rule where
  "dmi_lint_entry_table_addr_rule =
    \<lparr>lr_code = STR ''entry.table-address'', lr_scope = DMI_LINT_SCOPE_ENTRY,
     lr_params = \<lparr>lp_name = STR ''Entry point points to the table'',
       lp_reader_severity = DMI_LINT_SEVERITY_WARNING, lp_producer_severity = DMI_LINT_SEVERITY_ERROR, lp_optional = False\<rparr>,
     lr_check = Some (of_table dmi_lint_entry_table_addr)\<rparr>"

definition dmi_lint_entry_table_size_rule :: dmi_lint_rule where
  "dmi_lint_entry_table_size_rule =
    \<lparr>lr_code = STR ''entry.table-size'', lr_scope = DMI_LINT_SCOPE_ENTRY,
     lr_params = \<lparr>lp_name = STR ''Size of the table matches the one declared by the entry point'',
       lp_reader_severity = DMI_LINT_SEVERITY_WARNING, lp_producer_severity = DMI_LINT_SEVERITY_ERROR, lp_optional = False\<rparr>,
     lr_check = Some (of_table dmi_lint_entry_table_size)\<rparr>"

definition dmi_lint_entry_entity_count_rule :: dmi_lint_rule where
  "dmi_lint_entry_entity_count_rule =
    \<lparr>lr_code = STR ''entry.entity-count'', lr_scope = DMI_LINT_SCOPE_ENTRY,
     lr_params = \<lparr>lp_name = STR ''Number of the structures matches the one declared by the entry point'',
       lp_reader_severity = DMI_LINT_SEVERITY_WARNING, lp_producer_severity = DMI_LINT_SEVERITY_ERROR, lp_optional = False\<rparr>,
     lr_check = Some (of_table dmi_lint_entry_entity_count)\<rparr>"

definition dmi_lint_entry_entity_max_size_rule :: dmi_lint_rule where
  "dmi_lint_entry_entity_max_size_rule =
    \<lparr>lr_code = STR ''entry.entity-max-size'', lr_scope = DMI_LINT_SCOPE_ENTRY,
     lr_params = \<lparr>lp_name = STR ''Structures fit the maximum size declared by the entry point'',
       lp_reader_severity = DMI_LINT_SEVERITY_WARNING, lp_producer_severity = DMI_LINT_SEVERITY_ERROR, lp_optional = False\<rparr>,
     lr_check = Some (of_table dmi_lint_entry_entity_max_size)\<rparr>"

definition dmi_lint_table_truncated_rule :: dmi_lint_rule where
  "dmi_lint_table_truncated_rule =
    \<lparr>lr_code = STR ''table.truncated'', lr_scope = DMI_LINT_SCOPE_TABLE,
     lr_params = \<lparr>lp_name = STR ''Table holds every structure completely'',
       lp_reader_severity = DMI_LINT_SEVERITY_ERROR, lp_producer_severity = DMI_LINT_SEVERITY_ERROR, lp_optional = False\<rparr>,
     lr_check = Some (of_table dmi_lint_table_truncated)\<rparr>"

definition dmi_lint_table_invalid_header_rule :: dmi_lint_rule where
  "dmi_lint_table_invalid_header_rule =
    \<lparr>lr_code = STR ''table.invalid-header'', lr_scope = DMI_LINT_SCOPE_TABLE,
     lr_params = \<lparr>lp_name = STR ''Structure headers are valid, so that the table is read to its end'',
       lp_reader_severity = DMI_LINT_SEVERITY_ERROR, lp_producer_severity = DMI_LINT_SEVERITY_ERROR, lp_optional = False\<rparr>,
     lr_check = Some (of_table dmi_lint_table_invalid_header)\<rparr>"

definition dmi_lint_table_terminator_rule :: dmi_lint_rule where
  "dmi_lint_table_terminator_rule =
    \<lparr>lr_code = STR ''table.terminator'', lr_scope = DMI_LINT_SCOPE_TABLE,
     lr_params = \<lparr>lp_name = STR ''Table ends with an end-of-table structure'',
       lp_reader_severity = DMI_LINT_SEVERITY_WARNING, lp_producer_severity = DMI_LINT_SEVERITY_ERROR, lp_optional = False\<rparr>,
     lr_check = Some (of_table dmi_lint_table_terminator)\<rparr>"

definition dmi_lint_table_trailing_data_rule :: dmi_lint_rule where
  "dmi_lint_table_trailing_data_rule =
    \<lparr>lr_code = STR ''table.trailing-data'', lr_scope = DMI_LINT_SCOPE_TABLE,
     lr_params = \<lparr>lp_name = STR ''Table has no data past the end-of-table structure'',
       lp_reader_severity = DMI_LINT_SEVERITY_NOTE, lp_producer_severity = DMI_LINT_SEVERITY_ERROR, lp_optional = False\<rparr>,
     lr_check = Some (of_table dmi_lint_table_trailing_data)\<rparr>"

definition dmi_lint_table_required_rule :: dmi_lint_rule where
  "dmi_lint_table_required_rule =
    \<lparr>lr_code = STR ''table.missing-required'', lr_scope = DMI_LINT_SCOPE_TABLE,
     lr_params = \<lparr>lp_name = STR ''Table has the structures required by the specification'',
       lp_reader_severity = DMI_LINT_SEVERITY_WARNING, lp_producer_severity = DMI_LINT_SEVERITY_ERROR, lp_optional = False\<rparr>,
     lr_check = Some (of_table dmi_lint_table_required)\<rparr>"

definition dmi_lint_table_recommended_rule :: dmi_lint_rule where
  "dmi_lint_table_recommended_rule =
    \<lparr>lr_code = STR ''table.missing-recommended'', lr_scope = DMI_LINT_SCOPE_TABLE,
     lr_params = \<lparr>lp_name = STR ''Table has the structures recommended for the platform'',
       lp_reader_severity = DMI_LINT_SEVERITY_NOTE, lp_producer_severity = DMI_LINT_SEVERITY_WARNING, lp_optional = True\<rparr>,
     lr_check = Some (of_table dmi_lint_table_recommended)\<rparr>"

definition dmi_lint_table_singleton_rule :: dmi_lint_rule where
  "dmi_lint_table_singleton_rule =
    \<lparr>lr_code = STR ''table.duplicate-singleton'', lr_scope = DMI_LINT_SCOPE_TABLE,
     lr_params = \<lparr>lp_name = STR ''Structures which have to be unique are not repeated'',
       lp_reader_severity = DMI_LINT_SEVERITY_WARNING, lp_producer_severity = DMI_LINT_SEVERITY_ERROR, lp_optional = False\<rparr>,
     lr_check = Some (of_table dmi_lint_table_singleton)\<rparr>"

definition dmi_lint_table_reserved_handle_rule :: dmi_lint_rule where
  "dmi_lint_table_reserved_handle_rule =
    \<lparr>lr_code = STR ''table.reserved-handle'', lr_scope = DMI_LINT_SCOPE_ENTITY,
     lr_params = \<lparr>lp_name = STR ''Handles are outside of the range reserved by the specification'',
       lp_reader_severity = DMI_LINT_SEVERITY_WARNING, lp_producer_severity = DMI_LINT_SEVERITY_ERROR, lp_optional = False\<rparr>,
     lr_check = Some (of_entity dmi_lint_table_reserved_handle)\<rparr>"

end
