(* ===== verification/Lint_Values.thy ===== *)
theory Lint_Values
  imports Lint_Structures Utils
begin

text \<open>
  The rules of the values of a decoded structure (\<^verbatim>\<open>src/lint/value.c\<close>), which a walk over its attributes comes to. A value is an
  address in the memory of the structure; the limits of a value are bytes of their own.
\<close>

section \<open>Values\<close>

record dmi_lint_value =
  lv_entity :: nat
  lv_attr :: dmi_attribute
  lv_memory :: dmi_memory
  lv_value :: nat
  lv_index :: size_t

type_synonym dmi_lint_value_fn = "dmi_lint_t \<Rightarrow> dmi_lint_value \<Rightarrow> dmi_lint_t"

definition dmi_lint_value_report :: "dmi_lint_t \<Rightarrow> dmi_lint_value \<Rightarrow> String.literal \<Rightarrow> dmi_lint_arg list \<Rightarrow> dmi_lint_t" where
  "dmi_lint_value_report lint v format args =
    (let details = Lint_details (Lint_message format args);
         offset = dmi_lint_entity_offset lint (lv_entity v);
         code = ap_code (at_params (lv_attr v))
     in if lv_index v = SIZE_MAX then dmi_lint_issue lint (Some (lv_entity v)) code offset (Lint_message (STR ''%s'') [details])
        else dmi_lint_issue lint (Some (lv_entity v)) code offset (Lint_message (STR ''item %zu: %s'') [Lint_number (uint (lv_index v)), details]))"

definition dmi_lint_value_is_special :: "dmi_lint_value \<Rightarrow> bool" where
  "dmi_lint_value_is_special v \<longleftrightarrow>
    dmi_attribute_is_unknown (lv_attr v) (lv_memory v) (lv_value v) \<or> dmi_attribute_is_unspecified (lv_attr v) (lv_memory v) (lv_value v)"

definition lint_value :: "nat \<Rightarrow> dmi_memory \<Rightarrow> dmi_attribute_node \<Rightarrow> dmi_lint_value" where
  "lint_value n m node = \<lparr>lv_entity = n, lv_attr = nd_attr node, lv_memory = m, lv_value = nd_value node, lv_index = nd_index node\<rparr>"

definition dmi_lint_value_visit :: "dmi_lint_value_fn \<Rightarrow> nat \<Rightarrow> dmi_memory \<Rightarrow> dmi_attribute_node \<Rightarrow> dmi_lint_t \<Rightarrow> bool \<times> dmi_lint_t" where
  "dmi_lint_value_visit handler n m node lint = (True, handler lint (lint_value n m node))"

text \<open>A walk which only looks at values, over the attributes and the information of a structure if it has both.\<close>

definition lint_walk :: "dmi_lint_t \<Rightarrow> nat \<Rightarrow> (dmi_memory \<Rightarrow> dmi_attribute_node \<Rightarrow> 's \<Rightarrow> bool \<times> 's) \<Rightarrow> 's \<Rightarrow> bool \<times> 's" where
  "lint_walk lint n visit s =
    (case en_spec (lint_entity lint n) of
       None \<Rightarrow> (True, s)
     | Some spec \<Rightarrow>
         (case (lc_attributes (li_context lint) spec, en_info (lint_entity lint n)) of
            (Some attrs, Some m) \<Rightarrow> (case dmi_attributes_walk (values_only (visit m)) attrs 0 (s, m) of (ok, s, _) \<Rightarrow> (ok, s))
          | _ \<Rightarrow> (True, s)))"

definition dmi_lint_value_walk :: "dmi_lint_value_fn \<Rightarrow> dmi_lint_t \<Rightarrow> nat \<Rightarrow> dmi_lint_t" where
  "dmi_lint_value_walk handler lint n = snd (lint_walk lint n (dmi_lint_value_visit handler n) lint)"

section \<open>Enumerations and sets\<close>

definition c_int :: "int \<Rightarrow> int" where
  "c_int n = sint (word_of_int n :: 32 word)"

definition c_unsigned :: "int \<Rightarrow> int" where
  "c_unsigned n = uint (word_of_int n :: 32 word)"

definition value_int :: "dmi_lint_value \<Rightarrow> int" where
  "value_int v = dmi_attribute_get_int (lv_attr v) (lv_memory v) (lv_value v)"

definition value_uint :: "dmi_lint_value \<Rightarrow> uintmax_t" where
  "value_uint v = dmi_attribute_get_uint (lv_attr v) (lv_memory v) (lv_value v)"

abbreviation value_values :: "dmi_lint_value \<Rightarrow> dmi_name_set option" where
  "value_values v \<equiv> ap_values (at_params (lv_attr v))"

definition dmi_lint_value_check_enum :: dmi_lint_value_fn where
  "dmi_lint_value_check_enum lint v =
    (if at_type (lv_attr v) \<noteq> DMI_ATTRIBUTE_TYPE_ENUM \<or> value_values v = None then lint
     else if has_flag (lv_attr v) DMI_ATTRIBUTE_FLAG_OPEN then lint
     else if dmi_lint_value_is_special v then lint
     else
       let ident = c_int (value_int v)
       in if dmi_code_lookup (lc_locale (li_context lint)) (value_values v) ident = None then
            dmi_lint_value_report lint v (STR ''value 0x%X is defined by no version of the specification'') [Lint_number (c_unsigned ident)]
          else lint)"

definition DMI_LINT_RESERVED_CODE :: string where "DMI_LINT_RESERVED_CODE = ''reserved''"

definition dmi_lint_value_check_reserved :: dmi_lint_value_fn where
  "dmi_lint_value_check_reserved lint v =
    (if at_type (lv_attr v) \<noteq> DMI_ATTRIBUTE_TYPE_ENUM \<or> value_values v = None then lint
     else if dmi_lint_value_is_special v then lint
     else
       let ident = c_int (value_int v)
       in if dmi_code_lookup (lc_locale (li_context lint)) (value_values v) ident = Some DMI_LINT_RESERVED_CODE then
            dmi_lint_value_report lint v (STR ''value 0x%X is reserved by the specification'') [Lint_number (c_unsigned ident)]
          else lint)"

text \<open>The bits the names stand for, and the highest one of them.\<close>

primrec known_bits :: "dmi_name list \<Rightarrow> uintmax_t \<Rightarrow> int \<Rightarrow> uintmax_t \<times> int" where
  "known_bits [] known highest = (known, highest)"
| "known_bits (name # names) known highest =
    (if nm_id name < 0 \<or> nm_id name \<ge> 64 then known_bits names known highest
     else known_bits names (known OR push_bit (nat (nm_id name)) 1) (if nm_id name > highest then nm_id name else highest))"

definition described_bits :: "int \<Rightarrow> uintmax_t" where
  "described_bits highest = (if nat highest + 1 < 64 then push_bit (nat highest + 1) 1 - 1 else UINTMAX_MAX)"

definition dmi_lint_value_check_bits :: dmi_lint_value_fn where
  "dmi_lint_value_check_bits lint v =
    (case value_values v of
       None \<Rightarrow> lint
     | Some values' \<Rightarrow>
         if at_type (lv_attr v) \<noteq> DMI_ATTRIBUTE_TYPE_SET then lint
         else
           (case known_bits (case ns_names values' of Some names \<Rightarrow> names | None \<Rightarrow> []) 0 (-1) of
              (known, highest) \<Rightarrow>
                if highest < 0 then lint
                else
                  let reserved = value_uint v AND described_bits highest AND NOT known
                  in if reserved \<noteq> 0 then dmi_lint_value_report lint v (STR ''reserved bits 0x%jX are set'') [Lint_number (uint reserved)]
                     else lint))"

section \<open>Numbers\<close>

lemma unat_drop_bit_less: "w \<noteq> 0 \<Longrightarrow> 0 < k \<Longrightarrow> unat (drop_bit k (w :: 'a::len word)) < unat w"
proof -
  assume w: "w \<noteq> 0" and k: "0 < k"
  have "unat (drop_bit k w) = unat w div 2 ^ k" by (subst unat_drop_bit_eq) (simp add: drop_bit_eq_div)
  moreover have "0 < unat w" using w by (simp add: word_neq_0_conv unat_gt_0)
  moreover have "(1 :: nat) < 2 ^ k" using k by (intro one_less_power) simp_all
  ultimately show ?thesis by simp
qed

function is_bcd :: "uintmax_t \<Rightarrow> bool" where
  "is_bcd rest \<longleftrightarrow> (if rest = 0 then True else if rest AND 0x0F \<le> 9 then is_bcd (drop_bit 4 rest) else False)"
  by pat_completeness auto
termination
  by (relation "measure unat") (auto simp: unat_drop_bit_less)

declare is_bcd.simps [simp del]

definition dmi_lint_value_check_bcd :: dmi_lint_value_fn where
  "dmi_lint_value_check_bcd lint v =
    (if \<not> has_flag (lv_attr v) DMI_ATTRIBUTE_FLAG_BCD then lint
     else if dmi_lint_value_is_special v then lint
     else if is_bcd (value_uint v) then lint
     else dmi_lint_value_report lint v (STR ''value 0x%jX is not a binary-coded decimal'') [Lint_number (uint (value_uint v))])"

definition dmi_lint_value_check_uuid :: dmi_lint_value_fn where
  "dmi_lint_value_check_uuid lint v =
    (if at_type (lv_attr v) \<noteq> DMI_ATTRIBUTE_TYPE_UUID then lint
     else
       let uuid = mem_bytes (lv_memory v) (lv_value v) 16;
           zeroes = length (filter (\<lambda>b. b = 0x00) uuid);
           ones = length (filter (\<lambda>b. b = 0xFF) uuid)
       in if zeroes = 16 then dmi_lint_value_report lint v (STR ''UUID is not set'') []
          else if ones = 16 then dmi_lint_value_report lint v (STR ''UUID is not present'') []
          else lint)"

text \<open>Limits are read the way the value is, from where they are.\<close>

definition bytes_memory :: "byte list \<Rightarrow> dmi_memory" where
  "bytes_memory bs = \<lparr>mm_cells = (\<lambda>i. Byte (if i < length bs then bs ! i else 0)), mm_next = length bs\<rparr>"

definition limit_int :: "dmi_attribute \<Rightarrow> byte list \<Rightarrow> int" where
  "limit_int attr bs = dmi_attribute_get_int attr (bytes_memory bs) 0"

definition limit_uint :: "dmi_attribute \<Rightarrow> byte list \<Rightarrow> uintmax_t" where
  "limit_uint attr bs = dmi_attribute_get_uint attr (bytes_memory bs) 0"

definition check_signed_range :: dmi_lint_value_fn where
  "check_signed_range lint v =
    (let actual = value_int v; params = at_params (lv_attr v)
     in if ap_minimum params \<noteq> None \<and> actual < limit_int (lv_attr v) (the (ap_minimum params)) then
          dmi_lint_value_report lint v (STR ''value %jd is below the minimum of %jd'')
            [Lint_number actual, Lint_number (limit_int (lv_attr v) (the (ap_minimum params)))]
        else if ap_maximum params \<noteq> None \<and> actual > limit_int (lv_attr v) (the (ap_maximum params)) then
          dmi_lint_value_report lint v (STR ''value %jd is above the maximum of %jd'')
            [Lint_number actual, Lint_number (limit_int (lv_attr v) (the (ap_maximum params)))]
        else lint)"

definition check_unsigned_range :: dmi_lint_value_fn where
  "check_unsigned_range lint v =
    (let actual = value_uint v; params = at_params (lv_attr v)
     in if ap_minimum params \<noteq> None \<and> actual < limit_uint (lv_attr v) (the (ap_minimum params)) then
          dmi_lint_value_report lint v (STR ''value %ju is below the minimum of %ju'')
            [Lint_number (uint actual), Lint_number (uint (limit_uint (lv_attr v) (the (ap_minimum params))))]
        else if ap_maximum params \<noteq> None \<and> actual > limit_uint (lv_attr v) (the (ap_maximum params)) then
          dmi_lint_value_report lint v (STR ''value %ju is above the maximum of %ju'')
            [Lint_number (uint actual), Lint_number (uint (limit_uint (lv_attr v) (the (ap_maximum params))))]
        else lint)"

definition dmi_lint_value_check_range :: dmi_lint_value_fn where
  "dmi_lint_value_check_range lint v =
    (if ap_minimum (at_params (lv_attr v)) = None \<and> ap_maximum (at_params (lv_attr v)) = None then lint
     else if dmi_lint_value_is_special v then lint
     else if has_flag (lv_attr v) DMI_ATTRIBUTE_FLAG_SIGNED then check_signed_range lint v
     else check_unsigned_range lint v)"

definition DMI_LINT_JEP106_BANKS :: uintmax_t where "DMI_LINT_JEP106_BANKS = 8"

function set_bits_of :: "uintmax_t \<Rightarrow> nat" where
  "set_bits_of rest = (if rest = 0 then 0 else unat (rest AND 1) + set_bits_of (drop_bit 1 rest))"
  by pat_completeness auto
termination
  by (relation "measure unat") (auto simp: unat_drop_bit_less)

declare set_bits_of.simps [simp del]

definition dmi_lint_value_check_jep106 :: dmi_lint_value_fn where
  "dmi_lint_value_check_jep106 lint v =
    (if \<not> has_flag (lv_attr v) DMI_ATTRIBUTE_FLAG_JEP106 then lint
     else if dmi_lint_value_is_special v then lint
     else
       let code = value_uint v; continuations = code AND 0x7F
       in if code = 0 then lint
          else if continuations > DMI_LINT_JEP106_BANKS then
            dmi_lint_value_report lint v (STR ''code 0x%04jX leads to bank %ju, while JEDEC has published %d of them'')
              [Lint_number (uint code), Lint_number (uint (continuations + 1)), Lint_number (uint (DMI_LINT_JEP106_BANKS + 1))]
          else if set_bits_of (drop_bit 8 code AND 0xFF) mod 2 \<noteq> 0 then lint
          else
            dmi_lint_value_report lint v (STR ''code 0x%04jX has an even number of bits set in its identifier, which is no JEP106 code'')
              [Lint_number (uint code)])"

section \<open>The rules\<close>

definition dmi_lint_value_invalid_enum :: "dmi_lint_t \<Rightarrow> nat \<Rightarrow> dmi_lint_t" where
  "dmi_lint_value_invalid_enum = dmi_lint_value_walk dmi_lint_value_check_enum"

definition dmi_lint_value_reserved :: "dmi_lint_t \<Rightarrow> nat \<Rightarrow> dmi_lint_t" where
  "dmi_lint_value_reserved = dmi_lint_value_walk dmi_lint_value_check_reserved"

definition dmi_lint_value_reserved_bits :: "dmi_lint_t \<Rightarrow> nat \<Rightarrow> dmi_lint_t" where
  "dmi_lint_value_reserved_bits = dmi_lint_value_walk dmi_lint_value_check_bits"

definition dmi_lint_value_bcd :: "dmi_lint_t \<Rightarrow> nat \<Rightarrow> dmi_lint_t" where
  "dmi_lint_value_bcd = dmi_lint_value_walk dmi_lint_value_check_bcd"

definition dmi_lint_value_range :: "dmi_lint_t \<Rightarrow> nat \<Rightarrow> dmi_lint_t" where
  "dmi_lint_value_range = dmi_lint_value_walk dmi_lint_value_check_range"

definition dmi_lint_value_jep106 :: "dmi_lint_t \<Rightarrow> nat \<Rightarrow> dmi_lint_t" where
  "dmi_lint_value_jep106 = dmi_lint_value_walk dmi_lint_value_check_jep106"

definition dmi_lint_value_uuid :: "dmi_lint_t \<Rightarrow> nat \<Rightarrow> dmi_lint_t" where
  "dmi_lint_value_uuid = dmi_lint_value_walk dmi_lint_value_check_uuid"

definition dmi_lint_value_invalid_enum_rule :: dmi_lint_rule where
  "dmi_lint_value_invalid_enum_rule =
    \<lparr>lr_code = STR ''value.invalid-enum'', lr_scope = DMI_LINT_SCOPE_ENTITY,
     lr_params = \<lparr>lp_name = STR ''Values of enumerated fields are defined by the specification'',
       lp_reader_severity = DMI_LINT_SEVERITY_WARNING, lp_producer_severity = DMI_LINT_SEVERITY_ERROR, lp_optional = False\<rparr>,
     lr_check = Some (of_entity dmi_lint_value_invalid_enum)\<rparr>"

definition dmi_lint_value_reserved_rule :: dmi_lint_rule where
  "dmi_lint_value_reserved_rule =
    \<lparr>lr_code = STR ''value.reserved'', lr_scope = DMI_LINT_SCOPE_ENTITY,
     lr_params = \<lparr>lp_name = STR ''Fields hold no values reserved by the specification'',
       lp_reader_severity = DMI_LINT_SEVERITY_NOTE, lp_producer_severity = DMI_LINT_SEVERITY_ERROR, lp_optional = False\<rparr>,
     lr_check = Some (of_entity dmi_lint_value_reserved)\<rparr>"

definition dmi_lint_value_reserved_bits_rule :: dmi_lint_rule where
  "dmi_lint_value_reserved_bits_rule =
    \<lparr>lr_code = STR ''value.reserved-bits'', lr_scope = DMI_LINT_SCOPE_ENTITY,
     lr_params = \<lparr>lp_name = STR ''Bit fields have no bits reserved by the specification set'',
       lp_reader_severity = DMI_LINT_SEVERITY_NOTE, lp_producer_severity = DMI_LINT_SEVERITY_ERROR, lp_optional = False\<rparr>,
     lr_check = Some (of_entity dmi_lint_value_reserved_bits)\<rparr>"

definition dmi_lint_value_bcd_rule :: dmi_lint_rule where
  "dmi_lint_value_bcd_rule =
    \<lparr>lr_code = STR ''value.bcd'', lr_scope = DMI_LINT_SCOPE_ENTITY,
     lr_params = \<lparr>lp_name = STR ''Fields encoded as binary-coded decimals hold decimal digits'',
       lp_reader_severity = DMI_LINT_SEVERITY_WARNING, lp_producer_severity = DMI_LINT_SEVERITY_ERROR, lp_optional = False\<rparr>,
     lr_check = Some (of_entity dmi_lint_value_bcd)\<rparr>"

definition dmi_lint_value_range_rule :: dmi_lint_rule where
  "dmi_lint_value_range_rule =
    \<lparr>lr_code = STR ''value.range'', lr_scope = DMI_LINT_SCOPE_ENTITY,
     lr_params = \<lparr>lp_name = STR ''Fields hold the values the specification allows them'',
       lp_reader_severity = DMI_LINT_SEVERITY_WARNING, lp_producer_severity = DMI_LINT_SEVERITY_ERROR, lp_optional = False\<rparr>,
     lr_check = Some (of_entity dmi_lint_value_range)\<rparr>"

definition dmi_lint_value_jep106_rule :: dmi_lint_rule where
  "dmi_lint_value_jep106_rule =
    \<lparr>lr_code = STR ''value.jep106'', lr_scope = DMI_LINT_SCOPE_ENTITY,
     lr_params = \<lparr>lp_name = STR ''Identification codes of JEDEC manufacturers carry their parity bit'',
       lp_reader_severity = DMI_LINT_SEVERITY_WARNING, lp_producer_severity = DMI_LINT_SEVERITY_ERROR, lp_optional = False\<rparr>,
     lr_check = Some (of_entity dmi_lint_value_jep106)\<rparr>"

definition dmi_lint_value_uuid_rule :: dmi_lint_rule where
  "dmi_lint_value_uuid_rule =
    \<lparr>lr_code = STR ''value.uuid'', lr_scope = DMI_LINT_SCOPE_ENTITY,
     lr_params = \<lparr>lp_name = STR ''UUIDs are set'',
       lp_reader_severity = DMI_LINT_SEVERITY_NOTE, lp_producer_severity = DMI_LINT_SEVERITY_WARNING, lp_optional = True\<rparr>,
     lr_check = Some (of_entity dmi_lint_value_uuid)\<rparr>"

end
