(* ===== verification/Lint_Links.thy ===== *)
theory Lint_Links
  imports Lint_Values Links
begin

text \<open>
  The rules of the references between structures (\<^verbatim>\<open>src/lint/link.c\<close>) and of the entries of additional information
  (\<^verbatim>\<open>src/lint/overlay.c\<close>).
\<close>

section \<open>References\<close>

definition dmi_lint_referenced_types :: "dmi_type_id_t list" where
  "dmi_lint_referenced_types = [7, 26, 28, 29, 34, 36]"

definition dmi_lint_link_is_set :: "dmi_handle_t \<Rightarrow> bool" where
  "dmi_lint_link_is_set handle \<longleftrightarrow> handle \<noteq> DMI_HANDLE_INVALID \<and> handle \<noteq> DMI_HANDLE_UNSUPPORTED"

type_synonym dmi_lint_link_fn = "dmi_lint_t \<Rightarrow> nat \<Rightarrow> dmi_attribute \<Rightarrow> dmi_handle_t \<Rightarrow> dmi_lint_t"

definition dmi_lint_link_visit :: "dmi_lint_link_fn \<Rightarrow> nat \<Rightarrow> dmi_memory \<Rightarrow> dmi_attribute_node \<Rightarrow> dmi_lint_t \<Rightarrow> bool \<times> dmi_lint_t" where
  "dmi_lint_link_visit handler n m node lint =
    (True, if at_type (nd_attr node) = DMI_ATTRIBUTE_TYPE_HANDLE then handler lint n (nd_attr node) (load_handle m (nd_value node)) else lint)"

definition dmi_lint_link_walk :: "dmi_lint_link_fn \<Rightarrow> dmi_lint_t \<Rightarrow> nat \<Rightarrow> dmi_lint_t" where
  "dmi_lint_link_walk handler lint n = snd (lint_walk lint n (dmi_lint_link_visit handler n) lint)"

abbreviation link_issue :: "dmi_lint_t \<Rightarrow> nat \<Rightarrow> dmi_attribute \<Rightarrow> String.literal \<Rightarrow> dmi_lint_arg list \<Rightarrow> dmi_lint_t" where
  "link_issue lint n attr format args \<equiv>
    dmi_lint_issue lint (Some n) (ap_code (at_params attr)) (dmi_lint_entity_offset lint n) (Lint_message format args)"

text \<open>The type of the structure is compared with the expected ones by \<open>list_ex\<close>; none is expected of a structure without a type.\<close>

definition dmi_lint_link_check_type :: dmi_lint_link_fn where
  "dmi_lint_link_check_type lint n attr handle =
    (if \<not> dmi_lint_link_is_set handle then lint
     else
       (case ap_targets (at_params attr) of
          None \<Rightarrow> lint
        | Some targets \<Rightarrow>
            (case lint_lookup lint handle of
               None \<Rightarrow> lint
             | Some target \<Rightarrow>
                 (case lint_entity_type lint target of
                    (type, lint) \<Rightarrow>
                      if list_ex (\<lambda>expected. Some expected = type) targets then lint
                      else
                        (case dmi_entity_name lint target of
                           (name, lint) \<Rightarrow>
                             link_issue lint n attr (STR ''handle 0x%04X refers to a structure of type %d (%s)'')
                               [Lint_number (uint handle), Lint_number (en_type_id (lint_entity lint target)), Lint_text name])))))"

definition dmi_lint_link_wrong_type :: "dmi_lint_t \<Rightarrow> nat \<Rightarrow> dmi_lint_t" where
  "dmi_lint_link_wrong_type = dmi_lint_link_walk dmi_lint_link_check_type"

definition dmi_lint_link_check_dangling :: dmi_lint_link_fn where
  "dmi_lint_link_check_dangling lint n attr handle =
    (if \<not> dmi_lint_link_is_set handle then lint
     else if lint_lookup lint handle = None then
       link_issue lint n attr (STR ''handle 0x%04X belongs to no structure of the table'') [Lint_number (uint handle)]
     else lint)"

definition dmi_lint_link_dangling :: "dmi_lint_t \<Rightarrow> nat \<Rightarrow> dmi_lint_t" where
  "dmi_lint_link_dangling = dmi_lint_link_walk dmi_lint_link_check_dangling"

definition dmi_lint_link_check_self :: dmi_lint_link_fn where
  "dmi_lint_link_check_self lint n attr handle =
    (if dmi_lint_link_is_set handle \<and> handle = en_handle (lint_entity lint n) then
       link_issue lint n attr (STR ''structure references itself'') []
     else lint)"

definition dmi_lint_link_self :: "dmi_lint_t \<Rightarrow> nat \<Rightarrow> dmi_lint_t" where
  "dmi_lint_link_self = dmi_lint_link_walk dmi_lint_link_check_self"

definition dmi_lint_link_match :: "dmi_handle_t \<Rightarrow> dmi_memory \<Rightarrow> dmi_attribute_node \<Rightarrow> unit \<Rightarrow> bool \<times> unit" where
  "dmi_lint_link_match handle m node u =
    (at_type (nd_attr node) \<noteq> DMI_ATTRIBUTE_TYPE_HANDLE \<or> load_handle m (nd_value node) \<noteq> handle, u)"

definition dmi_lint_link_references :: "dmi_lint_t \<Rightarrow> nat \<Rightarrow> dmi_handle_t \<Rightarrow> bool" where
  "dmi_lint_link_references lint n handle \<longleftrightarrow> \<not> fst (lint_walk lint n (dmi_lint_link_match handle) ())"

primrec referenced_by :: "dmi_lint_t \<Rightarrow> nat \<Rightarrow> dmi_handle_t \<Rightarrow> nat list \<Rightarrow> bool" where
  "referenced_by lint n handle [] \<longleftrightarrow> False"
| "referenced_by lint n handle (other # others) \<longleftrightarrow>
    (if other = n then referenced_by lint n handle others
     else if dmi_lint_link_references lint other handle then True
     else referenced_by lint n handle others)"

definition dmi_lint_link_orphan :: "dmi_lint_t \<Rightarrow> nat \<Rightarrow> dmi_lint_t" where
  "dmi_lint_link_orphan lint n =
    (if \<not> list_ex (\<lambda>type. en_type_id (lint_entity lint n) = type) dmi_lint_referenced_types \<or> en_spec (lint_entity lint n) = None then lint
     else if referenced_by lint n (en_handle (lint_entity lint n)) (lint_visits lint) then lint
     else entity_issue lint n (STR ''structure describes a part of another one, but is referenced by none'') [])"

section \<open>Additional information\<close>

definition DMI_LINT_HEADER_LENGTH :: nat where "DMI_LINT_HEADER_LENGTH = 4"

type_synonym dmi_lint_entry = "dmi_handle_t \<times> nat \<times> nat \<times> bool"

definition dmi_lint_overlay_info :: "dmi_lint_t \<Rightarrow> nat \<Rightarrow> dmi_lint_entry list option \<times> dmi_lint_t" where
  "dmi_lint_overlay_info lint n =
    (case lint_entity_type lint n of
       (type, lint) \<Rightarrow>
         if type \<noteq> Some (lc_additional (li_context lint)) then (None, lint)
         else
           (case dmi_entity_info (lint_types lint) (li_queue lint) (lint_entity lint n) (Some (lc_additional (li_context lint))) of
              (info, e, q) \<Rightarrow>
                (map_option (lc_entries (li_context lint)) info,
                 lint\<lparr>li_registry := (li_registry lint)\<lparr>rg_entries := (rg_entries (li_registry lint))[n := e]\<rparr>, li_queue := q\<rparr>)))"

text \<open>The loops over the entries, \<open>i\<close> of which have been looked at.\<close>

primrec entries_loop :: "(dmi_lint_t \<Rightarrow> nat \<Rightarrow> nat \<Rightarrow> dmi_lint_entry \<Rightarrow> dmi_lint_t) \<Rightarrow> dmi_lint_t \<Rightarrow> nat \<Rightarrow> nat \<Rightarrow> dmi_lint_entry list \<Rightarrow> dmi_lint_t" where
  "entries_loop check lint n i [] = lint"
| "entries_loop check lint n i (entry # entries) = entries_loop check (check lint n i entry) n (i + 1) entries"

definition overlay_check :: "(dmi_lint_t \<Rightarrow> nat \<Rightarrow> nat \<Rightarrow> dmi_lint_entry \<Rightarrow> dmi_lint_t) \<Rightarrow> dmi_lint_t \<Rightarrow> nat \<Rightarrow> dmi_lint_t" where
  "overlay_check check lint n =
    (case dmi_lint_overlay_info lint n of
       (None, lint) \<Rightarrow> lint
     | (Some entries, lint) \<Rightarrow> entries_loop check lint n 0 entries)"

definition check_overlay_dangling :: "dmi_lint_t \<Rightarrow> nat \<Rightarrow> nat \<Rightarrow> dmi_lint_entry \<Rightarrow> dmi_lint_t" where
  "check_overlay_dangling lint n i entry =
    (case entry of (handle, offset, bytes, has_string) \<Rightarrow>
       if lint_lookup lint handle \<noteq> None then lint
       else dmi_lint_issue lint (Some n) (Some ''referenced-handle'') (dmi_lint_entity_offset lint n)
              (Lint_message (STR ''entry %zu refers to handle 0x%04X, which belongs to no structure'') [Lint_size (i + 1), Lint_number (uint handle)]))"

definition dmi_lint_overlay_dangling :: "dmi_lint_t \<Rightarrow> nat \<Rightarrow> dmi_lint_t" where
  "dmi_lint_overlay_dangling = overlay_check check_overlay_dangling"

definition check_out_of_bounds :: "dmi_lint_t \<Rightarrow> nat \<Rightarrow> nat \<Rightarrow> dmi_lint_entry \<Rightarrow> dmi_lint_t" where
  "check_out_of_bounds lint n i entry =
    (case entry of (handle, offset, bytes, has_string) \<Rightarrow>
       (case lint_lookup lint handle of
          None \<Rightarrow> lint
        | Some target \<Rightarrow>
            if offset < DMI_LINT_HEADER_LENGTH then
              dmi_lint_issue lint (Some n) (Some ''referenced-offset'') (dmi_lint_entity_offset lint n)
                (Lint_message (STR ''entry %zu refers to offset 0x%02X, which belongs to the header of handle 0x%04X'')
                  [Lint_size (i + 1), Lint_size offset, Lint_number (uint handle)])
            else if offset + bytes > en_body_length (lint_entity lint target) then
              dmi_lint_issue lint (Some n) (Some ''referenced-offset'') (dmi_lint_entity_offset lint n)
                (Lint_message (STR ''entry %zu refers to %zu bytes at offset 0x%02X, while handle 0x%04X is %zu bytes long'')
                  [Lint_size (i + 1), Lint_size bytes, Lint_size offset, Lint_number (uint handle), Lint_size (en_body_length (lint_entity lint target))])
            else lint))"

definition dmi_lint_overlay_out_of_bounds :: "dmi_lint_t \<Rightarrow> nat \<Rightarrow> dmi_lint_t" where
  "dmi_lint_overlay_out_of_bounds = overlay_check check_out_of_bounds"

definition check_overlay_empty :: "dmi_lint_t \<Rightarrow> nat \<Rightarrow> nat \<Rightarrow> dmi_lint_entry \<Rightarrow> dmi_lint_t" where
  "check_overlay_empty lint n i entry =
    (case entry of (handle, offset, bytes, has_string) \<Rightarrow>
       if bytes > 0 \<or> has_string then lint
       else entity_issue lint n (STR ''entry %zu carries neither a value nor a string'') [Lint_size (i + 1)])"

definition dmi_lint_overlay_empty :: "dmi_lint_t \<Rightarrow> nat \<Rightarrow> dmi_lint_t" where
  "dmi_lint_overlay_empty = overlay_check check_overlay_empty"

section \<open>The rules\<close>

definition dmi_lint_link_dangling_rule :: dmi_lint_rule where
  "dmi_lint_link_dangling_rule =
    \<lparr>lr_code = STR ''link.dangling'', lr_scope = DMI_LINT_SCOPE_ENTITY,
     lr_params = \<lparr>lp_name = STR ''References point to the structures of the table'',
       lp_reader_severity = DMI_LINT_SEVERITY_WARNING, lp_producer_severity = DMI_LINT_SEVERITY_ERROR, lp_optional = False\<rparr>,
     lr_check = Some (of_entity dmi_lint_link_dangling)\<rparr>"

definition dmi_lint_link_self_rule :: dmi_lint_rule where
  "dmi_lint_link_self_rule =
    \<lparr>lr_code = STR ''link.self'', lr_scope = DMI_LINT_SCOPE_ENTITY,
     lr_params = \<lparr>lp_name = STR ''Structures do not reference themselves'',
       lp_reader_severity = DMI_LINT_SEVERITY_WARNING, lp_producer_severity = DMI_LINT_SEVERITY_ERROR, lp_optional = False\<rparr>,
     lr_check = Some (of_entity dmi_lint_link_self)\<rparr>"

definition dmi_lint_link_wrong_type_rule :: dmi_lint_rule where
  "dmi_lint_link_wrong_type_rule =
    \<lparr>lr_code = STR ''link.wrong-type'', lr_scope = DMI_LINT_SCOPE_ENTITY,
     lr_params = \<lparr>lp_name = STR ''References point to the structures of the types they expect'',
       lp_reader_severity = DMI_LINT_SEVERITY_WARNING, lp_producer_severity = DMI_LINT_SEVERITY_ERROR, lp_optional = False\<rparr>,
     lr_check = Some (of_entity dmi_lint_link_wrong_type)\<rparr>"

definition dmi_lint_link_orphan_rule :: dmi_lint_rule where
  "dmi_lint_link_orphan_rule =
    \<lparr>lr_code = STR ''link.orphan'', lr_scope = DMI_LINT_SCOPE_ENTITY,
     lr_params = \<lparr>lp_name = STR ''Structures are referenced by the rest of the table'',
       lp_reader_severity = DMI_LINT_SEVERITY_NOTE, lp_producer_severity = DMI_LINT_SEVERITY_NOTE, lp_optional = True\<rparr>,
     lr_check = Some (of_entity dmi_lint_link_orphan)\<rparr>"

definition dmi_lint_overlay_dangling_rule :: dmi_lint_rule where
  "dmi_lint_overlay_dangling_rule =
    \<lparr>lr_code = STR ''overlay.dangling'', lr_scope = DMI_LINT_SCOPE_ENTITY,
     lr_params = \<lparr>lp_name = STR ''Additional information entries refer to the structures of the table'',
       lp_reader_severity = DMI_LINT_SEVERITY_WARNING, lp_producer_severity = DMI_LINT_SEVERITY_ERROR, lp_optional = False\<rparr>,
     lr_check = Some (of_entity dmi_lint_overlay_dangling)\<rparr>"

definition dmi_lint_overlay_out_of_bounds_rule :: dmi_lint_rule where
  "dmi_lint_overlay_out_of_bounds_rule =
    \<lparr>lr_code = STR ''overlay.out-of-bounds'', lr_scope = DMI_LINT_SCOPE_ENTITY,
     lr_params = \<lparr>lp_name = STR ''Additional information entries refer to the fields of the structures'',
       lp_reader_severity = DMI_LINT_SEVERITY_WARNING, lp_producer_severity = DMI_LINT_SEVERITY_ERROR, lp_optional = False\<rparr>,
     lr_check = Some (of_entity dmi_lint_overlay_out_of_bounds)\<rparr>"

definition dmi_lint_overlay_empty_rule :: dmi_lint_rule where
  "dmi_lint_overlay_empty_rule =
    \<lparr>lr_code = STR ''overlay.empty'', lr_scope = DMI_LINT_SCOPE_ENTITY,
     lr_params = \<lparr>lp_name = STR ''Additional information entries carry values'',
       lp_reader_severity = DMI_LINT_SEVERITY_NOTE, lp_producer_severity = DMI_LINT_SEVERITY_WARNING, lp_optional = True\<rparr>,
     lr_check = Some (of_entity dmi_lint_overlay_empty)\<rparr>"

end
