(* ===== verification/Lint_Rules.thy ===== *)
theory Lint_Rules
  imports Lint_Tables Lint_Links
begin

text \<open>The rules of the library in the order they are checked in, and the check of an open context against them.\<close>

definition dmi_lint_rule_list :: "dmi_lint_rule list" where
  "dmi_lint_rule_list =
    [dmi_lint_entry_checksum_rule,
     dmi_lint_entry_length_rule,
     dmi_lint_entry_table_addr_rule,
     dmi_lint_entry_table_size_rule,
     dmi_lint_entry_entity_count_rule,
     dmi_lint_entry_entity_max_size_rule,
     dmi_lint_table_truncated_rule,
     dmi_lint_table_invalid_header_rule,
     dmi_lint_table_terminator_rule,
     dmi_lint_table_trailing_data_rule,
     dmi_lint_table_required_rule,
     dmi_lint_table_recommended_rule,
     dmi_lint_table_singleton_rule,
     dmi_lint_table_reserved_handle_rule,
     dmi_lint_entity_below_minimum_rule,
     dmi_lint_entity_unknown_length_rule,
     dmi_lint_entity_undecoded_rule,
     dmi_lint_entity_newer_fields_rule,
     dmi_lint_entity_newer_type_rule,
     dmi_lint_entity_unknown_type_rule,
     dmi_lint_entity_obsolete_rule,
     dmi_lint_string_too_long_rule,
     dmi_lint_string_non_printable_rule,
     dmi_lint_string_blank_rule,
     dmi_lint_string_padded_rule,
     dmi_lint_string_unreferenced_rule,
     dmi_lint_value_invalid_enum_rule,
     dmi_lint_value_reserved_rule,
     dmi_lint_value_reserved_bits_rule,
     dmi_lint_value_bcd_rule,
     dmi_lint_value_range_rule,
     dmi_lint_value_jep106_rule,
     dmi_lint_value_uuid_rule,
     dmi_lint_link_dangling_rule,
     dmi_lint_link_wrong_type_rule,
     dmi_lint_link_self_rule,
     dmi_lint_link_orphan_rule,
     dmi_lint_overlay_dangling_rule,
     dmi_lint_overlay_out_of_bounds_rule,
     dmi_lint_overlay_empty_rule,
     dmi_lint_quality_placeholder_rule]"

definition dmi_lint ::
    "(dmi_entity_spec \<Rightarrow> dmi_lint_rule list option) \<Rightarrow> bool \<Rightarrow> dmi_lint_context \<Rightarrow> dmi_memory dmi_registry option \<Rightarrow> dmi_error_queue
      \<Rightarrow> dmi_lint_options_t option \<Rightarrow> bool \<Rightarrow> bool \<times> dmi_lint_issue_t list \<times> dmi_memory dmi_registry option \<times> dmi_error_queue" where
  "dmi_lint type_rules room context registry q options handler =
    dmi_lint_with dmi_lint_rule_list type_rules room context registry q options handler"

end
