(* ===== verification/Lint_Laws.thy ===== *)
theory Lint_Laws
  imports Lint_Rules
begin

text \<open>
  What every check keeps of the state of the check, as the interface of the engine: a locale whose laws are that
  the checks of the rules report on behalf of their rule and the structure they are given, and mark strings at most.
  It is interpreted on the rules of the library.
\<close>

section \<open>Reports\<close>

definition lint_keeps :: "dmi_lint_t \<Rightarrow> dmi_lint_t \<Rightarrow> bool" where
  "lint_keeps a b \<longleftrightarrow> li_context b = li_context a \<and> li_options b = li_options a \<and> li_handler b = li_handler a \<and>
     li_version b = li_version a \<and> li_totals b = li_totals a \<and>
     registry_wf (li_registry b) \<and> registry_marked (li_registry a) (li_registry b) \<and> (queue_wf (li_queue a) \<longrightarrow> queue_wf (li_queue b))"

definition lint_ok :: "nat option \<Rightarrow> dmi_lint_t \<Rightarrow> bool" where
  "lint_ok entity lint \<longleftrightarrow> registry_wf (li_registry lint) \<and> (\<forall>n. entity = Some n \<longrightarrow> n < length (rg_entries (li_registry lint)))"

text \<open>An issue on behalf of the rule being checked which names the structure given.\<close>

definition issue_about :: "dmi_lint_rule_t option \<Rightarrow> dmi_lint_t \<Rightarrow> nat option \<Rightarrow> dmi_lint_issue_t \<Rightarrow> bool" where
  "issue_about rule lint entity i \<longleftrightarrow> rule = Some (is_rule i) \<and>
     is_severity i = dmi_lint_rule_severity (is_rule i) (lo_profile (li_options lint)) \<and>
     is_handle i = (case entity of Some n \<Rightarrow> en_handle (lint_entity lint n) | None \<Rightarrow> DMI_HANDLE_INVALID) \<and>
     is_type i = (case entity of Some n \<Rightarrow> en_type_id (lint_entity lint n) | None \<Rightarrow> DMI_TYPE_ID_INVALID)"

definition reports :: "nat option \<Rightarrow> dmi_lint_t \<Rightarrow> dmi_lint_t \<Rightarrow> bool" where
  "reports entity a b \<longleftrightarrow> (lint_ok entity a \<longrightarrow>
     lint_keeps a b \<and> li_rule b = li_rule a \<and> (\<exists>new. li_issues b = li_issues a @ new \<and> list_all (issue_about (li_rule a) a entity) new))"

lemma same_but_used_type: "same_but_used e e' \<Longrightarrow> en_type_id e' = en_type_id e \<and> en_body_length e' = en_body_length e \<and> en_string_count e' = en_string_count e"
  by (cases e; cases e') (simp add: same_but_used_def)

lemma lint_keeps_refl: "registry_wf (li_registry a) \<Longrightarrow> lint_keeps a a"
  by (simp add: lint_keeps_def)

lemma lint_keeps_trans: "lint_keeps a b \<Longrightarrow> lint_keeps b c \<Longrightarrow> lint_keeps a c"
  unfolding lint_keeps_def by (metis registry_marked_trans)

lemma lint_keeps_ok: "lint_keeps a b \<Longrightarrow> lint_ok entity a \<Longrightarrow> lint_ok entity b"
  by (auto simp: lint_keeps_def lint_ok_def)

lemma lint_keeps_entity:
  assumes "lint_keeps a b" and "n < length (rg_entries (li_registry a))"
  shows "en_handle (lint_entity b n) = en_handle (lint_entity a n)" and "en_type_id (lint_entity b n) = en_type_id (lint_entity a n)"
    and "en_spec (lint_entity b n) = en_spec (lint_entity a n)" and "en_info (lint_entity b n) = en_info (lint_entity a n)"
    and "en_buffer (lint_entity b n) = en_buffer (lint_entity a n)" and "en_offset (lint_entity b n) = en_offset (lint_entity a n)"
proof -
  have same: "same_but_used (lint_entity a n) (lint_entity b n)"
    using registry_marked_nth [of "li_registry a" "li_registry b" n] assms by (simp add: lint_keeps_def)
  show "en_handle (lint_entity b n) = en_handle (lint_entity a n)" and "en_spec (lint_entity b n) = en_spec (lint_entity a n)"
    and "en_info (lint_entity b n) = en_info (lint_entity a n)" and "en_buffer (lint_entity b n) = en_buffer (lint_entity a n)"
    and "en_offset (lint_entity b n) = en_offset (lint_entity a n)" by (rule same_but_used_more [OF same])+
  show "en_type_id (lint_entity b n) = en_type_id (lint_entity a n)" using same_but_used_type [OF same] by simp
qed

lemma issue_about_kept:
  assumes "lint_keeps a b" and "lint_ok entity a"
  shows "issue_about rule b entity = issue_about rule a entity"
  using assms lint_keeps_entity [OF assms(1)]
  by (intro ext) (auto simp: issue_about_def lint_ok_def lint_keeps_def split: option.splits)

lemma issue_about_same: "li_options b = li_options a \<Longrightarrow> li_registry b = li_registry a \<Longrightarrow> issue_about rule b entity = issue_about rule a entity"
  by (intro ext) (simp add: issue_about_def split: option.split)

named_theorems reporting

lemma reports_refl [reporting]: "reports entity a a"
  by (simp add: reports_def lint_keeps_refl lint_ok_def)

lemma reports_trans:
  assumes "reports entity a b" and "reports entity b c"
  shows "reports entity a c"
  unfolding reports_def
proof
  assume a: "lint_ok entity a"
  obtain new where ab: "lint_keeps a b" "li_rule b = li_rule a" "li_issues b = li_issues a @ new" "list_all (issue_about (li_rule a) a entity) new"
    using assms(1) a by (auto simp: reports_def)
  note b = lint_keeps_ok [OF ab(1) a]
  obtain new' where bc: "lint_keeps b c" "li_rule c = li_rule b" "li_issues c = li_issues b @ new'" "list_all (issue_about (li_rule b) b entity) new'"
    using assms(2) b by (auto simp: reports_def)
  have "list_all (issue_about (li_rule a) a entity) new'" using bc(4) issue_about_kept [OF ab(1) a] ab(2) by simp
  then show "lint_keeps a c \<and> li_rule c = li_rule a \<and> (\<exists>new. li_issues c = li_issues a @ new \<and> list_all (issue_about (li_rule a) a entity) new)"
    using ab bc lint_keeps_trans [OF ab(1) bc(1)] by auto
qed

lemma reports_issue [reporting]: "reports entity a (dmi_lint_issue a entity attribute offset message)"
  by (auto simp: reports_def dmi_lint_issue_def issue_about_def lint_keeps_def lint_ok_def split: option.split)

lemma reports_issue_then:
  assumes "reports entity a b"
  shows "reports entity a (dmi_lint_issue b entity attribute offset message)"
  using reports_trans [OF assms reports_issue] .

lemma reports_foldl:
  assumes "\<And>l x. x \<in> set xs \<Longrightarrow> reports entity l (f l x)"
  shows "reports entity l (foldl f l xs)"
  using assms
proof (induction xs arbitrary: l)
  case (Cons x xs)
  then show ?case using reports_trans [of entity l "f l x" "foldl f (f l x) xs"] by simp
qed (simp add: reporting)

section \<open>Looking structures up\<close>

lemma reports_registry:
  assumes "lint_ok entity lint \<Longrightarrow> registry_wf reg \<and> registry_marked (li_registry lint) reg \<and> (queue_wf (li_queue lint) \<longrightarrow> queue_wf q)"
  shows "reports entity lint (lint\<lparr>li_registry := reg, li_queue := q\<rparr>)"
  using assms by (simp add: reports_def lint_keeps_def)

lemma lint_entity_type_result:
  assumes "registry_wf (li_registry lint)" and "n < length (rg_entries (li_registry lint))"
  shows "fst (lint_entity_type lint n) = entity_kind (lint_types lint) (lint_entity lint n)"
proof -
  obtain k reg q where run: "entry_type (lint_types lint) (li_queue lint) (li_registry lint) n = (k, reg, q)" by (metis prod_cases3)
  then show ?thesis using entry_type_outcome(1) [OF assms run] by (simp add: lint_entity_type_def)
qed

lemma reports_entity_type:
  assumes "lint_ok entity lint \<Longrightarrow> n < length (rg_entries (li_registry lint))"
  shows "reports entity lint (snd (lint_entity_type lint n))"
proof -
  obtain k reg q where run: "entry_type (lint_types lint) (li_queue lint) (li_registry lint) n = (k, reg, q)" by (metis prod_cases3)
  have "lint_ok entity lint \<Longrightarrow> registry_wf reg \<and> registry_marked (li_registry lint) reg \<and> (queue_wf (li_queue lint) \<longrightarrow> queue_wf q)"
    using entry_type_outcome(2,3,4) [OF _ _ run] assms by (auto simp: lint_ok_def)
  then show ?thesis using reports_registry by (simp add: lint_entity_type_def run)
qed

lemma lint_lookup_result:
  assumes "registry_wf (li_registry lint)"
  shows "lint_lookup lint handle = (if handle = DMI_HANDLE_INVALID \<or> handle = DMI_HANDLE_UNSUPPORTED then None
    else find (\<lambda>n. en_handle (lint_entity lint n) = handle) [0..<length (rg_entries (li_registry lint))])"
proof -
  obtain r reg' q' where run: "dmi_registry_lookup (lc_strict (li_context lint)) (lint_types lint) (li_queue lint) (li_registry lint) handle None True = (r, reg', q')"
    by (metis prod_cases3)
  have "r = lookup_spec (lint_types lint) (rg_entries (li_registry lint)) handle None" by (rule lookup_outcome(1) [OF assms run])
  then show ?thesis by (simp add: lint_lookup_def run lookup_spec_def split: option.splits)
qed

lemma lint_lookup_some: "registry_wf (li_registry lint) \<Longrightarrow> lint_lookup lint handle = Some n \<Longrightarrow> n < length (rg_entries (li_registry lint))"
  by (auto simp: lint_lookup_result find_Some_iff split: if_splits)

section \<open>Walks\<close>

definition lint_nodes :: "dmi_lint_t \<Rightarrow> nat \<Rightarrow> (dmi_memory \<times> dmi_attribute_node list) option" where
  "lint_nodes lint n =
    (case en_spec (lint_entity lint n) of
       None \<Rightarrow> None
     | Some spec \<Rightarrow>
         (case (lc_attributes (li_context lint) spec, en_info (lint_entity lint n)) of
            (Some attrs, Some m) \<Rightarrow> Some (m, structure_nodes m attrs 0)
          | _ \<Rightarrow> None))"

lemma lint_walk_each:
  "lint_walk lint n visit s = (case lint_nodes lint n of None \<Rightarrow> (True, s) | Some (m, nodes) \<Rightarrow> visit_each (visit m) nodes s)"
  by (auto simp: lint_walk_def lint_nodes_def walk_values on_values_def split: option.split prod.split)

lemma reports_each:
  assumes "\<And>node l. reports entity l (snd (f node l))"
  shows "reports entity l (snd (visit_each f nodes l))"
proof (induction nodes arbitrary: l)
  case (Cons node nodes)
  obtain ok t where t: "f node l = (ok, t)" by fastforce
  have one: "reports entity l t" using assms [of l node] by (simp add: t)
  show ?case using reports_trans [OF one Cons.IH] one by (cases ok) (simp_all add: t)
qed (simp add: reporting)

lemma reports_walk:
  assumes "\<And>m node l. reports entity l (snd (visit m node l))"
  shows "reports entity l (snd (lint_walk lint n visit l))"
  unfolding lint_walk_each using reports_each [OF assms] by (auto simp: reporting split: option.split)

section \<open>The checks\<close>

text \<open>A check is given a structure where it is one of structures.\<close>

definition check_contract :: "bool \<Rightarrow> dmi_lint_check_fn \<Rightarrow> bool" where
  "check_contract is_entity check \<longleftrightarrow> (\<forall>lint entity. (entity \<noteq> None \<longleftrightarrow> is_entity) \<longrightarrow> reports entity lint (check lint entity))"

lemma of_entity_contract: "(\<And>lint n. reports (Some n) lint (f lint n)) \<Longrightarrow> check_contract True (of_entity f)"
  by (auto simp: check_contract_def of_entity_def)

lemma of_table_contract: "(\<And>lint. reports None lint (f lint)) \<Longrightarrow> check_contract False (of_table f)"
  by (auto simp: check_contract_def of_table_def)

subsection \<open>Structures and strings\<close>

lemma reports_structures [reporting]:
  "reports (Some n) lint (dmi_lint_entity_below_minimum lint n)" "reports (Some n) lint (dmi_lint_entity_unknown_length lint n)"
  "reports (Some n) lint (dmi_lint_entity_undecoded lint n)" "reports (Some n) lint (dmi_lint_entity_newer_fields lint n)"
  "reports (Some n) lint (dmi_lint_entity_newer_type lint n)" "reports (Some n) lint (dmi_lint_entity_unknown_type lint n)"
  by (simp_all add: dmi_lint_entity_below_minimum_def dmi_lint_entity_unknown_length_def dmi_lint_entity_undecoded_def
    dmi_lint_entity_newer_fields_def dmi_lint_entity_newer_type_def dmi_lint_entity_unknown_type_def reporting Let_def split: option.split)

lemma reports_obsolete [reporting]: "reports (Some n) lint (dmi_lint_entity_obsolete lint n)"
proof -
  have "reports (Some n) lint (obsolete_loop lint n type ts)" for type ts by (induction ts) (simp_all add: reporting)
  then show ?thesis by (simp add: dmi_lint_entity_obsolete_def)
qed

lemma reports_strings [reporting]: "reports (Some n) lint (strings_loop check lint n)"
  unfolding strings_loop_def by (rule reports_foldl) (simp add: string_step_def reporting split: option.split)

lemma reports_string_rules [reporting]:
  "reports (Some n) lint (dmi_lint_string_too_long lint n)" "reports (Some n) lint (dmi_lint_string_non_printable lint n)"
  "reports (Some n) lint (dmi_lint_string_blank lint n)" "reports (Some n) lint (dmi_lint_string_padded lint n)"
  "reports (Some n) lint (dmi_lint_string_unreferenced lint n)" "reports (Some n) lint (dmi_lint_quality_placeholder lint n)"
  by (simp_all add: dmi_lint_string_too_long_def dmi_lint_string_non_printable_def dmi_lint_string_blank_def dmi_lint_string_padded_def
    dmi_lint_string_unreferenced_def dmi_lint_quality_placeholder_def reporting)

subsection \<open>The entry point and the table\<close>

lemma reports_entry [reporting]:
  "reports None lint (dmi_lint_entry_checksum lint)" "reports None lint (dmi_lint_entry_length lint)"
  "reports None lint (dmi_lint_entry_table_addr lint)" "reports None lint (dmi_lint_entry_table_size lint)"
  "reports None lint (dmi_lint_entry_entity_count lint)" "reports None lint (dmi_lint_entry_entity_max_size lint)"
  by (simp_all add: dmi_lint_entry_checksum_def dmi_lint_entry_length_def dmi_lint_entry_table_addr_def dmi_lint_entry_table_size_def
    dmi_lint_entry_entity_count_def dmi_lint_entry_entity_max_size_def reporting reports_issue_then Let_def split: option.split)

lemma reports_table [reporting]:
  "reports None lint (dmi_lint_table_truncated lint)" "reports None lint (dmi_lint_table_terminator lint)"
  "reports None lint (dmi_lint_table_trailing_data lint)" "reports None lint (dmi_lint_table_invalid_header lint)"
  by (simp_all add: dmi_lint_table_truncated_def dmi_lint_table_terminator_def dmi_lint_table_trailing_data_def
    dmi_lint_table_invalid_header_def reporting Let_def split: option.split dmi_lint_table_stop.split)

lemma reports_types:
  assumes "\<And>l type params. reports None l (check l type params)"
  shows "reports None lint (types_loop check lint)"
  unfolding types_loop_def by (rule reports_foldl) (simp add: assms reporting split: option.split)

lemma reports_type_rules [reporting]:
  "reports None lint (dmi_lint_table_required lint)" "reports None lint (dmi_lint_table_recommended lint)"
  "reports None lint (dmi_lint_table_singleton lint)"
  unfolding dmi_lint_table_required_def dmi_lint_table_recommended_def dmi_lint_table_singleton_def
  by (rule reports_types, simp add: check_required_def check_recommended_def check_singleton_def missing_issue_def reporting)+

lemma reports_reserved_handle [reporting]: "reports (Some n) lint (dmi_lint_table_reserved_handle lint n)"
proof -
  obtain type l where t: "lint_entity_type lint n = (type, l)" by fastforce
  have "reports (Some n) lint l" using reports_entity_type [of "Some n" lint n] by (simp add: t lint_ok_def)
  then show ?thesis by (simp add: dmi_lint_table_reserved_handle_def t Let_def reports_issue_then)
qed

subsection \<open>Values\<close>

lemma reports_value_report [reporting]: "reports (Some (lv_entity v)) lint (dmi_lint_value_report lint v format args)"
  by (simp add: dmi_lint_value_report_def Let_def reporting)

lemma reports_values:
  assumes "\<And>l v. reports (Some (lv_entity v)) l (check l v)"
  shows "reports (Some n) lint (dmi_lint_value_walk check lint n)"
  unfolding dmi_lint_value_walk_def
  by (rule reports_walk) (use assms [of "lint_value n m node" for m node] in \<open>simp add: dmi_lint_value_visit_def lint_value_def\<close>)

lemma reports_value_checks [reporting]:
  "reports (Some (lv_entity v)) lint (dmi_lint_value_check_enum lint v)" "reports (Some (lv_entity v)) lint (dmi_lint_value_check_reserved lint v)"
  "reports (Some (lv_entity v)) lint (dmi_lint_value_check_bits lint v)" "reports (Some (lv_entity v)) lint (dmi_lint_value_check_bcd lint v)"
  "reports (Some (lv_entity v)) lint (dmi_lint_value_check_uuid lint v)" "reports (Some (lv_entity v)) lint (dmi_lint_value_check_range lint v)"
  "reports (Some (lv_entity v)) lint (dmi_lint_value_check_jep106 lint v)"
  by (simp_all add: dmi_lint_value_check_enum_def dmi_lint_value_check_reserved_def dmi_lint_value_check_bits_def dmi_lint_value_check_bcd_def
    dmi_lint_value_check_uuid_def dmi_lint_value_check_range_def check_signed_range_def check_unsigned_range_def dmi_lint_value_check_jep106_def
    reporting Let_def split: option.split prod.split)

lemma reports_value_rules [reporting]:
  "reports (Some n) lint (dmi_lint_value_invalid_enum lint n)" "reports (Some n) lint (dmi_lint_value_reserved lint n)"
  "reports (Some n) lint (dmi_lint_value_reserved_bits lint n)" "reports (Some n) lint (dmi_lint_value_bcd lint n)"
  "reports (Some n) lint (dmi_lint_value_range lint n)" "reports (Some n) lint (dmi_lint_value_jep106 lint n)"
  "reports (Some n) lint (dmi_lint_value_uuid lint n)"
  by (simp_all add: dmi_lint_value_invalid_enum_def dmi_lint_value_reserved_def dmi_lint_value_reserved_bits_def dmi_lint_value_bcd_def
    dmi_lint_value_range_def dmi_lint_value_jep106_def dmi_lint_value_uuid_def reports_values reporting)

subsection \<open>References\<close>

lemma reports_entity_name:
  assumes "lint_ok entity lint \<Longrightarrow> n < length (rg_entries (li_registry lint))"
  shows "reports entity lint (snd (dmi_entity_name lint n))"
proof -
  obtain spec e q where sel: "dmi_entity_spec_select (lint_types lint) (li_queue lint) (lint_entity lint n) = (spec, e, q)" by (metis prod_cases3)
  have "registry_wf ((li_registry lint)\<lparr>rg_entries := (rg_entries (li_registry lint))[n := e]\<rparr>) \<and>
      registry_marked (li_registry lint) ((li_registry lint)\<lparr>rg_entries := (rg_entries (li_registry lint))[n := e]\<rparr>) \<and>
      (queue_wf (li_queue lint) \<longrightarrow> queue_wf q)" if ok: "lint_ok entity lint" and none: "en_spec (lint_entity lint n) = None"
  proof -
    have "entry_type (lint_types lint) (li_queue lint) (li_registry lint) n =
        (map_option sp_type spec, (li_registry lint)\<lparr>rg_entries := (rg_entries (li_registry lint))[n := e]\<rparr>, q)"
      by (simp add: entry_type_def dmi_entity_spec_type_def none sel)
    from entry_type_outcome(2,3,4) [OF _ _ this] show ?thesis using ok assms by (simp add: lint_ok_def)
  qed
  then have "reports entity lint (lint\<lparr>li_registry := (li_registry lint)\<lparr>rg_entries := (rg_entries (li_registry lint))[n := e]\<rparr>, li_queue := q\<rparr>)"
    if "en_spec (lint_entity lint n) = None" using that by (intro reports_registry) blast
  then show ?thesis by (cases "en_spec (lint_entity lint n)"; cases spec) (simp_all add: dmi_entity_name_def sel reporting)
qed

lemma reports_link_type [reporting]: "reports (Some n) lint (dmi_lint_link_check_type lint n attr handle)"
proof (cases "lint_lookup lint handle")
  case None
  then show ?thesis by (simp add: dmi_lint_link_check_type_def reporting split: option.split)
next
  case (Some target)
  obtain type a where a: "lint_entity_type lint target = (type, a)" by fastforce
  obtain name b where b: "dmi_entity_name a target = (name, b)" by fastforce
  have target: "lint_ok (Some n) lint \<Longrightarrow> target < length (rg_entries (li_registry lint))"
    using lint_lookup_some [OF _ Some] by (simp add: lint_ok_def)
  have one: "reports (Some n) lint a" using reports_entity_type [OF target] by (simp add: a)
  have two: "reports (Some n) lint b"
    unfolding reports_def
  proof
    assume ok: "lint_ok (Some n) lint"
    then have "lint_keeps lint a" using one by (simp add: reports_def)
    then have "registry_marked (li_registry lint) (li_registry a)" by (simp add: lint_keeps_def)
    from registry_marked_length [OF this] have "target < length (rg_entries (li_registry a))" using target [OF ok] by simp
    then have "reports (Some n) a b" using reports_entity_name [of "Some n" a target] by (simp add: b)
    from reports_trans [OF one this] show "lint_keeps lint b \<and> li_rule b = li_rule lint \<and>
        (\<exists>new. li_issues b = li_issues lint @ new \<and> list_all (issue_about (li_rule lint) lint (Some n)) new)"
      using ok by (simp add: reports_def)
  qed
  show ?thesis using one two by (simp add: dmi_lint_link_check_type_def Some a b reporting reports_issue_then split: option.split)
qed

lemma reports_link_checks [reporting]:
  "reports (Some n) lint (dmi_lint_link_check_dangling lint n attr handle)" "reports (Some n) lint (dmi_lint_link_check_self lint n attr handle)"
  by (simp_all add: dmi_lint_link_check_dangling_def dmi_lint_link_check_self_def reporting)

lemma reports_link_walk:
  assumes "\<And>l attr handle. reports (Some n) l (check l n attr handle)"
  shows "reports (Some n) lint (dmi_lint_link_walk check lint n)"
  unfolding dmi_lint_link_walk_def by (rule reports_walk) (simp add: dmi_lint_link_visit_def assms reporting)

lemma reports_link_rules [reporting]:
  "reports (Some n) lint (dmi_lint_link_dangling lint n)" "reports (Some n) lint (dmi_lint_link_wrong_type lint n)"
  "reports (Some n) lint (dmi_lint_link_self lint n)" "reports (Some n) lint (dmi_lint_link_orphan lint n)"
  by (simp_all add: dmi_lint_link_dangling_def dmi_lint_link_wrong_type_def dmi_lint_link_self_def dmi_lint_link_orphan_def
    reports_link_walk reporting)

lemma reports_overlay:
  assumes "\<And>l i entry. reports (Some n) l (check l n i entry)"
  shows "reports (Some n) lint (overlay_check check lint n)"
proof -
  have loop: "reports (Some n) l (entries_loop check l n i entries)" for l i entries
  proof (induction entries arbitrary: l i)
    case (Cons entry entries)
    show ?case using reports_trans [OF assms Cons.IH] by simp
  qed (simp add: reporting)
  obtain type a where a: "lint_entity_type lint n = (type, a)" by fastforce
  have one: "reports (Some n) lint a" using reports_entity_type [of "Some n" lint n] by (simp add: a lint_ok_def)
  obtain info e q where i: "dmi_entity_info (lint_types a) (li_queue a) (lint_entity a n) (Some (lc_additional (li_context a))) = (info, e, q)"
    by (metis prod_cases3)
  let ?b = "a\<lparr>li_registry := (li_registry a)\<lparr>rg_entries := (rg_entries (li_registry a))[n := e]\<rparr>, li_queue := q\<rparr>"
  have "reports (Some n) a ?b"
  proof (rule reports_registry)
    assume ok: "lint_ok (Some n) a"
    obtain k e1 q1 where t: "dmi_entity_spec_type (lint_types a) (li_queue a) (lint_entity a n) = (k, e1, q1)" by (metis prod_cases3)
    then have run: "entry_type (lint_types a) (li_queue a) (li_registry a) n = (k, (li_registry a)\<lparr>rg_entries := (rg_entries (li_registry a))[n := e1]\<rparr>, q1)"
      by (simp add: entry_type_def)
    have "e = e1" "queue_wf q1 \<longrightarrow> queue_wf q" using i t by (auto simp: dmi_entity_info_def split: if_splits)
    then show "registry_wf ((li_registry a)\<lparr>rg_entries := (rg_entries (li_registry a))[n := e]\<rparr>) \<and>
        registry_marked (li_registry a) ((li_registry a)\<lparr>rg_entries := (rg_entries (li_registry a))[n := e]\<rparr>) \<and>
        (queue_wf (li_queue a) \<longrightarrow> queue_wf q)"
      using entry_type_outcome(2,3,4) [OF _ _ run] ok by (simp add: lint_ok_def)
  qed
  from reports_trans [OF one this] have two: "reports (Some n) lint ?b" .
  have "dmi_lint_overlay_info lint n = (if type \<noteq> Some (lc_additional (li_context a)) then (None, a) else (map_option (lc_entries (li_context a)) info, ?b))"
    by (simp add: dmi_lint_overlay_info_def a i)
  then show ?thesis using one two reports_trans [OF two loop] by (cases info) (simp_all add: overlay_check_def)
qed

lemma reports_overlay_rules [reporting]:
  "reports (Some n) lint (dmi_lint_overlay_dangling lint n)" "reports (Some n) lint (dmi_lint_overlay_out_of_bounds lint n)"
  "reports (Some n) lint (dmi_lint_overlay_empty lint n)"
  unfolding dmi_lint_overlay_dangling_def dmi_lint_overlay_out_of_bounds_def dmi_lint_overlay_empty_def
  by (rule reports_overlay, simp add: check_overlay_dangling_def check_out_of_bounds_def check_overlay_empty_def reporting split: prod.split option.split)+

section \<open>The engine\<close>

text \<open>An issue one of the rules given has reported, with what was enabled and the structure given.\<close>

definition reported :: "dmi_lint_rule list \<Rightarrow> dmi_lint_t \<Rightarrow> nat option \<Rightarrow> dmi_lint_issue_t \<Rightarrow> bool" where
  "reported rules lint entity i \<longleftrightarrow>
    list_ex (\<lambda>rule. dmi_lint_enabled lint rule \<and> issue_about (Some (rule_head rule)) lint entity i) rules"

definition scope_rules :: "dmi_lint_rule list \<Rightarrow> dmi_lint_scope \<Rightarrow> dmi_lint_rule list" where
  "scope_rules rules scope = filter (\<lambda>rule. lr_scope rule = scope) rules"

definition own_rules :: "(dmi_entity_spec \<Rightarrow> dmi_lint_rule list option) \<Rightarrow> dmi_memory dmi_entity \<Rightarrow> dmi_lint_rule list" where
  "own_rules type_rules e =
    (case en_spec e of None \<Rightarrow> [] | Some spec \<Rightarrow> (case type_rules spec of None \<Rightarrow> [] | Some rules \<Rightarrow> rules))"

definition rules_contract :: "bool \<Rightarrow> dmi_lint_rule list \<Rightarrow> bool" where
  "rules_contract is_entity rules \<longleftrightarrow> (\<forall>rule\<in>set rules. \<forall>check. lr_check rule = Some check \<longrightarrow> check_contract is_entity check)"

definition type_rules_contract :: "(dmi_entity_spec \<Rightarrow> dmi_lint_rule list option) \<Rightarrow> bool" where
  "type_rules_contract type_rules \<longleftrightarrow> (\<forall>spec rules. type_rules spec = Some rules \<longrightarrow> rules_contract True rules)"

definition adds :: "dmi_lint_rule list \<Rightarrow> nat option \<Rightarrow> dmi_lint_t \<Rightarrow> dmi_lint_t \<Rightarrow> bool" where
  "adds rules entity a b \<longleftrightarrow> (lint_ok entity a \<longrightarrow> li_rule a = None \<longrightarrow>
     lint_keeps a b \<and> li_rule b = None \<and> (\<exists>new. li_issues b = li_issues a @ new \<and> list_all (reported rules a entity) new))"

lemma enabled_kept: "lint_keeps a b \<Longrightarrow> dmi_lint_enabled b rule = dmi_lint_enabled a rule"
  by (simp add: dmi_lint_enabled_def lint_keeps_def)

lemma reported_same:
  assumes "li_options b = li_options a" and "li_registry b = li_registry a"
  shows "reported rules b entity = reported rules a entity"
proof -
  have "dmi_lint_enabled b = dmi_lint_enabled a" using assms(1) by (intro ext) (simp add: dmi_lint_enabled_def)
  then show ?thesis by (intro ext) (simp add: reported_def issue_about_same [OF assms])
qed

lemma reported_kept: "lint_keeps a b \<Longrightarrow> lint_ok entity a \<Longrightarrow> reported rules b entity = reported rules a entity"
  by (intro ext) (simp add: reported_def enabled_kept issue_about_kept)

lemma adds_refl: "adds rules entity a a"
  by (simp add: adds_def lint_keeps_refl lint_ok_def)

lemma reported_more: "set rules \<subseteq> set rules' \<Longrightarrow> reported rules a entity i \<Longrightarrow> reported rules' a entity i"
  by (auto simp: reported_def list_ex_iff)

lemma adds_more: "adds rules entity a b \<Longrightarrow> set rules \<subseteq> set rules' \<Longrightarrow> adds rules' entity a b"
  using reported_more [of rules rules' a entity] by (fastforce simp: adds_def list_all_iff)

lemma adds_trans:
  assumes "adds rules entity a b" and "adds rules entity b c"
  shows "adds rules entity a c"
  unfolding adds_def
proof (intro impI)
  assume a: "lint_ok entity a" "li_rule a = None"
  obtain new where ab: "lint_keeps a b" "li_rule b = None" "li_issues b = li_issues a @ new" "list_all (reported rules a entity) new"
    using assms(1) a by (auto simp: adds_def)
  obtain new' where bc: "lint_keeps b c" "li_rule c = None" "li_issues c = li_issues b @ new'" "list_all (reported rules b entity) new'"
    using assms(2) lint_keeps_ok [OF ab(1) a(1)] ab(2) by (auto simp: adds_def)
  then show "lint_keeps a c \<and> li_rule c = None \<and> (\<exists>new. li_issues c = li_issues a @ new \<and> list_all (reported rules a entity) new)"
    using ab lint_keeps_trans [OF ab(1) bc(1)] reported_kept [OF ab(1) a(1)] by auto
qed

lemma check_rule_adds:
  assumes "\<And>check. lr_check rule = Some check \<Longrightarrow> reports entity (a\<lparr>li_rule := Some (rule_head rule)\<rparr>) (check (a\<lparr>li_rule := Some (rule_head rule)\<rparr>) entity)"
  shows "adds [rule] entity a (dmi_lint_check_rule a rule entity)"
proof (cases "dmi_lint_enabled a rule")
  case False
  then show ?thesis by (simp add: dmi_lint_check_rule_def adds_refl)
next
  case True
  then obtain check where check: "lr_check rule = Some check" by (cases "lr_check rule") (simp_all add: dmi_lint_enabled_def)
  let ?a = "a\<lparr>li_rule := Some (rule_head rule)\<rparr>"
  have "issue_about (Some (rule_head rule)) ?a entity = issue_about (Some (rule_head rule)) a entity"
    by (rule issue_about_same) simp_all
  moreover have "reported [rule] a entity = issue_about (Some (rule_head rule)) a entity"
    using True by (intro ext) (simp add: reported_def)
  ultimately show ?thesis
    using assms [OF check] True
    by (auto simp: adds_def reports_def dmi_lint_check_rule_def check lint_keeps_def lint_ok_def)
qed

lemma check_loop_adds:
  assumes "rules_contract True rules"
  shows "adds rules (Some n) a (check_rules_loop a rules (Some n))"
  using assms
proof (induction rules arbitrary: a)
  case Nil
  then show ?case by (simp add: adds_refl)
next
  case (Cons rule rules)
  have "adds [rule] (Some n) a (dmi_lint_check_rule a rule (Some n))"
    by (rule check_rule_adds) (use Cons.prems in \<open>simp add: rules_contract_def check_contract_def\<close>)
  moreover have "adds rules (Some n) (dmi_lint_check_rule a rule (Some n)) (check_rules_loop (dmi_lint_check_rule a rule (Some n)) rules (Some n))"
    using Cons by (simp add: rules_contract_def)
  ultimately show ?case using adds_trans [OF adds_more adds_more, of "[rule]" "Some n" a _ "rule # rules" rules] by auto
qed

lemma foldl_adds:
  assumes step: "\<And>l n. n \<in> set ns \<Longrightarrow> lint_keeps a l \<Longrightarrow> adds (R n) (Some n) l (f l n)"
    and bounds: "\<And>n. n \<in> set ns \<Longrightarrow> n < length (rg_entries (li_registry a))"
    and l: "lint_keeps a l" "li_rule l = None" "registry_wf (li_registry a)"
  shows "lint_keeps a (foldl f l ns) \<and> li_rule (foldl f l ns) = None \<and>
    (\<exists>S. li_issues (foldl f l ns) = li_issues l @ concat S \<and> list_all2 (\<lambda>n new. list_all (reported (R n) a (Some n)) new) ns S)"
  using assms
proof (induction ns arbitrary: l)
  case Nil
  then show ?case by simp
next
  case (Cons n ns)
  have n: "n < length (rg_entries (li_registry a))" using Cons.prems(2) by simp
  have ok: "lint_ok (Some n) a" using Cons.prems(5) n by (simp add: lint_ok_def)
  note okl = lint_keeps_ok [OF Cons.prems(3) ok]
  have "adds (R n) (Some n) l (f l n)" using Cons.prems(1,3) by simp
  then obtain new where one: "lint_keeps l (f l n)" "li_rule (f l n) = None" "li_issues (f l n) = li_issues l @ new"
    "list_all (reported (R n) l (Some n)) new" using okl Cons.prems(4) by (auto simp: adds_def)
  have keeps: "lint_keeps a (f l n)" by (rule lint_keeps_trans [OF Cons.prems(3) one(1)])
  have new: "list_all (reported (R n) a (Some n)) new" using one(4) reported_kept [OF Cons.prems(3) ok] by simp
  have IH: "lint_keeps a (foldl f (f l n) ns) \<and> li_rule (foldl f (f l n) ns) = None \<and>
      (\<exists>S. li_issues (foldl f (f l n) ns) = li_issues (f l n) @ concat S \<and> list_all2 (\<lambda>n new. list_all (reported (R n) a (Some n)) new) ns S)"
    by (rule Cons.IH) (use Cons.prems keeps one in auto)
  then obtain S where S: "li_issues (foldl f (f l n) ns) = li_issues (f l n) @ concat S"
    "list_all2 (\<lambda>n new. list_all (reported (R n) a (Some n)) new) ns S" by blast
  show ?case using IH one(3) S new by (auto intro!: exI [of _ "new # S"])
qed

locale lint_rules =
  fixes rules :: "dmi_lint_rule list"
  assumes contract: "rule \<in> set rules \<Longrightarrow> lr_check rule = Some check \<Longrightarrow> check_contract (lr_scope rule = DMI_LINT_SCOPE_ENTITY) check"
begin

lemma check_scope_adds:
  assumes "entity \<noteq> None \<longleftrightarrow> scope = DMI_LINT_SCOPE_ENTITY" and "set rs \<subseteq> set rules"
  shows "adds (scope_rules rs scope) entity a (dmi_lint_check_scope rs a scope entity)"
  using assms(2)
proof (induction rs arbitrary: a)
  case Nil
  then show ?case by (simp add: adds_refl)
next
  case (Cons rule rs)
  show ?case
  proof (cases "lr_scope rule = scope")
    case False
    then show ?thesis using Cons by (simp add: scope_rules_def)
  next
    case True
    let ?b = "dmi_lint_check_rule a rule entity"
    have "adds [rule] entity a ?b"
    proof (rule check_rule_adds)
      fix check assume "lr_check rule = Some check"
      then have "check_contract (scope = DMI_LINT_SCOPE_ENTITY) check" using contract [of rule check] Cons.prems True by simp
      then show "reports entity (a\<lparr>li_rule := Some (rule_head rule)\<rparr>) (check (a\<lparr>li_rule := Some (rule_head rule)\<rparr>) entity)"
        using assms(1) by (simp add: check_contract_def)
    qed
    then have one: "adds (scope_rules (rule # rs) scope) entity a ?b" by (rule adds_more) (simp add: scope_rules_def True)
    have "adds (scope_rules rs scope) entity ?b (dmi_lint_check_scope rs ?b scope entity)" using Cons by simp
    then have "adds (scope_rules (rule # rs) scope) entity ?b (dmi_lint_check_scope rs ?b scope entity)"
      by (rule adds_more) (auto simp: scope_rules_def)
    from adds_trans [OF one this] show ?thesis using True by simp
  qed
qed

lemma check_entity_adds:
  assumes "type_rules_contract type_rules" and "n < length (rg_entries (li_registry a))"
  shows "adds (scope_rules rules DMI_LINT_SCOPE_ENTITY @ own_rules type_rules (lint_entity a n)) (Some n) a (check_entity rules type_rules a n)"
proof -
  let ?b = "dmi_lint_check_scope rules a DMI_LINT_SCOPE_ENTITY (Some n)" and ?own = "own_rules type_rules (lint_entity a n)"
  have one: "adds (scope_rules rules DMI_LINT_SCOPE_ENTITY @ ?own) (Some n) a ?b"
    by (rule adds_more [OF check_scope_adds]) simp_all
  show ?thesis
  proof (cases "lint_ok (Some n) a \<and> li_rule a = None")
    case False
    then show ?thesis by (auto simp: adds_def)
  next
    case True
    have "lint_keeps a ?b" using one True by (simp add: adds_def)
    then have spec: "en_spec (lint_entity ?b n) = en_spec (lint_entity a n)" using lint_keeps_entity(3) assms(2) by blast
    have "adds (scope_rules rules DMI_LINT_SCOPE_ENTITY @ ?own) (Some n) ?b (check_entity rules type_rules a n)"
    proof (cases "en_spec (lint_entity a n)")
      case None
      then show ?thesis by (simp add: check_entity_def Let_def spec adds_refl)
    next
      case (Some s)
      show ?thesis
      proof (cases "type_rules s")
        case None
        then show ?thesis using Some by (simp add: check_entity_def Let_def spec dmi_lint_check_rules_def adds_refl)
      next
        case rs: (Some rs)
        have "rules_contract True rs" using assms(1) rs by (simp add: type_rules_contract_def)
        from check_loop_adds [OF this] have "adds rs (Some n) ?b (check_rules_loop ?b rs (Some n))" .
        then have "adds (scope_rules rules DMI_LINT_SCOPE_ENTITY @ rs) (Some n) ?b (check_rules_loop ?b rs (Some n))" by (rule adds_more) simp
        then show ?thesis using Some rs by (simp add: check_entity_def Let_def spec dmi_lint_check_rules_def own_rules_def)
      qed
    qed
    from adds_trans [OF one this] show ?thesis .
  qed
qed

text \<open>The issues of a whole run: of the entry point, of every structure in its turn, of the table.\<close>

lemma run_reports:
  assumes types: "type_rules_contract type_rules" and wf: "registry_wf (li_registry a)" and rule: "li_rule a = None"
  shows "lint_keeps (dmi_lint_collect a) (lint_run rules type_rules a) \<and>
    (\<exists>E S T. li_issues (lint_run rules type_rules a) = li_issues a @ E @ concat S @ T \<and>
      list_all (reported (scope_rules rules DMI_LINT_SCOPE_ENTRY) a None) E \<and>
      list_all2 (\<lambda>n new. list_all (reported (scope_rules rules DMI_LINT_SCOPE_ENTITY @ own_rules type_rules (lint_entity a n)) a (Some n)) new)
        [0..<length (rg_entries (li_registry a))] S \<and>
      list_all (reported (scope_rules rules DMI_LINT_SCOPE_TABLE) a None) T)"
proof -
  let ?b = "dmi_lint_collect a"
  have same: "reported rs ?b entity = reported rs a entity" for rs entity
    by (rule reported_same) (simp_all add: dmi_lint_collect_def)
  have b: "lint_ok None ?b" "li_rule ?b = None" "li_issues ?b = li_issues a" "li_registry ?b = li_registry a"
    using wf rule by (simp_all add: dmi_lint_collect_def lint_ok_def)
  let ?c = "dmi_lint_check_scope rules ?b DMI_LINT_SCOPE_ENTRY None"
  have c: "adds (scope_rules rules DMI_LINT_SCOPE_ENTRY) None ?b ?c" by (rule check_scope_adds) simp_all
  then obtain E where E: "lint_keeps ?b ?c" "li_rule ?c = None" "li_issues ?c = li_issues a @ E"
    "list_all (reported (scope_rules rules DMI_LINT_SCOPE_ENTRY) a None) E" using b by (auto simp: adds_def same)
  let ?R = "\<lambda>n. scope_rules rules DMI_LINT_SCOPE_ENTITY @ own_rules type_rules (lint_entity a n)"
  let ?d = "dmi_lint_check_entities rules type_rules ?c"
  have "lint_visits ?c = [0..<length (rg_entries (li_registry ?c))]" by (simp add: lint_visits_def visit_all_upt)
  moreover have "length (rg_entries (li_registry ?c)) = length (rg_entries (li_registry a))"
    using E(1) registry_marked_length [of "li_registry ?b" "li_registry ?c"] by (simp add: lint_keeps_def b(4))
  ultimately have visits: "lint_visits ?c = [0..<length (rg_entries (li_registry a))]" by simp
  have "lint_keeps ?b (foldl (check_entity rules type_rules) ?c (lint_visits ?c)) \<and> li_rule (foldl (check_entity rules type_rules) ?c (lint_visits ?c)) = None \<and>
    (\<exists>S. li_issues (foldl (check_entity rules type_rules) ?c (lint_visits ?c)) = li_issues ?c @ concat S \<and>
      list_all2 (\<lambda>n new. list_all (reported (?R n) ?b (Some n)) new) (lint_visits ?c) S)"
  proof (rule foldl_adds)
    fix l n assume n: "n \<in> set (lint_visits ?c)" and l: "lint_keeps ?b l"
    have len: "n < length (rg_entries (li_registry ?b))" using n by (simp add: visits b(4))
    have marked: "registry_marked (li_registry ?b) (li_registry l)" using l by (simp add: lint_keeps_def)
    have "n < length (rg_entries (li_registry l))" using len registry_marked_length [OF marked] by simp
    from check_entity_adds [OF types this] show "adds (?R n) (Some n) l (check_entity rules type_rules l n)"
      using lint_keeps_entity(3) [OF l len] b(4) by (simp add: own_rules_def)
  next
    show "n < length (rg_entries (li_registry ?b))" if "n \<in> set (lint_visits ?c)" for n using that by (simp add: visits b(4))
  qed (use E wf b in simp_all)
  then obtain S where S: "lint_keeps ?b ?d" "li_rule ?d = None" "li_issues ?d = li_issues ?c @ concat S"
    "list_all2 (\<lambda>n new. list_all (reported (?R n) a (Some n)) new) [0..<length (rg_entries (li_registry a))] S"
    unfolding dmi_lint_check_entities_def visits same by blast
  let ?e = "dmi_lint_check_scope rules ?d DMI_LINT_SCOPE_TABLE None"
  have "adds (scope_rules rules DMI_LINT_SCOPE_TABLE) None ?d ?e" by (rule check_scope_adds) simp_all
  then obtain T where T: "lint_keeps ?d ?e" "li_issues ?e = li_issues ?d @ T"
    "list_all (reported (scope_rules rules DMI_LINT_SCOPE_TABLE) ?d None) T"
    using lint_keeps_ok [OF S(1) b(1)] S(2) by (auto simp: adds_def)
  have "list_all (reported (scope_rules rules DMI_LINT_SCOPE_TABLE) a None) T" using T(3) reported_kept [OF S(1) b(1)] same by simp
  moreover have "lint_run rules type_rules a = ?e" by (simp add: lint_run_def Let_def)
  ultimately show ?thesis using lint_keeps_trans [OF S(1) T(1)] E(3,4) S(3,4) T(2)
    by (intro conjI exI [of _ E] exI [of _ S] exI [of _ T]) simp_all
qed

end

lemmas rule_defs =
  dmi_lint_entry_checksum_rule_def dmi_lint_entry_length_rule_def dmi_lint_entry_table_addr_rule_def
  dmi_lint_entry_table_size_rule_def dmi_lint_entry_entity_count_rule_def dmi_lint_entry_entity_max_size_rule_def
  dmi_lint_table_truncated_rule_def dmi_lint_table_invalid_header_rule_def dmi_lint_table_terminator_rule_def
  dmi_lint_table_trailing_data_rule_def dmi_lint_table_required_rule_def dmi_lint_table_recommended_rule_def
  dmi_lint_table_singleton_rule_def dmi_lint_table_reserved_handle_rule_def dmi_lint_entity_below_minimum_rule_def
  dmi_lint_entity_unknown_length_rule_def dmi_lint_entity_undecoded_rule_def dmi_lint_entity_newer_fields_rule_def
  dmi_lint_entity_newer_type_rule_def dmi_lint_entity_unknown_type_rule_def dmi_lint_entity_obsolete_rule_def
  dmi_lint_string_too_long_rule_def dmi_lint_string_non_printable_rule_def dmi_lint_string_blank_rule_def
  dmi_lint_string_padded_rule_def dmi_lint_string_unreferenced_rule_def dmi_lint_value_invalid_enum_rule_def
  dmi_lint_value_reserved_rule_def dmi_lint_value_reserved_bits_rule_def dmi_lint_value_bcd_rule_def
  dmi_lint_value_range_rule_def dmi_lint_value_jep106_rule_def dmi_lint_value_uuid_rule_def
  dmi_lint_link_dangling_rule_def dmi_lint_link_wrong_type_rule_def dmi_lint_link_self_rule_def
  dmi_lint_link_orphan_rule_def dmi_lint_overlay_dangling_rule_def dmi_lint_overlay_out_of_bounds_rule_def
  dmi_lint_overlay_empty_rule_def dmi_lint_quality_placeholder_rule_def

interpretation library: lint_rules dmi_lint_rule_list
proof unfold_locales
  fix rule check
  assume "rule \<in> set dmi_lint_rule_list" and "lr_check rule = Some check"
  then show "check_contract (lr_scope rule = DMI_LINT_SCOPE_ENTITY) check"
    unfolding dmi_lint_rule_list_def rule_defs
    by (auto simp: reporting intro!: of_entity_contract of_table_contract)
qed

end
