(* ===== verification/Lint_Clean.thy ===== *)
theory Lint_Clean
  imports Lint_Laws Link_Properties
begin

text \<open>
  What a check which reports nothing says: every check of the run has been made, on a state which differs
  from the first one in marks only, and what it would have reported is not there. Of the references this means that
  all of them can be resolved, so that linking succeeds.
\<close>

section \<open>Every check is made\<close>

definition extends :: "dmi_lint_t \<Rightarrow> dmi_lint_t \<Rightarrow> bool" where
  "extends a b \<longleftrightarrow> (\<exists>new. li_issues b = li_issues a @ new)"

lemma extends_refl [simp]: "extends a a"
  by (simp add: extends_def)

lemma extends_trans: "extends a b \<Longrightarrow> extends b c \<Longrightarrow> extends a c"
  by (auto simp: extends_def)

lemma extends_issues: "extends a b \<Longrightarrow> i \<in> set (li_issues a) \<Longrightarrow> i \<in> set (li_issues b)"
  by (auto simp: extends_def)

lemma adds_after:
  assumes "adds rules entity a b" and "lint_ok entity a" and "li_rule a = None"
  shows "lint_keeps a b" and "li_rule b = None" and "extends a b" and "lint_ok entity b"
  using assms lint_keeps_ok [of a b entity] by (auto simp: adds_def extends_def)

lemma reports_after:
  assumes "reports entity a b" and "lint_ok entity a"
  shows "lint_keeps a b" and "li_rule b = li_rule a" and "extends a b" and "lint_ok entity b"
  using assms lint_keeps_ok [of a b entity] by (auto simp: reports_def extends_def)

lemma foldl_reaches:
  assumes step: "\<And>l n. n \<in> set ns \<Longrightarrow> lint_keeps a l \<Longrightarrow> adds (R n) (Some n) l (f l n)"
    and bounds: "\<And>n. n \<in> set ns \<Longrightarrow> n < length (rg_entries (li_registry a))"
    and l: "lint_keeps a l" "li_rule l = None" "registry_wf (li_registry a)" and k: "k \<in> set ns"
  shows "\<exists>l'. lint_keeps a l' \<and> li_rule l' = None \<and> extends (f l' k) (foldl f l ns)"
  using assms
proof (induction ns arbitrary: l)
  case Nil
  then show ?case by simp
next
  case (Cons n ns)
  have n: "n < length (rg_entries (li_registry a))" using Cons.prems(2) by simp
  have ok: "lint_ok (Some n) a" using Cons.prems(5) n by (simp add: lint_ok_def)
  have "adds (R n) (Some n) l (f l n)" using Cons.prems(1,3) by simp
  note b = adds_after [OF this lint_keeps_ok [OF Cons.prems(3) ok] Cons.prems(4)]
  have keeps: "lint_keeps a (f l n)" by (rule lint_keeps_trans [OF Cons.prems(3) b(1)])
  show ?case
  proof (cases "k = n")
    case True
    obtain S where "li_issues (foldl f (f l n) ns) = li_issues (f l n) @ concat S"
      using foldl_adds [of ns a R f "f l n"] Cons.prems keeps b by auto
    then have "extends (f l n) (foldl f l (n # ns))" by (auto simp: extends_def)
    then show ?thesis using True Cons.prems(3,4) by blast
  next
    case False
    have "\<exists>l'. lint_keeps a l' \<and> li_rule l' = None \<and> extends (f l' k) (foldl f (f l n) ns)"
      by (rule Cons.IH) (use Cons.prems keeps b False in auto)
    then show ?thesis by simp
  qed
qed

context lint_rules
begin

lemma scope_makes_check:
  assumes scope: "entity \<noteq> None \<longleftrightarrow> scope = DMI_LINT_SCOPE_ENTITY"
    and rule: "lr_scope rule = scope" "lr_check rule = Some check"
  shows "set rs \<subseteq> set rules \<Longrightarrow> rule \<in> set rs \<Longrightarrow> lint_ok entity a \<Longrightarrow> li_rule a = None \<Longrightarrow> dmi_lint_enabled a rule \<Longrightarrow>
    \<exists>l. lint_keeps a l \<and> li_rule l = Some (rule_head rule) \<and> extends (check l entity) (dmi_lint_check_scope rs a scope entity)"
proof (induction rs arbitrary: a)
  case Nil
  then show ?case by simp
next
  case (Cons r rs)
  let ?b = "if lr_scope r \<noteq> scope then a else dmi_lint_check_rule a r entity"
  have walk: "dmi_lint_check_scope (r # rs) a scope entity = dmi_lint_check_scope rs ?b scope entity" by simp
  have step: "dmi_lint_check_scope [r] a scope entity = ?b" by simp
  have "adds (scope_rules [r] scope) entity a (dmi_lint_check_scope [r] a scope entity)"
    by (rule check_scope_adds [OF scope]) (use Cons.prems(1) in simp)
  from adds_after [OF this [unfolded step] Cons.prems(3,4)]
  have b: "lint_keeps a ?b" "li_rule ?b = None" "lint_ok entity ?b" by simp_all
  have rest: "adds (scope_rules rs scope) entity ?b (dmi_lint_check_scope rs ?b scope entity)"
    by (rule check_scope_adds [OF scope]) (use Cons.prems in simp)
  show ?case
  proof (cases "r = rule")
    case True
    let ?l = "a\<lparr>li_rule := Some (rule_head rule)\<rparr>"
    have "?b = (check ?l entity)\<lparr>li_rule := None\<rparr>" using True rule Cons.prems(5) by (simp add: dmi_lint_check_rule_def)
    then have made: "extends (check ?l entity) ?b" by (simp add: extends_def)
    have keeps: "lint_keeps a ?l" using Cons.prems(3) by (simp add: lint_keeps_def lint_ok_def)
    have rule: "li_rule ?l = Some (rule_head rule)" by simp
    show ?thesis unfolding walk using keeps rule extends_trans [OF made adds_after(3) [OF rest b(3,2)]] by blast
  next
    case False
    have "dmi_lint_enabled ?b rule" using enabled_kept [OF b(1)] Cons.prems(5) by simp
    then obtain l where "lint_keeps ?b l" "li_rule l = Some (rule_head rule)" "extends (check l entity) (dmi_lint_check_scope rs ?b scope entity)"
      using Cons.IH [of ?b] Cons.prems(1,2) False b by auto
    then show ?thesis unfolding walk using lint_keeps_trans [OF b(1)] by blast
  qed
qed

lemma visits_kept:
  assumes "lint_keeps b c"
  shows "lint_visits c = [0..<length (rg_entries (li_registry b))]"
proof -
  have "registry_marked (li_registry b) (li_registry c)" using assms by (simp add: lint_keeps_def)
  from registry_marked_length [OF this] show ?thesis by (simp add: lint_visits_def visit_all_upt)
qed

lemma entity_step:
  assumes "type_rules_contract type_rules" and "lint_keeps b l" and "n < length (rg_entries (li_registry b))"
  shows "adds (scope_rules rules DMI_LINT_SCOPE_ENTITY @ own_rules type_rules (lint_entity b n)) (Some n) l (check_entity rules type_rules l n)"
proof -
  have "registry_marked (li_registry b) (li_registry l)" using assms(2) by (simp add: lint_keeps_def)
  from registry_marked_length [OF this] have "n < length (rg_entries (li_registry l))" using assms(3) by simp
  from check_entity_adds [OF assms(1) this] show ?thesis using lint_keeps_entity(3) [OF assms(2,3)] by (simp add: own_rules_def)
qed

text \<open>What comes after the rules of the entry point only adds issues.\<close>

lemma entities_after:
  assumes types: "type_rules_contract type_rules" and wf: "registry_wf (li_registry b)" and c: "lint_keeps b c" "li_rule c = None"
  defines "d \<equiv> foldl (check_entity rules type_rules) c (lint_visits c)"
  shows "extends c d" and "extends d (dmi_lint_check_scope rules d DMI_LINT_SCOPE_TABLE None)"
proof -
  have "lint_keeps b d \<and> li_rule d = None \<and> (\<exists>S. li_issues d = li_issues c @ concat S \<and> list_all2 (\<lambda>n new. list_all
      (reported (scope_rules rules DMI_LINT_SCOPE_ENTITY @ own_rules type_rules (lint_entity b n)) b (Some n)) new) (lint_visits c) S)"
    unfolding d_def by (rule foldl_adds) (use visits_kept [OF c(1)] entity_step [OF types] c wf in simp_all)
  then have d: "lint_keeps b d" "li_rule d = None" "extends c d" by (auto simp: extends_def)
  have okb: "lint_ok None b" using wf by (simp add: lint_ok_def)
  have "adds (scope_rules rules DMI_LINT_SCOPE_TABLE) None d (dmi_lint_check_scope rules d DMI_LINT_SCOPE_TABLE None)"
    by (rule check_scope_adds) simp_all
  from adds_after(3) [OF this lint_keeps_ok [OF d(1) okb] d(2)] show "extends d (dmi_lint_check_scope rules d DMI_LINT_SCOPE_TABLE None)" .
  show "extends c d" by (rule d(3))
qed

lemma own_rules_extend:
  assumes "type_rules_contract type_rules" and "lint_ok (Some n) m" and "li_rule m = None"
  shows "extends m (dmi_lint_check_rules m (type_rules spec) (Some n))"
proof (cases "type_rules spec")
  case (Some rs)
  then have "adds rs (Some n) m (check_rules_loop m rs (Some n))"
    using assms(1) by (intro check_loop_adds) (simp add: type_rules_contract_def)
  from adds_after(3) [OF this assms(2,3)] show ?thesis by (simp add: dmi_lint_check_rules_def Some)
qed (simp add: dmi_lint_check_rules_def)

lemma run_makes_entry_check:
  assumes types: "type_rules_contract type_rules" and wf: "registry_wf (li_registry a)" and none: "li_rule a = None"
    and rule: "rule \<in> set rules" "lr_scope rule = DMI_LINT_SCOPE_ENTRY" "lr_check rule = Some check" "dmi_lint_enabled a rule"
  shows "\<exists>l. lint_keeps (dmi_lint_collect a) l \<and> li_rule l = Some (rule_head rule) \<and> extends (check l None) (lint_run rules type_rules a)"
proof -
  let ?b = "dmi_lint_collect a"
  let ?c = "dmi_lint_check_scope rules ?b DMI_LINT_SCOPE_ENTRY None"
  have b: "lint_ok None ?b" "li_rule ?b = None" "registry_wf (li_registry ?b)"
    using wf none by (simp_all add: dmi_lint_collect_def lint_ok_def)
  have "dmi_lint_enabled ?b rule = dmi_lint_enabled a rule" unfolding dmi_lint_enabled_def by (simp add: dmi_lint_collect_def)
  then obtain l where l: "lint_keeps ?b l" "li_rule l = Some (rule_head rule)" "extends (check l None) ?c"
    using scope_makes_check [of None DMI_LINT_SCOPE_ENTRY rule check rules ?b] rule b by auto
  have "adds (scope_rules rules DMI_LINT_SCOPE_ENTRY) None ?b ?c" by (rule check_scope_adds) simp_all
  note c = adds_after [OF this b(1,2)]
  note after = entities_after [OF types b(3) c(1,2)]
  have "extends (check l None) (lint_run rules type_rules a)"
    using extends_trans [OF l(3) extends_trans [OF after]] by (simp add: lint_run_def dmi_lint_check_entities_def Let_def)
  then show ?thesis using l(1,2) by blast
qed

lemma run_makes_check:
  assumes types: "type_rules_contract type_rules" and wf: "registry_wf (li_registry a)" and none: "li_rule a = None"
    and rule: "rule \<in> set rules" "lr_scope rule = DMI_LINT_SCOPE_ENTITY" "lr_check rule = Some check" "dmi_lint_enabled a rule"
    and n: "n < length (rg_entries (li_registry a))"
  shows "\<exists>l. lint_keeps (dmi_lint_collect a) l \<and> li_rule l = Some (rule_head rule) \<and> extends (check l (Some n)) (lint_run rules type_rules a)"
proof -
  let ?b = "dmi_lint_collect a"
  let ?c = "dmi_lint_check_scope rules ?b DMI_LINT_SCOPE_ENTRY None"
  let ?R = "\<lambda>n. scope_rules rules DMI_LINT_SCOPE_ENTITY @ own_rules type_rules (lint_entity a n)"
  let ?d = "foldl (check_entity rules type_rules) ?c (lint_visits ?c)"
  have b: "lint_ok None ?b" "li_rule ?b = None" "li_registry ?b = li_registry a"
    using wf none by (simp_all add: dmi_lint_collect_def lint_ok_def)
  have "adds (scope_rules rules DMI_LINT_SCOPE_ENTRY) None ?b ?c" by (rule check_scope_adds) simp_all
  note c = adds_after [OF this b(1,2)]
  note visits = visits_kept [OF c(1), unfolded b(3)]
  have step: "adds (?R k) (Some k) l (check_entity rules type_rules l k)" if k: "k \<in> set (lint_visits ?c)" and l: "lint_keeps ?b l" for l k
    using entity_step [OF types l] k by (simp add: visits b(3))
  have "\<exists>l. lint_keeps ?b l \<and> li_rule l = None \<and> extends (check_entity rules type_rules l n) ?d"
    by (rule foldl_reaches [where R = ?R, OF step]) (use visits c b wf n in simp_all)
  then obtain l where l: "lint_keeps ?b l" "li_rule l = None" "extends (check_entity rules type_rules l n) ?d" by blast
  have okb: "lint_ok (Some n) ?b" using n wf b(3) by (simp add: lint_ok_def)
  have ok: "lint_ok (Some n) l" by (rule lint_keeps_ok [OF l(1) okb])
  have "dmi_lint_enabled ?b rule = dmi_lint_enabled a rule" unfolding dmi_lint_enabled_def by (simp add: dmi_lint_collect_def)
  then have "dmi_lint_enabled ?b rule" using rule(4) by simp
  then have enabled: "dmi_lint_enabled l rule" using enabled_kept [OF l(1)] by simp
  let ?m = "dmi_lint_check_scope rules l DMI_LINT_SCOPE_ENTITY (Some n)"
  obtain l' where l': "lint_keeps l l'" "li_rule l' = Some (rule_head rule)" "extends (check l' (Some n)) ?m"
    using scope_makes_check [of "Some n" DMI_LINT_SCOPE_ENTITY rule check rules l] rule ok l(2) enabled by auto
  have "adds (scope_rules rules DMI_LINT_SCOPE_ENTITY) (Some n) l ?m" by (rule check_scope_adds) simp_all
  note m = adds_after [OF this ok l(2)]
  have "extends ?m (check_entity rules type_rules l n)"
    using own_rules_extend [OF types m(4,2)] by (simp add: check_entity_def Let_def split: option.split)
  moreover have "extends ?d (lint_run rules type_rules a)"
    using entities_after(2) [OF types _ c(1,2)] wf b(3) by (simp add: lint_run_def dmi_lint_check_entities_def Let_def)
  ultimately have "extends (check l' (Some n)) (lint_run rules type_rules a)" using l(3) l'(3) extends_trans by blast
  then show ?thesis using lint_keeps_trans [OF l(1) l'(1)] l'(2) by blast
qed

end

section \<open>References of a clean table\<close>

lemma each_reaches:
  assumes f: "\<And>node l. reports entity l (snd (f node l))" "\<And>node l. fst (f node l)"
    and node: "node \<in> set nodes" and ok: "lint_ok entity l"
  shows "\<exists>l'. lint_keeps l l' \<and> li_rule l' = li_rule l \<and> extends (snd (f node l')) (snd (visit_each f nodes l))"
  using node ok
proof (induction nodes arbitrary: l)
  case (Cons k nodes)
  have walk: "snd (visit_each f (k # nodes) l) = snd (visit_each f nodes (snd (f k l)))" using f(2) [of k l] by (cases "f k l") simp
  note b = reports_after [OF f(1) [of l k] Cons.prems(2)]
  show ?case
  proof (cases "node = k")
    case True
    have "reports entity (snd (f k l)) (snd (visit_each f nodes (snd (f k l))))" by (rule reports_each [OF f(1)])
    from reports_after(3) [OF this b(4)] have "extends (snd (f k l)) (snd (visit_each f (k # nodes) l))" unfolding walk .
    moreover have "lint_keeps l l" using Cons.prems(2) by (simp add: lint_keeps_refl lint_ok_def)
    ultimately show ?thesis using True by blast
  next
    case False
    then obtain l' where "lint_keeps (snd (f k l)) l'" "li_rule l' = li_rule (snd (f k l))"
      "extends (snd (f node l')) (snd (visit_each f nodes (snd (f k l))))" using Cons.IH [OF _ b(4)] Cons.prems(1) by auto
    then show ?thesis unfolding walk using lint_keeps_trans [OF b(1)] b(2) by metis
  qed
qed simp

lemma lint_lookup_kept:
  assumes "lint_keeps a b" and "registry_wf (li_registry a)"
  shows "lint_lookup b handle = lint_lookup a handle"
proof -
  have wf: "registry_wf (li_registry b)" and marked: "registry_marked (li_registry a) (li_registry b)" using assms(1) by (simp_all add: lint_keeps_def)
  have "find (\<lambda>n. en_handle (lint_entity b n) = handle) [0..<length (rg_entries (li_registry b))] =
      find (\<lambda>n. en_handle (lint_entity a n) = handle) [0..<length (rg_entries (li_registry a))]"
    unfolding registry_marked_length [OF marked] by (rule find_cong) (simp_all add: lint_keeps_entity(1) [OF assms(1)])
  then show ?thesis by (simp add: lint_lookup_result wf assms(2))
qed

lemma lint_nodes_kept:
  assumes "lint_keeps a b" and "n < length (rg_entries (li_registry a))"
  shows "lint_nodes b n = lint_nodes a n"
proof -
  have "li_context b = li_context a" using assms(1) by (simp add: lint_keeps_def)
  then show ?thesis using lint_keeps_entity(3,4) [OF assms] by (simp add: lint_nodes_def split: option.split)
qed

lemma issue_made:
  assumes "li_rule lint = Some rule" and "li_handler lint" and "b = dmi_lint_issue lint entity attribute offset message"
  shows "\<exists>i\<in>set (li_issues b). is_rule i = rule"
  using assms by (simp add: dmi_lint_issue_def)

lemma dangling_reported:
  assumes ok: "lint_ok (Some n) l" and rule: "li_rule l = Some rule" "li_handler l"
    and nodes: "lint_nodes l n = Some (m, nodes)" "node \<in> set nodes" "at_type (nd_attr node) = DMI_ATTRIBUTE_TYPE_HANDLE"
    and handle: "dmi_lint_link_is_set (load_handle m (nd_value node))" "lint_lookup l (load_handle m (nd_value node)) = None"
  shows "\<exists>i\<in>set (li_issues (dmi_lint_link_dangling l n)). is_rule i = rule"
proof -
  let ?f = "dmi_lint_link_visit dmi_lint_link_check_dangling n m"
  have reports: "reports (Some n) k (snd (?f node k))" for node k by (simp add: dmi_lint_link_visit_def reporting)
  have run: "dmi_lint_link_dangling l n = snd (visit_each ?f nodes l)"
    by (simp add: dmi_lint_link_dangling_def dmi_lint_link_walk_def lint_walk_each nodes(1))
  obtain l' where l': "lint_keeps l l'" "li_rule l' = li_rule l" "extends (snd (?f node l')) (dmi_lint_link_dangling l n)"
    using each_reaches [of "Some n" ?f node nodes l] reports nodes(2) ok by (auto simp: run dmi_lint_link_visit_def)
  have "lint_lookup l' (load_handle m (nd_value node)) = None"
    using handle(2) lint_lookup_kept [OF l'(1)] ok by (simp add: lint_ok_def)
  then have made: "snd (?f node l') = link_issue l' n (nd_attr node) (STR ''handle 0x%04X belongs to no structure of the table'')
      [Lint_number (uint (load_handle m (nd_value node)))]"
    using nodes(3) handle(1) by (simp add: dmi_lint_link_visit_def dmi_lint_link_check_dangling_def)
  have "li_rule l' = Some rule" "li_handler l'" using l' rule by (simp_all add: lint_keeps_def)
  from issue_made [OF this made] show ?thesis using extends_issues [OF l'(3)] by blast
qed

lemma wrong_type_reported:
  assumes ok: "lint_ok (Some n) l" and rule: "li_rule l = Some rule" "li_handler l"
    and nodes: "lint_nodes l n = Some (m, nodes)" "node \<in> set nodes" "at_type (nd_attr node) = DMI_ATTRIBUTE_TYPE_HANDLE"
    and handle: "dmi_lint_link_is_set (load_handle m (nd_value node))" "lint_lookup l (load_handle m (nd_value node)) = Some t"
    and targets: "ap_targets (at_params (nd_attr node)) = Some targets" "\<not> (\<exists>k\<in>set targets. entity_kind (lint_types l) (lint_entity l t) = Some k)"
  shows "\<exists>i\<in>set (li_issues (dmi_lint_link_wrong_type l n)). is_rule i = rule"
proof -
  let ?f = "dmi_lint_link_visit dmi_lint_link_check_type n m" and ?h = "load_handle m (nd_value node)"
  have reports: "reports (Some n) k (snd (?f node k))" for node k by (simp add: dmi_lint_link_visit_def reporting)
  have run: "dmi_lint_link_wrong_type l n = snd (visit_each ?f nodes l)"
    by (simp add: dmi_lint_link_wrong_type_def dmi_lint_link_walk_def lint_walk_each nodes(1))
  obtain l' where l': "lint_keeps l l'" "li_rule l' = li_rule l" "extends (snd (?f node l')) (dmi_lint_link_wrong_type l n)"
    using each_reaches [of "Some n" ?f node nodes l] reports nodes(2) ok by (auto simp: run dmi_lint_link_visit_def)
  have wf: "registry_wf (li_registry l)" using ok by (simp add: lint_ok_def)
  have wf': "registry_wf (li_registry l')" and marked: "registry_marked (li_registry l) (li_registry l')"
    and ctx: "li_context l' = li_context l" using l'(1) by (simp_all add: lint_keeps_def)
  have found: "lint_lookup l' ?h = Some t" using handle(2) lint_lookup_kept [OF l'(1) wf] by simp
  have t: "t < length (rg_entries (li_registry l))" by (rule lint_lookup_some [OF wf handle(2)])
  have t': "t < length (rg_entries (li_registry l'))" using t registry_marked_length [OF marked] by simp
  have kind: "entity_kind (lint_types l') (lint_entity l' t) = entity_kind (lint_types l) (lint_entity l t)"
    using registry_marked_kind [OF wf marked t] ctx by simp
  obtain type a where a: "lint_entity_type l' t = (type, a)" by fastforce
  obtain name b where b: "dmi_entity_name a t = (name, b)" by fastforce
  have type: "type = entity_kind (lint_types l) (lint_entity l t)" using lint_entity_type_result [OF wf' t'] kind by (simp add: a)
  have ok': "lint_ok None l'" using wf' by (simp add: lint_ok_def)
  have "reports None l' a" using reports_entity_type [of None l' t] t' by (simp add: a)
  note ra = reports_after [OF this ok']
  have "registry_marked (li_registry l') (li_registry a)" using ra(1) by (simp add: lint_keeps_def)
  from registry_marked_length [OF this] have "reports None a b" using reports_entity_name [of None a t] t' by (simp add: b)
  note rb = reports_after [OF this ra(4)]
  have b': "li_rule b = Some rule" "li_handler b" using ra(1,2) rb(1,2) l' rule by (simp_all add: lint_keeps_def)
  have "snd (?f node l') = link_issue b n (nd_attr node) (STR ''handle 0x%04X refers to a structure of type %d (%s)'')
      [Lint_number (uint ?h), Lint_number (en_type_id (lint_entity b t)), Lint_text name]"
    using nodes(3) handle(1) targets found type a b
    by (auto simp: dmi_lint_link_visit_def dmi_lint_link_check_type_def list_ex_iff)
  from issue_made [OF b' this] show ?thesis using extends_issues [OF l'(3)] by blast
qed

end
