(* ===== verification/Lint_Properties.thy ===== *)
theory Lint_Properties
  imports Lint_Clean
begin

text \<open>
  The properties of the check: what a run reports and in what order, that a clean table links, where what is reported
  of strings and of the end of the table is, and which types are reported as missing.
\<close>

section \<open>References of a structure, one by one\<close>

text \<open>The handles of an array lie one after the other, as they do in every structure of the library.\<close>

definition handles_packed :: "dmi_memory \<Rightarrow> dmi_attribute list \<Rightarrow> bool" where
  "handles_packed m attrs \<longleftrightarrow>
    list_all (\<lambda>node. dmi_attribute_is_array (nd_attr node) \<longrightarrow> mr_size (at_value (nd_attr node)) = 2) (handle_nodes m attrs 0)"

text \<open>Linking and checking look at the same handles.\<close>

lemma member_handles:
  assumes "at_type (nd_attr node) = DMI_ATTRIBUTE_TYPE_HANDLE" and "nd_value node = node_place node"
    and "dmi_attribute_is_array (nd_attr node) \<longrightarrow> mr_size (at_value (nd_attr node)) = 2" and "i < node_count m node"
  shows "\<exists>v\<in>set (member_nodes m nested node). nd_attr v = nd_attr node \<and> nd_value v = node_base m node + i * 2"
proof (cases "dmi_attribute_is_array (nd_attr node)")
  case False
  then have "i = 0" using assms(4) by (simp add: node_count_def)
  then show ?thesis using False assms(1,2) by (simp add: member_nodes_def value_nodes_def node_base_def)
next
  case True
  have count: "nd_count (array_node node m) = node_count m node" and base: "array_base node m = node_base m node"
    and attr: "nd_attr (array_node node m) = nd_attr node"
    using True assms(2) by (auto simp: array_node_def array_base_def node_count_def node_base_def split: option.splits)
  let ?v = "(array_node node m)\<lparr>nd_value := array_base node m + i * mr_size (at_value (nd_attr node)), nd_index := of_nat i\<rparr>"
  have "?v \<in> set (member_nodes m nested node)"
    using True assms(1,4) attr by (auto simp: member_nodes_def value_nodes_def count)
  moreover have "nd_attr ?v = nd_attr node \<and> nd_value ?v = node_base m node + i * 2"
    using True assms(3) by (simp add: attr base)
  ultimately show ?thesis by blast
qed

lemma value_of_member:
  assumes nested: "\<And>info. n \<in> set (nodes info) \<Longrightarrow> \<exists>v\<in>set (values info). P v"
    and n: "n \<in> set (link_nodes m nodes node)" and t: "at_type (nd_attr node) = DMI_ATTRIBUTE_TYPE_STRUCT"
  shows "\<exists>v\<in>set (member_nodes m values node). P v"
proof (cases "dmi_attribute_is_array (nd_attr node)")
  case False
  then show ?thesis using n t nested by (simp add: link_nodes_def member_nodes_def value_nodes_def)
next
  case True
  have attr: "nd_attr (array_node node m) = nd_attr node" by (simp add: array_node_def)
  obtain i where "i < nd_count (array_node node m)" "n \<in> set (nodes (nd_value (item_node m node i)))"
    using True n t by (auto simp: link_nodes_def)
  then show ?thesis using True t nested [of "nd_value (item_node m node i)"] attr
    by (fastforce simp: member_nodes_def value_nodes_def item_node_def)
qed

lemma handle_values:
  assumes "node \<in> set (handle_nodes m attrs info)"
    and "dmi_attribute_is_array (nd_attr node) \<longrightarrow> mr_size (at_value (nd_attr node)) = 2" and "i < node_count m node"
  shows "\<exists>v\<in>set (structure_nodes m attrs info). nd_attr v = nd_attr node \<and> nd_value v = node_base m node + i * 2"
  using assms(1)
proof (induction "size_list size attrs" arbitrary: attrs info rule: less_induct)
  case less
  show ?case
  proof (cases attrs)
    case Nil
    then show ?thesis using less.prems by (simp add: handle_nodes.simps)
  next
    case (Cons attr rest)
    let ?P = "\<lambda>v. nd_attr v = nd_attr node \<and> nd_value v = node_base m node + i * 2"
    have type: "at_type attr \<noteq> DMI_ATTRIBUTE_TYPE_NONE" using less.prems Cons by (auto simp: handle_nodes.simps)
    consider (here) r where "Some r = dmi_attribute_resolve attr m info"
        "node \<in> set (link_nodes m (handle_nodes m (attributes_of r)) (member_node attr r info))"
      | (rest) "node \<in> set (handle_nodes m rest info)"
      using less.prems Cons type by (auto simp: handle_nodes.simps split: option.splits)
    then show ?thesis
    proof cases
      case rest
      then have "\<exists>v\<in>set (structure_nodes m rest info). ?P v" using less.hyps [of rest info] Cons by simp
      then show ?thesis using Cons type by (auto simp: structure_nodes.simps)
    next
      case here
      let ?n = "member_node attr r info"
      have nested: "\<exists>v\<in>set (structure_nodes m (attributes_of r) a). ?P v" if "node \<in> set (handle_nodes m (attributes_of r) a)" for a
        using less.hyps [of "attributes_of r" a] that size_attributes_of [of r] size_resolved [OF here(1) [symmetric]] Cons by simp
      have "\<exists>v\<in>set (member_nodes m (structure_nodes m (attributes_of r)) ?n). ?P v"
      proof (cases "at_type (nd_attr ?n) = DMI_ATTRIBUTE_TYPE_HANDLE")
        case True
        then have "node = ?n" using here(2) by (simp add: link_nodes_def)
        then show ?thesis using member_handles [OF True, of i m] assms(2,3) by (simp add: node_place_def member_node_def)
      next
        case False
        then have "at_type (nd_attr ?n) = DMI_ATTRIBUTE_TYPE_STRUCT" using here(2) by (auto simp: link_nodes_def split: if_splits)
        from value_of_member [OF nested here(2) this] show ?thesis .
      qed
      then show ?thesis using Cons type here(1) [symmetric] by (auto simp: structure_nodes.simps)
    qed
  qed
qed

section \<open>A clean table links\<close>

lemma clean_resolves:
  assumes ok: "lint_ok (Some n) a" and handler: "li_handler a"
    and nodes: "lint_nodes a n = Some (m, nodes)" "v \<in> set nodes" "at_type (nd_attr v) = DMI_ATTRIBUTE_TYPE_HANDLE"
    and made: "\<And>rule. rule \<in> {dmi_lint_link_dangling_rule, dmi_lint_link_wrong_type_rule} \<Longrightarrow>
      \<exists>l. lint_keeps a l \<and> li_rule l = Some (rule_head rule) \<and> extends (the (lr_check rule) l (Some n)) b"
    and clean: "\<forall>i\<in>set (li_issues b). is_rule i \<noteq> rule_head dmi_lint_link_dangling_rule \<and> is_rule i \<noteq> rule_head dmi_lint_link_wrong_type_rule"
  shows "fst (resolve_spec strict (lint_types a) (rg_entries (li_registry a)) (load_handle m (nd_value v)) (ap_targets (at_params (nd_attr v))))"
proof (rule ccontr)
  let ?h = "load_handle m (nd_value v)" and ?ts = "ap_targets (at_params (nd_attr v))"
  assume bad: "\<not> ?thesis"
  then have set: "dmi_lint_link_is_set ?h" by (auto simp: resolve_spec_def dmi_lint_link_is_set_def)
  have n: "n < length (rg_entries (li_registry a))" and wf: "registry_wf (li_registry a)" using ok by (simp_all add: lint_ok_def)
  have result: "lint_lookup a ?h = find (\<lambda>n. en_handle (lint_entity a n) = ?h) [0..<length (rg_entries (li_registry a))]"
    using lint_lookup_result [OF wf, of ?h] set by (simp add: dmi_lint_link_is_set_def)
  have same: "lint_ok (Some n) l" "li_handler l" "lint_nodes l n = Some (m, nodes)" "lint_lookup l ?h = lint_lookup a ?h"
    if "lint_keeps a l" for l
    using that lint_keeps_ok [OF that ok] handler lint_nodes_kept [OF that n] nodes(1) lint_lookup_kept [OF that wf] by (simp_all add: lint_keeps_def)
  show False
  proof (cases "lint_lookup a ?h")
    case None
    obtain l where l: "lint_keeps a l" "li_rule l = Some (rule_head dmi_lint_link_dangling_rule)" "extends (dmi_lint_link_dangling l n) b"
      using made [of dmi_lint_link_dangling_rule] by (auto simp: dmi_lint_link_dangling_rule_def of_entity_def)
    from dangling_reported [OF same(1) [OF l(1)] l(2) same(2,3) [OF l(1)] nodes(2,3) set] None same(4) [OF l(1)]
    show False using clean extends_issues [OF l(3)] by auto
  next
    case (Some t)
    obtain targets where targets: "?ts = Some targets" "\<not> (\<exists>k\<in>set targets. entity_kind (lint_types a) (lint_entity a t) = Some k)"
      using bad Some result set by (cases ?ts) (auto simp: resolve_spec_def dmi_lint_link_is_set_def split: if_splits)
    obtain l where l: "lint_keeps a l" "li_rule l = Some (rule_head dmi_lint_link_wrong_type_rule)" "extends (dmi_lint_link_wrong_type l n) b"
      using made [of dmi_lint_link_wrong_type_rule] by (auto simp: dmi_lint_link_wrong_type_rule_def of_entity_def)
    have marked: "registry_marked (li_registry a) (li_registry l)" "li_context l = li_context a" using l(1) by (simp_all add: lint_keeps_def)
    have t: "t < length (rg_entries (li_registry a))" by (rule lint_lookup_some [OF wf Some])
    have kind: "\<not> (\<exists>k\<in>set targets. entity_kind (lint_types l) (lint_entity l t) = Some k)"
      using targets(2) registry_marked_kind [OF wf marked(1) t] marked(2) by simp
    have found: "lint_lookup l ?h = Some t" using Some same(4) [OF l(1)] by simp
    from wrong_type_reported [OF same(1) [OF l(1)] l(2) same(2,3) [OF l(1)] nodes(2,3) set found targets(1) kind]
    show False using clean extends_issues [OF l(3)] by auto
  qed
qed

text \<open>Running the check: what \<open>lint_run\<close> starts from, and what comes of it.\<close>

lemma lint_start_state [simp]:
  "li_context (lint_start cx reg q options handler) = cx" "li_registry (lint_start cx reg q options handler) = reg"
  "li_queue (lint_start cx reg q options handler) = q" "li_handler (lint_start cx reg q options handler) = handler"
  "li_rule (lint_start cx reg q options handler) = None" "li_issues (lint_start cx reg q options handler) = []"
  "li_options (lint_start cx reg q options handler) = (case options of Some options \<Rightarrow> options | None \<Rightarrow> default_options)"
  "li_totals (lint_start cx reg q options handler) = no_totals"
  by (simp_all add: lint_start_def Let_def)

lemma dmi_lint_run:
  "dmi_lint type_rules room cx (Some reg) q options handler =
    (if lc_table cx = None then (False, [], Some reg, raise_error q DMI_ERROR_STATE_INVALID)
     else if \<not> room then (False, [], Some reg, raise_error q DMI_ERROR_OUT_OF_MEMORY)
     else let lint = lint_run dmi_lint_rule_list type_rules (lint_start cx reg q options handler)
          in (True, li_issues lint, Some (li_registry lint), li_queue lint))"
  by (simp add: dmi_lint_def dmi_lint_with_def)

lemma link_rules_checked:
  assumes "rule \<in> {dmi_lint_link_dangling_rule, dmi_lint_link_wrong_type_rule}"
    and "\<forall>f. lo_rule_filter (li_options a) = Some f \<longrightarrow> f (rule_head dmi_lint_link_dangling_rule) \<and> f (rule_head dmi_lint_link_wrong_type_rule)"
  shows "rule \<in> set dmi_lint_rule_list" and "lr_scope rule = DMI_LINT_SCOPE_ENTITY" and "\<exists>check. lr_check rule = Some check" and "dmi_lint_enabled a rule"
proof -
  show "rule \<in> set dmi_lint_rule_list" using assms(1) unfolding dmi_lint_rule_list_def by auto
  show "lr_scope rule = DMI_LINT_SCOPE_ENTITY" and "\<exists>check. lr_check rule = Some check" and "dmi_lint_enabled a rule"
    using assms by (auto simp: dmi_lint_link_dangling_rule_def dmi_lint_link_wrong_type_rule_def dmi_lint_enabled_def rule_head_def
        dmi_lint_rule_severity_def dmi_lint_rule_t.defs split: option.split)
qed

text \<open>
  C15. The check reports nothing but what its rules find: first what the rules of the entry point say, then
  what those of structures and those of the type of the structure say of each structure in the order of the
  table, then what those of the table say. Every issue comes from a rule which applies, bears the severity
  that rule has in the profile asked for and names the structure it was found in; the table and its structures stay as they are but for
  the mark of the strings looked at. Without a table or memory nothing is reported and the check fails.
\<close>

theorem lint_reports_in_order:
  fixes cx :: dmi_lint_context
  assumes "type_rules_contract type_rules" and "registry_wf reg"
    and "dmi_lint type_rules room cx (Some reg) q options handler = (ok, issues, reg', q')"
  defines "a \<equiv> lint_start cx reg q options handler"
  shows "(ok \<longleftrightarrow> lc_table cx \<noteq> None \<and> room) \<and> (\<not> ok \<longrightarrow> issues = [] \<and> reg' = Some reg) \<and>
    (\<exists>r. reg' = Some r \<and> registry_wf r \<and> registry_marked reg r) \<and>
    (\<exists>E S T. issues = E @ concat S @ T \<and>
      list_all (reported (scope_rules dmi_lint_rule_list DMI_LINT_SCOPE_ENTRY) a None) E \<and>
      (ok \<longrightarrow> list_all2 (\<lambda>n new. list_all (reported (scope_rules dmi_lint_rule_list DMI_LINT_SCOPE_ENTITY @ own_rules type_rules (rg_entries reg ! n)) a (Some n)) new)
        [0..<length (rg_entries reg)] S) \<and>
      list_all (reported (scope_rules dmi_lint_rule_list DMI_LINT_SCOPE_TABLE) a None) T)"
proof (cases "lc_table cx \<noteq> None \<and> room")
  case False
  then have "\<not> ok" "issues = []" "reg' = Some reg" using assms(3) by (auto simp: dmi_lint_run split: if_splits)
  then show ?thesis using False assms(2) by (intro conjI exI [of _ "[]"]) simp_all
next
  case True
  have "registry_wf (li_registry a)" "li_rule a = None" using assms(2) by (simp_all add: a_def)
  note run = library.run_reports [OF assms(1) this]
  have out: "ok" "issues = li_issues (lint_run dmi_lint_rule_list type_rules a)" "reg' = Some (li_registry (lint_run dmi_lint_rule_list type_rules a))"
    using assms(3) True by (auto simp: dmi_lint_run Let_def a_def)
  have "registry_wf (li_registry (lint_run dmi_lint_rule_list type_rules a)) \<and> registry_marked reg (li_registry (lint_run dmi_lint_rule_list type_rules a))"
    using run [THEN conjunct1] by (simp add: lint_keeps_def dmi_lint_collect_def a_def)
  then show ?thesis using run [THEN conjunct2] out True by (simp add: a_def)
qed

text \<open>
  C14. A table the check finds no dangling reference in and no reference to a structure of another type
  links: every structure of it whose references are laid out as those of the library resolves
  all of them, as long as there is memory for the arrays of references.
\<close>

theorem lint_clean_links:
  fixes cx :: dmi_lint_context
  assumes "type_rules_contract type_rules" and "registry_wf reg" and "lc_table cx \<noteq> None"
    and "\<forall>o' f. options = Some o' \<longrightarrow> lo_rule_filter o' = Some f \<longrightarrow>
      f (rule_head dmi_lint_link_dangling_rule) \<and> f (rule_head dmi_lint_link_wrong_type_rule)"
    and "dmi_lint type_rules True cx (Some reg) q options True = (True, issues, reg', q')"
    and "\<forall>i\<in>set issues. is_rule i \<noteq> rule_head dmi_lint_link_dangling_rule \<and> is_rule i \<noteq> rule_head dmi_lint_link_wrong_type_rule"
    and "n < length (rg_entries reg)" and "en_spec (rg_entries reg ! n) = Some spec" and "en_info (rg_entries reg ! n) = Some m"
    and "lc_attributes cx spec = Some attrs" and "links_apart m attrs" and "handles_packed m attrs"
    and "le_attributes env = lc_attributes cx" and "le_types env = cx_type_map (lc_context cx)"
    and "\<forall>node\<in>set (handle_nodes m attrs 0). node_granted env m node"
  shows "fst (dmi_attributes_link env n reg q2)"
proof -
  let ?a = "lint_start cx reg q options True" and ?b = "lint_run dmi_lint_rule_list type_rules (lint_start cx reg q options True)"
  have issues: "issues = li_issues ?b" using assms(3,5) by (auto simp: dmi_lint_run Let_def)
  have ok: "lint_ok (Some n) (dmi_lint_collect ?a)" using assms(2,7) by (simp add: lint_ok_def dmi_lint_collect_def)
  have nodes: "lint_nodes (dmi_lint_collect ?a) n = Some (m, structure_nodes m attrs 0)"
    using assms(8-10) by (simp add: lint_nodes_def dmi_lint_collect_def)
  have made: "\<exists>l. lint_keeps (dmi_lint_collect ?a) l \<and> li_rule l = Some (rule_head rule) \<and> extends (the (lr_check rule) l (Some n)) ?b"
    if rule: "rule \<in> {dmi_lint_link_dangling_rule, dmi_lint_link_wrong_type_rule}" for rule
  proof -
    have "\<forall>f. lo_rule_filter (li_options ?a) = Some f \<longrightarrow>
        f (rule_head dmi_lint_link_dangling_rule) \<and> f (rule_head dmi_lint_link_wrong_type_rule)"
      using assms(4) by (simp add: default_options_def split: option.split)
    note r = link_rules_checked [OF rule this]
    obtain check where check: "lr_check rule = Some check" using r(3) by blast
    show ?thesis using library.run_makes_check [OF assms(1) _ _ r(1,2) check r(4)] assms(2,7) by (simp add: check)
  qed
  have resolves: "fst (resolve_spec (le_strict env) (le_types env) (rg_entries reg) (load_handle m (nd_value v)) (ap_targets (at_params (nd_attr v))))"
    if "v \<in> set (structure_nodes m attrs 0)" "at_type (nd_attr v) = DMI_ATTRIBUTE_TYPE_HANDLE" for v
    using clean_resolves [OF ok _ nodes that made, of "le_strict env"] assms(6,14) issues by (simp add: dmi_lint_collect_def)
  have "node_success env (rg_entries reg) m node" if node: "node \<in> set (handle_nodes m attrs 0)" for node
  proof -
    have packed: "dmi_attribute_is_array (nd_attr node) \<longrightarrow> mr_size (at_value (nd_attr node)) = 2"
      using assms(12) node by (simp add: handles_packed_def list_all_iff)
    have "fst (node_resolves env (rg_entries reg) node (node_handle m node i))" if i: "i < node_count m node" for i
    proof -
      obtain v where "v \<in> set (structure_nodes m attrs 0)" "nd_attr v = nd_attr node" "nd_value v = node_base m node + i * 2"
        using handle_values [OF node packed i] by blast
      then show ?thesis using resolves [of v] handle_nodes_type [OF node] by (simp add: node_resolves_def node_handle_def)
    qed
    then show ?thesis using assms(15) node by (simp add: node_success_def list_all_iff)
  qed
  then have all: "list_all (node_success env (rg_entries reg) m) (handle_nodes m attrs 0)" by (simp add: list_all_iff)
  obtain ok reg1 q1 where run: "dmi_attributes_link env n reg q2 = (ok, reg1, q1)" by (metis prod_cases3)
  have entry: "le_attributes env spec = Some attrs" using assms(10,13) by simp
  obtain reg2 m1 where "dmi_attributes_link_walk (dmi_attributes_link_handle env) attrs ((reg, q2), m) = (ok, (reg2, q1), m1)"
    using link_with_run [OF assms(8,9) entry run [unfolded dmi_attributes_link_def]] .
  from link_walk_result [OF assms(2,11) this] show ?thesis using all run by simp
qed

section \<open>Where strings are\<close>

lemma strings_at:
  "k < length ss \<Longrightarrow> take (length (ss ! k) + 1) (drop (sum_list (map (\<lambda>s. length s + 1) (take k ss))) (print_strings ss)) = ss ! k @ [0]"
proof (induction k arbitrary: ss)
  case 0
  then obtain s t where ss: "ss = s # t" by (cases ss) auto
  have "print_strings ss = (s @ [0]) @ (concat (map (\<lambda>s. s @ [0]) t) @ [0])" by (simp add: ss print_strings_def)
  then show ?case by (simp add: ss)
next
  case (Suc k)
  then obtain s t where ss: "ss = s # t" by (cases ss) auto
  have "print_strings ss = (s @ [0]) @ print_strings t" by (simp add: ss print_strings_def)
  then have "drop (length s + 1 + j) (print_strings ss) = drop j (print_strings t)" for j by simp
  from this [of "sum_list (map (\<lambda>s. length s + 1) (take k t))"] show ?case using Suc by (simp add: ss add.commute add.left_commute)
qed

text \<open>
  C36. The offset the check reports of a string of a structure which has been read from the table is the offset of that
  string in the table: the bytes from there on are the string and the zero which ends it.
\<close>

theorem lint_string_offset_points:
  assumes "lc_table (li_context lint) = Some table" and "en_buffer (lint_entity lint n) = table" and "entity_in_buffer (lint_entity lint n)"
    and "1 \<le> num" and "num \<le> en_string_count (lint_entity lint n)"
  shows "\<exists>offset. dmi_lint_string_offset lint n num = Some offset \<and>
    offset + length (se_raw (en_strings (lint_entity lint n) ! (num - 1))) < length (buffer_bytes table) \<and>
    take (length (se_raw (en_strings (lint_entity lint n) ! (num - 1))) + 1) (drop offset (buffer_bytes table)) =
      se_raw (en_strings (lint_entity lint n) ! (num - 1)) @ [0]"
proof -
  let ?e = "lint_entity lint n" and ?B = "buffer_bytes table"
  let ?ss = "map se_raw (en_strings (lint_entity lint n))" and ?k = "num - 1"
  have count: "en_string_count ?e = length (en_strings ?e)" using assms(3) by (simp add: entity_in_buffer_def)
  then have k: "?k < length ?ss" using assms(4,5) by simp
  then have area: "print_strings ?ss = entity_strings_set ?e" using assms(3) by (auto simp: entity_in_buffer_def split: if_splits)
  have set: "entity_strings_set ?e = take (en_extra_length ?e) (drop (en_offset ?e + en_body_length ?e) ?B)"
    using assms(2) by (simp add: entity_strings_set_def)
  let ?j = "sum_list (map (\<lambda>s. length s + 1) (take ?k ?ss))"
  let ?o = "en_offset ?e + en_body_length ?e + ?j"
  have offset: "dmi_lint_string_offset lint n num = Some ?o"
    using assms count by (simp add: dmi_lint_string_offset_def dmi_lint_entity_offset_def take_map comp_def Let_def)
  have here: "take (length (?ss ! ?k) + 1) (drop ?j (take (en_extra_length ?e) (drop (en_offset ?e + en_body_length ?e) ?B))) = ?ss ! ?k @ [0]"
    using strings_at [OF k] by (simp add: area set)
  define D where "D = drop (?j + (en_offset ?e + en_body_length ?e)) ?B"
  have "take (length (?ss ! ?k) + 1) (take (en_extra_length ?e - ?j) D) = ?ss ! ?k @ [0]"
    using here by (simp add: drop_take D_def)
  then have short: "take (min (length (?ss ! ?k) + 1) (en_extra_length ?e - ?j)) D = ?ss ! ?k @ [0]" by (simp only: take_take)
  then have "length (take (min (length (?ss ! ?k) + 1) (en_extra_length ?e - ?j)) D) = length (?ss ! ?k) + 1" by simp
  then have len: "min (length (?ss ! ?k) + 1) (en_extra_length ?e - ?j) = length (?ss ! ?k) + 1" "length (?ss ! ?k) + 1 \<le> length D"
    unfolding length_take by linarith+
  have "take (length (?ss ! ?k) + 1) (drop ?o ?B) = ?ss ! ?k @ [0]" using short len(1) by (simp add: D_def add.commute)
  then show ?thesis using offset len(2) k by (auto simp: D_def)
qed

section \<open>What is counted\<close>

lemma add_totals:
  "lt_entity_count (foldl (\<lambda>totals n. add_total reg n totals) totals ns) = lt_entity_count totals + length ns"
  "lt_type_counts (foldl (\<lambda>totals n. add_total reg n totals) totals ns) type =
    lt_type_counts totals type + length (filter (\<lambda>n. en_type_id (rg_entries reg ! n) = type) ns)"
  "lt_terminator (foldl (\<lambda>totals n. add_total reg n totals) totals ns) =
    (if lt_terminator totals \<noteq> None then lt_terminator totals else find (\<lambda>n. en_type_id (rg_entries reg ! n) = DMI_TYPE_ID_END_OF_TABLE) ns)"
  by (induction ns arbitrary: totals) (auto simp: add_total_def Let_def)

lemma filter_entries: "length (filter (\<lambda>n. P (xs ! n)) [0..<length xs]) = length (filter P xs)"
proof -
  have "length (filter P (map ((!) xs) [0..<length xs])) = length (filter (\<lambda>n. P (xs ! n)) [0..<length xs])"
    by (simp add: filter_map comp_def del: map_nth)
  then show ?thesis by (simp add: map_nth)
qed

lemma collected:
  assumes "li_totals lint = no_totals"
  shows "lt_type_counts (li_totals (dmi_lint_collect lint)) type = length (filter (\<lambda>e. en_type_id e = type) (rg_entries (li_registry lint)))"
    and "lt_terminator (li_totals (dmi_lint_collect lint)) =
      find (\<lambda>n. en_type_id (lint_entity lint n) = DMI_TYPE_ID_END_OF_TABLE) [0..<length (rg_entries (li_registry lint))]"
  using assms filter_entries [of "\<lambda>e. en_type_id e = type" "rg_entries (li_registry lint)"]
  by (simp_all add: dmi_lint_collect_def lint_visits_def visit_all_upt add_totals no_totals_def)

section \<open>Types which are missing\<close>

definition missing_of :: "dmi_lint_t \<Rightarrow> dmi_lint_rule_t \<Rightarrow> dmi_type_id_t \<Rightarrow> dmi_lint_issue_t" where
  "missing_of lint rule type =
    \<lparr>is_rule = rule, is_severity = dmi_lint_rule_severity rule (lo_profile (li_options lint)), is_handle = DMI_HANDLE_INVALID,
     is_type = DMI_TYPE_ID_INVALID, is_attribute = None, is_offset = None,
     is_message = Lint_message (STR ''table has no structure of type %d (%s)'') [Lint_number type, Lint_text (dmi_type_name lint type)]\<rparr>"

definition missing_types :: "dmi_lint_t \<Rightarrow> (dmi_entity_params \<Rightarrow> bool) \<Rightarrow> dmi_type_id_t list \<Rightarrow> dmi_type_id_t list" where
  "missing_types lint P types =
    filter (\<lambda>type. lt_type_counts (li_totals lint) type = 0 \<and> (case lint_type_spec lint type of None \<Rightarrow> False | Some spec \<Rightarrow> P (sp_params spec))) types"

lemma type_name_same: "dmi_type_name (lint\<lparr>li_issues := xs\<rparr>) type = dmi_type_name lint type"
  by (auto simp: dmi_type_name_def lint_type_spec_def split: option.split)

lemma missing_issue_made:
  assumes "li_rule lint = Some rule" and "li_handler lint"
  shows "missing_issue (lint\<lparr>li_issues := xs\<rparr>) type =
    (if lt_type_counts (li_totals lint) type = 0 then lint\<lparr>li_issues := xs @ [missing_of lint rule type]\<rparr> else lint\<lparr>li_issues := xs\<rparr>)"
  using assms by (simp add: missing_issue_def dmi_lint_issue_def missing_of_def type_name_same)

lemma types_loop_missing:
  assumes rule: "li_rule lint = Some rule" "li_handler lint"
    and check: "\<And>xs type params. check (lint\<lparr>li_issues := xs\<rparr>) type params = (if P params then missing_issue (lint\<lparr>li_issues := xs\<rparr>) type else lint\<lparr>li_issues := xs\<rparr>)"
  shows "foldl (\<lambda>lint type. case lint_type_spec lint type of None \<Rightarrow> lint | Some spec \<Rightarrow> check lint type (sp_params spec)) (lint\<lparr>li_issues := xs\<rparr>) types =
    lint\<lparr>li_issues := xs @ map (missing_of lint rule) (missing_types lint P types)\<rparr>"
proof (induction types arbitrary: xs)
  case (Cons type types)
  have spec: "lint_type_spec (lint\<lparr>li_issues := xs\<rparr>) type = lint_type_spec lint type" by (simp add: lint_type_spec_def)
  show ?case using Cons [of xs] Cons [of "xs @ [missing_of lint rule type]"]
    by (simp add: spec check missing_issue_made [OF rule] missing_types_def split: option.split)
qed (simp add: missing_types_def)

definition required_in :: "dmi_version_t \<Rightarrow> dmi_entity_params \<Rightarrow> bool" where
  "required_in version params \<longleftrightarrow> ep_required_from params \<noteq> 0 \<and> ep_required_from params \<le> version \<and>
     (ep_required_till params = 0 \<or> version \<le> ep_required_till params)"

definition recommended_in :: "dmi_version_t \<Rightarrow> dmi_entity_params \<Rightarrow> bool" where
  "recommended_in version params \<longleftrightarrow> ep_recommended_from params \<noteq> 0 \<and> ep_recommended_from params \<le> version"

lemma check_required_made: "check_required (l\<lparr>li_issues := xs\<rparr>) type params =
    (if required_in (li_version l) params then missing_issue (l\<lparr>li_issues := xs\<rparr>) type else l\<lparr>li_issues := xs\<rparr>)"
  by (auto simp: check_required_def required_in_def not_less not_le)

lemma check_recommended_made: "check_recommended (l\<lparr>li_issues := xs\<rparr>) type params =
    (if recommended_in (li_version l) params then missing_issue (l\<lparr>li_issues := xs\<rparr>) type else l\<lparr>li_issues := xs\<rparr>)"
  by (auto simp: check_recommended_def recommended_in_def not_less not_le)

text \<open>
  C35. Of the types of structures the context knows, the check reports as missing exactly those which the version asked
  for requires, or recommends, and of which the table has no structure, each of them once and in the order of the types.
\<close>

theorem lint_missing_exact:
  fixes cx :: dmi_lint_context
  assumes "lint_keeps (dmi_lint_collect (lint_start cx reg q options True)) l" and "li_rule l = Some rule"
  defines "missing P \<equiv> map (missing_of l rule) (filter (\<lambda>type. (\<forall>e\<in>set (rg_entries reg). en_type_id e \<noteq> type) \<and>
      (\<exists>spec. lint_type_spec l type = Some spec \<and> P (sp_params spec))) [0..DMI_TYPE_ID_MAX])"
  shows "dmi_lint_table_required l = l\<lparr>li_issues := li_issues l @ missing (required_in (li_version l))\<rparr> \<and>
    dmi_lint_table_recommended l = l\<lparr>li_issues := li_issues l @ missing (recommended_in (li_version l))\<rparr>"
proof -
  have handler: "li_handler l" and totals: "li_totals l = li_totals (dmi_lint_collect (lint_start cx reg q options True))"
    using assms(1) by (simp_all add: lint_keeps_def dmi_lint_collect_def lint_start_def Let_def)
  have counts: "lt_type_counts (li_totals l) type = 0 \<longleftrightarrow> (\<forall>e\<in>set (rg_entries reg). en_type_id e \<noteq> type)" for type
    using collected(1) [of "lint_start cx reg q options True" type] by (simp add: totals lint_start_def Let_def filter_empty_conv)
  have types: "missing P = map (missing_of l rule) (missing_types l P [0..DMI_TYPE_ID_MAX])" for P
    unfolding missing_def missing_types_def counts by (rule arg_cong [OF filter_cong]) (auto split: option.split)
  show ?thesis
    using types_loop_missing [where P = "required_in (li_version l)" and xs = "li_issues l", OF assms(2) handler check_required_made]
      types_loop_missing [where P = "recommended_in (li_version l)" and xs = "li_issues l", OF assms(2) handler check_recommended_made]
    by (simp add: dmi_lint_table_required_def dmi_lint_table_recommended_def types_loop_def types)
qed

section \<open>Where the table stops\<close>

lemma laid_out_end:
  "laid_out b off es stop \<Longrightarrow> foldl (\<lambda>o' e. if en_offset e + en_total_length e > o' then en_offset e + en_total_length e else o') off es = stop"
proof (induction es arbitrary: off)
  case (Cons e es)
  then have "off < en_offset e + en_total_length e" using entity_in_buffer_fields(2) [of e] by auto
  then show ?case using Cons by auto
qed simp

lemma foldl_nth: "foldl (\<lambda>s n. f s (xs ! n)) s [0..<length xs] = foldl f s xs"
  using foldl_map [of f s "(!) xs" "[0..<length xs]"] by (simp add: map_nth)

lemma walk_end_stop:
  assumes "laid_out table 0 (rg_entries reg) stop" and "registry_marked reg (li_registry l)" and "lc_table (li_context l) = Some table"
  shows "walk_end l = stop"
proof -
  let ?f = "\<lambda>o' e. if en_offset e + en_total_length e > o' then en_offset e + en_total_length e else (o' :: nat)"
  have len: "length (rg_entries (li_registry l)) = length (rg_entries reg)" using assms(2) by simp
  have step: "walk_end_step l o' n = ?f o' (rg_entries reg ! n)" if "n \<in> set [0..<length (rg_entries reg)]" for o' n
  proof -
    have n: "n < length (rg_entries reg)" using that by simp
    have same: "same_but_used (rg_entries reg ! n) (lint_entity l n)" by (rule registry_marked_nth [OF assms(2) n])
    have "en_buffer (rg_entries reg ! n) = table" using laid_out_bounds [OF assms(1)] n by (auto simp: Ball_def)
    then show ?thesis using same assms(3)
      by (cases "rg_entries reg ! n"; cases "lint_entity l n") (auto simp: same_but_used_def walk_end_step_def dmi_lint_entity_offset_def)
  qed
  have "walk_end l = foldl (\<lambda>o' n. ?f o' (rg_entries reg ! n)) 0 [0..<length (rg_entries reg)]"
    unfolding walk_end_def lint_visits_def visit_all_upt len by (rule foldl_cong) (use step in auto)
  then show ?thesis using laid_out_end [OF assms(1)] foldl_nth [of ?f "rg_entries reg" 0] by simp
qed

text \<open>A header whose length is neither none nor that of a header.\<close>

definition short_header :: "byte list \<Rightarrow> bool" where
  "short_header bs \<longleftrightarrow> 4 \<le> length bs \<and> bs ! 1 \<noteq> 0 \<and> bs ! 1 < 4"

lemma find_stop_here:
  assumes table: "buffer_wf table" "lc_table (li_context l) = Some table" and none: "lt_terminator (li_totals l) = None"
    and stop: "walk_end l = stop" "stop \<le> length (buffer_bytes table)"
  shows "dmi_lint_table_find_stop l =
    (if short_header (drop stop (buffer_bytes table)) then DMI_LINT_TABLE_STOP_SHORT_LENGTH stop (take 4 (drop stop (buffer_bytes table)))
     else DMI_LINT_TABLE_STOP_NONE)"
proof -
  have len: "length (buffer_bytes table) = unat (buf_length table)" by (rule buffer_length_bytes [OF table(1)])
  have "unat (of_nat stop :: size_t) = stop" using stop(2) buffer_bytes_bound [OF table(1)] by (intro unat_of_nat_size) linarith
  then have left: "unat (buf_length table - of_nat stop) = length (buffer_bytes table) - stop"
    using stop(2) len by (simp add: unat_sub word_le_nat_alt)
  have few: "buf_length table - of_nat stop < 4 \<longleftrightarrow> length (buffer_bytes table) - stop < 4"
    by (simp add: word_less_nat_alt left)
  show ?thesis
  proof (cases "length (buffer_bytes table) - stop < 4")
    case True
    then show ?thesis using few by (simp add: dmi_lint_table_find_stop_def table(2) none stop(1) short_header_def Let_def)
  next
    case False
    have four: "stop + 4 \<le> length (buffer_bytes table)" "0 < length (buffer_bytes table)" using False by linarith+
    have header: "dmi_buffer_at table (of_nat stop) 4 = Some (take 4 (drop stop (buffer_bytes table)))"
      using buffer_at_bytes [OF table(1) four] by simp
    show ?thesis using False few header
      by (auto simp: dmi_lint_table_find_stop_def table(2) none stop(1) short_header_def Let_def not_le not_less)
  qed
qed

lemma unmarked_end:
  assumes "\<forall>e\<in>set (butlast es). en_type_id e \<noteq> DMI_TYPE_ID_END_OF_TABLE" and "\<not> marked_end es"
  shows "find (\<lambda>n. en_type_id (es ! n) = DMI_TYPE_ID_END_OF_TABLE) [0..<length es] = None"
proof -
  have "en_type_id e \<noteq> DMI_TYPE_ID_END_OF_TABLE" if e: "e \<in> set es" for e
  proof (cases es rule: rev_cases)
    case (snoc xs x)
    then show ?thesis using assms e by (auto simp: marked_end_def)
  qed (use e in simp)
  then show ?thesis by (auto simp: find_None_iff)
qed

lemma fault_short: "entity_fault bs = Some DMI_ERROR_ENTITY_LENGTH_INVALID \<longleftrightarrow> 6 \<le> length bs \<and> short_header bs"
proof -
  have "1 \<le> unat (bs ! 1) \<and> unat (bs ! 1) < 4 \<longleftrightarrow> bs ! 1 \<noteq> 0 \<and> bs ! 1 < 4"
    by (simp add: word_less_nat_alt unat_gt_0 Suc_le_eq)
  then show ?thesis by (auto simp: entity_fault_def short_header_def Let_def)
qed

text \<open>
  C16. What has kept the table from being read to its end is reported exactly once: as an invalid header, at its offset,
  if the bytes the scan has stopped at are a header which declares an impossible length, and as a table which ends in the
  middle of a structure otherwise; the other of the two checks has nothing to say.
\<close>

theorem lint_stop_reported_once:
  fixes cx :: dmi_lint_context
  assumes "buffer_wf table" and "queue_wf q0" and "dmi_registry_create mc qc capacity = (Some reg0, q1)"
    and "\<forall>i j. mem i j" and "\<forall>i. put_mem i"
    and "dmi_registry_scan strict limit mem put_mem table q0 reg0 = (True, reg, q2)" and "\<not> scan_complete limit (rg_entries reg)"
    and "lc_table cx = Some table"
    and "lint_keeps (dmi_lint_collect (lint_start cx reg q options True)) l" and "li_rule l = Some rule"
  shows "\<exists>stop reason. laid_out table 0 (rg_entries reg) stop \<and> entity_fault (drop stop (buffer_bytes table)) = Some reason \<and>
    (reason = DMI_ERROR_ENTITY_LENGTH_INVALID \<longrightarrow> short_header (drop stop (buffer_bytes table))) \<and>
    (if short_header (drop stop (buffer_bytes table))
     then dmi_lint_table_truncated l = l \<and>
       (\<exists>i. li_issues (dmi_lint_table_invalid_header l) = li_issues l @ [i] \<and> is_rule i = rule \<and> is_offset i = Some stop)
     else dmi_lint_table_invalid_header l = l \<and>
       (\<exists>i. li_issues (dmi_lint_table_truncated l) = li_issues l @ [i] \<and> is_rule i = rule))"
proof -
  note c = registry_create_wf [OF assms(3)]
  note r = registry_scan_result(1) [OF assms(1) c(1-3) assms(2,6), unfolded scan_result_def]
  have status: "rg_status reg AND DMI_REGISTRY_STATUS_TRUNCATED \<noteq> 0"
    using r assms(7) by (auto simp: DMI_REGISTRY_STATUS_TRUNCATED_def)
  obtain stop where laid: "laid_out table 0 (rg_entries reg) stop" and before: "\<forall>e\<in>set (butlast (rg_entries reg)). en_type_id e \<noteq> DMI_TYPE_ID_END_OF_TABLE"
    and fault: "entity_fault (drop stop (buffer_bytes table)) \<noteq> None"
    using r assms(4,5,7) by (auto split: option.splits)
  have kept: "li_context l = cx" "li_handler l" "li_totals l = li_totals (dmi_lint_collect (lint_start cx reg q options True))"
      "registry_marked reg (li_registry l)"
    using assms(9) by (simp_all add: lint_keeps_def dmi_lint_collect_def lint_start_def Let_def)
  have "\<not> marked_end (rg_entries reg)" using assms(7) by (simp add: scan_complete_def)
  then have none: "lt_terminator (li_totals l) = None"
    using collected(2) [of "lint_start cx reg q options True"] unmarked_end [OF before] by (simp add: kept(3) lint_start_def Let_def)
  have here: "lc_table (li_context l) = Some table" using assms(8) kept(1) by simp
  note find = find_stop_here [OF assms(1) here none walk_end_stop [OF laid kept(4) here] laid_out_stop [OF laid]]
  have same: "rg_status (li_registry l) = rg_status reg" using kept(4) by (cases "li_registry l"; cases reg) (simp add: registry_marked_def)
  obtain reason where reason: "entity_fault (drop stop (buffer_bytes table)) = Some reason" using fault by auto
  show ?thesis
  proof (intro exI conjI)
    show "laid_out table 0 (rg_entries reg) stop" by (rule laid)
    show "entity_fault (drop stop (buffer_bytes table)) = Some reason" by (rule reason)
    show "reason = DMI_ERROR_ENTITY_LENGTH_INVALID \<longrightarrow> short_header (drop stop (buffer_bytes table))"
      using fault_short [of "drop stop (buffer_bytes table)"] reason by auto
    show "if short_header (drop stop (buffer_bytes table))
     then dmi_lint_table_truncated l = l \<and>
       (\<exists>i. li_issues (dmi_lint_table_invalid_header l) = li_issues l @ [i] \<and> is_rule i = rule \<and> is_offset i = Some stop)
     else dmi_lint_table_invalid_header l = l \<and>
       (\<exists>i. li_issues (dmi_lint_table_truncated l) = li_issues l @ [i] \<and> is_rule i = rule)"
      using find kept(2) assms(10) status same
      by (simp add: dmi_lint_table_truncated_def dmi_lint_table_invalid_header_def dmi_lint_issue_def)
  qed
qed

text \<open>
  C37. A check of a table which has been read without an entry point, as a backend reads it which knows where the
  table is, reports that the entry point declares no address of the table, whatever the table and the profile are, unless that rule
  is left out: of the rules of the entry point this one does not look whether there is one.
\<close>

theorem lint_no_entry_reported:
  fixes cx :: dmi_lint_context
  assumes "type_rules_contract type_rules" and "registry_wf reg" and "lc_table cx \<noteq> None" and "lc_entry cx = None" and "lc_entry_spec cx = None"
    and "table_area_address (lc_state cx) = 0"
    and "\<forall>o' f. options = Some o' \<longrightarrow> lo_rule_filter o' = Some f \<longrightarrow> f (rule_head dmi_lint_entry_table_addr_rule)"
    and "dmi_lint type_rules True cx (Some reg) q options True = (ok, issues, reg', q')"
  shows "\<exists>i\<in>set issues. is_rule i = rule_head dmi_lint_entry_table_addr_rule \<and>
    is_message i = Lint_message (STR ''entry point declares no address of the table'') []"
proof -
  let ?rule = dmi_lint_entry_table_addr_rule and ?a = "lint_start cx reg q options True"
  have issues: "issues = li_issues (lint_run dmi_lint_rule_list type_rules ?a)" using assms(3,8) by (auto simp: dmi_lint_run Let_def)
  have enabled: "dmi_lint_enabled ?a ?rule"
    using assms(7) by (auto simp: dmi_lint_enabled_def dmi_lint_entry_table_addr_rule_def rule_head_def dmi_lint_rule_severity_def
        dmi_lint_rule_t.defs default_options_def split: option.split)
  have rule: "?rule \<in> set dmi_lint_rule_list" "lr_scope ?rule = DMI_LINT_SCOPE_ENTRY" "lr_check ?rule = Some (of_table dmi_lint_entry_table_addr)"
    unfolding dmi_lint_rule_list_def by (simp_all add: dmi_lint_entry_table_addr_rule_def)
  obtain l where l: "lint_keeps (dmi_lint_collect ?a) l" "li_rule l = Some (rule_head ?rule)"
    "extends (dmi_lint_entry_table_addr l) (lint_run dmi_lint_rule_list type_rules ?a)"
    using library.run_makes_entry_check [OF assms(1) _ _ rule enabled] assms(2) by (auto simp: of_table_def)
  have "li_context l = cx" "li_handler l" using l(1) by (simp_all add: lint_keeps_def dmi_lint_collect_def)
  then have "\<exists>i\<in>set (li_issues (dmi_lint_entry_table_addr l)). is_rule i = rule_head ?rule \<and>
      is_message i = Lint_message (STR ''entry point declares no address of the table'') []"
    using l(2) assms(6) by (simp add: dmi_lint_entry_table_addr_def dmi_lint_issue_def)
  then show ?thesis using extends_issues [OF l(3)] issues by blast
qed

section \<open>An example\<close>

text \<open>The table of a structure which names itself, checked for its references alone.\<close>

definition lint_state :: dmi_context_state where
  "lint_state = \<lparr>entry_version = 0, entry_revision = 0, smbios_version = 0x030000, address_size = 0, entry_length = 0, entity_count = 0,
     entity_max_size = 0, table_area_address = 0, table_area_size = 0, table_area_max_size = 0\<rparr>"

definition required_spec :: dmi_entity_spec where
  "required_spec = example_spec\<lparr>sp_params := (sp_params example_spec)\<lparr>ep_required_from := 0x020000\<rparr>\<rparr>"

definition lint_context :: "dmi_buffer \<Rightarrow> dmi_lint_context" where
  "lint_context table =
    \<lparr>lc_context = example_context\<lparr>cx_type_map := (\<lambda>type. if type = 4 then [Some required_spec, None] else [None, None])\<rparr>,
     lc_state = lint_state, lc_entry = None, lc_entry_spec = None, lc_table = Some table, lc_strict = True,
     lc_locale = (\<lambda>code name. None), lc_value_text = (\<lambda>code text'. text'), lc_attributes = (\<lambda>spec. Some link_attributes),
     lc_end_of_table = 0, lc_additional = 1, lc_entries = (\<lambda>m. []), lc_module_at = (\<lambda>a. example_module 1 ''hpe'' [])\<rparr>"

definition link_options :: dmi_lint_options_t where
  "link_options = \<lparr>lo_profile = DMI_LINT_PROFILE_READER, lo_all = False, lo_version = 0,
     lo_rule_filter = Some (\<lambda>rule. lr_code rule = STR ''link.dangling'' \<or> lr_code rule = STR ''link.wrong-type'')\<rparr>"

lemma lint_context_facts [simp]: "lc_table (lint_context table) = Some table" "lc_attributes (lint_context table) = (\<lambda>spec. Some link_attributes)"
  "lc_entry (lint_context table) = None" "lc_entry_spec (lint_context table) = None" "table_area_address (lc_state (lint_context table)) = 0"
  by (simp_all add: lint_context_def lint_state_def)

lemma no_type_rules: "type_rules_contract (\<lambda>spec. None)"
  by (simp add: type_rules_contract_def)

theorem lint_reports_in_order_witness:
  "fst (dmi_lint (\<lambda>spec. None) True (lint_context example_table) (Some link_registry) empty_queue None True)"
proof -
  obtain ok issues reg' q' where run:
    "dmi_lint (\<lambda>spec. None) True (lint_context example_table) (Some link_registry) empty_queue None True = (ok, issues, reg', q')" by (metis prod_cases4)
  from lint_reports_in_order [OF no_type_rules link_registry_wf run] have "ok \<longleftrightarrow> lc_table (lint_context example_table) \<noteq> None \<and> True"
    by (rule conjunct1)
  then show ?thesis by (simp add: run)
qed

lemma scope_silent:
  "\<forall>rule\<in>set rs. lr_scope rule = scope \<longrightarrow> dmi_lint_check_rule a rule entity = a \<Longrightarrow> dmi_lint_check_scope rs a scope entity = a"
  by (induction rs) simp_all

definition link_start :: dmi_lint_t where
  "link_start = dmi_lint_collect (lint_start (lint_context example_table) link_registry empty_queue (Some link_options) True)"

lemma link_start_state [simp]:
  "li_context link_start = lint_context example_table" "li_registry link_start = link_registry" "li_options link_start = link_options"
  "li_rule link_start = None" "li_issues link_start = []"
  by (simp_all add: link_start_def dmi_lint_collect_def)

lemma link_example_nodes:
  assumes "v \<in> set (structure_nodes link_memory link_attributes 0)"
  shows "ap_targets (at_params (nd_attr v)) = None" and "load_handle link_memory (nd_value v) \<in> {0x1234, 0xFFFF}"
proof -
  have split: "\<exists>f g. structure_nodes link_memory link_attributes 0 = member_nodes link_memory f link_one @ member_nodes link_memory g link_many"
    by (simp add: structure_nodes.simps link_attributes_def dmi_attribute_resolve_def link_one_def link_many_def) blast
  have size: "mr_size (at_value (nd_attr link_many)) = 2" by (simp add: link_many_def link_attributes_def member_node_def)
  have place: "nd_value link_one = 0" "nd_value link_many = 16" by (simp_all add: link_one_def link_many_def link_attributes_def member_node_def)
  have one: "member_nodes link_memory f link_one = [link_one]" for f
    by (simp add: member_nodes_def value_nodes_def link_shapes)
  have elements: "dmi_attribute_get_elements (nd_attr link_many) link_memory 16 = Some 40" "dmi_attribute_get_count (nd_attr link_many) link_memory 0 = 2"
    by (simp_all add: dmi_attribute_get_elements_def dmi_attribute_get_count_def link_shapes link_loads)
  have array: "nd_count (array_node link_many link_memory) = 2" "array_base link_many link_memory = 40" "nd_attr (array_node link_many link_memory) = nd_attr link_many"
    by (simp_all add: array_node_def array_base_def place elements link_shapes)
  have many: "nd_attr v = nd_attr link_many \<and> (nd_value v = 40 \<or> nd_value v = 42)" if "v \<in> set (member_nodes link_memory f link_many)" for f v
  proof -
    have "\<exists>i\<in>{0..<2}. nd_attr v = nd_attr link_many \<and> nd_value v = 40 + i * 2"
      using that unfolding member_nodes_def array size by (auto simp: value_nodes_def link_shapes array)
    then show ?thesis by (auto simp: less_2_cases_iff)
  qed
  obtain f g where "v \<in> set (member_nodes link_memory f link_one) \<or> v \<in> set (member_nodes link_memory g link_many)"
    using assms split by auto
  then have "v = link_one \<or> nd_attr v = nd_attr link_many \<and> (nd_value v = 40 \<or> nd_value v = 42)" using one many by auto
  then show "ap_targets (at_params (nd_attr v)) = None" and "load_handle link_memory (nd_value v) \<in> {0x1234, 0xFFFF}"
    by (auto simp: link_shapes place link_loads)
qed

lemma visits_same: "(\<And>node. node \<in> set ns \<Longrightarrow> f node s = (True, s)) \<Longrightarrow> visit_each f ns s = (True, s)"
  by (induction ns) simp_all

lemma link_example_silent:
  assumes "li_context l = lint_context example_table" and "li_registry l = link_registry"
  shows "dmi_lint_link_dangling l 0 = l" and "dmi_lint_link_wrong_type l 0 = l"
proof -
  have found: "lint_lookup l h \<noteq> None" if "h = 0x1234" for h
    using lint_lookup_result [of l h] that link_registry_wf assms(2)
    by (simp add: link_entry DMI_HANDLE_INVALID_def DMI_HANDLE_UNSUPPORTED_def)
  have nodes: "lint_nodes l 0 = Some (link_memory, structure_nodes link_memory link_attributes 0)"
    by (simp add: lint_nodes_def assms link_entry)
  have "visit_each (dmi_lint_link_visit f 0 link_memory) (structure_nodes link_memory link_attributes 0) l = (True, l)"
    if "f \<in> {dmi_lint_link_check_dangling, dmi_lint_link_check_type}" for f
  proof (rule visits_same)
    fix v assume "v \<in> set (structure_nodes link_memory link_attributes 0)"
    note v = link_example_nodes [OF this]
    show "dmi_lint_link_visit f 0 link_memory v l = (True, l)"
      using that v found
      by (auto simp: dmi_lint_link_visit_def dmi_lint_link_check_dangling_def dmi_lint_link_check_type_def dmi_lint_link_is_set_def DMI_HANDLE_INVALID_def)
  qed
  then show "dmi_lint_link_dangling l 0 = l" and "dmi_lint_link_wrong_type l 0 = l"
    by (simp_all add: dmi_lint_link_dangling_def dmi_lint_link_wrong_type_def dmi_lint_link_walk_def lint_walk_each nodes)
qed

lemmas rule_codes = rule_defs [THEN arg_cong [where f = lr_code], simplified]

lemma link_rule_silent:
  assumes "rule \<in> set dmi_lint_rule_list" and "lr_scope rule = scope" and "scope = DMI_LINT_SCOPE_ENTITY \<longrightarrow> entity = Some 0"
  shows "dmi_lint_check_rule link_start rule entity = link_start"
proof (cases "dmi_lint_enabled link_start rule")
  case True
  then have "lr_code rule = STR ''link.dangling'' \<or> lr_code rule = STR ''link.wrong-type''"
    by (auto simp: dmi_lint_enabled_def link_options_def rule_head_def dmi_lint_rule_t.defs split: if_splits)
  then have rule: "rule = dmi_lint_link_dangling_rule \<or> rule = dmi_lint_link_wrong_type_rule"
    using assms(1) unfolding dmi_lint_rule_list_def by (auto simp: rule_codes)
  then have entity: "entity = Some 0" using assms(2,3) by (auto simp: dmi_lint_link_dangling_rule_def dmi_lint_link_wrong_type_rule_def)
  have "link_start\<lparr>li_rule := None\<rparr> = link_start" by (simp add: link_start_def dmi_lint_collect_def lint_start_def Let_def)
  then show ?thesis using True rule link_example_silent [of "link_start\<lparr>li_rule := Some r\<rparr>" for r]
    by (auto simp: dmi_lint_check_rule_def entity of_entity_def dmi_lint_link_dangling_rule_def dmi_lint_link_wrong_type_rule_def)
qed (simp add: dmi_lint_check_rule_def)

lemma link_run_silent: "lint_run dmi_lint_rule_list (\<lambda>spec. None) (lint_start (lint_context example_table) link_registry empty_queue (Some link_options) True) = link_start"
proof -
  have scope: "dmi_lint_check_scope dmi_lint_rule_list link_start scope entity = link_start"
    if "scope = DMI_LINT_SCOPE_ENTITY \<longrightarrow> entity = Some 0" for scope entity
    using that by (intro scope_silent) (auto intro: link_rule_silent)
  have visits: "lint_visits link_start = [0]" by (simp add: lint_visits_def visit_all_upt link_entry)
  have "check_entity dmi_lint_rule_list (\<lambda>spec. None) link_start 0 = link_start"
    by (simp add: check_entity_def scope dmi_lint_check_rules_def split: option.split)
  then have "dmi_lint_check_entities dmi_lint_rule_list (\<lambda>spec. None) link_start = link_start"
    by (simp add: dmi_lint_check_entities_def visits)
  then show ?thesis by (simp add: lint_run_def Let_def scope flip: link_start_def)
qed

theorem lint_clean_links_witness:
  "fst (dmi_attributes_link (link_env\<lparr>le_types := cx_type_map (lc_context (lint_context example_table))\<rparr>) 0 link_registry empty_queue)"
proof (rule lint_clean_links [OF no_type_rules link_registry_wf, where cx = "lint_context example_table" and options = "Some link_options"
      and issues = "[]" and spec = example_spec and m = link_memory and attrs = link_attributes and q = empty_queue])
  show "dmi_lint (\<lambda>spec. None) True (lint_context example_table) (Some link_registry) empty_queue (Some link_options) True =
      (True, [], Some (li_registry link_start), li_queue link_start)"
    by (simp add: dmi_lint_run link_run_silent)
  show "handles_packed link_memory link_attributes"
    by (simp add: handles_packed_def link_handle_nodes link_shapes) (simp add: link_many_def link_attributes_def member_node_def)
qed (simp_all add: link_options_def rule_head_def dmi_lint_rule_t.defs dmi_lint_link_dangling_rule_def
    dmi_lint_link_wrong_type_rule_def link_entry link_example_apart link_handle_nodes link_shapes link_env_def node_granted_def link_counts)

text \<open>A state which checks the structures of a registry of its own.\<close>

definition lint_at :: "dmi_buffer \<Rightarrow> dmi_memory dmi_registry \<Rightarrow> dmi_lint_rule_t \<Rightarrow> dmi_lint_t" where
  "lint_at table reg rule = (dmi_lint_collect (lint_start (lint_context table) reg empty_queue None True))\<lparr>li_rule := Some rule\<rparr>"

lemma lint_at_keeps:
  assumes "registry_wf reg"
  shows "lint_keeps (dmi_lint_collect (lint_start (lint_context table) reg empty_queue None True)) (lint_at table reg rule)"
    and "li_rule (lint_at table reg rule) = Some rule" and "li_context (lint_at table reg rule) = lint_context table"
    and "li_handler (lint_at table reg rule)" and "li_version (lint_at table reg rule) = 0x030000"
  using assms by (simp_all add: lint_at_def lint_keeps_def dmi_lint_collect_def)
    (simp add: lint_start_def default_options_def lint_context_def lint_state_def Let_def)

theorem lint_string_offset_points_witness:
  "\<exists>lint s. dmi_lint_string_offset lint 0 1 = Some 6 \<and> take (length s + 1) (drop 6 (buffer_bytes example_table)) = s @ [0]"
proof -
  obtain e :: "dmi_memory dmi_entity" where e: "dmi_entity_create (\<lambda>i. True) empty_queue example_table 0 = (Some e, empty_queue)"
    using example_table_created by blast
  note c = entity_create_some(2-4) [OF example_table_wf e] and x = example_table_entity [OF e]
  let ?reg = "\<lparr>rg_capacity = 1, rg_count = 1, rg_index = [[0]], rg_entries = [e], rg_status = 0\<rparr>"
  let ?lint = "lint_start (lint_context example_table) ?reg empty_queue None True"
  have n: "lint_entity ?lint 0 = e" by simp
  have area: "entity_strings_set e ! 0 = 65"
    using c x(1) by (simp add: entity_strings_set_def entity_in_buffer_def example_table_bytes)
  have count: "1 \<le> en_string_count e"
  proof (rule ccontr)
    assume "\<not> ?thesis"
    then have "en_string_count e = 0" by simp
    then have "en_strings e = []" "print_strings (map se_raw (en_strings e)) = entity_strings_set e"
      using c(1-3) area by (auto simp: entity_in_buffer_def)
    then have "entity_strings_set e = [0]" by (simp add: print_strings_def)
    then show False using area by simp
  qed
  have ready: "lc_table (li_context ?lint) = Some example_table" "en_buffer (lint_entity ?lint 0) = example_table"
    "entity_in_buffer (lint_entity ?lint 0)" "1 \<le> en_string_count (lint_entity ?lint 0)" using c count by simp_all
  have "dmi_lint_string_offset ?lint 0 1 = Some 6"
    using c(2,3) x(1) count by (simp add: dmi_lint_string_offset_def dmi_lint_entity_offset_def)
  with lint_string_offset_points [OF ready(1-3) _ ready(4)] show ?thesis by auto
qed

theorem lint_missing_exact_witness:
  "\<exists>l i. i \<in> set (li_issues (dmi_lint_table_required l)) \<and>
    lm_args (is_message i) = [Lint_number 4, Lint_text ''System'']"
proof -
  let ?rule = "rule_head dmi_lint_table_required_rule"
  let ?l = "lint_at example_table link_registry ?rule"
  note l = lint_at_keeps [OF link_registry_wf, of example_table ?rule]
  have spec: "lint_type_spec ?l 4 = Some required_spec"
    by (simp add: lint_type_spec_def l(3) lint_context_def dmi_type_spec_def DMI_TYPE_ID_MAX_def DMI_TYPE_ID_INVALID_def)
  let ?types = "filter (\<lambda>type. (\<forall>e\<in>set (rg_entries link_registry). en_type_id e \<noteq> type) \<and>
      (\<exists>spec. lint_type_spec ?l type = Some spec \<and> required_in (li_version ?l) (sp_params spec))) [0..DMI_TYPE_ID_MAX]"
  have "4 \<in> set ?types"
    using spec by (simp add: DMI_TYPE_ID_MAX_def link_entry link_entity_def l(5) required_in_def required_spec_def example_spec_def)
  then have "missing_of ?l ?rule 4 \<in> set (map (missing_of ?l ?rule) ?types)" unfolding set_map by (rule imageI)
  moreover have "li_issues (dmi_lint_table_required ?l) = li_issues ?l @ map (missing_of ?l ?rule) ?types"
    using arg_cong [OF lint_missing_exact [OF l(1,2), THEN conjunct1], of li_issues] by simp
  ultimately have "missing_of ?l ?rule 4 \<in> set (li_issues (dmi_lint_table_required ?l))" by (simp only: set_append UnI2)
  moreover have "lm_args (is_message (missing_of ?l ?rule 4)) = [Lint_number 4, Lint_text ''System'']"
    by (simp add: missing_of_def dmi_type_name_def spec dmi_spec_name_def l(3) lint_context_def required_spec_def example_spec_def)
  ultimately show ?thesis by blast
qed

definition short_table :: dmi_buffer where
  "short_table = \<lparr>buf_id = 0, buf_data = Some [1, 2, 0x34, 0x12], buf_length = 4, buf_capacity = 4\<rparr>"

lemma short_table_wf: "buffer_wf short_table"
  by (simp add: buffer_wf_def short_table_def buf_memory_def)

lemma short_table_bytes: "buffer_bytes short_table = [1, 2, 0x34, 0x12]"
  by (simp add: buffer_bytes_def short_table_def buf_memory_def)

theorem lint_stop_reported_once_witness:
  "\<exists>l i. li_issues (dmi_lint_table_invalid_header l) = li_issues l @ [i] \<and> is_offset i = Some 0"
proof -
  let ?rule = "rule_head dmi_lint_table_invalid_header_rule"
  obtain reg0 :: "dmi_memory dmi_registry" where reg0: "dmi_registry_create (\<lambda>i. True) empty_queue 0 = (Some reg0, empty_queue)"
    by (simp add: dmi_registry_create_def DMI_REGISTRY_CAPACITY_def)
  note c = registry_create_wf [OF reg0]
  obtain ok reg q where run: "dmi_registry_scan True 0 (\<lambda>i j. True) (\<lambda>i. True) short_table empty_queue reg0 = (ok, reg, q)"
    by (metis prod_cases3)
  have "ok \<and> rg_entries reg = []"
    using run c(2) by (auto simp: dmi_registry_scan_def scan_loop.simps short_table_def split: if_splits prod.splits)
  then have ok: "ok" "rg_entries reg = []" by simp_all
  have wf: "registry_wf reg"
    using registry_scan_result(1) [OF short_table_wf c(1-3) queue_wf_empty run] by (simp add: scan_result_def registry_wf_def)
  have complete: "\<not> scan_complete 0 (rg_entries reg)" by (simp add: scan_complete_def marked_end_def ok(2))
  note l = lint_at_keeps [OF wf, of short_table ?rule]
  have table: "lc_table (lint_context short_table) = Some short_table" by simp
  have short: "short_header (buffer_bytes short_table)" by (simp add: short_header_def short_table_bytes)
  from lint_stop_reported_once [OF short_table_wf queue_wf_empty reg0 _ _ run [unfolded ok(1) [THEN eqTrueI]] complete table l(1,2)]
  obtain stop where "laid_out short_table 0 [] stop \<and> (short_header (drop stop (buffer_bytes short_table)) \<longrightarrow>
      (\<exists>i. li_issues (dmi_lint_table_invalid_header (lint_at short_table reg ?rule)) = li_issues (lint_at short_table reg ?rule) @ [i] \<and> is_offset i = Some stop))"
    by (auto simp: ok(2) split: if_splits)
  then show ?thesis using short by auto
qed

theorem lint_no_entry_reported_witness:
  "\<exists>i\<in>set (fst (snd (dmi_lint (\<lambda>spec. None) True (lint_context example_table) (Some link_registry) empty_queue None True))).
    is_rule i = rule_head dmi_lint_entry_table_addr_rule"
proof -
  obtain ok issues reg' q' where run:
    "dmi_lint (\<lambda>spec. None) True (lint_context example_table) (Some link_registry) empty_queue None True = (ok, issues, reg', q')" by (metis prod_cases4)
  from lint_no_entry_reported [OF no_type_rules link_registry_wf _ _ _ _ _ run] show ?thesis using run by auto
qed

end
