(* ===== verification/Attribute_Format.thy ===== *)
theory Attribute_Format
  imports Attributes Texts Utils
begin

text \<open>
  Values as texts (\<^verbatim>\<open>src/attribute.c\<close> from \<open>dmi_attribute_format\<close> on, \<^verbatim>\<open>src/value.c\<close>). What the functions ask the context and
  the C library for is the environment: whether memory for a text of a size is granted, the catalogue of the locale, the text of a value
  by its key, the size of an address, and the characters a string pointer leads to. A function which fails gives no text.
\<close>

record dmi_format_env =
  fe_room :: "nat \<Rightarrow> bool"
  fe_locale :: locale_string
  fe_value_text :: "string \<Rightarrow> string \<Rightarrow> string"
  fe_address_size :: nat
  fe_string :: "dmi_pointer \<Rightarrow> string"

type_synonym dmi_attribute_format_fn =
  "dmi_format_env \<Rightarrow> dmi_error_queue \<Rightarrow> dmi_attribute \<Rightarrow> dmi_memory \<Rightarrow> nat \<Rightarrow> bool \<Rightarrow> string option \<times> dmi_error_queue"

text \<open>A text in new memory, by \<open>dmi_asprintf\<close> or \<open>strdup\<close>.\<close>

definition new_text :: "dmi_format_env \<Rightarrow> dmi_error_queue \<Rightarrow> string \<Rightarrow> string option \<times> dmi_error_queue" where
  "new_text env q s = (if fe_room env (length s + 1) then (Some s, q) else (None, raise_error q DMI_ERROR_OUT_OF_MEMORY))"

section \<open>Numbers in texts\<close>

text \<open>\<open>%d\<close>, \<open>%X\<close>, \<open>%x\<close> and \<open>%0nX\<close> of \<open>printf\<close>.\<close>

definition format_d :: "int \<Rightarrow> string" where
  "format_d n = (if n < 0 then ''-'' @ format_u (nat (- n)) else format_u (nat n))"

definition hex_digit :: "bool \<Rightarrow> nat \<Rightarrow> char" where
  "hex_digit upper n = char_of (if n < 10 then 48 + n else (if upper then 55 else 87) + n)"

fun format_x :: "bool \<Rightarrow> nat \<Rightarrow> string" where
  "format_x upper n = (if n < 16 then [hex_digit upper n] else format_x upper (n div 16) @ [hex_digit upper (n mod 16)])"

declare format_x.simps [simp del]

definition format_0x :: "nat \<Rightarrow> nat \<Rightarrow> string" where
  "format_0x width n = replicate (width - length (format_x True n)) CHR ''0'' @ format_x True n"

section \<open>Names of values\<close>

definition dmi_bool_names :: dmi_name_set where
  "dmi_bool_names = \<lparr>ns_code = Some ''bool'',
     ns_names = Some [\<lparr>nm_id = 0, nm_code = ''false'', nm_name = ''no''\<rparr>, \<lparr>nm_id = 1, nm_code = ''true'', nm_name = ''yes''\<rparr>],
     ns_ranges = None\<rparr>"

definition dmi_bool_code :: "locale_string \<Rightarrow> bool \<Rightarrow> string option" where
  "dmi_bool_code tr v = dmi_code_lookup tr (Some dmi_bool_names) (if v then 1 else 0)"

definition dmi_bool_name :: "locale_string \<Rightarrow> bool \<Rightarrow> string option" where
  "dmi_bool_name tr v = dmi_name_lookup tr (Some dmi_bool_names) (if v then 1 else 0)"

text \<open>Units are numbered from one in the order of their names.\<close>

definition DMI_UNIT_NONE :: int where "DMI_UNIT_NONE = 0"
definition DMI_UNIT_BYTE :: int where "DMI_UNIT_BYTE = 16"
definition DMI_UNIT_KIBIBYTE :: int where "DMI_UNIT_KIBIBYTE = 20"
definition DMI_UNIT_MEBIBYTE :: int where "DMI_UNIT_MEBIBYTE = 21"
definition DMI_UNIT_GIBIBYTE :: int where "DMI_UNIT_GIBIBYTE = 22"
definition DMI_UNIT_TEBIBYTE :: int where "DMI_UNIT_TEBIBYTE = 23"
definition DMI_UNIT_PEBIBYTE :: int where "DMI_UNIT_PEBIBYTE = 24"
definition DMI_UNIT_EXBIBYTE :: int where "DMI_UNIT_EXBIBYTE = 25"
definition DMI_UNIT_ZEBIBYTE :: int where "DMI_UNIT_ZEBIBYTE = 26"
definition DMI_UNIT_YOBIBYTE :: int where "DMI_UNIT_YOBIBYTE = 27"
definition DMI_UNIT_ROBIBYTE :: int where "DMI_UNIT_ROBIBYTE = 28"
definition DMI_UNIT_QUEBIBYTE :: int where "DMI_UNIT_QUEBIBYTE = 29"

definition dmi_unit_names :: dmi_name_set where
  "dmi_unit_names = \<lparr>ns_code = Some ''unit'',
     ns_names = Some (map2 (\<lambda>n (code, name). \<lparr>nm_id = n, nm_code = code, nm_name = name\<rparr>) [1..39]
       [(''hour'', ''h''), (''minute'', ''m''), (''second'', ''s''), (''millisecond'', ''ms''), (''microsecond'', ''us''),
        (''nanosecond'', ''ns''), (''ampere'', ''A''), (''milliampere'', ''mA''), (''volt'', ''V''), (''millivolt'', ''mV''),
        (''watt'', ''W''), (''milliwatt'', ''mW''), (''watt-hour'', ''W*h''), (''celsius'', [CHR 0xC2, CHR 0xB0, CHR ''C'']),
        (''bit'', ''bits''), (''byte'', ''bytes''), (''kilobyte'', ''KB''), (''megabyte'', ''MB''), (''gigabyte'', ''GB''),
        (''kibibyte'', ''KiB''), (''mebibyte'', ''MiB''), (''gibibyte'', ''GiB''), (''tebibyte'', ''TiB''), (''pebibyte'', ''PiB''),
        (''exbibyte'', ''EiB''), (''zebibyte'', ''ZiB''), (''yobibyte'', ''YiB''), (''robibyte'', ''RiB''), (''quebibyte'', ''QiB''),
        (''baud'', ''baud''), (''megaxa-second'', ''MT/s''), (''kilobit-second'', ''Kbps''), (''megabit-second'', ''Mbps''),
        (''gigabit-second'', ''Gbps''), (''percent'', ''%''), (''revolution'', ''rpm''), (''rack'', ''U''), (''mhz'', ''MHz''),
        (''millimeter'', ''mm'')]),
     ns_ranges = None\<rparr>"

definition dmi_unit_code :: "locale_string \<Rightarrow> int \<Rightarrow> string option" where
  "dmi_unit_code tr v = dmi_code_lookup tr (Some dmi_unit_names) v"

definition dmi_unit_name :: "locale_string \<Rightarrow> int \<Rightarrow> string option" where
  "dmi_unit_name tr v = dmi_name_lookup tr (Some dmi_unit_names) v"

section \<open>Texts of values\<close>

definition dmi_attribute_format_handle :: dmi_attribute_format_fn where
  "dmi_attribute_format_handle env q attr m a pretty =
    new_text env q (''0x'' @ format_0x 4 (unat (load_word (mem_bytes m a 2) :: 16 word)))"

definition dmi_attribute_format_string :: dmi_attribute_format_fn where
  "dmi_attribute_format_string env q attr m a pretty =
    (case load_pointer m a of None \<Rightarrow> (None, q) | Some p \<Rightarrow> new_text env q (fe_string env p))"

definition dmi_attribute_format_bool :: dmi_attribute_format_fn where
  "dmi_attribute_format_bool env q attr m a pretty =
    (let flag = mem_bytes m a 1 \<noteq> [0];
         str = (case ap_values (at_params attr) of
                  None \<Rightarrow> None
                | Some values' \<Rightarrow>
                    if pretty then dmi_name_lookup (fe_locale env) (Some values') (if flag then 1 else 0)
                    else dmi_code_lookup (fe_locale env) (Some values') (if flag then 1 else 0));
         str = (if str = None then (if pretty then dmi_bool_name (fe_locale env) flag else dmi_bool_code (fe_locale env) flag) else str)
     in new_text env q (the str))"

definition dmi_attribute_format_integer :: dmi_attribute_format_fn where
  "dmi_attribute_format_integer env q attr m a pretty =
    (let size' = mr_size (at_value attr)
     in if size' \<noteq> 1 \<and> size' \<noteq> 2 \<and> size' \<noteq> 4 \<and> size' \<noteq> 8 then (None, raise_error q DMI_ERROR_ARGUMENT_INVALID)
        else if has_flag attr DMI_ATTRIBUTE_FLAG_SIGNED then new_text env q (format_d (load_int 0 m a size'))
        else if has_flag attr DMI_ATTRIBUTE_FLAG_HEX then new_text env q (''0x'' @ format_x True (unat (load_uint 0 m a size')))
        else new_text env q (format_u (unat (load_uint 0 m a size'))))"

text \<open>Zeros at the end of the fraction are dropped, but for the last digit.\<close>

fun adjust_scale :: "uintmax_t \<Rightarrow> uintmax_t \<Rightarrow> nat \<Rightarrow> uintmax_t \<times> uintmax_t \<times> nat" where
  "adjust_scale magnitude factor scale =
    (if scale > 1 \<and> magnitude mod 10 = 0 then adjust_scale (magnitude div 10) (factor div 10) (scale - 1)
     else (magnitude, factor, scale))"

declare adjust_scale.simps [simp del]

definition decimal_text :: "bool \<Rightarrow> uintmax_t \<Rightarrow> nat \<Rightarrow> string" where
  "decimal_text negative magnitude scale =
    (case adjust_scale magnitude (ucast (dmi_ipow32 10 scale)) scale of
       (magnitude, factor, scale) \<Rightarrow>
         (if negative then ''-'' else '''') @ format_u (unat (magnitude div factor)) @ ''.'' @ format_0u scale (unat (magnitude mod factor)))"

definition dmi_attribute_format_decimal :: dmi_attribute_format_fn where
  "dmi_attribute_format_decimal env q attr m a pretty =
    (if ap_scale (at_params attr) = 0 then dmi_attribute_format_integer env q attr m a pretty
     else if has_flag attr DMI_ATTRIBUTE_FLAG_SIGNED then
       let src = dmi_attribute_get_int attr m a
       in new_text env q (decimal_text (src < 0) (if src < 0 then - word_of_int src else word_of_int src) (ap_scale (at_params attr)))
     else new_text env q (decimal_text False (dmi_attribute_get_uint attr m a) (ap_scale (at_params attr))))"

text \<open>The units of a size, from the one a number is in.\<close>

fun size_unit :: "int list \<Rightarrow> uintmax_t \<Rightarrow> uintmax_t \<times> int" where
  "size_unit [] size' = (size', DMI_UNIT_NONE)"
| "size_unit (u # us) size' = (if size' < 1024 \<or> size' mod 1024 \<noteq> 0 then (size', u) else size_unit us (drop_bit 10 size'))"

definition size_units :: "int list" where
  "size_units =
    [DMI_UNIT_BYTE, DMI_UNIT_KIBIBYTE, DMI_UNIT_MEBIBYTE, DMI_UNIT_GIBIBYTE, DMI_UNIT_TEBIBYTE, DMI_UNIT_PEBIBYTE, DMI_UNIT_EXBIBYTE,
     DMI_UNIT_ZEBIBYTE, DMI_UNIT_YOBIBYTE, DMI_UNIT_ROBIBYTE, DMI_UNIT_QUEBIBYTE]"

definition dmi_attribute_format_size :: dmi_attribute_format_fn where
  "dmi_attribute_format_size env q attr m a pretty =
    (let size' = dmi_attribute_get_uint attr m a
     in if pretty then
          (case size_unit size_units size' of
             (size', u) \<Rightarrow> new_text env q (format_u (unat size') @ '' '' @ the (dmi_unit_name (fe_locale env) u)))
        else new_text env q (format_u (unat size')))"

definition dmi_attribute_format_addr :: dmi_attribute_format_fn where
  "dmi_attribute_format_addr env q attr m a pretty =
    (let addr = unat (dmi_attribute_get_uint attr m a)
     in new_text env q (''0x'' @ (if fe_address_size env = 4 then format_0x 8 addr else format_0x 16 addr)))"

definition dmi_attribute_format_enum :: dmi_attribute_format_fn where
  "dmi_attribute_format_enum env q attr m a pretty =
    (case ap_values (at_params attr) of
       None \<Rightarrow> (None, raise_error q DMI_ERROR_ARGUMENT_INVALID)
     | Some values' \<Rightarrow>
         let v = (load_word (mem_bytes m a 4) :: 32 word);
             name = (if pretty then dmi_name_lookup (fe_locale env) (Some values') (sint v) else dmi_code_lookup (fe_locale env) (Some values') (sint v))
         in case name of
              Some name \<Rightarrow> new_text env q name
            | None \<Rightarrow>
                if pretty then new_text env q (fe_value_text env ''invalid'' ''<invalid>'' @ '' (0x'' @ format_x False (unat v) @ '')'')
                else new_text env q (''0x'' @ format_x False (unat v)))"

definition dmi_attribute_format_set :: dmi_attribute_format_fn where
  "dmi_attribute_format_set env q attr m a pretty =
    new_text env q (''0x'' @ format_0x (mr_size (at_value attr) * 2) (unat (dmi_attribute_get_uint attr m a)))"

definition dmi_attribute_format_version :: dmi_attribute_format_fn where
  "dmi_attribute_format_version env q attr m a pretty =
    (let version = (load_word (mem_bytes m a 4) :: dmi_version_t);
         major = format_u (unat (dmi_version_major version));
         minor = format_u (unat (dmi_version_minor version));
         revision = format_u (unat (dmi_version_revision version))
     in new_text env q
          (if ap_scale (at_params attr) = 1 then major
           else if ap_scale (at_params attr) = 2 then major @ ''.'' @ minor
           else major @ ''.'' @ minor @ ''.'' @ revision))"

definition dmi_attribute_format_date :: dmi_attribute_format_fn where
  "dmi_attribute_format_date env q attr m a pretty =
    new_text env q (dmi_date_format (load_word (mem_bytes m a 4)))"

definition uuid_text :: "dmi_uuid \<Rightarrow> string" where
  "uuid_text uuid =
    format_0x 8 (unat (bswap32_compat (uuid_time_low uuid))) @ ''-'' @
    format_0x 4 (unat (bswap16_compat (uuid_time_mid uuid))) @ ''-'' @
    format_0x 4 (unat (bswap16_compat (uuid_time_hi_and_version uuid))) @ ''-'' @
    concat (map (\<lambda>b. format_0x 2 (unat b)) (take 2 (drop 8 uuid))) @ ''-'' @
    concat (map (\<lambda>b. format_0x 2 (unat b)) (take 6 (drop 10 uuid)))"

definition dmi_attribute_format_uuid :: dmi_attribute_format_fn where
  "dmi_attribute_format_uuid env q attr m a pretty = new_text env q (uuid_text (mem_bytes m a 16))"

section \<open>Binary data\<close>

type_synonym dmi_binary_format_fn = "dmi_format_env \<Rightarrow> dmi_error_queue \<Rightarrow> byte list \<Rightarrow> string option \<times> dmi_error_queue"

definition dmi_attribute_format_ipv4 :: dmi_binary_format_fn where
  "dmi_attribute_format_ipv4 env q data =
    (if length data \<noteq> 4 then (None, raise_error q DMI_ERROR_ARGUMENT_INVALID)
     else new_text env q
       (format_u (unat (data ! 0)) @ ''.'' @ format_u (unat (data ! 1)) @ ''.'' @ format_u (unat (data ! 2)) @ ''.'' @ format_u (unat (data ! 3))))"

definition ipv6_groups :: "byte list \<Rightarrow> nat list" where
  "ipv6_groups data = map (\<lambda>i. unat (data ! (i * 2)) * 256 + unat (data ! (i * 2 + 1))) [0..<8]"

text \<open>The loop which finds the longest run of zeros, with where the longest one so far starts and its length.\<close>

definition zeros_end :: "nat list \<Rightarrow> nat \<Rightarrow> nat" where
  "zeros_end groups i = i + length (takeWhile (\<lambda>g. g = 0) (drop i groups))"

lemma zeros_end_ge [simp]: "i \<le> zeros_end groups i"
  by (simp add: zeros_end_def)

function zero_run :: "nat list \<Rightarrow> nat \<Rightarrow> nat \<Rightarrow> nat \<Rightarrow> nat \<times> nat" where
  "zero_run groups i start len =
    (if i < length groups then
       let j = zeros_end groups i;
           (start, len) = (if j - i > len then (i, j - i) else (start, len))
       in zero_run groups (if j > i then j else i + 1) start len
     else (start, len))"
  by pat_completeness auto
termination
  by (relation "measure (\<lambda>(groups, i, _). length groups - i)") auto

declare zero_run.simps [simp del]

text \<open>The loop which writes the groups from the index \<open>i\<close> on; the run of zeros is at least one group long.\<close>

function ipv6_loop :: "nat list \<Rightarrow> nat \<Rightarrow> nat \<Rightarrow> nat \<Rightarrow> string" where
  "ipv6_loop groups start len i =
    (if i < length groups then
       if i = start then ''::'' @ ipv6_loop groups start len (i + (len - 1) + 1)
       else (if i > 0 \<and> i \<noteq> start + len then '':'' else '''') @ format_x False (groups ! i) @ ipv6_loop groups start len (i + 1)
     else [])"
  by pat_completeness auto
termination
  by (relation "measure (\<lambda>(groups, start, len, i). length groups - i)") auto

declare ipv6_loop.simps [simp del]

definition DMI_IPV6_TEXT_SIZE :: nat where "DMI_IPV6_TEXT_SIZE = 40"

definition ipv6_text :: "byte list \<Rightarrow> string" where
  "ipv6_text data = (case zero_run (ipv6_groups data) 0 8 1 of (start, len) \<Rightarrow> ipv6_loop (ipv6_groups data) start len 0)"

definition dmi_attribute_format_ipv6 :: dmi_binary_format_fn where
  "dmi_attribute_format_ipv6 env q data =
    (if length data \<noteq> 16 then (None, raise_error q DMI_ERROR_ARGUMENT_INVALID)
     else if \<not> fe_room env DMI_IPV6_TEXT_SIZE then (None, raise_error q DMI_ERROR_OUT_OF_MEMORY)
     else (Some (ipv6_text data), q))"

text \<open>The length of an address in a field which is longer than it.\<close>

function mac_length :: "byte list \<Rightarrow> nat \<Rightarrow> nat" where
  "mac_length data n = (if n > DMI_MAC_ADDR_LENGTH \<and> data ! (n - 1) = 0 then mac_length data (n - 1) else n)"
  by pat_completeness auto
termination
  by (relation "measure snd") (auto simp: DMI_MAC_ADDR_LENGTH_def)

declare mac_length.simps [simp del]

definition binary_size :: "nat \<Rightarrow> char option \<Rightarrow> nat" where
  "binary_size n separator =
    (if n > 0 then n * (if separator \<noteq> None then 3 else 2) + (if separator \<noteq> None then 0 else 1) else 1)"

definition binary_text :: "char option \<Rightarrow> bool \<Rightarrow> byte list \<Rightarrow> string" where
  "binary_text separator upper data =
    concat (map (\<lambda>i. (case separator of Some c \<Rightarrow> if i > 0 then [c] else [] | None \<Rightarrow> []) @
        [hex_digit upper (unat (drop_bit 4 (data ! i))), hex_digit upper (unat (data ! i AND 0x0F))]) [0..<length data])"

definition dmi_attribute_format_binary :: dmi_attribute_format_fn where
  "dmi_attribute_format_binary env q attr m a pretty =
    (let data = binary_bytes (load_binary m a)
     in if has_flag attr DMI_ATTRIBUTE_FLAG_IP \<and> length data = 4 then dmi_attribute_format_ipv4 env q data
        else if has_flag attr DMI_ATTRIBUTE_FLAG_IP \<and> length data = 16 then dmi_attribute_format_ipv6 env q data
        else
          let mac = has_flag attr DMI_ATTRIBUTE_FLAG_MAC;
              separator = (if mac then Some (CHR '':'') else if pretty then Some (CHR '' '') else None);
              n = (if mac then mac_length data (length data) else length data)
          in if \<not> fe_room env (binary_size n separator) then (None, raise_error q DMI_ERROR_OUT_OF_MEMORY)
             else (Some (binary_text separator pretty (take n data)), q))"

section \<open>Attributes\<close>

fun dmi_attribute_type_ops :: "dmi_attribute_type \<Rightarrow> dmi_attribute_format_fn option" where
  "dmi_attribute_type_ops DMI_ATTRIBUTE_TYPE_HANDLE = Some dmi_attribute_format_handle"
| "dmi_attribute_type_ops DMI_ATTRIBUTE_TYPE_STRING = Some dmi_attribute_format_string"
| "dmi_attribute_type_ops DMI_ATTRIBUTE_TYPE_BOOL = Some dmi_attribute_format_bool"
| "dmi_attribute_type_ops DMI_ATTRIBUTE_TYPE_INTEGER = Some dmi_attribute_format_integer"
| "dmi_attribute_type_ops DMI_ATTRIBUTE_TYPE_DECIMAL = Some dmi_attribute_format_decimal"
| "dmi_attribute_type_ops DMI_ATTRIBUTE_TYPE_SIZE = Some dmi_attribute_format_size"
| "dmi_attribute_type_ops DMI_ATTRIBUTE_TYPE_ADDRESS = Some dmi_attribute_format_addr"
| "dmi_attribute_type_ops DMI_ATTRIBUTE_TYPE_ENUM = Some dmi_attribute_format_enum"
| "dmi_attribute_type_ops DMI_ATTRIBUTE_TYPE_SET = Some dmi_attribute_format_set"
| "dmi_attribute_type_ops DMI_ATTRIBUTE_TYPE_VERSION = Some dmi_attribute_format_version"
| "dmi_attribute_type_ops DMI_ATTRIBUTE_TYPE_DATE = Some dmi_attribute_format_date"
| "dmi_attribute_type_ops DMI_ATTRIBUTE_TYPE_UUID = Some dmi_attribute_format_uuid"
| "dmi_attribute_type_ops DMI_ATTRIBUTE_TYPE_BINARY = Some dmi_attribute_format_binary"
| "dmi_attribute_type_ops _ = None"

definition dmi_attribute_format :: dmi_attribute_format_fn where
  "dmi_attribute_format env q attr m a pretty =
    (case dmi_attribute_type_ops (at_type attr) of None \<Rightarrow> (None, q) | Some format \<Rightarrow> format env q attr m a pretty)"

definition dmi_attribute_get_bool :: "dmi_memory \<Rightarrow> nat \<Rightarrow> bool" where
  "dmi_attribute_get_bool m a \<longleftrightarrow> mem_bytes m a 1 \<noteq> [0]"

text \<open>The name of an attribute, with the table of the structure which owns it first unless the name of the table is too long.\<close>

definition dmi_attribute_name :: "locale_string \<Rightarrow> dmi_attribute \<Rightarrow> string option \<Rightarrow> string option" where
  "dmi_attribute_name tr attr owner =
    (case ap_code (at_params attr) of
       None \<Rightarrow> ap_name (at_params attr)
     | Some code \<Rightarrow>
         let translated = (case owner of
               None \<Rightarrow> None
             | Some owner \<Rightarrow> if length (owner @ ''/attribute'') < 128 then tr (owner @ ''/attribute'') code else None);
             translated = (if translated = None then tr ''attribute'' code else translated)
         in if translated \<noteq> None then translated else ap_name (at_params attr))"

end
