(* ===== verification/Format_Properties.thy ===== *)
theory Format_Properties
  imports Attribute_Format
begin

text \<open>
  What the texts of values say: decimals and sizes their exact value, binary data its bytes, in memory of the size that has been asked
  for, and an address of version 6 its groups, in the canonical form.
\<close>

section \<open>Digits\<close>

definition hex_value :: "char \<Rightarrow> nat" where
  "hex_value c = (let n = (of_char c :: nat) in if n \<le> 57 then n - 48 else if n \<le> 70 then n - 55 else n - 87)"

lemma hex_value_digit: "n < 16 \<Longrightarrow> hex_value (hex_digit upper n) = n"
  by (simp add: hex_value_def hex_digit_def Let_def)

lemma hex_digit_plain: "n < 16 \<Longrightarrow> hex_digit upper n \<noteq> CHR '':'' \<and> hex_digit upper n \<noteq> CHR '' ''"
proof -
  assume n: "n < 16"
  have "(of_char (hex_digit upper n) :: nat) \<in> {48..57} \<union> {65..70} \<union> {97..102}" using n by (auto simp: hex_digit_def)
  moreover have "(of_char (CHR '':'') :: nat) = 58" "(of_char (CHR '' '') :: nat) = 32" by simp_all
  ultimately show ?thesis by fastforce
qed

lemma format_x_length: "0 < k \<Longrightarrow> n < 16 ^ k \<Longrightarrow> length (format_x upper n) \<le> k"
proof (induction upper n arbitrary: k rule: format_x.induct)
  case (1 upper n)
  show ?case
  proof (cases "n < 16")
    case False
    then obtain j where k: "k = Suc j" "0 < j" using 1(2,3) by (cases k; cases "k - 1") auto
    have "n div 16 < 16 ^ j" using 1(3) k(1) by (simp add: less_mult_imp_div_less mult.commute)
    then show ?thesis using 1(1) [OF False k(2)] False k(1) by (simp add: format_x.simps [of upper n])
  qed (use 1(2) in \<open>simp add: format_x.simps [of upper n]\<close>)
qed

lemma digit_char: "n < 10 \<Longrightarrow> isdigit (char_of (48 + n)) \<and> digit_value (char_of (48 + n)) = n"
  by (simp add: isdigit_def digit_value_def)

lemma format_u_value: "decimal (format_u n) = n \<and> list_all isdigit (format_u n)"
proof (induction n rule: format_u.induct)
  case (1 n)
  then show ?case
    using digit_char [of n] digit_char [of "n mod 10"] by (subst (1 2) format_u.simps) (simp add: decimal_snoc decimal_def [of "[_]"])
qed

lemma format_u_length: "0 < k \<Longrightarrow> n < 10 ^ k \<Longrightarrow> length (format_u n) \<le> k"
proof (induction n arbitrary: k rule: format_u.induct)
  case (1 n)
  show ?case
  proof (cases "n < 10")
    case False
    then obtain j where k: "k = Suc j" "0 < j" using 1(2,3) by (cases k; cases "k - 1") auto
    have "n div 10 < 10 ^ j" using 1(3) k(1) by (simp add: less_mult_imp_div_less mult.commute)
    then show ?thesis using 1(1) [OF False k(2)] False k(1) by (simp add: format_u.simps [of n])
  qed (use 1(2) in \<open>simp add: format_u.simps [of n]\<close>)
qed

lemma decimal_zeros: "decimal (replicate k CHR ''0'' @ s) = decimal s"
  by (induction k) (simp_all add: decimal_def digit_value_def)

lemma format_0u_value:
  assumes "0 < k" and "n < 10 ^ k"
  shows "length (format_0u k n) = k" and "decimal (format_0u k n) = n" and "list_all isdigit (format_0u k n)"
  using format_u_length [OF assms] format_u_value [of n]
  by (auto simp: format_0u_def decimal_zeros list_all_iff isdigit_def)

section \<open>Decimals\<close>

lemma adjust_scale_exact:
  assumes "adjust_scale magnitude factor scale = (m', f', s')" and "unat factor = 10 ^ scale" and "0 < scale"
  shows "0 < s' \<and> s' \<le> scale \<and> unat f' = 10 ^ s' \<and> unat m' * 10 ^ (scale - s') = unat magnitude \<and> (s' = 1 \<or> unat m' mod 10 \<noteq> 0)"
  using assms
proof (induction magnitude factor scale rule: adjust_scale.induct)
  case (1 magnitude factor scale)
  have ten: "unat (magnitude mod 10) = unat magnitude mod 10" by (simp add: unat_mod)
  show ?case
  proof (cases "scale > 1 \<and> magnitude mod 10 = 0")
    case False
    then have "m' = magnitude" "f' = factor" "s' = scale" using 1(2) by (simp_all add: adjust_scale.simps [of magnitude] split: if_splits)
    moreover have "scale = 1 \<or> unat magnitude mod 10 \<noteq> 0" using False 1(4) ten by (metis One_nat_def less_one linorder_neqE_nat unat_eq_0 gr_implies_not0)
    ultimately show ?thesis using 1(3,4) by simp
  next
    case True
    have run: "adjust_scale (magnitude div 10) (factor div 10) (scale - 1) = (m', f', s')" using 1(2) True by (simp add: adjust_scale.simps [of magnitude])
    have power: "(10 :: nat) ^ scale = 10 * 10 ^ (scale - 1)" using 1(4) by (cases scale) simp_all
    have "unat (factor div 10) = 10 ^ (scale - 1)" using 1(3) power by (simp add: unat_div)
    then have IH: "0 < s' \<and> s' \<le> scale - 1 \<and> unat f' = 10 ^ s' \<and> unat m' * 10 ^ (scale - 1 - s') = unat (magnitude div 10) \<and> (s' = 1 \<or> unat m' mod 10 \<noteq> 0)"
      using 1(1) [OF True run] True by simp
    have "unat magnitude mod 10 = 0" using ten True by (metis unat_0)
    then have tenth: "unat (magnitude div 10) * 10 = unat magnitude" by (simp add: unat_div) (metis add.right_neutral div_mult_mod_eq)
    have "scale - s' = Suc (scale - 1 - s')" using IH True by linarith
    then have "unat m' * 10 ^ (scale - s') = unat (magnitude div 10) * 10" using IH True by (simp add: mult.assoc [symmetric] mult.commute [of 10])
    moreover have "s' \<le> scale" using IH by arith
    ultimately show ?thesis using IH tenth by simp
  qed
qed

lemma ipow_ten: "scale \<le> 9 \<Longrightarrow> unat (ucast (dmi_ipow32 10 scale) :: uintmax_t) = 10 ^ scale"
proof -
  assume "scale \<le> 9"
  then have "scale \<in> {0, 1, 2, 3, 4, 5, 6, 7, 8, 9}" by auto
  moreover have "dmi_ipow32 10 scale = 10 ^ scale" by (simp add: dmi_ipow32_def ipow_loop_power)
  ultimately show ?thesis by (elim insertE) auto
qed

lemma decimal_text_exact:
  assumes "0 < scale" and "scale \<le> 9"
  obtains whole part where "decimal_text negative magnitude scale = (if negative then ''-'' else '''') @ whole @ ''.'' @ part"
    and "list_all isdigit whole" and "list_all isdigit part" and "0 < length part" and "length part \<le> scale"
    and "(decimal whole * 10 ^ length part + decimal part) * 10 ^ (scale - length part) = unat magnitude"
    and "length part = 1 \<or> decimal part mod 10 \<noteq> 0"
proof -
  obtain m f s where adjusted: "adjust_scale magnitude (ucast (dmi_ipow32 10 scale)) scale = (m, f, s)" by (metis prod_cases3)
  note exact = adjust_scale_exact [OF adjusted ipow_ten [OF assms(2)] assms(1)]
  define whole where "whole = format_u (unat (m div f))"
  define part where "part = format_0u s (unat (m mod f))"
  have divided: "unat (m div f) = unat m div 10 ^ s" "unat (m mod f) = unat m mod 10 ^ s" using exact by (simp_all add: unat_div unat_mod)
  have part: "length part = s" "decimal part = unat m mod 10 ^ s" "list_all isdigit part"
    using format_0u_value [of s "unat m mod 10 ^ s"] exact by (simp_all add: part_def divided(2))
  have whole: "decimal whole = unat m div 10 ^ s" "list_all isdigit whole" using format_u_value by (simp_all add: whole_def divided(1))
  have last_digit: "unat m mod 10 ^ s mod 10 = unat m mod 10" using exact by (cases s) (simp_all add: mod_mult2_eq mod_mod_cancel)
  have "decimal whole * 10 ^ length part + decimal part = unat m" unfolding part(1,2) whole(1) by (rule div_mult_mod_eq)
  then show ?thesis
    by (intro that [of whole part]) (use exact part whole last_digit in \<open>simp_all add: decimal_text_def adjusted whole_def part_def\<close>)
qed

section \<open>Binary data\<close>

lemma byte_nibbles: "hex_value (hex_digit upper (unat (drop_bit 4 (b :: byte)))) * 16 + hex_value (hex_digit upper (unat (b AND 0x0F))) = unat b"
proof -
  have "unat (drop_bit 4 b) = unat b div 16" by (simp add: drop_bit_eq_div unat_div)
  moreover have "unat (b AND 0x0F) = unat b mod 16"
  proof -
    have "b AND 0x0F = take_bit 4 b" by (simp add: take_bit_eq_mask mask_eq_exp_minus_1)
    then have "unat (b AND 0x0F) = take_bit 4 (unat b)" by (simp only: unsigned_take_bit_eq)
    then show ?thesis by (simp add: take_bit_eq_mod)
  qed
  moreover have "unat b < 256" using unsigned_less [of b] by simp
  ultimately show ?thesis by (simp add: hex_value_digit less_mult_imp_div_less)
qed

text \<open>What is read of a text: the pairs of digits, with a character between them or not.\<close>

fun text_bytes :: "char option \<Rightarrow> string \<Rightarrow> nat list" where
  "text_bytes separator (c # d # s) = (hex_value c * 16 + hex_value d) # text_bytes separator (if separator \<noteq> None then drop 1 s else s)"
| "text_bytes separator _ = []"

lemma binary_text_Cons:
  "binary_text separator upper (b # data) =
    [hex_digit upper (unat (drop_bit 4 b)), hex_digit upper (unat (b AND 0x0F))] @
    (if data = [] then [] else (case separator of Some c \<Rightarrow> [c] | None \<Rightarrow> []) @ binary_text separator upper data)"
proof -
  have one: "[0..<Suc n] = 0 # map Suc [0..<n]" for n by (simp add: upt_conv_Cons map_Suc_upt del: upt_Suc)
  show ?thesis
  proof (cases data)
    case (Cons c cs)
    have two: "[0..<Suc (Suc n)] = 0 # 1 # map (\<lambda>i. Suc (Suc i)) [0..<n]" for n
      by (simp add: one [of "Suc n"] one [of n] comp_def del: upt_Suc)
    show ?thesis by (simp add: binary_text_def one two comp_def Cons split: option.split del: upt_Suc)
  qed (simp add: binary_text_def split: option.split)
qed

lemma binary_text_Nil [simp]: "binary_text separator upper [] = []"
  by (simp add: binary_text_def)

lemma binary_text_bytes: "text_bytes separator (binary_text separator upper data) = map unat data"
proof (induction data)
  case (Cons b data)
  then show ?case using byte_nibbles [of upper b] by (cases separator) (auto simp: binary_text_Cons)
qed simp

lemma binary_text_size: "length (binary_text separator upper data) + 1 = binary_size (length data) separator"
  by (induction data) (auto simp: binary_text_Cons binary_size_def split: option.split)

lemma mac_length_zeros:
  "mac_length data n \<le> n \<and> (\<forall>i. mac_length data n \<le> i \<longrightarrow> i < n \<longrightarrow> data ! i = 0) \<and>
    (mac_length data n = n \<or> DMI_MAC_ADDR_LENGTH \<le> mac_length data n)"
proof (induction data n rule: mac_length.induct)
  case (1 data n)
  show ?case
  proof (cases "n > DMI_MAC_ADDR_LENGTH \<and> data ! (n - 1) = 0")
    case True
    have "data ! i = 0" if "mac_length data n \<le> i" "i < n" for i
    proof (cases "i = n - 1")
      case False
      then show ?thesis using that 1 [OF True] True by (simp add: mac_length.simps [of data n])
    qed (use True in simp)
    moreover have "mac_length data n \<le> n" using 1 [OF True] True by (simp only: mac_length.simps [of data n]) (simp, linarith)
    moreover have "mac_length data n = mac_length data (n - 1)" using True by (subst mac_length.simps) (simp only: if_True simp_thms)
    moreover have "DMI_MAC_ADDR_LENGTH \<le> n - 1" using True by linarith
    ultimately show ?thesis using 1 [OF True] by metis
  next
    case False
    then have "mac_length data n = n" by (subst mac_length.simps) (simp only: if_False)
    then show ?thesis by simp
  qed
qed

section \<open>Addresses of version 6\<close>

definition zeros_at :: "nat list \<Rightarrow> nat \<Rightarrow> nat \<Rightarrow> bool" where
  "zeros_at groups i k \<longleftrightarrow> i + k \<le> length groups \<and> (\<forall>j<k. groups ! (i + j) = 0)"

text \<open>The run of zeros which is left out of a text: a longest one, of at least two groups, and the first of those.\<close>

definition longest_run :: "nat list \<Rightarrow> nat \<Rightarrow> nat \<Rightarrow> bool" where
  "longest_run groups start len \<longleftrightarrow> 2 \<le> len \<and> zeros_at groups start len \<and>
    (\<forall>i k. zeros_at groups i k \<longrightarrow> k \<le> len \<and> (k = len \<longrightarrow> start \<le> i))"

definition run_before :: "nat list \<Rightarrow> nat \<Rightarrow> nat \<Rightarrow> nat \<Rightarrow> bool" where
  "run_before groups n start len \<longleftrightarrow>
    (len = 1 \<and> start = length groups \<or> 2 \<le> len \<and> zeros_at groups start len \<and> start < n) \<and>
    (\<forall>i k. zeros_at groups i k \<longrightarrow> 2 \<le> k \<longrightarrow> i < n \<longrightarrow> k \<le> len \<and> (k = len \<longrightarrow> start \<le> i))"

lemma zeros_end_run:
  assumes "i \<le> length groups"
  shows "zeros_at groups i (zeros_end groups i - i)" and "zeros_end groups i \<le> length groups"
    and "zeros_end groups i < length groups \<Longrightarrow> groups ! zeros_end groups i \<noteq> 0"
proof -
  define zs where "zs = takeWhile (\<lambda>g. g = 0) (drop i groups)"
  have len: "length zs \<le> length groups - i" using length_takeWhile_le [of "\<lambda>g. g = 0" "drop i groups"] by (simp add: zs_def)
  have "groups ! (i + j) = 0" if "j < length zs" for j
    using that nth_mem [OF that] takeWhile_nth [of j "\<lambda>g. g = 0" "drop i groups"] len assms
    by (auto simp: zs_def dest: set_takeWhileD)
  then show "zeros_at groups i (zeros_end groups i - i)" using len assms by (simp add: zeros_at_def zeros_end_def zs_def)
  show "zeros_end groups i \<le> length groups" using len assms by (simp add: zeros_end_def zs_def)
  show "groups ! zeros_end groups i \<noteq> 0" if "zeros_end groups i < length groups"
    using that nth_length_takeWhile [of "\<lambda>g. g = 0" "drop i groups"] assms by (simp add: zeros_end_def)
qed

lemma run_before_step:
  assumes "run_before groups n start len" and "n < length groups" and "zeros_end groups n = j"
  shows "run_before groups (if j > n then j else n + 1) (if j - n > len then n else start) (if j - n > len then j - n else len)"
proof -
  have n: "n \<le> length groups" using assms(2) by simp
  note run = zeros_end_run [OF n, unfolded assms(3)]
  have nj: "n \<le> j" using assms(3) by auto
  have inside: "k \<le> j - i" if "zeros_at groups i k" "2 \<le> k" "n \<le> i" "i < (if j > n then j else n + 1)" for i k
  proof (rule ccontr)
    assume "\<not> k \<le> j - i"
    then have "i \<le> j" "j < i + k" using that nj by (auto split: if_splits)
    then have "groups ! j = 0" "j < length groups" using that(1) by (auto simp: zeros_at_def dest: spec [of _ "j - i"])
    then show False using run(3) by blast
  qed
  show ?thesis
  proof (cases "j - n > len")
    case True
    have old: "1 \<le> len" using assms(1) by (auto simp: run_before_def)
    have "k \<le> j - n \<and> (k = j - n \<longrightarrow> n \<le> i)" if z: "zeros_at groups i k" "2 \<le> k" "i < j" for i k
    proof (cases "i < n")
      case False
      then show ?thesis using inside [OF z(1,2)] z(3) by simp
    next
      case before: True
      then have "k \<le> len" using assms(1) z by (auto simp: run_before_def)
      then show ?thesis using True by simp
    qed
    moreover have "j > n" using True by simp
    ultimately show ?thesis using True run(1) old by (simp add: run_before_def)
  next
    case False
    let ?n = "if j > n then j else n + 1"
    have "k \<le> len \<and> (k = len \<longrightarrow> start \<le> i)" if z: "zeros_at groups i k" "2 \<le> k" "i < ?n" for i k
    proof (cases "i < n")
      case True
      then show ?thesis using assms(1) z by (auto simp: run_before_def)
    next
      case after: False
      then have k: "k \<le> j - i" using inside [OF z(1,2) _ z(3)] by simp
      then have "k \<le> len" using False after by simp
      moreover have "start \<le> i" if "k = len" using assms(1) that z(2) after by (auto simp: run_before_def)
      ultimately show ?thesis by simp
    qed
    moreover have "start < n \<longrightarrow> start < ?n" by auto
    ultimately show ?thesis using False assms(1) by (auto simp: run_before_def)
  qed
qed

lemma zero_run_found:
  "run_before groups n start len \<Longrightarrow> zero_run groups n start len = (start', len') \<Longrightarrow> \<exists>n'. length groups \<le> n' \<and> run_before groups n' start' len'"
proof (induction groups n start len rule: zero_run.induct)
  case (1 groups n start len)
  show ?case
  proof (cases "n < length groups")
    case True
    let ?j = "zeros_end groups n"
    have next_run: "(if ?j - n > len then (n, ?j - n) else (start, len)) = (if ?j - n > len then n else start, if ?j - n > len then ?j - n else len)" by simp
    show ?thesis
      by (rule 1(1) [OF True refl refl next_run [symmetric] run_before_step [OF 1(2) True refl]])
        (use 1(3) True in \<open>simp add: zero_run.simps [of groups n] Let_def split: if_splits\<close>)
  qed (use 1(2,3) in \<open>intro exI [of _ n], simp add: zero_run.simps [of groups n]\<close>)
qed

lemma zero_run_longest:
  assumes "zero_run groups 0 (length groups) 1 = (start, len)"
  shows "longest_run groups start len \<or> start = length groups \<and> len = 1 \<and> (\<forall>i. \<not> zeros_at groups i 2)"
proof -
  have "run_before groups 0 (length groups) 1" by (simp add: run_before_def)
  from zero_run_found [OF this assms] obtain n where n: "length groups \<le> n" and run: "run_before groups n start len" by blast
  have inside: "i < n" if "zeros_at groups i k" "2 \<le> k" for i k using that n by (simp add: zeros_at_def)
  show ?thesis
  proof (cases "2 \<le> len")
    case True
    have "k \<le> len \<and> (k = len \<longrightarrow> start \<le> i)" if "zeros_at groups i k" for i k
      using run inside [OF that] that True by (cases "2 \<le> k") (auto simp: run_before_def)
    then show ?thesis using run True by (auto simp: longest_run_def run_before_def)
  next
    case False
    then show ?thesis using run inside by (auto simp: run_before_def)
  qed
qed

text \<open>Groups with a colon before each of them, and with one between them.\<close>

definition colons :: "nat list \<Rightarrow> string" where
  "colons groups = concat (map (\<lambda>g. '':'' @ format_x False g) groups)"

definition colon_join :: "nat list \<Rightarrow> string" where
  "colon_join groups = (case groups of [] \<Rightarrow> [] | g # gs \<Rightarrow> format_x False g @ colons gs)"

lemma colons_simps [simp]: "colons [] = []" "colons (g # gs) = '':'' @ format_x False g @ colons gs"
  by (simp_all add: colons_def)

lemma colon_join_simps [simp]: "colon_join [] = []" "colon_join (g # gs) = format_x False g @ colons gs"
  by (simp_all add: colon_join_def)

lemma ipv6_loop_rest:
  assumes "0 < i" and "\<And>k. i \<le> k \<Longrightarrow> k < length groups \<Longrightarrow> k \<noteq> start \<and> k \<noteq> start + len"
  shows "ipv6_loop groups start len i = colons (drop i groups)"
  using assms
proof (induction groups start len i rule: ipv6_loop.induct)
  case (1 groups start len i)
  show ?case
  proof (cases "i < length groups")
    case True
    then have "i \<noteq> start" "i \<noteq> start + len" using 1(4) by auto
    then show ?thesis
      using 1(2) [OF True \<open>i \<noteq> start\<close>] 1(3,4) True by (simp add: ipv6_loop.simps [of groups start len i] Cons_nth_drop_Suc [symmetric])
  qed (simp add: ipv6_loop.simps [of groups start len i])
qed

lemma ipv6_loop_whole:
  assumes "start = length groups" and "groups \<noteq> []"
  shows "ipv6_loop groups start len 0 = colon_join groups"
proof -
  obtain g gs where groups: "groups = g # gs" using assms(2) by (cases groups) auto
  have "ipv6_loop groups start len 1 = colons (drop 1 groups)" by (rule ipv6_loop_rest) (auto simp: assms(1))
  then show ?thesis using assms(1) by (subst ipv6_loop.simps) (simp add: groups)
qed

lemma ipv6_loop_run:
  assumes "i \<le> start" and "start + len \<le> length groups" and "0 < len"
  shows "ipv6_loop groups start len i =
    (if i = 0 then colon_join (take (start - i) (drop i groups)) else colons (take (start - i) (drop i groups))) @ ''::'' @
    colon_join (drop (start + len) groups)"
  using assms
proof (induction groups start len i rule: ipv6_loop.induct)
  case (1 groups start len i)
  have i: "i < length groups" using 1(3-5) by simp
  show ?case
  proof (cases "i = start")
    case True
    have past: "ipv6_loop groups start len (start + len) = colon_join (drop (start + len) groups)"
    proof (cases "start + len < length groups")
      case more: True
      have "ipv6_loop groups start len (start + len + 1) = colons (drop (start + len + 1) groups)" by (rule ipv6_loop_rest) (auto simp: 1(5))
      then show ?thesis using more 1(5) by (simp add: ipv6_loop.simps [of groups start len "start + len"] Cons_nth_drop_Suc [symmetric])
    qed (simp add: ipv6_loop.simps [of groups start len "start + len"])
    have "start + (len - 1) + 1 = start + len" using 1(5) by simp
    then have "ipv6_loop groups start len start = ''::'' @ ipv6_loop groups start len (start + len)"
      using True i by (subst ipv6_loop.simps) (simp only: if_True refl)
    then show ?thesis using True past by simp
  next
    case False
    have "take (start - i) (drop i groups) = groups ! i # take (start - Suc i) (drop (Suc i) groups)"
      using False 1(3) i by (simp add: Cons_nth_drop_Suc [symmetric] take_Cons' Suc_diff_Suc)
    moreover have "ipv6_loop groups start len i = (if i > 0 then '':'' else '''') @ format_x False (groups ! i) @ ipv6_loop groups start len (i + 1)"
      using 1(3) i False by (subst ipv6_loop.simps) simp
    ultimately show ?thesis using 1(2) [OF i False] 1(3-5) False by (cases i) simp_all
  qed
qed

lemma ipv6_groups_length [simp]: "length (ipv6_groups data) = 8"
  by (simp add: ipv6_groups_def)

lemma ipv6_groups_small: "g \<in> set (ipv6_groups data) \<Longrightarrow> g < 65536"
proof -
  assume "g \<in> set (ipv6_groups data)"
  then obtain i where g: "g = unat (data ! (i * 2)) * 256 + unat (data ! (i * 2 + 1))" by (auto simp: ipv6_groups_def)
  have "unat b < 256" for b :: byte using unsigned_less [of b] by simp
  from this [of "data ! (i * 2)"] this [of "data ! (i * 2 + 1)"] show ?thesis unfolding g by linarith
qed

lemma colons_length: "\<forall>g\<in>set groups. g < 65536 \<Longrightarrow> length (colons groups) \<le> 5 * length groups"
proof (induction groups)
  case (Cons g groups)
  then show ?case using format_x_length [of 4 g False] by simp
qed simp

lemma colon_join_length: "\<forall>g\<in>set groups. g < 65536 \<Longrightarrow> length (colon_join groups) \<le> 5 * length groups - 1"
proof (cases groups)
  case (Cons g gs)
  assume "\<forall>g\<in>set groups. g < 65536"
  then show ?thesis using format_x_length [of 4 g False] colons_length [of gs] Cons by simp
qed simp

text \<open>C38. The text of an address of version 6 fits the memory which is asked for it, and it is the canonical one: the groups in small
  hexadecimal digits without zeros before them, a colon between two, and two colons for the first of the longest runs of at least two
  groups which are zero, if there is one.\<close>

theorem ipv6_text_canonical:
  assumes "length data = 16" and "fe_room env DMI_IPV6_TEXT_SIZE"
  shows "\<exists>s. dmi_attribute_format_ipv6 env q data = (Some s, q) \<and> length s + 1 \<le> DMI_IPV6_TEXT_SIZE \<and>
    ((\<forall>i. \<not> zeros_at (ipv6_groups data) i 2) \<and> s = colon_join (ipv6_groups data) \<or>
     (\<exists>start len. longest_run (ipv6_groups data) start len \<and>
        s = colon_join (take start (ipv6_groups data)) @ ''::'' @ colon_join (drop (start + len) (ipv6_groups data))))"
proof -
  let ?gs = "ipv6_groups data"
  obtain start len where found: "zero_run ?gs 0 8 1 = (start, len)" by fastforce
  have small: "\<forall>g\<in>set gs. g < 65536" if "set gs \<subseteq> set ?gs" for gs using that ipv6_groups_small by blast
  consider (none) "start = 8" "\<forall>i. \<not> zeros_at ?gs i 2" | (run) "longest_run ?gs start len"
    using zero_run_longest [of ?gs start len] found unfolding ipv6_groups_length by blast
  then show ?thesis
  proof cases
    case none
    have "?gs \<noteq> []" by (metis ipv6_groups_length length_0_conv zero_neq_numeral)
    then have s: "ipv6_text data = colon_join ?gs" using ipv6_loop_whole [of start ?gs len] none(1) unfolding ipv6_text_def found by simp
    then show ?thesis using none assms colon_join_length [OF small [OF subset_refl]]
      by (simp add: dmi_attribute_format_ipv6_def DMI_IPV6_TEXT_SIZE_def)
  next
    case run: run
    have size: "2 \<le> len" "start + len \<le> 8" using run by (simp_all add: longest_run_def zeros_at_def)
    then have s: "ipv6_text data = colon_join (take start ?gs) @ ''::'' @ colon_join (drop (start + len) ?gs)"
      using ipv6_loop_run [of 0 start len ?gs] found by (simp add: ipv6_text_def)
    have "length (ipv6_text data) + 1 \<le> DMI_IPV6_TEXT_SIZE"
      using colon_join_length [OF small [OF set_take_subset [of start]]] colon_join_length [OF small [OF set_drop_subset [of "start + len"]]] size
      by (simp add: s DMI_IPV6_TEXT_SIZE_def)
    then show ?thesis using s run assms by (intro exI [of _ "ipv6_text data"]) (auto simp: dmi_attribute_format_ipv6_def)
  qed
qed

section \<open>Values of attributes\<close>

lemma sint_bounds: "LENGTH('a) \<le> 64 \<Longrightarrow> - (2 ^ 63) \<le> sint v \<and> sint v < 2 ^ 63" for v :: "'a::len word"
proof -
  assume "LENGTH('a) \<le> 64"
  then have "(2 :: int) ^ (LENGTH('a) - Suc 0) \<le> 2 ^ 63" by (intro power_increasing) auto
  then show ?thesis using sint_greater_eq [of v] sint_less [of v] by linarith
qed

lemma get_int_bounds: "- (2 ^ 63) \<le> dmi_attribute_get_int attr m a \<and> dmi_attribute_get_int attr m a < 2 ^ 63"
proof -
  have "- (2 ^ 63) \<le> sint (load_word bs :: 8 word) \<and> sint (load_word bs :: 8 word) < 2 ^ 63"
    "- (2 ^ 63) \<le> sint (load_word bs :: 16 word) \<and> sint (load_word bs :: 16 word) < 2 ^ 63"
    "- (2 ^ 63) \<le> sint (load_word bs :: 32 word) \<and> sint (load_word bs :: 32 word) < 2 ^ 63"
    "- (2 ^ 63) \<le> sint (load_word bs :: 64 word) \<and> sint (load_word bs :: 64 word) < 2 ^ 63" for bs
    by (rule sint_bounds; simp)+
  then show ?thesis by (simp add: dmi_attribute_get_int_def load_int_def INTMAX_MAX_def del: power_numeral) simp
qed

lemma magnitude_of:
  assumes "- (2 ^ 63) \<le> v" and "v < 2 ^ 63"
  shows "unat (if v < 0 then - word_of_int v else word_of_int v :: uintmax_t) = nat \<bar>v\<bar>"
proof -
  have "uint (word_of_int \<bar>v\<bar> :: uintmax_t) = \<bar>v\<bar>" using assms by (simp add: uint_word_of_int)
  moreover have "(if v < 0 then - word_of_int v else word_of_int v :: uintmax_t) = word_of_int \<bar>v\<bar>" by simp
  ultimately show ?thesis by (simp only: unat_eq_nat_uint)
qed

text \<open>C39. The text of a decimal says its exact value: a sign for the negative ones, the digits of the whole part, a point and the digits
  of the part after it, no more of them than the scale of the attribute, and no zero at the end unless it is the only one.\<close>

theorem decimal_text_value:
  fixes attr m a
  defines "v \<equiv> if has_flag attr DMI_ATTRIBUTE_FLAG_SIGNED then dmi_attribute_get_int attr m a else uint (dmi_attribute_get_uint attr m a)"
  assumes "0 < ap_scale (at_params attr)" and "ap_scale (at_params attr) \<le> 9"
  shows "\<exists>whole part s. s = (if v < 0 then ''-'' else '''') @ whole @ ''.'' @ part \<and>
    dmi_attribute_format_decimal env q attr m a pretty =
      (if fe_room env (length s + 1) then (Some s, q) else (None, raise_error q DMI_ERROR_OUT_OF_MEMORY)) \<and>
    list_all isdigit (whole @ part) \<and> 0 < length part \<and> length part \<le> ap_scale (at_params attr) \<and>
    (decimal whole * 10 ^ length part + decimal part) * 10 ^ (ap_scale (at_params attr) - length part) = nat \<bar>v\<bar> \<and>
    (length part = 1 \<or> decimal part mod 10 \<noteq> 0)"
proof -
  define magnitude :: uintmax_t where "magnitude = (if v < 0 then - word_of_int v else word_of_int v)"
  have magnitude: "unat magnitude = nat \<bar>v\<bar>"
  proof (cases "has_flag attr DMI_ATTRIBUTE_FLAG_SIGNED")
    case True
    then have "v = dmi_attribute_get_int attr m a" by (simp only: v_def if_True)
    then show ?thesis using magnitude_of [of v] get_int_bounds [of attr m a] unfolding magnitude_def by blast
  next
    case False
    then have v: "v = uint (dmi_attribute_get_uint attr m a)" by (simp only: v_def if_False)
    then have "\<not> v < 0" using uint_ge_0 [of "dmi_attribute_get_uint attr m a"] by linarith
    then have "magnitude = dmi_attribute_get_uint attr m a" unfolding magnitude_def v by (simp only: if_False word_of_int_uint)
    then show ?thesis using v by simp
  qed
  obtain whole part where w: "decimal_text (v < 0) magnitude (ap_scale (at_params attr)) = (if v < 0 then ''-'' else '''') @ whole @ ''.'' @ part"
    "list_all isdigit whole" "list_all isdigit part" "0 < length part" "length part \<le> ap_scale (at_params attr)"
    "(decimal whole * 10 ^ length part + decimal part) * 10 ^ (ap_scale (at_params attr) - length part) = unat magnitude"
    "length part = 1 \<or> decimal part mod 10 \<noteq> 0"
    using decimal_text_exact [OF assms(2,3)] by metis
  have "dmi_attribute_format_decimal env q attr m a pretty = new_text env q (decimal_text (v < 0) magnitude (ap_scale (at_params attr)))"
    using assms(2) by (simp add: dmi_attribute_format_decimal_def v_def magnitude_def Let_def)
  then have result: "dmi_attribute_format_decimal env q attr m a pretty =
      (if fe_room env (length ((if v < 0 then ''-'' else '''') @ whole @ ''.'' @ part) + 1)
       then (Some ((if v < 0 then ''-'' else '''') @ whole @ ''.'' @ part), q) else (None, raise_error q DMI_ERROR_OUT_OF_MEMORY))"
    unfolding w(1) new_text_def .
  have "list_all isdigit (whole @ part)" using w(2,3) by simp
  then show ?thesis using result w(4,5,7) w(6) [unfolded magnitude] by blast
qed

text \<open>C40. The text of binary data says its bytes, two digits for each, with a colon between them for a physical address, a space between
  them when the text is for people, and nothing otherwise; what is left out of a physical address is zeros after its first six bytes. The
  memory which is asked for is what the text takes with the zero after it, and without it there is no text.\<close>

theorem binary_text_exact:
  fixes attr m a pretty
  defines "data \<equiv> binary_bytes (load_binary m a)" and "mac \<equiv> has_flag attr DMI_ATTRIBUTE_FLAG_MAC"
  assumes "\<not> has_flag attr DMI_ATTRIBUTE_FLAG_IP"
  shows "\<exists>n s. dmi_attribute_format_binary env q attr m a pretty =
      (if fe_room env (length s + 1) then (Some s, q) else (None, raise_error q DMI_ERROR_OUT_OF_MEMORY)) \<and>
    text_bytes (if mac then Some (CHR '':'') else if pretty then Some (CHR '' '') else None) s = map unat (take n data) \<and>
    n \<le> length data \<and> (\<forall>i. n \<le> i \<longrightarrow> i < length data \<longrightarrow> data ! i = 0) \<and> (mac \<or> n = length data) \<and>
    (n = length data \<or> DMI_MAC_ADDR_LENGTH \<le> n)"
proof -
  let ?separator = "if mac then Some (CHR '':'') else if pretty then Some (CHR '' '') else None"
  define n where "n = (if mac then mac_length data (length data) else length data)"
  have n: "n \<le> length data" "\<forall>i. n \<le> i \<longrightarrow> i < length data \<longrightarrow> data ! i = 0" "mac \<or> n = length data" "n = length data \<or> DMI_MAC_ADDR_LENGTH \<le> n"
    using mac_length_zeros [of data "length data"] by (auto simp: n_def)
  have size: "binary_size n ?separator = length (binary_text ?separator pretty (take n data)) + 1"
    using binary_text_size [of ?separator pretty "take n data"] n(1) by simp
  have "dmi_attribute_format_binary env q attr m a pretty =
      (if \<not> fe_room env (binary_size n ?separator) then (None, raise_error q DMI_ERROR_OUT_OF_MEMORY)
       else (Some (binary_text ?separator pretty (take n data)), q))"
    using assms(3) by (simp only: dmi_attribute_format_binary_def data_def [symmetric] mac_def [symmetric] n_def Let_def simp_thms if_False)
  then show ?thesis using n size binary_text_bytes [of ?separator pretty "take n data"]
    by (intro exI [of _ n] exI [of _ "binary_text ?separator pretty (take n data)"]) simp
qed

section \<open>Examples\<close>

definition format_env :: dmi_format_env where
  "format_env = \<lparr>fe_room = (\<lambda>n. n \<le> 40), fe_locale = (\<lambda>table key. None), fe_value_text = (\<lambda>key default. default), fe_address_size = 8,
     fe_string = (\<lambda>p. [])\<rparr>"

definition format_attribute :: "32 word \<Rightarrow> dmi_attribute" where
  "format_attribute flags = Dmi_attribute \<lparr>mr_offset = 0, mr_size = 2\<rparr> DMI_MEMBER_NULL 0 DMI_ATTRIBUTE_TYPE_DECIMAL
     \<lparr>ap_code = None, ap_name = None, ap_scale = 3, ap_unspec = None, ap_unknown = None, ap_flags = flags, ap_values = None,
      ap_targets = None, ap_link = DMI_MEMBER_NULL, ap_minimum = None, ap_maximum = None, ap_level = 0\<rparr> None None"

text \<open>A memory with the number -1500, and one with six bytes and two zeros after them.\<close>

definition format_memory :: dmi_memory where
  "format_memory = \<lparr>mm_cells = (\<lambda>i. Byte (if i = 0 then 0x24 else if i = 1 then 0xFA else 0)), mm_next = 8\<rparr>"

definition format_data :: dmi_memory where
  "format_data = \<lparr>mm_cells = (\<lambda>i. if i < 8 then Part (Pointer_data 0 0 [0, 0x1B, 0x21, 0xAB, 0xCD, 0xEF, 0, 0]) i else Byte (if i = 8 then 8 else 0)),
     mm_next = 16\<rparr>"

theorem ipv6_text_canonical_witness:
  "\<exists>s. dmi_attribute_format_ipv6 format_env empty_queue [0x20, 1, 0x0D, 0xB8, 0, 0, 0, 0, 0, 0, 0, 0, 0, 0, 0, 1] = (Some s, empty_queue) \<and>
    length s + 1 \<le> DMI_IPV6_TEXT_SIZE \<and> s = ''2001:db8::1''"
proof -
  let ?data = "[0x20, 1, 0x0D, 0xB8, 0, 0, 0, 0, 0, 0, 0, 0, 0, 0, 0, 1] :: byte list"
  obtain s where s: "dmi_attribute_format_ipv6 format_env empty_queue ?data = (Some s, empty_queue)" "length s + 1 \<le> DMI_IPV6_TEXT_SIZE"
    using ipv6_text_canonical [of ?data format_env empty_queue] by (auto simp: format_env_def DMI_IPV6_TEXT_SIZE_def)
  have groups: "ipv6_groups ?data = [0x2001, 0xDB8, 0, 0, 0, 0, 0, 1]" by code_simp
  have "zero_run [0x2001, 0xDB8, 0, 0, 0, 0, 0, 1] 0 8 1 = (2, 5)" by (simp add: zero_run.simps zeros_end_def)
  then have "ipv6_text ?data = ''2001:db8::1''" unfolding ipv6_text_def groups
    by (simp add: ipv6_loop.simps format_x.simps hex_digit_def char_of_def bit_simps)
  then show ?thesis using s by (simp add: dmi_attribute_format_ipv6_def split: if_splits)
qed

theorem decimal_text_value_witness:
  "fst (dmi_attribute_format_decimal format_env empty_queue (format_attribute DMI_ATTRIBUTE_FLAG_SIGNED) format_memory 0 False) = Some ''-1.5'' \<and>
   (\<exists>whole part. ''-1.5'' = ''-'' @ whole @ ''.'' @ part \<and> (decimal whole * 10 ^ length part + decimal part) * 10 ^ (3 - length part) = 1500)"
proof -
  let ?attr = "format_attribute DMI_ATTRIBUTE_FLAG_SIGNED"

  have scale: "ap_scale (at_params ?attr) = 3" by (simp add: format_attribute_def)
  have flag: "has_flag ?attr DMI_ATTRIBUTE_FLAG_SIGNED" by code_simp
  have bytes: "mem_bytes format_memory 0 2 = [0x24, 0xFA]" by code_simp
  have "(load_word [0x24, 0xFA] :: 16 word) = - 1500" by (simp add: load_word_def)
  then have number: "dmi_attribute_get_int ?attr format_memory 0 = - 1500"
    by (simp add: dmi_attribute_get_int_def load_int_def format_attribute_def bytes)
  have factor: "ucast (dmi_ipow32 10 3) = (1000 :: uintmax_t)" by code_simp
  have adjusted: "adjust_scale 1500 1000 3 = (15, 10, 1)"
    by (simp add: adjust_scale.simps [of 1500] adjust_scale.simps [of 150] adjust_scale.simps [of 15])
  have digits: "format_u 1 = ''1''" "format_u 5 = ''5''" by code_simp+
  have "decimal_text True 1500 3 = ''-1.5''"
    by (simp add: decimal_text_def factor adjusted format_0u_def digits [unfolded One_nat_def])
  then have result: "fst (dmi_attribute_format_decimal format_env empty_queue ?attr format_memory 0 False) = Some ''-1.5''"
    by (simp add: dmi_attribute_format_decimal_def scale flag number new_text_def format_env_def)
  obtain whole part s where s: "s = ''-'' @ whole @ ''.'' @ part"
    "dmi_attribute_format_decimal format_env empty_queue ?attr format_memory 0 False =
      (if fe_room format_env (length s + 1) then (Some s, empty_queue) else (None, raise_error empty_queue DMI_ERROR_OUT_OF_MEMORY))"
    "(decimal whole * 10 ^ length part + decimal part) * 10 ^ (3 - length part) = 1500"
    using decimal_text_value [where attr = ?attr and env = format_env and q = empty_queue and m = format_memory and a = 0 and pretty = False]
    by (simp add: scale flag number) blast
  have "s = ''-1.5''" using result s(2) by (simp split: if_splits)
  then show ?thesis using result s by blast
qed

theorem binary_text_exact_witness:
  "fst (dmi_attribute_format_binary format_env empty_queue (format_attribute DMI_ATTRIBUTE_FLAG_MAC) format_data 0 True) = Some ''00:1B:21:AB:CD:EF'' \<and>
   text_bytes (Some (CHR '':'')) ''00:1B:21:AB:CD:EF'' = [0, 0x1B, 0x21, 0xAB, 0xCD, 0xEF]"
proof -
  let ?attr = "format_attribute DMI_ATTRIBUTE_FLAG_MAC"
  have result: "fst (dmi_attribute_format_binary format_env empty_queue ?attr format_data 0 True) = Some ''00:1B:21:AB:CD:EF''" by code_simp
  have flags: "has_flag ?attr DMI_ATTRIBUTE_FLAG_MAC" "\<not> has_flag ?attr DMI_ATTRIBUTE_FLAG_IP" by code_simp+
  have data: "binary_bytes (load_binary format_data 0) = [0, 0x1B, 0x21, 0xAB, 0xCD, 0xEF, 0, 0]" by code_simp
  obtain n s where s: "dmi_attribute_format_binary format_env empty_queue ?attr format_data 0 True =
      (if fe_room format_env (length s + 1) then (Some s, empty_queue) else (None, raise_error empty_queue DMI_ERROR_OUT_OF_MEMORY))"
    "text_bytes (Some (CHR '':'')) s = map unat (take n [0, 0x1B, 0x21, 0xAB, 0xCD, 0xEF, 0, 0 :: byte])"
    using binary_text_exact [OF flags(2), where env = format_env and q = empty_queue and m = format_data and a = 0 and pretty = True] unfolding data by (auto simp: flags(1))
  have text_: "s = ''00:1B:21:AB:CD:EF''" using result s(1) by (simp split: if_splits)
  have "length (text_bytes (Some (CHR '':'')) s) = 6" unfolding text_ by code_simp
  then have "n = 6" using s(2) by (auto simp: min_def split: if_splits)
  then show ?thesis using result s(2) text_ by simp
qed

end
