(* ===== verification/Spec2Isabelle.thy ===== *)
theory Spec2Isabelle
  imports Encoder Writer Utils Base64 Vectors Entry Decoder Modules Registry_Passes Field_Properties Attribute_Visits Anonymizer_Properties Link_Properties Lint_Properties Format_Properties
begin

text \<open>
  A verification development for OpenDMI, a library which reads, decodes, encodes and anonymizes the tables of
  SMBIOS and DMI. All paths are relative to \<^verbatim>\<open>libopendmi\<close>; \<^verbatim>\<open>include\<close> is short for \<^verbatim>\<open>include/opendmi\<close>.

  \<^bold>\<open>How the program works.\<close> A context opens a backend, which gives it an entry point and a table of
  structures, each with a header of type, length and handle, a formatted area and a set of strings. The entry point is decoded
  (\<^verbatim>\<open>src/entry.c\<close>); the registry (\<^verbatim>\<open>src/registry.c\<close>) scans the table into structures (\<^verbatim>\<open>src/entity.c\<close>), lays
  additional information over them, decodes them and links them. A structure is decoded by the specification the
  map of types (\<^verbatim>\<open>src/types.c\<close>, \<^verbatim>\<open>src/module.c\<close>) has for its type on the platform at hand, through a decoder
  (\<^verbatim>\<open>src/decoder.c\<close>), which is a reader (\<^verbatim>\<open>src/reader.c\<close>) of a buffer (\<^verbatim>\<open>src/buffer.c\<close>); a specification either has a handler
  of its own or lists fields for the field engine (\<^verbatim>\<open>src/field.c\<close>, \<^verbatim>\<open>src/field-decode.c\<close>,
  \<^verbatim>\<open>src/field-encode.c\<close>). Encoding goes the other way, through an encoder (\<^verbatim>\<open>src/encoder.c\<close>) over a writer (\<^verbatim>\<open>src/writer.c\<close>).
  What is decoded is described by attributes (\<^verbatim>\<open>src/attribute.c\<close>), which are walked (\<^verbatim>\<open>src/attribute-walk.c\<close>)
  by whoever needs the values, among them the anonymizer (\<^verbatim>\<open>src/anonymize.c\<close>) and the rules a table is checked
  against (\<^verbatim>\<open>src/lint.c\<close>, \<^verbatim>\<open>src/lint\<close>). Errors go into the queue of
  the context (\<^verbatim>\<open>src/error.c\<close>).

  \<^bold>\<open>Conventions.\<close> A C structure is a record with the same members, an enumeration is a datatype or named constants,
  \<^verbatim>\<open>size_t\<close> and the fixed width integers are words; lengths and offsets whose sums cannot wrap are natural
  numbers. A function which changes an object returns it changed, and an operation which fails returns an error: a
  result is \<open>Inl\<close> a fault or \<open>Inr\<close> a value where the object is as it was after a failure, and a tuple with the
  answer, the object and the queue of errors where it is not. The allocator is a parameter: \<open>heap\<close> where new
  memory is looked at, a predicate of the requests where it is only needed. A null pointer given to a function which
  checks for it is not a value of the model, unless it changes what the function does. The host is
  little-endian and has 64 bits. Recursion is bounded by the lists it works on or has a measure; nothing runs on fuel.

  \<^bold>\<open>Foundations.\<close>
  \<^item> \<open>Prelude\<close>: machine types, the allocator, patching of byte lists and generic lemmas.
  \<^item> \<open>Errors\<close> (\<^verbatim>\<open>include/error.h\<close>, \<^verbatim>\<open>src/error.c\<close>): the codes and the ring of the last 64 errors, which refines a bounded list.
  \<^item> \<open>Buffer\<close> (\<^verbatim>\<open>src/buffer.c\<close>), \<open>Vectors\<close> (\<^verbatim>\<open>src/utils/vector.c\<close>): growing memory; both refine lists, whatever the allocator does,
    and a failure leaves them as they were.
  \<^item> \<open>Streams\<close>: the interfaces of a byte source and a byte sink as locales. \<open>Reader\<close> (\<^verbatim>\<open>src/reader.c\<close>) and \<open>Writer\<close>
    (\<^verbatim>\<open>src/writer.c\<close>) interpret them, as do the decoder and the encoder; they stay within their range.
  \<^item> \<open>Codec\<close> (\<^verbatim>\<open>include/utils/codec.h\<close>, \<^verbatim>\<open>src/utils/codec.c\<close>, \<^verbatim>\<open>src/utils/uuid.c\<close>), \<open>Utils\<close> (\<^verbatim>\<open>src/utils.c\<close>), \<open>Base64\<close>
    (\<^verbatim>\<open>src/utils/base64.c\<close>), \<open>Texts\<close> (\<^verbatim>\<open>src/utils/string.c\<close>, \<^verbatim>\<open>src/utils/datetime.c\<close>, \<^verbatim>\<open>src/utils/version.c\<close>), \<open>Names\<close> (\<^verbatim>\<open>src/utils/name.c\<close>):
    byte orders, checksums, encodings, dates and dictionaries, with their round trips.

  \<^bold>\<open>Structures.\<close>
  \<^item> \<open>Entry\<close> (\<^verbatim>\<open>src/entry.c\<close>): which of the three formats an entry point is accepted as, and the state it leads to.
  \<^item> \<open>Entity\<close> (\<^verbatim>\<open>src/entity.c\<close>): creating a structure from the table either gives one which lies in it, strings and all,
    or raises the error its bytes call for; additional information is laid over a copy of the area.
  \<^item> \<open>Decoder\<close> (\<^verbatim>\<open>src/decoder.c\<close>, \<^verbatim>\<open>src/entity.c\<close>): the steps a handler may take, closed under composition
    (\<open>decoder_reach\<close>), and the ways decoding a structure ends with any handler which only takes those steps.
  \<^item> \<open>Encoder\<close> (\<^verbatim>\<open>src/encoder.c\<close>, \<^verbatim>\<open>src/entity.c\<close>): the preserve mode gives back the bytes which have been read, strings are numbered
    in the order of their first use.
  \<^item> \<open>Modules\<close> (\<^verbatim>\<open>src/vendor.c\<close>, \<^verbatim>\<open>src/platform.c\<close>, \<^verbatim>\<open>src/module.c\<close>, \<^verbatim>\<open>src/types.c\<close>, \<^verbatim>\<open>src/context-types.c\<close>): vendors,
    platforms, modules and the map of types; changes of the map are made as a whole or not at all.
  \<^item> \<open>Filters\<close> (\<^verbatim>\<open>src/filter.c\<close>): what a filter built item by item accepts.
  \<^item> \<open>Registry\<close>, \<open>Registry_Laws\<close>, \<open>Registry_Passes\<close> (\<^verbatim>\<open>src/registry.c\<close>): the hash table of structures as a list of them, the scan,
    which finds the structures of the table up to its end and stops where one is malformed, look-up, typed resolution,
    iteration, and the passes which overlay, decode and link. Handlers are parameters with a contract, which
    \<open>Decoder\<close> and \<open>Field_Laws\<close> show to be met.

  \<^bold>\<open>Fields.\<close> \<open>Field_Model\<close> (\<^verbatim>\<open>include/field.h\<close>, \<^verbatim>\<open>src/field.c\<close>) has the description of a structure and the memory a
  decoded one is, whose cells are bytes or parts of pointers, so that reading half a pointer is not a number.
  \<open>Field_Decode\<close> and \<open>Field_Encode\<close> are \<^verbatim>\<open>src/field-decode.c\<close> and \<^verbatim>\<open>src/field-encode.c\<close> function by
  function. \<open>Field_Laws\<close> shows that the engine keeps to the interface of the decoder. \<open>Field_Bits\<close>,
  \<open>Field_Memory\<close>, \<open>Field_Mirror\<close>, \<open>Field_Round\<close>, \<open>Field_Lists\<close>, \<open>Field_Whole\<close> and \<open>Field_Bcd\<close> follow the reading and the
  writing side by side up to the theorem that the bytes of a structure come back; \<open>Field_Properties\<close> states it.
  Arrays, extended fields and binary-coded decimals are not part of that theorem, as the code does not
  promise their bytes back; decimals have one of their own.

  \<^bold>\<open>Attributes and anonymizing.\<close>
  \<^item> \<open>Attributes\<close> (\<^verbatim>\<open>include/attribute.h\<close>, the part of \<^verbatim>\<open>src/attribute.c\<close> which finds and tells values), \<open>Attribute_Walk\<close>
    (\<^verbatim>\<open>src/attribute-walk.c\<close>) with the locale \<open>attribute_visiting\<close>: a relation every callback keeps is kept
    by the walk. \<open>Attribute_Visits\<close> shows that callbacks are nested and which values are given in which order;
    \<open>Attribute_Reads\<close> that a client may change values while it walks.
  \<^item> \<open>Attribute_Format\<close> (\<^verbatim>\<open>src/attribute.c\<close> from \<^verbatim>\<open>dmi_attribute_format\<close> on, \<^verbatim>\<open>src/value.c\<close>): the text of a value of each type.
    The formats of \<^verbatim>\<open>printf\<close> are written out; the messages of the locale, the characters of strings and whether there is memory are
    parameters. \<open>Format_Properties\<close> shows that decimals say their exact value, that binary data can be read back from its text, which takes
    the memory asked for, and that an IPv6 address has its canonical text.
  \<^item> \<open>Anonymize_Values\<close> and \<open>Anonymizer\<close> (\<^verbatim>\<open>src/anonymize.c\<close>): the keyed hash, replacements, and the machine which collects
    private values, writes their replacements into a copy of the table and looks for the values elsewhere.
    \<open>Anonymizer_Laws\<close> interprets the locale of the walk to show that structures come back and writes stay in the copy,
    \<open>Anonymizer_Replacing\<close> shows what a searched range holds afterwards, \<open>Anonymizer_Privacy\<close> interprets the locale again to show that
    every private value is collected, and \<open>Anonymizer_Properties\<close> states the properties, and with them three places where
    the code differs from its documentation: the version of a UUID is not kept on a little-endian host, a value within a
    longer one is written over the longer one's replacement, and the replacement of data may end a string.
  \<^item> \<open>Links\<close> (\<^verbatim>\<open>src/link.c\<close>): handles of a decoded structure are resolved into the structures they stand for; it meets the
    contract of the pass over the registry which links. \<open>Link_Results\<close> turns the walk into a pass over the handle attributes, and
    \<open>Link_Properties\<close> shows when linking succeeds and what every member holds then, and what unlinking undoes.

  \<^bold>\<open>Checking.\<close> A check of a context gathers totals of the table, then asks every rule of the library which is
  enabled, rule by rule for the entry point, structure by structure, and rule by rule for the table, and hands what they find to a handler.
  \<^item> \<open>Lint\<close> (\<^verbatim>\<open>src/lint.c\<close>, \<^verbatim>\<open>include/lint.h\<close>): rules, issues, the state of a check and the engine. The rules are those of
    \<open>Lint_Structures\<close> (\<^verbatim>\<open>src/lint/entity.c\<close>, \<^verbatim>\<open>string.c\<close>, \<^verbatim>\<open>quality.c\<close>), \<open>Lint_Tables\<close> (\<^verbatim>\<open>entry.c\<close>, \<^verbatim>\<open>table.c\<close>), \<open>Lint_Values\<close>
    (\<^verbatim>\<open>value.c\<close>) and \<open>Lint_Links\<close> (\<^verbatim>\<open>link.c\<close>, \<^verbatim>\<open>overlay.c\<close>); \<open>Lint_Rules\<close> lists them in their order. The handler is the list of the issues
    it has been given, and a message is its format with its arguments.
  \<^item> \<open>Lint_Laws\<close>: the locale \<open>lint_rules\<close>, whose law is that a check reports on behalf of its rule and of the structure it is given
    and marks strings at most; it is interpreted on the rules of the library, and the order and origin of the issues of a run follow.
  \<^item> \<open>Lint_Clean\<close>: every enabled check is made, on a state which differs in marks only, so what is not reported is not there.
    \<open>Lint_Properties\<close> states the properties: a table without dangling references and references of the wrong type links; a table which could not
    be read to its end is reported once; missing types are found exactly; offsets of strings are right. One of them shows that a table
    read without an entry point is reported as if the entry point declared no address.

  \<^bold>\<open>Not modelled.\<close> The tables which describe the structures of each type (\<^verbatim>\<open>src/entity/\<close>), which are data the engine
  reads, and the handlers and rules beside them; the session of a context (\<^verbatim>\<open>src/context.c\<close>), which
  opens a backend and calls what is modelled here in its order, and the saving of a dump (\<^verbatim>\<open>src/context-save.c\<close>), most of which is the
  protocol of temporary files; telling the platform from the decoded structures of a table (\<^verbatim>\<open>src/context-extension.c\<close>), which reads
  members of the structures described under \<^verbatim>\<open>src/entity/\<close>; backends, locale, logging, the command line tool, the services and
  the bindings, which are input and output or glue.
\<close>

end
